(* ===== verification/Prelude.thy ===== *)
theory Prelude
  imports Main "HOL-Library.Word" "HOL-Library.AList" "HOL-Library.List_Lexorder"
    "HOL-Library.Char_ord"
begin

text \<open>
  What every theory of the development shares: the result type of a fallible Rust function, the
  machine integers (\<open>u64\<close> as \<^typ>\<open>64 word\<close>, \<open>usize\<close> counters as \<^typ>\<open>nat\<close> with the saturation
  written out), and the two standard-library maps the bridge keeps its state in.

  \<^item> \<open>std::collections::BTreeMap<String, V>\<close> is an association list ordered by key
    (\<open>bt_insert\<close>, \<open>bt_remove\<close>, \<open>bt_retain\<close>). Iteration follows the key order, as in Rust.
  \<^item> \<open>std::collections::HashMap<K, V>\<close> is an association list in some order (\<open>hm_insert\<close> and so on).
    Rust leaves its iteration order open; no result modelled here depends on it.

  The locale \<open>keyed_map\<close> states the contract both maps keep and derives the facts their clients
  use; it is interpreted on both below.
\<close>

named_theorems result_simps \<open>evaluation of the result-passing combinators\<close>
named_theorems map_simps \<open>lookups after an update of a map\<close>
named_theorems map_wf \<open>well-formedness of maps after an update\<close>

section \<open>Results\<close>

text \<open>
  \<open>Result<T, E>\<close> with a third outcome: \<open>Panic\<close> is what a failing \<open>expect\<close> or index does.
  A function \<open>fn f(&mut self, ..) -> Result<T, E>\<close> is a HOL function that returns the result
  together with the new state; on \<open>Err\<close> the state returned is the one the Rust function leaves
  behind, so that a mutation made before an early return stays visible.
\<close>

datatype ('e, 'a) result = Ok 'a | Err 'e | Panic

text \<open>The \<open>?\<close> operator: go on with the value, or return the error with the state as it is.\<close>

definition try_in :: "'s \<Rightarrow> ('e, 'a) result \<Rightarrow> ('a \<Rightarrow> ('e, 'b) result \<times> 's) \<Rightarrow> ('e, 'b) result \<times> 's"
  where
  "try_in s r k = (case r of Ok a \<Rightarrow> k a | Err e \<Rightarrow> (Err e, s) | Panic \<Rightarrow> (Panic, s))"

text \<open>\<open>Option::expect\<close>: a panic where there is no value.\<close>

definition expect_in :: "'s \<Rightarrow> 'a option \<Rightarrow> ('a \<Rightarrow> ('e, 'b) result \<times> 's) \<Rightarrow> ('e, 'b) result \<times> 's"
  where
  "expect_in s x k = (case x of Some a \<Rightarrow> k a | None \<Rightarrow> (Panic, s))"

text \<open>A call of a state-changing function followed by \<open>?\<close>.\<close>

definition call_then :: "('e, 'a) result \<times> 's \<Rightarrow> ('a \<Rightarrow> 's \<Rightarrow> ('e, 'b) result \<times> 's) \<Rightarrow> ('e, 'b) result \<times> 's"
  where
  "call_then x k =
     (case x of (Ok a, s) \<Rightarrow> k a s | (Err e, s) \<Rightarrow> (Err e, s) | (Panic, s) \<Rightarrow> (Panic, s))"

text \<open>The same without a state, for pure functions.\<close>

definition res_bind :: "('e, 'a) result \<Rightarrow> ('a \<Rightarrow> ('e, 'b) result) \<Rightarrow> ('e, 'b) result" where
  "res_bind r k = (case r of Ok a \<Rightarrow> k a | Err e \<Rightarrow> Err e | Panic \<Rightarrow> Panic)"

definition ok_or :: "'e \<Rightarrow> 'a option \<Rightarrow> ('e, 'a) result" where
  "ok_or e x = (case x of None \<Rightarrow> Err e | Some a \<Rightarrow> Ok a)"

definition map_err :: "('e \<Rightarrow> 'f) \<Rightarrow> ('e, 'a) result \<Rightarrow> ('f, 'a) result" where
  "map_err f r = (case r of Ok a \<Rightarrow> Ok a | Err e \<Rightarrow> Err (f e) | Panic \<Rightarrow> Panic)"

fun is_ok :: "('e, 'a) result \<Rightarrow> bool" where
  "is_ok (Ok a) = True"
| "is_ok (Err e) = False"
| "is_ok Panic = False"

lemma try_in_simps [simp, result_simps]:
  "try_in s (Ok a) k = k a"
  "try_in s (Err e) k = (Err e, s)"
  "try_in s Panic k = (Panic, s)"
  by (simp_all add: try_in_def)

lemma expect_in_simps [simp, result_simps]:
  "expect_in s (Some a) k = k a"
  "expect_in s None k = (Panic, s)"
  by (simp_all add: expect_in_def)

lemma call_then_simps [simp, result_simps]:
  "call_then (Ok a, s) k = k a s"
  "call_then (Err e, s) k = (Err e, s)"
  "call_then (Panic, s) k = (Panic, s)"
  by (simp_all add: call_then_def)

lemma res_bind_simps [simp, result_simps]:
  "res_bind (Ok a) g = g a"
  "res_bind (Err e) g = Err e"
  "res_bind Panic g = Panic"
  by (simp_all add: res_bind_def)

lemma ok_or_simps [simp, result_simps]:
  "ok_or e None = Err e"
  "ok_or e (Some a) = Ok a"
  by (simp_all add: ok_or_def)

lemma map_err_simps [simp, result_simps]:
  "map_err f (Ok a) = Ok a"
  "map_err f (Err e) = Err (f e)"
  "map_err f Panic = Panic"
  by (simp_all add: map_err_def)

lemma ok_or_eq_iff [simp]:
  "(ok_or e x = Ok a) = (x = Some a)"
  "(ok_or e x = Err e') = (x = None \<and> e' = e)"
  "ok_or e x \<noteq> Panic"
  by (auto simp: ok_or_def split: option.splits)

lemma res_bind_eq_Ok [simp]: "(res_bind r g = Ok b) = (\<exists>a. r = Ok a \<and> g a = Ok b)"
  by (cases r) auto

lemma try_in_eq_Ok:
  "(try_in s r k = (Ok b, s')) = (\<exists>a. r = Ok a \<and> k a = (Ok b, s'))"
  by (cases r) auto

lemma expect_in_eq_Ok:
  "(expect_in s x k = (Ok b, s')) = (\<exists>a. x = Some a \<and> k a = (Ok b, s'))"
  by (cases x) auto

lemma call_then_eq_Ok:
  "(call_then x k = (Ok b, s')) = (\<exists>a s. x = (Ok a, s) \<and> k a s = (Ok b, s'))"
  by (cases x; cases "fst x") auto

text \<open>What holds of the state a fallible step leaves behind, on every path.\<close>

lemma try_in_snd: "P s \<Longrightarrow> (\<And>a. r = Ok a \<Longrightarrow> P (snd (f a))) \<Longrightarrow> P (snd (try_in s r f))"
  by (cases r) auto

lemma if_snd: "(b \<Longrightarrow> P (snd x)) \<Longrightarrow> (\<not> b \<Longrightarrow> P (snd y)) \<Longrightarrow> P (snd (if b then x else y))"
  by simp

lemma call_then_snd:
  "P (snd x) \<Longrightarrow> (\<And>a s. x = (Ok a, s) \<Longrightarrow> P (snd (k a s))) \<Longrightarrow> P (snd (call_then x k))"
  by (cases x; cases "fst x") auto

section \<open>Machine integers\<close>

type_synonym u64 = "64 word"

text \<open>\<open>x.wrapping_add(1).max(1)\<close>: the successor every revision and generation counter takes.\<close>

definition next_revision :: "u64 \<Rightarrow> u64" where
  "next_revision current = max (current + 1) 1"

lemma next_revision_nonzero [simp]: "next_revision c \<noteq> 0"
  by (auto simp: next_revision_def max_def split: if_splits)

lemma unat_next_revision:
  assumes "unat c < 2 ^ 64 - 1"
  shows "unat (next_revision c) = Suc (unat c)"
proof -
  have "unat (c + 1) = (unat c + 1) mod 2 ^ 64"
    by (simp add: unat_word_ariths)
  with assms have s: "unat (c + 1) = Suc (unat c)" by simp
  then have "(1::u64) \<le> c + 1" by (simp add: word_le_nat_alt)
  with s show ?thesis by (simp add: next_revision_def max_absorb1)
qed

text \<open>\<open>usize\<close> byte counters: \<open>saturating_add\<close> and \<open>saturating_sub\<close> on a 64-bit target.\<close>

definition usize_max :: nat where
  "usize_max = 2 ^ 64 - 1"

definition sat_add :: "nat \<Rightarrow> nat \<Rightarrow> nat" where
  "sat_add a b = min (a + b) usize_max"

definition sat_sub :: "nat \<Rightarrow> nat \<Rightarrow> nat" where
  "sat_sub a b = a - b"

lemma sat_add_exact: "a + b \<le> usize_max \<Longrightarrow> sat_add a b = a + b"
  by (simp add: sat_add_def)

lemma sat_add_le: "sat_add a b \<le> usize_max"
  by (simp add: sat_add_def)

lemma sat_sub_le: "sat_sub a b \<le> a"
  by (simp add: sat_sub_def)

section \<open>Positions in a slice\<close>

text \<open>\<open>Iterator::position\<close> and \<open>Iterator::rposition\<close>: the first and the last index that matches.\<close>

fun position :: "('a \<Rightarrow> bool) \<Rightarrow> 'a list \<Rightarrow> nat option" where
  "position P [] = None"
| "position P (x # xs) = (if P x then Some 0 else map_option Suc (position P xs))"

fun rposition :: "('a \<Rightarrow> bool) \<Rightarrow> 'a list \<Rightarrow> nat option" where
  "rposition P [] = None"
| "rposition P (x # xs) =
     (case rposition P xs of Some i \<Rightarrow> Some (Suc i) | None \<Rightarrow> if P x then Some 0 else None)"

lemma position_None: "position P xs = None \<longleftrightarrow> (\<forall>x \<in> set xs. \<not> P x)"
  by (induction xs) auto

lemma rposition_None: "rposition P xs = None \<longleftrightarrow> (\<forall>x \<in> set xs. \<not> P x)"
  by (induction xs) (auto split: option.splits)

lemma position_Some:
  "position P xs = Some i \<Longrightarrow> i < length xs \<and> P (xs ! i) \<and> (\<forall>j < i. \<not> P (xs ! j))"
  by (induction xs arbitrary: i) (auto split: if_splits simp: less_Suc_eq_0_disj)

lemma position_SomeI:
  "i < length xs \<Longrightarrow> P (xs ! i) \<Longrightarrow> (\<And>j. j < i \<Longrightarrow> \<not> P (xs ! j)) \<Longrightarrow> position P xs = Some i"
proof (induction xs arbitrary: i)
  case Nil
  then show ?case by simp
next
  case (Cons x xs)
  show ?case
  proof (cases i)
    case 0
    with Cons.prems show ?thesis by simp
  next
    case (Suc j)
    have "position P xs = Some j"
    proof (rule Cons.IH)
      show "j < length xs" "P (xs ! j)" using Cons.prems Suc by simp_all
      show "\<not> P (xs ! k)" if "k < j" for k
        using Cons.prems(3) [of "Suc k"] Suc that by simp
    qed
    moreover have "\<not> P x" using Cons.prems(3) [of 0] Suc by simp
    ultimately show ?thesis using Suc by simp
  qed
qed

lemma rposition_Some:
  "rposition P xs = Some i \<Longrightarrow>
     i < length xs \<and> P (xs ! i) \<and> (\<forall>j. i < j \<longrightarrow> j < length xs \<longrightarrow> \<not> P (xs ! j))"
proof (induction xs arbitrary: i)
  case Nil
  then show ?case by simp
next
  case (Cons x xs)
  show ?case
  proof (cases "rposition P xs")
    case None
    with Cons.prems have "i = 0" "P x" and n: "\<forall>y \<in> set xs. \<not> P y"
      by (auto split: if_splits simp: rposition_None [symmetric])
    then show ?thesis by (auto simp: nth_Cons split: nat.splits)
  next
    case (Some j)
    with Cons.prems have "i = Suc j" by simp
    with Cons.IH [OF Some] show ?thesis by (auto simp: nth_Cons split: nat.splits)
  qed
qed

lemma rposition_SomeI:
  "i < length xs \<Longrightarrow> P (xs ! i) \<Longrightarrow> (\<And>j. i < j \<Longrightarrow> j < length xs \<Longrightarrow> \<not> P (xs ! j))
     \<Longrightarrow> rposition P xs = Some i"
proof (cases "rposition P xs")
  case None
  assume "i < length xs" "P (xs ! i)"
  with None show ?thesis by (auto simp: rposition_None)
next
  case (Some k)
  assume a: "i < length xs" "P (xs ! i)"
    and b: "\<And>j. i < j \<Longrightarrow> j < length xs \<Longrightarrow> \<not> P (xs ! j)"
  from rposition_Some [OF Some] a b have "\<not> k < i" "\<not> i < k" by auto
  with Some show ?thesis by simp
qed

lemma rposition_snoc:
  "rposition P (xs @ [x]) = (if P x then Some (length xs) else rposition P xs)"
  by (induction xs) (auto split: option.splits)

lemma rposition_append:
  "rposition P (xs @ ys) =
     (case rposition P ys of Some j \<Rightarrow> Some (length xs + j) | None \<Rightarrow> rposition P xs)"
  by (induction xs) (auto split: option.splits)

lemma rposition_cong: "(\<And>x. x \<in> set xs \<Longrightarrow> P x = Q x) \<Longrightarrow> rposition P xs = rposition Q xs"
  by (induction xs) (auto split: option.splits)

lemma position_cong: "(\<And>x. x \<in> set xs \<Longrightarrow> P x = Q x) \<Longrightarrow> position P xs = position Q xs"
  by (induction xs) auto

text \<open>Replacing an element by one that matches the same way moves no position.\<close>

lemma rposition_list_update:
  assumes "P x = P (xs ! i)"
  shows "rposition P (xs[i := x]) = rposition P xs"
  using assms
  by (induction xs arbitrary: i)
     (auto simp: nth_Cons split: option.splits nat.splits)

lemma position_append_None:
  "\<forall>x \<in> set xs. \<not> P x \<Longrightarrow>
     position P (xs @ ys) = map_option (\<lambda>i. length xs + i) (position P ys)"
proof (induction xs)
  case Nil
  show ?case by (simp add: option.map_ident)
next
  case (Cons x xs)
  then show ?case by (simp add: option.map_comp comp_def)
qed

section \<open>Ordered maps\<close>

type_synonym ('k, 'v) btree_map = "('k \<times> 'v) list"

fun bt_insert :: "'k::linorder \<Rightarrow> 'v \<Rightarrow> ('k, 'v) btree_map \<Rightarrow> ('k, 'v) btree_map" where
  "bt_insert k v [] = [(k, v)]"
| "bt_insert k v ((k', v') # m) =
     (if k < k' then (k, v) # (k', v') # m
      else if k = k' then (k, v) # m
      else (k', v') # bt_insert k v m)"

definition bt_get :: "('k, 'v) btree_map \<Rightarrow> 'k \<Rightarrow> 'v option" where
  "bt_get m k = map_of m k"

definition bt_remove :: "'k \<Rightarrow> ('k, 'v) btree_map \<Rightarrow> ('k, 'v) btree_map" where
  "bt_remove k m = filter (\<lambda>e. fst e \<noteq> k) m"

definition bt_retain :: "('k \<Rightarrow> 'v \<Rightarrow> bool) \<Rightarrow> ('k, 'v) btree_map \<Rightarrow> ('k, 'v) btree_map" where
  "bt_retain P m = filter (\<lambda>e. P (fst e) (snd e)) m"

definition bt_wf :: "('k::linorder, 'v) btree_map \<Rightarrow> bool" where
  "bt_wf m \<longleftrightarrow> sorted_wrt (<) (map fst m)"

lemma set_fst_bt_insert: "fst ` set (bt_insert k v m) = insert k (fst ` set m)"
  by (induction k v m rule: bt_insert.induct) auto

lemma bt_get_insert: "bt_get (bt_insert k v m) = (bt_get m)(k \<mapsto> v)"
proof (induction k v m rule: bt_insert.induct)
  case (1 k v)
  then show ?case by (auto simp: bt_get_def fun_eq_iff)
next
  case (2 k v k' v' m)
  then show ?case by (auto simp: bt_get_def fun_eq_iff)
qed

lemma bt_get_remove: "bt_get (bt_remove k m) = (bt_get m)(k := None)"
  by (induction m) (auto simp: bt_get_def bt_remove_def fun_eq_iff)

lemma bt_wf_insert: "bt_wf m \<Longrightarrow> bt_wf (bt_insert k v m)"
proof (induction k v m rule: bt_insert.induct)
  case (1 k v)
  then show ?case by (simp add: bt_wf_def)
next
  case (2 k v k' v' m)
  have "\<forall>x \<in> fst ` set (bt_insert k v m). k' < x" if "\<not> k < k'" "k \<noteq> k'"
    using 2(2) that by (auto simp: bt_wf_def set_fst_bt_insert)
  with 2 show ?case by (fastforce simp: bt_wf_def)
qed

lemma bt_wf_filter: "bt_wf m \<Longrightarrow> bt_wf (filter P m)"
  by (induction m) (auto simp: bt_wf_def)

lemma bt_get_retain:
  "bt_wf m \<Longrightarrow> bt_get (bt_retain P m) k
     = (case bt_get m k of None \<Rightarrow> None | Some v \<Rightarrow> if P k v then Some v else None)"
proof (induction m)
  case Nil
  then show ?case by (simp add: bt_get_def bt_retain_def)
next
  case (Cons e m)
  have "k = fst e \<Longrightarrow> bt_get m k = None"
    using Cons.prems by (auto simp: bt_wf_def bt_get_def map_of_eq_None_iff)
  with Cons show ?case
    by (cases e) (auto simp: bt_wf_def bt_get_def bt_retain_def split: option.splits)
qed

section \<open>Hash maps\<close>

type_synonym ('k, 'v) hash_map = "('k \<times> 'v) list"

definition hm_get :: "('k, 'v) hash_map \<Rightarrow> 'k \<Rightarrow> 'v option" where
  "hm_get m k = map_of m k"

definition hm_insert :: "'k \<Rightarrow> 'v \<Rightarrow> ('k, 'v) hash_map \<Rightarrow> ('k, 'v) hash_map" where
  "hm_insert k v m = AList.update k v m"

definition hm_remove :: "'k \<Rightarrow> ('k, 'v) hash_map \<Rightarrow> ('k, 'v) hash_map" where
  "hm_remove k m = AList.delete k m"

definition hm_retain :: "('k \<Rightarrow> 'v \<Rightarrow> bool) \<Rightarrow> ('k, 'v) hash_map \<Rightarrow> ('k, 'v) hash_map" where
  "hm_retain P m = filter (\<lambda>e. P (fst e) (snd e)) m"

definition hm_wf :: "('k, 'v) hash_map \<Rightarrow> bool" where
  "hm_wf m \<longleftrightarrow> distinct (map fst m)"

lemma hm_get_retain:
  "hm_wf m \<Longrightarrow> hm_get (hm_retain P m) k
     = (case hm_get m k of None \<Rightarrow> None | Some v \<Rightarrow> if P k v then Some v else None)"
proof (induction m)
  case Nil
  then show ?case by (simp add: hm_get_def hm_retain_def)
next
  case (Cons e m)
  have "k = fst e \<Longrightarrow> hm_get m k = None"
    using Cons.prems by (auto simp: hm_wf_def hm_get_def map_of_eq_None_iff)
  with Cons show ?case
    by (cases e) (auto simp: hm_wf_def hm_get_def hm_retain_def split: option.splits)
qed

lemma hm_wf_filter: "hm_wf m \<Longrightarrow> hm_wf (filter P m)"
  by (induction m) (auto simp: hm_wf_def)

section \<open>The contract of a map\<close>

text \<open>
  What the bridge relies on from either map: insertion and removal change one key, a retain keeps
  exactly the entries that satisfy its predicate, the entries are the lookups, and a map that is
  well formed stays so. \<open>sum_values\<close> is the total of a measure over the stored values, the shape
  of every byte account in the registry.
\<close>

locale keyed_map =
  fixes get :: "('k \<times> 'v) list \<Rightarrow> 'k \<Rightarrow> 'v option"
    and put :: "'k \<Rightarrow> 'v \<Rightarrow> ('k \<times> 'v) list \<Rightarrow> ('k \<times> 'v) list"
    and del :: "'k \<Rightarrow> ('k \<times> 'v) list \<Rightarrow> ('k \<times> 'v) list"
    and retain :: "('k \<Rightarrow> 'v \<Rightarrow> bool) \<Rightarrow> ('k \<times> 'v) list \<Rightarrow> ('k \<times> 'v) list"
    and wf :: "('k \<times> 'v) list \<Rightarrow> bool"
  assumes get_nil: "get [] k = None"
    and get_put: "get (put k v m) = (get m)(k \<mapsto> v)"
    and get_del: "get (del k m) = (get m)(k := None)"
    and get_retain: "wf m \<Longrightarrow>
          get (retain P m) k
            = (case get m k of None \<Rightarrow> None | Some v \<Rightarrow> if P k v then Some v else None)"
    and wf_nil: "wf []"
    and wf_put: "wf m \<Longrightarrow> wf (put k v m)"
    and wf_del: "wf m \<Longrightarrow> wf (del k m)"
    and wf_retain: "wf m \<Longrightarrow> wf (retain P m)"
    and wf_keys: "wf m \<Longrightarrow> distinct (map fst m)"
    and get_entry: "get m k = map_of m k"
begin

lemma get_put_same: "get (put k v m) k = Some v"
  by (simp add: get_put)

lemma get_put_other: "k' \<noteq> k \<Longrightarrow> get (put k v m) k' = get m k'"
  by (simp add: get_put)

lemma get_del_same: "get (del k m) k = None"
  by (simp add: get_del)

lemma get_del_other: "k' \<noteq> k \<Longrightarrow> get (del k m) k' = get m k'"
  by (simp add: get_del)

lemma entry_get: "wf m \<Longrightarrow> (k, v) \<in> set m \<longleftrightarrow> get m k = Some v"
  using wf_keys [of m] by (auto simp: get_entry)

lemma get_mem: "get m k = Some v \<Longrightarrow> (k, v) \<in> set m"
  by (simp add: get_entry map_of_SomeD)

lemma ball_values: "wf m \<Longrightarrow> (\<forall>e \<in> set m. P (fst e) (snd e)) \<longleftrightarrow> (\<forall>k v. get m k = Some v \<longrightarrow> P k v)"
  by (auto simp: entry_get [symmetric])

lemma bex_values: "wf m \<Longrightarrow> (\<exists>e \<in> set m. P (fst e) (snd e)) \<longleftrightarrow> (\<exists>k v. get m k = Some v \<and> P k v)"
  by (force simp: entry_get [symmetric])

lemma sum_values_eq:
  assumes "wf m"
  shows "sum_list (map (\<lambda>e. f (snd e)) m) = (\<Sum>k \<in> dom (get m). f (the (get m k)))"
proof -
  have d: "distinct (map fst m)" using assms by (rule wf_keys)
  then have "distinct m" by (simp add: distinct_map)
  then have "sum_list (map (\<lambda>e. f (snd e)) m) = (\<Sum>e \<in> set m. f (snd e))"
    by (rule sum_list_distinct_conv_sum_set)
  also have "\<dots> = (\<Sum>k \<in> fst ` set m. f (the (get m k)))"
    by (rule sum.reindex_cong [of fst, symmetric])
       (use d in \<open>auto simp: distinct_map get_entry\<close>)
  also have "fst ` set m = dom (get m)"
  proof -
    have "get m = map_of m" by (rule ext) (rule get_entry)
    then show ?thesis by (simp only: dom_map_of_conv_image_fst)
  qed
  finally show ?thesis .
qed

lemma finite_dom_get: "finite (dom (get m))"
proof -
  have "get m = map_of m" by (rule ext) (rule get_entry)
  then show ?thesis by (simp add: finite_dom_map_of)
qed

lemma sum_put_new:
  fixes f :: "'v \<Rightarrow> 'w :: comm_monoid_add"
  assumes "wf m" "get m k = None"
  shows "sum_list (map (\<lambda>e. f (snd e)) (put k v m)) = sum_list (map (\<lambda>e. f (snd e)) m) + f v"
proof -
  have k: "k \<notin> dom (get m)" using assms(2) by auto
  have "(\<Sum>x \<in> dom (get m). f (the (if x = k then Some v else get m x)))
      = (\<Sum>x \<in> dom (get m). f (the (get m x)))"
    by (rule sum.cong) (use k in auto)
  with k show ?thesis
    by (simp add: sum_values_eq assms wf_put get_put finite_dom_get add.commute)
qed

lemma sum_del:
  fixes f :: "'v \<Rightarrow> 'w :: comm_monoid_add"
  assumes "wf m" "get m k = Some v"
  shows "sum_list (map (\<lambda>e. f (snd e)) m) = sum_list (map (\<lambda>e. f (snd e)) (del k m)) + f v"
proof -
  have k: "k \<in> dom (get m)" using assms(2) by auto
  have "(\<Sum>x \<in> dom (get m) - {k}. f (the (if x = k then None else get m x)))
      = (\<Sum>x \<in> dom (get m) - {k}. f (the (get m x)))"
    by (rule sum.cong) auto
  moreover have "dom (get (del k m)) = dom (get m) - {k}"
    by (auto simp: get_del)
  ultimately show ?thesis
    using sum.remove [OF finite_dom_get k, of "\<lambda>x. f (the (get m x))"] assms
    by (simp add: sum_values_eq wf_del get_del add.commute)
qed

lemma sum_put_old:
  fixes f :: "'v \<Rightarrow> 'w :: comm_monoid_add"
  assumes "wf m" "get m k = Some w"
  shows "sum_list (map (\<lambda>e. f (snd e)) (put k v m)) + f w = sum_list (map (\<lambda>e. f (snd e)) m) + f v"
proof -
  have k: "k \<in> dom (get m)" using assms(2) by auto
  have "(\<Sum>x \<in> dom (get m) - {k}. f (the (if x = k then Some v else get m x)))
      = (\<Sum>x \<in> dom (get m) - {k}. f (the (get m x)))"
    by (rule sum.cong) auto
  moreover have "dom (get (put k v m)) = dom (get m)"
    using k by (auto simp: get_put)
  ultimately show ?thesis
    using sum.remove [OF finite_dom_get k, of "\<lambda>x. f (the (get m x))"]
      sum.remove [OF finite_dom_get k, of "\<lambda>x. f (the (get (put k v m) x))"] assms
    by (simp add: sum_values_eq wf_put get_put ac_simps)
qed

end

interpretation bt: keyed_map bt_get bt_insert bt_remove bt_retain "bt_wf :: ('k::linorder \<times> 'v) list \<Rightarrow> bool"
proof unfold_locales
  fix m :: "('k \<times> 'v) list" and P
  assume "bt_wf m"
  then show "bt_wf (bt_remove k m)" for k by (simp add: bt_remove_def bt_wf_filter)
  from \<open>bt_wf m\<close> show "bt_wf (bt_retain P m)" by (simp add: bt_retain_def bt_wf_filter)
  from \<open>bt_wf m\<close> show "distinct (map fst m)"
    by (auto simp: bt_wf_def strict_sorted_iff)
qed (auto simp: bt_get_insert bt_get_remove bt_get_retain bt_wf_insert, auto simp: bt_get_def bt_wf_def)

interpretation hm: keyed_map hm_get hm_insert hm_remove hm_retain hm_wf
  by unfold_locales
     (auto simp: hm_get_retain [unfolded hm_wf_def hm_get_def hm_retain_def] hm_get_def hm_insert_def hm_remove_def hm_wf_def
        update_conv' delete_conv' distinct_update distinct_delete hm_retain_def
        hm_wf_filter [unfolded hm_wf_def])

lemma pred_option_code [code]: "pred_option p None = True" "pred_option p (Some x) = p x"
  by simp_all

section \<open>Runs\<close>

text \<open>
  A component that takes calls one after the other: what each call keeps, every run keeps.
\<close>

locale preserving =
  fixes step :: "'c \<Rightarrow> 's \<Rightarrow> 's" and inv :: "'s \<Rightarrow> bool"
  assumes step_keeps: "inv s \<Longrightarrow> inv (step c s)"
begin

lemma run_keeps: "inv s \<Longrightarrow> inv (fold step cs s)"
  by (induction cs arbitrary: s) (simp_all add: step_keeps)

end

end
