(* ===== verification/Json_Value.thy ===== *)
theory Json_Value
  imports Prelude
begin

text \<open>
  The JSON values of \<open>serde_json::Value\<close>, the data every session update, prompt block, permission
  request and terminal snapshot is made of, and the accessors the bridge uses on them.

  The lock file resolves \<open>serde_json\<close> with insertion-ordered objects (\<open>indexmap\<close>), so an object
  is a list of fields in insertion order: \<open>insert\<close> overwrites in place or appends, \<open>remove\<close> moves
  the last field into the gap. Equality of values ignores the order of fields: it is the function
  \<open>json_eq\<close>, not the equality of the model. Strings are the bytes of their UTF-8 encoding. Numbers
  are the three cases of \<open>serde_json::Number\<close>; a float is its 64-bit pattern.

  Serialization (\<open>serde_json::to_vec\<close>) and SHA-256 are code outside the repository: they are fields of
  the \<open>env\<close> of theory \<open>Environment\<close>.
\<close>

datatype number = PosInt u64 | NegInt int | Float u64

datatype json =
    JNull
  | JBool bool
  | JNum number
  | JStr string
  | JArr "json list"
  | JObj "(string \<times> json) list"

section \<open>Accessors\<close>

text \<open>\<open>Value::get\<close> with a string key, \<open>Value::as_str\<close> and their kin.\<close>

fun json_get :: "json \<Rightarrow> string \<Rightarrow> json option" where
  "json_get (JObj m) k = map_of m k"
| "json_get _ k = None"

fun as_str :: "json \<Rightarrow> string option" where
  "as_str (JStr s) = Some s"
| "as_str _ = None"

fun as_bool :: "json \<Rightarrow> bool option" where
  "as_bool (JBool b) = Some b"
| "as_bool _ = None"

fun as_array :: "json \<Rightarrow> json list option" where
  "as_array (JArr xs) = Some xs"
| "as_array _ = None"

fun as_object :: "json \<Rightarrow> (string \<times> json) list option" where
  "as_object (JObj m) = Some m"
| "as_object _ = None"

fun as_u64 :: "json \<Rightarrow> u64 option" where
  "as_u64 (JNum (PosInt n)) = Some n"
| "as_u64 _ = None"

fun is_null :: "json \<Rightarrow> bool" where
  "is_null JNull = True"
| "is_null _ = False"

fun is_array :: "json \<Rightarrow> bool" where
  "is_array (JArr xs) = True"
| "is_array _ = False"

fun is_string :: "json \<Rightarrow> bool" where
  "is_string (JStr s) = True"
| "is_string _ = False"

text \<open>\<open>value.get(key).and_then(Value::as_str)\<close>, the commonest chain of the code.\<close>

definition get_str :: "json \<Rightarrow> string \<Rightarrow> string option" where
  "get_str v k = Option.bind (json_get v k) as_str"

text \<open>Reading \<open>value[key]\<close>: \<open>Null\<close> where there is no such field.\<close>

definition json_index :: "json \<Rightarrow> string \<Rightarrow> json" where
  "json_index v k = (case json_get v k of Some x \<Rightarrow> x | None \<Rightarrow> JNull)"

section \<open>Updates\<close>

text \<open>\<open>Map::insert\<close> and \<open>Map::remove\<close> of an insertion-ordered object.\<close>

definition obj_insert :: "string \<Rightarrow> json \<Rightarrow> (string \<times> json) list \<Rightarrow> (string \<times> json) list" where
  "obj_insert k v m = AList.update k v m"

fun obj_remove :: "string \<Rightarrow> (string \<times> json) list \<Rightarrow> (string \<times> json) list" where
  "obj_remove k [] = []"
| "obj_remove k ((k', v) # m) =
     (if k = k' then (if m = [] then [] else last m # butlast m) else (k', v) # obj_remove k m)"

text \<open>
  Assigning \<open>value[key] = x\<close>: an object takes the field, \<open>Null\<close> becomes an object with it, any
  other value panics (\<open>None\<close>). \<open>json_set2\<close> is the nested form \<open>value[k1][k2] = x\<close>.
\<close>

fun json_set :: "json \<Rightarrow> string \<Rightarrow> json \<Rightarrow> json option" where
  "json_set JNull k x = Some (JObj [(k, x)])"
| "json_set (JObj m) k x = Some (JObj (obj_insert k x m))"
| "json_set _ k x = None"

definition json_set2 :: "json \<Rightarrow> string \<Rightarrow> string \<Rightarrow> json \<Rightarrow> json option" where
  "json_set2 v k1 k2 x =
     Option.bind (json_set (json_index v k1) k2 x) (\<lambda>inner. json_set v k1 inner)"

text \<open>\<open>value.as_object_mut()\<close> followed by \<open>remove\<close>: only an object changes.\<close>

fun json_remove :: "json \<Rightarrow> string \<Rightarrow> json" where
  "json_remove (JObj m) k = JObj (obj_remove k m)"
| "json_remove v k = v"

section \<open>Equality\<close>

fun number_eq :: "number \<Rightarrow> number \<Rightarrow> bool" where
  "number_eq (PosInt a) (PosInt b) = (a = b)"
| "number_eq (NegInt a) (NegInt b) = (a = b)"
| "number_eq (Float a) (Float b) = (a = b \<or> {a, b} \<subseteq> {0, 2 ^ 63})"
| "number_eq _ _ = False"

lemma json_size_field: "(k, v) \<in> set m \<Longrightarrow> size v < Suc (size_list (size_prod (\<lambda>x. 0) size) m)"
  by (induction m) auto

function json_eq :: "json \<Rightarrow> json \<Rightarrow> bool" where
  "json_eq v w =
     (case v of
        JNull \<Rightarrow> (case w of JNull \<Rightarrow> True | _ \<Rightarrow> False)
      | JBool a \<Rightarrow> (case w of JBool b \<Rightarrow> a = b | _ \<Rightarrow> False)
      | JNum a \<Rightarrow> (case w of JNum b \<Rightarrow> number_eq a b | _ \<Rightarrow> False)
      | JStr a \<Rightarrow> (case w of JStr b \<Rightarrow> a = b | _ \<Rightarrow> False)
      | JArr xs \<Rightarrow>
          (case w of
             JArr ys \<Rightarrow> length xs = length ys \<and> (\<forall>p \<in> set (zip xs ys). json_eq (fst p) (snd p))
           | _ \<Rightarrow> False)
      | JObj m \<Rightarrow>
          (case w of
             JObj n \<Rightarrow>
               length m = length n \<and>
               (\<forall>e \<in> set m. case map_of n (fst e) of None \<Rightarrow> False | Some x \<Rightarrow> json_eq (snd e) x)
           | _ \<Rightarrow> False))"
  by pat_completeness auto
termination
proof (relation "measure (\<lambda>(v, w). size v)", goal_cases)
  case 1
  show ?case by simp
next
  case (2 v w xs ys p)
  then have "fst p \<in> set xs" by (cases p) (auto dest: set_zip_leftD)
  then have "size (fst p) \<le> size_list size xs" by (rule size_list_estimation') simp
  with 2 show ?case by (cases p) simp
next
  case (3 v w m n e x)
  then show ?case by (cases e) (auto dest: json_size_field)
qed

declare json_eq.simps [simp del]

lemma json_eq_simps [simp]:
  "json_eq JNull w = (w = JNull)"
  "json_eq (JBool a) (JBool b) = (a = b)"
  "json_eq (JNum p) (JNum q) = number_eq p q"
  "json_eq (JStr s) w = (w = JStr s)"
  "json_eq (JArr xs) (JArr ys) =
     (length xs = length ys \<and> (\<forall>p \<in> set (zip xs ys). json_eq (fst p) (snd p)))"
  "json_eq (JObj m) (JObj n) =
     (length m = length n \<and>
      (\<forall>e \<in> set m. case map_of n (fst e) of None \<Rightarrow> False | Some x \<Rightarrow> json_eq (snd e) x))"
  by (auto simp: json_eq.simps [of JNull] json_eq.simps [of "JBool a"] json_eq.simps [of "JNum p"]
      json_eq.simps [of "JStr s"] json_eq.simps [of "JArr xs"] json_eq.simps [of "JObj m"]
      split: json.splits)

definition json_list_eq :: "json list \<Rightarrow> json list \<Rightarrow> bool" where
  "json_list_eq xs ys \<longleftrightarrow> list_all2 json_eq xs ys"

text \<open>Every object in the value names each field once, as every map does.\<close>

fun json_wf :: "json \<Rightarrow> bool" where
  "json_wf (JArr xs) = (\<forall>x \<in> set xs. json_wf x)"
| "json_wf (JObj m) = (distinct (map fst m) \<and> (\<forall>e \<in> set m. json_wf (snd e)))"
| "json_wf _ = True"

lemma number_eq_refl [simp]: "number_eq n n"
  by (cases n) auto

lemma json_eq_refl: "json_wf v \<Longrightarrow> json_eq v v"
proof (induction v rule: json_wf.induct)
  case (1 xs)
  have "json_eq (fst p) (snd p)" if "p \<in> set (zip xs xs)" for p
    using 1 that by (cases p) (auto simp: zip_same)
  then show ?case by simp
next
  case (2 m)
  have "case map_of m (fst e) of None \<Rightarrow> False | Some x \<Rightarrow> json_eq (snd e) x" if "e \<in> set m" for e
    using 2 that by (cases e) (auto split: option.splits dest: map_of_is_SomeI)
  then show ?case by simp
qed auto

section \<open>Facts about the accessors\<close>

lemma as_str_eq_Some [simp]: "as_str v = Some s \<longleftrightarrow> v = JStr s"
  by (cases v) auto

lemma as_object_eq_Some [simp]: "as_object v = Some m \<longleftrightarrow> v = JObj m"
  by (cases v) auto

lemma as_array_eq_Some [simp]: "as_array v = Some xs \<longleftrightarrow> v = JArr xs"
  by (cases v) auto

lemma get_str_eq_Some: "get_str v k = Some s \<longleftrightarrow> json_get v k = Some (JStr s)"
  by (auto simp: get_str_def bind_eq_Some_conv)

lemma json_get_Some: "json_get v k = Some x \<longleftrightarrow> (\<exists>m. v = JObj m \<and> map_of m k = Some x)"
  by (cases v) auto

lemma map_of_obj_insert [simp]: "map_of (obj_insert k v m) = (map_of m)(k \<mapsto> v)"
  by (simp add: obj_insert_def update_conv')

lemma obj_remove_mset:
  "distinct (map fst m) \<Longrightarrow> set (obj_remove k m) = {e \<in> set m. fst e \<noteq> k}
     \<and> distinct (map fst (obj_remove k m))"
proof (induction k m rule: obj_remove.induct)
  case (1 k)
  then show ?case by simp
next
  case (2 k k' v m)
  show ?case
  proof (cases "k = k'")
    case True
    show ?thesis
    proof (cases m rule: rev_cases)
      case Nil
      with True show ?thesis by simp
    next
      case (snoc ys y)
      with True 2(2) show ?thesis by auto
    qed
  next
    case False
    with 2 show ?thesis by (auto simp: image_iff)
  qed
qed

lemma map_of_obj_remove:
  assumes "distinct (map fst m)"
  shows "map_of (obj_remove k m) = (map_of m)(k := None)"
proof
  fix j
  have d: "distinct (map fst (obj_remove k m))" and
    s: "set (obj_remove k m) = {e \<in> set m. fst e \<noteq> k}"
    using obj_remove_mset [OF assms] by auto
  have "map_of (obj_remove k m) j = Some x \<longleftrightarrow> ((map_of m)(k := None)) j = Some x" for x
    using d assms s by auto
  then show "map_of (obj_remove k m) j = ((map_of m)(k := None)) j"
    by (metis option.exhaust)
qed

lemma json_index_eq: "json_get v k = Some x \<Longrightarrow> json_index v k = x"
  by (simp add: json_index_def)

lemma as_str_json_index: "as_str (json_index v k) = get_str v k"
  by (auto simp: json_index_def get_str_def split: option.splits)

lemma json_eq_index_str [simp]: "json_eq (json_index v k) (JStr s) \<longleftrightarrow> get_str v k = Some s"
proof -
  have "json_eq w (JStr s) \<longleftrightarrow> w = JStr s" for w
    by (cases w) (auto simp: json_eq.simps [of "JArr _"] json_eq.simps [of "JObj _"]
        json_eq.simps [of "JBool _"] json_eq.simps [of "JNum _"])
  then show ?thesis by (auto simp: json_index_def get_str_eq_Some split: option.splits)
qed

lemma set_obj_insert: "e \<in> set (obj_insert k v m) \<Longrightarrow> e = (k, v) \<or> e \<in> set m"
  unfolding obj_insert_def by (induction m) (auto split: if_splits)

lemma json_wf_obj_insert [intro]:
  "json_wf (JObj m) \<Longrightarrow> json_wf v \<Longrightarrow> json_wf (JObj (obj_insert k v m))"
  by (auto simp: obj_insert_def distinct_update dest: set_obj_insert [unfolded obj_insert_def])

lemma json_wf_get: "json_wf v \<Longrightarrow> json_get v k = Some x \<Longrightarrow> json_wf x"
  by (cases v) (auto dest: map_of_SomeD)

lemma json_wf_remove [intro]: "json_wf v \<Longrightarrow> json_wf (json_remove v k)"
  by (cases v) (auto simp: obj_remove_mset)

lemma json_get_remove: "json_wf v \<Longrightarrow> json_get (json_remove v k) j = (if j = k then None else json_get v j)"
  by (cases v) (auto simp: map_of_obj_remove)

lemma json_set_wf: "json_set v k x = Some v' \<Longrightarrow> json_wf v \<Longrightarrow> json_wf x \<Longrightarrow> json_wf v'"
  by (cases v) (auto simp del: json_wf.simps(2), simp)

lemma json_get_set:
  "json_set v k x = Some v' \<Longrightarrow> json_get v' j = (if j = k then Some x else json_get v j)"
  by (cases v) auto

lemma json_set2_wf: "json_set2 v k1 k2 x = Some v' \<Longrightarrow> json_wf v \<Longrightarrow> json_wf x \<Longrightarrow> json_wf v'"
proof -
  assume a: "json_set2 v k1 k2 x = Some v'" "json_wf v" "json_wf x"
  have "json_wf (json_index v k1)"
    using a(2) by (auto simp: json_index_def dest: json_wf_get split: option.splits)
  with a show ?thesis by (auto simp: json_set2_def bind_eq_Some_conv intro: json_set_wf)
qed

text \<open>A nested assignment into an object field of an object.\<close>

lemma json_set2_obj:
  assumes "json_get v k1 = Some (JObj c)"
  shows "\<exists>v'. json_set2 v k1 k2 x = Some v' \<and>
      json_get v' = (json_get v)(k1 \<mapsto> JObj (obj_insert k2 x c))"
proof -
  from assms obtain m where v: "v = JObj m" "map_of m k1 = Some (JObj c)"
    by (cases v) auto
  then show ?thesis by (auto simp: json_set2_def json_index_def fun_eq_iff)
qed

end
