(* ===== verification/Turn_Fold.thy ===== *)
theory Turn_Fold
  imports Json_Value
begin

text \<open>
  The fold of one session update into the retained updates of a turn
  (\<open>fold_shared_active_turn_update\<close> and its helpers, \<open>src/src/runtime_state.rs\<close>), and the fold of
  a control update into the last one of its kind. The Bridge, the history cache and the Hub all
  fold with these functions.

  Streamed text chunks merge with the last entry, tool updates replace the fields of the entry
  with their tool id, plans replace their slot. The shared \<open>Arc\<close>s of the Rust code are
  copy-on-write and never observed through a second owner, so a retained list is a list of values.
\<close>

datatype runtime_error =
    EpochMismatch
  | UnknownSession
  | StaleIncarnation
  | BusySession
  | NoActiveTurn
  | OperationMismatch
  | UnknownInteraction
  | SessionNotActive
  | OperationCollision
  | InteractionCollision

section \<open>Helpers\<close>

definition update_kind :: "json \<Rightarrow> string option" where
  "update_kind u = get_str u ''sessionUpdate''"

definition is_chunk_kind :: "string \<Rightarrow> bool" where
  "is_chunk_kind k \<longleftrightarrow> k \<in> {''user_message_chunk'', ''agent_message_chunk'', ''agent_thought_chunk''}"

definition is_tool_kind :: "string \<Rightarrow> bool" where
  "is_tool_kind k \<longleftrightarrow> k \<in> {''tool_call'', ''tool_call_update''}"

definition required_fold_string :: "json \<Rightarrow> string \<Rightarrow> (runtime_error, string) result" where
  "required_fold_string v field =
     (case get_str v field of
        Some s \<Rightarrow> if s = '''' then Err OperationMismatch else Ok s
      | None \<Rightarrow> Err OperationMismatch)"

text \<open>
  A text chunk is its text and its shape: the update with the text emptied and a null
  \<open>messageId\<close> removed. Two chunks merge when their shapes are equal.
\<close>

definition text_chunk_shape :: "json \<Rightarrow> (runtime_error, (json \<times> string) option) result" where
  "text_chunk_shape update =
     (if (case update_kind update of Some k \<Rightarrow> \<not> is_chunk_kind k | None \<Rightarrow> True) then Ok None
      else res_bind (ok_or OperationMismatch
             (map_option JObj (Option.bind (json_get update ''content'') as_object))) (\<lambda>content.
        res_bind (ok_or OperationMismatch (get_str content ''type'')) (\<lambda>content_type.
        if (case json_get update ''messageId'' of
              Some m \<Rightarrow> \<not> is_null m \<and> \<not> is_string m
            | None \<Rightarrow> False) then Err OperationMismatch
        else if content_type \<noteq> ''text'' then Ok None
        else res_bind (ok_or OperationMismatch (get_str content ''text'')) (\<lambda>text.
          let shape = (case json_get update ''messageId'' of
                         Some m \<Rightarrow> if is_null m then json_remove update ''messageId'' else update
                       | None \<Rightarrow> update)
          in case json_set2 shape ''content'' ''text'' (JStr '''') of
               Some shape' \<Rightarrow> Ok (Some (shape', text))
             | None \<Rightarrow> Panic))))"

definition replace_tool_fields :: "json \<Rightarrow> json \<Rightarrow> (runtime_error, json) result" where
  "replace_tool_fields target patch =
     res_bind (ok_or OperationMismatch (as_object target)) (\<lambda>t.
     res_bind (ok_or OperationMismatch (as_object patch)) (\<lambda>p.
       Ok (JObj (fold (\<lambda>e m. if is_null (snd e) then m else obj_insert (fst e) (snd e) m) p t))))"

definition replace_shared_fold_slot :: "(json \<Rightarrow> bool) \<Rightarrow> json \<Rightarrow> json list \<Rightarrow> json list" where
  "replace_shared_fold_slot matches_slot update folded =
     (case position matches_slot folded of
        Some i \<Rightarrow> folded[i := update]
      | None \<Rightarrow> folded @ [update])"

text \<open>The slot of a tool id, of the plan, and of a plan id.\<close>

definition is_tool_slot :: "string \<Rightarrow> json \<Rightarrow> bool" where
  "is_tool_slot tool_id candidate \<longleftrightarrow>
     (case update_kind candidate of Some k \<Rightarrow> is_tool_kind k | None \<Rightarrow> False) \<and>
     get_str candidate ''toolCallId'' = Some tool_id"

definition is_plan_slot :: "json \<Rightarrow> bool" where
  "is_plan_slot candidate \<longleftrightarrow> update_kind candidate = Some ''plan''"

definition is_plan_update_slot :: "string \<Rightarrow> json \<Rightarrow> bool" where
  "is_plan_update_slot plan_id candidate \<longleftrightarrow>
     update_kind candidate = Some ''plan_update'' \<and>
     Option.bind (json_get candidate ''plan'') (\<lambda>p. get_str p ''planId'') = Some plan_id"

section \<open>The fold\<close>

definition fold_text_chunk :: "json list \<Rightarrow> json \<Rightarrow> (runtime_error, json list) result" where
  "fold_text_chunk retained update =
     res_bind (text_chunk_shape update) (\<lambda>s.
       case s of
         None \<Rightarrow> Ok (retained @ [update])
       | Some (shape, text) \<Rightarrow>
           if retained = [] then Ok (retained @ [update])
           else
             res_bind (text_chunk_shape (last retained)) (\<lambda>ps.
               if (case ps of Some (pshape, ptext) \<Rightarrow> json_eq pshape shape | None \<Rightarrow> False) then
                 res_bind (ok_or OperationMismatch
                     (Option.bind (json_get (last retained) ''content'') (\<lambda>c. get_str c ''text''))) (\<lambda>previous_text.
                   case json_set2 (last retained) ''content'' ''text'' (JStr (previous_text @ text)) of
                     Some merged \<Rightarrow> Ok (butlast retained @ [merged])
                   | None \<Rightarrow> Panic)
               else Ok (retained @ [update])))"

text \<open>The entry a tool update leaves in its slot.\<close>

definition merge_tool_update :: "json \<Rightarrow> json \<Rightarrow> string \<Rightarrow> string \<Rightarrow> (runtime_error, json) result" where
  "merge_tool_update retained update kind tool_id =
     res_bind (replace_tool_fields retained update) (\<lambda>target.
       case json_set target ''sessionUpdate''
              (if kind = ''tool_call'' then JStr ''tool_call'' else json_index retained ''sessionUpdate'') of
         None \<Rightarrow> Panic
       | Some target' \<Rightarrow>
           (case json_set target' ''toolCallId'' (JStr tool_id) of
              None \<Rightarrow> Panic
            | Some target'' \<Rightarrow> Ok target''))"

definition fold_tool_update :: "json list \<Rightarrow> json \<Rightarrow> string \<Rightarrow> (runtime_error, json list) result" where
  "fold_tool_update retained update kind =
     res_bind (required_fold_string update ''toolCallId'') (\<lambda>tool_id.
       case position (is_tool_slot tool_id) retained of
         Some i \<Rightarrow>
           res_bind (merge_tool_update (retained ! i) update kind tool_id)
             (\<lambda>target. Ok (retained[i := target]))
       | None \<Rightarrow> Ok (retained @ [update]))"

definition fold_plan :: "json list \<Rightarrow> json \<Rightarrow> (runtime_error, json list) result" where
  "fold_plan retained update =
     (if \<not> (case json_get update ''entries'' of Some e \<Rightarrow> is_array e | None \<Rightarrow> False)
      then Err OperationMismatch
      else Ok (replace_shared_fold_slot is_plan_slot update retained))"

text \<open>The checked id of a \<open>plan_update\<close>; a plan of type \<open>items\<close> must list its entries.\<close>

definition plan_update_id :: "json \<Rightarrow> (runtime_error, string) result" where
  "plan_update_id update =
     res_bind (ok_or OperationMismatch
       (map_option JObj (Option.bind (json_get update ''plan'') as_object))) (\<lambda>plan.
     res_bind (required_fold_string plan ''planId'') (\<lambda>plan_id.
       if get_str plan ''type'' = Some ''items'' \<and>
          \<not> (case json_get plan ''entries'' of Some e \<Rightarrow> is_array e | None \<Rightarrow> False)
       then Err OperationMismatch
       else Ok plan_id))"

definition fold_plan_update :: "json list \<Rightarrow> json \<Rightarrow> (runtime_error, json list) result" where
  "fold_plan_update retained update =
     res_bind (plan_update_id update) (\<lambda>plan_id.
       Ok (replace_shared_fold_slot (is_plan_update_slot plan_id) update retained))"

definition fold_plan_removed :: "json list \<Rightarrow> json \<Rightarrow> (runtime_error, json list) result" where
  "fold_plan_removed retained update =
     res_bind (required_fold_string update ''planId'') (\<lambda>plan_id.
       case position (is_plan_update_slot plan_id) retained of
         Some i \<Rightarrow> Ok (take i retained @ drop (Suc i) retained)
       | None \<Rightarrow> Ok retained)"

definition fold_shared_active_turn_update :: "json list \<Rightarrow> json \<Rightarrow> (runtime_error, json list) result"
  where
  "fold_shared_active_turn_update retained update =
     (case update_kind update of
        None \<Rightarrow> Ok (retained @ [update])
      | Some kind \<Rightarrow>
          if is_chunk_kind kind then fold_text_chunk retained update
          else if is_tool_kind kind then fold_tool_update retained update kind
          else if kind = ''plan'' then fold_plan retained update
          else if kind = ''plan_update'' then fold_plan_update retained update
          else if kind = ''plan_removed'' then fold_plan_removed retained update
          else Ok (retained @ [update]))"

text \<open>\<open>fold_active_turn_update\<close> is the same fold on owned values.\<close>

definition fold_active_turn_update :: "json list \<Rightarrow> json \<Rightarrow> (runtime_error, json list) result" where
  "fold_active_turn_update retained update = fold_shared_active_turn_update retained update"

section \<open>Control updates\<close>

definition is_conversation_update_kind :: "string \<Rightarrow> bool" where
  "is_conversation_update_kind k \<longleftrightarrow>
     k \<in> {''user_message_chunk'', ''agent_message_chunk'', ''agent_thought_chunk'', ''tool_call'',
          ''tool_call_update'', ''plan'', ''plan_update'', ''plan_removed'', ''compaction_update'',
          ''compaction_summary_chunk''}"

definition retain_control_update :: "json \<Rightarrow> json option" where
  "retain_control_update entry =
     (let update = (case json_get entry ''update'' of Some u \<Rightarrow> u | None \<Rightarrow> entry)
      in case update_kind update of
           None \<Rightarrow> None
         | Some kind \<Rightarrow> if is_conversation_update_kind kind then None else Some update)"

definition fold_control_update :: "json option \<Rightarrow> json \<Rightarrow> json" where
  "fold_control_update previous update =
     (let kind = update_kind update in
      if kind \<noteq> Some ''session_info_update'' \<and> kind \<noteq> Some ''usage_update'' then update
      else case Option.bind previous as_object of
             None \<Rightarrow> update
           | Some merged \<Rightarrow>
               (case as_object update of
                  None \<Rightarrow> JObj merged
                | Some fields \<Rightarrow>
                    JObj (fold (\<lambda>e m. if kind = Some ''usage_update'' \<and> fst e = ''cost'' \<and> is_null (snd e)
                                      then m else obj_insert (fst e) (snd e) m) fields merged)))"

text \<open>The last control update of each kind, keyed by kind; a missing kind would be a panic.\<close>

fun extract_control_state_from :: "(string, json) btree_map \<Rightarrow> json list \<Rightarrow> (string, json) btree_map option"
  where
  "extract_control_state_from controls [] = Some controls"
| "extract_control_state_from controls (entry # entries) =
     (case retain_control_update entry of
        None \<Rightarrow> extract_control_state_from controls entries
      | Some update \<Rightarrow>
          (case as_str (json_index update ''sessionUpdate'') of
             None \<Rightarrow> None
           | Some kind \<Rightarrow>
               extract_control_state_from
                 (bt_insert kind (fold_control_update (bt_get controls kind) update) controls) entries))"

definition extract_control_state :: "json list \<Rightarrow> (string, json) btree_map option" where
  "extract_control_state entries = extract_control_state_from [] entries"

definition retain_session_metadata :: "string \<Rightarrow> json \<Rightarrow> json" where
  "retain_session_metadata session_id response =
     JObj (fold (\<lambda>key m. case json_get response key of
                           Some v \<Rightarrow> if is_null v then m else obj_insert key v m
                         | None \<Rightarrow> m)
            [''modes'', ''configOptions''] [(''sessionId'', JStr session_id)])"

definition terminal_released :: "json \<Rightarrow> bool" where
  "terminal_released terminal = (case Option.bind (json_get terminal ''released'') as_bool of
     Some b \<Rightarrow> b | None \<Rightarrow> False)"

section \<open>Facts about the fold\<close>

text \<open>
  What the fold guarantees of every entry it retains: the entry could be folded itself, and its
  objects are well formed.
\<close>

definition entry_ok :: "json \<Rightarrow> bool" where
  "entry_ok x \<longleftrightarrow> json_wf x \<and>
     (case update_kind x of
        None \<Rightarrow> True
      | Some k \<Rightarrow>
          (is_chunk_kind k \<longrightarrow> (\<exists>r. text_chunk_shape x = Ok r)) \<and>
          (is_tool_kind k \<longrightarrow> (\<exists>s. required_fold_string x ''toolCallId'' = Ok s)) \<and>
          (k = ''plan_update'' \<longrightarrow> (\<exists>s. plan_update_id x = Ok s)))"

text \<open>Two entries that occupy the same slot: same kind class, same tool.\<close>

definition same_slot :: "json \<Rightarrow> json \<Rightarrow> bool" where
  "same_slot x y \<longleftrightarrow>
     (update_kind x = Some ''user_message_chunk'') = (update_kind y = Some ''user_message_chunk'') \<and>
     (\<forall>tool_id. is_tool_slot tool_id x = is_tool_slot tool_id y)"

lemma kind_disjoint [simp]:
  "is_chunk_kind k \<Longrightarrow> \<not> is_tool_kind k"
  "is_chunk_kind ''plan_update'' = False" "is_tool_kind ''plan_update'' = False"
  "is_chunk_kind ''plan'' = False" "is_tool_kind ''plan'' = False"
  "is_chunk_kind ''plan_removed'' = False" "is_tool_kind ''plan_removed'' = False"
  "is_chunk_kind ''tool_call'' = False" "is_tool_kind ''tool_call'' = True"
  "is_chunk_kind ''tool_call_update'' = False" "is_tool_kind ''tool_call_update'' = True"
  "is_chunk_kind ''user_message_chunk'' = True" "is_tool_kind ''user_message_chunk'' = False"
  by (auto simp: is_chunk_kind_def is_tool_kind_def)

lemma required_fold_string_Ok:
  "required_fold_string v f = Ok s \<longleftrightarrow> get_str v f = Some s \<and> s \<noteq> ''''"
  by (auto simp: required_fold_string_def split: option.splits)

lemma required_fold_string_no_panic [simp]: "required_fold_string v f \<noteq> Panic"
  by (auto simp: required_fold_string_def split: option.splits)

lemma is_tool_slot_id: "is_tool_slot t x \<Longrightarrow> is_tool_slot t' x \<Longrightarrow> t = t'"
  by (auto simp: is_tool_slot_def)

lemma is_plan_update_slot_kind: "is_plan_update_slot p x \<Longrightarrow> update_kind x = Some ''plan_update''"
  by (simp add: is_plan_update_slot_def)

lemma is_tool_slot_kind: "is_tool_slot t x \<Longrightarrow> \<exists>k. update_kind x = Some k \<and> is_tool_kind k"
  by (auto simp: is_tool_slot_def split: option.splits)

text \<open>A text chunk is an object with a text content block.\<close>

lemma text_chunk_shape_SomeD:
  assumes "text_chunk_shape u = Ok (Some (sh, t))"
  shows "\<exists>c k. json_get u ''content'' = Some (JObj c) \<and> map_of c ''type'' = Some (JStr ''text'') \<and>
      map_of c ''text'' = Some (JStr t) \<and> update_kind u = Some k \<and> is_chunk_kind k"
  using assms
  by (auto simp: text_chunk_shape_def bind_eq_Some_conv get_str_def Let_def split: if_splits option.splits)

text \<open>Computing the shape of a well-formed chunk never panics.\<close>

lemma text_chunk_shape_no_panic:
  assumes "json_wf u"
  shows "text_chunk_shape u \<noteq> Panic"
proof
  assume p: "text_chunk_shape u = Panic"
  obtain c where c: "json_get u ''content'' = Some (JObj c)"
    using p by (cases "Option.bind (json_get u ''content'') as_object")
      (auto simp: text_chunk_shape_def bind_eq_Some_conv split: if_splits option.splits)
  let ?shape = "case json_get u ''messageId'' of
       Some m \<Rightarrow> if is_null m then json_remove u ''messageId'' else u | None \<Rightarrow> u"
  have "json_get ?shape ''content'' = Some (JObj c)"
    using c by (auto simp: json_get_remove [OF assms] split: option.splits)
  from json_set2_obj [OF this, of "''text''" "JStr ''''"]
  obtain v where "json_set2 ?shape ''content'' ''text'' (JStr '''') = Some v" by blast
  with p c show False
    by (auto simp: text_chunk_shape_def Let_def ok_or_def res_bind_def split: if_splits option.splits)
qed

text \<open>Replacing the text of a text chunk gives a text chunk again.\<close>

lemma text_chunk_replace:
  assumes ok: "text_chunk_shape u = Ok (Some (sh, t))" and wf: "json_wf u"
    and set: "json_set2 u ''content'' ''text'' (JStr s) = Some m"
  shows "(\<exists>sh'. text_chunk_shape m = Ok (Some (sh', s))) \<and> update_kind m = update_kind u \<and> json_wf m"
proof -
  from text_chunk_shape_SomeD [OF ok] obtain c k where c: "json_get u ''content'' = Some (JObj c)"
    "map_of c ''type'' = Some (JStr ''text'')" "update_kind u = Some k" "is_chunk_kind k" by blast
  from json_set2_obj [OF c(1), of "''text''" "JStr s"] set
  have g: "json_get m = (json_get u)(''content'' \<mapsto> JObj (obj_insert ''text'' (JStr s) c))" by auto
  have wfm: "json_wf m" using json_set2_wf [OF set wf] by simp
  have k: "update_kind m = update_kind u" by (simp add: update_kind_def get_str_def g)
  have nomid: "\<not> (case json_get u ''messageId'' of Some m \<Rightarrow> \<not> is_null m \<and> \<not> is_string m | None \<Rightarrow> False)"
    using ok c by (auto simp: text_chunk_shape_def split: if_splits option.splits)
  have "text_chunk_shape m \<noteq> Panic" by (rule text_chunk_shape_no_panic [OF wfm])
  then have "\<exists>sh'. text_chunk_shape m = Ok (Some (sh', s))"
    using nomid c
    by (auto simp: text_chunk_shape_def k g get_str_def Let_def split: if_splits option.splits)
  with k wfm show ?thesis by blast
qed

lemma fold_text_chunk_last:
  assumes "xs \<noteq> []"
  shows "fold_text_chunk xs u = res_bind (fold_text_chunk [last xs] u) (\<lambda>r. Ok (butlast xs @ r))"
proof -
  have xs: "butlast xs @ [last xs, u] = xs @ [u]"
    using append_butlast_last_id [OF assms] by (metis append.assoc append_Cons append_Nil)
  with assms show ?thesis
    by (auto simp: fold_text_chunk_def res_bind_def ok_or_def split: result.splits option.splits)
qed

text \<open>The fold of a chunk into one entry: merged in place, or pushed behind it.\<close>

lemma fold_text_chunk_one:
  assumes x: "entry_ok x" and u: "json_wf u" and k: "update_kind u = Some k" "is_chunk_kind k"
  shows "fold_text_chunk [x] u \<noteq> Panic"
    and "fold_text_chunk [x] u = Ok r \<Longrightarrow>
       entry_ok u \<and> (r = [x, u] \<or> (\<exists>m. r = [m] \<and> entry_ok m \<and> update_kind m = update_kind x
          \<and> (\<exists>k. update_kind x = Some k \<and> is_chunk_kind k)))"
proof -
  have px: "text_chunk_shape x \<noteq> Panic" "text_chunk_shape u \<noteq> Panic"
    using x u by (simp_all add: entry_ok_def text_chunk_shape_no_panic)
  have merged: "\<exists>m. json_set2 x ''content'' ''text'' (JStr s) = Some m"
    if "text_chunk_shape x = Ok (Some (sh, t))" for sh t s
    using text_chunk_shape_SomeD [OF that] json_set2_obj by blast
  have txt_get: "\<exists>t. Option.bind (json_get x ''content'') (\<lambda>c. get_str c ''text'') = Some t"
    if "text_chunk_shape x = Ok (Some (sh, t))" for sh t
    using text_chunk_shape_SomeD [OF that] by (auto simp: get_str_def)
  have oku: "entry_ok u" if "text_chunk_shape u = Ok w" for w
    using that u k by (auto simp: entry_ok_def is_chunk_kind_def is_tool_kind_def)
  show "fold_text_chunk [x] u \<noteq> Panic"
  proof
    assume p: "fold_text_chunk [x] u = Panic"
    then obtain sh t ps where s: "text_chunk_shape u = Ok (Some (sh, t))" "text_chunk_shape x = Ok ps"
      using px by (auto simp: fold_text_chunk_def res_bind_def split: result.splits option.splits)
    with p obtain psh pt where ps: "ps = Some (psh, pt)"
      by (auto simp: fold_text_chunk_def split: option.splits)
    from txt_get [OF s(2) [unfolded ps]] obtain t'
      where "Option.bind (json_get x ''content'') (\<lambda>c. get_str c ''text'') = Some t'" by blast
    moreover from merged [OF s(2) [unfolded ps]] obtain m
      where "json_set2 x ''content'' ''text'' (JStr (t' @ t)) = Some m" by blast
    ultimately show False
      using p s ps by (auto simp: fold_text_chunk_def split: if_splits)
  qed
  assume r: "fold_text_chunk [x] u = Ok r"
  then obtain w where w: "text_chunk_shape u = Ok w" by (auto simp: fold_text_chunk_def)
  show "entry_ok u \<and> (r = [x, u] \<or> (\<exists>m. r = [m] \<and> entry_ok m \<and> update_kind m = update_kind x
          \<and> (\<exists>k. update_kind x = Some k \<and> is_chunk_kind k)))"
  proof (cases "r = [x, u]")
    case True
    with oku [OF w] show ?thesis by simp
  next
    case False
    with r w obtain sh t ps where s: "w = Some (sh, t)" "text_chunk_shape x = Ok ps"
      by (auto simp: fold_text_chunk_def split: option.splits)
    with r w False obtain psh pt t' m where m: "ps = Some (psh, pt)"
      "json_set2 x ''content'' ''text'' (JStr t') = Some m" "r = [m]"
      by (auto simp: fold_text_chunk_def split: if_splits option.splits)
    have "json_wf x" using x by (simp add: entry_ok_def)
    from text_chunk_replace [OF s(2) [unfolded m(1)] this m(2)]
    have "(\<exists>sh'. text_chunk_shape m = Ok (Some (sh', t')))" "update_kind m = update_kind x" "json_wf m"
      by auto
    moreover obtain k' where "update_kind x = Some k'" "is_chunk_kind k'"
      using text_chunk_shape_SomeD [OF s(2) [unfolded m(1)]] by blast
    ultimately have "entry_ok m" by (auto simp: entry_ok_def is_chunk_kind_def is_tool_kind_def)
    with oku [OF w] m \<open>update_kind m = update_kind x\<close> \<open>update_kind x = Some k'\<close> \<open>is_chunk_kind k'\<close>
    show ?thesis by blast
  qed
qed

end
