(* ===== verification/Environment.thy ===== *)
theory Environment
  imports Json_Value
begin

text \<open>
  The code outside the repository that the bridge's state depends on, as one record of functions
  passed to the definitions that use it:

  \<^item> \<open>env_to_vec\<close>: \<open>serde_json::to_vec\<close>, the bytes of a value (a derived \<open>Serialize\<close> is the value
    with its fields, so it is applied to that value);
  \<^item> \<open>env_sha256\<close>: \<open>Sha256::digest\<close>;
  \<^item> \<open>env_base64_decode\<close>, \<open>env_base64_encode\<close>: the standard alphabet of the \<open>base64\<close> crate;
  \<^item> \<open>env_mime_essence\<close>: the first capture of the \<open>MIME_TYPE\<close> pattern by the \<open>regex\<close> crate;
  \<^item> \<open>env_url_ok\<close>: whether \<open>url::Url::parse\<close> succeeds.

  Nothing is assumed of them unless a theorem says so.
\<close>

type_synonym digest = string

record env =
  env_to_vec :: "json \<Rightarrow> string"
  env_sha256 :: "string \<Rightarrow> digest"
  env_base64_decode :: "string \<Rightarrow> string option"
  env_base64_encode :: "string \<Rightarrow> string"
  env_mime_essence :: "string \<Rightarrow> string option"
  env_url_ok :: "string \<Rightarrow> bool"

text \<open>\<open>serialized_len\<close>, \<open>serialized_bytes\<close> and \<open>value_bytes\<close>: the length of the serialized value.\<close>

definition serialized_len :: "env \<Rightarrow> json \<Rightarrow> nat" where
  "serialized_len E v = length (env_to_vec E v)"

text \<open>A concrete environment for examples: an empty array has two bytes, any other
  value three.\<close>

definition sample_env :: env where
  "sample_env = \<lparr>env_to_vec = (\<lambda>v. case v of JArr [] \<Rightarrow> ''[]'' | _ \<Rightarrow> ''[.]''), env_sha256 = (\<lambda>b. b), env_base64_decode = (\<lambda>s. Some s),
     env_base64_encode = (\<lambda>s. s), env_mime_essence = (\<lambda>s. Some s), env_url_ok = (\<lambda>s. True)\<rparr>"

section \<open>Checks over lists\<close>

text \<open>A \<open>for\<close> loop whose body may return early with an error.\<close>

fun check_list :: "('a \<Rightarrow> ('e, unit) result) \<Rightarrow> 'a list \<Rightarrow> ('e, unit) result" where
  "check_list f [] = Ok ()"
| "check_list f (x # xs) = res_bind (f x) (\<lambda>_. check_list f xs)"

text \<open>The same with a set of the ids seen so far threaded through.\<close>

fun check_seen :: "('s \<Rightarrow> 'a \<Rightarrow> ('e, 's) result) \<Rightarrow> 's \<Rightarrow> 'a list \<Rightarrow> ('e, 's) result" where
  "check_seen f s [] = Ok s"
| "check_seen f s (x # xs) = res_bind (f s x) (\<lambda>s'. check_seen f s' xs)"

lemma check_list_Ok: "check_list f xs = Ok () \<longleftrightarrow> (\<forall>x \<in> set xs. f x = Ok ())"
  by (induction xs) auto

lemma check_list_no_panic: "(\<And>x. x \<in> set xs \<Longrightarrow> f x \<noteq> Panic) \<Longrightarrow> check_list f xs \<noteq> Panic"
proof (induction xs)
  case (Cons x xs)
  then have "f x \<noteq> Panic" by simp
  with Cons show ?case by (cases "f x") auto
qed simp

text \<open>
  Collecting distinct keys: every element passes its own check, the keys are new and distinct,
  and the result is the set of all of them.
\<close>

definition add_key :: "('a \<Rightarrow> ('e, 'k) result) \<Rightarrow> ('k \<Rightarrow> 'e) \<Rightarrow> 'k list \<Rightarrow> 'a \<Rightarrow> ('e, 'k list) result"
  where
  "add_key f dup seen x =
     res_bind (f x) (\<lambda>k. if k \<in> set seen then Err (dup k) else Ok (seen @ [k]))"

lemma check_seen_add_key:
  "check_seen (add_key f dup) seen xs = Ok r \<longleftrightarrow>
     (\<exists>ks. map f xs = map Ok ks \<and> r = seen @ ks \<and> distinct ks \<and> set ks \<inter> set seen = {})"
proof (induction xs arbitrary: seen)
  case Nil
  show ?case by auto
next
  case (Cons x xs)
  show ?case
  proof
    assume "check_seen (add_key f dup) seen (x # xs) = Ok r"
    then obtain k where k: "f x = Ok k" "k \<notin> set seen"
      "check_seen (add_key f dup) (seen @ [k]) xs = Ok r"
      by (auto simp: add_key_def split: if_splits)
    from k(3) obtain ks where "map f xs = map Ok ks" "r = (seen @ [k]) @ ks" "distinct ks"
      "set ks \<inter> set (seen @ [k]) = {}"
      unfolding Cons.IH by blast
    with k show "\<exists>ks. map f (x # xs) = map Ok ks \<and> r = seen @ ks \<and> distinct ks \<and> set ks \<inter> set seen = {}"
      by (intro exI [of _ "k # ks"]) auto
  next
    assume "\<exists>ks. map f (x # xs) = map Ok ks \<and> r = seen @ ks \<and> distinct ks \<and> set ks \<inter> set seen = {}"
    then obtain ks where ks: "map f (x # xs) = map Ok ks" "r = seen @ ks" "distinct ks"
      "set ks \<inter> set seen = {}" by blast
    then obtain k ks' where e: "ks = k # ks'" by (cases ks) auto
    with ks have "check_seen (add_key f dup) (seen @ [k]) xs = Ok r"
      unfolding Cons.IH by (intro exI [of _ ks']) auto
    with ks e show "check_seen (add_key f dup) seen (x # xs) = Ok r"
      by (auto simp: add_key_def)
  qed
qed

end
