(* ===== verification/Terminal_Output.thy ===== *)
theory Terminal_Output
  imports Turn_Fold Environment
begin

text \<open>
  The output of a terminal as the browser shows it (\<open>fold_terminal_snapshot\<close>,
  \<open>src/src/runtime_state.rs\<close>): records with the whole output or with a chunk to append are folded
  into a snapshot that keeps the last bytes of the output. Bytes are characters; the UTF-8 decoding
  of \<open>str::from_utf8\<close> and \<open>String::from_utf8_lossy\<close> is written out from the tables of the
  standard library. Base64 is a function of the environment.
\<close>

section \<open>UTF-8\<close>

text \<open>
  One step of the decoder: a whole character of \<open>k\<close> bytes, an error of \<open>k\<close> bytes
  (\<open>error_len() == Some(k)\<close>), or an input that ends inside a character (\<open>error_len() == None\<close>).
\<close>

datatype utf8_item = Utf8End | Utf8Char nat | Utf8Error nat | Utf8Cut

text \<open>\<open>byte & 0xc0 == 0x80\<close>: a byte that continues a character.\<close>

definition is_continuation :: "char \<Rightarrow> bool" where
  "is_continuation c \<longleftrightarrow> of_char c div 64 = (2::nat)"

text \<open>The ranges of the bytes that follow a first byte, if it can start a character.\<close>

definition utf8_tail :: "nat \<Rightarrow> (nat \<times> nat) list option" where
  "utf8_tail n =
     (if n < 0x80 then Some []
      else if n < 0xC2 then None
      else if n < 0xE0 then Some [(0x80, 0xBF)]
      else if n = 0xE0 then Some [(0xA0, 0xBF), (0x80, 0xBF)]
      else if n = 0xED then Some [(0x80, 0x9F), (0x80, 0xBF)]
      else if n < 0xF0 then Some [(0x80, 0xBF), (0x80, 0xBF)]
      else if n = 0xF0 then Some [(0x90, 0xBF), (0x80, 0xBF), (0x80, 0xBF)]
      else if n < 0xF4 then Some [(0x80, 0xBF), (0x80, 0xBF), (0x80, 0xBF)]
      else if n = 0xF4 then Some [(0x80, 0x8F), (0x80, 0xBF), (0x80, 0xBF)]
      else None)"

fun utf8_rest :: "(nat \<times> nat) list \<Rightarrow> string \<Rightarrow> nat \<Rightarrow> utf8_item" where
  "utf8_rest [] bs k = Utf8Char k"
| "utf8_rest ((lo, hi) # rs) [] k = Utf8Cut"
| "utf8_rest ((lo, hi) # rs) (b # bs) k =
     (if lo \<le> (of_char b :: nat) \<and> of_char b \<le> hi then utf8_rest rs bs (k + 1) else Utf8Error k)"

fun utf8_item_of :: "string \<Rightarrow> utf8_item" where
  "utf8_item_of [] = Utf8End"
| "utf8_item_of (b # bs) =
     (case utf8_tail (of_char b) of None \<Rightarrow> Utf8Error 1 | Some rs \<Rightarrow> utf8_rest rs bs 1)"

lemma utf8_rest_length:
  "utf8_rest rs bs k = Utf8Char n \<Longrightarrow> k \<le> n \<and> n \<le> k + length bs"
  "utf8_rest rs bs k = Utf8Error n \<Longrightarrow> k \<le> n \<and> n \<le> k + length bs"
  by (induction rs bs k rule: utf8_rest.induct) (auto split: if_splits)

lemma utf8_item_length:
  "utf8_item_of bs = Utf8Char n \<Longrightarrow> 0 < n \<and> n \<le> length bs"
  "utf8_item_of bs = Utf8Error n \<Longrightarrow> 0 < n \<and> n \<le> length bs"
  by (cases bs; auto split: option.splits dest: utf8_rest_length)+

text \<open>\<open>Utf8Error::valid_up_to\<close>, the length of the longest valid prefix of whole characters.\<close>

function utf8_valid_up_to :: "string \<Rightarrow> nat" where
  "utf8_valid_up_to bs =
     (case utf8_item_of bs of Utf8Char n \<Rightarrow> n + utf8_valid_up_to (drop n bs) | _ \<Rightarrow> 0)"
  by pat_completeness auto
termination by (relation "measure length") (auto dest: utf8_item_length)

text \<open>\<open>str::from_utf8(bs).is_ok()\<close>.\<close>

definition utf8_valid :: "string \<Rightarrow> bool" where
  "utf8_valid bs \<longleftrightarrow> utf8_valid_up_to bs = length bs"

text \<open>U+FFFD, the replacement character.\<close>

definition utf8_replacement :: string where
  "utf8_replacement = [char_of (0xEF :: nat), char_of (0xBF :: nat), char_of (0xBD :: nat)]"

function utf8_lossy :: "string \<Rightarrow> string" where
  "utf8_lossy bs =
     (case utf8_item_of bs of
        Utf8End \<Rightarrow> []
      | Utf8Char n \<Rightarrow> take n bs @ utf8_lossy (drop n bs)
      | Utf8Error n \<Rightarrow> utf8_replacement @ utf8_lossy (drop n bs)
      | Utf8Cut \<Rightarrow> utf8_replacement)"
  by pat_completeness auto
termination by (relation "measure length") (auto dest: utf8_item_length)

declare utf8_valid_up_to.simps [simp del] utf8_lossy.simps [simp del]

section \<open>The fold\<close>

definition output_bytes :: "env \<Rightarrow> json \<Rightarrow> string" where
  "output_bytes E v =
     (case Option.bind (get_str v ''outputBytes'') (env_base64_decode E) of
        Some bytes \<Rightarrow> bytes
      | None \<Rightarrow> (case get_str v ''output'' of Some s \<Rightarrow> s | None \<Rightarrow> []))"

text \<open>The last bytes of an output, from the first byte on that can start a character.\<close>

definition keep_output :: "nat \<Rightarrow> string \<Rightarrow> string" where
  "keep_output limit out = dropWhile is_continuation (drop (length out - limit) out)"

text \<open>While the terminal runs, an unfinished last character is not shown yet.\<close>

definition visible_output :: "json \<Rightarrow> string \<Rightarrow> string" where
  "visible_output incoming out =
     (if (case json_get incoming ''exitStatus'' of Some v \<Rightarrow> is_null v | None \<Rightarrow> True) \<and>
         Option.bind (json_get incoming ''released'') as_bool \<noteq> Some True
      then (let n = utf8_valid_up_to out in if utf8_item_of (drop n out) = Utf8Cut then take n out else out)
      else out)"

text \<open>A record that is neither an object nor null panics at the assignment to its field.\<close>

definition fold_terminal_snapshot :: "env \<Rightarrow> json option \<Rightarrow> json \<Rightarrow> json option" where
  "fold_terminal_snapshot E previous incoming =
     (let append = Option.bind (json_get incoming ''outputAppend'') as_bool = Some True;
          out0 = (if append then (case previous of Some p \<Rightarrow> output_bytes E p | None \<Rightarrow> []) else []) @
            output_bytes E incoming;
          limit = (case Option.bind (json_get incoming ''retainedBytes'') as_u64 of
                     Some n \<Rightarrow> unat n | None \<Rightarrow> length out0);
          out = keep_output limit out0
      in map_option (\<lambda>s. json_remove (json_remove s ''outputAppend'') ''retainedBytes'')
           (Option.bind (json_set incoming ''output'' (JStr (utf8_lossy (visible_output incoming out))))
              (\<lambda>s. json_set s ''outputBytes'' (JStr (env_base64_encode E out)))))"

section \<open>What is shown is well-formed text\<close>

lemma utf8_rest_append:
  "utf8_rest rs bs k = Utf8Char n \<Longrightarrow> utf8_rest rs (bs @ cs) k = Utf8Char n"
  by (induction rs bs k rule: utf8_rest.induct) (auto split: if_splits)

lemma utf8_rest_take:
  "utf8_rest rs bs k = Utf8Char n \<Longrightarrow> utf8_rest rs (take (n - k) bs) k = Utf8Char n"
proof (induction rs bs k rule: utf8_rest.induct)
  case (3 lo hi rs b bs k)
  then have "k + 1 \<le> n" using utf8_rest_length(1) [of rs bs "k + 1" n] by (auto split: if_splits)
  then obtain m where "n - k = Suc m" "n - (k + 1) = m" by (metis Suc_diff_le add.commute diff_Suc_Suc plus_1_eq_Suc)
  with 3 show ?case by (auto split: if_splits)
qed auto

lemma utf8_item_append:
  "utf8_item_of bs = Utf8Char n \<Longrightarrow> utf8_item_of (bs @ cs) = Utf8Char n"
  by (cases bs) (auto split: option.splits simp: utf8_rest_append)

lemma utf8_item_take:
  assumes "utf8_item_of bs = Utf8Char n"
  shows "utf8_item_of (take n bs) = Utf8Char n"
proof (cases bs)
  case (Cons b cs)
  moreover from assms obtain m where "n = Suc m" using utf8_item_length(1) [OF assms] by (cases n) auto
  ultimately show ?thesis using assms by (auto split: option.splits dest: utf8_rest_take)
qed (use assms in simp)

lemma utf8_valid_char:
  assumes "utf8_item_of bs = Utf8Char n"
  shows "utf8_valid (take n bs @ cs) \<longleftrightarrow> utf8_valid cs"
proof -
  have l: "length (take n bs) = n" using utf8_item_length(1) [OF assms] by simp
  have "utf8_item_of (take n bs @ cs) = Utf8Char n"
    by (rule utf8_item_append) (rule utf8_item_take [OF assms])
  then show ?thesis using l
    by (subst utf8_valid_def) (subst utf8_valid_up_to.simps, simp add: utf8_valid_def)
qed

lemma utf8_valid_nil [simp]: "utf8_valid []"
  by (simp add: utf8_valid_def utf8_valid_up_to.simps)

lemma utf8_replacement_item: "utf8_item_of (utf8_replacement @ cs) = Utf8Char 3"
  by (simp add: utf8_replacement_def utf8_tail_def)

lemma utf8_valid_replacement: "utf8_valid (utf8_replacement @ cs) \<longleftrightarrow> utf8_valid cs"
  using utf8_valid_char [OF utf8_replacement_item [of cs], of cs] by (simp add: utf8_replacement_def)

lemma utf8_lossy_valid: "utf8_valid (utf8_lossy bs)"
proof (induction bs rule: utf8_lossy.induct)
  case (1 bs)
  show ?case
  proof (cases "utf8_item_of bs")
    case (Utf8Char n)
    with 1(1) show ?thesis by (subst utf8_lossy.simps) (simp add: utf8_valid_char)
  next
    case (Utf8Error n)
    with 1(2) show ?thesis by (subst utf8_lossy.simps) (simp add: utf8_valid_replacement)
  next
    case Utf8Cut
    then show ?thesis using utf8_valid_replacement [of "[]"] by (subst utf8_lossy.simps) simp
  qed (subst utf8_lossy.simps, simp)
qed

lemma utf8_lossy_id: "utf8_valid bs \<Longrightarrow> utf8_lossy bs = bs"
proof (induction bs rule: utf8_valid_up_to.induct)
  case (1 bs)
  show ?case
  proof (cases "utf8_item_of bs")
    case (Utf8Char n)
    then have "utf8_valid (drop n bs)" using 1(2) utf8_valid_char [OF Utf8Char, of "drop n bs"] by simp
    with 1(1) [OF Utf8Char] Utf8Char show ?thesis by (subst utf8_lossy.simps) simp
  qed (use 1(2) in \<open>subst utf8_lossy.simps, simp add: utf8_valid_def utf8_valid_up_to.simps\<close>)+
qed

section \<open>The kept bytes\<close>

text \<open>\<open>fold_kept\<close> is the output a record leaves, before it is encoded.\<close>

definition fold_kept :: "env \<Rightarrow> json option \<Rightarrow> json \<Rightarrow> string" where
  "fold_kept E previous incoming =
     (let out0 = (if Option.bind (json_get incoming ''outputAppend'') as_bool = Some True
            then (case previous of Some p \<Rightarrow> output_bytes E p | None \<Rightarrow> []) else []) @ output_bytes E incoming
      in keep_output (case Option.bind (json_get incoming ''retainedBytes'') as_u64 of
           Some n \<Rightarrow> unat n | None \<Rightarrow> length out0) out0)"

definition base64_ok :: "env \<Rightarrow> bool" where
  "base64_ok E \<longleftrightarrow> (\<forall>bytes. env_base64_decode E (env_base64_encode E bytes) = Some bytes)"

lemma fold_terminal_snapshot_gets:
  assumes "fold_terminal_snapshot E previous incoming = Some s" "json_wf incoming"
  shows "json_wf s \<and> get_str s ''output'' = Some (utf8_lossy (visible_output incoming (fold_kept E previous incoming))) \<and>
    get_str s ''outputBytes'' = Some (env_base64_encode E (fold_kept E previous incoming)) \<and>
    json_get s ''outputAppend'' = None \<and> json_get s ''retainedBytes'' = None \<and>
    json_get s ''released'' = json_get incoming ''released''"
proof -
  let ?out = "fold_kept E previous incoming"
  let ?text = "JStr (utf8_lossy (visible_output incoming ?out))"
  obtain a b where a: "json_set incoming ''output'' ?text = Some a"
    and b: "json_set a ''outputBytes'' (JStr (env_base64_encode E ?out)) = Some b"
    and s: "s = json_remove (json_remove b ''outputAppend'') ''retainedBytes''"
    using assms(1) unfolding fold_terminal_snapshot_def fold_kept_def [symmetric]
    by (auto simp: Let_def bind_eq_Some_conv fold_kept_def)
  have wf: "json_wf b" using json_set_wf [OF b json_set_wf [OF a assms(2)]] by simp
  have g: "json_get b k = (if k = ''outputBytes'' then Some (JStr (env_base64_encode E ?out))
      else if k = ''output'' then Some ?text else json_get incoming k)" for k
    using json_get_set [OF a] json_get_set [OF b] by simp
  show ?thesis unfolding s
    by (simp add: get_str_def json_get_remove wf json_wf_remove g)
qed

lemma fold_terminal_snapshot_total:
  "is_null incoming \<or> as_object incoming \<noteq> None \<Longrightarrow> fold_terminal_snapshot E previous incoming \<noteq> None"
  by (cases incoming) (auto simp: fold_terminal_snapshot_def Let_def)

lemma output_bytes_snapshot:
  assumes "base64_ok E" "fold_terminal_snapshot E previous incoming = Some s" "json_wf incoming"
  shows "output_bytes E s = fold_kept E previous incoming"
  using fold_terminal_snapshot_gets [OF assms(2,3)] assms(1) by (simp add: output_bytes_def base64_ok_def)

lemma keep_output_length: "length (keep_output limit out) \<le> limit"
  using length_dropWhile_le [of is_continuation "drop (length out - limit) out"] by (simp add: keep_output_def)

lemma keep_output_start: "keep_output limit out = [] \<or> \<not> is_continuation (hd (keep_output limit out))"
  unfolding keep_output_def by (metis hd_dropWhile)

lemma keep_output_suffix: "\<exists>gone. out = gone @ keep_output limit out"
  unfolding keep_output_def
  by (metis append_assoc append_take_drop_id takeWhile_dropWhile_id)

text \<open>Keeping the end of an output commutes with appending to it.\<close>

lemma dropWhile_append_all: "\<forall>x \<in> set xs. P x \<Longrightarrow> dropWhile P (xs @ ys) = dropWhile P ys"
  by (induction xs) auto

lemma keep_output_append: "keep_output limit (keep_output limit a @ b) = keep_output limit (a @ b)"
proof -
  define t where "t = drop (length a - limit) a"
  define c where "c = takeWhile is_continuation t"
  define k where "k = dropWhile is_continuation t"
  have t: "t = c @ k" by (simp add: c_def k_def)
  have k: "keep_output limit a = k" by (simp add: keep_output_def k_def t_def)
  have cs: "\<forall>x \<in> set c. is_continuation x" using set_takeWhileD by (fastforce simp: c_def)

  have ab: "drop (length (a @ b) - limit) (a @ b) = drop (length (t @ b) - limit) (t @ b)"
  proof (cases "length a \<le> limit")
    case False
    define n where "n = length a - limit"
    have n: "length t = limit" "length (a @ b) - limit = n + length b" "n \<le> length a"
      using False by (simp_all add: t_def n_def)
    have "a @ b = take n a @ t @ b" by (simp add: t_def n_def)
    then have "drop (n + length b) (a @ b) = drop (length b) (t @ b)"
      using n(3) by (metis (no_types) drop_drop add.commute append_eq_conv_conj length_take min.absorb2)
    then show ?thesis using n by simp
  qed (simp add: t_def)
  show ?thesis
  proof (cases "length (k @ b) \<le> limit")
    case True
    have "dropWhile is_continuation (drop n c @ k @ b) = dropWhile is_continuation (k @ b)" for n
      using cs by (intro dropWhile_append_all) (auto dest: in_set_dropD)
    moreover have "drop (length (t @ b) - limit) (t @ b) = drop (length (t @ b) - limit) c @ k @ b"
      using True t by simp
    ultimately show ?thesis using True unfolding k by (simp add: keep_output_def ab [simplified])
  next
    case False
    then have "drop (length (t @ b) - limit) (t @ b) = drop (length (k @ b) - limit) (k @ b)"
      using t by simp
    then show ?thesis unfolding k by (simp add: keep_output_def ab [simplified])
  qed
qed
section \<open>A stream of chunks\<close>

fun fold_terminal_records :: "env \<Rightarrow> json option \<Rightarrow> json list \<Rightarrow> json option" where
  "fold_terminal_records E previous [] = previous"
| "fold_terminal_records E previous (record # records) =
     (case fold_terminal_snapshot E previous record of
        Some s \<Rightarrow> fold_terminal_records E (Some s) records
      | None \<Rightarrow> None)"

definition append_record :: "nat \<Rightarrow> json \<Rightarrow> bool" where
  "append_record limit record \<longleftrightarrow> json_wf record \<and> as_object record \<noteq> None \<and>
     Option.bind (json_get record ''outputAppend'') as_bool = Some True \<and>
     map_option unat (Option.bind (json_get record ''retainedBytes'') as_u64) = Some limit"

lemma fold_terminal_records_kept:
  assumes "base64_ok E" "records \<noteq> []" "list_all (append_record limit) records"
  shows "\<exists>s. fold_terminal_records E previous records = Some s \<and>
    output_bytes E s = keep_output limit
      ((case previous of Some p \<Rightarrow> output_bytes E p | None \<Rightarrow> []) @ concat (map (output_bytes E) records))"
  using assms(2,3)
proof (induction records arbitrary: previous)
  case (Cons r rs)
  then have r: "json_wf r" "as_object r \<noteq> None" "append_record limit r" by (auto simp: append_record_def)
  obtain s where s: "fold_terminal_snapshot E previous r = Some s"
    using fold_terminal_snapshot_total [of r E previous] r(2) by blast
  let ?p = "case previous of Some p \<Rightarrow> output_bytes E p | None \<Rightarrow> []"
  have "fold_kept E previous r = keep_output limit (?p @ output_bytes E r)"
    using r(3) by (auto simp: fold_kept_def append_record_def Let_def)
  then have b: "output_bytes E s = keep_output limit (?p @ output_bytes E r)"
    using output_bytes_snapshot [OF assms(1) s r(1)] by simp
  show ?case
  proof (cases "rs = []")
    case False
    then obtain s' where "fold_terminal_records E (Some s) rs = Some s'"
      "output_bytes E s' = keep_output limit (output_bytes E s @ concat (map (output_bytes E) rs))"
      using Cons.IH [of "Some s"] Cons.prems by auto
    then show ?thesis using s b keep_output_append [of limit "?p @ output_bytes E r"] by simp
  qed (use s b in simp)
qed simp

text \<open>
  (C18) Streaming terminal output in chunks loses nothing but what the limit drops: after any records
  that append to a new terminal under a limit of retained bytes, the kept output is the one a single
  record with all the bytes would leave. It is a suffix of the stream within the limit that does not
  start inside a character, and the text shown for it is well-formed UTF-8.
\<close>

theorem terminal_stream_is_kept:
  assumes "base64_ok E" "records \<noteq> []" "list_all (append_record limit) records"
  shows "\<exists>s out gone shown. fold_terminal_records E None records = Some s \<and>
    output_bytes E s = out \<and> out = keep_output limit (concat (map (output_bytes E) records)) \<and>
    concat (map (output_bytes E) records) = gone @ out \<and> length out \<le> limit \<and>
    (out = [] \<or> is_continuation (hd out) = False) \<and>
    get_str s ''output'' = Some shown \<and> utf8_valid shown"
proof -
  obtain s where s: "fold_terminal_records E None records = Some s"
    "output_bytes E s = keep_output limit (concat (map (output_bytes E) records))"
    using fold_terminal_records_kept [OF assms, of None] by auto
  have "\<exists>shown. get_str s ''output'' = Some shown \<and> utf8_valid shown"
    if "fold_terminal_records E p rs = Some s" "rs \<noteq> []" "list_all (append_record limit) rs" for p rs
    using that
  proof (induction rs arbitrary: p)
    case (Cons r rs)
    then obtain t where t: "fold_terminal_snapshot E p r = Some t" "fold_terminal_records E (Some t) rs = Some s"
      by (auto split: option.splits)
    have "json_wf r" using Cons.prems by (simp add: append_record_def)
    from fold_terminal_snapshot_gets [OF t(1) this] show ?case
      using Cons.IH [OF t(2)] Cons.prems t(2) by (cases "rs = []") (auto simp: utf8_lossy_valid)
  qed simp
  from this [OF s(1) assms(2,3)] s keep_output_length keep_output_start keep_output_suffix show ?thesis
    by metis
qed

definition sample_chunk :: "string \<Rightarrow> json" where
  "sample_chunk text = JObj [(''output'', JStr text), (''outputAppend'', JBool True),
     (''retainedBytes'', JNum (PosInt 3))]"

lemma terminal_stream_is_kept_witness:
  "\<exists>s out gone shown. fold_terminal_records sample_env None [sample_chunk ''ab'', sample_chunk ''cd''] = Some s \<and>
    output_bytes sample_env s = out \<and>
    out = keep_output 3 (concat (map (output_bytes sample_env) [sample_chunk ''ab'', sample_chunk ''cd''])) \<and>
    concat (map (output_bytes sample_env) [sample_chunk ''ab'', sample_chunk ''cd'']) = gone @ out \<and> length out \<le> 3 \<and>
    (out = [] \<or> is_continuation (hd out) = False) \<and>
    get_str s ''output'' = Some shown \<and> utf8_valid shown"
  by (rule terminal_stream_is_kept) (simp_all add: base64_ok_def sample_env_def append_record_def sample_chunk_def)
end
