(* ===== verification/History_Fold.thy ===== *)
theory History_Fold
  imports Turn_Fold
begin

text \<open>
  How a session's history is folded: the reference fold \<open>fold_history_update\<close>
  (\<open>src/src/history_cache.rs\<close>), which copies the retained list for every update, and the
  incremental \<open>HistoryBuilder\<close> of \<open>src/src/history_replay.rs\<close>, which keeps the position of every
  tool, the start of the last turn and a running byte count, and touches only the slot that
  changes. The main result of this theory is that the two agree, errors included, and that the
  builder's byte count is the length of the serialized history.
\<close>

section \<open>The reference fold\<close>

definition is_user_chunk :: "json \<Rightarrow> bool" where
  "is_user_chunk candidate \<longleftrightarrow> update_kind candidate = Some ''user_message_chunk''"

text \<open>\<open>retained[..turn_start]\<close> stays, the fold works on \<open>retained[turn_start..]\<close>.\<close>

definition turn_start_of :: "json list \<Rightarrow> nat" where
  "turn_start_of retained = (case rposition is_user_chunk retained of Some i \<Rightarrow> i | None \<Rightarrow> 0)"

text \<open>The comparison \<open>candidate.get("toolCallId") == tool_id\<close> of two optional values.\<close>

definition same_tool :: "json option \<Rightarrow> json \<Rightarrow> bool" where
  "same_tool tool_id candidate \<longleftrightarrow>
     (case update_kind candidate of Some k \<Rightarrow> is_tool_kind k | None \<Rightarrow> False) \<and>
     (case (json_get candidate ''toolCallId'', tool_id) of
        (None, None) \<Rightarrow> True
      | (Some a, Some b) \<Rightarrow> json_eq a b
      | _ \<Rightarrow> False)"

definition fold_history_update :: "json list \<Rightarrow> json \<Rightarrow> (runtime_error, json list) result" where
  "fold_history_update retained update =
     (let in_turn =
        (let turn_start = turn_start_of retained
         in res_bind (fold_active_turn_update (drop turn_start retained) update)
              (\<lambda>folded. Ok (take turn_start retained @ folded)))
      in if update_kind update = Some ''tool_call_update'' then
           (case rposition (same_tool (json_get update ''toolCallId'')) retained of
              Some slot_at \<Rightarrow>
                res_bind (fold_active_turn_update [retained ! slot_at] update) (\<lambda>folded.
                  case folded of
                    [] \<Rightarrow> Panic
                  | slot # rest \<Rightarrow> Ok (retained[slot_at := slot]))
            | None \<Rightarrow> in_turn)
         else in_turn)"

fun fold_history_updates :: "json list \<Rightarrow> json list \<Rightarrow> (runtime_error, json list) result" where
  "fold_history_updates retained [] = Ok retained"
| "fold_history_updates retained (u # us) =
     res_bind (fold_history_update retained u) (\<lambda>r. fold_history_updates r us)"

definition normalize_history_updates :: "json list \<Rightarrow> (runtime_error, json list) result" where
  "normalize_history_updates updates = fold_history_updates [] updates"

section \<open>The incremental builder\<close>

record history_builder =
  hb_updates :: "json list"
  hb_bytes :: nat
  hb_turn_start :: nat
  hb_tools :: "(string, nat) hash_map"

definition hb_default :: history_builder where
  "hb_default = \<lparr>hb_updates = [], hb_bytes = 0, hb_turn_start = 0, hb_tools = []\<rparr>"

text \<open>
  The slot the update folds into. \<open>None\<close> is a slice out of bounds, a panic in Rust; the inner
  option is the slot.
\<close>

definition hb_position :: "history_builder \<Rightarrow> json \<Rightarrow> nat option option" where
  "hb_position b update =
     (let kind = update_kind update in
      case kind of
        None \<Rightarrow> Some None
      | Some k \<Rightarrow>
          if is_chunk_kind k then
            Some (if hb_updates b = [] then None else Some (length (hb_updates b) - 1))
          else if is_tool_kind k then
            Some (case Option.bind (get_str update ''toolCallId'') (hm_get (hb_tools b)) of
                    Some p \<Rightarrow> if k = ''tool_call_update'' \<or> hb_turn_start b \<le> p then Some p else None
                  | None \<Rightarrow> None)
          else if k \<in> {''plan'', ''plan_update'', ''plan_removed''} then
            (if length (hb_updates b) < hb_turn_start b then None
             else Some (map_option (\<lambda>p. p + hb_turn_start b)
               (position (\<lambda>candidate.
                  if k = ''plan'' then json_eq (json_index candidate ''sessionUpdate'') (JStr ''plan'')
                  else json_eq (json_index candidate ''sessionUpdate'') (JStr ''plan_update'') \<and>
                       json_eq (json_index (json_index candidate ''plan'') ''planId'')
                         (if k = ''plan_removed'' then json_index update ''planId''
                          else json_index (json_index update ''plan'') ''planId''))
                (drop (hb_turn_start b) (hb_updates b)))))
          else Some None)"

text \<open>One entry pushed at the end: its bytes, its tool slot, a new turn.\<close>

definition hb_push :: "(json \<Rightarrow> nat) \<Rightarrow> json \<Rightarrow> history_builder \<Rightarrow> history_builder" where
  "hb_push json_bytes entry b =
     (let slot_at = length (hb_updates b);
          bytes = (if hb_updates b = [] then 2 else hb_bytes b + 1) + json_bytes entry;
          tools = (case as_str (json_index entry ''sessionUpdate'') of
                     Some k \<Rightarrow>
                       if is_tool_kind k then
                         (case as_str (json_index entry ''toolCallId'') of
                            Some tid \<Rightarrow> hm_insert tid slot_at (hb_tools b)
                          | None \<Rightarrow> hb_tools b)
                       else hb_tools b
                   | None \<Rightarrow> hb_tools b);
          turn_start = (if json_eq (json_index entry ''sessionUpdate'') (JStr ''user_message_chunk'')
                        then slot_at else hb_turn_start b)
      in \<lparr>hb_updates = hb_updates b @ [entry], hb_bytes = bytes, hb_turn_start = turn_start,
          hb_tools = tools\<rparr>)"

text \<open>
  The replacement or removal of the slot; the byte counter and the tool positions are plain
  \<open>usize\<close> subtractions, so an underflow is a panic.
\<close>

definition hb_replace :: "(json \<Rightarrow> nat) \<Rightarrow> nat \<Rightarrow> json list \<Rightarrow> history_builder
    \<Rightarrow> (runtime_error, history_builder \<times> json list) result" where
  "hb_replace json_bytes slot_at folded b =
     (if hb_bytes b < json_bytes (hb_updates b ! slot_at) then Panic
      else let bytes = hb_bytes b - json_bytes (hb_updates b ! slot_at) in
        case folded of
          [] \<Rightarrow>
            (let updates = take slot_at (hb_updates b) @ drop (Suc slot_at) (hb_updates b)
             in Ok (b\<lparr>hb_updates := updates,
                      hb_tools := map (\<lambda>(tid, slot). (tid, if slot_at < slot then slot - 1 else slot)) (hb_tools b),
                      hb_bytes := sat_sub bytes (if updates \<noteq> [] then 1 else 0)\<rparr>, []))
        | replacement # rest \<Rightarrow>
            Ok (b\<lparr>hb_bytes := bytes + json_bytes replacement,
                  hb_updates := (hb_updates b)[slot_at := replacement]\<rparr>, rest))"

definition hb_append :: "(json \<Rightarrow> nat) \<Rightarrow> history_builder \<Rightarrow> json
    \<Rightarrow> (runtime_error, history_builder) result" where
  "hb_append json_bytes b update =
     (case hb_position b update of
        None \<Rightarrow> Panic
      | Some None \<Rightarrow>
          res_bind (fold_active_turn_update [] update)
            (\<lambda>folded. Ok (fold (hb_push json_bytes) folded b))
      | Some (Some slot_at) \<Rightarrow>
          if length (hb_updates b) \<le> slot_at then Panic
          else
            res_bind (fold_active_turn_update [hb_updates b ! slot_at] update) (\<lambda>folded.
            res_bind (hb_replace json_bytes slot_at folded b) (\<lambda>(b', rest).
              Ok (fold (hb_push json_bytes) rest b'))))"

fun hb_appends :: "(json \<Rightarrow> nat) \<Rightarrow> history_builder \<Rightarrow> json list \<Rightarrow> (runtime_error, history_builder) result"
  where
  "hb_appends json_bytes b [] = Ok b"
| "hb_appends json_bytes b (u # us) =
     res_bind (hb_append json_bytes b u) (\<lambda>b'. hb_appends json_bytes b' us)"

section \<open>The invariant of the builder\<close>

text \<open>No tool id occurs twice in the current turn, so the slot of a tool there is unique.\<close>

definition turn_tools_unique :: "json list \<Rightarrow> bool" where
  "turn_tools_unique us \<longleftrightarrow>
     (\<forall>t i j. turn_start_of us \<le> i \<longrightarrow> i < j \<longrightarrow> j < length us \<longrightarrow>
        is_tool_slot t (us ! i) \<longrightarrow> \<not> is_tool_slot t (us ! j))"

definition hb_inv :: "history_builder \<Rightarrow> bool" where
  "hb_inv b \<longleftrightarrow>
     (\<forall>x \<in> set (hb_updates b). entry_ok x) \<and>
     hb_turn_start b = turn_start_of (hb_updates b) \<and>
     (\<forall>t. hm_get (hb_tools b) t = rposition (is_tool_slot t) (hb_updates b)) \<and>
     turn_tools_unique (hb_updates b)"

text \<open>The byte count of a JSON array with these elements, brackets and commas included.\<close>

definition array_bytes :: "(json \<Rightarrow> nat) \<Rightarrow> json list \<Rightarrow> nat" where
  "array_bytes json_bytes us = 2 + sum_list (map json_bytes us) + (length us - 1)"

definition hb_bytes_ok :: "(json \<Rightarrow> nat) \<Rightarrow> history_builder \<Rightarrow> bool" where
  "hb_bytes_ok json_bytes b \<longleftrightarrow>
     (hb_updates b = [] \<and> hb_bytes b = 0) \<or> hb_bytes b = array_bytes json_bytes (hb_updates b)"

lemma hb_inv_default: "hb_inv hb_default"
  by (simp add: hb_inv_def hb_default_def turn_start_of_def turn_tools_unique_def hm_get_def)

lemma is_user_chunk_same_slot: "same_slot x y \<Longrightarrow> is_user_chunk x = is_user_chunk y"
  by (simp add: same_slot_def is_user_chunk_def)

lemma turn_start_le: "turn_start_of us \<le> length us"
  using rposition_Some [of is_user_chunk us] by (auto simp: turn_start_of_def split: option.splits)

text \<open>Replacing a slot by an entry of the same slot keeps the invariant.\<close>

lemma hb_inv_replace:
  assumes inv: "hb_inv b" and p: "p < length (hb_updates b)"
    and m: "entry_ok m" "same_slot (hb_updates b ! p) m"
  shows "hb_inv (b\<lparr>hb_bytes := n, hb_updates := (hb_updates b)[p := m]\<rparr>)"
proof -
  let ?us = "hb_updates b"
  have user: "rposition is_user_chunk (?us[p := m]) = rposition is_user_chunk ?us"
    using is_user_chunk_same_slot [OF m(2)] by (simp add: rposition_list_update)
  have tool: "is_tool_slot t m = is_tool_slot t (?us ! p)" for t
    using m(2) by (simp add: same_slot_def)
  have "is_tool_slot t (?us[p := m] ! i) = is_tool_slot t (?us ! i)" for t i
    using p tool by (cases "i = p") simp_all
  moreover have "\<forall>x \<in> set (?us[p := m]). entry_ok x"
    using inv m(1) by (auto simp: hb_inv_def dest: set_update_subset_insert [THEN subsetD])
  ultimately show ?thesis
    using inv tool by (simp add: hb_inv_def turn_tools_unique_def turn_start_of_def user rposition_list_update)
qed

text \<open>Pushing an entry whose tool, if any, is new to the turn keeps the invariant.\<close>

lemma is_tool_slot_eq:
  "is_tool_slot t x \<longleftrightarrow>
     (\<exists>k. as_str (json_index x ''sessionUpdate'') = Some k \<and> is_tool_kind k) \<and>
     as_str (json_index x ''toolCallId'') = Some t"
  by (auto simp: is_tool_slot_def update_kind_def as_str_json_index simp del: as_str_eq_Some
      split: option.splits)

lemma hb_push_updates [simp]: "hb_updates (hb_push js e b) = hb_updates b @ [e]"
  by (simp add: hb_push_def Let_def)

lemma hb_push_tools: "hm_get (hb_tools (hb_push js e b)) t =
    (if is_tool_slot t e then Some (length (hb_updates b)) else hm_get (hb_tools b) t)"
  by (auto simp: hb_push_def Let_def is_tool_slot_eq hm.get_put simp del: as_str_eq_Some
      split: option.splits)

lemma hb_push_turn_start: "hb_turn_start (hb_push js e b) =
    (if is_user_chunk e then length (hb_updates b) else hb_turn_start b)"
  by (simp add: hb_push_def Let_def is_user_chunk_def update_kind_def)

lemma turn_start_of_snoc:
  "turn_start_of (us @ [e]) = (if is_user_chunk e then length us else turn_start_of us)"
  by (simp add: turn_start_of_def rposition_snoc)

lemma hb_inv_push:
  assumes inv: "hb_inv b" and e: "entry_ok e"
    and new: "\<And>t i. is_tool_slot t e \<Longrightarrow> turn_start_of (hb_updates b) \<le> i \<Longrightarrow> i < length (hb_updates b)
      \<Longrightarrow> \<not> is_tool_slot t (hb_updates b ! i)"
  shows "hb_inv (hb_push js e b)"
proof -
  let ?us = "hb_updates b"
  have "turn_tools_unique (?us @ [e])"
  proof (cases "is_user_chunk e")
    case True
    then show ?thesis by (simp add: turn_tools_unique_def turn_start_of_snoc)
  next
    case False
    have "\<not> is_tool_slot t ((?us @ [e]) ! j)"
      if "turn_start_of ?us \<le> i" "i < j" "j < length (?us @ [e])" "is_tool_slot t ((?us @ [e]) ! i)"
      for t i j
    proof (cases "j < length ?us")
      case True
      with inv that show ?thesis by (auto simp: hb_inv_def turn_tools_unique_def nth_append)
    next
      case False
      with that have "j = length ?us" "i < length ?us" by simp_all
      with that new [of t i] show ?thesis by (auto simp: nth_append)
    qed
    with False show ?thesis by (simp add: turn_tools_unique_def turn_start_of_snoc)
  qed
  with inv e show ?thesis
    by (simp add: hb_inv_def hb_push_tools hb_push_turn_start turn_start_of_snoc rposition_snoc)
qed

text \<open>Removing a plan slot of the current turn shifts the tools behind it.\<close>

lemma hm_get_map: "hm_get (map (\<lambda>(k, v). (k, f v)) m) k = map_option f (hm_get m k)"
  by (induction m) (auto simp: hm_get_def)

lemma rposition_remove:
  assumes "p < length xs" "\<not> P (xs ! p)"
  shows "rposition P (take p xs @ drop (Suc p) xs)
    = map_option (\<lambda>i. if p < i then i - 1 else i) (rposition P xs)"
proof -
  have xs: "xs = take p xs @ xs ! p # drop (Suc p) xs"
    using assms(1) by (rule id_take_nth_drop)
  have "rposition P xs = (case rposition P (drop (Suc p) xs) of
      Some j \<Rightarrow> Some (Suc p + j) | None \<Rightarrow> rposition P (take p xs))"
    by (subst xs) (use assms in \<open>auto simp: rposition_append split: option.splits\<close>)
  moreover have "i < p" if "rposition P (take p xs) = Some i" for i
    using rposition_Some [OF that] assms(1) by simp
  ultimately show ?thesis
    using assms
    by (cases "rposition P (take p xs)")
       (force simp: rposition_append split: option.splits)+
qed

lemma hb_inv_remove:
  assumes inv: "hb_inv b" and p: "p < length (hb_updates b)" "turn_start_of (hb_updates b) \<le> p"
    and k: "update_kind (hb_updates b ! p) = Some ''plan_update''"
  shows "hb_inv (b\<lparr>hb_updates := take p (hb_updates b) @ drop (Suc p) (hb_updates b),
      hb_tools := map (\<lambda>(tid, slot). (tid, if p < slot then slot - 1 else slot)) (hb_tools b),
      hb_bytes := n\<rparr>)"
proof -
  let ?us = "hb_updates b"
  let ?vs = "take p ?us @ drop (Suc p) ?us"
  have user: "\<not> is_user_chunk (?us ! p)" and tool: "\<not> is_tool_slot t (?us ! p)" for t
    using k by (simp_all add: is_user_chunk_def is_tool_slot_def)
  have start: "turn_start_of ?vs = turn_start_of ?us"
    using p
    by (auto simp: turn_start_of_def rposition_remove [where P = is_user_chunk, OF p(1) user]
        split: option.splits)
  have nth: "?vs ! i = ?us ! (if i < p then i else Suc i)" if "i < length ?vs" for i
    using that p by (auto simp: nth_append)
  have "\<not> is_tool_slot t (?vs ! j)"
    if "turn_start_of ?us \<le> i" "i < j" "j < length ?vs" "is_tool_slot t (?vs ! i)" for t i j
  proof -
    have u: "\<not> is_tool_slot t (?us ! j')" if "turn_start_of ?us \<le> i'" "i' < j'" "j' < length ?us"
      "is_tool_slot t (?us ! i')" for i' j'
      using inv that unfolding hb_inv_def turn_tools_unique_def by blast
    have len: "length ?vs = length ?us - 1" using p by simp
    show ?thesis
      using u [of "if i < p then i else Suc i" "if j < p then j else Suc j"] that nth [of i] nth [of j] p len
      by (auto split: if_splits)
  qed
  then have "turn_tools_unique ?vs" by (simp add: turn_tools_unique_def start)
  with inv show ?thesis
    by (auto simp: hb_inv_def start hm_get_map rposition_remove [where P = "is_tool_slot _", OF p(1) tool]
        dest: in_set_takeD in_set_dropD)
qed

section \<open>The fold touches one slot\<close>

text \<open>What a fold into one retained entry may leave: the entry in its slot, or nothing.\<close>

definition slot_result :: "json \<Rightarrow> json \<Rightarrow> json list \<Rightarrow> bool" where
  "slot_result x u r \<longleftrightarrow>
     (r = [] \<and> update_kind x = Some ''plan_update'') \<or>
     (\<exists>m. entry_ok m \<and> same_slot x m \<and> r = [m]) \<or>
     (r = [x, u] \<and> entry_ok u \<and> (\<forall>t. \<not> is_tool_slot t u))"

lemma same_slot_refl [simp]: "same_slot x x"
  by (simp add: same_slot_def)

lemma same_slot_kind:
  "update_kind x = Some k \<Longrightarrow> update_kind y = Some k \<Longrightarrow> \<not> is_tool_kind k \<Longrightarrow> same_slot x y"
  by (simp add: same_slot_def is_tool_slot_def)

text \<open>A chunk folds into the last entry.\<close>

lemma slot_result_chunk:
  assumes x: "entry_ok x" and u: "json_wf u" "update_kind u = Some k" "is_chunk_kind k"
  shows "fold_text_chunk [x] u \<noteq> Panic"
    and "fold_text_chunk [x] u = Ok r \<Longrightarrow> slot_result x u r"
proof -
  show "fold_text_chunk [x] u \<noteq> Panic" by (rule fold_text_chunk_one(1) [OF x u])
  have "\<not> is_tool_slot t u" for t using u by (auto simp: is_tool_slot_def)
  moreover assume "fold_text_chunk [x] u = Ok r"
  moreover have "same_slot x m" if "update_kind m = update_kind x" "update_kind x = Some k'" "is_chunk_kind k'"
    for m k'
    using that by (auto intro: same_slot_kind)
  ultimately show "slot_result x u r"
    using fold_text_chunk_one(2) [OF x u] unfolding slot_result_def by blast
qed

text \<open>A tool update rewrites the entry of its tool.\<close>

lemma replace_fields_wf:
  "json_wf (JObj t) \<Longrightarrow> json_wf (JObj p) \<Longrightarrow>
     json_wf (JObj (fold (\<lambda>e m. if is_null (snd e) then m else obj_insert (fst e) (snd e) m) p t))"
proof (induction p arbitrary: t)
  case Nil
  then show ?case by simp
next
  case (Cons e p)
  have "json_wf (JObj (obj_insert (fst e) (snd e) t))"
    using Cons.prems by (intro json_wf_obj_insert) auto
  moreover have "json_wf (JObj p)" using Cons.prems(2) by simp
  ultimately show ?case using Cons.IH Cons.prems(1) by (simp del: json_wf.simps)
qed

lemma merge_tool_update_Ok:
  assumes x: "json_wf x" "is_tool_slot t x" and u: "json_wf u" "t \<noteq> ''''"
    and k: "is_tool_kind k"
  shows "merge_tool_update x u k t \<noteq> Panic"
    and "merge_tool_update x u k t = Ok m \<Longrightarrow> entry_ok m \<and> same_slot x m"
proof -
  obtain fx where fx: "x = JObj fx" using x(2) by (cases x) (auto simp: is_tool_slot_def get_str_def)
  show "merge_tool_update x u k t \<noteq> Panic"
    by (cases u) (auto simp: merge_tool_update_def replace_tool_fields_def fx)
  assume m: "merge_tool_update x u k t = Ok m"
  then obtain fu where fu: "u = JObj fu"
    by (cases u) (auto simp: merge_tool_update_def replace_tool_fields_def fx)
  define tf where "tf = fold (\<lambda>e m. if is_null (snd e) then m else obj_insert (fst e) (snd e) m) fu fx"
  define s where "s = (if k = ''tool_call'' then JStr ''tool_call'' else json_index x ''sessionUpdate'')"
  have mm: "m = JObj (obj_insert ''toolCallId'' (JStr t) (obj_insert ''sessionUpdate'' s tf))"
    using m by (auto simp: merge_tool_update_def replace_tool_fields_def fx fu tf_def s_def)
  obtain kx where kx: "update_kind x = Some kx" "is_tool_kind kx"
    using is_tool_slot_kind [OF x(2)] by blast
  obtain km where km: "s = JStr km" "is_tool_kind km"
    using kx as_str_json_index [of x "''sessionUpdate''"]
    by (cases "k = ''tool_call''") (simp_all add: s_def update_kind_def)
  have "json_wf (JObj tf)"
    unfolding tf_def using x(1) u(1) fx fu by (intro replace_fields_wf) simp_all
  then have "json_wf m" unfolding mm km by (intro json_wf_obj_insert) simp_all
  moreover have "update_kind m = Some km" "get_str m ''toolCallId'' = Some t"
    by (simp_all add: mm km update_kind_def get_str_def)
  ultimately show "entry_ok m \<and> same_slot x m"
    using km(2) kx x(2) u(2)
    by (auto simp: entry_ok_def same_slot_def is_tool_slot_def required_fold_string_Ok
        dest: kind_disjoint(1))
qed

text \<open>Splicing the result of one slot into a slice, and the slice into the whole.\<close>

lemma splice_drop:
  assumes "i < length (drop n us)"
  shows "take n us @ take i (drop n us) @ r @ drop (Suc i) (drop n us)
      = take (i + n) us @ r @ drop (Suc (i + n)) us"
    and "drop n us ! i = us ! (i + n)" "i + n < length us"
  using assms by (simp_all add: take_add add.commute [of i n] flip: append_assoc)

lemma replace_slot_at:
  assumes "position P zs = Some i"
  shows "replace_shared_fold_slot P u zs = take i zs @ [u] @ drop (Suc i) zs"
  using assms position_Some [OF assms]
  by (simp add: replace_shared_fold_slot_def upd_conv_take_nth_drop)

lemma fold_history_in_turn:
  assumes "update_kind u \<noteq> Some ''tool_call_update''"
  shows "fold_history_update us u =
    res_bind (fold_active_turn_update (drop (turn_start_of us) us) u)
      (\<lambda>folded. Ok (take (turn_start_of us) us @ folded))"
  using assms by (simp add: fold_history_update_def Let_def)

text \<open>
  The claim for one update: where it folds, that the reference fold is the fold of that slot
  spliced in, and what the slot may hold afterwards.
\<close>

definition slot_fold :: "json list \<Rightarrow> json \<Rightarrow> nat option \<Rightarrow> bool" where
  "slot_fold us u slot_at \<longleftrightarrow>
     (case slot_at of
        None \<Rightarrow>
          fold_history_update us u = res_bind (fold_active_turn_update [] u) (\<lambda>r. Ok (us @ r)) \<and>
          fold_active_turn_update [] u \<noteq> Panic \<and>
          (\<forall>r. fold_active_turn_update [] u = Ok r \<longrightarrow>
             r = [] \<or> (r = [u] \<and> entry_ok u \<and>
               (\<forall>t i. is_tool_slot t u \<longrightarrow> turn_start_of us \<le> i \<longrightarrow> i < length us \<longrightarrow>
                  \<not> is_tool_slot t (us ! i))))
      | Some p \<Rightarrow>
          p < length us \<and>
          fold_history_update us u =
            res_bind (fold_active_turn_update [us ! p] u) (\<lambda>r. Ok (take p us @ r @ drop (Suc p) us)) \<and>
          fold_active_turn_update [us ! p] u \<noteq> Panic \<and>
          (\<forall>r. fold_active_turn_update [us ! p] u = Ok r \<longrightarrow>
             slot_result (us ! p) u r \<and> (r = [] \<longrightarrow> turn_start_of us \<le> p) \<and>
             (length r = 2 \<longrightarrow> Suc p = length us)))"

lemma slot_fold_SomeI:
  assumes "p < length us" "fold_history_update us u =
      res_bind (fold_active_turn_update [us ! p] u) (\<lambda>r. Ok (take p us @ r @ drop (Suc p) us))"
    "fold_active_turn_update [us ! p] u \<noteq> Panic"
    "\<And>r. fold_active_turn_update [us ! p] u = Ok r \<Longrightarrow>
       slot_result (us ! p) u r \<and> (r = [] \<longrightarrow> turn_start_of us \<le> p) \<and> (length r = 2 \<longrightarrow> Suc p = length us)"
  shows "slot_fold us u (Some p)"
  using assms by (simp add: slot_fold_def)

lemma fold_by_kind:
  "update_kind u = Some k \<Longrightarrow> is_chunk_kind k \<Longrightarrow> fold_active_turn_update xs u = fold_text_chunk xs u"
  "update_kind u = Some k \<Longrightarrow> is_tool_kind k \<Longrightarrow> fold_active_turn_update xs u = fold_tool_update xs u k"
  "update_kind u = Some ''plan'' \<Longrightarrow> fold_active_turn_update xs u = fold_plan xs u"
  "update_kind u = Some ''plan_update'' \<Longrightarrow> fold_active_turn_update xs u = fold_plan_update xs u"
  "update_kind u = Some ''plan_removed'' \<Longrightarrow> fold_active_turn_update xs u = fold_plan_removed xs u"
  by (auto simp: fold_active_turn_update_def fold_shared_active_turn_update_def dest: kind_disjoint(1))

lemma turn_start_less: "us \<noteq> [] \<Longrightarrow> turn_start_of us < length us"
  using rposition_Some [of is_user_chunk us] by (auto simp: turn_start_of_def split: option.splits)

lemma slot_fold_chunk:
  assumes k: "update_kind u = Some k" "is_chunk_kind k" and u: "json_wf u"
    and ok: "\<forall>x \<in> set us. entry_ok x"
  shows "slot_fold us u (if us = [] then None else Some (length us - 1))"
proof (cases "us = []")
  case True
  have p: "text_chunk_shape u \<noteq> Panic" by (rule text_chunk_shape_no_panic [OF u])
  have "entry_ok u" if "text_chunk_shape u = Ok w" for w
    using that u k by (auto simp: entry_ok_def is_chunk_kind_def is_tool_kind_def)
  with True k u p show ?thesis
    by (auto simp: slot_fold_def fold_history_update_def fold_by_kind fold_text_chunk_def Let_def
        turn_start_of_def res_bind_def split: result.splits option.splits)
next
  case False
  let ?n = "turn_start_of us"
  have n: "?n < length us" by (rule turn_start_less [OF False])
  have last: "last (drop ?n us) = last us" "us ! (length us - 1) = last us"
    using n False by (simp_all add: last_conv_nth)
  have but: "take ?n us @ butlast (drop ?n us) = butlast us"
    using n by (metis append_take_drop_id butlast_append drop_eq_Nil leD)
  have "fold_history_update us u = res_bind (fold_text_chunk (drop ?n us) u) (\<lambda>f. Ok (take ?n us @ f))"
    using k by (subst fold_history_in_turn) (auto simp: fold_by_kind)
  also have "\<dots> = res_bind (fold_text_chunk [last us] u) (\<lambda>r. Ok (butlast us @ r))"
    using n by (subst fold_text_chunk_last)
      (auto simp: last res_bind_def append_assoc [symmetric] but simp del: append_assoc split: result.splits)
  finally have f: "fold_history_update us u = res_bind (fold_text_chunk [last us] u) (\<lambda>r. Ok (butlast us @ r))" .
  have x: "entry_ok (last us)" using ok False by simp
  show ?thesis
    using f slot_result_chunk [OF x u k] k False last n
    by (auto simp: slot_fold_def fold_by_kind butlast_conv_take slot_result_def
        dest: text_chunk_shape_SomeD)
qed

text \<open>A tool update folds into the last slot of its tool.\<close>

lemma same_tool_slot:
  assumes "entry_ok x"
  shows "same_tool (json_get u ''toolCallId'') x \<longleftrightarrow>
    (\<exists>t. required_fold_string u ''toolCallId'' = Ok t \<and> is_tool_slot t x)"
proof (cases "update_kind x")
  case None
  then show ?thesis by (simp add: same_tool_def is_tool_slot_def)
next
  case (Some k)
  show ?thesis
  proof (cases "is_tool_kind k")
    case False
    with Some show ?thesis by (simp add: same_tool_def is_tool_slot_def)
  next
    case True
    with assms Some obtain s where s: "json_get x ''toolCallId'' = Some (JStr s)" "s \<noteq> ''''"
      by (auto simp: entry_ok_def required_fold_string_Ok get_str_eq_Some)
    with Some True show ?thesis
      by (auto simp: same_tool_def is_tool_slot_def required_fold_string_Ok get_str_eq_Some
          split: option.splits)
  qed
qed

lemma fold_tool_at:
  assumes "required_fold_string u ''toolCallId'' = Ok t" "position (is_tool_slot t) zs = Some i"
  shows "fold_tool_update zs u k =
    res_bind (fold_tool_update [zs ! i] u k) (\<lambda>r. Ok (take i zs @ r @ drop (Suc i) zs))"
  using assms position_Some [OF assms(2)]
  by (simp add: fold_tool_update_def res_bind_def upd_conv_take_nth_drop split: result.splits)

lemma fold_tool_one:
  assumes "entry_ok x" "is_tool_slot t x" "required_fold_string u ''toolCallId'' = Ok t" "json_wf u"
    "is_tool_kind k"
  shows "fold_tool_update [x] u k \<noteq> Panic"
    and "fold_tool_update [x] u k = Ok r \<Longrightarrow> \<exists>m. r = [m] \<and> entry_ok m \<and> same_slot x m"
proof -
  have "json_wf x" "t \<noteq> ''''" using assms by (simp_all add: entry_ok_def required_fold_string_Ok)
  note m = merge_tool_update_Ok [OF this(1) assms(2) assms(4) this(2) assms(5)]
  from m(1) assms show "fold_tool_update [x] u k \<noteq> Panic"
    by (auto simp: fold_tool_update_def res_bind_def split: result.splits)
  assume "fold_tool_update [x] u k = Ok r"
  with m(2) assms show "\<exists>m. r = [m] \<and> entry_ok m \<and> same_slot x m"
    by (auto simp: fold_tool_update_def)
qed

text \<open>The slot of a tool update, from the last entry of its tool in the whole history.\<close>

definition tool_slot_of :: "json list \<Rightarrow> json \<Rightarrow> string \<Rightarrow> nat option" where
  "tool_slot_of us u k =
     (case Option.bind (get_str u ''toolCallId'') (\<lambda>t. rposition (is_tool_slot t) us) of
        Some p \<Rightarrow> if k = ''tool_call_update'' \<or> turn_start_of us \<le> p then Some p else None
      | None \<Rightarrow> None)"

text \<open>In the current turn the first entry of a tool is the last one.\<close>

lemma turn_tool_position:
  assumes uniq: "turn_tools_unique us"
  shows "position (is_tool_slot t) (drop (turn_start_of us) us) =
    (case rposition (is_tool_slot t) us of
       Some p \<Rightarrow> if turn_start_of us \<le> p then Some (p - turn_start_of us) else None
     | None \<Rightarrow> None)"
proof (cases "rposition (is_tool_slot t) us")
  case None
  then have "position (is_tool_slot t) (drop (turn_start_of us) us) = None"
    by (auto simp: rposition_None position_None dest: in_set_dropD)
  with None show ?thesis by simp
next
  case (Some p)
  let ?n = "turn_start_of us"
  note p = rposition_Some [OF Some]
  show ?thesis
  proof (cases "?n \<le> p")
    case True
    have "position (is_tool_slot t) (drop ?n us) = Some (p - ?n)"
    proof (rule position_SomeI)
      show "\<not> is_tool_slot t (drop ?n us ! j)" if "j < p - ?n" for j
      proof
        assume "is_tool_slot t (drop ?n us ! j)"
        with that p True have "is_tool_slot t (us ! (?n + j))" "?n + j < p" by simp_all
        with uniq p show False unfolding turn_tools_unique_def by (meson le_add1)
      qed
    qed (use p True in \<open>auto intro: diff_less_mono\<close>)
    with Some True show ?thesis by simp
  next
    case False
    have "position (is_tool_slot t) (drop ?n us) = None"
      using p False by (auto simp: position_None in_set_conv_nth)
    with Some False show ?thesis by simp
  qed
qed

lemma slot_fold_tool:
  assumes k: "update_kind u = Some k" "is_tool_kind k" and u: "json_wf u"
    and ok: "\<forall>x \<in> set us. entry_ok x" and uniq: "turn_tools_unique us"
  shows "slot_fold us u (tool_slot_of us u k)"
proof (cases "required_fold_string u ''toolCallId''")
  case (Err e)
  have "rposition (same_tool (json_get u ''toolCallId'')) us = None"
    using ok same_tool_slot Err by (auto simp: rposition_None)
  with k Err have ref: "fold_history_update us u = Err e"
    by (simp add: fold_history_update_def fold_by_kind fold_tool_update_def Let_def)
  have "get_str u ''toolCallId'' = None \<or> get_str u ''toolCallId'' = Some ''''"
    using Err by (auto simp: required_fold_string_def split: option.splits if_splits)
  moreover have "rposition (is_tool_slot '''') us = None"
    using ok
    by (auto simp: rposition_None entry_ok_def is_tool_slot_def required_fold_string_Ok split: option.splits)
  ultimately have "tool_slot_of us u k = None"
    by (auto simp: tool_slot_of_def )
  with ref Err k show ?thesis
    by (simp add: slot_fold_def fold_by_kind fold_tool_update_def)
next
  case Panic
  then show ?thesis by simp
next
  case (Ok t)
  let ?n = "turn_start_of us"
  have t: "get_str u ''toolCallId'' = Some t" using Ok by (simp add: required_fold_string_Ok)
  have same: "rposition (same_tool (json_get u ''toolCallId'')) us = rposition (is_tool_slot t) us"
    using ok Ok by (intro rposition_cong) (simp add: same_tool_slot)
  have slot_t: "is_tool_slot t' u \<longleftrightarrow> t' = t" for t'
    using k t by (auto simp: is_tool_slot_def)
  have ok_u: "entry_ok u" using k u Ok by (auto simp: entry_ok_def dest: kind_disjoint(1))
  have pos: "position (is_tool_slot t) (drop ?n us) = (case rposition (is_tool_slot t) us of
       Some p \<Rightarrow> if ?n \<le> p then Some (p - ?n) else None | None \<Rightarrow> None)"
    by (rule turn_tool_position [OF uniq])
  show ?thesis
  proof (cases "tool_slot_of us u k")
    case None
    then have none: "position (is_tool_slot t) (drop ?n us) = None"
      and upd: "k = ''tool_call_update'' \<longrightarrow> rposition (is_tool_slot t) us = None"
      using pos t by (auto simp: tool_slot_of_def split: option.splits if_splits)
    have "fold_history_update us u = Ok (us @ [u])"
      using none upd k Ok same
      by (auto simp: fold_history_update_def Let_def fold_by_kind fold_tool_update_def
          )
    moreover have "\<not> is_tool_slot t (us ! i)" if "?n \<le> i" "i < length us" for i
    proof -
      have "us ! i = drop ?n us ! (i - ?n)" "i - ?n < length (drop ?n us)" using that by simp_all
      with none show ?thesis by (metis nth_mem position_None)
    qed
    ultimately show ?thesis
      using None Ok k ok_u slot_t by (simp add: slot_fold_def fold_by_kind fold_tool_update_def)
  next
    case (Some p)
    then have r: "rposition (is_tool_slot t) us = Some p" and c: "k = ''tool_call_update'' \<or> ?n \<le> p"
      using t by (auto simp: tool_slot_of_def split: option.splits if_splits)
    note p = rposition_Some [OF r]
    have x: "entry_ok (us ! p)" using ok p by simp
    note one = fold_tool_one [OF x _ Ok u k(2)]
    have "fold_history_update us u =
        res_bind (fold_tool_update [us ! p] u k) (\<lambda>r. Ok (take p us @ r @ drop (Suc p) us))"
    proof (cases "k = ''tool_call_update''")
      case True
      with k r same p one(2) show ?thesis
        by (auto simp: fold_history_update_def Let_def fold_by_kind res_bind_def
            upd_conv_take_nth_drop split: result.splits)
    next
      case False
      then have q: "position (is_tool_slot t) (drop ?n us) = Some (p - ?n)" "?n \<le> p"
        using pos r c by simp_all
      then have l: "p - ?n < length (drop ?n us)" "p - ?n + ?n = p"
        using p by (auto intro: diff_less_mono)
      note sp = splice_drop [OF l(1), unfolded l(2)]
      have "fold_history_update us u = res_bind (fold_tool_update (drop ?n us) u k)
          (\<lambda>f. Ok (take ?n us @ f))"
        using False k by (subst fold_history_in_turn) (auto simp: fold_by_kind)
      also have "\<dots> = res_bind (fold_tool_update [us ! p] u k)
          (\<lambda>r. Ok (take ?n us @ take (p - ?n) (drop ?n us) @ r @ drop (Suc (p - ?n)) (drop ?n us)))"
        unfolding fold_tool_at [OF Ok q(1)] sp(2)
        by (simp add: res_bind_def split: result.splits)
      finally show ?thesis by (simp only: sp(1))
    qed
    moreover have np: "fold_tool_update [us ! p] u k \<noteq> Panic" using one(1) p by blast
    moreover have res: "slot_result (us ! p) u r \<and> length r = 1"
      if "fold_tool_update [us ! p] u k = Ok r" for r
    proof -
      from one(2) p that obtain m where "r = [m]" "entry_ok m" "same_slot (us ! p) m" by blast
      then show ?thesis by (auto simp: slot_result_def)
    qed
    ultimately show ?thesis
      unfolding Some using p k by (intro slot_fold_SomeI) (auto simp: fold_by_kind dest: res)
  qed
qed

text \<open>A plan update folds into the plan's slot of the current turn.\<close>

lemma slot_fold_plan:
  assumes pos: "position P (drop (turn_start_of us) us) = i"
    and P: "\<And>x. P x \<Longrightarrow> update_kind x = Some ''plan'' \<or> update_kind x = Some ''plan_update''"
    and u: "update_kind u \<noteq> Some ''tool_call_update''" "\<And>t. \<not> is_tool_slot t u"
    and np: "fold_active_turn_update [] u \<noteq> Panic" "\<And>x. fold_active_turn_update [x] u \<noteq> Panic"
    and none: "\<And>zs. position P zs = None \<Longrightarrow>
        fold_active_turn_update zs u = res_bind (fold_active_turn_update [] u) (\<lambda>r. Ok (zs @ r))"
    and some: "\<And>zs i. position P zs = Some i \<Longrightarrow>
        fold_active_turn_update zs u =
          res_bind (fold_active_turn_update [zs ! i] u) (\<lambda>r. Ok (take i zs @ r @ drop (Suc i) zs))"
    and empty: "\<And>r. fold_active_turn_update [] u = Ok r \<Longrightarrow> r = [] \<or> (r = [u] \<and> entry_ok u)"
    and one: "\<And>x r. P x \<Longrightarrow> fold_active_turn_update [x] u = Ok r \<Longrightarrow>
        (r = [] \<and> update_kind x = Some ''plan_update'') \<or> (r = [u] \<and> entry_ok u \<and> update_kind x = update_kind u)"
  shows "slot_fold us u (map_option (\<lambda>p. p + turn_start_of us) i)"
proof (cases i)
  case None
  with pos have "fold_active_turn_update (drop (turn_start_of us) us) u
      = res_bind (fold_active_turn_update [] u) (\<lambda>r. Ok (drop (turn_start_of us) us @ r))"
    by (intro none) simp
  with None u np empty show ?thesis
    by (auto simp: slot_fold_def fold_history_in_turn [OF u(1)] res_bind_def split: result.splits)
next
  case (Some j)
  let ?n = "turn_start_of us"
  let ?x = "us ! (j + ?n)"
  have j: "j < length (drop ?n us)" "P (drop ?n us ! j)" using pos Some position_Some by blast+
  note sp = splice_drop [OF j(1)]
  have "fold_active_turn_update (drop ?n us) u = res_bind (fold_active_turn_update [?x] u)
      (\<lambda>r. Ok (take j (drop ?n us) @ r @ drop (Suc j) (drop ?n us)))"
    using some [of "drop ?n us" j] pos Some sp(2) by simp
  then have "fold_history_update us u =
      res_bind (fold_active_turn_update [?x] u)
        (\<lambda>r. Ok (take (j + ?n) us @ r @ drop (Suc (j + ?n)) us))"
    using sp(1) by (auto simp: fold_history_in_turn [OF u(1)] res_bind_def split: result.splits)
  moreover have "slot_result ?x u r \<and> length r \<le> 1" if r: "fold_active_turn_update [?x] u = Ok r" for r
  proof -
    have x: "P ?x" using j(2) sp(2) by simp
    consider "r = []" "update_kind ?x = Some ''plan_update''"
      | "r = [u]" "entry_ok u" "update_kind ?x = update_kind u"
      using one [OF x r] by blast
    then show ?thesis
    proof cases
      case 1
      then show ?thesis by (simp add: slot_result_def)
    next
      case 2
      have "same_slot ?x u" using 2(3) P [OF x] by (auto intro: same_slot_kind)
      with 2 show ?thesis by (auto simp: slot_result_def)
    qed
  qed
  note res = this
  ultimately show ?thesis
    unfolding Some option.map using np sp(3) by (intro slot_fold_SomeI) (auto dest: res)
qed

lemma position_single: "position P [x] = (if P x then Some 0 else None)"
  by simp

lemma position_shape:
  "position P zs = None \<Longrightarrow> replace_shared_fold_slot P u zs = zs @ [u]"
  "P x \<Longrightarrow> replace_shared_fold_slot P u [x] = [u]"
  by (simp_all add: replace_shared_fold_slot_def)

lemma slot_fold_plan_entries:
  assumes k: "update_kind u = Some ''plan''" and u: "json_wf u"
  shows "slot_fold us u (map_option (\<lambda>p. p + turn_start_of us)
      (position is_plan_slot (drop (turn_start_of us) us)))"
proof (rule slot_fold_plan [OF refl])
  show "fold_active_turn_update [] u \<noteq> Panic" "fold_active_turn_update [x] u \<noteq> Panic" for x
    using k by (auto simp: fold_by_kind fold_plan_def)
next
  show "fold_active_turn_update zs u = res_bind (fold_active_turn_update [] u) (\<lambda>r. Ok (zs @ r))"
    if "position is_plan_slot zs = None" for zs
    using k that by (simp add: fold_by_kind fold_plan_def position_shape)
  show "fold_active_turn_update zs u =
      res_bind (fold_active_turn_update [zs ! i] u) (\<lambda>r. Ok (take i zs @ r @ drop (Suc i) zs))"
    if "position is_plan_slot zs = Some i" for zs i
    using k that position_Some [OF that] by (simp add: fold_by_kind fold_plan_def replace_slot_at position_shape)
next
  have ok: "entry_ok u" using k u by (simp add: entry_ok_def)
  show "r = [] \<or> r = [u] \<and> entry_ok u" if "fold_active_turn_update [] u = Ok r" for r
    using that k ok by (auto simp: fold_by_kind fold_plan_def position_shape split: if_splits)
  show "r = [] \<and> update_kind x = Some ''plan_update'' \<or> r = [u] \<and> entry_ok u \<and> update_kind x = update_kind u"
    if "is_plan_slot x" "fold_active_turn_update [x] u = Ok r" for x r
    using that k ok by (auto simp: fold_by_kind fold_plan_def position_shape is_plan_slot_def split: if_splits)
qed (use k in \<open>auto simp: is_plan_slot_def is_tool_slot_def\<close>)

lemma slot_fold_rejected:
  assumes "\<And>xs. fold_active_turn_update xs u = Err e" "update_kind u \<noteq> Some ''tool_call_update''"
    "\<And>p. slot_at = Some p \<Longrightarrow> p < length us"
  shows "slot_fold us u slot_at"
  using assms by (cases slot_at) (auto simp: slot_fold_def fold_history_in_turn)

lemma position_offset_less:
  "position P (drop n us) = Some q \<Longrightarrow> q + n < length us"
  by (auto dest!: position_Some)

lemma slot_fold_plan_update:
  assumes k: "update_kind u = Some ''plan_update''" and u: "json_wf u" and pid: "plan_update_id u = Ok t"
  shows "slot_fold us u (map_option (\<lambda>p. p + turn_start_of us)
      (position (is_plan_update_slot t) (drop (turn_start_of us) us)))"
proof (rule slot_fold_plan [OF refl])
  have fold: "fold_active_turn_update zs u = Ok (replace_shared_fold_slot (is_plan_update_slot t) u zs)" for zs
    using k pid by (simp add: fold_by_kind fold_plan_update_def)
  have ok: "entry_ok u" using k u pid by (simp add: entry_ok_def)
  show "fold_active_turn_update [] u \<noteq> Panic" "fold_active_turn_update [x] u \<noteq> Panic" for x
    by (simp_all add: fold)
  show "fold_active_turn_update zs u = res_bind (fold_active_turn_update [] u) (\<lambda>r. Ok (zs @ r))"
    if "position (is_plan_update_slot t) zs = None" for zs
    using that by (simp add: fold position_shape)
  show "fold_active_turn_update zs u =
      res_bind (fold_active_turn_update [zs ! i] u) (\<lambda>r. Ok (take i zs @ r @ drop (Suc i) zs))"
    if "position (is_plan_update_slot t) zs = Some i" for zs i
    using that position_Some [OF that] by (simp add: fold replace_slot_at position_shape)
  show "r = [] \<or> r = [u] \<and> entry_ok u" if "fold_active_turn_update [] u = Ok r" for r
    using that ok by (simp add: fold position_shape)
  show "r = [] \<and> update_kind x = Some ''plan_update'' \<or> r = [u] \<and> entry_ok u \<and> update_kind x = update_kind u"
    if "is_plan_update_slot t x" "fold_active_turn_update [x] u = Ok r" for x r
    using that k ok by (simp add: fold position_shape is_plan_update_slot_def)
qed (use k in \<open>auto simp: is_plan_update_slot_def is_tool_slot_def\<close>)

lemma slot_fold_plan_removed:
  assumes k: "update_kind u = Some ''plan_removed''" and pid: "required_fold_string u ''planId'' = Ok t"
  shows "slot_fold us u (map_option (\<lambda>p. p + turn_start_of us)
      (position (is_plan_update_slot t) (drop (turn_start_of us) us)))"
proof (rule slot_fold_plan [OF refl])
  have fold: "fold_active_turn_update zs u = (case position (is_plan_update_slot t) zs of
      Some i \<Rightarrow> Ok (take i zs @ drop (Suc i) zs) | None \<Rightarrow> Ok zs)" for zs
    using k pid by (simp add: fold_by_kind fold_plan_removed_def)
  show "fold_active_turn_update [] u \<noteq> Panic" "fold_active_turn_update [x] u \<noteq> Panic" for x
    by (simp_all add: fold)
  show "fold_active_turn_update zs u = res_bind (fold_active_turn_update [] u) (\<lambda>r. Ok (zs @ r))"
    if "position (is_plan_update_slot t) zs = None" for zs
    using that by (simp add: fold)
  show "fold_active_turn_update zs u =
      res_bind (fold_active_turn_update [zs ! i] u) (\<lambda>r. Ok (take i zs @ r @ drop (Suc i) zs))"
    if "position (is_plan_update_slot t) zs = Some i" for zs i
    using that position_Some [OF that] by (simp add: fold)
  show "r = [] \<or> r = [u] \<and> entry_ok u" if "fold_active_turn_update [] u = Ok r" for r
    using that by (simp add: fold)
  show "r = [] \<and> update_kind x = Some ''plan_update'' \<or> r = [u] \<and> entry_ok u \<and> update_kind x = update_kind u"
    if "is_plan_update_slot t x" "fold_active_turn_update [x] u = Ok r" for x r
    using that by (simp add: fold is_plan_update_slot_def)
qed (use k in \<open>auto simp: is_plan_update_slot_def is_tool_slot_def\<close>)

lemma slot_fold_other:
  assumes k: "\<And>k. update_kind u = Some k \<Longrightarrow> \<not> is_chunk_kind k \<and> \<not> is_tool_kind k \<and>
      k \<notin> {''plan'', ''plan_update'', ''plan_removed''}" and u: "json_wf u"
  shows "slot_fold us u None"
proof -
  have fold: "fold_active_turn_update xs u = Ok (xs @ [u])" for xs
    using k by (auto simp: fold_active_turn_update_def fold_shared_active_turn_update_def split: option.splits)
  have "update_kind u \<noteq> Some ''tool_call_update''" using k by (auto dest: k)
  moreover have "entry_ok u" using u k by (auto simp: entry_ok_def split: option.splits)
  moreover have "\<not> is_tool_slot t u" for t using k by (auto simp: is_tool_slot_def split: option.splits)
  ultimately show ?thesis by (simp add: slot_fold_def fold fold_history_in_turn)
qed

section \<open>The builder computes the reference fold\<close>

lemma json_index_index_str:
  "get_str (json_index v k1) k2 = Option.bind (json_get v k1) (\<lambda>p. get_str p k2)"
  by (simp add: json_index_def get_str_def split: option.splits)

lemma plan_update_slot_eq:
  "is_plan_update_slot t = (\<lambda>c. get_str c ''sessionUpdate'' = Some ''plan_update'' \<and>
      get_str (json_index c ''plan'') ''planId'' = Some t)"
  by (simp add: is_plan_update_slot_def update_kind_def json_index_index_str fun_eq_iff)

text \<open>The slot the builder picks is the slot of the reference fold; no slice is out of bounds.\<close>

lemma hb_position_slot_fold:
  assumes inv: "hb_inv b" and u: "json_wf u"
  shows "\<exists>slot_at. hb_position b u = Some slot_at \<and> slot_fold (hb_updates b) u slot_at"
proof -
  let ?us = "hb_updates b"
  have ok: "\<forall>x \<in> set ?us. entry_ok x" and start: "hb_turn_start b = turn_start_of ?us"
    and tools: "hm_get (hb_tools b) = (\<lambda>t. rposition (is_tool_slot t) ?us)"
    and uniq: "turn_tools_unique ?us"
    using inv by (auto simp: hb_inv_def)
  have le: "\<not> length ?us < hb_turn_start b" using turn_start_le [of ?us] start by simp
  consider (none) "update_kind u = None"
    | (chunk) k where "update_kind u = Some k" "is_chunk_kind k"
    | (tool) k where "update_kind u = Some k" "is_tool_kind k"
    | (plan) "update_kind u = Some ''plan''"
    | (plan_update) "update_kind u = Some ''plan_update''"
    | (plan_removed) "update_kind u = Some ''plan_removed''"
    | (other) k where "update_kind u = Some k" "\<not> is_chunk_kind k" "\<not> is_tool_kind k"
        "k \<notin> {''plan'', ''plan_update'', ''plan_removed''}"
    by (cases "update_kind u") blast+
  then show ?thesis
  proof cases
    case none
    with slot_fold_other [OF _ u, of ?us] show ?thesis by (simp add: hb_position_def)
  next
    case chunk
    with slot_fold_chunk [OF chunk u ok] show ?thesis by (simp add: hb_position_def)
  next
    case tool
    then have "hb_position b u = Some (tool_slot_of ?us u k)"
      by (auto simp: hb_position_def tool_slot_of_def tools start dest: kind_disjoint(1)
          split: option.splits)
    with slot_fold_tool [OF tool u ok uniq] show ?thesis by simp
  next
    case plan
    then show ?thesis
      using slot_fold_plan_entries [OF plan u, of ?us] le
      by (simp add: hb_position_def start is_plan_slot_def [abs_def] update_kind_def)
  next
    case plan_update
    show ?thesis
    proof (cases "plan_update_id u")
      case (Ok t)
      then have "json_index (json_index u ''plan'') ''planId'' = JStr t"
        by (auto simp: plan_update_id_def required_fold_string_Ok json_index_def get_str_eq_Some
            bind_eq_Some_conv split: if_splits)
      then show ?thesis
        using slot_fold_plan_update [OF plan_update u Ok, of ?us] le plan_update
        by (simp add: hb_position_def start plan_update_slot_eq)
    next
      case (Err e)
      have "slot_fold ?us u (map_option (\<lambda>p. p + turn_start_of ?us) (position P (drop (turn_start_of ?us) ?us)))"
        for P
        by (rule slot_fold_rejected [of _ e])
           (use plan_update Err in \<open>auto simp: fold_by_kind fold_plan_update_def dest: position_offset_less\<close>)
      then show ?thesis using le plan_update by (auto simp: hb_position_def start)
    next
      case Panic
      then show ?thesis by (auto simp: plan_update_id_def res_bind_def split: result.splits if_splits)
    qed
  next
    case plan_removed
    show ?thesis
    proof (cases "required_fold_string u ''planId''")
      case (Ok t)
      then have "json_index u ''planId'' = JStr t"
        by (auto simp: required_fold_string_Ok json_index_def get_str_eq_Some)
      then show ?thesis
        using slot_fold_plan_removed [OF plan_removed Ok, of ?us] le plan_removed
        by (simp add: hb_position_def start plan_update_slot_eq)
    next
      case (Err e)
      have "slot_fold ?us u (map_option (\<lambda>p. p + turn_start_of ?us) (position P (drop (turn_start_of ?us) ?us)))"
        for P
        by (rule slot_fold_rejected [of _ e])
           (use plan_removed Err in \<open>auto simp: fold_by_kind fold_plan_removed_def dest: position_offset_less\<close>)
      then show ?thesis using le plan_removed by (auto simp: hb_position_def start)
    qed simp
  next
    case other
    with slot_fold_other [OF _ u, of ?us] show ?thesis by (simp add: hb_position_def)
  qed
qed

text \<open>Bytes of an array after one of its elements changes.\<close>

lemma sum_list_splice:
  "p < length us \<Longrightarrow> sum_list (map (f :: json \<Rightarrow> nat) us) =
     f (us ! p) + sum_list (map f (take p us @ drop (Suc p) us))"
  by (subst id_take_nth_drop [of p us]) simp_all

lemma array_bytes_at:
  assumes "p < length us"
  shows "js (us ! p) \<le> array_bytes js us"
    and "array_bytes js us - js (us ! p) + js m = array_bytes js (us[p := m])"
    and "take p us @ drop (Suc p) us \<noteq> [] \<Longrightarrow>
      array_bytes js us - js (us ! p) - 1 = array_bytes js (take p us @ drop (Suc p) us)"
    and "take p us @ drop (Suc p) us = [] \<Longrightarrow> array_bytes js us - js (us ! p) = array_bytes js []"
proof -
  note s = sum_list_splice [OF assms, of js]
  show "js (us ! p) \<le> array_bytes js us" using s by (simp add: array_bytes_def)
  have "sum_list (map js (us[p := m])) = js m + sum_list (map js (take p us @ drop (Suc p) us))"
    using assms by (simp add: upd_conv_take_nth_drop)
  with s show "array_bytes js us - js (us ! p) + js m = array_bytes js (us[p := m])"
    by (simp add: array_bytes_def)
  have l: "length (take p us @ drop (Suc p) us) = length us - 1" using assms by simp
  show "array_bytes js us - js (us ! p) - 1 = array_bytes js (take p us @ drop (Suc p) us)"
    if "take p us @ drop (Suc p) us \<noteq> []"
  proof -
    have "0 < length us - 1" using that l by (metis length_greater_0_conv)
    then show ?thesis using s l by (simp add: array_bytes_def)
  qed
  show "array_bytes js us - js (us ! p) = array_bytes js []" if "take p us @ drop (Suc p) us = []"
  proof -
    have "length us = 1" using that assms by (cases us) auto
    then show ?thesis using s [unfolded that] by (simp add: array_bytes_def)
  qed
qed

lemma hb_push_bytes:
  "hb_bytes_ok js b \<Longrightarrow> hb_bytes (hb_push js e b) = array_bytes js (hb_updates b @ [e])"
  by (cases "hb_updates b") (auto simp: hb_push_def Let_def hb_bytes_ok_def array_bytes_def)

text \<open>
  One update: the builder's entries, its invariant and its byte count follow the reference fold,
  and an update that the reference rejects is rejected with the same error.
\<close>

lemma hb_append_step:
  assumes inv: "hb_inv b" and bytes: "hb_bytes_ok js b" and u: "json_wf u"
  shows "case fold_history_update (hb_updates b) u of
      Ok us \<Rightarrow> \<exists>b'. hb_append js b u = Ok b' \<and> hb_updates b' = us \<and> hb_inv b' \<and> hb_bytes_ok js b'
    | Err e \<Rightarrow> hb_append js b u = Err e
    | Panic \<Rightarrow> False"
proof -
  let ?us = "hb_updates b"
  obtain slot_at where pos: "hb_position b u = Some slot_at" and sf: "slot_fold ?us u slot_at"
    using hb_position_slot_fold [OF inv u] by blast
  show ?thesis
  proof (cases slot_at)
    case None
    note sf = sf [unfolded slot_fold_def None option.case]
    show ?thesis
    proof (cases "fold_active_turn_update [] u")
      case (Ok r)
      with sf consider "r = []" | "r = [u]" "entry_ok u"
        "\<And>t i. is_tool_slot t u \<Longrightarrow> turn_start_of ?us \<le> i \<Longrightarrow> i < length ?us \<Longrightarrow> \<not> is_tool_slot t (?us ! i)"
        by blast
      then show ?thesis
      proof cases
        case 1
        with Ok sf None pos inv bytes show ?thesis by (simp add: hb_append_def)
      next
        case 2
        with Ok sf None pos hb_inv_push [OF inv 2(2,3)] hb_push_bytes [OF bytes] show ?thesis
          by (simp add: hb_append_def hb_bytes_ok_def)
      qed
    qed (use sf None pos in \<open>simp_all add: hb_append_def\<close>)
  next
    case (Some p)
    note sf = sf [unfolded slot_fold_def Some option.case]
    have p: "p < length ?us" using sf by simp
    then have b: "hb_bytes b = array_bytes js ?us" using bytes by (auto simp: hb_bytes_ok_def)
    have x: "entry_ok (?us ! p)" using inv p by (simp add: hb_inv_def)
    have le: "\<not> hb_bytes b < js (?us ! p)" using array_bytes_at(1) [OF p, of js] b by simp
    show ?thesis
    proof (cases "fold_active_turn_update [?us ! p] u")
      case (Ok r)
      then have sr: "slot_result (?us ! p) u r" and r0: "r = [] \<longrightarrow> turn_start_of ?us \<le> p"
        and r2: "length r = 2 \<longrightarrow> Suc p = length ?us" using sf by blast+
      consider (removed) "r = []" "update_kind (?us ! p) = Some ''plan_update''"
        | (kept) m where "r = [m]" "entry_ok m" "same_slot (?us ! p) m"
        | (pushed) "r = [?us ! p, u]" "entry_ok u" "\<And>t. \<not> is_tool_slot t u"
        using sr by (auto simp: slot_result_def)
      then show ?thesis
      proof cases
        case removed
        then show ?thesis
          using Ok sf pos Some p le hb_inv_remove [OF inv p _ removed(2)] r0 b array_bytes_at(3,4) [OF p, of js]
          by (auto simp: hb_append_def hb_replace_def Let_def hb_bytes_ok_def sat_sub_def)
      next
        case kept
        with Ok sf pos Some p le hb_inv_replace [OF inv p kept(2,3)] array_bytes_at(2) [OF p, of js] b
        show ?thesis
          by (simp add: hb_append_def hb_replace_def Let_def hb_bytes_ok_def upd_conv_take_nth_drop)
      next
        case pushed
        let ?b = "b\<lparr>hb_bytes := hb_bytes b - js (?us ! p) + js (?us ! p), hb_updates := ?us[p := ?us ! p]\<rparr>"
        have i: "hb_inv ?b" by (rule hb_inv_replace [OF inv p x same_slot_refl])
        have bo: "hb_bytes_ok js ?b" using array_bytes_at(2) [OF p, of js "?us ! p"] b by (simp add: hb_bytes_ok_def)
        have e: "take p ?us @ [?us ! p, u] @ drop (Suc p) ?us = hb_updates (hb_push js u ?b)"
          using r2 pushed(1) p by (simp add: take_Suc_conv_app_nth [symmetric])
        have "hb_append js b u = Ok (hb_push js u ?b)"
          using Ok pos Some p le pushed(1) by (simp add: hb_append_def hb_replace_def Let_def)
        moreover have "hb_inv (hb_push js u ?b)" using i pushed(2,3) by (intro hb_inv_push) simp_all
        moreover have "hb_bytes_ok js (hb_push js u ?b)"
          using hb_push_bytes [OF bo, of u] by (simp add: hb_bytes_ok_def)
        ultimately show ?thesis using Ok sf pushed(1) e by auto
      qed
    qed (use sf Some pos p in \<open>simp_all add: hb_append_def\<close>)
  qed
qed

lemma hb_appends_fold:
  assumes "hb_inv b" "hb_bytes_ok js b" "\<forall>u \<in> set us. json_wf u"
  shows "case fold_history_updates (hb_updates b) us of
      Ok r \<Rightarrow> \<exists>b'. hb_appends js b us = Ok b' \<and> hb_updates b' = r \<and> hb_inv b' \<and> hb_bytes_ok js b'
    | Err e \<Rightarrow> hb_appends js b us = Err e
    | Panic \<Rightarrow> False"
  using assms
proof (induction us arbitrary: b)
  case Nil
  then show ?case by simp
next
  case (Cons u us)
  have u: "json_wf u" using Cons.prems(3) by simp
  note step = hb_append_step [OF Cons.prems(1,2) u]
  show ?case
  proof (cases "fold_history_update (hb_updates b) u")
    case (Ok r)
    with step obtain b' where "hb_append js b u = Ok b'" "hb_updates b' = r" "hb_inv b'" "hb_bytes_ok js b'"
      by auto
    with Cons.IH [of b'] Cons.prems(3) Ok show ?thesis by (auto split: result.splits)
  qed (use step in simp_all)
qed

lemma hb_bytes_ok_default: "hb_bytes_ok js hb_default"
  by (simp add: hb_bytes_ok_def hb_default_def)

lemma hb_bytes_ok_max: "hb_bytes_ok js b \<Longrightarrow> max (hb_bytes b) 2 = array_bytes js (hb_updates b)"
  by (auto simp: hb_bytes_ok_def array_bytes_def)

text \<open>
  (C1) Replay folding is exact: for any sequence of session updates, the incremental builder ends
  with the entries of the reference fold, its byte count (after the \<open>max(2)\<close> of \<open>take_history\<close>) is
  the length of their serialized array, an update rejected by one is rejected by the other with
  the same error, and neither panics on a byte underflow, a missing slot or an index.
\<close>

theorem history_builder_normalizes:
  assumes "\<forall>u \<in> set updates. json_wf u"
  shows "case normalize_history_updates updates of
      Ok r \<Rightarrow> \<exists>b. hb_appends json_bytes hb_default updates = Ok b \<and> hb_updates b = r \<and>
                 max (hb_bytes b) 2 = array_bytes json_bytes r
    | Err e \<Rightarrow> hb_appends json_bytes hb_default updates = Err e
    | Panic \<Rightarrow> False"
  using hb_appends_fold [OF hb_inv_default hb_bytes_ok_default assms, of json_bytes]
  by (auto simp: normalize_history_updates_def hb_default_def hb_bytes_ok_max split: result.splits)

definition sample_tool :: "string \<Rightarrow> string \<Rightarrow> json" where
  "sample_tool kind title = JObj [(''sessionUpdate'', JStr kind), (''toolCallId'', JStr ''t1''),
     (''title'', JStr title)]"

definition sample_text :: "string \<Rightarrow> string \<Rightarrow> json" where
  "sample_text kind body = JObj [(''sessionUpdate'', JStr kind),
     (''content'', JObj [(''type'', JStr ''text''), (''text'', JStr body)])]"

lemma history_builder_normalizes_witness:
  "(case normalize_history_updates
      [sample_text ''user_message_chunk'' ''go'', sample_tool ''tool_call'' ''a'',
       sample_tool ''tool_call_update'' ''b'', sample_text ''agent_message_chunk'' ''done''] of
      Ok r \<Rightarrow> \<exists>b. hb_appends (\<lambda>v. 7) hb_default
          [sample_text ''user_message_chunk'' ''go'', sample_tool ''tool_call'' ''a'',
           sample_tool ''tool_call_update'' ''b'', sample_text ''agent_message_chunk'' ''done''] = Ok b \<and>
        hb_updates b = r \<and> max (hb_bytes b) 2 = array_bytes (\<lambda>v. 7) r
    | Err e \<Rightarrow> hb_appends (\<lambda>v. 7) hb_default
          [sample_text ''user_message_chunk'' ''go'', sample_tool ''tool_call'' ''a'',
           sample_tool ''tool_call_update'' ''b'', sample_text ''agent_message_chunk'' ''done''] = Err e
    | Panic \<Rightarrow> False)"
  by (rule history_builder_normalizes) (simp add: sample_tool_def sample_text_def)

end
