(* ===== verification/Semantic.thy ===== *)
theory Semantic
  imports History_Fold Environment
begin

text \<open>
  Validation of what the Agent sends (\<open>src/src/semantic.rs\<close>): content blocks, session controls,
  permission requests and session updates, with the entities a session tracks (tool calls,
  messages, plans and compactions). Errors are the messages of the code. The base64, URL and
  media-type parsers are the environment's; everything else is computed here.
\<close>

type_synonym 'a validation = "(string, 'a) result"

definition max_safe_integer :: u64 where
  "max_safe_integer = 9007199254740991"

definition max_tool_location_line :: u64 where
  "max_tool_location_line = 4294967295"

section \<open>Scalars\<close>

definition required_string :: "json \<Rightarrow> string \<Rightarrow> string \<Rightarrow> string validation" where
  "required_string v field subject =
     ok_or (subject @ '' '' @ field @ '' must be a string'') (get_str v field)"

definition optional_string :: "json \<Rightarrow> string \<Rightarrow> string \<Rightarrow> string option validation" where
  "optional_string v field subject =
     (case json_get v field of
        None \<Rightarrow> Ok None
      | Some JNull \<Rightarrow> Ok None
      | Some (JStr s) \<Rightarrow> Ok (Some s)
      | Some _ \<Rightarrow> Err (subject @ '' '' @ field @ '' must be a string or null''))"

definition validate_identifier :: "string \<Rightarrow> string \<Rightarrow> unit validation" where
  "validate_identifier v label = (if v = '''' then Err (label @ '' must not be empty'') else Ok ())"

definition validate_non_empty_label :: "string \<Rightarrow> string \<Rightarrow> unit validation" where
  "validate_non_empty_label v label = validate_identifier v label"

text \<open>\<open>value.get(field).filter(|value| !value.is_null())\<close>\<close>

definition json_get_some :: "json \<Rightarrow> string \<Rightarrow> json option" where
  "json_get_some v field =
     (case json_get v field of Some x \<Rightarrow> if is_null x then None else Some x | None \<Rightarrow> None)"

definition safe_non_negative_integer :: "json option \<Rightarrow> string \<Rightarrow> u64 option validation" where
  "safe_non_negative_integer v name =
     (case (case v of Some x \<Rightarrow> if is_null x then None else Some x | None \<Rightarrow> None) of
        None \<Rightarrow> Ok None
      | Some x \<Rightarrow>
          (case as_u64 x of
             Some n \<Rightarrow>
               if n \<le> max_safe_integer then Ok (Some n)
               else Err (''Agent prompt usage '' @ name @ '' must be a non-negative safe integer'')
           | None \<Rightarrow> Err (''Agent prompt usage '' @ name @ '' must be a non-negative safe integer'')))"

text \<open>
  \<open>as_f64\<close> followed by \<open>is_finite\<close>, and by a comparison with zero: an integer is finite, a float is
  finite unless its exponent is all ones, and it is negative when its sign is set and it is not
  minus zero.
\<close>

fun float_finite :: "number \<Rightarrow> bool" where
  "float_finite (Float b) = (unat b div 2 ^ 52 mod 2 ^ 11 \<noteq> 2 ^ 11 - 1)"
| "float_finite _ = True"

fun float_non_negative :: "number \<Rightarrow> bool" where
  "float_non_negative (PosInt n) = True"
| "float_non_negative (NegInt i) = (0 \<le> i)"
| "float_non_negative (Float b) = (unat b < 2 ^ 63 \<or> unat b = 2 ^ 63)"

fun finite_number :: "json \<Rightarrow> bool" where
  "finite_number (JNum n) = float_finite n"
| "finite_number _ = False"

fun finite_non_negative :: "json \<Rightarrow> bool" where
  "finite_non_negative (JNum n) = (float_finite n \<and> float_non_negative n)"
| "finite_non_negative _ = False"

text \<open>\<open>encode_utf16().count()\<close> of UTF-8 bytes: one unit per character, two above the BMP.\<close>

definition js_len :: "string \<Rightarrow> nat" where
  "js_len s =
     length (filter (\<lambda>c. \<not> (128 \<le> (of_char c :: nat) \<and> (of_char c :: nat) < 192)) s) +
     length (filter (\<lambda>c. 240 \<le> (of_char c :: nat)) s)"

definition ascii_alphabetic :: "char \<Rightarrow> bool" where
  "ascii_alphabetic c \<longleftrightarrow>
     (65 \<le> (of_char c :: nat) \<and> (of_char c :: nat) \<le> 90) \<or> (97 \<le> (of_char c :: nat) \<and> (of_char c :: nat) \<le> 122)"

definition is_portable_absolute_path :: "string \<Rightarrow> bool" where
  "is_portable_absolute_path v \<longleftrightarrow>
     take 1 v = [CHR 0x2F] \<or> take 2 v = [CHR 0x5C, CHR 0x5C] \<or> take 2 v = [CHR 0x2F, CHR 0x2F] \<or>
     (3 \<le> length v \<and> ascii_alphabetic (v ! 0) \<and> v ! 1 = CHR 0x3A \<and>
      (v ! 2 = CHR 0x2F \<or> v ! 2 = CHR 0x5C))"

definition validate_absolute_path :: "string \<Rightarrow> string \<Rightarrow> unit validation" where
  "validate_absolute_path path subject =
     (if path = '''' \<or> CHR 0x00 \<in> set path \<or> \<not> is_portable_absolute_path path
      then Err (subject @ '' must be an absolute path without NUL bytes'')
      else Ok ())"

section \<open>Encodings\<close>

definition validate_base64 :: "env \<Rightarrow> string \<Rightarrow> string \<Rightarrow> unit validation" where
  "validate_base64 E v subject =
     (if length v mod 4 \<noteq> 0 then Err (subject @ '' must be canonical base64'')
      else case env_base64_decode E v of
             None \<Rightarrow> Err (subject @ '' must be canonical base64'')
           | Some decoded \<Rightarrow>
               if env_base64_encode E decoded \<noteq> v then Err (subject @ '' must be canonical base64'')
               else Ok ())"

definition ascii_lower :: "char \<Rightarrow> char" where
  "ascii_lower c = (if 65 \<le> (of_char c :: nat) \<and> (of_char c :: nat) \<le> 90
     then char_of ((of_char c :: nat) + 32) else c)"

definition validate_mime_type :: "env \<Rightarrow> string \<Rightarrow> string \<Rightarrow> string option \<Rightarrow> unit validation" where
  "validate_mime_type E v subject expected_family =
     (case env_mime_essence E v of
        None \<Rightarrow> Err (subject @ '' is invalid'')
      | Some essence \<Rightarrow>
          if CHR 0x2F \<notin> set essence then Panic
          else
            (case expected_family of
               None \<Rightarrow> Ok ()
             | Some expected \<Rightarrow>
                 if map ascii_lower (takeWhile (\<lambda>c. c \<noteq> CHR 0x2F) essence) \<noteq> map ascii_lower expected
                 then Err (subject @ '' must use the '' @ expected @ ''/* family'')
                 else Ok ()))"

definition validate_uri :: "env \<Rightarrow> string \<Rightarrow> string \<Rightarrow> unit validation" where
  "validate_uri E v subject =
     (if v = '''' then Err (subject @ '' must not be empty'')
      else if env_url_ok E v then Ok () else Err (subject @ '' is invalid''))"

section \<open>Content blocks\<close>

definition validate_annotations :: "json option \<Rightarrow> string \<Rightarrow> unit validation" where
  "validate_annotations annotations subject =
     (case (case annotations of Some x \<Rightarrow> if is_null x then None else Some x | None \<Rightarrow> None) of
        None \<Rightarrow> Ok ()
      | Some a \<Rightarrow>
          (case as_object a of
             None \<Rightarrow> Err (subject @ '' must be an object'')
           | Some _ \<Rightarrow>
               if (case json_get_some a ''priority'' of Some p \<Rightarrow> \<not> finite_number p | None \<Rightarrow> False)
               then Err (subject @ '' priority must be finite'')
               else (case json_get_some a ''lastModified'' of
                       Some t \<Rightarrow>
                         if is_string t then Ok ()
                         else Err (subject @ '' last-modified timestamp must be a string'')
                     | None \<Rightarrow> Ok ())))"

text \<open>The block kinds with data: the data, its media type and an optional location.\<close>

definition validate_image_block :: "env \<Rightarrow> json \<Rightarrow> string \<Rightarrow> unit validation" where
  "validate_image_block E block subject =
     res_bind (required_string block ''data'' subject) (\<lambda>data.
     res_bind (validate_base64 E data (subject @ '' image data'')) (\<lambda>_.
     res_bind (required_string block ''mimeType'' subject) (\<lambda>mime.
     res_bind (validate_mime_type E mime (subject @ '' image MIME type'') (Some ''image'')) (\<lambda>_.
     res_bind (optional_string block ''uri'' subject) (\<lambda>uri.
       case uri of Some u \<Rightarrow> validate_uri E u (subject @ '' image URI'') | None \<Rightarrow> Ok ())))))"

definition validate_audio_block :: "env \<Rightarrow> json \<Rightarrow> string \<Rightarrow> unit validation" where
  "validate_audio_block E block subject =
     res_bind (required_string block ''data'' subject) (\<lambda>data.
     res_bind (validate_base64 E data (subject @ '' audio data'')) (\<lambda>_.
     res_bind (required_string block ''mimeType'' subject) (\<lambda>mime.
       validate_mime_type E mime (subject @ '' audio MIME type'') (Some ''audio''))))"

definition validate_link_block :: "env \<Rightarrow> json \<Rightarrow> string \<Rightarrow> unit validation" where
  "validate_link_block E block subject =
     res_bind (required_string block ''uri'' subject) (\<lambda>uri.
     res_bind (validate_uri E uri (subject @ '' resource URI'')) (\<lambda>_.
     res_bind (required_string block ''name'' subject) (\<lambda>_.
     res_bind (check_list (\<lambda>field. res_bind (optional_string block field subject) (\<lambda>_. Ok ()))
        [''title'', ''description'']) (\<lambda>_.
     res_bind (optional_string block ''mimeType'' subject) (\<lambda>mime.
     res_bind (case mime of
         Some m \<Rightarrow> validate_mime_type E m (subject @ '' resource MIME type'') None
       | None \<Rightarrow> Ok ()) (\<lambda>_.
       if (case json_get_some block ''size'' of
             Some sz \<Rightarrow> (case as_u64 sz of Some n \<Rightarrow> max_safe_integer < n | None \<Rightarrow> True)
           | None \<Rightarrow> False)
       then Err (subject @ '' resource size must be a non-negative safe integer'')
       else Ok ()))))))"

definition validate_resource_block :: "env \<Rightarrow> json \<Rightarrow> string \<Rightarrow> unit validation" where
  "validate_resource_block E block subject =
     res_bind (ok_or (subject @ '' embedded resource must be an object'')
       (map_option JObj (Option.bind (json_get block ''resource'') as_object))) (\<lambda>resource.
     res_bind (ok_or (subject @ '' embedded resource URI is missing'') (get_str resource ''uri'')) (\<lambda>uri.
     res_bind (validate_uri E uri (subject @ '' embedded resource URI'')) (\<lambda>_.
     res_bind (case get_str resource ''mimeType'' of
         Some m \<Rightarrow> validate_mime_type E m (subject @ '' embedded resource MIME type'') None
       | None \<Rightarrow> Ok ()) (\<lambda>_.
       case get_str resource ''blob'' of
         Some blob \<Rightarrow> validate_base64 E blob (subject @ '' embedded resource blob'')
       | None \<Rightarrow> Ok ()))))"

definition validate_content_block :: "env \<Rightarrow> json \<Rightarrow> string \<Rightarrow> unit validation" where
  "validate_content_block E block subject =
     res_bind (ok_or (subject @ '' must be an object'') (as_object block)) (\<lambda>_.
     res_bind (validate_annotations (json_get block ''annotations'') (subject @ '' annotations'')) (\<lambda>_.
       case get_str block ''type'' of
         None \<Rightarrow> Err (subject @ '' type is missing'')
       | Some kind \<Rightarrow>
           if kind = ''text'' then Ok ()
           else if kind = ''image'' then validate_image_block E block subject
           else if kind = ''audio'' then validate_audio_block E block subject
           else if kind = ''resource_link'' then validate_link_block E block subject
           else if kind = ''resource'' then validate_resource_block E block subject
           else Err (''unsupported '' @ subject @ '' type: '' @ kind)))"

section \<open>Prompt responses\<close>

definition u64_sat_add :: "u64 \<Rightarrow> u64 \<Rightarrow> u64" where
  "u64_sat_add a b = (if unat a + unat b < 2 ^ 64 then a + b else - 1)"

definition validate_prompt_usage :: "json \<Rightarrow> unit validation" where
  "validate_prompt_usage usage =
     res_bind (safe_non_negative_integer (json_get usage ''totalTokens'') ''totalTokens'') (\<lambda>t.
     res_bind (ok_or ''Agent prompt usage totalTokens is required'' t) (\<lambda>total.
     res_bind (safe_non_negative_integer (json_get usage ''inputTokens'') ''inputTokens'') (\<lambda>i.
     res_bind (safe_non_negative_integer (json_get usage ''outputTokens'') ''outputTokens'') (\<lambda>out.
     res_bind (check_list (\<lambda>name.
         res_bind (safe_non_negative_integer (json_get usage name) name) (\<lambda>v.
           if (case v of Some n \<Rightarrow> total < n | None \<Rightarrow> False)
           then Err (''Agent prompt usage '' @ name @ '' exceeds totalTokens'') else Ok ()))
       [''inputTokens'', ''outputTokens'', ''thoughtTokens'', ''cachedReadTokens'', ''cachedWriteTokens'']) (\<lambda>_.
       let input = (case i of Some n \<Rightarrow> n | None \<Rightarrow> 0);
           output = (case out of Some n \<Rightarrow> n | None \<Rightarrow> 0)
       in if total < u64_sat_add input output
          then Err ''Agent prompt usage inputTokens plus outputTokens exceeds totalTokens''
          else Ok ())))))"

definition validate_prompt_response :: "json \<Rightarrow> unit validation" where
  "validate_prompt_response response =
     (case json_get_some response ''usage'' of
        Some usage \<Rightarrow> validate_prompt_usage usage
      | None \<Rightarrow> Ok ())"

section \<open>Session controls\<close>

definition session_mode_id :: "json \<Rightarrow> string validation" where
  "session_mode_id mode =
     res_bind (required_string mode ''id'' ''session mode'') (\<lambda>mode_id.
     res_bind (required_string mode ''name'' ''session mode'') (\<lambda>name.
     res_bind (validate_identifier mode_id ''session mode ID'') (\<lambda>_.
     res_bind (validate_non_empty_label name ''session mode name'') (\<lambda>_. Ok mode_id))))"

definition validate_session_modes :: "json \<Rightarrow> unit validation" where
  "validate_session_modes modes =
     res_bind (ok_or ''Agent session modes are missing availableModes''
       (Option.bind (json_get modes ''availableModes'') as_array)) (\<lambda>available.
     if available = [] then Err ''Agent session modes must contain at least one available mode''
     else
       res_bind (check_seen (add_key session_mode_id
           (\<lambda>mode_id. ''Agent returned duplicate session mode ID: '' @ mode_id)) [] available) (\<lambda>ids.
       res_bind (required_string modes ''currentModeId'' ''session modes'') (\<lambda>current.
         if current \<notin> set ids
         then Err (''Agent current mode was not included in available modes: '' @ current)
         else Ok ())))"

definition validate_session_mode_reference :: "json option \<Rightarrow> string \<Rightarrow> unit validation" where
  "validate_session_mode_reference modes mode_id =
     (case Option.bind (Option.bind modes (\<lambda>m. json_get m ''availableModes'')) as_array of
        Some ms \<Rightarrow>
          if \<exists>m \<in> set ms. get_str m ''id'' = Some mode_id then Ok ()
          else Err (''Mode was not offered by the Agent: '' @ mode_id)
      | None \<Rightarrow> Err (''Mode was not offered by the Agent: '' @ mode_id))"

text \<open>One selectable value, added to the values seen so far.\<close>

definition select_value_of :: "string \<Rightarrow> json \<Rightarrow> string validation" where
  "select_value_of config_id v =
     res_bind (required_string v ''value'' ''config option value'') (\<lambda>val.
     res_bind (required_string v ''name'' ''config option value'') (\<lambda>name.
     res_bind (validate_identifier val (''config option '' @ config_id @ '' value'')) (\<lambda>_.
     res_bind (validate_non_empty_label name (''config option '' @ config_id @ '' value name'')) (\<lambda>_.
       Ok val))))"

definition add_select_value :: "string \<Rightarrow> string list \<Rightarrow> json \<Rightarrow> string list validation" where
  "add_select_value config_id values v =
     add_key (select_value_of config_id)
       (\<lambda>val. ''Agent config option '' @ config_id @ '' has duplicate value: '' @ val) values v"

definition add_select_item :: "string \<Rightarrow> string list \<times> string list \<Rightarrow> json
    \<Rightarrow> (string list \<times> string list) validation" where
  "add_select_item config_id seen item =
     (case seen of (values, groups) \<Rightarrow>
       (case Option.bind (json_get item ''options'') as_array of
          Some nested \<Rightarrow>
            res_bind (required_string item ''group'' ''config option group'') (\<lambda>grp.
            res_bind (required_string item ''name'' ''config option group'') (\<lambda>name.
            res_bind (validate_identifier grp (''config option '' @ config_id @ '' group ID'')) (\<lambda>_.
            res_bind (validate_non_empty_label name (''config option '' @ config_id @ '' group name'')) (\<lambda>_.
              if grp \<in> set groups
              then Err (''Agent config option '' @ config_id @ '' has duplicate group ID: '' @ grp)
              else if nested = []
              then Err (''Agent config option '' @ config_id @ '' contains an empty option group'')
              else res_bind (check_seen (add_select_value config_id) values nested)
                     (\<lambda>values'. Ok (values', groups @ [grp]))))))
        | None \<Rightarrow>
            res_bind (add_select_value config_id values item) (\<lambda>values'. Ok (values', groups))))"

definition validate_select_option :: "json \<Rightarrow> string \<Rightarrow> unit validation" where
  "validate_select_option option config_id =
     res_bind (ok_or (''Agent config option '' @ config_id @ '' is missing selectable values'')
       (Option.bind (json_get option ''options'') as_array)) (\<lambda>options.
     if options = [] then Err (''Agent config option '' @ config_id @ '' has no selectable values'')
     else
       res_bind (check_seen (add_select_item config_id) ([], []) options) (\<lambda>(values, groups).
       res_bind (required_string option ''currentValue'' ''select config option'') (\<lambda>current.
         if current \<notin> set values
         then Err (''Agent config option '' @ config_id
                @ '' current value was not included in its selectable values'')
         else Ok ())))"

definition config_option_id :: "json \<Rightarrow> string validation" where
  "config_option_id option =
     res_bind (required_string option ''id'' ''config option'') (\<lambda>option_id.
     res_bind (required_string option ''name'' ''config option'') (\<lambda>name.
     res_bind (validate_identifier option_id ''config option ID'') (\<lambda>_.
     res_bind (validate_non_empty_label name ''config option name'') (\<lambda>_. Ok option_id))))"

text \<open>One option: its id is new, and a select option is well formed.\<close>

definition add_config_option :: "string list \<Rightarrow> json \<Rightarrow> string list validation" where
  "add_config_option ids option =
     res_bind (config_option_id option) (\<lambda>option_id.
       if option_id \<in> set ids then Err (''Agent returned duplicate config option ID: '' @ option_id)
       else if get_str option ''type'' = Some ''select'' then
         res_bind (validate_select_option option option_id) (\<lambda>_. Ok (ids @ [option_id]))
       else Ok (ids @ [option_id]))"

definition validate_session_config_options :: "json \<Rightarrow> unit validation" where
  "validate_session_config_options options =
     res_bind (ok_or ''Agent config options must be an array'' (as_array options)) (\<lambda>opts.
     res_bind (check_seen add_config_option [] opts) (\<lambda>_. Ok ()))"

definition validate_session_controls :: "json option \<Rightarrow> json option \<Rightarrow> unit validation" where
  "validate_session_controls modes config_options =
     res_bind (case modes of
         Some m \<Rightarrow> if is_null m then Ok () else validate_session_modes m
       | None \<Rightarrow> Ok ()) (\<lambda>_.
       case config_options of
         Some opts \<Rightarrow> if is_null opts then Ok () else validate_session_config_options opts
       | None \<Rightarrow> Ok ())"

text \<open>Whether a select option offers a value, directly or in a group.\<close>

definition select_offers :: "json \<Rightarrow> string \<Rightarrow> bool" where
  "select_offers option selected =
     (case Option.bind (json_get option ''options'') as_array of
        None \<Rightarrow> False
      | Some items \<Rightarrow>
          \<exists>item \<in> set items. get_str item ''value'' = Some selected \<or>
            (case Option.bind (json_get item ''options'') as_array of
               None \<Rightarrow> False
             | Some nested \<Rightarrow> \<exists>n \<in> set nested. get_str n ''value'' = Some selected))"

definition validate_session_config_reference :: "json \<Rightarrow> string \<Rightarrow> json \<Rightarrow> unit validation" where
  "validate_session_config_reference options config_id v =
     res_bind (ok_or (''Config option was not offered by the Agent: '' @ config_id)
       (Option.bind (as_array options) (find (\<lambda>option. get_str option ''id'' = Some config_id)))) (\<lambda>option.
       case get_str option ''type'' of
         Some kind \<Rightarrow>
           if kind = ''boolean'' then
             (case v of JBool b \<Rightarrow> Ok ()
              | _ \<Rightarrow> Err (''Config option '' @ config_id @ '' requires a boolean value''))
           else if kind = ''select'' then
             res_bind (ok_or (''Config option '' @ config_id @ '' value was not offered by the Agent'')
               (as_str v)) (\<lambda>selected.
               if select_offers option selected then Ok ()
               else Err (''Config option '' @ config_id @ '' value was not offered by the Agent''))
           else Err (''Config option was not offered by the Agent: '' @ config_id)
       | None \<Rightarrow> Err (''Config option was not offered by the Agent: '' @ config_id))"

section \<open>Session updates\<close>

record tracked_compaction =
  tc_status :: string
  tc_summary_bytes :: nat

text \<open>The entities a session tracks, under the identity of its allocation, which no operation here reads.\<close>

record semantic_state =
  sem_compactions :: "(string, tracked_compaction) hash_map"
  sem_tool_calls :: "(string, string option) hash_map"
  sem_messages :: "(string, string) hash_map"
  sem_plans :: "(string, string) hash_map"
  sem_update_count :: nat
  sem_update_bytes :: nat
  sem_current_mode_id :: "string option"
  sem_invalid_reason :: "string option"
  sem_allocation :: nat

definition semantic_default :: semantic_state where
  "semantic_default = \<lparr>sem_compactions = [], sem_tool_calls = [], sem_messages = [], sem_plans = [],
     sem_update_count = 0, sem_update_bytes = 0, sem_current_mode_id = None, sem_invalid_reason = None, sem_allocation = 0\<rparr>"

definition retire_turn :: "semantic_state \<Rightarrow> semantic_state" where
  "retire_turn s = s\<lparr>sem_update_count := 0, sem_update_bytes := 0, sem_invalid_reason := None\<rparr>"

definition is_terminal_compaction_status :: "string \<Rightarrow> bool" where
  "is_terminal_compaction_status status \<longleftrightarrow> status \<in> {''completed'', ''failed'', ''cancelled''}"

definition validate_tool_content :: "env \<Rightarrow> json \<Rightarrow> unit validation" where
  "validate_tool_content E item =
     (case get_str item ''type'' of
        None \<Rightarrow> Err ''Agent tool content type is missing''
      | Some kind \<Rightarrow>
          if kind = ''content'' then
            res_bind (ok_or ''Agent tool content block is missing'' (json_get item ''content''))
              (\<lambda>block. validate_content_block E block ''Agent tool content'')
          else if kind = ''diff'' then
            res_bind (required_string item ''path'' ''tool diff'')
              (\<lambda>path. validate_absolute_path path ''Agent tool diff path'')
          else if kind = ''terminal'' then
            res_bind (required_string item ''terminalId'' ''tool terminal'')
              (\<lambda>tid. validate_identifier tid ''Agent terminal reference ID'')
          else Err (''unsupported Agent tool content: '' @ kind))"

definition validate_tool_location :: "json \<Rightarrow> unit validation" where
  "validate_tool_location location =
     res_bind (required_string location ''path'' ''tool location'') (\<lambda>path.
     res_bind (validate_absolute_path path ''Agent tool location path'') (\<lambda>_.
       if (case json_get_some location ''line'' of
             Some line \<Rightarrow> (case as_u64 line of Some n \<Rightarrow> max_tool_location_line < n | None \<Rightarrow> True)
           | None \<Rightarrow> False)
       then Err ''Agent tool location line must be an integer between 0 and 4294967295''
       else Ok ()))"

text \<open>The checks of a tool update before its status is tracked; the result is the tool's id.\<close>

definition check_tool_update :: "env \<Rightarrow> json \<Rightarrow> string validation" where
  "check_tool_update E update =
     res_bind (required_string update ''toolCallId'' ''tool update'') (\<lambda>tool_id.
     res_bind (validate_identifier tool_id ''Agent tool call ID'') (\<lambda>_.
     res_bind (check_list (\<lambda>field. res_bind (optional_string update field ''tool update'') (\<lambda>_. Ok ()))
        [''title'', ''name'']) (\<lambda>_.
     res_bind (case json_get_some update ''content'' of
         Some content \<Rightarrow>
           res_bind (ok_or ''Agent tool content must be an array'' (as_array content))
             (check_list (validate_tool_content E))
       | None \<Rightarrow> Ok ()) (\<lambda>_.
     res_bind (case json_get_some update ''locations'' of
         Some locations \<Rightarrow>
           res_bind (ok_or ''Agent tool locations must be an array'' (as_array locations))
             (check_list validate_tool_location)
       | None \<Rightarrow> Ok ()) (\<lambda>_. Ok tool_id)))))"

definition validate_tool_update :: "env \<Rightarrow> semantic_state \<Rightarrow> json \<Rightarrow> unit validation \<times> semantic_state"
  where
  "validate_tool_update E s update =
     try_in s (check_tool_update E update) (\<lambda>tool_id.
     try_in s (optional_string update ''status'' ''tool update'') (\<lambda>st.
       let previous = (case hm_get (sem_tool_calls s) tool_id of Some p \<Rightarrow> p | None \<Rightarrow> None);
           status = (case st of Some x \<Rightarrow> Some x | None \<Rightarrow> previous)
       in (Ok (), s\<lparr>sem_tool_calls := hm_insert tool_id status (sem_tool_calls s)\<rparr>)))"

definition validate_available_commands :: "json \<Rightarrow> unit validation" where
  "validate_available_commands update =
     res_bind (ok_or ''Agent available commands must be an array''
       (Option.bind (json_get update ''availableCommands'') as_array)) (\<lambda>commands.
     res_bind (check_seen (\<lambda>names command.
         res_bind (required_string command ''name'' ''available command'') (\<lambda>name.
         res_bind (validate_identifier name ''Agent available command name'') (\<lambda>_.
           if name \<in> set names then Err (''Agent returned duplicate available command: '' @ name)
           else res_bind (required_string command ''description'' ''available command'')
                  (\<lambda>_. Ok (names @ [name]))))) [] commands) (\<lambda>_. Ok ()))"

definition validate_plan_entries :: "json option \<Rightarrow> unit validation" where
  "validate_plan_entries entries =
     res_bind (ok_or ''Agent plan entries must be an array'' (Option.bind entries as_array)) (\<lambda>_. Ok ())"

definition validate_usage_update :: "json \<Rightarrow> unit validation" where
  "validate_usage_update update =
     res_bind (check_list (\<lambda>field.
         if (case json_get update field of Some v \<Rightarrow> finite_non_negative v | None \<Rightarrow> False) then Ok ()
         else Err ''Agent returned invalid context usage values'') [''used'', ''size'']) (\<lambda>_.
       case json_get_some update ''cost'' of
         None \<Rightarrow> Ok ()
       | Some cost \<Rightarrow>
           if \<not> (case json_get cost ''amount'' of Some v \<Rightarrow> finite_non_negative v | None \<Rightarrow> False)
           then Err ''Agent returned an invalid cumulative cost''
           else
             let currency = (case get_str cost ''currency'' of Some c \<Rightarrow> c | None \<Rightarrow> '''')
             in if currency = '''' \<or> 32 < js_len currency
                then Err ''Agent returned an invalid cost currency label'' else Ok ())"

definition validate_session_metadata :: "json option \<Rightarrow> json option \<Rightarrow> string \<Rightarrow> unit validation" where
  "validate_session_metadata title updated_at subject =
     res_bind (case title of
         Some t \<Rightarrow> if is_null t \<or> is_string t then Ok ()
                   else Err (subject @ '' title must be a string or null'')
       | None \<Rightarrow> Ok ()) (\<lambda>_.
       case updated_at of
         Some u \<Rightarrow> if is_null u \<or> is_string u then Ok ()
                   else Err (subject @ '' updatedAt must be a string or null'')
       | None \<Rightarrow> Ok ())"

definition validate_compaction_update :: "env \<Rightarrow> semantic_state \<Rightarrow> json
    \<Rightarrow> unit validation \<times> semantic_state" where
  "validate_compaction_update E s update =
     try_in s (required_string update ''compactionId'' ''compaction update'') (\<lambda>cid.
     try_in s (validate_identifier cid ''Agent compaction ID'') (\<lambda>_.
     try_in s (required_string update ''status'' ''compaction update'') (\<lambda>status.
       let summary = json_get_some update ''summary'' in
       if (case Option.bind summary as_array of Some xs \<Rightarrow> xs \<noteq> [] | None \<Rightarrow> False) \<and> status \<noteq> ''completed''
       then (Err ''A non-empty compaction summary is only valid with completed status'', s)
       else if json_get_some update ''error'' \<noteq> None \<and> status \<noteq> ''failed''
       then (Err ''A compaction error is only valid with failed status'', s)
       else
         try_in s (case summary of
             Some v \<Rightarrow>
               res_bind (ok_or ''Agent compaction summary must be an array'' (as_array v)) (\<lambda>blocks.
               res_bind (check_list (\<lambda>block.
                   validate_content_block E block ''Agent compaction summary content'') blocks) (\<lambda>_.
                 Ok (serialized_len E v)))
           | None \<Rightarrow>
               Ok (case hm_get (sem_compactions s) cid of Some t \<Rightarrow> tc_summary_bytes t | None \<Rightarrow> 0))
         (\<lambda>bytes.
           if (case hm_get (sem_compactions s) cid of
                 Some t \<Rightarrow> is_terminal_compaction_status (tc_status t) | None \<Rightarrow> False)
           then (Err (''Compaction is already terminal: '' @ cid), s)
           else (Ok (), s\<lparr>sem_compactions := hm_insert cid
                  \<lparr>tc_status = status, tc_summary_bytes = bytes\<rparr> (sem_compactions s)\<rparr>)))))"

definition validate_compaction_chunk :: "env \<Rightarrow> semantic_state \<Rightarrow> json
    \<Rightarrow> unit validation \<times> semantic_state" where
  "validate_compaction_chunk E s update =
     try_in s (required_string update ''compactionId'' ''compaction chunk'') (\<lambda>cid.
     try_in s (validate_identifier cid ''Agent compaction ID'') (\<lambda>_.
     try_in s (ok_or ''Agent compaction chunk content is missing'' (json_get update ''content'')) (\<lambda>content.
     try_in s (validate_content_block E content ''Agent compaction summary content'') (\<lambda>_.
       case hm_get (sem_compactions s) cid of
         None \<Rightarrow> (Err (''Compaction summary chunks require an in-progress compaction: '' @ cid), s)
       | Some tracked \<Rightarrow>
           if tc_status tracked \<noteq> ''in_progress''
           then (Err (''Compaction summary chunks require an in-progress compaction: '' @ cid), s)
           else (Ok (), s\<lparr>sem_compactions := hm_insert cid
                  (tracked\<lparr>tc_summary_bytes := sat_add (tc_summary_bytes tracked) (serialized_len E content)\<rparr>)
                  (sem_compactions s)\<rparr>)))))"

definition validate_message_chunk :: "env \<Rightarrow> semantic_state \<Rightarrow> json \<Rightarrow> string
    \<Rightarrow> unit validation \<times> semantic_state" where
  "validate_message_chunk E s update kind =
     try_in s (ok_or ''Agent message content is missing'' (json_get update ''content'')) (\<lambda>content.
     try_in s (validate_content_block E content ''Agent message content'') (\<lambda>_.
     try_in s (optional_string update ''messageId'' ''session update'') (\<lambda>message_id.
       case message_id of
         None \<Rightarrow> (Ok (), s)
       | Some mid \<Rightarrow>
           try_in s (validate_identifier mid ''Agent message ID'') (\<lambda>_.
             (Ok (), s\<lparr>sem_messages := hm_insert mid kind (sem_messages s)\<rparr>)))))"

definition track_plan :: "string \<Rightarrow> string \<Rightarrow> semantic_state \<Rightarrow> unit validation \<times> semantic_state" where
  "track_plan plan_id status s =
     (Ok (), s\<lparr>sem_plans := hm_insert plan_id status (sem_plans s)\<rparr>)"

definition validate_plan_update :: "semantic_state \<Rightarrow> json \<Rightarrow> unit validation \<times> semantic_state" where
  "validate_plan_update s update =
     try_in s (ok_or ''Agent plan update is missing plan'' (json_get update ''plan'')) (\<lambda>plan.
     try_in s (required_string plan ''planId'' ''plan update'') (\<lambda>plan_id.
     try_in s (validate_identifier plan_id ''Agent plan ID'') (\<lambda>_.
     try_in s (if get_str plan ''type'' = Some ''items''
               then validate_plan_entries (json_get plan ''entries'') else Ok ()) (\<lambda>_.
       track_plan plan_id ''active'' s))))"

definition validate_session_update_payload :: "env \<Rightarrow> semantic_state \<Rightarrow> json
    \<Rightarrow> unit validation \<times> semantic_state" where
  "validate_session_update_payload E s update =
     try_in s (required_string update ''sessionUpdate'' ''session update'') (\<lambda>kind.
       if is_chunk_kind kind then validate_message_chunk E s update kind
       else if is_tool_kind kind then validate_tool_update E s update
       else if kind = ''plan'' then
         try_in s (validate_plan_entries (json_get update ''entries'')) (\<lambda>_. (Ok (), s))
       else if kind = ''plan_update'' then validate_plan_update s update
       else if kind = ''plan_removed'' then
         try_in s (required_string update ''planId'' ''plan removal'') (\<lambda>plan_id.
         try_in s (validate_identifier plan_id ''Agent plan ID'') (\<lambda>_. track_plan plan_id ''removed'' s))
       else if kind = ''available_commands_update'' then
         try_in s (validate_available_commands update) (\<lambda>_. (Ok (), s))
       else if kind = ''current_mode_update'' then
         try_in s (required_string update ''currentModeId'' ''mode update'') (\<lambda>mode_id.
         try_in s (validate_identifier mode_id ''Agent mode ID'') (\<lambda>_.
           (Ok (), s\<lparr>sem_current_mode_id := Some mode_id\<rparr>)))
       else if kind = ''config_option_update'' then
         try_in s (validate_session_controls None (json_get update ''configOptions'')) (\<lambda>_. (Ok (), s))
       else if kind = ''session_info_update'' then
         try_in s (validate_session_metadata (json_get update ''title'') (json_get update ''updatedAt'')
           ''Agent session'') (\<lambda>_. (Ok (), s))
       else if kind = ''usage_update'' then try_in s (validate_usage_update update) (\<lambda>_. (Ok (), s))
       else if kind = ''compaction_update'' then validate_compaction_update E s update
       else if kind = ''compaction_summary_chunk'' then validate_compaction_chunk E s update
       else (Err (''unsupported ACP session update: '' @ kind), s))"

text \<open>The two entry points: a live update is checked on a copy, a replayed one in place.\<close>

definition validate_and_track_session_update :: "env \<Rightarrow> semantic_state \<Rightarrow> json
    \<Rightarrow> unit validation \<times> semantic_state" where
  "validate_and_track_session_update E s update =
     (case validate_session_update_payload E s update of
        (Ok _, next) \<Rightarrow>
          (Ok (), next\<lparr>sem_update_count := sat_add (sem_update_count next) 1,
                      sem_update_bytes := sat_add (sem_update_bytes next) (serialized_len E update)\<rparr>)
      | (Err e, _) \<Rightarrow> (Err e, s)
      | (Panic, _) \<Rightarrow> (Panic, s))"

definition validate_history_update :: "env \<Rightarrow> semantic_state \<Rightarrow> json
    \<Rightarrow> unit validation \<times> semantic_state" where
  "validate_history_update E s update =
     call_then (validate_session_update_payload E s update) (\<lambda>_ next.
       (Ok (), next\<lparr>sem_update_count := sat_add (sem_update_count next) 1,
                   sem_update_bytes := sat_add (sem_update_bytes next) (serialized_len E update)\<rparr>))"

section \<open>Permission requests\<close>

definition add_permission_option :: "string list \<Rightarrow> json \<Rightarrow> string list validation" where
  "add_permission_option ids option =
     res_bind (required_string option ''optionId'' ''permission option'') (\<lambda>option_id.
       if option_id = '''' then Err ''Agent returned an invalid permission option ID''
       else if option_id \<in> set ids
       then Err (''Agent returned duplicate permission option ID: '' @ option_id)
       else res_bind (required_string option ''name'' ''permission option'') (\<lambda>name.
         if name = '''' then Err (''Agent returned an invalid permission option name: '' @ option_id)
         else Ok (ids @ [option_id])))"

definition validate_permission_request :: "env \<Rightarrow> semantic_state \<Rightarrow> json
    \<Rightarrow> string list validation \<times> semantic_state" where
  "validate_permission_request E s request =
     try_in s (ok_or ''Agent permission request is missing its tool call'' (json_get request ''toolCall'')) (\<lambda>tool_call.
     call_then (validate_tool_update E s tool_call) (\<lambda>_ s'.
     try_in s' (ok_or ''Agent permission options must be an array''
       (Option.bind (json_get request ''options'') as_array)) (\<lambda>options.
       if options = [] then (Err ''Agent permission request must contain at least one option'', s')
       else (check_seen add_permission_option [] options, s'))))"

definition terminal_references :: "json \<Rightarrow> string list" where
  "terminal_references tool_update =
     (case Option.bind (json_get tool_update ''content'') as_array of
        None \<Rightarrow> []
      | Some items \<Rightarrow>
          List.map_filter (\<lambda>item. get_str item ''terminalId'')
            (filter (\<lambda>item. get_str item ''type'' = Some ''terminal'') items))"

section \<open>Facts about the checks\<close>

lemma required_string_Ok [simp]: "required_string v f subj = Ok s \<longleftrightarrow> get_str v f = Some s"
  by (simp add: required_string_def)

lemma required_string_no_panic [simp]: "required_string v f subj \<noteq> Panic"
  by (simp add: required_string_def)

lemma validate_identifier_Ok [simp]: "validate_identifier v l = Ok () \<longleftrightarrow> v \<noteq> ''''"
  by (simp add: validate_identifier_def)

lemma validate_identifier_no_panic [simp]: "validate_identifier v l \<noteq> Panic"
  by (simp add: validate_identifier_def)

lemma validate_plan_entries_Ok [simp]:
  "validate_plan_entries x = Ok () \<longleftrightarrow> (\<exists>xs. x = Some (JArr xs))"
  by (auto simp: validate_plan_entries_def bind_eq_Some_conv)

lemma optional_string_Ok:
  "optional_string v f subj = Ok r \<longleftrightarrow>
     (json_get v f = None \<or> json_get v f = Some JNull) \<and> r = None \<or>
     (\<exists>s. json_get v f = Some (JStr s) \<and> r = Some s)"
  by (auto simp: optional_string_def split: option.splits json.splits)

lemma validate_content_block_Ok:
  "validate_content_block E b subj = Ok () \<Longrightarrow> \<exists>m k. b = JObj m \<and> get_str b ''type'' = Some k"
  by (auto simp: validate_content_block_def split: option.splits)

lemma call_then_eq_OkE:
  assumes "call_then x k = (Ok b, s')"
  obtains a s where "x = (Ok a, s)" "k a s = (Ok b, s')"
  using assms unfolding call_then_eq_Ok by blast

text \<open>An update that passes validation and is a conversation update is fit to be retained.\<close>

definition has_text :: "json \<Rightarrow> bool" where
  "has_text u \<longleftrightarrow>
     (\<forall>k. update_kind u = Some k \<longrightarrow> is_chunk_kind k \<longrightarrow>
        Option.bind (json_get u ''content'') (\<lambda>c. get_str c ''type'') = Some ''text'' \<longrightarrow>
        Option.bind (json_get u ''content'') (\<lambda>c. get_str c ''text'') \<noteq> None)"

lemma validated_entry_ok:
  assumes "validate_session_update_payload E s u = (Ok (), s')" "json_wf u" "has_text u"
  shows "entry_ok u \<and> (update_kind u = Some ''plan'' \<longrightarrow> (\<exists>xs. json_get u ''entries'' = Some (JArr xs))) \<and>
    (update_kind u = Some ''plan_removed'' \<longrightarrow> (\<exists>t. required_fold_string u ''planId'' = Ok t)) \<and>
    update_kind u \<noteq> None"
proof -
  obtain k where k: "update_kind u = Some k"
    using assms(1) by (auto simp: validate_session_update_payload_def try_in_eq_Ok update_kind_def)
  have gk: "get_str u ''sessionUpdate'' = Some k" using k by (simp add: update_kind_def)
  have rk: "required_string u ''sessionUpdate'' subj = Ok k" for subj using gk by simp
  note pay = assms(1) [unfolded validate_session_update_payload_def rk try_in_simps]
  consider (chunk) "is_chunk_kind k" | (tool) "is_tool_kind k" | (plan) "k = ''plan''"
    | (plan_update) "k = ''plan_update''" | (plan_removed) "k = ''plan_removed''"
    | (other) "\<not> is_chunk_kind k" "\<not> is_tool_kind k" "k \<notin> {''plan'', ''plan_update'', ''plan_removed''}"
    by blast
  then show ?thesis
  proof cases
    case chunk
    then obtain content mid where c: "json_get u ''content'' = Some content"
      "validate_content_block E content ''Agent message content'' = Ok ()"
      "optional_string u ''messageId'' ''session update'' = Ok mid"
      using pay by (auto simp: validate_message_chunk_def try_in_eq_Ok)
    obtain m ct where m: "content = JObj m" "get_str content ''type'' = Some ct"
      using validate_content_block_Ok [OF c(2)] by blast
    have nb: "\<not> (case json_get u ''messageId'' of Some m \<Rightarrow> \<not> is_null m \<and> \<not> is_string m | None \<Rightarrow> False)"
      using c(3) by (auto simp: optional_string_Ok)
    have "ct = ''text'' \<Longrightarrow> get_str content ''text'' \<noteq> None"
      using assms(3) k chunk c(1) m by (simp add: has_text_def)
    moreover have "text_chunk_shape u \<noteq> Panic" by (rule text_chunk_shape_no_panic [OF assms(2)])
    ultimately have "\<exists>r. text_chunk_shape u = Ok r"
      using k chunk c(1) m nb
      by (auto simp: text_chunk_shape_def Let_def split: option.splits if_splits)
    with k chunk assms(2) show ?thesis by (auto simp: entry_ok_def dest: kind_disjoint(1))
  next
    case tool
    then have "\<not> is_chunk_kind k" by (auto dest: kind_disjoint(1))
    with tool pay obtain t where "get_str u ''toolCallId'' = Some t" "t \<noteq> ''''"
      by (auto simp: validate_tool_update_def check_tool_update_def try_in_eq_Ok)
    with k tool assms(2) show ?thesis
      by (auto simp: entry_ok_def required_fold_string_Ok dest: kind_disjoint(1))
  next
    case plan
    with pay k assms(2) show ?thesis
      by (auto simp: entry_ok_def try_in_eq_Ok)
  next
    case plan_update
    with pay obtain p t where p: "json_get u ''plan'' = Some p" "get_str p ''planId'' = Some t" "t \<noteq> ''''"
      "get_str p ''type'' = Some ''items'' \<longrightarrow> (\<exists>xs. json_get p ''entries'' = Some (JArr xs))"
      by (auto simp: validate_plan_update_def try_in_eq_Ok split: if_splits)
    from p(2) obtain m where "p = JObj m" by (cases p) (auto simp: get_str_def)
    with p have "plan_update_id u = Ok t"
      by (auto simp: plan_update_id_def required_fold_string_def)
    with k plan_update assms(2) show ?thesis by (simp add: entry_ok_def)
  next
    case plan_removed
    with pay obtain t where "get_str u ''planId'' = Some t" "t \<noteq> ''''"
      by (auto simp: try_in_eq_Ok)
    with k plan_removed assms(2) show ?thesis by (auto simp: entry_ok_def required_fold_string_Ok)
  next
    case other
    with k assms(2) show ?thesis by (auto simp: entry_ok_def)
  qed
qed

text \<open>The fold of such an update into retained entries has a result.\<close>

lemma fold_text_chunk_total:
  assumes "entry_ok x" "entry_ok u" "update_kind u = Some k" "is_chunk_kind k"
  shows "\<exists>r. fold_text_chunk [x] u = Ok r"
proof -
  have u: "json_wf u" "\<exists>r. text_chunk_shape u = Ok r" using assms by (auto simp: entry_ok_def)
  have x: "\<exists>r. text_chunk_shape x = Ok r"
    using assms(1) by (cases "update_kind x") (auto simp: entry_ok_def text_chunk_shape_def split: if_splits)
  have "fold_text_chunk [x] u \<noteq> Panic" by (rule fold_text_chunk_one(1) [OF assms(1) u(1) assms(3,4)])
  moreover have "fold_text_chunk [x] u \<noteq> Err e" for e
  proof
    assume e: "fold_text_chunk [x] u = Err e"
    obtain w v where w: "text_chunk_shape u = Ok w" "text_chunk_shape x = Ok v" using u x by blast
    show False
    proof (cases v)
      case None
      with e w show False by (auto simp: fold_text_chunk_def split: option.splits)
    next
      case (Some p)
      obtain sh t where "p = (sh, t)" by (cases p)
      with Some w have s: "text_chunk_shape x = Ok (Some (sh, t))" by simp
      from text_chunk_shape_SomeD [OF s] obtain c where
        c: "json_get x ''content'' = Some (JObj c)" "map_of c ''text'' = Some (JStr t)" by blast
      with e w s show False
        by (auto simp: fold_text_chunk_def get_str_def split: option.splits if_splits)
    qed
  qed
  ultimately show ?thesis by (cases "fold_text_chunk [x] u") auto
qed

lemma fold_one_total:
  assumes ok: "entry_ok u" and kind: "update_kind u \<noteq> None"
    and plan: "update_kind u = Some ''plan'' \<Longrightarrow> \<exists>xs. json_get u ''entries'' = Some (JArr xs)"
    and removed: "update_kind u = Some ''plan_removed'' \<Longrightarrow> \<exists>t. required_fold_string u ''planId'' = Ok t"
    and zs: "zs = [] \<or> (\<exists>x. zs = [x] \<and> entry_ok x)"
  shows "\<exists>r. fold_active_turn_update zs u = Ok r"
proof -
  obtain k where k: "update_kind u = Some k" using kind by blast
  obtain fu where fu: "u = JObj fu" using k by (cases u) (auto simp: update_kind_def get_str_def)
  consider (chunk) "is_chunk_kind k" | (tool) "is_tool_kind k" | (plan) "k = ''plan''"
    | (plan_update) "k = ''plan_update''" | (plan_removed) "k = ''plan_removed''"
    | (other) "\<not> is_chunk_kind k" "\<not> is_tool_kind k" "k \<notin> {''plan'', ''plan_update'', ''plan_removed''}"
    by blast
  then show ?thesis
  proof cases
    case chunk
    have "\<exists>r. text_chunk_shape u = Ok r" using ok k chunk by (simp add: entry_ok_def)
    then show ?thesis
      using zs fold_text_chunk_total [OF _ ok k chunk] chunk k
      by (auto simp: fold_by_kind fold_text_chunk_def [of "[]"] split: option.splits)
  next
    case tool
    obtain t where t: "required_fold_string u ''toolCallId'' = Ok t"
      using ok k tool by (auto simp: entry_ok_def)
    have "\<exists>r. merge_tool_update x u k t = Ok r" if slot: "is_tool_slot t x" for x
    proof -
      obtain fx where "x = JObj fx" using slot by (cases x) (auto simp: is_tool_slot_def get_str_def)
      then show ?thesis by (simp add: merge_tool_update_def replace_tool_fields_def fu)
    qed
    then show ?thesis using zs t tool k by (auto simp: fold_by_kind fold_tool_update_def)
  next
    case plan
    with assms(3) k show ?thesis by (auto simp: fold_by_kind fold_plan_def)
  next
    case plan_update
    with ok k obtain t where "plan_update_id u = Ok t" by (auto simp: entry_ok_def)
    with plan_update k show ?thesis by (simp add: fold_by_kind fold_plan_update_def)
  next
    case plan_removed
    with removed k obtain t where "required_fold_string u ''planId'' = Ok t" by blast
    with plan_removed k show ?thesis
      by (cases "position (is_plan_update_slot t) zs") (auto simp: fold_by_kind fold_plan_removed_def)
  next
    case other
    with k show ?thesis
      by (simp add: fold_active_turn_update_def fold_shared_active_turn_update_def)
  qed
qed

lemma normalized_builder:
  assumes "normalize_history_updates vs = Ok retained" "\<forall>v \<in> set vs. json_wf v"
  shows "\<exists>b. hb_inv b \<and> hb_updates b = retained"
  using hb_appends_fold [OF hb_inv_default hb_bytes_ok_default assms(2), of "\<lambda>_. 0"] assms(1)
  by (auto simp: normalize_history_updates_def hb_default_def)

lemma validate_history_update_payload:
  "validate_history_update E s u = (Ok (), s') \<Longrightarrow> \<exists>n. validate_session_update_payload E s u = (Ok (), n)"
  by (auto simp: validate_history_update_def call_then_eq_Ok)



section \<open>What the checks establish\<close>

lemma session_mode_id_Ok:
  "session_mode_id m = Ok i \<longleftrightarrow>
     get_str m ''id'' = Some i \<and> i \<noteq> '''' \<and> (\<exists>n. get_str m ''name'' = Some n \<and> n \<noteq> '''')"
  by (auto simp: session_mode_id_def validate_non_empty_label_def)

text \<open>
  The validator of session modes decides exactly its specification: there is at least one mode,
  every mode has a non-empty id and name, the ids are distinct, and the current mode is one of them.
\<close>

theorem validate_session_modes_spec:
  "validate_session_modes modes = Ok () \<longleftrightarrow>
     (\<exists>ms ids current.
        json_get modes ''availableModes'' = Some (JArr ms) \<and> ms \<noteq> [] \<and>
        map (\<lambda>m. get_str m ''id'') ms = map Some ids \<and> distinct ids \<and> '''' \<notin> set ids \<and>
        list_all (\<lambda>m. \<exists>n. get_str m ''name'' = Some n \<and> n \<noteq> '''') ms \<and>
        get_str modes ''currentModeId'' = Some current \<and> current \<in> set ids)"
proof -
  have m: "map session_mode_id ms = map Ok ids \<longleftrightarrow>
      map (\<lambda>m. get_str m ''id'') ms = map Some ids \<and> '''' \<notin> set ids \<and>
      (\<forall>m \<in> set ms. \<exists>n. get_str m ''name'' = Some n \<and> n \<noteq> '''')" for ms ids
  proof (induction ms arbitrary: ids)
    case (Cons m ms)
    then show ?case by (cases ids) (auto simp: session_mode_id_Ok)
  qed auto
  show ?thesis
    by (auto simp: validate_session_modes_def check_seen_add_key m bind_eq_Some_conv list_all_iff split: if_splits)
qed

text \<open>
  What every check of an update keeps of the tracking state: a property that the tracked tools,
  messages, plans and mode do not matter to, and that both compaction checks keep.
\<close>

lemma payload_keeps:
  assumes P: "P s" and cong: "\<And>n f f' f''. P n \<Longrightarrow> P (sem_messages_update f n) \<and> P (sem_tool_calls_update f' n) \<and>
      P (sem_plans_update f n) \<and> P (sem_current_mode_id_update f'' n)"
    and update: "P (snd (validate_compaction_update E s u))"
    and part: "P (snd (validate_compaction_chunk E s u))"
  shows "P (snd (validate_session_update_payload E s u))"
proof -
  note R = try_in_snd [of P] if_snd [of _ P]
  have c: "P (sem_messages_update f n)" "P (sem_tool_calls_update f' n)" "P (sem_plans_update f n)"
    "P (sem_current_mode_id_update f'' n)" if "P n" for f f' f'' n
    using cong [OF that] by blast+
  have chunk: "P (snd (validate_message_chunk E s u k))" for k
    unfolding validate_message_chunk_def
    by (intro R; (simp add: P split: option.split, intro allI impI R)?) (simp_all add: P c)
  have tool: "P (snd (validate_tool_update E s u))"
    unfolding validate_tool_update_def Let_def by (intro R) (simp_all add: P c)
  have plan: "P (snd (validate_plan_update s u))"
    unfolding validate_plan_update_def track_plan_def by (intro R) (simp_all add: P c)
  show ?thesis
    unfolding validate_session_update_payload_def track_plan_def
    by (intro R) (simp_all add: P c chunk tool plan update part)
qed

lemma compaction_checks_keep:
  assumes P: "P s"
    and update: "\<And>cid status bytes. \<not> (case hm_get (sem_compactions s) cid of
          Some t \<Rightarrow> is_terminal_compaction_status (tc_status t) | None \<Rightarrow> False) \<Longrightarrow>
        P (s\<lparr>sem_compactions := hm_insert cid \<lparr>tc_status = status, tc_summary_bytes = bytes\<rparr> (sem_compactions s)\<rparr>)"
    and part: "\<And>cid t bytes. hm_get (sem_compactions s) cid = Some t \<Longrightarrow> tc_status t = ''in_progress'' \<Longrightarrow>
        P (s\<lparr>sem_compactions := hm_insert cid (t\<lparr>tc_summary_bytes := bytes\<rparr>) (sem_compactions s)\<rparr>)"
  shows "P (snd (validate_compaction_update E s u))" "P (snd (validate_compaction_chunk E s u))"
proof -
  note R = try_in_snd [of P] if_snd [of _ P]
  show "P (snd (validate_compaction_update E s u))"
    unfolding validate_compaction_update_def Let_def by (intro R) (simp_all add: P update)
  show "P (snd (validate_compaction_chunk E s u))"
    unfolding validate_compaction_chunk_def
    by (intro R) (auto simp: P part split: option.split)
qed

lemma compactions_kept:
  assumes "hm_get (sem_compactions s) cid = Some t" "is_terminal_compaction_status (tc_status t)"
  shows "hm_get (sem_compactions (snd (validate_session_update_payload E s u))) cid = Some t"
proof -
  let ?P = "\<lambda>n. hm_get (sem_compactions n) cid = Some t"
  have "tc_status t \<noteq> ''in_progress''"
    using assms(2) by (auto simp: is_terminal_compaction_status_def)
  then have "?P (snd (validate_compaction_update E s u))" "?P (snd (validate_compaction_chunk E s u))"
    using assms by (auto intro!: compaction_checks_keep [of ?P s] simp: hm.get_put)
  then show ?thesis
    by (intro payload_keeps [of ?P s]) (simp_all add: assms)
qed

lemma payload_counts:
  "sem_update_count (snd (validate_session_update_payload E s u)) = sem_update_count s \<and>
   sem_update_bytes (snd (validate_session_update_payload E s u)) = sem_update_bytes s"
proof -
  let ?P = "\<lambda>n. sem_update_count n = sem_update_count s \<and> sem_update_bytes n = sem_update_bytes s"
  have "?P (snd (validate_compaction_update E s u))" "?P (snd (validate_compaction_chunk E s u))"
    by (rule compaction_checks_keep [of ?P s]; simp)+
  then show ?thesis by (intro payload_keeps [of ?P s]) simp_all
qed

lemma compactions_kept_history:
  "sem_compactions (snd (validate_history_update E s u)) =
     sem_compactions (snd (validate_session_update_payload E s u))"
  by (cases "validate_session_update_payload E s u"; cases "fst (validate_session_update_payload E s u)")
     (auto simp: validate_history_update_def)

text \<open>
  A terminal compaction is final: once a compaction is completed, failed or cancelled, no later
  update, accepted or rejected, changes its status or its summary.
\<close>

theorem terminal_compaction_is_final:
  assumes "hm_get (sem_compactions s) cid = Some t" "is_terminal_compaction_status (tc_status t)"
  shows "hm_get (sem_compactions (snd (validate_history_update E s u))) cid = Some t"
  unfolding compactions_kept_history by (rule compactions_kept [OF assms])

lemma terminal_compaction_is_final_witness:
  "hm_get (sem_compactions (snd (validate_history_update sample_env
       (semantic_default\<lparr>sem_compactions := [(''c'', \<lparr>tc_status = ''completed'', tc_summary_bytes = 5\<rparr>)]\<rparr>)
       (JObj [(''sessionUpdate'', JStr ''compaction_update''), (''compactionId'', JStr ''c''),
              (''status'', JStr ''in_progress'')])))) ''c''
    = Some \<lparr>tc_status = ''completed'', tc_summary_bytes = 5\<rparr>"
  by (rule terminal_compaction_is_final) (simp_all add: hm_get_def is_terminal_compaction_status_def)

text \<open>Validation of a live update is atomic.\<close>

text \<open>
  (C3) Live validation is transactional: an update that is rejected leaves the session's tracking
  state as it was, and one that is accepted counts exactly one update and its bytes.
\<close>

theorem validate_and_track_atomic:
  "case validate_and_track_session_update E s u of
     (Ok _, s') \<Rightarrow>
       sem_update_count s' = sat_add (sem_update_count s) 1 \<and>
       sem_update_bytes s' = sat_add (sem_update_bytes s) (serialized_len E u)
   | (_, s') \<Rightarrow> s' = s"
proof -
  note counts = payload_counts [of E s u]
  obtain r n where rn: "validate_session_update_payload E s u = (r, n)"
    by (cases "validate_session_update_payload E s u")
  with counts show ?thesis
    by (cases r) (auto simp: validate_and_track_session_update_def)
qed

lemma add_permission_option_eq:
  "add_permission_option ids option = Ok r \<longleftrightarrow>
     (\<exists>i n. get_str option ''optionId'' = Some i \<and> i \<noteq> '''' \<and> i \<notin> set ids \<and>
        get_str option ''name'' = Some n \<and> n \<noteq> '''' \<and> r = ids @ [i])"
  by (auto simp: add_permission_option_def split: if_splits)

lemma check_permission_options:
  "check_seen add_permission_option seen opts = Ok r \<longleftrightarrow>
     (\<exists>ids. r = seen @ ids \<and> map (\<lambda>x. get_str x ''optionId'') opts = map Some ids \<and> distinct ids \<and>
        set ids \<inter> set seen = {} \<and> '''' \<notin> set ids \<and>
        list_all (\<lambda>x. \<exists>n. get_str x ''name'' = Some n \<and> n \<noteq> '''') opts)"
proof (induction opts arbitrary: seen)
  case Nil
  show ?case by auto
next
  case (Cons x xs)
  show ?case (is "?l = ?r")
  proof
    assume ?l
    then obtain i n where i: "get_str x ''optionId'' = Some i" "i \<noteq> ''''" "i \<notin> set seen"
      "get_str x ''name'' = Some n" "n \<noteq> ''''" and "check_seen add_permission_option (seen @ [i]) xs = Ok r"
      by (auto simp: add_permission_option_eq)
    from this(6) obtain ids where "r = (seen @ [i]) @ ids" "map (\<lambda>x. get_str x ''optionId'') xs = map Some ids"
      "distinct ids" "set ids \<inter> set (seen @ [i]) = {}" "'''' \<notin> set ids"
      "list_all (\<lambda>x. \<exists>n. get_str x ''name'' = Some n \<and> n \<noteq> '''') xs"
      unfolding Cons.IH by blast
    with i show ?r by (intro exI [of _ "i # ids"]) auto
  next
    assume ?r
    then obtain ids where ids: "r = seen @ ids" "map (\<lambda>x. get_str x ''optionId'') (x # xs) = map Some ids"
      "distinct ids" "set ids \<inter> set seen = {}" "'''' \<notin> set ids"
      "list_all (\<lambda>x. \<exists>n. get_str x ''name'' = Some n \<and> n \<noteq> '''') (x # xs)" by blast
    then obtain i is' where e: "ids = i # is'" by (cases ids) auto
    from ids obtain n where n: "get_str x ''name'' = Some n" "n \<noteq> ''''" by auto
    have "check_seen add_permission_option (seen @ [i]) xs = Ok r"
      unfolding Cons.IH using ids e by (intro exI [of _ is']) auto
    moreover have "add_permission_option seen x = Ok (seen @ [i])"
      unfolding add_permission_option_eq using ids e n by (intro exI [of _ i] exI [of _ n]) auto
    ultimately show ?l by simp
  qed
qed

text \<open>
  An accepted permission request offers at least one option, the set of option ids the bridge
  keeps for matching the user's answer is exactly the ids offered, and these are distinct and
  non-empty.
\<close>

theorem permission_options_exact:
  assumes "validate_permission_request E s request = (Ok ids, s')"
  shows "\<exists>opts. json_get request ''options'' = Some (JArr opts) \<and> opts \<noteq> [] \<and>
    map (\<lambda>x. get_str x ''optionId'') opts = map Some ids \<and> distinct ids \<and> '''' \<notin> set ids"
  using assms
  by (auto simp: validate_permission_request_def try_in_eq_Ok call_then_eq_Ok bind_eq_Some_conv
      check_permission_options split: if_splits)

lemma permission_options_exact_witness:
  "\<exists>opts. json_get (JObj [(''toolCall'', JObj [(''toolCallId'', JStr ''t'')]),
        (''options'', JArr [JObj [(''optionId'', JStr ''yes''), (''name'', JStr ''Allow'')]])])
        ''options'' = Some (JArr opts) \<and> opts \<noteq> [] \<and>
    map (\<lambda>x. get_str x ''optionId'') opts = map Some [''yes''] \<and> distinct [''yes''] \<and> '''' \<notin> set [''yes'']"
  by (rule permission_options_exact [where E = sample_env and s = semantic_default
        and s' = "snd (validate_permission_request sample_env semantic_default
          (JObj [(''toolCall'', JObj [(''toolCallId'', JStr ''t'')]),
            (''options'', JArr [JObj [(''optionId'', JStr ''yes''), (''name'', JStr ''Allow'')]])]))"])
     (simp add: validate_permission_request_def validate_tool_update_def check_tool_update_def
       required_string_def get_str_def validate_identifier_def optional_string_def json_get_some_def
       add_permission_option_def semantic_default_def hm_get_def)

lemma select_value_of_Ok: "select_value_of c v = Ok x \<Longrightarrow> get_str v ''value'' = Some x"
  by (auto simp: select_value_of_def)

lemma check_select_values:
  "check_seen (add_select_value c) vals nested = Ok vals' \<Longrightarrow>
     set vals' \<subseteq> set vals \<union> {x. \<exists>n \<in> set nested. get_str n ''value'' = Some x}"
proof (induction nested arbitrary: vals)
  case (Cons n nested)
  then obtain vs where s: "add_select_value c vals n = Ok vs"
    "check_seen (add_select_value c) vs nested = Ok vals'" by auto
  from s(1) obtain k where k: "select_value_of c n = Ok k" "vs = vals @ [k]"
    by (auto simp: add_select_value_def add_key_def split: if_splits)
  from Cons.IH [OF s(2)] select_value_of_Ok [OF k(1)] k(2) show ?case by auto
qed simp

definition item_offers :: "string \<Rightarrow> json \<Rightarrow> bool" where
  "item_offers selected item \<longleftrightarrow> get_str item ''value'' = Some selected \<or>
     (case Option.bind (json_get item ''options'') as_array of
        None \<Rightarrow> False | Some nested \<Rightarrow> \<exists>n \<in> set nested. get_str n ''value'' = Some selected)"

lemma check_select_items:
  "check_seen (add_select_item c) (vals, grps) items = Ok (vals', grps') \<Longrightarrow>
     set vals' \<subseteq> set vals \<union> {x. \<exists>item \<in> set items. item_offers x item}"
proof (induction items arbitrary: vals grps)
  case (Cons item items)
  then obtain vs gs where step: "add_select_item c (vals, grps) item = Ok (vs, gs)"
    "check_seen (add_select_item c) (vs, gs) items = Ok (vals', grps')" by auto
  have "set vs \<subseteq> set vals \<union> {x. item_offers x item}"
  proof (cases "Option.bind (json_get item ''options'') as_array")
    case None
    with step(1) obtain k where "select_value_of c item = Ok k" "vs = vals @ [k]"
      by (auto simp: add_select_item_def add_select_value_def add_key_def split: if_splits)
    then show ?thesis by (auto simp: item_offers_def dest: select_value_of_Ok)
  next
    case (Some nested)
    with step(1) have "check_seen (add_select_value c) vals nested = Ok vs"
      by (auto simp: add_select_item_def split: if_splits)
    from check_select_values [OF this] Some show ?thesis by (auto simp: item_offers_def)
  qed
  with Cons.IH [OF step(2)] show ?case by auto
qed simp

lemma validated_select_offers:
  assumes "validate_select_option option c = Ok ()"
  shows "\<exists>v. get_str option ''currentValue'' = Some v \<and> select_offers option v"
proof -
  obtain items vs gs v where i: "Option.bind (json_get option ''options'') as_array = Some items"
    "check_seen (add_select_item c) ([], []) items = Ok (vs, gs)"
    "get_str option ''currentValue'' = Some v" "v \<in> set vs"
    using assms by (auto simp: validate_select_option_def simp del: check_seen.simps split: if_splits)
  from check_select_items [OF i(2)] i(1,4) have "select_offers option v"
    by (auto simp: select_offers_def item_offers_def)
  with i(3) show ?thesis by blast
qed

lemma check_config_options:
  "check_seen add_config_option ids opts = Ok ids' \<Longrightarrow> option \<in> set opts \<Longrightarrow>
     \<exists>i. get_str option ''id'' = Some i \<and> i \<notin> set ids \<and>
       find (\<lambda>x. get_str x ''id'' = Some i) opts = Some option \<and>
       (get_str option ''type'' = Some ''select'' \<longrightarrow> validate_select_option option i = Ok ())"
proof (induction opts arbitrary: ids)
  case (Cons x xs)
  obtain ids1 where s: "add_config_option ids x = Ok ids1" "check_seen add_config_option ids1 xs = Ok ids'"
    using Cons.prems(1) by auto
  from s(1) obtain i where i: "config_option_id x = Ok i" "i \<notin> set ids"
    "get_str x ''type'' = Some ''select'' \<longrightarrow> validate_select_option x i = Ok ()" "ids1 = ids @ [i]"
    by (auto simp: add_config_option_def split: if_splits)
  have xi: "get_str x ''id'' = Some i" using i(1) by (auto simp: config_option_id_def)
  show ?case
  proof (cases "option = x")
    case True
    with i xi show ?thesis by auto
  next
    case False
    with Cons.prems(2) have "option \<in> set xs" by simp
    from Cons.IH [OF s(2) this] xi i(4) show ?thesis by auto
  qed
qed simp

text \<open>
  The current value of a select option in a validated set of config options is a value the
  bridge lets the user set: no two options share an id, so the reference check finds this option,
  and its current value is among the values it offers, alone or in a group.
\<close>

theorem current_value_is_offered:
  assumes "validate_session_config_options (JArr opts) = Ok ()" "option \<in> set opts"
    and "get_str option ''type'' = Some ''select''"
  shows "\<exists>i v. get_str option ''id'' = Some i \<and> get_str option ''currentValue'' = Some v \<and>
    validate_session_config_reference (JArr opts) i (JStr v) = Ok ()"
proof -
  obtain ids where "check_seen add_config_option [] opts = Ok ids"
    using assms(1) by (auto simp: validate_session_config_options_def)
  from check_config_options [OF this assms(2)] assms(3) obtain i where
    i: "get_str option ''id'' = Some i" "find (\<lambda>x. get_str x ''id'' = Some i) opts = Some option"
    "validate_select_option option i = Ok ()" by auto
  from validated_select_offers [OF i(3)] i assms(3) show ?thesis
    by (auto simp: validate_session_config_reference_def)
qed

definition sample_option :: json where
  "sample_option = JObj [(''id'', JStr ''m''), (''name'', JStr ''Model''), (''type'', JStr ''select''),
     (''currentValue'', JStr ''a''),
     (''options'', JArr [JObj [(''value'', JStr ''a''), (''name'', JStr ''A'')]])]"

lemma current_value_is_offered_witness:
  "\<exists>i v. get_str sample_option ''id'' = Some i \<and> get_str sample_option ''currentValue'' = Some v \<and>
    validate_session_config_reference (JArr [sample_option]) i (JStr v) = Ok ()"
  by (rule current_value_is_offered)
     (simp_all add: sample_option_def validate_session_config_options_def add_config_option_def
       config_option_id_def required_string_def get_str_def validate_identifier_def
       validate_non_empty_label_def validate_select_option_def add_select_item_def add_select_value_def
       add_key_def select_value_of_def)

lemma safe_integer_Ok:
  "safe_non_negative_integer v name = Ok (Some n) \<Longrightarrow> n \<le> max_safe_integer"
  by (auto simp: safe_non_negative_integer_def split: option.splits if_splits)

text \<open>
  Accepted token usage is consistent: the input and output tokens together do not exceed the
  total, as numbers, with no wrap-around of the 64-bit sum.
\<close>

theorem validated_usage_is_consistent:
  assumes "validate_prompt_usage usage = Ok ()"
    and "safe_non_negative_integer (json_get usage ''totalTokens'') ''totalTokens'' = Ok (Some tot)"
    and "safe_non_negative_integer (json_get usage ''inputTokens'') ''inputTokens'' = Ok (Some i)"
    and "safe_non_negative_integer (json_get usage ''outputTokens'') ''outputTokens'' = Ok (Some out)"
  shows "unat i + unat out \<le> unat tot"
proof -
  have "\<not> tot < u64_sat_add i out"
    using assms by (auto simp: validate_prompt_usage_def Let_def simp del: check_list.simps split: if_splits)
  moreover have "unat i + unat out < 2 ^ 64"
    using safe_integer_Ok [OF assms(3)] safe_integer_Ok [OF assms(4)]
    by (simp add: max_safe_integer_def word_le_nat_alt)
  ultimately show ?thesis
    by (simp add: u64_sat_add_def word_less_nat_alt unat_word_ariths)
qed

lemma validated_usage_is_consistent_witness:
  "unat (3 :: u64) + unat (4 :: u64) \<le> unat (9 :: u64)"
  by (rule validated_usage_is_consistent [where usage =
        "JObj [(''totalTokens'', JNum (PosInt 9)), (''inputTokens'', JNum (PosInt 3)),
               (''outputTokens'', JNum (PosInt 4))]"])
     (simp_all add: validate_prompt_usage_def safe_non_negative_integer_def max_safe_integer_def
       u64_sat_add_def)

end
