(* ===== verification/Session_Types.thy ===== *)
theory Session_Types
  imports Semantic
begin

text \<open>
  The data of a session: the turn overlay and history header of \<open>src/src/session_state.rs\<close>, the live
  state, operations, interactions and deltas of \<open>src/src/runtime_state.rs\<close>. Fields carry a prefix of
  their struct (\<open>ss_\<close> for \<open>SessionState\<close>, \<open>lv_\<close> for \<open>SessionLiveState\<close>, \<open>ov_\<close> for \<open>TurnOverlay\<close>
  and so on). A shared \<open>Arc\<close> of immutable data is the data; a \<open>VecDeque\<close> is a list with its back at
  the end; a path is the bytes of its lossy string.
\<close>

section \<open>Turns and operations\<close>

datatype mirror_phase = Cold | Loading | Ready | Running | Reconciling | Blocked

record turn_execution =
  tx_rpc_operation_id :: string
  tx_cancel_requested :: bool

record turn_overlay =
  ov_operation_id :: string
  ov_client_intent_id :: string
  ov_prompt :: "json list"
  ov_updates :: "json list"
  ov_terminal :: "json option"
  ov_execution :: "turn_execution option"

record completed_turn_outcome =
  co_operation_id :: string
  co_after_update :: nat
  co_response :: json

record last_consumption =
  lc_operation_id :: string
  lc_payload_digest :: digest
  lc_consumed_revision :: string
  lc_successor_revision :: string

datatype turn_admission = Accepted string | Duplicate string

datatype session_admission =
    AdmitPrompt | AdmitControl | AdmitFork | AdmitClose | AdmitDelete | AdmitAttachment

datatype operation_kind = Load | Resume | Fork | Close | Delete | SetMode | SetConfig

fun admission :: "operation_kind \<Rightarrow> session_admission" where
  "admission Load = AdmitAttachment"
| "admission Resume = AdmitAttachment"
| "admission Fork = AdmitFork"
| "admission Close = AdmitClose"
| "admission Delete = AdmitDelete"
| "admission SetMode = AdmitControl"
| "admission SetConfig = AdmitControl"

record operation_state =
  so_operation_id :: string
  so_kind :: operation_kind
  so_stage :: string
  so_uncertainty_reason :: "string option"

section \<open>Live state\<close>

datatype session_lifecycle =
    Attaching | Active | Closing | ClosingForDelete | Deleting | Closed | Uncertain

record pending_interaction =
  pi_interaction_id :: string
  pi_request :: json
  pi_operation_id :: "string option"
  pi_responding_operation_id :: "string option"

datatype url_flow_status = Waiting | Completed | Cancelled

record url_flow =
  uf_elicitation_id :: string
  uf_registration_id :: string
  uf_request :: json
  uf_status :: url_flow_status

record session_live_state =
  lv_revision :: u64
  lv_cwd :: string
  lv_session :: json
  lv_control_state :: "(string, json) btree_map"
  lv_lifecycle :: session_lifecycle
  lv_permissions :: "(string, pending_interaction) btree_map"
  lv_elicitations :: "(string, pending_interaction) btree_map"
  lv_url_flows :: "(string, url_flow) btree_map"
  lv_terminals :: "(string, json) btree_map"
  lv_history_revision :: "string option"
  lv_phase :: mirror_phase
  lv_sync_error :: "string option"
  lv_resolved_permissions :: "string list"
  lv_resolved_elicitations :: "string list"
  lv_resolved_url_flows :: "string list"
  lv_released_terminals :: "string list"
  lv_attachment_candidate :: "json list"
  lv_attachment_candidate_bytes :: nat

definition live_modes :: "session_live_state \<Rightarrow> json option" where
  "live_modes l = json_get_some (lv_session l) ''modes''"

definition live_config_options :: "session_live_state \<Rightarrow> json" where
  "live_config_options l =
     (case (case Option.bind (bt_get (lv_control_state l) ''config_option_update'')
                   (\<lambda>u. json_get u ''configOptions'') of
              Some v \<Rightarrow> Some v
            | None \<Rightarrow> json_get (lv_session l) ''configOptions'') of
        Some v \<Rightarrow> if is_array v then v else JArr []
      | None \<Rightarrow> JArr [])"

section \<open>A session\<close>

record session_state =
  ss_session_id :: string
  ss_incarnation :: u64
  ss_live :: "session_live_state option"
  ss_view_revision :: u64
  ss_history_revision :: "string option"
  ss_phase :: mirror_phase
  ss_active_turn :: "turn_overlay option"
  ss_turn_outcomes :: "completed_turn_outcome list"
  ss_sync_error :: "string option"
  ss_history_notice :: "string option"
  ss_operation :: "operation_state option"
  ss_active_payload_digest :: "digest option"
  ss_consumed_intents :: "(string, last_consumption) hash_map"
  ss_load_attempt :: "string option"
  ss_load_origin :: "mirror_phase option"
  ss_active_overlay_bytes :: nat

datatype history_cache_error = CandidateExists | CandidateMissing | AttemptMismatch | InvalidReplay

datatype mirror_error =
    MirrorUnknownSession
  | MirrorStaleIncarnation
  | MirrorWrongPhase
  | MirrorStaleHistory
  | MirrorIdempotencyConflict
  | MirrorOperationMismatch
  | MirrorInconsistentHistory
  | MirrorHistory history_cache_error

datatype turn_error = TurnHistory mirror_error | TurnLive runtime_error

section \<open>What is published\<close>

record active_turn =
  at_operation_id :: string
  at_turn_id :: string
  at_prompt :: "json list"
  at_updates :: "json list"
  at_cancel_requested :: bool

record session_runtime =
  sr_session_id :: string
  sr_incarnation :: u64
  sr_revision :: u64
  sr_cwd :: string
  sr_session :: json
  sr_control_state :: "(string, json) btree_map"
  sr_lifecycle :: session_lifecycle
  sr_active_turn :: "active_turn option"
  sr_operation :: "operation_state option"
  sr_permissions :: "(string, pending_interaction) btree_map"
  sr_elicitations :: "(string, pending_interaction) btree_map"
  sr_url_flows :: "(string, url_flow) btree_map"
  sr_terminals :: "(string, json) btree_map"
  sr_history_revision :: "string option"
  sr_phase :: mirror_phase
  sr_sync_error :: "string option"

record runtime_snapshot =
  sn_epoch :: string
  sn_through_seq :: u64
  sn_connection_revision :: u64
  sn_sessions :: "(string, session_runtime) btree_map"
  sn_request_elicitations :: "(string, pending_interaction) btree_map"
  sn_request_url_flows :: "(string, url_flow) btree_map"

datatype runtime_change =
    ConnectionUpsert "(string, pending_interaction) btree_map" "(string, url_flow) btree_map"
  | SessionUpsert session_runtime
  | SessionControlUpdated string u64 u64 string json "string option" mirror_phase "string option"
  | TurnUpdateAppended string u64 u64 string json
  | TerminalUpdated string u64 u64 string json
  | SessionRemoved string u64

record runtime_delta =
  rd_epoch :: string
  rd_seq :: u64
  rd_scope_revision :: "u64 option"
  rd_change :: runtime_change

datatype runtime_effect =
    CancelPermissionResponder string u64 string
  | CancelElicitationResponder "string option" "u64 option" string
  | AbortUrlFlow "string option" "u64 option" string string
  | ReleaseTerminal string string

datatype interaction_resolution = ResolutionApplied | ResolutionAlreadyResolved
datatype interaction_response_start = ResponseApplied | ResponseDuplicate
datatype url_flow_resolution = UrlApplied | UrlAlreadyTerminal | UrlStaleRegistration
datatype interaction_upsert = UpsertInserted | UpsertDuplicate | UpsertAlreadyResolved
datatype terminal_upsert = TerminalInserted | TerminalReplaced | TerminalDuplicate | TerminalStale

end
