(* ===== verification/Handles.thy ===== *)
theory Handles
  imports Session_Types
begin

text \<open>
  The shared, non-cloneable handles a session owns: automatic-close permits
  (\<open>src/src/auto_close.rs\<close>), observation leases (\<open>src/src/session_observation.rs\<close>), cancellation
  tokens and one-shot reply channels. Clones of such a handle share state, so a handle is the
  address of a cell and the cells live in an explicit store. An atomic operation is one step of the
  store: a run of several tasks is a sequence of such steps in any order.
\<close>

text \<open>What is sent on the one-shot channels of a session's resources.\<close>

datatype reply = PermissionCancelled | ElicitationCancelled | ViewUnavailable string

record handles =
  hd_permits :: "(nat, nat) hash_map"
  hd_cancelled :: "nat list"
  hd_next :: nat
  hd_sent :: "(nat \<times> reply) list"

definition handles_new :: handles where
  "handles_new = \<lparr>hd_permits = [], hd_cancelled = [], hd_next = 0, hd_sent = []\<rparr>"

text \<open>\<open>CancellationToken::cancel\<close>, which is idempotent, and a send on a one-shot channel.\<close>

definition token_cancel :: "nat \<Rightarrow> handles \<Rightarrow> handles" where
  "token_cancel k h = h\<lparr>hd_cancelled := List.insert k (hd_cancelled h)\<rparr>"

definition token_is_cancelled :: "nat \<Rightarrow> handles \<Rightarrow> bool" where
  "token_is_cancelled k h \<longleftrightarrow> k \<in> set (hd_cancelled h)"

definition reply_send :: "nat \<Rightarrow> reply \<Rightarrow> handles \<Rightarrow> handles" where
  "reply_send k r h = h\<lparr>hd_sent := hd_sent h @ [(k, r)]\<rparr>"

section \<open>Automatic-close permits\<close>

text \<open>A permit's atomic is 0 while pending, 1 once claimed and 2 once cancelled.\<close>

record close_permit =
  pm_state :: nat
  pm_cancelled :: nat

definition permit_new :: "handles \<Rightarrow> close_permit \<times> handles" where
  "permit_new h =
     (\<lparr>pm_state = hd_next h, pm_cancelled = Suc (hd_next h)\<rparr>,
      h\<lparr>hd_permits := hm_insert (hd_next h) 0 (hd_permits h), hd_next := hd_next h + 2\<rparr>)"

definition permit_same_identity :: "close_permit \<Rightarrow> close_permit \<Rightarrow> bool" where
  "permit_same_identity p q \<longleftrightarrow> pm_state p = pm_state q"

definition permit_pending :: "close_permit \<Rightarrow> handles \<Rightarrow> bool" where
  "permit_pending p h \<longleftrightarrow> hm_get (hd_permits h) (pm_state p) = Some 0"

text \<open>\<open>compare_exchange(0, new)\<close>: whether it succeeded, and the store after it.\<close>

definition permit_exchange :: "close_permit \<Rightarrow> nat \<Rightarrow> handles \<Rightarrow> bool \<times> handles" where
  "permit_exchange p new h =
     (if permit_pending p h then (True, h\<lparr>hd_permits := hm_insert (pm_state p) new (hd_permits h)\<rparr>)
      else (False, h))"

definition permit_claim :: "close_permit \<Rightarrow> handles \<Rightarrow> bool \<times> handles" where
  "permit_claim p h = permit_exchange p 1 h"

definition permit_cancel :: "close_permit \<Rightarrow> handles \<Rightarrow> handles" where
  "permit_cancel p h = token_cancel (pm_cancelled p) (snd (permit_exchange p 2 h))"

section \<open>Observation leases\<close>

record observation_lease =
  ol_cancellation :: nat
  ol_finished :: nat

definition lease_new :: "handles \<Rightarrow> observation_lease \<times> handles" where
  "lease_new h = (\<lparr>ol_cancellation = hd_next h, ol_finished = Suc (hd_next h)\<rparr>,
     h\<lparr>hd_next := hd_next h + 2\<rparr>)"

definition lease_cancel :: "observation_lease \<Rightarrow> handles \<Rightarrow> handles" where
  "lease_cancel l h = token_cancel (ol_cancellation l) h"

definition lease_is_cancelled :: "observation_lease \<Rightarrow> handles \<Rightarrow> bool" where
  "lease_is_cancelled l h = token_is_cancelled (ol_cancellation l) h"

definition lease_finish :: "observation_lease \<Rightarrow> handles \<Rightarrow> handles" where
  "lease_finish l h = token_cancel (ol_finished l) h"

definition lease_is_finished :: "observation_lease \<Rightarrow> handles \<Rightarrow> bool" where
  "lease_is_finished l h = token_is_cancelled (ol_finished l) h"

definition lease_same_identity :: "observation_lease \<Rightarrow> observation_lease \<Rightarrow> bool" where
  "lease_same_identity l k \<longleftrightarrow> ol_cancellation l = ol_cancellation k"

section \<open>Facts of the store\<close>

lemma token_cancelled [simp]:
  "token_is_cancelled k (token_cancel j h) = (k = j \<or> token_is_cancelled k h)"
  by (auto simp: token_is_cancelled_def token_cancel_def)

lemma token_cancel_keeps [simp]:
  "hd_permits (token_cancel k h) = hd_permits h"
  "hd_next (token_cancel k h) = hd_next h"
  "hd_sent (token_cancel k h) = hd_sent h"
  by (simp_all add: token_cancel_def)

lemma permit_exchange_next [simp]: "hd_next (snd (permit_exchange p n h)) = hd_next h"
  by (simp add: permit_exchange_def)

lemma permit_exchange_get:
  "hm_get (hd_permits (snd (permit_exchange p n h))) c
     = (if c = pm_state p \<and> permit_pending p h then Some n else hm_get (hd_permits h) c)"
  by (simp add: permit_exchange_def hm.get_put)

lemma permit_claim_get:
  "hm_get (hd_permits (snd (permit_claim p h))) c
     = (if c = pm_state p \<and> permit_pending p h then Some 1 else hm_get (hd_permits h) c)"
  by (simp add: permit_claim_def permit_exchange_get)

lemma permit_cancel_get:
  "hm_get (hd_permits (permit_cancel p h)) c
     = (if c = pm_state p \<and> permit_pending p h then Some 2 else hm_get (hd_permits h) c)"
  by (simp add: permit_cancel_def permit_exchange_get)

lemma permit_cancel_next [simp]: "hd_next (permit_cancel p h) = hd_next h"
  by (simp add: permit_cancel_def)

lemma permit_claim_next [simp]: "hd_next (snd (permit_claim p h)) = hd_next h"
  by (simp add: permit_claim_def)

lemma permit_claim_succeeds: "fst (permit_claim p h) = permit_pending p h"
  by (simp add: permit_claim_def permit_exchange_def)

lemma permit_new_get:
  "hm_get (hd_permits (snd (permit_new h))) c = (if c = hd_next h then Some 0 else hm_get (hd_permits h) c)"
  by (simp add: permit_new_def hm.get_put)

section \<open>A permit decides the race\<close>

text \<open>The calls that tasks make on clones of one permit, and what each returns.\<close>

datatype permit_call = CallClaim | CallCancel | CallPending

fun permit_do :: "close_permit \<Rightarrow> permit_call \<Rightarrow> handles \<Rightarrow> bool \<times> handles" where
  "permit_do p CallClaim h = permit_claim p h"
| "permit_do p CallCancel h = (True, permit_cancel p h)"
| "permit_do p CallPending h = (permit_pending p h, h)"

fun permit_calls :: "close_permit \<Rightarrow> permit_call list \<Rightarrow> handles \<Rightarrow> bool list \<times> handles" where
  "permit_calls p [] h = ([], h)"
| "permit_calls p (c # cs) h =
     (case permit_do p c h of (r, h1) \<Rightarrow> case permit_calls p cs h1 of (rs, h2) \<Rightarrow> (r # rs, h2))"

lemma permit_calls_Cons:
  "fst (permit_calls p (c # cs) h) = fst (permit_do p c h) # fst (permit_calls p cs (snd (permit_do p c h)))"
  by (simp split: prod.splits)

lemma permit_settled:
  "\<not> permit_pending p h \<Longrightarrow> fst (permit_calls p cs h) = map (\<lambda>c. c = CallCancel) cs"
proof (induction cs arbitrary: h)
  case (Cons c cs)
  have "\<not> permit_pending p (snd (permit_do p c h))"
    using Cons.prems
    by (cases c) (simp_all add: permit_pending_def permit_claim_get permit_cancel_get)
  from Cons.IH [OF this] Cons.prems show ?case
    unfolding permit_calls_Cons by (cases c) (simp_all add: permit_claim_succeeds)
qed simp

text \<open>
  The race between the bridge that commits to an automatic close and the observer that returns
  has one outcome: of all the claims and cancellations on a pending permit, in any order, only the
  first can succeed as a claim. Every claim after it, and every claim after a cancellation, fails,
  and the permit is pending exactly until then.
\<close>

theorem permit_race_has_one_winner:
  assumes "permit_pending p h" "c \<noteq> CallPending"
  shows "fst (permit_calls p (replicate n CallPending @ c # cs) h)
    = replicate n True @ True # map (\<lambda>d. d = CallCancel) cs"
proof (induction n)
  case 0
  have "\<not> permit_pending p (snd (permit_do p c h))"
    using assms
    by (cases c) (auto simp: permit_pending_def permit_claim_get permit_cancel_get)
  from permit_settled [OF this, of cs] assms show ?case
    by (cases c) (auto simp: permit_calls_Cons permit_claim_succeeds simp del: permit_calls.simps)
next
  case (Suc n)
  with assms show ?case by (simp add: permit_calls_Cons del: permit_calls.simps)
qed

lemma permit_race_has_one_winner_witness:
  "fst (permit_calls (fst (permit_new handles_new))
      (replicate 1 CallPending @ CallCancel # [CallClaim, CallPending]) (snd (permit_new handles_new)))
    = replicate 1 True @ True # map (\<lambda>d. d = CallCancel) [CallClaim, CallPending]"
  by (rule permit_race_has_one_winner)
     (simp_all add: permit_pending_def permit_new_get, simp add: permit_new_def)

end
