(* ===== verification/Observers.thy ===== *)
theory Observers
  imports Handles
begin

text \<open>
  Observation of a session and its automatic close (\<open>src/src/session_observers.rs\<close>): the leases of
  the observers, the countdown that runs while nobody observes an idle session, and the permit that
  the countdown hands to the bridge. Instants and durations are nanoseconds; the store of handles is
  passed explicitly, after the observers.
\<close>

datatype session_work = WorkIdle | WorkRunning | WorkAwaitingInteraction

definition terminal_is_running :: "json \<Rightarrow> bool" where
  "terminal_is_running t \<longleftrightarrow>
     \<not> (case Option.bind (json_get t ''released'') as_bool of Some b \<Rightarrow> b | None \<Rightarrow> False) \<and>
     (case json_get t ''exitStatus'' of None \<Rightarrow> True | Some v \<Rightarrow> is_null v)"

record absence_timer =
  ab_id :: u64
  ab_started :: nat
  ab_timeout :: nat
  ab_permit :: close_permit

record session_observers =
  ob_observers :: "(u64, observation_lease) hash_map"
  ob_next_absence :: u64
  ob_absence :: "absence_timer option"
  ob_close_attempted :: bool

type_synonym observers_state = "session_observers \<times> handles"

definition observers_default :: session_observers where
  "observers_default =
     \<lparr>ob_observers = [], ob_next_absence = 0, ob_absence = None, ob_close_attempted = False\<rparr>"

section \<open>Operations\<close>

definition cancel_absence :: "observers_state \<Rightarrow> observers_state" where
  "cancel_absence st =
     (case st of (o', h) \<Rightarrow>
        (case ob_absence o' of
           Some absence \<Rightarrow> (o'\<lparr>ob_absence := None\<rparr>, permit_cancel (ab_permit absence) h)
         | None \<Rightarrow> (o', h)))"

definition observe :: "u64 \<Rightarrow> observation_lease \<Rightarrow> observers_state \<Rightarrow> bool \<times> observers_state" where
  "observe key lease st =
     (case st of (o', h) \<Rightarrow>
        if lease_is_cancelled lease h \<or> lease_is_finished lease h then (False, (o', h))
        else (case hm_get (ob_observers o') key of
          Some existing \<Rightarrow> (lease_same_identity existing lease, (o', h))
        | None \<Rightarrow>
            (case cancel_absence (o'\<lparr>ob_observers := hm_insert key lease (ob_observers o')\<rparr>, h) of
               (o2, h2) \<Rightarrow> (True, (o2\<lparr>ob_close_attempted := False\<rparr>, h2)))))"

definition unobserve :: "u64 \<Rightarrow> observation_lease \<Rightarrow> observers_state \<Rightarrow> bool \<times> observers_state" where
  "unobserve key lease st =
     (case st of (o', h) \<Rightarrow>
        (case hm_get (ob_observers o') key of
           None \<Rightarrow> (False, (o', h))
         | Some existing \<Rightarrow>
             if \<not> lease_same_identity existing lease then (False, (o', h))
             else (True, (o'\<lparr>ob_observers := hm_remove key (ob_observers o')\<rparr>, lease_cancel existing h))))"

text \<open>\<open>timeout_seconds\<close> is an \<open>i64\<close>; a negative one switches automatic closing off.\<close>

definition refresh :: "session_lifecycle option \<Rightarrow> session_work \<Rightarrow> int \<Rightarrow> nat \<Rightarrow> observers_state
    \<Rightarrow> absence_timer option \<times> observers_state" where
  "refresh lifecycle work timeout_seconds now st =
     (case st of (o0, h) \<Rightarrow>
        let o' = o0\<lparr>ob_observers := hm_retain (\<lambda>_ lease. \<not> lease_is_cancelled lease h) (ob_observers o0)\<rparr>
        in if timeout_seconds < 0 \<or>
              (case lifecycle of None \<Rightarrow> True | Some phase \<Rightarrow> phase = Closed \<or> phase = Deleting) \<or>
              ob_observers o' \<noteq> [] \<or> work \<noteq> WorkIdle
           then (None, cancel_absence (o', h))
           else if ob_absence o' \<noteq> None \<or> ob_close_attempted o' \<or> lifecycle \<noteq> Some Active
           then (None, (o', h))
           else let next_id = next_revision (ob_next_absence o')
             in (case permit_new h of (permit, h2) \<Rightarrow>
                  let timer = \<lparr>ab_id = next_id, ab_started = now,
                        ab_timeout = nat timeout_seconds * 1000000000, ab_permit = permit\<rparr>
                  in (Some timer, (o'\<lparr>ob_next_absence := next_id, ob_absence := Some timer\<rparr>, h2))))"

definition mark_close_attempted :: "observers_state \<Rightarrow> observers_state" where
  "mark_close_attempted st = (case st of (o', h) \<Rightarrow> (o'\<lparr>ob_close_attempted := True\<rparr>, h))"

definition matches_absence :: "u64 \<Rightarrow> close_permit \<Rightarrow> observers_state \<Rightarrow> bool" where
  "matches_absence key permit st =
     (case st of (o', h) \<Rightarrow>
        (case ob_absence o' of
           Some absence \<Rightarrow> ab_id absence = key \<and> permit_same_identity (ab_permit absence) permit
         | None \<Rightarrow> False) \<and>
        list_all (\<lambda>e. lease_is_cancelled (snd e) h) (ob_observers o'))"

definition observers_shutdown :: "observers_state \<Rightarrow> observers_state" where
  "observers_shutdown st =
     (case cancel_absence st of (o', h) \<Rightarrow>
        (o'\<lparr>ob_observers := []\<rparr>, fold (\<lambda>e. lease_cancel (snd e)) (ob_observers o') h))"

definition stop_absence :: "observers_state \<Rightarrow> observers_state" where
  "stop_absence st = cancel_absence st"

definition drain_for_finish :: "observers_state \<Rightarrow> (u64 \<times> observation_lease) list \<times> observers_state" where
  "drain_for_finish st =
     (case cancel_absence st of (o', h) \<Rightarrow> (ob_observers o', (o'\<lparr>ob_observers := []\<rparr>, h)))"

section \<open>Waiting for the countdown\<close>

text \<open>
  One turn of the loop in \<open>AbsenceTimer::wait\<close> either returns or sleeps, a day at most. The loop is
  run on the moments at which it wakes: the time, and the store it finds. A wake-up with the token
  cancelled is the other branch of the \<open>select!\<close>.
\<close>

datatype wait_turn = WaitDone bool | WaitSleep nat

definition wait_turn :: "absence_timer \<Rightarrow> nat \<Rightarrow> handles \<Rightarrow> wait_turn" where
  "wait_turn t now h =
     (if \<not> permit_pending (ab_permit t) h then WaitDone False
      else let remaining = sat_sub (ab_timeout t) (sat_sub now (ab_started t))
        in if remaining = 0 then WaitDone True else WaitSleep (min remaining (86400 * 1000000000)))"

fun absence_wait :: "absence_timer \<Rightarrow> (nat \<times> handles) list \<Rightarrow> bool option" where
  "absence_wait t [] = None"
| "absence_wait t ((now, h) # es) =
     (case wait_turn t now h of
        WaitDone r \<Rightarrow> Some r
      | WaitSleep d \<Rightarrow>
          (case es of
             [] \<Rightarrow> None
           | (_, h') # _ \<Rightarrow>
               if token_is_cancelled (pm_cancelled (ab_permit t)) h' then Some False
               else absence_wait t es))"


section \<open>Runs of a session's observers\<close>

text \<open>
  What the bridge and the delivery tasks do to one session's observers, in any order. \<open>DoCommit\<close> is
  the bridge committing to an automatic close: it claims the permit and, if that succeeds, marks the
  attempt, both under its lock (\<open>src/src/bridge.rs\<close>, the close command). A lease can be cancelled and
  a permit revoked from outside at any moment.
\<close>

datatype observer_call =
    DoObserve u64 observation_lease
  | DoUnobserve u64 observation_lease
  | DoRefresh "session_lifecycle option" session_work int nat
  | DoCommit close_permit
  | DoRevoke close_permit
  | DoCancelLease observation_lease
  | DoStop
  | DoShutdown
  | DoDrain

definition commit_auto_close :: "close_permit \<Rightarrow> observers_state \<Rightarrow> bool \<times> observers_state" where
  "commit_auto_close permit st =
     (case st of (o', h) \<Rightarrow>
        (case permit_claim permit h of
           (True, h') \<Rightarrow> (True, mark_close_attempted (o', h'))
         | (False, h') \<Rightarrow> (False, (o', h'))))"

fun observer_do :: "observer_call \<Rightarrow> observers_state \<Rightarrow> observers_state" where
  "observer_do (DoObserve key l) st = snd (observe key l st)"
| "observer_do (DoUnobserve key l) st = snd (unobserve key l st)"
| "observer_do (DoRefresh lc w n now) st = snd (refresh lc w n now st)"
| "observer_do (DoCommit p) st = snd (commit_auto_close p st)"
| "observer_do (DoRevoke p) st = (fst st, permit_cancel p (snd st))"
| "observer_do (DoCancelLease l) st = (fst st, lease_cancel l (snd st))"
| "observer_do DoStop st = stop_absence st"
| "observer_do DoShutdown st = observers_shutdown st"
| "observer_do DoDrain st = snd (drain_for_finish st)"

fun closes_committed :: "observer_call list \<Rightarrow> observers_state \<Rightarrow> nat" where
  "closes_committed [] st = 0"
| "closes_committed (c # cs) st =
     (case c of DoCommit p \<Rightarrow> if fst (commit_auto_close p st) then 1 else 0 | _ \<Rightarrow> 0) +
     closes_committed cs (observer_do c st)"

fun is_observe :: "observer_call \<Rightarrow> bool" where
  "is_observe (DoObserve key l) = True"
| "is_observe _ = False"

text \<open>
  At most one permit is pending, that of the armed countdown, which runs only while nobody observes
  and no automatic close was attempted since the last observation.
\<close>

definition observers_inv :: "observers_state \<Rightarrow> bool" where
  "observers_inv st \<longleftrightarrow>
     (\<forall>c. hm_get (hd_permits (snd st)) c = Some 0 \<longrightarrow>
        \<not> ob_close_attempted (fst st) \<and>
        (\<exists>t. ob_absence (fst st) = Some t \<and> pm_state (ab_permit t) = c)) \<and>
     (\<forall>c s. hm_get (hd_permits (snd st)) c = Some s \<longrightarrow> c < hd_next (snd st)) \<and>
     (ob_absence (fst st) \<noteq> None \<longrightarrow> ob_observers (fst st) = [])"

lemma lease_cancel_keeps [simp]:
  "hd_permits (lease_cancel l h) = hd_permits h" "hd_next (lease_cancel l h) = hd_next h"
  by (simp_all add: lease_cancel_def)

lemma lease_cancels_keep:
  "hd_permits (fold (\<lambda>e. lease_cancel (f e)) es h) = hd_permits h \<and>
   hd_next (fold (\<lambda>e. lease_cancel (f e)) es h) = hd_next h"
  by (induction es arbitrary: h) simp_all

lemma observers_inv_settled:
  assumes "observers_inv (o', h)" "ob_absence o' = None"
  shows "hm_get (hd_permits h) c \<noteq> Some 0"
  using assms by (auto simp: observers_inv_def)

lemma cancel_absence_settles:
  assumes "\<And>c. hm_get (hd_permits h) c = Some 0 \<Longrightarrow> \<exists>t. ob_absence o' = Some t \<and> pm_state (ab_permit t) = c"
    and "\<And>c s. hm_get (hd_permits h) c = Some s \<Longrightarrow> c < hd_next h"
    and "cancel_absence (o', h) = (o2, h2)"
  shows "ob_absence o2 = None \<and> ob_observers o2 = ob_observers o' \<and>
    ob_close_attempted o2 = ob_close_attempted o' \<and>
    (\<forall>c. hm_get (hd_permits h2) c \<noteq> Some 0) \<and>
    (\<forall>c s. hm_get (hd_permits h2) c = Some s \<longrightarrow> c < hd_next h2)"
proof (cases "ob_absence o'")
  case None
  with assms show ?thesis by (auto simp: cancel_absence_def)
next
  case (Some t)
  with assms(3) have e: "o2 = o'\<lparr>ob_absence := None\<rparr>" "h2 = permit_cancel (ab_permit t) h"
    by (simp_all add: cancel_absence_def)
  have "hm_get (hd_permits h2) c \<noteq> Some 0" for c
    using assms(1) [of c] Some by (auto simp: e permit_cancel_get permit_pending_def)
  moreover have "c < hd_next h2" if "hm_get (hd_permits h2) c = Some s" for c s
    using that assms(2) by (auto simp: e permit_cancel_get permit_pending_def split: if_splits)
  ultimately show ?thesis by (auto simp: e)
qed

lemma cancel_absence_inv:
  assumes "observers_inv (o', h)" "cancel_absence (o'\<lparr>ob_observers := obs\<rparr>, h) = (o2, h2)"
  shows "ob_absence o2 = None \<and> ob_observers o2 = obs \<and>
    (\<forall>c. hm_get (hd_permits h2) c \<noteq> Some 0) \<and>
    (\<forall>c s. hm_get (hd_permits h2) c = Some s \<longrightarrow> c < hd_next h2)"
  using cancel_absence_settles [OF _ _ assms(2)] assms(1) by (auto simp: observers_inv_def)

lemma observe_inv:
  assumes "observers_inv st"
  shows "observers_inv (snd (observe key l st))"
proof -
  obtain o' h where st: "st = (o', h)" by (cases st)
  obtain o2 h2 where c: "cancel_absence (o'\<lparr>ob_observers := hm_insert key l (ob_observers o')\<rparr>, h) = (o2, h2)"
    by fastforce
  have "observers_inv (o2\<lparr>ob_close_attempted := False\<rparr>, h2)"
    using cancel_absence_inv [OF _ c] assms by (simp add: st observers_inv_def)
  with assms show ?thesis by (simp add: st observe_def c split: option.split)
qed

lemma unobserve_inv: "observers_inv st \<Longrightarrow> observers_inv (snd (unobserve key l st))"
  by (cases st) (simp add: unobserve_def observers_inv_def hm_remove_def split: option.split)

lemma stop_absence_inv:
  assumes "observers_inv st"
  shows "observers_inv (stop_absence st)"
proof -
  obtain o' h where st: "st = (o', h)" by (cases st)
  obtain o2 h2 where c: "cancel_absence (o', h) = (o2, h2)" by fastforce
  show ?thesis
    using cancel_absence_inv [of o' h "ob_observers o'" o2 h2] assms
    by (simp add: st stop_absence_def c observers_inv_def)
qed

lemma shutdown_inv: "observers_inv st \<Longrightarrow> observers_inv (observers_shutdown st)"
  using stop_absence_inv [of st]
  by (cases "cancel_absence st")
     (simp add: observers_shutdown_def stop_absence_def observers_inv_def lease_cancels_keep)

lemma drain_inv: "observers_inv st \<Longrightarrow> observers_inv (snd (drain_for_finish st))"
  using stop_absence_inv [of st]
  by (cases "cancel_absence st") (simp add: drain_for_finish_def stop_absence_def observers_inv_def)

lemma arm_inv:
  assumes "observers_inv (o', h)" "ob_absence o' = None" "\<not> ob_close_attempted o'" "ob_observers o' = []"
    and "permit_new h = (p, h2)" "ab_permit t = p"
  shows "observers_inv (o'\<lparr>ob_next_absence := k, ob_absence := Some t\<rparr>, h2)"
proof -
  have p: "pm_state p = hd_next h" "h2 = snd (permit_new h)" "hd_next h2 = hd_next h + 2"
    using assms(5) by (auto simp: permit_new_def)
  have "c < Suc (Suc (hd_next h))" if "hm_get (hd_permits h) c = Some s" for c s
    using assms(1) that by (auto simp: observers_inv_def intro: less_SucI)
  then show ?thesis
    using assms(3,4,6) observers_inv_settled [OF assms(1,2)] p
    by (auto simp: observers_inv_def permit_new_get)
qed

lemma refresh_inv:
  assumes "observers_inv st"
  shows "observers_inv (snd (refresh lc w n now st))"
proof -
  obtain o0 h where st: "st = (o0, h)" by (cases st)
  define o' where "o' = o0\<lparr>ob_observers := hm_retain (\<lambda>_ lease. \<not> lease_is_cancelled lease h) (ob_observers o0)\<rparr>"
  have i: "observers_inv (o', h)"
    using assms by (simp add: st o'_def observers_inv_def hm_retain_def)
  have c: "observers_inv (cancel_absence (o', h))"
    using stop_absence_inv [OF i] by (simp add: stop_absence_def)
  obtain p h2 where p: "permit_new h = (p, h2)" by fastforce
  show ?thesis
    unfolding refresh_def st prod.case Let_def o'_def [symmetric] p
    using i c arm_inv [OF i _ _ _ p] by simp
qed

lemma commit_inv:
  assumes "observers_inv st"
  shows "observers_inv (snd (commit_auto_close p st))"
    and "fst (commit_auto_close p st) \<Longrightarrow>
      \<not> ob_close_attempted (fst st) \<and> ob_close_attempted (fst (snd (commit_auto_close p st)))"
proof -
  obtain o' h where st: "st = (o', h)" by (cases st)
  obtain r h' where c: "permit_claim p h = (r, h')" by fastforce
  have r: "r = permit_pending p h" and g: "hm_get (hd_permits h') d
      = (if d = pm_state p \<and> permit_pending p h then Some 1 else hm_get (hd_permits h) d)" for d
    using permit_claim_succeeds [of p h] permit_claim_get [of p h] c by simp_all
  have n: "hd_next h' = hd_next h" using permit_claim_next [of p h] c by simp
  have keep: "d < hd_next h'" if "hm_get (hd_permits h') d = Some s" for d s
    using that assms by (auto simp: st n g observers_inv_def permit_pending_def split: if_splits)
  show "observers_inv (snd (commit_auto_close p st))"
  proof (cases r)
    case True
    with assms r have "\<exists>t. ob_absence o' = Some t \<and> pm_state (ab_permit t) = pm_state p"
      by (simp add: st observers_inv_def permit_pending_def)
    moreover have "\<exists>t. ob_absence o' = Some t \<and> pm_state (ab_permit t) = d"
      if "hm_get (hd_permits h) d = Some 0" for d
      using assms that by (simp add: st observers_inv_def)
    ultimately have only: "d = pm_state p" if "hm_get (hd_permits h) d = Some 0" for d
      using that by (metis option.inject)
    have "hm_get (hd_permits h') d \<noteq> Some 0" for d
      using True r only [of d] by (auto simp: g)
    with keep assms True show ?thesis
      by (auto simp: st commit_auto_close_def c mark_close_attempted_def observers_inv_def)
  next
    case False
    with assms r c have "h' = h" by (simp add: permit_claim_def permit_exchange_def)
    with False assms show ?thesis by (simp add: st commit_auto_close_def c)
  qed
  show "fst (commit_auto_close p st) \<Longrightarrow>
      \<not> ob_close_attempted (fst st) \<and> ob_close_attempted (fst (snd (commit_auto_close p st)))"
    using assms r
    by (cases r) (auto simp: st commit_auto_close_def c mark_close_attempted_def observers_inv_def permit_pending_def)
qed

lemma revoke_inv: "observers_inv (o', h) \<Longrightarrow> observers_inv (o', permit_cancel p h)"
  by (simp add: observers_inv_def permit_cancel_get permit_pending_def)

lemma observer_do_inv: "observers_inv st \<Longrightarrow> observers_inv (observer_do c st)"
  using revoke_inv [of "fst st" "snd st"]
  by (cases c)
     (simp_all add: observe_inv unobserve_inv refresh_inv commit_inv stop_absence_inv shutdown_inv drain_inv,
      simp_all add: observers_inv_def)

lemma observers_new_inv: "observers_inv (observers_default, handles_new)"
  by (simp add: observers_inv_def observers_default_def handles_new_def hm.get_nil)

interpretation observed: preserving observer_do observers_inv
  by unfold_locales (rule observer_do_inv)

text \<open>
  (C10) An observed session is never closed automatically: in every state a session's observers can
  reach, no permit can be claimed while an observer is registered.
\<close>

theorem observed_session_stays_open:
  assumes "ob_observers (fst (fold observer_do cs (observers_default, handles_new))) \<noteq> []"
  shows "fst (commit_auto_close p (fold observer_do cs (observers_default, handles_new))) = False"
proof -
  obtain o' h where st: "fold observer_do cs (observers_default, handles_new) = (o', h)" by fastforce
  have "observers_inv (o', h)" using observed.run_keeps [OF observers_new_inv, of cs] by (simp add: st)
  with assms have "\<not> permit_pending p h" by (auto simp: st observers_inv_def permit_pending_def)
  then show ?thesis by (simp add: st commit_auto_close_def permit_claim_def permit_exchange_def)
qed

definition sample_lease :: observation_lease where
  "sample_lease = \<lparr>ol_cancellation = 100, ol_finished = 101\<rparr>"

lemma observed_session_stays_open_witness:
  "fst (commit_auto_close \<lparr>pm_state = 0, pm_cancelled = 1\<rparr>
     (fold observer_do [DoRefresh (Some Active) WorkIdle 5 0, DoObserve 7 sample_lease]
       (observers_default, handles_new))) = False"
  by (rule observed_session_stays_open)
     (simp add: observe_def refresh_def cancel_absence_def observers_default_def handles_new_def
       sample_lease_def lease_is_cancelled_def lease_is_finished_def token_is_cancelled_def
       permit_cancel_def permit_exchange_def token_cancel_def permit_new_def hm_retain_def
       hm_get_def hm_insert_def Let_def)

lemma commits_settled:
  "observers_inv st \<Longrightarrow>
    closes_committed cs st + (if ob_close_attempted (fst st) then 1 else 0)
      \<le> Suc (length (filter is_observe cs))"
proof (induction cs arbitrary: st)
  case (Cons c cs)
  note ih = Cons.IH [OF observer_do_inv [OF Cons.prems, of c]]
  have keep: "ob_close_attempted (fst (cancel_absence st)) = ob_close_attempted (fst st)" for st
    by (cases st) (simp add: cancel_absence_def split: option.split)
  have same: "ob_close_attempted (fst (observer_do c st)) = ob_close_attempted (fst st)"
    if "\<not> is_observe c" "\<forall>p. c \<noteq> DoCommit p"
  proof (cases c)
    case (DoRefresh lc w n now)
    obtain o0 h where "st = (o0, h)" by (cases st)
    then show ?thesis by (simp add: DoRefresh refresh_def Let_def permit_new_def keep)
  qed (use that keep [of st] in \<open>auto simp: unobserve_def stop_absence_def observers_shutdown_def
      drain_for_finish_def split: prod.splits option.splits\<close>)
  show ?case
  proof (cases c)
    case (DoCommit p)
    have "ob_close_attempted (fst (observer_do c st)) = ob_close_attempted (fst st)"
      if "\<not> fst (commit_auto_close p st)"
      using that DoCommit
      by (auto simp: commit_auto_close_def permit_claim_def permit_exchange_def split: prod.splits)
    with ih DoCommit commit_inv(2) [OF Cons.prems, of p] show ?thesis by auto
  next
    case (DoObserve key l)
    with ih show ?thesis by (auto split: if_splits)
  qed (use ih same in \<open>auto split: if_splits\<close>)
qed simp

text \<open>
  (C11) At most one automatic close per absence: over any sequence of calls on a new session's
  observers, the bridge commits to at most one automatic close more than there are observations.
  A refused or failed close thus never rearms itself.
\<close>

theorem one_close_per_absence:
  "closes_committed cs (observers_default, handles_new) \<le> Suc (length (filter is_observe cs))"
  using commits_settled [OF observers_new_inv, of cs] by simp

text \<open>
  (C12) The countdown is exact: while its permit stays pending the wait ends with an expiry at the
  first wake-up past the deadline, not before, and as long as there is none it goes on.
\<close>

theorem countdown_expires_at_deadline:
  assumes "list_all (\<lambda>e. permit_pending (ab_permit t) (snd e) \<and>
      \<not> token_is_cancelled (pm_cancelled (ab_permit t)) (snd e) \<and> ab_started t \<le> fst e) es"
  shows "absence_wait t es =
    (if list_ex (\<lambda>e. ab_started t + ab_timeout t \<le> fst e) es then Some True else None)"
  using assms
proof (induction es rule: list.induct)
  case (Cons e es)
  obtain now h where e: "e = (now, h)" by (cases e)
  have turn: "wait_turn t now h = WaitDone True \<longleftrightarrow> ab_started t + ab_timeout t \<le> now"
    "wait_turn t now h \<noteq> WaitDone True \<Longrightarrow> \<exists>d. wait_turn t now h = WaitSleep d"
    using Cons.prems by (auto simp: e wait_turn_def Let_def sat_sub_def)
  show ?case
  proof (cases "ab_started t + ab_timeout t \<le> now")
    case True
    with turn show ?thesis by (simp add: e)
  next
    case False
    with turn obtain d where "wait_turn t now h = WaitSleep d" by auto
    with False Cons show ?thesis by (cases es) (auto simp: e split: prod.split)
  qed
qed simp

lemma countdown_expires_at_deadline_witness:
  "absence_wait \<lparr>ab_id = 1, ab_started = 5, ab_timeout = 10, ab_permit = fst (permit_new handles_new)\<rparr>
      [(7, snd (permit_new handles_new)), (20, snd (permit_new handles_new))]
    = Some True"
  using countdown_expires_at_deadline
    [of "\<lparr>ab_id = 1, ab_started = 5, ab_timeout = 10, ab_permit = fst (permit_new handles_new)\<rparr>"
      "[(7, snd (permit_new handles_new)), (20, snd (permit_new handles_new))]"]
  by (simp add: permit_new_def permit_pending_def handles_new_def hm_get_def hm_insert_def
      token_is_cancelled_def del: absence_wait.simps)

end
