(* ===== verification/Session_State.thy ===== *)
theory Session_State
  imports Session_Types
begin

text \<open>
  The state machine of one session (\<open>src/src/session_state.rs\<close>): admission of turns and exclusive
  operations, the overlay of the running turn, its completion, and the commit of a history. The
  serialized length of an overlay counts its five published fields; the execution is not
  serialized.
\<close>

section \<open>Construction and queries\<close>

definition session_cold :: "string \<Rightarrow> u64 \<Rightarrow> session_state" where
  "session_cold session_id incarnation =
     \<lparr>ss_session_id = session_id, ss_incarnation = incarnation, ss_live = None, ss_view_revision = 1,
      ss_history_revision = None, ss_phase = Cold, ss_active_turn = None, ss_turn_outcomes = [],
      ss_sync_error = None, ss_history_notice = None, ss_operation = None,
      ss_active_payload_digest = None, ss_consumed_intents = [], ss_load_attempt = None,
      ss_load_origin = None, ss_active_overlay_bytes = 0\<rparr>"

definition session_ready :: "string \<Rightarrow> u64 \<Rightarrow> string \<Rightarrow> session_state" where
  "session_ready session_id incarnation history_revision =
     (session_cold session_id incarnation)\<lparr>ss_phase := Ready, ss_history_revision := Some history_revision\<rparr>"

definition observation_retired :: "session_state \<Rightarrow> bool" where
  "observation_retired s \<longleftrightarrow>
     (case ss_operation s of Some op \<Rightarrow> so_stage op = ''cleanup'' | None \<Rightarrow> False) \<or>
     (case ss_live s of
        None \<Rightarrow> False
      | Some live \<Rightarrow>
          lv_lifecycle live = Closed \<or>
          lv_lifecycle live = Deleting \<and>
            (case ss_operation s of
               Some op \<Rightarrow> so_kind op = Delete \<and> so_stage op = ''deleting''
             | None \<Rightarrow> False))"

definition turn_execution_of :: "session_state \<Rightarrow> turn_execution option" where
  "turn_execution_of s = Option.bind (ss_active_turn s) ov_execution"

definition advance_revision :: "session_state \<Rightarrow> session_state" where
  "advance_revision s = s\<lparr>ss_view_revision := next_revision (ss_view_revision s)\<rparr>"

text \<open>\<open>Sha256::digest(serde_json::to_vec(prompt))\<close> and \<open>serialized_len(&overlay)\<close>.\<close>

definition payload_digest :: "env \<Rightarrow> json list \<Rightarrow> digest" where
  "payload_digest E prompt = env_sha256 E (env_to_vec E (JArr prompt))"

definition overlay_json :: "turn_overlay \<Rightarrow> json" where
  "overlay_json t =
     JObj [(''operationId'', JStr (ov_operation_id t)), (''clientIntentId'', JStr (ov_client_intent_id t)),
           (''prompt'', JArr (ov_prompt t)), (''updates'', JArr (ov_updates t)),
           (''terminal'', case ov_terminal t of Some v \<Rightarrow> v | None \<Rightarrow> JNull)]"

definition overlay_bytes_of :: "env \<Rightarrow> turn_overlay \<Rightarrow> nat" where
  "overlay_bytes_of E t = serialized_len E (overlay_json t)"

section \<open>Admission\<close>

definition phase_allows :: "session_state \<Rightarrow> session_admission \<Rightarrow> bool" where
  "phase_allows s adm =
     (case ss_phase s of
        Ready \<Rightarrow> ss_active_turn s = None
      | Running \<Rightarrow>
          (case ss_active_turn s of
             Some turn \<Rightarrow> ov_execution turn \<noteq> None \<and> ov_terminal turn = None
           | None \<Rightarrow> False) \<and> adm \<in> {AdmitControl, AdmitClose}
      | Cold \<Rightarrow> ss_active_turn s = None \<and> adm \<in> {AdmitAttachment, AdmitDelete}
      | Blocked \<Rightarrow>
          (case adm of
             AdmitClose \<Rightarrow> True
           | AdmitDelete \<Rightarrow> ss_active_turn s = None
           | AdmitAttachment \<Rightarrow>
               (case ss_active_turn s of None \<Rightarrow> True | Some turn \<Rightarrow> ov_terminal turn \<noteq> None)
           | _ \<Rightarrow> False)
      | Loading \<Rightarrow> False
      | Reconciling \<Rightarrow> False)"

definition can_begin :: "session_state \<Rightarrow> session_admission \<Rightarrow> (mirror_error, unit) result" where
  "can_begin s adm =
     (if ss_operation s \<noteq> None \<or> ss_load_attempt s \<noteq> None then Err MirrorWrongPhase
      else if phase_allows s adm then Ok () else Err MirrorWrongPhase)"

definition can_retry_cold_attachment :: "session_state \<Rightarrow> bool" where
  "can_retry_cold_attachment s \<longleftrightarrow>
     ss_phase s = Loading \<and> ss_active_turn s = None \<and> ss_load_attempt s = None \<and>
     ss_operation s = None \<and> ss_sync_error s \<noteq> None"

definition begin_exclusive :: "operation_kind \<Rightarrow> string \<Rightarrow> session_state
    \<Rightarrow> (mirror_error, unit) result \<times> session_state" where
  "begin_exclusive kind operation_id s =
     try_in s (can_begin s (admission kind)) (\<lambda>_.
       (Ok (), s\<lparr>ss_operation := Some \<lparr>so_operation_id = operation_id, so_kind = kind,
                  so_stage = ''reserved'', so_uncertainty_reason = None\<rparr>\<rparr>))"

definition settle_exclusive :: "session_admission \<Rightarrow> string \<Rightarrow> session_state
    \<Rightarrow> (mirror_error, unit) result \<times> session_state" where
  "settle_exclusive adm operation_id s =
     (if (case ss_operation s of
            Some op \<Rightarrow> admission (so_kind op) \<noteq> adm \<or> so_operation_id op \<noteq> operation_id
          | None \<Rightarrow> True)
      then (Err MirrorOperationMismatch, s)
      else (Ok (), s\<lparr>ss_operation := None\<rparr>))"

definition check_turn_admission :: "env \<Rightarrow> string \<Rightarrow> string \<Rightarrow> json list \<Rightarrow> session_state
    \<Rightarrow> (mirror_error, turn_admission option) result" where
  "check_turn_admission E expected_history_revision client_intent_id prompt s =
     (let digest = payload_digest E prompt in
      case (case ss_active_turn s of
              Some turn \<Rightarrow> if ov_client_intent_id turn = client_intent_id then Some turn else None
            | None \<Rightarrow> None) of
        Some turn \<Rightarrow>
          if ss_active_payload_digest s = Some digest then Ok (Some (Duplicate (ov_operation_id turn)))
          else Err MirrorIdempotencyConflict
      | None \<Rightarrow>
          (case hm_get (ss_consumed_intents s) client_intent_id of
             Some lst \<Rightarrow>
               if lc_payload_digest lst = digest \<and>
                  (lc_consumed_revision lst = expected_history_revision \<or>
                   lc_successor_revision lst = expected_history_revision)
               then Ok (Some (Duplicate (lc_operation_id lst)))
               else Err MirrorIdempotencyConflict
           | None \<Rightarrow>
               res_bind (can_begin s AdmitPrompt) (\<lambda>_.
                 if ss_history_revision s \<noteq> Some expected_history_revision then Err MirrorStaleHistory
                 else Ok None)))"

section \<open>The turn\<close>

definition admit_turn :: "env \<Rightarrow> string \<Rightarrow> string \<Rightarrow> string \<Rightarrow> json list \<Rightarrow> session_state
    \<Rightarrow> (mirror_error, turn_admission) result \<times> session_state" where
  "admit_turn E operation_id expected_history_revision client_intent_id prompt s =
     try_in s (check_turn_admission E expected_history_revision client_intent_id prompt s) (\<lambda>dup.
       case dup of
         Some d \<Rightarrow> (Ok d, s)
       | None \<Rightarrow>
           let overlay = \<lparr>ov_operation_id = operation_id, ov_client_intent_id = client_intent_id,
                 ov_prompt = prompt, ov_updates = [], ov_terminal = None,
                 ov_execution = Some \<lparr>tx_rpc_operation_id = client_intent_id, tx_cancel_requested = False\<rparr>\<rparr>
           in (Ok (Accepted operation_id),
               advance_revision (s\<lparr>ss_active_overlay_bytes := overlay_bytes_of E overlay,
                 ss_phase := Running,
                 ss_active_payload_digest := Some (payload_digest E prompt),
                 ss_active_turn := Some overlay,
                 ss_sync_error := None\<rparr>)))"

definition fold_overlay_update :: "env \<Rightarrow> json \<Rightarrow> session_state
    \<Rightarrow> (mirror_error, unit) result \<times> session_state" where
  "fold_overlay_update E update s =
     try_in s (ok_or MirrorOperationMismatch (ss_active_turn s)) (\<lambda>turn.
     try_in s (map_err (\<lambda>_. MirrorInconsistentHistory)
         (fold_shared_active_turn_update (ov_updates turn) update)) (\<lambda>updates.
       let candidate = turn\<lparr>ov_updates := updates\<rparr>
       in (Ok (), advance_revision (s\<lparr>ss_active_overlay_bytes := overlay_bytes_of E candidate,
                    ss_active_turn := Some candidate\<rparr>))))"

definition append_turn_update :: "env \<Rightarrow> string \<Rightarrow> json \<Rightarrow> session_state
    \<Rightarrow> (mirror_error, unit) result \<times> session_state" where
  "append_turn_update E operation_id update s =
     (if ss_phase s \<noteq> Running then (Err MirrorWrongPhase, s)
      else try_in s (ok_or MirrorOperationMismatch (ss_active_turn s)) (\<lambda>turn.
        if ov_operation_id turn \<noteq> operation_id \<or> ov_terminal turn \<noteq> None
        then (Err MirrorOperationMismatch, s)
        else fold_overlay_update E update s))"

definition append_reconciling_update :: "env \<Rightarrow> json \<Rightarrow> session_state
    \<Rightarrow> (mirror_error, unit) result \<times> session_state" where
  "append_reconciling_update E update s =
     (if ss_phase s \<noteq> Reconciling \<or> ss_load_attempt s \<noteq> None then (Err MirrorWrongPhase, s)
      else fold_overlay_update E update s)"

definition complete_turn :: "env \<Rightarrow> string \<Rightarrow> json \<Rightarrow> session_state
    \<Rightarrow> (mirror_error, unit) result \<times> session_state" where
  "complete_turn E operation_id terminal s =
     (if ss_phase s \<noteq> Running then (Err MirrorWrongPhase, s)
      else try_in s (ok_or MirrorOperationMismatch (ss_active_turn s)) (\<lambda>turn.
        if ov_operation_id turn \<noteq> operation_id \<or> ov_terminal turn \<noteq> None
        then (Err MirrorOperationMismatch, s)
        else if ss_live s \<noteq> None \<and> ov_execution turn \<noteq> None
        then (Err MirrorOperationMismatch, s)
        else
          let candidate = turn\<lparr>ov_execution := None, ov_terminal := Some terminal\<rparr>
          in (Ok (), advance_revision (s\<lparr>ss_active_overlay_bytes := overlay_bytes_of E candidate,
                       ss_active_turn := Some candidate, ss_phase := Reconciling\<rparr>))))"

definition block_turn :: "string \<Rightarrow> string \<Rightarrow> session_state
    \<Rightarrow> (mirror_error, unit) result \<times> session_state" where
  "block_turn operation_id message s =
     (if (ss_phase s \<noteq> Running \<and> ss_phase s \<noteq> Reconciling) \<or>
         (case ss_active_turn s of Some turn \<Rightarrow> ov_operation_id turn \<noteq> operation_id | None \<Rightarrow> True)
      then (Err MirrorOperationMismatch, s)
      else (Ok (), advance_revision (s\<lparr>ss_phase := Blocked, ss_sync_error := Some message,
                     ss_load_attempt := None, ss_load_origin := None\<rparr>)))"

section \<open>Committing a history\<close>

definition validate_history_commit :: "session_state \<Rightarrow> (mirror_error, unit) result" where
  "validate_history_commit s =
     (if ss_active_turn s \<noteq> None \<and> ss_active_payload_digest s = None
      then Err MirrorInconsistentHistory else Ok ())"

text \<open>The outcome a turn leaves: its terminal response, when that states a stop reason.\<close>

definition commit_outcome :: "session_state \<Rightarrow> nat \<Rightarrow> completed_turn_outcome option" where
  "commit_outcome s after_update =
     Option.bind (ss_active_turn s) (\<lambda>turn.
     Option.bind (ov_terminal turn) (\<lambda>response.
       if get_str response ''stopReason'' \<noteq> None
       then Some \<lparr>co_operation_id = ov_operation_id turn, co_after_update = after_update,
                  co_response = response\<rparr>
       else None))"

text \<open>The state with the outcomes settled, then with the turn's intent consumed; \<open>None\<close> is the
  panic of \<open>expect\<close>.\<close>

definition settle_outcomes :: "nat \<Rightarrow> bool \<Rightarrow> session_state \<Rightarrow> session_state" where
  "settle_outcomes after_update replace_outcomes s =
     (if replace_outcomes then s\<lparr>ss_turn_outcomes := [], ss_history_notice := None\<rparr>
      else (case commit_outcome s after_update of
              Some outcome \<Rightarrow> s\<lparr>ss_turn_outcomes := ss_turn_outcomes s @ [outcome]\<rparr>
            | None \<Rightarrow> s))"

definition consume_intent :: "string \<Rightarrow> session_state \<Rightarrow> session_state option" where
  "consume_intent revision s =
     (case (ss_active_turn s, ss_history_revision s) of
        (Some turn, Some consumed_revision) \<Rightarrow>
          (case ss_active_payload_digest s of
             None \<Rightarrow> None
           | Some digest \<Rightarrow>
               Some (s\<lparr>ss_active_turn := None,
                 ss_consumed_intents := hm_insert (ov_client_intent_id turn)
                   \<lparr>lc_operation_id = ov_operation_id turn, lc_payload_digest = digest,
                    lc_consumed_revision = consumed_revision, lc_successor_revision = revision\<rparr>
                   (ss_consumed_intents s)\<rparr>))
      | _ \<Rightarrow> Some (s\<lparr>ss_active_turn := None\<rparr>))"

definition history_committed :: "string \<Rightarrow> nat \<Rightarrow> bool \<Rightarrow> session_state \<Rightarrow> session_state option" where
  "history_committed revision after_update replace_outcomes s =
     map_option (\<lambda>s'. advance_revision (s'\<lparr>ss_history_revision := Some revision,
         ss_active_overlay_bytes := 0, ss_phase := Ready, ss_active_turn := None,
         ss_active_payload_digest := None, ss_load_attempt := None, ss_load_origin := None,
         ss_sync_error := None\<rparr>))
       (consume_intent revision (settle_outcomes after_update replace_outcomes s))"

section \<open>The invariant of a session\<close>

text \<open>
  What every operation keeps: the digest and the byte count belong to the active turn, a turn has a
  baseline, a completed turn has no execution, and the phase says whether there is a turn and
  whether it is complete. A load attempt is only pending while loading or reconciling, and
  remembers the phase it came from.
\<close>

definition turn_done :: "turn_overlay \<Rightarrow> bool" where
  "turn_done t \<longleftrightarrow> ov_terminal t \<noteq> None"

definition phase_ok :: "mirror_phase \<Rightarrow> turn_overlay option \<Rightarrow> bool" where
  "phase_ok ph turn \<longleftrightarrow>
     (case ph of
        Cold \<Rightarrow> turn = None
      | Loading \<Rightarrow> turn = None
      | Ready \<Rightarrow> turn = None
      | Running \<Rightarrow> (case turn of Some t \<Rightarrow> \<not> turn_done t | None \<Rightarrow> False)
      | Reconciling \<Rightarrow> (case turn of Some t \<Rightarrow> turn_done t | None \<Rightarrow> False)
      | Blocked \<Rightarrow> True)"

definition load_ok :: "session_state \<Rightarrow> bool" where
  "load_ok s \<longleftrightarrow>
     ss_load_attempt s = None \<or>
     ss_phase s \<in> {Loading, Reconciling} \<and>
     (\<exists>ph. ss_load_origin s = Some ph \<and> ph \<noteq> Running \<and> (ph \<noteq> Blocked \<longrightarrow> phase_ok ph (ss_active_turn s)))"

definition session_inv :: "env \<Rightarrow> session_state \<Rightarrow> bool" where
  "session_inv E s \<longleftrightarrow>
     ss_active_payload_digest s = map_option (\<lambda>t. payload_digest E (ov_prompt t)) (ss_active_turn s) \<and>
     ss_active_overlay_bytes s = (case ss_active_turn s of Some t \<Rightarrow> overlay_bytes_of E t | None \<Rightarrow> 0) \<and>
     (ss_active_turn s \<noteq> None \<longrightarrow> ss_history_revision s \<noteq> None) \<and>
     (\<forall>t. ss_active_turn s = Some t \<longrightarrow> turn_done t \<longrightarrow> ov_execution t = None) \<and>
     phase_ok (ss_phase s) (ss_active_turn s) \<and>
     load_ok s"

named_theorems session_ops \<open>definitions of the operations of a session\<close>

lemmas [session_ops] = begin_exclusive_def settle_exclusive_def admit_turn_def fold_overlay_update_def
  append_turn_update_def append_reconciling_update_def complete_turn_def block_turn_def advance_revision_def

lemma session_cold_inv: "session_inv E (session_cold sid inc)"
  by (simp add: session_inv_def session_cold_def phase_ok_def load_ok_def)

lemma session_ready_inv: "session_inv E (session_ready sid inc hrev)"
  by (simp add: session_inv_def session_ready_def session_cold_def phase_ok_def load_ok_def)

lemma session_inv_revision [simp]:
  "session_inv E (s\<lparr>ss_view_revision := r\<rparr>) = session_inv E s"
  by (simp add: session_inv_def load_ok_def)

lemma session_inv_operation [simp]:
  "session_inv E (s\<lparr>ss_operation := op\<rparr>) = session_inv E s"
  by (simp add: session_inv_def load_ok_def)

lemma session_inv_live [simp]:
  "session_inv E (s\<lparr>ss_live := l\<rparr>) = session_inv E s"
  by (simp add: session_inv_def load_ok_def)

text \<open>Sealing the execution of a turn keeps the overlay, so it keeps the invariant.\<close>

lemma overlay_bytes_execution [simp]:
  "overlay_bytes_of E (t\<lparr>ov_execution := x\<rparr>) = overlay_bytes_of E t"
  by (simp add: overlay_bytes_of_def overlay_json_def)

lemma session_inv_seal:
  assumes "session_inv E s" "ss_active_turn s = Some t"
  shows "session_inv E (s\<lparr>ss_active_turn := Some (t\<lparr>ov_execution := None\<rparr>)\<rparr>)"
  using assms
  by (auto simp: session_inv_def load_ok_def phase_ok_def turn_done_def split: mirror_phase.splits option.splits)

lemma can_begin_Ok:
  "can_begin s adm = Ok () \<longleftrightarrow> ss_operation s = None \<and> ss_load_attempt s = None \<and> phase_allows s adm"
  by (auto simp: can_begin_def)

lemma can_begin_no_panic [simp]: "can_begin s adm \<noteq> Panic"
  by (simp add: can_begin_def)

lemma can_begin_Err: "can_begin s adm = Err e \<Longrightarrow> e = MirrorWrongPhase"
  by (auto simp: can_begin_def split: if_splits)

lemma begin_exclusive_inv:
  "session_inv E s \<Longrightarrow> session_inv E (snd (begin_exclusive kind op s))"
  unfolding session_ops by (intro try_in_snd [where P = "session_inv E"]) simp_all

lemma settle_exclusive_inv: "session_inv E s \<Longrightarrow> session_inv E (snd (settle_exclusive adm op s))"
  by (simp add: session_ops)

lemma check_admission_None:
  assumes "check_turn_admission E hrev intent prompt s = Ok None"
  shows "ss_history_revision s = Some hrev" "ss_load_attempt s = None" "ss_operation s = None"
    "phase_allows s AdmitPrompt" "hm_get (ss_consumed_intents s) intent = None"
  using assms
  by (auto simp: check_turn_admission_def Let_def can_begin_Ok split: option.splits if_splits)

lemma phase_allows_prompt: "phase_allows s AdmitPrompt \<longleftrightarrow> ss_phase s = Ready \<and> ss_active_turn s = None"
  by (auto simp: phase_allows_def split: mirror_phase.splits)

lemma admit_turn_inv:
  assumes "session_inv E s"
  shows "session_inv E (snd (admit_turn E op hrev intent prompt s))"
  unfolding session_ops
proof (rule try_in_snd [where P = "session_inv E", OF assms])
  fix d
  assume c: "check_turn_admission E hrev intent prompt s = Ok d"
  show "session_inv E (snd (case d of Some d \<Rightarrow> (Ok d, s) | None \<Rightarrow>
      let overlay = \<lparr>ov_operation_id = op, ov_client_intent_id = intent, ov_prompt = prompt,
            ov_updates = [], ov_terminal = None,
            ov_execution = Some \<lparr>tx_rpc_operation_id = intent, tx_cancel_requested = False\<rparr>\<rparr>
      in (Ok (Accepted op),
          (s\<lparr>ss_active_overlay_bytes := overlay_bytes_of E overlay, ss_phase := Running,
            ss_active_payload_digest := Some (payload_digest E prompt),
            ss_active_turn := Some overlay, ss_sync_error := None\<rparr>)\<lparr>ss_view_revision := next_revision (ss_view_revision
              (s\<lparr>ss_active_overlay_bytes := overlay_bytes_of E overlay, ss_phase := Running,
                 ss_active_payload_digest := Some (payload_digest E prompt),
                 ss_active_turn := Some overlay, ss_sync_error := None\<rparr>))\<rparr>)))"
  proof (cases d)
    case None
    with check_admission_None [of E hrev intent prompt s] c show ?thesis
      by (simp add: Let_def session_inv_def load_ok_def phase_ok_def turn_done_def)
  next
    case (Some x)
    with assms show ?thesis by simp
  qed
qed

text \<open>A new list of updates in the overlay keeps the invariant.\<close>

lemma fold_overlay_update_inv:
  assumes "session_inv E s"
  shows "session_inv E (snd (fold_overlay_update E u s))"
  unfolding fold_overlay_update_def advance_revision_def Let_def
  using assms
  by (intro try_in_snd [where P = "session_inv E"])
     (auto simp: session_inv_def load_ok_def phase_ok_def turn_done_def split: mirror_phase.splits option.splits)

lemma append_turn_update_inv:
  "session_inv E s \<Longrightarrow> session_inv E (snd (append_turn_update E op u s))"
  unfolding append_turn_update_def
  by (intro if_snd [where P = "session_inv E"] try_in_snd [where P = "session_inv E"])
     (simp_all add: fold_overlay_update_inv)

lemma append_reconciling_update_inv:
  "session_inv E s \<Longrightarrow> session_inv E (snd (append_reconciling_update E u s))"
  unfolding append_reconciling_update_def
  by (intro if_snd [where P = "session_inv E"]) (simp_all add: fold_overlay_update_inv)

lemma complete_turn_inv:
  assumes "session_inv E s"
  shows "session_inv E (snd (complete_turn E op terminal s))"
  unfolding complete_turn_def advance_revision_def Let_def
  using assms
  by (intro if_snd [where P = "session_inv E"] try_in_snd [where P = "session_inv E"])
     (auto simp: session_inv_def load_ok_def phase_ok_def turn_done_def split: mirror_phase.splits option.splits)

lemma block_turn_inv:
  assumes "session_inv E s"
  shows "session_inv E (snd (block_turn op msg s))"
  unfolding block_turn_def advance_revision_def
  using assms
  by (intro if_snd [where P = "session_inv E"]) (simp, simp add: session_inv_def load_ok_def phase_ok_def)

lemma history_committed_inv:
  assumes "session_inv E s"
  shows "\<exists>s'. history_committed hrev n r s = Some s' \<and> session_inv E s'"
  using assms
  by (cases "ss_active_turn s"; cases "ss_history_revision s")
     (auto simp: history_committed_def consume_intent_def settle_outcomes_def advance_revision_def
        session_inv_def load_ok_def phase_ok_def split: option.splits)

section \<open>Turns are admitted once\<close>

text \<open>
  One step of a session under the operations of this theory, labelled with what it did to turns. A
  history commit is labelled with its revision; a step that is rejected is a step to the same state.
\<close>

datatype session_event =
    TurnAdmitted string "json list" turn_admission
  | OtherStep
  | HistoryCommitted string

inductive session_step :: "env \<Rightarrow> session_state \<Rightarrow> session_event \<Rightarrow> session_state \<Rightarrow> bool" for E where
  step_admit: "admit_turn E op hrev intent prompt s = (Ok a, s') \<Longrightarrow>
     session_step E s (TurnAdmitted intent prompt a) s'"
| step_admit_rejected: "admit_turn E op hrev intent prompt s = (Err e, s') \<Longrightarrow> session_step E s OtherStep s'"
| step_append: "append_turn_update E op u s = (r, s') \<Longrightarrow> session_step E s OtherStep s'"
| step_reconcile: "append_reconciling_update E u s = (r, s') \<Longrightarrow> session_step E s OtherStep s'"
| step_complete: "complete_turn E op terminal s = (r, s') \<Longrightarrow> session_step E s OtherStep s'"
| step_block: "block_turn op msg s = (r, s') \<Longrightarrow> session_step E s OtherStep s'"
| step_begin: "begin_exclusive kind op s = (r, s') \<Longrightarrow> session_step E s OtherStep s'"
| step_settle: "settle_exclusive adm op s = (r, s') \<Longrightarrow> session_step E s OtherStep s'"
| step_seal: "ss_active_turn s = Some t \<Longrightarrow>
     session_step E s OtherStep (s\<lparr>ss_active_turn := Some (t\<lparr>ov_execution := None\<rparr>)\<rparr>)"
| step_live: "session_step E s OtherStep (s\<lparr>ss_live := l\<rparr>)"
| step_commit: "history_committed hrev n r s = Some s' \<Longrightarrow> session_step E s (HistoryCommitted hrev) s'"

inductive session_run :: "env \<Rightarrow> session_state \<Rightarrow> session_event list \<Rightarrow> session_state \<Rightarrow> bool" for E s where
  run_nil: "session_run E s [] s"
| run_snoc: "session_run E s tr s1 \<Longrightarrow> session_step E s1 e s2 \<Longrightarrow> session_run E s (tr @ [e]) s2"

inductive_cases session_run_nilE: "session_run E s [] s'"
inductive_cases session_step_admitE: "session_step E s (TurnAdmitted intent prompt a) s'"
inductive_cases session_step_commitE: "session_step E s (HistoryCommitted hrev) s'"

lemma session_step_inv:
  assumes "session_step E s e s'" "session_inv E s"
  shows "session_inv E s'"
  using assms
proof (induction rule: session_step.induct)
  case (step_admit op hrev intent prompt s a s')
  then show ?case using admit_turn_inv [of E s op hrev intent prompt] by simp
next
  case (step_admit_rejected op hrev intent prompt s e s')
  then show ?case using admit_turn_inv [of E s op hrev intent prompt] by simp
next
  case (step_append op u s r s')
  then show ?case using append_turn_update_inv [of E s op u] by simp
next
  case (step_reconcile u s r s')
  then show ?case using append_reconciling_update_inv [of E s u] by simp
next
  case (step_complete op terminal s r s')
  then show ?case using complete_turn_inv [of E s op terminal] by simp
next
  case (step_block op msg s r s')
  then show ?case using block_turn_inv [of E s op msg] by simp
next
  case (step_begin kind op s r s')
  then show ?case using begin_exclusive_inv [of E s kind op] by simp
next
  case (step_settle adm op s r s')
  then show ?case using settle_exclusive_inv [of E s adm op] by simp
next
  case (step_commit hrev n r s s')
  then show ?case using history_committed_inv [of E s hrev n r] by auto
qed (simp_all add: session_inv_seal)

lemma session_run_inv: "session_run E s tr s' \<Longrightarrow> session_inv E s \<Longrightarrow> session_inv E s'"
  by (induction rule: session_run.induct) (auto intro: session_step_inv)

text \<open>An intent is known when it is the active turn's or was consumed by a commit.\<close>

definition knows_intent :: "session_state \<Rightarrow> string \<Rightarrow> bool" where
  "knows_intent s intent \<longleftrightarrow>
     (case ss_active_turn s of Some t \<Rightarrow> ov_client_intent_id t = intent | None \<Rightarrow> False) \<or>
     hm_get (ss_consumed_intents s) intent \<noteq> None"

lemma knows_intent_not_accepted:
  "knows_intent s intent \<Longrightarrow> admit_turn E op hrev intent prompt s = (Ok a, s') \<Longrightarrow>
     \<exists>d. a = Duplicate d \<and> s' = s"
  by (auto simp: knows_intent_def admit_turn_def check_turn_admission_def Let_def try_in_def
      split: option.splits if_splits)

lemma fold_overlay_keeps:
  assumes "fold_overlay_update E u s = (r, s')"
  shows "ss_consumed_intents s' = ss_consumed_intents s \<and>
    map_option ov_client_intent_id (ss_active_turn s') = map_option ov_client_intent_id (ss_active_turn s)"
  using assms
  by (cases "ss_active_turn s"; cases "fold_shared_active_turn_update (ov_updates (the (ss_active_turn s))) u")
     (auto simp: fold_overlay_update_def advance_revision_def Let_def)

lemma knows_intent_same:
  "ss_consumed_intents s' = ss_consumed_intents s \<Longrightarrow>
   map_option ov_client_intent_id (ss_active_turn s') = map_option ov_client_intent_id (ss_active_turn s)
   \<Longrightarrow> knows_intent s' i = knows_intent s i"
  by (cases "ss_active_turn s"; cases "ss_active_turn s'") (simp_all add: knows_intent_def)

text \<open>Every step keeps what the session knows, and an accepted turn becomes known.\<close>

lemma session_step_knows:
  assumes "session_step E s e s'" "session_inv E s" "knows_intent s intent"
  shows "knows_intent s' intent"
  using assms
proof (induction rule: session_step.induct)
  case (step_admit op hrev i prompt s a s')
  show ?case
  proof (cases a)
    case (Duplicate d)
    with step_admit(1) have "s' = s"
      by (auto simp: admit_turn_def try_in_eq_Ok Let_def split: option.splits)
    with step_admit show ?thesis by simp
  next
    case (Accepted o')
    with step_admit(1) have n: "check_turn_admission E hrev i prompt s = Ok None"
      by (auto simp: admit_turn_def try_in_eq_Ok Let_def check_turn_admission_def
          split: option.splits if_splits)
    from check_admission_None [OF n] have none: "ss_active_turn s = None"
      by (simp add: phase_allows_prompt)
    have "ss_consumed_intents s' = ss_consumed_intents s"
      using step_admit(1) n by (auto simp: admit_turn_def advance_revision_def Let_def)
    with step_admit(3) none show ?thesis by (auto simp: knows_intent_def)
  qed
next
  case (step_admit_rejected op hrev i prompt s e s')
  then have "s' = s"
    by (auto simp: admit_turn_def try_in_def Let_def split: option.splits result.splits)
  with step_admit_rejected show ?case by simp
next
  case (step_append op u s r s')
  have "knows_intent s' intent = knows_intent s intent"
    using step_append(1) fold_overlay_keeps [of E u s]
    by (cases "ss_active_turn s")
       (auto simp: append_turn_update_def split: if_splits intro!: knows_intent_same)
  with step_append show ?case by simp
next
  case (step_reconcile u s r s')
  have "knows_intent s' intent = knows_intent s intent"
    using step_reconcile(1) fold_overlay_keeps [of E u s]
    by (auto simp: append_reconciling_update_def split: if_splits intro!: knows_intent_same)
  with step_reconcile show ?case by simp
next
  case (step_complete op terminal s r s')
  then show ?case
    by (cases "ss_active_turn s")
       (auto simp: complete_turn_def advance_revision_def Let_def knows_intent_def split: if_splits)
next
  case (step_block op msg s r s')
  then show ?case by (auto simp: block_turn_def advance_revision_def knows_intent_def split: if_splits)
next
  case (step_begin kind op s r s')
  then show ?case
    by (auto simp: begin_exclusive_def try_in_def knows_intent_def split: result.splits)
next
  case (step_settle adm op s r s')
  then show ?case by (auto simp: settle_exclusive_def knows_intent_def split: if_splits)
next
  case (step_commit hrev n r s s')
  then show ?case
    by (cases "ss_active_turn s"; cases "ss_history_revision s")
       (auto simp: history_committed_def consume_intent_def settle_outcomes_def advance_revision_def
          session_inv_def knows_intent_def hm.get_put split: option.splits if_splits)
qed (auto simp: knows_intent_def)

lemma session_step_accepted_knows:
  "session_step E s (TurnAdmitted intent prompt (Accepted op)) s' \<Longrightarrow> knows_intent s' intent"
  by (erule session_step_admitE)
     (auto simp: admit_turn_def try_in_eq_Ok check_turn_admission_def Let_def advance_revision_def
        knows_intent_def split: option.splits if_splits)

definition accepted_intents :: "session_event list \<Rightarrow> string list" where
  "accepted_intents tr = List.map_filter (\<lambda>e.
     case e of TurnAdmitted intent _ (Accepted _) \<Rightarrow> Some intent | _ \<Rightarrow> None) tr"

lemma session_run_accepted:
  assumes "session_run E s tr s'" "session_inv E s"
  shows "distinct (accepted_intents tr) \<and> (\<forall>i \<in> set (accepted_intents tr). knows_intent s' i)"
  using assms
proof (induction rule: session_run.induct)
  case run_nil
  show ?case by (simp add: accepted_intents_def List.map_filter_def)
next
  case (run_snoc tr s1 e s2)
  have inv: "session_inv E s1" using run_snoc by (blast intro: session_run_inv)
  have kept: "knows_intent s2 i" if "knows_intent s1 i" for i
    by (rule session_step_knows [OF run_snoc(2) inv that])
  have snoc: "accepted_intents (tr @ [e]) = accepted_intents tr @
      (case e of TurnAdmitted intent _ (Accepted _) \<Rightarrow> [intent] | _ \<Rightarrow> [])"
    by (auto simp: accepted_intents_def List.map_filter_def split: session_event.splits turn_admission.splits)
  show ?case
  proof (cases "\<exists>i p op. e = TurnAdmitted i p (Accepted op)")
    case True
    then obtain i p op where e: "e = TurnAdmitted i p (Accepted op)" by blast
    have "\<not> knows_intent s1 i"
      using run_snoc(2) unfolding e
      by (auto elim!: session_step_admitE dest: knows_intent_not_accepted)
    moreover have "knows_intent s2 i"
      using session_step_accepted_knows run_snoc(2) e by blast
    ultimately show ?thesis using run_snoc(3,4) kept snoc e by auto
  next
    case False
    then have "accepted_intents (tr @ [e]) = accepted_intents tr"
      by (auto simp: snoc split: session_event.splits turn_admission.splits)
    with run_snoc kept show ?thesis by auto
  qed
qed

section \<open>Properties\<close>


lemma sample_admission:
  "admit_turn sample_env ''e:1'' ''r0'' ''i1'' [JStr ''hi''] (session_ready ''s'' 1 ''r0'') =
     (Ok (Accepted ''e:1''), snd (admit_turn sample_env ''e:1'' ''r0'' ''i1'' [JStr ''hi''] (session_ready ''s'' 1 ''r0'')))"
  by (simp add: admit_turn_def check_turn_admission_def session_ready_def session_cold_def
      can_begin_def phase_allows_def hm_get_def Let_def)


lemma admit_Accepted:
  assumes "admit_turn E op hrev intent prompt s = (Ok (Accepted op'), s')"
  shows "op' = op" "check_turn_admission E hrev intent prompt s = Ok None"
    "ss_phase s' = Running" "ss_operation s' = None" "ss_load_attempt s' = None"
    "ss_active_payload_digest s' = Some (payload_digest E prompt)"
    "\<exists>t. ss_active_turn s' = Some t \<and> ov_client_intent_id t = intent \<and> ov_operation_id t = op \<and>
       ov_prompt t = prompt \<and> ov_terminal t = None"
    "ss_consumed_intents s' = ss_consumed_intents s" "ss_history_revision s' = Some hrev"
proof -
  have n: "check_turn_admission E hrev intent prompt s = Ok None"
    using assms by (auto simp: admit_turn_def try_in_eq_Ok Let_def check_turn_admission_def
        split: option.splits if_splits)
  note none = check_admission_None [OF n]
  show "op' = op" "check_turn_admission E hrev intent prompt s = Ok None"
    "ss_phase s' = Running" "ss_operation s' = None" "ss_load_attempt s' = None"
    "ss_active_payload_digest s' = Some (payload_digest E prompt)"
    "\<exists>t. ss_active_turn s' = Some t \<and> ov_client_intent_id t = intent \<and> ov_operation_id t = op \<and>
       ov_prompt t = prompt \<and> ov_terminal t = None"
    "ss_consumed_intents s' = ss_consumed_intents s" "ss_history_revision s' = Some hrev"
    using assms n none by (auto simp: admit_turn_def advance_revision_def Let_def)
qed

text \<open>
  While a turn is active, a retry of its intent is answered with its operation whatever
  revision the client believes in, the same intent with another prompt is an idempotency conflict,
  and any other new intent is refused; none of the three changes the session.
\<close>

theorem active_turn_admission:
  assumes "admit_turn E op hrev intent prompt s = (Ok (Accepted op'), s1)"
    and "payload_digest E other \<noteq> payload_digest E prompt"
    and "\<not> knows_intent s1 intent2"
  shows "admit_turn E op2 hrev2 intent prompt s1 = (Ok (Duplicate op), s1) \<and>
    admit_turn E op2 hrev2 intent other s1 = (Err MirrorIdempotencyConflict, s1) \<and>
    admit_turn E op2 hrev2 intent2 prompt2 s1 = (Err MirrorWrongPhase, s1)"
proof -
  note a = admit_Accepted [OF assms(1)]
  from a(7) obtain t where t: "ss_active_turn s1 = Some t" "ov_client_intent_id t = intent"
    "ov_operation_id t = op" by blast
  have "intent2 \<noteq> intent" "hm_get (ss_consumed_intents s1) intent2 = None"
    using assms(3) t by (auto simp: knows_intent_def)
  then show ?thesis
    using a t assms(2)
    by (simp add: admit_turn_def check_turn_admission_def Let_def can_begin_def phase_allows_def)
qed

definition sample_turn :: session_state where
  "sample_turn =
     snd (admit_turn sample_env ''e:1'' ''r0'' ''i1'' [JStr ''hi''] (session_ready ''s'' 1 ''r0''))"

lemma active_turn_admission_witness:
  "admit_turn sample_env ''e:2'' ''r9'' ''i1'' [JStr ''hi''] sample_turn
     = (Ok (Duplicate ''e:1''), sample_turn) \<and>
   admit_turn sample_env ''e:2'' ''r9'' ''i1'' [] sample_turn
     = (Err MirrorIdempotencyConflict, sample_turn) \<and>
   admit_turn sample_env ''e:2'' ''r9'' ''i2'' [] sample_turn = (Err MirrorWrongPhase, sample_turn)"
  by (rule active_turn_admission [OF sample_admission [folded sample_turn_def]])
     (simp_all add: payload_digest_def sample_env_def knows_intent_def sample_turn_def admit_turn_def
        check_turn_admission_def session_ready_def session_cold_def can_begin_def phase_allows_def
        hm_get_def Let_def advance_revision_def)

text \<open>
  After the history of a turn is committed, a retry that still names the consumed revision or
  already names the successor is answered with the turn's operation, with any other revision or
  another prompt it is a conflict, and the session stays ready without a turn.
\<close>

theorem committed_turn_admission:
  assumes "session_inv E s" "ss_active_turn s = Some t" "ss_history_revision s = Some consumed"
    and "history_committed successor n replace s = Some s'"
    and "payload_digest E other \<noteq> payload_digest E (ov_prompt t)"
    and "wrong \<noteq> consumed" "wrong \<noteq> successor"
  shows "admit_turn E op2 consumed (ov_client_intent_id t) (ov_prompt t) s' = (Ok (Duplicate (ov_operation_id t)), s') \<and>
    admit_turn E op2 successor (ov_client_intent_id t) (ov_prompt t) s' = (Ok (Duplicate (ov_operation_id t)), s') \<and>
    admit_turn E op2 wrong (ov_client_intent_id t) (ov_prompt t) s' = (Err MirrorIdempotencyConflict, s') \<and>
    admit_turn E op2 successor (ov_client_intent_id t) other s' = (Err MirrorIdempotencyConflict, s') \<and>
    ss_phase s' = Ready \<and> ss_active_turn s' = None"
proof -
  have "ss_active_payload_digest s = Some (payload_digest E (ov_prompt t))"
    using assms(1,2) by (simp add: session_inv_def)
  with assms(2-4) have s': "ss_active_turn s' = None" "ss_phase s' = Ready"
    "hm_get (ss_consumed_intents s') (ov_client_intent_id t) = Some
      \<lparr>lc_operation_id = ov_operation_id t, lc_payload_digest = payload_digest E (ov_prompt t),
       lc_consumed_revision = consumed, lc_successor_revision = successor\<rparr>"
    by (auto simp: history_committed_def consume_intent_def settle_outcomes_def advance_revision_def
        hm.get_put split: option.splits if_splits)
  with assms(5-7) show ?thesis
    by (auto simp: admit_turn_def check_turn_admission_def Let_def)
qed

definition sample_commit :: session_state where
  "sample_commit = the (history_committed ''r1'' 2 False sample_turn)"

lemma sample_turn_eq:
  "sample_turn = \<lparr>ss_session_id = ''s'', ss_incarnation = 1, ss_live = None, ss_view_revision = 2,
     ss_history_revision = Some ''r0'', ss_phase = Running,
     ss_active_turn = Some \<lparr>ov_operation_id = ''e:1'', ov_client_intent_id = ''i1'',
       ov_prompt = [JStr ''hi''], ov_updates = [], ov_terminal = None,
       ov_execution = Some \<lparr>tx_rpc_operation_id = ''i1'', tx_cancel_requested = False\<rparr>\<rparr>,
     ss_turn_outcomes = [], ss_sync_error = None, ss_history_notice = None, ss_operation = None,
     ss_active_payload_digest = Some ''[.]'', ss_consumed_intents = [], ss_load_attempt = None,
     ss_load_origin = None, ss_active_overlay_bytes = 3\<rparr>"
  by (simp add: payload_digest_def sample_env_def sample_turn_def admit_turn_def next_revision_def
        check_turn_admission_def session_ready_def session_cold_def can_begin_def phase_allows_def
        hm_get_def Let_def advance_revision_def overlay_bytes_of_def serialized_len_def overlay_json_def)

lemma committed_turn_admission_witness:
  "admit_turn sample_env ''e:2'' ''r0'' ''i1'' [JStr ''hi''] sample_commit = (Ok (Duplicate ''e:1''), sample_commit) \<and>
   admit_turn sample_env ''e:2'' ''r1'' ''i1'' [JStr ''hi''] sample_commit = (Ok (Duplicate ''e:1''), sample_commit) \<and>
   admit_turn sample_env ''e:2'' ''r7'' ''i1'' [JStr ''hi''] sample_commit = (Err MirrorIdempotencyConflict, sample_commit) \<and>
   admit_turn sample_env ''e:2'' ''r1'' ''i1'' [] sample_commit = (Err MirrorIdempotencyConflict, sample_commit) \<and>
   ss_phase sample_commit = Ready \<and> ss_active_turn sample_commit = None"
proof -
  have "session_inv sample_env sample_turn"
    by (simp add: sample_turn_eq session_inv_def payload_digest_def sample_env_def overlay_bytes_of_def
        serialized_len_def overlay_json_def phase_ok_def turn_done_def load_ok_def)
  from committed_turn_admission [OF this, of "the (ss_active_turn sample_turn)" "''r0''" "''r1''" 2 False
      sample_commit "[]" "''r7''" "''e:2''"]
  show ?thesis
    by (simp add: sample_turn_eq sample_commit_def history_committed_def consume_intent_def
        settle_outcomes_def commit_outcome_def payload_digest_def sample_env_def)
qed

text \<open>
  (C5) Publishing a history never panics: in a state the operations can reach the commit is always
  valid, and the commit that follows yields a ready session with no turn, no load attempt, no error
  and no overlay bytes, whose baseline is the committed revision.
\<close>

theorem history_commit_succeeds:
  assumes "session_inv E s"
  shows "validate_history_commit s = Ok () \<and>
    (\<exists>s'. history_committed hrev n replace s = Some s' \<and> ss_phase s' = Ready \<and> ss_active_turn s' = None \<and>
       ss_load_attempt s' = None \<and> ss_sync_error s' = None \<and> ss_active_overlay_bytes s' = 0 \<and>
       ss_history_revision s' = Some hrev \<and> session_inv E s')"
  using assms history_committed_inv [OF assms, of hrev n replace]
  by (auto simp: validate_history_commit_def session_inv_def history_committed_def advance_revision_def)

lemma history_commit_succeeds_witness:
  "validate_history_commit (session_ready ''s'' 1 ''r0'') = Ok () \<and>
    (\<exists>s'. history_committed ''r1'' 0 True (session_ready ''s'' 1 ''r0'') = Some s' \<and> ss_phase s' = Ready \<and>
       ss_active_turn s' = None \<and>
       ss_load_attempt s' = None \<and> ss_sync_error s' = None \<and> ss_active_overlay_bytes s' = 0 \<and>
       ss_history_revision s' = Some ''r1'' \<and> session_inv sample_env s')"
  by (rule history_commit_succeeds) (rule session_ready_inv)

end
