(* ===== verification/Runtime_Journal.thy ===== *)
theory Runtime_Journal
  imports Session_State
begin

text \<open>
  The journal of published deltas (\<open>RuntimeJournal\<close> in \<open>src/src/runtime_state.rs\<close>) and the wire form
  of a delta, which its byte account measures. A variant of \<open>RuntimeChange\<close> carries its kind as a
  tag; structs are renamed to camel case, the fields of a variant are not.
\<close>

section \<open>The wire form of a delta\<close>

definition opt_json :: "('a \<Rightarrow> json) \<Rightarrow> 'a option \<Rightarrow> json" where
  "opt_json f x = (case x of Some a \<Rightarrow> f a | None \<Rightarrow> JNull)"

definition map_json :: "('a \<Rightarrow> json) \<Rightarrow> (string, 'a) btree_map \<Rightarrow> json" where
  "map_json f m = JObj (map (\<lambda>e. (fst e, f (snd e))) m)"

definition u64_json :: "u64 \<Rightarrow> json" where
  "u64_json n = JNum (PosInt n)"

fun lifecycle_name :: "session_lifecycle \<Rightarrow> string" where
  "lifecycle_name Attaching = ''attaching''"
| "lifecycle_name Active = ''active''"
| "lifecycle_name Closing = ''closing''"
| "lifecycle_name ClosingForDelete = ''closing_for_delete''"
| "lifecycle_name Deleting = ''deleting''"
| "lifecycle_name Closed = ''closed''"
| "lifecycle_name Uncertain = ''uncertain''"

fun phase_name :: "mirror_phase \<Rightarrow> string" where
  "phase_name Cold = ''cold''"
| "phase_name Loading = ''loading''"
| "phase_name Ready = ''ready''"
| "phase_name Running = ''running''"
| "phase_name Reconciling = ''reconciling''"
| "phase_name Blocked = ''blocked''"

fun kind_name :: "operation_kind \<Rightarrow> string" where
  "kind_name Load = ''load''"
| "kind_name Resume = ''resume''"
| "kind_name Fork = ''fork''"
| "kind_name Close = ''close''"
| "kind_name Delete = ''delete''"
| "kind_name SetMode = ''set_mode''"
| "kind_name SetConfig = ''set_config''"

fun status_name :: "url_flow_status \<Rightarrow> string" where
  "status_name Waiting = ''waiting''"
| "status_name Completed = ''completed''"
| "status_name Cancelled = ''cancelled''"

definition interaction_json :: "pending_interaction \<Rightarrow> json" where
  "interaction_json p = JObj [(''interactionId'', JStr (pi_interaction_id p)), (''request'', pi_request p),
     (''operationId'', opt_json JStr (pi_operation_id p)),
     (''respondingOperationId'', opt_json JStr (pi_responding_operation_id p))]"

text \<open>The registration id of a URL flow is not published.\<close>

definition url_flow_json :: "url_flow \<Rightarrow> json" where
  "url_flow_json f = JObj [(''elicitationId'', JStr (uf_elicitation_id f)), (''request'', uf_request f),
     (''status'', JStr (status_name (uf_status f)))]"

definition active_turn_json :: "active_turn \<Rightarrow> json" where
  "active_turn_json t = JObj [(''operationId'', JStr (at_operation_id t)), (''turnId'', JStr (at_turn_id t)),
     (''prompt'', JArr (at_prompt t)), (''updates'', JArr (at_updates t)),
     (''cancelRequested'', JBool (at_cancel_requested t))]"

definition operation_json :: "operation_state \<Rightarrow> json" where
  "operation_json op = JObj [(''operationId'', JStr (so_operation_id op)), (''kind'', JStr (kind_name (so_kind op))),
     (''stage'', JStr (so_stage op)), (''uncertaintyReason'', opt_json JStr (so_uncertainty_reason op))]"

definition session_json :: "session_runtime \<Rightarrow> json" where
  "session_json s = JObj [(''sessionId'', JStr (sr_session_id s)), (''incarnation'', u64_json (sr_incarnation s)),
     (''revision'', u64_json (sr_revision s)), (''cwd'', JStr (sr_cwd s)), (''session'', sr_session s),
     (''controlState'', map_json (\<lambda>v. v) (sr_control_state s)),
     (''lifecycle'', JStr (lifecycle_name (sr_lifecycle s))),
     (''activeTurn'', opt_json active_turn_json (sr_active_turn s)),
     (''operation'', opt_json operation_json (sr_operation s)),
     (''permissions'', map_json interaction_json (sr_permissions s)),
     (''elicitations'', map_json interaction_json (sr_elicitations s)),
     (''urlFlows'', map_json url_flow_json (sr_url_flows s)),
     (''terminals'', map_json (\<lambda>v. v) (sr_terminals s)),
     (''baselineRevision'', opt_json JStr (sr_history_revision s)),
     (''phase'', JStr (phase_name (sr_phase s))), (''syncError'', opt_json JStr (sr_sync_error s))]"

fun change_json :: "runtime_change \<Rightarrow> json" where
  "change_json (ConnectionUpsert es fs) = JObj [(''kind'', JStr ''connection_upsert''),
     (''request_elicitations'', map_json interaction_json es), (''request_url_flows'', map_json url_flow_json fs)]"
| "change_json (SessionUpsert s) = JObj [(''kind'', JStr ''session_upsert''), (''session'', session_json s)]"
| "change_json (SessionControlUpdated sid inc revision key update hrev ph err) =
     JObj [(''kind'', JStr ''session_control_updated''), (''session_id'', JStr sid),
       (''incarnation'', u64_json inc), (''revision'', u64_json revision), (''key'', JStr key), (''update'', update),
       (''history_revision'', opt_json JStr hrev), (''phase'', JStr (phase_name ph)),
       (''sync_error'', opt_json JStr err)]"
| "change_json (TurnUpdateAppended sid inc revision operation_id update) =
     JObj [(''kind'', JStr ''turn_update_appended''), (''session_id'', JStr sid), (''incarnation'', u64_json inc),
       (''revision'', u64_json revision), (''operation_id'', JStr operation_id), (''update'', update)]"
| "change_json (TerminalUpdated sid inc revision terminal_id terminal) =
     JObj [(''kind'', JStr ''terminal_updated''), (''session_id'', JStr sid), (''incarnation'', u64_json inc),
       (''revision'', u64_json revision), (''terminal_id'', JStr terminal_id), (''terminal'', terminal)]"
| "change_json (SessionRemoved sid inc) =
     JObj [(''kind'', JStr ''session_removed''), (''session_id'', JStr sid), (''incarnation'', u64_json inc)]"

definition delta_json :: "runtime_delta \<Rightarrow> json" where
  "delta_json d = JObj [(''epoch'', JStr (rd_epoch d)), (''seq'', u64_json (rd_seq d)),
     (''scopeRevision'', opt_json u64_json (rd_scope_revision d)), (''change'', change_json (rd_change d))]"

section \<open>The journal\<close>

record journal_delta =
  jd_delta :: runtime_delta
  jd_bytes :: nat

record runtime_journal =
  jn_seq :: u64
  jn_deltas :: "journal_delta list"
  jn_bytes :: nat

definition journal_new :: runtime_journal where
  "journal_new = \<lparr>jn_seq = 0, jn_deltas = [], jn_bytes = 0\<rparr>"

definition jd_seq :: "journal_delta \<Rightarrow> u64" where
  "jd_seq e = rd_seq (jd_delta e)"

definition sat_succ :: "u64 \<Rightarrow> u64" where
  "sat_succ n = (if n = - 1 then n else n + 1)"

definition journal_deltas_after :: "u64 \<Rightarrow> runtime_journal \<Rightarrow> runtime_delta list option" where
  "journal_deltas_after n j =
     (if jn_seq j < n then None
      else let first = (case jn_deltas j of e # _ \<Rightarrow> jd_seq e | [] \<Rightarrow> jn_seq j + 1)
        in if sat_succ n < first then None
           else Some (map jd_delta (filter (\<lambda>e. n < jd_seq e) (jn_deltas j))))"

definition journal_commit :: "env \<Rightarrow> string \<Rightarrow> u64 option \<Rightarrow> runtime_change \<Rightarrow> runtime_journal \<Rightarrow> runtime_journal" where
  "journal_commit E epoch scope_revision change j =
     (let n = next_revision (jn_seq j);
          delta = \<lparr>rd_epoch = epoch, rd_seq = n, rd_scope_revision = scope_revision, rd_change = change\<rparr>;
          bytes = serialized_len E (delta_json delta)
      in j\<lparr>jn_seq := n, jn_bytes := sat_add (jn_bytes j) bytes,
           jn_deltas := jn_deltas j @ [\<lparr>jd_delta = delta, jd_bytes = bytes\<rparr>]\<rparr>)"

fun release_front :: "u64 \<Rightarrow> journal_delta list \<Rightarrow> nat \<Rightarrow> journal_delta list \<times> nat" where
  "release_front n [] bytes = ([], bytes)"
| "release_front n (e # es) bytes =
     (if n < jd_seq e then (e # es, bytes) else release_front n es (sat_sub bytes (jd_bytes e)))"

definition release_through :: "u64 \<Rightarrow> runtime_journal \<Rightarrow> runtime_journal" where
  "release_through n j =
     (case release_front n (jn_deltas j) (jn_bytes j) of
        (es, bytes) \<Rightarrow> j\<lparr>jn_deltas := es, jn_bytes := bytes\<rparr>)"

fun owns_turn_payload :: "string \<Rightarrow> u64 \<Rightarrow> string \<Rightarrow> runtime_change \<Rightarrow> bool" where
  "owns_turn_payload sid inc op (SessionUpsert s) = (sr_session_id s = sid \<and> sr_incarnation s = inc)"
| "owns_turn_payload sid inc op (TurnUpdateAppended sid' inc' r op' u) = (sid' = sid \<and> inc' = inc \<or> op' = op)"
| "owns_turn_payload sid inc op _ = False"

definition retire_turn_payload :: "string \<Rightarrow> u64 \<Rightarrow> string \<Rightarrow> runtime_journal \<Rightarrow> runtime_journal" where
  "retire_turn_payload sid inc op j =
     (let seqs = map jd_seq (filter (\<lambda>e. owns_turn_payload sid inc op (rd_change (jd_delta e))) (jn_deltas j));
          es = (case seqs of [] \<Rightarrow> jn_deltas j
                | n # ns \<Rightarrow> dropWhile (\<lambda>e. jd_seq e \<le> fold max ns n) (jn_deltas j))
      in j\<lparr>jn_deltas := es, jn_bytes := sum_list (map jd_bytes es)\<rparr>)"

section \<open>The journal is a suffix of what was committed\<close>

datatype journal_call =
    JCommit "u64 option" runtime_change
  | JRelease u64
  | JRetire string u64 string

fun journal_do :: "env \<Rightarrow> string \<Rightarrow> journal_call \<Rightarrow> runtime_journal \<Rightarrow> runtime_journal" where
  "journal_do E epoch (JCommit scope change) j = journal_commit E epoch scope change j"
| "journal_do E epoch (JRelease n) j = release_through n j"
| "journal_do E epoch (JRetire sid inc op) j = retire_turn_payload sid inc op j"

definition journal_run :: "env \<Rightarrow> string \<Rightarrow> journal_call list \<Rightarrow> runtime_journal" where
  "journal_run E epoch cs = fold (journal_do E epoch) cs journal_new"

text \<open>Everything ever committed, in order: the deltas of the commits alone, numbered from 1.\<close>

fun commit_log :: "string \<Rightarrow> u64 \<Rightarrow> journal_call list \<Rightarrow> runtime_delta list" where
  "commit_log epoch n [] = []"
| "commit_log epoch n (JCommit scope change # cs) =
     \<lparr>rd_epoch = epoch, rd_seq = next_revision n, rd_scope_revision = scope, rd_change = change\<rparr>
       # commit_log epoch (next_revision n) cs"
| "commit_log epoch n (_ # cs) = commit_log epoch n cs"

fun consecutive :: "nat \<Rightarrow> journal_delta list \<Rightarrow> bool" where
  "consecutive k [] \<longleftrightarrow> True"
| "consecutive k (e # es) \<longleftrightarrow> unat (jd_seq e) = Suc k \<and> consecutive (Suc k) es"

definition delta_bytes :: "env \<Rightarrow> journal_delta \<Rightarrow> bool" where
  "delta_bytes E e \<longleftrightarrow> jd_bytes e = serialized_len E (delta_json (jd_delta e))"

lemma consecutive_append:
  "consecutive k (es @ fs) \<longleftrightarrow> consecutive k es \<and> consecutive (k + length es) fs"
  by (induction es arbitrary: k) auto

lemma consecutive_drop: "consecutive k es \<Longrightarrow> consecutive (k + i) (drop i es)"
proof (induction es arbitrary: k i)
  case (Cons e es)
  then show ?case using Cons.IH [of "Suc k" "i - 1"] by (cases i) simp_all
qed simp

lemma consecutive_ge: "consecutive k es \<Longrightarrow> e \<in> set es \<Longrightarrow> k < unat (jd_seq e)"
proof (induction es arbitrary: k)
  case (Cons f es)
  from Cons.prems(2) consider "e = f" | "e \<in> set es" by auto
  then show ?case
  proof cases
    case 2
    with Cons have "Suc k < unat (jd_seq e)" by simp
    then show ?thesis by simp
  qed (use Cons.prems(1) in simp)
qed simp

lemma consecutive_filter:
  "consecutive k es \<Longrightarrow> filter (\<lambda>e. n < jd_seq e) es = drop (unat n - k) es"
proof (induction es arbitrary: k)
  case (Cons e es)
  then have e: "n < jd_seq e \<longleftrightarrow> unat n < Suc k" and ih: "filter (\<lambda>e. n < jd_seq e) es = drop (unat n - Suc k) es"
    by (simp_all add: word_less_nat_alt)
  show ?case
  proof (cases "unat n < Suc k")
    case True
    with e ih show ?thesis by simp
  next
    case False
    then have "unat n - k = Suc (unat n - Suc k)" by simp
    with e ih False show ?thesis by simp
  qed
qed simp

lemma consecutive_dropWhile:
  "consecutive k es \<Longrightarrow> dropWhile (\<lambda>e. jd_seq e \<le> n) es = drop (unat n - k) es"
proof (induction es arbitrary: k)
  case (Cons e es)
  then have e: "jd_seq e \<le> n \<longleftrightarrow> Suc k \<le> unat n"
    and ih: "dropWhile (\<lambda>e. jd_seq e \<le> n) es = drop (unat n - Suc k) es"
    by (simp_all add: word_le_nat_alt)
  show ?case
  proof (cases "Suc k \<le> unat n")
    case True
    then have "unat n - k = Suc (unat n - Suc k)" by simp
    with e ih True show ?thesis by simp
  next
    case False
    with e show ?thesis by simp
  qed
qed simp

lemma release_front_dropWhile:
  "bytes = sum_list (map jd_bytes es) \<Longrightarrow>
     release_front n es bytes
       = (dropWhile (\<lambda>e. jd_seq e \<le> n) es, sum_list (map jd_bytes (dropWhile (\<lambda>e. jd_seq e \<le> n) es)))"
  by (induction n es bytes rule: release_front.induct) (auto simp: sat_sub_def not_less)

text \<open>The journal against the log: what it holds is a suffix, numbered without a gap.\<close>

definition journal_ok :: "env \<Rightarrow> runtime_delta list \<Rightarrow> runtime_journal \<Rightarrow> bool" where
  "journal_ok E log j \<longleftrightarrow>
     unat (jn_seq j) = length log \<and>
     (\<exists>k \<le> length log. map jd_delta (jn_deltas j) = drop k log \<and> consecutive k (jn_deltas j)) \<and>
     list_all (delta_bytes E) (jn_deltas j) \<and>
     jn_bytes j = sum_list (map jd_bytes (jn_deltas j))"

lemma journal_ok_drop:
  assumes "journal_ok E log j"
  shows "journal_ok E log (j\<lparr>jn_deltas := dropWhile (\<lambda>e. jd_seq e \<le> n) (jn_deltas j),
    jn_bytes := sum_list (map jd_bytes (dropWhile (\<lambda>e. jd_seq e \<le> n) (jn_deltas j)))\<rparr>)"
proof -
  obtain k where k: "k \<le> length log" "map jd_delta (jn_deltas j) = drop k log" "consecutive k (jn_deltas j)"
    using assms by (auto simp: journal_ok_def)
  define i where "i = min (unat n - k) (length (jn_deltas j))"
  have d: "dropWhile (\<lambda>e. jd_seq e \<le> n) (jn_deltas j) = drop i (jn_deltas j)"
    using consecutive_dropWhile [OF k(3), of n] by (simp add: i_def min_def)
  have "length (jn_deltas j) = length log - k" using arg_cong [OF k(2), of length] by simp
  then have "k + i \<le> length log" using k(1) by (simp add: i_def)
  moreover have "map jd_delta (drop i (jn_deltas j)) = drop (k + i) log"
    using k(2) by (simp add: drop_map [symmetric] add.commute)
  ultimately show ?thesis
    using assms consecutive_drop [OF k(3), of i] unfolding d
    by (auto simp: journal_ok_def list_all_iff dest: in_set_dropD)
qed

lemma release_through_ok: "journal_ok E log j \<Longrightarrow> journal_ok E log (release_through n j)"
  using journal_ok_drop [of E log j n] release_front_dropWhile [of "jn_bytes j" "jn_deltas j" n]
  by (simp add: release_through_def journal_ok_def)

lemma retire_turn_payload_ok: "journal_ok E log j \<Longrightarrow> journal_ok E log (retire_turn_payload sid inc op j)"
  using journal_ok_drop [of E log j] 
  by (auto simp: retire_turn_payload_def Let_def split: list.split) (simp add: journal_ok_def)

lemma journal_commit_ok:
  assumes "journal_ok E log j" "length log < 2 ^ 64 - 1"
    and "sum_list (map (\<lambda>d. serialized_len E (delta_json d)) (log @ [d])) \<le> usize_max"
    and d: "d = \<lparr>rd_epoch = epoch, rd_seq = next_revision (jn_seq j), rd_scope_revision = scope, rd_change = change\<rparr>"
  shows "journal_ok E (log @ [d]) (journal_commit E epoch scope change j)"
proof -
  obtain k where k: "k \<le> length log" "map jd_delta (jn_deltas j) = drop k log" "consecutive k (jn_deltas j)"
    using assms(1) by (auto simp: journal_ok_def)
  have n: "unat (next_revision (jn_seq j)) = Suc (length log)"
    using assms(1,2) by (simp add: unat_next_revision journal_ok_def)
  have len: "length (jn_deltas j) = length log - k" using arg_cong [OF k(2), of length] by simp
  have "sum_list (map jd_bytes (jn_deltas j)) = sum_list (map (\<lambda>d. serialized_len E (delta_json d)) (drop k log))"
    using assms(1) by (auto simp: journal_ok_def k(2) [symmetric] list_all_iff delta_bytes_def comp_def
        intro!: arg_cong [where f = sum_list])
  also have "\<dots> \<le> sum_list (map (\<lambda>d. serialized_len E (delta_json d)) log)"
    by (metis append_take_drop_id le_add2 map_append sum_list_append)
  finally have "jn_bytes j + serialized_len E (delta_json d) \<le> usize_max"
    using assms(1,3) by (simp add: journal_ok_def)
  with assms(1) k n len show ?thesis
    by (auto simp: journal_ok_def journal_commit_def Let_def d sat_add_exact consecutive_append jd_seq_def
        delta_bytes_def intro!: exI [of _ k])
qed

lemma journal_run_ok:
  assumes "journal_ok E log j"
    and "length (log @ commit_log epoch (jn_seq j) cs) \<le> 2 ^ 64 - 1"
    and "sum_list (map (\<lambda>d. serialized_len E (delta_json d)) (log @ commit_log epoch (jn_seq j) cs)) \<le> usize_max"
  shows "journal_ok E (log @ commit_log epoch (jn_seq j) cs) (fold (journal_do E epoch) cs j)"
  using assms
proof (induction cs arbitrary: j log)
  case (Cons c cs)
  show ?case
  proof (cases c)
    case (JCommit scope change)
    define d where "d = \<lparr>rd_epoch = epoch, rd_seq = next_revision (jn_seq j), rd_scope_revision = scope, rd_change = change\<rparr>"
    have ok: "journal_ok E (log @ [d]) (journal_commit E epoch scope change j)"
      by (rule journal_commit_ok [OF Cons.prems(1) _ _ d_def])
         (use Cons.prems in \<open>simp_all add: JCommit d_def\<close>)
    have "jn_seq (journal_commit E epoch scope change j) = next_revision (jn_seq j)"
      by (simp add: journal_commit_def Let_def)
    with Cons.IH [OF ok] Cons.prems show ?thesis
      by (simp add: JCommit d_def)
  next
    case (JRelease n)
    have "jn_seq (release_through n j) = jn_seq j" by (simp add: release_through_def split: prod.split)
    with Cons.IH [OF release_through_ok [OF Cons.prems(1), of n]] Cons.prems show ?thesis by (simp add: JRelease)
  next
    case (JRetire sid inc op)
    have "jn_seq (retire_turn_payload sid inc op j) = jn_seq j" by (simp add: retire_turn_payload_def Let_def)
    with Cons.IH [OF retire_turn_payload_ok [OF Cons.prems(1), of sid inc op]] Cons.prems show ?thesis by (simp add: JRetire)
  qed
qed simp

lemma journal_new_ok: "journal_ok E [] journal_new"
  by (simp add: journal_ok_def journal_new_def)

text \<open>The deltas a reader of the first \<open>n\<close> is given, from the numbering alone.\<close>

lemma consecutive_deltas_after:
  assumes k: "consecutive k (jn_deltas j)" "k + length (jn_deltas j) = unat (jn_seq j)"
    and r: "jn_deltas j \<noteq> [] \<or> jn_seq j < - 1" "n < - 1"
  shows "journal_deltas_after n j =
    (if unat (jn_seq j) < unat n \<or> unat n < k then None else Some (map jd_delta (drop (unat n - k) (jn_deltas j))))"
proof -
  have m: "unat (- 1 :: u64) = 2 ^ 64 - 1" by (simp add: unsigned_minus_1_eq_mask mask_eq_exp_minus_1)
  have first: "unat (case jn_deltas j of e # _ \<Rightarrow> jd_seq e | [] \<Rightarrow> jn_seq j + 1) = Suc k"
  proof (cases "jn_deltas j")
    case Nil
    with r(1) have "unat (jn_seq j) < 2 ^ 64 - 1" using m by (simp add: word_less_nat_alt)
    with Nil k(2) show ?thesis by (simp add: unat_word_ariths)
  qed (use k(1) in simp)
  have "unat n < 2 ^ 64 - 1" using r(2) m by (simp add: word_less_nat_alt)
  then have "unat (sat_succ n) = Suc (unat n)" using r(2) by (auto simp: sat_succ_def unat_word_ariths)
  then show ?thesis using first
    by (auto simp: journal_deltas_after_def Let_def word_less_nat_alt [of "sat_succ n"] word_less_nat_alt [of "jn_seq j"]
        consecutive_filter [OF k(1)])
qed

lemma journal_ok_deltas_after:
  assumes "journal_ok E log j" "length log < 2 ^ 64 - 1"
  shows "journal_deltas_after n j =
    (if length log < unat n \<or> unat n < length log - length (jn_deltas j) then None
     else Some (drop (unat n) log))"
proof -
  obtain k where k: "k \<le> length log" "map jd_delta (jn_deltas j) = drop k log" "consecutive k (jn_deltas j)"
    using assms(1) by (auto simp: journal_ok_def)
  have len: "length (jn_deltas j) = length log - k" using arg_cong [OF k(2), of length] by simp
  have seq: "unat (jn_seq j) = length log" using assms(1) by (simp add: journal_ok_def)
  have m: "unat (- 1 :: u64) = 2 ^ 64 - 1" by (simp add: unsigned_minus_1_eq_mask mask_eq_exp_minus_1)
  show ?thesis
  proof (cases "length log < unat n")
    case True
    with seq show ?thesis by (simp add: journal_deltas_after_def word_less_nat_alt)
  next
    case False
    have "jn_seq j < - 1" "n < - 1" using False assms(2) seq m by (simp_all add: word_less_nat_alt)
    moreover have "map jd_delta (drop (unat n - k) (jn_deltas j)) = drop (unat n) log" if "k \<le> unat n"
      using that k(2) by (simp add: drop_map [symmetric])
    ultimately show ?thesis
      using False seq len k(1) consecutive_deltas_after [OF k(3), of n] by auto
  qed
qed

text \<open>
  (C13) The journal delivers exactly what was committed: after any commits, releases and retirements,
  a reader that has seen the first \<open>n\<close> deltas is given all the later ones, in order and without a
  gap, or is told that some of them are gone; and the byte account is exact. The sequence numbers
  must not have wrapped around, nor the byte account saturated.
\<close>

theorem journal_delivers_exactly:
  assumes "length (commit_log epoch 0 cs) < 2 ^ 64 - 1"
    and "sum_list (map (\<lambda>d. serialized_len E (delta_json d)) (commit_log epoch 0 cs)) \<le> usize_max"
  shows "journal_deltas_after n (journal_run E epoch cs) =
      (if length (commit_log epoch 0 cs) < unat n \<or>
          unat n < length (commit_log epoch 0 cs) - length (jn_deltas (journal_run E epoch cs))
       then None else Some (drop (unat n) (commit_log epoch 0 cs))) \<and>
    jn_bytes (journal_run E epoch cs)
      = sum_list (map (\<lambda>e. serialized_len E (delta_json (jd_delta e))) (jn_deltas (journal_run E epoch cs)))"
proof -
  have "journal_ok E (commit_log epoch 0 cs) (journal_run E epoch cs)"
    using journal_run_ok [OF journal_new_ok, of epoch cs E] assms
    by (simp add: journal_run_def journal_new_def)
  moreover from this have "jn_bytes (journal_run E epoch cs)
      = sum_list (map (\<lambda>e. serialized_len E (delta_json (jd_delta e))) (jn_deltas (journal_run E epoch cs)))"
    by (auto simp: journal_ok_def list_all_iff delta_bytes_def intro!: arg_cong [where f = sum_list])
  ultimately show ?thesis using journal_ok_deltas_after [OF _ assms(1)] by simp
qed

lemma journal_delivers_exactly_witness:
  "journal_deltas_after 1 (journal_run sample_env ''e'' [JCommit None (SessionRemoved ''s'' 1),
       JCommit None (SessionRemoved ''s'' 2), JRelease 1])
     = Some [\<lparr>rd_epoch = ''e'', rd_seq = 2, rd_scope_revision = None, rd_change = SessionRemoved ''s'' 2\<rparr>]"
proof -
  let ?cs = "[JCommit None (SessionRemoved ''s'' 1), JCommit None (SessionRemoved ''s'' 2), JRelease 1]"
  have n: "next_revision 0 = 1" "next_revision 1 = 2" by (simp_all add: next_revision_def)
  have l: "length (jn_deltas (journal_run sample_env ''e'' ?cs)) = 1"
    by (simp add: journal_run_def journal_commit_def release_through_def journal_new_def Let_def n jd_seq_def)
  have b: "serialized_len sample_env (delta_json d) = 3" for d
    by (simp add: serialized_len_def sample_env_def delta_json_def)
  show ?thesis
    using journal_delivers_exactly [of "''e''" ?cs sample_env 1]
    by (simp add: n l b usize_max_def)
qed

lemma max_seqs: "e \<in> set es \<Longrightarrow> f e \<le> (fold max (map f es) n :: u64)"
proof (induction es arbitrary: n)
  case (Cons x es)
  have "n \<le> fold max (map f es) n" for n :: u64
    by (induction es arbitrary: n) (auto intro: order_trans max.cobounded2)
  from this [of "max (f x) n"] have "f x \<le> fold max (map f es) (max (f x) n)"
    by (rule order_trans [rotated]) simp
  with Cons show ?case by auto
qed simp

text \<open>
  (C14) Once a turn is retired the journal holds nothing of it: no session snapshot of its session
  and none of its updates stays in the journal, which remains a suffix of what was committed.
\<close>

theorem retired_turn_leaves_no_payload:
  assumes "journal_ok E log j"
  shows "list_all (\<lambda>e. \<not> owns_turn_payload sid inc op (rd_change (jd_delta e)))
      (jn_deltas (retire_turn_payload sid inc op j)) \<and>
    journal_ok E log (retire_turn_payload sid inc op j)"
proof -
  obtain k where k: "consecutive k (jn_deltas j)" using assms by (auto simp: journal_ok_def)
  let ?own = "\<lambda>e. owns_turn_payload sid inc op (rd_change (jd_delta e))"
  have "\<not> ?own e" if e: "e \<in> set (jn_deltas (retire_turn_payload sid inc op j))" for e
  proof
    assume own: "?own e"
    have mem: "e \<in> set (jn_deltas j)"
      using e by (auto simp: retire_turn_payload_def Let_def split: list.splits dest: set_dropWhileD)
    define seqs where "seqs = map jd_seq (filter ?own (jn_deltas j))"
    have "jd_seq e \<in> set seqs" using mem own by (simp add: seqs_def)
    then obtain n ns where s: "seqs = n # ns" by (cases seqs) auto
    define m where "m = fold max ns n"
    have le: "jd_seq e \<le> m"
      using \<open>jd_seq e \<in> set seqs\<close> max_seqs [of _ ns "\<lambda>x. x" n] max_seqs [of n "n # ns" "\<lambda>x. x" n]
      by (auto simp: s m_def)
    have "e \<in> set (drop (unat m - k) (jn_deltas j))"
      using e consecutive_dropWhile [OF k, of m]
      by (simp add: retire_turn_payload_def Let_def seqs_def [symmetric] s m_def [symmetric])
    with consecutive_ge [OF consecutive_drop [OF k, of "unat m - k"]] have "unat m < unat (jd_seq e)"
      by fastforce
    with le show False by (simp add: word_le_nat_alt)
  qed
  with retire_turn_payload_ok [OF assms] show ?thesis by (simp add: list_all_iff)
qed

definition sample_journal :: runtime_journal where
  "sample_journal = journal_commit sample_env ''e'' None (TurnUpdateAppended ''s'' 1 1 ''op'' JNull) journal_new"

lemma sample_journal_ok:
  "journal_ok sample_env [\<lparr>rd_epoch = ''e'', rd_seq = next_revision 0, rd_scope_revision = None,
     rd_change = TurnUpdateAppended ''s'' 1 1 ''op'' JNull\<rparr>] sample_journal"
  using journal_commit_ok [OF journal_new_ok, of sample_env _ "''e''" None "TurnUpdateAppended ''s'' 1 1 ''op'' JNull"]
  by (simp add: sample_journal_def journal_new_def serialized_len_def sample_env_def delta_json_def usize_max_def)

lemma retired_turn_leaves_no_payload_witness:
  "list_all (\<lambda>e. \<not> owns_turn_payload ''s'' 1 ''op'' (rd_change (jd_delta e)))
      (jn_deltas (retire_turn_payload ''s'' 1 ''op'' sample_journal)) \<and>
    journal_ok sample_env [\<lparr>rd_epoch = ''e'', rd_seq = next_revision 0, rd_scope_revision = None,
        rd_change = TurnUpdateAppended ''s'' 1 1 ''op'' JNull\<rparr>]
      (retire_turn_payload ''s'' 1 ''op'' sample_journal)"
  by (rule retired_turn_leaves_no_payload [OF sample_journal_ok])

end
