(* ===== verification/History_Replay.thy ===== *)
theory History_Replay
  imports Session_Types
begin

text \<open>
  The private data of one load (\<open>ReplayData\<close>, \<open>src/src/history_replay.rs\<close>): records fold here while
  the load runs, any malformed record poisons the whole candidate, and only the load's response
  can take the history. A \<open>ReplayCandidate\<close> is a shared handle on this data; its methods are
  functions of the data, and the store of the handles is in the theory of the history cache. A
  poisoned mutex is not modelled: it takes a panic under the lock, and none is reachable.
\<close>

record replay_data =
  rp_history :: history_builder
  rp_validation :: semantic_state
  rp_controls :: "json list"
  rp_control_bytes :: nat
  rp_invalid :: "history_cache_error option"
  rp_sealed :: bool

definition replay_default :: replay_data where
  "replay_default = \<lparr>rp_history = hb_default, rp_validation = semantic_default, rp_controls = [],
     rp_control_bytes = 0, rp_invalid = None, rp_sealed = False\<rparr>"

definition replay_updates :: "replay_data \<Rightarrow> (history_cache_error, json list) result" where
  "replay_updates d = (case rp_invalid d of Some e \<Rightarrow> Err e | None \<Rightarrow> Ok (hb_updates (rp_history d)))"

definition replay_append :: "env \<Rightarrow> json \<Rightarrow> replay_data
    \<Rightarrow> (history_cache_error, unit) result \<times> replay_data" where
  "replay_append E update d =
     (if rp_sealed d then (Err AttemptMismatch, d)
      else try_in d (replay_updates d) (\<lambda>_.
        case hb_append (serialized_len E) (rp_history d) update of
          Ok b \<Rightarrow> (Ok (), d\<lparr>rp_history := b\<rparr>)
        | Err _ \<Rightarrow> (Err InvalidReplay, d\<lparr>rp_invalid := Some InvalidReplay\<rparr>)
        | Panic \<Rightarrow> (Panic, d)))"

text \<open>A control update folds into the last one with the same kind.\<close>

definition replay_control :: "env \<Rightarrow> json \<Rightarrow> replay_data \<Rightarrow> replay_data" where
  "replay_control E update d =
     (let slot_at = position (\<lambda>previous.
            json_eq (json_index previous ''sessionUpdate'') (json_index update ''sessionUpdate'')) (rp_controls d);
          previous = map_option (\<lambda>i. rp_controls d ! i) slot_at;
          previous_bytes = (case previous of Some p \<Rightarrow> serialized_len E p | None \<Rightarrow> 0);
          folded = fold_control_update previous update
      in d\<lparr>rp_control_bytes := sat_add (sat_sub (rp_control_bytes d) previous_bytes) (serialized_len E folded),
           rp_controls := (case slot_at of Some i \<Rightarrow> (rp_controls d)[i := folded]
                           | None \<Rightarrow> rp_controls d @ [folded])\<rparr>)"

text \<open>The body of \<open>ingest\<close>, before its error is recorded.\<close>

definition replay_ingest_record :: "env \<Rightarrow> json \<Rightarrow> bool \<Rightarrow> replay_data
    \<Rightarrow> (string, unit) result \<times> replay_data" where
  "replay_ingest_record E update conversation d =
     (case validate_history_update E (rp_validation d) update of
        (r, validation) \<Rightarrow>
          let d1 = d\<lparr>rp_validation := validation\<rparr> in
          try_in d1 r (\<lambda>_.
            if conversation then
              (case hb_append (serialized_len E) (rp_history d1) update of
                 Ok b \<Rightarrow> (Ok (), d1\<lparr>rp_history := b\<rparr>)
               | Err _ \<Rightarrow> (Err ''Invalid history fold'', d1)
               | Panic \<Rightarrow> (Panic, d1))
            else (Ok (), replay_control E update d1)))"

definition replay_ingest :: "env \<Rightarrow> json \<Rightarrow> bool \<Rightarrow> replay_data
    \<Rightarrow> (string, unit) result \<times> replay_data" where
  "replay_ingest E update conversation d =
     (if rp_sealed d \<or> rp_invalid d \<noteq> None then (Ok (), d)
      else case replay_ingest_record E update conversation d of
             (Err e, d') \<Rightarrow>
               (Err e, d'\<lparr>rp_invalid := Some InvalidReplay,
                          rp_validation := (rp_validation d')\<lparr>sem_invalid_reason := Some e\<rparr>\<rparr>)
           | x \<Rightarrow> x)"

definition replay_poison :: "history_cache_error \<Rightarrow> replay_data \<Rightarrow> replay_data" where
  "replay_poison e d = (case rp_invalid d of Some _ \<Rightarrow> d | None \<Rightarrow> d\<lparr>rp_invalid := Some e\<rparr>)"

definition replay_reject :: "string \<Rightarrow> replay_data \<Rightarrow> replay_data" where
  "replay_reject message d =
     (let d' = replay_poison InvalidReplay d
      in case sem_invalid_reason (rp_validation d') of
           Some _ \<Rightarrow> d'
         | None \<Rightarrow> d'\<lparr>rp_validation := (rp_validation d')\<lparr>sem_invalid_reason := Some message\<rparr>\<rparr>)"

definition replay_seal :: "replay_data \<Rightarrow> replay_data" where
  "replay_seal d = d\<lparr>rp_sealed := True\<rparr>"

definition replay_take_controls :: "replay_data \<Rightarrow> (semantic_state \<times> json list) \<times> replay_data" where
  "replay_take_controls d =
     ((rp_validation d, rp_controls d),
      d\<lparr>rp_control_bytes := 0, rp_validation := semantic_default, rp_controls := []\<rparr>)"

definition replay_take_history :: "replay_data
    \<Rightarrow> (history_cache_error, json list \<times> nat) result \<times> replay_data" where
  "replay_take_history d =
     try_in d (replay_updates d) (\<lambda>_.
       (Ok (hb_updates (rp_history d), max (hb_bytes (rp_history d)) 2),
        d\<lparr>rp_sealed := True, rp_history := hb_default\<rparr>))"

definition replay_discard :: "replay_data \<Rightarrow> replay_data" where
  "replay_discard d = replay_default\<lparr>rp_sealed := True, rp_invalid := Some InvalidReplay,
     rp_validation := semantic_default\<lparr>sem_invalid_reason := Some ''History replay was discarded''\<rparr>\<rparr>"

section \<open>Facts\<close>

text \<open>
  While a replay is valid its builder satisfies the builder's invariant; this holds whatever is
  appended, since a record that does not fold poisons the replay and leaves the builder alone.
\<close>

definition replay_inv :: "env \<Rightarrow> replay_data \<Rightarrow> bool" where
  "replay_inv E d \<longleftrightarrow> hb_inv (rp_history d) \<and> hb_bytes_ok (serialized_len E) (rp_history d)"

lemma replay_default_inv [simp]: "replay_inv E replay_default"
  by (simp add: replay_inv_def replay_default_def hb_inv_default hb_bytes_ok_default)

lemma hb_append_keeps:
  assumes "hb_inv b" "hb_bytes_ok js b" "json_wf u"
  shows "hb_append js b u \<noteq> Panic"
    and "hb_append js b u = Ok b' \<Longrightarrow> hb_inv b' \<and> hb_bytes_ok js b' \<and>
           fold_history_update (hb_updates b) u = Ok (hb_updates b')"
  using hb_append_step [OF assms] by (auto split: result.splits)

lemma replay_append_inv:
  assumes "replay_inv E d" "json_wf u"
  shows "replay_inv E (snd (replay_append E u d)) \<and> fst (replay_append E u d) \<noteq> Panic"
  using assms hb_append_keeps [of "rp_history d" "serialized_len E" u]
  by (cases "rp_invalid d")
     (auto simp: replay_append_def replay_updates_def replay_inv_def split: result.splits)

lemma replay_control_history [simp]:
  "rp_history (replay_control E u d) = rp_history d"
  "rp_invalid (replay_control E u d) = rp_invalid d"
  "rp_sealed (replay_control E u d) = rp_sealed d"
  by (simp_all add: replay_control_def Let_def)

lemma replay_ingest_inv:
  assumes "replay_inv E d" "json_wf u"
  shows "replay_inv E (snd (replay_ingest E u conv d))"
proof -
  obtain r v where v: "validate_history_update E (rp_validation d) u = (r, v)"
    by (cases "validate_history_update E (rp_validation d) u")
  show ?thesis
    using assms hb_append_keeps [of "rp_history d" "serialized_len E" u] v
    by (cases r)
       (auto simp: replay_ingest_def replay_ingest_record_def replay_inv_def Let_def split: result.splits)
qed

lemma replay_other_inv [simp]:
  "replay_inv E d \<Longrightarrow> replay_inv E (replay_poison e d)"
  "replay_inv E d \<Longrightarrow> replay_inv E (replay_reject msg d)"
  "replay_inv E d \<Longrightarrow> replay_inv E (replay_seal d)"
  "replay_inv E d \<Longrightarrow> replay_inv E (snd (replay_take_controls d))"
  "replay_inv E (replay_discard d)"
  by (auto simp: replay_inv_def replay_poison_def replay_reject_def replay_seal_def Let_def
      replay_take_controls_def replay_discard_def replay_default_def hb_inv_default hb_bytes_ok_default
      split: option.splits)

lemma replay_take_history_inv:
  "replay_inv E d \<Longrightarrow> replay_inv E (snd (replay_take_history d))"
  by (auto simp: replay_take_history_def replay_updates_def replay_inv_def hb_inv_default
      hb_bytes_ok_default split: option.splits)

text \<open>A poisoned replay stays poisoned, a sealed one stays sealed and inert.\<close>

lemma replay_invalid_sticky:
  assumes "rp_invalid d = Some e"
  shows "rp_invalid (snd (replay_append E u d)) = Some e"
    "rp_invalid (snd (replay_ingest E u conv d)) = Some e"
    "rp_invalid (replay_poison e' d) = Some e" "rp_invalid (replay_reject msg d) = Some e"
    "rp_invalid (replay_seal d) = Some e" "rp_invalid (snd (replay_take_controls d)) = Some e"
    "replay_take_history d = (Err e, d)"
  using assms
  by (auto simp: replay_append_def replay_updates_def replay_ingest_def replay_poison_def
      replay_reject_def replay_seal_def replay_take_controls_def replay_take_history_def Let_def
      split: option.splits)

lemma replay_sealed_inert:
  assumes "rp_sealed d"
  shows "replay_append E u d = (Err AttemptMismatch, d)" "replay_ingest E u conv d = (Ok (), d)"
  using assms by (simp_all add: replay_append_def replay_ingest_def)

end
