(* ===== verification/History_Cache.thy ===== *)
theory History_Cache
  imports History_Replay
begin

text \<open>
  The cache of committed histories (\<open>src/src/history_cache.rs\<close>): one snapshot and at most one load
  candidate per session incarnation. A candidate's replay is shared with the load that fills it, so
  the replays live in a store of cells (\<open>hc_cells\<close>) that the candidates and the loads point into;
  a cell stays when its candidate is gone, as the load may still hold it. The test-only observer
  counts and statistics are left out.
\<close>

datatype session_key = SessionKey string u64

record history_snapshot =
  hs_revision :: string
  hs_updates :: "json list"
  hs_bytes :: nat
  hs_digest :: digest

record history_entry =
  he_snapshot :: history_snapshot
  he_last_used :: u64

record load_candidate =
  ca_attempt_id :: string
  ca_replay :: nat

record history_cache =
  hc_epoch :: string
  hc_next_generation :: u64
  hc_clock :: u64
  hc_entries :: "(session_key, history_entry) hash_map"
  hc_candidates :: "(session_key, load_candidate) hash_map"
  hc_snapshot_bytes :: nat
  hc_cells :: "(nat, replay_data) hash_map"
  hc_next_cell :: nat

section \<open>Revisions\<close>

text \<open>\<open>format!("{}", n)\<close> of an unsigned number.\<close>

fun decimal :: "nat \<Rightarrow> string" where
  "decimal n = (if n < 10 then [char_of (48 + n)] else decimal (n div 10) @ [char_of (48 + n mod 10)])"

declare decimal.simps [simp del]

definition format_revision :: "string \<Rightarrow> u64 \<Rightarrow> u64 \<Rightarrow> string" where
  "format_revision epoch incarnation generation =
     epoch @ '':'' @ decimal (unat incarnation) @ '':'' @ decimal (unat generation)"

section \<open>Operations\<close>

definition cache_new :: "string \<Rightarrow> history_cache" where
  "cache_new epoch = \<lparr>hc_epoch = epoch, hc_next_generation = 0, hc_clock = 0, hc_entries = [],
     hc_candidates = [], hc_snapshot_bytes = 0, hc_cells = [], hc_next_cell = 0\<rparr>"

definition cache_drop_entry :: "session_key \<Rightarrow> history_cache \<Rightarrow> history_cache" where
  "cache_drop_entry key c =
     (case hm_get (hc_entries c) key of
        Some e \<Rightarrow> c\<lparr>hc_entries := hm_remove key (hc_entries c),
                   hc_snapshot_bytes := sat_sub (hc_snapshot_bytes c) (hs_bytes (he_snapshot e))\<rparr>
      | None \<Rightarrow> c)"

fun key_incarnation :: "session_key \<Rightarrow> u64" where
  "key_incarnation (SessionKey sid inc) = inc"

definition install_snapshot :: "env \<Rightarrow> session_key \<Rightarrow> json list \<Rightarrow> nat \<Rightarrow> history_cache
    \<Rightarrow> history_snapshot \<times> history_cache" where
  "install_snapshot E key updates bytes c0 =
     (let c = cache_drop_entry key c0;
          generation = next_revision (hc_next_generation c);
          clock = next_revision (hc_clock c);
          snapshot = \<lparr>hs_revision = format_revision (hc_epoch c) (key_incarnation key) generation,
                      hs_updates = updates, hs_bytes = bytes,
                      hs_digest = env_sha256 E (env_to_vec E (JArr updates))\<rparr>
      in (snapshot,
          c\<lparr>hc_next_generation := generation, hc_clock := clock,
            hc_snapshot_bytes := sat_add (hc_snapshot_bytes c) bytes,
            hc_entries := hm_insert key \<lparr>he_snapshot = snapshot, he_last_used = clock\<rparr> (hc_entries c)\<rparr>))"

definition install_empty :: "env \<Rightarrow> session_key \<Rightarrow> history_cache \<Rightarrow> history_snapshot \<times> history_cache" where
  "install_empty E key c = install_snapshot E key [] 2 c"

definition cache_snapshot :: "session_key \<Rightarrow> history_cache \<Rightarrow> history_snapshot option \<times> history_cache" where
  "cache_snapshot key c0 =
     (let c = c0\<lparr>hc_clock := next_revision (hc_clock c0)\<rparr>
      in case hm_get (hc_entries c) key of
           None \<Rightarrow> (None, c)
         | Some e \<Rightarrow> (Some (he_snapshot e),
             c\<lparr>hc_entries := hm_insert key (e\<lparr>he_last_used := hc_clock c\<rparr>) (hc_entries c)\<rparr>))"

definition cache_peek :: "session_key \<Rightarrow> history_cache \<Rightarrow> history_snapshot option" where
  "cache_peek key c = map_option he_snapshot (hm_get (hc_entries c) key)"

text \<open>The handle of a candidate's replay, for the attempt that owns it.\<close>

definition cache_candidate :: "session_key \<Rightarrow> string \<Rightarrow> history_cache \<Rightarrow> (history_cache_error, nat) result" where
  "cache_candidate key attempt_id c =
     res_bind (ok_or CandidateMissing (hm_get (hc_candidates c) key)) (\<lambda>candidate.
       if ca_attempt_id candidate \<noteq> attempt_id then Err AttemptMismatch else Ok (ca_replay candidate))"

text \<open>Reading and writing the replay behind a handle. A handle always has a cell.\<close>

definition cell_get :: "nat \<Rightarrow> history_cache \<Rightarrow> replay_data" where
  "cell_get h c = (case hm_get (hc_cells c) h of Some d \<Rightarrow> d | None \<Rightarrow> replay_default)"

definition cell_set :: "nat \<Rightarrow> replay_data \<Rightarrow> history_cache \<Rightarrow> history_cache" where
  "cell_set h d c = c\<lparr>hc_cells := hm_insert h d (hc_cells c)\<rparr>"

definition cell_call :: "nat \<Rightarrow> (replay_data \<Rightarrow> ('e, 'a) result \<times> replay_data) \<Rightarrow> history_cache
    \<Rightarrow> ('e, 'a) result \<times> history_cache" where
  "cell_call h f c = (case f (cell_get h c) of (r, d) \<Rightarrow> (r, cell_set h d c))"

definition begin_candidate :: "session_key \<Rightarrow> string \<Rightarrow> history_cache
    \<Rightarrow> (history_cache_error, unit) result \<times> history_cache" where
  "begin_candidate key attempt_id c =
     (if hm_get (hc_candidates c) key \<noteq> None then (Err CandidateExists, c)
      else (Ok (),
        c\<lparr>hc_candidates := hm_insert key \<lparr>ca_attempt_id = attempt_id, ca_replay = hc_next_cell c\<rparr>
             (hc_candidates c),
          hc_cells := hm_insert (hc_next_cell c) replay_default (hc_cells c),
          hc_next_cell := Suc (hc_next_cell c)\<rparr>))"

definition append_candidate :: "env \<Rightarrow> session_key \<Rightarrow> string \<Rightarrow> json \<Rightarrow> history_cache
    \<Rightarrow> (history_cache_error, unit) result \<times> history_cache" where
  "append_candidate E key attempt_id update c =
     try_in c (cache_candidate key attempt_id c) (\<lambda>h. cell_call h (replay_append E update) c)"

definition poison_candidate :: "session_key \<Rightarrow> string \<Rightarrow> history_cache_error \<Rightarrow> history_cache
    \<Rightarrow> (history_cache_error, unit) result \<times> history_cache" where
  "poison_candidate key attempt_id e c =
     try_in c (cache_candidate key attempt_id c) (\<lambda>h. (Ok (), cell_set h (replay_poison e (cell_get h c)) c))"

definition commit_candidate :: "env \<Rightarrow> session_key \<Rightarrow> string \<Rightarrow> history_cache
    \<Rightarrow> (history_cache_error, history_snapshot) result \<times> history_cache" where
  "commit_candidate E key attempt_id c =
     try_in c (cache_candidate key attempt_id c) (\<lambda>h.
     call_then (cell_call h replay_take_history c) (\<lambda>(updates, bytes) c1.
       case install_snapshot E key updates bytes (c1\<lparr>hc_candidates := hm_remove key (hc_candidates c1)\<rparr>) of
         (snapshot, c2) \<Rightarrow> (Ok snapshot, c2)))"

definition append_committed_updates :: "env \<Rightarrow> session_key \<Rightarrow> json list \<Rightarrow> history_cache
    \<Rightarrow> (history_cache_error, history_snapshot) result \<times> history_cache" where
  "append_committed_updates E key suffix c =
     try_in c (ok_or InvalidReplay (cache_peek key c)) (\<lambda>previous.
     try_in c (map_err (\<lambda>_. InvalidReplay) (fold_history_updates (hs_updates previous) suffix)) (\<lambda>updates.
       case install_snapshot E key updates (serialized_len E (JArr updates)) c of
         (snapshot, c') \<Rightarrow> (Ok snapshot, c')))"

definition abort_candidate :: "session_key \<Rightarrow> string \<Rightarrow> history_cache
    \<Rightarrow> (history_cache_error, unit) result \<times> history_cache" where
  "abort_candidate key attempt_id c =
     try_in c (cache_candidate key attempt_id c) (\<lambda>h.
       let c1 = cell_set h (replay_discard (cell_get h c)) c
       in (Ok (), c1\<lparr>hc_candidates := hm_remove key (hc_candidates c1)\<rparr>))"

definition cache_remove :: "session_key \<Rightarrow> history_cache \<Rightarrow> history_cache" where
  "cache_remove key c0 =
     (let c = cache_drop_entry key c0
      in case hm_get (hc_candidates c) key of
           None \<Rightarrow> c
         | Some candidate \<Rightarrow>
             cell_set (ca_replay candidate) (replay_discard (cell_get (ca_replay candidate) c))
               (c\<lparr>hc_candidates := hm_remove key (hc_candidates c)\<rparr>))"

section \<open>Revisions are fresh\<close>

lemma decimal_digits: "c \<in> set (decimal n) \<Longrightarrow> c \<noteq> CHR '':''"
proof (induction n rule: decimal.induct)
  case (1 n)
  have d: "char_of (48 + m) \<noteq> CHR '':''" if "m < 10" for m :: nat
  proof
    assume "char_of (48 + m) = CHR '':''"
    then have "(of_char (char_of (48 + m) :: char) :: nat) = of_char CHR '':''" by simp
    with that show False by simp
  qed
  show ?case
  proof (cases "n < 10")
    case True
    with 1 d show ?thesis by (simp add: decimal.simps [of n])
  next
    case False
    with 1 d [of "n mod 10"] show ?thesis by (auto simp: decimal.simps [of n])
  qed
qed

fun parse_decimal :: "string \<Rightarrow> nat" where
  "parse_decimal s = foldl (\<lambda>a c. 10 * a + (of_char c - 48)) 0 s"

lemma parse_decimal: "parse_decimal (decimal n) = n"
proof (induction n rule: decimal.induct)
  case (1 n)
  have d: "(of_char (char_of (48 + m) :: char) :: nat) - 48 = m" if "m < 10" for m :: nat
    using that by simp
  show ?case
  proof (cases "n < 10")
    case True
    with d show ?thesis by (simp add: decimal.simps [of n])
  next
    case False
    with 1 d [of "n mod 10"] show ?thesis by (simp add: decimal.simps [of n])
  qed
qed

lemma decimal_inject: "decimal m = decimal n \<longleftrightarrow> m = n"
  by (metis parse_decimal)

lemma format_revision_inject:
  "format_revision epoch i g = format_revision epoch i' g' \<longleftrightarrow> i = i' \<and> g = g'"
proof
  assume "format_revision epoch i g = format_revision epoch i' g'"
  then have e: "decimal (unat i) @ CHR '':'' # decimal (unat g)
      = decimal (unat i') @ CHR '':'' # decimal (unat g')"
    by (simp add: format_revision_def)
  have t: "takeWhile (\<lambda>c. c \<noteq> CHR '':'') (decimal n @ CHR '':'' # x) = decimal n" for n x
    using decimal_digits [of _ n] by (subst takeWhile_append2) auto
  have "decimal (unat i) = decimal (unat i')"
    using arg_cong [OF e, of "takeWhile (\<lambda>c. c \<noteq> CHR '':'')"] by (simp only: t)
  with e have "decimal (unat g) = decimal (unat g')" by simp
  with \<open>decimal (unat i) = decimal (unat i')\<close> show "i = i' \<and> g = g'"
    by (simp add: decimal_inject word_unat_eq_iff)
qed simp

section \<open>The invariant of the cache\<close>

definition entry_bytes :: "history_entry \<Rightarrow> nat" where
  "entry_bytes e = hs_bytes (he_snapshot e)"

definition entries_bytes :: "(session_key, history_entry) hash_map \<Rightarrow> nat" where
  "entries_bytes m = sum_list (map (\<lambda>e. entry_bytes (snd e)) m)"

text \<open>A normalized history: what some sequence of updates folds to.\<close>

definition normalized :: "json list \<Rightarrow> bool" where
  "normalized us \<longleftrightarrow> (\<exists>b. hb_inv b \<and> hb_updates b = us)"

definition snapshot_ok :: "env \<Rightarrow> history_snapshot \<Rightarrow> bool" where
  "snapshot_ok E sn \<longleftrightarrow> normalized (hs_updates sn) \<and>
     hs_bytes sn = array_bytes (serialized_len E) (hs_updates sn) \<and>
     hs_digest sn = env_sha256 E (env_to_vec E (JArr (hs_updates sn)))"

definition entry_fresh :: "history_cache \<Rightarrow> session_key \<Rightarrow> history_entry \<Rightarrow> bool" where
  "entry_fresh c key e \<longleftrightarrow>
     (\<exists>g. g \<le> hc_next_generation c \<and>
        hs_revision (he_snapshot e) = format_revision (hc_epoch c) (key_incarnation key) g)"

definition cells_ok :: "env \<Rightarrow> history_cache \<Rightarrow> bool" where
  "cells_ok E c \<longleftrightarrow>
     (\<forall>h d. hm_get (hc_cells c) h = Some d \<longrightarrow> h < hc_next_cell c \<and> replay_inv E d) \<and>
     (\<forall>key ca. hm_get (hc_candidates c) key = Some ca \<longrightarrow> hm_get (hc_cells c) (ca_replay ca) \<noteq> None) \<and>
     (\<forall>key ca key' ca'. hm_get (hc_candidates c) key = Some ca \<longrightarrow> hm_get (hc_candidates c) key' = Some ca' \<longrightarrow>
        ca_replay ca = ca_replay ca' \<longrightarrow> key = key')"

definition cache_inv :: "env \<Rightarrow> history_cache \<Rightarrow> bool" where
  "cache_inv E c \<longleftrightarrow>
     hm_wf (hc_entries c) \<and> hm_wf (hc_candidates c) \<and>
     hc_snapshot_bytes c = entries_bytes (hc_entries c) \<and>
     (\<forall>key e. hm_get (hc_entries c) key = Some e \<longrightarrow> entry_fresh c key e \<and> snapshot_ok E (he_snapshot e)) \<and>
     cells_ok E c"

lemma cache_new_inv: "cache_inv E (cache_new epoch)"
  by (simp add: cache_inv_def cache_new_def hm.wf_nil hm.get_nil entries_bytes_def cells_ok_def)

lemma drop_entry_keeps:
  "hc_candidates (cache_drop_entry key c) = hc_candidates c"
  "hc_cells (cache_drop_entry key c) = hc_cells c"
  "hc_next_cell (cache_drop_entry key c) = hc_next_cell c"
  "hc_next_generation (cache_drop_entry key c) = hc_next_generation c"
  "hc_clock (cache_drop_entry key c) = hc_clock c"
  "hc_epoch (cache_drop_entry key c) = hc_epoch c"
  by (simp_all add: cache_drop_entry_def split: option.split)

lemma drop_entry_get:
  "hm_get (hc_entries (cache_drop_entry key c)) k = (if k = key then None else hm_get (hc_entries c) k)"
  by (auto simp: cache_drop_entry_def hm.get_del split: option.split)

lemma drop_entry_inv:
  assumes "cache_inv E c"
  shows "cache_inv E (cache_drop_entry key c)"
proof -
  have wf: "hm_wf (hc_entries (cache_drop_entry key c))"
    using assms by (simp add: cache_inv_def cache_drop_entry_def hm.wf_del split: option.split)
  have "hc_snapshot_bytes (cache_drop_entry key c) = entries_bytes (hc_entries (cache_drop_entry key c))"
  proof (cases "hm_get (hc_entries c) key")
    case None
    with assms show ?thesis by (simp add: cache_drop_entry_def cache_inv_def)
  next
    case (Some e)
    with assms hm.sum_del [of "hc_entries c" key e entry_bytes] show ?thesis
      by (simp add: cache_drop_entry_def cache_inv_def sat_sub_def entries_bytes_def entry_bytes_def)
  qed
  with assms wf show ?thesis
    by (auto simp: cache_inv_def drop_entry_keeps drop_entry_get entry_fresh_def cells_ok_def)
qed

text \<open>Installing a snapshot keeps the invariant while the counters stay in range.\<close>

lemma install_snapshot_inv:
  assumes inv: "cache_inv E c" and us: "normalized updates"
    and b: "bytes = array_bytes (serialized_len E) updates"
    and gen: "unat (hc_next_generation c) < 2 ^ 64 - 1"
    and fit: "hc_snapshot_bytes c + bytes \<le> usize_max"
    and res: "install_snapshot E key updates bytes c = (sn, c')"
  shows "cache_inv E c'"
proof -
  let ?d = "cache_drop_entry key c"
  have d: "cache_inv E ?d" by (rule drop_entry_inv [OF inv])
  have le: "hc_snapshot_bytes ?d \<le> hc_snapshot_bytes c"
    by (simp add: cache_drop_entry_def sat_sub_def split: option.split)
  have c': "c' = ?d\<lparr>hc_next_generation := next_revision (hc_next_generation c),
      hc_clock := next_revision (hc_clock c),
      hc_snapshot_bytes := sat_add (hc_snapshot_bytes ?d) bytes,
      hc_entries := hm_insert key \<lparr>he_snapshot = sn, he_last_used = next_revision (hc_clock c)\<rparr> (hc_entries ?d)\<rparr>"
    and sn: "sn = \<lparr>hs_revision = format_revision (hc_epoch c) (key_incarnation key)
        (next_revision (hc_next_generation c)), hs_updates = updates, hs_bytes = bytes,
        hs_digest = env_sha256 E (env_to_vec E (JArr updates))\<rparr>"
    using res by (auto simp: install_snapshot_def Let_def drop_entry_keeps)
  have bytes: "hc_snapshot_bytes c' = entries_bytes (hc_entries c')"
    using d fit le sat_add_exact [of "hc_snapshot_bytes ?d" bytes]
      hm.sum_put_new [of "hc_entries ?d" key entry_bytes
        "\<lparr>he_snapshot = sn, he_last_used = next_revision (hc_clock c)\<rparr>"]
    by (simp add: c' cache_inv_def entries_bytes_def drop_entry_get entry_bytes_def sn)
  have grow: "hc_next_generation c \<le> next_revision (hc_next_generation c)"
    using unat_next_revision [OF gen] by (simp add: word_le_nat_alt)
  have "entry_fresh c' k e" if "entry_fresh ?d k e" for k e
    using that order_trans [OF _ grow] by (auto simp: entry_fresh_def c' drop_entry_keeps)
  moreover have "entry_fresh c' key \<lparr>he_snapshot = sn, he_last_used = next_revision (hc_clock c)\<rparr>"
    by (auto simp: entry_fresh_def c' sn drop_entry_keeps)
  ultimately have ent: "\<forall>k e. hm_get (hc_entries c') k = Some e \<longrightarrow> entry_fresh c' k e \<and> snapshot_ok E (he_snapshot e)"
    using d us b by (auto simp: c' hm.get_put cache_inv_def snapshot_ok_def sn split: if_splits)
  have "cells_ok E c'"
    using d by (simp add: c' cache_inv_def cells_ok_def)
  with bytes ent d show ?thesis
    by (simp add: c' cache_inv_def hm.wf_put)
qed

lemma install_snapshot_gets:
  assumes "install_snapshot E key updates bytes c = (sn, c')"
  shows "cache_peek key c' = Some sn" "k \<noteq> key \<Longrightarrow> cache_peek k c' = cache_peek k c"
    "hc_candidates c' = hc_candidates c" "hc_cells c' = hc_cells c" "hc_next_cell c' = hc_next_cell c"
    "hs_updates sn = updates" "hs_bytes sn = bytes"
  using assms by (auto simp: install_snapshot_def Let_def drop_entry_keeps drop_entry_get cache_peek_def hm.get_put)

lemma install_snapshot_fresh:
  assumes "cache_inv E c" "unat (hc_next_generation c) < 2 ^ 64 - 1"
    and "install_snapshot E key updates bytes c = (sn, c')" "cache_peek k c = Some old"
  shows "hs_revision sn \<noteq> hs_revision old"
proof -
  obtain e where e: "hm_get (hc_entries c) k = Some e" "old = he_snapshot e"
    using assms(4) by (auto simp: cache_peek_def)
  with assms(1) obtain g where g: "g \<le> hc_next_generation c"
    "hs_revision old = format_revision (hc_epoch c) (key_incarnation k) g"
    by (auto simp: cache_inv_def entry_fresh_def)
  moreover have "hs_revision sn = format_revision (hc_epoch c) (key_incarnation key)
      (next_revision (hc_next_generation c))"
    using assms(3) by (auto simp: install_snapshot_def Let_def drop_entry_keeps)
  moreover have "unat g < unat (next_revision (hc_next_generation c))"
    using unat_next_revision [OF assms(2)] g(1) by (simp add: word_le_nat_alt)
  ultimately show ?thesis by (auto simp: format_revision_inject)
qed

section \<open>Steps of the cache and of its replays\<close>

text \<open>What can happen to one replay.\<close>

inductive replay_move :: "env \<Rightarrow> replay_data \<Rightarrow> replay_data \<Rightarrow> bool" for E where
  move_stay: "replay_move E d d"
| move_append: "json_wf u \<Longrightarrow> replay_move E d (snd (replay_append E u d))"
| move_ingest: "json_wf u \<Longrightarrow> replay_move E d (snd (replay_ingest E u conv d))"
| move_poison: "replay_move E d (replay_poison e d)"
| move_reject: "replay_move E d (replay_reject msg d)"
| move_seal: "replay_move E d (replay_seal d)"
| move_controls: "replay_move E d (snd (replay_take_controls d))"
| move_take: "replay_move E d (snd (replay_take_history d))"
| move_discard: "replay_move E d (replay_discard d)"

lemma replay_move_invalid: "replay_move E d d' \<Longrightarrow> rp_invalid d \<noteq> None \<Longrightarrow> rp_invalid d' \<noteq> None"
  by (induction rule: replay_move.induct)
     (auto simp: replay_invalid_sticky replay_discard_def replay_poison_def replay_reject_def Let_def
        split: option.splits)

lemma replay_move_sealed: "replay_move E d d' \<Longrightarrow> rp_sealed d \<Longrightarrow> rp_sealed d'"
  by (induction rule: replay_move.induct)
     (auto simp: replay_sealed_inert replay_discard_def replay_poison_def replay_reject_def replay_seal_def
        replay_take_controls_def replay_take_history_def replay_updates_def Let_def split: option.splits)

text \<open>
  One step of the cache under its operations, and of the replays under the loads that hold their
  handles. Rejected operations are steps too.
\<close>

inductive cache_step :: "env \<Rightarrow> history_cache \<Rightarrow> history_cache \<Rightarrow> bool" for E where
  cs_begin: "begin_candidate key a c = (r, c') \<Longrightarrow> cache_step E c c'"
| cs_append: "json_wf u \<Longrightarrow> append_candidate E key a u c = (r, c') \<Longrightarrow> cache_step E c c'"
| cs_poison: "poison_candidate key a e c = (r, c') \<Longrightarrow> cache_step E c c'"
| cs_commit: "commit_candidate E key a c = (r, c') \<Longrightarrow> cache_step E c c'"
| cs_abort: "abort_candidate key a c = (r, c') \<Longrightarrow> cache_step E c c'"
| cs_remove: "cache_step E c (cache_remove key c)"
| cs_snapshot: "cache_snapshot key c = (r, c') \<Longrightarrow> cache_step E c c'"
| cs_empty: "install_empty E key c = (sn, c') \<Longrightarrow> cache_step E c c'"
| cs_committed: "\<forall>u \<in> set us. json_wf u \<Longrightarrow> append_committed_updates E key us c = (r, c') \<Longrightarrow> cache_step E c c'"
| cs_handle: "hm_get (hc_cells c) h \<noteq> None \<Longrightarrow> replay_move E (cell_get h c) d \<Longrightarrow>
     cache_step E c (cell_set h d c)"

lemma cell_get_set: "cell_get h (cell_set h' d c) = (if h = h' then d else cell_get h c)"
  by (simp add: cell_get_def cell_set_def hm.get_put)

lemma cell_set_fields [simp]:
  "hc_entries (cell_set h d c) = hc_entries c" "hc_candidates (cell_set h d c) = hc_candidates c"
  "hc_next_cell (cell_set h d c) = hc_next_cell c" "hc_epoch (cell_set h d c) = hc_epoch c"
  "hc_next_generation (cell_set h d c) = hc_next_generation c"
  "hc_snapshot_bytes (cell_set h d c) = hc_snapshot_bytes c"
  by (simp_all add: cell_set_def)

lemma cell_get_cells: "hc_cells c' = hc_cells c \<Longrightarrow> cell_get h c' = cell_get h c"
  by (simp add: cell_get_def)

lemma cells_set: "hm_get (hc_cells (cell_set h' d c)) h = (if h = h' then Some d else hm_get (hc_cells c) h)"
  by (simp add: cell_set_def hm.get_put)

lemma cell_call_moves:
  assumes "\<And>d. replay_move E d (snd (f d))" "hm_get (hc_cells c) h \<noteq> None"
  shows "replay_move E (cell_get h c) (cell_get h (snd (cell_call h' f c))) \<and>
    hm_get (hc_cells (snd (cell_call h' f c))) h \<noteq> None"
  using assms(2) assms(1) [of "cell_get h c"]
  by (cases "f (cell_get h' c)")
     (auto simp: cell_call_def cell_get_set cells_set intro: move_stay)

lemma cache_step_moves:
  assumes "cache_step E c c'" "cells_ok E c" "hm_get (hc_cells c) h \<noteq> None"
  shows "replay_move E (cell_get h c) (cell_get h c') \<and> hm_get (hc_cells c') h \<noteq> None"
proof -
  have old: "h \<noteq> hc_next_cell c" using assms(2,3) by (auto simp: cells_ok_def)
  show ?thesis
    using assms(1)
  proof (cases rule: cache_step.cases)
    case (cs_begin key a r)
    with old assms(3) show ?thesis
      by (auto simp: begin_candidate_def cell_get_def hm.get_put split: if_splits intro: move_stay)
  next
    case (cs_append u key a r)
    show ?thesis
    proof (cases "cache_candidate key a c")
      case (Ok h')
      with cs_append have "c' = snd (cell_call h' (replay_append E u) c)"
        by (simp add: append_candidate_def)
      with cell_call_moves [where f = "replay_append E u" and h' = h', OF move_append [OF cs_append(1)] assms(3)] show ?thesis by simp
    qed (use cs_append assms(3) in \<open>simp_all add: append_candidate_def move_stay\<close>)
  next
    case (cs_poison key a e r)
    with assms(3) show ?thesis
      by (auto simp: poison_candidate_def try_in_def cell_get_set cells_set
          split: result.splits intro: replay_move.intros)
  next
    case (cs_commit key a r)
    have m: "replay_move E (cell_get h c) (cell_get h (snd (cell_call h' replay_take_history c))) \<and>
        hm_get (hc_cells (snd (cell_call h' replay_take_history c))) h \<noteq> None" for h'
      by (rule cell_call_moves [OF move_take assms(3)])
    show ?thesis
    proof (cases "cache_candidate key a c")
      case (Ok h')
      obtain r1 c1 where k: "cell_call h' replay_take_history c = (r1, c1)"
        by (cases "cell_call h' replay_take_history c")
      show ?thesis
      proof (cases r1)
        case ok: (Ok p)
        obtain us n where p: "p = (us, n)" by (cases p)
        obtain sn c2 where i: "install_snapshot E key us n (c1\<lparr>hc_candidates := hm_remove key (hc_candidates c1)\<rparr>) = (sn, c2)"
          by (cases "install_snapshot E key us n (c1\<lparr>hc_candidates := hm_remove key (hc_candidates c1)\<rparr>)")
        from install_snapshot_gets(4) [OF i] have "hc_cells c2 = hc_cells c1" by simp
        moreover have "c' = c2" using cs_commit Ok k ok p i by (simp add: commit_candidate_def)
        ultimately show ?thesis using m [of h'] k by (simp add: cell_get_def)
      qed (use cs_commit Ok k m [of h'] in \<open>simp_all add: commit_candidate_def\<close>)
    qed (use cs_commit assms(3) in \<open>simp_all add: commit_candidate_def move_stay\<close>)
  next
    case (cs_abort key a r)
    with assms(3) show ?thesis
      by (auto simp: abort_candidate_def try_in_def Let_def cell_get_def cell_set_def hm.get_put
          move_stay move_discard split: result.splits)
  next
    case (cs_remove key)
    with assms(3) show ?thesis
      by (auto simp: cache_remove_def Let_def drop_entry_keeps cell_get_def cell_set_def hm.get_put
          move_stay move_discard split: option.splits)
  next
    case (cs_snapshot key r)
    with assms(3) show ?thesis
      by (auto simp: cache_snapshot_def Let_def cell_get_def split: option.splits intro: move_stay)
  next
    case (cs_empty key sn)
    from install_snapshot_gets(4) [OF this [unfolded install_empty_def]] assms(3) show ?thesis
      by (simp add: cell_get_def move_stay)
  next
    case (cs_committed us key r)
    have "hc_cells c' = hc_cells c"
      using cs_committed install_snapshot_gets(4)
      by (auto simp: append_committed_updates_def try_in_def split: result.splits prod.splits)
    with assms(3) show ?thesis by (simp add: cell_get_def move_stay)
  next
    case (cs_handle h' d)
    with assms(3) show ?thesis by (auto simp: cell_get_set cells_set intro: move_stay)
  qed
qed

lemma replay_move_inv: "replay_move E d d' \<Longrightarrow> replay_inv E d \<Longrightarrow> replay_inv E d'"
  by (induction rule: replay_move.induct)
     (simp_all add: replay_append_inv replay_ingest_inv replay_take_history_inv)

lemma cells_ok_set:
  "cells_ok E c \<Longrightarrow> hm_get (hc_cells c) h \<noteq> None \<Longrightarrow> replay_inv E d \<Longrightarrow> cells_ok E (cell_set h d c)"
  by (auto simp: cells_ok_def cells_set)

lemma cells_ok_cong:
  "cells_ok E c \<Longrightarrow> hc_candidates c' = hc_candidates c \<Longrightarrow> hc_cells c' = hc_cells c \<Longrightarrow>
     hc_next_cell c' = hc_next_cell c \<Longrightarrow> cells_ok E c'"
  by (simp add: cells_ok_def)

lemma cells_ok_unload:
  "cells_ok E c \<Longrightarrow> cells_ok E (c\<lparr>hc_candidates := hm_remove key (hc_candidates c)\<rparr>)"
  by (auto simp: cells_ok_def hm.get_del split: if_splits)

lemma cell_inv:
  "cells_ok E c \<Longrightarrow> hm_get (hc_cells c) h \<noteq> None \<Longrightarrow> replay_inv E (cell_get h c)"
  by (auto simp: cells_ok_def cell_get_def)

lemma candidate_cell:
  "cells_ok E c \<Longrightarrow> cache_candidate key a c = Ok h \<Longrightarrow> hm_get (hc_cells c) h \<noteq> None"
  by (auto simp: cells_ok_def cache_candidate_def split: if_splits)

lemma cells_ok_call:
  assumes "cells_ok E c" "hm_get (hc_cells c) h \<noteq> None" "replay_move E (cell_get h c) (snd (f (cell_get h c)))"
  shows "cells_ok E (snd (cell_call h f c))"
  using cells_ok_set [OF assms(1,2) replay_move_inv [OF assms(3) cell_inv [OF assms(1,2)]]]
  by (cases "f (cell_get h c)") (simp add: cell_call_def)

text \<open>What a commit does, on either branch.\<close>

lemma commit_candidate_cases:
  assumes "cache_candidate key a c = Ok h"
  shows "commit_candidate E key a c =
    (case replay_take_history (cell_get h c) of
       (Ok (us, n), d) \<Rightarrow>
         (case install_snapshot E key us n
             ((cell_set h d c)\<lparr>hc_candidates := hm_remove key (hc_candidates c)\<rparr>) of
            (sn, c2) \<Rightarrow> (Ok sn, c2))
     | (Err e, d) \<Rightarrow> (Err e, cell_set h d c)
     | (Panic, d) \<Rightarrow> (Panic, cell_set h d c))"
  using assms
  by (auto simp: commit_candidate_def cell_call_def split: prod.splits result.splits)

lemma cache_step_cells_ok:
  assumes "cache_step E c c'" "cells_ok E c"
  shows "cells_ok E c'"
  using assms(1)
proof (cases rule: cache_step.cases)
  case (cs_begin key a r)
  have old: "h < hc_next_cell c" if "hm_get (hc_cells c) h = Some d" for h d
    using assms(2) that by (auto simp: cells_ok_def)
  have allocated: "\<exists>d. hm_get (hc_cells c) (ca_replay ca) = Some d"
    if "hm_get (hc_candidates c) k = Some ca" for k ca
    using assms(2) that unfolding cells_ok_def by blast
  have fresh: "ca_replay ca \<noteq> hc_next_cell c" if "hm_get (hc_candidates c) k = Some ca" for k ca
    using allocated [OF that] old [of "ca_replay ca"] by auto
  have inj: "k = k'" if "hm_get (hc_candidates c) k = Some ca" "hm_get (hc_candidates c) k' = Some ca'"
      "ca_replay ca = ca_replay ca'" for k k' ca ca'
    using assms(2) that unfolding cells_ok_def by blast
  have inv: "replay_inv E d" if "hm_get (hc_cells c) h = Some d" for h d
    using assms(2) that unfolding cells_ok_def by blast
  show ?thesis
  proof (cases "hm_get (hc_candidates c) key")
    case None
    then have c': "c' = c\<lparr>hc_candidates := hm_insert key \<lparr>ca_attempt_id = a, ca_replay = hc_next_cell c\<rparr>
             (hc_candidates c),
          hc_cells := hm_insert (hc_next_cell c) replay_default (hc_cells c),
          hc_next_cell := Suc (hc_next_cell c)\<rparr>"
      using cs_begin by (auto simp: begin_candidate_def)
    show ?thesis
      unfolding c' cells_ok_def
    proof (intro conjI allI impI)
      show "h < hc_next_cell (c\<lparr>hc_candidates := hm_insert key \<lparr>ca_attempt_id = a, ca_replay = hc_next_cell c\<rparr>
             (hc_candidates c), hc_cells := hm_insert (hc_next_cell c) replay_default (hc_cells c),
             hc_next_cell := Suc (hc_next_cell c)\<rparr>)" "replay_inv E d"
        if "hm_get (hc_cells (c\<lparr>hc_candidates := hm_insert key \<lparr>ca_attempt_id = a, ca_replay = hc_next_cell c\<rparr>
             (hc_candidates c), hc_cells := hm_insert (hc_next_cell c) replay_default (hc_cells c),
             hc_next_cell := Suc (hc_next_cell c)\<rparr>)) h = Some d" for h d
        using that old [of h d] inv [of h d] by (auto simp: hm.get_put split: if_splits)
    qed (use allocated inj in \<open>auto simp: hm.get_put dest: fresh fresh [THEN not_sym] split: if_splits\<close>)
  next
    case (Some ca)
    with cs_begin assms(2) show ?thesis by (auto simp: begin_candidate_def)
  qed
next
  case (cs_append u key a r)
  show ?thesis
  proof (cases "cache_candidate key a c")
    case (Ok h)
    with cs_append have "c' = snd (cell_call h (replay_append E u) c)"
      by (simp add: append_candidate_def)
    with cells_ok_call [OF assms(2) candidate_cell [OF assms(2) Ok], of "replay_append E u"] move_append [OF cs_append(1)]
    show ?thesis by simp
  qed (use cs_append assms(2) in \<open>simp_all add: append_candidate_def\<close>)
next
  case (cs_poison key a e r)
  show ?thesis
  proof (cases "cache_candidate key a c")
    case (Ok h)
    with cs_poison candidate_cell [OF assms(2) Ok] cell_inv [OF assms(2)] assms(2) show ?thesis
      by (auto simp: poison_candidate_def intro!: cells_ok_set)
  qed (use cs_poison assms(2) in \<open>simp_all add: poison_candidate_def\<close>)
next
  case (cs_commit key a r)
  show ?thesis
  proof (cases "cache_candidate key a c")
    case (Ok h)
    obtain t d where t: "replay_take_history (cell_get h c) = (t, d)" by (cases "replay_take_history (cell_get h c)")
    have d: "replay_inv E d"
      using replay_take_history_inv [OF cell_inv [OF assms(2) candidate_cell [OF assms(2) Ok]]] t by simp
    note s = cells_ok_set [OF assms(2) candidate_cell [OF assms(2) Ok] d]
    show ?thesis
    proof (cases t)
      case ok: (Ok p)
      obtain us n where p: "p = (us, n)" by (cases p)
      let ?c1 = "(cell_set h d c)\<lparr>hc_candidates := hm_remove key (hc_candidates c)\<rparr>"
      obtain sn c2 where i: "install_snapshot E key us n ?c1 = (sn, c2)" by (cases "install_snapshot E key us n ?c1")
      have "c' = c2" using cs_commit commit_candidate_cases [OF Ok] t ok p i by simp
      moreover have "cells_ok E ?c1" using cells_ok_unload [OF s, of key] by simp
      ultimately show ?thesis using cells_ok_cong install_snapshot_gets(3-5) [OF i] by metis
    qed (use cs_commit commit_candidate_cases [OF Ok] t s in \<open>simp_all\<close>)
  qed (use cs_commit assms(2) in \<open>simp_all add: commit_candidate_def\<close>)
next
  case (cs_abort key a r)
  show ?thesis
  proof (cases "cache_candidate key a c")
    case (Ok h)
    have "cells_ok E (cell_set h (replay_discard (cell_get h c)) c)"
      using candidate_cell [OF assms(2) Ok] assms(2) by (intro cells_ok_set) simp_all
    from cells_ok_unload [OF this, of key] Ok cs_abort show ?thesis
      by (simp add: abort_candidate_def Let_def)
  qed (use cs_abort assms(2) in \<open>simp_all add: abort_candidate_def\<close>)
next
  case (cs_remove key)
  let ?d = "cache_drop_entry key c"
  have d: "cells_ok E ?d" using assms(2) by (rule cells_ok_cong) (simp_all add: drop_entry_keeps)
  show ?thesis
  proof (cases "hm_get (hc_candidates ?d) key")
    case None
    with d cs_remove show ?thesis by (simp add: cache_remove_def Let_def)
  next
    case (Some ca)
    have "hm_get (hc_cells (?d\<lparr>hc_candidates := hm_remove key (hc_candidates ?d)\<rparr>)) (ca_replay ca) \<noteq> None"
      using d Some by (auto simp: cells_ok_def)
    from cells_ok_set [OF cells_ok_unload [OF d] this] Some cs_remove show ?thesis
      by (simp add: cache_remove_def Let_def)
  qed
next
  case (cs_snapshot key r)
  with assms(2) show ?thesis
    by (auto simp: cache_snapshot_def Let_def split: option.splits intro: cells_ok_cong)
next
  case (cs_empty key sn)
  from install_snapshot_gets(3-5) [OF this [unfolded install_empty_def]] assms(2) show ?thesis
    by (metis cells_ok_cong)
next
  case (cs_committed us key r)
  have "hc_candidates c' = hc_candidates c \<and> hc_cells c' = hc_cells c \<and> hc_next_cell c' = hc_next_cell c"
    using cs_committed install_snapshot_gets(3-5)
    by (fastforce simp: append_committed_updates_def try_in_def split: result.splits prod.splits)
  with assms(2) show ?thesis by (metis cells_ok_cong)
next
  case (cs_handle h d)
  with assms(2) replay_move_inv [OF cs_handle(3) cell_inv [OF assms(2) cs_handle(2)]] show ?thesis
    by (simp add: cells_ok_set)
qed

definition cache_steps :: "env \<Rightarrow> history_cache \<Rightarrow> history_cache \<Rightarrow> bool" where
  "cache_steps E = (cache_step E)\<^sup>*\<^sup>*"

text \<open>A property of one replay that every move keeps holds for good.\<close>

lemma cache_steps_keep:
  assumes "cache_steps E c c'" "cells_ok E c" "hm_get (hc_cells c) h \<noteq> None" "P (cell_get h c)"
    and keep: "\<And>d d'. replay_move E d d' \<Longrightarrow> P d \<Longrightarrow> P d'"
  shows "P (cell_get h c') \<and> cells_ok E c' \<and> hm_get (hc_cells c') h \<noteq> None"
  using assms(1) [unfolded cache_steps_def]
proof (induction rule: rtranclp_induct)
  case base
  with assms show ?case by simp
next
  case (step c1 c2)
  with cache_step_moves [OF step(2)] cache_step_cells_ok [OF step(2)] keep show ?case by blast
qed

lemma hm_insert_same: "hm_get m k = Some v \<Longrightarrow> hm_insert k v m = m"
  unfolding hm_get_def hm_insert_def by (induction m) (auto split: if_splits)

lemma cell_set_get: "hm_get (hc_cells c) h \<noteq> None \<Longrightarrow> cell_set h (cell_get h c) c = c"
  by (auto simp: cell_set_def cell_get_def hm_insert_same)

text \<open>
  (C6) A malformed replay is never published: once the data behind a load's handle is poisoned, no
  matter what any load, the session owner or other sessions do to the cache afterwards, every
  attempt to commit a candidate with that data fails and changes nothing.
\<close>

theorem poisoned_load_never_publishes:
  assumes "cells_ok E c" "hm_get (hc_cells c) h \<noteq> None" "rp_invalid (cell_get h c) \<noteq> None"
    and "cache_steps E c c'" "cache_candidate key attempt c' = Ok h"
  shows "\<exists>e. commit_candidate E key attempt c' = (Err e, c')"
proof -
  have k: "rp_invalid (cell_get h c') \<noteq> None \<and> cells_ok E c' \<and> hm_get (hc_cells c') h \<noteq> None"
    by (rule cache_steps_keep [where P = "\<lambda>d. rp_invalid d \<noteq> None", OF assms(4,1,2,3)])
       (rule replay_move_invalid)
  then obtain e where "rp_invalid (cell_get h c') = Some e" by blast
  with commit_candidate_cases [OF assms(5)] k show ?thesis
    by (simp add: replay_invalid_sticky cell_set_get)
qed

definition sample_load :: history_cache where
  "sample_load = snd (poison_candidate (SessionKey ''s'' 1) ''a'' InvalidReplay
     (snd (begin_candidate (SessionKey ''s'' 1) ''a'' (cache_new ''e''))))"

lemma sample_load_eq:
  "sample_load = \<lparr>hc_epoch = ''e'', hc_next_generation = 0, hc_clock = 0, hc_entries = [],
     hc_candidates = [(SessionKey ''s'' 1, \<lparr>ca_attempt_id = ''a'', ca_replay = 0\<rparr>)], hc_snapshot_bytes = 0,
     hc_cells = [(0, replay_poison InvalidReplay replay_default)], hc_next_cell = 1\<rparr>"
  by (simp add: sample_load_def begin_candidate_def poison_candidate_def cache_candidate_def cache_new_def
      hm_get_def hm_insert_def cell_get_def cell_set_def)

lemma sample_load_ok: "cells_ok E sample_load"
  by (auto simp: sample_load_eq cells_ok_def hm_get_def split: if_splits)

lemma poisoned_load_never_publishes_witness:
  "\<exists>e. commit_candidate sample_env (SessionKey ''s'' 1) ''a'' sample_load = (Err e, sample_load)"
  by (rule poisoned_load_never_publishes [where h = 0 and c = sample_load, OF sample_load_ok])
     (auto simp: cache_steps_def sample_load_eq hm_get_def cell_get_def cache_candidate_def
       replay_poison_def replay_default_def)

text \<open>A candidate found later with an allocated handle was already there with it.\<close>

lemma commit_candidates:
  assumes "commit_candidate E key a c = (r, c')"
  shows "hc_candidates c' = hc_candidates c \<or> hc_candidates c' = hm_remove key (hc_candidates c)"
proof (cases "cache_candidate key a c")
  case (Ok h)
  show ?thesis
    using assms [unfolded commit_candidate_cases [OF Ok]] install_snapshot_gets(3)
    by (fastforce split: prod.splits result.splits)
qed (use assms in \<open>simp_all add: commit_candidate_def\<close>)

lemma cache_step_candidate:
  assumes "cache_step E c c'" "cells_ok E c" "hm_get (hc_cells c) h \<noteq> None"
    and "hm_get (hc_candidates c') k = Some ca" "ca_replay ca = h"
  shows "hm_get (hc_candidates c) k = Some ca"
  using assms(1)
proof (cases rule: cache_step.cases)
  case (cs_begin key a r)
  have "h \<noteq> hc_next_cell c" using assms(2,3) by (auto simp: cells_ok_def)
  with cs_begin assms(4,5) show ?thesis
    by (auto simp: begin_candidate_def hm.get_put split: if_splits)
next
  case (cs_append u key a r)
  with assms(4) show ?thesis
    by (auto simp: append_candidate_def try_in_def cell_call_def split: result.splits prod.splits)
next
  case (cs_poison key a e r)
  with assms(4) show ?thesis by (auto simp: poison_candidate_def try_in_def split: result.splits)
next
  case (cs_commit key a r)
  with commit_candidates [OF this] assms(4) show ?thesis by (auto simp: hm.get_del split: if_splits)
next
  case (cs_abort key a r)
  with assms(4) show ?thesis
    by (auto simp: abort_candidate_def try_in_def Let_def hm.get_del split: result.splits if_splits)
next
  case (cs_remove key)
  with assms(4) show ?thesis
    by (auto simp: cache_remove_def Let_def drop_entry_keeps hm.get_del split: option.splits if_splits)
next
  case (cs_snapshot key r)
  with assms(4) show ?thesis by (auto simp: cache_snapshot_def Let_def split: option.splits)
next
  case (cs_empty key sn)
  from install_snapshot_gets(3) [OF this [unfolded install_empty_def]] assms(4) show ?thesis by simp
next
  case (cs_committed us key r)
  have "hc_candidates c' = hc_candidates c"
    using cs_committed install_snapshot_gets(3)
    by (fastforce simp: append_committed_updates_def try_in_def split: result.splits prod.splits)
  with assms(4) show ?thesis by simp
next
  case (cs_handle h' d)
  with assms(4) show ?thesis by simp
qed

lemma cache_steps_unreachable:
  assumes "cache_steps E c c'" "cells_ok E c" "hm_get (hc_cells c) h \<noteq> None"
    and "\<forall>k ca. hm_get (hc_candidates c) k = Some ca \<longrightarrow> ca_replay ca \<noteq> h"
  shows "\<forall>k ca. hm_get (hc_candidates c') k = Some ca \<longrightarrow> ca_replay ca \<noteq> h"
proof -
  have "cells_ok E c' \<and> hm_get (hc_cells c') h \<noteq> None \<and>
      (\<forall>k ca. hm_get (hc_candidates c') k = Some ca \<longrightarrow> ca_replay ca \<noteq> h)"
    using assms(1) [unfolded cache_steps_def]
  proof (induction rule: rtranclp_induct)
    case base
    with assms show ?case by simp
  next
    case (step c1 c2)
    with cache_step_moves [OF step(2)] cache_step_cells_ok [OF step(2)] cache_step_candidate [OF step(2)]
    show ?case by blast
  qed
  then show ?thesis by simp
qed

text \<open>
  (C7) A retired load cannot contaminate its replacement: after a load is aborted, however the cache
  goes on, no candidate ever shares its data again, a late record is silently dropped and a late
  append is refused, and neither changes anything.
\<close>

theorem retired_load_is_inert:
  assumes "cells_ok E c" "cache_candidate key attempt c = Ok h"
    and "abort_candidate key attempt c = (Ok (), c1)" "cache_steps E c1 c2"
  shows "cell_call h (replay_append E u) c2 = (Err AttemptMismatch, c2) \<and>
    cell_call h (replay_ingest E u conversation) c2 = (Ok (), c2) \<and>
    (\<forall>k. pred_option (\<lambda>ca. ca_replay ca \<noteq> h) (hm_get (hc_candidates c2) k))"
proof -
  have c1: "c1 = (cell_set h (replay_discard (cell_get h c)) c)\<lparr>hc_candidates := hm_remove key (hc_candidates c)\<rparr>"
    using assms(2,3) by (simp add: abort_candidate_def Let_def)
  have ok1: "cells_ok E c1"
    using cache_step_cells_ok [OF cs_abort [OF assms(3)] assms(1)] .
  have h1: "hm_get (hc_cells c1) h \<noteq> None" by (simp add: c1 cells_set)
  have s1: "rp_sealed (cell_get h c1)"
    by (simp add: c1 cell_get_def cell_set_def hm.get_put replay_discard_def)
  obtain ca where ca: "hm_get (hc_candidates c) key = Some ca" "ca_replay ca = h"
    using assms(2) by (auto simp: cache_candidate_def split: if_splits)
  have "\<forall>k ca. hm_get (hc_candidates c1) k = Some ca \<longrightarrow> ca_replay ca \<noteq> h"
    using assms(1) ca unfolding cells_ok_def by (auto simp: c1 hm.get_del split: if_splits)
  note gone = cache_steps_unreachable [OF assms(4) ok1 h1 this]
  have "rp_sealed (cell_get h c2) \<and> cells_ok E c2 \<and> hm_get (hc_cells c2) h \<noteq> None"
    by (rule cache_steps_keep [where P = rp_sealed, OF assms(4) ok1 h1 s1]) (rule replay_move_sealed)
  with gone show ?thesis
    by (simp add: cell_call_def replay_sealed_inert cell_set_get pred_option_def)
qed

lemma retired_load_is_inert_witness:
  "cell_call 0 (replay_append sample_env JNull) (snd (abort_candidate (SessionKey ''s'' 1) ''a'' sample_load))
      = (Err AttemptMismatch, snd (abort_candidate (SessionKey ''s'' 1) ''a'' sample_load)) \<and>
    cell_call 0 (replay_ingest sample_env JNull True) (snd (abort_candidate (SessionKey ''s'' 1) ''a'' sample_load))
      = (Ok (), snd (abort_candidate (SessionKey ''s'' 1) ''a'' sample_load)) \<and>
    (\<forall>k. pred_option (\<lambda>ca. ca_replay ca \<noteq> 0)
       (hm_get (hc_candidates (snd (abort_candidate (SessionKey ''s'' 1) ''a'' sample_load))) k))"
  by (rule retired_load_is_inert [where c = sample_load and key = "SessionKey ''s'' 1" and attempt = "''a''"
        and ?c1.0 = "snd (abort_candidate (SessionKey ''s'' 1) ''a'' sample_load)", OF sample_load_ok])
     (simp_all add: cache_steps_def sample_load_eq cache_candidate_def hm_get_def abort_candidate_def Let_def)

fun append_all :: "env \<Rightarrow> session_key \<Rightarrow> string \<Rightarrow> json list \<Rightarrow> history_cache
    \<Rightarrow> (history_cache_error, unit) result \<times> history_cache" where
  "append_all E key attempt [] c = (Ok (), c)"
| "append_all E key attempt (u # us) c =
     call_then (append_candidate E key attempt u c) (\<lambda>_ c'. append_all E key attempt us c')"

lemma append_candidate_Ok:
  assumes "append_candidate E key a u c = (Ok (), c')" "cache_candidate key a c = Ok h"
  shows "hb_append (serialized_len E) (rp_history (cell_get h c)) u = Ok (rp_history (cell_get h c')) \<and>
    hc_entries c' = hc_entries c \<and> hc_candidates c' = hc_candidates c"
  using assms
  by (auto simp: append_candidate_def cell_call_def replay_append_def replay_updates_def cell_get_set
      split: prod.splits if_splits option.splits result.splits)

lemma append_all_Ok:
  "append_all E key a us c = (Ok (), c') \<Longrightarrow> cache_candidate key a c = Ok h \<Longrightarrow>
     hb_appends (serialized_len E) (rp_history (cell_get h c)) us = Ok (rp_history (cell_get h c')) \<and>
     hc_entries c' = hc_entries c \<and> hc_candidates c' = hc_candidates c"
proof (induction us arbitrary: c)
  case (Cons u us)
  then obtain c1 where s: "append_candidate E key a u c = (Ok (), c1)" "append_all E key a us c1 = (Ok (), c')"
    by (auto simp: call_then_eq_Ok)
  note one = append_candidate_Ok [OF s(1) Cons.prems(2)]
  have "cache_candidate key a c1 = Ok h"
    using Cons.prems(2) one by (simp add: cache_candidate_def)
  with Cons.IH [OF s(2)] one show ?case by simp
qed simp

text \<open>
  (C8) A load publishes exactly its replay: the snapshot committed for a candidate holds the records
  appended to it, normalized by the reference fold, with the byte count of their serialized array;
  the candidate is gone and the histories of all other sessions are untouched.
\<close>

theorem load_publishes_its_replay:
  assumes "begin_candidate key attempt c = (Ok (), c0)" "append_all E key attempt us c0 = (Ok (), c1)"
    and "commit_candidate E key attempt c1 = (Ok sn, c2)" "\<forall>u \<in> set us. json_wf u"
  shows "normalize_history_updates us = Ok (hs_updates sn) \<and>
    hs_bytes sn = array_bytes (serialized_len E) (hs_updates sn) \<and>
    hm_get (hc_candidates c2) key = None \<and>
    (\<forall>k. cache_peek k c2 = (if k = key then Some sn else cache_peek k c))"
proof -
  let ?h = "hc_next_cell c"
  have c0: "cache_candidate key attempt c0 = Ok ?h" "cell_get ?h c0 = replay_default" "hc_entries c0 = hc_entries c"
    using assms(1)
    by (auto simp: begin_candidate_def cache_candidate_def hm.get_put cell_get_def
        simp del: res_bind_eq_Ok split: if_splits)
  note all = append_all_Ok [OF assms(2) c0(1)]
  let ?b = "rp_history (cell_get ?h c1)"
  have b: "hb_appends (serialized_len E) hb_default us = Ok ?b"
    using all c0(2) by (simp add: replay_default_def)
  have fold: "normalize_history_updates us = Ok (hb_updates ?b)"
    and bytes: "max (hb_bytes ?b) 2 = array_bytes (serialized_len E) (hb_updates ?b)"
    using hb_appends_fold [OF hb_inv_default hb_bytes_ok_default assms(4), of "serialized_len E"] b
    by (auto simp: normalize_history_updates_def hb_default_def hb_bytes_ok_max split: result.splits)
  have k1: "cache_candidate key attempt c1 = Ok ?h" using all c0 by (simp add: cache_candidate_def)
  obtain us' n d where t: "replay_take_history (cell_get ?h c1) = (Ok (us', n), d)"
    "install_snapshot E key us' n ((cell_set ?h d c1)\<lparr>hc_candidates := hm_remove key (hc_candidates c1)\<rparr>) = (sn, c2)"
    using assms(3) commit_candidate_cases [OF k1] by (auto split: prod.splits result.splits)
  have "us' = hb_updates ?b" "n = max (hb_bytes ?b) 2"
    using t(1) by (auto simp: replay_take_history_def replay_updates_def split: option.splits)
  with install_snapshot_gets [OF t(2)] fold bytes all c0(3) show ?thesis
    by (simp add: cache_peek_def hm.get_del)
qed

definition sample_begun :: history_cache where
  "sample_begun = snd (begin_candidate (SessionKey ''s'' 1) ''a'' (cache_new ''e''))"

definition sample_filled :: history_cache where
  "sample_filled = snd (append_all sample_env (SessionKey ''s'' 1) ''a'' [JNull] sample_begun)"

definition sample_committed :: "history_snapshot \<times> history_cache" where
  "sample_committed = (case commit_candidate sample_env (SessionKey ''s'' 1) ''a'' sample_filled of
     (Ok sn, c) \<Rightarrow> (sn, c) | (_, c) \<Rightarrow> (\<lparr>hs_revision = [], hs_updates = [], hs_bytes = 0, hs_digest = []\<rparr>, c))"

lemmas sample_load_simps = begin_candidate_def cache_new_def cache_candidate_def append_candidate_def
  cell_call_def cell_get_def cell_set_def replay_append_def replay_updates_def hm_get_def hm_insert_def
  replay_default_def hb_append_def hb_position_def hb_default_def update_kind_def get_str_def
  fold_active_turn_update_def fold_shared_active_turn_update_def hb_push_def Let_def json_index_def
  serialized_len_def

lemma sample_begun_run:
  "begin_candidate (SessionKey ''s'' 1) ''a'' (cache_new ''e'') = (Ok (), sample_begun)"
  by (simp add: sample_begun_def sample_load_simps)

lemma sample_filled_run:
  "append_all sample_env (SessionKey ''s'' 1) ''a'' [JNull] sample_begun = (Ok (), sample_filled)"
  by (simp add: sample_filled_def sample_begun_def sample_load_simps)

lemma sample_committed_run:
  "commit_candidate sample_env (SessionKey ''s'' 1) ''a'' sample_filled
     = (Ok (fst sample_committed), snd sample_committed)"
  by (simp add: sample_committed_def sample_filled_def sample_begun_def sample_load_simps commit_candidate_def
      replay_take_history_def split: prod.splits)

lemma load_publishes_its_replay_witness:
  "normalize_history_updates [JNull] = Ok (hs_updates (fst sample_committed)) \<and>
    hs_bytes (fst sample_committed) = array_bytes (serialized_len sample_env) (hs_updates (fst sample_committed)) \<and>
    hm_get (hc_candidates (snd sample_committed)) (SessionKey ''s'' 1) = None \<and>
    (\<forall>k. cache_peek k (snd sample_committed) =
       (if k = SessionKey ''s'' 1 then Some (fst sample_committed) else cache_peek k (cache_new ''e'')))"
  by (rule load_publishes_its_replay [OF sample_begun_run sample_filled_run sample_committed_run]) simp

section \<open>Committed turns extend a history\<close>

lemma fold_history_updates_normalized:
  assumes "normalized us" "\<forall>u \<in> set vs. json_wf u" "fold_history_updates us vs = Ok r"
  shows "normalized r"
proof -
  obtain b where b: "hb_inv b" "hb_updates b = us" using assms(1) by (auto simp: normalized_def)
  let ?b = "b\<lparr>hb_bytes := array_bytes (\<lambda>_. 0) us\<rparr>"
  have "hb_inv ?b" "hb_bytes_ok (\<lambda>_. 0) ?b" using b by (simp_all add: hb_inv_def hb_bytes_ok_def)
  from hb_appends_fold [OF this assms(2)] assms(3) b show ?thesis
    by (auto simp: normalized_def)
qed

text \<open>
  (C9) Extending a committed history keeps the cache consistent: the new snapshot is the fold of the
  old one with the suffix, its revision differs from that of every snapshot in the cache, and the
  invariant holds again, byte account, digest and normal form included. The serialized length of an
  array is taken to be what JSON says: brackets, elements and commas.
\<close>

theorem extended_history_is_consistent:
  assumes "\<forall>us. serialized_len E (JArr us) = array_bytes (serialized_len E) us"
    and "cache_inv E c" "unat (hc_next_generation c) < 2 ^ 64 - 1" "\<forall>u \<in> set suffix. json_wf u"
    and "append_committed_updates E key suffix c = (Ok sn, c')"
    and "hc_snapshot_bytes c + hs_bytes sn \<le> usize_max"
  shows "cache_inv E c' \<and> cache_peek key c' = Some sn \<and>
    (\<exists>old. cache_peek key c = Some old \<and> fold_history_updates (hs_updates old) suffix = Ok (hs_updates sn)) \<and>
    (\<forall>k. pred_option (\<lambda>old. hs_revision sn \<noteq> hs_revision old) (cache_peek k c))"
proof -
  obtain old us where o: "cache_peek key c = Some old" "fold_history_updates (hs_updates old) suffix = Ok us"
    "install_snapshot E key us (serialized_len E (JArr us)) c = (sn, c')"
    using assms(5)
    by (cases "cache_peek key c"; cases "fold_history_updates (hs_updates (the (cache_peek key c))) suffix")
       (auto simp: append_committed_updates_def split: prod.splits)
  note g = install_snapshot_gets [OF o(3)]
  have "normalized (hs_updates old)"
    using o(1) assms(2) by (auto simp: cache_peek_def cache_inv_def snapshot_ok_def)
  note n = fold_history_updates_normalized [OF this assms(4) o(2)]
  have "cache_inv E c'"
    by (rule install_snapshot_inv [OF assms(2) n _ assms(3) _ o(3)])
       (use assms(1,6) g in auto)
  with g o install_snapshot_fresh [OF assms(2,3) o(3)] show ?thesis by (auto simp: pred_option_def)
qed

fun toy_len :: "json \<Rightarrow> nat" where
  "toy_len (JArr us) = 2 + sum_list (map toy_len us) + (length us - 1)"
| "toy_len _ = 1"

definition toy_env :: env where
  "toy_env = sample_env\<lparr>env_to_vec := (\<lambda>v. replicate (toy_len v) CHR ''x'')\<rparr>"

lemma toy_env_array: "\<forall>us. serialized_len toy_env (JArr us) = array_bytes (serialized_len toy_env) us"
proof -
  have "serialized_len toy_env = toy_len" by (simp add: serialized_len_def toy_env_def fun_eq_iff)
  then show ?thesis by (simp add: array_bytes_def)
qed

definition sample_installed :: history_cache where
  "sample_installed = snd (install_empty toy_env (SessionKey ''s'' 1) (cache_new ''e''))"

definition sample_extended :: "history_snapshot \<times> history_cache" where
  "sample_extended =
     install_snapshot toy_env (SessionKey ''s'' 1) [JNull] (serialized_len toy_env (JArr [JNull])) sample_installed"

lemma sample_installed_inv: "cache_inv toy_env sample_installed"
proof -
  obtain sn where "install_snapshot toy_env (SessionKey ''s'' 1) [] 2 (cache_new ''e'') = (sn, sample_installed)"
    by (cases "install_snapshot toy_env (SessionKey ''s'' 1) [] 2 (cache_new ''e'')")
       (simp add: sample_installed_def install_empty_def)
  moreover have "normalized []"
    unfolding normalized_def by (rule exI [of _ hb_default]) (simp add: hb_inv_default, simp add: hb_default_def)
  ultimately show ?thesis
    by (intro install_snapshot_inv [OF cache_new_inv])
       (auto simp: array_bytes_def cache_new_def usize_max_def)
qed

lemma sample_extended_run:
  "append_committed_updates toy_env (SessionKey ''s'' 1) [JNull] sample_installed
     = (Ok (fst sample_extended), snd sample_extended)"
proof -
  have "cache_peek (SessionKey ''s'' 1) sample_installed \<noteq> None \<and>
      hs_updates (the (cache_peek (SessionKey ''s'' 1) sample_installed)) = []"
    by (simp add: sample_installed_def install_empty_def install_snapshot_def Let_def cache_drop_entry_def
        cache_new_def cache_peek_def hm_get_def hm_insert_def)
  then show ?thesis
    by (auto simp: append_committed_updates_def sample_extended_def fold_history_update_def
        turn_start_of_def update_kind_def get_str_def fold_active_turn_update_def
        fold_shared_active_turn_update_def split: prod.splits)
qed

lemma extended_history_is_consistent_witness:
  "cache_inv toy_env (snd sample_extended) \<and>
    cache_peek (SessionKey ''s'' 1) (snd sample_extended) = Some (fst sample_extended) \<and>
    (\<exists>old. cache_peek (SessionKey ''s'' 1) sample_installed = Some old \<and>
       fold_history_updates (hs_updates old) [JNull] = Ok (hs_updates (fst sample_extended))) \<and>
    (\<forall>k. pred_option (\<lambda>old. hs_revision (fst sample_extended) \<noteq> hs_revision old) (cache_peek k sample_installed))"
  by (rule extended_history_is_consistent [OF toy_env_array sample_installed_inv _ _ sample_extended_run])
     (simp_all add: sample_installed_def sample_extended_def install_empty_def install_snapshot_def Let_def
       cache_drop_entry_def cache_new_def hm_get_def hm_insert_def next_revision_def
       usize_max_def sat_add_def sat_sub_def serialized_len_def toy_env_def)

end
