(* ===== verification/Registry.thy ===== *)
theory Registry
  imports Observers Runtime_Journal History_Cache
begin

text \<open>
  The registry that owns every session once (\<open>src/src/session_registry.rs\<close>) and the handles of one
  session incarnation (\<open>src/src/session_resources.rs\<close>). The routes from an interaction to its owner are
  global maps; the responders live in the owner's resources. The store of shared handles is a field
  of the registry, as every operation that sends or cancels goes through it.
\<close>

section \<open>The resources of a session\<close>

record permission_responder =
  pr_tool_call_id :: string
  pr_option_ids :: "string list"
  pr_sender :: nat

record elicitation_responder =
  er_url_elicitation_id :: "string option"
  er_request :: json
  er_sender :: nat

datatype view_waiter = ViewWaiter nat | ObserveWaiter u64 observation_lease nat

record materialization_resources =
  mz_attempt_id :: string
  mz_waiters :: "view_waiter list"
  mz_cancellation :: nat

record history_sync_resources =
  hy_flow_id :: string
  hy_cancellation :: nat

record resource_owner =
  ow_epoch :: string
  ow_session_id :: string
  ow_incarnation :: u64

record history_sync_owner =
  ho_session :: resource_owner
  ho_flow_id :: string
  ho_cancellation :: nat

record url_registration =
  ur_owner :: "resource_owner option"
  ur_registration_id :: string

record update_owner =
  uo_incarnation :: "u64 option"
  uo_allocation :: nat

record replay_backup =
  rb_owner :: update_owner
  rb_previous :: "semantic_state option"

record control_candidate =
  cc_updates :: "json list"
  cc_bytes :: nat

record session_resources =
  re_validation :: "semantic_state option"
  re_replay_backup :: "replay_backup option"
  re_control_candidate :: control_candidate
  re_materialization :: "materialization_resources option"
  re_history_sync :: "history_sync_resources option"
  re_permissions :: "(string, permission_responder) hash_map"
  re_elicitations :: "(string, elicitation_responder) hash_map"
  re_observers :: session_observers

definition resources_default :: session_resources where
  "resources_default =
     \<lparr>re_validation = None, re_replay_backup = None, re_control_candidate = \<lparr>cc_updates = [], cc_bytes = 0\<rparr>,
      re_materialization = None, re_history_sync = None, re_permissions = [], re_elicitations = [],
      re_observers = observers_default\<rparr>"

text \<open>\<open>SessionViewWaiter::cancel\<close> of \<open>src/src/bridge.rs\<close>: an observer's lease ends with it.\<close>

fun waiter_cancel :: "string \<Rightarrow> view_waiter \<Rightarrow> handles \<Rightarrow> handles" where
  "waiter_cancel reason (ViewWaiter k) h = reply_send k (ViewUnavailable reason) h"
| "waiter_cancel reason (ObserveWaiter key lease k) h = reply_send k (ViewUnavailable reason) (lease_cancel lease h)"

definition resources_cancel :: "string \<Rightarrow> session_resources \<times> handles \<Rightarrow> session_resources \<times> handles" where
  "resources_cancel reason st =
     (case st of (r, h0) \<Rightarrow>
        let h1 = fold (\<lambda>e. reply_send (pr_sender (snd e)) PermissionCancelled) (re_permissions r) h0;
            h2 = fold (\<lambda>e. reply_send (er_sender (snd e)) ElicitationCancelled) (re_elicitations r) h1;
            h3 = (case re_materialization r of
                    Some m \<Rightarrow> fold (waiter_cancel reason) (mz_waiters m) (token_cancel (mz_cancellation m) h2)
                  | None \<Rightarrow> h2);
            h4 = (case re_history_sync r of Some s \<Rightarrow> token_cancel (hy_cancellation s) h3 | None \<Rightarrow> h3)
        in (case observers_shutdown (re_observers r, h4) of
              (obs, h5) \<Rightarrow>
                (r\<lparr>re_permissions := [], re_elicitations := [], re_materialization := None,
                   re_history_sync := None, re_observers := obs\<rparr>, h5)))"

section \<open>The registry\<close>

record session_entry =
  en_state :: session_state
  en_resources :: session_resources

definition entry_new :: "session_state \<Rightarrow> session_entry" where
  "entry_new s = \<lparr>en_state = s, en_resources = resources_default\<rparr>"

record session_registry =
  rg_epoch :: string
  rg_next_incarnation :: u64
  rg_next_operation :: u64
  rg_sessions :: "(string, session_entry) btree_map"
  rg_retired_ids :: "string list"
  rg_permission_owners :: "(string, resource_owner) hash_map"
  rg_elicitation_owners :: "(string, resource_owner) hash_map"
  rg_url_owners :: "(string, url_registration) hash_map"
  rg_history :: history_cache
  rg_overlay_bytes :: nat
  rg_retained_terminals :: "(session_key, (string, json) btree_map) hash_map"
  rg_retained_terminal_bytes :: nat
  rg_connection_revision :: u64
  rg_request_elicitations :: "(string, pending_interaction) btree_map"
  rg_request_url_flows :: "(string, url_flow) btree_map"
  rg_resolved_request_elicitations :: "string list"
  rg_resolved_request_url_flows :: "string list"
  rg_effects :: "runtime_effect list"
  rg_journal :: runtime_journal
  rg_handles :: handles

definition registry_new :: "string \<Rightarrow> session_registry" where
  "registry_new epoch =
     \<lparr>rg_epoch = epoch, rg_next_incarnation = 0, rg_next_operation = 0, rg_sessions = [],
      rg_retired_ids = [], rg_permission_owners = [], rg_elicitation_owners = [], rg_url_owners = [],
      rg_history = cache_new epoch, rg_overlay_bytes = 0, rg_retained_terminals = [],
      rg_retained_terminal_bytes = 0, rg_connection_revision = 0, rg_request_elicitations = [],
      rg_request_url_flows = [], rg_resolved_request_elicitations = [],
      rg_resolved_request_url_flows = [], rg_effects = [], rg_journal = journal_new,
      rg_handles = handles_new\<rparr>"

definition entry_of :: "string \<Rightarrow> session_registry \<Rightarrow> session_entry option" where
  "entry_of sid rg = bt_get (rg_sessions rg) sid"

definition state_of :: "string \<Rightarrow> session_registry \<Rightarrow> session_state option" where
  "state_of sid rg = map_option en_state (entry_of sid rg)"

definition live_of :: "string \<Rightarrow> session_registry \<Rightarrow> session_live_state option" where
  "live_of sid rg = Option.bind (state_of sid rg) ss_live"

text \<open>Writing through a mutable borrow of an entry that is there.\<close>

definition put_entry :: "string \<Rightarrow> session_entry \<Rightarrow> session_registry \<Rightarrow> session_registry" where
  "put_entry sid e rg = rg\<lparr>rg_sessions := bt_insert sid e (rg_sessions rg)\<rparr>"

definition put_state :: "string \<Rightarrow> session_state \<Rightarrow> session_registry \<Rightarrow> session_registry" where
  "put_state sid s rg =
     (case entry_of sid rg of Some e \<Rightarrow> put_entry sid (e\<lparr>en_state := s\<rparr>) rg | None \<Rightarrow> rg)"

definition put_resources :: "string \<Rightarrow> session_resources \<Rightarrow> session_registry \<Rightarrow> session_registry" where
  "put_resources sid r rg =
     (case entry_of sid rg of Some e \<Rightarrow> put_entry sid (e\<lparr>en_resources := r\<rparr>) rg | None \<Rightarrow> rg)"

definition active_session :: "string \<Rightarrow> session_registry \<Rightarrow> session_state option" where
  "active_session sid rg =
     (case state_of sid rg of
        Some s \<Rightarrow> (case ss_live s of
            Some live \<Rightarrow> if lv_lifecycle live = Active then Some s else None
          | None \<Rightarrow> None)
      | None \<Rightarrow> None)"

definition resource_session :: "string \<Rightarrow> session_registry \<Rightarrow> session_state option" where
  "resource_session sid rg =
     (case state_of sid rg of
        Some s \<Rightarrow> (case ss_live s of
            Some live \<Rightarrow>
              if lv_lifecycle live \<in> {Attaching, Active, Closing, ClosingForDelete} then Some s else None
          | None \<Rightarrow> None)
      | None \<Rightarrow> None)"

definition resources_of :: "string \<Rightarrow> u64 \<Rightarrow> session_registry \<Rightarrow> (mirror_error, session_resources) result" where
  "resources_of sid inc rg =
     res_bind (ok_or MirrorUnknownSession (entry_of sid rg)) (\<lambda>e.
       if ss_incarnation (en_state e) \<noteq> inc then Err MirrorStaleIncarnation else Ok (en_resources e))"

definition resource_owner_of :: "string \<Rightarrow> u64 \<Rightarrow> session_registry \<Rightarrow> (mirror_error, resource_owner) result" where
  "resource_owner_of sid inc rg =
     res_bind (resources_of sid inc rg) (\<lambda>_.
       Ok \<lparr>ow_epoch = rg_epoch rg, ow_session_id = sid, ow_incarnation = inc\<rparr>)"

definition owns_resources :: "resource_owner \<Rightarrow> session_registry \<Rightarrow> bool" where
  "owns_resources ow rg \<longleftrightarrow>
     ow_epoch ow = rg_epoch rg \<and>
     (case entry_of (ow_session_id ow) rg of
        Some e \<Rightarrow> ss_incarnation (en_state e) = ow_incarnation ow | None \<Rightarrow> False)"

section \<open>Routes\<close>

definition register_url_route :: "string \<Rightarrow> resource_owner option \<Rightarrow> session_registry
    \<Rightarrow> (mirror_error, unit) result \<times> session_registry" where
  "register_url_route url_id owner rg =
     (if hm_get (rg_url_owners rg) url_id \<noteq> None then (Err MirrorOperationMismatch, rg)
      else if (case owner of Some ow \<Rightarrow> \<not> owns_resources ow rg | None \<Rightarrow> False)
      then (Err MirrorStaleIncarnation, rg)
      else try_in rg
        (ok_or MirrorOperationMismatch
          (case owner of
             Some ow \<Rightarrow> Option.bind (live_of (ow_session_id ow) rg) (\<lambda>live. bt_get (lv_url_flows live) url_id)
           | None \<Rightarrow> bt_get (rg_request_url_flows rg) url_id)) (\<lambda>flow.
        (Ok (), rg\<lparr>rg_url_owners := hm_insert url_id
            \<lparr>ur_owner = owner, ur_registration_id = uf_registration_id flow\<rparr> (rg_url_owners rg)\<rparr>)))"

definition take_url_route :: "string \<Rightarrow> url_registration \<Rightarrow> session_registry
    \<Rightarrow> url_registration option \<times> session_registry" where
  "take_url_route url_id expected rg =
     (if hm_get (rg_url_owners rg) url_id \<noteq> Some expected then (None, rg)
      else (hm_get (rg_url_owners rg) url_id, rg\<lparr>rg_url_owners := hm_remove url_id (rg_url_owners rg)\<rparr>))"

definition permission_route :: "string \<Rightarrow> session_registry \<Rightarrow> (resource_owner \<times> permission_responder) option" where
  "permission_route iid rg =
     (case hm_get (rg_permission_owners rg) iid of
        None \<Rightarrow> None
      | Some ow \<Rightarrow>
          if \<not> owns_resources ow rg then None
          else (case resources_of (ow_session_id ow) (ow_incarnation ow) rg of
                  Ok r \<Rightarrow> map_option (\<lambda>p. (ow, p)) (hm_get (re_permissions r) iid)
                | _ \<Rightarrow> None))"

definition insert_permission :: "resource_owner \<Rightarrow> string \<Rightarrow> permission_responder \<Rightarrow> session_registry
    \<Rightarrow> (mirror_error, unit) result \<times> session_registry" where
  "insert_permission ow iid pending rg =
     (if \<not> owns_resources ow rg then (Err MirrorStaleIncarnation, rg)
      else if hm_get (rg_permission_owners rg) iid \<noteq> None then (Err MirrorOperationMismatch, rg)
      else try_in rg (resources_of (ow_session_id ow) (ow_incarnation ow) rg) (\<lambda>r.
        let rg1 = put_resources (ow_session_id ow)
              (r\<lparr>re_permissions := hm_insert iid pending (re_permissions r)\<rparr>) rg
        in (Ok (), rg1\<lparr>rg_permission_owners := hm_insert iid ow (rg_permission_owners rg1)\<rparr>)))"

definition take_permission :: "string \<Rightarrow> resource_owner \<Rightarrow> session_registry
    \<Rightarrow> permission_responder option \<times> session_registry" where
  "take_permission iid expected rg =
     (if hm_get (rg_permission_owners rg) iid \<noteq> Some expected then (None, rg)
      else let rg1 = rg\<lparr>rg_permission_owners := hm_remove iid (rg_permission_owners rg)\<rparr>
        in if \<not> owns_resources expected rg1 then (None, rg1)
           else (case resources_of (ow_session_id expected) (ow_incarnation expected) rg1 of
                   Ok r \<Rightarrow> (hm_get (re_permissions r) iid,
                     put_resources (ow_session_id expected)
                       (r\<lparr>re_permissions := hm_remove iid (re_permissions r)\<rparr>) rg1)
                 | _ \<Rightarrow> (None, rg1)))"

definition elicitation_route :: "string \<Rightarrow> session_registry \<Rightarrow> (resource_owner \<times> elicitation_responder) option" where
  "elicitation_route iid rg =
     (case hm_get (rg_elicitation_owners rg) iid of
        None \<Rightarrow> None
      | Some ow \<Rightarrow>
          if \<not> owns_resources ow rg then None
          else (case resources_of (ow_session_id ow) (ow_incarnation ow) rg of
                  Ok r \<Rightarrow> map_option (\<lambda>p. (ow, p)) (hm_get (re_elicitations r) iid)
                | _ \<Rightarrow> None))"

definition insert_elicitation :: "resource_owner \<Rightarrow> string \<Rightarrow> elicitation_responder \<Rightarrow> session_registry
    \<Rightarrow> (mirror_error, unit) result \<times> session_registry" where
  "insert_elicitation ow iid pending rg =
     (if \<not> owns_resources ow rg then (Err MirrorStaleIncarnation, rg)
      else if hm_get (rg_elicitation_owners rg) iid \<noteq> None then (Err MirrorOperationMismatch, rg)
      else try_in rg (resources_of (ow_session_id ow) (ow_incarnation ow) rg) (\<lambda>r.
        let rg1 = put_resources (ow_session_id ow)
              (r\<lparr>re_elicitations := hm_insert iid pending (re_elicitations r)\<rparr>) rg
        in (Ok (), rg1\<lparr>rg_elicitation_owners := hm_insert iid ow (rg_elicitation_owners rg1)\<rparr>)))"

definition take_elicitation :: "string \<Rightarrow> resource_owner \<Rightarrow> session_registry
    \<Rightarrow> elicitation_responder option \<times> session_registry" where
  "take_elicitation iid expected rg =
     (if hm_get (rg_elicitation_owners rg) iid \<noteq> Some expected then (None, rg)
      else let rg1 = rg\<lparr>rg_elicitation_owners := hm_remove iid (rg_elicitation_owners rg)\<rparr>
        in if \<not> owns_resources expected rg1 then (None, rg1)
           else (case resources_of (ow_session_id expected) (ow_incarnation expected) rg1 of
                   Ok r \<Rightarrow> (hm_get (re_elicitations r) iid,
                     put_resources (ow_session_id expected)
                       (r\<lparr>re_elicitations := hm_remove iid (re_elicitations r)\<rparr>) rg1)
                 | _ \<Rightarrow> (None, rg1)))"

section \<open>History synchronization\<close>

text \<open>Running an operation of the observers inside their resources.\<close>

definition stop_absence_in :: "string \<Rightarrow> session_registry \<Rightarrow> session_registry" where
  "stop_absence_in sid rg =
     (case entry_of sid rg of
        None \<Rightarrow> rg
      | Some e \<Rightarrow>
          (case stop_absence (re_observers (en_resources e), rg_handles rg) of
             (obs, h) \<Rightarrow> put_resources sid (en_resources e\<lparr>re_observers := obs\<rparr>) (rg\<lparr>rg_handles := h\<rparr>)))"

definition set_history_sync :: "string \<Rightarrow> history_sync_resources option \<Rightarrow> session_registry \<Rightarrow> session_registry" where
  "set_history_sync sid v rg =
     (case entry_of sid rg of
        Some e \<Rightarrow> put_resources sid (en_resources e\<lparr>re_history_sync := v\<rparr>) rg | None \<Rightarrow> rg)"

definition begin_history_sync :: "history_sync_owner \<Rightarrow> session_registry
    \<Rightarrow> (mirror_error, unit) result \<times> session_registry" where
  "begin_history_sync owner rg =
     (let s = ho_session owner
      in if ow_epoch s \<noteq> rg_epoch rg then (Err MirrorOperationMismatch, rg)
         else try_in rg (resources_of (ow_session_id s) (ow_incarnation s) rg) (\<lambda>r.
           if re_history_sync r \<noteq> None then (Err MirrorOperationMismatch, rg)
           else (Ok (), set_history_sync (ow_session_id s)
                  (Some \<lparr>hy_flow_id = ho_flow_id owner, hy_cancellation = ho_cancellation owner\<rparr>)
                  (stop_absence_in (ow_session_id s) rg))))"

definition supersede_history_sync :: "string \<Rightarrow> u64 \<Rightarrow> session_registry \<Rightarrow> session_registry" where
  "supersede_history_sync sid inc rg =
     (case resources_of sid inc rg of Ok r \<Rightarrow> set_history_sync sid None rg | _ \<Rightarrow> rg)"

definition finish_history_sync :: "history_sync_owner \<Rightarrow> session_registry \<Rightarrow> session_registry" where
  "finish_history_sync owner rg =
     (case resources_of (ow_session_id (ho_session owner)) (ow_incarnation (ho_session owner)) rg of
        Ok r \<Rightarrow>
          (case re_history_sync r of
             Some sync \<Rightarrow>
               if hy_flow_id sync = ho_flow_id owner
               then set_history_sync (ow_session_id (ho_session owner)) None rg else rg
           | None \<Rightarrow> rg)
      | _ \<Rightarrow> rg)"

datatype history_sync_status = SyncOwned | SyncSuperseded | SyncGone

definition sync_status :: "history_sync_owner \<Rightarrow> session_registry \<Rightarrow> history_sync_status" where
  "sync_status owner rg =
     (case entry_of (ow_session_id (ho_session owner)) rg of
        Some e \<Rightarrow>
          if ow_epoch (ho_session owner) = rg_epoch rg \<and> ss_incarnation (en_state e) = ow_incarnation (ho_session owner)
          then (case re_history_sync (en_resources e) of
                  Some sync \<Rightarrow> if hy_flow_id sync = ho_flow_id owner then SyncOwned else SyncSuperseded
                | None \<Rightarrow> SyncSuperseded)
          else SyncGone
      | None \<Rightarrow> SyncGone)"

section \<open>Work\<close>

text \<open>\<open>SessionWork::of\<close> in \<open>src/src/session_observers.rs\<close>.\<close>

definition work_of :: "session_entry \<Rightarrow> session_work" where
  "work_of e =
     (let s = en_state e
      in if (case ss_live s of
               Some live \<Rightarrow> lv_permissions live \<noteq> [] \<or> lv_elicitations live \<noteq> [] \<or> lv_url_flows live \<noteq> []
             | None \<Rightarrow> False)
         then WorkAwaitingInteraction
         else if ss_active_turn s \<noteq> None \<or> ss_operation s \<noteq> None \<or> ss_load_attempt s \<noteq> None \<or>
                 (case ss_live s of
                    Some live \<Rightarrow> list_ex (\<lambda>t. terminal_is_running (snd t)) (lv_terminals live) | None \<Rightarrow> False) \<or>
                 re_materialization (en_resources e) \<noteq> None \<or> re_history_sync (en_resources e) \<noteq> None
         then WorkRunning else WorkIdle)"

definition registry_work :: "string \<Rightarrow> session_registry \<Rightarrow> session_work option" where
  "registry_work sid rg = map_option work_of (entry_of sid rg)"

section \<open>Retirement\<close>

definition cancel_resources :: "string \<Rightarrow> u64 \<Rightarrow> string \<Rightarrow> session_registry \<Rightarrow> session_registry" where
  "cancel_resources sid inc reason rg =
     (case entry_of sid rg of
        None \<Rightarrow> rg
      | Some e \<Rightarrow>
          if ss_incarnation (en_state e) \<noteq> inc then rg
          else let owner = \<lparr>ow_epoch = rg_epoch rg, ow_session_id = sid, ow_incarnation = inc\<rparr>
            in (case resources_cancel reason (en_resources e, rg_handles rg) of
                 (r, h) \<Rightarrow>
                   put_resources sid r
                     (rg\<lparr>rg_permission_owners := hm_retain (\<lambda>_ route. route \<noteq> owner) (rg_permission_owners rg),
                        rg_elicitation_owners := hm_retain (\<lambda>_ route. route \<noteq> owner) (rg_elicitation_owners rg),
                        rg_url_owners := hm_retain (\<lambda>_ route. ur_owner route \<noteq> Some owner) (rg_url_owners rg),
                        rg_handles := h\<rparr>)))"

definition is_retired :: "string \<Rightarrow> session_registry \<Rightarrow> bool" where
  "is_retired sid rg \<longleftrightarrow> sid \<in> set (rg_retired_ids rg)"

text \<open>Dropping the removed entry cancels its resources once more, which by then are empty.\<close>

definition retire_entry :: "string \<Rightarrow> u64 \<Rightarrow> string \<Rightarrow> session_registry \<Rightarrow> session_registry" where
  "retire_entry sid inc reason rg =
     (case entry_of sid rg of
        None \<Rightarrow> rg
      | Some e \<Rightarrow>
          if ss_incarnation (en_state e) \<noteq> inc then rg
          else let rg1 = cancel_resources sid inc reason rg
            in rg1\<lparr>rg_sessions := bt_remove sid (rg_sessions rg1),
                   rg_retired_ids := List.insert sid (rg_retired_ids rg1)\<rparr>)"

section \<open>Facts of the entries\<close>

named_theorems registry_simps \<open>entries and fields after an update of the registry\<close>

lemma entry_of_put_entry [registry_simps]:
  "entry_of k (put_entry sid e rg) = (if k = sid then Some e else entry_of k rg)"
  by (simp add: entry_of_def put_entry_def bt.get_put)

lemma entry_of_put_state [registry_simps]:
  "entry_of k (put_state sid s rg)
     = (if k = sid then map_option (\<lambda>e. e\<lparr>en_state := s\<rparr>) (entry_of sid rg) else entry_of k rg)"
  by (simp add: put_state_def entry_of_put_entry split: option.split)

lemma entry_of_put_resources [registry_simps]:
  "entry_of k (put_resources sid r rg)
     = (if k = sid then map_option (\<lambda>e. e\<lparr>en_resources := r\<rparr>) (entry_of sid rg) else entry_of k rg)"
  by (simp add: put_resources_def entry_of_put_entry split: option.split)

lemma entry_of_fields [registry_simps]:
  "entry_of k (rg\<lparr>rg_permission_owners := a\<rparr>) = entry_of k rg"
  "entry_of k (rg\<lparr>rg_elicitation_owners := a\<rparr>) = entry_of k rg"
  "entry_of k (rg\<lparr>rg_url_owners := b\<rparr>) = entry_of k rg"
  "entry_of k (rg\<lparr>rg_handles := h\<rparr>) = entry_of k rg"
  "entry_of k (rg\<lparr>rg_retired_ids := ids\<rparr>) = entry_of k rg"
  "entry_of k (rg\<lparr>rg_sessions := m\<rparr>) = bt_get m k"
  by (simp_all add: entry_of_def)

lemma put_entry_fields [registry_simps]:
  "rg_epoch (put_entry sid e rg) = rg_epoch rg"
  "rg_permission_owners (put_entry sid e rg) = rg_permission_owners rg"
  "rg_elicitation_owners (put_entry sid e rg) = rg_elicitation_owners rg"
  "rg_url_owners (put_entry sid e rg) = rg_url_owners rg"
  "rg_handles (put_entry sid e rg) = rg_handles rg"
  "rg_history (put_entry sid e rg) = rg_history rg"
  "rg_overlay_bytes (put_entry sid e rg) = rg_overlay_bytes rg"
  "rg_retired_ids (put_entry sid e rg) = rg_retired_ids rg"
  "rg_journal (put_entry sid e rg) = rg_journal rg"
  by (simp_all add: put_entry_def)

lemma put_resources_fields [registry_simps]:
  "rg_epoch (put_resources sid r rg) = rg_epoch rg"
  "rg_permission_owners (put_resources sid r rg) = rg_permission_owners rg"
  "rg_elicitation_owners (put_resources sid r rg) = rg_elicitation_owners rg"
  "rg_url_owners (put_resources sid r rg) = rg_url_owners rg"
  "rg_handles (put_resources sid r rg) = rg_handles rg"
  by (simp_all add: put_resources_def put_entry_fields split: option.split)

lemma put_state_fields [registry_simps]:
  "rg_epoch (put_state sid s rg) = rg_epoch rg"
  "rg_permission_owners (put_state sid s rg) = rg_permission_owners rg"
  "rg_elicitation_owners (put_state sid s rg) = rg_elicitation_owners rg"
  "rg_url_owners (put_state sid s rg) = rg_url_owners rg"
  "rg_handles (put_state sid s rg) = rg_handles rg"
  "rg_history (put_state sid s rg) = rg_history rg"
  "rg_overlay_bytes (put_state sid s rg) = rg_overlay_bytes rg"
  "rg_journal (put_state sid s rg) = rg_journal rg"
  by (simp_all add: put_state_def put_entry_fields split: option.split)

lemma resources_of_Ok:
  "resources_of sid inc rg = Ok r \<longleftrightarrow>
     (\<exists>e. entry_of sid rg = Some e \<and> ss_incarnation (en_state e) = inc \<and> r = en_resources e)"
  by (auto simp: resources_of_def split: if_splits)

lemma resources_of_no_panic [simp]: "resources_of sid inc rg \<noteq> Panic"
  by (cases "entry_of sid rg") (simp_all add: resources_of_def)

lemma owns_resources_iff:
  "owns_resources ow rg \<longleftrightarrow> ow_epoch ow = rg_epoch rg \<and>
     (\<exists>e. entry_of (ow_session_id ow) rg = Some e \<and> ss_incarnation (en_state e) = ow_incarnation ow)"
  by (simp add: owns_resources_def split: option.split)

section \<open>The countdown and the work of a session\<close>

text \<open>
  The countdown of a session is armed only when nothing is in flight: no observer, no turn, no
  operation, no load, no waiting view, no history workflow, no interaction with the user and no
  running terminal.
\<close>

theorem countdown_arms_only_when_idle:
  assumes "fst (refresh lifecycle (work_of e) seconds now (re_observers (en_resources e), h)) = Some t"
  shows "lifecycle = Some Active \<and> 0 \<le> seconds \<and>
    list_all (\<lambda>l. lease_is_cancelled (snd l) h) (ob_observers (re_observers (en_resources e))) \<and>
    \<not> ob_close_attempted (re_observers (en_resources e)) \<and>
    ss_active_turn (en_state e) = None \<and> ss_operation (en_state e) = None \<and>
    ss_load_attempt (en_state e) = None \<and>
    re_materialization (en_resources e) = None \<and> re_history_sync (en_resources e) = None \<and>
    pred_option (\<lambda>live. lv_permissions live = [] \<and> lv_elicitations live = [] \<and> lv_url_flows live = [] \<and>
        list_all (\<lambda>x. \<not> terminal_is_running (snd x)) (lv_terminals live)) (ss_live (en_state e)) \<and>
    ab_started t = now \<and> ab_timeout t = nat seconds * 1000000000"
proof -
  have r: "0 \<le> seconds" "lifecycle = Some Active" "work_of e = WorkIdle"
    "hm_retain (\<lambda>_ l. \<not> lease_is_cancelled l h) (ob_observers (re_observers (en_resources e))) = []"
    "\<not> ob_close_attempted (re_observers (en_resources e))"
    "ab_started t = now" "ab_timeout t = nat seconds * 1000000000"
    using assms by (auto simp: refresh_def Let_def permit_new_def split: if_splits)
  have "list_all (\<lambda>l. lease_is_cancelled (snd l) h) (ob_observers (re_observers (en_resources e)))"
    using r(4) by (simp add: hm_retain_def filter_empty_conv list_all_iff)
  with r show ?thesis
    by (auto simp: work_of_def Let_def list_all_iff list_ex_iff pred_option_def
        split: if_splits option.splits)
qed

lemma countdown_arms_only_when_idle_witness:
  "\<exists>t. fst (refresh (Some Active) (work_of (entry_new (session_cold ''s'' 1))) 5 7
          (re_observers (en_resources (entry_new (session_cold ''s'' 1))), handles_new)) = Some t \<and>
     ab_started t = 7"
proof -
  obtain t where t: "fst (refresh (Some Active) (work_of (entry_new (session_cold ''s'' 1))) 5 7
      (re_observers (en_resources (entry_new (session_cold ''s'' 1))), handles_new)) = Some t"
    by (simp add: work_of_def entry_new_def session_cold_def resources_default_def refresh_def Let_def
        observers_default_def hm_retain_def permit_new_def)
  with countdown_arms_only_when_idle [OF t] show ?thesis by auto
qed

section \<open>Routes lead to responders\<close>

text \<open>
  The contract of a kind of interaction: a global table of owners and, in the resources of the owner,
  the responder. Inserting adds both, taking removes both, and an error changes nothing.
\<close>

definition resp_view :: "(session_resources \<Rightarrow> (string, 'r) hash_map) \<Rightarrow> session_registry \<Rightarrow> string
    \<Rightarrow> (u64 \<times> (string, 'r) hash_map) option" where
  "resp_view resp rg k = map_option (\<lambda>e. (ss_incarnation (en_state e), resp (en_resources e))) (entry_of k rg)"

definition routes_exact :: "(string, resource_owner) hash_map \<Rightarrow> string
    \<Rightarrow> (string \<Rightarrow> (u64 \<times> (string, 'r) hash_map) option) \<Rightarrow> bool" where
  "routes_exact owners epoch view \<longleftrightarrow>
     (\<forall>iid ow. hm_get owners iid = Some ow \<longleftrightarrow>
        ow_epoch ow = epoch \<and>
        (\<exists>m. view (ow_session_id ow) = Some (ow_incarnation ow, m) \<and> hm_get m iid \<noteq> None))"

locale responder_routes =
  fixes tbl :: "session_registry \<Rightarrow> (string, resource_owner) hash_map"
    and resp :: "session_resources \<Rightarrow> (string, 'r) hash_map"
    and ins :: "resource_owner \<Rightarrow> string \<Rightarrow> 'r \<Rightarrow> session_registry \<Rightarrow> (mirror_error, unit) result \<times> session_registry"
    and tk :: "string \<Rightarrow> resource_owner \<Rightarrow> session_registry \<Rightarrow> 'r option \<times> session_registry"
  assumes ins_ok: "ins ow iid p rg = (Ok (), rg') \<Longrightarrow>
      \<exists>m. ow_epoch ow = rg_epoch rg \<and> resp_view resp rg (ow_session_id ow) = Some (ow_incarnation ow, m) \<and>
        hm_get (tbl rg) iid = None \<and> rg_epoch rg' = rg_epoch rg \<and> tbl rg' = hm_insert iid ow (tbl rg) \<and>
        resp_view resp rg' = (resp_view resp rg)(ow_session_id ow \<mapsto> (ow_incarnation ow, hm_insert iid p m))"
    and ins_err: "fst (ins ow iid p rg) \<noteq> Ok () \<Longrightarrow> snd (ins ow iid p rg) = rg"
    and tk_hit: "hm_get (tbl rg) iid = Some ow \<Longrightarrow>
        resp_view resp rg (ow_session_id ow) = Some (ow_incarnation ow, m) \<Longrightarrow> ow_epoch ow = rg_epoch rg \<Longrightarrow>
        fst (tk iid ow rg) = hm_get m iid \<and> rg_epoch (snd (tk iid ow rg)) = rg_epoch rg \<and>
        tbl (snd (tk iid ow rg)) = hm_remove iid (tbl rg) \<and>
        resp_view resp (snd (tk iid ow rg))
          = (resp_view resp rg)(ow_session_id ow \<mapsto> (ow_incarnation ow, hm_remove iid m))"
    and tk_miss: "hm_get (tbl rg) iid \<noteq> Some ow \<Longrightarrow> tk iid ow rg = (None, rg)"
begin

definition exact :: "session_registry \<Rightarrow> bool" where
  "exact rg \<longleftrightarrow> routes_exact (tbl rg) (rg_epoch rg) (resp_view resp rg)"

lemma exact_ins:
  assumes "exact rg"
  shows "exact (snd (ins ow iid p rg))"
proof (cases "fst (ins ow iid p rg) = Ok ()")
  case True
  then obtain rg' where i: "ins ow iid p rg = (Ok (), rg')" by (cases "ins ow iid p rg") auto
  from ins_ok [OF i] obtain m where m: "ow_epoch ow = rg_epoch rg"
    "resp_view resp rg (ow_session_id ow) = Some (ow_incarnation ow, m)" "hm_get (tbl rg) iid = None"
    "rg_epoch rg' = rg_epoch rg" "tbl rg' = hm_insert iid ow (tbl rg)"
    "resp_view resp rg' = (resp_view resp rg)(ow_session_id ow \<mapsto> (ow_incarnation ow, hm_insert iid p m))"
    by blast
  have none: "hm_get m' iid = None" if "resp_view resp rg k = Some (inc', m')" for k inc' m'
  proof (rule ccontr)
    assume "hm_get m' iid \<noteq> None"
    with that assms have "hm_get (tbl rg) iid = Some \<lparr>ow_epoch = rg_epoch rg, ow_session_id = k, ow_incarnation = inc'\<rparr>"
      by (simp add: exact_def routes_exact_def)
    with m(3) show False by simp
  qed
  have "hm_get (tbl rg') i = Some w \<longleftrightarrow> ow_epoch w = rg_epoch rg' \<and>
      (\<exists>m. resp_view resp rg' (ow_session_id w) = Some (ow_incarnation w, m) \<and> hm_get m i \<noteq> None)" for i w
  proof (cases "i = iid")
    case True
    have "w = ow" if "ow_epoch w = rg_epoch rg" "ow_session_id w = ow_session_id ow" "ow_incarnation w = ow_incarnation ow"
      using that m(1) by simp
    with True m none show ?thesis by (auto simp: hm.get_put)
  next
    case False
    with m assms show ?thesis by (auto simp: hm.get_put exact_def routes_exact_def)
  qed
  then show ?thesis by (simp add: i exact_def routes_exact_def)
next
  case False
  with ins_err assms show ?thesis by simp
qed

lemma exact_tk:
  assumes "exact rg"
  shows "exact (snd (tk iid ow rg))"
    and "hm_get (tbl rg) iid = Some ow \<longleftrightarrow> fst (tk iid ow rg) \<noteq> None"
proof -
  have "exact (snd (tk iid ow rg)) \<and> (hm_get (tbl rg) iid = Some ow \<longleftrightarrow> fst (tk iid ow rg) \<noteq> None)"
  proof (cases "hm_get (tbl rg) iid = Some ow")
    case True
    with assms obtain m where m: "ow_epoch ow = rg_epoch rg"
      "resp_view resp rg (ow_session_id ow) = Some (ow_incarnation ow, m)" "hm_get m iid \<noteq> None"
      by (auto simp: exact_def routes_exact_def)
    note t = tk_hit [OF True m(2,1)]
    have only: "hm_get m' iid = None" if "resp_view resp rg k = Some (inc', m')" "k \<noteq> ow_session_id ow" for k inc' m'
    proof (rule ccontr)
      assume "hm_get m' iid \<noteq> None"
      with that(1) assms have "hm_get (tbl rg) iid = Some \<lparr>ow_epoch = rg_epoch rg, ow_session_id = k, ow_incarnation = inc'\<rparr>"
        by (simp add: exact_def routes_exact_def)
      with True that(2) show False by auto
    qed
    have "hm_get (tbl (snd (tk iid ow rg))) i = Some w \<longleftrightarrow> ow_epoch w = rg_epoch (snd (tk iid ow rg)) \<and>
      (\<exists>m. resp_view resp (snd (tk iid ow rg)) (ow_session_id w) = Some (ow_incarnation w, m) \<and> hm_get m i \<noteq> None)" for i w
    proof (cases "i = iid")
      case i: True
      with t only show ?thesis by (auto simp: hm.get_del)
    next
      case False
      with t m assms show ?thesis by (auto simp: hm.get_del exact_def routes_exact_def)
    qed
    with t m True show ?thesis by (simp add: exact_def routes_exact_def)
  next
    case False
    with tk_miss [OF False] assms show ?thesis by simp
  qed
  then show "exact (snd (tk iid ow rg))" "hm_get (tbl rg) iid = Some ow \<longleftrightarrow> fst (tk iid ow rg) \<noteq> None"
    by auto
qed

lemma taken_once:
  assumes "exact rg" "fst (tk iid ow rg) \<noteq> None"
  shows "fst (tk iid ow' (snd (tk iid ow rg))) = None"
proof -
  have h: "hm_get (tbl rg) iid = Some ow" using exact_tk(2) [OF assms(1)] assms(2) by blast
  with assms(1) obtain m where m: "ow_epoch ow = rg_epoch rg"
    "resp_view resp rg (ow_session_id ow) = Some (ow_incarnation ow, m)"
    by (auto simp: exact_def routes_exact_def)
  have "hm_get (tbl (snd (tk iid ow rg))) iid = None"
    using tk_hit [OF h m(2,1)] by (simp add: hm.get_del)
  then show ?thesis by (simp add: tk_miss)
qed

lemma exact_cong:
  "tbl rg' = tbl rg \<Longrightarrow> rg_epoch rg' = rg_epoch rg \<Longrightarrow> resp_view resp rg' = resp_view resp rg \<Longrightarrow>
    exact rg' = exact rg"
  by (simp add: exact_def)

end

lemma resp_view_put_resources:
  "entry_of sid rg = Some e \<Longrightarrow>
    resp_view resp (put_resources sid r rg) = (resp_view resp rg)(sid \<mapsto> (ss_incarnation (en_state e), resp r))"
  by (simp add: resp_view_def fun_eq_iff registry_simps)

lemma resp_view_fields [registry_simps]:
  "resp_view resp (rg\<lparr>rg_permission_owners := a\<rparr>) = resp_view resp rg"
  "resp_view resp (rg\<lparr>rg_elicitation_owners := a\<rparr>) = resp_view resp rg"
  "resp_view resp (rg\<lparr>rg_url_owners := b\<rparr>) = resp_view resp rg"
  "resp_view resp (rg\<lparr>rg_handles := h\<rparr>) = resp_view resp rg"
  by (simp_all add: resp_view_def fun_eq_iff registry_simps)

lemma resp_view_Some:
  "resp_view resp rg k = Some (inc, m) \<longleftrightarrow>
    (\<exists>e. entry_of k rg = Some e \<and> ss_incarnation (en_state e) = inc \<and> resp (en_resources e) = m)"
  by (auto simp: resp_view_def)

lemma owns_resources_fields [registry_simps]:
  "owns_resources ow (rg\<lparr>rg_permission_owners := a\<rparr>) = owns_resources ow rg"
  "owns_resources ow (rg\<lparr>rg_elicitation_owners := a\<rparr>) = owns_resources ow rg"
  "owns_resources ow (rg\<lparr>rg_url_owners := b\<rparr>) = owns_resources ow rg"
  "owns_resources ow (rg\<lparr>rg_handles := h\<rparr>) = owns_resources ow rg"
  by (simp_all add: owns_resources_def registry_simps)

lemma resources_of_fields [registry_simps]:
  "resources_of sid inc (rg\<lparr>rg_permission_owners := a\<rparr>) = resources_of sid inc rg"
  "resources_of sid inc (rg\<lparr>rg_elicitation_owners := a\<rparr>) = resources_of sid inc rg"
  by (simp_all add: resources_of_def registry_simps)

interpretation pr: responder_routes rg_permission_owners re_permissions insert_permission take_permission
proof unfold_locales
  fix ow iid p rg rg'
  assume "insert_permission ow iid p rg = (Ok (), rg')"
  then show "\<exists>m. ow_epoch ow = rg_epoch rg \<and> resp_view re_permissions rg (ow_session_id ow) = Some (ow_incarnation ow, m) \<and>
        hm_get (rg_permission_owners rg) iid = None \<and> rg_epoch rg' = rg_epoch rg \<and>
        rg_permission_owners rg' = hm_insert iid ow (rg_permission_owners rg) \<and>
        resp_view re_permissions rg'
          = (resp_view re_permissions rg)(ow_session_id ow \<mapsto> (ow_incarnation ow, hm_insert iid p m))"
    by (auto simp: insert_permission_def owns_resources_iff resources_of_Ok try_in_eq_Ok resp_view_Some
        resp_view_put_resources registry_simps split: if_splits)
next
  fix ow iid p rg
  assume "fst (insert_permission ow iid p rg) \<noteq> Ok ()"
  then show "snd (insert_permission ow iid p rg) = rg"
    by (cases "resources_of (ow_session_id ow) (ow_incarnation ow) rg")
       (auto simp: insert_permission_def Let_def split: if_splits)
next
  fix rg iid ow m
  assume h: "hm_get (rg_permission_owners rg) iid = Some ow"
    and v: "resp_view re_permissions rg (ow_session_id ow) = Some (ow_incarnation ow, m)"
    and e: "ow_epoch ow = rg_epoch rg"
  from v obtain en where en: "entry_of (ow_session_id ow) rg = Some en"
    "ss_incarnation (en_state en) = ow_incarnation ow" "re_permissions (en_resources en) = m"
    by (auto simp: resp_view_Some)
  then have "resources_of (ow_session_id ow) (ow_incarnation ow) rg = Ok (en_resources en)"
    by (simp add: resources_of_Ok)
  with h e en show "fst (take_permission iid ow rg) = hm_get m iid \<and> rg_epoch (snd (take_permission iid ow rg)) = rg_epoch rg \<and>
        rg_permission_owners (snd (take_permission iid ow rg)) = hm_remove iid (rg_permission_owners rg) \<and>
        resp_view re_permissions (snd (take_permission iid ow rg))
          = (resp_view re_permissions rg)(ow_session_id ow \<mapsto> (ow_incarnation ow, hm_remove iid m))"
    by (simp add: take_permission_def Let_def owns_resources_iff resp_view_put_resources registry_simps)
qed (simp add: take_permission_def)

interpretation er: responder_routes rg_elicitation_owners re_elicitations insert_elicitation take_elicitation
proof unfold_locales
  fix ow iid p rg rg'
  assume "insert_elicitation ow iid p rg = (Ok (), rg')"
  then show "\<exists>m. ow_epoch ow = rg_epoch rg \<and> resp_view re_elicitations rg (ow_session_id ow) = Some (ow_incarnation ow, m) \<and>
        hm_get (rg_elicitation_owners rg) iid = None \<and> rg_epoch rg' = rg_epoch rg \<and>
        rg_elicitation_owners rg' = hm_insert iid ow (rg_elicitation_owners rg) \<and>
        resp_view re_elicitations rg'
          = (resp_view re_elicitations rg)(ow_session_id ow \<mapsto> (ow_incarnation ow, hm_insert iid p m))"
    by (auto simp: insert_elicitation_def owns_resources_iff resources_of_Ok try_in_eq_Ok resp_view_Some
        resp_view_put_resources registry_simps split: if_splits)
next
  fix ow iid p rg
  assume "fst (insert_elicitation ow iid p rg) \<noteq> Ok ()"
  then show "snd (insert_elicitation ow iid p rg) = rg"
    by (cases "resources_of (ow_session_id ow) (ow_incarnation ow) rg")
       (auto simp: insert_elicitation_def Let_def split: if_splits)
next
  fix rg iid ow m
  assume h: "hm_get (rg_elicitation_owners rg) iid = Some ow"
    and v: "resp_view re_elicitations rg (ow_session_id ow) = Some (ow_incarnation ow, m)"
    and e: "ow_epoch ow = rg_epoch rg"
  from v obtain en where en: "entry_of (ow_session_id ow) rg = Some en"
    "ss_incarnation (en_state en) = ow_incarnation ow" "re_elicitations (en_resources en) = m"
    by (auto simp: resp_view_Some)
  then have "resources_of (ow_session_id ow) (ow_incarnation ow) rg = Ok (en_resources en)"
    by (simp add: resources_of_Ok)
  with h e en show "fst (take_elicitation iid ow rg) = hm_get m iid \<and> rg_epoch (snd (take_elicitation iid ow rg)) = rg_epoch rg \<and>
        rg_elicitation_owners (snd (take_elicitation iid ow rg)) = hm_remove iid (rg_elicitation_owners rg) \<and>
        resp_view re_elicitations (snd (take_elicitation iid ow rg))
          = (resp_view re_elicitations rg)(ow_session_id ow \<mapsto> (ow_incarnation ow, hm_remove iid m))"
    by (simp add: take_elicitation_def Let_def owns_resources_iff resp_view_put_resources registry_simps)
qed (simp add: take_elicitation_def)

definition routes_inv :: "session_registry \<Rightarrow> bool" where
  "routes_inv rg \<longleftrightarrow>
     bt_wf (rg_sessions rg) \<and> hm_wf (rg_permission_owners rg) \<and> hm_wf (rg_elicitation_owners rg) \<and>
     hm_wf (rg_url_owners rg) \<and>
     routes_exact (rg_permission_owners rg) (rg_epoch rg) (resp_view re_permissions rg) \<and>
     routes_exact (rg_elicitation_owners rg) (rg_epoch rg) (resp_view re_elicitations rg) \<and>
     (\<forall>u reg ow. hm_get (rg_url_owners rg) u = Some reg \<longrightarrow> ur_owner reg = Some ow \<longrightarrow> owns_resources ow rg)"

text \<open>
  Every operation of the registry, and the two ways in which the other components change an entry: its
  state, under the same incarnation, and a new entry with fresh resources. The history workflows and
  the observers touch neither routes nor responders.
\<close>

inductive route_step :: "session_registry \<Rightarrow> session_registry \<Rightarrow> bool" where
  rs_insert_permission: "route_step rg (snd (insert_permission ow iid p rg))"
| rs_take_permission: "route_step rg (snd (take_permission iid ow rg))"
| rs_insert_elicitation: "route_step rg (snd (insert_elicitation ow iid q rg))"
| rs_take_elicitation: "route_step rg (snd (take_elicitation iid ow rg))"
| rs_register_url: "route_step rg (snd (register_url_route u owner rg))"
| rs_take_url: "route_step rg (snd (take_url_route u reg rg))"
| rs_begin_sync: "route_step rg (snd (begin_history_sync sync rg))"
| rs_supersede_sync: "route_step rg (supersede_history_sync sid inc rg)"
| rs_finish_sync: "route_step rg (finish_history_sync sync rg)"
| rs_cancel: "route_step rg (cancel_resources sid inc reason rg)"
| rs_retire: "route_step rg (retire_entry sid inc reason rg)"
| rs_state: "entry_of sid rg = Some e \<Longrightarrow> ss_incarnation s = ss_incarnation (en_state e) \<Longrightarrow>
    route_step rg (put_state sid s rg)"
| rs_new: "entry_of sid rg = None \<Longrightarrow> route_step rg (put_entry sid (entry_new s) rg)"

definition same_routes :: "session_registry \<Rightarrow> session_registry \<Rightarrow> bool" where
  "same_routes rg rg' \<longleftrightarrow>
     rg_epoch rg' = rg_epoch rg \<and> rg_permission_owners rg' = rg_permission_owners rg \<and>
     rg_elicitation_owners rg' = rg_elicitation_owners rg \<and> rg_url_owners rg' = rg_url_owners rg \<and>
     resp_view re_permissions rg' = resp_view re_permissions rg \<and>
     resp_view re_elicitations rg' = resp_view re_elicitations rg \<and>
     (bt_wf (rg_sessions rg) \<longrightarrow> bt_wf (rg_sessions rg'))"

lemma owns_resources_view:
  "owns_resources ow rg \<longleftrightarrow> ow_epoch ow = rg_epoch rg \<and>
    (\<exists>m. resp_view resp rg (ow_session_id ow) = Some (ow_incarnation ow, m))"
  by (auto simp: owns_resources_iff resp_view_Some)

lemma same_routes_inv: "same_routes rg rg' \<Longrightarrow> routes_inv rg \<Longrightarrow> routes_inv rg'"
  by (auto simp: same_routes_def routes_inv_def owns_resources_view [where resp = re_permissions])

lemma same_routes_refl [simp]: "same_routes rg rg"
  by (simp add: same_routes_def)

lemma same_routes_trans: "same_routes a b \<Longrightarrow> same_routes b c \<Longrightarrow> same_routes a c"
  by (auto simp: same_routes_def)

lemma bt_wf_put_entry: "bt_wf (rg_sessions rg) \<Longrightarrow> bt_wf (rg_sessions (put_entry sid e rg))"
  by (simp add: put_entry_def bt.wf_put)

lemma bt_wf_put_resources: "bt_wf (rg_sessions rg) \<Longrightarrow> bt_wf (rg_sessions (put_resources sid r rg))"
  by (simp add: put_resources_def bt_wf_put_entry split: option.split)

lemma bt_wf_put_state: "bt_wf (rg_sessions rg) \<Longrightarrow> bt_wf (rg_sessions (put_state sid s rg))"
  by (simp add: put_state_def bt_wf_put_entry split: option.split)

lemma same_routes_put_resources:
  assumes "entry_of sid rg = Some e" "re_permissions r = re_permissions (en_resources e)"
    "re_elicitations r = re_elicitations (en_resources e)"
  shows "same_routes rg (put_resources sid r rg)"
  using assms
  by (auto simp: same_routes_def registry_simps resp_view_put_resources fun_eq_iff resp_view_def bt_wf_put_resources)

lemma same_routes_handles: "same_routes rg (rg\<lparr>rg_handles := h\<rparr>)"
  by (simp add: same_routes_def registry_simps)

lemma same_routes_put_state:
  assumes "entry_of sid rg = Some e" "ss_incarnation s = ss_incarnation (en_state e)"
  shows "same_routes rg (put_state sid s rg)"
  using assms
  by (auto simp: same_routes_def registry_simps fun_eq_iff resp_view_def bt_wf_put_state)

lemma same_routes_sync: "same_routes rg (set_history_sync sid v rg)"
  by (auto simp: set_history_sync_def same_routes_put_resources split: option.split)

lemma same_routes_stop_absence: "same_routes rg (stop_absence_in sid rg)"
proof (cases "entry_of sid rg")
  case (Some e)
  obtain obs h where o: "stop_absence (re_observers (en_resources e), rg_handles rg) = (obs, h)" by fastforce
  have "same_routes (rg\<lparr>rg_handles := h\<rparr>)
      (put_resources sid (en_resources e\<lparr>re_observers := obs\<rparr>) (rg\<lparr>rg_handles := h\<rparr>))"
    by (rule same_routes_put_resources [where e = e]) (simp_all add: Some registry_simps)
  with same_routes_trans [OF same_routes_handles] show ?thesis by (simp add: stop_absence_in_def Some o)
qed (simp add: stop_absence_in_def)

lemma routes_exact_retain:
  assumes "routes_exact owners epoch view" "hm_wf owners"
    and "owner = \<lparr>ow_epoch = epoch, ow_session_id = sid, ow_incarnation = inc\<rparr>"
    and "\<And>k. k \<noteq> sid \<Longrightarrow> view' k = view k"
    and "view' sid = None \<or> view' sid = Some (inc, [])"
    and "\<exists>m. view sid = Some (inc, m)"
  shows "routes_exact (hm_retain (\<lambda>_ route. route \<noteq> owner) owners) epoch view'"
proof -
  have "hm_get (hm_retain (\<lambda>_ route. route \<noteq> owner) owners) iid = Some ow \<longleftrightarrow>
      hm_get owners iid = Some ow \<and> ow \<noteq> owner" for iid ow
    by (auto simp: hm.get_retain [OF assms(2)] split: option.splits)
  moreover have "ow_session_id ow = sid \<longleftrightarrow> ow = owner"
    if "ow_epoch ow = epoch" "\<exists>m. view (ow_session_id ow) = Some (ow_incarnation ow, m)" for ow
    using that assms(3,6) by (cases ow) auto
  ultimately show ?thesis
    using assms(1,4,5) unfolding routes_exact_def by (metis hm.get_nil option.discI option.inject prod.inject)
qed

lemma resources_cancel_fields:
  assumes "resources_cancel reason (r, h) = (r', h')"
  shows "re_permissions r' = []" "re_elicitations r' = []"
  using assms by (auto simp: resources_cancel_def Let_def split: prod.splits)

lemma cancel_resources_routes:
  assumes "routes_inv rg"
  shows "routes_inv (cancel_resources sid inc reason rg)"
proof (cases "\<exists>e. entry_of sid rg = Some e \<and> ss_incarnation (en_state e) = inc")
  case True
  then obtain e where e: "entry_of sid rg = Some e" "ss_incarnation (en_state e) = inc" by blast
  obtain r h where rc: "resources_cancel reason (en_resources e, rg_handles rg) = (r, h)" by fastforce
  define owner where "owner = \<lparr>ow_epoch = rg_epoch rg, ow_session_id = sid, ow_incarnation = inc\<rparr>"
  define rg1 where "rg1 = rg\<lparr>rg_permission_owners := hm_retain (\<lambda>_ route. route \<noteq> owner) (rg_permission_owners rg),
      rg_elicitation_owners := hm_retain (\<lambda>_ route. route \<noteq> owner) (rg_elicitation_owners rg),
      rg_url_owners := hm_retain (\<lambda>_ route. ur_owner route \<noteq> Some owner) (rg_url_owners rg),
      rg_handles := h\<rparr>"
  have c: "cancel_resources sid inc reason rg = put_resources sid r rg1"
    by (simp add: cancel_resources_def e rc owner_def rg1_def Let_def)
  have e1: "entry_of sid rg1 = Some e" by (simp add: rg1_def registry_simps e)
  have v': "resp_view re_elicitations (put_resources sid r rg1) = (resp_view re_elicitations rg)(sid \<mapsto> (inc, re_elicitations r))"
    using resp_view_put_resources [OF e1, of re_elicitations r] e by (simp add: rg1_def registry_simps)
  have v2: "resp_view re_permissions (put_resources sid r rg1) = (resp_view re_permissions rg)(sid \<mapsto> (inc, re_permissions r))"
    using resp_view_put_resources [OF e1, of re_permissions r] e by (simp add: rg1_def registry_simps)
  note f = resources_cancel_fields [OF rc]
  have p: "routes_exact (hm_retain (\<lambda>_ route. route \<noteq> owner) (rg_permission_owners rg)) (rg_epoch rg)
      ((resp_view re_permissions rg)(sid \<mapsto> (inc, [])))"
    by (rule routes_exact_retain [OF _ _ owner_def, where view = "resp_view re_permissions rg"])
       (use assms e in \<open>auto simp: routes_inv_def resp_view_Some\<close>)
  have q: "routes_exact (hm_retain (\<lambda>_ route. route \<noteq> owner) (rg_elicitation_owners rg)) (rg_epoch rg)
      ((resp_view re_elicitations rg)(sid \<mapsto> (inc, [])))"
    by (rule routes_exact_retain [OF _ _ owner_def, where view = "resp_view re_elicitations rg"])
       (use assms e in \<open>auto simp: routes_inv_def resp_view_Some\<close>)
  have o: "owns_resources ow (put_resources sid r rg1) = owns_resources ow rg" for ow
    by (auto simp: owns_resources_view [where resp = re_permissions] v2 registry_simps rg1_def resp_view_Some e)
  have w: "bt_wf (rg_sessions rg1)" using assms by (simp add: rg1_def routes_inv_def)
  have u: "\<forall>x reg ow. hm_get (hm_retain (\<lambda>_ route. ur_owner route \<noteq> Some owner) (rg_url_owners rg)) x = Some reg \<longrightarrow>
      ur_owner reg = Some ow \<longrightarrow> owns_resources ow rg"
    using assms by (auto simp: routes_inv_def hm.get_retain split: option.splits if_splits)
  show ?thesis
    using assms p q u bt_wf_put_resources [OF w, of sid r]
    unfolding c routes_inv_def v2 v' f o
    by (simp add: registry_simps rg1_def hm.wf_retain)
next
  case False
  with assms show ?thesis by (auto simp: cancel_resources_def split: option.split)
qed

lemma retire_entry_routes:
  assumes "routes_inv rg"
  shows "routes_inv (retire_entry sid inc reason rg)"
proof (cases "\<exists>e. entry_of sid rg = Some e \<and> ss_incarnation (en_state e) = inc")
  case True
  then obtain e where e: "entry_of sid rg = Some e" "ss_incarnation (en_state e) = inc" by blast
  define rg1 where "rg1 = cancel_resources sid inc reason rg"
  have i: "routes_inv rg1" unfolding rg1_def by (rule cancel_resources_routes [OF assms])
  obtain r h where rc: "resources_cancel reason (en_resources e, rg_handles rg) = (r, h)" by fastforce
  note f = resources_cancel_fields [OF rc]
  have e1: "entry_of sid rg1 = Some (e\<lparr>en_resources := r\<rparr>)"
    by (simp add: rg1_def cancel_resources_def e rc Let_def registry_simps)
  let ?rg2 = "rg1\<lparr>rg_sessions := bt_remove sid (rg_sessions rg1), rg_retired_ids := List.insert sid (rg_retired_ids rg1)\<rparr>"
  have v: "resp_view re_permissions ?rg2 = (resp_view re_permissions rg1)(sid := None)"
    "resp_view re_elicitations ?rg2 = (resp_view re_elicitations rg1)(sid := None)"
    by (simp_all add: resp_view_def fun_eq_iff registry_simps bt.get_del entry_of_def)
  have none: "ow_session_id ow \<noteq> sid \<or> hm_get (rg_permission_owners rg1) iid \<noteq> Some ow"
    "ow_session_id ow \<noteq> sid \<or> hm_get (rg_elicitation_owners rg1) iid \<noteq> Some ow" for ow iid
    using i e1 f by (auto simp: routes_inv_def routes_exact_def resp_view_Some hm.get_nil)
  have u: "ow_session_id ow \<noteq> sid" if "hm_get (rg_url_owners rg1) x = Some reg" "ur_owner reg = Some ow" for x reg ow
  proof
    assume s: "ow_session_id ow = sid"
    have "hm_get (hm_retain (\<lambda>_ route. ur_owner route \<noteq>
        Some \<lparr>ow_epoch = rg_epoch rg, ow_session_id = sid, ow_incarnation = inc\<rparr>) (rg_url_owners rg)) x = Some reg"
      using that(1) by (simp add: rg1_def cancel_resources_def e rc Let_def registry_simps)
    then have "ow \<noteq> \<lparr>ow_epoch = rg_epoch rg, ow_session_id = sid, ow_incarnation = inc\<rparr>"
      using that(2) assms by (auto simp: hm.get_retain routes_inv_def split: option.splits if_splits)
    moreover have "owns_resources ow rg1" using i that by (simp add: routes_inv_def)
    ultimately show False
      using s e1 e(2) by (cases ow) (simp add: owns_resources_iff rg1_def cancel_resources_def e rc Let_def registry_simps)
  qed
  have "routes_inv ?rg2"
    using i none u unfolding routes_inv_def v owns_resources_view [where resp = re_permissions]
    by (auto simp: routes_exact_def bt.wf_del)
  then show ?thesis by (simp add: retire_entry_def e rg1_def Let_def)
next
  case False
  with assms show ?thesis by (auto simp: retire_entry_def split: option.split)
qed

lemma routes_inv_exact:
  "routes_inv rg \<Longrightarrow> pr.exact rg" "routes_inv rg \<Longrightarrow> er.exact rg"
  by (simp_all add: routes_inv_def pr.exact_def er.exact_def)

text \<open>The permission and elicitation operations leave each other's views and the URL routes alone.\<close>

definition other_routes_kept :: "session_registry \<Rightarrow> session_registry \<Rightarrow> bool" where
  "other_routes_kept rg rg' \<longleftrightarrow>
     rg_epoch rg' = rg_epoch rg \<and> rg_url_owners rg' = rg_url_owners rg \<and>
     (\<forall>k. map_option (\<lambda>e. ss_incarnation (en_state e)) (entry_of k rg')
        = map_option (\<lambda>e. ss_incarnation (en_state e)) (entry_of k rg)) \<and>
     (bt_wf (rg_sessions rg) \<longrightarrow> bt_wf (rg_sessions rg'))"

lemma other_routes_kept_owns: "other_routes_kept rg rg' \<Longrightarrow> owns_resources ow rg' = owns_resources ow rg"
proof -
  assume k: "other_routes_kept rg rg'"
  have "owns_resources ow r \<longleftrightarrow> ow_epoch ow = rg_epoch r \<and>
      map_option (\<lambda>e. ss_incarnation (en_state e)) (entry_of (ow_session_id ow) r) = Some (ow_incarnation ow)" for r
    by (auto simp: owns_resources_iff)
  then show ?thesis using k by (simp only: other_routes_kept_def)
qed

lemma interaction_ops_keep:
  "other_routes_kept rg (snd (insert_permission ow iid p rg))"
  "other_routes_kept rg (snd (take_permission iid ow rg))"
  "other_routes_kept rg (snd (insert_elicitation ow iid q rg))"
  "other_routes_kept rg (snd (take_elicitation iid ow rg))"
  by (auto simp: other_routes_kept_def insert_permission_def take_permission_def insert_elicitation_def
      take_elicitation_def Let_def registry_simps resources_of_def try_in_def res_bind_def ok_or_def
      bt_wf_put_resources split: option.splits result.splits if_splits)

lemma permission_ops_keep_elicitations:
  "resp_view re_elicitations (snd (insert_permission ow iid p rg)) = resp_view re_elicitations rg"
  "resp_view re_elicitations (snd (take_permission iid ow rg)) = resp_view re_elicitations rg"
  "rg_elicitation_owners (snd (insert_permission ow iid p rg)) = rg_elicitation_owners rg"
  "rg_elicitation_owners (snd (take_permission iid ow rg)) = rg_elicitation_owners rg"
  by (auto simp: insert_permission_def take_permission_def Let_def registry_simps resources_of_def try_in_def
      res_bind_def ok_or_def resp_view_def fun_eq_iff split: option.splits result.splits if_splits)

lemma elicitation_ops_keep_permissions:
  "resp_view re_permissions (snd (insert_elicitation ow iid q rg)) = resp_view re_permissions rg"
  "resp_view re_permissions (snd (take_elicitation iid ow rg)) = resp_view re_permissions rg"
  "rg_permission_owners (snd (insert_elicitation ow iid q rg)) = rg_permission_owners rg"
  "rg_permission_owners (snd (take_elicitation iid ow rg)) = rg_permission_owners rg"
  by (auto simp: insert_elicitation_def take_elicitation_def Let_def registry_simps resources_of_def try_in_def
      res_bind_def ok_or_def resp_view_def fun_eq_iff split: option.splits result.splits if_splits)

lemma interaction_ops_wf:
  "hm_wf (rg_permission_owners rg) \<Longrightarrow> hm_wf (rg_permission_owners (snd (insert_permission ow iid p rg)))"
  "hm_wf (rg_permission_owners rg) \<Longrightarrow> hm_wf (rg_permission_owners (snd (take_permission iid ow rg)))"
  "hm_wf (rg_elicitation_owners rg) \<Longrightarrow> hm_wf (rg_elicitation_owners (snd (insert_elicitation ow iid q rg)))"
  "hm_wf (rg_elicitation_owners rg) \<Longrightarrow> hm_wf (rg_elicitation_owners (snd (take_elicitation iid ow rg)))"
  by (auto simp: insert_permission_def take_permission_def insert_elicitation_def take_elicitation_def Let_def
      registry_simps try_in_def hm.wf_put hm.wf_del split: option.splits result.splits if_splits)

lemma interaction_ops_routes:
  assumes "routes_inv rg"
  shows "routes_inv (snd (insert_permission ow iid p rg))" "routes_inv (snd (take_permission iid ow rg))"
    "routes_inv (snd (insert_elicitation ow iid q rg))" "routes_inv (snd (take_elicitation iid ow rg))"
  using assms
    interaction_ops_keep(1) [of rg ow iid p] interaction_ops_keep(2) [where rg = rg and iid = iid and ow = ow]
    interaction_ops_keep(3) [of rg ow iid q] interaction_ops_keep(4) [where rg = rg and iid = iid and ow = ow]
    pr.exact_ins [OF routes_inv_exact(1) [OF assms], of ow iid p]
    pr.exact_tk(1) [OF routes_inv_exact(1) [OF assms], of iid ow]
    er.exact_ins [OF routes_inv_exact(2) [OF assms], of ow iid q]
    er.exact_tk(1) [OF routes_inv_exact(2) [OF assms], of iid ow]
  unfolding routes_inv_def pr.exact_def er.exact_def
  by (simp_all add: interaction_ops_wf permission_ops_keep_elicitations elicitation_ops_keep_permissions
      other_routes_kept_owns, simp_all add: other_routes_kept_def)

lemma routes_inv_url:
  assumes "routes_inv rg" "hm_wf m"
    and "\<And>u reg ow. hm_get m u = Some reg \<Longrightarrow> ur_owner reg = Some ow \<Longrightarrow> owns_resources ow rg"
  shows "routes_inv (rg\<lparr>rg_url_owners := m\<rparr>)"
  using assms by (auto simp: routes_inv_def registry_simps)

lemma url_ops_routes:
  assumes "routes_inv rg"
  shows "routes_inv (snd (register_url_route u owner rg))" "routes_inv (snd (take_url_route u reg rg))"
proof -
  have w: "hm_wf (rg_url_owners rg)" using assms by (simp add: routes_inv_def)
  have own: "owns_resources ow rg" if "hm_get (rg_url_owners rg) x = Some r" "ur_owner r = Some ow" for x r ow
    using assms that by (simp add: routes_inv_def)
  show "routes_inv (snd (take_url_route u reg rg))"
    using assms own
    by (auto simp: take_url_route_def hm.get_del hm.wf_del [OF w] intro!: routes_inv_url split: if_splits)
  have "routes_inv (rg\<lparr>rg_url_owners := hm_insert u \<lparr>ur_owner = owner, ur_registration_id = x\<rparr> (rg_url_owners rg)\<rparr>)"
    if "\<forall>ow. owner = Some ow \<longrightarrow> owns_resources ow rg" for x
    using assms own that by (auto simp: hm.get_put hm.wf_put [OF w] intro!: routes_inv_url split: if_splits)
  with assms show "routes_inv (snd (register_url_route u owner rg))"
    unfolding register_url_route_def
    by (intro if_snd [where P = routes_inv] try_in_snd [where P = routes_inv])
       (auto split: option.splits)
qed

lemma sync_ops_routes:
  assumes "routes_inv rg"
  shows "routes_inv (snd (begin_history_sync sync rg))" "routes_inv (supersede_history_sync sid inc rg)"
    "routes_inv (finish_history_sync sync rg)"
proof -
  note set = same_routes_inv [OF same_routes_sync]
  show "routes_inv (snd (begin_history_sync sync rg))"
    unfolding begin_history_sync_def Let_def
    by (intro if_snd [where P = routes_inv] try_in_snd [where P = routes_inv])
       (simp_all add: assms set same_routes_inv [OF same_routes_stop_absence])
  show "routes_inv (supersede_history_sync sid inc rg)" "routes_inv (finish_history_sync sync rg)"
    using assms by (auto simp: supersede_history_sync_def finish_history_sync_def set split: result.splits option.splits)
qed

lemma new_entry_routes:
  assumes "routes_inv rg" "entry_of sid rg = None"
  shows "routes_inv (put_entry sid (entry_new s) rg)"
proof -
  have v: "resp_view re_permissions (put_entry sid (entry_new s) rg)
      = (resp_view re_permissions rg)(sid \<mapsto> (ss_incarnation s, []))"
    "resp_view re_elicitations (put_entry sid (entry_new s) rg)
      = (resp_view re_elicitations rg)(sid \<mapsto> (ss_incarnation s, []))"
    by (simp_all add: resp_view_def fun_eq_iff registry_simps entry_new_def resources_default_def)
  have n: "resp_view re_permissions rg sid = None" "resp_view re_elicitations rg sid = None"
    using assms(2) by (simp_all add: resp_view_def)
  have "ow_session_id ow \<noteq> sid \<and> owns_resources ow (put_entry sid (entry_new s) rg)"
    if "hm_get (rg_url_owners rg) u = Some reg" "ur_owner reg = Some ow" for u reg ow
  proof -
    have "owns_resources ow rg" using assms(1) that by (simp add: routes_inv_def)
    with assms(2) show ?thesis by (auto simp: owns_resources_iff registry_simps)
  qed
  with assms(1) n show ?thesis unfolding routes_inv_def v
    by (auto simp: routes_exact_def registry_simps bt_wf_put_entry hm.get_nil)
qed

lemma route_step_inv: "route_step rg rg' \<Longrightarrow> routes_inv rg \<Longrightarrow> routes_inv rg'"
  by (induction rule: route_step.induct)
     (simp_all add: interaction_ops_routes url_ops_routes sync_ops_routes cancel_resources_routes
       retire_entry_routes new_entry_routes same_routes_inv [OF same_routes_put_state])

lemma registry_new_routes: "routes_inv (registry_new epoch)"
  by (simp add: routes_inv_def registry_new_def routes_exact_def resp_view_def entry_of_def bt.get_nil hm.get_nil
      bt.wf_nil hm.wf_nil)

text \<open>
  (C15) Routes are exact: in every state of a registry, a permission or elicitation is routed to an
  owner exactly when that owner is the current incarnation of a session and holds its responder; a
  URL flow is routed to current owners only; and a responder is handed out at most once.
\<close>

theorem routes_lead_to_responders:
  assumes "route_step\<^sup>*\<^sup>* (registry_new epoch) rg"
  shows "routes_exact (rg_permission_owners rg) (rg_epoch rg) (resp_view re_permissions rg) \<and>
    routes_exact (rg_elicitation_owners rg) (rg_epoch rg) (resp_view re_elicitations rg) \<and>
    (\<forall>u reg. hm_get (rg_url_owners rg) u = Some reg \<longrightarrow> pred_option (\<lambda>ow. owns_resources ow rg) (ur_owner reg)) \<and>
    (\<forall>iid ow ow'. fst (take_permission iid ow rg) \<noteq> None \<longrightarrow>
       fst (take_permission iid ow' (snd (take_permission iid ow rg))) = None) \<and>
    (\<forall>iid ow ow'. fst (take_elicitation iid ow rg) \<noteq> None \<longrightarrow>
       fst (take_elicitation iid ow' (snd (take_elicitation iid ow rg))) = None)"
proof -
  have "routes_inv rg"
    using assms by (induction rule: rtranclp_induct) (simp_all add: registry_new_routes route_step_inv)
  then show ?thesis
    using pr.taken_once [OF routes_inv_exact(1)] er.taken_once [OF routes_inv_exact(2)]
    by (auto simp: routes_inv_def pred_option_def split: option.splits)
qed

definition sample_owner :: resource_owner where
  "sample_owner = \<lparr>ow_epoch = ''e'', ow_session_id = ''s'', ow_incarnation = 1\<rparr>"

definition sample_opened :: session_registry where
  "sample_opened = put_entry ''s'' (entry_new (session_cold ''s'' 1)) (registry_new ''e'')"

definition sample_asked :: session_registry where
  "sample_asked = snd (insert_permission sample_owner ''p''
     \<lparr>pr_tool_call_id = ''t'', pr_option_ids = [], pr_sender = 5\<rparr> sample_opened)"

lemma sample_asked_steps: "route_step\<^sup>*\<^sup>* (registry_new ''e'') sample_asked"
proof -
  have "entry_of ''s'' (registry_new ''e'') = None"
    by (simp add: entry_of_def registry_new_def bt.get_nil)
  then have "route_step (registry_new ''e'') sample_opened"
    unfolding sample_opened_def by (rule rs_new)
  moreover have "route_step sample_opened sample_asked"
    unfolding sample_asked_def by (rule rs_insert_permission)
  ultimately show ?thesis by simp
qed

lemma sample_asked_eq:
  "entry_of ''s'' sample_asked = Some ((entry_new (session_cold ''s'' 1))\<lparr>en_resources :=
      resources_default\<lparr>re_permissions := [(''p'', \<lparr>pr_tool_call_id = ''t'', pr_option_ids = [], pr_sender = 5\<rparr>)]\<rparr>\<rparr>)"
  "rg_permission_owners sample_asked = [(''p'', sample_owner)]" "rg_epoch sample_asked = ''e''"
  by (simp_all add: sample_asked_def sample_opened_def insert_permission_def owns_resources_def resources_of_def
      registry_simps sample_owner_def entry_new_def session_cold_def registry_new_def hm.get_nil
      resources_default_def hm_insert_def Let_def)

lemma routes_lead_to_responders_witness:
  "fst (take_permission ''p'' sample_owner (snd (take_permission ''p'' sample_owner sample_asked))) = None"
proof -
  have "fst (take_permission ''p'' sample_owner sample_asked) \<noteq> None"
    by (simp add: take_permission_def sample_asked_eq owns_resources_def resources_of_def registry_simps
        hm_get_def Let_def sample_owner_def entry_new_def session_cold_def)
  with routes_lead_to_responders [OF sample_asked_steps] show ?thesis by blast
qed

section \<open>Retirement answers everyone\<close>

fun waiter_reply :: "view_waiter \<Rightarrow> nat" where
  "waiter_reply (ViewWaiter k) = k"
| "waiter_reply (ObserveWaiter key lease k) = k"

text \<open>What a retirement with this reason sends, channel by channel.\<close>

definition retirement_replies :: "string \<Rightarrow> session_resources \<Rightarrow> (nat \<times> reply) list" where
  "retirement_replies reason r =
     map (\<lambda>e. (pr_sender (snd e), PermissionCancelled)) (re_permissions r) @
     map (\<lambda>e. (er_sender (snd e), ElicitationCancelled)) (re_elicitations r) @
     (case re_materialization r of
        Some m \<Rightarrow> map (\<lambda>w. (waiter_reply w, ViewUnavailable reason)) (mz_waiters m) | None \<Rightarrow> [])"

definition retirement_tokens :: "session_resources \<Rightarrow> nat list" where
  "retirement_tokens r =
     (case re_materialization r of
        Some m \<Rightarrow> mz_cancellation m # concat (map (\<lambda>w. case w of ObserveWaiter key l k \<Rightarrow> [ol_cancellation l] | _ \<Rightarrow> [])
          (mz_waiters m))
      | None \<Rightarrow> []) @
     (case re_history_sync r of Some s \<Rightarrow> [hy_cancellation s] | None \<Rightarrow> []) @
     map (\<lambda>e. ol_cancellation (snd e)) (ob_observers (re_observers r))"

lemma reply_send_keeps [simp]:
  "hd_sent (reply_send k r h) = hd_sent h @ [(k, r)]"
  "hd_cancelled (reply_send k r h) = hd_cancelled h"
  "hd_permits (reply_send k r h) = hd_permits h"
  by (simp_all add: reply_send_def)

lemma token_cancel_set [simp]: "set (hd_cancelled (token_cancel k h)) = insert k (set (hd_cancelled h))"
  by (simp add: token_cancel_def)

lemma replies_fold:
  "hd_sent (fold (\<lambda>e. reply_send (f e) r) es h) = hd_sent h @ map (\<lambda>e. (f e, r)) es \<and>
   hd_cancelled (fold (\<lambda>e. reply_send (f e) r) es h) = hd_cancelled h \<and>
   hd_permits (fold (\<lambda>e. reply_send (f e) r) es h) = hd_permits h"
  by (induction es arbitrary: h) simp_all

lemma waiters_fold:
  "hd_sent (fold (waiter_cancel reason) ws h) = hd_sent h @ map (\<lambda>w. (waiter_reply w, ViewUnavailable reason)) ws \<and>
   set (hd_cancelled (fold (waiter_cancel reason) ws h)) = set (hd_cancelled h) \<union>
     set (concat (map (\<lambda>w. case w of ObserveWaiter key l k \<Rightarrow> [ol_cancellation l] | _ \<Rightarrow> []) ws)) \<and>
   hd_permits (fold (waiter_cancel reason) ws h) = hd_permits h"
proof (induction ws arbitrary: h)
  case (Cons w ws)
  then show ?case by (cases w) (auto simp: lease_cancel_def)
qed simp

lemma leases_fold:
  "hd_sent (fold (\<lambda>e. lease_cancel (f e)) es h) = hd_sent h \<and>
   set (hd_cancelled (fold (\<lambda>e. lease_cancel (f e)) es h)) = set (hd_cancelled h) \<union> (\<lambda>e. ol_cancellation (f e)) ` set es \<and>
   hd_permits (fold (\<lambda>e. lease_cancel (f e)) es h) = hd_permits h"
  by (induction es arbitrary: h) (auto simp: lease_cancel_def)

lemma shutdown_effects:
  assumes "observers_shutdown (o', h) = (o2, h2)"
  shows "hd_sent h2 = hd_sent h" "set (hd_cancelled h) \<subseteq> set (hd_cancelled h2)"
    "\<forall>l \<in> snd ` set (ob_observers o'). ol_cancellation l \<in> set (hd_cancelled h2)"
    "\<forall>t. ob_absence o' = Some t \<longrightarrow> \<not> permit_pending (ab_permit t) h2"
proof -
  obtain o1 h1 where c: "cancel_absence (o', h) = (o1, h1)" by fastforce
  have h2: "h2 = fold (\<lambda>e. lease_cancel (snd e)) (ob_observers o1) h1"
    using assms by (simp add: observers_shutdown_def c)
  have o1: "ob_observers o1 = ob_observers o'" "hd_sent h1 = hd_sent h" "set (hd_cancelled h) \<subseteq> set (hd_cancelled h1)"
    "\<forall>t. ob_absence o' = Some t \<longrightarrow> \<not> permit_pending (ab_permit t) h1"
    using c by (auto simp: cancel_absence_def permit_cancel_def permit_exchange_def permit_pending_def hm.get_put
        split: option.splits if_splits)
  note l = leases_fold [of snd "ob_observers o1" h1]
  show "hd_sent h2 = hd_sent h" "set (hd_cancelled h) \<subseteq> set (hd_cancelled h2)"
    "\<forall>l \<in> snd ` set (ob_observers o'). ol_cancellation l \<in> set (hd_cancelled h2)"
    "\<forall>t. ob_absence o' = Some t \<longrightarrow> \<not> permit_pending (ab_permit t) h2"
    using l o1 by (auto simp: h2 permit_pending_def)
qed

lemma resources_cancel_effects:
  assumes "resources_cancel reason (r, h) = (r', h')"
  shows "hd_sent h' = hd_sent h @ retirement_replies reason r \<and>
    set (retirement_tokens r) \<subseteq> set (hd_cancelled h') \<and>
    (\<forall>t. ob_absence (re_observers r) = Some t \<longrightarrow> \<not> permit_pending (ab_permit t) h')"
proof -
  define h1 where "h1 = fold (\<lambda>e. reply_send (pr_sender (snd e)) PermissionCancelled) (re_permissions r) h"
  define h2 where "h2 = fold (\<lambda>e. reply_send (er_sender (snd e)) ElicitationCancelled) (re_elicitations r) h1"
  define h3 where "h3 = (case re_materialization r of
      Some m \<Rightarrow> fold (waiter_cancel reason) (mz_waiters m) (token_cancel (mz_cancellation m) h2) | None \<Rightarrow> h2)"
  define h4 where "h4 = (case re_history_sync r of Some s \<Rightarrow> token_cancel (hy_cancellation s) h3 | None \<Rightarrow> h3)"
  have "snd (resources_cancel reason (r, h)) = snd (observers_shutdown (re_observers r, h4))"
    unfolding h4_def h3_def h2_def h1_def
    by (simp only: resources_cancel_def prod.case Let_def split: prod.split) simp
  then obtain obs where s: "observers_shutdown (re_observers r, h4) = (obs, h')"
    using assms by (cases "observers_shutdown (re_observers r, h4)") simp
  note sh = shutdown_effects [OF s]
  have s2: "hd_sent h2 = hd_sent h @ map (\<lambda>e. (pr_sender (snd e), PermissionCancelled)) (re_permissions r) @
      map (\<lambda>e. (er_sender (snd e), ElicitationCancelled)) (re_elicitations r)"
    using replies_fold [of "\<lambda>e. pr_sender (snd e)" PermissionCancelled "re_permissions r" h]
      replies_fold [of "\<lambda>e. er_sender (snd e)" ElicitationCancelled "re_elicitations r" h1]
    by (simp add: h1_def h2_def)
  have s4: "hd_sent h4 = hd_sent h @ retirement_replies reason r"
    using s2 waiters_fold [of reason _ "token_cancel _ h2"]
    by (auto simp: h4_def h3_def retirement_replies_def split: option.splits)
  have "set (retirement_tokens r) \<subseteq> set (hd_cancelled h4) \<union> ol_cancellation ` snd ` set (ob_observers (re_observers r))"
    using waiters_fold [of reason _ "token_cancel _ h2"]
    by (auto simp: h4_def h3_def retirement_tokens_def split: option.splits)
  with s4 sh show ?thesis by (auto simp: image_image)
qed

text \<open>
  (C16) Retirement answers everyone and leaves nothing behind: retiring a session sends exactly one
  reply on every channel its resources hold, cancels every token, revokes its countdown's permit,
  removes the entry and all routes to it, and keeps every other session and every other route.
\<close>

theorem retirement_answers_everyone:
  assumes "routes_inv rg" "entry_of sid rg = Some e" "ss_incarnation (en_state e) = inc"
    and "rg' = retire_entry sid inc reason rg"
  shows "hd_sent (rg_handles rg') = hd_sent (rg_handles rg) @ retirement_replies reason (en_resources e) \<and>
    set (retirement_tokens (en_resources e)) \<subseteq> set (hd_cancelled (rg_handles rg')) \<and>
    pred_option (\<lambda>t. \<not> permit_pending (ab_permit t) (rg_handles rg')) (ob_absence (re_observers (en_resources e))) \<and>
    is_retired sid rg' \<and>
    (\<forall>k. entry_of k rg' = (if k = sid then None else entry_of k rg)) \<and>
    (\<forall>iid ow. (hm_get (rg_permission_owners rg') iid = Some ow)
        = (hm_get (rg_permission_owners rg) iid = Some ow \<and> ow_session_id ow \<noteq> sid)) \<and>
    (\<forall>iid ow. (hm_get (rg_elicitation_owners rg') iid = Some ow)
        = (hm_get (rg_elicitation_owners rg) iid = Some ow \<and> ow_session_id ow \<noteq> sid))"
proof -
  define owner where "owner = \<lparr>ow_epoch = rg_epoch rg, ow_session_id = sid, ow_incarnation = inc\<rparr>"
  obtain r h where rc: "resources_cancel reason (en_resources e, rg_handles rg) = (r, h)" by fastforce
  note eff = resources_cancel_effects [OF rc]
  have ow: "ow_session_id ow = sid \<longleftrightarrow> ow = owner"
    if "hm_get (rg_permission_owners rg) iid = Some ow \<or> hm_get (rg_elicitation_owners rg) iid = Some ow" for iid ow
    using that assms(1-3) by (cases ow) (auto simp: routes_inv_def routes_exact_def resp_view_Some owner_def)
  have w: "hm_wf (rg_permission_owners rg)" "hm_wf (rg_elicitation_owners rg)"
    using assms(1) by (simp_all add: routes_inv_def)
  have rg': "rg_handles rg' = h" "is_retired sid rg'"
    "rg_permission_owners rg' = hm_retain (\<lambda>_ route. route \<noteq> owner) (rg_permission_owners rg)"
    "rg_elicitation_owners rg' = hm_retain (\<lambda>_ route. route \<noteq> owner) (rg_elicitation_owners rg)"
    using assms(2,3,4) by (simp_all add: retire_entry_def cancel_resources_def rc Let_def owner_def registry_simps is_retired_def)
  have "entry_of k rg' = (if k = sid then None else entry_of k rg)" for k
  proof -
    have "entry_of k rg' = (if k = sid then None else entry_of k (cancel_resources sid inc reason rg))"
      using assms(2,3,4) by (simp add: retire_entry_def Let_def registry_simps bt.get_del entry_of_def)
    then show ?thesis using assms(2,3) by (simp add: cancel_resources_def rc Let_def registry_simps)
  qed
  moreover have "(hm_get (rg_permission_owners rg') iid = Some ow)
      = (hm_get (rg_permission_owners rg) iid = Some ow \<and> ow_session_id ow \<noteq> sid)" for iid ow
    using ow [of iid ow] by (auto simp: rg' hm.get_retain [OF w(1)] split: option.splits)
  moreover have "(hm_get (rg_elicitation_owners rg') iid = Some ow)
      = (hm_get (rg_elicitation_owners rg) iid = Some ow \<and> ow_session_id ow \<noteq> sid)" for iid ow
    using ow [of iid ow] by (auto simp: rg' hm.get_retain [OF w(2)] split: option.splits)
  ultimately show ?thesis using eff rg'(1,2) by (auto simp: pred_option_def split: option.splits)
qed

lemma sample_asked_routes: "routes_inv sample_asked"
  using sample_asked_steps by (induction rule: rtranclp_induct) (simp_all add: registry_new_routes route_step_inv)

lemma retirement_answers_everyone_witness:
  "hd_sent (rg_handles (retire_entry ''s'' 1 ''gone'' sample_asked))
    = hd_sent (rg_handles sample_asked) @ [(5, PermissionCancelled)]"
  using retirement_answers_everyone [OF sample_asked_routes sample_asked_eq(1) _ refl, of 1 "''gone''"]
  by (simp add: retirement_replies_def entry_new_def resources_default_def session_cold_def)

end
