(* ===== verification/Session_Mirror.thy ===== *)
theory Session_Mirror
  imports Registry
begin

text \<open>
  History transactions of the registry (\<open>src/src/session_mirror.rs\<close>): registering an incarnation,
  loading and committing a history, the overlay of the running turn, the commit of a completed turn
  from memory, and the terminal output kept for history. Each operation returns its result and the
  registry it leaves, on errors too. Operations that share a name with the one on a single session
  carry the prefix \<open>mirror_\<close>.
\<close>

section \<open>Access to a session\<close>

definition require_state :: "string \<Rightarrow> u64 \<Rightarrow> session_registry \<Rightarrow> (mirror_error, session_state) result" where
  "require_state sid inc rg =
     res_bind (ok_or MirrorUnknownSession (state_of sid rg)) (\<lambda>s.
       if ss_incarnation s \<noteq> inc then Err MirrorStaleIncarnation else Ok s)"

text \<open>A call into the history cache, its error converted by \<open>From<HistoryCacheError>\<close>.\<close>

definition history_call :: "(history_cache \<Rightarrow> (history_cache_error, 'a) result \<times> history_cache)
    \<Rightarrow> session_registry \<Rightarrow> (mirror_error, 'a) result \<times> session_registry" where
  "history_call f rg =
     (case f (rg_history rg) of (r, c) \<Rightarrow> (map_err MirrorHistory r, rg\<lparr>rg_history := c\<rparr>))"

text \<open>An operation on the state of a session, and the overlay account kept around one.\<close>

definition with_state :: "string \<Rightarrow> u64 \<Rightarrow> (session_state \<Rightarrow> (mirror_error, 'a) result \<times> session_state)
    \<Rightarrow> session_registry \<Rightarrow> (mirror_error, 'a) result \<times> session_registry" where
  "with_state sid inc f rg =
     try_in rg (require_state sid inc rg) (\<lambda>s. case f s of (r, s') \<Rightarrow> (r, put_state sid s' rg))"

definition account_overlay :: "nat \<Rightarrow> nat \<Rightarrow> session_registry \<Rightarrow> session_registry" where
  "account_overlay old_bytes new_bytes rg =
     rg\<lparr>rg_overlay_bytes := sat_add (sat_sub (rg_overlay_bytes rg) old_bytes) new_bytes\<rparr>"

definition with_overlay :: "string \<Rightarrow> u64 \<Rightarrow> (session_state \<Rightarrow> (mirror_error, 'a) result \<times> session_state)
    \<Rightarrow> session_registry \<Rightarrow> (mirror_error, 'a) result \<times> session_registry" where
  "with_overlay sid inc f rg =
     try_in rg (require_state sid inc rg) (\<lambda>s.
       case f s of
         (Ok a, s') \<Rightarrow>
           (Ok a, account_overlay (ss_active_overlay_bytes s) (ss_active_overlay_bytes s') (put_state sid s' rg))
       | (r, s') \<Rightarrow> (r, put_state sid s' rg))"

section \<open>Comparing a replay with what is known\<close>

definition references_terminal :: "json \<Rightarrow> string \<Rightarrow> bool" where
  "references_terminal update terminal_id \<longleftrightarrow>
     (case Option.bind (json_get update ''content'') as_array of
        Some content \<Rightarrow>
          list_ex (\<lambda>item. get_str item ''type'' = Some ''terminal'' \<and>
            get_str item ''terminalId'' = Some terminal_id) content
      | None \<Rightarrow> False)"

definition text_block :: "json \<Rightarrow> string option" where
  "text_block block = (if get_str block ''type'' = Some ''text'' then get_str block ''text'' else None)"

text \<open>Two text blocks have the same shape when they agree but for the text.\<close>

definition same_text_shape :: "json \<Rightarrow> json \<Rightarrow> bool" where
  "same_text_shape block previous \<longleftrightarrow>
     (case (json_set block ''text'' JNull, json_set previous ''text'' JNull) of
        (Some a, Some b) \<Rightarrow> json_eq a b | _ \<Rightarrow> False)"

definition push_prompt_block :: "json list \<Rightarrow> json \<Rightarrow> json list" where
  "push_prompt_block acc block =
     (case text_block block of
        None \<Rightarrow> acc @ [block]
      | Some txt \<Rightarrow>
          if acc \<noteq> [] \<and> get_str (last acc) ''type'' = Some ''text'' \<and>
             same_text_shape block (last acc)
          then (case json_set (last acc) ''text''
                  (JStr ((case get_str (last acc) ''text'' of Some t \<Rightarrow> t | None \<Rightarrow> []) @ txt)) of
                  Some merged \<Rightarrow> butlast acc @ [merged]
                | None \<Rightarrow> acc @ [block])
          else acc @ [block])"

definition normalize_prompt_blocks :: "json list \<Rightarrow> json list" where
  "normalize_prompt_blocks blocks = foldl push_prompt_block [] blocks"

definition replay_suffix_starts_with_prompt :: "json list \<Rightarrow> json list \<Rightarrow> bool" where
  "replay_suffix_starts_with_prompt updates prompt =
     (let replay_prompt = List.map_filter (\<lambda>u. json_get u ''content'')
            (takeWhile (\<lambda>u. get_str u ''sessionUpdate'' = Some ''user_message_chunk'') updates)
      in json_list_eq (normalize_prompt_blocks replay_prompt) (normalize_prompt_blocks prompt))"

definition history_update_identity :: "json \<Rightarrow> json" where
  "history_update_identity update = json_remove update ''messageId''"

text \<open>The length of the shortest prefix of a candidate that folds to the prior history.\<close>

fun prefix_end_from :: "json list \<Rightarrow> nat \<Rightarrow> json list \<Rightarrow> json list \<Rightarrow> nat option" where
  "prefix_end_from prior index prefix [] = None"
| "prefix_end_from prior index prefix (update # candidate) =
     (case fold_history_update prefix (history_update_identity update) of
        Ok prefix' \<Rightarrow>
          if json_list_eq prefix' prior then Some (index + 1)
          else prefix_end_from prior (index + 1) prefix' candidate
      | _ \<Rightarrow> None)"

definition history_prefix_end :: "json list \<Rightarrow> json list \<Rightarrow> nat option" where
  "history_prefix_end candidate prior0 =
     (case normalize_history_updates (map history_update_identity prior0) of
        Ok prior \<Rightarrow> if prior = [] then Some 0 else prefix_end_from prior 0 [] candidate
      | _ \<Rightarrow> None)"

definition durable_update :: "json \<Rightarrow> bool" where
  "durable_update update \<longleftrightarrow>
     get_str update ''sessionUpdate'' \<in>
       {Some ''agent_message_chunk'', Some ''tool_call'', Some ''tool_call_update''}"

text \<open>Every expected update occurs in the rest of the replay, in order: one pass over the replay.\<close>

fun occurs_in_order :: "json list \<Rightarrow> json list \<Rightarrow> bool" where
  "occurs_in_order [] replay = True"
| "occurs_in_order (expected # live) replay =
     (case dropWhile (\<lambda>candidate. \<not> json_eq candidate expected) replay of
        [] \<Rightarrow> False
      | _ # rest \<Rightarrow> occurs_in_order live rest)"

definition replay_contains_completed_turn :: "json list \<Rightarrow> json list \<Rightarrow> bool" where
  "replay_contains_completed_turn replay live_updates =
     (case (normalize_history_updates (map history_update_identity (filter durable_update replay)),
            normalize_history_updates (map history_update_identity (filter durable_update live_updates))) of
        (Ok replay', Ok live') \<Rightarrow>
          occurs_in_order (map history_update_identity live') (map history_update_identity replay')
      | _ \<Rightarrow> False)"

section \<open>Retained terminal output\<close>

definition release_bytes :: "env \<Rightarrow> (string \<times> json) list \<Rightarrow> nat \<Rightarrow> nat" where
  "release_bytes E dropped bytes = fold (\<lambda>e b. sat_sub b (serialized_len E (snd e))) dropped bytes"

definition remove_retained_terminals :: "env \<Rightarrow> session_key \<Rightarrow> session_registry \<Rightarrow> session_registry" where
  "remove_retained_terminals E key rg =
     (case hm_get (rg_retained_terminals rg) key of
        None \<Rightarrow> rg
      | Some terminals \<Rightarrow>
          rg\<lparr>rg_retained_terminals := hm_remove key (rg_retained_terminals rg),
             rg_retained_terminal_bytes := release_bytes E terminals (rg_retained_terminal_bytes rg)\<rparr>)"

definition prune_retained_terminals :: "env \<Rightarrow> session_key \<Rightarrow> json list \<Rightarrow> session_registry \<Rightarrow> session_registry" where
  "prune_retained_terminals E key updates rg =
     (case hm_get (rg_retained_terminals rg) key of
        None \<Rightarrow> rg
      | Some terminals \<Rightarrow>
          let keep = (\<lambda>terminal_id. list_ex (\<lambda>u. references_terminal u terminal_id) updates)
          in rg\<lparr>rg_retained_terminals := hm_insert key (bt_retain (\<lambda>i _. keep i) terminals) (rg_retained_terminals rg),
                rg_retained_terminal_bytes :=
                  release_bytes E (filter (\<lambda>e. \<not> keep (fst e)) terminals) (rg_retained_terminal_bytes rg)\<rparr>)"

definition retain_terminal_output :: "env \<Rightarrow> string \<Rightarrow> u64 \<Rightarrow> string \<Rightarrow> json \<Rightarrow> session_registry
    \<Rightarrow> (mirror_error, bool) result \<times> session_registry" where
  "retain_terminal_output E sid inc terminal_id terminal rg =
     try_in rg (require_state sid inc rg) (\<lambda>s.
       let key = SessionKey sid inc;
           flag = (\<lambda>k. Option.bind (json_get terminal k) as_bool = Some True);
           field = (\<lambda>k d. case json_get terminal k of Some v \<Rightarrow> v | None \<Rightarrow> d)
       in if \<not> flag ''released'' \<or> flag ''outputAppend'' then (Ok False, rg)
          else if (case hm_get (rg_retained_terminals rg) key of
                     Some ts \<Rightarrow> bt_get ts terminal_id \<noteq> None | None \<Rightarrow> False)
          then (Ok False, rg)
          else if \<not> ((case ss_active_turn s of
                        Some turn \<Rightarrow> list_ex (\<lambda>u. references_terminal u terminal_id) (ov_updates turn)
                      | None \<Rightarrow> False) \<or>
                     (case cache_peek key (rg_history rg) of
                        Some history \<Rightarrow> list_ex (\<lambda>u. references_terminal u terminal_id) (hs_updates history)
                      | None \<Rightarrow> False))
          then (Ok False, rg)
          else let retained = JObj [(''sessionId'', JStr sid), (''terminalId'', JStr terminal_id),
                     (''output'', field ''output'' (JStr [])), (''truncated'', field ''truncated'' (JBool False)),
                     (''exitStatus'', field ''exitStatus'' JNull), (''released'', JBool True)];
                   terminals = (case hm_get (rg_retained_terminals rg) key of Some ts \<Rightarrow> ts | None \<Rightarrow> [])
            in (Ok True, put_state sid (advance_revision s)
                 (rg\<lparr>rg_retained_terminal_bytes := sat_add (rg_retained_terminal_bytes rg) (serialized_len E retained),
                    rg_retained_terminals := hm_insert key (bt_insert terminal_id retained terminals)
                      (rg_retained_terminals rg)\<rparr>)))"

section \<open>Registering an incarnation\<close>

text \<open>The state a session keeps when its history is cleared: its live part and its operation.\<close>

definition clear_history_for_replacement :: "env \<Rightarrow> string \<Rightarrow> u64 \<Rightarrow> session_registry \<Rightarrow> session_registry" where
  "clear_history_for_replacement E sid inc rg =
     (case state_of sid rg of
        None \<Rightarrow> rg
      | Some s \<Rightarrow>
          if ss_incarnation s \<noteq> inc then rg
          else let cleared = (session_cold sid inc)\<lparr>ss_live := ss_live s, ss_operation := ss_operation s,
                     ss_view_revision := next_revision (ss_view_revision s)\<rparr>;
                   rg1 = put_state sid cleared
                     (rg\<lparr>rg_overlay_bytes := sat_sub (rg_overlay_bytes rg) (ss_active_overlay_bytes s)\<rparr>);
                   rg2 = remove_retained_terminals E (SessionKey sid inc) rg1
            in rg2\<lparr>rg_history := cache_remove (SessionKey sid inc) (rg_history rg2)\<rparr>)"

text \<open>What a new incarnation of a session does to the old one.\<close>

definition replace_previous :: "env \<Rightarrow> string \<Rightarrow> u64 \<Rightarrow> session_registry \<Rightarrow> session_registry" where
  "replace_previous E sid inc rg =
     (case state_of sid rg of
        Some s \<Rightarrow>
          let rg1 = clear_history_for_replacement E sid (ss_incarnation s) rg
          in if ss_incarnation s \<noteq> inc
             then retire_entry sid (ss_incarnation s) ''session incarnation was replaced'' rg1
             else rg1
      | None \<Rightarrow> rg)"

definition register_history :: "env \<Rightarrow> string \<Rightarrow> u64 \<Rightarrow> bool \<Rightarrow> session_registry \<Rightarrow> session_registry" where
  "register_history E sid inc ready rg0 =
     (let rg1 = replace_previous E sid inc
            (rg0\<lparr>rg_next_incarnation := max (rg_next_incarnation rg0) inc\<rparr>)
      in case install_empty E (SessionKey sid inc) (rg_history rg1) of
           (snapshot, history) \<Rightarrow>
             let rg2 = rg1\<lparr>rg_history := history\<rparr>;
                 fresh = (if ready then session_ready sid inc (hs_revision snapshot) else session_cold sid inc)
             in (case state_of sid rg2 of
                  Some s \<Rightarrow> put_state sid (fresh\<lparr>ss_live := ss_live s, ss_operation := ss_operation s,
                      ss_view_revision := ss_view_revision s\<rparr>) rg2
                | None \<Rightarrow> put_entry sid (entry_new fresh) rg2))"

definition register_cold :: "env \<Rightarrow> string \<Rightarrow> u64 \<Rightarrow> session_registry \<Rightarrow> session_registry" where
  "register_cold E sid inc rg = register_history E sid inc False rg"

definition register_new :: "env \<Rightarrow> string \<Rightarrow> u64 \<Rightarrow> session_registry \<Rightarrow> session_registry" where
  "register_new E sid inc rg = register_history E sid inc True rg"

section \<open>Loading a history\<close>

definition load_begun :: "string \<Rightarrow> session_state \<Rightarrow> session_state" where
  "load_begun attempt s =
     (let s1 = s\<lparr>ss_load_origin := Some (ss_phase s)\<rparr>;
          s2 = (if ss_phase s1 = Blocked
                then s1\<lparr>ss_phase := if ss_active_turn s1 \<noteq> None then Reconciling else Loading\<rparr> else s1);
          s3 = (if ss_phase s2 \<in> {Cold, Ready} then s2\<lparr>ss_phase := Loading\<rparr> else s2)
      in advance_revision (s3\<lparr>ss_load_attempt := Some attempt, ss_sync_error := None\<rparr>))"

definition begin_load :: "string \<Rightarrow> u64 \<Rightarrow> string \<Rightarrow> session_registry
    \<Rightarrow> (mirror_error, unit) result \<times> session_registry" where
  "begin_load sid inc attempt rg =
     try_in rg (require_state sid inc rg) (\<lambda>s.
       if ss_phase s \<notin> {Cold, Loading, Ready, Reconciling, Blocked} \<or> ss_load_attempt s \<noteq> None \<or>
          (case ss_active_turn s of Some turn \<Rightarrow> ov_terminal turn = None | None \<Rightarrow> False) \<or>
          (case ss_operation s of
             Some op \<Rightarrow> admission (so_kind op) \<noteq> AdmitAttachment \<or> so_operation_id op \<noteq> attempt
           | None \<Rightarrow> False)
       then (Err MirrorWrongPhase, rg)
       else call_then (history_call (begin_candidate (SessionKey sid inc) attempt) rg) (\<lambda>_ rg1.
         expect_in rg1 (state_of sid rg1) (\<lambda>s1.
           (Ok (), put_state sid (load_begun attempt s1) (stop_absence_in sid rg1)))))"

text \<open>The attempt must be the pending one, and \<open>load_in_flight\<close> in a phase that loads.\<close>

definition load_in_flight :: "string \<Rightarrow> session_state \<Rightarrow> bool" where
  "load_in_flight attempt s \<longleftrightarrow> ss_load_attempt s = Some attempt \<and> ss_phase s \<in> {Loading, Reconciling}"

definition mirror_load_candidate :: "string \<Rightarrow> u64 \<Rightarrow> string \<Rightarrow> session_registry \<Rightarrow> (mirror_error, nat) result" where
  "mirror_load_candidate sid inc attempt rg =
     res_bind (require_state sid inc rg) (\<lambda>s.
       if ss_load_attempt s \<noteq> Some attempt then Err MirrorOperationMismatch
       else map_err MirrorHistory (cache_candidate (SessionKey sid inc) attempt (rg_history rg)))"

definition append_load_update :: "env \<Rightarrow> string \<Rightarrow> u64 \<Rightarrow> string \<Rightarrow> json \<Rightarrow> session_registry
    \<Rightarrow> (mirror_error, unit) result \<times> session_registry" where
  "append_load_update E sid inc attempt update rg =
     try_in rg (require_state sid inc rg) (\<lambda>s.
       if \<not> load_in_flight attempt s then (Err MirrorOperationMismatch, rg)
       else history_call (append_candidate E (SessionKey sid inc) attempt update) rg)"

definition invalidate_load :: "string \<Rightarrow> u64 \<Rightarrow> string \<Rightarrow> session_registry
    \<Rightarrow> (mirror_error, unit) result \<times> session_registry" where
  "invalidate_load sid inc attempt rg =
     try_in rg (require_state sid inc rg) (\<lambda>s.
       if \<not> load_in_flight attempt s then (Err MirrorOperationMismatch, rg)
       else history_call (poison_candidate (SessionKey sid inc) attempt InvalidReplay) rg)"

text \<open>
  A load that reconciles a completed turn must replay the prior history, then the turn's prompt, then
  every durable update seen live.
\<close>

definition check_reconciled :: "session_key \<Rightarrow> string \<Rightarrow> session_state \<Rightarrow> history_cache \<Rightarrow> (mirror_error, unit) result" where
  "check_reconciled key attempt s c =
     res_bind (ok_or MirrorInconsistentHistory (cache_peek key c)) (\<lambda>prior.
     res_bind (map_err MirrorHistory (cache_candidate key attempt c)) (\<lambda>h.
     res_bind (map_err MirrorHistory (replay_updates (cell_get h c))) (\<lambda>candidate.
     res_bind (ok_or MirrorInconsistentHistory (history_prefix_end candidate (hs_updates prior))) (\<lambda>prefix_end.
     res_bind (ok_or MirrorInconsistentHistory (ss_active_turn s)) (\<lambda>turn.
       if length candidate \<le> prefix_end \<or>
          \<not> replay_suffix_starts_with_prompt (drop prefix_end candidate) (ov_prompt turn)
       then Err MirrorInconsistentHistory
       else if \<not> replay_contains_completed_turn (drop prefix_end candidate) (ov_updates turn)
       then Err MirrorInconsistentHistory
       else Ok ())))))"

definition commit_load :: "env \<Rightarrow> string \<Rightarrow> u64 \<Rightarrow> string \<Rightarrow> session_registry
    \<Rightarrow> (mirror_error, history_snapshot) result \<times> session_registry" where
  "commit_load E sid inc attempt rg =
     try_in rg (require_state sid inc rg) (\<lambda>s.
       if \<not> load_in_flight attempt s then (Err MirrorOperationMismatch, rg)
       else let key = SessionKey sid inc in
         try_in rg (if ss_phase s = Reconciling then check_reconciled key attempt s (rg_history rg) else Ok ()) (\<lambda>_.
         try_in rg (validate_history_commit s) (\<lambda>_.
         call_then (history_call (commit_candidate E key attempt) rg) (\<lambda>snapshot rg1.
         expect_in rg1 (Option.bind (state_of sid rg1)
             (history_committed (hs_revision snapshot) (length (hs_updates snapshot)) (ss_phase s = Loading))) (\<lambda>s2.
           (Ok snapshot, prune_retained_terminals E key (hs_updates snapshot)
             ((put_state sid s2 rg1)\<lparr>rg_overlay_bytes :=
                sat_sub (rg_overlay_bytes rg1) (ss_active_overlay_bytes s)\<rparr>)))))))"

definition commit_attachment_cache :: "env \<Rightarrow> string \<Rightarrow> u64 \<Rightarrow> string \<Rightarrow> session_registry
    \<Rightarrow> (mirror_error, history_snapshot) result \<times> session_registry" where
  "commit_attachment_cache E sid inc attempt rg =
     call_then (commit_load E sid inc attempt rg) (\<lambda>snapshot rg1.
     try_in rg1 (require_state sid inc rg1) (\<lambda>s. (Ok snapshot, put_state sid (s\<lparr>ss_phase := Cold\<rparr>) rg1)))"

fun append_load_updates :: "env \<Rightarrow> string \<Rightarrow> u64 \<Rightarrow> string \<Rightarrow> json list \<Rightarrow> session_registry
    \<Rightarrow> (mirror_error, unit) result \<times> session_registry" where
  "append_load_updates E sid inc attempt [] rg = (Ok (), rg)"
| "append_load_updates E sid inc attempt (u # us) rg =
     call_then (append_load_update E sid inc attempt u rg) (\<lambda>_ rg1. append_load_updates E sid inc attempt us rg1)"

definition use_cached_history :: "env \<Rightarrow> string \<Rightarrow> u64 \<Rightarrow> json list \<Rightarrow> string \<Rightarrow> session_registry
    \<Rightarrow> (mirror_error, unit) result \<times> session_registry" where
  "use_cached_history E sid inc updates notice rg =
     try_in rg (require_state sid inc rg) (\<lambda>s.
       if ss_active_turn s \<noteq> None \<or> ss_load_attempt s \<noteq> None then (Err MirrorWrongPhase, rg)
       else let attempt = ''bridge-cache-fallback'' in
         call_then (begin_load sid inc attempt (put_state sid (s\<lparr>ss_phase := Cold\<rparr>) rg)) (\<lambda>_ rg1.
         call_then (append_load_updates E sid inc attempt updates rg1) (\<lambda>_ rg2.
         call_then (commit_load E sid inc attempt rg2) (\<lambda>_ rg3.
         try_in rg3 (require_state sid inc rg3) (\<lambda>s'.
           (Ok (), put_state sid (s'\<lparr>ss_history_notice := Some notice\<rparr>) rg3))))))"

definition load_failed :: "string \<Rightarrow> bool \<Rightarrow> session_state \<Rightarrow> session_state" where
  "load_failed message retryable s =
     advance_revision (s\<lparr>ss_load_origin := None, ss_load_attempt := None, ss_sync_error := Some message,
       ss_phase :=
         (if retryable
          then (case ss_load_origin s of
                  Some Ready \<Rightarrow> Ready | Some Blocked \<Rightarrow> Blocked | Some Reconciling \<Rightarrow> Reconciling | _ \<Rightarrow> Loading)
          else Blocked)\<rparr>)"

definition fail_load :: "string \<Rightarrow> u64 \<Rightarrow> string \<Rightarrow> string \<Rightarrow> bool \<Rightarrow> session_registry
    \<Rightarrow> (mirror_error, unit) result \<times> session_registry" where
  "fail_load sid inc attempt message retryable rg =
     try_in rg (require_state sid inc rg) (\<lambda>s.
       if ss_load_attempt s \<noteq> Some attempt then (Err MirrorOperationMismatch, rg)
       else call_then (history_call (abort_candidate (SessionKey sid inc) attempt) rg) (\<lambda>_ rg1.
         expect_in rg1 (state_of sid rg1) (\<lambda>s1.
           (Ok (), put_state sid (load_failed message retryable s1) rg1))))"

section \<open>The running turn\<close>

definition operation_in_use_except_reserved :: "string \<Rightarrow> (string \<times> u64 \<times> operation_kind) option
    \<Rightarrow> session_registry \<Rightarrow> bool" where
  "operation_in_use_except_reserved operation_id reservation rg \<longleftrightarrow>
     list_ex (\<lambda>e.
       let owner = en_state (snd e)
       in (case turn_execution_of owner of
             Some execution \<Rightarrow> tx_rpc_operation_id execution = operation_id | None \<Rightarrow> False) \<or>
          (case ss_operation owner of
             Some op \<Rightarrow>
               so_operation_id op = operation_id \<and>
               \<not> (case reservation of
                    Some (sid, inc, kind) \<Rightarrow>
                      ss_session_id owner = sid \<and> ss_incarnation owner = inc \<and> so_kind op = kind \<and>
                      so_stage op = ''reserved''
                  | None \<Rightarrow> False)
           | None \<Rightarrow> False) \<or>
          (case ss_live owner of
             Some live \<Rightarrow>
               list_ex (\<lambda>i. pi_responding_operation_id (snd i) = Some operation_id)
                 (lv_permissions live @ lv_elicitations live)
           | None \<Rightarrow> False)) (rg_sessions rg) \<or>
     list_ex (\<lambda>i. pi_responding_operation_id (snd i) = Some operation_id) (rg_request_elicitations rg)"

definition operation_in_use :: "string \<Rightarrow> session_registry \<Rightarrow> bool" where
  "operation_in_use operation_id rg = operation_in_use_except_reserved operation_id None rg"

text \<open>\<open>format!("{}:{}", epoch, n)\<close>.\<close>

definition turn_operation_id :: "string \<Rightarrow> u64 \<Rightarrow> string" where
  "turn_operation_id epoch n = epoch @ '':'' @ decimal (unat n)"

definition start_turn :: "env \<Rightarrow> string \<Rightarrow> u64 \<Rightarrow> string \<Rightarrow> string \<Rightarrow> json list \<Rightarrow> session_registry
    \<Rightarrow> (mirror_error, turn_admission) result \<times> session_registry" where
  "start_turn E sid inc expected_revision intent prompt rg =
     (let next_operation = next_revision (rg_next_operation rg);
          operation_id = turn_operation_id (rg_epoch rg) next_operation
      in call_then (with_overlay sid inc (admit_turn E operation_id expected_revision intent prompt) rg) (\<lambda>adm rg1.
           (Ok adm,
            case adm of Accepted _ \<Rightarrow> rg1\<lparr>rg_next_operation := next_operation\<rparr> | Duplicate _ \<Rightarrow> rg1)))"

definition mirror_append_turn_update :: "env \<Rightarrow> string \<Rightarrow> u64 \<Rightarrow> string \<Rightarrow> json \<Rightarrow> session_registry
    \<Rightarrow> (mirror_error, unit) result \<times> session_registry" where
  "mirror_append_turn_update E sid inc operation_id update rg =
     with_overlay sid inc (append_turn_update E operation_id update) rg"

definition append_session_update :: "env \<Rightarrow> string \<Rightarrow> u64 \<Rightarrow> json \<Rightarrow> session_registry
    \<Rightarrow> (mirror_error, unit) result \<times> session_registry" where
  "append_session_update E sid inc update rg =
     try_in rg (require_state sid inc rg) (\<lambda>s.
       if ss_load_attempt s \<noteq> None then (Err MirrorWrongPhase, rg)
       else if ss_phase s = Reconciling then with_overlay sid inc (append_reconciling_update E update) rg
       else if ss_phase s \<noteq> Ready then (Err MirrorWrongPhase, rg)
       else call_then (history_call (append_committed_updates E (SessionKey sid inc) [update]) rg) (\<lambda>snapshot rg1.
         expect_in rg1 (state_of sid rg1) (\<lambda>s1.
           (Ok (), put_state sid (advance_revision (s1\<lparr>ss_history_revision := Some (hs_revision snapshot)\<rparr>)) rg1))))"

definition mirror_complete_turn :: "env \<Rightarrow> string \<Rightarrow> u64 \<Rightarrow> string \<Rightarrow> json \<Rightarrow> session_registry
    \<Rightarrow> (mirror_error, unit) result \<times> session_registry" where
  "mirror_complete_turn E sid inc operation_id terminal rg =
     with_overlay sid inc (complete_turn E operation_id terminal) rg"

text \<open>The history a completed turn adds: its prompt, unless the agent echoed it, and its updates.\<close>

definition prompt_update :: "string \<Rightarrow> json \<Rightarrow> json" where
  "prompt_update operation_id content =
     JObj [(''sessionUpdate'', JStr ''user_message_chunk''), (''content'', content),
       (''_meta'', JObj [(''attyd'', JObj [(''turnOperationId'', JStr operation_id)])])]"

definition turn_suffix :: "turn_overlay \<Rightarrow> json list" where
  "turn_suffix turn =
     (if replay_suffix_starts_with_prompt (ov_updates turn) (ov_prompt turn) then []
      else map (prompt_update (ov_operation_id turn)) (ov_prompt turn)) @ ov_updates turn"

definition commit_completed_turn_from_memory :: "env \<Rightarrow> string \<Rightarrow> u64 \<Rightarrow> string \<Rightarrow> session_registry
    \<Rightarrow> (mirror_error, history_snapshot) result \<times> session_registry" where
  "commit_completed_turn_from_memory E sid inc operation_id rg =
     try_in rg (require_state sid inc rg) (\<lambda>s.
       if ss_phase s \<noteq> Reconciling then (Err MirrorWrongPhase, rg)
       else try_in rg (ok_or MirrorOperationMismatch
           (case ss_active_turn s of
              Some turn \<Rightarrow> if ov_operation_id turn = operation_id \<and> ov_terminal turn \<noteq> None then Some turn else None
            | None \<Rightarrow> None)) (\<lambda>turn.
         try_in rg (ok_or MirrorInconsistentHistory (ss_history_revision s)) (\<lambda>_.
         try_in rg (validate_history_commit s) (\<lambda>_.
         call_then (history_call (append_committed_updates E (SessionKey sid inc) (turn_suffix turn)) rg) (\<lambda>snapshot rg1.
         expect_in rg1 (Option.bind (state_of sid rg1)
             (history_committed (hs_revision snapshot) (length (hs_updates snapshot)) False)) (\<lambda>s2.
           (Ok snapshot, (put_state sid s2 rg1)\<lparr>rg_overlay_bytes :=
              sat_sub (rg_overlay_bytes rg1) (ss_active_overlay_bytes s)\<rparr>)))))))"

definition mirror_block_turn :: "string \<Rightarrow> u64 \<Rightarrow> string \<Rightarrow> string \<Rightarrow> session_registry
    \<Rightarrow> (mirror_error, unit) result \<times> session_registry" where
  "mirror_block_turn sid inc operation_id message rg = with_state sid inc (block_turn operation_id message) rg"

section \<open>Views, exclusion and removal\<close>

record history_view =
  vw_session_id :: string
  vw_incarnation :: u64
  vw_view_revision :: u64
  vw_history_revision :: "string option"
  vw_phase :: mirror_phase
  vw_active_turn :: "turn_overlay option"
  vw_turn_outcomes :: "completed_turn_outcome list"
  vw_sync_error :: "string option"
  vw_history_notice :: "string option"

definition history_view_of :: "session_state \<Rightarrow> history_view" where
  "history_view_of s =
     \<lparr>vw_session_id = ss_session_id s, vw_incarnation = ss_incarnation s, vw_view_revision = ss_view_revision s,
      vw_history_revision = ss_history_revision s, vw_phase = ss_phase s, vw_active_turn = ss_active_turn s,
      vw_turn_outcomes = ss_turn_outcomes s, vw_sync_error = ss_sync_error s,
      vw_history_notice = ss_history_notice s\<rparr>"

definition mirror_view :: "string \<Rightarrow> u64 \<Rightarrow> session_registry
    \<Rightarrow> (mirror_error, history_view \<times> history_snapshot) result \<times> session_registry" where
  "mirror_view sid inc rg =
     try_in rg (require_state sid inc rg) (\<lambda>s.
       case cache_snapshot (SessionKey sid inc) (rg_history rg) of
         (Some baseline, c) \<Rightarrow> (Ok (history_view_of s, baseline), rg\<lparr>rg_history := c\<rparr>)
       | (None, c) \<Rightarrow> (Err MirrorWrongPhase, rg\<lparr>rg_history := c\<rparr>))"

definition mirror_can_begin :: "string \<Rightarrow> u64 \<Rightarrow> session_admission \<Rightarrow> session_registry \<Rightarrow> (mirror_error, unit) result" where
  "mirror_can_begin sid inc adm rg = res_bind (require_state sid inc rg) (\<lambda>s. can_begin s adm)"

definition mirror_begin_exclusive :: "string \<Rightarrow> u64 \<Rightarrow> operation_kind \<Rightarrow> string \<Rightarrow> session_registry
    \<Rightarrow> (mirror_error, unit) result \<times> session_registry" where
  "mirror_begin_exclusive sid inc kind operation_id rg =
     try_in rg (require_state sid inc rg) (\<lambda>_.
       if operation_in_use operation_id rg then (Err MirrorOperationMismatch, rg)
       else with_state sid inc (begin_exclusive kind operation_id) rg)"

definition mirror_settle_exclusive :: "string \<Rightarrow> u64 \<Rightarrow> session_admission \<Rightarrow> string \<Rightarrow> session_registry
    \<Rightarrow> (mirror_error, unit) result \<times> session_registry" where
  "mirror_settle_exclusive sid inc adm operation_id rg = with_state sid inc (settle_exclusive adm operation_id) rg"

definition mirror_load_attempt :: "string \<Rightarrow> u64 \<Rightarrow> session_registry \<Rightarrow> string option" where
  "mirror_load_attempt sid inc rg =
     (case require_state sid inc rg of Ok s \<Rightarrow> ss_load_attempt s | _ \<Rightarrow> None)"

definition active_operation_id :: "string \<Rightarrow> u64 \<Rightarrow> session_registry \<Rightarrow> string option" where
  "active_operation_id sid inc rg =
     (case require_state sid inc rg of Ok s \<Rightarrow> map_option ov_operation_id (ss_active_turn s) | _ \<Rightarrow> None)"

definition mirror_touch :: "string \<Rightarrow> u64 \<Rightarrow> session_registry \<Rightarrow> (mirror_error, u64) result \<times> session_registry" where
  "mirror_touch sid inc rg =
     with_state sid inc (\<lambda>s. let s' = advance_revision s in (Ok (ss_view_revision s'), s')) rg"

definition mirror_remove :: "env \<Rightarrow> string \<Rightarrow> u64 \<Rightarrow> session_registry \<Rightarrow> session_registry" where
  "mirror_remove E sid inc rg =
     (let rg1 = clear_history_for_replacement E sid inc rg
      in case entry_of sid rg1 of
           Some e \<Rightarrow>
             if ss_incarnation (en_state e) = inc \<and> ss_live (en_state e) = None \<and> ss_operation (en_state e) = None \<and>
                re_materialization (en_resources e) = None
             then retire_entry sid inc ''session was removed'' rg1 else rg1
         | None \<Rightarrow> rg1)"

section \<open>The cache as the sessions see it\<close>

text \<open>Two caches agree on a key: the same snapshot and the same candidate.\<close>

definition cache_agrees :: "history_cache \<Rightarrow> history_cache \<Rightarrow> session_key \<Rightarrow> bool" where
  "cache_agrees c c' k \<longleftrightarrow>
     cache_peek k c' = cache_peek k c \<and> hm_get (hc_candidates c') k = hm_get (hc_candidates c) k"

lemma cache_agrees_refl [simp]: "cache_agrees c c k"
  by (simp add: cache_agrees_def)

lemma peek_cong: "hc_entries c' = hc_entries c \<Longrightarrow> cache_peek k c' = cache_peek k c"
  by (simp add: cache_peek_def)

lemma begin_candidate_effect:
  assumes "begin_candidate key a c = (r, c')"
  shows "cache_peek k c' = cache_peek k c" "k \<noteq> key \<Longrightarrow> cache_agrees c c' k"
    "r = Ok () \<Longrightarrow> \<exists>ca. hm_get (hc_candidates c') key = Some ca \<and> ca_attempt_id ca = a"
    "r \<noteq> Ok () \<Longrightarrow> c' = c" "r \<noteq> Panic"
  using assms by (auto simp: begin_candidate_def cache_agrees_def cache_peek_def hm.get_put split: if_splits)

lemma cell_call_agrees: "cache_agrees c (snd (cell_call h f c)) k"
  by (cases "f (cell_get h c)") (simp add: cell_call_def cache_agrees_def cache_peek_def)

lemma append_candidate_agrees: "cache_agrees c (snd (append_candidate E key a u c)) k"
  by (simp add: append_candidate_def try_in_def cell_call_agrees split: result.split)

lemma poison_candidate_agrees: "cache_agrees c (snd (poison_candidate key a e c)) k"
  by (simp add: poison_candidate_def try_in_def cache_agrees_def cache_peek_def split: result.split)

lemma commit_candidate_effect:
  assumes "commit_candidate E key a c = (r, c')"
  shows "k \<noteq> key \<Longrightarrow> cache_agrees c c' k"
    "r = Ok sn \<Longrightarrow> cache_peek key c' = Some sn" "\<not> is_ok r \<Longrightarrow> cache_agrees c c' k" "r \<noteq> Panic"
proof -
  have "(k \<noteq> key \<longrightarrow> cache_agrees c c' k) \<and> (r = Ok sn \<longrightarrow> cache_peek key c' = Some sn) \<and>
      (\<not> is_ok r \<longrightarrow> cache_agrees c c' k) \<and> r \<noteq> Panic"
  proof (cases "cache_candidate key a c")
    case (Ok h)
    obtain r1 d where t: "replay_take_history (cell_get h c) = (r1, d)" by fastforce
    have np: "r1 \<noteq> Panic"
      using t by (auto simp: replay_take_history_def replay_updates_def split: option.splits)
    show ?thesis
    proof (cases r1)
      case (Ok x)
      obtain us n where x: "x = (us, n)" by (cases x)
      obtain sn' c2 where i: "install_snapshot E key us n
          ((cell_set h d c)\<lparr>hc_candidates := hm_remove key (hc_candidates c)\<rparr>) = (sn', c2)" by fastforce
      have "r = Ok sn'" "c' = c2"
        using assms [unfolded commit_candidate_cases [OF \<open>cache_candidate key a c = Ok h\<close>]] t i
        by (simp_all add: Ok x)
      moreover have "cache_peek k ((cell_set h d c)\<lparr>hc_candidates := hm_remove key (hc_candidates c)\<rparr>) = cache_peek k c"
        by (rule peek_cong) simp
      ultimately show ?thesis
        using install_snapshot_gets [OF i] by (auto simp: cache_agrees_def hm.get_del)
    next
      case (Err e)
      then show ?thesis
        using assms [unfolded commit_candidate_cases [OF \<open>cache_candidate key a c = Ok h\<close>]] t
        by (auto simp: cache_agrees_def cache_peek_def)
    qed (use np in simp)
  qed (use assms in \<open>auto simp: commit_candidate_def cache_candidate_def ok_or_def split: option.splits if_splits\<close>)
  then show "k \<noteq> key \<Longrightarrow> cache_agrees c c' k"
    "r = Ok sn \<Longrightarrow> cache_peek key c' = Some sn" "\<not> is_ok r \<Longrightarrow> cache_agrees c c' k" "r \<noteq> Panic"
    by auto
qed

lemma append_committed_effect:
  assumes "append_committed_updates E key us c = (r, c')"
  shows "k \<noteq> key \<Longrightarrow> cache_agrees c c' k" "hc_candidates c' = hc_candidates c"
    "r = Ok sn \<Longrightarrow> cache_peek key c' = Some sn" "\<not> is_ok r \<Longrightarrow> c' = c"
proof -
  have "(k \<noteq> key \<longrightarrow> cache_agrees c c' k) \<and> hc_candidates c' = hc_candidates c \<and>
      (r = Ok sn \<longrightarrow> cache_peek key c' = Some sn) \<and> (\<not> is_ok r \<longrightarrow> c' = c)"
    using assms install_snapshot_gets
    by (cases "cache_peek key c"; cases "fold_history_updates (hs_updates (the (cache_peek key c))) us")
       (auto simp: append_committed_updates_def cache_agrees_def split: prod.splits)
  then show "k \<noteq> key \<Longrightarrow> cache_agrees c c' k" "hc_candidates c' = hc_candidates c"
    "r = Ok sn \<Longrightarrow> cache_peek key c' = Some sn" "\<not> is_ok r \<Longrightarrow> c' = c" by auto
qed

lemma abort_candidate_effect:
  assumes "abort_candidate key a c = (r, c')"
  shows "k \<noteq> key \<Longrightarrow> cache_agrees c c' k" "cache_peek k c' = cache_peek k c" "\<not> is_ok r \<Longrightarrow> c' = c" "r \<noteq> Panic"
  using assms
  by (auto simp: abort_candidate_def try_in_def Let_def cache_agrees_def cache_peek_def hm.get_del
      cache_candidate_def ok_or_def split: result.splits option.splits if_splits)

lemma cache_remove_agrees: "k \<noteq> key \<Longrightarrow> cache_agrees c (cache_remove key c) k"
  by (auto simp: cache_remove_def Let_def cache_agrees_def cache_peek_def drop_entry_keeps drop_entry_get hm.get_del
      split: option.split)

lemma install_empty_effect:
  assumes "install_empty E key c = (sn, c')"
  shows "k \<noteq> key \<Longrightarrow> cache_agrees c c' k" "cache_peek key c' = Some sn"
  using install_snapshot_gets [OF assms [unfolded install_empty_def]] by (auto simp: cache_agrees_def)

lemma cache_snapshot_effect:
  assumes "cache_snapshot key c = (x, c')"
  shows "cache_agrees c c' k" "x = cache_peek key c"
  using assms by (auto simp: cache_snapshot_def Let_def cache_agrees_def cache_peek_def hm.get_put split: option.splits)

section \<open>The invariant of the registry\<close>

text \<open>
  What holds of every session: it carries its own id, its state machine is in a reachable shape, the
  revision it publishes is that of the cached snapshot, and a pending load owns its candidate.
\<close>

definition session_ok :: "env \<Rightarrow> history_cache \<Rightarrow> string \<Rightarrow> session_state \<Rightarrow> bool" where
  "session_ok E c sid s \<longleftrightarrow>
     ss_session_id s = sid \<and> session_inv E s \<and>
     (\<forall>r. ss_history_revision s = Some r \<longrightarrow>
        (\<exists>sn. cache_peek (SessionKey sid (ss_incarnation s)) c = Some sn \<and> hs_revision sn = r)) \<and>
     (\<forall>a. ss_load_attempt s = Some a \<longrightarrow>
        (\<exists>ca. hm_get (hc_candidates c) (SessionKey sid (ss_incarnation s)) = Some ca \<and> ca_attempt_id ca = a))"

definition overlay_total :: "session_registry \<Rightarrow> nat" where
  "overlay_total rg = sum_list (map (\<lambda>e. ss_active_overlay_bytes (en_state (snd e))) (rg_sessions rg))"

definition mirror_inv :: "env \<Rightarrow> session_registry \<Rightarrow> bool" where
  "mirror_inv E rg \<longleftrightarrow>
     bt_wf (rg_sessions rg) \<and>
     (\<forall>sid s. state_of sid rg = Some s \<longrightarrow> session_ok E (rg_history rg) sid s) \<and>
     rg_overlay_bytes rg = overlay_total rg"

lemma state_of_put_state [registry_simps]:
  "state_of k (put_state sid s rg) = (if k = sid then (if state_of sid rg = None then None else Some s) else state_of k rg)"
  by (auto simp: state_of_def registry_simps)

lemma state_of_put_entry [registry_simps]:
  "state_of k (put_entry sid e rg) = (if k = sid then Some (en_state e) else state_of k rg)"
  by (simp add: state_of_def registry_simps)

lemma state_of_put_resources [registry_simps]: "state_of k (put_resources sid r rg) = state_of k rg"
  by (cases "entry_of sid rg") (auto simp: state_of_def registry_simps)

lemma state_of_fields [registry_simps]:
  "state_of k (rg\<lparr>rg_history := c\<rparr>) = state_of k rg"
  "state_of k (rg\<lparr>rg_overlay_bytes := n\<rparr>) = state_of k rg"
  "state_of k (rg\<lparr>rg_next_operation := m\<rparr>) = state_of k rg"
  "state_of k (rg\<lparr>rg_next_incarnation := m\<rparr>) = state_of k rg"
  "state_of k (rg\<lparr>rg_retained_terminals := ts\<rparr>) = state_of k rg"
  "state_of k (rg\<lparr>rg_retained_terminal_bytes := n\<rparr>) = state_of k rg"
  "state_of k (rg\<lparr>rg_handles := h\<rparr>) = state_of k rg"
  by (simp_all add: state_of_def entry_of_def)

lemma require_state_Ok: "require_state sid inc rg = Ok s \<longleftrightarrow> state_of sid rg = Some s \<and> ss_incarnation s = inc"
  by (auto simp: require_state_def split: if_splits)

lemma require_state_no_panic [simp]: "require_state sid inc rg \<noteq> Panic"
  by (cases "state_of sid rg") (simp_all add: require_state_def)

lemma overlay_total_put_state:
  assumes "bt_wf (rg_sessions rg)" "state_of sid rg = Some s"
  shows "overlay_total (put_state sid s' rg) + ss_active_overlay_bytes s = overlay_total rg + ss_active_overlay_bytes s'"
proof -
  obtain e where e: "entry_of sid rg = Some e" "en_state e = s" using assms(2) by (auto simp: state_of_def)
  show ?thesis
    using bt.sum_put_old [OF assms(1), of sid e "\<lambda>e. ss_active_overlay_bytes (en_state e)" "e\<lparr>en_state := s'\<rparr>"] e
    by (simp add: overlay_total_def put_state_def put_entry_def entry_of_def)
qed

lemma overlay_total_ge:
  assumes "state_of sid rg = Some s"
  shows "ss_active_overlay_bytes s \<le> overlay_total rg"
proof -
  obtain e where "entry_of sid rg = Some e" "en_state e = s" using assms by (auto simp: state_of_def)
  then have "(sid, e) \<in> set (rg_sessions rg)" using bt.get_mem by (simp add: entry_of_def)
  then have "ss_active_overlay_bytes (en_state (snd (sid, e))) \<le> overlay_total rg"
    unfolding overlay_total_def by (intro member_le_sum_list) (force simp: image_iff, simp)
  with \<open>en_state e = s\<close> show ?thesis by simp
qed

lemma overlay_total_fields [registry_simps]:
  "overlay_total (rg\<lparr>rg_history := c\<rparr>) = overlay_total rg"
  "overlay_total (rg\<lparr>rg_overlay_bytes := n\<rparr>) = overlay_total rg"
  "overlay_total (rg\<lparr>rg_next_operation := m\<rparr>) = overlay_total rg"
  "overlay_total (rg\<lparr>rg_next_incarnation := m\<rparr>) = overlay_total rg"
  "overlay_total (rg\<lparr>rg_retained_terminals := ts\<rparr>) = overlay_total rg"
  "overlay_total (rg\<lparr>rg_retained_terminal_bytes := n\<rparr>) = overlay_total rg"
  "overlay_total (rg\<lparr>rg_handles := h\<rparr>) = overlay_total rg"
  by (simp_all add: overlay_total_def)

lemma overlay_total_put_resources [registry_simps]:
  assumes "bt_wf (rg_sessions rg)"
  shows "overlay_total (put_resources sid r rg) = overlay_total rg"
proof (cases "entry_of sid rg")
  case (Some e)
  then show ?thesis
    using bt.sum_put_old [OF assms, of sid e "\<lambda>e. ss_active_overlay_bytes (en_state e)" "e\<lparr>en_resources := r\<rparr>"]
    by (simp add: overlay_total_def put_resources_def put_entry_def entry_of_def)
qed (simp add: put_resources_def)

lemma session_ok_agrees:
  "cache_agrees c c' (SessionKey sid (ss_incarnation s)) \<Longrightarrow> session_ok E c' sid s = session_ok E c sid s"
  by (simp add: session_ok_def cache_agrees_def)

text \<open>Two registries with the same session states.\<close>

definition same_states :: "session_registry \<Rightarrow> session_registry \<Rightarrow> bool" where
  "same_states rg rg' \<longleftrightarrow>
     (\<forall>k. state_of k rg' = state_of k rg) \<and>
     (bt_wf (rg_sessions rg) \<longrightarrow> bt_wf (rg_sessions rg') \<and> overlay_total rg' = overlay_total rg)"

lemma same_states_sessions: "rg_sessions rg' = rg_sessions rg \<Longrightarrow> same_states rg rg'"
  by (simp add: same_states_def state_of_def entry_of_def overlay_total_def)

text \<open>The registry after a transaction on one session: its state, its key in the cache, the account.\<close>

lemma mirror_inv_update:
  assumes "mirror_inv E rg" "state_of sid rg = Some s"
    and "rg' = (put_state sid s' rg1)\<lparr>rg_overlay_bytes := n\<rparr>"
    and "same_states rg rg1"
    and "\<And>k. k \<noteq> SessionKey sid (ss_incarnation s) \<Longrightarrow> cache_agrees (rg_history rg) (rg_history rg1) k"
    and "session_ok E (rg_history rg1) sid s'"
    and "n + ss_active_overlay_bytes s = rg_overlay_bytes rg + ss_active_overlay_bytes s'"
  shows "mirror_inv E rg'"
proof -
  have st: "state_of k rg1 = state_of k rg" for k using assms(4) by (simp add: same_states_def)
  have wf: "bt_wf (rg_sessions rg1)" using assms(1,4) by (simp add: same_states_def mirror_inv_def)
  have tot: "overlay_total (put_state sid s' rg1) + ss_active_overlay_bytes s = overlay_total rg + ss_active_overlay_bytes s'"
    using overlay_total_put_state [OF wf, of sid s s'] assms(1,2,4) st by (simp add: same_states_def mirror_inv_def)
  have ok: "session_ok E (rg_history rg1) k x" if "state_of k (put_state sid s' rg1) = Some x" for k x
  proof (cases "k = sid")
    case True
    with that assms(2,6) st show ?thesis by (simp add: registry_simps)
  next
    case False
    with that st have "session_ok E (rg_history rg) k x" using assms(1) by (simp add: registry_simps mirror_inv_def)
    moreover have "cache_agrees (rg_history rg) (rg_history rg1) (SessionKey k (ss_incarnation x))"
      by (rule assms(5)) (use False in simp)
    ultimately show ?thesis by (simp add: session_ok_agrees)
  qed
  have "bt_wf (rg_sessions (put_state sid s' rg1))"
    using wf by (rule bt_wf_put_state)
  moreover have "n = overlay_total (put_state sid s' rg1)"
    using assms(1,7) tot by (simp add: mirror_inv_def)
  ultimately show ?thesis
    using ok by (simp add: mirror_inv_def assms(3) registry_simps)
qed

lemma mirror_inv_cache:
  assumes "mirror_inv E rg" "\<And>k. cache_agrees (rg_history rg) c k"
  shows "mirror_inv E (rg\<lparr>rg_history := c\<rparr>)"
  using assms session_ok_agrees [OF assms(2)] by (auto simp: mirror_inv_def registry_simps)

lemma mirror_inv_state:
  assumes "mirror_inv E rg" "state_of sid rg = Some s" "session_ok E (rg_history rg) sid s'"
    and "ss_active_overlay_bytes s' = ss_active_overlay_bytes s"
  shows "mirror_inv E (put_state sid s' rg)"
  by (rule mirror_inv_update [where s' = s' and ?rg1.0 = rg and n = "rg_overlay_bytes rg", OF assms(1,2)])
     (simp_all add: assms same_states_sessions put_state_def put_entry_def split: option.split)

section \<open>Every transaction keeps the invariant\<close>

definition keeps_header :: "session_state \<Rightarrow> session_state \<Rightarrow> bool" where
  "keeps_header s s' \<longleftrightarrow>
     ss_session_id s' = ss_session_id s \<and> ss_incarnation s' = ss_incarnation s \<and>
     ss_history_revision s' = ss_history_revision s \<and>
     (ss_load_attempt s' = ss_load_attempt s \<or> ss_load_attempt s' = None)"

lemma session_ok_step:
  "session_ok E c sid s \<Longrightarrow> keeps_header s s' \<Longrightarrow> session_inv E s' \<Longrightarrow> session_ok E c sid s'"
  by (auto simp: session_ok_def keeps_header_def)

lemma keeps_header_refl [simp]: "keeps_header s s"
  by (simp add: keeps_header_def)

lemma fold_overlay_update_header: "keeps_header s (snd (fold_overlay_update E u s))"
  unfolding fold_overlay_update_def advance_revision_def Let_def
  by (intro try_in_snd [where P = "keeps_header s"]) (simp_all add: keeps_header_def)

lemma admit_turn_header: "keeps_header s (snd (admit_turn E op hrev intent prompt s))"
  by (auto simp: admit_turn_def try_in_def keeps_header_def advance_revision_def Let_def
      split: result.split option.split)

lemma append_turn_update_header: "keeps_header s (snd (append_turn_update E op u s))"
  unfolding append_turn_update_def
  by (intro if_snd [where P = "keeps_header s"] try_in_snd [where P = "keeps_header s"])
     (simp_all add: fold_overlay_update_header)

lemma append_reconciling_update_header: "keeps_header s (snd (append_reconciling_update E u s))"
  by (simp add: append_reconciling_update_def fold_overlay_update_header)

lemma complete_turn_header: "keeps_header s (snd (complete_turn E op terminal s))"
  by (auto simp: complete_turn_def try_in_def keeps_header_def advance_revision_def Let_def split: result.split)

lemma block_turn_header: "keeps_header s (snd (block_turn op msg s))"
  by (auto simp: block_turn_def keeps_header_def advance_revision_def)

lemma exclusive_header:
  "keeps_header s (snd (begin_exclusive kind op s))" "keeps_header s (snd (settle_exclusive adm op s))"
  by (auto simp: begin_exclusive_def settle_exclusive_def try_in_def keeps_header_def split: result.split)

lemmas session_ops_header = admit_turn_header append_turn_update_header append_reconciling_update_header
  complete_turn_header block_turn_header exclusive_header

text \<open>An operation that fails leaves the session as it was.\<close>

definition fails_clean :: "('s \<Rightarrow> ('e, 'a) result \<times> 's) \<Rightarrow> bool" where
  "fails_clean f \<longleftrightarrow> (\<forall>s. \<not> is_ok (fst (f s)) \<longrightarrow> snd (f s) = s)"

lemma fold_overlay_update_fails: "\<not> is_ok (fst (fold_overlay_update E u s)) \<Longrightarrow> snd (fold_overlay_update E u s) = s"
  by (auto simp: fold_overlay_update_def try_in_def Let_def split: result.splits)

lemma session_ops_fail:
  "fails_clean (admit_turn E op hrev intent prompt)"
  "fails_clean (append_turn_update E op u)"
  "fails_clean (append_reconciling_update E u)"
  "fails_clean (complete_turn E op terminal)"
  by (auto simp: fails_clean_def admit_turn_def append_turn_update_def append_reconciling_update_def
      complete_turn_def try_in_def Let_def fold_overlay_update_fails split: result.splits option.splits if_splits)

text \<open>
  An operation on one session that keeps the session's invariant and header keeps the registry's,
  with the overlay account exact, as long as the total fits a \<open>usize\<close>.
\<close>

lemma with_overlay_inv:
  assumes "mirror_inv E rg" "fails_clean f"
    and "\<And>s. keeps_header s (snd (f s))" "\<And>s. session_inv E s \<Longrightarrow> session_inv E (snd (f s))"
    and "overlay_total (snd (with_overlay sid inc f rg)) \<le> usize_max"
  shows "mirror_inv E (snd (with_overlay sid inc f rg))"
proof (cases "require_state sid inc rg")
  case (Ok s)
  then have s: "state_of sid rg = Some s" by (simp add: require_state_Ok)
  have ok: "session_ok E (rg_history rg) sid (snd (f s))"
  proof -
    have "session_ok E (rg_history rg) sid s" using s assms(1) by (simp add: mirror_inv_def)
    from session_ok_step [OF this assms(3) assms(4)] this show ?thesis by (simp add: session_ok_def)
  qed
  obtain r s' where f: "f s = (r, s')" by fastforce
  show ?thesis
  proof (cases "is_ok r")
    case True
    then obtain a where a: "r = Ok a" by (cases r) auto
    have tot: "overlay_total (put_state sid s' rg) + ss_active_overlay_bytes s = overlay_total rg + ss_active_overlay_bytes s'"
      using overlay_total_put_state [OF _ s] assms(1) by (simp add: mirror_inv_def)
    have le: "overlay_total (put_state sid s' rg) \<le> usize_max"
      using assms(5) by (simp add: with_overlay_def Ok f a account_overlay_def registry_simps)
    have ge: "ss_active_overlay_bytes s \<le> rg_overlay_bytes rg"
      using overlay_total_ge [OF s] assms(1) by (simp add: mirror_inv_def)
    have n: "sat_add (sat_sub (rg_overlay_bytes rg) (ss_active_overlay_bytes s)) (ss_active_overlay_bytes s')
        + ss_active_overlay_bytes s = rg_overlay_bytes rg + ss_active_overlay_bytes s'"
      using tot le ge assms(1) by (simp add: sat_sub_def sat_add_def mirror_inv_def)
    have "mirror_inv E (account_overlay (ss_active_overlay_bytes s) (ss_active_overlay_bytes s') (put_state sid s' rg))"
      by (rule mirror_inv_update [where s' = s' and ?rg1.0 = rg, OF assms(1) s _ _ _ _ n])
         (use ok f in \<open>simp_all add: account_overlay_def registry_simps same_states_sessions\<close>)
    then show ?thesis by (simp add: with_overlay_def Ok f a)
  next
    case False
    then have "s' = s" using assms(2) [unfolded fails_clean_def, rule_format, of s] f by simp
    moreover have "mirror_inv E (put_state sid s rg)"
      by (rule mirror_inv_state [OF assms(1) s]) (use assms(1) s in \<open>simp_all add: mirror_inv_def\<close>)
    ultimately show ?thesis using False by (cases r) (simp_all add: with_overlay_def Ok f)
  qed
qed (use assms(1) in \<open>simp_all add: with_overlay_def\<close>)

lemma with_state_inv:
  assumes "mirror_inv E rg"
    and "\<And>s. keeps_header s (snd (f s))" "\<And>s. session_inv E s \<Longrightarrow> session_inv E (snd (f s))"
    and "\<And>s. ss_active_overlay_bytes (snd (f s)) = ss_active_overlay_bytes s"
  shows "mirror_inv E (snd (with_state sid inc f rg))"
proof (cases "require_state sid inc rg")
  case (Ok s)
  then have s: "state_of sid rg = Some s" by (simp add: require_state_Ok)
  have "session_ok E (rg_history rg) sid (snd (f s))"
  proof -
    have "session_ok E (rg_history rg) sid s" using s assms(1) by (simp add: mirror_inv_def)
    from session_ok_step [OF this assms(2) assms(3)] this show ?thesis by (simp add: session_ok_def)
  qed
  with mirror_inv_state [OF assms(1) s this assms(4)] show ?thesis
    by (cases "f s") (simp add: with_state_def Ok)
qed (use assms(1) in \<open>simp_all add: with_state_def\<close>)

lemma mirror_inv_ok: "mirror_inv E rg \<Longrightarrow> state_of sid rg = Some s \<Longrightarrow> session_ok E (rg_history rg) sid s"
  by (simp add: mirror_inv_def)

lemma mirror_inv_overlay_ge:
  "mirror_inv E rg \<Longrightarrow> state_of sid rg = Some s \<Longrightarrow> ss_active_overlay_bytes s \<le> rg_overlay_bytes rg"
  using overlay_total_ge by (simp add: mirror_inv_def)

lemma mirror_inv_resources:
  assumes "mirror_inv E rg"
  shows "mirror_inv E (put_resources sid r rg)" "mirror_inv E (rg\<lparr>rg_handles := h\<rparr>)"
    "mirror_inv E (stop_absence_in sid rg)"
proof -
  have p: "mirror_inv E (put_resources sid r g)" if "mirror_inv E g" for r g
  proof -
    have "rg_history (put_resources sid r g) = rg_history g" "rg_overlay_bytes (put_resources sid r g) = rg_overlay_bytes g"
      by (simp_all add: put_resources_def put_entry_def split: option.split)
    with that show ?thesis by (simp add: mirror_inv_def registry_simps bt_wf_put_resources)
  qed
  have h: "mirror_inv E (rg\<lparr>rg_handles := h\<rparr>)" for h
    using assms by (simp add: mirror_inv_def registry_simps)
  show "mirror_inv E (put_resources sid r rg)" "mirror_inv E (rg\<lparr>rg_handles := h\<rparr>)" by (fact p [OF assms], fact h)
  show "mirror_inv E (stop_absence_in sid rg)"
    by (auto simp: stop_absence_in_def assms intro: p h split: option.split prod.split)
qed

lemma stop_absence_in_keeps [registry_simps]:
  "rg_history (stop_absence_in sid rg) = rg_history rg" "rg_overlay_bytes (stop_absence_in sid rg) = rg_overlay_bytes rg"
  "state_of k (stop_absence_in sid rg) = state_of k rg"
  by (auto simp: stop_absence_in_def registry_simps split: option.split prod.split)
     (simp_all add: put_resources_def put_entry_def split: option.split)

lemma same_states_stop_absence: "same_states rg rg1 \<Longrightarrow> same_states rg (stop_absence_in sid rg1)"
  by (auto simp: same_states_def registry_simps stop_absence_in_def bt_wf_put_resources
      split: option.split prod.split)

text \<open>A transaction that only changes one key of the cache, without a candidate or snapshot lost.\<close>

lemma history_call_inv:
  assumes "mirror_inv E rg" "\<And>k. cache_agrees (rg_history rg) (snd (f (rg_history rg))) k"
  shows "mirror_inv E (snd (history_call f rg))"
  using mirror_inv_cache [OF assms(1), of "snd (f (rg_history rg))"] assms(2)
  by (cases "f (rg_history rg)") (simp add: history_call_def)

lemma load_begun_inv:
  assumes "session_inv E s" "ss_phase s \<in> {Cold, Loading, Ready, Reconciling, Blocked}"
    and "\<forall>t. ss_active_turn s = Some t \<longrightarrow> ov_terminal t \<noteq> None"
  shows "session_inv E (load_begun a s)"
proof -
  have t: "ss_active_turn s = None \<or> (\<exists>t. ss_active_turn s = Some t \<and> turn_done t)"
    using assms(3) by (cases "ss_active_turn s") (auto simp: turn_done_def)
  from assms(2) show ?thesis
    using assms(1) t
    by (auto simp: load_begun_def Let_def advance_revision_def session_inv_def load_ok_def phase_ok_def)
qed

lemma begin_load_inv:
  assumes "mirror_inv E rg"
  shows "mirror_inv E (snd (begin_load sid inc a rg))"
  unfolding begin_load_def
proof (intro try_in_snd [where P = "mirror_inv E"] if_snd [where P = "mirror_inv E"] assms)
  fix s
  let ?key = "SessionKey sid inc"
  assume "require_state sid inc rg = Ok s"
  then have s: "state_of sid rg = Some s" "ss_incarnation s = inc" by (simp_all add: require_state_Ok)
  assume g: "\<not> (ss_phase s \<notin> {Cold, Loading, Ready, Reconciling, Blocked} \<or> ss_load_attempt s \<noteq> None \<or>
    (case ss_active_turn s of Some turn \<Rightarrow> ov_terminal turn = None | None \<Rightarrow> False) \<or>
    (case ss_operation s of Some op \<Rightarrow> admission (so_kind op) \<noteq> AdmitAttachment \<or> so_operation_id op \<noteq> a | None \<Rightarrow> False))"
  obtain r c where b: "begin_candidate ?key a (rg_history rg) = (r, c)" by fastforce
  note eff = begin_candidate_effect [OF b]
  have inv: "session_inv E (load_begun a s)"
    by (rule load_begun_inv) (use g mirror_inv_ok [OF assms s(1)] in \<open>auto simp: session_ok_def split: option.splits\<close>)
  show "mirror_inv E (snd (call_then (history_call (begin_candidate ?key a) rg) (\<lambda>_ rg1.
      expect_in rg1 (state_of sid rg1) (\<lambda>s1. (Ok (), put_state sid (load_begun a s1) (stop_absence_in sid rg1))))))"
  proof (cases r)
    case (Ok u)
    let ?rg1 = "stop_absence_in sid (rg\<lparr>rg_history := c\<rparr>)"
    have ok: "session_ok E c sid (load_begun a s)"
      using mirror_inv_ok [OF assms s(1)] inv eff(1,3) s Ok
      by (auto simp: session_ok_def load_begun_def Let_def advance_revision_def)
    have "mirror_inv E (put_state sid (load_begun a s) ?rg1)"
      by (rule mirror_inv_update [where s' = "load_begun a s" and ?rg1.0 = ?rg1 and n = "rg_overlay_bytes rg",
            OF assms s(1)])
         (use eff(2) s ok in \<open>simp_all add: registry_simps same_states_stop_absence same_states_sessions
            load_begun_def Let_def advance_revision_def put_state_def put_entry_def split: option.split\<close>)
    then show ?thesis using s by (simp add: history_call_def b Ok registry_simps)
  next
    case (Err e)
    with eff(4) assms show ?thesis by (simp add: history_call_def b)
  qed (use eff(5) in simp)
qed (simp add: assms)

lemma load_record_inv:
  assumes "mirror_inv E rg"
  shows "mirror_inv E (snd (append_load_update E sid inc a u rg))" "mirror_inv E (snd (invalidate_load sid inc a rg))"
proof -
  have 1: "mirror_inv E (snd (history_call (append_candidate E key a u) rg))" for key
    by (rule history_call_inv [OF assms]) (rule append_candidate_agrees)
  have 2: "mirror_inv E (snd (history_call (poison_candidate key a e) rg))" for key e
    by (rule history_call_inv [OF assms]) (rule poison_candidate_agrees)
  show "mirror_inv E (snd (append_load_update E sid inc a u rg))" "mirror_inv E (snd (invalidate_load sid inc a rg))"
    unfolding append_load_update_def invalidate_load_def
    by (auto intro!: try_in_snd [where P = "mirror_inv E"] simp: assms 1 2)
qed

lemma append_load_updates_inv:
  "mirror_inv E rg \<Longrightarrow> mirror_inv E (snd (append_load_updates E sid inc a us rg))"
proof (induction us arbitrary: rg)
  case (Cons u us)
  show ?case
    unfolding append_load_updates.simps
  proof (rule call_then_snd [where P = "mirror_inv E"])
    show 1: "mirror_inv E (snd (append_load_update E sid inc a u rg))" by (rule load_record_inv [OF Cons.prems])
    show "mirror_inv E (snd (append_load_updates E sid inc a us rg1))"
      if "append_load_update E sid inc a u rg = (Ok x, rg1)" for x rg1
      using Cons.IH 1 that by simp
  qed
qed simp

lemma prune_keeps:
  "state_of k (prune_retained_terminals E key us rg) = state_of k rg"
  "rg_history (prune_retained_terminals E key us rg) = rg_history rg"
  "mirror_inv E (prune_retained_terminals E key us rg) = mirror_inv E rg"
  by (auto simp: prune_retained_terminals_def Let_def mirror_inv_def registry_simps split: option.split)

text \<open>What a committed history leaves of a session.\<close>

lemma history_committed_fields:
  assumes "history_committed hrev n replace s = Some s'"
  shows "ss_session_id s' = ss_session_id s" "ss_incarnation s' = ss_incarnation s"
    "ss_history_revision s' = Some hrev" "ss_load_attempt s' = None" "ss_active_overlay_bytes s' = 0"
    "ss_phase s' = Ready" "ss_active_turn s' = None"
  using assms
  by (auto simp: history_committed_def consume_intent_def settle_outcomes_def advance_revision_def
      split: option.splits if_splits)

lemma history_commit_inv:
  assumes "mirror_inv E rg" "state_of sid rg = Some s" "ss_incarnation s = inc"
    and "\<And>k. k \<noteq> SessionKey sid inc \<Longrightarrow> cache_agrees (rg_history rg) c k"
    and "cache_peek (SessionKey sid inc) c = Some sn"
    and "history_committed (hs_revision sn) n replace s = Some s'"
  shows "mirror_inv E ((put_state sid s' (rg\<lparr>rg_history := c\<rparr>))\<lparr>rg_overlay_bytes :=
      sat_sub (rg_overlay_bytes rg) (ss_active_overlay_bytes s)\<rparr>)"
proof -
  note f = history_committed_fields [OF assms(6)]
  have i: "session_ok E (rg_history rg) sid s" using assms(1,2) by (rule mirror_inv_ok)
  then have "session_inv E s" by (simp add: session_ok_def)
  from history_committed_inv [OF this, of "hs_revision sn" n replace] assms(6) have "session_inv E s'" by auto
  with i f assms(3,5) have ok: "session_ok E c sid s'" by (simp add: session_ok_def)
  have n: "sat_sub (rg_overlay_bytes rg) (ss_active_overlay_bytes s) + ss_active_overlay_bytes s
      = rg_overlay_bytes rg + ss_active_overlay_bytes s'"
    using mirror_inv_overlay_ge [OF assms(1,2)] f by (simp add: sat_sub_def)
  show ?thesis
    by (rule mirror_inv_update [where s' = s' and ?rg1.0 = "rg\<lparr>rg_history := c\<rparr>", OF assms(1,2) refl _ _ _ n])
       (use assms(3,4) ok in \<open>simp_all add: same_states_sessions\<close>)
qed

lemma history_call_Ok:
  "history_call f rg = (Ok a, rg1) \<longleftrightarrow> (\<exists>c. f (rg_history rg) = (Ok a, c) \<and> rg1 = rg\<lparr>rg_history := c\<rparr>)"
  by (cases "f (rg_history rg)"; cases "fst (f (rg_history rg))") (auto simp: history_call_def)

text \<open>A call into the cache followed by more: on an error only the cache has changed.\<close>

lemma history_then:
  assumes "f (rg_history rg) = (r, c)" "\<not> is_ok r \<Longrightarrow> P (rg\<lparr>rg_history := c\<rparr>)"
    and "\<And>a. r = Ok a \<Longrightarrow> P (snd (k a (rg\<lparr>rg_history := c\<rparr>)))"
  shows "P (snd (call_then (history_call f rg) k))"
  using assms by (cases r) (simp_all add: history_call_def)

lemma history_committed_step:
  assumes "mirror_inv E rg" "state_of sid rg = Some s" "ss_incarnation s = inc"
    and "\<And>k. k \<noteq> SessionKey sid inc \<Longrightarrow> cache_agrees (rg_history rg) c k"
    and "cache_peek (SessionKey sid inc) c = Some sn" and "rg1 = rg\<lparr>rg_history := c\<rparr>"
  obtains s' where "Option.bind (state_of sid rg1) (history_committed (hs_revision sn) n replace) = Some s'"
    "history_committed (hs_revision sn) n replace s = Some s'"
    "mirror_inv E ((put_state sid s' rg1)\<lparr>rg_overlay_bytes :=
      sat_sub (rg_overlay_bytes rg1) (ss_active_overlay_bytes s)\<rparr>)"
proof -
  have "session_inv E s" using mirror_inv_ok [OF assms(1,2)] by (simp add: session_ok_def)
  from history_committed_inv [OF this, of "hs_revision sn" n replace] obtain s'
    where s': "history_committed (hs_revision sn) n replace s = Some s'" by blast
  with history_commit_inv [OF assms(1-5) s'] assms(2,6) that [of s'] show thesis by (simp add: registry_simps)
qed

lemma commit_load_inv:
  assumes "mirror_inv E rg"
  shows "mirror_inv E (snd (commit_load E sid inc a rg))"
  unfolding commit_load_def Let_def
proof (intro try_in_snd [where P = "mirror_inv E"] if_snd [where P = "mirror_inv E"] assms)
  fix s
  let ?key = "SessionKey sid inc"
  assume "require_state sid inc rg = Ok s"
  then have s: "state_of sid rg = Some s" "ss_incarnation s = inc" by (simp_all add: require_state_Ok)
  obtain r c where cc: "commit_candidate E ?key a (rg_history rg) = (r, c)" by fastforce
  note eff = commit_candidate_effect [OF cc]
  show "mirror_inv E (snd (call_then (history_call (commit_candidate E ?key a) rg) (\<lambda>snapshot rg1.
      expect_in rg1 (Option.bind (state_of sid rg1)
        (history_committed (hs_revision snapshot) (length (hs_updates snapshot)) (ss_phase s = Loading)))
      (\<lambda>s2. (Ok snapshot, prune_retained_terminals E ?key (hs_updates snapshot)
         ((put_state sid s2 rg1)\<lparr>rg_overlay_bytes := sat_sub (rg_overlay_bytes rg1) (ss_active_overlay_bytes s)\<rparr>))))))"
  proof (rule history_then [where P = "mirror_inv E"])
    show "commit_candidate E ?key a (rg_history rg) = (r, c)" by (rule cc)
    show "mirror_inv E (rg\<lparr>rg_history := c\<rparr>)" if "\<not> is_ok r"
      by (rule mirror_inv_cache [OF assms]) (rule eff(3) [OF that])
    fix snapshot assume "r = Ok snapshot"
    then have p: "cache_peek ?key c = Some snapshot" by (rule eff(2))
    from history_committed_step [OF assms s eff(1) p refl] obtain s2
      where "Option.bind (state_of sid (rg\<lparr>rg_history := c\<rparr>))
          (history_committed (hs_revision snapshot) (length (hs_updates snapshot)) (ss_phase s = Loading)) = Some s2"
        "mirror_inv E ((put_state sid s2 (rg\<lparr>rg_history := c\<rparr>))\<lparr>rg_overlay_bytes :=
          sat_sub (rg_overlay_bytes (rg\<lparr>rg_history := c\<rparr>)) (ss_active_overlay_bytes s)\<rparr>)" .
    then show "mirror_inv E (snd (expect_in (rg\<lparr>rg_history := c\<rparr>) (Option.bind (state_of sid (rg\<lparr>rg_history := c\<rparr>))
        (history_committed (hs_revision snapshot) (length (hs_updates snapshot)) (ss_phase s = Loading)))
        (\<lambda>s2. (Ok snapshot, prune_retained_terminals E ?key (hs_updates snapshot)
          ((put_state sid s2 (rg\<lparr>rg_history := c\<rparr>))\<lparr>rg_overlay_bytes :=
             sat_sub (rg_overlay_bytes (rg\<lparr>rg_history := c\<rparr>)) (ss_active_overlay_bytes s)\<rparr>)))))"
      by (simp add: prune_keeps)
  qed
qed (simp add: assms)

text \<open>A committed session is ready, with no turn, no load and no error.\<close>

lemma commit_load_Ok:
  assumes "commit_load E sid inc a rg = (Ok sn, rg')"
  shows "\<exists>s s'. require_state sid inc rg = Ok s \<and> load_in_flight a s \<and> state_of sid rg' = Some s' \<and>
    history_committed (hs_revision sn) (length (hs_updates sn)) (ss_phase s = Loading) s = Some s' \<and>
    (\<exists>c. commit_candidate E (SessionKey sid inc) a (rg_history rg) = (Ok sn, c) \<and> rg_history rg' = c) \<and>
    (ss_phase s = Reconciling \<longrightarrow> check_reconciled (SessionKey sid inc) a s (rg_history rg) = Ok ())"
  using assms
  by (auto simp: commit_load_def Let_def try_in_eq_Ok expect_in_eq_Ok call_then_eq_Ok history_call_Ok
      prune_keeps registry_simps require_state_Ok split: if_splits)

lemma commit_attachment_cache_inv:
  assumes "mirror_inv E rg"
  shows "mirror_inv E (snd (commit_attachment_cache E sid inc a rg))"
  unfolding commit_attachment_cache_def
proof (rule call_then_snd [where P = "mirror_inv E"])
  show i: "mirror_inv E (snd (commit_load E sid inc a rg))" by (rule commit_load_inv [OF assms])
  fix sn rg1
  assume c: "commit_load E sid inc a rg = (Ok sn, rg1)"
  with i have i1: "mirror_inv E rg1" by simp
  from commit_load_Ok [OF c] obtain s s' where s': "state_of sid rg1 = Some s'"
    "history_committed (hs_revision sn) (length (hs_updates sn)) (ss_phase s = Loading) s = Some s'" by blast
  note f = history_committed_fields [OF s'(2)]
  have "session_ok E (rg_history rg1) sid (s'\<lparr>ss_phase := Cold\<rparr>)"
    using mirror_inv_ok [OF i1 s'(1)] f by (simp add: session_ok_def session_inv_def phase_ok_def load_ok_def)
  then have "mirror_inv E (put_state sid (s'\<lparr>ss_phase := Cold\<rparr>) rg1)"
    by (rule mirror_inv_state [OF i1 s'(1)]) simp
  with i1 s'(1) show "mirror_inv E (snd (try_in rg1 (require_state sid inc rg1)
      (\<lambda>s. (Ok sn, put_state sid (s\<lparr>ss_phase := Cold\<rparr>) rg1))))"
    by (auto simp: try_in_def require_state_Ok split: result.split)
qed

lemma use_cached_history_inv:
  assumes "mirror_inv E rg"
  shows "mirror_inv E (snd (use_cached_history E sid inc us notice rg))"
  unfolding use_cached_history_def Let_def
proof (intro try_in_snd [where P = "mirror_inv E"] if_snd [where P = "mirror_inv E"]
    call_then_snd [where P = "mirror_inv E"] assms)
  fix s
  assume "require_state sid inc rg = Ok s" and n: "\<not> (ss_active_turn s \<noteq> None \<or> ss_load_attempt s \<noteq> None)"
  then have s: "state_of sid rg = Some s" by (simp add: require_state_Ok)
  have "session_ok E (rg_history rg) sid (s\<lparr>ss_phase := Cold\<rparr>)"
    using mirror_inv_ok [OF assms s] n by (simp add: session_ok_def session_inv_def phase_ok_def load_ok_def)
  then have "mirror_inv E (put_state sid (s\<lparr>ss_phase := Cold\<rparr>) rg)"
    by (rule mirror_inv_state [OF assms s]) simp
  from begin_load_inv [OF this] show b: "mirror_inv E (snd (begin_load sid inc ''bridge-cache-fallback''
      (put_state sid (s\<lparr>ss_phase := Cold\<rparr>) rg)))" .
  fix x rg1
  assume "begin_load sid inc ''bridge-cache-fallback'' (put_state sid (s\<lparr>ss_phase := Cold\<rparr>) rg) = (Ok x, rg1)"
  with b have "mirror_inv E rg1" by simp
  from append_load_updates_inv [OF this]
  show u: "mirror_inv E (snd (append_load_updates E sid inc ''bridge-cache-fallback'' us rg1))" .
  fix y rg2
  assume "append_load_updates E sid inc ''bridge-cache-fallback'' us rg1 = (Ok y, rg2)"
  with u have "mirror_inv E rg2" by simp
  from commit_load_inv [OF this] show c: "mirror_inv E (snd (commit_load E sid inc ''bridge-cache-fallback'' rg2))" .
  fix sn rg3
  assume "commit_load E sid inc ''bridge-cache-fallback'' rg2 = (Ok sn, rg3)"
  with c show i3: "mirror_inv E rg3" by simp
  fix s'
  assume "require_state sid inc rg3 = Ok s'"
  then have s': "state_of sid rg3 = Some s'" by (simp add: require_state_Ok)
  have "session_ok E (rg_history rg3) sid (s'\<lparr>ss_history_notice := Some notice\<rparr>)"
    using mirror_inv_ok [OF i3 s'] by (simp add: session_ok_def session_inv_def load_ok_def)
  then have "mirror_inv E (put_state sid (s'\<lparr>ss_history_notice := Some notice\<rparr>) rg3)"
    by (rule mirror_inv_state [OF i3 s']) simp
  then show "mirror_inv E (snd (Ok (), put_state sid (s'\<lparr>ss_history_notice := Some notice\<rparr>) rg3))" by simp
qed (simp add: assms)

lemma load_failed_inv:
  assumes "session_inv E s" "ss_load_attempt s = Some a"
  shows "session_inv E (load_failed m r s)"
proof -
  obtain ph where ph: "ss_load_origin s = Some ph" "ph \<noteq> Running" "ph \<noteq> Blocked \<longrightarrow> phase_ok ph (ss_active_turn s)"
    using assms by (auto simp: session_inv_def load_ok_def)
  then have "phase_ok (ss_phase (load_failed m r s)) (ss_active_turn s)"
    by (cases ph; cases r) (simp_all add: load_failed_def advance_revision_def phase_ok_def)
  with assms(1) show ?thesis
    by (simp add: load_failed_def advance_revision_def session_inv_def load_ok_def)
qed

lemma fail_load_inv:
  assumes "mirror_inv E rg"
  shows "mirror_inv E (snd (fail_load sid inc a m r rg))"
  unfolding fail_load_def
proof (intro try_in_snd [where P = "mirror_inv E"] if_snd [where P = "mirror_inv E"] assms)
  fix s
  let ?key = "SessionKey sid inc"
  assume "require_state sid inc rg = Ok s" and a: "\<not> ss_load_attempt s \<noteq> Some a"
  then have s: "state_of sid rg = Some s" "ss_incarnation s = inc" by (simp_all add: require_state_Ok)
  obtain x c where cc: "abort_candidate ?key a (rg_history rg) = (x, c)" by fastforce
  note eff = abort_candidate_effect [OF cc]
  show "mirror_inv E (snd (call_then (history_call (abort_candidate ?key a) rg) (\<lambda>_ rg1.
      expect_in rg1 (state_of sid rg1) (\<lambda>s1. (Ok (), put_state sid (load_failed m r s1) rg1)))))"
  proof (rule history_then [where P = "mirror_inv E"])
    show "abort_candidate ?key a (rg_history rg) = (x, c)" by (rule cc)
    show "mirror_inv E (rg\<lparr>rg_history := c\<rparr>)" if "\<not> is_ok x"
      by (rule mirror_inv_cache [OF assms]) (use eff(3) [OF that] in simp)
    have ok: "session_ok E c sid (load_failed m r s)"
      using mirror_inv_ok [OF assms s(1)] load_failed_inv [of E s a m r] a eff(2) s
      by (auto simp: session_ok_def load_failed_def advance_revision_def)
    have "mirror_inv E (put_state sid (load_failed m r s) (rg\<lparr>rg_history := c\<rparr>))"
      by (rule mirror_inv_update [where s' = "load_failed m r s" and ?rg1.0 = "rg\<lparr>rg_history := c\<rparr>" and
            n = "rg_overlay_bytes rg", OF assms s(1)])
         (use eff(1) s ok in \<open>simp_all add: same_states_sessions load_failed_def advance_revision_def
            put_state_def put_entry_def split: option.split\<close>)
    then show "mirror_inv E (snd (expect_in (rg\<lparr>rg_history := c\<rparr>) (state_of sid (rg\<lparr>rg_history := c\<rparr>))
        (\<lambda>s1. (Ok (), put_state sid (load_failed m r s1) (rg\<lparr>rg_history := c\<rparr>)))))" if "x = Ok u" for u
      using s by (simp add: registry_simps)
  qed
qed (simp add: assms)

lemma mirror_inv_next_operation: "mirror_inv E (rg\<lparr>rg_next_operation := n\<rparr>) = mirror_inv E rg"
  by (simp add: mirror_inv_def registry_simps)

lemma start_turn_inv:
  assumes "mirror_inv E rg" "overlay_total (snd (start_turn E sid inc hrev intent prompt rg)) \<le> usize_max"
  shows "mirror_inv E (snd (start_turn E sid inc hrev intent prompt rg))"
proof -
  let ?op = "turn_operation_id (rg_epoch rg) (next_revision (rg_next_operation rg))"
  let ?w = "with_overlay sid inc (admit_turn E ?op hrev intent prompt) rg"
  have t: "overlay_total (snd (start_turn E sid inc hrev intent prompt rg)) = overlay_total (snd ?w)"
    by (cases ?w; cases "fst ?w") (auto simp: start_turn_def Let_def registry_simps split: turn_admission.split)
  have "mirror_inv E (snd ?w)"
    by (rule with_overlay_inv [OF assms(1) session_ops_fail(1) admit_turn_header])
       (use assms(2) t in \<open>simp_all add: admit_turn_inv\<close>)
  then show ?thesis
    by (cases ?w; cases "fst ?w")
       (auto simp: start_turn_def Let_def mirror_inv_next_operation split: turn_admission.split)
qed

lemma overlay_ops_inv:
  assumes "mirror_inv E rg"
  shows "overlay_total (snd (mirror_append_turn_update E sid inc op u rg)) \<le> usize_max \<Longrightarrow>
      mirror_inv E (snd (mirror_append_turn_update E sid inc op u rg))"
    and "overlay_total (snd (mirror_complete_turn E sid inc op terminal rg)) \<le> usize_max \<Longrightarrow>
      mirror_inv E (snd (mirror_complete_turn E sid inc op terminal rg))"
proof -
  show "mirror_inv E (snd (mirror_append_turn_update E sid inc op u rg))"
    if "overlay_total (snd (mirror_append_turn_update E sid inc op u rg)) \<le> usize_max"
    unfolding mirror_append_turn_update_def
    by (rule with_overlay_inv [OF assms session_ops_fail(2) append_turn_update_header append_turn_update_inv that [unfolded mirror_append_turn_update_def]])
  show "mirror_inv E (snd (mirror_complete_turn E sid inc op terminal rg))"
    if "overlay_total (snd (mirror_complete_turn E sid inc op terminal rg)) \<le> usize_max"
    unfolding mirror_complete_turn_def
    by (rule with_overlay_inv [OF assms session_ops_fail(4) complete_turn_header complete_turn_inv that [unfolded mirror_complete_turn_def]])
qed

lemma append_session_update_inv:
  assumes "mirror_inv E rg" "overlay_total (snd (append_session_update E sid inc u rg)) \<le> usize_max"
  shows "mirror_inv E (snd (append_session_update E sid inc u rg))"
proof (cases "require_state sid inc rg")
  case (Ok s)
  then have s: "state_of sid rg = Some s" "ss_incarnation s = inc" by (simp_all add: require_state_Ok)
  consider "ss_load_attempt s \<noteq> None \<or> ss_phase s \<notin> {Reconciling, Ready}"
    | (r) "ss_load_attempt s = None" "ss_phase s = Reconciling" | (y) "ss_load_attempt s = None" "ss_phase s = Ready"
    by auto
  then show ?thesis
  proof cases
    case 1
    with assms(1) show ?thesis by (auto simp: append_session_update_def Ok)
  next
    case r
    then have e: "append_session_update E sid inc u rg = with_overlay sid inc (append_reconciling_update E u) rg"
      by (simp add: append_session_update_def Ok)
    show ?thesis unfolding e
      by (rule with_overlay_inv [OF assms(1) session_ops_fail(3) append_reconciling_update_header])
         (use assms(2) in \<open>simp_all add: e append_reconciling_update_inv\<close>)
  next
    case y
    let ?key = "SessionKey sid inc"
    obtain x c where cc: "append_committed_updates E ?key [u] (rg_history rg) = (x, c)" by fastforce
    note eff = append_committed_effect [OF cc]
    have "mirror_inv E (snd (call_then (history_call (append_committed_updates E ?key [u]) rg) (\<lambda>snapshot rg1.
        expect_in rg1 (state_of sid rg1) (\<lambda>s1.
          (Ok (), put_state sid (advance_revision (s1\<lparr>ss_history_revision := Some (hs_revision snapshot)\<rparr>)) rg1)))))"
    proof (rule history_then [where P = "mirror_inv E"])
      show "append_committed_updates E ?key [u] (rg_history rg) = (x, c)" by (rule cc)
      show "mirror_inv E (rg\<lparr>rg_history := c\<rparr>)" if "\<not> is_ok x"
        using eff(4) [OF that] assms(1) by simp
      fix sn assume "x = Ok sn"
      then have p: "cache_peek ?key c = Some sn" by (rule eff(3))
      let ?s = "advance_revision (s\<lparr>ss_history_revision := Some (hs_revision sn)\<rparr>)"
      have ok: "session_ok E c sid ?s"
        using mirror_inv_ok [OF assms(1) s(1)] p s y
        by (auto simp: session_ok_def advance_revision_def session_inv_def phase_ok_def load_ok_def)
      have "mirror_inv E (put_state sid ?s (rg\<lparr>rg_history := c\<rparr>))"
        by (rule mirror_inv_update [where s' = ?s and ?rg1.0 = "rg\<lparr>rg_history := c\<rparr>" and
              n = "rg_overlay_bytes rg", OF assms(1) s(1)])
           (use eff(1) s ok in \<open>simp_all add: same_states_sessions advance_revision_def
              put_state_def put_entry_def split: option.split\<close>)
      then show "mirror_inv E (snd (expect_in (rg\<lparr>rg_history := c\<rparr>) (state_of sid (rg\<lparr>rg_history := c\<rparr>)) (\<lambda>s1.
          (Ok (), put_state sid (advance_revision (s1\<lparr>ss_history_revision := Some (hs_revision sn)\<rparr>))
            (rg\<lparr>rg_history := c\<rparr>)))))"
        using s by (simp add: registry_simps)
    qed
    with y show ?thesis by (simp add: append_session_update_def Ok)
  qed
qed (use assms(1) in \<open>simp_all add: append_session_update_def\<close>)

lemma commit_memory_inv:
  assumes "mirror_inv E rg"
  shows "mirror_inv E (snd (commit_completed_turn_from_memory E sid inc op rg))"
  unfolding commit_completed_turn_from_memory_def
proof (intro try_in_snd [where P = "mirror_inv E"] if_snd [where P = "mirror_inv E"] assms)
  fix s turn
  let ?key = "SessionKey sid inc"
  assume "require_state sid inc rg = Ok s"
  then have s: "state_of sid rg = Some s" "ss_incarnation s = inc" by (simp_all add: require_state_Ok)
  obtain x c where cc: "append_committed_updates E ?key (turn_suffix turn) (rg_history rg) = (x, c)" by fastforce
  note eff = append_committed_effect [OF cc]
  show "mirror_inv E (snd (call_then (history_call (append_committed_updates E ?key (turn_suffix turn)) rg) (\<lambda>snapshot rg1.
      expect_in rg1 (Option.bind (state_of sid rg1)
        (history_committed (hs_revision snapshot) (length (hs_updates snapshot)) False)) (\<lambda>s2.
        (Ok snapshot, (put_state sid s2 rg1)\<lparr>rg_overlay_bytes :=
           sat_sub (rg_overlay_bytes rg1) (ss_active_overlay_bytes s)\<rparr>)))))"
  proof (rule history_then [where P = "mirror_inv E"])
    show "append_committed_updates E ?key (turn_suffix turn) (rg_history rg) = (x, c)" by (rule cc)
    show "mirror_inv E (rg\<lparr>rg_history := c\<rparr>)" if "\<not> is_ok x" using eff(4) [OF that] assms by simp
    fix sn assume "x = Ok sn"
    then have p: "cache_peek ?key c = Some sn" by (rule eff(3))
    from history_committed_step [OF assms s eff(1) p refl] obtain s2
      where "Option.bind (state_of sid (rg\<lparr>rg_history := c\<rparr>))
          (history_committed (hs_revision sn) (length (hs_updates sn)) False) = Some s2"
        "mirror_inv E ((put_state sid s2 (rg\<lparr>rg_history := c\<rparr>))\<lparr>rg_overlay_bytes :=
          sat_sub (rg_overlay_bytes (rg\<lparr>rg_history := c\<rparr>)) (ss_active_overlay_bytes s)\<rparr>)" .
    then show "mirror_inv E (snd (expect_in (rg\<lparr>rg_history := c\<rparr>) (Option.bind (state_of sid (rg\<lparr>rg_history := c\<rparr>))
        (history_committed (hs_revision sn) (length (hs_updates sn)) False)) (\<lambda>s2.
        (Ok sn, (put_state sid s2 (rg\<lparr>rg_history := c\<rparr>))\<lparr>rg_overlay_bytes :=
           sat_sub (rg_overlay_bytes (rg\<lparr>rg_history := c\<rparr>)) (ss_active_overlay_bytes s)\<rparr>))))"
      by simp
  qed
qed (simp_all add: assms)

lemma block_turn_bytes: "ss_active_overlay_bytes (snd (block_turn op msg s)) = ss_active_overlay_bytes s"
  by (simp add: block_turn_def advance_revision_def)

lemma state_ops_inv:
  assumes "mirror_inv E rg"
  shows "mirror_inv E (snd (mirror_block_turn sid inc op msg rg))"
    "mirror_inv E (snd (mirror_settle_exclusive sid inc adm op rg))"
    "mirror_inv E (snd (mirror_begin_exclusive sid inc kind op rg))"
    "mirror_inv E (snd (mirror_touch sid inc rg))"
proof -
  show "mirror_inv E (snd (mirror_block_turn sid inc op msg rg))"
    unfolding mirror_block_turn_def
    by (rule with_state_inv [OF assms block_turn_header block_turn_inv block_turn_bytes])
  show "mirror_inv E (snd (mirror_settle_exclusive sid inc adm op rg))"
    unfolding mirror_settle_exclusive_def
    by (rule with_state_inv [OF assms exclusive_header(2) settle_exclusive_inv]) (auto simp: settle_exclusive_def)
  have "mirror_inv E (snd (with_state sid inc (begin_exclusive kind op) rg))"
    by (rule with_state_inv [OF assms exclusive_header(1) begin_exclusive_inv])
       (auto simp: begin_exclusive_def try_in_def split: result.split)
  with assms show "mirror_inv E (snd (mirror_begin_exclusive sid inc kind op rg))"
    by (auto simp: mirror_begin_exclusive_def try_in_def split: result.split)
  show "mirror_inv E (snd (mirror_touch sid inc rg))"
    unfolding mirror_touch_def
    by (rule with_state_inv [OF assms]) (simp_all add: Let_def advance_revision_def keeps_header_def)
qed

lemma mirror_view_inv:
  assumes "mirror_inv E rg"
  shows "mirror_inv E (snd (mirror_view sid inc rg))"
  unfolding mirror_view_def
proof (intro try_in_snd [where P = "mirror_inv E"] assms)
  fix s
  obtain x c where cc: "cache_snapshot (SessionKey sid inc) (rg_history rg) = (x, c)" by fastforce
  have "mirror_inv E (rg\<lparr>rg_history := c\<rparr>)"
    by (rule mirror_inv_cache [OF assms]) (rule cache_snapshot_effect(1) [OF cc])
  then show "mirror_inv E (snd (case cache_snapshot (SessionKey sid inc) (rg_history rg) of
      (Some baseline, c) \<Rightarrow> (Ok (history_view_of s, baseline), rg\<lparr>rg_history := c\<rparr>)
    | (None, c) \<Rightarrow> (Err MirrorWrongPhase, rg\<lparr>rg_history := c\<rparr>)))"
    by (simp add: cc split: option.split)
qed

lemma retain_terminal_output_inv:
  assumes "mirror_inv E rg"
  shows "mirror_inv E (snd (retain_terminal_output E sid inc tid terminal rg))"
proof -
  have i: "mirror_inv E (rg\<lparr>rg_retained_terminal_bytes := n, rg_retained_terminals := ts\<rparr>)" for n ts
    using assms by (simp add: mirror_inv_def registry_simps)
  have k: "mirror_inv E (put_state sid (advance_revision s) (rg\<lparr>rg_retained_terminal_bytes := n, rg_retained_terminals := ts\<rparr>))"
    if "require_state sid inc rg = Ok s" for s n ts
  proof -
    have s: "state_of sid rg = Some s" using that by (simp add: require_state_Ok)
    show ?thesis
      by (rule mirror_inv_state [OF i, where s = s])
         (use s mirror_inv_ok [OF assms s] in \<open>simp_all add: registry_simps advance_revision_def session_ok_def\<close>)
  qed
  show ?thesis
    unfolding retain_terminal_output_def Let_def
    by (intro try_in_snd [where P = "mirror_inv E"] if_snd [where P = "mirror_inv E"])
       (simp_all add: assms k)
qed

section \<open>Replacing and removing an incarnation\<close>

text \<open>Clearing a history leaves the session with no turn and no bytes, and its key out of the cache.\<close>

lemma clear_history_effect:
  assumes "mirror_inv E rg" "state_of sid rg = Some s"
  shows "mirror_inv E (clear_history_for_replacement E sid (ss_incarnation s) rg)"
    "state_of sid (clear_history_for_replacement E sid (ss_incarnation s) rg)
       = Some ((session_cold sid (ss_incarnation s))\<lparr>ss_live := ss_live s, ss_operation := ss_operation s,
           ss_view_revision := next_revision (ss_view_revision s)\<rparr>)"
proof -
  let ?inc = "ss_incarnation s"
  let ?s = "(session_cold sid ?inc)\<lparr>ss_live := ss_live s, ss_operation := ss_operation s,
           ss_view_revision := next_revision (ss_view_revision s)\<rparr>"
  define c where "c = cache_remove (SessionKey sid ?inc) (rg_history rg)"
  define n where "n = sat_sub (rg_overlay_bytes rg) (ss_active_overlay_bytes s)"
  have ok: "session_ok E c sid ?s"
    using session_cold_inv [of E sid ?inc] by (simp add: session_ok_def) (simp add: session_cold_def)
  have sum: "n + ss_active_overlay_bytes s = rg_overlay_bytes rg + ss_active_overlay_bytes ?s"
    using mirror_inv_overlay_ge [OF assms] by (simp add: n_def sat_sub_def session_cold_def)
  have i: "mirror_inv E ((put_state sid ?s (rg\<lparr>rg_history := c\<rparr>))\<lparr>rg_overlay_bytes := n\<rparr>)"
    by (rule mirror_inv_update [where s' = ?s and ?rg1.0 = "rg\<lparr>rg_history := c\<rparr>", OF assms refl _ _ _ sum])
       (use ok cache_remove_agrees in \<open>simp_all add: same_states_sessions c_def\<close>)
  let ?r = "clear_history_for_replacement E sid ?inc rg"
  have e: "rg_sessions ?r = rg_sessions (put_state sid ?s rg)" "rg_history ?r = c" "rg_overlay_bytes ?r = n"
    using assms(2)
    by (auto simp: clear_history_for_replacement_def Let_def remove_retained_terminals_def put_state_def put_entry_def
        entry_of_def c_def n_def split: option.split)
  have st: "state_of k ?r = state_of k (put_state sid ?s rg)" for k
    by (simp add: state_of_def entry_of_def e)
  show "mirror_inv E ?r"
    using i by (simp add: mirror_inv_def st e overlay_total_def registry_simps)
       (simp add: put_state_def put_entry_def entry_of_def split: option.splits)
  show "state_of sid ?r = Some ?s" using st [of sid] assms(2) by (simp add: registry_simps)
qed

lemma clear_history_other:
  assumes "\<nexists>s. state_of sid rg = Some s \<and> ss_incarnation s = inc"
  shows "clear_history_for_replacement E sid inc rg = rg"
  using assms by (auto simp: clear_history_for_replacement_def split: option.split)

lemma clear_history_inv: "mirror_inv E rg \<Longrightarrow> mirror_inv E (clear_history_for_replacement E sid inc rg)"
  using clear_history_effect(1) clear_history_other [of sid rg inc E] by (cases "\<exists>s. state_of sid rg = Some s \<and> ss_incarnation s = inc") auto

lemma cancel_resources_keeps:
  "state_of k (cancel_resources sid inc reason rg) = state_of k rg"
  "rg_history (cancel_resources sid inc reason rg) = rg_history rg"
  "rg_overlay_bytes (cancel_resources sid inc reason rg) = rg_overlay_bytes rg"
  "bt_wf (rg_sessions rg) \<Longrightarrow> bt_wf (rg_sessions (cancel_resources sid inc reason rg))"
  "bt_wf (rg_sessions rg) \<Longrightarrow> overlay_total (cancel_resources sid inc reason rg) = overlay_total rg"
proof -
  obtain r h where rc: "\<And>e. entry_of sid rg = Some e \<Longrightarrow> resources_cancel reason (en_resources e, rg_handles rg) = (r, h)"
    by (cases "entry_of sid rg"; cases "resources_cancel reason (en_resources (the (entry_of sid rg)), rg_handles rg)") auto
  note f = state_of_def entry_of_def overlay_total_def
  have p: "rg_history (put_resources sid r g) = rg_history g" "rg_overlay_bytes (put_resources sid r g) = rg_overlay_bytes g" for g
    by (simp_all add: put_resources_def put_entry_def split: option.split)
  define g where "g = rg\<lparr>rg_permission_owners := hm_retain (\<lambda>_ route. route \<noteq> \<lparr>ow_epoch = rg_epoch rg, ow_session_id = sid, ow_incarnation = inc\<rparr>) (rg_permission_owners rg),
      rg_elicitation_owners := hm_retain (\<lambda>_ route. route \<noteq> \<lparr>ow_epoch = rg_epoch rg, ow_session_id = sid, ow_incarnation = inc\<rparr>) (rg_elicitation_owners rg),
      rg_url_owners := hm_retain (\<lambda>_ route. ur_owner route \<noteq> Some \<lparr>ow_epoch = rg_epoch rg, ow_session_id = sid, ow_incarnation = inc\<rparr>) (rg_url_owners rg),
      rg_handles := h\<rparr>"
  have g: "cancel_resources sid inc reason rg = rg \<or> cancel_resources sid inc reason rg = put_resources sid r g"
    by (auto simp: cancel_resources_def rc Let_def g_def split: option.split)
  have gk: "rg_sessions g = rg_sessions rg" "rg_history g = rg_history rg" "rg_overlay_bytes g = rg_overlay_bytes rg"
    by (simp_all add: g_def)
  then have gs: "state_of k g = state_of k rg" "overlay_total g = overlay_total rg" for k by (simp_all add: f)
  show "state_of k (cancel_resources sid inc reason rg) = state_of k rg"
    "rg_history (cancel_resources sid inc reason rg) = rg_history rg"
    "rg_overlay_bytes (cancel_resources sid inc reason rg) = rg_overlay_bytes rg"
    using g gk gs p by (auto simp: registry_simps)
  show "bt_wf (rg_sessions (cancel_resources sid inc reason rg))" if "bt_wf (rg_sessions rg)"
    using g gk that by (auto simp: bt_wf_put_resources)
  show "overlay_total (cancel_resources sid inc reason rg) = overlay_total rg" if "bt_wf (rg_sessions rg)"
    using g gk gs that by (auto simp: registry_simps)
qed

lemma retire_entry_inv:
  assumes "mirror_inv E rg" "\<And>s. state_of sid rg = Some s \<Longrightarrow> ss_active_overlay_bytes s = 0"
  shows "mirror_inv E (retire_entry sid inc reason rg)"
proof (cases "\<exists>e. entry_of sid rg = Some e \<and> ss_incarnation (en_state e) = inc")
  case True
  then obtain e where e: "entry_of sid rg = Some e" "ss_incarnation (en_state e) = inc" by blast
  let ?c = "cancel_resources sid inc reason rg"
  have wf: "bt_wf (rg_sessions rg)" using assms(1) by (simp add: mirror_inv_def)
  note k = cancel_resources_keeps(1) [of _ sid inc reason rg] cancel_resources_keeps(2,3) [of sid inc reason rg]
    cancel_resources_keeps(4,5) [OF wf, of sid inc reason]
  have r: "retire_entry sid inc reason rg = ?c\<lparr>rg_sessions := bt_remove sid (rg_sessions ?c),
      rg_retired_ids := List.insert sid (rg_retired_ids ?c)\<rparr>"
    using e by (simp add: retire_entry_def Let_def)
  have st: "state_of j (retire_entry sid inc reason rg) = (if j = sid then None else state_of j rg)" for j
    using k(1) [of j] by (simp add: r state_of_def entry_of_def bt.get_del)
  obtain e' where e': "entry_of sid ?c = Some e'" "en_state e' = en_state e"
    using k(1) [of sid] e by (auto simp: state_of_def)
  have "ss_active_overlay_bytes (en_state e') = 0" using assms(2) [of "en_state e"] e e' by (simp add: state_of_def)
  then have "overlay_total (retire_entry sid inc reason rg) = overlay_total ?c"
    using bt.sum_del [OF k(4), of sid e' "\<lambda>e. ss_active_overlay_bytes (en_state e)"] e'(1)
    by (simp add: r overlay_total_def entry_of_def)
  then show ?thesis
    using assms(1) k st by (auto simp: mirror_inv_def r bt.wf_del split: if_splits)
next
  case False
  with assms(1) show ?thesis by (auto simp: retire_entry_def split: option.split)
qed

lemma replace_previous_inv:
  assumes "mirror_inv E rg"
  shows "mirror_inv E (replace_previous E sid inc rg)"
proof (cases "state_of sid rg")
  case (Some s)
  note c = clear_history_effect [OF assms Some]
  have "mirror_inv E (retire_entry sid (ss_incarnation s) reason (clear_history_for_replacement E sid (ss_incarnation s) rg))" for reason
    by (rule retire_entry_inv [OF c(1)]) (simp add: c(2) session_cold_def)
  with c(1) show ?thesis by (auto simp: replace_previous_def Some Let_def)
qed (simp add: replace_previous_def assms)

lemma replace_previous_state:
  assumes "mirror_inv E rg" "state_of sid (replace_previous E sid inc rg) = Some s"
  shows "ss_incarnation s = inc \<and> ss_active_overlay_bytes s = 0"
proof (cases "state_of sid rg")
  case (Some p)
  note c = clear_history_effect [OF assms(1) Some]
  let ?c = "clear_history_for_replacement E sid (ss_incarnation p) rg"
  show ?thesis
  proof (cases "ss_incarnation p = inc")
    case True
    with assms(2) c(2) show ?thesis by (auto simp: replace_previous_def Some session_cold_def)
  next
    case False
    obtain e where e: "entry_of sid ?c = Some e" "ss_incarnation (en_state e) = ss_incarnation p"
      using c(2) by (auto simp: state_of_def session_cold_def)
    have "state_of sid (retire_entry sid (ss_incarnation p) reason ?c) = None" for reason
      using e by (simp add: retire_entry_def Let_def state_of_def entry_of_def bt.get_del)
    with assms(2) False show ?thesis by (simp add: replace_previous_def Some Let_def)
  qed
qed (use assms(2) in \<open>simp add: replace_previous_def\<close>)

lemma register_history_inv:
  assumes "mirror_inv E rg"
  shows "mirror_inv E (register_history E sid inc ready rg)"
proof -
  define rg1 where "rg1 = replace_previous E sid inc (rg\<lparr>rg_next_incarnation := max (rg_next_incarnation rg) inc\<rparr>)"
  have i0: "mirror_inv E (rg\<lparr>rg_next_incarnation := max (rg_next_incarnation rg) inc\<rparr>)"
    using assms by (simp add: mirror_inv_def registry_simps)
  have i1: "mirror_inv E rg1" unfolding rg1_def by (rule replace_previous_inv [OF i0])
  obtain sn c where inst: "install_empty E (SessionKey sid inc) (rg_history rg1) = (sn, c)" by fastforce
  note eff = install_empty_effect [OF inst]
  define fresh where "fresh = (if ready then session_ready sid inc (hs_revision sn) else session_cold sid inc)"
  have fresh: "ss_session_id fresh = sid" "ss_incarnation fresh = inc" "session_inv E fresh"
    "ss_load_attempt fresh = None" "ss_active_overlay_bytes fresh = 0"
    "ss_history_revision fresh = None \<or> ss_history_revision fresh = Some (hs_revision sn)"
    by (simp_all add: fresh_def session_ready_inv session_cold_inv) (simp_all add: session_ready_def session_cold_def)
  have ok: "session_ok E c sid fresh" using fresh eff(2) by (auto simp: session_ok_def)
  show ?thesis
  proof (cases "state_of sid rg1")
    case (Some s)
    have s: "ss_incarnation s = inc" "ss_active_overlay_bytes s = 0"
      using replace_previous_state [OF i0, of sid inc s] Some by (simp_all add: rg1_def)
    let ?s = "fresh\<lparr>ss_live := ss_live s, ss_operation := ss_operation s, ss_view_revision := ss_view_revision s\<rparr>"
    have "session_ok E c sid ?s" using ok by (simp add: session_ok_def)
    then have "mirror_inv E (put_state sid ?s (rg1\<lparr>rg_history := c\<rparr>))"
      by (intro mirror_inv_update [where s' = ?s and ?rg1.0 = "rg1\<lparr>rg_history := c\<rparr>" and n = "rg_overlay_bytes rg1", OF i1 Some])
         (use eff(1) s fresh in \<open>simp_all add: same_states_sessions put_state_def put_entry_def split: option.split\<close>)
    then show ?thesis
      using Some by (simp add: register_history_def Let_def rg1_def [symmetric] inst fresh_def [symmetric] registry_simps)
  next
    case None
    let ?r = "put_entry sid (entry_new fresh) (rg1\<lparr>rg_history := c\<rparr>)"
    have none: "bt_get (rg_sessions rg1) sid = None" using None by (simp add: state_of_def entry_of_def)
    have wf: "bt_wf (rg_sessions rg1)" using i1 by (simp add: mirror_inv_def)
    have tot: "overlay_total ?r = overlay_total rg1"
      using bt.sum_put_new [OF wf none, of "\<lambda>e. ss_active_overlay_bytes (en_state e)" "entry_new fresh"] fresh(5)
      by (simp add: overlay_total_def put_entry_def entry_new_def)
    have "session_ok E c k x" if "state_of k ?r = Some x" for k x
    proof (cases "k = sid")
      case True
      with that ok show ?thesis by (simp add: registry_simps entry_new_def)
    next
      case False
      with that have "session_ok E (rg_history rg1) k x" using i1 by (simp add: registry_simps mirror_inv_def)
      moreover have "cache_agrees (rg_history rg1) c (SessionKey k (ss_incarnation x))"
        by (rule eff(1)) (use False in simp)
      ultimately show ?thesis by (simp add: session_ok_agrees)
    qed
    then have "mirror_inv E ?r"
      using i1 tot bt_wf_put_entry [of "rg1\<lparr>rg_history := c\<rparr>"] by (simp add: mirror_inv_def registry_simps)
    then show ?thesis
      using None by (simp add: register_history_def Let_def rg1_def [symmetric] inst fresh_def [symmetric] registry_simps)
  qed
qed

lemma mirror_remove_inv:
  assumes "mirror_inv E rg"
  shows "mirror_inv E (mirror_remove E sid inc rg)"
proof -
  let ?c = "clear_history_for_replacement E sid inc rg"
  have i: "mirror_inv E ?c" by (rule clear_history_inv [OF assms])
  have "mirror_inv E (retire_entry sid inc reason ?c)" for reason
  proof (cases "\<exists>s. state_of sid rg = Some s \<and> ss_incarnation s = inc")
    case True
    then obtain s where s: "state_of sid rg = Some s" "ss_incarnation s = inc" by blast
    with clear_history_effect(2) [OF assms s(1)] show ?thesis
      by (intro retire_entry_inv [OF i]) (simp add: session_cold_def)
  next
    case False
    then have "retire_entry sid inc reason ?c = rg"
      using clear_history_other [OF False] by (auto simp: retire_entry_def state_of_def split: option.split)
    with assms show ?thesis by simp
  qed
  with i show ?thesis by (simp add: mirror_remove_def Let_def split: option.split)
qed

section \<open>Runs of the registry\<close>

datatype mirror_call =
    CallRegister string u64 bool
  | CallBeginLoad string u64 string
  | CallAppendLoad string u64 string json
  | CallInvalidate string u64 string
  | CallCommitLoad string u64 string
  | CallCommitAttachment string u64 string
  | CallUseCached string u64 "json list" string
  | CallFailLoad string u64 string string bool
  | CallStartTurn string u64 string string "json list"
  | CallAppendTurn string u64 string json
  | CallAppendSession string u64 json
  | CallRetainTerminal string u64 string json
  | CallCompleteTurn string u64 string json
  | CallCommitTurn string u64 string
  | CallBlockTurn string u64 string string
  | CallBeginExclusive string u64 operation_kind string
  | CallSettleExclusive string u64 session_admission string
  | CallTouch string u64
  | CallView string u64
  | CallRemove string u64

fun mirror_do :: "env \<Rightarrow> mirror_call \<Rightarrow> session_registry \<Rightarrow> session_registry" where
  "mirror_do E (CallRegister sid inc ready) rg = register_history E sid inc ready rg"
| "mirror_do E (CallBeginLoad sid inc a) rg = snd (begin_load sid inc a rg)"
| "mirror_do E (CallAppendLoad sid inc a u) rg = snd (append_load_update E sid inc a u rg)"
| "mirror_do E (CallInvalidate sid inc a) rg = snd (invalidate_load sid inc a rg)"
| "mirror_do E (CallCommitLoad sid inc a) rg = snd (commit_load E sid inc a rg)"
| "mirror_do E (CallCommitAttachment sid inc a) rg = snd (commit_attachment_cache E sid inc a rg)"
| "mirror_do E (CallUseCached sid inc us notice) rg = snd (use_cached_history E sid inc us notice rg)"
| "mirror_do E (CallFailLoad sid inc a m r) rg = snd (fail_load sid inc a m r rg)"
| "mirror_do E (CallStartTurn sid inc hrev intent prompt) rg = snd (start_turn E sid inc hrev intent prompt rg)"
| "mirror_do E (CallAppendTurn sid inc op u) rg = snd (mirror_append_turn_update E sid inc op u rg)"
| "mirror_do E (CallAppendSession sid inc u) rg = snd (append_session_update E sid inc u rg)"
| "mirror_do E (CallRetainTerminal sid inc tid t) rg = snd (retain_terminal_output E sid inc tid t rg)"
| "mirror_do E (CallCompleteTurn sid inc op t) rg = snd (mirror_complete_turn E sid inc op t rg)"
| "mirror_do E (CallCommitTurn sid inc op) rg = snd (commit_completed_turn_from_memory E sid inc op rg)"
| "mirror_do E (CallBlockTurn sid inc op m) rg = snd (mirror_block_turn sid inc op m rg)"
| "mirror_do E (CallBeginExclusive sid inc kind op) rg = snd (mirror_begin_exclusive sid inc kind op rg)"
| "mirror_do E (CallSettleExclusive sid inc adm op) rg = snd (mirror_settle_exclusive sid inc adm op rg)"
| "mirror_do E (CallTouch sid inc) rg = snd (mirror_touch sid inc rg)"
| "mirror_do E (CallView sid inc) rg = snd (mirror_view sid inc rg)"
| "mirror_do E (CallRemove sid inc) rg = mirror_remove E sid inc rg"

text \<open>
  The states of a registry. Besides the transactions of this theory, the other components change the
  resources, the routes, the journal and the replays behind their handles, which the sessions do not
  see (\<open>mr_other\<close>); the live part and the operation of a session (\<open>mr_live\<close>); the execution of its
  turn, which they seal (\<open>mr_seal\<close>); and they install a live session where there is none
  (\<open>mr_open\<close>). The overlay bytes are assumed to fit a \<open>usize\<close>.
\<close>

inductive mirror_reach :: "env \<Rightarrow> string \<Rightarrow> session_registry \<Rightarrow> bool" for E epoch where
  mr_new: "mirror_reach E epoch (registry_new epoch)"
| mr_call: "mirror_reach E epoch rg \<Longrightarrow> overlay_total (mirror_do E c rg) \<le> usize_max \<Longrightarrow>
    mirror_reach E epoch (mirror_do E c rg)"
| mr_other: "mirror_reach E epoch rg \<Longrightarrow> same_states rg rg' \<Longrightarrow>
    (\<And>k. cache_agrees (rg_history rg) (rg_history rg') k) \<Longrightarrow> rg_overlay_bytes rg' = rg_overlay_bytes rg \<Longrightarrow>
    mirror_reach E epoch rg'"
| mr_live: "mirror_reach E epoch rg \<Longrightarrow> state_of sid rg = Some s \<Longrightarrow>
    mirror_reach E epoch (put_state sid (s\<lparr>ss_live := l, ss_operation := op\<rparr>) rg)"
| mr_seal: "mirror_reach E epoch rg \<Longrightarrow> state_of sid rg = Some s \<Longrightarrow> ss_active_turn s = Some t \<Longrightarrow>
    mirror_reach E epoch (put_state sid (s\<lparr>ss_active_turn := Some (t\<lparr>ov_execution := None\<rparr>)\<rparr>) rg)"
| mr_open: "mirror_reach E epoch rg \<Longrightarrow> entry_of sid rg = None \<Longrightarrow>
    mirror_reach E epoch (put_entry sid (entry_new ((session_cold sid inc)\<lparr>ss_live := l\<rparr>)) rg)"

lemma mirror_do_inv:
  "mirror_inv E rg \<Longrightarrow> overlay_total (mirror_do E c rg) \<le> usize_max \<Longrightarrow> mirror_inv E (mirror_do E c rg)"
  by (cases c)
     (simp_all add: register_history_inv begin_load_inv load_record_inv commit_load_inv commit_attachment_cache_inv
       use_cached_history_inv fail_load_inv start_turn_inv overlay_ops_inv append_session_update_inv
       retain_terminal_output_inv commit_memory_inv state_ops_inv mirror_view_inv mirror_remove_inv)

lemma registry_new_inv: "mirror_inv E (registry_new epoch)"
  by (simp add: mirror_inv_def registry_new_def state_of_def entry_of_def bt.get_nil bt.wf_nil overlay_total_def)

lemma mirror_inv_other:
  assumes "mirror_inv E rg" "same_states rg rg'" "\<And>k. cache_agrees (rg_history rg) (rg_history rg') k"
    and "rg_overlay_bytes rg' = rg_overlay_bytes rg"
  shows "mirror_inv E rg'"
  using assms session_ok_agrees [OF assms(3)] by (auto simp: mirror_inv_def same_states_def)

lemma mirror_inv_live:
  assumes "mirror_inv E rg" "state_of sid rg = Some s"
  shows "mirror_inv E (put_state sid (s\<lparr>ss_live := l, ss_operation := op\<rparr>) rg)"
  by (rule mirror_inv_state [OF assms]) (use mirror_inv_ok [OF assms] in \<open>simp_all add: session_ok_def\<close>)

lemma mirror_inv_seal:
  assumes "mirror_inv E rg" "state_of sid rg = Some s" "ss_active_turn s = Some t"
  shows "mirror_inv E (put_state sid (s\<lparr>ss_active_turn := Some (t\<lparr>ov_execution := None\<rparr>)\<rparr>) rg)"
  by (rule mirror_inv_state [OF assms(1,2)])
     (use mirror_inv_ok [OF assms(1,2)] session_inv_seal [OF _ assms(3)] in \<open>simp_all add: session_ok_def\<close>)

lemma mirror_inv_open:
  assumes "mirror_inv E rg" "entry_of sid rg = None"
  shows "mirror_inv E (put_entry sid (entry_new ((session_cold sid inc)\<lparr>ss_live := l\<rparr>)) rg)"
proof -
  let ?s = "(session_cold sid inc)\<lparr>ss_live := l\<rparr>"
  have wf: "bt_wf (rg_sessions rg)" using assms(1) by (simp add: mirror_inv_def)
  have "overlay_total (put_entry sid (entry_new ?s) rg) = overlay_total rg"
    using bt.sum_put_new [OF wf, of sid "\<lambda>e. ss_active_overlay_bytes (en_state e)" "entry_new ?s"] assms(2)
    by (simp add: overlay_total_def put_entry_def entry_new_def entry_of_def session_cold_def)
  moreover have "session_ok E (rg_history rg) sid ?s"
    using session_cold_inv [of E sid inc] by (simp add: session_ok_def) (simp add: session_cold_def)
  ultimately show ?thesis
    using assms(1) bt_wf_put_entry [OF wf] by (auto simp: mirror_inv_def registry_simps entry_new_def)
qed

lemma mirror_reach_inv: "mirror_reach E epoch rg \<Longrightarrow> mirror_inv E rg"
  by (induction rule: mirror_reach.induct)
     (auto intro: registry_new_inv mirror_do_inv mirror_inv_other mirror_inv_live mirror_inv_seal mirror_inv_open)



end
