(* ===== verification/Session_Live.thy ===== *)
theory Session_Live
  imports Terminal_Output Session_Mirror
begin

text \<open>
  The reducers of one session's live state (module \<open>session_live\<close> and the free functions
  \<open>remember_resolved_interaction\<close> and \<open>drain_session_liveness\<close>, \<open>src/src/runtime_state.rs\<close>):
  starting an operation, sealing the running turn, and the life of a permission request. They touch
  neither the registry nor its journal. Functions that the registry shadows carry the prefix \<open>live_\<close>.
\<close>

section \<open>Remembering what was resolved\<close>

definition remember_resolved_interaction :: "string \<Rightarrow> string list \<Rightarrow> string list" where
  "remember_resolved_interaction interaction_id resolved = resolved @ [interaction_id]"

definition remember_resolved_permission :: "string \<Rightarrow> session_live_state \<Rightarrow> session_live_state" where
  "remember_resolved_permission interaction_id l =
     l\<lparr>lv_resolved_permissions := remember_resolved_interaction interaction_id (lv_resolved_permissions l)\<rparr>"

definition remove_permission :: "string \<Rightarrow> session_live_state \<Rightarrow> session_live_state" where
  "remove_permission interaction_id l =
     remember_resolved_permission interaction_id
       (l\<lparr>lv_permissions := bt_remove interaction_id (lv_permissions l)\<rparr>)"

definition remove_elicitation :: "string \<Rightarrow> session_live_state \<Rightarrow> session_live_state" where
  "remove_elicitation interaction_id l =
     l\<lparr>lv_elicitations := bt_remove interaction_id (lv_elicitations l),
       lv_resolved_elicitations := remember_resolved_interaction interaction_id (lv_resolved_elicitations l)\<rparr>"

section \<open>Operations and turns\<close>

fun allows_operation :: "operation_kind \<Rightarrow> session_lifecycle \<Rightarrow> bool" where
  "allows_operation Delete lifecycle = (lifecycle = Active \<or> lifecycle = Closed)"
| "allows_operation _ lifecycle = (lifecycle = Active)"

definition lifecycle_of_operation :: "operation_kind \<Rightarrow> string \<Rightarrow> session_lifecycle \<Rightarrow> session_lifecycle" where
  "lifecycle_of_operation kind stage lifecycle =
     (case kind of
        Close \<Rightarrow> Closing
      | Delete \<Rightarrow> if lifecycle = Closed \<or> stage = ''deleting_active'' then Deleting else ClosingForDelete
      | _ \<Rightarrow> lifecycle)"

definition reserved_by :: "string \<Rightarrow> operation_kind \<Rightarrow> operation_state \<Rightarrow> bool" where
  "reserved_by operation_id kind op \<longleftrightarrow>
     so_operation_id op = operation_id \<and> so_kind op = kind \<and> so_stage op = ''reserved''"

definition live_start_operation :: "string \<Rightarrow> operation_kind \<Rightarrow> string \<Rightarrow> session_state
    \<Rightarrow> (runtime_error, unit) result \<times> session_state" where
  "live_start_operation operation_id kind stage s =
     try_in s (if ss_operation s = None then map_err (\<lambda>_. BusySession) (can_begin s (admission kind)) else Ok ()) (\<lambda>_.
     try_in s (ok_or UnknownSession (ss_live s)) (\<lambda>live.
       if \<not> allows_operation kind (lv_lifecycle live) then (Err SessionNotActive, s)
       else if (case ss_operation s of Some op \<Rightarrow> \<not> reserved_by operation_id kind op | None \<Rightarrow> False) \<or>
          turn_execution_of s \<noteq> None \<and> kind \<notin> {Close, SetMode, SetConfig}
       then (Err BusySession, s)
       else (Ok (), s\<lparr>ss_operation := Some \<lparr>so_operation_id = operation_id, so_kind = kind, so_stage = stage,
                 so_uncertainty_reason = None\<rparr>,
               ss_live := Some (live\<lparr>lv_lifecycle := lifecycle_of_operation kind stage (lv_lifecycle live)\<rparr>)\<rparr>)))"

record turn_retirement =
  tr_permissions :: "string list"
  tr_elicitations :: "string list"

definition asked_by :: "string \<Rightarrow> (string, pending_interaction) btree_map \<Rightarrow> string list" where
  "asked_by operation_id m = map fst (filter (\<lambda>e. pi_operation_id (snd e) = Some operation_id) m)"

definition live_seal_turn :: "string \<Rightarrow> session_lifecycle option \<Rightarrow> session_state
    \<Rightarrow> (runtime_error, turn_retirement) result \<times> session_state" where
  "live_seal_turn operation_id lifecycle s =
     try_in s (ok_or UnknownSession (ss_live s)) (\<lambda>live.
     try_in s (ok_or NoActiveTurn (ss_active_turn s)) (\<lambda>overlay.
     try_in s (ok_or NoActiveTurn (ov_execution overlay)) (\<lambda>execution.
       if tx_rpc_operation_id execution \<noteq> operation_id then (Err OperationMismatch, s)
       else let live1 = (case lifecycle of Some l \<Rightarrow> live\<lparr>lv_lifecycle := l\<rparr> | None \<Rightarrow> live);
                permissions = asked_by operation_id (lv_permissions live1);
                live2 = fold remove_permission permissions live1;
                elicitations = asked_by operation_id (lv_elicitations live2);
                live3 = fold remove_elicitation elicitations live2
         in (Ok \<lparr>tr_permissions = permissions, tr_elicitations = elicitations\<rparr>,
             s\<lparr>ss_active_turn := Some (overlay\<lparr>ov_execution := None\<rparr>), ss_live := Some live3\<rparr>))))"

section \<open>Permissions\<close>

definition live_upsert_permission :: "string \<Rightarrow> json \<Rightarrow> string option \<Rightarrow> session_live_state
    \<Rightarrow> (runtime_error, interaction_upsert) result \<times> session_live_state" where
  "live_upsert_permission interaction_id request active_operation l =
     (if interaction_id \<in> set (lv_resolved_permissions l) then (Ok UpsertAlreadyResolved, l)
      else case bt_get (lv_permissions l) interaction_id of
        Some existing \<Rightarrow>
          (if json_eq (pi_request existing) request \<and> pi_operation_id existing = active_operation
           then Ok UpsertDuplicate else Err InteractionCollision, l)
      | None \<Rightarrow>
          (Ok UpsertInserted, l\<lparr>lv_permissions := bt_insert interaction_id
             \<lparr>pi_interaction_id = interaction_id, pi_request = request, pi_operation_id = active_operation,
              pi_responding_operation_id = None\<rparr> (lv_permissions l)\<rparr>))"

definition live_resolve_permission :: "string \<Rightarrow> session_live_state
    \<Rightarrow> (runtime_error, interaction_resolution) result \<times> session_live_state" where
  "live_resolve_permission interaction_id l =
     (if interaction_id \<in> set (lv_resolved_permissions l) then (Ok ResolutionAlreadyResolved, l)
      else try_in l (ok_or UnknownInteraction (bt_get (lv_permissions l) interaction_id)) (\<lambda>_.
        (Ok ResolutionApplied, remove_permission interaction_id l)))"

definition live_begin_permission_response :: "string \<Rightarrow> string \<Rightarrow> bool \<Rightarrow> session_live_state
    \<Rightarrow> (runtime_error, interaction_response_start) result \<times> session_live_state" where
  "live_begin_permission_response interaction_id operation_id in_use l =
     try_in l (ok_or UnknownInteraction (bt_get (lv_permissions l) interaction_id)) (\<lambda>pending.
       case pi_responding_operation_id pending of
         Some existing \<Rightarrow>
           (if existing = operation_id then Ok ResponseDuplicate else Err InteractionCollision, l)
       | None \<Rightarrow>
           if in_use then (Err OperationCollision, l)
           else (Ok ResponseApplied, l\<lparr>lv_permissions := bt_insert interaction_id
             (pending\<lparr>pi_responding_operation_id := Some operation_id\<rparr>) (lv_permissions l)\<rparr>))"

definition live_complete_permission_response :: "string \<Rightarrow> string \<Rightarrow> session_live_state
    \<Rightarrow> (runtime_error, interaction_resolution) result \<times> session_live_state" where
  "live_complete_permission_response interaction_id operation_id l =
     (if interaction_id \<in> set (lv_resolved_permissions l) then (Ok ResolutionAlreadyResolved, l)
      else try_in l (ok_or UnknownInteraction (bt_get (lv_permissions l) interaction_id)) (\<lambda>pending.
        if pi_responding_operation_id pending \<noteq> Some operation_id then (Err OperationMismatch, l)
        else (Ok ResolutionApplied, remove_permission interaction_id l)))"

section \<open>Ending a session's live work\<close>

text \<open>What external work a session's live state stands for, as the effects that end it.\<close>

definition liveness_effects :: "string \<Rightarrow> u64 \<Rightarrow> session_live_state \<Rightarrow> runtime_effect list" where
  "liveness_effects sid inc l =
     map (\<lambda>e. CancelPermissionResponder sid inc (fst e)) (lv_permissions l) @
     map (\<lambda>e. CancelElicitationResponder (Some sid) (Some inc) (fst e)) (lv_elicitations l) @
     map (\<lambda>e. AbortUrlFlow (Some sid) (Some inc) (fst e) (uf_registration_id (snd e)))
       (filter (\<lambda>e. uf_status (snd e) = Waiting) (lv_url_flows l)) @
     map (\<lambda>e. ReleaseTerminal sid (fst e)) (filter (\<lambda>e. \<not> terminal_released (snd e)) (lv_terminals l))"

definition drain_session_liveness :: "string \<Rightarrow> u64 \<Rightarrow> session_live_state
    \<Rightarrow> runtime_effect list \<times> session_live_state" where
  "drain_session_liveness sid inc l =
     (liveness_effects sid inc l,
      l\<lparr>lv_permissions := [], lv_elicitations := [], lv_url_flows := [], lv_terminals := []\<rparr>)"

end
