(* ===== verification/Runtime_State.thy ===== *)
theory Runtime_State
  imports Session_Live
begin

text \<open>
  The live part of \<open>SessionRegistry\<close> (\<open>src/src/runtime_state.rs\<close>): what it publishes, the
  attachment, reload and opening of sessions, the admission and the end of turns, and the control
  state. Every operation checks the epoch and the incarnation, changes one session and commits a
  delta to the journal. \<open>expected_epoch\<close> is the epoch a caller was given. \<open>Instant\<close>s and the bodies
  of \<open>#[cfg(test)]\<close> functions are left out.
\<close>

section \<open>Owners\<close>

definition require_epoch :: "string \<Rightarrow> session_registry \<Rightarrow> (runtime_error, unit) result" where
  "require_epoch expected_epoch rg = (if expected_epoch = rg_epoch rg then Ok () else Err EpochMismatch)"

definition in_cleanup :: "session_state \<Rightarrow> bool" where
  "in_cleanup s \<longleftrightarrow> (case ss_operation s of Some op \<Rightarrow> so_stage op = ''cleanup'' | None \<Rightarrow> False)"

definition require_live_owner :: "string \<Rightarrow> u64 \<Rightarrow> session_registry \<Rightarrow> (runtime_error, session_state) result" where
  "require_live_owner sid inc rg =
     res_bind (ok_or UnknownSession (state_of sid rg)) (\<lambda>s.
       if ss_incarnation s \<noteq> inc then Err StaleIncarnation
       else if ss_live s = None \<or> in_cleanup s then Err UnknownSession
       else Ok s)"

definition require_live :: "string \<Rightarrow> u64 \<Rightarrow> session_registry \<Rightarrow> (runtime_error, session_live_state) result" where
  "require_live sid inc rg =
     res_bind (require_live_owner sid inc rg) (\<lambda>s. case ss_live s of Some l \<Rightarrow> Ok l | None \<Rightarrow> Panic)"

text \<open>Changing an owner, or its live part, in place.\<close>

definition with_owner :: "string \<Rightarrow> u64 \<Rightarrow> (session_state \<Rightarrow> (runtime_error, 'a) result \<times> session_state)
    \<Rightarrow> session_registry \<Rightarrow> (runtime_error, 'a) result \<times> session_registry" where
  "with_owner sid inc f rg =
     try_in rg (require_live_owner sid inc rg) (\<lambda>s. case f s of (r, s') \<Rightarrow> (r, put_state sid s' rg))"

definition on_live :: "(session_live_state \<Rightarrow> ('e, 'a) result \<times> session_live_state) \<Rightarrow> session_state
    \<Rightarrow> ('e, 'a) result \<times> session_state" where
  "on_live f s =
     expect_in s (ss_live s) (\<lambda>l. case f l of (r, l') \<Rightarrow> (r, s\<lparr>ss_live := Some l'\<rparr>))"

section \<open>What is published\<close>

definition active_turn_of :: "session_state \<Rightarrow> active_turn option" where
  "active_turn_of s =
     Option.bind (ss_active_turn s) (\<lambda>turn. map_option (\<lambda>x.
       \<lparr>at_operation_id = tx_rpc_operation_id x, at_turn_id = tx_rpc_operation_id x,
        at_prompt = ov_prompt turn, at_updates = ov_updates turn,
        at_cancel_requested = tx_cancel_requested x\<rparr>) (ov_execution turn))"

definition session_view :: "session_state \<Rightarrow> session_runtime option" where
  "session_view s =
     Option.bind (ss_live s) (\<lambda>live.
       if lv_lifecycle live = Closed \<and> in_cleanup s then None
       else Some \<lparr>sr_session_id = ss_session_id s, sr_incarnation = ss_incarnation s,
         sr_revision = lv_revision live, sr_cwd = lv_cwd live, sr_session = lv_session live,
         sr_control_state = lv_control_state live, sr_lifecycle = lv_lifecycle live,
         sr_active_turn = active_turn_of s, sr_operation = ss_operation s,
         sr_permissions = lv_permissions live, sr_elicitations = lv_elicitations live,
         sr_url_flows = lv_url_flows live, sr_terminals = lv_terminals live,
         sr_history_revision = lv_history_revision live, sr_phase = lv_phase live,
         sr_sync_error = lv_sync_error live\<rparr>)"

definition session_runtime_of :: "string \<Rightarrow> session_registry \<Rightarrow> session_runtime option" where
  "session_runtime_of sid rg = Option.bind (state_of sid rg) session_view"

definition registry_snapshot :: "session_registry \<Rightarrow> runtime_snapshot" where
  "registry_snapshot rg =
     \<lparr>sn_epoch = rg_epoch rg, sn_through_seq = jn_seq (rg_journal rg),
      sn_connection_revision = rg_connection_revision rg,
      sn_sessions = List.map_filter (\<lambda>e. map_option (Pair (fst e)) (session_runtime_of (fst e) rg)) (rg_sessions rg),
      sn_request_elicitations = rg_request_elicitations rg,
      sn_request_url_flows = rg_request_url_flows rg\<rparr>"

definition registry_deltas_after :: "u64 \<Rightarrow> session_registry \<Rightarrow> runtime_delta list option" where
  "registry_deltas_after n rg = journal_deltas_after n (rg_journal rg)"

definition release_published_runtime :: "u64 \<Rightarrow> session_registry \<Rightarrow> session_registry" where
  "release_published_runtime n rg = rg\<lparr>rg_journal := release_through n (rg_journal rg)\<rparr>"

definition take_effects :: "session_registry \<Rightarrow> runtime_effect list \<times> session_registry" where
  "take_effects rg = (rg_effects rg, rg\<lparr>rg_effects := []\<rparr>)"

section \<open>Commits\<close>

definition commit_delta :: "env \<Rightarrow> u64 option \<Rightarrow> runtime_change \<Rightarrow> session_registry \<Rightarrow> session_registry" where
  "commit_delta E scope_revision change rg =
     rg\<lparr>rg_journal := journal_commit E (rg_epoch rg) scope_revision change (rg_journal rg)\<rparr>"

text \<open>The live header takes over the history header; its revision goes up.\<close>

definition refresh_header :: "session_state \<Rightarrow> session_live_state \<Rightarrow> session_live_state" where
  "refresh_header s live =
     live\<lparr>lv_revision := next_revision (lv_revision live), lv_history_revision := ss_history_revision s,
          lv_phase := ss_phase s, lv_sync_error := ss_sync_error s\<rparr>"

text \<open>A session that is not published any more cannot be committed: \<open>expect\<close> panics.\<close>

definition commit_session :: "env \<Rightarrow> string \<Rightarrow> session_registry \<Rightarrow> ('e, unit) result \<times> session_registry" where
  "commit_session E sid rg =
     (case state_of sid rg of
        None \<Rightarrow> (Ok (), rg)
      | Some s \<Rightarrow>
          (case ss_live s of
             None \<Rightarrow> (Ok (), rg)
           | Some live \<Rightarrow>
               let live' = refresh_header s live;
                   rg1 = put_state sid (s\<lparr>ss_live := Some live'\<rparr>) rg
               in expect_in rg1 (session_runtime_of sid rg1) (\<lambda>session.
                    (Ok (), commit_delta E (Some (lv_revision live')) (SessionUpsert session) rg1))))"

text \<open>The usual end of an operation: commit the session and return.\<close>

definition publish :: "env \<Rightarrow> string \<Rightarrow> 'a \<Rightarrow> session_registry \<Rightarrow> ('e, 'a) result \<times> session_registry" where
  "publish E sid a rg = call_then (commit_session E sid rg) (\<lambda>_ rg'. (Ok a, rg'))"

definition commit_connection :: "env \<Rightarrow> session_registry \<Rightarrow> session_registry" where
  "commit_connection E rg =
     (let revision = next_revision (rg_connection_revision rg);
          rg1 = rg\<lparr>rg_connection_revision := revision\<rparr>
      in commit_delta E (Some revision)
           (ConnectionUpsert (rg_request_elicitations rg1) (rg_request_url_flows rg1)) rg1)"

definition commit_control_update :: "env \<Rightarrow> string \<Rightarrow> u64 \<Rightarrow> string \<Rightarrow> json \<Rightarrow> session_registry \<Rightarrow> session_registry" where
  "commit_control_update E sid inc key update rg =
     (case state_of sid rg of
        None \<Rightarrow> rg
      | Some s \<Rightarrow>
          (case ss_live s of
             None \<Rightarrow> rg
           | Some live \<Rightarrow>
               let live' = refresh_header s live
               in commit_delta E (Some (lv_revision live'))
                    (SessionControlUpdated sid inc (lv_revision live') key update (lv_history_revision live')
                      (lv_phase live') (lv_sync_error live'))
                    (put_state sid (s\<lparr>ss_live := Some live'\<rparr>) rg)))"

definition commit_turn_update :: "env \<Rightarrow> string \<Rightarrow> u64 \<Rightarrow> string \<Rightarrow> json \<Rightarrow> session_registry \<Rightarrow> session_registry" where
  "commit_turn_update E sid inc operation_id update rg =
     (case state_of sid rg of
        None \<Rightarrow> rg
      | Some s \<Rightarrow>
          (case ss_live s of
             None \<Rightarrow> rg
           | Some live \<Rightarrow>
               let revision = next_revision (lv_revision live)
               in commit_delta E (Some revision) (TurnUpdateAppended sid inc revision operation_id update)
                    (put_state sid (s\<lparr>ss_live := Some (live\<lparr>lv_revision := revision\<rparr>)\<rparr>) rg)))"

definition commit_removal :: "env \<Rightarrow> string \<Rightarrow> u64 \<Rightarrow> session_registry \<Rightarrow> session_registry" where
  "commit_removal E sid inc rg = commit_delta E None (SessionRemoved sid inc) rg"

definition add_effects :: "runtime_effect list \<Rightarrow> session_registry \<Rightarrow> session_registry" where
  "add_effects effects rg = rg\<lparr>rg_effects := rg_effects rg @ effects\<rparr>"

text \<open>An operation that changes one owner and then commits its session.\<close>

definition owner_op :: "env \<Rightarrow> string \<Rightarrow> string \<Rightarrow> u64 \<Rightarrow> (session_state \<Rightarrow> (runtime_error, 'a) result \<times> session_state)
    \<Rightarrow> session_registry \<Rightarrow> (runtime_error, 'a) result \<times> session_registry" where
  "owner_op E expected_epoch sid inc f rg =
     try_in rg (require_epoch expected_epoch rg) (\<lambda>_.
       call_then (with_owner sid inc f rg) (\<lambda>a rg1. publish E sid a rg1))"

section \<open>Opening a session\<close>

definition install_live :: "env \<Rightarrow> string \<Rightarrow> u64 \<Rightarrow> session_live_state \<Rightarrow> session_registry \<Rightarrow> session_registry" where
  "install_live E sid inc live rg =
     (let rg1 = (case state_of sid rg of
                   Some s \<Rightarrow>
                     if ss_incarnation s \<noteq> inc
                     then retire_entry sid (ss_incarnation s) ''session incarnation was replaced''
                            (clear_history_for_replacement E sid (ss_incarnation s) rg)
                     else rg
                 | None \<Rightarrow> rg)
      in case state_of sid rg1 of
           Some s \<Rightarrow> put_state sid (s\<lparr>ss_live := Some live\<rparr>) rg1
         | None \<Rightarrow> put_entry sid (entry_new ((session_cold sid inc)\<lparr>ss_live := Some live\<rparr>)) rg1)"

definition new_live :: "string \<Rightarrow> json \<Rightarrow> (string, json) btree_map \<Rightarrow> session_lifecycle \<Rightarrow> session_live_state" where
  "new_live cwd session control_state lifecycle =
     \<lparr>lv_revision = 0, lv_cwd = cwd, lv_session = session, lv_control_state = control_state,
      lv_lifecycle = lifecycle, lv_permissions = [], lv_elicitations = [], lv_url_flows = [],
      lv_terminals = [], lv_history_revision = None, lv_phase = Ready, lv_sync_error = None,
      lv_resolved_permissions = [], lv_resolved_elicitations = [], lv_resolved_url_flows = [],
      lv_released_terminals = [], lv_attachment_candidate = [], lv_attachment_candidate_bytes = 0\<rparr>"

text \<open>A session that is attached, or has an operation, cannot be opened again.\<close>

definition session_taken :: "string \<Rightarrow> session_registry \<Rightarrow> bool" where
  "session_taken sid rg \<longleftrightarrow>
     (case state_of sid rg of
        Some s \<Rightarrow> ss_operation s \<noteq> None \<or>
          (case ss_live s of Some live \<Rightarrow> lv_lifecycle live \<noteq> Closed | None \<Rightarrow> False)
      | None \<Rightarrow> False)"

definition open_session :: "env \<Rightarrow> string \<Rightarrow> string \<Rightarrow> string \<Rightarrow> json \<Rightarrow> (string, json) btree_map \<Rightarrow> session_registry
    \<Rightarrow> (runtime_error, u64) result \<times> session_registry" where
  "open_session E expected_epoch sid cwd session control_state rg =
     try_in rg (require_epoch expected_epoch rg) (\<lambda>_.
       if session_taken sid rg then (Err BusySession, rg)
       else let incarnation = next_revision (rg_next_incarnation rg);
                rg1 = install_live E sid incarnation
                  (new_live cwd (retain_session_metadata sid session) control_state Active)
                  (rg\<lparr>rg_next_incarnation := incarnation\<rparr>)
            in publish E sid incarnation rg1)"

definition open_new_with_replay :: "env \<Rightarrow> string \<Rightarrow> string \<Rightarrow> string \<Rightarrow> json \<Rightarrow> json list \<Rightarrow> session_registry
    \<Rightarrow> (runtime_error, u64) result \<times> session_registry" where
  "open_new_with_replay E expected_epoch sid cwd session replay rg =
     expect_in rg (extract_control_state replay) (\<lambda>control_state.
       open_session E expected_epoch sid cwd session control_state rg)"

definition open_forked :: "env \<Rightarrow> string \<Rightarrow> string \<Rightarrow> string \<Rightarrow> json \<Rightarrow> string \<times> u64 \<Rightarrow> json list option
    \<Rightarrow> session_registry \<Rightarrow> (runtime_error, u64) result \<times> session_registry" where
  "open_forked E expected_epoch sid cwd session source target_replay rg =
     try_in rg (require_epoch expected_epoch rg) (\<lambda>_.
     try_in rg (require_live (fst source) (snd source) rg) (\<lambda>live.
       if lv_lifecycle live \<noteq> Active then (Err SessionNotActive, rg)
       else expect_in rg (case target_replay of None \<Rightarrow> Some [] | Some r \<Rightarrow> extract_control_state r)
         (\<lambda>control_state. open_session E expected_epoch sid cwd session control_state rg)))"

section \<open>Attachments and reloads\<close>

definition start_attachment :: "env \<Rightarrow> string \<Rightarrow> string \<Rightarrow> string \<Rightarrow> string \<Rightarrow> operation_kind \<Rightarrow> session_registry
    \<Rightarrow> (runtime_error, u64) result \<times> session_registry" where
  "start_attachment E expected_epoch sid cwd operation_id kind rg =
     try_in rg (require_epoch expected_epoch rg) (\<lambda>_.
       if kind \<notin> {Load, Resume} then (Err OperationMismatch, rg)
       else if operation_in_use operation_id rg then (Err OperationCollision, rg)
       else if session_taken sid rg then (Err BusySession, rg)
       else let incarnation = next_revision (rg_next_incarnation rg);
                rg1 = install_live E sid incarnation (new_live cwd JNull [] Attaching)
                  (rg\<lparr>rg_next_incarnation := incarnation\<rparr>)
            in expect_in rg1 (state_of sid rg1) (\<lambda>s.
                 publish E sid incarnation
                   (put_state sid (s\<lparr>ss_operation := Some \<lparr>so_operation_id = operation_id, so_kind = kind,
                      so_stage = ''attaching'', so_uncertainty_reason = None\<rparr>\<rparr>) rg1)))"

definition reload_start :: "string \<Rightarrow> operation_kind \<Rightarrow> session_state \<Rightarrow> (runtime_error, unit) result \<times> session_state" where
  "reload_start operation_id kind s =
     try_in s (if ss_operation s = None then map_err (\<lambda>_. BusySession) (can_begin s AdmitAttachment) else Ok ()) (\<lambda>_.
     expect_in s (ss_live s) (\<lambda>live.
       if lv_lifecycle live \<noteq> Active then (Err SessionNotActive, s)
       else if turn_execution_of s \<noteq> None \<or>
          (case ss_operation s of Some op \<Rightarrow> \<not> reserved_by operation_id kind op | None \<Rightarrow> False) \<or>
          lv_permissions live \<noteq> [] \<or> lv_elicitations live \<noteq> [] \<or> lv_url_flows live \<noteq> [] \<or>
          lv_terminals live \<noteq> [] \<or> lv_attachment_candidate live \<noteq> []
       then (Err BusySession, s)
       else (Ok (), s\<lparr>ss_operation := Some \<lparr>so_operation_id = operation_id, so_kind = kind,
                 so_stage = ''reloading'', so_uncertainty_reason = None\<rparr>,
               ss_live := Some (live\<lparr>lv_attachment_candidate_bytes := 0\<rparr>)\<rparr>)))"

definition start_reload :: "env \<Rightarrow> string \<Rightarrow> string \<Rightarrow> u64 \<Rightarrow> string \<Rightarrow> operation_kind \<Rightarrow> session_registry
    \<Rightarrow> (runtime_error, unit) result \<times> session_registry" where
  "start_reload E expected_epoch sid inc operation_id kind rg =
     try_in rg (require_epoch expected_epoch rg) (\<lambda>_.
       if kind \<noteq> Load then (Err OperationMismatch, rg)
       else if operation_in_use_except_reserved operation_id (Some (sid, inc, kind)) rg
       then (Err OperationCollision, rg)
       else owner_op E expected_epoch sid inc (reload_start operation_id kind) rg)"

definition has_operation :: "(operation_state \<Rightarrow> bool) \<Rightarrow> session_state \<Rightarrow> bool" where
  "has_operation P s \<longleftrightarrow> (case ss_operation s of Some op \<Rightarrow> P op | None \<Rightarrow> False)"

definition collects_controls :: "session_state \<Rightarrow> session_live_state \<Rightarrow> bool" where
  "collects_controls s live \<longleftrightarrow>
     lv_lifecycle live = Attaching \<and>
       has_operation (\<lambda>op. so_stage op = ''attaching'' \<and> so_kind op \<in> {Load, Resume}) s \<or>
     lv_lifecycle live = Active \<and>
       has_operation (\<lambda>op. so_stage op = ''reloading'' \<and> so_kind op = Load) s"

text \<open>A control update seen while attaching is kept aside; nothing is committed for it.\<close>

definition append_attachment_candidate :: "env \<Rightarrow> string \<Rightarrow> string \<Rightarrow> u64 \<Rightarrow> json \<Rightarrow> session_registry
    \<Rightarrow> (runtime_error, unit) result \<times> session_registry" where
  "append_attachment_candidate E expected_epoch sid inc update rg =
     try_in rg (require_epoch expected_epoch rg) (\<lambda>_.
       with_owner sid inc (\<lambda>s. expect_in s (ss_live s) (\<lambda>live.
         if \<not> collects_controls s live then (Err OperationMismatch, s)
         else case retain_control_update update of
           None \<Rightarrow> (Ok (), s)
         | Some u \<Rightarrow> (Ok (), s\<lparr>ss_live := Some (live\<lparr>
             lv_attachment_candidate := lv_attachment_candidate live @ [u],
             lv_attachment_candidate_bytes := sat_add (lv_attachment_candidate_bytes live) (serialized_len E u)\<rparr>)\<rparr>))) rg)"

definition is_reload :: "string \<Rightarrow> session_state \<Rightarrow> session_live_state \<Rightarrow> bool" where
  "is_reload operation_id s live \<longleftrightarrow>
     lv_lifecycle live = Active \<and>
     has_operation (\<lambda>op. so_operation_id op = operation_id \<and> so_kind op = Load \<and> so_stage op = ''reloading'') s"

definition complete_reload :: "env \<Rightarrow> string \<Rightarrow> string \<Rightarrow> u64 \<Rightarrow> string \<Rightarrow> json \<Rightarrow> session_registry
    \<Rightarrow> (runtime_error, unit) result \<times> session_registry" where
  "complete_reload E expected_epoch sid inc operation_id response rg =
     owner_op E expected_epoch sid inc (\<lambda>s. expect_in s (ss_live s) (\<lambda>live.
       if \<not> is_reload operation_id s live then (Err OperationMismatch, s)
       else expect_in s (extract_control_state (lv_attachment_candidate live)) (\<lambda>controls.
         (Ok (), s\<lparr>ss_operation := None,
            ss_live := Some (live\<lparr>lv_attachment_candidate := [], lv_attachment_candidate_bytes := 0,
              lv_control_state := controls, lv_session := retain_session_metadata sid response\<rparr>)\<rparr>)))) rg"

definition fail_reload :: "env \<Rightarrow> string \<Rightarrow> string \<Rightarrow> u64 \<Rightarrow> string \<Rightarrow> session_registry
    \<Rightarrow> (runtime_error, unit) result \<times> session_registry" where
  "fail_reload E expected_epoch sid inc operation_id rg =
     owner_op E expected_epoch sid inc (\<lambda>s. expect_in s (ss_live s) (\<lambda>live.
       if \<not> is_reload operation_id s live then (Err OperationMismatch, s)
       else (Ok (), s\<lparr>ss_operation := None,
          ss_live := Some (live\<lparr>lv_attachment_candidate := [], lv_attachment_candidate_bytes := 0\<rparr>)\<rparr>))) rg"

definition is_attachment :: "string \<Rightarrow> operation_kind \<Rightarrow> session_state \<Rightarrow> session_live_state \<Rightarrow> bool" where
  "is_attachment operation_id kind s live \<longleftrightarrow>
     lv_lifecycle live = Attaching \<and>
     has_operation (\<lambda>op. so_operation_id op = operation_id \<and> so_kind op = kind) s"

definition complete_attachment :: "env \<Rightarrow> string \<Rightarrow> string \<Rightarrow> u64 \<Rightarrow> string \<Rightarrow> operation_kind \<Rightarrow> json \<Rightarrow> session_registry
    \<Rightarrow> (runtime_error, unit) result \<times> session_registry" where
  "complete_attachment E expected_epoch sid inc operation_id kind response rg =
     owner_op E expected_epoch sid inc (\<lambda>s. expect_in s (ss_live s) (\<lambda>live.
       if \<not> is_attachment operation_id kind s live \<or> kind \<notin> {Load, Resume} then (Err OperationMismatch, s)
       else expect_in s (extract_control_state (lv_attachment_candidate live)) (\<lambda>controls.
         (Ok (), s\<lparr>ss_operation := None,
            ss_live := Some (live\<lparr>lv_attachment_candidate := [], lv_attachment_candidate_bytes := 0,
              lv_control_state := fold (\<lambda>e. bt_insert (fst e) (snd e)) controls (lv_control_state live),
              lv_session := retain_session_metadata sid response, lv_lifecycle := Active\<rparr>)\<rparr>)))) rg"

definition take_live_for_retirement :: "string \<Rightarrow> u64 \<Rightarrow> session_registry
    \<Rightarrow> session_live_state option \<times> session_registry" where
  "take_live_for_retirement sid inc rg =
     (case state_of sid rg of
        None \<Rightarrow> (None, rg)
      | Some s \<Rightarrow>
          if ss_incarnation s \<noteq> inc then (None, rg)
          else (ss_live s, put_state sid (s\<lparr>ss_live := None\<rparr>) rg))"

text \<open>Taking the live state off an owner: its work ends, and the session is gone from the view.\<close>

definition retire_live :: "env \<Rightarrow> string \<Rightarrow> u64 \<Rightarrow> session_registry
    \<Rightarrow> (runtime_error, unit) result \<times> session_registry" where
  "retire_live E sid inc rg =
     (case take_live_for_retirement sid inc rg of
        (live, rg1) \<Rightarrow>
          try_in rg1 (ok_or UnknownSession live) (\<lambda>l.
            (Ok (), commit_removal E sid inc (add_effects (fst (drain_session_liveness sid inc l)) rg1))))"

definition fail_attachment :: "env \<Rightarrow> string \<Rightarrow> string \<Rightarrow> u64 \<Rightarrow> string \<Rightarrow> operation_kind \<Rightarrow> session_registry
    \<Rightarrow> (runtime_error, unit) result \<times> session_registry" where
  "fail_attachment E expected_epoch sid inc operation_id kind rg =
     try_in rg (require_epoch expected_epoch rg) (\<lambda>_.
       call_then (with_owner sid inc (\<lambda>s. expect_in s (ss_live s) (\<lambda>live.
         if \<not> is_attachment operation_id kind s live then (Err OperationMismatch, s)
         else (Ok (), s\<lparr>ss_operation := None\<rparr>))) rg)
       (\<lambda>_ rg1. retire_live E sid inc rg1))"

section \<open>Turns\<close>

definition admit_session_turn :: "env \<Rightarrow> string \<Rightarrow> string \<Rightarrow> u64 \<Rightarrow> string \<Rightarrow> string \<Rightarrow> json list \<Rightarrow> session_registry
    \<Rightarrow> (turn_error, turn_admission) result \<times> session_registry" where
  "admit_session_turn E expected_epoch sid inc expected_revision intent prompt rg =
     try_in rg (map_err TurnLive (require_epoch expected_epoch rg)) (\<lambda>_.
     try_in rg (map_err TurnLive (require_live_owner sid inc rg)) (\<lambda>owner.
     try_in rg (map_err TurnHistory (check_turn_admission E expected_revision intent prompt owner)) (\<lambda>dup.
       case dup of
         Some d \<Rightarrow> (Ok d, rg)
       | None \<Rightarrow> expect_in rg (ss_live owner) (\<lambda>live.
           if lv_lifecycle live \<noteq> Active then (Err (TurnLive SessionNotActive), rg)
           else if turn_execution_of owner \<noteq> None \<or> ss_operation owner \<noteq> None
           then (Err (TurnLive BusySession), rg)
           else if operation_in_use intent rg then (Err (TurnLive OperationCollision), rg)
           else (case start_turn E sid inc expected_revision intent prompt rg of
                   (r, rg1) \<Rightarrow> call_then (map_err TurnHistory r, rg1) (\<lambda>adm rg2. publish E sid adm rg2))))))"

text \<open>The update has already been folded into the overlay the caller hands over.\<close>

definition project_turn_update :: "env \<Rightarrow> string \<Rightarrow> string \<Rightarrow> u64 \<Rightarrow> turn_overlay \<Rightarrow> json \<Rightarrow> session_registry
    \<Rightarrow> (runtime_error, unit) result \<times> session_registry" where
  "project_turn_update E expected_epoch sid inc overlay update rg =
     try_in rg (require_epoch expected_epoch rg) (\<lambda>_.
     try_in rg (require_live_owner sid inc rg) (\<lambda>owner.
     try_in rg (ok_or NoActiveTurn (ss_active_turn owner)) (\<lambda>turn.
     try_in rg (ok_or NoActiveTurn (ov_execution turn)) (\<lambda>execution.
       if ov_operation_id turn \<noteq> ov_operation_id overlay \<or>
          tx_rpc_operation_id execution \<noteq> ov_client_intent_id overlay
       then (Err OperationMismatch, rg)
       else (Ok (), commit_turn_update E sid inc (tx_rpc_operation_id execution) update rg)))))"

definition request_cancel :: "env \<Rightarrow> string \<Rightarrow> string \<Rightarrow> u64 \<Rightarrow> session_registry
    \<Rightarrow> (runtime_error, unit) result \<times> session_registry" where
  "request_cancel E expected_epoch sid inc rg =
     try_in rg (require_epoch expected_epoch rg) (\<lambda>_.
     try_in rg (require_live_owner sid inc rg) (\<lambda>owner.
     try_in rg (ok_or NoActiveTurn (ss_active_turn owner)) (\<lambda>turn.
     try_in rg (ok_or NoActiveTurn (ov_execution turn)) (\<lambda>execution.
       if tx_cancel_requested execution then (Ok (), rg)
       else publish E sid () (put_state sid (owner\<lparr>ss_active_turn :=
         Some (turn\<lparr>ov_execution := Some (execution\<lparr>tx_cancel_requested := True\<rparr>)\<rparr>)\<rparr>) rg)))))"

definition drop_turn_delivery_payload :: "string \<Rightarrow> u64 \<Rightarrow> string \<Rightarrow> session_registry \<Rightarrow> session_registry" where
  "drop_turn_delivery_payload sid inc operation_id rg =
     rg\<lparr>rg_journal := retire_turn_payload sid inc operation_id (rg_journal rg)\<rparr>"

definition seal_turn :: "env \<Rightarrow> string \<Rightarrow> string \<Rightarrow> u64 \<Rightarrow> string \<Rightarrow> session_lifecycle option \<Rightarrow> session_registry
    \<Rightarrow> (runtime_error, unit) result \<times> session_registry" where
  "seal_turn E expected_epoch sid inc operation_id lifecycle rg =
     try_in rg (require_epoch expected_epoch rg) (\<lambda>_.
       call_then (with_owner sid inc (live_seal_turn operation_id lifecycle) rg) (\<lambda>retired rg1.
         publish E sid ()
           (drop_turn_delivery_payload sid inc operation_id
             (add_effects (map (CancelPermissionResponder sid inc) (tr_permissions retired) @
                map (CancelElicitationResponder (Some sid) (Some inc)) (tr_elicitations retired)) rg1))))"

definition complete_prompt :: "env \<Rightarrow> string \<Rightarrow> string \<Rightarrow> u64 \<Rightarrow> string \<Rightarrow> session_registry
    \<Rightarrow> (runtime_error, unit) result \<times> session_registry" where
  "complete_prompt E expected_epoch sid inc operation_id rg = seal_turn E expected_epoch sid inc operation_id None rg"

definition fail_prompt :: "env \<Rightarrow> string \<Rightarrow> string \<Rightarrow> u64 \<Rightarrow> string \<Rightarrow> session_registry
    \<Rightarrow> (runtime_error, unit) result \<times> session_registry" where
  "fail_prompt E expected_epoch sid inc operation_id rg = seal_turn E expected_epoch sid inc operation_id None rg"

definition mark_prompt_uncertain :: "env \<Rightarrow> string \<Rightarrow> string \<Rightarrow> u64 \<Rightarrow> string \<Rightarrow> session_registry
    \<Rightarrow> (runtime_error, unit) result \<times> session_registry" where
  "mark_prompt_uncertain E expected_epoch sid inc operation_id rg =
     seal_turn E expected_epoch sid inc operation_id (Some Uncertain) rg"

section \<open>Controls\<close>

definition update_control_state :: "env \<Rightarrow> string \<Rightarrow> string \<Rightarrow> u64 \<Rightarrow> string \<Rightarrow> json \<Rightarrow> session_registry
    \<Rightarrow> (runtime_error, unit) result \<times> session_registry" where
  "update_control_state E expected_epoch sid inc key update rg =
     try_in rg (require_epoch expected_epoch rg) (\<lambda>_.
     try_in rg (require_live_owner sid inc rg) (\<lambda>owner.
     expect_in rg (ss_live owner) (\<lambda>live.
       if lv_lifecycle live \<notin> {Active, Closing, ClosingForDelete} then (Err SessionNotActive, rg)
       else let previous = bt_get (lv_control_state live) key;
                merged = fold_control_update previous update
            in if (case previous of Some p \<Rightarrow> json_eq p merged | None \<Rightarrow> False) then (Ok (), rg)
               else (Ok (), commit_control_update E sid inc key merged
                 (put_state sid (owner\<lparr>ss_live :=
                    Some (live\<lparr>lv_control_state := bt_insert key merged (lv_control_state live)\<rparr>)\<rparr>) rg)))))"

definition synchronize_loaded_session :: "env \<Rightarrow> string \<Rightarrow> string \<Rightarrow> u64 \<Rightarrow> json \<Rightarrow> json list \<Rightarrow> session_registry
    \<Rightarrow> (runtime_error, unit) result \<times> session_registry" where
  "synchronize_loaded_session E expected_epoch sid inc response replay rg =
     try_in rg (require_epoch expected_epoch rg) (\<lambda>_.
     expect_in rg (extract_control_state replay) (\<lambda>controls.
       owner_op E expected_epoch sid inc (\<lambda>s. expect_in s (ss_live s) (\<lambda>live.
         if lv_lifecycle live \<noteq> Active \<or> turn_execution_of s \<noteq> None then (Err BusySession, s)
         else (Ok (), s\<lparr>ss_live := Some (live\<lparr>lv_session := retain_session_metadata sid response,
                lv_control_state := controls\<rparr>)\<rparr>))) rg))"

end
