(* ===== verification/Runtime_Interactions.thy ===== *)
theory Runtime_Interactions
  imports Runtime_State
begin

text \<open>
  What a session and the connection are asked while they run (\<open>src/src/runtime_state.rs\<close>): permission
  requests, elicitations and the URL flows they start, and the snapshots of terminals. An elicitation
  belongs to a session (\<open>Some (id, incarnation)\<close>) or to the connection (\<open>None\<close>).
\<close>

section \<open>Permissions\<close>

text \<open>A reducer on the live state whose outcome says whether there is something to commit.\<close>

definition live_op :: "env \<Rightarrow> string \<Rightarrow> u64 \<Rightarrow> 'a \<Rightarrow> (session_state \<Rightarrow> (runtime_error, 'a) result \<times> session_state)
    \<Rightarrow> session_registry \<Rightarrow> (runtime_error, 'a) result \<times> session_registry" where
  "live_op E sid inc applied f rg =
     call_then (with_owner sid inc f rg) (\<lambda>outcome rg1.
       if outcome = applied then publish E sid outcome rg1 else (Ok outcome, rg1))"

definition turn_rpc_operation :: "session_state \<Rightarrow> string option" where
  "turn_rpc_operation s = map_option tx_rpc_operation_id (turn_execution_of s)"

definition upsert_permission :: "env \<Rightarrow> string \<Rightarrow> string \<Rightarrow> u64 \<Rightarrow> string \<Rightarrow> json \<Rightarrow> session_registry
    \<Rightarrow> (runtime_error, interaction_upsert) result \<times> session_registry" where
  "upsert_permission E expected_epoch sid inc interaction_id request rg =
     try_in rg (require_epoch expected_epoch rg) (\<lambda>_.
       live_op E sid inc UpsertInserted
         (\<lambda>s. on_live (live_upsert_permission interaction_id request (turn_rpc_operation s)) s) rg)"

definition resolve_permission :: "env \<Rightarrow> string \<Rightarrow> string \<Rightarrow> u64 \<Rightarrow> string \<Rightarrow> session_registry
    \<Rightarrow> (runtime_error, interaction_resolution) result \<times> session_registry" where
  "resolve_permission E expected_epoch sid inc interaction_id rg =
     try_in rg (require_epoch expected_epoch rg) (\<lambda>_.
       live_op E sid inc ResolutionApplied (on_live (live_resolve_permission interaction_id)) rg)"

definition begin_permission_response :: "env \<Rightarrow> string \<Rightarrow> string \<Rightarrow> u64 \<Rightarrow> string \<Rightarrow> string \<Rightarrow> session_registry
    \<Rightarrow> (runtime_error, interaction_response_start) result \<times> session_registry" where
  "begin_permission_response E expected_epoch sid inc interaction_id operation_id rg =
     try_in rg (require_epoch expected_epoch rg) (\<lambda>_.
       live_op E sid inc ResponseApplied
         (on_live (live_begin_permission_response interaction_id operation_id (operation_in_use operation_id rg))) rg)"

definition complete_permission_response :: "env \<Rightarrow> string \<Rightarrow> string \<Rightarrow> u64 \<Rightarrow> string \<Rightarrow> string \<Rightarrow> session_registry
    \<Rightarrow> (runtime_error, interaction_resolution) result \<times> session_registry" where
  "complete_permission_response E expected_epoch sid inc interaction_id operation_id rg =
     try_in rg (require_epoch expected_epoch rg) (\<lambda>_.
       live_op E sid inc ResolutionApplied
         (on_live (live_complete_permission_response interaction_id operation_id)) rg)"

section \<open>Elicitations\<close>

type_synonym scope = "(string \<times> u64) option"

definition url_flow_in_use :: "string \<Rightarrow> session_registry \<Rightarrow> bool" where
  "url_flow_in_use elicitation_id rg \<longleftrightarrow>
     bt_get (rg_request_url_flows rg) elicitation_id \<noteq> None \<or>
     list_ex (\<lambda>e. case ss_live (en_state (snd e)) of
       Some live \<Rightarrow> bt_get (lv_url_flows live) elicitation_id \<noteq> None | None \<Rightarrow> False) (rg_sessions rg)"

definition new_interaction :: "string \<Rightarrow> json \<Rightarrow> string option \<Rightarrow> pending_interaction" where
  "new_interaction interaction_id request operation =
     \<lparr>pi_interaction_id = interaction_id, pi_request = request, pi_operation_id = operation,
      pi_responding_operation_id = None\<rparr>"

definition live_upsert_elicitation :: "string \<Rightarrow> json \<Rightarrow> string option \<Rightarrow> session_live_state
    \<Rightarrow> (runtime_error, interaction_upsert) result \<times> session_live_state" where
  "live_upsert_elicitation interaction_id request active_operation l =
     (if interaction_id \<in> set (lv_resolved_elicitations l) then (Ok UpsertAlreadyResolved, l)
      else case bt_get (lv_elicitations l) interaction_id of
        Some existing \<Rightarrow>
          (if json_eq (pi_request existing) request \<and> pi_operation_id existing = active_operation
           then Ok UpsertDuplicate else Err InteractionCollision, l)
      | None \<Rightarrow>
          (Ok UpsertInserted, l\<lparr>lv_elicitations := bt_insert interaction_id
             (new_interaction interaction_id request active_operation) (lv_elicitations l)\<rparr>))"

definition request_upsert_elicitation :: "env \<Rightarrow> string \<Rightarrow> json \<Rightarrow> session_registry
    \<Rightarrow> (runtime_error, interaction_upsert) result \<times> session_registry" where
  "request_upsert_elicitation E interaction_id request rg =
     (if interaction_id \<in> set (rg_resolved_request_elicitations rg) then (Ok UpsertAlreadyResolved, rg)
      else case bt_get (rg_request_elicitations rg) interaction_id of
        Some existing \<Rightarrow>
          (if json_eq (pi_request existing) request then Ok UpsertDuplicate else Err InteractionCollision, rg)
      | None \<Rightarrow>
          (Ok UpsertInserted, commit_connection E (rg\<lparr>rg_request_elicitations := bt_insert interaction_id
             (new_interaction interaction_id request None) (rg_request_elicitations rg)\<rparr>)))"

definition upsert_elicitation :: "env \<Rightarrow> string \<Rightarrow> scope \<Rightarrow> string \<Rightarrow> json \<Rightarrow> session_registry
    \<Rightarrow> (runtime_error, interaction_upsert) result \<times> session_registry" where
  "upsert_elicitation E expected_epoch scope interaction_id request rg =
     try_in rg (require_epoch expected_epoch rg) (\<lambda>_.
       case scope of
         Some (sid, inc) \<Rightarrow> live_op E sid inc UpsertInserted
           (\<lambda>s. on_live (live_upsert_elicitation interaction_id request (turn_rpc_operation s)) s) rg
       | None \<Rightarrow> request_upsert_elicitation E interaction_id request rg)"

text \<open>The flow an accepted URL elicitation starts; it is forgotten as resolved.\<close>

definition new_url_flow :: "string \<Rightarrow> string \<Rightarrow> json \<Rightarrow> url_flow" where
  "new_url_flow elicitation_id registration_id request =
     \<lparr>uf_elicitation_id = elicitation_id, uf_registration_id = registration_id, uf_request = request,
      uf_status = Waiting\<rparr>"

definition live_accept_elicitation :: "string \<Rightarrow> string option \<Rightarrow> session_live_state
    \<Rightarrow> (runtime_error, unit) result \<times> session_live_state" where
  "live_accept_elicitation interaction_id accepted_url l =
     try_in l (ok_or UnknownInteraction (bt_get (lv_elicitations l) interaction_id)) (\<lambda>pending.
       let l1 = remove_elicitation interaction_id l
       in (Ok (), case accepted_url of
             None \<Rightarrow> l1
           | Some url \<Rightarrow> l1\<lparr>lv_resolved_url_flows := filter (\<lambda>r. r \<noteq> url) (lv_resolved_url_flows l1),
               lv_url_flows := bt_insert url (new_url_flow url interaction_id (pi_request pending)) (lv_url_flows l1)\<rparr>))"

definition request_accept_elicitation :: "env \<Rightarrow> string \<Rightarrow> string option \<Rightarrow> session_registry
    \<Rightarrow> (runtime_error, unit) result \<times> session_registry" where
  "request_accept_elicitation E interaction_id accepted_url rg =
     try_in rg (ok_or UnknownInteraction (bt_get (rg_request_elicitations rg) interaction_id)) (\<lambda>pending.
       let rg1 = rg\<lparr>rg_request_elicitations := bt_remove interaction_id (rg_request_elicitations rg),
             rg_resolved_request_elicitations :=
               remember_resolved_interaction interaction_id (rg_resolved_request_elicitations rg)\<rparr>
       in (Ok (), commit_connection E (case accepted_url of
             None \<Rightarrow> rg1
           | Some url \<Rightarrow> rg1\<lparr>
               rg_resolved_request_url_flows := filter (\<lambda>r. r \<noteq> url) (rg_resolved_request_url_flows rg1),
               rg_request_url_flows :=
                 bt_insert url (new_url_flow url interaction_id (pi_request pending)) (rg_request_url_flows rg1)\<rparr>)))"

text \<open>What a scope has: the interactions pending in it, and the ids resolved in it.\<close>

definition scope_elicitations :: "scope \<Rightarrow> session_registry
    \<Rightarrow> (runtime_error, (string, pending_interaction) btree_map) result" where
  "scope_elicitations scope rg =
     (case scope of
        Some (sid, inc) \<Rightarrow> res_bind (require_live sid inc rg) (\<lambda>l. Ok (lv_elicitations l))
      | None \<Rightarrow> Ok (rg_request_elicitations rg))"

definition scope_resolved_elicitations :: "scope \<Rightarrow> session_registry \<Rightarrow> (runtime_error, string list) result" where
  "scope_resolved_elicitations scope rg =
     (case scope of
        Some (sid, inc) \<Rightarrow> res_bind (require_live sid inc rg) (\<lambda>l. Ok (lv_resolved_elicitations l))
      | None \<Rightarrow> Ok (rg_resolved_request_elicitations rg))"

definition resolve_elicitation :: "env \<Rightarrow> string \<Rightarrow> scope \<Rightarrow> string \<Rightarrow> string option \<Rightarrow> session_registry
    \<Rightarrow> (runtime_error, interaction_resolution) result \<times> session_registry" where
  "resolve_elicitation E expected_epoch scope interaction_id accepted_url rg =
     try_in rg (require_epoch expected_epoch rg) (\<lambda>_.
     try_in rg (scope_resolved_elicitations scope rg) (\<lambda>resolved.
       if interaction_id \<in> set resolved then (Ok ResolutionAlreadyResolved, rg)
       else if (case accepted_url of Some url \<Rightarrow> url_flow_in_use url rg | None \<Rightarrow> False)
       then (Err InteractionCollision, rg)
       else (case scope of
               Some (sid, inc) \<Rightarrow>
                 call_then (with_owner sid inc (on_live (live_accept_elicitation interaction_id accepted_url)) rg)
                   (\<lambda>_ rg1. publish E sid ResolutionApplied rg1)
             | None \<Rightarrow>
                 call_then (request_accept_elicitation E interaction_id accepted_url rg)
                   (\<lambda>_ rg1. (Ok ResolutionApplied, rg1)))))"

definition scope_responding :: "scope \<Rightarrow> string \<Rightarrow> session_registry \<Rightarrow> (runtime_error, string option) result" where
  "scope_responding scope interaction_id rg =
     res_bind (scope_elicitations scope rg) (\<lambda>m.
     res_bind (ok_or UnknownInteraction (bt_get m interaction_id)) (\<lambda>pending.
       Ok (pi_responding_operation_id pending)))"

definition respond_with :: "string \<Rightarrow> string \<Rightarrow> (string, pending_interaction) btree_map
    \<Rightarrow> (string, pending_interaction) btree_map option" where
  "respond_with interaction_id operation_id m =
     map_option (\<lambda>p. bt_insert interaction_id (p\<lparr>pi_responding_operation_id := Some operation_id\<rparr>) m)
       (bt_get m interaction_id)"

definition begin_elicitation_response :: "env \<Rightarrow> string \<Rightarrow> scope \<Rightarrow> string \<Rightarrow> string \<Rightarrow> session_registry
    \<Rightarrow> (runtime_error, interaction_response_start) result \<times> session_registry" where
  "begin_elicitation_response E expected_epoch scope interaction_id operation_id rg =
     try_in rg (require_epoch expected_epoch rg) (\<lambda>_.
     try_in rg (scope_responding scope interaction_id rg) (\<lambda>responding.
       case responding of
         Some existing \<Rightarrow>
           (if existing = operation_id then Ok ResponseDuplicate else Err InteractionCollision, rg)
       | None \<Rightarrow>
           if operation_in_use operation_id rg then (Err OperationCollision, rg)
           else (case scope of
               Some (sid, inc) \<Rightarrow>
                 call_then (with_owner sid inc (on_live (\<lambda>l.
                   try_in l (ok_or UnknownInteraction (respond_with interaction_id operation_id (lv_elicitations l)))
                     (\<lambda>m. (Ok (), l\<lparr>lv_elicitations := m\<rparr>)))) rg)
                   (\<lambda>_ rg1. publish E sid ResponseApplied rg1)
             | None \<Rightarrow>
                 try_in rg (ok_or UnknownInteraction
                     (respond_with interaction_id operation_id (rg_request_elicitations rg))) (\<lambda>m.
                   (Ok ResponseApplied, commit_connection E (rg\<lparr>rg_request_elicitations := m\<rparr>))))))"

definition complete_elicitation_response :: "env \<Rightarrow> string \<Rightarrow> scope \<Rightarrow> string \<Rightarrow> string \<Rightarrow> string option
    \<Rightarrow> session_registry \<Rightarrow> (runtime_error, interaction_resolution) result \<times> session_registry" where
  "complete_elicitation_response E expected_epoch scope interaction_id operation_id accepted_url rg =
     try_in rg (require_epoch expected_epoch rg) (\<lambda>_.
     try_in rg (scope_resolved_elicitations scope rg) (\<lambda>resolved.
       if interaction_id \<in> set resolved then (Ok ResolutionAlreadyResolved, rg)
       else try_in rg (scope_responding scope interaction_id rg) (\<lambda>responding.
         if responding \<noteq> Some operation_id then (Err OperationMismatch, rg)
         else resolve_elicitation E expected_epoch scope interaction_id accepted_url rg)))"

section \<open>URL flows\<close>

text \<open>Removing a flow: its outcome, and the flows and resolved ids left in its scope.\<close>

definition take_url_flow :: "string \<Rightarrow> (string, url_flow) btree_map \<times> string list
    \<Rightarrow> (runtime_error, url_flow_resolution) result \<times> (string, url_flow) btree_map \<times> string list" where
  "take_url_flow elicitation_id fr =
     (case fr of (flows, resolved) \<Rightarrow>
        if elicitation_id \<in> set resolved then (Ok UrlAlreadyTerminal, fr)
        else try_in fr (ok_or UnknownInteraction (bt_get flows elicitation_id)) (\<lambda>flow.
          if uf_status flow \<noteq> Waiting then (Ok UrlAlreadyTerminal, (bt_remove elicitation_id flows, resolved))
          else (Ok UrlApplied, (bt_remove elicitation_id flows,
                 remember_resolved_interaction elicitation_id resolved))))"

definition live_take_url_flow :: "string \<Rightarrow> session_live_state
    \<Rightarrow> (runtime_error, url_flow_resolution) result \<times> session_live_state" where
  "live_take_url_flow elicitation_id l =
     (case take_url_flow elicitation_id (lv_url_flows l, lv_resolved_url_flows l) of
        (r, flows, resolved) \<Rightarrow> (r, l\<lparr>lv_url_flows := flows, lv_resolved_url_flows := resolved\<rparr>))"

definition settle_url_flow :: "env \<Rightarrow> string \<Rightarrow> scope \<Rightarrow> string \<Rightarrow> url_flow_status \<Rightarrow> session_registry
    \<Rightarrow> (runtime_error, url_flow_resolution) result \<times> session_registry" where
  "settle_url_flow E expected_epoch scope elicitation_id status rg =
     try_in rg (require_epoch expected_epoch rg) (\<lambda>_.
       if status = Waiting then (Err OperationMismatch, rg)
       else (case scope of
               Some (sid, inc) \<Rightarrow>
                 live_op E sid inc UrlApplied (on_live (live_take_url_flow elicitation_id)) rg
             | None \<Rightarrow>
                 (case take_url_flow elicitation_id (rg_request_url_flows rg, rg_resolved_request_url_flows rg) of
                    (r, flows, resolved) \<Rightarrow>
                      call_then (r, rg\<lparr>rg_request_url_flows := flows, rg_resolved_request_url_flows := resolved\<rparr>)
                        (\<lambda>outcome rg1. (Ok outcome, if outcome = UrlApplied then commit_connection E rg1 else rg1)))))"

definition scope_url_flows :: "scope \<Rightarrow> session_registry \<Rightarrow> (runtime_error, (string, url_flow) btree_map) result" where
  "scope_url_flows scope rg =
     (case scope of
        Some (sid, inc) \<Rightarrow> res_bind (require_live sid inc rg) (\<lambda>l. Ok (lv_url_flows l))
      | None \<Rightarrow> Ok (rg_request_url_flows rg))"

definition settle_url_registration :: "env \<Rightarrow> string \<Rightarrow> scope \<Rightarrow> string \<Rightarrow> string \<Rightarrow> url_flow_status \<Rightarrow> session_registry
    \<Rightarrow> (runtime_error, url_flow_resolution) result \<times> session_registry" where
  "settle_url_registration E expected_epoch scope elicitation_id registration_id status rg =
     try_in rg (require_epoch expected_epoch rg) (\<lambda>_.
     try_in rg (scope_url_flows scope rg) (\<lambda>flows.
       if (case bt_get flows elicitation_id of
             Some flow \<Rightarrow> uf_registration_id flow \<noteq> registration_id | None \<Rightarrow> False)
       then (Ok UrlStaleRegistration, rg)
       else settle_url_flow E expected_epoch scope elicitation_id status rg))"

section \<open>Terminals\<close>

definition upsert_terminal :: "env \<Rightarrow> string \<Rightarrow> string \<Rightarrow> u64 \<Rightarrow> string \<Rightarrow> json \<Rightarrow> session_registry
    \<Rightarrow> (runtime_error, terminal_upsert) result \<times> session_registry" where
  "upsert_terminal E expected_epoch sid inc terminal_id terminal rg =
     try_in rg (require_epoch expected_epoch rg) (\<lambda>_.
     try_in rg (require_live_owner sid inc rg) (\<lambda>owner.
     expect_in rg (ss_live owner) (\<lambda>live.
       if terminal_id \<in> set (lv_released_terminals live) then (Ok TerminalStale, rg)
       else let existing = bt_get (lv_terminals live) terminal_id
         in expect_in rg (fold_terminal_snapshot E existing terminal) (\<lambda>materialized.
           if (case existing of Some t \<Rightarrow> json_eq t materialized | None \<Rightarrow> False) then (Ok TerminalDuplicate, rg)
           else let live1 = (if terminal_released terminal
                    then live\<lparr>lv_terminals := bt_remove terminal_id (lv_terminals live),
                      lv_released_terminals := remember_resolved_interaction terminal_id (lv_released_terminals live)\<rparr>
                    else live\<lparr>lv_terminals := bt_insert terminal_id materialized (lv_terminals live)\<rparr>);
                  revision = next_revision (lv_revision live1)
             in (Ok (if existing = None then TerminalInserted else TerminalReplaced),
                 commit_delta E (Some revision) (TerminalUpdated sid inc revision terminal_id terminal)
                   (put_state sid (owner\<lparr>ss_live := Some (live1\<lparr>lv_revision := revision\<rparr>)\<rparr>) rg))))))"

end
