(* ===== verification/Runtime_Operations.thy ===== *)
theory Runtime_Operations
  imports Runtime_Interactions
begin

text \<open>
  The exclusive operations of a session (\<open>src/src/runtime_state.rs\<close>): starting one, its success,
  failure or uncertainty, the closing and deletion of a session and the end of its cleanup.
\<close>

definition start_operation :: "env \<Rightarrow> string \<Rightarrow> string \<Rightarrow> u64 \<Rightarrow> string \<Rightarrow> operation_kind \<Rightarrow> string \<Rightarrow> session_registry
    \<Rightarrow> (runtime_error, unit) result \<times> session_registry" where
  "start_operation E expected_epoch sid inc operation_id kind stage rg =
     try_in rg (require_epoch expected_epoch rg) (\<lambda>_.
       if operation_in_use_except_reserved operation_id (Some (sid, inc, kind)) rg
       then (Err OperationCollision, rg)
       else owner_op E expected_epoch sid inc (live_start_operation operation_id kind stage) rg)"

definition start_delete :: "env \<Rightarrow> string \<Rightarrow> string \<Rightarrow> u64 \<Rightarrow> string \<Rightarrow> session_registry
    \<Rightarrow> (runtime_error, unit) result \<times> session_registry" where
  "start_delete E expected_epoch sid inc operation_id rg =
     try_in rg (require_live sid inc rg) (\<lambda>live.
       case lv_lifecycle live of
         Active \<Rightarrow> start_operation E expected_epoch sid inc operation_id Delete ''closing'' rg
       | Closed \<Rightarrow> start_operation E expected_epoch sid inc operation_id Delete ''deleting'' rg
       | _ \<Rightarrow> (Err SessionNotActive, rg))"

definition start_direct_delete :: "env \<Rightarrow> string \<Rightarrow> string \<Rightarrow> u64 \<Rightarrow> string \<Rightarrow> session_registry
    \<Rightarrow> (runtime_error, unit) result \<times> session_registry" where
  "start_direct_delete E expected_epoch sid inc operation_id rg =
     try_in rg (require_live sid inc rg) (\<lambda>live.
       if lv_lifecycle live \<noteq> Active then (Err SessionNotActive, rg)
       else start_operation E expected_epoch sid inc operation_id Delete ''deleting_active'' rg)"

text \<open>A turn whose session goes away has no execution any more.\<close>

definition stop_execution :: "session_state \<Rightarrow> session_state" where
  "stop_execution s = s\<lparr>ss_active_turn := map_option (\<lambda>t. t\<lparr>ov_execution := None\<rparr>) (ss_active_turn s)\<rparr>"

text \<open>The live work of an owner ends where the code drains it in place.\<close>

definition drain_owner :: "string \<Rightarrow> u64 \<Rightarrow> session_state \<Rightarrow> (runtime_error, runtime_effect list) result \<times> session_state" where
  "drain_owner sid inc s =
     expect_in s (ss_live s) (\<lambda>live.
       case drain_session_liveness sid inc live of (effects, live') \<Rightarrow> (Ok effects, s\<lparr>ss_live := Some live'\<rparr>))"

definition delete_close_succeeded :: "env \<Rightarrow> string \<Rightarrow> string \<Rightarrow> u64 \<Rightarrow> string \<Rightarrow> session_registry
    \<Rightarrow> (runtime_error, unit) result \<times> session_registry" where
  "delete_close_succeeded E expected_epoch sid inc operation_id rg =
     try_in rg (require_epoch expected_epoch rg) (\<lambda>_.
       call_then (with_owner sid inc (\<lambda>s. expect_in s (ss_live s) (\<lambda>live.
         try_in s (ok_or OperationMismatch (ss_operation s)) (\<lambda>op.
           if so_operation_id op \<noteq> operation_id \<or> so_kind op \<noteq> Delete \<or> so_stage op \<noteq> ''closing'' \<or>
              lv_lifecycle live \<noteq> ClosingForDelete
           then (Err OperationMismatch, s)
           else drain_owner sid inc (stop_execution
             (s\<lparr>ss_operation := Some (op\<lparr>so_stage := ''deleting''\<rparr>),
                ss_live := Some (live\<lparr>lv_lifecycle := Deleting\<rparr>)\<rparr>))))) rg)
       (\<lambda>effects rg1. publish E sid () (add_effects effects rg1)))"

definition complete_delete :: "env \<Rightarrow> string \<Rightarrow> string \<Rightarrow> u64 \<Rightarrow> string \<Rightarrow> session_registry
    \<Rightarrow> (runtime_error, unit) result \<times> session_registry" where
  "complete_delete E expected_epoch sid inc operation_id rg =
     try_in rg (require_epoch expected_epoch rg) (\<lambda>_.
       call_then (with_owner sid inc (\<lambda>s. expect_in s (ss_live s) (\<lambda>live.
         if lv_lifecycle live \<noteq> Deleting \<or>
            \<not> has_operation (\<lambda>op. so_operation_id op = operation_id \<and> so_kind op = Delete \<and>
                so_stage op \<in> {''deleting'', ''deleting_active''}) s
         then (Err OperationMismatch, s)
         else expect_in s (ss_operation s) (\<lambda>op.
           (Ok (), stop_execution (s\<lparr>ss_operation := Some (op\<lparr>so_stage := ''cleanup''\<rparr>)\<rparr>))))) rg)
       (\<lambda>_ rg1. retire_live E sid inc rg1))"

definition mark_operation_uncertain :: "env \<Rightarrow> string \<Rightarrow> string \<Rightarrow> u64 \<Rightarrow> string \<Rightarrow> string \<Rightarrow> session_registry
    \<Rightarrow> (runtime_error, unit) result \<times> session_registry" where
  "mark_operation_uncertain E expected_epoch sid inc operation_id reason rg =
     try_in rg (require_epoch expected_epoch rg) (\<lambda>_.
       call_then (with_owner sid inc (\<lambda>s. expect_in s (ss_live s) (\<lambda>live.
         try_in s (ok_or OperationMismatch (ss_operation s)) (\<lambda>op.
           if so_operation_id op \<noteq> operation_id then (Err OperationMismatch, s)
           else drain_owner sid inc
             (s\<lparr>ss_operation := Some (op\<lparr>so_stage := ''uncertain'', so_uncertainty_reason := Some reason\<rparr>),
                ss_live := Some (live\<lparr>lv_lifecycle := Uncertain\<rparr>)\<rparr>)))) rg)
       (\<lambda>effects rg1. publish E sid () (add_effects effects rg1)))"

definition operation_is :: "string \<Rightarrow> operation_kind \<Rightarrow> session_state \<Rightarrow> bool" where
  "operation_is operation_id kind s = has_operation (\<lambda>op. so_operation_id op = operation_id \<and> so_kind op = kind) s"

definition complete_operation :: "env \<Rightarrow> string \<Rightarrow> string \<Rightarrow> u64 \<Rightarrow> string \<Rightarrow> operation_kind \<Rightarrow> session_registry
    \<Rightarrow> (runtime_error, unit) result \<times> session_registry" where
  "complete_operation E expected_epoch sid inc operation_id kind rg =
     owner_op E expected_epoch sid inc (\<lambda>s.
       if kind \<in> {Close, Delete} \<or> \<not> operation_is operation_id kind s then (Err OperationMismatch, s)
       else (Ok (), s\<lparr>ss_operation := None\<rparr>)) rg"

definition complete_control_operation :: "env \<Rightarrow> string \<Rightarrow> string \<Rightarrow> u64 \<Rightarrow> string \<Rightarrow> operation_kind \<Rightarrow> string \<Rightarrow> json
    \<Rightarrow> session_registry \<Rightarrow> (runtime_error, unit) result \<times> session_registry" where
  "complete_control_operation E expected_epoch sid inc operation_id kind key update rg =
     try_in rg (require_epoch expected_epoch rg) (\<lambda>_.
       if kind \<notin> {SetMode, SetConfig} then (Err OperationMismatch, rg)
       else owner_op E expected_epoch sid inc (\<lambda>s. expect_in s (ss_live s) (\<lambda>live.
         if \<not> operation_is operation_id kind s then (Err OperationMismatch, s)
         else (Ok (), s\<lparr>ss_operation := None,
                ss_live := Some (live\<lparr>lv_control_state := bt_insert key update (lv_control_state live)\<rparr>)\<rparr>))) rg)"

definition lifecycle_after_failure :: "operation_kind \<Rightarrow> string \<Rightarrow> session_lifecycle \<Rightarrow> session_lifecycle" where
  "lifecycle_after_failure kind stage lifecycle =
     (case kind of
        Close \<Rightarrow> Active
      | Delete \<Rightarrow> if stage = ''deleting'' then Closed else Active
      | _ \<Rightarrow> lifecycle)"

definition fail_operation :: "env \<Rightarrow> string \<Rightarrow> string \<Rightarrow> u64 \<Rightarrow> string \<Rightarrow> operation_kind \<Rightarrow> session_registry
    \<Rightarrow> (runtime_error, unit) result \<times> session_registry" where
  "fail_operation E expected_epoch sid inc operation_id kind rg =
     owner_op E expected_epoch sid inc (\<lambda>s. expect_in s (ss_live s) (\<lambda>live.
       try_in s (ok_or OperationMismatch (ss_operation s)) (\<lambda>op.
         if so_operation_id op \<noteq> operation_id \<or> so_kind op \<noteq> kind then (Err OperationMismatch, s)
         else (Ok (), s\<lparr>ss_operation := None, ss_live :=
           Some (live\<lparr>lv_lifecycle := lifecycle_after_failure kind (so_stage op) (lv_lifecycle live)\<rparr>)\<rparr>)))) rg"

definition close_session :: "env \<Rightarrow> string \<Rightarrow> string \<Rightarrow> u64 \<Rightarrow> string \<Rightarrow> session_registry
    \<Rightarrow> (runtime_error, unit) result \<times> session_registry" where
  "close_session E expected_epoch sid inc operation_id rg =
     try_in rg (require_epoch expected_epoch rg) (\<lambda>_.
       call_then (with_owner sid inc (\<lambda>s.
         try_in s (ok_or OperationMismatch (ss_operation s)) (\<lambda>op.
           if so_operation_id op \<noteq> operation_id \<or> so_kind op \<noteq> Close \<or> so_stage op = ''cleanup''
           then (Err OperationMismatch, s)
           else let s1 = stop_execution (s\<lparr>ss_operation := Some (op\<lparr>so_stage := ''cleanup''\<rparr>)\<rparr>)
             in expect_in s1 (ss_live s1) (\<lambda>live.
               drain_owner sid inc (s1\<lparr>ss_live := Some (live\<lparr>lv_lifecycle := Closed\<rparr>)\<rparr>)))) rg)
       (\<lambda>effects rg1. (Ok (), commit_removal E sid inc (add_effects effects rg1))))"

definition finish_session_cleanup :: "string \<Rightarrow> u64 \<Rightarrow> session_admission \<Rightarrow> string \<Rightarrow> session_registry
    \<Rightarrow> (mirror_error, unit) result \<times> session_registry" where
  "finish_session_cleanup sid inc kind operation_id rg =
     try_in rg (require_state sid inc rg) (\<lambda>s.
       if \<not> has_operation (\<lambda>op. so_operation_id op = operation_id \<and> admission (so_kind op) = kind) s \<or>
          (case ss_live s of Some live \<Rightarrow> lv_lifecycle live \<noteq> Closed | None \<Rightarrow> False)
       then (Err MirrorOperationMismatch, rg)
       else (Ok (), put_state sid (s\<lparr>ss_operation := None, ss_live := None\<rparr>) rg))"

end
