(* ===== verification/Runtime_Steps.thy ===== *)
theory Runtime_Steps
  imports Runtime_Operations "HOL-Library.Multiset"
begin

text \<open>
  The operations of the runtime as steps: every call either fails and leaves the registry as it is, or
  is one of a few kinds of change (\<open>runtime_step\<close>), which the properties of the runtime go through.
  \<open>owner_change\<close> says what an operation may do to the session it owns.
\<close>

section \<open>Helpers\<close>

lemma bt_insert_same: "bt_wf m \<Longrightarrow> bt_get m k = Some v \<Longrightarrow> bt_insert k v m = m"
proof (induction k v m rule: bt_insert.induct)
  case (2 k v k' v' m)
  show ?case
  proof (cases "k = k'")
    case False
    then have "(k, v) \<in> set m" using 2(3) by (auto simp: bt_get_def dest: map_of_SomeD)
    then have "k' < k" using 2(2) by (force simp: bt_wf_def)
    with 2 False show ?thesis by (simp add: bt_wf_def bt_get_def)
  qed (use 2(3) in \<open>simp add: bt_get_def\<close>)
qed (simp add: bt_get_def)

lemma put_state_same:
  assumes "bt_wf (rg_sessions rg)" "state_of sid rg = Some s"
  shows "put_state sid s rg = rg"
proof -
  obtain e where e: "entry_of sid rg = Some e" "en_state e = s" using assms(2) by (auto simp: state_of_def)
  then have "bt_insert sid (e\<lparr>en_state := s\<rparr>) (rg_sessions rg) = rg_sessions rg"
    by (intro bt_insert_same [OF assms(1)]) (auto simp: entry_of_def)
  with e(1) show ?thesis by (simp add: put_state_def put_entry_def)
qed

lemma require_epoch_cases [simp]: "require_epoch ep rg \<noteq> Panic"
  by (simp add: require_epoch_def)

lemma require_live_owner_Ok:
  "require_live_owner sid inc rg = Ok s \<longleftrightarrow>
     state_of sid rg = Some s \<and> ss_incarnation s = inc \<and> ss_live s \<noteq> None \<and> \<not> in_cleanup s"
  by (auto simp: require_live_owner_def split: if_splits)

lemma require_live_owner_no_panic [simp]: "require_live_owner sid inc rg \<noteq> Panic"
  by (cases "state_of sid rg") (simp_all add: require_live_owner_def)

lemma require_live_Ok:
  "require_live sid inc rg = Ok l \<longleftrightarrow>
     (\<exists>s. state_of sid rg = Some s \<and> ss_incarnation s = inc \<and> ss_live s = Some l \<and> \<not> in_cleanup s)"
  by (auto simp: require_live_def require_live_owner_Ok split: option.splits)

lemma require_live_no_panic [simp]: "require_live sid inc rg \<noteq> Panic"
proof (cases "require_live_owner sid inc rg")
  case (Ok s)
  then have "ss_live s \<noteq> None" by (simp add: require_live_owner_Ok)
  with Ok show ?thesis by (auto simp: require_live_def)
qed (simp_all add: require_live_def)

lemma retain_control_update_kind:
  "retain_control_update entry = Some u \<Longrightarrow> \<exists>k. get_str u ''sessionUpdate'' = Some k"
  by (auto simp: retain_control_update_def update_kind_def Let_def split: option.splits if_splits)

lemma extract_control_state_total: "\<exists>m. extract_control_state entries = Some m"
proof -
  have "\<exists>m. extract_control_state_from controls entries = Some m" for controls
  proof (induction entries arbitrary: controls)
    case (Cons e es)
    show ?case
      using retain_control_update_kind [of e]
      by (cases "retain_control_update e") (auto simp: as_str_json_index Cons.IH split: option.split)
  qed simp
  then show ?thesis by (simp add: extract_control_state_def)
qed

section \<open>The ids in flight\<close>

definition responding_ids :: "(string, pending_interaction) btree_map \<Rightarrow> string list" where
  "responding_ids m = List.map_filter (\<lambda>e. pi_responding_operation_id (snd e)) m"

definition live_ids :: "session_state \<Rightarrow> string list" where
  "live_ids s = (case ss_live s of
     Some l \<Rightarrow> responding_ids (lv_permissions l) @ responding_ids (lv_elicitations l) | None \<Rightarrow> [])"

definition option_list :: "'a option \<Rightarrow> 'a list" where
  "option_list x = (case x of Some a \<Rightarrow> [a] | None \<Rightarrow> [])"

lemma option_list_simps [simp]: "option_list None = []" "option_list (Some a) = [a]"
  by (simp_all add: option_list_def)

lemma set_option_list [simp]: "a \<in> set (option_list x) \<longleftrightarrow> x = Some a"
  by (cases x) auto

definition session_ids :: "session_state \<Rightarrow> string list" where
  "session_ids s = option_list (turn_rpc_operation s) @
     option_list (map_option so_operation_id (ss_operation s)) @ live_ids s"

definition operation_ids :: "session_registry \<Rightarrow> string list" where
  "operation_ids rg = concat (map (\<lambda>e. session_ids (en_state (snd e))) (rg_sessions rg)) @
     responding_ids (rg_request_elicitations rg)"

lemma set_responding_ids:
  "o' \<in> set (responding_ids m) \<longleftrightarrow> list_ex (\<lambda>e. pi_responding_operation_id (snd e) = Some o') m"
  unfolding responding_ids_def by (induction m) (auto simp: map_filter_simps split: option.split)

lemma operation_in_use_iff: "operation_in_use o' rg \<longleftrightarrow> o' \<in> set (operation_ids rg)"
proof -
  have "o' \<in> set (session_ids s) \<longleftrightarrow>
      (case turn_execution_of s of Some x \<Rightarrow> tx_rpc_operation_id x = o' | None \<Rightarrow> False) \<or>
      (case ss_operation s of Some op \<Rightarrow> so_operation_id op = o' | None \<Rightarrow> False) \<or>
      (case ss_live s of Some l \<Rightarrow>
         list_ex (\<lambda>i. pi_responding_operation_id (snd i) = Some o') (lv_permissions l @ lv_elicitations l)
       | None \<Rightarrow> False)" for s
    by (auto simp: session_ids_def live_ids_def turn_rpc_operation_def set_responding_ids split: option.splits)
  then show ?thesis
    by (simp add: operation_in_use_def operation_in_use_except_reserved_def operation_ids_def Let_def
        set_responding_ids list_ex_iff cong: option.case_cong)
qed

section \<open>What an operation may do to its session\<close>

definition ids_kept :: "session_registry \<Rightarrow> string list \<Rightarrow> string list \<Rightarrow> bool" where
  "ids_kept rg ids ids' \<longleftrightarrow> mset ids' \<subseteq># mset ids \<or>
     (\<exists>o'. \<not> operation_in_use o' rg \<and> mset ids' \<subseteq># add_mset o' (mset ids))"

definition flows_kept :: "session_registry \<Rightarrow> (string, url_flow) btree_map \<Rightarrow> (string, url_flow) btree_map \<Rightarrow> bool" where
  "flows_kept rg flows flows' \<longleftrightarrow> (\<forall>u f. bt_get flows' u = Some f \<longrightarrow>
     bt_get flows u = Some f \<or> \<not> url_flow_in_use u rg \<and> uf_status f = Waiting)"

definition turn_kept :: "turn_overlay option \<Rightarrow> turn_overlay option \<Rightarrow> bool" where
  "turn_kept t t' \<longleftrightarrow>
     (case t of
        None \<Rightarrow> t' = None
      | Some a \<Rightarrow> t' = Some a \<or> t' = Some (a\<lparr>ov_execution := None\<rparr>) \<or>
          (\<exists>x. ov_execution a = Some x \<and> t' = Some (a\<lparr>ov_execution := Some (x\<lparr>tx_cancel_requested := True\<rparr>)\<rparr>)))"

text \<open>The maps of a live session are ordered, as every \<open>BTreeMap\<close> is.\<close>

definition live_wf :: "session_live_state \<Rightarrow> bool" where
  "live_wf l \<longleftrightarrow> bt_wf (lv_control_state l) \<and> bt_wf (lv_permissions l) \<and> bt_wf (lv_elicitations l) \<and>
     bt_wf (lv_url_flows l) \<and> bt_wf (lv_terminals l)"

definition live_kept :: "session_registry \<Rightarrow> session_live_state \<Rightarrow> session_live_state \<Rightarrow> bool" where
  "live_kept rg l l' \<longleftrightarrow> lv_revision l' = lv_revision l \<and>
     (lv_terminals l' = lv_terminals l \<or> lv_terminals l' = []) \<and>
     flows_kept rg (lv_url_flows l) (lv_url_flows l') \<and> (live_wf l \<longrightarrow> live_wf l')"

definition owner_change :: "session_registry \<Rightarrow> session_state \<Rightarrow> session_state \<Rightarrow> bool" where
  "owner_change rg s s' \<longleftrightarrow>
     (\<exists>l l' op t. ss_live s = Some l \<and> s' = s\<lparr>ss_live := Some l', ss_operation := op, ss_active_turn := t\<rparr> \<and>
        turn_kept (ss_active_turn s) t \<and> live_kept rg l l') \<and>
     ids_kept rg (session_ids s) (session_ids s')"

lemma flows_kept_refl [simp, intro]: "flows_kept rg m m"
  by (simp add: flows_kept_def)

lemma flows_kept_empty [simp, intro]: "flows_kept rg m []"
  by (simp add: flows_kept_def bt_get_def)

lemma turn_kept_refl [simp, intro]: "turn_kept t t"
  by (cases t) (simp_all add: turn_kept_def)

lemma turn_kept_stop [simp, intro]: "turn_kept t (map_option (\<lambda>t. t\<lparr>ov_execution := None\<rparr>) t)"
  by (cases t) (simp_all add: turn_kept_def)

lemma ids_kept_sub: "mset ids' \<subseteq># mset ids \<Longrightarrow> ids_kept rg ids ids'"
  by (simp add: ids_kept_def)

lemma ids_kept_refl [simp, intro]: "ids_kept rg ids ids"
  by (simp add: ids_kept_def)

lemma owner_changeI:
  assumes "ss_live s = Some l" "s' = s\<lparr>ss_live := Some l', ss_operation := op, ss_active_turn := t\<rparr>"
    and "turn_kept (ss_active_turn s) t" "live_kept rg l l'" "ids_kept rg (session_ids s) (session_ids s')"
  shows "owner_change rg s s'"
  using assms unfolding owner_change_def by blast

section \<open>Steps\<close>

text \<open>The journal before a commit: as it was, or without the payload of a retired turn.\<close>

definition journal_before :: "session_registry \<Rightarrow> runtime_journal \<Rightarrow> bool" where
  "journal_before rg j \<longleftrightarrow> j = rg_journal rg \<or> (\<exists>sid inc op. j = retire_turn_payload sid inc op (rg_journal rg))"

text \<open>The registry after the commit of a published session.\<close>

definition upserted :: "env \<Rightarrow> string \<Rightarrow> session_registry \<Rightarrow> session_registry" where
  "upserted E sid rg = snd (commit_session E sid rg :: (runtime_error, unit) result \<times> session_registry)"

inductive runtime_step :: "env \<Rightarrow> session_registry \<Rightarrow> session_registry \<Rightarrow> bool" for E where
  rs_stay: "runtime_step E rg rg"
| rs_quiet: "state_of sid rg = Some s \<Longrightarrow> \<not> in_cleanup s \<Longrightarrow> owner_change rg s s' \<Longrightarrow>
    session_view s' = session_view s \<Longrightarrow> runtime_step E rg (put_state sid s' rg)"
| rs_upsert: "state_of sid rg = Some s \<Longrightarrow> \<not> in_cleanup s \<Longrightarrow> owner_change rg s s' \<Longrightarrow> session_view s' \<noteq> None \<Longrightarrow>
    journal_before rg j \<Longrightarrow>
    runtime_step E rg (upserted E sid ((add_effects effects (put_state sid s' rg))\<lparr>rg_journal := j\<rparr>))"
| rs_admit: "state_of sid rg = Some s \<Longrightarrow> \<not> in_cleanup s \<Longrightarrow> ss_incarnation s = inc \<Longrightarrow> ss_live s \<noteq> None \<Longrightarrow>
    turn_execution_of s = None \<Longrightarrow> \<not> operation_in_use intent rg \<Longrightarrow>
    start_turn E sid inc revision intent prompt rg = (Ok adm, rg1) \<Longrightarrow>
    runtime_step E rg (upserted E sid rg1)"
| rs_control: "state_of sid rg = Some s \<Longrightarrow> \<not> in_cleanup s \<Longrightarrow> ss_live s = Some l \<Longrightarrow> ss_incarnation s = inc \<Longrightarrow>
    runtime_step E rg (commit_control_update E sid inc key update
      (put_state sid (s\<lparr>ss_live := Some (l\<lparr>lv_control_state := bt_insert key update (lv_control_state l)\<rparr>)\<rparr>) rg))"
| rs_terminal: "state_of sid rg = Some s \<Longrightarrow> \<not> in_cleanup s \<Longrightarrow> ss_live s = Some l \<Longrightarrow> ss_incarnation s = inc \<Longrightarrow>
    terminal_id \<notin> set (lv_released_terminals l) \<Longrightarrow> json_wf terminal \<Longrightarrow>
    fold_terminal_snapshot E (bt_get (lv_terminals l) terminal_id) terminal = Some materialized \<Longrightarrow>
    l' = (if terminal_released terminal
      then l\<lparr>lv_terminals := bt_remove terminal_id (lv_terminals l),
             lv_released_terminals := remember_resolved_interaction terminal_id (lv_released_terminals l)\<rparr>
      else l\<lparr>lv_terminals := bt_insert terminal_id materialized (lv_terminals l)\<rparr>) \<Longrightarrow>
    revision = next_revision (lv_revision l) \<Longrightarrow>
    runtime_step E rg (commit_delta E (Some revision) (TerminalUpdated sid inc revision terminal_id terminal)
      (put_state sid (s\<lparr>ss_live := Some (l'\<lparr>lv_revision := revision\<rparr>)\<rparr>) rg))"
| rs_remove: "state_of sid rg = Some s \<Longrightarrow> \<not> in_cleanup s \<Longrightarrow> ss_live s \<noteq> None \<Longrightarrow> ss_incarnation s = inc \<Longrightarrow>
    s' = s\<lparr>ss_live := l', ss_operation := op, ss_active_turn := t\<rparr> \<Longrightarrow> turn_kept (ss_active_turn s) t \<Longrightarrow>
    pred_option (\<lambda>l. lv_url_flows l = [] \<and> lv_terminals l = []) l' \<Longrightarrow> session_view s' = None \<Longrightarrow>
    (\<forall>l. ss_live s = Some l \<longrightarrow>
      pred_option (\<lambda>k. lv_revision k = lv_revision l \<and> (live_wf l \<longrightarrow> live_wf k)) l') \<Longrightarrow>
    mset (session_ids s') \<subseteq># mset (session_ids s) \<Longrightarrow>
    runtime_step E rg (commit_removal E sid inc (add_effects effects (put_state sid s' rg)))"
| rs_connection: "flows_kept rg (rg_request_url_flows rg) flows \<Longrightarrow>
    ids_kept rg (responding_ids (rg_request_elicitations rg)) (responding_ids elicitations) \<Longrightarrow>
    (bt_wf (rg_request_elicitations rg) \<longrightarrow> bt_wf (rg_request_url_flows rg) \<longrightarrow> bt_wf elicitations \<and> bt_wf flows) \<Longrightarrow>
    runtime_step E rg (commit_connection E (rg\<lparr>rg_request_elicitations := elicitations, rg_request_url_flows := flows,
      rg_resolved_request_elicitations := res1, rg_resolved_request_url_flows := res2\<rparr>))"
| rs_install: "\<not> session_taken sid rg \<Longrightarrow> bt_wf controls \<Longrightarrow> inc = next_revision (rg_next_incarnation rg) \<Longrightarrow>
    (case op of None \<Rightarrow> lifecycle = Active | Some o' \<Rightarrow> lifecycle = Attaching \<and> \<not> operation_in_use (so_operation_id o') rg) \<Longrightarrow>
    rg1 = install_live E sid inc (new_live cwd session controls lifecycle) (rg\<lparr>rg_next_incarnation := inc\<rparr>) \<Longrightarrow>
    state_of sid rg1 = Some s \<Longrightarrow>
    runtime_step E rg (upserted E sid (if op = None then rg1 else put_state sid (s\<lparr>ss_operation := op\<rparr>) rg1))"
| rs_cleaned: "state_of sid rg = Some s \<Longrightarrow> in_cleanup s \<Longrightarrow> session_view s = None \<Longrightarrow>
    runtime_step E rg (put_state sid (s\<lparr>ss_operation := None, ss_live := None\<rparr>) rg)"

text \<open>
  The one change that publishes an update folded before: of a session with a running turn only the
  revision goes up.
\<close>

definition turn_published :: "env \<Rightarrow> session_registry \<Rightarrow> session_registry \<Rightarrow> bool" where
  "turn_published E rg rg' \<longleftrightarrow>
     (\<exists>sid s update operation_id. state_of sid rg = Some s \<and> \<not> in_cleanup s \<and> ss_live s \<noteq> None \<and>
        turn_rpc_operation s = Some operation_id \<and>
        rg' = commit_turn_update E sid (ss_incarnation s) operation_id update rg)"

text \<open>A call fails and changes nothing, or succeeds with a step; it never panics.\<close>

definition outcome :: "env \<Rightarrow> session_registry \<Rightarrow> ('e, 'a) result \<times> session_registry \<Rightarrow> bool" where
  "outcome E rg x \<longleftrightarrow>
     (case fst x of Ok _ \<Rightarrow> runtime_step E rg (snd x) | Err _ \<Rightarrow> snd x = rg | Panic \<Rightarrow> False)"

text \<open>What a reducer owes: an error leaves its session, a success is a published owner change.\<close>

definition sessions_wf :: "session_registry \<Rightarrow> bool" where
  "sessions_wf rg \<longleftrightarrow> bt_wf (rg_sessions rg) \<and> (\<forall>sid s l. state_of sid rg = Some s \<longrightarrow> ss_live s = Some l \<longrightarrow> live_wf l) \<and>
     bt_wf (rg_request_elicitations rg) \<and> bt_wf (rg_request_url_flows rg)"

text \<open>Every URL flow that is kept is still waiting.\<close>

definition all_waiting :: "(string, url_flow) btree_map \<Rightarrow> bool" where
  "all_waiting flows \<longleftrightarrow> (\<forall>u f. bt_get flows u = Some f \<longrightarrow> uf_status f = Waiting)"

definition flows_waiting :: "session_registry \<Rightarrow> bool" where
  "flows_waiting rg \<longleftrightarrow> all_waiting (rg_request_url_flows rg) \<and>
     (\<forall>sid s l. state_of sid rg = Some s \<longrightarrow> ss_live s = Some l \<longrightarrow> all_waiting (lv_url_flows l))"

definition settled :: "session_registry \<Rightarrow> session_state \<Rightarrow> ('e, 'a) result \<times> session_state \<Rightarrow> bool" where
  "settled rg s x \<longleftrightarrow>
     (case fst x of
        Ok _ \<Rightarrow> owner_change rg s (snd x) \<and> session_view (snd x) \<noteq> None
      | Err _ \<Rightarrow> snd x = s | Panic \<Rightarrow> False)"

named_theorems outcome_intros \<open>the outcome of a composed operation\<close>

lemma outcome_Err [simp]: "outcome E rg (Err e, rg)"
  by (simp add: outcome_def)

lemma outcome_stay [simp]: "outcome E rg (Ok a, rg)"
  by (simp add: outcome_def rs_stay)

lemma outcome_try [outcome_intros]:
  "r \<noteq> Panic \<Longrightarrow> (\<And>a. r = Ok a \<Longrightarrow> outcome E rg (f a)) \<Longrightarrow> outcome E rg (try_in rg r f)"
  by (cases r) auto

lemma outcome_expect [outcome_intros]:
  "(\<And>a. x = Some a \<Longrightarrow> outcome E rg (f a)) \<Longrightarrow> x \<noteq> None \<Longrightarrow> outcome E rg (expect_in rg x f)"
  by (cases x) auto

lemma outcome_if [outcome_intros]:
  "(b \<Longrightarrow> outcome E rg x) \<Longrightarrow> (\<not> b \<Longrightarrow> outcome E rg y) \<Longrightarrow> outcome E rg (if b then x else y)"
  by simp

lemma settled_Err [simp]: "settled rg s (Err e, s)"
  by (simp add: settled_def)

lemma settled_try [outcome_intros]:
  "r \<noteq> Panic \<Longrightarrow> (\<And>a. r = Ok a \<Longrightarrow> settled rg s (f a)) \<Longrightarrow> settled rg s (try_in s r f)"
  by (cases r) auto

lemma settled_expect [outcome_intros]:
  "(\<And>a. x = Some a \<Longrightarrow> settled rg s (f a)) \<Longrightarrow> x \<noteq> None \<Longrightarrow> settled rg s (expect_in s x f)"
  by (cases x) auto

lemma settled_if [outcome_intros]:
  "(b \<Longrightarrow> settled rg s x) \<Longrightarrow> (\<not> b \<Longrightarrow> settled rg s y) \<Longrightarrow> settled rg s (if b then x else y)"
  by simp
section \<open>Committing never panics\<close>

lemma session_view_Some:
  "session_view s \<noteq> None \<longleftrightarrow> (\<exists>l. ss_live s = Some l \<and> \<not> (lv_lifecycle l = Closed \<and> in_cleanup s))"
  by (cases "ss_live s") (auto simp: session_view_def)

lemma refresh_header_lifecycle [simp]: "lv_lifecycle (refresh_header s l) = lv_lifecycle l"
  by (simp add: refresh_header_def)

lemma in_cleanup_live [simp]: "in_cleanup (s\<lparr>ss_live := l\<rparr>) = in_cleanup s"
  by (simp add: in_cleanup_def)

lemma commit_session_eq:
  assumes "state_of sid rg = Some s" "session_view s \<noteq> None"
  shows "commit_session E sid rg = (Ok (), upserted E sid rg)"
proof -
  obtain l where l: "ss_live s = Some l" "\<not> (lv_lifecycle l = Closed \<and> in_cleanup s)"
    using assms(2) [unfolded session_view_Some] by blast
  let ?s = "s\<lparr>ss_live := Some (refresh_header s l)\<rparr>"
  have "session_view ?s \<noteq> None" using l by (subst session_view_Some) simp
  then obtain v where "session_runtime_of sid (put_state sid ?s rg) = Some v"
    using assms(1) by (auto simp: session_runtime_of_def registry_simps)
  then show ?thesis using assms(1) l(1) by (simp add: upserted_def commit_session_def Let_def)
qed

lemma publish_eq:
  assumes "state_of sid rg = Some s" "session_view s \<noteq> None"
  shows "publish E sid a rg = (Ok a, upserted E sid rg)"
  by (simp add: publish_def commit_session_eq [OF assms])

lemma owner_change_incarnation: "owner_change rg s s' \<Longrightarrow> ss_incarnation s' = ss_incarnation s"
  by (auto simp: owner_change_def)

lemma with_owner_cases:
  assumes "bt_wf (rg_sessions rg)"
    and "\<And>s. state_of sid rg = Some s \<Longrightarrow> ss_incarnation s = inc \<Longrightarrow> ss_live s \<noteq> None \<Longrightarrow> \<not> in_cleanup s \<Longrightarrow>
      settled rg s (f s)"
  obtains e where "with_owner sid inc f rg = (Err e, rg)"
  | s a s' where "state_of sid rg = Some s" "ss_incarnation s = inc" "\<not> in_cleanup s" "f s = (Ok a, s')"
      "owner_change rg s s'" "session_view s' \<noteq> None" "with_owner sid inc f rg = (Ok a, put_state sid s' rg)"
      "state_of sid (put_state sid s' rg) = Some s'"
proof (cases "require_live_owner sid inc rg")
  case (Ok s)
  then have s: "state_of sid rg = Some s" "ss_incarnation s = inc" "ss_live s \<noteq> None" "\<not> in_cleanup s"
    by (simp_all add: require_live_owner_Ok)
  obtain r s' where f: "f s = (r, s')" by fastforce
  have w: "with_owner sid inc f rg = (r, put_state sid s' rg)" using Ok f by (simp add: with_owner_def)
  show ?thesis
  proof (cases r)
    case (Ok a)
    with assms(2) [OF s] f s w that(2) show ?thesis by (auto simp: settled_def registry_simps)
  next
    case (Err e)
    then show ?thesis using assms(2) [OF s] f w that(1) put_state_same [OF assms(1) s(1)]
      by (auto simp: settled_def)
  qed (use assms(2) [OF s] f in \<open>simp add: settled_def\<close>)
next
  case (Err e)
  then show ?thesis using that(1) by (simp add: with_owner_def)
qed simp

lemma add_effects_nil [simp]: "add_effects [] rg = rg"
  by (simp add: add_effects_def)

lemma state_of_runtime_fields [registry_simps]:
  "state_of k (add_effects fx rg) = state_of k rg"
  "state_of k (rg\<lparr>rg_journal := j\<rparr>) = state_of k rg"
  "state_of k (commit_delta E r ch rg) = state_of k rg"
  by (simp_all add: add_effects_def commit_delta_def state_of_def entry_of_def)

lemma runtime_step_upsert:
  assumes "state_of sid rg = Some s" "\<not> in_cleanup s" "owner_change rg s s'" "session_view s' \<noteq> None"
  shows "runtime_step E rg (upserted E sid (put_state sid s' rg))"
proof -
  have "(add_effects [] (put_state sid s' rg))\<lparr>rg_journal := rg_journal rg\<rparr> = put_state sid s' rg"
    by (simp add: registry_simps [symmetric])
  with rs_upsert [OF assms, of "rg_journal rg" E "[]"] show ?thesis by (simp add: journal_before_def)
qed

lemma outcome_owner_op [outcome_intros]:
  assumes "bt_wf (rg_sessions rg)"
    and "\<And>s. state_of sid rg = Some s \<Longrightarrow> ss_incarnation s = inc \<Longrightarrow> ss_live s \<noteq> None \<Longrightarrow> \<not> in_cleanup s \<Longrightarrow>
      settled rg s (f s)"
  shows "outcome E rg (owner_op E ep sid inc f rg)"
proof (cases "require_epoch ep rg")
  case (Ok u)
  then show ?thesis
    by (cases rule: with_owner_cases [of rg sid inc f, OF assms])
       (auto simp: owner_op_def publish_eq outcome_def intro: runtime_step_upsert)
qed (simp_all add: owner_op_def)

lemma outcome_live_op [outcome_intros]:
  assumes "bt_wf (rg_sessions rg)"
    and "\<And>s. state_of sid rg = Some s \<Longrightarrow> ss_incarnation s = inc \<Longrightarrow> ss_live s \<noteq> None \<Longrightarrow> \<not> in_cleanup s \<Longrightarrow>
      settled rg s (f s) \<and> (\<forall>a s'. f s = (Ok a, s') \<longrightarrow> a \<noteq> applied \<longrightarrow> s' = s)"
  shows "outcome E rg (live_op E sid inc applied f rg)"
proof (cases rule: with_owner_cases [of rg sid inc f, OF assms(1)])
  case (1 s)
  with assms(2) show ?case by blast
next
  case (3 s a s')
  show ?thesis
  proof (cases "a = applied")
    case True
    then show ?thesis using 3 by (simp add: live_op_def publish_eq outcome_def runtime_step_upsert)
  next
    case False
    have "ss_live s \<noteq> None" using 3(5) by (auto simp: owner_change_def)
    then have "s' = s" using assms(2) [OF 3(1,2) _ 3(3)] 3(4) False by blast
    then show ?thesis using 3 False put_state_same [OF assms(1) 3(1)] by (simp add: live_op_def)
  qed
qed (simp add: live_op_def)
end
