(* ===== verification/Runtime_Outcomes.thy ===== *)
theory Runtime_Outcomes
  imports Runtime_Steps
begin

text \<open>
  Every operation of the runtime refines its step: the reducers settle (\<open>settled\<close>), and each call
  has an \<open>outcome\<close>.
\<close>

section \<open>Owner changes by fields\<close>

definition same_rest :: "session_state \<Rightarrow> session_state \<Rightarrow> bool" where
  "same_rest s s' \<longleftrightarrow>
     s' = s\<lparr>ss_live := ss_live s', ss_operation := ss_operation s', ss_active_turn := ss_active_turn s'\<rparr>"

lemma same_rest_refl [simp]: "same_rest s s"
  by (simp add: same_rest_def)

lemma same_rest_update [simp]:
  "same_rest s s' \<Longrightarrow> same_rest s (s'\<lparr>ss_live := l\<rparr>)"
  "same_rest s s' \<Longrightarrow> same_rest s (s'\<lparr>ss_operation := op\<rparr>)"
  "same_rest s s' \<Longrightarrow> same_rest s (s'\<lparr>ss_active_turn := t\<rparr>)"
  by (cases s; cases s'; simp add: same_rest_def)+

lemma owner_change_iff:
  "owner_change rg s s' \<longleftrightarrow> same_rest s s' \<and>
     (\<exists>l l'. ss_live s = Some l \<and> ss_live s' = Some l' \<and> live_kept rg l l') \<and>
     turn_kept (ss_active_turn s) (ss_active_turn s') \<and> ids_kept rg (session_ids s) (session_ids s')"
proof
  assume "owner_change rg s s'"
  then show "same_rest s s' \<and>
     (\<exists>l l'. ss_live s = Some l \<and> ss_live s' = Some l' \<and> live_kept rg l l') \<and>
     turn_kept (ss_active_turn s) (ss_active_turn s') \<and> ids_kept rg (session_ids s) (session_ids s')"
    by (auto simp: owner_change_def)
next
  assume a: "same_rest s s' \<and>
     (\<exists>l l'. ss_live s = Some l \<and> ss_live s' = Some l' \<and> live_kept rg l l') \<and>
     turn_kept (ss_active_turn s) (ss_active_turn s') \<and> ids_kept rg (session_ids s) (session_ids s')"
  then obtain l l' where "ss_live s = Some l" "ss_live s' = Some l'" "live_kept rg l l'" by blast
  with a show "owner_change rg s s'"
    by (intro owner_changeI [where l = l and l' = l' and op = "ss_operation s'" and t = "ss_active_turn s'"]) (simp_all add: same_rest_def)
qed

lemma settled_Ok:
  "settled rg s (Ok a, s') \<longleftrightarrow> owner_change rg s s' \<and> session_view s' \<noteq> None"
  by (simp add: settled_def)

text \<open>The ids of a session by its parts.\<close>

lemma session_ids_mset:
  "mset (session_ids s) = mset (option_list (turn_rpc_operation s)) +
     mset (option_list (map_option so_operation_id (ss_operation s))) + mset (live_ids s)"
  by (simp add: session_ids_def)

lemma turn_kept_ids:
  assumes "turn_kept (ss_active_turn s) (ss_active_turn s')"
  shows "mset (option_list (turn_rpc_operation s')) \<subseteq># mset (option_list (turn_rpc_operation s))"
  using assms
  by (auto simp: turn_kept_def turn_rpc_operation_def turn_execution_of_def split: option.splits)

definition operation_kept :: "session_registry \<Rightarrow> operation_state option \<Rightarrow> operation_state option \<Rightarrow> bool" where
  "operation_kept rg op op' \<longleftrightarrow>
     (case op' of
        None \<Rightarrow> True
      | Some o' \<Rightarrow> map_option so_operation_id op = Some (so_operation_id o') \<or>
          op = None \<and> \<not> operation_in_use (so_operation_id o') rg)"

lemma operation_kept_simps [simp]: "operation_kept rg op None" "operation_kept rg op op"
  by (simp_all add: operation_kept_def split: option.split)

lemma ids_keptI:
  assumes "turn_kept (ss_active_turn s) (ss_active_turn s')"
    and "operation_kept rg (ss_operation s) (ss_operation s')" "mset (live_ids s') \<subseteq># mset (live_ids s)"
  shows "ids_kept rg (session_ids s) (session_ids s')"
proof -
  let ?t = "\<lambda>s. mset (option_list (turn_rpc_operation s))"
  let ?p = "\<lambda>s. mset (option_list (map_option so_operation_id (ss_operation s)))"
  have t: "?t s' \<subseteq># ?t s" using assms(1) by (rule turn_kept_ids)
  consider "?p s' \<subseteq># ?p s" | o' where "?p s' = {#o'#}" "?p s = {#}" "\<not> operation_in_use o' rg"
    using assms(2) by (cases "ss_operation s'"; cases "ss_operation s") (auto simp: operation_kept_def)
  then show ?thesis
  proof cases
    case 1
    then have "?t s' + ?p s' + mset (live_ids s') \<subseteq># ?t s + ?p s + mset (live_ids s)"
      using t assms(3) by (intro subset_mset.add_mono)
    then show ?thesis unfolding ids_kept_def session_ids_mset by blast
  next
    case 2
    have "?t s' + {#o'#} + mset (live_ids s') \<subseteq># ?t s + {#o'#} + mset (live_ids s)"
      using t assms(3) by (intro subset_mset.add_mono) simp_all
    with 2 show ?thesis unfolding ids_kept_def session_ids_mset by auto
  qed
qed

lemma owner_change_fields:
  assumes "ss_live s' = Some l'" "ss_live s = Some l" "same_rest s s'"
    and "lv_revision l' = lv_revision l" "lv_terminals l' = lv_terminals l \<or> lv_terminals l' = []"
    and "flows_kept rg (lv_url_flows l) (lv_url_flows l')"
    and "turn_kept (ss_active_turn s) (ss_active_turn s')" "operation_kept rg (ss_operation s) (ss_operation s')"
    and "mset (responding_ids (lv_permissions l') @ responding_ids (lv_elicitations l')) \<subseteq>#
      mset (responding_ids (lv_permissions l) @ responding_ids (lv_elicitations l))"
    and "live_wf l \<Longrightarrow> live_wf l'"
  shows "owner_change rg s s'"
  using assms by (auto simp: owner_change_iff live_kept_def live_ids_def intro!: ids_keptI)

lemma session_view_live:
  "ss_live s = Some l \<Longrightarrow> session_view s \<noteq> None \<longleftrightarrow> \<not> (lv_lifecycle l = Closed \<and> in_cleanup s)"
  unfolding session_view_Some by simp

lemma settled_fields:
  assumes "ss_live s' = Some l'" "ss_live s = Some l" "same_rest s s'"
    and "lv_revision l' = lv_revision l" "lv_terminals l' = lv_terminals l \<or> lv_terminals l' = []"
    and "flows_kept rg (lv_url_flows l) (lv_url_flows l')"
    and "turn_kept (ss_active_turn s) (ss_active_turn s')" "operation_kept rg (ss_operation s) (ss_operation s')"
    and "mset (responding_ids (lv_permissions l') @ responding_ids (lv_elicitations l')) \<subseteq>#
      mset (responding_ids (lv_permissions l) @ responding_ids (lv_elicitations l))"
    and "live_wf l \<Longrightarrow> live_wf l'" "\<not> (lv_lifecycle l' = Closed \<and> in_cleanup s')"
  shows "settled rg s (Ok a, s')"
  unfolding settled_Ok session_view_live [OF assms(1)]
  using owner_change_fields [OF assms(1-10)] assms(11) by simp

lemma in_cleanup_None [simp]: "in_cleanup (s\<lparr>ss_operation := None\<rparr>) = False"
  by (simp add: in_cleanup_def)

lemma in_cleanup_Some [simp]: "in_cleanup (s\<lparr>ss_operation := Some op\<rparr>) = (so_stage op = ''cleanup'')"
  by (simp add: in_cleanup_def)

lemma in_cleanup_turn [simp]: "in_cleanup (s\<lparr>ss_active_turn := t\<rparr>) = in_cleanup s"
  by (simp add: in_cleanup_def)

section \<open>The reducers\<close>

lemma settled_start_operation:
  assumes "ss_live s \<noteq> None" "\<not> in_cleanup s"
    and "ss_operation s = None \<Longrightarrow> \<not> operation_in_use operation_id rg"
  shows "settled rg s (live_start_operation operation_id kind stage s)"
proof -
  obtain l where l: "ss_live s = Some l" using assms(1) by blast
  show ?thesis unfolding live_start_operation_def
    apply (intro outcome_intros; (simp add: map_err_def split: result.split; fail)?)
    apply (rule settled_fields [OF _ l], simp)
    using assms l
            apply (auto simp: live_wf_def operation_kept_def lifecycle_of_operation_def reserved_by_def
        split: option.splits operation_kind.splits if_splits)
    done
qed

section \<open>Maps of interactions\<close>

lemma mset_bt_insert_new: "bt_get m k = None \<Longrightarrow> mset (bt_insert k v m) = add_mset (k, v) (mset m)"
  by (induction k v m rule: bt_insert.induct) (auto simp: bt_get_def split: if_splits)

lemma mset_bt_insert_old:
  "bt_wf m \<Longrightarrow> bt_get m k = Some old \<Longrightarrow> add_mset (k, old) (mset (bt_insert k v m)) = add_mset (k, v) (mset m)"
proof (induction k v m rule: bt_insert.induct)
  case (2 k v k' v' m)
  show ?case
  proof (cases "k = k'")
    case False
    then have "(k, old) \<in> set m" using 2(3) by (auto simp: bt_get_def dest: map_of_SomeD)
    then have "k' < k" using 2(2) by (force simp: bt_wf_def)
    moreover have "add_mset (k, old) (mset (bt_insert k v m)) = add_mset (k, v) (mset m)"
      using 2 False calculation by (simp add: bt_wf_def bt_get_def)
    ultimately show ?thesis using False by (simp add: add_mset_commute [of "(k, old)"])
  qed (use 2(3) in \<open>simp add: bt_get_def\<close>)
qed (simp add: bt_get_def)

lemma mset_responding_ids:
  "mset (responding_ids m) = (\<Sum>e \<in># mset m. mset (option_list (pi_responding_operation_id (snd e))))"
  by (induction m) (auto simp: responding_ids_def map_filter_simps option_list_def split: option.split)

lemma responding_ids_new:
  "bt_get m k = None \<Longrightarrow> mset (responding_ids (bt_insert k p m)) =
     mset (option_list (pi_responding_operation_id p)) + mset (responding_ids m)"
  by (simp add: mset_responding_ids mset_bt_insert_new)

lemma responding_ids_old:
  assumes "bt_wf m" "bt_get m k = Some old" "pi_responding_operation_id old = None"
  shows "mset (responding_ids (bt_insert k p m)) =
     mset (option_list (pi_responding_operation_id p)) + mset (responding_ids m)"
proof -
  let ?f = "\<lambda>e. mset (option_list (pi_responding_operation_id (snd e)))"
  have "(\<Sum>e \<in># add_mset (k, old) (mset (bt_insert k p m)). ?f e) = (\<Sum>e \<in># add_mset (k, p) (mset m). ?f e)"
    by (simp only: mset_bt_insert_old [OF assms(1,2)])
  then show ?thesis using assms(3) by (simp add: mset_responding_ids)
qed

lemma responding_ids_remove: "mset (responding_ids (bt_remove k m)) \<subseteq># mset (responding_ids m)"
proof (induction m)
  case (Cons e m)
  have "A \<subseteq># B \<Longrightarrow> A \<subseteq># add_mset a B" for A B :: "string multiset" and a
    by (metis add_mset_add_single mset_subset_eq_add_left subset_mset.order_trans)
  with Cons show ?case
    by (auto simp: bt_remove_def responding_ids_def map_filter_simps split: option.split)
qed (simp add: bt_remove_def)

lemma bt_wf_remove' [simp]: "bt_wf m \<Longrightarrow> bt_wf (bt_remove k m)"
  by (simp add: bt_remove_def bt_wf_filter)

section \<open>More reducers\<close>

lemma remove_permission_fields [simp]:
  "lv_lifecycle (remove_permission i l) = lv_lifecycle l"
  "lv_revision (remove_permission i l) = lv_revision l"
  "lv_terminals (remove_permission i l) = lv_terminals l"
  "lv_url_flows (remove_permission i l) = lv_url_flows l"
  "lv_elicitations (remove_permission i l) = lv_elicitations l"
  "lv_control_state (remove_permission i l) = lv_control_state l"
  "lv_permissions (remove_permission i l) = bt_remove i (lv_permissions l)"
  by (simp_all add: remove_permission_def remember_resolved_permission_def)

lemma remove_elicitation_fields [simp]:
  "lv_lifecycle (remove_elicitation i l) = lv_lifecycle l"
  "lv_revision (remove_elicitation i l) = lv_revision l"
  "lv_terminals (remove_elicitation i l) = lv_terminals l"
  "lv_url_flows (remove_elicitation i l) = lv_url_flows l"
  "lv_permissions (remove_elicitation i l) = lv_permissions l"
  "lv_control_state (remove_elicitation i l) = lv_control_state l"
  "lv_resolved_url_flows (remove_elicitation i l) = lv_resolved_url_flows l"
  "lv_elicitations (remove_elicitation i l) = bt_remove i (lv_elicitations l)"
  by (simp_all add: remove_elicitation_def)

text \<open>What removing interactions leaves.\<close>

definition shrinks :: "session_live_state \<Rightarrow> session_live_state \<Rightarrow> bool" where
  "shrinks l l' \<longleftrightarrow> lv_lifecycle l' = lv_lifecycle l \<and> lv_revision l' = lv_revision l \<and>
     lv_terminals l' = lv_terminals l \<and> lv_url_flows l' = lv_url_flows l \<and>
     mset (responding_ids (lv_permissions l')) \<subseteq># mset (responding_ids (lv_permissions l)) \<and>
     mset (responding_ids (lv_elicitations l')) \<subseteq># mset (responding_ids (lv_elicitations l)) \<and>
     (live_wf l \<longrightarrow> live_wf l')"

lemma shrinks_refl [simp]: "shrinks l l"
  by (simp add: shrinks_def)

lemma shrinks_trans: "shrinks l l' \<Longrightarrow> shrinks l' l'' \<Longrightarrow> shrinks l l''"
  by (auto simp: shrinks_def)

lemma shrinks_remove: "shrinks l (remove_permission i l)" "shrinks l (remove_elicitation i l)"
  by (auto simp: shrinks_def live_wf_def responding_ids_remove)

lemma shrinks_fold:
  "shrinks l (fold remove_permission is l)" "shrinks l (fold remove_elicitation is l)"
  by (induction "is" arbitrary: l) (auto intro: shrinks_trans [OF shrinks_remove(1)] shrinks_trans [OF shrinks_remove(2)])

lemma shrinks_ids:
  "shrinks l l' \<Longrightarrow> mset (responding_ids (lv_permissions l')) + mset (responding_ids (lv_elicitations l')) \<subseteq>#
     mset (responding_ids (lv_permissions l)) + mset (responding_ids (lv_elicitations l))"
  by (auto simp: shrinks_def intro: subset_mset.add_mono)

lemma settled_seal_turn:
  assumes "ss_live s \<noteq> None" "\<not> in_cleanup s"
  shows "settled rg s (live_seal_turn operation_id lifecycle s)"
proof -
  obtain l where l: "ss_live s = Some l" using assms(1) by blast
  show ?thesis unfolding live_seal_turn_def Let_def
  proof (intro outcome_intros; (simp; fail)?)
    fix live overlay execution
    assume a: "ok_or UnknownSession (ss_live s) = Ok live" "ok_or NoActiveTurn (ss_active_turn s) = Ok overlay"
      "ok_or NoActiveTurn (ov_execution overlay) = Ok execution"
    let ?l1 = "case lifecycle of Some c \<Rightarrow> live\<lparr>lv_lifecycle := c\<rparr> | None \<Rightarrow> live"
    let ?l2 = "fold remove_permission (asked_by operation_id (lv_permissions ?l1)) ?l1"
    let ?l3 = "fold remove_elicitation (asked_by operation_id (lv_elicitations ?l2)) ?l2"
    have k: "shrinks ?l1 ?l3" by (blast intro: shrinks_trans shrinks_fold)
    have e: "lv_revision ?l1 = lv_revision l" "lv_terminals ?l1 = lv_terminals l" "lv_url_flows ?l1 = lv_url_flows l"
      "lv_permissions ?l1 = lv_permissions l" "lv_elicitations ?l1 = lv_elicitations l" "live_wf ?l1 = live_wf l"
      using a(1) l by (auto simp: live_wf_def split: option.split)
    show "settled rg s (Ok \<lparr>tr_permissions = asked_by operation_id (lv_permissions ?l1),
        tr_elicitations = asked_by operation_id (lv_elicitations ?l2)\<rparr>,
      s\<lparr>ss_active_turn := Some (overlay\<lparr>ov_execution := None\<rparr>), ss_live := Some ?l3\<rparr>)"
      by (rule settled_fields [OF _ l], simp)
         (use a assms k e shrinks_ids [OF k] in \<open>auto simp: shrinks_def turn_kept_def\<close>)
  qed
qed

lemma settled_on_live:
  assumes "ss_live s = Some l" "\<not> in_cleanup s" "fst (f l) \<noteq> Panic"
    and "\<And>e. fst (f l) = Err e \<Longrightarrow> snd (f l) = l"
    and "\<And>a. fst (f l) = Ok a \<Longrightarrow> live_kept rg l (snd (f l)) \<and>
      ids_kept rg (session_ids s) (session_ids (s\<lparr>ss_live := Some (snd (f l))\<rparr>))"
  shows "settled rg s (on_live f s)"
proof -
  obtain r l' where f: "f l = (r, l')" by fastforce
  have "owner_change rg s (s\<lparr>ss_live := Some l'\<rparr>)" if "r = Ok a" for a
    using assms(5) [of a] f that assms(1) by (auto simp: owner_change_iff)
  moreover have "session_view (s\<lparr>ss_live := Some l'\<rparr>) \<noteq> None"
    using assms(2) by (subst session_view_live [where l = l']) simp_all
  moreover have "s\<lparr>ss_live := Some l\<rparr> = s" using assms(1) by simp
  ultimately show ?thesis using f assms(1,3,4) by (cases r) (auto simp: on_live_def settled_def)
qed

lemma session_ids_live:
  "ss_live s = Some l \<Longrightarrow>
   mset (responding_ids (lv_permissions l')) + mset (responding_ids (lv_elicitations l')) \<subseteq>#
     N + mset (responding_ids (lv_permissions l)) + mset (responding_ids (lv_elicitations l)) \<Longrightarrow>
   mset (session_ids (s\<lparr>ss_live := Some l'\<rparr>)) \<subseteq># N + mset (session_ids s)"
proof -
  assume a: "ss_live s = Some l" "mset (responding_ids (lv_permissions l')) + mset (responding_ids (lv_elicitations l')) \<subseteq>#
     N + mset (responding_ids (lv_permissions l)) + mset (responding_ids (lv_elicitations l))"
  let ?h = "mset (option_list (turn_rpc_operation s)) + mset (option_list (map_option so_operation_id (ss_operation s)))"
  have "mset (session_ids (s\<lparr>ss_live := Some l'\<rparr>)) =
      ?h + (mset (responding_ids (lv_permissions l')) + mset (responding_ids (lv_elicitations l')))"
    by (simp add: session_ids_mset live_ids_def turn_rpc_operation_def turn_execution_of_def)
  also have "\<dots> \<subseteq># ?h + (N + mset (responding_ids (lv_permissions l)) + mset (responding_ids (lv_elicitations l)))"
    using a(2) by (intro subset_mset.add_left_mono)
  also have "\<dots> = N + mset (session_ids s)" using a(1) by (simp add: session_ids_mset live_ids_def ac_simps)
  finally show ?thesis .
qed
text \<open>An interaction that is asked, answered or resolved.\<close>

lemma live_kept_same:
  "lv_revision l' = lv_revision l \<Longrightarrow> lv_terminals l' = lv_terminals l \<Longrightarrow> lv_url_flows l' = lv_url_flows l \<Longrightarrow>
   (live_wf l \<Longrightarrow> live_wf l') \<Longrightarrow> live_kept rg l l'"
  by (simp add: live_kept_def)

lemma settled_shrinks:
  assumes "ss_live s = Some l" "shrinks l l'"
  shows "live_kept rg l l' \<and> ids_kept rg (session_ids s) (session_ids (s\<lparr>ss_live := Some l'\<rparr>))"
  using assms(2) session_ids_live [OF assms(1), of l' "{#}"] shrinks_ids [OF assms(2)]
  by (auto simp: shrinks_def ids_kept_def intro: live_kept_same)

lemma shrinks_new_permission:
  assumes "bt_get (lv_permissions l) i = None" "pi_responding_operation_id p = None"
  shows "shrinks l (l\<lparr>lv_permissions := bt_insert i p (lv_permissions l)\<rparr>)"
  using assms by (auto simp: shrinks_def responding_ids_new live_wf_def bt_wf_insert)

lemma shrinks_new_elicitation:
  assumes "bt_get (lv_elicitations l) i = None" "pi_responding_operation_id p = None"
  shows "shrinks l (l\<lparr>lv_elicitations := bt_insert i p (lv_elicitations l)\<rparr>)"
  using assms by (auto simp: shrinks_def responding_ids_new live_wf_def bt_wf_insert)

lemma settled_upsert_permission:
  assumes "ss_live s \<noteq> None" "\<not> in_cleanup s"
  shows "settled rg s (on_live (live_upsert_permission i request op) s)"
proof -
  obtain l where l: "ss_live s = Some l" using assms(1) by blast
  show ?thesis
    by (rule settled_on_live [OF l assms(2)])
       (use settled_shrinks [OF l shrinks_refl] settled_shrinks [OF l shrinks_new_permission] in
         \<open>auto simp: live_upsert_permission_def split: if_splits option.splits\<close>)
qed

lemma settled_upsert_elicitation:
  assumes "ss_live s \<noteq> None" "\<not> in_cleanup s"
  shows "settled rg s (on_live (live_upsert_elicitation i request op) s)"
proof -
  obtain l where l: "ss_live s = Some l" using assms(1) by blast
  show ?thesis
    by (rule settled_on_live [OF l assms(2)])
       (use settled_shrinks [OF l shrinks_refl] settled_shrinks [OF l shrinks_new_elicitation] in
         \<open>auto simp: live_upsert_elicitation_def new_interaction_def split: if_splits option.splits\<close>)
qed

lemma settled_resolve_permission:
  assumes "ss_live s \<noteq> None" "\<not> in_cleanup s"
  shows "settled rg s (on_live (live_resolve_permission i) s)"
    "settled rg s (on_live (live_complete_permission_response i op) s)"
proof -
  obtain l where l: "ss_live s = Some l" using assms(1) by blast
  note k = settled_shrinks [OF l shrinks_refl] settled_shrinks [OF l shrinks_remove(1)]
  show "settled rg s (on_live (live_resolve_permission i) s)"
    by (rule settled_on_live [OF l assms(2)])
       (use k in \<open>auto simp: live_resolve_permission_def try_in_def split: if_splits result.splits\<close>)
  show "settled rg s (on_live (live_complete_permission_response i op) s)"
    by (rule settled_on_live [OF l assms(2)])
       (use k in \<open>auto simp: live_complete_permission_response_def try_in_def split: if_splits result.splits\<close>)
qed

text \<open>Answering gives the interaction an operation of its own, which was in use nowhere.\<close>

lemma settled_respond:
  assumes "ss_live s = Some l" "live_wf l" "\<not> operation_in_use op rg"
    and "bt_get (lv_permissions l) i = Some p" "pi_responding_operation_id p = None"
  shows "live_kept rg l (l\<lparr>lv_permissions := bt_insert i (p\<lparr>pi_responding_operation_id := Some op\<rparr>) (lv_permissions l)\<rparr>) \<and>
    ids_kept rg (session_ids s) (session_ids (s\<lparr>ss_live := Some
      (l\<lparr>lv_permissions := bt_insert i (p\<lparr>pi_responding_operation_id := Some op\<rparr>) (lv_permissions l)\<rparr>)\<rparr>))"
  using assms responding_ids_old [of "lv_permissions l" i p "p\<lparr>pi_responding_operation_id := Some op\<rparr>"]
    session_ids_live [OF assms(1), of "l\<lparr>lv_permissions := bt_insert i (p\<lparr>pi_responding_operation_id := Some op\<rparr>) (lv_permissions l)\<rparr>" "{#op#}"]
  by (auto simp: live_wf_def bt_wf_insert ids_kept_def intro!: live_kept_same)

lemma settled_respond_elicitation:
  assumes "ss_live s = Some l" "live_wf l" "\<not> operation_in_use op rg"
    and "bt_get (lv_elicitations l) i = Some p" "pi_responding_operation_id p = None"
  shows "live_kept rg l (l\<lparr>lv_elicitations := bt_insert i (p\<lparr>pi_responding_operation_id := Some op\<rparr>) (lv_elicitations l)\<rparr>) \<and>
    ids_kept rg (session_ids s) (session_ids (s\<lparr>ss_live := Some
      (l\<lparr>lv_elicitations := bt_insert i (p\<lparr>pi_responding_operation_id := Some op\<rparr>) (lv_elicitations l)\<rparr>)\<rparr>))"
  using assms responding_ids_old [of "lv_elicitations l" i p "p\<lparr>pi_responding_operation_id := Some op\<rparr>"]
    session_ids_live [OF assms(1), of "l\<lparr>lv_elicitations := bt_insert i (p\<lparr>pi_responding_operation_id := Some op\<rparr>) (lv_elicitations l)\<rparr>" "{#op#}"]
  by (auto simp: live_wf_def bt_wf_insert ids_kept_def intro!: live_kept_same)

lemma settled_begin_permission:
  assumes "ss_live s = Some l" "\<not> in_cleanup s" "live_wf l"
  shows "settled rg s (on_live (live_begin_permission_response i op (operation_in_use op rg)) s)"
  by (rule settled_on_live [OF assms(1,2)])
     (use settled_shrinks [OF assms(1) shrinks_refl] settled_respond [OF assms(1,3)] in
       \<open>auto simp: live_begin_permission_response_def try_in_def split: if_splits result.splits option.splits\<close>)
lemma settled_accept_elicitation:
  assumes "ss_live s = Some l" "\<not> in_cleanup s" "pred_option (\<lambda>u. \<not> url_flow_in_use u rg) url"
  shows "settled rg s (on_live (live_accept_elicitation i url) s)"
proof -
  let ?l = "remove_elicitation i l"
  have r: "shrinks l ?l" by (rule shrinks_remove)
  have "live_kept rg l (?l\<lparr>lv_resolved_url_flows := rs, lv_url_flows := bt_insert u (new_url_flow u i q) (lv_url_flows ?l)\<rparr>) \<and>
      ids_kept rg (session_ids s) (session_ids (s\<lparr>ss_live := Some
        (?l\<lparr>lv_resolved_url_flows := rs, lv_url_flows := bt_insert u (new_url_flow u i q) (lv_url_flows ?l)\<rparr>)\<rparr>))"
    if "url = Some u" for u q rs
  proof -
    let ?l' = "?l\<lparr>lv_resolved_url_flows := rs, lv_url_flows := bt_insert u (new_url_flow u i q) (lv_url_flows ?l)\<rparr>"
    have "live_kept rg l ?l'"
      using assms(3) that
      by (auto simp: live_kept_def flows_kept_def bt_get_insert new_url_flow_def live_wf_def bt_wf_insert)
    moreover have "mset (session_ids (s\<lparr>ss_live := Some ?l'\<rparr>)) \<subseteq># {#} + mset (session_ids s)"
      by (rule session_ids_live [OF assms(1)]) (use shrinks_ids [OF r] in simp)
    ultimately show ?thesis by (simp add: ids_kept_sub)
  qed
  then show ?thesis
    by (intro settled_on_live [OF assms(1,2)])
       (use settled_shrinks [OF assms(1) r] in
         \<open>auto simp: live_accept_elicitation_def try_in_def Let_def split: if_splits result.splits option.splits\<close>)
qed

lemma settled_take_url_flow:
  assumes "ss_live s = Some l" "\<not> in_cleanup s" "all_waiting (lv_url_flows l)"
  shows "settled rg s (on_live (live_take_url_flow u) s) \<and>
    (\<forall>a s'. on_live (live_take_url_flow u) s = (Ok a, s') \<longrightarrow> a \<noteq> UrlApplied \<longrightarrow> s' = s)"
proof -
  let ?f = "live_take_url_flow u"
  have f: "?f l = (Ok UrlAlreadyTerminal, l) \<or> ?f l = (Err UnknownInteraction, l) \<or>
      (\<exists>rs. ?f l = (Ok UrlApplied, l\<lparr>lv_url_flows := bt_remove u (lv_url_flows l), lv_resolved_url_flows := rs\<rparr>))"
    using assms(3) by (cases "bt_get (lv_url_flows l) u") (auto simp: live_take_url_flow_def take_url_flow_def all_waiting_def)
  have "live_kept rg l (l\<lparr>lv_url_flows := bt_remove u (lv_url_flows l), lv_resolved_url_flows := rs\<rparr>)" for rs
    by (auto simp: live_kept_def flows_kept_def bt_get_remove live_wf_def)
  moreover have "session_ids (s\<lparr>ss_live := Some (l\<lparr>lv_url_flows := bt_remove u (lv_url_flows l), lv_resolved_url_flows := rs\<rparr>)\<rparr>)
      = session_ids s" for rs
    using assms(1) by (simp add: session_ids_def live_ids_def turn_rpc_operation_def turn_execution_of_def)
  ultimately have "settled rg s (on_live ?f s)"
    by (intro settled_on_live [OF assms(1,2)]) (use f settled_shrinks [OF assms(1) shrinks_refl] in \<open>auto\<close>)
  moreover have "s\<lparr>ss_live := Some l\<rparr> = s" using assms(1) by simp
  ultimately show ?thesis using f assms(1) by (auto simp: on_live_def)
qed

section \<open>The calls on an owner\<close>

lemma sessions_wfD:
  "sessions_wf rg \<Longrightarrow> bt_wf (rg_sessions rg)"
  "sessions_wf rg \<Longrightarrow> state_of sid rg = Some s \<Longrightarrow> ss_live s = Some l \<Longrightarrow> live_wf l"
  by (auto simp: sessions_wf_def)

lemma on_live_unchanged:
  assumes "ss_live s = Some l" "\<And>a. fst (f l) = Ok a \<Longrightarrow> a \<noteq> applied \<Longrightarrow> snd (f l) = l"
  shows "\<forall>a s'. on_live f s = (Ok a, s') \<longrightarrow> a \<noteq> applied \<longrightarrow> s' = s"
proof -
  have "s\<lparr>ss_live := Some l\<rparr> = s" using assms(1) by simp
  with assms show ?thesis by (auto simp: on_live_def split: prod.splits)
qed

lemma interaction_upsert_ne: "a \<noteq> UpsertInserted \<longleftrightarrow> a = UpsertDuplicate \<or> a = UpsertAlreadyResolved"
  by (cases a) auto

lemma outcome_permissions:
  assumes "sessions_wf rg"
  shows "outcome E rg (upsert_permission E ep sid inc i request rg)"
    "outcome E rg (resolve_permission E ep sid inc i rg)"
    "outcome E rg (begin_permission_response E ep sid inc i op rg)"
    "outcome E rg (complete_permission_response E ep sid inc i op rg)"
proof -
  note wf = sessions_wfD [OF assms]
  show "outcome E rg (upsert_permission E ep sid inc i request rg)" unfolding upsert_permission_def
  proof (intro outcome_intros wf(1) conjI)
    fix s assume s: "ss_live s \<noteq> None" "\<not> in_cleanup s"
    then show "settled rg s (on_live (live_upsert_permission i request (turn_rpc_operation s)) s)"
      by (rule settled_upsert_permission)
    from s obtain l where "ss_live s = Some l" by blast
    then show "\<forall>a s'. on_live (live_upsert_permission i request (turn_rpc_operation s)) s = (Ok a, s') \<longrightarrow>
        a \<noteq> UpsertInserted \<longrightarrow> s' = s"
      by (rule on_live_unchanged) (auto simp: live_upsert_permission_def split: if_splits option.splits)
  qed simp_all
  show "outcome E rg (resolve_permission E ep sid inc i rg)" unfolding resolve_permission_def
  proof (intro outcome_intros wf(1) conjI)
    fix s assume s: "ss_live s \<noteq> None" "\<not> in_cleanup s"
    then show "settled rg s (on_live (live_resolve_permission i) s)" by (rule settled_resolve_permission)
    from s obtain l where "ss_live s = Some l" by blast
    then show "\<forall>a s'. on_live (live_resolve_permission i) s = (Ok a, s') \<longrightarrow> a \<noteq> ResolutionApplied \<longrightarrow> s' = s"
      by (rule on_live_unchanged) (auto simp: live_resolve_permission_def try_in_def split: if_splits result.splits)
  qed simp_all
  show "outcome E rg (begin_permission_response E ep sid inc i op rg)" unfolding begin_permission_response_def
  proof (intro outcome_intros wf(1) conjI)
    fix s assume s: "state_of sid rg = Some s" "ss_live s \<noteq> None" "\<not> in_cleanup s"
    then obtain l where l: "ss_live s = Some l" by blast
    show "settled rg s (on_live (live_begin_permission_response i op (operation_in_use op rg)) s)"
      by (rule settled_begin_permission [OF l s(3) wf(2) [OF s(1) l]])
    show "\<forall>a s'. on_live (live_begin_permission_response i op (operation_in_use op rg)) s = (Ok a, s') \<longrightarrow>
        a \<noteq> ResponseApplied \<longrightarrow> s' = s"
      by (rule on_live_unchanged [OF l])
         (auto simp: live_begin_permission_response_def try_in_def split: if_splits result.splits option.splits)
  qed simp_all
  show "outcome E rg (complete_permission_response E ep sid inc i op rg)" unfolding complete_permission_response_def
  proof (intro outcome_intros wf(1) conjI)
    fix s assume s: "ss_live s \<noteq> None" "\<not> in_cleanup s"
    then show "settled rg s (on_live (live_complete_permission_response i op) s)" by (rule settled_resolve_permission)
    from s obtain l where "ss_live s = Some l" by blast
    then show "\<forall>a s'. on_live (live_complete_permission_response i op) s = (Ok a, s') \<longrightarrow>
        a \<noteq> ResolutionApplied \<longrightarrow> s' = s"
      by (rule on_live_unchanged) (auto simp: live_complete_permission_response_def try_in_def split: if_splits result.splits)
  qed simp_all
qed
lemma outcome_owner_publish:
  assumes "bt_wf (rg_sessions rg)"
    and "\<And>s. state_of sid rg = Some s \<Longrightarrow> ss_incarnation s = inc \<Longrightarrow> ss_live s \<noteq> None \<Longrightarrow> \<not> in_cleanup s \<Longrightarrow>
      settled rg s (f s)"
    and "\<And>a rg1. rg_journal rg1 = rg_journal rg \<Longrightarrow> \<exists>j. g a rg1 = (add_effects (fx a) rg1)\<lparr>rg_journal := j\<rparr> \<and> journal_before rg j"
  shows "outcome E rg (call_then (with_owner sid inc f rg) (\<lambda>a rg1. publish E sid b (g a rg1)))"
proof (rule with_owner_cases [of rg sid inc f, OF assms(1,2)], goal_cases)
  case (6 s a s')
  note 2 = this
  obtain j where j: "g a (put_state sid s' rg) = (add_effects (fx a) (put_state sid s' rg))\<lparr>rg_journal := j\<rparr>" "journal_before rg j"
    using assms(3) [of "put_state sid s' rg" a] by (auto simp: registry_simps)
  have st: "state_of sid ((add_effects (fx a) (put_state sid s' rg))\<lparr>rg_journal := j\<rparr>) = Some s'"
    using 2(8) by (simp add: registry_simps)
  show ?thesis
    by (simp add: 2(7) j(1) outcome_def publish_eq [OF st 2(6)] rs_upsert [OF 2(1,3,5,6) j(2)])
qed simp_all

lemma outcome_owner_publish_simple:
  assumes "bt_wf (rg_sessions rg)"
    and "\<And>s. state_of sid rg = Some s \<Longrightarrow> ss_incarnation s = inc \<Longrightarrow> ss_live s \<noteq> None \<Longrightarrow> \<not> in_cleanup s \<Longrightarrow>
      settled rg s (f s)"
  shows "outcome E rg (call_then (with_owner sid inc f rg) (\<lambda>a rg1. publish E sid b rg1))"
proof (rule outcome_owner_publish [where g = "\<lambda>_ rg1. rg1" and fx = "\<lambda>_. []", OF assms])
  show "\<exists>j. rg1 = (add_effects [] rg1)\<lparr>rg_journal := j\<rparr> \<and> journal_before rg j"
    if "rg_journal rg1 = rg_journal rg" for rg1
    using that by (intro exI [of _ "rg_journal rg1"]) (simp add: journal_before_def)
qed simp_all

lemma connection_step:
  assumes "flows_kept rg (rg_request_url_flows rg) (rg_request_url_flows rg1)"
    and "ids_kept rg (responding_ids (rg_request_elicitations rg)) (responding_ids (rg_request_elicitations rg1))"
    and "rg1 = rg\<lparr>rg_request_elicitations := rg_request_elicitations rg1, rg_request_url_flows := rg_request_url_flows rg1,
      rg_resolved_request_elicitations := rg_resolved_request_elicitations rg1,
      rg_resolved_request_url_flows := rg_resolved_request_url_flows rg1\<rparr>"
    and "bt_wf (rg_request_elicitations rg) \<longrightarrow> bt_wf (rg_request_url_flows rg) \<longrightarrow>
      bt_wf (rg_request_elicitations rg1) \<and> bt_wf (rg_request_url_flows rg1)"
  shows "outcome E rg (Ok a, commit_connection E rg1)"
proof -
  have "runtime_step E rg (commit_connection E rg1)"
    by (subst assms(3)) (rule rs_connection [OF assms(1,2,4)])
  then show ?thesis by (simp add: outcome_def)
qed

lemma request_map_step:
  assumes "ids_kept rg (responding_ids (rg_request_elicitations rg)) (responding_ids m)"
    and "bt_wf (rg_request_elicitations rg) \<longrightarrow> bt_wf m"
  shows "outcome E rg (Ok a, commit_connection E (rg\<lparr>rg_request_elicitations := m\<rparr>))"
  by (rule connection_step) (use assms in simp_all)

lemma scope_elicitations_no_panic [simp]:
  "scope_elicitations scope rg \<noteq> Panic" "scope_resolved_elicitations scope rg \<noteq> Panic" "scope_url_flows scope rg \<noteq> Panic"
  by (cases scope; cases "require_live (fst (the scope)) (snd (the scope)) rg"; 
      auto simp: scope_elicitations_def scope_resolved_elicitations_def scope_url_flows_def)+

lemma scope_responding_no_panic [simp]: "scope_responding scope i rg \<noteq> Panic"
proof (cases "scope_elicitations scope rg")
  case (Ok m)
  then show ?thesis by (cases "bt_get m i") (simp_all add: scope_responding_def)
qed (simp_all add: scope_responding_def)

lemma outcome_upsert_elicitation:
  assumes "sessions_wf rg"
  shows "outcome E rg (upsert_elicitation E ep scope i request rg)"
proof -
  note wf = sessions_wfD [OF assms]
  have "outcome E rg (request_upsert_elicitation E i request rg)"
  proof (cases "bt_get (rg_request_elicitations rg) i")
    case None
    let ?m = "bt_insert i (new_interaction i request None) (rg_request_elicitations rg)"
    have "mset (responding_ids ?m) = mset (responding_ids (rg_request_elicitations rg))"
      using None by (simp add: responding_ids_new new_interaction_def)
    then have "outcome E rg (Ok UpsertInserted :: (runtime_error, interaction_upsert) result, commit_connection E (rg\<lparr>rg_request_elicitations := ?m\<rparr>))"
      by (intro request_map_step ids_kept_sub) (simp_all add: bt_wf_insert)
    with None show ?thesis by (simp add: request_upsert_elicitation_def)
  qed (simp add: request_upsert_elicitation_def)
  moreover have "outcome E rg (live_op E sid inc UpsertInserted
      (\<lambda>s. on_live (live_upsert_elicitation i request (turn_rpc_operation s)) s) rg)" for sid inc
  proof (intro outcome_intros wf(1) conjI)
    fix s assume s: "ss_live s \<noteq> None" "\<not> in_cleanup s"
    then show "settled rg s (on_live (live_upsert_elicitation i request (turn_rpc_operation s)) s)"
      by (rule settled_upsert_elicitation)
    from s obtain l where "ss_live s = Some l" by blast
    then show "\<forall>a s'. on_live (live_upsert_elicitation i request (turn_rpc_operation s)) s = (Ok a, s') \<longrightarrow>
        a \<noteq> UpsertInserted \<longrightarrow> s' = s"
      by (rule on_live_unchanged) (auto simp: live_upsert_elicitation_def split: if_splits option.splits)
  qed
  ultimately show ?thesis
    unfolding upsert_elicitation_def by (intro outcome_intros) (auto split: option.split)
qed

lemma outcome_resolve_elicitation:
  assumes "sessions_wf rg"
  shows "outcome E rg (resolve_elicitation E ep scope i url rg)"
  unfolding resolve_elicitation_def
proof (intro outcome_intros)
  assume u: "\<not> (case url of Some url \<Rightarrow> url_flow_in_use url rg | None \<Rightarrow> False)"
  then have url: "pred_option (\<lambda>u. \<not> url_flow_in_use u rg) url" by (cases url) auto
  have "outcome E rg (call_then (request_accept_elicitation E i url rg) (\<lambda>_ rg1. (Ok ResolutionApplied, rg1)))"
  proof (cases "bt_get (rg_request_elicitations rg) i")
    case (Some p)
    let ?m = "bt_remove i (rg_request_elicitations rg)"
    have k: "ids_kept rg (responding_ids (rg_request_elicitations rg)) (responding_ids ?m)"
      by (intro ids_kept_sub responding_ids_remove)
    show ?thesis
    proof (cases url)
      case None
      then show ?thesis
        using Some k by (simp add: request_accept_elicitation_def Let_def) (rule connection_step; simp)
    next
      case (Some u)
      have "flows_kept rg (rg_request_url_flows rg) (bt_insert u (new_url_flow u i (pi_request p)) (rg_request_url_flows rg))"
        using url Some by (auto simp: flows_kept_def bt_get_insert new_url_flow_def)
      then show ?thesis
        using Some \<open>bt_get (rg_request_elicitations rg) i = Some p\<close> k
        by (simp add: request_accept_elicitation_def Let_def) (rule connection_step; simp add: bt_wf_insert)
    qed
  qed (simp add: request_accept_elicitation_def)
  moreover have "outcome E rg (call_then (with_owner sid inc (on_live (live_accept_elicitation i url)) rg)
      (\<lambda>_ rg1. publish E sid ResolutionApplied rg1))" for sid inc
  proof (rule outcome_owner_publish_simple [OF sessions_wfD(1) [OF assms]])
    fix s assume s: "ss_live s \<noteq> None" "\<not> in_cleanup s"
    then obtain l where "ss_live s = Some l" by blast
    then show "settled rg s (on_live (live_accept_elicitation i url) s)" by (rule settled_accept_elicitation [OF _ s(2) url])
  qed
  ultimately show "outcome E rg (case scope of
      None \<Rightarrow> call_then (request_accept_elicitation E i url rg) (\<lambda>_ rg1. (Ok ResolutionApplied, rg1))
    | Some (sid, inc) \<Rightarrow> call_then (with_owner sid inc (on_live (live_accept_elicitation i url)) rg)
        (\<lambda>_ rg1. publish E sid ResolutionApplied rg1))"
    by (auto split: option.split)
qed simp_all
lemma respond_with_Some:
  "respond_with i op m = Some m' \<longleftrightarrow>
     (\<exists>p. bt_get m i = Some p \<and> m' = bt_insert i (p\<lparr>pi_responding_operation_id := Some op\<rparr>) m)"
  by (auto simp: respond_with_def)

lemma scope_responding_Ok:
  "scope_responding scope i rg = Ok r \<longleftrightarrow>
     (\<exists>m p. scope_elicitations scope rg = Ok m \<and> bt_get m i = Some p \<and> r = pi_responding_operation_id p)"
  by (auto simp: scope_responding_def)

lemma outcome_begin_elicitation:
  assumes "sessions_wf rg"
  shows "outcome E rg (begin_elicitation_response E ep scope i op rg)"
proof -
  note wf = sessions_wfD [OF assms]
  have request: "outcome E rg (try_in rg (ok_or UnknownInteraction (respond_with i op (rg_request_elicitations rg)))
      (\<lambda>m. (Ok ResponseApplied, commit_connection E (rg\<lparr>rg_request_elicitations := m\<rparr>))))"
    if r: "scope_responding None i rg = Ok None" and u: "\<not> operation_in_use op rg"
  proof -
    obtain p where p: "bt_get (rg_request_elicitations rg) i = Some p" "pi_responding_operation_id p = None"
      using r by (auto simp: scope_responding_Ok scope_elicitations_def)
    let ?m = "bt_insert i (p\<lparr>pi_responding_operation_id := Some op\<rparr>) (rg_request_elicitations rg)"
    have "mset (responding_ids ?m) = add_mset op (mset (responding_ids (rg_request_elicitations rg)))"
      using responding_ids_old [OF _ p] assms by (simp add: sessions_wf_def)
    then have "ids_kept rg (responding_ids (rg_request_elicitations rg)) (responding_ids ?m)"
      using u by (auto simp: ids_kept_def)
    from request_map_step [OF this] p(1) show ?thesis by (simp add: respond_with_def bt_wf_insert)
  qed
  have owner: "outcome E rg (call_then (with_owner sid inc (on_live (\<lambda>l.
      try_in l (ok_or UnknownInteraction (respond_with i op (lv_elicitations l)))
        (\<lambda>m. (Ok (), l\<lparr>lv_elicitations := m\<rparr>)))) rg) (\<lambda>_ rg1. publish E sid ResponseApplied rg1))"
    if r: "scope_responding (Some (sid, inc)) i rg = Ok None" and u: "\<not> operation_in_use op rg" for sid inc
  proof (rule outcome_owner_publish_simple [OF wf(1)])
    fix s assume s: "state_of sid rg = Some s" "ss_incarnation s = inc" "\<not> in_cleanup s" "ss_live s \<noteq> None"
    obtain l p where l: "ss_live s = Some l" "bt_get (lv_elicitations l) i = Some p" "pi_responding_operation_id p = None"
      using r s(1) by (auto simp: scope_responding_Ok scope_elicitations_def require_live_Ok)
    show "settled rg s (on_live (\<lambda>l. try_in l (ok_or UnknownInteraction (respond_with i op (lv_elicitations l)))
        (\<lambda>m. (Ok (), l\<lparr>lv_elicitations := m\<rparr>))) s)"
      by (rule settled_on_live [OF l(1) s(3)])
         (use settled_respond_elicitation [OF l(1) wf(2) [OF s(1) l(1)] u l(2,3)] l(2) in
           \<open>auto simp: respond_with_def\<close>)
  qed
  show ?thesis unfolding begin_elicitation_response_def
    by (intro outcome_intros; (simp; fail)?)
       (use request owner in \<open>auto split: option.split\<close>)
qed

lemma outcome_complete_elicitation:
  assumes "sessions_wf rg"
  shows "outcome E rg (complete_elicitation_response E ep scope i op url rg)"
  unfolding complete_elicitation_response_def
  by (intro outcome_intros outcome_resolve_elicitation [OF assms]) simp_all

lemma outcome_settle_url:
  assumes "sessions_wf rg" "flows_waiting rg"
  shows "outcome E rg (settle_url_registration E ep scope u r status rg)"
proof -
  have request: "outcome E rg (case take_url_flow u (rg_request_url_flows rg, rg_resolved_request_url_flows rg) of
      (r, flows, resolved) \<Rightarrow>
        call_then (r, rg\<lparr>rg_request_url_flows := flows, rg_resolved_request_url_flows := resolved\<rparr>)
          (\<lambda>outcome rg1. (Ok outcome, if outcome = UrlApplied then commit_connection E rg1 else rg1)))"
  proof -
    have same: "rg\<lparr>rg_request_url_flows := rg_request_url_flows rg,
        rg_resolved_request_url_flows := rg_resolved_request_url_flows rg\<rparr> = rg" by simp
    have w: "all_waiting (rg_request_url_flows rg)" using assms(2) by (simp add: flows_waiting_def)
    have "flows_kept rg (rg_request_url_flows rg) (bt_remove u (rg_request_url_flows rg))"
      by (simp add: flows_kept_def bt_get_remove)
    then have "outcome E rg (Ok UrlApplied, commit_connection E (rg\<lparr>rg_request_url_flows :=
        bt_remove u (rg_request_url_flows rg), rg_resolved_request_url_flows := rs\<rparr>))" for rs
      by (intro connection_step) simp_all
    with w same show ?thesis
      by (cases "bt_get (rg_request_url_flows rg) u") (auto simp: take_url_flow_def all_waiting_def)
  qed
  have owner: "outcome E rg (live_op E sid inc UrlApplied (on_live (live_take_url_flow u)) rg)" for sid inc
  proof (rule outcome_live_op [OF sessions_wfD(1) [OF assms(1)]])
    fix s assume s: "state_of sid rg = Some s" "ss_live s \<noteq> None" "\<not> in_cleanup s"
    then obtain l where l: "ss_live s = Some l" by blast
    have "all_waiting (lv_url_flows l)" using assms(2) s(1) l by (auto simp: flows_waiting_def)
    from settled_take_url_flow [OF l s(3) this]
    show "settled rg s (on_live (live_take_url_flow u) s) \<and>
        (\<forall>a s'. on_live (live_take_url_flow u) s = (Ok a, s') \<longrightarrow> a \<noteq> UrlApplied \<longrightarrow> s' = s)" .
  qed
  have "outcome E rg (settle_url_flow E ep scope u status rg)"
    unfolding settle_url_flow_def by (intro outcome_intros) (use request owner in \<open>auto split: option.split\<close>)
  then show ?thesis
    unfolding settle_url_registration_def by (intro outcome_intros) simp_all
qed

lemma terminal_record_total:
  "as_object terminal \<noteq> None \<Longrightarrow> fold_terminal_snapshot E previous terminal \<noteq> None"
  by (rule fold_terminal_snapshot_total) simp

lemma outcome_upsert_terminal:
  assumes "as_object terminal \<noteq> None" "json_wf terminal"
  shows "outcome E rg (upsert_terminal E ep sid inc tid terminal rg)"
  unfolding upsert_terminal_def Let_def
proof (intro outcome_intros; (simp add: require_live_owner_Ok; fail)?)
  fix owner live materialized
  assume a: "require_live_owner sid inc rg = Ok owner" "ss_live owner = Some live"
    "tid \<notin> set (lv_released_terminals live)"
    "fold_terminal_snapshot E (bt_get (lv_terminals live) tid) terminal = Some materialized"
  let ?l = "if terminal_released terminal
      then live\<lparr>lv_terminals := bt_remove tid (lv_terminals live),
        lv_released_terminals := remember_resolved_interaction tid (lv_released_terminals live)\<rparr>
      else live\<lparr>lv_terminals := bt_insert tid materialized (lv_terminals live)\<rparr>"
  have "lv_revision ?l = lv_revision live" by simp
  from rs_terminal [OF _ _ a(2) _ a(3) assms(2) a(4) refl refl, of sid rg inc] a(1) this
  show "outcome E rg (Ok (if bt_get (lv_terminals live) tid = None then TerminalInserted else TerminalReplaced),
      commit_delta E (Some (next_revision (lv_revision ?l)))
        (TerminalUpdated sid inc (next_revision (lv_revision ?l)) tid terminal)
        (put_state sid (owner\<lparr>ss_live := Some (?l\<lparr>lv_revision := next_revision (lv_revision ?l)\<rparr>)\<rparr>) rg))"
    by (simp add: require_live_owner_Ok outcome_def)
qed (use terminal_record_total [OF assms(1)] in \<open>auto simp: require_live_owner_Ok\<close>)
section \<open>Operations and reloads\<close>

lemma operation_in_use_reserved:
  assumes "\<not> operation_in_use_except_reserved op (Some (sid, inc, kind)) rg"
    and "state_of sid rg = Some s" "ss_operation s = None"
    and "\<And>k t. state_of k rg = Some t \<Longrightarrow> ss_session_id t = k"
    and "bt_wf (rg_sessions rg)"
  shows "\<not> operation_in_use op rg"
proof -
  have "\<not> (case ss_operation (en_state e) of None \<Rightarrow> False
      | Some p \<Rightarrow> ss_session_id (en_state e) = sid \<and> ss_incarnation (en_state e) = inc \<and>
          so_kind p = kind \<and> so_stage p = ''reserved'')" if e: "(k, e) \<in> set (rg_sessions rg)" for k e
  proof -
    have "bt_get (rg_sessions rg) k = Some e"
      using assms(5) e by (auto simp: bt_wf_def bt_get_def strict_sorted_iff intro: map_of_is_SomeI)
    then have st: "state_of k rg = Some (en_state e)" by (simp add: state_of_def entry_of_def)
    then have "ss_session_id (en_state e) = k" by (rule assms(4))
    with st assms(2,3) show ?thesis by (auto split: option.splits)
  qed
  then show ?thesis
    using assms(1)
    by (fastforce simp: operation_in_use_def operation_in_use_except_reserved_def Let_def list_ex_iff split: option.splits)
qed

text \<open>What the operations need of the registry: ordered maps, waiting flows, sessions under their id.\<close>

definition runtime_ok :: "session_registry \<Rightarrow> bool" where
  "runtime_ok rg \<longleftrightarrow> sessions_wf rg \<and> flows_waiting rg \<and> (\<forall>k t. state_of k rg = Some t \<longrightarrow> ss_session_id t = k)"

lemma runtime_okD:
  assumes "runtime_ok rg"
  shows "sessions_wf rg" "flows_waiting rg" "bt_wf (rg_sessions rg)"
    "state_of k rg = Some t \<Longrightarrow> ss_session_id t = k"
    "state_of k rg = Some t \<Longrightarrow> ss_live t = Some l \<Longrightarrow> live_wf l"
  using assms by (auto simp: runtime_ok_def sessions_wf_def)

lemma outcome_start_operation:
  assumes "runtime_ok rg"
  shows "outcome E rg (start_operation E ep sid inc op kind stage rg)"
  unfolding start_operation_def
proof (intro outcome_intros runtime_okD(3) [OF assms])
  fix s
  assume u: "\<not> operation_in_use_except_reserved op (Some (sid, inc, kind)) rg"
    and s: "state_of sid rg = Some s" "ss_live s \<noteq> None" "\<not> in_cleanup s"
  show "settled rg s (live_start_operation op kind stage s)"
    by (rule settled_start_operation [OF s(2,3)])
       (rule operation_in_use_reserved [OF u s(1) _ runtime_okD(4,3) [OF assms]])
qed simp_all

lemma outcome_start_delete:
  assumes "runtime_ok rg"
  shows "outcome E rg (start_delete E ep sid inc op rg)" "outcome E rg (start_direct_delete E ep sid inc op rg)"
  unfolding start_delete_def start_direct_delete_def
  by (intro outcome_intros; simp add: outcome_start_operation [OF assms] split: session_lifecycle.split)+

lemma outcome_start_reload:
  assumes "runtime_ok rg"
  shows "outcome E rg (start_reload E ep sid inc op kind rg)"
  unfolding start_reload_def
proof (intro outcome_intros runtime_okD(3) [OF assms])
  fix s
  assume u: "\<not> operation_in_use_except_reserved op (Some (sid, inc, kind)) rg"
    and s: "state_of sid rg = Some s" "ss_live s \<noteq> None" "\<not> in_cleanup s"
  obtain l where l: "ss_live s = Some l" using s(2) by blast
  have fresh: "ss_operation s = None \<Longrightarrow> \<not> operation_in_use op rg"
    by (rule operation_in_use_reserved [OF u s(1) _ runtime_okD(4,3) [OF assms]])
  show "settled rg s (reload_start op kind s)" unfolding reload_start_def
    apply (intro outcome_intros; (simp add: map_err_def l split: result.split; fail)?)
    apply (rule settled_fields [OF _ l], simp)
    using fresh l
             apply (auto simp: live_wf_def operation_kept_def reserved_by_def split: option.splits if_splits)
    done
qed simp_all

lemma extract_control_state_wf: "extract_control_state entries = Some m \<Longrightarrow> bt_wf m"
proof -
  have "extract_control_state_from controls entries = Some m \<Longrightarrow> bt_wf controls \<Longrightarrow> bt_wf m" for controls
    by (induction entries arbitrary: controls) (auto split: option.splits intro: bt_wf_insert)
  then show "extract_control_state entries = Some m \<Longrightarrow> bt_wf m"
    by (simp add: extract_control_state_def bt.wf_nil)
qed

lemma fold_insert_wf: "bt_wf m \<Longrightarrow> bt_wf (fold (\<lambda>e. bt_insert (fst e) (snd e)) es m)"
  by (induction es arbitrary: m) (auto intro: bt_wf_insert)

lemma outcome_end_reload:
  assumes "runtime_ok rg"
  shows "outcome E rg (complete_reload E ep sid inc op response rg)" "outcome E rg (fail_reload E ep sid inc op rg)"
    "outcome E rg (complete_attachment E ep sid inc op kind response rg)"
    "outcome E rg (complete_operation E ep sid inc op kind rg)"
    "outcome E rg (complete_control_operation E ep sid inc op kind key update rg)"
    "outcome E rg (fail_operation E ep sid inc op kind rg)"
    "outcome E rg (synchronize_loaded_session E ep sid inc response replay rg)"
proof -
  note wf = runtime_okD(3) [OF assms]
  have none: "settled rg s (Ok (), s\<lparr>ss_operation := None, ss_live := Some l'\<rparr>)"
    if "ss_live s = Some l" "lv_revision l' = lv_revision l" "lv_terminals l' = lv_terminals l"
      "lv_url_flows l' = lv_url_flows l" "lv_permissions l' = lv_permissions l" "lv_elicitations l' = lv_elicitations l"
      "live_wf l \<Longrightarrow> live_wf l'" for s l l'
    by (rule settled_fields [OF _ that(1)], simp) (use that in simp_all)
  show "outcome E rg (complete_reload E ep sid inc op response rg)" unfolding complete_reload_def
    by (intro outcome_intros wf; (simp add: extract_control_state_total; fail)?; (rule none)?;
        (auto simp: live_wf_def dest: extract_control_state_wf; fail)?)
  show "outcome E rg (fail_reload E ep sid inc op rg)" unfolding fail_reload_def
    by (intro outcome_intros wf; (simp; fail)?; (rule none)?; (auto simp: live_wf_def; fail)?)
  show "outcome E rg (complete_attachment E ep sid inc op kind response rg)" unfolding complete_attachment_def
    by (intro outcome_intros wf; (simp add: extract_control_state_total; fail)?; (rule none)?;
        (auto simp: live_wf_def intro!: fold_insert_wf; fail)?)
  show "outcome E rg (complete_control_operation E ep sid inc op kind key update rg)"
    unfolding complete_control_operation_def
    by (intro outcome_intros wf; (simp; fail)?; (rule none)?; (auto simp: live_wf_def intro!: bt_wf_insert; fail)?)
  show "outcome E rg (fail_operation E ep sid inc op kind rg)" unfolding fail_operation_def
    by (intro outcome_intros wf; (simp; fail)?; (rule none)?; (auto simp: live_wf_def; fail)?)
  show "outcome E rg (complete_operation E ep sid inc op kind rg)" unfolding complete_operation_def
  proof (intro outcome_intros wf)
    fix s :: session_state assume "ss_live s \<noteq> None"
    then obtain l where l: "ss_live s = Some l" by blast
    have "s\<lparr>ss_operation := None, ss_live := Some l\<rparr> = s\<lparr>ss_operation := None\<rparr>" using l by simp
    with none [of s l l] l show "settled rg s (Ok (), s\<lparr>ss_operation := None\<rparr>)" by simp
  qed simp
  show "outcome E rg (synchronize_loaded_session E ep sid inc response replay rg)"
    unfolding synchronize_loaded_session_def
  proof (intro outcome_intros wf; (simp add: extract_control_state_total; fail)?)
    fix controls s live assume a: "extract_control_state replay = Some controls" "ss_live s = Some live" "\<not> in_cleanup s"
    show "settled rg s (Ok (), s\<lparr>ss_live := Some (live\<lparr>lv_session := retain_session_metadata sid response,
        lv_control_state := controls\<rparr>)\<rparr>)"
      by (rule settled_fields [OF _ a(2)], simp)
         (use a extract_control_state_wf [OF a(1)] in \<open>simp_all add: live_wf_def\<close>)
  qed
qed

lemma drained_fields [simp]:
  "snd (drain_session_liveness sid inc l) =
     l\<lparr>lv_permissions := [], lv_elicitations := [], lv_url_flows := [], lv_terminals := []\<rparr>"
  by (simp add: drain_session_liveness_def)

lemma responding_ids_nil [simp]: "responding_ids [] = []"
  by (simp add: responding_ids_def map_filter_simps)

lemma same_rest_stop [simp]: "same_rest s s' \<Longrightarrow> same_rest s (stop_execution s')"
  by (simp add: stop_execution_def)

lemma stop_execution_fields [simp]:
  "ss_live (stop_execution s) = ss_live s" "ss_operation (stop_execution s) = ss_operation s"
  "in_cleanup (stop_execution s) = in_cleanup s"
  "ss_active_turn (stop_execution s) = map_option (\<lambda>t. t\<lparr>ov_execution := None\<rparr>) (ss_active_turn s)"
  by (simp_all add: stop_execution_def)

lemma settled_drain:
  assumes "ss_live s' = Some l'" "ss_live s = Some l" "same_rest s s'" "lv_revision l' = lv_revision l"
    and "turn_kept (ss_active_turn s) (ss_active_turn s')" "operation_kept rg (ss_operation s) (ss_operation s')"
    and "live_wf l \<Longrightarrow> bt_wf (lv_control_state l')" "\<not> (lv_lifecycle l' = Closed \<and> in_cleanup s')"
  shows "settled rg s (drain_owner sid inc s')"
proof -
  have "drain_owner sid inc s' = (Ok (liveness_effects sid inc l'), s'\<lparr>ss_live := Some
      (l'\<lparr>lv_permissions := [], lv_elicitations := [], lv_url_flows := [], lv_terminals := []\<rparr>)\<rparr>)"
    using assms(1) by (simp add: drain_owner_def drain_session_liveness_def)
  moreover have "settled rg s (Ok (liveness_effects sid inc l'), s'\<lparr>ss_live := Some
      (l'\<lparr>lv_permissions := [], lv_elicitations := [], lv_url_flows := [], lv_terminals := []\<rparr>)\<rparr>)"
    by (rule settled_fields [OF _ assms(2)], simp) (use assms in \<open>simp_all add: live_wf_def bt.wf_nil\<close>)
  ultimately show ?thesis by simp
qed

lemma effects_only:
  "rg_journal rg1 = rg_journal rg \<Longrightarrow>
   \<exists>j. add_effects fx rg1 = (add_effects fx rg1)\<lparr>rg_journal := j\<rparr> \<and> journal_before rg j"
  by (intro exI [of _ "rg_journal rg1"]) (simp add: journal_before_def add_effects_def)

lemma outcome_drains:
  assumes "runtime_ok rg"
  shows "outcome E rg (delete_close_succeeded E ep sid inc op rg)"
    "outcome E rg (mark_operation_uncertain E ep sid inc op reason rg)"
proof -
  note wf = runtime_okD(3) [OF assms]
  show "outcome E rg (delete_close_succeeded E ep sid inc op rg)" unfolding delete_close_succeeded_def
    apply (intro outcome_intros outcome_owner_publish [where fx = "\<lambda>a. a", OF wf]; (simp add: effects_only; fail)?)
    apply (rule settled_drain, simp)
          apply (auto simp: operation_kept_def live_wf_def)
    done
  show "outcome E rg (mark_operation_uncertain E ep sid inc op reason rg)" unfolding mark_operation_uncertain_def
    apply (intro outcome_intros outcome_owner_publish [where fx = "\<lambda>a. a", OF wf]; (simp add: effects_only; fail)?)
    apply (rule settled_drain, simp)
          apply (auto simp: operation_kept_def live_wf_def)
    done
qed
section \<open>Attachments and removals\<close>

lemma bt_insert_twice: "bt_insert k v (bt_insert k w m) = bt_insert k v m"
  by (induction k w m rule: bt_insert.induct) auto

lemma put_state_twice: "put_state sid s (put_state sid s' rg) = put_state sid s rg"
proof (cases "entry_of sid rg")
  case (Some e)
  then show ?thesis by (simp add: put_state_def put_entry_def entry_of_def bt_get_insert bt_insert_twice)
qed (simp add: put_state_def)

lemma session_view_candidate:
  "ss_live s = Some l \<Longrightarrow> session_view (s\<lparr>ss_live := Some
     (l\<lparr>lv_attachment_candidate := c, lv_attachment_candidate_bytes := n\<rparr>)\<rparr>) = session_view s"
  by (simp add: session_view_def active_turn_of_def)

lemma owner_change_refl: "ss_live s = Some l \<Longrightarrow> owner_change rg s s"
  by (auto simp: owner_change_iff live_kept_def)

lemma outcome_append_candidate:
  assumes "runtime_ok rg"
  shows "outcome E rg (append_attachment_candidate E ep sid inc update rg)"
  unfolding append_attachment_candidate_def
proof (rule outcome_try)
  show "outcome E rg (with_owner sid inc (\<lambda>s. expect_in s (ss_live s) (\<lambda>live.
      if \<not> collects_controls s live then (Err OperationMismatch, s)
      else case retain_control_update update of
        None \<Rightarrow> (Ok (), s)
      | Some u \<Rightarrow> (Ok (), s\<lparr>ss_live := Some (live\<lparr>
          lv_attachment_candidate := lv_attachment_candidate live @ [u],
          lv_attachment_candidate_bytes := sat_add (lv_attachment_candidate_bytes live) (serialized_len E u)\<rparr>)\<rparr>))) rg)"
  proof (cases "require_live_owner sid inc rg")
    case (Ok s)
    then obtain l where s: "state_of sid rg = Some s" "\<not> in_cleanup s" "ss_live s = Some l"
      by (auto simp: require_live_owner_Ok)
    note same = put_state_same [OF runtime_okD(3) [OF assms] s(1)]
    have "runtime_step E rg (put_state sid (s\<lparr>ss_live := Some (l\<lparr>lv_attachment_candidate := c,
        lv_attachment_candidate_bytes := n\<rparr>)\<rparr>) rg)" for c n
    proof (rule rs_quiet [OF s(1,2) _ session_view_candidate [OF s(3)]])
      show "owner_change rg s (s\<lparr>ss_live := Some (l\<lparr>lv_attachment_candidate := c, lv_attachment_candidate_bytes := n\<rparr>)\<rparr>)"
        by (rule owner_change_fields [OF _ s(3)], simp) (simp_all add: live_wf_def)
    qed
    with Ok s same show ?thesis
      by (auto simp: with_owner_def outcome_def rs_stay split: option.split)
  qed (simp_all add: with_owner_def)
qed simp

lemma retire_live_eq:
  assumes "state_of sid rg = Some s" "ss_live s \<noteq> None" "ss_incarnation s' = inc" "ss_live s' = ss_live s"
  shows "\<exists>fx. retire_live E sid inc (put_state sid s' rg) =
    (Ok (), commit_removal E sid inc (add_effects fx (put_state sid (s'\<lparr>ss_live := None\<rparr>) rg)))"
  using assms
  by (auto simp: retire_live_def take_live_for_retirement_def registry_simps put_state_twice)

lemma removal_step:
  assumes "state_of sid rg = Some s" "\<not> in_cleanup s" "ss_live s \<noteq> None" "ss_incarnation s = inc"
    and "same_rest s s'" "turn_kept (ss_active_turn s) (ss_active_turn s')"
    and "pred_option (\<lambda>l. lv_url_flows l = [] \<and> lv_terminals l = []) (ss_live s')" "session_view s' = None"
    and "map_option so_operation_id (ss_operation s') = map_option so_operation_id (ss_operation s) \<or> ss_operation s' = None"
    and "pred_option (\<lambda>l. lv_permissions l = [] \<and> lv_elicitations l = []) (ss_live s')"
    and "\<forall>l. ss_live s = Some l \<longrightarrow>
      pred_option (\<lambda>k. lv_revision k = lv_revision l \<and> (live_wf l \<longrightarrow> live_wf k)) (ss_live s')"
  shows "runtime_step E rg (commit_removal E sid inc (add_effects fx (put_state sid s' rg)))"
proof -
  have s': "s' = s\<lparr>ss_live := ss_live s', ss_operation := ss_operation s', ss_active_turn := ss_active_turn s'\<rparr>"
    using assms(5) by (simp add: same_rest_def)
  have "live_ids s' = []" using assms(10) by (auto simp: live_ids_def split: option.split)
  moreover have "mset (option_list (map_option so_operation_id (ss_operation s'))) \<subseteq>#
      mset (option_list (map_option so_operation_id (ss_operation s)))"
    using assms(9) by auto
  ultimately have "mset (session_ids s') \<subseteq># mset (session_ids s)"
    unfolding session_ids_mset using turn_kept_ids [OF assms(6)]
    by (metis (no_types, lifting) empty_le mset.simps(1) subset_mset.add_mono)
  from rs_remove [OF assms(1-4) s' assms(6,7,8,11) this] show ?thesis .
qed

lemma outcome_retire:
  assumes "bt_wf (rg_sessions rg)"
    and "\<And>s. state_of sid rg = Some s \<Longrightarrow> ss_incarnation s = inc \<Longrightarrow> ss_live s \<noteq> None \<Longrightarrow> \<not> in_cleanup s \<Longrightarrow>
      f s = (Err OperationMismatch, s) \<or>
      (\<exists>s'. f s = (Ok (), s') \<and> same_rest s s' \<and> ss_live s' = ss_live s \<and>
         turn_kept (ss_active_turn s) (ss_active_turn s') \<and>
         (map_option so_operation_id (ss_operation s') = map_option so_operation_id (ss_operation s) \<or> ss_operation s' = None))"
  shows "outcome E rg (call_then (with_owner sid inc f rg) (\<lambda>_ rg1. retire_live E sid inc rg1))"
proof (cases "require_live_owner sid inc rg")
  case (Ok s)
  then have s: "state_of sid rg = Some s" "ss_incarnation s = inc" "ss_live s \<noteq> None" "\<not> in_cleanup s"
    by (simp_all add: require_live_owner_Ok)
  from assms(2) [OF s] show ?thesis
  proof
    assume "f s = (Err OperationMismatch, s)"
    then show ?thesis using Ok put_state_same [OF assms(1) s(1)] by (simp add: with_owner_def)
  next
    assume "\<exists>s'. f s = (Ok (), s') \<and> same_rest s s' \<and> ss_live s' = ss_live s \<and>
       turn_kept (ss_active_turn s) (ss_active_turn s') \<and>
       (map_option so_operation_id (ss_operation s') = map_option so_operation_id (ss_operation s) \<or> ss_operation s' = None)"
    then obtain s' where f: "f s = (Ok (), s')" and k: "same_rest s s'" "ss_live s' = ss_live s"
      "turn_kept (ss_active_turn s) (ss_active_turn s')"
      "map_option so_operation_id (ss_operation s') = map_option so_operation_id (ss_operation s) \<or> ss_operation s' = None"
      by blast
    have inc: "ss_incarnation s' = inc" using k(1) s(2) by (metis same_rest_def session_state.select_convs(2)
          session_state.surjective session_state.update_convs(3,7,11))
    obtain fx where fx: "retire_live E sid inc (put_state sid s' rg) =
        (Ok (), commit_removal E sid inc (add_effects fx (put_state sid (s'\<lparr>ss_live := None\<rparr>) rg)))"
      using retire_live_eq [OF s(1,3) inc k(2)] by blast
    have "runtime_step E rg (commit_removal E sid inc (add_effects fx (put_state sid (s'\<lparr>ss_live := None\<rparr>) rg)))"
      by (rule removal_step [OF s(1,4,3,2)]) (use k in \<open>simp_all add: session_view_def\<close>)
    then show ?thesis using Ok f fx by (simp add: with_owner_def outcome_def)
  qed
qed (simp_all add: with_owner_def)

lemma outcome_removals:
  assumes "runtime_ok rg"
  shows "outcome E rg (fail_attachment E ep sid inc op kind rg)"
    "outcome E rg (complete_delete E ep sid inc op rg)"
    "outcome E rg (close_session E ep sid inc op rg)"
proof -
  note wf = runtime_okD(3) [OF assms]
  show "outcome E rg (fail_attachment E ep sid inc op kind rg)" unfolding fail_attachment_def
    by (intro outcome_try outcome_retire wf; (simp; fail)?) auto
  show "outcome E rg (complete_delete E ep sid inc op rg)" unfolding complete_delete_def
    by (intro outcome_try outcome_retire wf; (simp; fail)?)
       (auto simp: has_operation_def split: option.splits)
  show "outcome E rg (close_session E ep sid inc op rg)"
  proof (cases "require_live_owner sid inc rg")
    case (Ok s)
    then obtain l where s: "state_of sid rg = Some s" "ss_incarnation s = inc" "ss_live s \<noteq> None" "\<not> in_cleanup s"
      "ss_live s = Some l" by (auto simp: require_live_owner_Ok)
    note same = put_state_same [OF wf s(1)]
    have "runtime_step E rg (commit_removal E sid inc (add_effects fx (put_state sid s' rg)))"
      if "ss_operation s = Some o'" "s' = stop_execution (s\<lparr>ss_operation := Some (o'\<lparr>so_stage := ''cleanup''\<rparr>)\<rparr>)
          \<lparr>ss_live := Some (l\<lparr>lv_lifecycle := Closed, lv_permissions := [], lv_elicitations := [],
             lv_url_flows := [], lv_terminals := []\<rparr>)\<rparr>" for s' o' fx
      by (rule removal_step [OF s(1,4,3,2)]) (use that s(5) in \<open>simp_all add: session_view_def live_wf_def bt.wf_nil\<close>)
    with Ok s same show ?thesis
      by (cases "require_epoch ep rg"; cases "ss_operation s")
         (auto simp: close_session_def with_owner_def drain_owner_def drain_session_liveness_def Let_def outcome_def)
  qed (cases "require_epoch ep rg"; simp add: close_session_def with_owner_def)+
qed
section \<open>Turns and controls\<close>

lemma check_turn_admission_no_panic [simp]: "check_turn_admission E revision intent prompt s \<noteq> Panic"
  by (auto simp: check_turn_admission_def Let_def res_bind_def split: option.splits result.splits)

lemma map_err_no_panic [simp]: "map_err f r = Panic \<longleftrightarrow> r = Panic"
  by (cases r) simp_all

lemma start_turn_accepted:
  assumes "state_of sid rg = Some s" "ss_incarnation s = inc"
    and "check_turn_admission E revision intent prompt s = Ok None"
  shows "\<exists>s' adm rg1. start_turn E sid inc revision intent prompt rg = (Ok adm, rg1) \<and> state_of sid rg1 = Some s' \<and>
    ss_live s' = ss_live s \<and> ss_operation s' = ss_operation s"
proof -
  obtain a s' where a: "admit_turn E (turn_operation_id (rg_epoch rg) (next_revision (rg_next_operation rg))) revision intent prompt s
      = (Ok a, s')" "ss_live s' = ss_live s" "ss_operation s' = ss_operation s"
    using assms(3) by (auto simp: admit_turn_def advance_revision_def Let_def)
  have "require_state sid inc rg = Ok s" using assms(1,2) by (simp add: require_state_Ok)
  with a assms(1) show ?thesis
    by (auto simp: start_turn_def with_overlay_def account_overlay_def registry_simps Let_def split: turn_admission.split)
qed

lemma outcome_admit:
  shows "outcome E rg (admit_session_turn E ep sid inc revision intent prompt rg)"
  unfolding admit_session_turn_def
proof (intro outcome_intros; (simp add: require_live_owner_Ok; fail)?)
  fix owner dup
  assume o: "map_err TurnLive (require_live_owner sid inc rg) = Ok owner"
    and d: "map_err TurnHistory (check_turn_admission E revision intent prompt owner) = Ok dup"
  have s: "state_of sid rg = Some owner" "ss_incarnation owner = inc" "ss_live owner \<noteq> None" "\<not> in_cleanup owner"
    using o by (cases "require_live_owner sid inc rg"; simp add: require_live_owner_Ok)+
  have c: "check_turn_admission E revision intent prompt owner = Ok dup"
    using d by (cases "check_turn_admission E revision intent prompt owner") simp_all
  have "outcome E rg (case start_turn E sid inc revision intent prompt rg of
      (r, rg1) \<Rightarrow> call_then (map_err TurnHistory r, rg1) (\<lambda>adm rg2. publish E sid adm rg2))"
    if n: "dup = None" "turn_execution_of owner = None" "ss_operation owner = None" "\<not> operation_in_use intent rg"
  proof -
    obtain s' adm rg1 where t: "start_turn E sid inc revision intent prompt rg = (Ok adm, rg1)" "state_of sid rg1 = Some s'"
      "ss_live s' = ss_live owner" "ss_operation s' = ss_operation owner"
      using start_turn_accepted [OF s(1,2)] c n(1) by blast
    have v: "session_view s' \<noteq> None"
      using s(3) n(3) t(3,4) unfolding session_view_Some by (auto simp: in_cleanup_def)
    show ?thesis
      by (simp add: t(1) outcome_def publish_eq [OF t(2) v] rs_admit [OF s(1,4,2,3) n(2,4) t(1)])
  qed
  then show "outcome E rg (case dup of
      None \<Rightarrow> expect_in rg (ss_live owner) (\<lambda>live.
        if lv_lifecycle live \<noteq> Active then (Err (TurnLive SessionNotActive), rg)
        else if turn_execution_of owner \<noteq> None \<or> ss_operation owner \<noteq> None
        then (Err (TurnLive BusySession), rg)
        else if operation_in_use intent rg then (Err (TurnLive OperationCollision), rg)
        else case start_turn E sid inc revision intent prompt rg of
          (r, rg1) \<Rightarrow> call_then (map_err TurnHistory r, rg1) (\<lambda>adm rg2. publish E sid adm rg2))
    | Some d \<Rightarrow> (Ok d, rg))"
    using s(3) by (cases dup) auto
qed

lemma project_turn_cases:
  obtains e where "project_turn_update E ep sid inc overlay update rg = (Err e, rg)"
  | s turn execution where "state_of sid rg = Some s" "ss_incarnation s = inc" "\<not> in_cleanup s" "ss_live s \<noteq> None"
      "ss_active_turn s = Some turn" "ov_execution turn = Some execution"
      "ov_operation_id turn = ov_operation_id overlay" "tx_rpc_operation_id execution = ov_client_intent_id overlay"
      "project_turn_update E ep sid inc overlay update rg
         = (Ok (), commit_turn_update E sid inc (tx_rpc_operation_id execution) update rg)"
proof (cases "require_epoch ep rg")
  case epoch: (Ok u)
  show ?thesis
  proof (cases "require_live_owner sid inc rg")
    case (Ok s)
    then have "state_of sid rg = Some s" "ss_incarnation s = inc" "\<not> in_cleanup s" "ss_live s \<noteq> None"
      by (simp_all add: require_live_owner_Ok)
    note s = this
    show ?thesis
    proof (cases "\<exists>turn execution. ss_active_turn s = Some turn \<and> ov_execution turn = Some execution \<and>
        ov_operation_id turn = ov_operation_id overlay \<and> tx_rpc_operation_id execution = ov_client_intent_id overlay")
      case True
      then obtain turn execution where t: "ss_active_turn s = Some turn" "ov_execution turn = Some execution"
        "ov_operation_id turn = ov_operation_id overlay" "tx_rpc_operation_id execution = ov_client_intent_id overlay"
        by blast
      show ?thesis by (rule that(2) [OF s t]) (simp add: project_turn_update_def epoch Ok t)
    next
      case False
      then show ?thesis using epoch Ok that(1)
        by (cases "ss_active_turn s"; cases "ov_execution (the (ss_active_turn s))")
           (auto simp: project_turn_update_def)
    qed
  qed (use epoch that in \<open>simp_all add: project_turn_update_def\<close>)
qed (use that in \<open>simp_all add: project_turn_update_def\<close>)

lemma outcome_turn:
  assumes "runtime_ok rg"
  shows "outcome E rg (request_cancel E ep sid inc rg)"
    "outcome E rg (seal_turn E ep sid inc op lifecycle rg)"
    "outcome E rg (update_control_state E ep sid inc key update rg)"
proof -
  note wf = runtime_okD(3) [OF assms]
  show "outcome E rg (request_cancel E ep sid inc rg)" unfolding request_cancel_def
  proof (intro outcome_intros; (simp; fail)?)
    fix owner turn execution
    assume a: "require_live_owner sid inc rg = Ok owner" "ok_or NoActiveTurn (ss_active_turn owner) = Ok turn"
      "ok_or NoActiveTurn (ov_execution turn) = Ok execution"
    let ?s = "owner\<lparr>ss_active_turn := Some (turn\<lparr>ov_execution := Some (execution\<lparr>tx_cancel_requested := True\<rparr>)\<rparr>)\<rparr>"
    obtain l where s: "state_of sid rg = Some owner" "\<not> in_cleanup owner" "ss_live owner = Some l"
      using a(1) by (auto simp: require_live_owner_Ok)
    have k: "settled rg owner (Ok (), ?s)"
      by (rule settled_fields [OF _ s(3)], simp add: s(3)) (use a s in \<open>auto simp: turn_kept_def\<close>)
    have "state_of sid (put_state sid ?s rg) = Some ?s" using s(1) by (simp add: registry_simps)
    moreover have v: "session_view ?s \<noteq> None" and o: "owner_change rg owner ?s" using k by (simp_all add: settled_Ok)
    ultimately show "outcome E rg (publish E sid () (put_state sid ?s rg))"
      using runtime_step_upsert [OF s(1,2) o v] by (simp add: publish_eq outcome_def)
  qed
  show "outcome E rg (seal_turn E ep sid inc op lifecycle rg)" unfolding seal_turn_def
  proof (rule outcome_try)
    show "outcome E rg (call_then (with_owner sid inc (live_seal_turn op lifecycle) rg) (\<lambda>retired rg1.
        publish E sid () (drop_turn_delivery_payload sid inc op
          (add_effects (map (CancelPermissionResponder sid inc) (tr_permissions retired) @
             map (CancelElicitationResponder (Some sid) (Some inc)) (tr_elicitations retired)) rg1))))"
    proof (rule outcome_owner_publish [OF wf])
      show "\<exists>j. drop_turn_delivery_payload sid inc op (add_effects fx rg1) = (add_effects fx rg1)\<lparr>rg_journal := j\<rparr> \<and>
          journal_before rg j" if "rg_journal rg1 = rg_journal rg" for fx rg1
        using that by (auto simp: drop_turn_delivery_payload_def add_effects_def journal_before_def)
    qed (rule settled_seal_turn)
  qed simp
  show "outcome E rg (update_control_state E ep sid inc key update rg)"
    unfolding update_control_state_def Let_def
  proof (intro outcome_intros; (simp; fail)?)
    fix owner live
    assume a: "require_live_owner sid inc rg = Ok owner" "ss_live owner = Some live"
    show "outcome E rg (Ok (), commit_control_update E sid inc key u (put_state sid (owner\<lparr>ss_live :=
        Some (live\<lparr>lv_control_state := bt_insert key u (lv_control_state live)\<rparr>)\<rparr>) rg))" for u
      using a by (auto simp: require_live_owner_Ok outcome_def intro!: rs_control)
  qed (auto simp: require_live_owner_Ok)
qed
section \<open>Opening and attaching\<close>

lemma not_takenD:
  "\<not> session_taken sid rg \<Longrightarrow> state_of sid rg = Some s \<Longrightarrow>
     ss_operation s = None \<and> pred_option (\<lambda>l. lv_lifecycle l = Closed) (ss_live s)"
  by (auto simp: session_taken_def split: option.splits)

lemma clear_history_owner:
  assumes "state_of sid rg = Some s"
  shows "\<exists>s'. state_of sid (clear_history_for_replacement E sid inc rg) = Some s' \<and>
    ss_operation s' = ss_operation s \<and> ss_incarnation s' = ss_incarnation s"
proof (cases "ss_incarnation s = inc")
  case True
  have r: "state_of k (remove_retained_terminals E key rg1) = state_of k rg1" for k key rg1
    by (simp add: remove_retained_terminals_def registry_simps split: option.split)
  from True assms show ?thesis
    by (auto simp: clear_history_for_replacement_def Let_def r registry_simps session_cold_def)
qed (use assms in \<open>simp add: clear_history_for_replacement_def\<close>)

lemma state_of_retired:
  assumes "state_of sid rg = Some s" "ss_incarnation s = inc"
  shows "state_of sid (retire_entry sid inc reason rg) = None"
  using assms by (auto simp: retire_entry_def Let_def state_of_def entry_of_def bt.get_del split: option.splits)

lemma install_live_state:
  assumes "\<not> session_taken sid rg"
  shows "\<exists>s. state_of sid (install_live E sid inc live rg) = Some s \<and> ss_live s = Some live \<and>
    ss_operation s = None"
proof (cases "state_of sid rg")
  case (Some s)
  have op: "ss_operation s = None" using not_takenD [OF assms Some] by simp
  show ?thesis
  proof (cases "ss_incarnation s = inc")
    case False
    obtain s' where "state_of sid (clear_history_for_replacement E sid (ss_incarnation s) rg) = Some s'"
      "ss_incarnation s' = ss_incarnation s"
      using clear_history_owner [OF Some] by blast
    from state_of_retired [OF this] show ?thesis
      using Some False by (auto simp: install_live_def Let_def registry_simps entry_new_def session_cold_def)
  qed (use Some op in \<open>auto simp: install_live_def Let_def registry_simps\<close>)
qed (auto simp: install_live_def Let_def registry_simps entry_new_def session_cold_def)

lemma session_taken_fields [simp]: "session_taken sid (rg\<lparr>rg_next_incarnation := n\<rparr>) = session_taken sid rg"
  by (simp add: session_taken_def registry_simps)

lemma outcome_open:
  assumes "bt_wf controls"
  shows "outcome E rg (open_session E ep sid cwd session controls rg)"
  unfolding open_session_def Let_def
proof (intro outcome_intros)
  assume t: "\<not> session_taken sid rg"
  let ?inc = "next_revision (rg_next_incarnation rg)"
  let ?live = "new_live cwd (retain_session_metadata sid session) controls Active"
  let ?rg = "install_live E sid ?inc ?live (rg\<lparr>rg_next_incarnation := ?inc\<rparr>)"
  obtain s where s: "state_of sid ?rg = Some s" "ss_live s = Some ?live" "ss_operation s = None"
    using install_live_state [where sid = sid and rg = "rg\<lparr>rg_next_incarnation := ?inc\<rparr>" and E = E and inc = ?inc
        and live = ?live] t
    by (simp only: session_taken_fields not_False_eq_True simp_thms) blast
  have v: "session_view s \<noteq> None"
    using s(2,3) by (subst session_view_live [OF s(2)]) (simp add: in_cleanup_def)
  show "outcome E rg (publish E sid ?inc ?rg)"
    using rs_install [OF t assms refl _ refl s(1), of None]
    by (simp add: publish_eq [OF s(1) v] outcome_def)
qed simp_all

lemma outcome_opens:
  shows "outcome E rg (open_new_with_replay E ep sid cwd session replay rg)"
    "outcome E rg (open_forked E ep sid cwd session source target_replay rg)"
  unfolding open_new_with_replay_def open_forked_def
  by (intro outcome_intros outcome_open;
      auto simp: extract_control_state_total bt.wf_nil intro: extract_control_state_wf split: option.splits)+

lemma outcome_start_attachment:
  shows "outcome E rg (start_attachment E ep sid cwd op kind rg)"
  unfolding start_attachment_def Let_def
proof (intro outcome_intros)
  assume t: "\<not> session_taken sid rg" and u: "\<not> operation_in_use op rg"
  let ?inc = "next_revision (rg_next_incarnation rg)"
  let ?live = "new_live cwd JNull [] Attaching"
  let ?rg = "install_live E sid ?inc ?live (rg\<lparr>rg_next_incarnation := ?inc\<rparr>)"
  let ?op = "\<lparr>so_operation_id = op, so_kind = kind, so_stage = ''attaching'', so_uncertainty_reason = None\<rparr>"
  obtain s where s: "state_of sid ?rg = Some s" "ss_live s = Some ?live" "ss_operation s = None"
    using install_live_state [where sid = sid and rg = "rg\<lparr>rg_next_incarnation := ?inc\<rparr>" and E = E and inc = ?inc
        and live = ?live] t
    by (simp only: session_taken_fields not_False_eq_True simp_thms) blast
  let ?s = "s\<lparr>ss_operation := Some ?op\<rparr>"
  have st: "state_of sid (put_state sid ?s ?rg) = Some ?s" using s(1) by (simp add: registry_simps)
  have v: "session_view ?s \<noteq> None"
    using s(2) by (subst session_view_live [of ?s ?live]) simp_all
  show "outcome E rg (expect_in ?rg (state_of sid ?rg) (\<lambda>s. publish E sid ?inc (put_state sid (s\<lparr>ss_operation := Some ?op\<rparr>) ?rg)))"
    using rs_install [OF t bt.wf_nil refl _ refl s(1), of "Some ?op"] u
    by (simp add: s(1) publish_eq [OF st v] outcome_def)
qed simp_all

lemma outcome_finish_cleanup:
  assumes "pred_option in_cleanup (state_of sid rg)"
  shows "outcome E rg (finish_session_cleanup sid inc kind op rg)"
  unfolding finish_session_cleanup_def
proof (intro outcome_intros)
  fix s
  assume s: "require_state sid inc rg = Ok s"
    "\<not> (\<not> has_operation (\<lambda>p. so_operation_id p = op \<and> admission (so_kind p) = kind) s \<or>
       (case ss_live s of Some live \<Rightarrow> lv_lifecycle live \<noteq> Closed | None \<Rightarrow> False))"
  have st: "state_of sid rg = Some s" using s(1) by (simp add: require_state_Ok)
  then have "in_cleanup s" using assms by simp
  moreover have "session_view s = None"
    using s(2) calculation by (auto simp: session_view_def split: option.splits)
  ultimately show "outcome E rg (Ok (), put_state sid (s\<lparr>ss_operation := None, ss_live := None\<rparr>) rg)"
    using rs_cleaned [OF st] by (simp add: outcome_def)
qed simp_all
end
