(* ===== verification/Runtime_Calls.thy ===== *)
theory Runtime_Calls
  imports Runtime_Outcomes
begin

text \<open>
  The calls of the runtime as one datatype, and what holds of every call: it never panics, and a call
  that fails leaves the registry exactly as it was. The caller's epoch is an argument of the run.
\<close>

section \<open>Calls\<close>

datatype attach_call =
    RtOpenNew string string json "json list"
  | RtOpenForked string string json "string \<times> u64" "json list option"
  | RtStartAttachment string string string operation_kind
  | RtStartReload string u64 string operation_kind
  | RtAppendCandidate string u64 json
  | RtCompleteReload string u64 string json
  | RtFailReload string u64 string
  | RtCompleteAttachment string u64 string operation_kind json
  | RtFailAttachment string u64 string operation_kind
  | RtSynchronize string u64 json "json list"

datatype turn_call =
    RtAdmitTurn string u64 string string "json list"
  | RtProjectTurn string u64 turn_overlay json
  | RtRequestCancel string u64
  | RtCompletePrompt string u64 string
  | RtFailPrompt string u64 string
  | RtPromptUncertain string u64 string
  | RtUpdateControl string u64 string json
  | RtUpsertTerminal string u64 string json

datatype interaction_call =
    RtUpsertPermission string u64 string json
  | RtResolvePermission string u64 string
  | RtBeginPermission string u64 string string
  | RtCompletePermission string u64 string string
  | RtUpsertElicitation scope string json
  | RtResolveElicitation scope string "string option"
  | RtBeginElicitation scope string string
  | RtCompleteElicitation scope string string "string option"
  | RtSettleUrl scope string string url_flow_status

datatype operation_call =
    RtStartOperation string u64 string operation_kind string
  | RtStartDelete string u64 string
  | RtStartDirectDelete string u64 string
  | RtDeleteClosed string u64 string
  | RtCompleteDelete string u64 string
  | RtUncertain string u64 string string
  | RtCompleteOperation string u64 string operation_kind
  | RtCompleteControl string u64 string operation_kind string json
  | RtFailOperation string u64 string operation_kind
  | RtClose string u64 string
  | RtFinishCleanup string u64 session_admission string

datatype runtime_call = RtAttach attach_call | RtTurn turn_call | RtInteraction interaction_call | RtOperation operation_call

text \<open>The outcome of a call without its value, its error in the common type.\<close>

definition ended :: "('e \<Rightarrow> turn_error) \<Rightarrow> ('e, 'a) result \<times> session_registry
    \<Rightarrow> (turn_error, unit) result \<times> session_registry" where
  "ended f x = (map_err f (res_bind (fst x) (\<lambda>_. Ok ())), snd x)"

primrec attach_do :: "env \<Rightarrow> string \<Rightarrow> attach_call \<Rightarrow> session_registry \<Rightarrow> (turn_error, unit) result \<times> session_registry" where
  "attach_do E ep (RtOpenNew sid cwd session replay) rg = ended TurnLive (open_new_with_replay E ep sid cwd session replay rg)"
| "attach_do E ep (RtOpenForked sid cwd session source replay) rg = ended TurnLive (open_forked E ep sid cwd session source replay rg)"
| "attach_do E ep (RtStartAttachment sid cwd op kind) rg = ended TurnLive (start_attachment E ep sid cwd op kind rg)"
| "attach_do E ep (RtStartReload sid inc op kind) rg = ended TurnLive (start_reload E ep sid inc op kind rg)"
| "attach_do E ep (RtAppendCandidate sid inc u) rg = ended TurnLive (append_attachment_candidate E ep sid inc u rg)"
| "attach_do E ep (RtCompleteReload sid inc op response) rg = ended TurnLive (complete_reload E ep sid inc op response rg)"
| "attach_do E ep (RtFailReload sid inc op) rg = ended TurnLive (fail_reload E ep sid inc op rg)"
| "attach_do E ep (RtCompleteAttachment sid inc op kind response) rg = ended TurnLive (complete_attachment E ep sid inc op kind response rg)"
| "attach_do E ep (RtFailAttachment sid inc op kind) rg = ended TurnLive (fail_attachment E ep sid inc op kind rg)"
| "attach_do E ep (RtSynchronize sid inc response replay) rg = ended TurnLive (synchronize_loaded_session E ep sid inc response replay rg)"

primrec turn_do :: "env \<Rightarrow> string \<Rightarrow> turn_call \<Rightarrow> session_registry \<Rightarrow> (turn_error, unit) result \<times> session_registry" where
  "turn_do E ep (RtAdmitTurn sid inc revision intent prompt) rg = ended id (admit_session_turn E ep sid inc revision intent prompt rg)"
| "turn_do E ep (RtProjectTurn sid inc overlay u) rg = ended TurnLive (project_turn_update E ep sid inc overlay u rg)"
| "turn_do E ep (RtRequestCancel sid inc) rg = ended TurnLive (request_cancel E ep sid inc rg)"
| "turn_do E ep (RtCompletePrompt sid inc op) rg = ended TurnLive (complete_prompt E ep sid inc op rg)"
| "turn_do E ep (RtFailPrompt sid inc op) rg = ended TurnLive (fail_prompt E ep sid inc op rg)"
| "turn_do E ep (RtPromptUncertain sid inc op) rg = ended TurnLive (mark_prompt_uncertain E ep sid inc op rg)"
| "turn_do E ep (RtUpdateControl sid inc key u) rg = ended TurnLive (update_control_state E ep sid inc key u rg)"
| "turn_do E ep (RtUpsertTerminal sid inc tid terminal) rg = ended TurnLive (upsert_terminal E ep sid inc tid terminal rg)"

primrec interaction_do :: "env \<Rightarrow> string \<Rightarrow> interaction_call \<Rightarrow> session_registry \<Rightarrow> (turn_error, unit) result \<times> session_registry" where
  "interaction_do E ep (RtUpsertPermission sid inc i request) rg = ended TurnLive (upsert_permission E ep sid inc i request rg)"
| "interaction_do E ep (RtResolvePermission sid inc i) rg = ended TurnLive (resolve_permission E ep sid inc i rg)"
| "interaction_do E ep (RtBeginPermission sid inc i op) rg = ended TurnLive (begin_permission_response E ep sid inc i op rg)"
| "interaction_do E ep (RtCompletePermission sid inc i op) rg = ended TurnLive (complete_permission_response E ep sid inc i op rg)"
| "interaction_do E ep (RtUpsertElicitation scope i request) rg = ended TurnLive (upsert_elicitation E ep scope i request rg)"
| "interaction_do E ep (RtResolveElicitation scope i url) rg = ended TurnLive (resolve_elicitation E ep scope i url rg)"
| "interaction_do E ep (RtBeginElicitation scope i op) rg = ended TurnLive (begin_elicitation_response E ep scope i op rg)"
| "interaction_do E ep (RtCompleteElicitation scope i op url) rg = ended TurnLive (complete_elicitation_response E ep scope i op url rg)"
| "interaction_do E ep (RtSettleUrl scope u r status) rg = ended TurnLive (settle_url_registration E ep scope u r status rg)"

primrec operation_do :: "env \<Rightarrow> string \<Rightarrow> operation_call \<Rightarrow> session_registry \<Rightarrow> (turn_error, unit) result \<times> session_registry" where
  "operation_do E ep (RtStartOperation sid inc op kind stage) rg = ended TurnLive (start_operation E ep sid inc op kind stage rg)"
| "operation_do E ep (RtStartDelete sid inc op) rg = ended TurnLive (start_delete E ep sid inc op rg)"
| "operation_do E ep (RtStartDirectDelete sid inc op) rg = ended TurnLive (start_direct_delete E ep sid inc op rg)"
| "operation_do E ep (RtDeleteClosed sid inc op) rg = ended TurnLive (delete_close_succeeded E ep sid inc op rg)"
| "operation_do E ep (RtCompleteDelete sid inc op) rg = ended TurnLive (complete_delete E ep sid inc op rg)"
| "operation_do E ep (RtUncertain sid inc op reason) rg = ended TurnLive (mark_operation_uncertain E ep sid inc op reason rg)"
| "operation_do E ep (RtCompleteOperation sid inc op kind) rg = ended TurnLive (complete_operation E ep sid inc op kind rg)"
| "operation_do E ep (RtCompleteControl sid inc op kind key u) rg = ended TurnLive (complete_control_operation E ep sid inc op kind key u rg)"
| "operation_do E ep (RtFailOperation sid inc op kind) rg = ended TurnLive (fail_operation E ep sid inc op kind rg)"
| "operation_do E ep (RtClose sid inc op) rg = ended TurnLive (close_session E ep sid inc op rg)"
| "operation_do E ep (RtFinishCleanup sid inc adm op) rg = ended TurnHistory (finish_session_cleanup sid inc adm op rg)"

primrec runtime_do :: "env \<Rightarrow> string \<Rightarrow> runtime_call \<Rightarrow> session_registry
    \<Rightarrow> (turn_error, unit) result \<times> session_registry" where
  "runtime_do E ep (RtAttach c) rg = attach_do E ep c rg"
| "runtime_do E ep (RtTurn c) rg = turn_do E ep c rg"
| "runtime_do E ep (RtInteraction c) rg = interaction_do E ep c rg"
| "runtime_do E ep (RtOperation c) rg = operation_do E ep c rg"

text \<open>
  What the callers see to: a terminal's record is an object (that names each field once, as every
  parsed value does), and the cleanup that is finished has begun.
\<close>

definition call_ok :: "runtime_call \<Rightarrow> session_registry \<Rightarrow> bool" where
  "call_ok c rg \<longleftrightarrow>
     (case c of
        RtTurn (RtUpsertTerminal sid inc tid terminal) \<Rightarrow> as_object terminal \<noteq> None \<and> json_wf terminal
      | RtOperation (RtFinishCleanup sid inc adm op) \<Rightarrow> pred_option in_cleanup (state_of sid rg)
      | _ \<Rightarrow> True)"

lemma outcome_ended: "outcome E rg x \<Longrightarrow> outcome E rg (ended f x)"
  by (cases "fst x") (auto simp: outcome_def ended_def)

lemma attach_do_outcome:
  assumes "runtime_ok rg"
  shows "outcome E rg (attach_do E ep c rg)"
  by (cases c; simp only: attach_do.simps; rule outcome_ended)
     (simp_all only: outcome_opens outcome_start_attachment outcome_start_reload [OF assms]
       outcome_append_candidate [OF assms] outcome_end_reload [OF assms] outcome_removals [OF assms])

text \<open>The call that publishes an update of the running turn is a step of its own kind.\<close>

definition publishes_turn :: "runtime_call \<Rightarrow> bool" where
  "publishes_turn c \<longleftrightarrow> (case c of RtTurn (RtProjectTurn sid inc overlay u) \<Rightarrow> True | _ \<Rightarrow> False)"

lemma turn_do_outcome:
  assumes "runtime_ok rg" "call_ok (RtTurn c) rg" "\<not> publishes_turn (RtTurn c)"
  shows "outcome E rg (turn_do E ep c rg)"
  by (insert assms(2,3), cases c; simp only: turn_do.simps call_ok_def publishes_turn_def runtime_call.case turn_call.case;
      (rule outcome_ended)?)
     (simp_all only: outcome_admit outcome_turn [OF assms(1)] complete_prompt_def fail_prompt_def
       mark_prompt_uncertain_def outcome_upsert_terminal not_False_eq_True not_True_eq_False)

lemma interaction_do_outcome:
  assumes "runtime_ok rg"
  shows "outcome E rg (interaction_do E ep c rg)"
proof -
  note wf = runtime_okD [OF assms]
  show ?thesis
    by (cases c; simp only: interaction_do.simps; rule outcome_ended)
       (simp_all only: outcome_permissions [OF wf(1)] outcome_upsert_elicitation [OF wf(1)]
         outcome_resolve_elicitation [OF wf(1)] outcome_begin_elicitation [OF wf(1)]
         outcome_complete_elicitation [OF wf(1)] outcome_settle_url [OF wf(1,2)])
qed

lemma operation_do_outcome:
  assumes "runtime_ok rg" "call_ok (RtOperation c) rg"
  shows "outcome E rg (operation_do E ep c rg)"
  by (insert assms(2), cases c; simp only: operation_do.simps call_ok_def runtime_call.case operation_call.case;
      rule outcome_ended)
     (simp_all only: outcome_start_operation [OF assms(1)] outcome_start_delete [OF assms(1)]
       outcome_drains [OF assms(1)] outcome_end_reload [OF assms(1)] outcome_removals [OF assms(1)] outcome_finish_cleanup)

lemma runtime_do_outcome:
  assumes "runtime_ok rg" "call_ok c rg" "\<not> publishes_turn c"
  shows "outcome E rg (runtime_do E ep c rg)"
  using assms
  by (cases c) (simp_all add: attach_do_outcome turn_do_outcome interaction_do_outcome operation_do_outcome)

lemma runtime_do_cases:
  assumes "runtime_ok rg" "call_ok c rg"
  obtains e where "runtime_do E ep c rg = (Err e, rg)"
  | rg' where "runtime_do E ep c rg = (Ok (), rg')" "\<not> publishes_turn c" "runtime_step E rg rg'"
  | rg' where "runtime_do E ep c rg = (Ok (), rg')" "publishes_turn c" "turn_published E rg rg'"
proof (cases "publishes_turn c")
  case True
  then obtain sid inc overlay u where c: "c = RtTurn (RtProjectTurn sid inc overlay u)"
    by (auto simp: publishes_turn_def split: runtime_call.splits turn_call.splits)
  show ?thesis
  proof (cases rule: project_turn_cases [of E ep sid inc overlay u rg])
    case (1 e)
    with that(1) c show ?thesis by (simp add: ended_def)
  next
    case (2 s turn execution)
    then have "turn_published E rg (commit_turn_update E sid inc (tx_rpc_operation_id execution) u rg)"
      by (auto simp: turn_published_def turn_rpc_operation_def turn_execution_of_def intro!: exI [of _ sid] exI [of _ s])
    with 2 that(3) c True show ?thesis by (simp add: ended_def)
  qed
next
  case False
  obtain r rg' where x: "runtime_do E ep c rg = (r, rg')" by fastforce
  with runtime_do_outcome [OF assms False, of E ep] that(1,2) False show ?thesis
    by (cases r) (auto simp: outcome_def)
qed

text \<open>
  (C19) Failure is atomic: no call of the runtime panics, and a call that returns an error has changed
  nothing at all, neither a session nor the effects nor the journal.
\<close>

theorem runtime_failure_is_atomic:
  assumes "runtime_ok rg" "call_ok c rg"
  shows "fst (runtime_do E ep c rg) \<noteq> Panic \<and>
    (is_ok (fst (runtime_do E ep c rg)) \<or> snd (runtime_do E ep c rg) = rg)"
  by (rule runtime_do_cases [OF assms, of E ep]) auto

lemma runtime_failure_is_atomic_witness:
  "fst (runtime_do sample_env ''e'' (RtOperation (RtClose ''s'' 7 ''op'')) (registry_new ''e'')) \<noteq> Panic \<and>
    (is_ok (fst (runtime_do sample_env ''e'' (RtOperation (RtClose ''s'' 7 ''op'')) (registry_new ''e''))) \<or>
     snd (runtime_do sample_env ''e'' (RtOperation (RtClose ''s'' 7 ''op'')) (registry_new ''e'')) = registry_new ''e'')"
  by (rule runtime_failure_is_atomic)
     (simp_all add: runtime_ok_def sessions_wf_def flows_waiting_def all_waiting_def registry_new_def state_of_def
       entry_of_def bt_get_def bt_wf_def call_ok_def)

end
