(* ===== verification/Session_Frames.thy ===== *)
theory Session_Frames
  imports Runtime_Outcomes
begin

text \<open>
  What the history transactions of \<open>src/src/session_mirror.rs\<close> leave of what is published: each changes
  one session at most (\<open>only_session\<close>), and of that session neither its live part nor, but for a turn
  that ends, what is shown of it (\<open>quiet\<close>).
\<close>

section \<open>One session\<close>

definition only_session :: "string \<Rightarrow> session_registry \<Rightarrow> session_registry \<Rightarrow> bool" where
  "only_session sid rg rg' \<longleftrightarrow>
     rg_epoch rg' = rg_epoch rg \<and> rg_connection_revision rg' = rg_connection_revision rg \<and>
     rg_request_elicitations rg' = rg_request_elicitations rg \<and> rg_request_url_flows rg' = rg_request_url_flows rg \<and>
     rg_journal rg' = rg_journal rg \<and> rg_next_incarnation rg' = rg_next_incarnation rg \<and>
     rg_effects rg' = rg_effects rg \<and>
     (bt_wf (rg_sessions rg) \<longrightarrow> bt_wf (rg_sessions rg')) \<and> (\<forall>k. k \<noteq> sid \<longrightarrow> state_of k rg' = state_of k rg)"

lemma only_session_refl [simp, intro]: "only_session sid rg rg"
  by (simp add: only_session_def)

lemma only_session_trans [trans]: "only_session sid rg rg1 \<Longrightarrow> only_session sid rg1 rg2 \<Longrightarrow> only_session sid rg rg2"
  by (simp add: only_session_def)

lemma only_session_put_entry: "only_session sid rg (put_entry sid e rg)"
  by (simp add: only_session_def registry_simps bt_wf_put_entry) (simp add: put_entry_def)

lemma only_session_put_state: "only_session sid rg (put_state sid s rg)"
  by (simp add: put_state_def only_session_put_entry split: option.split)

lemma only_session_put_resources: "only_session sid rg (put_resources sid r rg)"
  by (simp add: put_resources_def only_session_put_entry split: option.split)

text \<open>The fields no session is in.\<close>

lemma only_session_fields:
  "only_session sid rg (rg\<lparr>rg_history := c\<rparr>)"
  "only_session sid rg (rg\<lparr>rg_overlay_bytes := n\<rparr>)"
  "only_session sid rg (rg\<lparr>rg_next_operation := m\<rparr>)"
  "only_session sid rg (rg\<lparr>rg_retained_terminals := ts\<rparr>)"
  "only_session sid rg (rg\<lparr>rg_retained_terminal_bytes := n\<rparr>)"
  "only_session sid rg (rg\<lparr>rg_handles := h\<rparr>)"
  "only_session sid rg (rg\<lparr>rg_permission_owners := a\<rparr>)"
  "only_session sid rg (rg\<lparr>rg_elicitation_owners := a\<rparr>)"
  "only_session sid rg (rg\<lparr>rg_url_owners := b\<rparr>)"
  "only_session sid rg (rg\<lparr>rg_retired_ids := ids\<rparr>)"
  by (simp_all add: only_session_def state_of_def entry_of_def)

lemmas only_session_intros = only_session_put_entry only_session_put_state only_session_put_resources only_session_fields

lemma only_session_then: "only_session sid rg rg1 \<Longrightarrow> (\<And>g. only_session sid g (f g)) \<Longrightarrow> only_session sid rg (f rg1)"
  using only_session_trans by blast

lemma only_session_cancel: "only_session sid rg (cancel_resources sid inc reason rg)"
proof -
  have "only_session sid rg (put_resources sid r (rg\<lparr>rg_permission_owners := a, rg_elicitation_owners := b,
      rg_url_owners := u, rg_handles := h\<rparr>))" for r a b u h
    by (rule only_session_trans [OF _ only_session_put_resources]) (simp add: only_session_def state_of_def entry_of_def)
  then show ?thesis by (auto simp: cancel_resources_def Let_def split: option.split prod.split)
qed

lemma only_session_retire: "only_session sid rg (retire_entry sid inc reason rg)"
proof -
  have "only_session sid g (g\<lparr>rg_sessions := bt_remove sid (rg_sessions g), rg_retired_ids := ids\<rparr>)" for g ids
    by (simp add: only_session_def state_of_def entry_of_def bt.get_del)
  from only_session_trans [OF only_session_cancel this] show ?thesis
    by (auto simp: retire_entry_def Let_def split: option.split)
qed

lemma only_session_remove_retained: "only_session sid rg (remove_retained_terminals E key rg)"
  by (simp add: remove_retained_terminals_def only_session_def state_of_def entry_of_def split: option.split)

lemma only_session_prune: "only_session sid rg (prune_retained_terminals E key us rg)"
  by (simp add: prune_retained_terminals_def Let_def only_session_def state_of_def entry_of_def split: option.split)

lemma only_session_clear: "only_session sid rg (clear_history_for_replacement E sid inc rg)"
proof -
  have "only_session sid rg ((remove_retained_terminals E key (put_state sid s (rg\<lparr>rg_overlay_bytes := n\<rparr>)))\<lparr>rg_history := c\<rparr>)"
    for s n key c
    by (rule only_session_trans [OF _ only_session_fields(1)], rule only_session_trans [OF _ only_session_remove_retained],
        rule only_session_trans [OF _ only_session_put_state], rule only_session_fields)
  then show ?thesis by (auto simp: clear_history_for_replacement_def Let_def split: option.split)
qed

lemma only_session_stop_absence: "only_session sid rg (stop_absence_in sid rg)"
proof -
  have "only_session sid rg (put_resources sid r (rg\<lparr>rg_handles := h\<rparr>))" for r h
    by (rule only_session_trans [OF only_session_fields(6) only_session_put_resources])
  then show ?thesis by (auto simp: stop_absence_in_def split: option.split prod.split)
qed

lemma only_session_history_call: "only_session sid rg (snd (history_call f rg))"
  by (simp add: history_call_def only_session_fields split: prod.split)

lemma only_session_install: "only_session sid rg (install_live E sid inc live rg)"
proof -
  have "only_session sid rg (retire_entry sid i reason (clear_history_for_replacement E sid i rg))" for i reason
    by (rule only_session_trans [OF only_session_clear only_session_retire])
  then show ?thesis
    by (auto simp: install_live_def Let_def split: option.split
        intro: only_session_trans [OF _ only_session_put_state] only_session_trans [OF _ only_session_put_entry])
qed

section \<open>What is shown of it\<close>

definition quiet :: "session_state \<Rightarrow> session_state \<Rightarrow> bool" where
  "quiet s s' \<longleftrightarrow> ss_live s' = ss_live s \<and> ss_incarnation s' = ss_incarnation s \<and>
     ss_session_id s' = ss_session_id s \<and> in_cleanup s' = in_cleanup s \<and>
     (turn_execution_of s' = None \<or> ss_active_turn s' = ss_active_turn s)"

definition unattached :: "session_state option \<Rightarrow> bool" where
  "unattached x \<longleftrightarrow> pred_option (\<lambda>s. ss_live s = None) x"

text \<open>A turn in execution stays the turn it was, or its execution ends.\<close>

definition turn_carried :: "session_state option \<Rightarrow> session_state option \<Rightarrow> bool" where
  "turn_carried x x' \<longleftrightarrow> pred_option (\<lambda>s'. turn_execution_of s' = None \<or>
     (\<exists>s. x = Some s \<and> ss_active_turn s' = ss_active_turn s)) x'"

definition named :: "string \<Rightarrow> session_registry \<Rightarrow> bool" where
  "named sid rg \<longleftrightarrow> pred_option (\<lambda>s. ss_session_id s = sid) (state_of sid rg)"

definition calm :: "string \<Rightarrow> session_registry \<Rightarrow> session_registry \<Rightarrow> bool" where
  "calm sid rg rg' \<longleftrightarrow> only_session sid rg rg' \<and> (named sid rg \<longrightarrow> named sid rg') \<and>
     ((\<exists>s s'. state_of sid rg = Some s \<and> state_of sid rg' = Some s' \<and> quiet s s') \<or>
      unattached (state_of sid rg) \<and> unattached (state_of sid rg') \<and>
        turn_carried (state_of sid rg) (state_of sid rg'))"

lemma quiet_refl [simp]: "quiet s s"
  by (simp add: quiet_def)

lemma quiet_trans: "quiet s s1 \<Longrightarrow> quiet s1 s2 \<Longrightarrow> quiet s s2"
  by (auto simp: quiet_def turn_execution_of_def)

lemma unattached_None [simp]: "unattached None"
  by (simp add: unattached_def)

lemma turn_carried_refl [simp]: "turn_carried x x"
  by (cases x) (simp_all add: turn_carried_def)

lemma turn_carried_trans: "turn_carried x y \<Longrightarrow> turn_carried y z \<Longrightarrow> turn_carried x z"
  by (cases z) (auto simp: turn_carried_def turn_execution_of_def)

lemma quiet_carried: "quiet s s' \<Longrightarrow> turn_carried (Some s) (Some s')"
  by (simp add: quiet_def turn_carried_def)

lemma calm_same: "only_session sid rg rg' \<Longrightarrow> state_of sid rg' = state_of sid rg \<Longrightarrow> calm sid rg rg'"
  by (cases "state_of sid rg") (auto simp: calm_def named_def)

lemma calm_refl [simp, intro]: "calm sid rg rg"
  by (simp add: calm_same)

lemma quiet_unattached: "quiet s s' \<Longrightarrow> unattached (Some s') = unattached (Some s)"
  by (simp add: quiet_def unattached_def)

lemma calm_trans:
  assumes "calm sid rg rg1" "calm sid rg1 rg2"
  shows "calm sid rg rg2"
proof -
  note o = only_session_trans [of sid rg rg1 rg2]
  have "turn_carried (state_of sid rg) (state_of sid rg2)"
    by (rule turn_carried_trans [of _ "state_of sid rg1"])
       (use assms quiet_carried in \<open>auto simp: calm_def\<close>)
  with assms o show ?thesis unfolding calm_def by (auto simp: quiet_unattached dest: quiet_trans)
qed

lemma calm_put_state:
  assumes "state_of sid rg = Some s" "quiet s s'"
  shows "calm sid rg (put_state sid s' rg)"
  using assms by (auto simp: calm_def only_session_put_state registry_simps named_def quiet_def)

lemma calm_fields:
  "calm sid rg (rg\<lparr>rg_history := c\<rparr>)" "calm sid rg (rg\<lparr>rg_overlay_bytes := n\<rparr>)"
  by (rule calm_same; simp add: only_session_fields registry_simps)+

lemma calm_history_call: "calm sid rg (snd (history_call f rg))"
  by (simp add: history_call_def calm_fields split: prod.split)

lemma calm_stop_absence: "calm sid rg (stop_absence_in sid rg)"
  by (rule calm_same) (simp_all add: only_session_stop_absence registry_simps)

lemma calm_prune: "calm sid rg (prune_retained_terminals E key us rg)"
  by (rule calm_same [OF only_session_prune])
     (simp add: prune_retained_terminals_def Let_def registry_simps split: option.split)

lemma calm_with_state:
  assumes "\<And>s. state_of sid rg = Some s \<Longrightarrow> quiet s (snd (f s))"
  shows "calm sid rg (snd (with_state sid inc f rg))"
proof (cases "require_state sid inc rg")
  case (Ok s)
  then have "state_of sid rg = Some s" by (simp add: require_state_Ok)
  from calm_put_state [OF this assms [OF this]] Ok show ?thesis by (cases "f s") (simp add: with_state_def)
qed (simp_all add: with_state_def)

lemma calm_with_overlay:
  assumes "\<And>s. state_of sid rg = Some s \<Longrightarrow> quiet s (snd (f s))"
  shows "calm sid rg (snd (with_overlay sid inc f rg))"
proof (cases "require_state sid inc rg")
  case (Ok s)
  then have s: "state_of sid rg = Some s" by (simp add: require_state_Ok)
  obtain r s' where f: "f s = (r, s')" by fastforce
  have c: "calm sid rg (put_state sid s' rg)" using calm_put_state [OF s] assms [OF s] f by simp
  have "calm sid rg (account_overlay a b (put_state sid s' rg))" for a b
    unfolding account_overlay_def by (rule calm_trans [OF c calm_fields(2)])
  with Ok f c show ?thesis by (cases r) (simp_all add: with_overlay_def)
qed (simp_all add: with_overlay_def)

section \<open>Every transaction is calm\<close>

lemma quiet_advance [simp]: "quiet s (advance_revision s') = quiet s s'"
  by (simp add: quiet_def advance_revision_def in_cleanup_def turn_execution_of_def)

lemma quiet_load_begun: "quiet s (load_begun a s)"
  by (simp add: load_begun_def Let_def) (simp add: quiet_def in_cleanup_def turn_execution_of_def)

lemma quiet_load_failed: "quiet s (load_failed m r s)"
  by (simp add: load_failed_def) (simp add: quiet_def in_cleanup_def turn_execution_of_def)

lemma quiet_history_committed:
  assumes "history_committed r n b s = Some s'"
  shows "quiet s s'"
proof -
  have o: "ss_live (settle_outcomes n b s) = ss_live s \<and> ss_incarnation (settle_outcomes n b s) = ss_incarnation s \<and>
      ss_session_id (settle_outcomes n b s) = ss_session_id s \<and> ss_operation (settle_outcomes n b s) = ss_operation s"
    by (auto simp: settle_outcomes_def split: option.split)
  have c: "ss_live z = ss_live y \<and> ss_incarnation z = ss_incarnation y \<and> ss_session_id z = ss_session_id y \<and>
      ss_operation z = ss_operation y" if "consume_intent r y = Some z" for y z
    using that by (auto simp: consume_intent_def split: option.splits)
  from assms obtain z where "consume_intent r (settle_outcomes n b s) = Some z"
    "s' = advance_revision (z\<lparr>ss_history_revision := Some r, ss_active_overlay_bytes := 0, ss_phase := Ready,
       ss_active_turn := None, ss_active_payload_digest := None, ss_load_attempt := None, ss_load_origin := None,
       ss_sync_error := None\<rparr>)"
    by (auto simp: history_committed_def)
  with c [OF this(1)] o show ?thesis by (simp add: quiet_def in_cleanup_def turn_execution_of_def advance_revision_def)
qed

lemma quiet_complete_turn: "quiet s (snd (complete_turn E op t s))"
proof (cases "ss_active_turn s")
  case (Some turn)
  have "quiet s (s\<lparr>ss_active_overlay_bytes := n, ss_active_turn := Some (turn\<lparr>ov_execution := None, ov_terminal := v\<rparr>),
      ss_phase := p\<rparr>)" for n v p by (simp add: quiet_def in_cleanup_def turn_execution_of_def)
  with Some show ?thesis by (simp add: complete_turn_def Let_def)
qed (simp add: complete_turn_def)

lemma quiet_block_turn: "quiet s (snd (block_turn op m s))"
  by (auto simp: block_turn_def quiet_def in_cleanup_def turn_execution_of_def advance_revision_def)

lemma quiet_begin_exclusive: "quiet s (snd (begin_exclusive kind op s))"
  by (cases "ss_operation s")
     (auto simp: begin_exclusive_def can_begin_def try_in_def quiet_def in_cleanup_def turn_execution_of_def split: result.splits)

lemma quiet_settle: "\<not> in_cleanup s \<Longrightarrow> quiet s (snd (settle_exclusive adm op s))"
  by (auto simp: settle_exclusive_def quiet_def in_cleanup_def turn_execution_of_def split: option.splits)

lemma calm_call_then:
  assumes "calm sid rg (snd x)" "\<And>a rg1. x = (Ok a, rg1) \<Longrightarrow> calm sid rg1 (snd (g a rg1))"
  shows "calm sid rg (snd (call_then x g))"
proof (cases x)
  case (Pair r rg1)
  with assms show ?thesis by (cases r) (auto intro: calm_trans)
qed

lemma calm_try: "(\<And>a. r = Ok a \<Longrightarrow> calm sid rg (snd (f a))) \<Longrightarrow> calm sid rg (snd (try_in rg r f))"
  by (cases r) auto

lemma calm_expect: "(\<And>a. x = Some a \<Longrightarrow> calm sid rg (snd (f a))) \<Longrightarrow> calm sid rg (snd (expect_in rg x f))"
  by (cases x) auto

lemma calm_if: "(b \<Longrightarrow> calm sid rg (snd x)) \<Longrightarrow> (\<not> b \<Longrightarrow> calm sid rg (snd y)) \<Longrightarrow> calm sid rg (snd (if b then x else y))"
  by simp

lemmas calm_intros = calm_call_then calm_try calm_expect calm_if calm_history_call

lemma calm_put_owner:
  assumes "state_of sid rg = Some s" "quiet s s'" "calm sid (put_state sid s' rg) rg'"
  shows "calm sid rg rg'"
  by (rule calm_trans [OF calm_put_state [OF assms(1,2)] assms(3)])

lemma calm_begin_load: "calm sid rg (snd (begin_load sid inc a rg))"
  unfolding begin_load_def
proof (intro calm_intros; simp)
  fix rg1 s1
  assume s: "state_of sid rg1 = Some s1"
  show "calm sid rg1 (put_state sid (load_begun a s1) (stop_absence_in sid rg1))"
    by (rule calm_trans [OF calm_stop_absence calm_put_state]) (use s quiet_load_begun in \<open>simp_all add: registry_simps\<close>)
qed

lemma calm_load_records:
  "calm sid rg (snd (append_load_update E sid inc a u rg))" "calm sid rg (snd (invalidate_load sid inc a rg))"
  unfolding append_load_update_def invalidate_load_def by (intro calm_intros; simp)+

lemma calm_append_load_updates: "calm sid rg (snd (append_load_updates E sid inc a us rg))"
  by (induction us arbitrary: rg) (auto intro: calm_call_then calm_load_records)

lemma calm_committed:
  assumes "state_of sid rg1 = Some s1" "history_committed r n b s1 = Some s2"
  shows "calm sid rg1 ((put_state sid s2 rg1)\<lparr>rg_overlay_bytes := m\<rparr>)"
  by (rule calm_trans [OF calm_put_state [OF assms(1) quiet_history_committed [OF assms(2)]] calm_fields(2)])

lemma calm_commit_load: "calm sid rg (snd (commit_load E sid inc a rg))"
  unfolding commit_load_def Let_def
  by (intro calm_intros; simp)
     (auto simp: bind_eq_Some_conv intro!: calm_trans [OF calm_committed calm_prune])

lemma calm_commit_attachment: "calm sid rg (snd (commit_attachment_cache E sid inc a rg))"
  unfolding commit_attachment_cache_def
  by (intro calm_intros calm_commit_load; simp)
     (auto simp: require_state_Ok quiet_def in_cleanup_def turn_execution_of_def intro!: calm_put_state)

lemma calm_use_cached: "calm sid rg (snd (use_cached_history E sid inc us notice rg))"
  unfolding use_cached_history_def Let_def
proof (rule calm_try, rule calm_if)
  fix s
  assume s: "require_state sid inc rg = Ok s"
  show "calm sid rg (snd (call_then (begin_load sid inc ''bridge-cache-fallback'' (put_state sid (s\<lparr>ss_phase := Cold\<rparr>) rg)) (\<lambda>_ rg1.
      call_then (append_load_updates E sid inc ''bridge-cache-fallback'' us rg1) (\<lambda>_ rg2.
      call_then (commit_load E sid inc ''bridge-cache-fallback'' rg2) (\<lambda>_ rg3.
      try_in rg3 (require_state sid inc rg3) (\<lambda>s'.
        (Ok (), put_state sid (s'\<lparr>ss_history_notice := Some notice\<rparr>) rg3)))))))"
    by (rule calm_put_owner [where s' = "s\<lparr>ss_phase := Cold\<rparr>" and s = s])
       (use s in \<open>auto simp: require_state_Ok quiet_def in_cleanup_def turn_execution_of_def
          intro!: calm_intros calm_begin_load calm_append_load_updates calm_commit_load calm_put_state\<close>)
qed simp

lemma calm_fail_load: "calm sid rg (snd (fail_load sid inc a m r rg))"
  unfolding fail_load_def
  by (intro calm_intros; simp) (auto intro!: calm_put_state quiet_load_failed)

lemma calm_commit_memory: "calm sid rg (snd (commit_completed_turn_from_memory E sid inc op rg))"
  unfolding commit_completed_turn_from_memory_def
  by (intro calm_intros; simp) (auto simp: bind_eq_Some_conv intro!: calm_committed)

lemma calm_turn_end:
  "calm sid rg (snd (mirror_complete_turn E sid inc op t rg))" "calm sid rg (snd (mirror_block_turn sid inc op m rg))"
  unfolding mirror_complete_turn_def mirror_block_turn_def
  by (rule calm_with_overlay calm_with_state, simp add: quiet_complete_turn quiet_block_turn)+

lemma calm_touch: "calm sid rg (snd (mirror_touch sid inc rg))"
  unfolding mirror_touch_def by (rule calm_with_state) (simp add: Let_def)

lemma calm_begin_exclusive: "calm sid rg (snd (mirror_begin_exclusive sid inc kind op rg))"
  unfolding mirror_begin_exclusive_def by (intro calm_intros calm_with_state; simp add: quiet_begin_exclusive)

lemma calm_settle_exclusive:
  "pred_option (\<lambda>s. \<not> in_cleanup s) (state_of sid rg) \<Longrightarrow> calm sid rg (snd (mirror_settle_exclusive sid inc adm op rg))"
  unfolding mirror_settle_exclusive_def by (rule calm_with_state) (simp add: quiet_settle)

lemma calm_view: "calm sid rg (snd (mirror_view sid inc rg))"
  unfolding mirror_view_def by (rule calm_try) (auto simp: calm_fields split: prod.split option.split)

lemma calm_retained:
  assumes "state_of sid rg = Some s"
  shows "calm sid rg (put_state sid (advance_revision s) (rg\<lparr>rg_retained_terminal_bytes := n, rg_retained_terminals := ts\<rparr>))"
proof (rule calm_trans [OF calm_same calm_put_state])
  show "only_session sid rg (rg\<lparr>rg_retained_terminal_bytes := n, rg_retained_terminals := ts\<rparr>)"
    by (rule only_session_trans [OF only_session_fields(5) only_session_fields(4)])
  show "quiet s (advance_revision s)" by simp
qed (use assms in \<open>simp_all add: registry_simps\<close>)

lemma calm_retain_terminal: "calm sid rg (snd (retain_terminal_output E sid inc tid t rg))"
  unfolding retain_terminal_output_def Let_def
  by (intro calm_intros; simp) (auto simp: require_state_Ok intro!: calm_retained)

lemma clear_history_state:
  assumes "state_of sid rg = Some s"
  shows "state_of sid (clear_history_for_replacement E sid (ss_incarnation s) rg)
       = Some ((session_cold sid (ss_incarnation s))\<lparr>ss_live := ss_live s, ss_operation := ss_operation s,
           ss_view_revision := next_revision (ss_view_revision s)\<rparr>)"
proof -
  have r: "state_of k (remove_retained_terminals E key rg1) = state_of k rg1" for k key rg1
    by (simp add: remove_retained_terminals_def registry_simps split: option.split)
  from assms show ?thesis by (simp add: clear_history_for_replacement_def Let_def r registry_simps)
qed

lemma calm_clear_history:
  assumes "named sid rg"
  shows "calm sid rg (clear_history_for_replacement E sid inc rg)"
proof (cases "\<exists>s. state_of sid rg = Some s \<and> ss_incarnation s = inc")
  case True
  then obtain s where s: "state_of sid rg = Some s" "ss_incarnation s = inc" by blast
  have "ss_session_id s = sid" using assms s(1) by (simp add: named_def)
  then show ?thesis using clear_history_state [OF s(1), of E] s only_session_clear [of sid rg E inc]
    by (simp add: calm_def named_def quiet_def session_cold_def in_cleanup_def turn_execution_of_def)
qed (use clear_history_other in \<open>auto\<close>)

lemma calm_retire:
  assumes "state_of sid rg = Some s" "ss_incarnation s = inc" "ss_live s = None"
  shows "calm sid rg (retire_entry sid inc reason rg)"
  using state_of_retired [OF assms(1,2), of reason] assms(1,3) only_session_retire [of sid rg inc reason]
  by (simp add: calm_def named_def unattached_def turn_carried_def)

lemma calm_register:
  assumes "named sid rg" "pred_option (\<lambda>s. ss_live s = None \<or> ss_incarnation s = inc) (state_of sid rg)"
  shows "calm sid (rg\<lparr>rg_next_incarnation := max (rg_next_incarnation rg) inc\<rparr>) (register_history E sid inc ready rg)"
proof -
  let ?rg = "rg\<lparr>rg_next_incarnation := max (rg_next_incarnation rg) inc\<rparr>"
  let ?p = "replace_previous E sid inc ?rg"
  have n: "named sid ?rg" "state_of sid ?rg = state_of sid rg" using assms(1) by (simp_all add: named_def registry_simps)
  have p: "calm sid ?rg ?p \<and> (\<forall>s. state_of sid ?p = Some s \<longrightarrow> ss_incarnation s = inc \<and> ss_active_turn s = None)"
  proof (cases "state_of sid rg")
    case (Some s)
    let ?c = "clear_history_for_replacement E sid (ss_incarnation s) ?rg"
    have c: "calm sid ?rg ?c" by (rule calm_clear_history [OF n(1)])
    have cs: "state_of sid ?c = Some ((session_cold sid (ss_incarnation s))\<lparr>ss_live := ss_live s,
        ss_operation := ss_operation s, ss_view_revision := next_revision (ss_view_revision s)\<rparr>)"
      by (rule clear_history_state) (simp add: n(2) Some)
    show ?thesis
    proof (cases "ss_incarnation s = inc")
      case True
      then show ?thesis using c cs Some n(2) by (simp add: replace_previous_def Let_def session_cold_def)
    next
      case False
      then have l: "ss_live s = None" using assms(2) Some by simp
      have "calm sid ?c (retire_entry sid (ss_incarnation s) reason ?c)" for reason
        by (rule calm_retire [OF cs]) (simp_all add: session_cold_def l)
      moreover have "state_of sid (retire_entry sid (ss_incarnation s) reason ?c) = None" for reason
        by (rule state_of_retired [OF cs]) (simp add: session_cold_def)
      ultimately show ?thesis using c False Some n(2) calm_trans by (auto simp: replace_previous_def Let_def)
    qed
  qed (simp add: replace_previous_def n(2))
  obtain snapshot history where h: "install_empty E (SessionKey sid inc) (rg_history ?p) = (snapshot, history)" by fastforce
  define fresh where "fresh = (if ready then session_ready sid inc (hs_revision snapshot) else session_cold sid inc)"
  have f: "ss_session_id fresh = sid" "ss_incarnation fresh = inc" "ss_active_turn fresh = None" "ss_live fresh = None"
    by (auto simp: fresh_def session_ready_def session_cold_def)
  have q: "quiet s (fresh\<lparr>ss_live := ss_live s, ss_operation := ss_operation s, ss_view_revision := ss_view_revision s\<rparr>)"
    if "state_of sid ?p = Some s" for s
  proof -
    have "ss_session_id s = sid" "ss_incarnation s = inc" "ss_active_turn s = None"
      using p that n(1) by (auto simp: calm_def named_def)
    then show ?thesis using f by (simp add: quiet_def in_cleanup_def turn_execution_of_def)
  qed
  have "calm sid ?p (case state_of sid (?p\<lparr>rg_history := history\<rparr>) of
      Some s \<Rightarrow> put_state sid (fresh\<lparr>ss_live := ss_live s, ss_operation := ss_operation s,
        ss_view_revision := ss_view_revision s\<rparr>) (?p\<lparr>rg_history := history\<rparr>)
    | None \<Rightarrow> put_entry sid (entry_new fresh) (?p\<lparr>rg_history := history\<rparr>))"
  proof (cases "state_of sid ?p")
    case None
    then show ?thesis using f only_session_trans [OF only_session_fields(1) only_session_put_entry]
      by (simp add: registry_simps calm_def named_def unattached_def entry_new_def turn_carried_def turn_execution_of_def)
  next
    case (Some s)
    have "calm sid (?p\<lparr>rg_history := history\<rparr>) (put_state sid (fresh\<lparr>ss_live := ss_live s, ss_operation := ss_operation s,
        ss_view_revision := ss_view_revision s\<rparr>) (?p\<lparr>rg_history := history\<rparr>))"
      by (rule calm_put_state [OF _ q [OF Some]]) (simp add: Some registry_simps)
    from calm_trans [OF calm_fields(1) this] Some show ?thesis by (simp add: registry_simps)
  qed
  with p calm_trans show ?thesis
    unfolding register_history_def Let_def h prod.case fresh_def by blast
qed

lemma calm_remove:
  assumes "named sid rg"
  shows "calm sid rg (mirror_remove E sid inc rg)"
proof -
  let ?c = "clear_history_for_replacement E sid inc rg"
  note c = calm_clear_history [OF assms, of E inc]
  have "calm sid ?c (retire_entry sid inc ''session was removed'' ?c)"
    if "entry_of sid ?c = Some e" "ss_incarnation (en_state e) = inc" "ss_live (en_state e) = None" for e
    by (rule calm_retire [where s = "en_state e"]) (use that in \<open>simp_all add: state_of_def\<close>)
  with c calm_trans show ?thesis by (auto simp: mirror_remove_def Let_def split: option.split)
qed

end
