(* ===== verification/Canonical_Projection.thy ===== *)
theory Canonical_Projection
  imports Runtime_State
begin

text \<open>
  The copy of the published state the server keeps (\<open>CanonicalProjection\<close> in \<open>src/src/server.rs\<close>): a
  snapshot that each delta carries on, and that is given up when a delta does not continue it. A
  delta's outcome is \<open>Ok\<close> of the snapshot it leaves, \<open>Err\<close> where the code returns false, and \<open>Panic\<close>
  where folding a terminal's record panics.
\<close>

definition retire_released_terminals :: "runtime_snapshot \<Rightarrow> runtime_snapshot" where
  "retire_released_terminals sn = sn\<lparr>sn_sessions := map (\<lambda>e. (fst e,
     (snd e)\<lparr>sr_terminals := bt_retain (\<lambda>_ t. \<not> terminal_released t) (sr_terminals (snd e))\<rparr>)) (sn_sessions sn)\<rparr>"

definition put_session :: "session_runtime \<Rightarrow> string \<Rightarrow> runtime_snapshot \<Rightarrow> runtime_snapshot" where
  "put_session v sid sn = sn\<lparr>sn_sessions := bt_insert sid v (sn_sessions sn)\<rparr>"

text \<open>
  A delta on a session names the incarnation that is shown and its next revision; what follows is done
  to that session.
\<close>

definition on_shown :: "string \<Rightarrow> u64 \<Rightarrow> u64 \<Rightarrow> u64 option \<Rightarrow> (session_runtime \<Rightarrow> (unit, session_runtime) result)
    \<Rightarrow> runtime_snapshot \<Rightarrow> (unit, runtime_snapshot) result" where
  "on_shown sid inc revision scope f sn =
     (if scope \<noteq> Some revision then Err ()
      else res_bind (ok_or () (bt_get (sn_sessions sn) sid)) (\<lambda>v.
        if sr_incarnation v \<noteq> inc \<or> revision \<noteq> sat_succ (sr_revision v) then Err ()
        else res_bind (f v) (\<lambda>v'. Ok (put_session (v'\<lparr>sr_revision := revision\<rparr>) sid sn))))"

definition upsert_continues :: "session_runtime \<Rightarrow> session_runtime option \<Rightarrow> bool" where
  "upsert_continues v current \<longleftrightarrow>
     (case current of
        Some c \<Rightarrow>
          if sr_incarnation c = sr_incarnation v then sr_revision v = sat_succ (sr_revision c)
          else sr_lifecycle c = Closed \<and> sr_revision v = 1
      | None \<Rightarrow> sr_revision v = 1)"

fun apply_change :: "env \<Rightarrow> u64 option \<Rightarrow> runtime_change \<Rightarrow> runtime_snapshot \<Rightarrow> (unit, runtime_snapshot) result" where
  "apply_change E scope (ConnectionUpsert es fs) sn =
     res_bind (ok_or () scope) (\<lambda>revision.
       if revision \<noteq> sat_succ (sn_connection_revision sn) then Err ()
       else Ok (sn\<lparr>sn_connection_revision := revision, sn_request_elicitations := es, sn_request_url_flows := fs\<rparr>))"
| "apply_change E scope (SessionUpsert v) sn =
     (if scope \<noteq> Some (sr_revision v) \<or>
         \<not> upsert_continues v (bt_get (sn_sessions sn) (sr_session_id v)) then Err ()
      else Ok (put_session v (sr_session_id v) sn))"
| "apply_change E scope (SessionControlUpdated sid inc revision key update hrev ph err) sn =
     on_shown sid inc revision scope (\<lambda>v. Ok (v\<lparr>sr_control_state := bt_insert key update (sr_control_state v),
       sr_history_revision := hrev, sr_phase := ph, sr_sync_error := err\<rparr>)) sn"
| "apply_change E scope (TurnUpdateAppended sid inc revision operation_id update) sn =
     on_shown sid inc revision scope (\<lambda>v.
       res_bind (ok_or () (sr_active_turn v)) (\<lambda>turn.
         if at_operation_id turn \<noteq> operation_id then Err ()
         else res_bind (map_err (\<lambda>_. ()) (fold_shared_active_turn_update (at_updates turn) update)) (\<lambda>folded.
           Ok (v\<lparr>sr_active_turn := Some (turn\<lparr>at_updates := folded\<rparr>)\<rparr>)))) sn"
| "apply_change E scope (TerminalUpdated sid inc revision terminal_id terminal) sn =
     on_shown sid inc revision scope (\<lambda>v.
       if Option.bind (json_get terminal ''released'') as_bool = Some True
       then Ok (v\<lparr>sr_terminals := bt_remove terminal_id (sr_terminals v)\<rparr>)
       else (case fold_terminal_snapshot E (bt_get (sr_terminals v) terminal_id) terminal of
           Some t \<Rightarrow> Ok (v\<lparr>sr_terminals := bt_insert terminal_id t (sr_terminals v)\<rparr>)
         | None \<Rightarrow> Panic)) sn"
| "apply_change E scope (SessionRemoved sid inc) sn =
     (if (case bt_get (sn_sessions sn) sid of Some v \<Rightarrow> sr_incarnation v \<noteq> inc | None \<Rightarrow> False) then Err ()
      else Ok (sn\<lparr>sn_sessions := bt_remove sid (sn_sessions sn)\<rparr>))"

definition apply_delta :: "env \<Rightarrow> runtime_delta \<Rightarrow> runtime_snapshot \<Rightarrow> (unit, runtime_snapshot) result" where
  "apply_delta E d sn =
     (if rd_epoch d \<noteq> sn_epoch sn \<or> rd_seq d \<noteq> sat_succ (sn_through_seq sn) then Err ()
      else res_bind (apply_change E (rd_scope_revision d) (rd_change d) sn)
        (\<lambda>sn'. Ok (sn'\<lparr>sn_through_seq := rd_seq d\<rparr>)))"

text \<open>\<open>None\<close> is a projection given up: only a snapshot brings it back.\<close>

definition apply_snapshot :: "runtime_snapshot \<Rightarrow> runtime_snapshot option" where
  "apply_snapshot sn = Some (retire_released_terminals sn)"

definition apply_runtime_delta :: "env \<Rightarrow> runtime_delta \<Rightarrow> runtime_snapshot option
    \<Rightarrow> (unit, runtime_snapshot option) result" where
  "apply_runtime_delta E d p =
     (case p of
        None \<Rightarrow> Ok None
      | Some sn \<Rightarrow>
          (case apply_delta E d sn of
             Ok sn' \<Rightarrow> Ok (Some (retire_released_terminals sn'))
           | Err _ \<Rightarrow> Ok None
           | Panic \<Rightarrow> Panic))"

end
