(* ===== verification/Runtime_Projection.thy ===== *)
theory Runtime_Projection
  imports Runtime_Calls Session_Frames Canonical_Projection
begin

text \<open>
  One step of the runtime and the delta it commits: a projection that shows the registry before the
  step shows it after, once the delta is applied. What a projection may lag behind in is named by
  \<open>same_view\<close>: an operation reserved or a turn ended in the history, which the next commit publishes.
\<close>

section \<open>Showing a registry\<close>

definition same_view :: "session_runtime option \<Rightarrow> session_runtime option \<Rightarrow> bool" where
  "same_view shown actual \<longleftrightarrow>
     (case actual of
        None \<Rightarrow> shown = None
      | Some w \<Rightarrow> (\<exists>op t. shown = Some (w\<lparr>sr_operation := op, sr_active_turn := t\<rparr>) \<and>
          (sr_active_turn w = None \<or> t = sr_active_turn w)))"

lemma same_view_refl [simp]: "same_view v v"
proof (cases v)
  case (Some w)
  then show ?thesis
    by (simp add: same_view_def) (rule exI [of _ "sr_operation w"], rule exI [of _ "sr_active_turn w"], simp)
qed (simp add: same_view_def)

definition follows :: "runtime_snapshot \<Rightarrow> session_registry \<Rightarrow> bool" where
  "follows sn rg \<longleftrightarrow>
     sn_epoch sn = rg_epoch rg \<and> sn_through_seq sn = jn_seq (rg_journal rg) \<and>
     sn_connection_revision sn = rg_connection_revision rg \<and>
     sn_request_elicitations sn = rg_request_elicitations rg \<and>
     sn_request_url_flows sn = rg_request_url_flows rg \<and> bt_wf (sn_sessions sn) \<and>
     (\<forall>sid. same_view (bt_get (sn_sessions sn) sid) (session_runtime_of sid rg))"

text \<open>
  What the published counters and maps keep to: a revision goes up with a commit, an incarnation is
  handed out once, and a terminal that was released is not shown.
\<close>

definition live_published :: "session_registry \<Rightarrow> session_state \<Rightarrow> session_live_state \<Rightarrow> bool" where
  "live_published rg s l \<longleftrightarrow> lv_revision l \<le> jn_seq (rg_journal rg) \<and> ss_incarnation s \<le> rg_next_incarnation rg \<and>
     list_all (\<lambda>e. \<not> terminal_released (snd e)) (lv_terminals l)"

definition published_ok :: "session_registry \<Rightarrow> bool" where
  "published_ok rg \<longleftrightarrow> rg_connection_revision rg \<le> jn_seq (rg_journal rg) \<and>
     (\<forall>sid s l. state_of sid rg = Some s \<longrightarrow> ss_live s = Some l \<longrightarrow> live_published rg s l)"

text \<open>Counters of 64 bits that have not run out.\<close>

definition room :: "session_registry \<Rightarrow> bool" where
  "room rg \<longleftrightarrow> jn_seq (rg_journal rg) < - 1 \<and> rg_next_incarnation rg < - 1"

definition next_delta :: "session_registry \<Rightarrow> u64 option \<Rightarrow> runtime_change \<Rightarrow> runtime_delta" where
  "next_delta rg scope change = \<lparr>rd_epoch = rg_epoch rg, rd_seq = next_revision (jn_seq (rg_journal rg)),
     rd_scope_revision = scope, rd_change = change\<rparr>"

definition committed :: "env \<Rightarrow> session_registry \<Rightarrow> runtime_delta \<Rightarrow> session_registry \<Rightarrow> bool" where
  "committed E rg d rg' \<longleftrightarrow> rg_epoch rg' = rg_epoch rg \<and>
     (\<exists>j scope change. journal_before rg j \<and> d = next_delta rg scope change \<and>
        rg_journal rg' = journal_commit E (rg_epoch rg) scope change j)"

definition projected :: "env \<Rightarrow> session_registry \<Rightarrow> session_registry \<Rightarrow> bool" where
  "projected E rg rg' \<longleftrightarrow>
     rg_journal rg' = rg_journal rg \<and> rg_epoch rg' = rg_epoch rg \<and> (\<forall>sn. follows sn rg \<longrightarrow> follows sn rg') \<or>
     (\<exists>d. committed E rg d rg' \<and>
        (\<forall>sn. follows sn rg \<longrightarrow> (\<exists>sn'. apply_delta E d sn = Ok sn' \<and> follows sn' rg')))"

section \<open>Counters\<close>

lemma max_word_less: "(n :: u64) < - 1 \<longleftrightarrow> n \<noteq> - 1"
  using word_order.not_eq_extremum [of n] by auto

lemma unat_max [simp]: "unat (- 1 :: u64) = 2 ^ 64 - 1"
  by (simp add: unsigned_minus_1_eq_mask mask_eq_exp_minus_1)

lemma unat_less_max: "(n :: u64) < - 1 \<longleftrightarrow> unat n < 2 ^ 64 - 1"
  by (simp add: word_less_nat_alt)

lemma unat_next: "n < - 1 \<Longrightarrow> unat (next_revision n) = Suc (unat n)"
  by (rule unat_next_revision) (simp add: unat_less_max)

lemma next_revision_sat:
  assumes "n < - 1"
  shows "next_revision n = sat_succ n"
proof -
  have "unat (n + 1) = Suc (unat n)" using assms by (simp add: unat_less_max unat_word_ariths)
  then have "next_revision n = n + 1" using unat_next [OF assms] by (simp add: word_unat_eq_iff)
  then show ?thesis using assms by (simp add: sat_succ_def max_word_less)
qed

lemma jn_seq_before: "journal_before rg j \<Longrightarrow> jn_seq j = jn_seq (rg_journal rg)"
  by (auto simp: journal_before_def retire_turn_payload_def Let_def)

lemma journal_commit_seq [simp]: "jn_seq (journal_commit E ep scope change j) = next_revision (jn_seq j)"
  by (simp add: journal_commit_def Let_def)

lemma next_revision_mono: "m \<le> n \<Longrightarrow> n < - 1 \<Longrightarrow> next_revision m \<le> next_revision n"
  by (simp add: word_le_nat_alt unat_next order.strict_trans1 word_less_nat_alt)

lemma next_revision_less: "m \<le> n \<Longrightarrow> n < - 1 \<Longrightarrow> m < next_revision n"
  by (simp add: word_le_nat_alt unat_next order.strict_trans1 word_less_nat_alt)

lemma next_revision_0 [simp]: "next_revision 0 = 1"
  by (simp add: next_revision_def)

section \<open>Applying the delta of a commit\<close>

lemma follows_session:
  "follows sn rg \<Longrightarrow> same_view (bt_get (sn_sessions sn) sid) (session_runtime_of sid rg)"
  by (simp add: follows_def)

lemma follows_apply:
  assumes f: "follows sn rg" and room: "room rg"
    and d: "d = next_delta rg scope change" and c: "committed E rg d rg'"
    and a: "apply_change E scope change sn = Ok sm"
    and sm: "sn_epoch sm = sn_epoch sn" "sn_connection_revision sm = rg_connection_revision rg'"
      "sn_request_elicitations sm = rg_request_elicitations rg'" "sn_request_url_flows sm = rg_request_url_flows rg'"
      "bt_wf (sn_sessions sm)" "\<And>sid. same_view (bt_get (sn_sessions sm) sid) (session_runtime_of sid rg')"
  shows "\<exists>sn'. apply_delta E d sn = Ok sn' \<and> follows sn' rg'"
proof -
  have "rd_epoch d = sn_epoch sn \<and> rd_seq d = sat_succ (sn_through_seq sn)"
    using f room by (simp add: d next_delta_def follows_def room_def next_revision_sat)
  moreover have "rd_seq d = jn_seq (rg_journal rg')" "rg_epoch rg' = rg_epoch rg"
    using c by (auto simp: committed_def next_delta_def jn_seq_before)
  ultimately show ?thesis
    using a f sm by (simp add: apply_delta_def d next_delta_def follows_def)
qed

lemma committed_delta:
  assumes "rg_epoch rg0 = rg_epoch rg" "journal_before rg (rg_journal rg0)"
  shows "committed E rg (next_delta rg scope change) (commit_delta E scope change rg0)"
  using assms by (auto simp: committed_def commit_delta_def)

text \<open>Where one session has changed, and the projection is made to show it.\<close>

lemma same_view_other:
  assumes "follows sn rg" "\<And>k. k \<noteq> sid \<Longrightarrow> state_of k rg' = state_of k rg"
    and "same_view (bt_get m sid) (session_runtime_of sid rg')"
    and "\<And>k. k \<noteq> sid \<Longrightarrow> bt_get m k = bt_get (sn_sessions sn) k"
  shows "same_view (bt_get m k) (session_runtime_of k rg')"
  using assms follows_session [OF assms(1), of k] by (cases "k = sid") (simp_all add: session_runtime_of_def)

section \<open>A session is published again\<close>

lemma put_state_runtime [registry_simps]:
  "rg_connection_revision (put_state sid s rg) = rg_connection_revision rg"
  "rg_request_elicitations (put_state sid s rg) = rg_request_elicitations rg"
  "rg_request_url_flows (put_state sid s rg) = rg_request_url_flows rg"
  "rg_next_incarnation (put_state sid s rg) = rg_next_incarnation rg"
  by (simp_all add: put_state_def put_entry_def split: option.split)

lemma commit_delta_fields [registry_simps]:
  "rg_connection_revision (commit_delta E scope change rg) = rg_connection_revision rg"
  "rg_request_elicitations (commit_delta E scope change rg) = rg_request_elicitations rg"
  "rg_request_url_flows (commit_delta E scope change rg) = rg_request_url_flows rg"
  "rg_next_incarnation (commit_delta E scope change rg) = rg_next_incarnation rg"
  "rg_epoch (commit_delta E scope change rg) = rg_epoch rg"
  "rg_journal (commit_delta E scope change rg) = journal_commit E (rg_epoch rg) scope change (rg_journal rg)"
  by (simp_all add: commit_delta_def)

lemma add_effects_fields [registry_simps]:
  "rg_connection_revision (add_effects fx rg) = rg_connection_revision rg"
  "rg_request_elicitations (add_effects fx rg) = rg_request_elicitations rg"
  "rg_request_url_flows (add_effects fx rg) = rg_request_url_flows rg"
  "rg_next_incarnation (add_effects fx rg) = rg_next_incarnation rg"
  "rg_epoch (add_effects fx rg) = rg_epoch rg"
  "rg_journal (add_effects fx rg) = rg_journal rg"
  "rg_sessions (add_effects fx rg) = rg_sessions rg"
  by (simp_all add: add_effects_def)

text \<open>The connection as it was: what a change of sessions leaves alone.\<close>

definition same_connection :: "session_registry \<Rightarrow> session_registry \<Rightarrow> bool" where
  "same_connection rg rg' \<longleftrightarrow> rg_epoch rg' = rg_epoch rg \<and> rg_connection_revision rg' = rg_connection_revision rg \<and>
     rg_request_elicitations rg' = rg_request_elicitations rg \<and> rg_request_url_flows rg' = rg_request_url_flows rg"

lemma session_view_eq:
  assumes "session_view s \<noteq> None" "ss_live s = Some l"
  shows "session_view s = Some \<lparr>sr_session_id = ss_session_id s, sr_incarnation = ss_incarnation s,
         sr_revision = lv_revision l, sr_cwd = lv_cwd l, sr_session = lv_session l,
         sr_control_state = lv_control_state l, sr_lifecycle = lv_lifecycle l,
         sr_active_turn = active_turn_of s, sr_operation = ss_operation s,
         sr_permissions = lv_permissions l, sr_elicitations = lv_elicitations l,
         sr_url_flows = lv_url_flows l, sr_terminals = lv_terminals l,
         sr_history_revision = lv_history_revision l, sr_phase = lv_phase l,
         sr_sync_error = lv_sync_error l\<rparr>"
  using assms by (auto simp: session_view_def split: if_splits)

lemma session_view_revision:
  assumes "session_view s = Some v"
  shows "\<exists>l. ss_live s = Some l \<and> sr_revision v = lv_revision l \<and> sr_incarnation v = ss_incarnation s \<and>
    sr_session_id v = ss_session_id s \<and> sr_lifecycle v = lv_lifecycle l \<and> sr_terminals v = lv_terminals l"
  using assms by (cases "ss_live s") (auto simp: session_view_def split: if_splits)

lemma upserted_eq:
  assumes "state_of sid rg = Some s" "ss_live s = Some l" "session_view s \<noteq> None"
  obtains v where "session_view (s\<lparr>ss_live := Some (refresh_header s l)\<rparr>) = Some v"
    "sr_revision v = next_revision (lv_revision l)" "sr_incarnation v = ss_incarnation s" "sr_session_id v = ss_session_id s"
    "upserted E sid rg = commit_delta E (Some (sr_revision v)) (SessionUpsert v)
       (put_state sid (s\<lparr>ss_live := Some (refresh_header s l)\<rparr>) rg)"
proof -
  let ?s = "s\<lparr>ss_live := Some (refresh_header s l)\<rparr>"
  have "session_view ?s \<noteq> None" using assms(2,3) unfolding session_view_Some by simp
  then obtain v where v: "session_view ?s = Some v" by blast
  from session_view_revision [OF this] have f: "sr_revision v = next_revision (lv_revision l)" 
    "sr_incarnation v = ss_incarnation s" "sr_session_id v = ss_session_id s"
    by (auto simp: refresh_header_def)
  have "session_runtime_of sid (put_state sid ?s rg) = Some v"
    using assms(1) v by (simp add: session_runtime_of_def registry_simps)
  then have "upserted E sid rg = commit_delta E (Some (sr_revision v)) (SessionUpsert v) (put_state sid ?s rg)"
    using assms(1,2) f(1) by (simp add: upserted_def commit_session_def Let_def refresh_header_def)
  with v f that show ?thesis by blast
qed

definition continues :: "session_runtime option \<Rightarrow> session_state \<Rightarrow> session_live_state \<Rightarrow> bool" where
  "continues shown s l \<longleftrightarrow>
     (case shown of
        Some w \<Rightarrow>
          if sr_incarnation w = ss_incarnation s then lv_revision l = sr_revision w \<and> lv_revision l < - 1
          else sr_lifecycle w = Closed \<and> lv_revision l = 0
      | None \<Rightarrow> lv_revision l = 0)"

lemma same_view_fields:
  "same_view shown (Some w) \<Longrightarrow> \<exists>v. shown = Some v \<and> sr_incarnation v = sr_incarnation w \<and>
     sr_revision v = sr_revision w \<and> sr_lifecycle v = sr_lifecycle w \<and> sr_terminals v = sr_terminals w"
  by (auto simp: same_view_def)

lemma projected_upsert:
  assumes room: "room rg" and rg1: "same_connection rg rg1" "journal_before rg (rg_journal rg1)"
    and s: "state_of sid rg1 = Some s" "ss_live s = Some l" "session_view s \<noteq> None" "ss_session_id s = sid"
    and other: "\<And>k. k \<noteq> sid \<Longrightarrow> state_of k rg1 = state_of k rg"
    and cont: "continues (session_runtime_of sid rg) s l"
  shows "projected E rg (upserted E sid rg1)"
proof -
  from upserted_eq [OF s(1-3)] obtain v where
    v: "session_view (s\<lparr>ss_live := Some (refresh_header s l)\<rparr>) = Some v"
    "sr_revision v = next_revision (lv_revision l)" "sr_incarnation v = ss_incarnation s" "sr_session_id v = sid"
    "upserted E sid rg1 = commit_delta E (Some (sr_revision v)) (SessionUpsert v)
       (put_state sid (s\<lparr>ss_live := Some (refresh_header s l)\<rparr>) rg1)"
    using s(4) by metis
  let ?rg = "upserted E sid rg1" and ?d = "next_delta rg (Some (sr_revision v)) (SessionUpsert v)"
  have st: "state_of k ?rg = (if k = sid then Some (s\<lparr>ss_live := Some (refresh_header s l)\<rparr>) else state_of k rg)" for k
    unfolding v(5) using s(1) other [of k] by (simp add: registry_simps)
  have c: "committed E rg ?d ?rg" unfolding v(5)
    by (rule committed_delta) (use rg1 in \<open>simp_all add: registry_simps same_connection_def\<close>)
  have "\<exists>sn'. apply_delta E ?d sn = Ok sn' \<and> follows sn' ?rg" if f: "follows sn rg" for sn
  proof (rule follows_apply [OF f room refl c])
    have "upsert_continues v (bt_get (sn_sessions sn) sid)"
    proof (cases "session_runtime_of sid rg")
      case None
      then show ?thesis using follows_session [OF f, of sid] cont v(2)
        by (simp add: same_view_def upsert_continues_def continues_def)
    next
      case (Some w)
      with same_view_fields [of "bt_get (sn_sessions sn) sid" w] follows_session [OF f, of sid] cont v(2,3)
      show ?thesis by (auto simp: upsert_continues_def continues_def next_revision_sat split: if_splits)
    qed
    then show "apply_change E (Some (sr_revision v)) (SessionUpsert v) sn = Ok (put_session v sid sn)"
      by (simp add: v(4))
    show "same_view (bt_get (sn_sessions (put_session v sid sn)) k) (session_runtime_of k ?rg)" for k
      by (rule same_view_other [OF f, where sid = sid])
         (simp_all add: st put_session_def bt_get_insert session_runtime_of_def v(1))
  qed (use f rg1(1) in \<open>simp_all add: put_session_def follows_def bt_wf_insert v(5) registry_simps same_connection_def\<close>)
  then show ?thesis using c unfolding projected_def by blast
qed

section \<open>A shown session is changed in place\<close>

lemma projected_shown:
  assumes room: "room rg" and rg1: "same_connection rg rg1" "rg_journal rg1 = rg_journal rg"
    and s: "state_of sid rg = Some s" "ss_live s = Some l" "session_view s \<noteq> None" "ss_incarnation s = inc"
    and rev: "lv_revision l < - 1" "r = next_revision (lv_revision l)"
    and s1: "state_of sid rg1 = Some s1" and other: "\<And>k. k \<noteq> sid \<Longrightarrow> state_of k rg1 = state_of k rg"
    and a: "\<And>sn. apply_change E (Some r) change sn = on_shown sid inc r (Some r) f sn"
    and f: "\<And>v. same_view (Some v) (session_view s) \<Longrightarrow>
      \<exists>v'. f v = Ok v' \<and> same_view (Some (v'\<lparr>sr_revision := r\<rparr>)) (session_view s1)"
  shows "projected E rg (commit_delta E (Some r) change rg1)"
proof -
  let ?rg = "commit_delta E (Some r) change rg1" and ?d = "next_delta rg (Some r) change"
  have c: "committed E rg ?d ?rg"
    by (rule committed_delta) (use rg1 in \<open>simp_all add: same_connection_def journal_before_def\<close>)
  have "\<exists>sn'. apply_delta E ?d sn = Ok sn' \<and> follows sn' ?rg" if fo: "follows sn rg" for sn
  proof -
    have view: "same_view (bt_get (sn_sessions sn) sid) (session_view s)"
      using follows_session [OF fo, of sid] s(1) by (simp add: session_runtime_of_def)
    then obtain v where v: "bt_get (sn_sessions sn) sid = Some v" "same_view (Some v) (session_view s)"
      using s(3) by (auto simp: same_view_def split: option.splits)
    from session_view_eq [OF s(3,2)] v(2) same_view_fields [of "Some v"]
    have i: "sr_incarnation v = inc" "sr_revision v = lv_revision l" using s(4) by fastforce+
    from f [OF v(2)] obtain v' where v': "f v = Ok v'" "same_view (Some (v'\<lparr>sr_revision := r\<rparr>)) (session_view s1)"
      by blast
    show ?thesis
    proof (rule follows_apply [OF fo room refl c])
      show "apply_change E (Some r) change sn = Ok (put_session (v'\<lparr>sr_revision := r\<rparr>) sid sn)"
        unfolding a by (simp add: on_shown_def v(1) v'(1) i rev(2) next_revision_sat [OF rev(1)])
      show "same_view (bt_get (sn_sessions (put_session (v'\<lparr>sr_revision := r\<rparr>) sid sn)) k) (session_runtime_of k ?rg)" for k
        by (rule same_view_other [OF fo, where sid = sid])
           (use other s1 v'(2) in \<open>simp_all add: put_session_def bt_get_insert session_runtime_of_def registry_simps\<close>)
    qed (use fo rg1(1) in \<open>simp_all add: put_session_def follows_def bt_wf_insert registry_simps same_connection_def\<close>)
  qed
  then show ?thesis using c unfolding projected_def by blast
qed

text \<open>What stays out of the view, and what is removed from it.\<close>

lemma follows_still:
  assumes "same_connection rg rg'" "rg_journal rg' = rg_journal rg"
    and "\<And>k shown. same_view shown (session_runtime_of k rg) \<Longrightarrow> same_view shown (session_runtime_of k rg')"
  shows "follows sn rg \<Longrightarrow> follows sn rg'"
  using assms by (auto simp: follows_def same_connection_def)

lemma projected_still:
  assumes "same_connection rg rg'" "rg_journal rg' = rg_journal rg"
    and "\<And>k shown. same_view shown (session_runtime_of k rg) \<Longrightarrow> same_view shown (session_runtime_of k rg')"
  shows "projected E rg rg'"
  using follows_still [OF assms] assms(1,2) by (simp add: projected_def same_connection_def)

lemma projected_remove:
  assumes room: "room rg" and rg1: "same_connection rg rg1" "rg_journal rg1 = rg_journal rg"
    and s: "state_of sid rg = Some s" "ss_incarnation s = inc"
    and s1: "session_runtime_of sid rg1 = None" and other: "\<And>k. k \<noteq> sid \<Longrightarrow> state_of k rg1 = state_of k rg"
  shows "projected E rg (commit_removal E sid inc rg1)"
proof -
  let ?rg = "commit_removal E sid inc rg1" and ?d = "next_delta rg None (SessionRemoved sid inc)"
  have c: "committed E rg ?d ?rg" unfolding commit_removal_def
    by (rule committed_delta) (use rg1 in \<open>simp_all add: same_connection_def journal_before_def\<close>)
  have "\<exists>sn'. apply_delta E ?d sn = Ok sn' \<and> follows sn' ?rg" if fo: "follows sn rg" for sn
  proof (rule follows_apply [OF fo room refl c])
    have view: "same_view (bt_get (sn_sessions sn) sid) (session_view s)"
      using follows_session [OF fo, of sid] s(1) by (simp add: session_runtime_of_def)
    have "pred_option (\<lambda>v. sr_incarnation v = inc) (bt_get (sn_sessions sn) sid)"
    proof (cases "session_view s")
      case (Some w)
      with view same_view_fields [of "bt_get (sn_sessions sn) sid" w] session_view_revision [OF Some] s(2)
      show ?thesis by (auto simp: pred_option_def)
    qed (use view in \<open>simp add: same_view_def pred_option_def\<close>)
    then show "apply_change E None (SessionRemoved sid inc) sn
        = Ok (sn\<lparr>sn_sessions := bt_remove sid (sn_sessions sn)\<rparr>)"
      by (auto simp: pred_option_def split: option.split)
    show "same_view (bt_get (sn_sessions (sn\<lparr>sn_sessions := bt_remove sid (sn_sessions sn)\<rparr>)) k)
        (session_runtime_of k ?rg)" for k
      by (rule same_view_other [OF fo, where sid = sid])
         (use s1 other in \<open>simp_all add: bt_get_remove session_runtime_of_def registry_simps commit_removal_def\<close>)
  qed (use fo rg1(1) in \<open>simp_all add: follows_def registry_simps same_connection_def commit_removal_def\<close>)
  then show ?thesis using c unfolding projected_def by blast
qed

lemma projected_connection:
  assumes room: "room rg" "rg_connection_revision rg < - 1"
    and rg1: "rg_epoch rg1 = rg_epoch rg" "rg_journal rg1 = rg_journal rg"
      "rg_connection_revision rg1 = rg_connection_revision rg" "rg_sessions rg1 = rg_sessions rg"
  shows "projected E rg (commit_connection E rg1)"
proof -
  let ?r = "next_revision (rg_connection_revision rg)"
  let ?change = "ConnectionUpsert (rg_request_elicitations rg1) (rg_request_url_flows rg1)"
  let ?rg = "commit_connection E rg1" and ?d = "next_delta rg (Some ?r) ?change"
  have e: "?rg = commit_delta E (Some ?r) ?change (rg1\<lparr>rg_connection_revision := ?r\<rparr>)"
    by (simp add: commit_connection_def Let_def rg1)
  have c: "committed E rg ?d ?rg" unfolding e
    by (rule committed_delta) (use rg1 in \<open>simp_all add: journal_before_def\<close>)
  have st: "session_runtime_of k ?rg = session_runtime_of k rg" for k
    by (simp add: session_runtime_of_def e registry_simps) (simp add: state_of_def entry_of_def rg1)
  have "\<exists>sn'. apply_delta E ?d sn = Ok sn' \<and> follows sn' ?rg" if fo: "follows sn rg" for sn
  proof (rule follows_apply [OF fo room(1) refl c, where sm = "sn\<lparr>sn_connection_revision := ?r,
      sn_request_elicitations := rg_request_elicitations rg1, sn_request_url_flows := rg_request_url_flows rg1\<rparr>"])
    show "same_view (bt_get (sn_sessions (sn\<lparr>sn_connection_revision := ?r,
        sn_request_elicitations := rg_request_elicitations rg1, sn_request_url_flows := rg_request_url_flows rg1\<rparr>)) k)
        (session_runtime_of k ?rg)" for k
      unfolding st using follows_session [OF fo] by simp
  qed (use fo rg1 room(2) in \<open>simp_all add: follows_def e registry_simps next_revision_sat\<close>)
  then show ?thesis using c unfolding projected_def by blast
qed

section \<open>The steps of the runtime\<close>

lemma only_session_connection: "only_session sid rg rg' \<Longrightarrow> same_connection rg rg'"
  by (simp add: only_session_def same_connection_def)

lemma start_turn_effect:
  assumes "start_turn E sid inc revision intent prompt rg = (Ok adm, rg1)" "state_of sid rg = Some s"
  shows "only_session sid rg rg1 \<and> (\<exists>s'. state_of sid rg1 = Some s' \<and> ss_live s' = ss_live s \<and>
    ss_operation s' = ss_operation s \<and> ss_incarnation s' = ss_incarnation s \<and> ss_session_id s' = ss_session_id s)"
proof -
  define op where "op = turn_operation_id (rg_epoch rg) (next_revision (rg_next_operation rg))"
  obtain x s' where a: "admit_turn E op revision intent prompt s = (x, s')" by fastforce
  have f: "ss_live s' = ss_live s \<and> ss_operation s' = ss_operation s \<and> ss_incarnation s' = ss_incarnation s \<and>
      ss_session_id s' = ss_session_id s"
  proof (cases "check_turn_admission E revision intent prompt s")
    case (Ok dup)
    with a show ?thesis by (cases dup) (auto simp: admit_turn_def advance_revision_def Let_def)
  qed (use a in \<open>auto simp: admit_turn_def\<close>)
  have o: "only_session sid rg (account_overlay m n (put_state sid s' rg))" for m n
    unfolding account_overlay_def by (rule only_session_trans [OF only_session_put_state only_session_fields(2)])
  have "require_state sid inc rg = Ok s" using assms by (cases "require_state sid inc rg")
    (auto simp: start_turn_def Let_def with_overlay_def require_state_Ok)
  with assms(1) a obtain b where "x = Ok b"
    "rg1 = account_overlay (ss_active_overlay_bytes s) (ss_active_overlay_bytes s') (put_state sid s' rg) \<or>
     rg1 = account_overlay (ss_active_overlay_bytes s) (ss_active_overlay_bytes s') (put_state sid s' rg)
       \<lparr>rg_next_operation := next_revision (rg_next_operation rg)\<rparr>"
    by (cases x) (auto simp: start_turn_def Let_def with_overlay_def op_def [symmetric] split: turn_admission.splits)
  then show ?thesis
    using o f assms(2) only_session_trans [OF o only_session_fields(3)]
    by (auto simp: account_overlay_def registry_simps)
qed

lemma install_effect:
  assumes "\<not> session_taken sid rg" "named sid rg" "state_of sid (install_live E sid inc live rg) = Some s"
  shows "ss_live s = Some live \<and> ss_operation s = None \<and> ss_incarnation s = inc \<and> ss_session_id s = sid"
proof -
  have i: "ss_incarnation s = inc \<and> ss_session_id s = sid"
  proof (cases "state_of sid rg")
    case (Some p)
    show ?thesis
    proof (cases "ss_incarnation p = inc")
      case False
      have "state_of sid (retire_entry sid (ss_incarnation p) reason
          (clear_history_for_replacement E sid (ss_incarnation p) rg)) = None" for reason
        by (rule state_of_retired [OF clear_history_state [OF Some]]) (simp add: session_cold_def)
      then show ?thesis using assms(3) Some False
        by (auto simp: install_live_def Let_def registry_simps entry_new_def session_cold_def)
    qed (use Some assms(2,3) in \<open>auto simp: install_live_def Let_def registry_simps named_def\<close>)
  qed (use assms(3) in \<open>auto simp: install_live_def Let_def registry_simps entry_new_def session_cold_def\<close>)
  with install_live_state [OF assms(1), of E inc live] assms(3) show ?thesis by auto
qed

lemma published_okD:
  assumes "published_ok rg" "state_of sid rg = Some s" "ss_live s = Some l"
  shows "lv_revision l \<le> jn_seq (rg_journal rg)" "ss_incarnation s \<le> rg_next_incarnation rg"
    "list_all (\<lambda>e. \<not> terminal_released (snd e)) (lv_terminals l)"
  using assms by (auto simp: published_ok_def live_published_def)

lemma revision_room:
  assumes "published_ok rg" "room rg" "state_of sid rg = Some s" "ss_live s = Some l"
  shows "lv_revision l < - 1"
  using published_okD(1) [OF assms(1,3,4)] assms(2) unfolding room_def by (meson order.strict_trans1)

lemma runtime_ok_named: "runtime_ok rg \<Longrightarrow> named sid rg"
  by (cases "state_of sid rg") (auto simp: runtime_ok_def named_def)

lemma session_view_at:
  "\<not> in_cleanup s \<Longrightarrow> ss_live s = Some l \<Longrightarrow> session_view s \<noteq> None"
  by (subst session_view_live) simp_all

lemma projected_control:
  assumes room: "room rg" and s: "state_of sid rg = Some s" "\<not> in_cleanup s" "ss_live s = Some l" "ss_incarnation s = inc"
    and rev: "lv_revision l < - 1"
  shows "projected E rg (commit_control_update E sid inc key update
      (put_state sid (s\<lparr>ss_live := Some (l\<lparr>lv_control_state := bt_insert key update (lv_control_state l)\<rparr>)\<rparr>) rg))"
proof -
  let ?l = "l\<lparr>lv_control_state := bt_insert key update (lv_control_state l)\<rparr>"
  let ?s = "s\<lparr>ss_live := Some ?l\<rparr>" and ?r = "next_revision (lv_revision l)"
  let ?l1 = "refresh_header s ?l"
  let ?s1 = "s\<lparr>ss_live := Some ?l1\<rparr>"
  note v = session_view_eq [OF session_view_at [OF s(2,3)] s(3)]
  have v1: "session_view ?s1 \<noteq> None" by (rule session_view_at [of _ ?l1]) (use s(2) in simp_all)
  have f: "\<exists>v'. Ok (w\<lparr>sr_control_state := bt_insert key update (sr_control_state w), sr_history_revision := ss_history_revision s,
        sr_phase := ss_phase s, sr_sync_error := ss_sync_error s\<rparr>) = Ok v' \<and>
      same_view (Some (v'\<lparr>sr_revision := ?r\<rparr>)) (session_view ?s1)" if "same_view (Some w) (session_view s)" for w
    using that session_view_eq [OF v1, of ?l1] by (auto simp: v same_view_def refresh_header_def active_turn_of_def)
  have "projected E rg (commit_delta E (Some ?r)
      (SessionControlUpdated sid inc ?r key update (ss_history_revision s) (ss_phase s) (ss_sync_error s))
      (put_state sid ?s1 (put_state sid ?s rg)))"
    by (rule projected_shown [OF room _ _ s(1,3) session_view_at [OF s(2,3)] s(4) rev refl, where ?s1.0 = ?s1 and f =
         "\<lambda>w. Ok (w\<lparr>sr_control_state := bt_insert key update (sr_control_state w),
           sr_history_revision := ss_history_revision s, sr_phase := ss_phase s, sr_sync_error := ss_sync_error s\<rparr>)"])
       (use s f in \<open>simp_all add: same_connection_def registry_simps\<close>)
  then show ?thesis using s(1)
    by (simp add: commit_control_update_def registry_simps Let_def refresh_header_def)
qed

text \<open>The copy of a terminal is folded the way the original is.\<close>

lemma projected_terminal:
  assumes room: "room rg" and s: "state_of sid rg = Some s" "\<not> in_cleanup s" "ss_live s = Some l" "ss_incarnation s = inc"
    and rev: "lv_revision l < - 1"
    and m: "fold_terminal_snapshot E (bt_get (lv_terminals l) terminal_id) terminal = Some materialized"
    and l': "l' = (if terminal_released terminal
      then l\<lparr>lv_terminals := bt_remove terminal_id (lv_terminals l),
             lv_released_terminals := remember_resolved_interaction terminal_id (lv_released_terminals l)\<rparr>
      else l\<lparr>lv_terminals := bt_insert terminal_id materialized (lv_terminals l)\<rparr>)"
    and r: "revision = next_revision (lv_revision l)"
  shows "projected E rg (commit_delta E (Some revision) (TerminalUpdated sid inc revision terminal_id terminal)
      (put_state sid (s\<lparr>ss_live := Some (l'\<lparr>lv_revision := revision\<rparr>)\<rparr>) rg))"
proof -
  let ?l1 = "l'\<lparr>lv_revision := revision\<rparr>"
  let ?s1 = "s\<lparr>ss_live := Some ?l1\<rparr>"
  let ?f = "\<lambda>v. if Option.bind (json_get terminal ''released'') as_bool = Some True
       then Ok (v\<lparr>sr_terminals := bt_remove terminal_id (sr_terminals v)\<rparr>)
       else (case fold_terminal_snapshot E (bt_get (sr_terminals v) terminal_id) terminal of
           Some t \<Rightarrow> Ok (v\<lparr>sr_terminals := bt_insert terminal_id t (sr_terminals v)\<rparr>)
         | None \<Rightarrow> Panic)"
  note v = session_view_eq [OF session_view_at [OF s(2,3)] s(3)]
  have v1: "session_view ?s1 \<noteq> None" by (rule session_view_at [of _ ?l1]) (use s(2) in simp_all)
  have rel: "terminal_released terminal \<longleftrightarrow> Option.bind (json_get terminal ''released'') as_bool = Some True"
    by (auto simp: terminal_released_def split: option.split)
  have f: "\<exists>v'. ?f w = Ok v' \<and> same_view (Some (v'\<lparr>sr_revision := revision\<rparr>)) (session_view ?s1)"
    if "same_view (Some w) (session_view s)" for w
    using that session_view_eq [OF v1, of ?l1] m
    by (auto simp: v same_view_def active_turn_of_def l' rel)
  show ?thesis
    by (rule projected_shown [OF room _ _ s(1,3) session_view_at [OF s(2,3)] s(4) rev r, where ?s1.0 = ?s1 and f = ?f])
       ((rule f, assumption) | (simp add: s same_connection_def registry_simps; fail))+
qed

lemma projected_step:
  assumes "runtime_step E rg rg'" and ok: "runtime_ok rg" "published_ok rg" "room rg"
  shows "projected E rg rg'"
  using assms(1)
proof (cases rule: runtime_step.cases)
  case rs_stay
  then show ?thesis by (auto intro: projected_still simp: same_connection_def)
next
  case (rs_quiet sid s s')
  have "same_connection rg rg'" unfolding rs_quiet(1) by (rule only_session_connection [OF only_session_put_state])
  then show ?thesis
    by (rule projected_still) (use rs_quiet in \<open>auto simp: registry_simps session_runtime_of_def split: if_splits\<close>)
next
  case (rs_upsert sid s s' j effects)
  obtain l l' where l: "ss_live s = Some l" "ss_live s' = Some l'" "lv_revision l' = lv_revision l"
    "ss_incarnation s' = ss_incarnation s" "ss_session_id s' = ss_session_id s"
    using rs_upsert(4) by (auto simp: owner_change_def live_kept_def)
  have v: "session_view s \<noteq> None" using l(1) rs_upsert(3) by (subst session_view_live [OF l(1)]) simp
  have c: "continues (session_runtime_of sid rg) s' l'"
    using session_view_eq [OF v l(1)] rs_upsert(2) l revision_room [OF ok(2,3) rs_upsert(2) l(1)]
    by (auto simp: session_runtime_of_def continues_def)
  show ?thesis unfolding rs_upsert(1)
    by (rule projected_upsert [OF ok(3) _ _ _ l(2) rs_upsert(5) _ _ c])
       (use rs_upsert l runtime_okD(4) [OF ok(1) rs_upsert(2)] in
         \<open>simp_all add: registry_simps same_connection_def\<close>)
next
  case (rs_admit sid s inc intent revision prompt adm rg1)
  obtain l where l: "ss_live s = Some l" using rs_admit(5) by blast
  from start_turn_effect [OF rs_admit(8,2)] obtain s' where s': "only_session sid rg rg1" "state_of sid rg1 = Some s'"
    "ss_live s' = Some l" "ss_operation s' = ss_operation s" "ss_incarnation s' = ss_incarnation s"
    "ss_session_id s' = ss_session_id s" using l by auto
  have v: "session_view s \<noteq> None" "session_view s' \<noteq> None" using rs_admit(3)
    by (subst session_view_live [OF l] session_view_live [OF s'(3)]; simp add: in_cleanup_def s'(4))+
  have c: "continues (session_runtime_of sid rg) s' l"
    using session_view_eq [OF v(1) l] rs_admit(2) l s' revision_room [OF ok(2,3) rs_admit(2) l]
    by (auto simp: session_runtime_of_def continues_def)
  show ?thesis unfolding rs_admit(1)
    by (rule projected_upsert [OF ok(3) only_session_connection [OF s'(1)] _ s'(2,3) v(2) _ _ c])
       (use s' runtime_okD(4) [OF ok(1) rs_admit(2)] in \<open>simp_all add: only_session_def journal_before_def\<close>)
next
  case (rs_control sid s l inc key update)
  show ?thesis unfolding rs_control(1)
    by (rule projected_control [OF ok(3) rs_control(2-5) revision_room [OF ok(2,3) rs_control(2,4)]])
next
  case (rs_terminal sid s l inc terminal_id terminal materialized l' revision)
  show ?thesis unfolding rs_terminal(1)
    by (rule projected_terminal [OF ok(3) rs_terminal(2-5) revision_room [OF ok(2,3) rs_terminal(2,4)] rs_terminal(8,9,10)])
next
  case (rs_remove sid s inc s' l' op t effects)
  have st: "session_runtime_of sid (add_effects effects (put_state sid s' rg)) = None"
    using rs_remove(2,9) by (simp add: session_runtime_of_def registry_simps)
  show ?thesis unfolding rs_remove(1)
    by (rule projected_remove [OF ok(3) _ _ rs_remove(2,5) st]) (simp_all add: registry_simps same_connection_def)
next
  case (rs_connection flows elicitations res1 res2)
  have "rg_connection_revision rg < - 1" using ok(2,3) unfolding published_ok_def room_def by (meson order.strict_trans1)
  from projected_connection [OF ok(3) this] show ?thesis unfolding rs_connection(1) by simp
next
  case (rs_install sid controls inc op lifecycle rg1 cwd session s)
  let ?rg = "rg\<lparr>rg_next_incarnation := inc\<rparr>"
  have n: "named sid ?rg" "\<not> session_taken sid ?rg"
    using runtime_ok_named [OF ok(1), of sid] rs_install(2) by (simp_all add: named_def registry_simps)
  have s: "ss_live s = Some (new_live cwd session controls lifecycle)" "ss_operation s = None" "ss_incarnation s = inc"
    "ss_session_id s = sid"
    using install_effect [OF n(2,1)] rs_install(6,7) by simp_all
  have o: "only_session sid ?rg rg1" unfolding rs_install(6) by (rule only_session_install)
  define s2 where "s2 = s\<lparr>ss_operation := op\<rparr>"
  define rg2 where "rg2 = (if op = None then rg1 else put_state sid s2 rg1)"
  have st2: "state_of sid rg2 = Some s2" using rs_install(7) s(2) by (simp add: rg2_def s2_def registry_simps)
  have o2: "only_session sid ?rg rg2" using o only_session_trans only_session_put_state by (auto simp: rg2_def)
  have v2: "session_view s2 \<noteq> None" using rs_install(5) s(1)
    by (subst session_view_live [of s2 "new_live cwd session controls lifecycle"])
       (auto simp: s2_def new_live_def split: option.splits)
  have c: "continues (session_runtime_of sid rg) s2 (new_live cwd session controls lifecycle)"
  proof (cases "session_runtime_of sid rg")
    case (Some w)
    then obtain p l where p: "state_of sid rg = Some p" "ss_live p = Some l" "sr_incarnation w = ss_incarnation p"
      "sr_lifecycle w = lv_lifecycle l" "session_view p = Some w"
      using session_view_revision by (fastforce simp: session_runtime_of_def bind_eq_Some_conv)
    have "ss_incarnation p < inc" unfolding rs_install(4)
      using published_okD(2) [OF ok(2) p(1,2)] ok(3) by (simp add: next_revision_less room_def)
    then have "ss_incarnation p \<noteq> inc" by simp
    then show ?thesis using Some p s not_takenD [OF rs_install(2) p(1)]
      by (simp add: continues_def s2_def new_live_def)
  qed (simp add: continues_def new_live_def)
  have "projected E rg (upserted E sid rg2)"
    by (rule projected_upsert [OF ok(3) _ _ st2 _ v2 _ _ c])
       (use o2 s in \<open>simp_all add: only_session_def same_connection_def journal_before_def s2_def registry_simps\<close>)
  then show ?thesis unfolding rs_install(1) rg2_def s2_def .
next
  case (rs_cleaned sid s)
  have "same_connection rg rg'" unfolding rs_cleaned(1) by (rule only_session_connection [OF only_session_put_state])
  then show ?thesis
    by (rule projected_still)
       (use rs_cleaned in \<open>auto simp: registry_simps session_runtime_of_def session_view_def split: if_splits\<close>)
qed

end
