(* ===== verification/Runtime_Invariants.thy ===== *)
theory Runtime_Invariants
  imports Runtime_Projection
begin

text \<open>
  What every step of the runtime keeps: the maps of a session are ordered, the URL flows kept are
  waiting, a session is stored under its id, and the published counters are in step.
\<close>

definition live_ok :: "session_registry \<Rightarrow> session_state \<Rightarrow> session_live_state \<Rightarrow> bool" where
  "live_ok rg s l \<longleftrightarrow> live_wf l \<and> all_waiting (lv_url_flows l) \<and> live_published rg s l"

definition hub_ok :: "session_registry \<Rightarrow> bool" where
  "hub_ok rg \<longleftrightarrow> runtime_ok rg \<and> published_ok rg"

lemma hub_ok_alt:
  "hub_ok rg \<longleftrightarrow> bt_wf (rg_sessions rg) \<and> bt_wf (rg_request_elicitations rg) \<and> bt_wf (rg_request_url_flows rg) \<and>
     all_waiting (rg_request_url_flows rg) \<and> rg_connection_revision rg \<le> jn_seq (rg_journal rg) \<and>
     (\<forall>sid s. state_of sid rg = Some s \<longrightarrow> ss_session_id s = sid \<and> pred_option (live_ok rg s) (ss_live s))"
  unfolding hub_ok_def runtime_ok_def sessions_wf_def flows_waiting_def published_ok_def live_ok_def pred_option_def
  by auto

lemma hub_ok_session:
  assumes ok: "hub_ok rg"
    and o: "bt_wf (rg_sessions rg')" "\<And>k. k \<noteq> sid \<Longrightarrow> state_of k rg' = state_of k rg" "same_connection rg rg'"
    and up: "jn_seq (rg_journal rg) \<le> jn_seq (rg_journal rg')" "rg_next_incarnation rg \<le> rg_next_incarnation rg'"
    and own: "\<And>s. state_of sid rg' = Some s \<Longrightarrow> ss_session_id s = sid \<and> pred_option (live_ok rg' s) (ss_live s)"
  shows "hub_ok rg'"
proof -
  have "pred_option (live_ok rg' s) (ss_live s)" if "pred_option (live_ok rg s) (ss_live s)" for s
    using that up by (auto simp: pred_option_def live_ok_def live_published_def)
  then have "ss_session_id s = k \<and> pred_option (live_ok rg' s) (ss_live s)" if "state_of k rg' = Some s" for k s
    using own o(2) [of k] ok that by (cases "k = sid") (auto simp: hub_ok_alt)
  moreover have "rg_connection_revision rg' \<le> jn_seq (rg_journal rg')"
    using ok o(3) up(1) by (auto simp: hub_ok_alt same_connection_def)
  ultimately show ?thesis using ok o(1,3) by (simp add: hub_ok_alt same_connection_def)
qed

lemma flows_kept_waiting: "flows_kept rg m m' \<Longrightarrow> all_waiting m \<Longrightarrow> all_waiting m'"
  by (auto simp: flows_kept_def all_waiting_def)

lemma hub_okD:
  assumes "hub_ok rg"
  shows "runtime_ok rg" "published_ok rg" "bt_wf (rg_sessions rg)"
    "state_of k rg = Some s \<Longrightarrow> ss_session_id s = k"
    "state_of k rg = Some s \<Longrightarrow> ss_live s = Some l \<Longrightarrow> live_ok rg s l"
proof -
  show "runtime_ok rg" "published_ok rg" using assms by (simp_all add: hub_ok_def)
  show "bt_wf (rg_sessions rg)" "state_of k rg = Some s \<Longrightarrow> ss_session_id s = k"
    "state_of k rg = Some s \<Longrightarrow> ss_live s = Some l \<Longrightarrow> live_ok rg s l"
    using assms by (force simp: hub_ok_alt)+
qed

lemma owner_change_ok:
  assumes "hub_ok rg" "state_of sid rg = Some s" "owner_change rg s s'"
  obtains l' where "ss_live s' = Some l'" "live_ok rg s' l'" "ss_session_id s' = sid" "ss_incarnation s' = ss_incarnation s"
proof -
  obtain l l' where l: "ss_live s = Some l" "ss_live s' = Some l'" "live_kept rg l l'"
    "ss_session_id s' = ss_session_id s" "ss_incarnation s' = ss_incarnation s"
    using assms(3) by (auto simp: owner_change_def)
  have "live_ok rg s' l'"
    using hub_okD(5) [OF assms(1,2) l(1)] l(3,5) flows_kept_waiting
    by (auto simp: live_ok_def live_kept_def live_published_def)
  with l hub_okD(4) [OF assms(1,2)] that show ?thesis by simp
qed

text \<open>A commit makes the session's revision one the journal has reached.\<close>

lemma upserted_ok:
  assumes ok: "hub_ok rg" "room rg"
    and rg1: "same_connection rg rg1" "jn_seq (rg_journal rg1) = jn_seq (rg_journal rg)" "bt_wf (rg_sessions rg1)"
      "rg_next_incarnation rg \<le> rg_next_incarnation rg1" "\<And>k. k \<noteq> sid \<Longrightarrow> state_of k rg1 = state_of k rg"
    and s: "state_of sid rg1 = Some s" "ss_live s = Some l" "session_view s \<noteq> None" "ss_session_id s = sid" "live_ok rg1 s l"
  shows "hub_ok (upserted E sid rg1)"
proof -
  from upserted_eq [OF s(1-3), where E = E] obtain v where
    v: "upserted E sid rg1 = commit_delta E (Some (sr_revision v)) (SessionUpsert v)
       (put_state sid (s\<lparr>ss_live := Some (refresh_header s l)\<rparr>) rg1)" by metis
  have seq: "jn_seq (rg_journal (upserted E sid rg1)) = next_revision (jn_seq (rg_journal rg))"
    unfolding v using rg1(2) by (simp add: registry_simps)
  have rev: "next_revision (lv_revision l) \<le> next_revision (jn_seq (rg_journal rg))"
    using s(5) rg1(2) ok(2) by (auto simp: live_ok_def live_published_def room_def intro: next_revision_mono)
  have own: "ss_session_id t = sid \<and> pred_option (live_ok (upserted E sid rg1) t) (ss_live t)"
    if "state_of sid (upserted E sid rg1) = Some t" for t
  proof -
    have "t = s\<lparr>ss_live := Some (refresh_header s l)\<rparr>" using that s(1) unfolding v by (simp add: registry_simps)
    then show ?thesis using s(4,5) rev seq
      by (simp add: live_ok_def live_published_def refresh_header_def live_wf_def) (simp add: v registry_simps)
  qed
  show ?thesis
  proof (rule hub_ok_session [OF ok(1) _ _ _ _ _ own])
    show "bt_wf (rg_sessions (upserted E sid rg1))" unfolding v commit_delta_def
      using rg1(3) by (simp add: bt_wf_put_state)
    show "jn_seq (rg_journal rg) \<le> jn_seq (rg_journal (upserted E sid rg1))"
      unfolding seq using ok(2) by (simp add: room_def less_imp_le next_revision_less)
  qed (use rg1 in \<open>simp_all add: v registry_simps same_connection_def\<close>)
qed


section \<open>Every step\<close>

lemma live_ok_later:
  assumes "live_ok rg s l" "ss_incarnation s' = ss_incarnation s"
    and "jn_seq (rg_journal rg) \<le> jn_seq (rg_journal rg')" "rg_next_incarnation rg \<le> rg_next_incarnation rg'"
  shows "live_ok rg' s' l"
  using assms by (auto simp: live_ok_def live_published_def)

lemma seq_room: "room rg \<Longrightarrow> jn_seq (rg_journal rg) \<le> next_revision (jn_seq (rg_journal rg))"
  by (simp add: room_def less_imp_le next_revision_less)

lemma revision_step:
  "live_ok rg s l \<Longrightarrow> room rg \<Longrightarrow> next_revision (lv_revision l) \<le> next_revision (jn_seq (rg_journal rg))"
  by (auto simp: live_ok_def live_published_def room_def intro: next_revision_mono)

lemma hub_ok_quiet:
  assumes "hub_ok rg" "state_of sid rg = Some s" "owner_change rg s s'"
  shows "hub_ok (put_state sid s' rg)"
proof (rule owner_change_ok [OF assms])
  fix l'
  assume l': "ss_live s' = Some l'" "live_ok rg s' l'" "ss_session_id s' = sid"
  then have "live_ok (put_state sid s' rg) s' l'"
    by (rule_tac live_ok_later [of rg s']) (simp_all add: registry_simps)
  then show ?thesis
    by (rule_tac hub_ok_session [OF assms(1), where sid = sid])
       (use assms(2) l' hub_okD(3) [OF assms(1)] in
         \<open>auto simp: registry_simps bt_wf_put_state same_connection_def\<close>)
qed

lemma hub_ok_upsert:
  assumes ok: "hub_ok rg" "room rg" and s: "state_of sid rg = Some s" "owner_change rg s s'"
    and v: "session_view s' \<noteq> None" "journal_before rg j"
  shows "hub_ok (upserted E sid ((add_effects effects (put_state sid s' rg))\<lparr>rg_journal := j\<rparr>))"
proof (rule owner_change_ok [OF ok(1) s])
  let ?rg = "(add_effects effects (put_state sid s' rg))\<lparr>rg_journal := j\<rparr>"
  fix l'
  assume l': "ss_live s' = Some l'" "live_ok rg s' l'" "ss_session_id s' = sid"
  have "live_ok ?rg s' l'"
    by (rule live_ok_later [OF l'(2)]) (use jn_seq_before [OF v(2)] in \<open>simp_all add: registry_simps\<close>)
  then show ?thesis
    by (rule_tac upserted_ok [OF ok, where s = s' and l = l'])
       (use s(1) l' v jn_seq_before [OF v(2)] hub_okD(3) [OF ok(1)] in
         \<open>simp_all add: registry_simps bt_wf_put_state same_connection_def\<close>)
qed

lemma hub_ok_admit:
  assumes ok: "hub_ok rg" "room rg" and s: "state_of sid rg = Some s" "\<not> in_cleanup s" "ss_live s = Some l"
    and st: "start_turn E sid inc revision intent prompt rg = (Ok adm, rg1)"
  shows "hub_ok (upserted E sid rg1)"
proof -
  from start_turn_effect [OF st s(1)] s(3) obtain s' where s': "only_session sid rg rg1" "state_of sid rg1 = Some s'"
    "ss_live s' = Some l" "ss_operation s' = ss_operation s" "ss_incarnation s' = ss_incarnation s"
    "ss_session_id s' = ss_session_id s" by auto
  have v: "session_view s' \<noteq> None" using s(2)
    by (subst session_view_live [OF s'(3)]) (simp add: in_cleanup_def s'(4))
  have "live_ok rg1 s' l"
    by (rule live_ok_later [OF hub_okD(5) [OF ok(1) s(1,3)]]) (use s' in \<open>simp_all add: only_session_def\<close>)
  then show ?thesis
    by (rule_tac upserted_ok [OF ok only_session_connection [OF s'(1)] _ _ _ _ s'(2,3) v])
       (use s' hub_okD(3,4) [OF ok(1)] s(1) in \<open>simp_all add: only_session_def\<close>)
qed

lemma hub_ok_control:
  assumes ok: "hub_ok rg" "room rg" and s: "state_of sid rg = Some s" "ss_live s = Some l"
  shows "hub_ok (commit_control_update E sid inc key update
      (put_state sid (s\<lparr>ss_live := Some (l\<lparr>lv_control_state := bt_insert key update (lv_control_state l)\<rparr>)\<rparr>) rg))"
proof -
  let ?l = "l\<lparr>lv_control_state := bt_insert key update (lv_control_state l)\<rparr>"
  let ?s = "s\<lparr>ss_live := Some ?l\<rparr>" and ?r = "next_revision (lv_revision l)"
  let ?s1 = "s\<lparr>ss_live := Some (refresh_header s ?l)\<rparr>"
  let ?rg = "commit_delta E (Some ?r)
      (SessionControlUpdated sid inc ?r key update (ss_history_revision s) (ss_phase s) (ss_sync_error s))
      (put_state sid ?s1 (put_state sid ?s rg))"
  have e: "commit_control_update E sid inc key update (put_state sid ?s rg) = ?rg" using s
    by (simp add: commit_control_update_def registry_simps Let_def refresh_header_def)
  note lo = hub_okD(5) [OF ok(1) s]
  have "live_ok ?rg ?s1 (refresh_header s ?l)"
    using lo revision_step [OF lo ok(2)]
    by (simp add: live_ok_def live_published_def live_wf_def refresh_header_def registry_simps bt_wf_insert)
  then show ?thesis unfolding e
    by (rule_tac hub_ok_session [OF ok(1), where sid = sid])
       (use s hub_okD(3,4) [OF ok(1)] seq_room [OF ok(2)] in
         \<open>auto simp: registry_simps bt_wf_put_state same_connection_def commit_delta_def\<close>)
qed

lemma released_terminal_id: "list_all (\<lambda>e. P (snd e)) m \<Longrightarrow> list_all (\<lambda>e. P (snd e)) (bt_remove k m)"
  by (auto simp: bt_remove_def list_all_iff)

lemma all_inserted: "list_all (\<lambda>e. P (snd e)) m \<Longrightarrow> P v \<Longrightarrow> list_all (\<lambda>e. P (snd e)) (bt_insert k v m)"
  by (induction k v m rule: bt_insert.induct) auto

lemma hub_ok_terminal:
  assumes ok: "hub_ok rg" "room rg" and s: "state_of sid rg = Some s" "ss_live s = Some l"
    and m: "fold_terminal_snapshot E (bt_get (lv_terminals l) terminal_id) terminal = Some materialized" "json_wf terminal"
    and l': "l' = (if terminal_released terminal
      then l\<lparr>lv_terminals := bt_remove terminal_id (lv_terminals l),
             lv_released_terminals := remember_resolved_interaction terminal_id (lv_released_terminals l)\<rparr>
      else l\<lparr>lv_terminals := bt_insert terminal_id materialized (lv_terminals l)\<rparr>)"
    and r: "revision = next_revision (lv_revision l)"
  shows "hub_ok (commit_delta E (Some revision) (TerminalUpdated sid inc revision terminal_id terminal)
      (put_state sid (s\<lparr>ss_live := Some (l'\<lparr>lv_revision := revision\<rparr>)\<rparr>) rg))"
proof -
  let ?s = "s\<lparr>ss_live := Some (l'\<lparr>lv_revision := revision\<rparr>)\<rparr>"
  let ?rg = "commit_delta E (Some revision) (TerminalUpdated sid inc revision terminal_id terminal) (put_state sid ?s rg)"
  note lo = hub_okD(5) [OF ok(1) s]
  have rel: "terminal_released materialized = terminal_released terminal"
    using fold_terminal_snapshot_gets [OF m] by (simp add: terminal_released_def)
  have "live_ok ?rg ?s (l'\<lparr>lv_revision := revision\<rparr>)"
    using lo revision_step [OF lo ok(2)] rel
    by (auto simp: live_ok_def live_published_def live_wf_def l' r registry_simps bt_wf_insert
        released_terminal_id [where P = "\<lambda>t. \<not> terminal_released t"] all_inserted [where P = "\<lambda>t. \<not> terminal_released t"])
  then show ?thesis
    by (rule_tac hub_ok_session [OF ok(1), where sid = sid])
       (use s hub_okD(3,4) [OF ok(1)] seq_room [OF ok(2)] in
         \<open>auto simp: registry_simps bt_wf_put_state same_connection_def commit_delta_def\<close>)
qed

lemma hub_ok_remove:
  assumes ok: "hub_ok rg" "room rg" and s: "state_of sid rg = Some s"
    and s': "s' = s\<lparr>ss_live := l', ss_operation := op, ss_active_turn := t\<rparr>" "ss_live s = Some l"
    and l': "pred_option (\<lambda>l. lv_url_flows l = [] \<and> lv_terminals l = []) l'"
      "pred_option (\<lambda>k. lv_revision k = lv_revision l \<and> (live_wf l \<longrightarrow> live_wf k)) l'"
  shows "hub_ok (commit_removal E sid inc (add_effects effects (put_state sid s' rg)))"
proof -
  define rg' where "rg' = commit_removal E sid inc (add_effects effects (put_state sid s' rg))"
  have st: "state_of k rg' = (if k = sid then Some s' else state_of k rg)" for k
    using s by (simp add: rg'_def commit_removal_def registry_simps)
  have j: "rg_journal rg' = journal_commit E (rg_epoch rg) None (SessionRemoved sid inc) (rg_journal rg)"
    "rg_next_incarnation rg' = rg_next_incarnation rg" "same_connection rg rg'"
    by (simp_all add: rg'_def commit_removal_def registry_simps same_connection_def)
  have wf: "bt_wf (rg_sessions rg')" using hub_okD(3) [OF ok(1)]
    by (simp add: rg'_def commit_removal_def commit_delta_def add_effects_def bt_wf_put_state)
  have "live_ok rg' s' k" if "l' = Some k" for k
    using hub_okD(5) [OF ok(1) s s'(2)] l' that seq_room [OF ok(2)]
    by (auto simp: live_ok_def live_published_def s'(1) j all_waiting_def bt_get_def)
  then show ?thesis unfolding rg'_def [symmetric]
    by (rule_tac hub_ok_session [OF ok(1) wf _ j(3), where sid = sid])
       (use s hub_okD(4) [OF ok(1)] seq_room [OF ok(2)] in \<open>auto simp: st j s'(1) pred_option_def\<close>)
qed


lemma hub_ok_connection:
  assumes ok: "hub_ok rg" "room rg" and f: "flows_kept rg (rg_request_url_flows rg) flows"
    and wf: "bt_wf (rg_request_elicitations rg) \<longrightarrow> bt_wf (rg_request_url_flows rg) \<longrightarrow> bt_wf elicitations \<and> bt_wf flows"
  shows "hub_ok (commit_connection E (rg\<lparr>rg_request_elicitations := elicitations, rg_request_url_flows := flows,
      rg_resolved_request_elicitations := res1, rg_resolved_request_url_flows := res2\<rparr>))"
proof -
  define rg' where "rg' = commit_connection E (rg\<lparr>rg_request_elicitations := elicitations, rg_request_url_flows := flows,
      rg_resolved_request_elicitations := res1, rg_resolved_request_url_flows := res2\<rparr>)"
  have r: "rg_sessions rg' = rg_sessions rg" "rg_request_elicitations rg' = elicitations"
    "rg_request_url_flows rg' = flows" "rg_connection_revision rg' = next_revision (rg_connection_revision rg)"
    "jn_seq (rg_journal rg') = next_revision (jn_seq (rg_journal rg))" "rg_next_incarnation rg' = rg_next_incarnation rg"
    by (simp_all add: rg'_def commit_connection_def Let_def commit_delta_def)
  have c: "next_revision (rg_connection_revision rg) \<le> next_revision (jn_seq (rg_journal rg))"
    using ok by (auto simp: hub_ok_alt room_def intro: next_revision_mono)
  have "pred_option (live_ok rg' s) (ss_live s)" if "pred_option (live_ok rg s) (ss_live s)" for s
    using that r seq_room [OF ok(2)] live_ok_later [of rg s _ s rg'] by (auto simp: pred_option_def)
  then have "ss_session_id s = k \<and> pred_option (live_ok rg' s) (ss_live s)" if "state_of k rg' = Some s" for k s
    using ok(1) that unfolding hub_ok_alt state_of_def entry_of_def r by blast
  with ok(1) c wf flows_kept_waiting [OF f] have "hub_ok rg'" unfolding hub_ok_alt r by blast
  then show ?thesis unfolding rg'_def .
qed

lemma hub_ok_install:
  assumes ok: "hub_ok rg" "room rg" and t: "\<not> session_taken sid rg" "bt_wf controls"
    and inc: "inc = next_revision (rg_next_incarnation rg)"
    and op: "case op of None \<Rightarrow> lifecycle = Active
      | Some o' \<Rightarrow> lifecycle = Attaching \<and> \<not> operation_in_use (so_operation_id o') rg"
    and rg1: "rg1 = install_live E sid inc (new_live cwd session controls lifecycle) (rg\<lparr>rg_next_incarnation := inc\<rparr>)"
      "state_of sid rg1 = Some s"
  shows "hub_ok (upserted E sid (if op = None then rg1 else put_state sid (s\<lparr>ss_operation := op\<rparr>) rg1))"
proof -
  let ?l = "new_live cwd session controls lifecycle"
  let ?rg = "rg\<lparr>rg_next_incarnation := inc\<rparr>"
  define rg2 where "rg2 = (if op = None then rg1 else put_state sid (s\<lparr>ss_operation := op\<rparr>) rg1)"
  have n: "named sid ?rg" "\<not> session_taken sid ?rg"
    using runtime_ok_named [OF hub_okD(1) [OF ok(1)], of sid] t(1) by (simp_all add: named_def registry_simps)
  have s: "ss_live s = Some ?l" "ss_operation s = None" "ss_incarnation s = inc" "ss_session_id s = sid"
    using install_effect [OF n(2,1)] rg1 by simp_all
  have st2: "state_of sid rg2 = Some (s\<lparr>ss_operation := op\<rparr>)"
    using rg1(2) s(2) by (simp add: rg2_def registry_simps)
  have "only_session sid ?rg rg1" unfolding rg1(1) by (rule only_session_install)
  then have o2: "only_session sid ?rg rg2" using only_session_trans only_session_put_state by (auto simp: rg2_def)
  have up: "rg_next_incarnation rg \<le> inc" unfolding inc using ok(2) by (simp add: room_def less_imp_le next_revision_less)
  have v: "session_view (s\<lparr>ss_operation := op\<rparr>) \<noteq> None" using op s(1)
    by (subst session_view_live [of _ ?l]) (auto simp: new_live_def split: option.splits)
  have "live_ok rg2 (s\<lparr>ss_operation := op\<rparr>) ?l" using o2 s(3) t(2)
    by (simp add: live_ok_def live_published_def live_wf_def new_live_def only_session_def bt.wf_nil all_waiting_def bt_get_def)
  then show ?thesis unfolding rg2_def [symmetric]
    by (rule_tac upserted_ok [OF ok _ _ _ _ _ st2 _ v])
       (use o2 s up hub_okD(3) [OF ok(1)] in \<open>simp_all add: only_session_def same_connection_def registry_simps\<close>)
qed

lemma hub_ok_cleaned:
  assumes ok: "hub_ok rg" and s: "state_of sid rg = Some s"
  shows "hub_ok (put_state sid (s\<lparr>ss_operation := None, ss_live := None\<rparr>) rg)"
  by (rule hub_ok_session [OF ok, where sid = sid])
     (use s hub_okD(3,4) [OF ok] in \<open>auto simp: registry_simps bt_wf_put_state same_connection_def\<close>)

lemma hub_ok_step:
  assumes "runtime_step E rg rg'" and ok: "hub_ok rg" "room rg"
  shows "hub_ok rg'"
  using assms(1)
proof (cases rule: runtime_step.cases)
  case rs_quiet
  then show ?thesis using hub_ok_quiet [OF ok(1)] by simp
next
  case rs_upsert
  then show ?thesis using hub_ok_upsert [OF ok] by simp
next
  case rs_admit
  then show ?thesis using hub_ok_admit [OF ok] by blast
next
  case rs_control
  then show ?thesis using hub_ok_control [OF ok] by simp
next
  case (rs_terminal sid s l inc terminal_id terminal materialized l' revision)
  show ?thesis unfolding rs_terminal(1)
    by (rule hub_ok_terminal [OF ok rs_terminal(2,4,8,7,9,10)])
next
  case (rs_remove sid s inc s' l' op t effects)
  from rs_remove(4) obtain l where l: "ss_live s = Some l" by blast
  with rs_remove show ?thesis using hub_ok_remove [OF ok rs_remove(2,6) l rs_remove(8)] by simp
next
  case rs_connection
  then show ?thesis using hub_ok_connection [OF ok] by simp
next
  case rs_install
  then show ?thesis using hub_ok_install [OF ok] by simp
next
  case rs_cleaned
  then show ?thesis using hub_ok_cleaned [OF ok(1)] by simp
qed (use ok(1) in simp)

section \<open>The history transactions\<close>

lemma hub_ok_calm:
  assumes "hub_ok rg" and c: "calm sid rg rg'"
  shows "hub_ok rg'"
proof (rule hub_ok_session [OF assms(1), where sid = sid])
  note o = c [unfolded calm_def only_session_def]
  show "bt_wf (rg_sessions rg')" using o hub_okD(3) [OF assms(1)] by simp
  show "same_connection rg rg'" using o by (simp add: same_connection_def)
  show "ss_session_id t = sid \<and> pred_option (live_ok rg' t) (ss_live t)" if t: "state_of sid rg' = Some t" for t
  proof -
    have "named sid rg'" using o runtime_ok_named [OF hub_okD(1) [OF assms(1)]] by simp
    moreover have "pred_option (live_ok rg' t) (ss_live t)"
    proof (cases "ss_live t")
      case (Some l)
      with t o obtain s where s: "state_of sid rg = Some s" "quiet s t" by (auto simp: unattached_def)
      then have "live_ok rg' t l" using Some o hub_okD(5) [OF assms(1) s(1), of l]
        by (auto simp: quiet_def intro: live_ok_later)
      with Some show ?thesis by simp
    qed simp
    ultimately show ?thesis using t by (simp add: named_def)
  qed
qed (use c in \<open>simp_all add: calm_def only_session_def\<close>)

lemma same_view_quiet:
  assumes "quiet s s'" "same_view shown (session_view s)"
  shows "same_view shown (session_view s')"
proof (cases "session_view s'")
  case None
  then have "session_view s = None" using assms(1)
    by (auto simp: quiet_def session_view_def bind_eq_None_conv split: if_splits)
  then show ?thesis using assms(2) None by simp
next
  case (Some w')
  then obtain l where l: "ss_live s' = Some l" using session_view_revision by blast
  have q: "ss_live s = Some l" "in_cleanup s' = in_cleanup s" using assms(1) l by (simp_all add: quiet_def)
  have v: "session_view s' \<noteq> None" using Some by simp
  then have v0: "session_view s \<noteq> None" using l q by (simp only: session_view_Some)
  have "active_turn_of s' = None \<or> active_turn_of s' = active_turn_of s" using assms(1)
    by (cases "ss_active_turn s'"; cases "ss_active_turn s")
       (auto simp: quiet_def active_turn_of_def turn_execution_of_def)
  then show ?thesis using assms
    by (auto simp: session_view_eq [OF v0 q(1)] session_view_eq [OF v l] same_view_def quiet_def)
qed

lemma unattached_runtime: "unattached (state_of sid rg) \<Longrightarrow> session_runtime_of sid rg = None"
  by (cases "state_of sid rg") (simp_all add: session_runtime_of_def unattached_def session_view_def)

lemma calm_views:
  assumes "calm sid rg rg'"
  shows "same_connection rg rg'" "rg_journal rg' = rg_journal rg"
    "same_view shown (session_runtime_of k rg) \<Longrightarrow> same_view shown (session_runtime_of k rg')"
proof -
  note o = assms [unfolded calm_def only_session_def]
  show "same_connection rg rg'" "rg_journal rg' = rg_journal rg" using o by (simp_all add: same_connection_def)
  show "same_view shown (session_runtime_of k rg')" if "same_view shown (session_runtime_of k rg)"
  proof (cases "k = sid")
    case True
    consider s s' where "state_of sid rg = Some s" "state_of sid rg' = Some s'" "quiet s s'"
      | "unattached (state_of sid rg)" "unattached (state_of sid rg')" using o by blast
    then show ?thesis
    proof cases
      case 1
      then show ?thesis using that True same_view_quiet by (simp add: session_runtime_of_def)
    next
      case 2
      then show ?thesis using that True by (simp add: unattached_runtime)
    qed
  qed (use that o in \<open>simp add: session_runtime_of_def\<close>)
qed

lemma follows_calm: "calm sid rg rg' \<Longrightarrow> follows sn rg \<Longrightarrow> follows sn rg'"
  by (rule follows_still) (simp_all add: calm_views)

lemma projected_calm: "calm sid rg rg' \<Longrightarrow> projected E rg rg'"
  by (rule projected_still) (simp_all add: calm_views)

text \<open>A registration only moves the counter of incarnations.\<close>

lemma incarnation_moved:
  assumes "rg_next_incarnation rg \<le> n"
  shows "hub_ok rg \<Longrightarrow> hub_ok (rg\<lparr>rg_next_incarnation := n\<rparr>)" "projected E rg (rg\<lparr>rg_next_incarnation := n\<rparr>)"
proof -
  let ?rg = "rg\<lparr>rg_next_incarnation := n\<rparr>"
  have st: "state_of k ?rg = state_of k rg" for k by (simp add: registry_simps)
  show "hub_ok ?rg" if ok: "hub_ok rg"
  proof (rule hub_ok_session [OF ok, where sid = "[]"])
    show "ss_session_id s = [] \<and> pred_option (live_ok ?rg s) (ss_live s)" if "state_of [] ?rg = Some s" for s
    proof -
      have s: "state_of [] rg = Some s" using that st by simp
      have "live_ok ?rg s l" if "ss_live s = Some l" for l
        by (rule live_ok_later [OF hub_okD(5) [OF ok s that]]) (use assms in simp_all)
      with hub_okD(4) [OF ok s] show ?thesis by (simp add: pred_option_def)
    qed
  qed (use assms hub_okD(3) [OF ok] st in \<open>simp_all add: same_connection_def\<close>)
  show "projected E rg ?rg"
    by (rule projected_still) (simp_all add: same_connection_def session_runtime_of_def st)
qed
end
