(* ===== verification/Turn_Stream.thy ===== *)
theory Turn_Stream
  imports Runtime_Invariants
begin

text \<open>
  An update the agent streams to an open session (\<open>handle_session_update\<close> in \<open>src/src/bridge.rs\<close>): it
  is folded into the running turn, or into the history when no turn runs, and published. The update
  has been validated; the events for the observers of the session are left out.
\<close>

datatype update_error = UpdateHistory mirror_error | UpdateRuntime runtime_error | UpdateMissing

definition lift_err :: "('e \<Rightarrow> 'f) \<Rightarrow> ('e, 'a) result \<times> session_registry \<Rightarrow> ('f, 'a) result \<times> session_registry" where
  "lift_err f x = (map_err f (fst x), snd x)"

definition attached_incarnation :: "string \<Rightarrow> session_registry \<Rightarrow> u64 option" where
  "attached_incarnation sid rg = Option.bind (resource_session sid rg) (\<lambda>s.
     if (case ss_live s of Some l \<Rightarrow> lv_lifecycle l \<noteq> Attaching | None \<Rightarrow> False) then Some (ss_incarnation s) else None)"

definition attached_phase :: "string \<Rightarrow> session_registry \<Rightarrow> mirror_phase option" where
  "attached_phase sid rg = Option.bind (attached_incarnation sid rg) (\<lambda>inc.
     Option.bind (state_of sid rg) (\<lambda>s. if ss_incarnation s = inc then Some (ss_phase s) else None))"

definition is_conversation_update :: "json \<Rightarrow> bool" where
  "is_conversation_update update \<longleftrightarrow> pred_option is_conversation_update_kind (get_str update ''sessionUpdate'') \<and>
     get_str update ''sessionUpdate'' \<noteq> None"

definition mirror_stream :: "env \<Rightarrow> string \<Rightarrow> u64 \<Rightarrow> mirror_phase option \<Rightarrow> json \<Rightarrow> session_registry
    \<Rightarrow> (update_error, unit) result \<times> session_registry" where
  "mirror_stream E sid inc phase update rg =
     (case if phase = Some Running then active_operation_id sid inc rg else None of
        Some operation_id \<Rightarrow> lift_err UpdateHistory (mirror_append_turn_update E sid inc operation_id update rg)
      | None \<Rightarrow>
          if phase = Some Ready \<or> phase = Some Reconciling then
            call_then (lift_err UpdateHistory (append_session_update E sid inc update rg)) (\<lambda>_ rg1.
            call_then (lift_err UpdateHistory (mirror_view sid inc rg1)) (\<lambda>_ rg2. (Ok (), rg2)))
          else (Ok (), rg))"

definition project_stream :: "env \<Rightarrow> string \<Rightarrow> u64 \<Rightarrow> json \<Rightarrow> session_registry
    \<Rightarrow> (update_error, unit) result \<times> session_registry" where
  "project_stream E sid inc update rg =
     (if Option.bind (state_of sid rg) turn_execution_of \<noteq> None then
        try_in rg (ok_or UpdateMissing (Option.bind (state_of sid rg) ss_active_turn)) (\<lambda>overlay.
          lift_err UpdateRuntime (project_turn_update E (rg_epoch rg) sid inc overlay update rg))
      else (Ok (), rg))"

definition live_update :: "env \<Rightarrow> string \<Rightarrow> json \<Rightarrow> session_registry
    \<Rightarrow> (update_error, unit) result \<times> session_registry" where
  "live_update E sid update rg =
     (let inc = (case attached_incarnation sid rg of Some i \<Rightarrow> i | None \<Rightarrow> 0);
          phase = attached_phase sid rg
      in if inc = 0 then (Ok (), rg)
         else if is_conversation_update update then
           call_then (mirror_stream E sid inc phase update rg) (\<lambda>_ rg1. project_stream E sid inc update rg1)
         else
           lift_err UpdateRuntime (update_control_state E (rg_epoch rg) sid inc
             (case get_str update ''sessionUpdate'' of Some k \<Rightarrow> k | None \<Rightarrow> ''unknown'') update rg))"

text \<open>An update of a session whose attachment is in flight goes to its load or to its candidate.\<close>

definition attachment_update :: "env \<Rightarrow> string \<Rightarrow> json \<Rightarrow> session_registry
    \<Rightarrow> (update_error, unit) result \<times> session_registry" where
  "attachment_update E sid update rg =
     try_in rg (ok_or UpdateMissing (map_option ss_incarnation (state_of sid rg))) (\<lambda>inc.
       if is_conversation_update update then
         try_in rg (ok_or UpdateMissing (mirror_load_attempt sid inc rg)) (\<lambda>attempt.
           lift_err UpdateHistory (append_load_update E sid inc attempt update rg))
       else lift_err UpdateRuntime (append_attachment_candidate E (rg_epoch rg) sid inc update rg))"

section \<open>The execution of a turn bears its intent\<close>

definition turn_named :: "turn_overlay option \<Rightarrow> bool" where
  "turn_named t \<longleftrightarrow> pred_option (\<lambda>t. pred_option (\<lambda>x. tx_rpc_operation_id x = ov_client_intent_id t) (ov_execution t)) t"

definition turns_named :: "session_registry \<Rightarrow> bool" where
  "turns_named rg \<longleftrightarrow> (\<forall>sid s. state_of sid rg = Some s \<longrightarrow> turn_named (ss_active_turn s))"

lemma turn_named_kept: "turn_kept t t' \<Longrightarrow> turn_named t \<Longrightarrow> turn_named t'"
  by (cases t) (auto simp: turn_kept_def turn_named_def)

lemma turn_named_unexecuted: "turn_execution_of s = None \<Longrightarrow> turn_named (ss_active_turn s)"
  by (cases "ss_active_turn s") (simp_all add: turn_execution_of_def turn_named_def)

lemma turns_named_session:
  assumes "turns_named rg" "\<And>k. k \<noteq> sid \<Longrightarrow> state_of k rg' = state_of k rg"
    and "\<And>s. state_of sid rg' = Some s \<Longrightarrow> turn_named (ss_active_turn s)"
  shows "turns_named rg'"
  using assms unfolding turns_named_def by metis

lemma turns_named_calm:
  assumes "turns_named rg" "calm sid rg rg'"
  shows "turns_named rg'"
proof (rule turns_named_session [OF assms(1)])
  note c = assms(2) [unfolded calm_def only_session_def]
  show "state_of k rg' = state_of k rg" if "k \<noteq> sid" for k using c that by simp
  show "turn_named (ss_active_turn t)" if t: "state_of sid rg' = Some t" for t
  proof (cases "turn_execution_of t = None")
    case False
    have "turn_carried (state_of sid rg) (state_of sid rg')" using c quiet_carried by auto
    with False t assms(1) show ?thesis by (auto simp: turn_carried_def turns_named_def)
  qed (rule turn_named_unexecuted)
qed


lemma turns_upserted:
  assumes "turns_named rg"
  shows "turns_named (upserted E sid rg)"
proof (rule turns_named_session [OF assms, where sid = sid])
  show "state_of k (upserted E sid rg) = state_of k rg" if "k \<noteq> sid" for k using that
    by (auto simp: upserted_def commit_session_def expect_in_def Let_def registry_simps split: option.split)
  show "turn_named (ss_active_turn s)" if "state_of sid (upserted E sid rg) = Some s" for s using that assms
    by (auto simp: upserted_def commit_session_def expect_in_def Let_def registry_simps turns_named_def split: option.splits)
qed

lemma turns_put_state:
  assumes "turns_named rg" "turn_named (ss_active_turn s)"
  shows "turns_named (put_state sid s rg)"
  by (rule turns_named_session [OF assms(1), where sid = sid])
     (use assms(2) in \<open>auto simp: registry_simps split: if_splits\<close>)

lemma turns_named_fields [simp]:
  "turns_named (add_effects fx rg) = turns_named rg"
  "turns_named (rg\<lparr>rg_journal := j\<rparr>) = turns_named rg"
  "turns_named (commit_delta E r ch rg) = turns_named rg"
  "turns_named (rg\<lparr>rg_next_incarnation := n\<rparr>) = turns_named rg"
  "turns_named (rg\<lparr>rg_next_operation := n\<rparr>) = turns_named rg"
  "turns_named (rg\<lparr>rg_overlay_bytes := n2\<rparr>) = turns_named rg"
  by (simp_all add: turns_named_def registry_simps)

lemma turns_admitted:
  assumes "start_turn E sid inc revision intent prompt rg = (Ok adm, rg1)" "turns_named rg"
  shows "turns_named rg1"
proof -
  define op where "op = turn_operation_id (rg_epoch rg) (next_revision (rg_next_operation rg))"
  have a: "turn_named (ss_active_turn (snd (admit_turn E op revision intent prompt s)))" if "turn_named (ss_active_turn s)" for s
    using that by (auto simp: admit_turn_def try_in_def Let_def advance_revision_def turn_named_def
        split: result.split option.split)
  have "turns_named (snd (with_overlay sid inc (admit_turn E op revision intent prompt) rg))"
  proof (cases "require_state sid inc rg")
    case (Ok s)
    have "turn_named (ss_active_turn s)" using Ok assms(2) by (auto simp: require_state_Ok turns_named_def)
    from a [OF this] Ok show ?thesis
      by (auto simp: with_overlay_def account_overlay_def split: prod.split result.split intro!: turns_put_state assms(2))
  qed (use assms(2) in \<open>simp_all add: with_overlay_def\<close>)
  with assms(1) show ?thesis
    by (cases "with_overlay sid inc (admit_turn E op revision intent prompt) rg"; cases "fst (with_overlay sid inc (admit_turn E op revision intent prompt) rg)")
       (auto simp: start_turn_def Let_def op_def [symmetric] split: turn_admission.splits)
qed

lemma owner_change_turn:
  assumes "owner_change rg s s'" "turns_named rg" "state_of sid rg = Some s"
  shows "turn_named (ss_active_turn s')"
proof -
  have "turn_kept (ss_active_turn s) (ss_active_turn s')" using assms(1) by (auto simp: owner_change_def)
  then show ?thesis using turn_named_kept assms(2,3) by (auto simp: turns_named_def)
qed

lemma turns_installed:
  assumes "turns_named rg"
  shows "turns_named (install_live E sid inc live rg)"
proof -
  have c: "turns_named (retire_entry sid (ss_incarnation s) reason (clear_history_for_replacement E sid (ss_incarnation s) rg))"
    if "state_of sid rg = Some s" for s reason
  proof (rule turns_named_session [OF assms, where sid = sid])
    let ?c = "clear_history_for_replacement E sid (ss_incarnation s) rg"
    have "only_session sid rg (retire_entry sid (ss_incarnation s) reason ?c)"
      by (rule only_session_trans [OF only_session_clear only_session_retire])
    then show "state_of k (retire_entry sid (ss_incarnation s) reason ?c) = state_of k rg" if "k \<noteq> sid" for k
      using that by (simp add: only_session_def)
    have "state_of sid (retire_entry sid (ss_incarnation s) reason ?c) = None"
      by (rule state_of_retired [OF clear_history_state [OF that]]) (simp add: session_cold_def)
    then show "turn_named (ss_active_turn t)" if "state_of sid (retire_entry sid (ss_incarnation s) reason ?c) = Some t" for t
      using that by simp
  qed
  have new: "turns_named (put_entry sid (entry_new ((session_cold sid inc)\<lparr>ss_live := l\<rparr>)) g)" if "turns_named g" for g l
    by (rule turns_named_session [OF that, where sid = sid])
       (auto simp: registry_simps entry_new_def session_cold_def turn_named_def)
  define rg1 where "rg1 = (case state_of sid rg of
      Some s \<Rightarrow> if ss_incarnation s \<noteq> inc then retire_entry sid (ss_incarnation s) ''session incarnation was replaced''
          (clear_history_for_replacement E sid (ss_incarnation s) rg) else rg
    | None \<Rightarrow> rg)"
  have n: "turns_named rg1" using c assms by (auto simp: rg1_def split: option.split)
  then have "turn_named (ss_active_turn (s\<lparr>ss_live := Some live\<rparr>))" if "state_of sid rg1 = Some s" for s
    using that by (simp add: turns_named_def)
  then show ?thesis unfolding install_live_def Let_def rg1_def [symmetric]
    using n new turns_put_state by (auto split: option.split)
qed

lemma turns_named_step:
  assumes "runtime_step E rg rg'" "turns_named rg"
  shows "turns_named rg'"
  using assms(1)
proof (cases rule: runtime_step.cases)
  case (rs_quiet sid s s')
  then show ?thesis using owner_change_turn [OF rs_quiet(4) assms(2)] assms(2) by (simp add: turns_put_state)
next
  case (rs_upsert sid s s' j effects)
  then show ?thesis using owner_change_turn [OF rs_upsert(4) assms(2)] assms(2)
    by (auto intro!: turns_upserted turns_put_state)
next
  case rs_admit
  then show ?thesis using turns_admitted assms(2) by (blast intro: turns_upserted)
next
  case (rs_control sid s l inc key update)
  have "turn_named (ss_active_turn s)" using assms(2) rs_control(2) by (simp add: turns_named_def)
  with assms(2) show ?thesis unfolding rs_control(1)
    by (auto simp: commit_control_update_def Let_def registry_simps rs_control(2) split: option.split intro!: turns_put_state)
next
  case (rs_terminal sid s)
  have "turn_named (ss_active_turn s)" using assms(2) rs_terminal(2) by (simp add: turns_named_def)
  with assms(2) show ?thesis unfolding rs_terminal(1) by (auto intro!: turns_put_state)
next
  case (rs_remove sid s inc s' l' op t effects)
  have "turn_named (ss_active_turn s')" using turn_named_kept [OF rs_remove(7)] assms(2) rs_remove(2,6)
    by (simp add: turns_named_def)
  with assms(2) show ?thesis unfolding rs_remove(1) by (auto simp: commit_removal_def intro!: turns_put_state)
next
  case rs_connection
  then show ?thesis using assms(2) by (simp add: turns_named_def commit_connection_def Let_def registry_simps state_of_def entry_of_def commit_delta_def)
next
  case (rs_install sid controls inc op lifecycle rg1 cwd session s)
  have "turns_named rg1" unfolding rs_install(6) by (rule turns_installed) (use assms(2) in simp)
  moreover from this rs_install(7) have "turn_named (ss_active_turn s)" by (simp add: turns_named_def)
  ultimately show ?thesis unfolding rs_install(1) by (auto intro!: turns_upserted turns_put_state)
next
  case (rs_cleaned sid s)
  have "turn_named (ss_active_turn s)" using assms(2) rs_cleaned(2) by (simp add: turns_named_def)
  with assms(2) show ?thesis unfolding rs_cleaned(1) by (auto intro!: turns_put_state)
qed (use assms(2) in simp)

section \<open>An update of the running turn\<close>

text \<open>The session after an update is folded into its turn.\<close>

definition turn_folded :: "env \<Rightarrow> json \<Rightarrow> session_state \<Rightarrow> session_state \<Rightarrow> bool" where
  "turn_folded E update s s' \<longleftrightarrow> (\<exists>turn updates. ss_active_turn s = Some turn \<and>
     fold_shared_active_turn_update (ov_updates turn) update = Ok updates \<and>
     s' = advance_revision (s\<lparr>ss_active_overlay_bytes := overlay_bytes_of E (turn\<lparr>ov_updates := updates\<rparr>),
       ss_active_turn := Some (turn\<lparr>ov_updates := updates\<rparr>)\<rparr>))"

lemma fold_overlay_update_cases:
  obtains r where "fold_overlay_update E update s = (r, s)" "r \<noteq> Ok ()"
  | s' where "fold_overlay_update E update s = (Ok (), s')" "turn_folded E update s s'"
proof (cases "ss_active_turn s")
  case (Some turn)
  then show ?thesis using that
    by (cases "fold_shared_active_turn_update (ov_updates turn) update")
       (auto simp: fold_overlay_update_def turn_folded_def Let_def)
qed (use that(1) in \<open>simp add: fold_overlay_update_def\<close>)

lemma turn_folded_fields:
  assumes "turn_folded E update s s'"
  shows "ss_live s' = ss_live s" "ss_incarnation s' = ss_incarnation s" "ss_session_id s' = ss_session_id s"
    "ss_operation s' = ss_operation s" "turn_execution_of s' = turn_execution_of s" "in_cleanup s' = in_cleanup s"
    "turn_named (ss_active_turn s') = turn_named (ss_active_turn s)"
  using assms by (auto simp: turn_folded_def advance_revision_def turn_execution_of_def in_cleanup_def turn_named_def)

lemma turn_folded_quiet: "turn_folded E update s s' \<Longrightarrow> turn_execution_of s = None \<Longrightarrow> quiet s s'"
  using turn_folded_fields [of E update s s'] by (simp add: quiet_def)

text \<open>Folding the update that was published gives the turn that is shown.\<close>

lemma active_turn_folded:
  assumes "turn_folded E update s s'" "turn_execution_of s = Some x"
  shows "\<exists>turn updates. active_turn_of s = Some turn \<and> at_operation_id turn = tx_rpc_operation_id x \<and>
    fold_shared_active_turn_update (at_updates turn) update = Ok updates \<and>
    active_turn_of s' = Some (turn\<lparr>at_updates := updates\<rparr>)"
  using assms by (auto simp: turn_folded_def advance_revision_def turn_execution_of_def active_turn_of_def)

lemma commit_turn_update_eq:
  assumes "state_of sid rg = Some s" "ss_live s = Some l"
  shows "commit_turn_update E sid inc op update rg =
    commit_delta E (Some (next_revision (lv_revision l))) (TurnUpdateAppended sid inc (next_revision (lv_revision l)) op update)
      (put_state sid (s\<lparr>ss_live := Some (l\<lparr>lv_revision := next_revision (lv_revision l)\<rparr>)\<rparr>) rg)"
  using assms by (simp add: commit_turn_update_def Let_def)

lemma hub_ok_published_turn:
  assumes ok: "hub_ok rg" "room rg" and o: "only_session sid rg rg1"
    and s: "state_of sid rg = Some s" "ss_live s = Some l" and s1: "state_of sid rg1 = Some s'" "turn_folded E update s s'"
  shows "hub_ok (commit_turn_update E sid inc op update rg1)"
proof -
  let ?r = "next_revision (lv_revision l)"
  let ?l = "l\<lparr>lv_revision := ?r\<rparr>"
  note f = turn_folded_fields [OF s1(2)]
  define rg' where "rg' = commit_turn_update E sid inc op update rg1"
  have e: "rg' = commit_delta E (Some ?r) (TurnUpdateAppended sid inc ?r op update) (put_state sid (s'\<lparr>ss_live := Some ?l\<rparr>) rg1)"
    unfolding rg'_def by (rule commit_turn_update_eq [OF s1(1)]) (simp add: f(1) s(2))
  note oo = o [unfolded only_session_def]
  have j: "jn_seq (rg_journal rg') = next_revision (jn_seq (rg_journal rg))" "rg_next_incarnation rg' = rg_next_incarnation rg"
    "same_connection rg rg'" using oo by (simp_all add: e registry_simps same_connection_def)
  note lo = hub_okD(5) [OF ok(1) s]
  have live: "live_ok rg' t ?l" if "ss_incarnation t = ss_incarnation s" for t
    using lo revision_step [OF lo ok(2)] that by (simp add: live_ok_def live_published_def live_wf_def j)
  have st: "state_of k rg' = (if k = sid then Some (s'\<lparr>ss_live := Some ?l\<rparr>) else state_of k rg)" for k
    using oo s1(1) by (simp add: e registry_simps)
  have wf: "bt_wf (rg_sessions rg')" using oo hub_okD(3) [OF ok(1)] by (simp add: e commit_delta_def bt_wf_put_state)
  have own: "ss_session_id t = sid \<and> pred_option (live_ok rg' t) (ss_live t)" if "state_of sid rg' = Some t" for t
    using that live f(2,3) hub_okD(4) [OF ok(1) s(1)] by (auto simp: st)
  show ?thesis unfolding rg'_def [symmetric]
    by (rule hub_ok_session [OF ok(1) wf _ j(3) _ _ own]) (use seq_room [OF ok(2)] in \<open>simp_all add: st j\<close>)
qed


lemma projected_published_turn:
  assumes ok: "hub_ok rg" "room rg" and o: "only_session sid rg rg1"
    and s: "state_of sid rg = Some s" "ss_live s = Some l" "\<not> in_cleanup s" "ss_incarnation s = inc"
    and s1: "state_of sid rg1 = Some s'" "turn_folded E update s s'" and x: "turn_execution_of s = Some x"
  shows "projected E rg (commit_turn_update E sid inc (tx_rpc_operation_id x) update rg1)"
proof -
  let ?r = "next_revision (lv_revision l)" and ?op = "tx_rpc_operation_id x"
  let ?l = "l\<lparr>lv_revision := ?r\<rparr>"
  let ?s = "s'\<lparr>ss_live := Some ?l\<rparr>"
  note f = turn_folded_fields [OF s1(2)]
  have e: "commit_turn_update E sid inc ?op update rg1
      = commit_delta E (Some ?r) (TurnUpdateAppended sid inc ?r ?op update) (put_state sid ?s rg1)"
    by (rule commit_turn_update_eq [OF s1(1)]) (simp add: f(1) s(2))
  note v = session_view_eq [OF session_view_at [OF s(3,2)] s(2)]
  have v1: "session_view ?s \<noteq> None" by (rule session_view_at [of _ ?l]) (use s(3) f(6) in simp_all)
  obtain turn updates where t: "active_turn_of s = Some turn" "at_operation_id turn = ?op"
    "fold_shared_active_turn_update (at_updates turn) update = Ok updates" "active_turn_of s' = Some (turn\<lparr>at_updates := updates\<rparr>)"
    using active_turn_folded [OF s1(2) x] by blast
  let ?f = "\<lambda>v. res_bind (ok_or () (sr_active_turn v)) (\<lambda>turn.
         if at_operation_id turn \<noteq> ?op then Err ()
         else res_bind (map_err (\<lambda>_. ()) (fold_shared_active_turn_update (at_updates turn) update)) (\<lambda>folded.
           Ok (v\<lparr>sr_active_turn := Some (turn\<lparr>at_updates := folded\<rparr>)\<rparr>)))"
  have "active_turn_of ?s = active_turn_of s'" by (simp add: active_turn_of_def)
  then have shown: "\<exists>v'. ?f w = Ok v' \<and> same_view (Some (v'\<lparr>sr_revision := ?r\<rparr>)) (session_view ?s)"
    if w: "same_view (Some w) (session_view s)" for w
  proof -
    have "sr_active_turn w = Some turn" using w t(1) by (auto simp: v same_view_def)
    then have "?f w = Ok (w\<lparr>sr_active_turn := Some (turn\<lparr>at_updates := updates\<rparr>)\<rparr>)" using t(2,3) by simp
    moreover have "same_view (Some (w\<lparr>sr_active_turn := Some (turn\<lparr>at_updates := updates\<rparr>), sr_revision := ?r\<rparr>)) (session_view ?s)"
      using w t f session_view_eq [OF v1, of ?l] \<open>active_turn_of ?s = active_turn_of s'\<close> by (auto simp: v same_view_def)
    ultimately show ?thesis by (intro exI conjI)
  qed
  show ?thesis unfolding e
    by (rule projected_shown [OF ok(2) _ _ s(1,2) session_view_at [OF s(3,2)] s(4) _ refl, where ?s1.0 = ?s and f = ?f])
       ((rule shown, assumption)
        | (use o s f s1 revision_room [OF hub_okD(2) [OF ok(1)] ok(2) s(1,2)] in
            \<open>simp add: only_session_def same_connection_def registry_simps; fail\<close>))+
qed

section \<open>Every streamed update\<close>

definition unexecuted :: "string \<Rightarrow> session_registry \<Rightarrow> bool" where
  "unexecuted sid rg \<longleftrightarrow> pred_option (\<lambda>s. turn_execution_of s = None) (state_of sid rg)"

lemma calm_unexecuted: "calm sid rg rg' \<Longrightarrow> unexecuted sid rg \<Longrightarrow> unexecuted sid rg'"
  by (auto simp: calm_def unexecuted_def quiet_def turn_carried_def pred_option_def turn_execution_of_def)

lemma snd_lift_err [simp]: "snd (lift_err f x) = snd x"
  by (simp add: lift_err_def)

lemma quiet_fold_overlay: "turn_execution_of s = None \<Longrightarrow> quiet s (snd (fold_overlay_update E update s))"
  by (rule fold_overlay_update_cases [of E update s]) (auto simp: turn_folded_quiet)

lemma quiet_append_turn:
  assumes "turn_execution_of s = None"
  shows "quiet s (snd (append_turn_update E op update s))" "quiet s (snd (append_reconciling_update E update s))"
  by (cases "ss_active_turn s"; simp add: append_turn_update_def append_reconciling_update_def quiet_fold_overlay assms)+

lemma calm_append_session:
  assumes "unexecuted sid rg"
  shows "calm sid rg (snd (append_session_update E sid inc update rg))"
proof -
  have q: "quiet s (snd (append_reconciling_update E update s))" if "state_of sid rg = Some s" for s
    by (rule quiet_append_turn) (use assms that in \<open>simp add: unexecuted_def\<close>)
  have p: "calm sid rg1 (put_state sid (advance_revision (s1\<lparr>ss_history_revision := r\<rparr>)) rg1)"
    if "state_of sid rg1 = Some s1" for rg1 s1 r
    by (rule calm_put_state [OF that]) (simp add: quiet_def advance_revision_def in_cleanup_def turn_execution_of_def)
  show ?thesis unfolding append_session_update_def
    by (intro calm_intros calm_with_overlay; (simp add: q p)?)
qed

lemma calm_mirror_stream:
  assumes "unexecuted sid rg"
  shows "calm sid rg (snd (mirror_stream E sid inc phase update rg))"
proof -
  have a: "calm sid rg (snd (mirror_append_turn_update E sid inc op update rg))" for op
    unfolding mirror_append_turn_update_def
    by (rule calm_with_overlay) (use assms quiet_append_turn in \<open>simp add: unexecuted_def\<close>)
  have "calm sid rg (snd (call_then (lift_err UpdateHistory (append_session_update E sid inc update rg)) (\<lambda>_ rg1.
      call_then (lift_err UpdateHistory (mirror_view sid inc rg1)) (\<lambda>_ rg2. (Ok (), rg2)))))"
    by (intro calm_call_then) (simp_all add: calm_append_session assms calm_view)
  with a show ?thesis by (auto simp: mirror_stream_def split: option.split)
qed

lemma project_stream_unexecuted: "unexecuted sid rg \<Longrightarrow> project_stream E sid inc update rg = (Ok (), rg)"
  by (cases "state_of sid rg") (simp_all add: project_stream_def unexecuted_def)

text \<open>A turn in execution is the running turn of its session.\<close>

definition turn_runs :: "string \<Rightarrow> session_registry \<Rightarrow> bool" where
  "turn_runs sid rg \<longleftrightarrow> pred_option (\<lambda>s. turn_execution_of s = None \<or> (ss_phase s = Running \<and> \<not> in_cleanup s)) (state_of sid rg)"

lemma attached_incarnation_Some:
  "attached_incarnation sid rg = Some inc \<longleftrightarrow>
     (\<exists>s l. state_of sid rg = Some s \<and> ss_live s = Some l \<and> ss_incarnation s = inc \<and>
        lv_lifecycle l \<in> {Active, Closing, ClosingForDelete})"
  by (auto simp: attached_incarnation_def resource_session_def bind_eq_Some_conv split: option.splits if_splits)

lemma append_turn_update_cases:
  assumes "state_of sid rg = Some s" "ss_incarnation s = inc" "bt_wf (rg_sessions rg)"
  obtains r where "mirror_append_turn_update E sid inc op update rg = (r, rg)" "r \<noteq> Ok ()"
  | s' rg' where "mirror_append_turn_update E sid inc op update rg = (Ok (), rg')" "only_session sid rg rg'"
      "state_of sid rg' = Some s'" "turn_folded E update s s'"
proof -
  have r: "require_state sid inc rg = Ok s" using assms by (simp add: require_state_Ok)
  note same = put_state_same [OF assms(3,1)]
  consider y where "append_turn_update E op update s = (y, s)" "y \<noteq> Ok ()"
    | s' where "append_turn_update E op update s = (Ok (), s')" "turn_folded E update s s'"
  proof (cases "append_turn_update E op update s = fold_overlay_update E update s")
    case True
    then show ?thesis using that fold_overlay_update_cases [of E update s] by metis
  next
    case False
    then have "\<exists>e. append_turn_update E op update s = (Err e, s)"
      by (cases "ss_active_turn s") (auto simp: append_turn_update_def split: if_splits)
    then show ?thesis using that(1) by auto
  qed
  then show ?thesis
  proof cases
    case 1
    then show ?thesis using r same that(1)
      by (cases y) (simp_all add: mirror_append_turn_update_def with_overlay_def)
  next
    case 2
    let ?rg = "account_overlay (ss_active_overlay_bytes s) (ss_active_overlay_bytes s') (put_state sid s' rg)"
    have "only_session sid rg ?rg" unfolding account_overlay_def
      by (rule only_session_trans [OF only_session_put_state only_session_fields(2)])
    moreover have "state_of sid ?rg = Some s'" using assms(1) by (simp add: account_overlay_def registry_simps)
    ultimately show ?thesis using that(2) [of ?rg s'] 2 r
      by (simp add: mirror_append_turn_update_def with_overlay_def)
  qed
qed

lemma project_stream_folded:
  assumes s: "state_of sid rg = Some s" "turn_folded E update s0 s" "turn_execution_of s = Some x" "turn_named (ss_active_turn s)"
    and o: "ss_incarnation s = inc" "ss_live s \<noteq> None" "\<not> in_cleanup s"
  shows "project_stream E sid inc update rg = (Ok (), commit_turn_update E sid inc (tx_rpc_operation_id x) update rg)"
proof -
  obtain turn where t: "ss_active_turn s = Some turn" "ov_execution turn = Some x"
    using s(3) by (auto simp: turn_execution_of_def bind_eq_Some_conv)
  have "require_live_owner sid inc rg = Ok s" using s(1) o by (simp add: require_live_owner_Ok)
  then show ?thesis using s(1,3,4) t
    by (simp add: project_stream_def project_turn_update_def require_epoch_def lift_err_def turn_named_def)
qed

definition stays :: "env \<Rightarrow> session_registry \<Rightarrow> session_registry \<Rightarrow> bool" where
  "stays E rg rg' \<longleftrightarrow> projected E rg rg' \<and> hub_ok rg' \<and> turns_named rg'"

lemma stays_same: "hub_ok rg \<Longrightarrow> turns_named rg \<Longrightarrow> stays E rg rg"
  by (auto simp: stays_def intro: projected_still simp: same_connection_def)

lemma stays_calm: "hub_ok rg \<Longrightarrow> turns_named rg \<Longrightarrow> calm sid rg rg' \<Longrightarrow> stays E rg rg'"
  by (simp add: stays_def projected_calm hub_ok_calm turns_named_calm)

lemma stays_step: "runtime_step E rg rg' \<Longrightarrow> hub_ok rg \<Longrightarrow> turns_named rg \<Longrightarrow> room rg \<Longrightarrow> stays E rg rg'"
  by (simp add: stays_def projected_step hub_okD hub_ok_step turns_named_step)

lemma stays_outcome:
  assumes "outcome E rg x" "hub_ok rg" "turns_named rg" "room rg"
  shows "stays E rg (snd x)"
  using assms stays_step [of E rg "snd x"] stays_same [of rg E]
  by (cases "fst x") (auto simp: outcome_def)

lemma live_update_running:
  assumes ok: "hub_ok rg" "turns_named rg" "room rg"
    and s: "state_of sid rg = Some s" "turn_execution_of s = Some x" "ss_phase s = Running" "\<not> in_cleanup s"
    and a: "attached_incarnation sid rg = Some inc"
  shows "stays E rg (snd (call_then (mirror_stream E sid inc (Some Running) update rg) (\<lambda>_ rg1. project_stream E sid inc update rg1)))"
proof -
  obtain l where l: "ss_live s = Some l" "ss_incarnation s = inc" using a s(1) by (auto simp: attached_incarnation_Some)
  obtain turn where t: "ss_active_turn s = Some turn" using s(2) by (auto simp: turn_execution_of_def bind_eq_Some_conv)
  have op: "active_operation_id sid inc rg = Some (ov_operation_id turn)"
    using s(1) l(2) t by (simp add: active_operation_id_def require_state_Ok [THEN iffD2])
  show ?thesis
  proof (cases rule: append_turn_update_cases [OF s(1) l(2) hub_okD(3) [OF ok(1)], where E = E and op = "ov_operation_id turn" and update = update])
    case (1 r)
    then show ?thesis using stays_same [OF ok(1,2)] op
      by (cases r) (simp_all add: mirror_stream_def lift_err_def)
  next
    case (2 s' rg')
    note f = turn_folded_fields [OF 2(4)]
    have "project_stream E sid inc update rg' = (Ok (), commit_turn_update E sid inc (tx_rpc_operation_id x) update rg')"
      by (rule project_stream_folded [OF 2(3,4)]) (use s l f ok(2) in \<open>simp_all add: turns_named_def\<close>)
    then have e: "snd (call_then (mirror_stream E sid inc (Some Running) update rg) (\<lambda>_ rg1. project_stream E sid inc update rg1))
        = commit_turn_update E sid inc (tx_rpc_operation_id x) update rg'"
      using op 2(1) by (simp add: mirror_stream_def lift_err_def)
    have "turns_named (commit_turn_update E sid inc (tx_rpc_operation_id x) update rg')"
      by (rule turns_named_session [OF ok(2), where sid = sid])
         (use 2 l f ok(2) s(1) in \<open>auto simp: commit_turn_update_eq [OF 2(3), of l] registry_simps only_session_def turns_named_def\<close>)
    then show ?thesis unfolding e stays_def
      using projected_published_turn [OF ok(1,3) 2(2) s(1) l(1) s(4) l(2) 2(3,4) s(2)]
        hub_ok_published_turn [OF ok(1,3) 2(2) s(1) l(1) 2(3,4)] by simp
  qed
qed

lemma live_update_stays:
  assumes ok: "hub_ok rg" "turns_named rg" "room rg" and r: "turn_runs sid rg"
  shows "stays E rg (snd (live_update E sid update rg))"
proof (cases "attached_incarnation sid rg")
  case None
  then show ?thesis using stays_same [OF ok(1,2)] by (simp add: live_update_def)
next
  case (Some inc)
  note control = outcome_turn [OF hub_okD(1) [OF ok(1)]]
  have c: "stays E rg (snd (update_control_state E ep sid inc key update rg))" for ep key
    by (rule stays_outcome [OF _ ok]) (simp only: control)
  have conv: "stays E rg (snd (call_then (mirror_stream E sid inc (attached_phase sid rg) update rg) (\<lambda>_ rg1. project_stream E sid inc update rg1)))"
  proof (cases "unexecuted sid rg")
    case True
    have "calm sid rg (snd (call_then (mirror_stream E sid inc p update rg) (\<lambda>_ rg1. project_stream E sid inc update rg1)))" for p
    proof (rule calm_call_then [OF calm_mirror_stream [OF True]])
      fix a rg1
      assume "mirror_stream E sid inc p update rg = (Ok a, rg1)"
      then have "unexecuted sid rg1" using calm_unexecuted [OF calm_mirror_stream [OF True] True, of E inc p update] by simp
      then show "calm sid rg1 (snd (project_stream E sid inc update rg1))" by (simp add: project_stream_unexecuted)
    qed
    then show ?thesis by (rule stays_calm [OF ok(1,2)])
  next
    case False
    then obtain s x where s: "state_of sid rg = Some s" "turn_execution_of s = Some x" "ss_phase s = Running" "\<not> in_cleanup s"
      using r by (cases "state_of sid rg") (auto simp: unexecuted_def turn_runs_def)
    have "ss_incarnation s = inc" using Some s(1) by (auto simp: attached_incarnation_Some)
    then have "attached_phase sid rg = Some Running" using Some s by (simp add: attached_phase_def)
    then show ?thesis using live_update_running [OF ok s Some] by simp
  qed
  show ?thesis using Some c conv stays_same [OF ok(1,2)] by (simp add: live_update_def)
qed

lemma attachment_update_stays:
  assumes ok: "hub_ok rg" "turns_named rg" "room rg"
  shows "stays E rg (snd (attachment_update E sid update rg))"
proof -
  have "stays E rg (snd (append_load_update E sid inc attempt update rg))" for inc attempt
    by (rule stays_calm [OF ok(1,2) calm_load_records(1)])
  moreover have "stays E rg (snd (append_attachment_candidate E ep sid inc update rg))" for ep inc
    by (rule stays_outcome [OF outcome_append_candidate [OF hub_okD(1) [OF ok(1)]] ok])
  ultimately show ?thesis using stays_same [OF ok(1,2)]
    by (cases "state_of sid rg"; cases "mirror_load_attempt sid (ss_incarnation (the (state_of sid rg))) rg")
       (simp_all add: attachment_update_def)
qed
end
