(* ===== verification/Runtime_Delivery.thy ===== *)
theory Runtime_Delivery
  imports Turn_Stream
begin

text \<open>
  The delivery of the published state from the Bridge to the server: the Bridge's cursor into the
  journal and the channel it sends on (\<open>flush_runtime\<close> and the snapshot request in
  \<open>src/src/bridge.rs\<close>), the server's projection and its request for a snapshot
  (\<open>src/src/server.rs\<close>).
\<close>

section \<open>The channel\<close>

datatype runtime_event = EvSnapshot runtime_snapshot | EvDelta runtime_delta

text \<open>
  The channel is unbounded and in order. It takes every event until the receiver goes away, which it
  may do between any two events: after \<open>ec_left\<close> further events, or never.
\<close>

record event_channel =
  ec_queue :: "runtime_event list"
  ec_left :: "nat option"

definition sink_runtime :: "runtime_event \<Rightarrow> event_channel \<Rightarrow> bool \<times> event_channel" where
  "sink_runtime e ch =
     (case ec_left ch of
        None \<Rightarrow> (True, ch\<lparr>ec_queue := ec_queue ch @ [e]\<rparr>)
      | Some 0 \<Rightarrow> (False, ch)
      | Some (Suc k) \<Rightarrow> (True, ch\<lparr>ec_queue := ec_queue ch @ [e], ec_left := Some k\<rparr>))"

record hub =
  hb_registry :: session_registry
  hb_published :: u64
  hb_channel :: event_channel
  hb_canonical :: "runtime_snapshot option"
  hb_pending :: bool
  hb_requests :: nat

definition hub_start :: "string \<Rightarrow> nat option \<Rightarrow> hub" where
  "hub_start epoch left = \<lparr>hb_registry = registry_new epoch, hb_published = 0,
     hb_channel = \<lparr>ec_queue = [], ec_left = left\<rparr>, hb_canonical = None, hb_pending = False, hb_requests = 0\<rparr>"

section \<open>The Bridge\<close>

fun send_deltas :: "runtime_delta list \<Rightarrow> u64 \<Rightarrow> event_channel \<Rightarrow> u64 \<times> event_channel" where
  "send_deltas [] n ch = (n, ch)"
| "send_deltas (d # ds) n ch =
     (case sink_runtime (EvDelta d) ch of
        (True, ch') \<Rightarrow> send_deltas ds (rd_seq d) ch'
      | (False, ch') \<Rightarrow> (n, ch'))"

definition send_snapshot :: "session_registry \<Rightarrow> u64 \<Rightarrow> event_channel \<Rightarrow> bool \<times> u64 \<times> event_channel" where
  "send_snapshot rg n ch =
     (let sn = registry_snapshot rg
      in case sink_runtime (EvSnapshot sn) ch of
           (True, ch') \<Rightarrow> (True, sn_through_seq sn, ch')
         | (False, ch') \<Rightarrow> (False, n, ch'))"

definition flush_runtime :: "hub \<Rightarrow> hub" where
  "flush_runtime h =
     (case (case registry_deltas_after (hb_published h) (hb_registry h) of
              Some ds \<Rightarrow> send_deltas ds (hb_published h) (hb_channel h)
            | None \<Rightarrow> snd (send_snapshot (hb_registry h) (hb_published h) (hb_channel h))) of
        (n, ch) \<Rightarrow> h\<lparr>hb_published := n, hb_channel := ch,
          hb_registry := release_published_runtime n (hb_registry h)\<rparr>)"

definition serve_snapshot_request :: "hub \<Rightarrow> hub" where
  "serve_snapshot_request h =
     (if hb_requests h = 0 then h
      else case send_snapshot (hb_registry h) (hb_published h) (hb_channel h) of
        (sent, n, ch) \<Rightarrow> h\<lparr>hb_requests := hb_requests h - 1, hb_channel := ch, hb_published := n,
          hb_registry := if sent then release_published_runtime n (hb_registry h) else hb_registry h\<rparr>)"

section \<open>The server\<close>

definition apply_event :: "env \<Rightarrow> runtime_event \<Rightarrow> runtime_snapshot option \<Rightarrow> (unit, runtime_snapshot option) result" where
  "apply_event E e p =
     (case e of EvSnapshot sn \<Rightarrow> Ok (apply_snapshot sn) | EvDelta d \<Rightarrow> apply_runtime_delta E d p)"

text \<open>The next event of the channel; a panic would end the server's task.\<close>

definition receive_event :: "env \<Rightarrow> hub \<Rightarrow> (unit, unit) result \<times> hub" where
  "receive_event E h =
     (case ec_queue (hb_channel h) of
        [] \<Rightarrow> (Ok (), h)
      | e # q \<Rightarrow>
          let h1 = h\<lparr>hb_channel := (hb_channel h)\<lparr>ec_queue := q\<rparr>\<rparr>
          in try_in h1 (apply_event E e (hb_canonical h)) (\<lambda>p.
               let h2 = h1\<lparr>hb_canonical := p\<rparr>
               in (Ok (),
                   if p \<noteq> None then h2\<lparr>hb_pending := False\<rparr>
                   else if \<not> hb_pending h then h2\<lparr>hb_pending := True, hb_requests := Suc (hb_requests h)\<rparr>
                   else h2)))"

section \<open>Runs\<close>

datatype hub_action =
    ActCall string runtime_call
  | ActUpdate string json
  | ActAttachment string json
  | ActMirror mirror_call
  | ActTakeEffects
  | ActFlush
  | ActServe
  | ActReceive

fun hub_do :: "env \<Rightarrow> hub_action \<Rightarrow> hub \<Rightarrow> (unit, unit) result \<times> hub" where
  "hub_do E (ActCall ep c) h =
     (map_err (\<lambda>_. ()) (fst (runtime_do E ep c (hb_registry h))),
      h\<lparr>hb_registry := snd (runtime_do E ep c (hb_registry h))\<rparr>)"
| "hub_do E (ActUpdate sid u) h =
     (map_err (\<lambda>_. ()) (fst (live_update E sid u (hb_registry h))), h\<lparr>hb_registry := snd (live_update E sid u (hb_registry h))\<rparr>)"
| "hub_do E (ActAttachment sid u) h =
     (map_err (\<lambda>_. ()) (fst (attachment_update E sid u (hb_registry h))), h\<lparr>hb_registry := snd (attachment_update E sid u (hb_registry h))\<rparr>)"
| "hub_do E (ActMirror c) h = (Ok (), h\<lparr>hb_registry := mirror_do E c (hb_registry h)\<rparr>)"
| "hub_do E ActTakeEffects h = (Ok (), h\<lparr>hb_registry := snd (take_effects (hb_registry h))\<rparr>)"
| "hub_do E ActFlush h = (Ok (), flush_runtime h)"
| "hub_do E ActServe h = (Ok (), serve_snapshot_request h)"
| "hub_do E ActReceive h = receive_event E h"


text \<open>
  What the Bridge sees to. An update for the running turn goes through \<open>live_update\<close>, a turn starts
  with its admission; a session is registered under its own incarnation or where none is live, and an
  operation that is settled is not the cleanup of a closed session.
\<close>

definition mirror_ok :: "mirror_call \<Rightarrow> session_registry \<Rightarrow> bool" where
  "mirror_ok c rg \<longleftrightarrow>
     (case c of
        CallRegister sid inc ready \<Rightarrow> pred_option (\<lambda>s. ss_live s = None \<or> ss_incarnation s = inc) (state_of sid rg)
      | CallSettleExclusive sid inc adm op \<Rightarrow> pred_option (\<lambda>s. \<not> in_cleanup s) (state_of sid rg)
      | CallStartTurn sid inc hrev intent prompt \<Rightarrow> False
      | CallAppendTurn sid inc op u \<Rightarrow> False
      | CallAppendSession sid inc u \<Rightarrow> False
      | _ \<Rightarrow> True)"

definition action_ok :: "hub_action \<Rightarrow> session_registry \<Rightarrow> bool" where
  "action_ok a rg \<longleftrightarrow>
     (case a of
        ActCall ep c \<Rightarrow> call_ok c rg \<and> \<not> publishes_turn c
      | ActUpdate sid u \<Rightarrow> turn_runs sid rg
      | ActMirror c \<Rightarrow> mirror_ok c rg
      | _ \<Rightarrow> True)"

inductive hub_reach :: "env \<Rightarrow> string \<Rightarrow> nat option \<Rightarrow> hub \<Rightarrow> bool" for E epoch left where
  hub_begin: "hub_reach E epoch left (hub_start epoch left)"
| hub_next: "hub_reach E epoch left h \<Longrightarrow> room (hb_registry h) \<Longrightarrow> action_ok a (hb_registry h) \<Longrightarrow>
    hub_reach E epoch left (snd (hub_do E a h))"

section \<open>The registry\<close>

lemma register_stays:
  assumes ok: "hub_ok rg" "turns_named rg" "room rg" and m: "mirror_ok (CallRegister sid inc ready) rg"
  shows "stays E rg (register_history E sid inc ready rg)"
proof -
  let ?rg = "rg\<lparr>rg_next_incarnation := max (rg_next_incarnation rg) inc\<rparr>"
  have c: "calm sid ?rg (register_history E sid inc ready rg)"
    by (rule calm_register) (use m runtime_ok_named [OF hub_okD(1) [OF ok(1)]] in \<open>simp_all add: mirror_ok_def\<close>)
  have k: "hub_ok ?rg" "projected E rg ?rg" "turns_named ?rg"
    using incarnation_moved [of rg "max (rg_next_incarnation rg) inc"] ok by (simp_all add: max_def)
  have j: "rg_journal (register_history E sid inc ready rg) = rg_journal rg" "rg_epoch (register_history E sid inc ready rg) = rg_epoch rg"
    using c by (simp_all add: calm_def only_session_def)
  have "follows sn (register_history E sid inc ready rg)" if "follows sn rg" for sn
  proof -
    have "follows sn ?rg" using that by (simp add: follows_def session_runtime_of_def registry_simps)
    then show ?thesis by (rule follows_calm [OF c])
  qed
  then have "projected E rg (register_history E sid inc ready rg)" using j by (simp add: projected_def)
  with hub_ok_calm [OF k(1) c] turns_named_calm [OF k(3) c] show ?thesis by (simp add: stays_def)
qed

lemma mirror_stays:
  assumes ok: "hub_ok rg" "turns_named rg" "room rg" and m: "mirror_ok c rg"
  shows "stays E rg (mirror_do E c rg)"
proof -
  note s = stays_calm [OF ok(1,2)]
  have n: "named sid rg" for sid by (rule runtime_ok_named [OF hub_okD(1) [OF ok(1)]])
  show ?thesis
  proof (cases c)
    case (CallRegister sid inc ready)
    with register_stays [OF ok, of sid inc ready E] m show ?thesis by simp
  next
    case (CallSettleExclusive sid inc adm op)
    with s [OF calm_settle_exclusive, of sid E inc adm op] m show ?thesis by (simp add: mirror_ok_def)
  qed (use m in \<open>simp_all add: mirror_ok_def s [OF calm_begin_load] s [OF calm_load_records(1)] s [OF calm_load_records(2)]
      s [OF calm_commit_load] s [OF calm_commit_attachment] s [OF calm_use_cached] s [OF calm_fail_load]
      s [OF calm_retain_terminal] s [OF calm_turn_end(1)] s [OF calm_turn_end(2)] s [OF calm_commit_memory]
      s [OF calm_begin_exclusive] s [OF calm_touch] s [OF calm_view] s [OF calm_remove] n\<close>)
qed

lemma call_stays:
  assumes ok: "hub_ok rg" "turns_named rg" "room rg" and c: "call_ok c rg" "\<not> publishes_turn c"
  shows "stays E rg (snd (runtime_do E ep c rg))"
  by (rule stays_outcome [OF runtime_do_outcome [OF hub_okD(1) [OF ok(1)] c] ok])

lemma stays_effects: "hub_ok rg \<Longrightarrow> turns_named rg \<Longrightarrow> stays E rg (snd (take_effects rg))"
proof -
  assume ok: "hub_ok rg" "turns_named rg"

  have st: "state_of k (rg\<lparr>rg_effects := []\<rparr>) = state_of k rg" for k by (simp add: state_of_def entry_of_def)
  have "projected E rg (rg\<lparr>rg_effects := []\<rparr>)"
    by (rule projected_still) (simp_all add: same_connection_def session_runtime_of_def st)
  moreover have "hub_ok (rg\<lparr>rg_effects := []\<rparr>)" using ok(1)
    by (simp add: hub_ok_alt st live_ok_def [abs_def] live_published_def)
  ultimately show ?thesis using ok(2) by (simp add: take_effects_def stays_def turns_named_def st)
qed

lemma released_registry:
  "hub_ok (release_published_runtime n rg) = hub_ok rg" "turns_named (release_published_runtime n rg) = turns_named rg"
  "follows sn (release_published_runtime n rg) = follows sn rg" "room (release_published_runtime n rg) = room rg"
  "jn_seq (rg_journal (release_published_runtime n rg)) = jn_seq (rg_journal rg)"
  "rg_epoch (release_published_runtime n rg) = rg_epoch rg"
proof -
  have j: "jn_seq (release_through n j) = jn_seq j" for j by (simp add: release_through_def split: prod.split)
  have st: "state_of k (rg\<lparr>rg_journal := j\<rparr>) = state_of k rg" for k j by (simp add: registry_simps)
  show "hub_ok (release_published_runtime n rg) = hub_ok rg"
    by (simp add: hub_ok_alt release_published_runtime_def st live_ok_def [abs_def] live_published_def j)
  show "turns_named (release_published_runtime n rg) = turns_named rg" by (simp add: release_published_runtime_def)
  show "follows sn (release_published_runtime n rg) = follows sn rg"
    by (simp add: release_published_runtime_def follows_def session_runtime_of_def st j)
  show "room (release_published_runtime n rg) = room rg" "rg_epoch (release_published_runtime n rg) = rg_epoch rg"
    "jn_seq (rg_journal (release_published_runtime n rg)) = jn_seq (rg_journal rg)"
    by (simp_all add: release_published_runtime_def room_def j)
qed

section \<open>The journal\<close>

definition numbered :: "runtime_journal \<Rightarrow> bool" where
  "numbered j \<longleftrightarrow> (\<exists>k. consecutive k (jn_deltas j) \<and> k + length (jn_deltas j) = unat (jn_seq j))"

lemma numbered_after:
  assumes "consecutive k (jn_deltas j)" "k + length (jn_deltas j) = unat (jn_seq j)" "n < - 1" "n \<le> jn_seq j"
    and "jn_deltas j \<noteq> [] \<or> jn_seq j < - 1"
  shows "journal_deltas_after n j = (if unat n < k then None else Some (map jd_delta (drop (unat n - k) (jn_deltas j))))"
  using consecutive_deltas_after [OF assms(1,2,5,3)] assms(4) by (simp add: word_le_nat_alt)

text \<open>A journal that loses its front gives the same deltas, or none.\<close>

lemma numbered_dropped:
  assumes j: "consecutive k (jn_deltas j)" "k + length (jn_deltas j) = unat (jn_seq j)" and n: "n \<le> jn_seq j" "jn_seq j < - 1"
    and j': "jn_deltas j' = drop i (jn_deltas j)" "i \<le> length (jn_deltas j)" "jn_seq j' = jn_seq j"
  shows "consecutive (k + i) (jn_deltas j') \<and> k + i + length (jn_deltas j') = unat (jn_seq j') \<and>
    journal_deltas_after n j' = (if unat n < k + i then None else journal_deltas_after n j)"
proof -
  have n': "n < - 1" using n by (rule order.strict_trans1)
  have c: "consecutive (k + i) (jn_deltas j')" "k + i + length (jn_deltas j') = unat (jn_seq j')"
    using consecutive_drop [OF j(1), of i] j j' by simp_all
  have r: "drop (unat n - (k + i)) (drop i (jn_deltas j)) = drop (unat n - k) (jn_deltas j)" if "k + i \<le> unat n"
    using that by simp
  have o: "jn_deltas j' \<noteq> [] \<or> jn_seq j' < - 1" "jn_deltas j \<noteq> [] \<or> jn_seq j < - 1" "n \<le> jn_seq j'"
    using n j'(3) by simp_all
  show ?thesis unfolding numbered_after [OF c n' o(3,1)] numbered_after [OF j n' n(1) o(2)]
    using c r j'(1) by simp
qed

lemma dropWhile_numbered:
  assumes "consecutive k (jn_deltas j)"
  obtains i where "dropWhile (\<lambda>e. jd_seq e \<le> m) (jn_deltas j) = drop i (jn_deltas j)" "i \<le> length (jn_deltas j)"
    "i \<le> unat m - k"
proof -
  have "dropWhile (\<lambda>e. jd_seq e \<le> m) (jn_deltas j) = drop (min (unat m - k) (length (jn_deltas j))) (jn_deltas j)"
    using consecutive_dropWhile [OF assms, of m] by (simp add: min_def)
  then show ?thesis using that [of "min (unat m - k) (length (jn_deltas j))"] by simp
qed

lemma numbered_before:
  assumes "numbered (rg_journal rg)" "journal_before rg j" "n \<le> jn_seq (rg_journal rg)" "room rg"
  shows "numbered j \<and> (journal_deltas_after n j = None \<or> journal_deltas_after n j = registry_deltas_after n rg)"
proof -
  obtain k where k: "consecutive k (jn_deltas (rg_journal rg))"
    "k + length (jn_deltas (rg_journal rg)) = unat (jn_seq (rg_journal rg))"
    using assms(1) by (auto simp: numbered_def)
  have r: "jn_seq (rg_journal rg) < - 1" using assms(4) by (simp add: room_def)
  have d: "\<exists>i. jn_deltas j = drop i (jn_deltas (rg_journal rg)) \<and> i \<le> length (jn_deltas (rg_journal rg))"
  proof -
    consider "j = rg_journal rg" | sid inc op where "j = retire_turn_payload sid inc op (rg_journal rg)"
      using assms(2) by (auto simp: journal_before_def)
    then show ?thesis
    proof cases
      case 2
      then have "jn_deltas j = jn_deltas (rg_journal rg) \<or>
          (\<exists>m. jn_deltas j = dropWhile (\<lambda>e. jd_seq e \<le> m) (jn_deltas (rg_journal rg)))"
        by (auto simp: retire_turn_payload_def Let_def split: list.split)
      then show ?thesis
      proof (elim disjE exE)
        fix m
        assume "jn_deltas j = dropWhile (\<lambda>e. jd_seq e \<le> m) (jn_deltas (rg_journal rg))"
        with dropWhile_numbered [OF k(1), of m] show ?thesis by metis
      qed (intro exI [of _ 0], simp)
    qed (intro exI [of _ 0], simp)
  qed
  then obtain i where i: "jn_deltas j = drop i (jn_deltas (rg_journal rg))" "i \<le> length (jn_deltas (rg_journal rg))" by blast
  from numbered_dropped [OF k assms(3) r i jn_seq_before [OF assms(2)]] show ?thesis
    by (auto simp: numbered_def registry_deltas_after_def)
qed

lemma release_numbered:
  assumes "numbered (rg_journal rg)" "n \<le> jn_seq (rg_journal rg)" "room rg"
  shows "numbered (rg_journal (release_published_runtime n rg)) \<and>
    registry_deltas_after n (release_published_runtime n rg) = registry_deltas_after n rg"
proof -
  let ?j = "rg_journal rg" and ?j' = "release_through n (rg_journal rg)"
  obtain k where k: "consecutive k (jn_deltas ?j)" "k + length (jn_deltas ?j) = unat (jn_seq ?j)"
    using assms(1) by (auto simp: numbered_def)
  have r: "jn_seq ?j < - 1" using assms(3) by (simp add: room_def)
  have "fst (release_front n es b) = dropWhile (\<lambda>e. jd_seq e \<le> n) es" for es b
    by (induction n es b rule: release_front.induct) (auto simp: not_less)
  then have "jn_deltas ?j' = dropWhile (\<lambda>e. jd_seq e \<le> n) (jn_deltas ?j)"
    by (simp add: release_through_def split_beta)
  with dropWhile_numbered [OF k(1), of n] obtain i where
    i: "jn_deltas ?j' = drop i (jn_deltas ?j)" "i \<le> length (jn_deltas ?j)" "i \<le> unat n - k" by metis
  have s: "jn_seq ?j' = jn_seq ?j" by (simp add: release_through_def split_beta)
  have n: "n < - 1" using assms(2) r by (rule order.strict_trans1)
  have "journal_deltas_after n ?j = None" if "unat n < k"
    using numbered_after [OF k n assms(2)] r that by simp
  moreover have "unat n < k" if "unat n < k + i" using that i(3) by simp
  ultimately show ?thesis using numbered_dropped [OF k assms(2) r i(1,2) s]
    by (auto simp: numbered_def registry_deltas_after_def release_published_runtime_def)
qed

lemma commit_numbered:
  assumes "numbered j" "jn_seq j < - 1" "n \<le> jn_seq j"
  shows "numbered (journal_commit E ep scope change j) \<and> journal_deltas_after n (journal_commit E ep scope change j) =
    map_option (\<lambda>ds. ds @ [\<lparr>rd_epoch = ep, rd_seq = next_revision (jn_seq j), rd_scope_revision = scope, rd_change = change\<rparr>])
      (journal_deltas_after n j)"
proof -
  let ?j = "journal_commit E ep scope change j"
  obtain k where k: "consecutive k (jn_deltas j)" "k + length (jn_deltas j) = unat (jn_seq j)"
    using assms(1) by (auto simp: numbered_def)
  have n: "n < - 1" by (rule order.strict_trans1 [OF assms(3,2)])
  have nj: "unat n \<le> unat (jn_seq j)" using assms(3) by (simp add: word_le_nat_alt)
  have c: "consecutive k (jn_deltas ?j)" "k + length (jn_deltas ?j) = unat (jn_seq ?j)" "jn_deltas ?j \<noteq> []"
    using k unat_next [OF assms(2)] by (simp_all add: journal_commit_def Let_def consecutive_append jd_seq_def)
  have le: "n \<le> jn_seq ?j" using nj unat_next [OF assms(2)] by (simp add: word_le_nat_alt)
  have "unat n - k - length (jn_deltas j) = 0" using nj k(2) by simp
  then show ?thesis using numbered_after [OF c(1,2) n le] numbered_after [OF k n assms(3)] assms(2) c
    by (auto simp: numbered_def journal_commit_def Let_def)
qed

section \<open>What is shown\<close>

lemma map_fst_filtered:
  "map fst (List.map_filter (\<lambda>e. map_option (Pair (fst e)) (f (fst e))) m) = filter (\<lambda>k. f k \<noteq> None) (map fst m)"
  by (induction m) (auto simp: map_filter_simps split: option.split)

lemma map_of_filtered:
  "distinct (map fst m) \<Longrightarrow> map_of (List.map_filter (\<lambda>e. map_option (Pair (fst e)) (f (fst e))) m) k
     = (if k \<in> fst ` set m then f k else None)"
proof (induction m)
  case (Cons e m)
  have "fst e \<notin> set (map fst (List.map_filter (\<lambda>e. map_option (Pair (fst e)) (f (fst e))) m))"
    unfolding map_fst_filtered using Cons.prems by auto
  then have "map_of (List.map_filter (\<lambda>e. map_option (Pair (fst e)) (f (fst e))) m) (fst e) = None"
    by (simp add: map_of_eq_None_iff)
  with Cons show ?case by (auto simp: map_filter_simps split: option.split)
qed (simp add: map_filter_simps)

lemma snapshot_follows:
  assumes "hub_ok rg"
  shows "follows (registry_snapshot rg) rg"
proof -
  let ?m = "List.map_filter (\<lambda>e. map_option (Pair (fst e)) (session_runtime_of (fst e) rg)) (rg_sessions rg)"
  note wf = hub_okD(3) [OF assms]
  have d: "distinct (map fst (rg_sessions rg))" using wf by (simp add: bt_wf_def strict_sorted_iff)
  have "session_runtime_of k rg = None" if "k \<notin> fst ` set (rg_sessions rg)" for k
    using that by (simp add: session_runtime_of_def state_of_def entry_of_def bt_get_def map_of_eq_None_iff [THEN iffD2])
  then have g: "bt_get ?m k = session_runtime_of k rg" for k
    using map_of_filtered [OF d, of "\<lambda>k. session_runtime_of k rg" k] by (auto simp: bt_get_def)
  have "bt_wf ?m" using wf unfolding bt_wf_def map_fst_filtered [of "\<lambda>k. session_runtime_of k rg"]
    by (rule sorted_wrt_filter)
  then show ?thesis by (simp add: follows_def registry_snapshot_def g)
qed

text \<open>A terminal that was released is not shown, so the server has none to retire.\<close>

lemma follows_retired:
  assumes "hub_ok rg" "follows sn rg"
  shows "retire_released_terminals sn = sn"
proof -
  have "map_prod id (\<lambda>v. v\<lparr>sr_terminals := bt_retain (\<lambda>_ t. \<not> terminal_released t) (sr_terminals v)\<rparr>) e = e"
    if e: "e \<in> set (sn_sessions sn)" for e
  proof -
    have "distinct (map fst (sn_sessions sn))" using assms(2) by (simp add: follows_def bt_wf_def strict_sorted_iff)
    then have "bt_get (sn_sessions sn) (fst e) = Some (snd e)" using e by (simp add: bt_get_def)
    with follows_session [OF assms(2), of "fst e"] obtain w where
      w: "session_runtime_of (fst e) rg = Some w" "sr_terminals (snd e) = sr_terminals w"
      by (auto simp: same_view_def split: option.splits)
    then obtain s where s: "state_of (fst e) rg = Some s" "session_view s = Some w"
      by (auto simp: session_runtime_of_def bind_eq_Some_conv)
    from session_view_revision [OF s(2)] obtain l where l: "ss_live s = Some l" "sr_terminals w = lv_terminals l" by blast
    have "list_all (\<lambda>e. \<not> terminal_released (snd e)) (sr_terminals (snd e))"
      using hub_okD(5) [OF assms(1) s(1) l(1)] w(2) l(2) by (simp add: live_ok_def live_published_def)
    then have "bt_retain (\<lambda>_ t. \<not> terminal_released t) (sr_terminals (snd e)) = sr_terminals (snd e)"
      by (simp add: bt_retain_def list_all_iff split_beta)
    then show ?thesis by (cases e) simp
  qed
  then have "map (\<lambda>e. (fst e, (snd e)\<lparr>sr_terminals := bt_retain (\<lambda>_ t. \<not> terminal_released t) (sr_terminals (snd e))\<rparr>))
      (sn_sessions sn) = sn_sessions sn"
    by (intro map_idI) (simp add: map_prod_def split_beta prod_eq_iff)
  then show ?thesis by (simp add: retire_released_terminals_def)
qed

section \<open>What is on its way\<close>

text \<open>The projection once the events of the channel are received; \<open>None\<close> if it would be given up.\<close>

fun deliver :: "env \<Rightarrow> runtime_event list \<Rightarrow> runtime_snapshot option \<Rightarrow> runtime_snapshot option option" where
  "deliver E [] p = Some p"
| "deliver E (EvSnapshot sn # q) p = deliver E q (apply_snapshot sn)"
| "deliver E (EvDelta d # q) None = deliver E q None"
| "deliver E (EvDelta d # q) (Some sn) =
     (case apply_runtime_delta E d (Some sn) of Ok (Some sn') \<Rightarrow> deliver E q (Some sn') | _ \<Rightarrow> None)"

lemma deliver_append: "deliver E (q @ q') p = Option.bind (deliver E q p) (deliver E q')"
  by (induction E q p rule: deliver.induct) (auto split: result.split option.split)

lemma deliver_None_deltas: "deliver E (map EvDelta ds) None = Some None"
  by (induction ds) auto

definition in_step :: "env \<Rightarrow> runtime_delta list \<Rightarrow> runtime_snapshot \<Rightarrow> session_registry \<Rightarrow> bool" where
  "in_step E ds sn rg \<longleftrightarrow> (\<exists>sn'. deliver E (map EvDelta ds) (Some sn) = Some (Some sn') \<and> follows sn' rg)"

text \<open>
  The projection with what is in the channel, and then with what is left in the journal, is up to date.
\<close>

definition hub_inv :: "env \<Rightarrow> hub \<Rightarrow> bool" where
  "hub_inv E h \<longleftrightarrow> hub_ok (hb_registry h) \<and> turns_named (hb_registry h) \<and> numbered (rg_journal (hb_registry h)) \<and>
     hb_published h \<le> jn_seq (rg_journal (hb_registry h)) \<and>
     (\<exists>p. deliver E (ec_queue (hb_channel h)) (hb_canonical h) = Some p \<and>
        pred_option (\<lambda>sn. pred_option (\<lambda>ds. in_step E ds sn (hb_registry h))
          (registry_deltas_after (hb_published h) (hb_registry h))) p)"

lemma in_step_commit:
  assumes i: "in_step E ds sn rg" and c: "committed E rg d rg'" and ok: "hub_ok rg'"
    and a: "\<And>sn. follows sn rg \<Longrightarrow> \<exists>sn'. apply_delta E d sn = Ok sn' \<and> follows sn' rg'"
  shows "in_step E (ds @ [d]) sn rg'"
proof -
  obtain sn1 where 1: "deliver E (map EvDelta ds) (Some sn) = Some (Some sn1)" "follows sn1 rg"
    using i by (auto simp: in_step_def)
  from a [OF 1(2)] obtain sn2 where 2: "apply_delta E d sn1 = Ok sn2" "follows sn2 rg'" by blast
  with follows_retired [OF ok 2(2)] have "apply_runtime_delta E d (Some sn1) = Ok (Some sn2)"
    by (simp add: apply_runtime_delta_def)
  with 1 2(2) show ?thesis by (simp add: in_step_def deliver_append)
qed

section \<open>Every action keeps to it\<close>

lemma hub_inv_registry:
  assumes i: "hub_inv E h" and r: "room (hb_registry h)" and s: "stays E (hb_registry h) rg"
  shows "hub_inv E (h\<lparr>hb_registry := rg\<rparr>)"
proof -
  let ?rg = "hb_registry h" and ?n = "hb_published h"
  note i' = i [unfolded hub_inv_def] and s' = s [unfolded stays_def]
  have n: "?n \<le> jn_seq (rg_journal ?rg)" "jn_seq (rg_journal ?rg) < - 1" using i' r by (simp_all add: room_def)
  have "numbered (rg_journal rg) \<and> ?n \<le> jn_seq (rg_journal rg) \<and>
    (\<forall>ds sn. registry_deltas_after ?n rg = Some ds \<longrightarrow>
       (\<forall>ds0. registry_deltas_after ?n ?rg = Some ds0 \<longrightarrow> in_step E ds0 sn ?rg) \<longrightarrow> in_step E ds sn rg)"
    using s' [THEN conjunct1, unfolded projected_def]
  proof (elim disjE exE conjE)
    assume j: "rg_journal rg = rg_journal ?rg" and f: "\<forall>sn. follows sn ?rg \<longrightarrow> follows sn rg"
    then show ?thesis using i' by (auto simp: registry_deltas_after_def in_step_def)
  next
    fix d
    assume c: "committed E ?rg d rg" and a: "\<forall>sn. follows sn ?rg \<longrightarrow> (\<exists>sn'. apply_delta E d sn = Ok sn' \<and> follows sn' rg)"
    then obtain j scope change where j: "journal_before ?rg j" "d = next_delta ?rg scope change"
      "rg_journal rg = journal_commit E (rg_epoch ?rg) scope change j" by (auto simp: committed_def)
    have b: "numbered j" "journal_deltas_after ?n j = None \<or> journal_deltas_after ?n j = registry_deltas_after ?n ?rg"
      using numbered_before [OF _ j(1) n(1) r] i' by simp_all
    note q = jn_seq_before [OF j(1)]
    have k: "numbered (rg_journal rg)"
      "registry_deltas_after ?n rg = map_option (\<lambda>ds. ds @ [d]) (journal_deltas_after ?n j)"
      using commit_numbered [OF b(1), of ?n E "rg_epoch ?rg" scope change] n q
      by (simp_all add: registry_deltas_after_def j(3) j(2) next_delta_def)
    have le: "?n \<le> jn_seq (rg_journal rg)" using n next_revision_less [of ?n "jn_seq (rg_journal ?rg)"]
      by (simp add: j(3) q less_imp_le)
    have "in_step E ds sn rg" if "registry_deltas_after ?n rg = Some ds"
      "\<forall>ds0. registry_deltas_after ?n ?rg = Some ds0 \<longrightarrow> in_step E ds0 sn ?rg" for ds sn
    proof -
      from that(1) k(2) b(2) obtain ds0 where "registry_deltas_after ?n ?rg = Some ds0" "ds = ds0 @ [d]" by auto
      with that(2) in_step_commit [OF _ c] s' a show ?thesis by simp
    qed
    with k(1) le show ?thesis by blast
  qed
  note k = this
  obtain p where p: "deliver E (ec_queue (hb_channel h)) (hb_canonical h) = Some p"
    "pred_option (\<lambda>sn. pred_option (\<lambda>ds. in_step E ds sn ?rg) (registry_deltas_after ?n ?rg)) p" using i' by blast
  then have "pred_option (\<lambda>sn. pred_option (\<lambda>ds. in_step E ds sn rg) (registry_deltas_after ?n rg)) p"
    using k by (cases p; cases "registry_deltas_after ?n rg") auto
  then show ?thesis using s' k p(1) by (simp add: hub_inv_def)
qed

lemma numbered_next:
  assumes j: "numbered j" "jn_seq j < - 1" "n \<le> jn_seq j" and d: "journal_deltas_after n j = Some (d # ds)"
  shows "journal_deltas_after (rd_seq d) j = Some ds \<and> rd_seq d \<le> jn_seq j"
proof -
  obtain k where k: "consecutive k (jn_deltas j)" "k + length (jn_deltas j) = unat (jn_seq j)"
    using j(1) by (auto simp: numbered_def)
  have n: "n < - 1" by (rule order.strict_trans1 [OF j(3,2)])
  have a: "k \<le> unat n" "d # ds = map jd_delta (drop (unat n - k) (jn_deltas j))"
    using d numbered_after [OF k n j(3)] j(2) by (auto split: if_splits)
  then obtain e es where e: "drop (unat n - k) (jn_deltas j) = e # es" "d = jd_delta e" "ds = map jd_delta es" by auto
  have "consecutive (k + (unat n - k)) (e # es)" using consecutive_drop [OF k(1), of "unat n - k"] e(1) by simp
  then have s: "unat (rd_seq d) = Suc (unat n)" using a(1) e(2) by (simp add: jd_seq_def)
  have "length (e # es) = length (jn_deltas j) - (unat n - k)" unfolding e(1) [symmetric] by simp
  then have "Suc (unat n) \<le> unat (jn_seq j)" using k(2) a(1) by simp
  then have le: "rd_seq d \<le> jn_seq j" using s by (simp add: word_le_nat_alt)
  have "drop (Suc (unat n) - k) (jn_deltas j) = es"
    using e(1) a(1) by (metis Suc_diff_le drop_Suc drop_tl list.sel(3))
  then show ?thesis using numbered_after [OF k order.strict_trans1 [OF le j(2)] le] j(2) s a(1) e(3) le by simp
qed

lemma numbered_end:
  assumes "numbered j" "jn_seq j < - 1"
  shows "journal_deltas_after (jn_seq j) j = Some []"
proof -
  obtain k where k: "consecutive k (jn_deltas j)" "k + length (jn_deltas j) = unat (jn_seq j)"
    using assms(1) by (auto simp: numbered_def)
  from numbered_after [OF k assms(2)] assms(2) k(2) show ?thesis by auto
qed

lemma send_deltas_prefix:
  assumes "numbered j" "jn_seq j < - 1" "n \<le> jn_seq j" "journal_deltas_after n j = Some ds"
  shows "\<exists>ds1 ds2 n' ch'. send_deltas ds n ch = (n', ch') \<and> ds = ds1 @ ds2 \<and>
    ec_queue ch' = ec_queue ch @ map EvDelta ds1 \<and> journal_deltas_after n' j = Some ds2 \<and> n' \<le> jn_seq j \<and>
    (ec_left ch = None \<longrightarrow> ec_left ch' = None \<and> ds2 = [])"
  using assms(3,4)
proof (induction ds arbitrary: n ch)
  case (Cons d ds)
  obtain ok ch1 where c: "sink_runtime (EvDelta d) ch = (ok, ch1)" by fastforce
  show ?case
  proof (cases ok)
    case True
    with c have q: "ec_queue ch1 = ec_queue ch @ [EvDelta d]" "ec_left ch = None \<longrightarrow> ec_left ch1 = None"
      by (auto simp: sink_runtime_def split: option.splits nat.splits)
    note nn = numbered_next [OF assms(1,2) Cons.prems]
    from Cons.IH [OF nn [THEN conjunct2] nn [THEN conjunct1], of ch1] obtain ds1 ds2 n' ch' where
      s: "send_deltas ds (rd_seq d) ch1 = (n', ch')" "ds = ds1 @ ds2" "ec_queue ch' = ec_queue ch1 @ map EvDelta ds1"
      "journal_deltas_after n' j = Some ds2" "n' \<le> jn_seq j" "ec_left ch1 = None \<longrightarrow> ec_left ch' = None \<and> ds2 = []"
      by (elim exE conjE)
    have e: "send_deltas (d # ds) n ch = (n', ch')" using c True s(1) by simp
    show ?thesis
      by (rule exI [of _ "d # ds1"], rule exI [of _ ds2], rule exI [of _ n'], rule exI [of _ ch'], intro conjI)
         (use e s q in simp_all)
  next
    case False
    with c have "ch1 = ch" "ec_left ch \<noteq> None" by (auto simp: sink_runtime_def split: option.splits nat.splits)
    then show ?thesis using c False Cons.prems
      by (rule_tac exI [of _ "[]"], rule_tac exI [of _ "d # ds"], rule_tac exI [of _ n], rule_tac exI [of _ ch]) simp
  qed
qed simp

lemma deliver_some: "deliver E (map EvDelta ds) (Some sn) = Some p \<Longrightarrow> p \<noteq> None"
  by (induction ds arbitrary: sn) (auto split: result.splits option.splits)

lemma in_step_split:
  assumes "in_step E (ds1 @ ds2) sn rg"
  obtains sn1 where "deliver E (map EvDelta ds1) (Some sn) = Some (Some sn1)" "in_step E ds2 sn1 rg"
  using assms deliver_some [of E ds1 sn] by (auto simp: in_step_def deliver_append bind_eq_Some_conv)

text \<open>The queue grows, the cursor moves, and what is left behind the cursor is still up to date.\<close>

lemma hub_inv_moved:
  assumes i: "hub_inv E h" and r: "room (hb_registry h)" and n: "n \<le> jn_seq (rg_journal (hb_registry h))"
    and q: "ec_queue ch = ec_queue (hb_channel h) @ es"
    and d: "\<And>p. pred_option (\<lambda>sn. pred_option (\<lambda>ds. in_step E ds sn (hb_registry h))
        (registry_deltas_after (hb_published h) (hb_registry h))) p \<Longrightarrow> \<exists>p'. deliver E es p = Some p' \<and>
      pred_option (\<lambda>sn. pred_option (\<lambda>ds. in_step E ds sn (hb_registry h)) (registry_deltas_after n (hb_registry h))) p'"
  shows "hub_inv E (h\<lparr>hb_published := n, hb_channel := ch\<rparr>)"
    "hub_inv E (h\<lparr>hb_published := n, hb_channel := ch, hb_registry := release_published_runtime n (hb_registry h)\<rparr>)"
proof -
  note i' = i [unfolded hub_inv_def]
  obtain p where p: "deliver E (ec_queue (hb_channel h)) (hb_canonical h) = Some p"
    "pred_option (\<lambda>sn. pred_option (\<lambda>ds. in_step E ds sn (hb_registry h))
        (registry_deltas_after (hb_published h) (hb_registry h))) p" using i' by blast
  from d [OF p(2)] obtain p' where p': "deliver E (ec_queue ch) (hb_canonical h) = Some p'"
    "pred_option (\<lambda>sn. pred_option (\<lambda>ds. in_step E ds sn (hb_registry h)) (registry_deltas_after n (hb_registry h))) p'"
    using p(1) by (auto simp: q deliver_append)
  then show "hub_inv E (h\<lparr>hb_published := n, hb_channel := ch\<rparr>)" using i' n by (simp add: hub_inv_def)
  have "in_step E ds sn (release_published_runtime n (hb_registry h)) = in_step E ds sn (hb_registry h)" for ds sn
    by (simp add: in_step_def released_registry)
  then show "hub_inv E (h\<lparr>hb_published := n, hb_channel := ch, hb_registry := release_published_runtime n (hb_registry h)\<rparr>)"
    using i' n p' release_numbered [of "hb_registry h" n] r by (simp add: hub_inv_def released_registry)
qed

lemma deliver_snapshot:
  assumes "hub_inv E h" "room (hb_registry h)"
  shows "deliver E [EvSnapshot (registry_snapshot (hb_registry h))] p = Some (Some (registry_snapshot (hb_registry h))) \<and>
    registry_deltas_after (sn_through_seq (registry_snapshot (hb_registry h))) (hb_registry h) = Some [] \<and>
    in_step E [] (registry_snapshot (hb_registry h)) (hb_registry h)"
proof -
  have f: "follows (registry_snapshot (hb_registry h)) (hb_registry h)"
    by (rule snapshot_follows) (use assms(1) in \<open>simp add: hub_inv_def\<close>)
  then show ?thesis using follows_retired [OF _ f] assms numbered_end [of "rg_journal (hb_registry h)"]
    by (simp add: hub_inv_def apply_snapshot_def in_step_def registry_snapshot_def registry_deltas_after_def room_def)
qed

lemma sink_cases:
  obtains ch where "sink_runtime e ch0 = (True, ch)" "ec_queue ch = ec_queue ch0 @ [e]" "ec_left ch0 = None \<longrightarrow> ec_left ch = None"
  | "sink_runtime e ch0 = (False, ch0)" "ec_left ch0 \<noteq> None"
proof (cases "ec_left ch0")
  case None
  then show ?thesis using that(1) [of "ch0\<lparr>ec_queue := ec_queue ch0 @ [e]\<rparr>"] by (simp add: sink_runtime_def)
next
  case (Some k)
  then show ?thesis using that(1) [of "ch0\<lparr>ec_queue := ec_queue ch0 @ [e], ec_left := Some (k - 1)\<rparr>"] that(2)
    by (cases k) (simp_all add: sink_runtime_def)
qed

lemma send_snapshot_cases:
  obtains ch where "send_snapshot rg n ch0 = (True, sn_through_seq (registry_snapshot rg), ch)"
      "ec_queue ch = ec_queue ch0 @ [EvSnapshot (registry_snapshot rg)]" "ec_left ch0 = None \<longrightarrow> ec_left ch = None"
  | "send_snapshot rg n ch0 = (False, n, ch0)" "ec_left ch0 \<noteq> None"
  by (rule sink_cases [of "EvSnapshot (registry_snapshot rg)" ch0]) (simp_all add: send_snapshot_def Let_def)

lemma hub_inv_same [simp]:
  "hub_inv E (h\<lparr>hb_requests := n\<rparr>) = hub_inv E h" "hub_inv E (h\<lparr>hb_pending := b\<rparr>) = hub_inv E h"
  by (simp_all add: hub_inv_def)

lemma hub_inv_flush:
  assumes i: "hub_inv E h" and r: "room (hb_registry h)"
  shows "hub_inv E (flush_runtime h)"
proof -
  let ?rg = "hb_registry h" and ?n = "hb_published h" and ?ch = "hb_channel h"
  note i' = i [unfolded hub_inv_def]
  have j: "numbered (rg_journal ?rg)" "jn_seq (rg_journal ?rg) < - 1" "?n \<le> jn_seq (rg_journal ?rg)"
    using i' r by (simp_all add: room_def)
  show ?thesis
  proof (cases "registry_deltas_after ?n ?rg")
    case (Some ds)
    from send_deltas_prefix [OF j Some [unfolded registry_deltas_after_def], of ?ch] obtain ds1 ds2 n ch where
      s: "send_deltas ds ?n ?ch = (n, ch)" "ds = ds1 @ ds2" "ec_queue ch = ec_queue ?ch @ map EvDelta ds1"
      "journal_deltas_after n (rg_journal ?rg) = Some ds2" "n \<le> jn_seq (rg_journal ?rg)" by (elim exE conjE)
    have "\<exists>p'. deliver E (map EvDelta ds1) p = Some p' \<and>
        pred_option (\<lambda>sn. pred_option (\<lambda>ds. in_step E ds sn ?rg) (registry_deltas_after n ?rg)) p'"
      if "pred_option (\<lambda>sn. pred_option (\<lambda>ds. in_step E ds sn ?rg) (registry_deltas_after ?n ?rg)) p" for p
    proof (cases p)
      case None
      then show ?thesis by (simp add: deliver_None_deltas)
    next
      case (Some sn)
      with that \<open>registry_deltas_after ?n ?rg = Some ds\<close> s(2) have "in_step E (ds1 @ ds2) sn ?rg" by simp
      then show ?thesis using Some s(4) by (elim in_step_split) (simp add: registry_deltas_after_def)
    qed
    from hub_inv_moved(2) [OF i r s(5,3) this] show ?thesis using Some s(1) by (simp add: flush_runtime_def)
  next
    case None
    show ?thesis
    proof (cases rule: send_snapshot_cases [of ?rg ?n ?ch])
      case (1 ch)
      have "sn_through_seq (registry_snapshot ?rg) \<le> jn_seq (rg_journal ?rg)" by (simp add: registry_snapshot_def)
      from hub_inv_moved(2) [OF i r this 1(2)] deliver_snapshot [OF i r] show ?thesis using None 1(1)
        by (simp add: flush_runtime_def)
    next
      case 2
      from hub_inv_moved(2) [OF i r j(3), where ch = ?ch and es = "[]"] show ?thesis using None 2(1)
        by (simp add: flush_runtime_def)
    qed
  qed
qed

lemma hub_inv_serve:
  assumes i: "hub_inv E h" and r: "room (hb_registry h)"
  shows "hub_inv E (serve_snapshot_request h)"
proof (cases rule: send_snapshot_cases [of "hb_registry h" "hb_published h" "hb_channel h"])
  case (1 ch)
  let ?n = "sn_through_seq (registry_snapshot (hb_registry h))"
  have "?n \<le> jn_seq (rg_journal (hb_registry h))" by (simp add: registry_snapshot_def)
  from hub_inv_moved(2) [OF i r this 1(2)] deliver_snapshot [OF i r]
  have "hub_inv E (h\<lparr>hb_published := ?n, hb_channel := ch,
      hb_registry := release_published_runtime ?n (hb_registry h)\<rparr>)" by simp
  then show ?thesis using i 1(1) by (simp add: serve_snapshot_request_def hub_inv_def)
next
  case 2
  then show ?thesis using i by (simp add: serve_snapshot_request_def hub_inv_def)
qed

lemma receive_event_ok:
  assumes i: "hub_inv E h"
  shows "fst (receive_event E h) = Ok () \<and> hub_inv E (snd (receive_event E h)) \<and>
    (hb_canonical h \<noteq> None \<longrightarrow> hb_canonical (snd (receive_event E h)) \<noteq> None)"
proof (cases "ec_queue (hb_channel h)")
  case (Cons e q)
  obtain p where p: "deliver E (e # q) (hb_canonical h) = Some p" using i Cons by (auto simp: hub_inv_def)
  then obtain p1 where p1: "apply_event E e (hb_canonical h) = Ok p1" "deliver E q p1 = Some p"
    "hb_canonical h \<noteq> None \<longrightarrow> p1 \<noteq> None"
    by (cases e; cases "hb_canonical h")
       (auto simp: apply_event_def apply_runtime_delta_def apply_snapshot_def split: result.splits option.splits)
  then show ?thesis using i [unfolded hub_inv_def] Cons p by (auto simp: receive_event_def hub_inv_def Let_def)
qed (use i in \<open>simp add: receive_event_def\<close>)

lemma hub_inv_do:
  assumes i: "hub_inv E h" and r: "room (hb_registry h)" and a: "action_ok a (hb_registry h)"
  shows "hub_inv E (snd (hub_do E a h))"
proof -
  let ?rg = "hb_registry h"
  have ok: "hub_ok ?rg" "turns_named ?rg" using i by (simp_all add: hub_inv_def)
  note reg = hub_inv_registry [OF i r]
  show ?thesis
  proof (cases a)
    case (ActCall ep c)
    with reg [OF call_stays [OF ok r]] a show ?thesis by (simp add: action_ok_def)
  next
    case (ActUpdate sid u)
    with reg [OF live_update_stays [OF ok r]] a show ?thesis by (simp add: action_ok_def)
  next
    case (ActAttachment sid u)
    with reg [OF attachment_update_stays [OF ok r]] show ?thesis by simp
  next
    case (ActMirror c)
    with reg [OF mirror_stays [OF ok r]] a show ?thesis by (simp add: action_ok_def)
  next
    case ActTakeEffects
    with reg [OF stays_effects [OF ok]] show ?thesis by simp
  qed (use hub_inv_flush [OF i r] hub_inv_serve [OF i r] receive_event_ok [OF i] in simp_all)
qed

lemma hub_inv_start: "hub_inv E (hub_start epoch left)"
proof -
  have g: "state_of k (registry_new epoch) = None" for k
    by (simp add: registry_new_def state_of_def entry_of_def bt.get_nil)
  show ?thesis
    by (simp add: hub_inv_def hub_start_def hub_ok_alt turns_named_def numbered_def g)
       (simp add: registry_new_def journal_new_def bt.wf_nil all_waiting_def bt_get_def)
qed

lemma hub_reach_inv: "hub_reach E epoch left h \<Longrightarrow> hub_inv E h"
  by (induction rule: hub_reach.induct) (auto intro: hub_inv_start hub_inv_do)

section \<open>The request for a snapshot\<close>

definition is_snapshot :: "runtime_event \<Rightarrow> bool" where
  "is_snapshot e \<longleftrightarrow> (case e of EvSnapshot _ \<Rightarrow> True | EvDelta _ \<Rightarrow> False)"

text \<open>
  Once the server has seen an event and shows nothing, a snapshot is asked for or on its way. While it
  has seen none, whatever was published is still in the channel.
\<close>

definition asked :: "hub \<Rightarrow> bool" where
  "asked h \<longleftrightarrow> (ec_left (hb_channel h) = None \<longrightarrow> hb_canonical h = None \<longrightarrow>
     (if hb_pending h then hb_requests h \<noteq> 0 \<or> list_ex is_snapshot (ec_queue (hb_channel h))
      else hb_published h = 0 \<or> ec_queue (hb_channel h) \<noteq> []))"

lemma asked_registry [simp]: "asked (h\<lparr>hb_registry := rg\<rparr>) = asked h"
  by (simp add: asked_def)

text \<open>What a flush and a served request do to an open channel.\<close>

lemma send_deltas_open:
  "ec_left ch = None \<Longrightarrow> send_deltas ds n ch =
     (if ds = [] then n else rd_seq (last ds), ch\<lparr>ec_queue := ec_queue ch @ map EvDelta ds\<rparr>)"
  by (induction ds n ch rule: send_deltas.induct) (simp_all add: sink_runtime_def)

lemma flush_open:
  assumes i: "hub_inv E h" and r: "room (hb_registry h)" and o: "ec_left (hb_channel h) = None"
  shows "\<exists>es. flush_runtime h = h\<lparr>hb_published := jn_seq (rg_journal (hb_registry h)),
      hb_channel := (hb_channel h)\<lparr>ec_queue := ec_queue (hb_channel h) @ es\<rparr>,
      hb_registry := release_published_runtime (jn_seq (rg_journal (hb_registry h))) (hb_registry h)\<rparr> \<and>
    (es = [] \<longrightarrow> hb_published h = jn_seq (rg_journal (hb_registry h)))"
proof -
  let ?rg = "hb_registry h" and ?n = "hb_published h" and ?ch = "hb_channel h"
  have j: "numbered (rg_journal ?rg)" "jn_seq (rg_journal ?rg) < - 1" "?n \<le> jn_seq (rg_journal ?rg)"
    using i r by (simp_all add: hub_inv_def room_def)
  show ?thesis
  proof (cases "registry_deltas_after ?n ?rg")
    case None
    then show ?thesis using o
      by (intro exI [of _ "[EvSnapshot (registry_snapshot ?rg)]"])
         (simp add: flush_runtime_def send_snapshot_def sink_runtime_def registry_snapshot_def Let_def)
  next
    case (Some ds)
    from send_deltas_prefix [OF j Some [unfolded registry_deltas_after_def], of ?ch] o obtain n ch where
      s: "send_deltas ds ?n ?ch = (n, ch)" "journal_deltas_after n (rg_journal ?rg) = Some []" "n \<le> jn_seq (rg_journal ?rg)"
      by (elim exE conjE) simp
    have "n = jn_seq (rg_journal ?rg)"
    proof -
      obtain k where k: "consecutive k (jn_deltas (rg_journal ?rg))"
        "k + length (jn_deltas (rg_journal ?rg)) = unat (jn_seq (rg_journal ?rg))" using j(1) by (auto simp: numbered_def)
      from numbered_after [OF k order.strict_trans1 [OF s(3) j(2)] s(3)] s(2) j(2) k(2) s(3)
      show ?thesis by (auto simp: word_le_nat_alt word_unat_eq_iff split: if_splits)
    qed
    then show ?thesis using s(1) send_deltas_open [OF o, of ds ?n] Some
      by (intro exI [of _ "map EvDelta ds"]) (auto simp: flush_runtime_def)
  qed
qed

lemma serve_open:
  assumes "ec_left (hb_channel h) = None"
  shows "serve_snapshot_request h =
    (if hb_requests h = 0 then h
     else h\<lparr>hb_requests := hb_requests h - 1,
       hb_channel := (hb_channel h)\<lparr>ec_queue := ec_queue (hb_channel h) @ [EvSnapshot (registry_snapshot (hb_registry h))]\<rparr>,
       hb_published := jn_seq (rg_journal (hb_registry h)),
       hb_registry := release_published_runtime (jn_seq (rg_journal (hb_registry h))) (hb_registry h)\<rparr>)"
  using assms by (simp add: serve_snapshot_request_def send_snapshot_def sink_runtime_def Let_def) (simp add: registry_snapshot_def)

lemma asked_receive:
  assumes i: "hub_inv E h" and a: "asked h"
  shows "asked (snd (receive_event E h)) \<and> ec_left (hb_channel (snd (receive_event E h))) = ec_left (hb_channel h)"
proof (cases "ec_queue (hb_channel h)")
  case (Cons e q)
  from receive_event_ok [OF i] obtain p where p: "apply_event E e (hb_canonical h) = Ok p"
    "hb_canonical h \<noteq> None \<longrightarrow> p \<noteq> None"
    using Cons by (cases "apply_event E e (hb_canonical h)") (auto simp: receive_event_def Let_def split: if_splits)
  have "\<not> is_snapshot e" if "p = None" using p(1) that
    by (cases e) (auto simp: apply_event_def is_snapshot_def apply_snapshot_def)
  then show ?thesis using Cons p a by (auto simp: receive_event_def Let_def asked_def)
qed (use a in \<open>simp add: receive_event_def\<close>)

lemma asked_do:
  assumes i: "hub_inv E h" and r: "room (hb_registry h)" and a: "asked h" and o: "ec_left (hb_channel h) = None"
  shows "asked (snd (hub_do E act h)) \<and> ec_left (hb_channel (snd (hub_do E act h))) = None"
proof (cases act)
  case ActFlush
  from flush_open [OF i r o] obtain es where "flush_runtime h = h\<lparr>hb_published := jn_seq (rg_journal (hb_registry h)),
      hb_channel := (hb_channel h)\<lparr>ec_queue := ec_queue (hb_channel h) @ es\<rparr>,
      hb_registry := release_published_runtime (jn_seq (rg_journal (hb_registry h))) (hb_registry h)\<rparr>"
    "es = [] \<longrightarrow> hb_published h = jn_seq (rg_journal (hb_registry h))" by blast
  with ActFlush a o show ?thesis by (auto simp: asked_def)
next
  case ActServe
  with a o show ?thesis by (auto simp: serve_open asked_def is_snapshot_def)
qed (use asked_receive [OF i a] a o in simp_all)

lemma hub_reach_open: "hub_reach E epoch left h \<Longrightarrow> left = None \<Longrightarrow> asked h \<and> ec_left (hb_channel h) = None"
proof (induction rule: hub_reach.induct)
  case (hub_next h a)
  then show ?case using asked_do [OF hub_reach_inv [OF hub_next(1)] hub_next(2)] by blast
qed (simp add: hub_start_def asked_def)

section \<open>Catching up\<close>

fun receive_events :: "env \<Rightarrow> nat \<Rightarrow> hub \<Rightarrow> hub" where
  "receive_events E 0 h = h"
| "receive_events E (Suc n) h = receive_events E n (snd (receive_event E h))"

definition drain :: "env \<Rightarrow> hub \<Rightarrow> hub" where
  "drain E h = receive_events E (length (ec_queue (hb_channel h))) h"

lemma receive_events_ok:
  assumes "hub_inv E h" "asked h" "length (ec_queue (hb_channel h)) = n"
  shows "hub_inv E (receive_events E n h) \<and> asked (receive_events E n h) \<and> ec_queue (hb_channel (receive_events E n h)) = [] \<and>
    ec_left (hb_channel (receive_events E n h)) = ec_left (hb_channel h) \<and>
    hb_registry (receive_events E n h) = hb_registry h \<and> hb_published (receive_events E n h) = hb_published h \<and>
    (hb_canonical h \<noteq> None \<longrightarrow> hb_canonical (receive_events E n h) \<noteq> None)"
  using assms
proof (induction n arbitrary: h)
  case (Suc n)
  let ?h = "snd (receive_event E h)"
  from receive_event_ok [OF Suc.prems(1)] asked_receive [OF Suc.prems(1,2)] Suc.prems(3)
  have "hub_inv E ?h" "asked ?h" "length (ec_queue (hb_channel ?h)) = n" "hb_registry ?h = hb_registry h"
    "hb_published ?h = hb_published h" "ec_left (hb_channel ?h) = ec_left (hb_channel h)"
    "hb_canonical h \<noteq> None \<longrightarrow> hb_canonical ?h \<noteq> None"
    by (cases "ec_queue (hb_channel h)";
        auto simp: receive_event_def Let_def try_in_def split: result.splits if_splits)+
  with Suc.IH [of ?h] show ?case by auto
qed simp

text \<open>A drained channel behind a cursor at the end of the journal: what is shown follows the registry.\<close>

lemma drained_follows:
  assumes "hub_inv E h" "room (hb_registry h)" "hb_published h = jn_seq (rg_journal (hb_registry h))"
    and "ec_queue (hb_channel h) = []"
  shows "pred_option (\<lambda>sn. follows sn (hb_registry h)) (hb_canonical h)"
  using assms numbered_end [of "rg_journal (hb_registry h)"]
  by (cases "hb_canonical h") (auto simp: hub_inv_def registry_deltas_after_def in_step_def room_def)

lemma flushed_drained:
  assumes i: "hub_inv E h" "asked h" and r: "room (hb_registry h)" and o: "ec_left (hb_channel h) = None"
  shows "hub_inv E (drain E (flush_runtime h)) \<and> asked (drain E (flush_runtime h)) \<and>
    ec_queue (hb_channel (drain E (flush_runtime h))) = [] \<and> ec_left (hb_channel (drain E (flush_runtime h))) = None \<and>
    room (hb_registry (drain E (flush_runtime h))) \<and>
    hb_published (drain E (flush_runtime h)) = jn_seq (rg_journal (hb_registry (drain E (flush_runtime h)))) \<and>
    jn_seq (rg_journal (hb_registry (drain E (flush_runtime h)))) = jn_seq (rg_journal (hb_registry h)) \<and>
    (hb_canonical h \<noteq> None \<longrightarrow> hb_canonical (drain E (flush_runtime h)) \<noteq> None)"
proof -
  from flush_open [OF i(1) r o] obtain es where f: "flush_runtime h = h\<lparr>hb_published := jn_seq (rg_journal (hb_registry h)),
      hb_channel := (hb_channel h)\<lparr>ec_queue := ec_queue (hb_channel h) @ es\<rparr>,
      hb_registry := release_published_runtime (jn_seq (rg_journal (hb_registry h))) (hb_registry h)\<rparr>" by blast
  have "asked (flush_runtime h)" using asked_do [OF i(1) r i(2) o, of ActFlush] by simp
  from receive_events_ok [OF hub_inv_flush [OF i(1) r] this refl] show ?thesis unfolding drain_def
    using f r o by (auto simp: released_registry)
qed

definition catch_up :: "env \<Rightarrow> hub \<Rightarrow> hub" where
  "catch_up E h = drain E (serve_snapshot_request (drain E (flush_runtime h)))"

text \<open>A flush, the channel, the pending request and its answer.\<close>

lemma catch_up_shows:
  assumes "hub_inv E h" "asked h" "room (hb_registry h)" "ec_left (hb_channel h) = None"
  shows "case hb_canonical (catch_up E h) of
      Some sn \<Rightarrow> follows sn (hb_registry (catch_up E h))
    | None \<Rightarrow> jn_seq (rg_journal (hb_registry h)) = 0"
proof -
  note f = flushed_drained [OF assms]
  define g where "g = drain E (flush_runtime h)"
  have g: "hub_inv E g" "asked g" "ec_queue (hb_channel g) = []" "ec_left (hb_channel g) = None" "room (hb_registry g)"
    "hb_published g = jn_seq (rg_journal (hb_registry g))"
    "jn_seq (rg_journal (hb_registry g)) = jn_seq (rg_journal (hb_registry h))"
    using f unfolding g_def by simp_all
  define s where "s = serve_snapshot_request g"
  have s: "hub_inv E s" "asked s" "room (hb_registry s)" "hb_published s = jn_seq (rg_journal (hb_registry s))"
    using hub_inv_serve [OF g(1,5)] asked_do [OF g(1,5,2,4), of ActServe] g(5,6)
    by (auto simp: s_def serve_open [OF g(4)] released_registry)
  note d = receive_events_ok [OF s(1,2) refl, folded drain_def]
  have "pred_option (\<lambda>sn. follows sn (hb_registry (drain E s))) (hb_canonical (drain E s))"
    by (rule drained_follows [where E = E]) (use d s in simp_all)
  moreover have "jn_seq (rg_journal (hb_registry h)) = 0" if "hb_canonical (drain E s) = None"
  proof -
    have n: "hb_canonical g = None" using d that by (auto simp: s_def serve_open [OF g(4)] split: if_splits)
    have "hb_requests g = 0"
    proof (rule ccontr)
      assume "hb_requests g \<noteq> 0"
      then have "ec_queue (hb_channel s) = [EvSnapshot (registry_snapshot (hb_registry g))]"
        using g(3) by (simp add: s_def serve_open [OF g(4)])
      then have "hb_canonical (drain E s) \<noteq> None"
        by (simp add: drain_def receive_event_def apply_event_def apply_snapshot_def Let_def)
      with that show False by simp
    qed
    with g(2,3,4) n have "hb_published g = 0" by (simp add: asked_def split: if_splits)
    with g(6,7) show ?thesis by simp
  qed
  ultimately show ?thesis by (auto simp: catch_up_def g_def s_def split: option.split)
qed

section \<open>A run of an example\<close>

lemma hub_reach_receive: "hub_reach E epoch left h \<Longrightarrow> room (hb_registry h) \<Longrightarrow> hub_reach E epoch left (receive_events E n h)"
proof (induction n arbitrary: h)
  case (Suc n)
  have "hb_registry (snd (receive_event E h)) = hb_registry h"
    using receive_event_ok [OF hub_reach_inv [OF Suc.prems(1)]]
    by (cases "ec_queue (hb_channel h)"; auto simp: receive_event_def Let_def try_in_def split: result.splits)
  moreover have "hub_reach E epoch left (snd (receive_event E h))"
    using hub_next [OF Suc.prems, of ActReceive] by (simp add: action_ok_def)
  ultimately show ?case using Suc.IH Suc.prems(2) by simp
qed simp

lemma hub_reach_catch_up:
  assumes "hub_reach E epoch None h" "room (hb_registry h)"
  shows "hub_reach E epoch None (catch_up E h) \<and> room (hb_registry (catch_up E h))"
proof -
  note d = flushed_drained [OF hub_reach_inv [OF assms(1)] _ assms(2)] hub_reach_open [OF assms(1) refl]
  have "hub_reach E epoch None (flush_runtime h)" using hub_next [OF assms, of ActFlush] by (simp add: action_ok_def)
  moreover have "room (hb_registry (flush_runtime h))"
    using assms(2) by (simp add: flush_runtime_def released_registry split: prod.split)
  ultimately have g: "hub_reach E epoch None (drain E (flush_runtime h))" by (simp add: drain_def hub_reach_receive)
  have r: "room (hb_registry (drain E (flush_runtime h)))" using d by simp
  have s: "hub_reach E epoch None (serve_snapshot_request (drain E (flush_runtime h)))"
    using hub_next [OF g r, of ActServe] by (simp add: action_ok_def)
  have t: "room (hb_registry (serve_snapshot_request (drain E (flush_runtime h))))"
    using r by (simp add: serve_snapshot_request_def released_registry split_beta)
  from receive_events_ok [OF hub_reach_inv [OF s] conjunct1 [OF hub_reach_open [OF s refl]] refl] t
  show ?thesis using hub_reach_receive [OF s t] by (simp add: catch_up_def drain_def)
qed

definition sample_opened :: session_registry where
  "sample_opened = snd (runtime_do sample_env ''e'' (RtAttach (RtOpenNew ''s'' ''/w'' JNull [])) (registry_new ''e''))"

definition sample_hub :: hub where
  "sample_hub = (hub_start ''e'' None)\<lparr>hb_registry := sample_opened\<rparr>"

lemma sample_opened_seq: "jn_seq (rg_journal sample_opened) = 1" "rg_next_incarnation sample_opened = 1"
  by (simp_all add: sample_opened_def open_session_def open_new_with_replay_def ended_def require_epoch_def registry_new_def
      extract_control_state_def session_taken_def state_of_def entry_of_def bt_get_def publish_def commit_session_def
      install_live_def Let_def put_entry_def put_state_def entry_new_def session_cold_def session_runtime_of_def
      session_view_def new_live_def refresh_header_def in_cleanup_def commit_delta_def next_revision_def
      journal_commit_def journal_new_def)

lemma sample_hub_reached: "hub_reach sample_env ''e'' None sample_hub" "room (hb_registry sample_hub)"
proof -
  have "room (hb_registry (hub_start ''e'' None))" by (simp add: hub_start_def room_def registry_new_def journal_new_def max_word_less)
  from hub_next [OF hub_begin this, of "ActCall ''e'' (RtAttach (RtOpenNew ''s'' ''/w'' JNull []))" sample_env]
  show "hub_reach sample_env ''e'' None sample_hub"
    by (simp add: action_ok_def call_ok_def publishes_turn_def sample_hub_def hub_start_def sample_opened_def)
  show "room (hb_registry sample_hub)" by (simp add: room_def sample_hub_def sample_opened_seq max_word_less)
qed

definition sample_shown :: hub where
  "sample_shown = catch_up sample_env sample_hub"

lemma sample_shown_reached: "hub_reach sample_env ''e'' None sample_shown" "room (hb_registry sample_shown)"
  "hb_canonical sample_shown \<noteq> None"
proof -
  show "hub_reach sample_env ''e'' None sample_shown" "room (hb_registry sample_shown)"
    using hub_reach_catch_up [OF sample_hub_reached] by (simp_all add: sample_shown_def)
  have "jn_seq (rg_journal (hb_registry sample_hub)) \<noteq> 0" by (simp add: sample_hub_def sample_opened_seq)
  with catch_up_shows [OF hub_reach_inv [OF sample_hub_reached(1)] _ sample_hub_reached(2)]
    hub_reach_open [OF sample_hub_reached(1) refl]
  show "hb_canonical sample_shown \<noteq> None" by (auto simp: sample_shown_def split: option.splits)
qed

section \<open>Properties\<close>

text \<open>
  (C20) What the server shows is the Bridge's own state: at any point of any run, once the server shows
  anything, a flush and the events of the channel bring it to a copy that follows the registry in its
  epoch, its position, its connection state and every published session.
\<close>

theorem projection_follows_registry:
  assumes "hub_reach E epoch None h" "room (hb_registry h)" "hb_canonical h \<noteq> None"
  shows "\<exists>sn. hb_canonical (drain E (flush_runtime h)) = Some sn \<and> follows sn (hb_registry (drain E (flush_runtime h)))"
proof -
  have "asked h \<and> ec_left (hb_channel h) = None" by (rule hub_reach_open [OF assms(1) refl])
  with flushed_drained [OF hub_reach_inv [OF assms(1)] _ assms(2)] assms(3)
  have d: "hub_inv E (drain E (flush_runtime h))" "room (hb_registry (drain E (flush_runtime h)))"
    "hb_published (drain E (flush_runtime h)) = jn_seq (rg_journal (hb_registry (drain E (flush_runtime h))))"
    "ec_queue (hb_channel (drain E (flush_runtime h))) = []" "hb_canonical (drain E (flush_runtime h)) \<noteq> None" by simp_all
  from drained_follows [OF d(1-4)] d(5) show ?thesis by auto
qed

lemma projection_follows_registry_witness:
  "\<exists>sn. hb_canonical (drain sample_env (flush_runtime sample_shown)) = Some sn \<and>
    follows sn (hb_registry (drain sample_env (flush_runtime sample_shown)))"
  by (rule projection_follows_registry [OF sample_shown_reached])

text \<open>
  (C21) The projection is never given up: once the server shows a snapshot, no action of the Bridge and
  no event of the channel takes it away, and applying an event never panics.
\<close>

theorem projection_never_given_up:
  assumes "hub_reach E epoch left h" "room (hb_registry h)" "action_ok a (hb_registry h)" "hb_canonical h \<noteq> None"
  shows "hb_canonical (snd (hub_do E a h)) \<noteq> None \<and> fst (receive_event E h) = Ok ()"
proof -
  note r = receive_event_ok [OF hub_reach_inv [OF assms(1)]]
  have "hb_canonical (snd (hub_do E a h)) \<noteq> None"
    by (cases a) (use r assms(4) in \<open>simp_all add: flush_runtime_def serve_snapshot_request_def split_beta\<close>)
  with r show ?thesis by simp
qed

lemma projection_never_given_up_witness:
  "hb_canonical (snd (hub_do sample_env ActReceive sample_shown)) \<noteq> None \<and> fst (receive_event sample_env sample_shown) = Ok ()"
  by (rule projection_never_given_up [OF sample_shown_reached(1,2) _ sample_shown_reached(3)]) (simp add: action_ok_def)



end
