(* ===== verification/Session_Dispatch.thy ===== *)
theory Session_Dispatch
  imports Prelude "HOL-Library.Sublist"
begin

text \<open>
  The queues between the ordered ingress and the sessions (\<open>src/src/session_dispatch.rs\<close>): one FIFO
  queue per session, drained in turn, with at most one delivery of a session out at a time. An
  \<open>Arc\<close> that only stands for an identity is a number: the dispatcher's identity, and the allocation
  whose busy flag and counters a guard holds on to. The counters are \<open>usize\<close> and wrap around.
\<close>

section \<open>State\<close>

datatype traffic_class = Ordinary | Reserved

datatype event_origin = Command | RequiredInbound

text \<open>A mutex is poisoned by a panic under its lock; in the model that is \<open>Panic\<close> itself.\<close>

datatype dispatch_error =
    DispatchClosed
  | RegistryPoisoned
  | DispatchEpochMismatch
  | ForeignHandle
  | DispatchSessionRemoved
  | StaleHandle
  | DispatchStaleIncarnation u64 u64
  | AllocationExhausted

record session_handle =
  sh_epoch :: string
  sh_session_id :: string
  sh_incarnation :: u64
  sh_allocation :: u64
  sh_registry :: nat

record queue_usage =
  qu_items :: u64
  qu_bytes :: u64

record class_pools =
  cp_ordinary :: queue_usage
  cp_reserved :: queue_usage

text \<open>A queued delivery with its guard; the guard of one that was taken also holds a busy flag.\<close>

record 'e delivery =
  dl_handle :: session_handle
  dl_event :: 'e
  dl_class :: traffic_class
  dl_bytes :: u64
  dl_busy :: "u64 option"

record 'e session_queue =
  sq_handle :: session_handle
  sq_accounting :: class_pools
  sq_queue :: "'e delivery list"
  sq_scheduled :: bool

record 'e dispatch =
  dp_epoch :: string
  dp_identity :: nat
  dp_closed :: bool
  dp_next_allocation :: u64
  dp_sessions :: "(string, 'e session_queue) hash_map"
  dp_ready :: "session_handle list"
  dp_busy :: "u64 list"
  dp_global :: class_pools

definition no_usage :: queue_usage where
  "no_usage = \<lparr>qu_items = 0, qu_bytes = 0\<rparr>"

definition empty_pools :: class_pools where
  "empty_pools = \<lparr>cp_ordinary = no_usage, cp_reserved = no_usage\<rparr>"

definition pool_get :: "traffic_class \<Rightarrow> class_pools \<Rightarrow> queue_usage" where
  "pool_get c p = (case c of Ordinary \<Rightarrow> cp_ordinary p | Reserved \<Rightarrow> cp_reserved p)"

definition pool_map :: "traffic_class \<Rightarrow> (queue_usage \<Rightarrow> queue_usage) \<Rightarrow> class_pools \<Rightarrow> class_pools" where
  "pool_map c f p = (case c of Ordinary \<Rightarrow> p\<lparr>cp_ordinary := f (cp_ordinary p)\<rparr>
     | Reserved \<Rightarrow> p\<lparr>cp_reserved := f (cp_reserved p)\<rparr>)"

definition usage_record :: "u64 \<Rightarrow> queue_usage \<Rightarrow> queue_usage" where
  "usage_record bytes u = \<lparr>qu_items = qu_items u + 1, qu_bytes = qu_bytes u + bytes\<rparr>"

definition usage_release :: "u64 \<Rightarrow> queue_usage \<Rightarrow> queue_usage" where
  "usage_release bytes u = \<lparr>qu_items = qu_items u - 1, qu_bytes = qu_bytes u - bytes\<rparr>"

definition dispatch_new :: "string \<Rightarrow> nat \<Rightarrow> 'e dispatch" where
  "dispatch_new epoch identity = \<lparr>dp_epoch = epoch, dp_identity = identity, dp_closed = False, dp_next_allocation = 0,
     dp_sessions = [], dp_ready = [], dp_busy = [], dp_global = empty_pools\<rparr>"

section \<open>Operations\<close>

text \<open>
  A guard is dropped: its two leases are returned and its busy flag is cleared. A queue that was
  replaced or removed has taken its counters with it.
\<close>

definition release_session :: "'e delivery \<Rightarrow> 'e dispatch \<Rightarrow> 'e dispatch" where
  "release_session dl d =
     (case hm_get (dp_sessions d) (sh_session_id (dl_handle dl)) of
        Some q \<Rightarrow>
          if sh_allocation (sq_handle q) = sh_allocation (dl_handle dl)
          then d\<lparr>dp_sessions := hm_insert (sh_session_id (dl_handle dl))
                 (q\<lparr>sq_accounting := pool_map (dl_class dl) (usage_release (dl_bytes dl)) (sq_accounting q)\<rparr>)
                 (dp_sessions d)\<rparr>
          else d
      | None \<Rightarrow> d)"

definition drop_guard :: "'e delivery \<Rightarrow> 'e dispatch \<Rightarrow> 'e dispatch" where
  "drop_guard dl d =
     (let d1 = release_session dl d;
          d2 = d1\<lparr>dp_global := pool_map (dl_class dl) (usage_release (dl_bytes dl)) (dp_global d1)\<rparr>
      in case dl_busy dl of
           Some a \<Rightarrow> d2\<lparr>dp_busy := removeAll a (dp_busy d2)\<rparr>
         | None \<Rightarrow> d2)"

definition drop_queue :: "'e session_queue option \<Rightarrow> 'e dispatch \<Rightarrow> 'e dispatch" where
  "drop_queue q d = (case q of Some q \<Rightarrow> fold drop_guard (sq_queue q) d | None \<Rightarrow> d)"

definition register_queue :: "string \<Rightarrow> u64 \<Rightarrow> 'e dispatch
    \<Rightarrow> (dispatch_error, session_handle) result \<times> 'e dispatch" where
  "register_queue sid inc d =
     (let allocate =
        try_in d (if dp_next_allocation d = - 1 then Err AllocationExhausted else Ok (dp_next_allocation d + 1))
          (\<lambda>allocation.
            let handle = \<lparr>sh_epoch = dp_epoch d, sh_session_id = sid, sh_incarnation = inc,
                  sh_allocation = allocation, sh_registry = dp_identity d\<rparr>;
                previous = hm_get (dp_sessions d) sid;
                d1 = d\<lparr>dp_next_allocation := allocation,
                  dp_sessions := hm_insert sid \<lparr>sq_handle = handle, sq_accounting = empty_pools, sq_queue = [],
                    sq_scheduled = False\<rparr> (dp_sessions d),
                  dp_ready := filter (\<lambda>h. sh_session_id h \<noteq> sid) (dp_ready d)\<rparr>
            in (Ok handle, drop_queue previous d1))
      in if dp_closed d then (Err DispatchClosed, d)
         else case hm_get (dp_sessions d) sid of
           Some q \<Rightarrow>
             if sh_incarnation (sq_handle q) = inc then (Ok (sq_handle q), d)
             else if inc < sh_incarnation (sq_handle q)
             then (Err (DispatchStaleIncarnation (sh_incarnation (sq_handle q)) inc), d)
             else allocate
         | None \<Rightarrow> allocate)"

definition validate_handle :: "session_handle \<Rightarrow> 'e dispatch \<Rightarrow> (dispatch_error, unit) result" where
  "validate_handle h d =
     (if dp_closed d then Err DispatchClosed
      else if sh_epoch h \<noteq> dp_epoch d then Err DispatchEpochMismatch
      else if sh_registry h \<noteq> dp_identity d then Err ForeignHandle
      else res_bind (ok_or DispatchSessionRemoved (hm_get (dp_sessions d) (sh_session_id h))) (\<lambda>q.
        if sq_handle q \<noteq> h then Err StaleHandle else Ok ()))"

definition try_route :: "session_handle \<Rightarrow> traffic_class \<Rightarrow> u64 \<Rightarrow> 'e \<Rightarrow> 'e dispatch
    \<Rightarrow> (dispatch_error \<times> 'e, unit) result \<times> 'e dispatch" where
  "try_route h c bytes0 event d =
     try_in d (map_err (\<lambda>e. (e, event)) (validate_handle h d)) (\<lambda>_.
       let bytes = max bytes0 1
       in expect_in d (hm_get (dp_sessions d) (sh_session_id h)) (\<lambda>q.
         let q1 = q\<lparr>sq_accounting := pool_map c (usage_record bytes) (sq_accounting q),
                sq_queue := sq_queue q @ [\<lparr>dl_handle = h, dl_event = event, dl_class = c, dl_bytes = bytes, dl_busy = None\<rparr>],
                sq_scheduled := True\<rparr>
         in (Ok (), d\<lparr>dp_sessions := hm_insert (sh_session_id h) q1 (dp_sessions d),
              dp_global := pool_map c (usage_record bytes) (dp_global d),
              dp_ready := (if sq_scheduled q then dp_ready d else dp_ready d @ [h])\<rparr>)))"

text \<open>One turn of the loop per ready handle; a busy allocation goes to the back.\<close>

fun next_ready :: "nat \<Rightarrow> 'e dispatch \<Rightarrow> (dispatch_error, 'e delivery option) result \<times> 'e dispatch" where
  "next_ready 0 d = (Ok None, d)"
| "next_ready (Suc n) d =
     (case dp_ready d of
        [] \<Rightarrow> (Panic, d)
      | h # rest \<Rightarrow>
          expect_in (d\<lparr>dp_ready := rest\<rparr>) (hm_get (dp_sessions d) (sh_session_id h)) (\<lambda>q.
            if sh_allocation (sq_handle q) \<in> set (dp_busy d) then next_ready n (d\<lparr>dp_ready := rest @ [h]\<rparr>)
            else (case sq_queue q of
                [] \<Rightarrow> (Panic, d\<lparr>dp_ready := rest\<rparr>)
              | dl # dls \<Rightarrow>
                  (Ok (Some (dl\<lparr>dl_busy := Some (sh_allocation (sq_handle q))\<rparr>)),
                   d\<lparr>dp_busy := sh_allocation (sq_handle q) # dp_busy d,
                     dp_sessions := hm_insert (sh_session_id h) (q\<lparr>sq_queue := dls, sq_scheduled := dls \<noteq> []\<rparr>) (dp_sessions d),
                     dp_ready := (if dls \<noteq> [] then rest @ [h] else rest)\<rparr>))))"

definition try_next :: "'e dispatch \<Rightarrow> (dispatch_error, 'e delivery option) result \<times> 'e dispatch" where
  "try_next d = (if dp_closed d then (Err DispatchClosed, d) else next_ready (length (dp_ready d)) d)"

definition remove_queue :: "session_handle \<Rightarrow> 'e dispatch \<Rightarrow> (dispatch_error, unit) result \<times> 'e dispatch" where
  "remove_queue h d =
     try_in d (validate_handle h d) (\<lambda>_.
       (Ok (), drop_queue (hm_get (dp_sessions d) (sh_session_id h))
          (d\<lparr>dp_sessions := hm_remove (sh_session_id h) (dp_sessions d), dp_ready := filter (\<lambda>r. r \<noteq> h) (dp_ready d)\<rparr>)))"

definition close_dispatch :: "'e dispatch \<Rightarrow> 'e dispatch" where
  "close_dispatch d =
     fold (\<lambda>e. drop_queue (Some (snd e))) (dp_sessions d) (d\<lparr>dp_closed := True, dp_ready := [], dp_sessions := []\<rparr>)"

definition session_usage :: "session_handle \<Rightarrow> traffic_class \<Rightarrow> 'e dispatch \<Rightarrow> (dispatch_error, queue_usage) result" where
  "session_usage h c d =
     res_bind (validate_handle h d) (\<lambda>_.
       case hm_get (dp_sessions d) (sh_session_id h) of
         Some q \<Rightarrow> Ok (pool_get c (sq_accounting q))
       | None \<Rightarrow> Panic)"


section \<open>The invariant of a dispatcher\<close>

definition allocation_of :: "'e delivery \<Rightarrow> u64" where
  "allocation_of dl = sh_allocation (dl_handle dl)"

text \<open>A registered queue is filed under its own handle, and holds deliveries to that handle only.\<close>

definition queue_ok :: "'e dispatch \<Rightarrow> string \<Rightarrow> 'e session_queue \<Rightarrow> bool" where
  "queue_ok d sid q \<longleftrightarrow>
     sh_session_id (sq_handle q) = sid \<and> sh_epoch (sq_handle q) = dp_epoch d \<and>
     sh_registry (sq_handle q) = dp_identity d \<and> sh_allocation (sq_handle q) \<le> dp_next_allocation d \<and>
     sq_scheduled q = (sq_queue q \<noteq> []) \<and>
     (\<forall>dl \<in> set (sq_queue q). dl_handle dl = sq_handle q \<and> dl_busy dl = None)"

definition scheduled_handles :: "'e dispatch \<Rightarrow> session_handle set" where
  "scheduled_handles d = {sq_handle q | sid q. hm_get (dp_sessions d) sid = Some q \<and> sq_queue q \<noteq> []}"

definition dispatch_ok :: "'e dispatch \<Rightarrow> bool" where
  "dispatch_ok d \<longleftrightarrow>
     hm_wf (dp_sessions d) \<and>
     (\<forall>sid q. hm_get (dp_sessions d) sid = Some q \<longrightarrow> queue_ok d sid q) \<and>
     (\<forall>sid q sid' q'. hm_get (dp_sessions d) sid = Some q \<longrightarrow> hm_get (dp_sessions d) sid' = Some q' \<longrightarrow>
        sh_allocation (sq_handle q) = sh_allocation (sq_handle q') \<longrightarrow> sid = sid') \<and>
     distinct (dp_ready d) \<and> set (dp_ready d) = scheduled_handles d"

text \<open>The guards that are out: one per allocation, and exactly their allocations are busy.\<close>

definition guards_ok :: "'e dispatch \<Rightarrow> 'e delivery list \<Rightarrow> bool" where
  "guards_ok d out \<longleftrightarrow>
     distinct (map allocation_of out) \<and> set (dp_busy d) = allocation_of ` set out \<and>
     (\<forall>dl \<in> set out. dl_busy dl = Some (allocation_of dl) \<and> allocation_of dl \<le> dp_next_allocation d \<and>
        (\<forall>sid q. hm_get (dp_sessions d) sid = Some q \<longrightarrow> sh_allocation (sq_handle q) = allocation_of dl \<longrightarrow>
           dl_handle dl = sq_handle q))"

text \<open>What a list of deliveries weighs in a class.\<close>

fun items_in :: "traffic_class \<Rightarrow> 'e delivery list \<Rightarrow> nat" where
  "items_in c [] = 0"
| "items_in c (dl # dls) = (if dl_class dl = c then 1 else 0) + items_in c dls"

fun bytes_in :: "traffic_class \<Rightarrow> 'e delivery list \<Rightarrow> nat" where
  "bytes_in c [] = 0"
| "bytes_in c (dl # dls) = (if dl_class dl = c then unat (dl_bytes dl) else 0) + bytes_in c dls"

definition usage_in :: "traffic_class \<Rightarrow> 'e delivery list \<Rightarrow> queue_usage" where
  "usage_in c dls = \<lparr>qu_items = of_nat (items_in c dls), qu_bytes = of_nat (bytes_in c dls)\<rparr>"

definition queued_items :: "traffic_class \<Rightarrow> 'e dispatch \<Rightarrow> nat" where
  "queued_items c d = sum_list (map (\<lambda>e. items_in c (sq_queue (snd e))) (dp_sessions d))"

definition queued_bytes :: "traffic_class \<Rightarrow> 'e dispatch \<Rightarrow> nat" where
  "queued_bytes c d = sum_list (map (\<lambda>e. bytes_in c (sq_queue (snd e))) (dp_sessions d))"

text \<open>The counters of a queue hold what it queues and what of its allocation is out.\<close>

definition out_of :: "u64 \<Rightarrow> 'e delivery list \<Rightarrow> 'e delivery list" where
  "out_of a out = filter (\<lambda>dl. allocation_of dl = a) out"

definition accounts_ok :: "'e dispatch \<Rightarrow> 'e delivery list \<Rightarrow> bool" where
  "accounts_ok d out \<longleftrightarrow>
     (\<forall>sid q c. hm_get (dp_sessions d) sid = Some q \<longrightarrow>
        pool_get c (sq_accounting q) = usage_in c (sq_queue q @ out_of (sh_allocation (sq_handle q)) out)) \<and>
     (\<forall>c. pool_get c (dp_global d) =
        \<lparr>qu_items = of_nat (queued_items c d + items_in c out), qu_bytes = of_nat (queued_bytes c d + bytes_in c out)\<rparr>)"

section \<open>The counters\<close>

lemma items_in_append [simp]: "items_in c (xs @ ys) = items_in c xs + items_in c ys"
  by (induction xs) auto

lemma bytes_in_append [simp]: "bytes_in c (xs @ ys) = bytes_in c xs + bytes_in c ys"
  by (induction xs) auto

lemma pool_get_map [simp]:
  "pool_get c (pool_map c' f p) = (if c = c' then f (pool_get c p) else pool_get c p)"
  by (cases c; cases c') (simp_all add: pool_get_def pool_map_def)

lemma pool_get_empty [simp]: "pool_get c empty_pools = no_usage"
  by (cases c) (simp_all add: pool_get_def empty_pools_def)

lemma usage_in_Nil [simp]: "usage_in c [] = no_usage"
  by (simp add: usage_in_def no_usage_def)

lemma usage_record_counts:
  "usage_record b \<lparr>qu_items = of_nat m, qu_bytes = of_nat n\<rparr> = \<lparr>qu_items = of_nat (Suc m), qu_bytes = of_nat (n + unat b)\<rparr>"
  by (simp add: usage_record_def)

lemma usage_release_counts:
  "usage_release b \<lparr>qu_items = of_nat (Suc m), qu_bytes = of_nat (n + unat b)\<rparr> = \<lparr>qu_items = of_nat m, qu_bytes = of_nat n\<rparr>"
  by (simp add: usage_release_def)

definition release_all :: "'e delivery list \<Rightarrow> class_pools \<Rightarrow> class_pools" where
  "release_all dls p = fold (\<lambda>dl. pool_map (dl_class dl) (usage_release (dl_bytes dl))) dls p"

lemma release_all_counts:
  "pool_get c p = \<lparr>qu_items = of_nat (m + items_in c dls), qu_bytes = of_nat (n + bytes_in c dls)\<rparr> \<Longrightarrow>
     pool_get c (release_all dls p) = \<lparr>qu_items = of_nat m, qu_bytes = of_nat n\<rparr>"
proof (induction dls arbitrary: p)
  case Nil
  then show ?case by (simp add: release_all_def)
next
  case (Cons dl dls)
  let ?p = "pool_map (dl_class dl) (usage_release (dl_bytes dl)) p"
  have "pool_get c ?p = \<lparr>qu_items = of_nat (m + items_in c dls), qu_bytes = of_nat (n + bytes_in c dls)\<rparr>"
    using Cons.prems usage_release_counts [of "dl_bytes dl" "m + items_in c dls" "n + bytes_in c dls"]
    by (auto simp: ac_simps)
  from Cons.IH [OF this] show ?case by (simp add: release_all_def)
qed

text \<open>The deliveries of a queue that is no longer registered only leave the account of all sessions.\<close>

definition unregistered :: "'e delivery \<Rightarrow> 'e dispatch \<Rightarrow> bool" where
  "unregistered dl d \<longleftrightarrow>
     pred_option (\<lambda>q. sh_allocation (sq_handle q) \<noteq> allocation_of dl) (hm_get (dp_sessions d) (sh_session_id (dl_handle dl)))"

lemma drop_guards_unregistered:
  assumes "\<forall>dl \<in> set dls. dl_busy dl = None \<and> unregistered dl d"
  shows "fold drop_guard dls d = d\<lparr>dp_global := release_all dls (dp_global d)\<rparr>"
  using assms
proof (induction dls arbitrary: d)
  case Nil
  then show ?case by (simp add: release_all_def)
next
  case (Cons dl dls)
  let ?d = "d\<lparr>dp_global := pool_map (dl_class dl) (usage_release (dl_bytes dl)) (dp_global d)\<rparr>"
  have "release_session dl d = d"
    using Cons.prems by (auto simp: release_session_def unregistered_def allocation_of_def split: option.splits)
  with Cons.prems have "drop_guard dl d = ?d" by (simp add: drop_guard_def Let_def)
  moreover have "fold drop_guard dls ?d = ?d\<lparr>dp_global := release_all dls (dp_global ?d)\<rparr>"
    by (rule Cons.IH) (use Cons.prems in \<open>simp add: unregistered_def\<close>)
  ultimately show ?case by (simp add: release_all_def)
qed

lemma drop_queue_unregistered:
  assumes "pred_option (\<lambda>q. \<forall>dl \<in> set (sq_queue q). dl_busy dl = None \<and> unregistered dl d) q"
  shows "drop_queue q d = d\<lparr>dp_global := release_all (case q of Some q \<Rightarrow> sq_queue q | None \<Rightarrow> []) (dp_global d)\<rparr>"
  using assms by (cases q) (simp_all add: drop_queue_def drop_guards_unregistered release_all_def)

section \<open>Every operation keeps the invariant\<close>

definition held :: "'e dispatch \<Rightarrow> 'e delivery list \<Rightarrow> bool" where
  "held d out \<longleftrightarrow> dispatch_ok d \<and> guards_ok d out \<and> accounts_ok d out"

lemma held_new: "held (dispatch_new epoch identity) []"
  by (simp add: held_def dispatch_ok_def guards_ok_def accounts_ok_def dispatch_new_def scheduled_handles_def
      queued_items_def queued_bytes_def no_usage_def hm.get_nil hm.wf_nil)

lemma queue_okD:
  assumes "dispatch_ok d" "hm_get (dp_sessions d) sid = Some q"
  shows "sh_session_id (sq_handle q) = sid" "sh_epoch (sq_handle q) = dp_epoch d" "sh_registry (sq_handle q) = dp_identity d"
    "sh_allocation (sq_handle q) \<le> dp_next_allocation d" "sq_scheduled q = (sq_queue q \<noteq> [])"
    "\<And>dl. dl \<in> set (sq_queue q) \<Longrightarrow> dl_handle dl = sq_handle q \<and> dl_busy dl = None"
  using assms by (simp_all add: dispatch_ok_def queue_ok_def)

lemma same_allocation:
  "dispatch_ok d \<Longrightarrow> hm_get (dp_sessions d) sid = Some q \<Longrightarrow> hm_get (dp_sessions d) sid' = Some q' \<Longrightarrow>
     sh_allocation (sq_handle q) = sh_allocation (sq_handle q') \<Longrightarrow> sid = sid'"
  unfolding dispatch_ok_def by blast

lemma ready_registered:
  assumes "dispatch_ok d" "h \<in> set (dp_ready d)"
  shows "\<exists>q. hm_get (dp_sessions d) (sh_session_id h) = Some q \<and> sq_handle q = h \<and> sq_queue q \<noteq> []"
proof -
  from assms obtain sid q where q: "hm_get (dp_sessions d) sid = Some q" "sq_queue q \<noteq> []" "h = sq_handle q"
    by (auto simp: dispatch_ok_def scheduled_handles_def)
  with queue_okD(1) [OF assms(1) q(1)] show ?thesis by auto
qed

lemma scheduled_iff:
  "(\<And>sid q. hm_get (dp_sessions d) sid = Some q \<Longrightarrow> sh_session_id (sq_handle q) = sid) \<Longrightarrow>
     h \<in> scheduled_handles d \<longleftrightarrow> (\<exists>q. hm_get (dp_sessions d) (sh_session_id h) = Some q \<and> sq_handle q = h \<and> sq_queue q \<noteq> [])"
  unfolding scheduled_handles_def by auto

lemma ready_iff:
  assumes "dispatch_ok d"
  shows "h \<in> set (dp_ready d) \<longleftrightarrow>
     (\<exists>q. hm_get (dp_sessions d) (sh_session_id h) = Some q \<and> sq_handle q = h \<and> sq_queue q \<noteq> [])"
proof -
  have "set (dp_ready d) = scheduled_handles d" using assms by (simp add: dispatch_ok_def)
  then show ?thesis by (simp add: scheduled_iff [OF queue_okD(1) [OF assms]])
qed

lemma guards_okD:
  "guards_ok d out \<Longrightarrow> dl \<in> set out \<Longrightarrow> hm_get (dp_sessions d) sid = Some q \<Longrightarrow>
     sh_allocation (sq_handle q) = allocation_of dl \<Longrightarrow> dl_handle dl = sq_handle q"
  unfolding guards_ok_def by blast

lemma out_of_fresh: "guards_ok d out \<Longrightarrow> dp_next_allocation d < a \<Longrightarrow> out_of a out = []"
  by (auto simp: guards_ok_def out_of_def filter_empty_conv)

lemma queued_put:
  assumes "hm_wf (dp_sessions d)"
  shows "queued_items c (d\<lparr>dp_sessions := hm_insert sid q (dp_sessions d)\<rparr>)
      + (case hm_get (dp_sessions d) sid of Some p \<Rightarrow> items_in c (sq_queue p) | None \<Rightarrow> 0) = queued_items c d + items_in c (sq_queue q)"
    "queued_bytes c (d\<lparr>dp_sessions := hm_insert sid q (dp_sessions d)\<rparr>)
      + (case hm_get (dp_sessions d) sid of Some p \<Rightarrow> bytes_in c (sq_queue p) | None \<Rightarrow> 0) = queued_bytes c d + bytes_in c (sq_queue q)"
  using hm.sum_put_new [OF assms, of sid "\<lambda>q. items_in c (sq_queue q)" q] hm.sum_put_old [OF assms, of sid _ "\<lambda>q. items_in c (sq_queue q)" q]
    hm.sum_put_new [OF assms, of sid "\<lambda>q. bytes_in c (sq_queue q)" q] hm.sum_put_old [OF assms, of sid _ "\<lambda>q. bytes_in c (sq_queue q)" q]
  by (auto simp: queued_items_def queued_bytes_def split: option.splits)

lemma queued_del:
  assumes "hm_wf (dp_sessions d)" "hm_get (dp_sessions d) sid = Some p"
  shows "queued_items c (d\<lparr>dp_sessions := hm_remove sid (dp_sessions d)\<rparr>) + items_in c (sq_queue p) = queued_items c d"
    "queued_bytes c (d\<lparr>dp_sessions := hm_remove sid (dp_sessions d)\<rparr>) + bytes_in c (sq_queue p) = queued_bytes c d"
  using hm.sum_del [OF assms, of "\<lambda>q. items_in c (sq_queue q)"] hm.sum_del [OF assms, of "\<lambda>q. bytes_in c (sq_queue q)"]
  by (simp_all add: queued_items_def queued_bytes_def)

lemma queued_cong [simp]:
  "queued_items c (dp_ready_update f d) = queued_items c d" "queued_bytes c (dp_ready_update f d) = queued_bytes c d"
  "queued_items c (dp_busy_update g d) = queued_items c d" "queued_bytes c (dp_busy_update g d) = queued_bytes c d"
  "queued_items c (dp_global_update k d) = queued_items c d" "queued_bytes c (dp_global_update k d) = queued_bytes c d"
  "queued_items c (dp_closed_update l d) = queued_items c d" "queued_bytes c (dp_closed_update l d) = queued_bytes c d"
  "queued_items c (dp_next_allocation_update m d) = queued_items c d"
  "queued_bytes c (dp_next_allocation_update m d) = queued_bytes c d"
  by (simp_all add: queued_items_def queued_bytes_def)

subsection \<open>Registration\<close>

definition fresh_queue :: "session_handle \<Rightarrow> 'e session_queue" where
  "fresh_queue h = \<lparr>sq_handle = h, sq_accounting = empty_pools, sq_queue = [], sq_scheduled = False\<rparr>"

definition old_queue :: "string \<Rightarrow> 'e dispatch \<Rightarrow> 'e delivery list" where
  "old_queue sid d = (case hm_get (dp_sessions d) sid of Some q \<Rightarrow> sq_queue q | None \<Rightarrow> [])"

definition replaced :: "session_handle \<Rightarrow> 'e dispatch \<Rightarrow> 'e dispatch" where
  "replaced h d = d\<lparr>dp_next_allocation := sh_allocation h, dp_sessions := hm_insert (sh_session_id h) (fresh_queue h) (dp_sessions d),
     dp_ready := filter (\<lambda>r. sh_session_id r \<noteq> sh_session_id h) (dp_ready d),
     dp_global := release_all (old_queue (sh_session_id h) d) (dp_global d)\<rparr>"

definition fresh_handle :: "string \<Rightarrow> u64 \<Rightarrow> 'e dispatch \<Rightarrow> session_handle" where
  "fresh_handle sid inc d = \<lparr>sh_epoch = dp_epoch d, sh_session_id = sid, sh_incarnation = inc,
     sh_allocation = dp_next_allocation d + 1, sh_registry = dp_identity d\<rparr>"

lemma next_allocation_less: "(a::u64) \<noteq> - 1 \<Longrightarrow> a < a + 1"
proof -
  assume "a \<noteq> - 1"
  then have "1 + a \<noteq> 0" by (simp add: add_eq_0_iff)
  then show "a < a + 1" by (simp add: word_less_nat_alt unatSuc add.commute)
qed

lemma register_queue_cases:
  assumes "dispatch_ok d"
  obtains (same) r where "register_queue sid inc d = (r, d)" "r \<noteq> Panic"
    | (fresh) "dp_closed d = False" "dp_next_allocation d \<noteq> - 1"
        "register_queue sid inc d = (Ok (fresh_handle sid inc d), replaced (fresh_handle sid inc d) d)"
proof -
  let ?h = "fresh_handle sid inc d"
  let ?d = "d\<lparr>dp_next_allocation := sh_allocation ?h, dp_sessions := hm_insert sid (fresh_queue ?h) (dp_sessions d),
     dp_ready := filter (\<lambda>r. sh_session_id r \<noteq> sid) (dp_ready d)\<rparr>"
  have drop: "drop_queue (hm_get (dp_sessions d) sid) ?d = replaced ?h d" if "dp_next_allocation d \<noteq> - 1"
  proof -
    have l: "dp_next_allocation d < dp_next_allocation d + 1" by (rule next_allocation_less [OF that])
    have "pred_option (\<lambda>q. \<forall>dl \<in> set (sq_queue q). dl_busy dl = None \<and> unregistered dl ?d) (hm_get (dp_sessions d) sid)"
    proof (cases "hm_get (dp_sessions d) sid")
      case (Some q)
      note k = queue_okD [OF assms Some]
      have "dl_busy dl = None \<and> unregistered dl ?d" if "dl \<in> set (sq_queue q)" for dl
        using k(1,4) k(6) [OF that] l
        by (auto simp: unregistered_def hm.get_put allocation_of_def fresh_queue_def fresh_handle_def)
      with Some show ?thesis by simp
    qed simp
    then show ?thesis
      by (simp add: drop_queue_unregistered replaced_def old_queue_def fresh_handle_def split: option.splits)
  qed
  have "(\<exists>r. register_queue sid inc d = (r, d) \<and> r \<noteq> Panic) \<or>
      (\<not> dp_closed d \<and> dp_next_allocation d \<noteq> - 1 \<and> register_queue sid inc d = (Ok ?h, replaced ?h d))"
    using drop by (auto simp: register_queue_def Let_def fresh_handle_def fresh_queue_def split: option.splits if_splits)
  then show thesis using same fresh by auto
qed

lemma replaced_get:
  "hm_get (dp_sessions (replaced h d)) sid = (if sid = sh_session_id h then Some (fresh_queue h) else hm_get (dp_sessions d) sid)"
  by (simp add: replaced_def hm.get_put)

lemma replaced_held:
  assumes "held d out" "dp_next_allocation d \<noteq> - 1" "h = fresh_handle sid inc d"
  shows "held (replaced h d) out"
proof -
  have d: "dispatch_ok d" "guards_ok d out" "accounts_ok d out" using assms(1) by (simp_all add: held_def)
  have l: "dp_next_allocation d < sh_allocation h"
    using next_allocation_less [OF assms(2)] assms(3) by (simp add: fresh_handle_def)
  have f: "sh_session_id h = sid" "sh_epoch h = dp_epoch d" "sh_registry h = dp_identity d"
    using assms(3) by (simp_all add: fresh_handle_def)
  have dom: "hm_get (dp_sessions (replaced h d)) k = Some q \<longleftrightarrow>
      (if k = sid then q = fresh_queue h else hm_get (dp_sessions d) k = Some q)" for k q
    using f by (auto simp: replaced_get)
  have less: "sh_allocation (sq_handle q) < sh_allocation h" if "hm_get (dp_sessions d) k = Some q" for k q
    using queue_okD(4) [OF d(1) that] l by simp
  have wf: "hm_wf (dp_sessions d)" using d(1) by (simp add: dispatch_ok_def)
  have "dispatch_ok (replaced h d)"
  proof -
    have "queue_ok (replaced h d) k q" if "hm_get (dp_sessions (replaced h d)) k = Some q" for k q
    proof (cases "k = sid")
      case True
      with that have "q = fresh_queue h" by (simp add: dom)
      with True f show ?thesis by (simp add: queue_ok_def fresh_queue_def replaced_def)
    next
      case False
      with that have k: "hm_get (dp_sessions d) k = Some q" by (simp add: dom)
      then have "queue_ok d k q" using d(1) by (simp add: dispatch_ok_def)
      with less [OF k] show ?thesis by (simp add: queue_ok_def replaced_def)
    qed
    moreover have "k = k'" if "hm_get (dp_sessions (replaced h d)) k = Some q"
        "hm_get (dp_sessions (replaced h d)) k' = Some q'" "sh_allocation (sq_handle q) = sh_allocation (sq_handle q')" for k q k' q'
      using that less same_allocation [OF d(1)] by (fastforce simp: dom fresh_queue_def split: if_splits)
    moreover have "set (dp_ready (replaced h d)) = scheduled_handles (replaced h d)"
    proof -
      have "set (dp_ready d) = scheduled_handles d" using d(1) by (simp add: dispatch_ok_def)
      then have "set (dp_ready (replaced h d)) = {r \<in> scheduled_handles d. sh_session_id r \<noteq> sid}"
        using f by (simp add: replaced_def)
      also have "\<dots> = scheduled_handles (replaced h d)"
        unfolding scheduled_handles_def dom using queue_okD(1) [OF d(1)] by (auto simp: fresh_queue_def split: if_splits)
      finally show ?thesis .
    qed
    moreover have "hm_wf (dp_sessions (replaced h d))" "distinct (dp_ready (replaced h d))"
      using d(1) wf by (simp_all add: replaced_def hm.wf_put dispatch_ok_def)
    ultimately show ?thesis unfolding dispatch_ok_def by blast
  qed
  moreover have "guards_ok (replaced h d) out"
  proof -
    have "\<forall>dl \<in> set out. allocation_of dl \<noteq> sh_allocation h \<and> allocation_of dl \<le> sh_allocation h"
      using d(2) l by (auto simp: guards_ok_def)
    with d(2) show ?thesis
      unfolding guards_ok_def dom by (auto simp: replaced_def fresh_queue_def)
  qed
  moreover have "accounts_ok (replaced h d) out"
  proof -
    have "pool_get c (sq_accounting q) = usage_in c (sq_queue q @ out_of (sh_allocation (sq_handle q)) out)"
      if "hm_get (dp_sessions (replaced h d)) k = Some q" for k q c
      using that d(3) out_of_fresh [OF d(2) l] by (auto simp: dom accounts_ok_def fresh_queue_def split: if_splits)
    moreover have "pool_get c (dp_global (replaced h d)) = \<lparr>qu_items = of_nat (queued_items c (replaced h d) + items_in c out),
        qu_bytes = of_nat (queued_bytes c (replaced h d) + bytes_in c out)\<rparr>" for c
    proof -
      have q: "queued_items c (replaced h d) + items_in c (old_queue sid d) = queued_items c d"
        "queued_bytes c (replaced h d) + bytes_in c (old_queue sid d) = queued_bytes c d"
        using queued_put [OF wf, of c sid "fresh_queue h"] f
        by (auto simp: queued_items_def queued_bytes_def replaced_def old_queue_def fresh_queue_def split: option.splits)
      have "pool_get c (dp_global d) = \<lparr>qu_items = of_nat ((queued_items c (replaced h d) + items_in c out) + items_in c (old_queue sid d)),
          qu_bytes = of_nat ((queued_bytes c (replaced h d) + bytes_in c out) + bytes_in c (old_queue sid d))\<rparr>"
        using d(3) by (simp add: accounts_ok_def q(1) [symmetric] q(2) [symmetric] ac_simps)
      from release_all_counts [OF this] f show ?thesis by (simp add: replaced_def)
    qed
    ultimately show ?thesis unfolding accounts_ok_def by blast
  qed
  ultimately show ?thesis by (simp add: held_def)
qed

subsection \<open>A change of one queue\<close>

text \<open>\<open>put_queue\<close> stores a queue under the same handle; the three other operations on it end this way.\<close>

definition put_queue :: "'e session_queue \<Rightarrow> session_handle list \<Rightarrow> u64 list \<Rightarrow> class_pools \<Rightarrow> 'e dispatch \<Rightarrow> 'e dispatch" where
  "put_queue q ready busy global d = d\<lparr>dp_sessions := hm_insert (sh_session_id (sq_handle q)) q (dp_sessions d),
     dp_ready := ready, dp_busy := busy, dp_global := global\<rparr>"

lemma put_queue_fields [simp]:
  "dp_epoch (put_queue q r b g d) = dp_epoch d" "dp_identity (put_queue q r b g d) = dp_identity d"
  "dp_closed (put_queue q r b g d) = dp_closed d" "dp_next_allocation (put_queue q r b g d) = dp_next_allocation d"
  "dp_ready (put_queue q r b g d) = r" "dp_busy (put_queue q r b g d) = b" "dp_global (put_queue q r b g d) = g"
  by (simp_all add: put_queue_def)

lemma put_queue_get:
  "hm_get (dp_sessions (put_queue q r b g d)) sid
     = (if sid = sh_session_id (sq_handle q) then Some q else hm_get (dp_sessions d) sid)"
  by (simp add: put_queue_def hm.get_put)

lemma put_queue_queued:
  assumes "dispatch_ok d" "hm_get (dp_sessions d) (sh_session_id (sq_handle q)) = Some p"
  shows "queued_items c (put_queue q r b g d) + items_in c (sq_queue p) = queued_items c d + items_in c (sq_queue q)"
    "queued_bytes c (put_queue q r b g d) + bytes_in c (sq_queue p) = queued_bytes c d + bytes_in c (sq_queue q)"
  using queued_put [of d c "sh_session_id (sq_handle q)" q] assms
  by (simp_all add: put_queue_def dispatch_ok_def queued_items_def queued_bytes_def)

lemma put_queue_dispatch_ok:
  assumes d: "dispatch_ok d" and p: "hm_get (dp_sessions d) sid = Some p" and h: "sq_handle q = sq_handle p"
    and q: "sq_scheduled q = (sq_queue q \<noteq> [])" "\<forall>dl \<in> set (sq_queue q). dl_handle dl = sq_handle q \<and> dl_busy dl = None"
    and r: "distinct r" "set r = (if sq_queue q = [] then set (dp_ready d) - {sq_handle p} else insert (sq_handle p) (set (dp_ready d)))"
  shows "dispatch_ok (put_queue q r b g d)"
proof -
  note k = queue_okD [OF d p]
  have dom: "hm_get (dp_sessions (put_queue q r b g d)) x = Some y \<longleftrightarrow>
      (if x = sid then y = q else hm_get (dp_sessions d) x = Some y)" for x y
    using h k(1) by (auto simp: put_queue_get)
  have "queue_ok (put_queue q r b g d) x y" if "hm_get (dp_sessions (put_queue q r b g d)) x = Some y" for x y
  proof (cases "x = sid")
    case True
    with that have "y = q" by (simp add: dom)
    with True h k(1-4) q show ?thesis by (simp add: queue_ok_def)
  next
    case False
    with that have "queue_ok d x y" using d by (simp add: dom dispatch_ok_def)
    then show ?thesis by (simp add: queue_ok_def)
  qed
  moreover have "x = x'" if "hm_get (dp_sessions (put_queue q r b g d)) x = Some y"
      "hm_get (dp_sessions (put_queue q r b g d)) x' = Some y'" "sh_allocation (sq_handle y) = sh_allocation (sq_handle y')" for x y x' y'
  proof -
    have o: "\<exists>z. hm_get (dp_sessions d) x = Some z \<and> sq_handle z = sq_handle y"
      if "hm_get (dp_sessions (put_queue q r b g d)) x = Some y" for x y
      using that p h by (auto simp: dom split: if_splits)
    from o [OF that(1)] o [OF that(2)] that(3) same_allocation [OF d] show ?thesis by metis
  qed
  moreover have "set r = scheduled_handles (put_queue q r b g d)"
  proof -
    have s: "set (dp_ready d) = scheduled_handles d" using d by (simp add: dispatch_ok_def)
    have f: "sh_session_id (sq_handle y) = x" if "hm_get (dp_sessions (put_queue q r b g d)) x = Some y" for x y
      using that queue_okD(1) [OF d] k(1) h by (auto simp: dom split: if_splits)
    have new: "x \<in> scheduled_handles (put_queue q r b g d) \<longleftrightarrow>
        (\<exists>y. (if sh_session_id x = sid then y = q else hm_get (dp_sessions d) (sh_session_id x) = Some y) \<and> sq_handle y = x \<and> sq_queue y \<noteq> [])" for x
      by (subst scheduled_iff [OF f]) (simp_all add: dom)
    have old: "x \<in> scheduled_handles d \<longleftrightarrow>
        (\<exists>y. hm_get (dp_sessions d) (sh_session_id x) = Some y \<and> sq_handle y = x \<and> sq_queue y \<noteq> [])" for x
      using ready_iff [OF d, of x] s by simp
    have mem: "x \<in> scheduled_handles (put_queue q r b g d) \<longleftrightarrow>
        (if x = sq_handle p then sq_queue q \<noteq> [] else x \<in> scheduled_handles d)" for x
      unfolding new old using k(1) p h by (cases "sh_session_id x = sid") auto
    show ?thesis by (rule set_eqI) (simp add: r(2) s mem)
  qed
  moreover have "hm_wf (dp_sessions (put_queue q r b g d))"
    using d by (simp add: put_queue_def hm.wf_put dispatch_ok_def)
  ultimately show ?thesis using r(1) unfolding dispatch_ok_def by simp
qed

lemma put_queue_guards_ok:
  assumes "guards_ok d out" "dispatch_ok d" "hm_get (dp_sessions d) sid = Some p" "sq_handle q = sq_handle p"
  shows "guards_ok (put_queue q r (dp_busy d) g d) out"
  using assms queue_okD(1) [OF assms(2,3)] unfolding guards_ok_def by (auto simp: put_queue_get)

lemma put_queue_accounts_ok:
  assumes d: "dispatch_ok d" and p: "hm_get (dp_sessions d) sid = Some p" and h: "sq_handle q = sq_handle p"
    and a: "\<And>x y c. hm_get (dp_sessions d) x = Some y \<Longrightarrow> x \<noteq> sid \<Longrightarrow>
        pool_get c (sq_accounting y) = usage_in c (sq_queue y @ out_of (sh_allocation (sq_handle y)) out)"
    and q: "\<And>c. pool_get c (sq_accounting q) = usage_in c (sq_queue q @ out_of (sh_allocation (sq_handle p)) out)"
    and g: "\<And>c. pool_get c g = \<lparr>qu_items = of_nat (queued_items c (put_queue q r b g d) + items_in c out),
              qu_bytes = of_nat (queued_bytes c (put_queue q r b g d) + bytes_in c out)\<rparr>"
  shows "accounts_ok (put_queue q r b g d) out"
proof -
  have "pool_get c (sq_accounting y) = usage_in c (sq_queue y @ out_of (sh_allocation (sq_handle y)) out)"
    if "hm_get (dp_sessions (put_queue q r b g d)) x = Some y" for x y c
    using that a [of x y c] q [of c] h queue_okD(1) [OF d p] by (auto simp: put_queue_get split: if_splits)
  with g show ?thesis unfolding accounts_ok_def by simp
qed

subsection \<open>Routing\<close>

definition routed_delivery :: "session_handle \<Rightarrow> traffic_class \<Rightarrow> u64 \<Rightarrow> 'e \<Rightarrow> 'e delivery" where
  "routed_delivery h c b e = \<lparr>dl_handle = h, dl_event = e, dl_class = c, dl_bytes = max b 1, dl_busy = None\<rparr>"

definition routed_queue :: "session_handle \<Rightarrow> traffic_class \<Rightarrow> u64 \<Rightarrow> 'e \<Rightarrow> 'e session_queue \<Rightarrow> 'e session_queue" where
  "routed_queue h c b e q = q\<lparr>sq_accounting := pool_map c (usage_record (max b 1)) (sq_accounting q),
     sq_queue := sq_queue q @ [routed_delivery h c b e], sq_scheduled := True\<rparr>"

lemma routed_queue_fields [simp]:
  "sq_handle (routed_queue h c b e q) = sq_handle q" "sq_scheduled (routed_queue h c b e q)"
  "sq_accounting (routed_queue h c b e q) = pool_map c (usage_record (max b 1)) (sq_accounting q)"
  "sq_queue (routed_queue h c b e q) = sq_queue q @ [routed_delivery h c b e]"
  by (simp_all add: routed_queue_def)

definition routed :: "session_handle \<Rightarrow> traffic_class \<Rightarrow> u64 \<Rightarrow> 'e \<Rightarrow> 'e session_queue \<Rightarrow> 'e dispatch \<Rightarrow> 'e dispatch" where
  "routed h c b e q d = put_queue (routed_queue h c b e q) (if sq_scheduled q then dp_ready d else dp_ready d @ [h]) (dp_busy d)
     (pool_map c (usage_record (max b 1)) (dp_global d)) d"

lemma validate_handle_cases:
  obtains (bad) x where "validate_handle h d = Err x"
    | (good) q where "validate_handle h d = Ok ()" "dp_closed d = False"
        "hm_get (dp_sessions d) (sh_session_id h) = Some q" "sq_handle q = h"
proof -
  have "(\<exists>x. validate_handle h d = Err x) \<or> (\<exists>q. validate_handle h d = Ok () \<and> \<not> dp_closed d \<and>
      hm_get (dp_sessions d) (sh_session_id h) = Some q \<and> sq_handle q = h)"
    by (auto simp: validate_handle_def ok_or_def split: option.splits)
  then show thesis using bad good by auto
qed

lemma try_route_cases:
  obtains (bad) x where "try_route h c b e d = (Err (x, e), d)"
    | (good) q where "dp_closed d = False" "hm_get (dp_sessions d) (sh_session_id h) = Some q" "sq_handle q = h"
        "try_route h c b e d = (Ok (), routed h c b e q d)"
proof (cases rule: validate_handle_cases [of h d])
  case (bad x)
  then show thesis by (intro that(1)) (simp add: try_route_def)
next
  case (good q)
  show thesis
  proof (rule that(2) [OF good(2-4)])
    show "try_route h c b e d = (Ok (), routed h c b e q d)"
      using good by (simp add: try_route_def Let_def routed_def put_queue_def routed_queue_def routed_delivery_def)
  qed
qed

lemma usage_in_snoc:
  "usage_in c' (xs @ routed_delivery h c b e # ys)
     = (if c' = c then usage_record (max b 1) (usage_in c' (xs @ ys)) else usage_in c' (xs @ ys))"
  by (simp add: usage_in_def usage_record_def routed_delivery_def)

lemma routed_held:
  assumes "held d out" and q: "hm_get (dp_sessions d) (sh_session_id h) = Some q" "sq_handle q = h"
  shows "held (routed h c b e q d) out"
proof -
  have d: "dispatch_ok d" "guards_ok d out" "accounts_ok d out" using assms(1) by (simp_all add: held_def)
  let ?q = "routed_queue h c b e q" and ?g = "pool_map c (usage_record (max b 1)) (dp_global d)"
  note k = queue_okD [OF d(1) q(1)]
  have m: "h \<in> set (dp_ready d) \<longleftrightarrow> sq_queue q \<noteq> []"
    using ready_iff [OF d(1), of h] q by auto
  have "dispatch_ok (routed h c b e q d)"
    unfolding routed_def
  proof (rule put_queue_dispatch_ok [OF d(1) q(1)])
    show "\<forall>dl \<in> set (sq_queue ?q). dl_handle dl = sq_handle ?q \<and> dl_busy dl = None"
      using k(6) q(2) by (auto simp: routed_delivery_def)
    show "distinct (if sq_scheduled q then dp_ready d else dp_ready d @ [h])"
      using d(1) m k(5) by (auto simp: dispatch_ok_def)
    show "set (if sq_scheduled q then dp_ready d else dp_ready d @ [h])
        = (if sq_queue ?q = [] then set (dp_ready d) - {sq_handle q} else insert (sq_handle q) (set (dp_ready d)))"
      using m k(5) q(2) by auto
  qed simp_all
  moreover have "guards_ok (routed h c b e q d) out"
    unfolding routed_def by (rule put_queue_guards_ok [OF d(2,1) q(1)]) simp
  moreover have "accounts_ok (routed h c b e q d) out"
    unfolding routed_def
  proof (rule put_queue_accounts_ok [OF d(1) q(1)])
    show "sq_handle ?q = sq_handle q" by simp
    show "pool_get c (sq_accounting y) = usage_in c (sq_queue y @ out_of (sh_allocation (sq_handle y)) out)"
      if "hm_get (dp_sessions d) x = Some y" for x y c
      using d(3) that by (simp add: accounts_ok_def)
    show "pool_get c' (sq_accounting ?q) = usage_in c' (sq_queue ?q @ out_of (sh_allocation (sq_handle q)) out)" for c'
      using d(3) q(1) by (simp add: accounts_ok_def usage_in_snoc)
    fix c'
    have n: "queued_items c' (put_queue ?q r b' ?g d) = queued_items c' d + (if c = c' then 1 else 0)"
        "queued_bytes c' (put_queue ?q r b' ?g d) = queued_bytes c' d + (if c = c' then unat (max b 1) else 0)" for r b'
      using put_queue_queued [OF d(1), of ?q q c' r b' ?g] q by (simp_all add: routed_delivery_def)
    have "pool_get c' (dp_global d) = \<lparr>qu_items = of_nat (queued_items c' d + items_in c' out), qu_bytes = of_nat (queued_bytes c' d + bytes_in c' out)\<rparr>"
      using d(3) by (simp add: accounts_ok_def)
    then show "pool_get c' ?g = \<lparr>qu_items = of_nat (queued_items c' (put_queue ?q (if sq_scheduled q then dp_ready d else dp_ready d @ [h]) (dp_busy d) ?g d) + items_in c' out),
        qu_bytes = of_nat (queued_bytes c' (put_queue ?q (if sq_scheduled q then dp_ready d else dp_ready d @ [h]) (dp_busy d) ?g d) + bytes_in c' out)\<rparr>"
      unfolding n by (auto simp: usage_record_def ac_simps)
  qed
  ultimately show ?thesis by (simp add: held_def)
qed

subsection \<open>Taking a delivery\<close>

definition taken_queue :: "'e session_queue \<Rightarrow> 'e session_queue" where
  "taken_queue q = q\<lparr>sq_queue := tl (sq_queue q), sq_scheduled := tl (sq_queue q) \<noteq> []\<rparr>"

definition taken_delivery :: "'e session_queue \<Rightarrow> 'e delivery" where
  "taken_delivery q = (hd (sq_queue q))\<lparr>dl_busy := Some (sh_allocation (sq_handle q))\<rparr>"

text \<open>The handles in front of the one that is served were busy, and are now behind the others.\<close>

definition taken :: "session_handle list \<Rightarrow> 'e session_queue \<Rightarrow> session_handle list \<Rightarrow> 'e dispatch \<Rightarrow> 'e dispatch" where
  "taken bs q rest d = put_queue (taken_queue q) (rest @ bs @ (if tl (sq_queue q) = [] then [] else [sq_handle q]))
     (sh_allocation (sq_handle q) # dp_busy d) (dp_global d) d"

lemma taken_queue_fields [simp]:
  "sq_handle (taken_queue q) = sq_handle q" "sq_scheduled (taken_queue q) = (tl (sq_queue q) \<noteq> [])"
  "sq_accounting (taken_queue q) = sq_accounting q" "sq_queue (taken_queue q) = tl (sq_queue q)"
  by (simp_all add: taken_queue_def)

definition is_busy :: "'e dispatch \<Rightarrow> session_handle \<Rightarrow> bool" where
  "is_busy d h \<longleftrightarrow> sh_allocation h \<in> set (dp_busy d)"

lemma next_ready_busy:
  assumes "\<forall>h \<in> set bs. is_busy d h \<and> (\<exists>q. hm_get (dp_sessions d) (sh_session_id h) = Some q \<and> sq_handle q = h)"
    "dp_ready d = bs @ rest"
  shows "next_ready (length bs + n) d = next_ready n (d\<lparr>dp_ready := rest @ bs\<rparr>)"
  using assms
proof (induction bs arbitrary: d rest)
  case Nil
  then show ?case by (cases d) simp
next
  case (Cons h bs)
  from Cons.prems(1) obtain q where "is_busy d h" "hm_get (dp_sessions d) (sh_session_id h) = Some q" "sq_handle q = h" by auto
  then have "next_ready (length (h # bs) + n) d = next_ready (length bs + n) (d\<lparr>dp_ready := (bs @ rest) @ [h]\<rparr>)"
    using Cons.prems(2) by (simp add: is_busy_def)
  also have "\<dots> = next_ready n (d\<lparr>dp_ready := (bs @ rest) @ [h]\<rparr>\<lparr>dp_ready := (rest @ [h]) @ bs\<rparr>)"
    by (rule Cons.IH) (use Cons.prems(1) in \<open>simp_all add: is_busy_def\<close>)
  finally show ?case by simp
qed

lemma next_ready_free:
  assumes "dp_ready d = h # rest" "\<not> is_busy d h" "hm_get (dp_sessions d) (sh_session_id h) = Some q" "sq_handle q = h"
    "sq_queue q \<noteq> []"
  shows "next_ready (Suc n) d = (Ok (Some (taken_delivery q)), taken [] q rest d)"
  using assms
  by (cases "sq_queue q") (simp_all add: is_busy_def taken_def taken_delivery_def put_queue_def taken_queue_def)

lemma try_next_free:
  assumes d: "dispatch_ok d" "dp_closed d = False" and r: "dp_ready d = bs @ h # rest" and b: "list_all (is_busy d) bs" "\<not> is_busy d h"
    and q: "hm_get (dp_sessions d) (sh_session_id h) = Some q" "sq_handle q = h"
  shows "try_next d = (Ok (Some (taken_delivery q)), taken bs q rest d)"
proof -
  have reg: "\<exists>q. hm_get (dp_sessions d) (sh_session_id x) = Some q \<and> sq_handle q = x \<and> sq_queue q \<noteq> []" if "x \<in> set (bs @ h # rest)" for x
    using that unfolding r [symmetric] by (rule ready_registered [OF d(1)])
  from reg [of h] q have ne: "sq_queue q \<noteq> []" by auto
  have "try_next d = next_ready (length bs + Suc (length rest)) d" using d(2) r by (simp add: try_next_def)
  also have "\<dots> = next_ready (Suc (length rest)) (d\<lparr>dp_ready := (h # rest) @ bs\<rparr>)"
    using reg b(1) r by (intro next_ready_busy) (auto simp: list_all_iff)
  also have "\<dots> = (Ok (Some (taken_delivery q)), taken [] q (rest @ bs) (d\<lparr>dp_ready := (h # rest) @ bs\<rparr>))"
    using q b(2) ne by (intro next_ready_free) (simp_all add: is_busy_def)
  finally show ?thesis by (simp add: taken_def put_queue_def)
qed

lemma try_next_cases:
  assumes "dispatch_ok d"
  obtains (closed) "dp_closed d" "try_next d = (Err DispatchClosed, d)"
    | (idle) "\<not> dp_closed d" "list_all (is_busy d) (dp_ready d)" "try_next d = (Ok None, d)"
    | (free) bs h rest q where "\<not> dp_closed d" "dp_ready d = bs @ h # rest" "list_all (is_busy d) bs" "\<not> is_busy d h"
        "hm_get (dp_sessions d) (sh_session_id h) = Some q" "sq_handle q = h" "sq_queue q \<noteq> []"
        "try_next d = (Ok (Some (taken_delivery q)), taken bs q rest d)"
proof (cases "dp_closed d")
  case True
  then show thesis by (intro closed) (simp_all add: try_next_def)
next
  case False
  show thesis
  proof (cases "list_all (is_busy d) (dp_ready d)")
    case True
    have "next_ready (length (dp_ready d) + 0) d = next_ready 0 (d\<lparr>dp_ready := [] @ dp_ready d\<rparr>)"
      using True ready_registered [OF assms] by (intro next_ready_busy) (auto simp: list_all_iff)
    with False True show thesis by (intro idle) (simp_all add: try_next_def)
  next
    case not_all: False
    then obtain bs h rest where r: "dp_ready d = bs @ h # rest" "list_all (is_busy d) bs" "\<not> is_busy d h"
      using split_list_first_prop [of "dp_ready d" "\<lambda>h. \<not> is_busy d h"] by (auto simp: list_all_iff)
    obtain q where q: "hm_get (dp_sessions d) (sh_session_id h) = Some q" "sq_handle q = h" "sq_queue q \<noteq> []"
      using ready_registered [OF assms, of h] r(1) by auto
    from False r q try_next_free [OF assms _ r q(1,2)] show thesis by (intro free) simp_all
  qed
qed

lemma taken_delivery_fields:
  assumes "dispatch_ok d" "hm_get (dp_sessions d) sid = Some q" "sq_queue q \<noteq> []"
  shows "allocation_of (taken_delivery q) = sh_allocation (sq_handle q)" "dl_handle (taken_delivery q) = sq_handle q"
    "dl_busy (taken_delivery q) = Some (sh_allocation (sq_handle q))"
    "items_in c (taken_delivery q # tl (sq_queue q)) = items_in c (sq_queue q)"
    "bytes_in c (taken_delivery q # tl (sq_queue q)) = bytes_in c (sq_queue q)"
proof -
  from assms(3) obtain dl dls where q: "sq_queue q = dl # dls" by (cases "sq_queue q") auto
  with queue_okD(6) [OF assms(1,2), of dl] have h: "dl_handle dl = sq_handle q" by simp
  show "allocation_of (taken_delivery q) = sh_allocation (sq_handle q)" "dl_handle (taken_delivery q) = sq_handle q"
    "dl_busy (taken_delivery q) = Some (sh_allocation (sq_handle q))"
    "items_in c (taken_delivery q # tl (sq_queue q)) = items_in c (sq_queue q)"
    "bytes_in c (taken_delivery q # tl (sq_queue q)) = bytes_in c (sq_queue q)"
    by (simp_all add: taken_delivery_def allocation_of_def q h)
qed

lemma not_busy_out:
  "guards_ok d out \<Longrightarrow> \<not> is_busy d h \<Longrightarrow> sh_allocation h \<notin> allocation_of ` set out"
  by (auto simp: guards_ok_def is_busy_def)

lemma out_of_append [simp]: "out_of a (xs @ ys) = out_of a xs @ out_of a ys"
  by (simp add: out_of_def)

lemma out_of_Cons [simp]: "out_of a (dl # dls) = (if allocation_of dl = a then dl # out_of a dls else out_of a dls)"
  by (simp add: out_of_def)

lemma out_of_Nil [simp]: "out_of a [] = []"
  by (simp add: out_of_def)

lemma out_of_none: "a \<notin> allocation_of ` set out \<Longrightarrow> out_of a out = []"
  by (auto simp: out_of_def filter_empty_conv)

lemma taken_held:
  assumes "held d out" and r: "dp_ready d = bs @ h # rest" "\<not> is_busy d h"
    and q: "hm_get (dp_sessions d) (sh_session_id h) = Some q" "sq_handle q = h" "sq_queue q \<noteq> []"
  shows "held (taken bs q rest d) (out @ [taken_delivery q])"
proof -
  have d: "dispatch_ok d" "guards_ok d out" "accounts_ok d out" using assms(1) by (simp_all add: held_def)
  let ?q = "taken_queue q" and ?r = "rest @ bs @ (if tl (sq_queue q) = [] then [] else [sq_handle q])"
    and ?b = "sh_allocation (sq_handle q) # dp_busy d" and ?dl = "taken_delivery q"
  note k = queue_okD [OF d(1) q(1)] and t = taken_delivery_fields [OF d(1) q(1,3)]
  have free: "sh_allocation h \<notin> allocation_of ` set out" by (rule not_busy_out [OF d(2) r(2)])
  have "dispatch_ok (taken bs q rest d)"
    unfolding taken_def
  proof (rule put_queue_dispatch_ok [OF d(1) q(1)])
    show "\<forall>dl \<in> set (sq_queue ?q). dl_handle dl = sq_handle ?q \<and> dl_busy dl = None"
      using k(6) q(3) by (auto dest: list.set_sel(2))
    have "distinct (bs @ h # rest)" using d(1) r(1) by (simp add: dispatch_ok_def)
    then show "distinct ?r" "set ?r = (if sq_queue ?q = [] then set (dp_ready d) - {sq_handle q} else insert (sq_handle q) (set (dp_ready d)))"
      using q(2) r(1) by auto
  qed simp_all
  moreover have "guards_ok (taken bs q rest d) (out @ [?dl])"
  proof -
    have g: "guards_ok (put_queue ?q ?r (dp_busy d) (dp_global d) d) out"
      by (rule put_queue_guards_ok [OF d(2,1) q(1)]) simp
    have uniq: "dl_handle ?dl = sq_handle y" if "hm_get (dp_sessions (taken bs q rest d)) x = Some y"
        "sh_allocation (sq_handle y) = allocation_of ?dl" for x y
    proof (cases "x = sh_session_id h")
      case True
      with that(1) q(2) have "y = ?q" by (simp add: taken_def put_queue_get)
      then show ?thesis by (simp add: t)
    next
      case False
      with that(1) q(2) have y: "hm_get (dp_sessions d) x = Some y" by (simp add: taken_def put_queue_get)
      from same_allocation [OF d(1) y q(1)] that(2) False show ?thesis by (simp add: t)
    qed
    show ?thesis
      unfolding guards_ok_def
    proof (intro conjI ballI allI impI)
      show "distinct (map allocation_of (out @ [?dl]))" using d(2) free q(2) by (simp add: guards_ok_def t)
      show "set (dp_busy (taken bs q rest d)) = allocation_of ` set (out @ [?dl])"
        using d(2) by (auto simp: guards_ok_def t taken_def)
      fix dl assume dl: "dl \<in> set (out @ [?dl])"
      show "dl_busy dl = Some (allocation_of dl)" using dl d(2) by (auto simp: guards_ok_def t)
      show "allocation_of dl \<le> dp_next_allocation (taken bs q rest d)"
        using dl d(2) k(4) by (auto simp: guards_ok_def t taken_def)
      fix x y
      assume y: "hm_get (dp_sessions (taken bs q rest d)) x = Some y" "sh_allocation (sq_handle y) = allocation_of dl"
      show "dl_handle dl = sq_handle y"
      proof (cases "dl = ?dl")
        case True
        with y uniq show ?thesis by simp
      next
        case False
        with dl have "dl \<in> set out" by simp
        with g y show ?thesis by (simp add: guards_ok_def taken_def put_queue_get)
      qed
    qed
  qed
  moreover have "accounts_ok (taken bs q rest d) (out @ [?dl])"
    unfolding taken_def
  proof (rule put_queue_accounts_ok [OF d(1) q(1)])
    show "sq_handle ?q = sq_handle q" by simp
    show "pool_get c (sq_accounting y) = usage_in c (sq_queue y @ out_of (sh_allocation (sq_handle y)) (out @ [?dl]))"
      if "hm_get (dp_sessions d) x = Some y" "x \<noteq> sh_session_id h" for x y c
      using d(3) that same_allocation [OF d(1) that(1) q(1)] by (auto simp: accounts_ok_def t)
    show "pool_get c (sq_accounting ?q) = usage_in c (sq_queue ?q @ out_of (sh_allocation (sq_handle q)) (out @ [?dl]))" for c
    proof -
      have "pool_get c (sq_accounting q) = usage_in c (sq_queue q)"
        using d(3) q(1,2) out_of_none [OF free] by (simp add: accounts_ok_def)
      with out_of_none [OF free] q(2) t(4,5) [of c] show ?thesis
        by (simp add: t(1) usage_in_def flip: t(4,5))
    qed
    fix c
    have n: "queued_items c (put_queue ?q ?r ?b (dp_global d) d) + items_in c [?dl] = queued_items c d"
        "queued_bytes c (put_queue ?q ?r ?b (dp_global d) d) + bytes_in c [?dl] = queued_bytes c d"
      using put_queue_queued [OF d(1), of ?q q c ?r ?b "dp_global d"] q t(4,5) [of c] by simp_all
    show "pool_get c (dp_global d) = \<lparr>qu_items = of_nat (queued_items c (put_queue ?q ?r ?b (dp_global d) d) + items_in c (out @ [?dl])),
        qu_bytes = of_nat (queued_bytes c (put_queue ?q ?r ?b (dp_global d) d) + bytes_in c (out @ [?dl]))\<rparr>"
      using d(3) by (simp add: accounts_ok_def ac_simps flip: n)
  qed
  ultimately show ?thesis by (simp add: held_def)
qed

subsection \<open>Finishing a delivery\<close>

definition released_queue :: "'e delivery \<Rightarrow> 'e session_queue \<Rightarrow> 'e session_queue" where
  "released_queue dl q = q\<lparr>sq_accounting := pool_map (dl_class dl) (usage_release (dl_bytes dl)) (sq_accounting q)\<rparr>"

lemma released_queue_fields [simp]:
  "sq_handle (released_queue dl q) = sq_handle q" "sq_scheduled (released_queue dl q) = sq_scheduled q"
  "sq_queue (released_queue dl q) = sq_queue q"
  "sq_accounting (released_queue dl q) = pool_map (dl_class dl) (usage_release (dl_bytes dl)) (sq_accounting q)"
  by (simp_all add: released_queue_def)

definition freed :: "'e delivery \<Rightarrow> 'e dispatch \<Rightarrow> 'e dispatch" where
  "freed dl d = d\<lparr>dp_busy := removeAll (allocation_of dl) (dp_busy d),
     dp_global := pool_map (dl_class dl) (usage_release (dl_bytes dl)) (dp_global d)\<rparr>"

lemma drop_guard_cases:
  assumes "dispatch_ok d" "guards_ok d out" "dl \<in> set out"
  obtains (live) q where "hm_get (dp_sessions d) (sh_session_id (dl_handle dl)) = Some q" "sq_handle q = dl_handle dl"
      "drop_guard dl d = put_queue (released_queue dl q) (dp_ready d) (removeAll (allocation_of dl) (dp_busy d))
         (pool_map (dl_class dl) (usage_release (dl_bytes dl)) (dp_global d)) d"
    | (gone) "\<And>sid q. hm_get (dp_sessions d) sid = Some q \<Longrightarrow> sh_allocation (sq_handle q) \<noteq> allocation_of dl"
      "drop_guard dl d = freed dl d"
proof (cases "\<exists>sid q. hm_get (dp_sessions d) sid = Some q \<and> sh_allocation (sq_handle q) = allocation_of dl")
  case True
  then obtain sid q where q: "hm_get (dp_sessions d) sid = Some q" "sh_allocation (sq_handle q) = allocation_of dl" by auto
  with assms(2,3) have h: "sq_handle q = dl_handle dl" "dl_busy dl = Some (allocation_of dl)" by (auto simp: guards_ok_def)
  with queue_okD(1) [OF assms(1) q(1)] have s: "sid = sh_session_id (dl_handle dl)" by simp
  show thesis
  proof (rule live [OF q(1) [unfolded s] h(1)])
    show "drop_guard dl d = put_queue (released_queue dl q) (dp_ready d) (removeAll (allocation_of dl) (dp_busy d))
        (pool_map (dl_class dl) (usage_release (dl_bytes dl)) (dp_global d)) d"
      using q h s by (simp add: drop_guard_def release_session_def put_queue_def released_queue_def allocation_of_def)
  qed
next
  case False
  with assms(2,3) show thesis
    by (intro gone)
       (auto simp: drop_guard_def release_session_def freed_def guards_ok_def allocation_of_def split: option.splits)
qed

lemma release_counts:
  assumes "pool_get c p = \<lparr>qu_items = of_nat (m + items_in c [dl]), qu_bytes = of_nat (n + bytes_in c [dl])\<rparr>"
  shows "pool_get c (pool_map (dl_class dl) (usage_release (dl_bytes dl)) p) = \<lparr>qu_items = of_nat m, qu_bytes = of_nat n\<rparr>"
  using release_all_counts [of c p m "[dl]" n] assms by (simp add: release_all_def)

lemma out_of_split: "distinct (map allocation_of (xs @ dl # ys)) \<Longrightarrow> out_of (allocation_of dl) (xs @ ys) = []"
  by (intro out_of_none) auto

lemma guards_ok_finish:
  assumes g: "guards_ok d (xs @ dl # ys)"
    and s: "\<And>sid q. hm_get (dp_sessions d') sid = Some q \<Longrightarrow>
      pred_option (\<lambda>p. sq_handle p = sq_handle q) (hm_get (dp_sessions d) sid) \<and> hm_get (dp_sessions d) sid \<noteq> None"
    and b: "dp_busy d' = removeAll (allocation_of dl) (dp_busy d)" and n: "dp_next_allocation d' = dp_next_allocation d"
  shows "guards_ok d' (xs @ ys)"
proof -
  have "set (dp_busy d') = allocation_of ` set (xs @ ys)"
  proof -
    have "set (dp_busy d) = insert (allocation_of dl) (allocation_of ` set (xs @ ys))"
      "allocation_of dl \<notin> allocation_of ` set (xs @ ys)"
      using g by (simp_all add: guards_ok_def image_Un)
    then show ?thesis unfolding b by simp
  qed
  moreover have "dl_handle x = sq_handle q" if "x \<in> set (xs @ ys)" "hm_get (dp_sessions d') sid = Some q"
      "sh_allocation (sq_handle q) = allocation_of x" for x sid q
  proof -
    from s [OF that(2)] obtain p where p: "hm_get (dp_sessions d) sid = Some p" "sq_handle p = sq_handle q" by auto
    from that(1) have "x \<in> set (xs @ dl # ys)" by auto
    from guards_okD [OF g this p(1)] that(3) p(2) show ?thesis by simp
  qed
  moreover have "distinct (map allocation_of (xs @ ys))"
    "\<forall>x \<in> set (xs @ ys). dl_busy x = Some (allocation_of x) \<and> allocation_of x \<le> dp_next_allocation d'"
    using g n by (auto simp: guards_ok_def)
  ultimately show ?thesis unfolding guards_ok_def by blast
qed

lemma finished_held:
  assumes "held d (xs @ dl # ys)"
  shows "held (drop_guard dl d) (xs @ ys)"
proof -
  have d: "dispatch_ok d" "guards_ok d (xs @ dl # ys)" "accounts_ok d (xs @ dl # ys)" using assms by (simp_all add: held_def)
  let ?g = "pool_map (dl_class dl) (usage_release (dl_bytes dl)) (dp_global d)"
  have uniq: "distinct (map allocation_of (xs @ dl # ys))" using d(2) by (simp add: guards_ok_def)
  have glob: "pool_get c ?g = \<lparr>qu_items = of_nat (queued_items c d + items_in c (xs @ ys)), qu_bytes = of_nat (queued_bytes c d + bytes_in c (xs @ ys))\<rparr>" for c
  proof -
    have "pool_get c (dp_global d) = \<lparr>qu_items = of_nat ((queued_items c d + items_in c (xs @ ys)) + items_in c [dl]),
        qu_bytes = of_nat ((queued_bytes c d + bytes_in c (xs @ ys)) + bytes_in c [dl])\<rparr>"
      using d(3) by (simp add: accounts_ok_def ac_simps)
    then show ?thesis by (rule release_counts)
  qed
  have others: "pool_get c (sq_accounting y) = usage_in c (sq_queue y @ out_of (sh_allocation (sq_handle y)) (xs @ ys))"
    if "hm_get (dp_sessions d) x = Some y" "sh_allocation (sq_handle y) \<noteq> allocation_of dl" for x y c
    using d(3) that by (auto simp: accounts_ok_def)
  have mem: "dl \<in> set (xs @ dl # ys)" by simp
  from d(1,2) mem show ?thesis
  proof (cases rule: drop_guard_cases)
    case (live q)
    let ?q = "released_queue dl q"
    note k = queue_okD [OF d(1) live(1)]
    have ready: "dl_handle dl \<in> set (dp_ready d) \<longleftrightarrow> sq_queue q \<noteq> []" using ready_iff [OF d(1), of "dl_handle dl"] live by auto
    have "dispatch_ok (drop_guard dl d)"
      unfolding live(3)
    proof (rule put_queue_dispatch_ok [OF d(1) live(1)])
      show "set (dp_ready d) = (if sq_queue ?q = [] then set (dp_ready d) - {sq_handle q} else insert (sq_handle q) (set (dp_ready d)))"
        using ready live(2) by auto
    qed (use k d(1) in \<open>auto simp: dispatch_ok_def\<close>)
    moreover have "guards_ok (drop_guard dl d) (xs @ ys)"
      by (rule guards_ok_finish [OF d(2)]) (use live in \<open>auto simp: live(3) put_queue_get split: if_splits\<close>)
    moreover have "accounts_ok (drop_guard dl d) (xs @ ys)"
      unfolding live(3)
    proof (rule put_queue_accounts_ok [OF d(1) live(1)])
      show "sq_handle ?q = sq_handle q" by simp
      show "pool_get c (sq_accounting y) = usage_in c (sq_queue y @ out_of (sh_allocation (sq_handle y)) (xs @ ys))"
        if "hm_get (dp_sessions d) x = Some y" "x \<noteq> sh_session_id (dl_handle dl)" for x y c
        using same_allocation [OF d(1) that(1) live(1)] that live(2) by (intro others) (auto simp: allocation_of_def)
      show "pool_get c (sq_accounting ?q) = usage_in c (sq_queue ?q @ out_of (sh_allocation (sq_handle q)) (xs @ ys))" for c
      proof -
        have "out_of (allocation_of dl) (xs @ dl # ys) = [dl]"
          using out_of_split [OF uniq] by simp
        with d(3) live have "pool_get c (sq_accounting q) = \<lparr>qu_items = of_nat (items_in c (sq_queue q) + items_in c [dl]),
            qu_bytes = of_nat (bytes_in c (sq_queue q) + bytes_in c [dl])\<rparr>"
          by (simp add: accounts_ok_def usage_in_def allocation_of_def del: out_of_append out_of_Cons)
        from release_counts [OF this] out_of_split [OF uniq] live(2) show ?thesis
          by (simp add: usage_in_def allocation_of_def)
      qed
      fix c
      have n: "queued_items c (put_queue ?q (dp_ready d) b ?g d) = queued_items c d"
          "queued_bytes c (put_queue ?q (dp_ready d) b ?g d) = queued_bytes c d" for b
        using put_queue_queued [OF d(1), of ?q q c "dp_ready d" b ?g] live by simp_all
      show "pool_get c ?g = \<lparr>qu_items = of_nat (queued_items c (put_queue ?q (dp_ready d) (removeAll (allocation_of dl) (dp_busy d)) ?g d) + items_in c (xs @ ys)),
          qu_bytes = of_nat (queued_bytes c (put_queue ?q (dp_ready d) (removeAll (allocation_of dl) (dp_busy d)) ?g d) + bytes_in c (xs @ ys))\<rparr>"
        unfolding n by (rule glob)
    qed
    ultimately show ?thesis by (simp add: held_def)
  next
    case gone
    have "dispatch_ok (freed dl d)"
      using d(1) by (simp add: dispatch_ok_def queue_ok_def freed_def scheduled_handles_def)
    moreover have "guards_ok (freed dl d) (xs @ ys)"
      by (rule guards_ok_finish [OF d(2)]) (auto simp: freed_def)
    moreover have "accounts_ok (freed dl d) (xs @ ys)"
      unfolding accounts_ok_def using others gone(1) glob by (simp add: freed_def)
    ultimately show ?thesis unfolding gone(2) by (simp add: held_def)
  qed
qed

subsection \<open>Removal and closing\<close>

definition forgotten :: "session_handle \<Rightarrow> 'e session_queue \<Rightarrow> 'e dispatch \<Rightarrow> 'e dispatch" where
  "forgotten h q d = d\<lparr>dp_sessions := hm_remove (sh_session_id h) (dp_sessions d), dp_ready := filter (\<lambda>r. r \<noteq> h) (dp_ready d),
     dp_global := release_all (sq_queue q) (dp_global d)\<rparr>"

lemma forgotten_get:
  "hm_get (dp_sessions (forgotten h q d)) sid = (if sid = sh_session_id h then None else hm_get (dp_sessions d) sid)"
  by (simp add: forgotten_def hm.get_del)

lemma remove_queue_cases:
  assumes "dispatch_ok d"
  obtains (bad) x where "remove_queue h d = (Err x, d)"
    | (good) q where "hm_get (dp_sessions d) (sh_session_id h) = Some q" "sq_handle q = h" "remove_queue h d = (Ok (), forgotten h q d)"
proof (cases rule: validate_handle_cases [of h d])
  case (bad x)
  then show thesis by (intro that(1)) (simp add: remove_queue_def)
next
  case (good q)
  let ?d = "d\<lparr>dp_sessions := hm_remove (sh_session_id h) (dp_sessions d), dp_ready := filter (\<lambda>r. r \<noteq> h) (dp_ready d)\<rparr>"
  have "pred_option (\<lambda>q. \<forall>dl \<in> set (sq_queue q). dl_busy dl = None \<and> unregistered dl ?d) (Some q)"
    using queue_okD(6) [OF assms good(3)] good(4) by (simp add: unregistered_def hm.get_del)
  from drop_queue_unregistered [OF this] good show thesis
    by (intro that(2)) (simp_all add: remove_queue_def forgotten_def)
qed

lemma forgotten_held:
  assumes "held d out" and q: "hm_get (dp_sessions d) (sh_session_id h) = Some q" "sq_handle q = h"
  shows "held (forgotten h q d) out"
proof -
  have d: "dispatch_ok d" "guards_ok d out" "accounts_ok d out" using assms(1) by (simp_all add: held_def)
  have wf: "hm_wf (dp_sessions d)" using d(1) by (simp add: dispatch_ok_def)
  have sub: "hm_get (dp_sessions d) x = Some y" if "hm_get (dp_sessions (forgotten h q d)) x = Some y" for x y
    using that by (simp add: forgotten_get split: if_splits)
  have "dispatch_ok (forgotten h q d)"
  proof -
    have f: "sh_session_id (sq_handle y) = x" if "hm_get (dp_sessions (forgotten h q d)) x = Some y" for x y
      by (rule queue_okD(1) [OF d(1) sub [OF that]])
    have new: "r \<in> scheduled_handles (forgotten h q d) \<longleftrightarrow>
        (\<exists>y. hm_get (dp_sessions (forgotten h q d)) (sh_session_id r) = Some y \<and> sq_handle y = r \<and> sq_queue y \<noteq> [])" for r
      by (rule scheduled_iff) (rule f)
    have "r \<in> scheduled_handles (forgotten h q d) \<longleftrightarrow> r \<in> set (dp_ready d) \<and> r \<noteq> h" for r
    proof (cases "sh_session_id r = sh_session_id h")
      case True
      then show ?thesis unfolding new ready_iff [OF d(1)] by (simp add: forgotten_get q(1)) (simp add: q(2))
    next
      case False
      then have "r \<noteq> h" by auto
      with False show ?thesis unfolding new ready_iff [OF d(1)] by (simp add: forgotten_get)
    qed
    then have "scheduled_handles (forgotten h q d) = set (filter (\<lambda>r. r \<noteq> h) (dp_ready d))"
      by (intro set_eqI) simp
    then have "set (dp_ready (forgotten h q d)) = scheduled_handles (forgotten h q d)"
      by (simp add: forgotten_def)
    moreover have "queue_ok (forgotten h q d) x y" if "hm_get (dp_sessions (forgotten h q d)) x = Some y" for x y
      using d(1) sub [OF that] by (simp add: dispatch_ok_def queue_ok_def forgotten_def)
    moreover have "hm_wf (dp_sessions (forgotten h q d))" "distinct (dp_ready (forgotten h q d))"
      using d(1) by (simp_all add: dispatch_ok_def forgotten_def hm.wf_del)
    ultimately show ?thesis unfolding dispatch_ok_def using same_allocation [OF d(1) sub sub] by blast
  qed
  moreover have "guards_ok (forgotten h q d) out"
  proof -
    have "dp_busy (forgotten h q d) = dp_busy d" "dp_next_allocation (forgotten h q d) = dp_next_allocation d"
      by (simp_all add: forgotten_def)
    with d(2) sub show ?thesis unfolding guards_ok_def by metis
  qed
  moreover have "accounts_ok (forgotten h q d) out"
  proof -
    have n: "queued_items c (forgotten h q d) + items_in c (sq_queue q) = queued_items c d"
      "queued_bytes c (forgotten h q d) + bytes_in c (sq_queue q) = queued_bytes c d" for c
      using queued_del [OF wf q(1), of c] by (simp_all add: forgotten_def queued_items_def queued_bytes_def)
    have "pool_get c (dp_global (forgotten h q d)) = \<lparr>qu_items = of_nat (queued_items c (forgotten h q d) + items_in c out),
        qu_bytes = of_nat (queued_bytes c (forgotten h q d) + bytes_in c out)\<rparr>" for c
    proof -
      have "pool_get c (dp_global d) = \<lparr>qu_items = of_nat ((queued_items c (forgotten h q d) + items_in c out) + items_in c (sq_queue q)),
          qu_bytes = of_nat ((queued_bytes c (forgotten h q d) + bytes_in c out) + bytes_in c (sq_queue q))\<rparr>"
        using d(3) by (simp add: accounts_ok_def ac_simps flip: n)
      from release_all_counts [OF this] show ?thesis by (simp add: forgotten_def)
    qed
    with d(3) sub show ?thesis unfolding accounts_ok_def by blast
  qed
  ultimately show ?thesis by (simp add: held_def)
qed

definition closed_down :: "'e dispatch \<Rightarrow> 'e dispatch" where
  "closed_down d = d\<lparr>dp_closed := True, dp_ready := [], dp_sessions := [],
     dp_global := release_all (concat (map (\<lambda>e. sq_queue (snd e)) (dp_sessions d))) (dp_global d)\<rparr>"

lemma drop_queues_unregistered:
  assumes "\<forall>e \<in> set es. \<forall>dl \<in> set (sq_queue (snd e)). dl_busy dl = None" "dp_sessions d = []"
  shows "fold (\<lambda>e. drop_queue (Some (snd e))) es d
     = d\<lparr>dp_global := release_all (concat (map (\<lambda>e. sq_queue (snd e)) es)) (dp_global d)\<rparr>"
  using assms
proof (induction es arbitrary: d)
  case Nil
  then show ?case by (simp add: release_all_def)
next
  case (Cons e es)
  let ?d = "d\<lparr>dp_global := release_all (sq_queue (snd e)) (dp_global d)\<rparr>"
  have "drop_queue (Some (snd e)) d = ?d"
    using Cons.prems by (simp add: drop_queue_unregistered unregistered_def hm.get_nil)
  moreover have "fold (\<lambda>e. drop_queue (Some (snd e))) es ?d
      = ?d\<lparr>dp_global := release_all (concat (map (\<lambda>e. sq_queue (snd e)) es)) (dp_global ?d)\<rparr>"
    by (rule Cons.IH) (use Cons.prems in auto)
  ultimately show ?case by (simp add: release_all_def)
qed

lemma close_dispatch_eq:
  assumes "dispatch_ok d"
  shows "close_dispatch d = closed_down d"
proof -
  have wf: "hm_wf (dp_sessions d)" using assms by (simp add: dispatch_ok_def)
  have "\<forall>e \<in> set (dp_sessions d). \<forall>dl \<in> set (sq_queue (snd e)). dl_busy dl = None"
    using queue_okD(6) [OF assms] hm.entry_get [OF wf] by fastforce
  from drop_queues_unregistered [OF this, of "d\<lparr>dp_closed := True, dp_ready := [], dp_sessions := []\<rparr>"] show ?thesis
    by (simp add: close_dispatch_def closed_down_def)
qed

lemma items_in_concat [simp]: "items_in c (concat xss) = sum_list (map (items_in c) xss)"
  by (induction xss) auto

lemma bytes_in_concat [simp]: "bytes_in c (concat xss) = sum_list (map (bytes_in c) xss)"
  by (induction xss) auto

lemma closed_down_held:
  assumes "held d out"
  shows "held (closed_down d) out"
proof -
  have none: "hm_get (dp_sessions (closed_down d)) x = None" for x by (simp add: closed_down_def hm.get_nil)
  have "dispatch_ok (closed_down d)"
    by (simp add: dispatch_ok_def none scheduled_handles_def) (simp add: closed_down_def hm.wf_nil)
  moreover have "guards_ok (closed_down d) out"
    using assms by (simp add: held_def guards_ok_def none) (simp add: closed_down_def)
  moreover have "accounts_ok (closed_down d) out"
  proof -
    have "pool_get c (dp_global (closed_down d)) = \<lparr>qu_items = of_nat (items_in c out), qu_bytes = of_nat (bytes_in c out)\<rparr>" for c
    proof -
      have "pool_get c (dp_global d) = \<lparr>qu_items = of_nat (items_in c out + items_in c (concat (map (\<lambda>e. sq_queue (snd e)) (dp_sessions d)))),
          qu_bytes = of_nat (bytes_in c out + bytes_in c (concat (map (\<lambda>e. sq_queue (snd e)) (dp_sessions d))))\<rparr>"
        using assms by (simp add: held_def accounts_ok_def queued_items_def queued_bytes_def ac_simps comp_def)
      from release_all_counts [OF this] show ?thesis by (simp add: closed_down_def)
    qed
    then show ?thesis by (simp add: accounts_ok_def none) (simp add: closed_down_def queued_items_def queued_bytes_def)
  qed
  ultimately show ?thesis by (simp add: held_def)
qed

section \<open>Runs\<close>

text \<open>
  The ingress routes events with any handle it likes, takes deliveries, keeps their guards for as
  long as it wants, registers, removes and closes. Two logs record, per allocation, what was accepted
  and what was handed out.
\<close>

datatype 'e dispatch_op =
    DoRegister string u64
  | DoRoute session_handle traffic_class u64 'e
  | DoTake
  | DoFinish nat
  | DoRemove session_handle
  | DoClose

record 'e ingress =
  ig_dispatch :: "'e dispatch"
  ig_out :: "'e delivery list"
  ig_routed :: "(u64 \<times> 'e) list"
  ig_taken :: "(u64 \<times> 'e) list"
  ig_crashed :: bool

definition ingress_new :: "string \<Rightarrow> nat \<Rightarrow> 'e ingress" where
  "ingress_new epoch identity = \<lparr>ig_dispatch = dispatch_new epoch identity, ig_out = [], ig_routed = [], ig_taken = [],
     ig_crashed = False\<rparr>"

fun dispatch_do :: "'e dispatch_op \<Rightarrow> 'e ingress \<Rightarrow> 'e ingress" where
  "dispatch_do (DoRegister sid inc) w =
     (case register_queue sid inc (ig_dispatch w) of
        (Panic, d) \<Rightarrow> w\<lparr>ig_dispatch := d, ig_crashed := True\<rparr>
      | (r, d) \<Rightarrow> w\<lparr>ig_dispatch := d\<rparr>)"
| "dispatch_do (DoRoute h c b e) w =
     (case try_route h c b e (ig_dispatch w) of
        (Ok _, d) \<Rightarrow> w\<lparr>ig_dispatch := d, ig_routed := ig_routed w @ [(sh_allocation h, e)]\<rparr>
      | (Err _, d) \<Rightarrow> w\<lparr>ig_dispatch := d\<rparr>
      | (Panic, d) \<Rightarrow> w\<lparr>ig_dispatch := d, ig_crashed := True\<rparr>)"
| "dispatch_do DoTake w =
     (case try_next (ig_dispatch w) of
        (Ok (Some dl), d) \<Rightarrow> w\<lparr>ig_dispatch := d, ig_out := ig_out w @ [dl],
           ig_taken := ig_taken w @ [(allocation_of dl, dl_event dl)]\<rparr>
      | (Panic, d) \<Rightarrow> w\<lparr>ig_dispatch := d, ig_crashed := True\<rparr>
      | (r, d) \<Rightarrow> w\<lparr>ig_dispatch := d\<rparr>)"
| "dispatch_do (DoFinish i) w =
     (if i < length (ig_out w)
      then w\<lparr>ig_dispatch := drop_guard (ig_out w ! i) (ig_dispatch w), ig_out := take i (ig_out w) @ drop (Suc i) (ig_out w)\<rparr>
      else w)"
| "dispatch_do (DoRemove h) w =
     (case remove_queue h (ig_dispatch w) of
        (Panic, d) \<Rightarrow> w\<lparr>ig_dispatch := d, ig_crashed := True\<rparr>
      | (r, d) \<Rightarrow> w\<lparr>ig_dispatch := d\<rparr>)"
| "dispatch_do DoClose w = w\<lparr>ig_dispatch := close_dispatch (ig_dispatch w)\<rparr>"

definition dispatch_run :: "string \<Rightarrow> nat \<Rightarrow> 'e dispatch_op list \<Rightarrow> 'e ingress" where
  "dispatch_run epoch identity ops = fold dispatch_do ops (ingress_new epoch identity)"

definition events_of :: "u64 \<Rightarrow> (u64 \<times> 'e) list \<Rightarrow> 'e list" where
  "events_of a log = map snd (filter (\<lambda>x. fst x = a) log)"

lemma events_of_simps [simp]:
  "events_of a [] = []"
  "events_of a (xs @ ys) = events_of a xs @ events_of a ys"
  "events_of a ((b, e) # xs) = (if b = a then e # events_of a xs else events_of a xs)"
  by (simp_all add: events_of_def)

text \<open>What was accepted and not handed out is what the queue holds, in order.\<close>

definition logs_ok :: "'e ingress \<Rightarrow> bool" where
  "logs_ok w \<longleftrightarrow>
     (\<forall>x \<in> set (ig_routed w). fst x \<le> dp_next_allocation (ig_dispatch w)) \<and>
     (\<forall>sid q. hm_get (dp_sessions (ig_dispatch w)) sid = Some q \<longrightarrow>
        events_of (sh_allocation (sq_handle q)) (ig_routed w)
          = events_of (sh_allocation (sq_handle q)) (ig_taken w) @ map dl_event (sq_queue q)) \<and>
     (\<forall>a. prefix (events_of a (ig_taken w)) (events_of a (ig_routed w)))"

definition ingress_ok :: "'e ingress \<Rightarrow> bool" where
  "ingress_ok w \<longleftrightarrow> held (ig_dispatch w) (ig_out w) \<and> logs_ok w \<and> \<not> ig_crashed w"

lemma logs_okI:
  "(\<And>x. x \<in> set (ig_routed w) \<Longrightarrow> fst x \<le> dp_next_allocation (ig_dispatch w)) \<Longrightarrow>
     (\<And>sid q. hm_get (dp_sessions (ig_dispatch w)) sid = Some q \<Longrightarrow>
        events_of (sh_allocation (sq_handle q)) (ig_routed w)
          = events_of (sh_allocation (sq_handle q)) (ig_taken w) @ map dl_event (sq_queue q)) \<Longrightarrow>
     (\<And>a. prefix (events_of a (ig_taken w)) (events_of a (ig_routed w))) \<Longrightarrow> logs_ok w"
  by (simp add: logs_ok_def)

lemma logs_okD:
  assumes "logs_ok w"
  shows "x \<in> set (ig_routed w) \<Longrightarrow> fst x \<le> dp_next_allocation (ig_dispatch w)"
    "hm_get (dp_sessions (ig_dispatch w)) sid = Some q \<Longrightarrow>
        events_of (sh_allocation (sq_handle q)) (ig_routed w)
          = events_of (sh_allocation (sq_handle q)) (ig_taken w) @ map dl_event (sq_queue q)"
    "prefix (events_of a (ig_taken w)) (events_of a (ig_routed w))"
  using assms by (simp_all add: logs_ok_def)

lemma logs_ok_quiet:
  assumes "logs_ok w" "ig_routed w' = ig_routed w" "ig_taken w' = ig_taken w"
    "dp_next_allocation (ig_dispatch w) \<le> dp_next_allocation (ig_dispatch w')"
    "\<And>sid q. hm_get (dp_sessions (ig_dispatch w')) sid = Some q \<Longrightarrow>
       \<exists>p. hm_get (dp_sessions (ig_dispatch w)) sid = Some p \<and> sq_handle p = sq_handle q \<and> sq_queue p = sq_queue q"
  shows "logs_ok w'"
proof (rule logs_okI)
  show "fst x \<le> dp_next_allocation (ig_dispatch w')" if "x \<in> set (ig_routed w')" for x
    using logs_okD(1) [OF assms(1), of x] assms(2,4) that by simp
  show "events_of (sh_allocation (sq_handle q)) (ig_routed w')
      = events_of (sh_allocation (sq_handle q)) (ig_taken w') @ map dl_event (sq_queue q)"
    if q: "hm_get (dp_sessions (ig_dispatch w')) sid = Some q" for sid q
  proof -
    from assms(5) [OF q] obtain p where p: "hm_get (dp_sessions (ig_dispatch w)) sid = Some p" "sq_handle p = sq_handle q"
      "sq_queue p = sq_queue q" by auto
    from logs_okD(2) [OF assms(1) p(1)] p(2,3) assms(2,3) show ?thesis by simp
  qed
  show "prefix (events_of a (ig_taken w')) (events_of a (ig_routed w'))" for a
    using logs_okD(3) [OF assms(1)] assms(2,3) by simp
qed

lemma held_parts: "held d out \<Longrightarrow> dispatch_ok d" "held d out \<Longrightarrow> guards_ok d out" "held d out \<Longrightarrow> accounts_ok d out"
  by (simp_all add: held_def)

lemma registered_logs:
  assumes "logs_ok w" "held (ig_dispatch w) (ig_out w)" "dp_next_allocation (ig_dispatch w) \<noteq> - 1"
    "h = fresh_handle sid inc (ig_dispatch w)"
  shows "logs_ok (w\<lparr>ig_dispatch := replaced h (ig_dispatch w)\<rparr>)"
proof -
  let ?w = "w\<lparr>ig_dispatch := replaced h (ig_dispatch w)\<rparr>"
  have l: "dp_next_allocation (ig_dispatch w) < sh_allocation h"
    using next_allocation_less [OF assms(3)] assms(4) by (simp add: fresh_handle_def)
  with assms(1) have r: "events_of (sh_allocation h) (ig_routed w) = []"
    by (auto simp: logs_ok_def events_of_def filter_empty_conv)
  with assms(1) have t: "events_of (sh_allocation h) (ig_taken w) = []"
    unfolding logs_ok_def by (metis prefix_bot.extremum_uniqueI)
  have n: "dp_next_allocation (replaced h (ig_dispatch w)) = sh_allocation h" by (simp add: replaced_def)
  show ?thesis
  proof (rule logs_okI)
    show "fst x \<le> dp_next_allocation (ig_dispatch ?w)"
      if "x \<in> set (ig_routed ?w)" for x
      using logs_okD(1) [OF assms(1), of x] that l n by simp
    show "events_of (sh_allocation (sq_handle q)) (ig_routed ?w)
        = events_of (sh_allocation (sq_handle q)) (ig_taken ?w) @ map dl_event (sq_queue q)"
      if "hm_get (dp_sessions (ig_dispatch ?w)) k = Some q" for k q
      using that logs_okD(2) [OF assms(1), of k q] r t by (auto simp: replaced_get fresh_queue_def split: if_splits)
  qed (use logs_okD(3) [OF assms(1)] in simp)
qed

lemma routed_logs:
  assumes "logs_ok w" "held (ig_dispatch w) (ig_out w)" "hm_get (dp_sessions (ig_dispatch w)) (sh_session_id h) = Some q" "sq_handle q = h"
  shows "logs_ok (w\<lparr>ig_dispatch := routed h c b e q (ig_dispatch w), ig_routed := ig_routed w @ [(sh_allocation h, e)]\<rparr>)"
proof -
  let ?w = "w\<lparr>ig_dispatch := routed h c b e q (ig_dispatch w), ig_routed := ig_routed w @ [(sh_allocation h, e)]\<rparr>"
  note d = held_parts(1) [OF assms(2)]
  have other: "sh_allocation (sq_handle y) \<noteq> sh_allocation h"
    if "hm_get (dp_sessions (ig_dispatch w)) x = Some y" "x \<noteq> sh_session_id h" for x y
    using same_allocation [OF d that(1) assms(3)] that(2) assms(4) by auto
  show ?thesis
  proof (rule logs_okI)
    show "fst x \<le> dp_next_allocation (ig_dispatch ?w)"
      if "x \<in> set (ig_routed ?w)" for x
      using that logs_okD(1) [OF assms(1), of x] queue_okD(4) [OF d assms(3)] assms(4) by (auto simp: routed_def)
  next
    fix x y
    assume y: "hm_get (dp_sessions (ig_dispatch ?w)) x = Some y"
    show "events_of (sh_allocation (sq_handle y)) (ig_routed ?w)
        = events_of (sh_allocation (sq_handle y)) (ig_taken ?w)
          @ map dl_event (sq_queue y)"
    proof (cases "x = sh_session_id h")
      case True
      with y assms(4) have "y = routed_queue h c b e q" by (simp add: routed_def put_queue_get)
      with logs_okD(2) [OF assms(1,3)] assms(4) show ?thesis by (simp add: routed_delivery_def)
    next
      case False
      with y assms(4) have o: "hm_get (dp_sessions (ig_dispatch w)) x = Some y" by (simp add: routed_def put_queue_get)
      from logs_okD(2) [OF assms(1) o] other [OF o False] show ?thesis by simp
    qed
  next
    show "prefix (events_of a (ig_taken ?w))
        (events_of a (ig_routed ?w))" for a
      using logs_okD(3) [OF assms(1), of a] by (simp add: prefix_prefix)
  qed
qed


lemma taken_logs:
  assumes "logs_ok w" "held (ig_dispatch w) (ig_out w)" "hm_get (dp_sessions (ig_dispatch w)) (sh_session_id h) = Some q"
    "sq_handle q = h" "sq_queue q \<noteq> []"
  shows "logs_ok (w\<lparr>ig_dispatch := taken bs q rest (ig_dispatch w), ig_out := out',
      ig_taken := ig_taken w @ [(allocation_of (taken_delivery q), dl_event (taken_delivery q))]\<rparr>)"
proof -
  let ?w = "w\<lparr>ig_dispatch := taken bs q rest (ig_dispatch w), ig_out := out',
      ig_taken := ig_taken w @ [(allocation_of (taken_delivery q), dl_event (taken_delivery q))]\<rparr>"
  note d = held_parts(1) [OF assms(2)]
  from assms(5) obtain dl dls where q: "sq_queue q = dl # dls" by (cases "sq_queue q") auto
  then have e: "dl_event (taken_delivery q) = dl_event dl" by (simp add: taken_delivery_def)
  note a = taken_delivery_fields(1) [OF d assms(3,5)]
  have own: "events_of (sh_allocation h) (ig_routed w) = events_of (sh_allocation h) (ig_taken w) @ dl_event dl # map dl_event dls"
    using logs_okD(2) [OF assms(1,3)] assms(4) q by simp
  have other: "sh_allocation (sq_handle y) \<noteq> sh_allocation h"
    if "hm_get (dp_sessions (ig_dispatch w)) x = Some y" "x \<noteq> sh_session_id h" for x y
    using same_allocation [OF d that(1) assms(3)] that(2) assms(4) by auto
  show ?thesis
  proof (rule logs_okI)
    show "fst x \<le> dp_next_allocation (ig_dispatch ?w)" if "x \<in> set (ig_routed ?w)" for x
      using that logs_okD(1) [OF assms(1), of x] by (simp add: taken_def)
    show "prefix (events_of x (ig_taken ?w)) (events_of x (ig_routed ?w))" for x
      using own logs_okD(3) [OF assms(1), of x] assms(4) a e by (auto simp: prefix_def)
  next
    fix x y
    assume y: "hm_get (dp_sessions (ig_dispatch ?w)) x = Some y"
    show "events_of (sh_allocation (sq_handle y)) (ig_routed ?w) = events_of (sh_allocation (sq_handle y)) (ig_taken ?w) @ map dl_event (sq_queue y)"
    proof (cases "x = sh_session_id h")
      case True
      with y assms(4) have "y = taken_queue q" by (simp add: taken_def put_queue_get)
      with own assms(4) a e q show ?thesis by simp
    next
      case False
      with y assms(4) have o: "hm_get (dp_sessions (ig_dispatch w)) x = Some y" by (simp add: taken_def put_queue_get)
      from logs_okD(2) [OF assms(1) o] other [OF o False] a assms(4) show ?thesis by simp
    qed
  qed
qed

lemma finished_logs:
  assumes "logs_ok w" "held (ig_dispatch w) (ig_out w)" "dl \<in> set (ig_out w)"
  shows "logs_ok (w\<lparr>ig_dispatch := drop_guard dl (ig_dispatch w), ig_out := out'\<rparr>)"
  using held_parts(1,2) [OF assms(2)] assms(3)
proof (cases rule: drop_guard_cases)
  case (live q)
  show ?thesis
    by (rule logs_ok_quiet [OF assms(1)]) (use live(1,2) in \<open>auto simp: live(3) put_queue_get split: if_splits\<close>)
next
  case gone
  show ?thesis by (rule logs_ok_quiet [OF assms(1)]) (auto simp: gone(2) freed_def)
qed

lemma ingress_ok_do:
  assumes "ingress_ok w"
  shows "ingress_ok (dispatch_do x w)"
proof -
  have w: "held (ig_dispatch w) (ig_out w)" "logs_ok w" "\<not> ig_crashed w" using assms by (simp_all add: ingress_ok_def)
  note d = held_parts(1) [OF w(1)]
  show ?thesis
  proof (cases x)
    case (DoRegister sid inc)
    from d show ?thesis
    proof (cases rule: register_queue_cases [of "ig_dispatch w" sid inc])
      case (same r)
      then show ?thesis using assms DoRegister by (cases r) auto
    next
      case fresh
      with replaced_held [OF w(1) fresh(2) refl] registered_logs [OF w(2,1) fresh(2) refl] w(3) DoRegister show ?thesis
        by (simp add: ingress_ok_def)
    qed
  next
    case (DoRoute h c b e)
    show ?thesis
    proof (cases rule: try_route_cases [of h c b e "ig_dispatch w"])
      case (bad y)
      then show ?thesis using assms DoRoute by simp
    next
      case (good q)
      with routed_held [OF w(1) good(2,3)] routed_logs [OF w(2,1) good(2,3)] w(3) DoRoute show ?thesis
        by (simp add: ingress_ok_def)
    qed
  next
    case DoTake
    from d show ?thesis
    proof (cases rule: try_next_cases)
      case (free bs h rest q)
      with taken_held [OF w(1) free(2,4-7)] taken_logs [OF w(2,1) free(5-7)] w(3) DoTake show ?thesis
        by (simp add: ingress_ok_def)
    qed (use assms DoTake in simp_all)
  next
    case (DoFinish i)
    show ?thesis
    proof (cases "i < length (ig_out w)")
      case True
      then have s: "take i (ig_out w) @ ig_out w ! i # drop (Suc i) (ig_out w) = ig_out w" by (rule id_take_nth_drop [symmetric])
      from w(1) have "held (drop_guard (ig_out w ! i) (ig_dispatch w)) (take i (ig_out w) @ drop (Suc i) (ig_out w))"
        by (subst (asm) s [symmetric]) (rule finished_held)
      with finished_logs [OF w(2,1)] True w(3) DoFinish show ?thesis by (simp add: ingress_ok_def)
    qed (use assms DoFinish in simp)
  next
    case (DoRemove h)
    from d show ?thesis
    proof (cases rule: remove_queue_cases [of "ig_dispatch w" h])
      case (bad y)
      then show ?thesis using assms DoRemove by simp
    next
      case (good q)
      have "logs_ok (w\<lparr>ig_dispatch := forgotten h q (ig_dispatch w)\<rparr>)"
        by (rule logs_ok_quiet [OF w(2)]) (auto simp: forgotten_def hm.get_del split: if_splits)
      with forgotten_held [OF w(1) good(1,2)] good w(3) DoRemove show ?thesis by (simp add: ingress_ok_def)
    qed
  next
    case DoClose
    have "logs_ok (w\<lparr>ig_dispatch := closed_down (ig_dispatch w)\<rparr>)"
      by (rule logs_ok_quiet [OF w(2)]) (auto simp: closed_down_def hm.get_nil)
    with closed_down_held [OF w(1)] close_dispatch_eq [OF d] w(3) DoClose show ?thesis by (simp add: ingress_ok_def)
  qed
qed

interpretation queues: preserving dispatch_do ingress_ok
  by unfold_locales (rule ingress_ok_do)

lemma ingress_ok_run: "ingress_ok (dispatch_run epoch identity ops)"
proof -
  have "ingress_ok (ingress_new epoch identity)"
    using held_new [of epoch identity]
    by (auto simp: ingress_ok_def ingress_new_def logs_ok_def dispatch_new_def hm.get_nil)
  from queues.run_keeps [OF this] show ?thesis by (simp add: dispatch_run_def)
qed

section \<open>Properties\<close>

text \<open>
  (C23) The queues are first in, first out. At any point of any run, whatever handles the callers
  present, nothing has panicked, at most one delivery of an allocation is out at a time, and what an
  allocation has handed out so far is what it accepted first, in the same order.
\<close>

theorem dispatch_is_fifo:
  fixes epoch :: string and identity :: nat and ops :: "'e dispatch_op list"
  defines "w \<equiv> dispatch_run epoch identity ops"
  shows "\<not> ig_crashed w \<and> distinct (map allocation_of (ig_out w)) \<and>
     prefix (events_of a (ig_taken w)) (events_of a (ig_routed w))"
proof -
  have "ingress_ok w" unfolding w_def by (rule ingress_ok_run)
  then show ?thesis by (simp add: ingress_ok_def held_def guards_ok_def logs_ok_def)
qed

definition all_queued :: "'e dispatch \<Rightarrow> 'e delivery list" where
  "all_queued d = concat (map (\<lambda>e. sq_queue (snd e)) (dp_sessions d))"

text \<open>
  (C24) The accounts are exact. At any point of any run the counters of a class hold what the
  deliveries in the queues and the guards that are out add up to, over all sessions and for each
  registered one; so they are zero when nothing is queued and no guard is out, whatever was
  replaced, removed or dropped late before.
\<close>

theorem dispatch_accounts_exact:
  fixes epoch :: string and identity :: nat and ops :: "'e dispatch_op list"
  defines "w \<equiv> dispatch_run epoch identity ops"
  shows "pool_get c (dp_global (ig_dispatch w)) = usage_in c (all_queued (ig_dispatch w) @ ig_out w) \<and>
     pred_option (\<lambda>q. session_usage (sq_handle q) c (ig_dispatch w) \<in> {Err DispatchClosed,
          Ok (usage_in c (sq_queue q @ out_of (sh_allocation (sq_handle q)) (ig_out w)))})
       (hm_get (dp_sessions (ig_dispatch w)) sid)"
proof -
  have "ingress_ok w" unfolding w_def by (rule ingress_ok_run)
  then have h: "dispatch_ok (ig_dispatch w)" "accounts_ok (ig_dispatch w) (ig_out w)" by (simp_all add: ingress_ok_def held_def)
  have "pred_option (\<lambda>q. session_usage (sq_handle q) c (ig_dispatch w) \<in> {Err DispatchClosed,
          Ok (usage_in c (sq_queue q @ out_of (sh_allocation (sq_handle q)) (ig_out w)))})
       (hm_get (dp_sessions (ig_dispatch w)) sid)"
  proof (cases "hm_get (dp_sessions (ig_dispatch w)) sid")
    case (Some q)
    from h(2) Some have "pool_get c (sq_accounting q) = usage_in c (sq_queue q @ out_of (sh_allocation (sq_handle q)) (ig_out w))"
      by (simp add: accounts_ok_def)
    with Some queue_okD(1-3) [OF h(1) Some] show ?thesis
      by (simp add: session_usage_def validate_handle_def)
  qed simp
  with h(2) show ?thesis
    by (simp add: accounts_ok_def usage_in_def all_queued_def queued_items_def queued_bytes_def comp_def)
qed

text \<open>The handles in front of a waiting session are busy or take their own turn and go behind it.\<close>

definition takes :: "nat \<Rightarrow> 'e ingress \<Rightarrow> 'e ingress" where
  "takes n w = (dispatch_do DoTake ^^ n) w"

lemma takes_Suc: "takes (Suc n) w = takes n (dispatch_do DoTake w)"
  by (simp add: takes_def funpow_swap1)

lemma served_in_turn:
  assumes "ingress_ok w" "dp_closed (ig_dispatch w) = False" "dp_ready (ig_dispatch w) = front @ h # rest"
    "\<not> is_busy (ig_dispatch w) h" "hm_get (dp_sessions (ig_dispatch w)) (sh_session_id h) = Some q" "sq_handle q = h"
  shows "\<exists>n \<le> length front. taken_delivery q \<in> set (ig_out (takes (Suc n) w))"
  using assms
proof (induction "length front" arbitrary: w front rest rule: less_induct)
  case less
  let ?d = "ig_dispatch w"
  have d: "dispatch_ok ?d" using less.prems(1) by (simp add: ingress_ok_def held_def)
  show ?case
  proof (cases "list_all (is_busy ?d) front")
    case True
    from try_next_free [OF d less.prems(2,3) True less.prems(4-6)] show ?thesis
      by (intro exI [of _ 0]) (simp add: takes_def)
  next
    case False
    then obtain bs g ds where f: "front = bs @ g # ds" "list_all (is_busy ?d) bs" "\<not> is_busy ?d g"
      using split_list_first_prop [of front "\<lambda>h. \<not> is_busy ?d h"] by (auto simp: list_all_iff)
    from less.prems(3) f(1) have r: "dp_ready ?d = bs @ g # (ds @ h # rest)" by simp
    from ready_registered [OF d, of g] r obtain p where p: "hm_get (dp_sessions ?d) (sh_session_id g) = Some p" "sq_handle p = g" by auto
    have "distinct (dp_ready ?d)" using d by (simp add: dispatch_ok_def)
    with r have "g \<noteq> h" by auto
    have sid: "sh_session_id g \<noteq> sh_session_id h"
    proof
      assume "sh_session_id g = sh_session_id h"
      with p(1) less.prems(5) have "p = q" by simp
      with p(2) less.prems(6) \<open>g \<noteq> h\<close> show False by simp
    qed
    with same_allocation [OF d p(1) less.prems(5)] p(2) less.prems(6) have al: "sh_allocation g \<noteq> sh_allocation h" by auto
    let ?w = "dispatch_do DoTake w"
    have t: "ig_dispatch ?w = taken bs p (ds @ h # rest) ?d"
      using try_next_free [OF d less.prems(2) r f(2,3) p] by simp
    have "\<exists>n \<le> length ds. taken_delivery q \<in> set (ig_out (takes (Suc n) ?w))"
    proof (rule less.hyps)
      show "length ds < length front" using f(1) by simp
      show "ingress_ok ?w" by (rule ingress_ok_do [OF less.prems(1)])
      show "dp_closed (ig_dispatch ?w) = False" unfolding t using less.prems(2) by (simp add: taken_def)
      show "dp_ready (ig_dispatch ?w) = ds @ h # (rest @ bs @ (if tl (sq_queue p) = [] then [] else [sq_handle p]))"
        unfolding t by (simp add: taken_def)
      show "\<not> is_busy (ig_dispatch ?w) h" unfolding t using less.prems(4) al p(2) by (simp add: taken_def is_busy_def)
      show "hm_get (dp_sessions (ig_dispatch ?w)) (sh_session_id h) = Some q"
        unfolding t using less.prems(5) sid p(2) by (simp add: taken_def put_queue_get)
    qed (rule less.prems(6))
    then obtain n where n: "n \<le> length ds" "taken_delivery q \<in> set (ig_out (takes (Suc n) ?w))" by auto
    from n(2) have "taken_delivery q \<in> set (ig_out (takes (Suc (Suc n)) w))" by (simp only: takes_Suc)
    with n(1) f(1) show ?thesis by (intro exI [of _ "Suc n"]) simp
  qed
qed

text \<open>
  (C25) No session starves. At any point of any run, if a session has work queued and no delivery of
  it is out, then draining the dispatcher serves its oldest event within as many calls as there are
  sessions ready, however busy the others are; nobody has to route anything for that.
\<close>

theorem waiting_session_is_served:
  fixes epoch :: string and identity :: nat and ops :: "'e dispatch_op list"
  defines "w \<equiv> dispatch_run epoch identity ops"
  assumes "hm_get (dp_sessions (ig_dispatch w)) sid = Some q" "sq_queue q \<noteq> []"
    "sh_allocation (sq_handle q) \<notin> allocation_of ` set (ig_out w)" "dp_closed (ig_dispatch w) = False"
  shows "\<exists>n \<le> length (dp_ready (ig_dispatch w)). taken_delivery q \<in> set (ig_out (takes n w))"
proof -
  have w: "ingress_ok w" unfolding w_def by (rule ingress_ok_run)
  then have d: "dispatch_ok (ig_dispatch w)" "guards_ok (ig_dispatch w) (ig_out w)" by (simp_all add: ingress_ok_def held_def)
  let ?h = "sq_handle q"
  have s: "sh_session_id ?h = sid" by (rule queue_okD(1) [OF d(1) assms(2)])
  with ready_iff [OF d(1), of ?h] assms(2,3) have "?h \<in> set (dp_ready (ig_dispatch w))" by simp
  then obtain front rest where r: "dp_ready (ig_dispatch w) = front @ ?h # rest" by (meson split_list)
  have "\<not> is_busy (ig_dispatch w) ?h" using d(2) assms(4) by (simp add: guards_ok_def is_busy_def)
  from served_in_turn [OF w assms(5) r this assms(2) [folded s] refl]
  obtain n where "n \<le> length front" "taken_delivery q \<in> set (ig_out (takes (Suc n) w))" by blast
  with r show ?thesis by (intro exI [of _ "Suc n"]) simp
qed

definition sample_ops :: "nat dispatch_op list" where
  "sample_ops =
     (let h1 = \<lparr>sh_epoch = ''e'', sh_session_id = ''a'', sh_incarnation = 1, sh_allocation = 1, sh_registry = 0\<rparr>;
          h2 = \<lparr>sh_epoch = ''e'', sh_session_id = ''b'', sh_incarnation = 1, sh_allocation = 2, sh_registry = 0\<rparr>
      in [DoRegister ''a'' 1, DoRegister ''b'' 1, DoRoute h1 Ordinary 7 10, DoRoute h1 Reserved 0 11, DoTake,
          DoRoute h2 Ordinary 3 20])"

lemma waiting_session_is_served_witness:
  "\<exists>n \<le> 2. (\<lparr>dl_handle = \<lparr>sh_epoch = ''e'', sh_session_id = ''b'', sh_incarnation = 1, sh_allocation = 2, sh_registry = 0\<rparr>,
       dl_event = 20, dl_class = Ordinary, dl_bytes = 3, dl_busy = Some 2\<rparr> :: nat delivery)
     \<in> set (ig_out (takes n (dispatch_run ''e'' 0 sample_ops)))"
proof -
  have q: "hm_get (dp_sessions (ig_dispatch (dispatch_run ''e'' 0 sample_ops))) ''b''
      = Some \<lparr>sq_handle = \<lparr>sh_epoch = ''e'', sh_session_id = ''b'', sh_incarnation = 1, sh_allocation = 2, sh_registry = 0\<rparr>,
          sq_accounting = \<lparr>cp_ordinary = \<lparr>qu_items = 1, qu_bytes = 3\<rparr>, cp_reserved = no_usage\<rparr>,
          sq_queue = [\<lparr>dl_handle = \<lparr>sh_epoch = ''e'', sh_session_id = ''b'', sh_incarnation = 1, sh_allocation = 2, sh_registry = 0\<rparr>,
            dl_event = 20, dl_class = Ordinary, dl_bytes = 3, dl_busy = None\<rparr>], sq_scheduled = True\<rparr>"
    by code_simp
  have o: "2 \<notin> allocation_of ` set (ig_out (dispatch_run ''e'' 0 sample_ops))" by code_simp
  have c: "dp_closed (ig_dispatch (dispatch_run ''e'' 0 sample_ops)) = False" by code_simp
  have l: "length (dp_ready (ig_dispatch (dispatch_run ''e'' 0 sample_ops))) = 2" by code_simp
  from waiting_session_is_served [OF q _ _ c] o l show ?thesis by (simp add: taken_delivery_def)
qed
end
