(* ===== verification/Elicitation_Validation.thy ===== *)
theory Elicitation_Validation
  imports Semantic
begin

text \<open>
  What an Agent may ask in a form or a URL elicitation and what may be answered
  (\<open>src/src/elicitation_validation.rs\<close>). Errors are the messages of the code. The URL parser and the
  regular expressions are those of the \<open>url\<close> and \<open>regex\<close> crates and are parameters; a number is
  compared as the \<open>f64\<close> the code reads it as.
\<close>

section \<open>Parameters\<close>

text \<open>
  \<open>ff_scheme\<close> is the scheme \<open>Url::parse\<close> finds, if it accepts the text; \<open>ff_regex\<close> is \<open>Regex::new\<close>, and
  \<open>is_match\<close> of the expression it returns.
\<close>

record form_parsers =
  ff_scheme :: "string \<Rightarrow> string option"
  ff_regex :: "string \<Rightarrow> (string \<Rightarrow> bool) option"

section \<open>Numbers\<close>

text \<open>
  A finite \<open>f64\<close> is \<open>m * 2^e\<close>; it is modelled by the pair \<open>(m, e)\<close>. An integer of 64 bits is first
  rounded to 53 significant bits, half to even, as \<open>as f64\<close> does.
\<close>

type_synonym f64 = "int \<times> int"

definition round_f64 :: "int \<Rightarrow> int" where
  "round_f64 n =
     (case find (\<lambda>e. n < 2 ^ (53 + e)) [0..<12] of
        None \<Rightarrow> n
      | Some e \<Rightarrow>
          (let q = n div 2 ^ e; r = n mod 2 ^ e
           in (if 2 * r > 2 ^ e \<or> 2 * r = 2 ^ e \<and> odd q then q + 1 else q) * 2 ^ e))"

fun finite_f64 :: "json \<Rightarrow> f64 option" where
  "finite_f64 (JNum (PosInt n)) = Some (round_f64 (uint n), 0)"
| "finite_f64 (JNum (NegInt i)) = Some (sgn i * round_f64 \<bar>i\<bar>, 0)"
| "finite_f64 (JNum (Float b)) =
     (let m = uint b mod 2 ^ 52; e = uint b div 2 ^ 52 mod 2 ^ 11; s = (if uint b < 2 ^ 63 then 1 else - 1)
      in if e = 2 ^ 11 - 1 then None
         else if e = 0 then Some (s * m, - 1074)
         else Some (s * (2 ^ 52 + m), e - 1075))"
| "finite_f64 _ = None"

definition f64_le :: "f64 \<Rightarrow> f64 \<Rightarrow> bool" where
  "f64_le x y =
     (let k = min (snd x) (snd y) in fst x * 2 ^ nat (snd x - k) \<le> fst y * 2 ^ nat (snd y - k))"

text \<open>\<open>fract() == 0.0\<close>, the integer itself, and the absolute value\<close>

definition whole_f64 :: "f64 \<Rightarrow> bool" where
  "whole_f64 x \<longleftrightarrow> 0 \<le> snd x \<or> fst x mod 2 ^ nat (- snd x) = 0"

definition f64_nat :: "f64 \<Rightarrow> nat" where
  "f64_nat x = nat (if 0 \<le> snd x then fst x * 2 ^ nat (snd x) else fst x div 2 ^ nat (- snd x))"

definition safe_f64 :: f64 where
  "safe_f64 = (uint max_safe_integer, 0)"

section \<open>Characters\<close>

text \<open>\<open>char_count\<close> is \<open>chars().count()\<close>; \<open>code_points\<close> are the characters of UTF-8 text themselves.\<close>

definition continuation_byte :: "char \<Rightarrow> bool" where
  "continuation_byte c \<longleftrightarrow> 128 \<le> (of_char c :: nat) \<and> (of_char c :: nat) < 192"

definition char_count :: "string \<Rightarrow> nat" where
  "char_count s = length (filter (\<lambda>c. \<not> continuation_byte c) s)"

fun code_points :: "string \<Rightarrow> nat list" where
  "code_points [] = []"
| "code_points (c # cs) =
     (let b = of_char c :: nat;
          k = (if b < 192 then 0 else if b < 224 then 1 else if b < 240 then 2 else 3);
          lead = (if b < 192 then b else if b < 224 then b - 192 else if b < 240 then b - 224 else b - 240)
      in foldl (\<lambda>x c. x * 64 + (of_char c :: nat) mod 64) lead (take k cs) # code_points (drop k cs))"

text \<open>\<open>char::is_whitespace\<close>: the Unicode property \<open>White_Space\<close>.\<close>

definition unicode_whitespace :: "nat \<Rightarrow> bool" where
  "unicode_whitespace x \<longleftrightarrow>
     9 \<le> x \<and> x \<le> 13 \<or> x \<in> {0x20, 0x85, 0xA0, 0x1680, 0x2028, 0x2029, 0x202F, 0x205F, 0x3000} \<or>
     0x2000 \<le> x \<and> x \<le> 0x200A"

section \<open>Reading a schema\<close>

fun try_map :: "('a \<Rightarrow> ('e, 'b) result) \<Rightarrow> 'a list \<Rightarrow> ('e, 'b list) result" where
  "try_map f [] = Ok []"
| "try_map f (x # xs) = res_bind (f x) (\<lambda>y. res_bind (try_map f xs) (\<lambda>ys. Ok (y # ys)))"

definition non_null :: "json option \<Rightarrow> json option" where
  "non_null v = (case v of Some x \<Rightarrow> if is_null x then None else Some x | None \<Rightarrow> None)"

definition invalid_type :: "string \<Rightarrow> string \<Rightarrow> string" where
  "invalid_type name expected = ''Elicitation field '' @ name @ '' must be '' @ expected"

definition elicit_string :: "json \<Rightarrow> string \<Rightarrow> string \<Rightarrow> string validation" where
  "elicit_string v field subject = ok_or (subject @ '' is missing '' @ field) (get_str v field)"

definition string_array :: "json option \<Rightarrow> string \<Rightarrow> string list validation" where
  "string_array v subject =
     (case non_null v of
        None \<Rightarrow> Ok []
      | Some x \<Rightarrow> res_bind (ok_or (subject @ '' must be an array'') (as_array x)) (\<lambda>xs.
          try_map (\<lambda>x. ok_or (subject @ '' must contain strings'') (as_str x)) xs))"

definition non_empty_string_choices :: "json option \<Rightarrow> string list option validation" where
  "non_empty_string_choices v =
     (case non_null v of
        None \<Rightarrow> Ok None
      | Some x \<Rightarrow> res_bind (ok_or ''Elicitation choices must be an array'' (as_array x)) (\<lambda>xs.
          if xs = [] then Ok None
          else res_bind (try_map (\<lambda>x. ok_or ''Elicitation choices must be strings'' (as_str x)) xs) (\<lambda>ys. Ok (Some ys))))"

definition non_empty_object_choices :: "json option \<Rightarrow> string \<Rightarrow> string list option validation" where
  "non_empty_object_choices v field =
     (case non_null v of
        None \<Rightarrow> Ok None
      | Some x \<Rightarrow> res_bind (ok_or ''Elicitation choices must be an array'' (as_array x)) (\<lambda>xs.
          if xs = [] then Ok None
          else res_bind (try_map (\<lambda>x. ok_or ''Elicitation choices must contain string constants'' (get_str x field)) xs)
            (\<lambda>ys. Ok (Some ys))))"

definition optional_safe_length :: "json option \<Rightarrow> nat option validation" where
  "optional_safe_length v =
     (case non_null v of
        None \<Rightarrow> Ok None
      | Some x \<Rightarrow>
          (case finite_f64 x of
             Some n \<Rightarrow>
               if f64_le (0, 0) n \<and> whole_f64 n \<and> f64_le n safe_f64 then Ok (Some (f64_nat n))
               else Err ''invalid non-negative safe integer''
           | None \<Rightarrow> Err ''invalid non-negative safe integer''))"

definition optional_finite_number :: "json option \<Rightarrow> string \<Rightarrow> string \<Rightarrow> f64 option validation" where
  "optional_finite_number v name label =
     (case non_null v of
        None \<Rightarrow> Ok None
      | Some x \<Rightarrow> res_bind (ok_or (''Elicitation field '' @ name @ '' has a non-finite '' @ label) (finite_f64 x))
          (\<lambda>n. Ok (Some n)))"

text \<open>\<open>a.zip(b).is_some_and(|(a, b)| a > b)\<close> and \<open>a.or(b)\<close>\<close>

definition inverted :: "('a \<Rightarrow> 'a \<Rightarrow> bool) \<Rightarrow> 'a option \<Rightarrow> 'a option \<Rightarrow> bool" where
  "inverted le a b = (case (a, b) of (Some x, Some y) \<Rightarrow> \<not> le x y | _ \<Rightarrow> False)"

definition option_or :: "'a option \<Rightarrow> 'a option \<Rightarrow> 'a option" where
  "option_or a b = (case a of Some x \<Rightarrow> Some x | None \<Rightarrow> b)"

section \<open>Formats\<close>

text \<open>\<open>str::split\<close> with a character, and \<open>str::parse::<u32>\<close>, which takes a leading plus sign.\<close>

fun split_on :: "char \<Rightarrow> string \<Rightarrow> string list" where
  "split_on d [] = [[]]"
| "split_on d (c # cs) =
     (if c = d then [] # split_on d cs
      else case split_on d cs of p # ps \<Rightarrow> (c # p) # ps | [] \<Rightarrow> [[c]])"

definition ascii_digit :: "char \<Rightarrow> bool" where
  "ascii_digit c \<longleftrightarrow> 48 \<le> (of_char c :: nat) \<and> (of_char c :: nat) \<le> 57"

definition parse_u32 :: "string \<Rightarrow> int option" where
  "parse_u32 s =
     (let ds = (if length s > 1 \<and> hd s = CHR ''+'' then tl s else s);
          n = foldl (\<lambda>n c. n * 10 + ((of_char c :: int) - 48)) 0 ds
      in if ds \<noteq> [] \<and> list_all ascii_digit ds \<and> n < 2 ^ 32 then Some n else None)"

definition valid_date :: "string \<Rightarrow> bool" where
  "valid_date v =
     (case split_on (CHR ''-'') v of
        [y, m, d] \<Rightarrow>
          length y = 4 \<and> length m = 2 \<and> length d = 2 \<and>
          (case (parse_u32 y, parse_u32 m, parse_u32 d) of
             (Some year, Some month, Some day) \<Rightarrow>
               (let leap = (4 dvd year \<and> (\<not> 100 dvd year \<or> 400 dvd year));
                    last = (if month \<in> {1, 3, 5, 7, 8, 10, 12} then 31
                            else if month \<in> {4, 6, 9, 11} then 30
                            else if month = 2 then (if leap then 29 else 28)
                            else 0)
                in 1 \<le> day \<and> day \<le> last)
           | _ \<Rightarrow> False)
      | _ \<Rightarrow> False)"

text \<open>
  The zone is the last six bytes, cut off with \<open>&time[split..]\<close>, which panics where they do not begin at
  a character.
\<close>

definition split_zone :: "string \<Rightarrow> (string, (string \<times> string) option) result" where
  "split_zone time =
     (if time \<noteq> [] \<and> last time = CHR ''Z'' then Ok (Some (butlast time, ''Z''))
      else if 6 \<le> length time
      then let k = length time - 6; zone = drop k time
           in if continuation_byte (hd zone) then Panic
              else if hd zone = CHR ''+'' \<or> hd zone = CHR ''-'' then Ok (Some (take k time, zone))
              else Ok None
      else Ok None)"

definition clock_ok :: "string \<Rightarrow> bool" where
  "clock_ok clock =
     (case split_on (CHR '':'') (takeWhile (\<lambda>c. c \<noteq> CHR ''.'') clock) of
        [h, m, s] \<Rightarrow>
          length h = 2 \<and> length m = 2 \<and> length s = 2 \<and>
          (case (parse_u32 h, parse_u32 m, parse_u32 s) of
             (Some hour, Some minute, Some second) \<Rightarrow> hour \<le> 23 \<and> minute \<le> 59 \<and> second \<le> 59
           | _ \<Rightarrow> False) \<and>
          (CHR ''.'' \<in> set clock \<longrightarrow>
             (let fraction = rev (takeWhile (\<lambda>c. c \<noteq> CHR ''.'') (rev clock))
              in fraction \<noteq> [] \<and> list_all ascii_digit fraction))
      | _ \<Rightarrow> False)"

definition zone_ok :: "string \<Rightarrow> bool" where
  "zone_ok zone =
     (zone = ''Z'' \<or>
      (case split_on (CHR '':'') (tl zone) of
         [h, m] \<Rightarrow> length h = 2 \<and> length m = 2 \<and> pred_option (\<lambda>hour. hour \<le> 23) (parse_u32 h) \<and> parse_u32 h \<noteq> None \<and>
           pred_option (\<lambda>minute. minute \<le> 59) (parse_u32 m) \<and> parse_u32 m \<noteq> None
       | _ \<Rightarrow> False))"

definition valid_date_time :: "string \<Rightarrow> bool validation" where
  "valid_date_time v =
     (if CHR ''T'' \<notin> set v then Ok False
      else let date = takeWhile (\<lambda>c. c \<noteq> CHR ''T'') v; time = tl (dropWhile (\<lambda>c. c \<noteq> CHR ''T'') v)
           in if \<not> valid_date date then Ok False
              else res_bind (split_zone time) (\<lambda>parts.
                case parts of
                  None \<Rightarrow> Ok False
                | Some (clock, zone) \<Rightarrow> Ok (clock_ok clock \<and> zone_ok zone)))"

definition email_pattern :: string where
  "email_pattern = ''^[^'' @ [CHR 0x5C] @ ''s@]+@[^'' @ [CHR 0x5C] @ ''s@]+'' @ [CHR 0x5C] @ ''.[^'' @ [CHR 0x5C] @ ''s@]+$''"

definition matches_format :: "form_parsers \<Rightarrow> string \<Rightarrow> string \<Rightarrow> bool validation" where
  "matches_format F v format =
     (if format = ''email'' then Ok (case ff_regex F email_pattern of Some matches \<Rightarrow> matches v | None \<Rightarrow> False)
      else if format = ''uri'' then Ok (case ff_scheme F v of Some scheme \<Rightarrow> scheme \<noteq> [] | None \<Rightarrow> False)
      else if format = ''date'' then Ok (valid_date v)
      else if format = ''date-time'' then valid_date_time v
      else Ok False)"


section \<open>Patterns\<close>

fun has_back_reference :: "string \<Rightarrow> bool" where
  "has_back_reference (a # b # cs) =
     ((a = CHR 0x5C \<and> 49 \<le> (of_char b :: nat) \<and> (of_char b :: nat) \<le> 57) \<or> has_back_reference (b # cs))"
| "has_back_reference _ = False"

text \<open>
  One pass over the characters. The stack says of each open group, the innermost first, whether it
  holds a quantifier or an alternative; \<open>closed\<close> is the group that has just been closed.
\<close>

fun mark_complex :: "bool list \<Rightarrow> bool list" where
  "mark_complex [] = []"
| "mark_complex (g # gs) = True # gs"

fun unsafe_group_scan :: "bool list \<Rightarrow> bool \<Rightarrow> bool \<Rightarrow> bool option \<Rightarrow> nat list \<Rightarrow> bool" where
  "unsafe_group_scan stack in_class escaped closed [] = False"
| "unsafe_group_scan stack in_class escaped closed (c # cs) =
     (if escaped then unsafe_group_scan stack in_class False None cs
      else if c = 0x5C then unsafe_group_scan stack in_class True None cs
      else if c = 0x5B \<and> \<not> in_class then unsafe_group_scan stack True escaped None cs
      else if c = 0x5D \<and> in_class then unsafe_group_scan stack False escaped closed cs
      else if in_class then unsafe_group_scan stack in_class escaped closed cs
      else if c = 0x28 \<and> take 1 cs = [0x3F] \<and> take 1 (drop 1 cs) \<noteq> [0x3A] then True
      else if c = 0x28 then unsafe_group_scan (False # stack) in_class escaped None cs
      else if c = 0x29 \<and> 1 < length stack
      then unsafe_group_scan (if hd stack then mark_complex (tl stack) else tl stack) in_class escaped (Some (hd stack)) cs
      else if c = 0x2A \<or> c = 0x2B \<or> c = 0x7B
      then if closed = Some True then True else unsafe_group_scan (mark_complex stack) in_class escaped None cs
      else unsafe_group_scan (if c = 0x7C then mark_complex stack else stack) in_class escaped
        (if unicode_whitespace c then closed else None) cs)"

definition has_unsafe_quantified_group :: "string \<Rightarrow> bool" where
  "has_unsafe_quantified_group source = unsafe_group_scan [False] False False None (code_points source)"

definition validate_safe_pattern :: "form_parsers \<Rightarrow> string \<Rightarrow> string \<Rightarrow> unit validation" where
  "validate_safe_pattern F name source =
     (if ff_regex F source = None then Err (''Elicitation field '' @ name @ '' has an invalid schema pattern'')
      else if has_back_reference source \<or> has_unsafe_quantified_group source
      then Err (''Elicitation field '' @ name @ '' has an unsafe schema pattern'')
      else Ok ())"

section \<open>One field\<close>

definition validate_length_bounds :: "string \<Rightarrow> json option \<Rightarrow> json option \<Rightarrow> unit validation" where
  "validate_length_bounds name minimum maximum =
     res_bind (map_err (\<lambda>_. ''Elicitation field '' @ name @ '' has an invalid minimum length'') (optional_safe_length minimum)) (\<lambda>lo.
     res_bind (map_err (\<lambda>_. ''Elicitation field '' @ name @ '' has an invalid maximum length'') (optional_safe_length maximum)) (\<lambda>hi.
       if inverted (\<le>) lo hi then Err (''Elicitation field '' @ name @ '' has inverted length bounds'') else Ok ()))"

definition validate_choices :: "string \<Rightarrow> string list option \<Rightarrow> unit validation" where
  "validate_choices name choices =
     (case choices of
        None \<Rightarrow> Ok ()
      | Some cs \<Rightarrow> if distinct cs then Ok () else Err (''Elicitation field '' @ name @ '' has duplicate choices''))"

definition ensure :: "bool \<Rightarrow> string \<Rightarrow> unit validation" where
  "ensure b e = (if b then Ok () else Err e)"

definition validate_string :: "form_parsers \<Rightarrow> string \<Rightarrow> json \<Rightarrow> json \<Rightarrow> unit validation" where
  "validate_string F name v schema =
     res_bind (ok_or (invalid_type name ''string'') (as_str v)) (\<lambda>text.
     res_bind (optional_safe_length (json_get schema ''minLength'')) (\<lambda>lo.
     res_bind (ensure (pred_option (\<lambda>n. n \<le> char_count text) lo) (''Elicitation field '' @ name @ '' is shorter than minLength'')) (\<lambda>_.
     res_bind (optional_safe_length (json_get schema ''maxLength'')) (\<lambda>hi.
     res_bind (ensure (pred_option (\<lambda>n. char_count text \<le> n) hi) (''Elicitation field '' @ name @ '' is longer than maxLength'')) (\<lambda>_.
     res_bind
       (case get_str schema ''pattern'' of
          None \<Rightarrow> Ok ()
        | Some pattern \<Rightarrow>
            if 10000 < js_len text then Err (''Elicitation field '' @ name @ '' is too long for pattern validation'')
            else res_bind (ok_or (''Elicitation field '' @ name @ '' has an invalid schema pattern'') (ff_regex F pattern)) (\<lambda>matches.
              ensure (matches text) (''Elicitation field '' @ name @ '' does not match pattern''))) (\<lambda>_.
     res_bind
       (case get_str schema ''format'' of
          None \<Rightarrow> Ok ()
        | Some format \<Rightarrow> res_bind (matches_format F text format) (\<lambda>ok.
            ensure ok (''Elicitation field '' @ name @ '' is not a valid '' @ format))) (\<lambda>_.
     res_bind (non_empty_string_choices (json_get schema ''enum'')) (\<lambda>enum_values.
     res_bind (non_empty_object_choices (json_get schema ''oneOf'') ''const'') (\<lambda>one_of.
       ensure (pred_option (\<lambda>allowed. text \<in> set allowed) (option_or enum_values one_of))
         (''Elicitation field '' @ name @ '' is not an allowed value''))))))))))"

definition validate_number :: "string \<Rightarrow> json \<Rightarrow> json \<Rightarrow> unit validation" where
  "validate_number name v schema =
     res_bind (ok_or (invalid_type name (case get_str schema ''type'' of Some t \<Rightarrow> t | None \<Rightarrow> ''number'')) (finite_f64 v)) (\<lambda>n.
     res_bind (ensure (get_str schema ''type'' = Some ''integer'' \<longrightarrow> whole_f64 n) (invalid_type name ''integer'')) (\<lambda>_.
     res_bind (optional_finite_number (json_get schema ''minimum'') name ''minimum'') (\<lambda>lo.
     res_bind (ensure (pred_option (\<lambda>m. f64_le m n) lo) (''Elicitation field '' @ name @ '' is below minimum'')) (\<lambda>_.
     res_bind (optional_finite_number (json_get schema ''maximum'') name ''maximum'') (\<lambda>hi.
       ensure (pred_option (\<lambda>m. f64_le n m) hi) (''Elicitation field '' @ name @ '' is above maximum''))))))"

text \<open>\<open>as_array\<close> filtered by \<open>all(is_string)\<close>, with the strings taken out\<close>

definition as_strings :: "json \<Rightarrow> string list option" where
  "as_strings v =
     (case as_array v of
        Some xs \<Rightarrow> if list_all is_string xs then Some (List.map_filter as_str xs) else None
      | None \<Rightarrow> None)"

definition validate_selection :: "string \<Rightarrow> json \<Rightarrow> json \<Rightarrow> unit validation" where
  "validate_selection name v schema =
     res_bind (ok_or (invalid_type name ''string array'') (as_strings v)) (\<lambda>strings.
     res_bind (ensure (distinct strings) (''Elicitation field '' @ name @ '' contains duplicate selections'')) (\<lambda>_.
     res_bind (optional_safe_length (json_get schema ''minItems'')) (\<lambda>lo.
     res_bind (ensure (pred_option (\<lambda>n. n \<le> length strings) lo) (''Elicitation field '' @ name @ '' has too few selections'')) (\<lambda>_.
     res_bind (optional_safe_length (json_get schema ''maxItems'')) (\<lambda>hi.
     res_bind (ensure (pred_option (\<lambda>n. length strings \<le> n) hi) (''Elicitation field '' @ name @ '' has too many selections'')) (\<lambda>_.
     res_bind (ok_or (''Elicitation field '' @ name @ '' is missing items'') (json_get schema ''items'')) (\<lambda>items.
     res_bind (non_empty_string_choices (json_get items ''enum'')) (\<lambda>enum_values.
     res_bind (non_empty_object_choices (json_get items ''anyOf'') ''const'') (\<lambda>any_of.
       ensure (pred_option (\<lambda>allowed. list_all (\<lambda>s. s \<in> set allowed) strings) (option_or enum_values any_of))
         (''Elicitation field '' @ name @ '' contains an unknown selection''))))))))))"

definition validate_field :: "form_parsers \<Rightarrow> string \<Rightarrow> json \<Rightarrow> json \<Rightarrow> unit validation" where
  "validate_field F name v schema =
     (case get_str schema ''type'' of
        None \<Rightarrow> Err (''Unsupported elicitation field type for '' @ name @ '': missing'')
      | Some kind \<Rightarrow>
          if kind = ''string'' then validate_string F name v schema
          else if kind = ''number'' \<or> kind = ''integer'' then validate_number name v schema
          else if kind = ''boolean'' then ensure (as_bool v \<noteq> None) (invalid_type name ''boolean'')
          else if kind = ''array'' then validate_selection name v schema
          else Err (''Unsupported elicitation field type for '' @ name @ '': '' @ kind))"

section \<open>Requests\<close>

definition validate_string_schema :: "form_parsers \<Rightarrow> string \<Rightarrow> json \<Rightarrow> unit validation" where
  "validate_string_schema F name schema =
     res_bind (validate_length_bounds name (json_get schema ''minLength'') (json_get schema ''maxLength'')) (\<lambda>_.
     res_bind (case get_str schema ''pattern'' of None \<Rightarrow> Ok () | Some pattern \<Rightarrow> validate_safe_pattern F name pattern) (\<lambda>_.
     res_bind (non_empty_string_choices (json_get schema ''enum'')) (\<lambda>enum_values.
     res_bind (non_empty_object_choices (json_get schema ''oneOf'') ''const'') (\<lambda>one_of.
       if enum_values \<noteq> None \<and> one_of \<noteq> None
       then Err (''Elicitation field '' @ name @ '' defines both enum and oneOf'')
       else validate_choices name (option_or enum_values one_of)))))"

definition validate_number_schema :: "string \<Rightarrow> json \<Rightarrow> unit validation" where
  "validate_number_schema name schema =
     res_bind (optional_finite_number (json_get schema ''minimum'') name ''minimum'') (\<lambda>lo.
     res_bind (optional_finite_number (json_get schema ''maximum'') name ''maximum'') (\<lambda>hi.
       if inverted f64_le lo hi then Err (''Elicitation field '' @ name @ '' has inverted numeric bounds'') else Ok ()))"

definition validate_selection_schema :: "string \<Rightarrow> json \<Rightarrow> unit validation" where
  "validate_selection_schema name schema =
     res_bind (validate_length_bounds name (json_get schema ''minItems'') (json_get schema ''maxItems'')) (\<lambda>_.
     res_bind (ok_or (''Elicitation field '' @ name @ '' is missing items'') (json_get schema ''items'')) (\<lambda>items.
     res_bind (non_empty_string_choices (json_get items ''enum'')) (\<lambda>enum_values.
     res_bind (non_empty_object_choices (json_get items ''anyOf'') ''const'') (\<lambda>any_of.
       if enum_values \<noteq> None \<and> any_of \<noteq> None
       then Err (''Elicitation field '' @ name @ '' defines both enum and anyOf'')
       else validate_choices name (option_or enum_values any_of)))))"

text \<open>A kind the Bridge does not know is left alone, its default too.\<close>

definition known_kinds :: "string list" where
  "known_kinds = [''string'', ''number'', ''integer'', ''array'', ''boolean'']"

definition validate_property_schema :: "form_parsers \<Rightarrow> string \<Rightarrow> json \<Rightarrow> unit validation" where
  "validate_property_schema F name schema =
     (case get_str schema ''type'' of
        None \<Rightarrow> Ok ()
      | Some kind \<Rightarrow>
          if kind \<notin> set known_kinds then Ok ()
          else res_bind
            (if kind = ''string'' then validate_string_schema F name schema
             else if kind = ''number'' \<or> kind = ''integer'' then validate_number_schema name schema
             else if kind = ''array'' then validate_selection_schema name schema
             else Ok ())
            (\<lambda>_. case non_null (json_get schema ''default'') of
               None \<Rightarrow> Ok ()
             | Some v \<Rightarrow> validate_field F name v schema))"

definition schema_properties :: "json \<Rightarrow> (string \<times> json) list validation" where
  "schema_properties schema =
     (case non_null (json_get schema ''properties'') of
        None \<Rightarrow> Ok []
      | Some v \<Rightarrow> ok_or ''Form elicitation schema properties must be an object'' (as_object v))"

definition check_required_name :: "(string \<times> json) list \<Rightarrow> string list \<Rightarrow> string \<Rightarrow> string list validation" where
  "check_required_name properties seen name =
     (if name \<in> set seen then Err ''Elicitation schema contains duplicate required fields''
      else if map_of properties name = None then Err (''Elicitation schema requires an unknown field: '' @ name)
      else Ok (name # seen))"

definition validate_schema :: "form_parsers \<Rightarrow> json \<Rightarrow> unit validation" where
  "validate_schema F schema =
     res_bind (schema_properties schema) (\<lambda>properties.
     res_bind (string_array (json_get schema ''required'') ''Elicitation schema required'') (\<lambda>required.
     res_bind (check_seen (check_required_name properties) [] required) (\<lambda>_.
       check_list (\<lambda>p. if fst p = [] then Err ''Elicitation schema contains an invalid field name''
          else validate_property_schema F (fst p) (snd p)) properties)))"

definition validate_scope :: "json \<Rightarrow> unit validation" where
  "validate_scope request =
     (let has_session = (json_get_some request ''sessionId'' \<noteq> None);
          has_request = (json_get request ''requestId'' \<noteq> None)
      in if has_session = has_request then Err ''Elicitation must have exactly one session or request scope''
         else if has_session
         then let sid = (case get_str request ''sessionId'' of Some s \<Rightarrow> s | None \<Rightarrow> [])
              in if sid = [] \<or> 1024 < js_len sid then Err ''Elicitation contains an invalid session scope'' else Ok ()
         else res_bind (ok_or ''Elicitation is missing its request scope'' (json_get request ''requestId'')) (\<lambda>rid.
           if is_null rid \<or> (case as_str rid of Some s \<Rightarrow> js_len s \<le> 1024 | None \<Rightarrow> False) \<or>
              (case finite_f64 rid of Some n \<Rightarrow> whole_f64 n \<and> f64_le (\<bar>fst n\<bar>, snd n) safe_f64 | None \<Rightarrow> False)
           then Ok () else Err ''Elicitation contains an invalid request scope''))"

definition validate_elicitation_request_value :: "form_parsers \<Rightarrow> json \<Rightarrow> unit validation" where
  "validate_elicitation_request_value F request =
     res_bind (elicit_string request ''message'' ''Elicitation'') (\<lambda>message.
       if message = [] then Err ''Elicitation message is empty''
       else res_bind (validate_scope request) (\<lambda>_.
         case get_str request ''mode'' of
           None \<Rightarrow> Err ''Agent requested an unadvertised elicitation mode''
         | Some mode \<Rightarrow>
             if mode = ''url''
             then res_bind (elicit_string request ''url'' ''URL elicitation'') (\<lambda>raw_url.
               res_bind (ok_or ''URL elicitation contains an invalid URL'' (ff_scheme F raw_url)) (\<lambda>scheme.
                 ensure (scheme = ''http'' \<or> scheme = ''https'') ''URL elicitation must use HTTP or HTTPS''))
             else if mode = ''form''
             then res_bind (ok_or ''Form elicitation is missing requestedSchema'' (json_get request ''requestedSchema'')) (validate_schema F)
             else Err (''Agent requested an unadvertised elicitation mode: '' @ mode)))"

section \<open>Responses\<close>

definition validate_content :: "form_parsers \<Rightarrow> json \<Rightarrow> json option \<Rightarrow> unit validation" where
  "validate_content F schema content0 =
     res_bind (schema_properties schema) (\<lambda>properties.
     res_bind (case content0 of None \<Rightarrow> Ok []
         | Some v \<Rightarrow> ok_or ''Form elicitation content must be an object'' (as_object v)) (\<lambda>content.
     res_bind (string_array (json_get schema ''required'') ''Elicitation schema required'') (\<lambda>required.
     res_bind (check_list (\<lambda>name. ensure (map_of content name \<noteq> None)
         (''Elicitation response is missing required field: '' @ name)) required) (\<lambda>_.
       check_list (\<lambda>p. res_bind (ok_or (''Unknown elicitation response field: '' @ fst p) (map_of properties (fst p)))
         (\<lambda>field_schema. validate_field F (fst p) (snd p) field_schema)) content))))"

definition validate_elicitation_response_value :: "form_parsers \<Rightarrow> json \<Rightarrow> json \<Rightarrow> unit validation" where
  "validate_elicitation_response_value F request response =
     res_bind (elicit_string response ''action'' ''Elicitation response'') (\<lambda>action.
       if action \<notin> {''accept'', ''decline'', ''cancel''} then Err (''Unsupported elicitation response action: '' @ action)
       else let content = non_null (json_get response ''content'')
            in if action \<noteq> ''accept''
               then ensure (content = None) ''Only accepted elicitation responses may contain content''
               else if get_str request ''mode'' = Some ''url''
               then ensure (content = None) ''URL elicitation responses must not contain content''
               else res_bind (ok_or ''Form elicitation is missing requestedSchema'' (json_get request ''requestedSchema''))
                 (\<lambda>schema. validate_content F schema content))"

section \<open>What a value of a field is\<close>

text \<open>
  The meaning of a schema, without the errors: a bound or a list of choices that is absent constrains
  nothing.
\<close>

definition given :: "'a option validation \<Rightarrow> 'a option" where
  "given r = (case r of Ok x \<Rightarrow> x | _ \<Rightarrow> None)"

definition choices_in :: "json \<Rightarrow> string \<Rightarrow> string list option" where
  "choices_in v variant = option_or (given (non_empty_string_choices (json_get v ''enum'')))
     (given (non_empty_object_choices (json_get v variant) ''const''))"

definition text_conforms :: "form_parsers \<Rightarrow> string \<Rightarrow> json \<Rightarrow> bool" where
  "text_conforms F text schema \<longleftrightarrow>
     pred_option (\<lambda>n. n \<le> char_count text) (given (optional_safe_length (json_get schema ''minLength''))) \<and>
     pred_option (\<lambda>n. char_count text \<le> n) (given (optional_safe_length (json_get schema ''maxLength''))) \<and>
     pred_option (\<lambda>pattern. js_len text \<le> 10000 \<and> (\<exists>matches. ff_regex F pattern = Some matches \<and> matches text)) (get_str schema ''pattern'') \<and>
     pred_option (\<lambda>format. matches_format F text format = Ok True) (get_str schema ''format'') \<and>
     pred_option (\<lambda>allowed. text \<in> set allowed) (choices_in schema ''oneOf'')"

definition number_conforms :: "f64 \<Rightarrow> json \<Rightarrow> bool" where
  "number_conforms n schema \<longleftrightarrow>
     (get_str schema ''type'' = Some ''integer'' \<longrightarrow> whole_f64 n) \<and>
     pred_option (\<lambda>m. f64_le m n) (given (optional_finite_number (json_get schema ''minimum'') [] [])) \<and>
     pred_option (\<lambda>m. f64_le n m) (given (optional_finite_number (json_get schema ''maximum'') [] []))"

definition selection_conforms :: "string list \<Rightarrow> json \<Rightarrow> bool" where
  "selection_conforms strings schema \<longleftrightarrow>
     distinct strings \<and>
     pred_option (\<lambda>n. n \<le> length strings) (given (optional_safe_length (json_get schema ''minItems''))) \<and>
     pred_option (\<lambda>n. length strings \<le> n) (given (optional_safe_length (json_get schema ''maxItems''))) \<and>
     pred_option (\<lambda>items. pred_option (\<lambda>allowed. set strings \<subseteq> set allowed) (choices_in items ''anyOf'')) (json_get schema ''items'')"

fun conforms :: "form_parsers \<Rightarrow> json \<Rightarrow> json \<Rightarrow> bool" where
  "conforms F v schema =
     (case get_str schema ''type'' of
        None \<Rightarrow> False
      | Some kind \<Rightarrow>
          if kind = ''string'' then (\<exists>text. v = JStr text \<and> text_conforms F text schema)
          else if kind = ''number'' \<or> kind = ''integer'' then (\<exists>n. finite_f64 v = Some n \<and> number_conforms n schema)
          else if kind = ''boolean'' then (\<exists>b. v = JBool b)
          else if kind = ''array'' then (\<exists>strings. v = JArr (map JStr strings) \<and> selection_conforms strings schema)
          else False)"

declare conforms.simps [simp del]

lemma ensure_Ok [simp]: "(ensure b e = Ok ()) = b" "ensure b e \<noteq> Panic"
  by (simp_all add: ensure_def)

lemma given_Ok [simp]: "given (Ok x) = x"
  by (simp add: given_def)

lemma as_bool_Some [simp]: "as_bool v = Some b \<longleftrightarrow> v = JBool b"
  by (cases v) auto

lemma as_strings_Some [simp]: "as_strings v = Some strings \<longleftrightarrow> v = JArr (map JStr strings)"
proof
  have m: "list_all is_string xs \<Longrightarrow> map JStr (List.map_filter as_str xs) = xs" for xs
  proof (induction xs)
    case (Cons x xs)
    then show ?case by (cases x) (simp_all add: List.map_filter_simps)
  qed (simp add: List.map_filter_simps)
  assume "as_strings v = Some strings"
  with m show "v = JArr (map JStr strings)" by (auto simp: as_strings_def split: option.splits if_splits)
next
  have "List.map_filter as_str (map JStr strings) = strings" by (induction strings) (simp_all add: List.map_filter_simps)
  moreover have "list_all is_string (map JStr strings)" by (simp add: list_all_iff)
  moreover assume "v = JArr (map JStr strings)"
  ultimately show "as_strings v = Some strings" by (simp add: as_strings_def)
qed

lemma given_number [simp]: "given (optional_finite_number v name label) = given (optional_finite_number v [] [])"
proof (cases "non_null v")
  case (Some x)
  then show ?thesis by (cases "finite_f64 x") (simp_all add: optional_finite_number_def given_def)
qed (simp add: optional_finite_number_def)

text \<open>The parts of a schema that were read once are read again with the same outcome.\<close>

lemma validate_length_bounds_Ok:
  "validate_length_bounds name a b = Ok () \<Longrightarrow>
     \<exists>lo hi. optional_safe_length a = Ok lo \<and> optional_safe_length b = Ok hi \<and> \<not> inverted (\<le>) lo hi"
  by (cases "optional_safe_length a"; cases "optional_safe_length b")
     (auto simp: validate_length_bounds_def split: if_splits)

lemma validate_string_schema_Ok:
  assumes "validate_string_schema F name schema = Ok ()"
  shows "\<exists>lo. optional_safe_length (json_get schema ''minLength'') = Ok lo"
    "\<exists>hi. optional_safe_length (json_get schema ''maxLength'') = Ok hi"
    "pred_option (\<lambda>pattern. ff_regex F pattern \<noteq> None) (get_str schema ''pattern'')"
    "\<exists>cs. non_empty_string_choices (json_get schema ''enum'') = Ok cs"
    "\<exists>cs. non_empty_object_choices (json_get schema ''oneOf'') ''const'' = Ok cs"
  using assms validate_length_bounds_Ok [of name "json_get schema ''minLength''" "json_get schema ''maxLength''"]
  by (auto simp: validate_string_schema_def validate_safe_pattern_def split: option.splits if_splits)

lemma validate_number_schema_Ok:
  assumes "validate_number_schema name schema = Ok ()"
  shows "\<exists>lo. optional_finite_number (json_get schema ''minimum'') name ''minimum'' = Ok lo"
    "\<exists>hi. optional_finite_number (json_get schema ''maximum'') name ''maximum'' = Ok hi"
  using assms by (auto simp: validate_number_schema_def)

lemma validate_selection_schema_Ok:
  assumes "validate_selection_schema name schema = Ok ()"
  shows "\<exists>lo. optional_safe_length (json_get schema ''minItems'') = Ok lo"
    "\<exists>hi. optional_safe_length (json_get schema ''maxItems'') = Ok hi"
    "\<exists>items. json_get schema ''items'' = Some items \<and> (\<exists>cs. non_empty_string_choices (json_get items ''enum'') = Ok cs) \<and>
       (\<exists>cs. non_empty_object_choices (json_get items ''anyOf'') ''const'' = Ok cs)"
  using assms validate_length_bounds_Ok [of name "json_get schema ''minItems''" "json_get schema ''maxItems''"]
  by (auto simp: validate_selection_schema_def)

lemma validate_string_iff:
  assumes "validate_string_schema F name schema = Ok ()"
  shows "validate_string F name v schema = Ok () \<longleftrightarrow> (\<exists>text. v = JStr text \<and> text_conforms F text schema)"
proof -
  from validate_string_schema_Ok [OF assms] obtain lo hi cs ds where
    s: "optional_safe_length (json_get schema ''minLength'') = Ok lo" "optional_safe_length (json_get schema ''maxLength'') = Ok hi"
      "non_empty_string_choices (json_get schema ''enum'') = Ok cs" "non_empty_object_choices (json_get schema ''oneOf'') ''const'' = Ok ds" by blast
  have p: "(case get_str schema ''pattern'' of None \<Rightarrow> Ok ()
        | Some pattern \<Rightarrow> if 10000 < js_len u then Err e
            else res_bind (ok_or e' (ff_regex F pattern)) (\<lambda>matches. ensure (matches u) e'')) = Ok () \<longleftrightarrow>
      pred_option (\<lambda>pattern. js_len u \<le> 10000 \<and> (\<exists>matches. ff_regex F pattern = Some matches \<and> matches u)) (get_str schema ''pattern'')"
    for u and e e' e'' :: string
    by (cases "get_str schema ''pattern''") auto
  have f: "(case get_str schema ''format'' of None \<Rightarrow> Ok ()
        | Some format \<Rightarrow> res_bind (matches_format F u format) (\<lambda>ok. ensure ok (e format))) = Ok () \<longleftrightarrow>
      pred_option (\<lambda>format. matches_format F u format = Ok True) (get_str schema ''format'')" for u and e :: "string \<Rightarrow> string"
    by (cases "get_str schema ''format''") auto
  show ?thesis
    unfolding validate_string_def text_conforms_def choices_in_def by (auto simp: s p f)
qed

lemma validate_number_iff:
  assumes "validate_number_schema name schema = Ok ()"
  shows "validate_number name v schema = Ok () \<longleftrightarrow> (\<exists>n. finite_f64 v = Some n \<and> number_conforms n schema)"
proof -
  from validate_number_schema_Ok [OF assms] obtain lo hi where
    s: "optional_finite_number (json_get schema ''minimum'') name ''minimum'' = Ok lo"
      "optional_finite_number (json_get schema ''maximum'') name ''maximum'' = Ok hi" by blast
  then have "given (optional_finite_number (json_get schema ''minimum'') [] []) = lo"
    "given (optional_finite_number (json_get schema ''maximum'') [] []) = hi"
    by (metis given_Ok given_number)+
  then show ?thesis unfolding validate_number_def number_conforms_def by (auto simp: s simp del: given_number)
qed

lemma validate_selection_iff:
  assumes "validate_selection_schema name schema = Ok ()"
  shows "validate_selection name v schema = Ok () \<longleftrightarrow> (\<exists>strings. v = JArr (map JStr strings) \<and> selection_conforms strings schema)"
proof -
  from validate_selection_schema_Ok [OF assms] obtain lo hi items cs ds where
    s: "optional_safe_length (json_get schema ''minItems'') = Ok lo" "optional_safe_length (json_get schema ''maxItems'') = Ok hi"
      "json_get schema ''items'' = Some items"
      "non_empty_string_choices (json_get items ''enum'') = Ok cs" "non_empty_object_choices (json_get items ''anyOf'') ''const'' = Ok ds" by blast
  show ?thesis
    unfolding validate_selection_def selection_conforms_def choices_in_def
    by (auto simp: s list_all_iff subset_iff intro!: option.pred_mono_strong)
qed

lemma validate_field_iff:
  assumes "validate_property_schema F name schema = Ok ()"
  shows "validate_field F name v schema = Ok () \<longleftrightarrow> conforms F v schema"
proof (cases "get_str schema ''type''")
  case (Some kind)
  with assms show ?thesis
    using validate_string_iff [of F name schema v] validate_number_iff [of name schema v] validate_selection_iff [of name schema v]
    by (auto simp: validate_field_def conforms.simps validate_property_schema_def known_kinds_def split: if_splits)
qed (simp add: validate_field_def conforms.simps)

section \<open>Answers\<close>

definition declared :: "json \<Rightarrow> (string \<times> json) list" where
  "declared schema = (case json_get schema ''properties'' of Some (JObj m) \<Rightarrow> m | _ \<Rightarrow> [])"

definition required_fields :: "json \<Rightarrow> string set" where
  "required_fields schema = {name. \<exists>xs. json_get schema ''required'' = Some (JArr xs) \<and> JStr name \<in> set xs}"

definition fills :: "form_parsers \<Rightarrow> json \<Rightarrow> (string \<times> json) list \<Rightarrow> bool" where
  "fills F schema filled \<longleftrightarrow>
     required_fields schema \<subseteq> fst ` set filled \<and>
     (\<forall>p \<in> set filled. \<exists>s. map_of (declared schema) (fst p) = Some s \<and> conforms F (snd p) s)"

definition answers :: "form_parsers \<Rightarrow> json \<Rightarrow> json \<Rightarrow> bool" where
  "answers F request response \<longleftrightarrow>
     (let content = non_null (json_get response ''content'')
      in (get_str response ''action'' \<in> {Some ''decline'', Some ''cancel''} \<and> content = None) \<or>
         (get_str response ''action'' = Some ''accept'' \<and>
          (if get_str request ''mode'' = Some ''url'' then content = None
           else \<exists>schema filled. json_get request ''requestedSchema'' = Some schema \<and>
             (content = None \<and> filled = [] \<or> content = Some (JObj filled)) \<and> fills F schema filled)))"

lemma non_null_Some [simp]: "non_null v = Some x \<longleftrightarrow> v = Some x \<and> x \<noteq> JNull"
  by (cases v; cases x) (auto simp: non_null_def split: if_splits elim!: is_null.elims)

lemma non_null_None: "non_null v = None \<longleftrightarrow> v = None \<or> v = Some JNull"
  by (cases v) (auto simp: non_null_def elim!: is_null.elims)

lemma schema_properties_Ok: "schema_properties schema = Ok m \<Longrightarrow> m = declared schema"
  by (auto simp: schema_properties_def declared_def non_null_None split: option.splits)

lemma try_map_as_str: "try_map (\<lambda>x. ok_or e (as_str x)) xs = Ok ys \<longleftrightarrow> xs = map JStr ys"
  by (induction xs arbitrary: ys) (auto simp: Cons_eq_map_conv)

lemma string_array_Ok: "string_array (json_get schema ''required'') e = Ok names \<Longrightarrow> set names = required_fields schema"
  by (auto simp: string_array_def required_fields_def non_null_None try_map_as_str split: option.splits)

lemma check_required_name_Ok [simp]:
  "check_required_name m seen name = Ok r \<longleftrightarrow> name \<notin> set seen \<and> map_of m name \<noteq> None \<and> r = name # seen"
  by (auto simp: check_required_name_def)

lemma check_required_Ok:
  "check_seen (check_required_name m) seen names = Ok r \<Longrightarrow>
     distinct names \<and> set names \<inter> set seen = {} \<and> set names \<subseteq> fst ` set m"
proof (induction names arbitrary: seen)
  case (Cons name names)
  then have n: "name \<notin> set seen" "map_of m name \<noteq> None" "check_seen (check_required_name m) (name # seen) names = Ok r"
    by auto
  from Cons.IH [OF n(3)] n(1,2) show ?case by (auto simp: map_of_eq_None_iff)
qed simp

lemma validate_schema_Ok:
  assumes "validate_schema F schema = Ok ()"
  shows "schema_properties schema = Ok (declared schema)"
    "\<exists>names. string_array (json_get schema ''required'') ''Elicitation schema required'' = Ok names \<and> set names = required_fields schema"
    "required_fields schema \<subseteq> fst ` set (declared schema)"
    "\<And>name s. map_of (declared schema) name = Some s \<Longrightarrow> validate_property_schema F name s = Ok ()"
proof -
  from assms obtain m names r where s: "schema_properties schema = Ok m"
      "string_array (json_get schema ''required'') ''Elicitation schema required'' = Ok names"
      "check_seen (check_required_name m) [] names = Ok r"
      "\<forall>p \<in> set m. fst p \<noteq> [] \<and> validate_property_schema F (fst p) (snd p) = Ok ()"
    by (auto simp: validate_schema_def check_list_Ok split: if_splits)
  from schema_properties_Ok [OF s(1)] have m: "m = declared schema" .
  from string_array_Ok [OF s(2)] have n: "set names = required_fields schema" .
  from s m show "schema_properties schema = Ok (declared schema)" by simp
  from s n show "\<exists>names. string_array (json_get schema ''required'') ''Elicitation schema required'' = Ok names \<and> set names = required_fields schema"
    by blast
  from check_required_Ok [OF s(3)] m n show "required_fields schema \<subseteq> fst ` set (declared schema)" by simp
  show "validate_property_schema F name t = Ok ()" if "map_of (declared schema) name = Some t" for name t
    using s(4) map_of_SomeD [OF that] m by auto
qed

lemma validate_content_iff:
  assumes "validate_schema F schema = Ok ()"
  shows "validate_content F schema content = Ok () \<longleftrightarrow>
     (\<exists>filled. (content = None \<and> filled = [] \<or> content = Some (JObj filled)) \<and> fills F schema filled)"
proof -
  note v = validate_schema_Ok [OF assms]
  from v(2) obtain names where n: "string_array (json_get schema ''required'') ''Elicitation schema required'' = Ok names"
    "set names = required_fields schema" by blast
  have core: "res_bind (check_list (\<lambda>name. ensure (map_of filled name \<noteq> None) (e name)) names) (\<lambda>_.
      check_list (\<lambda>p. res_bind (ok_or (e' p) (map_of (declared schema) (fst p))) (\<lambda>s. validate_field F (fst p) (snd p) s)) filled) = Ok ()
      \<longleftrightarrow> fills F schema filled"
    for filled :: "(string \<times> json) list" and e and e' :: "string \<times> json \<Rightarrow> string"
    using validate_field_iff [OF v(4)] by (auto simp: fills_def check_list_Ok map_of_eq_None_iff n(2) [symmetric])
  show ?thesis
  proof (cases content)
    case None
    have "validate_content F schema None = Ok () \<longleftrightarrow> fills F schema []"
      unfolding validate_content_def v(1) n(1) option.case res_bind_simps(1) by (rule core)
    with None show ?thesis by simp
  next
    case (Some x)
    show ?thesis
    proof (cases "as_object x")
      case None
      then have "x \<noteq> JObj filled" for filled by auto
      with None Some show ?thesis by (simp add: validate_content_def v(1) n(1))
    next
      case obj: (Some filled)
      have "validate_content F schema (Some x) = Ok () \<longleftrightarrow> fills F schema filled"
        unfolding validate_content_def v(1) n(1) option.case obj ok_or_simps(2) res_bind_simps(1) by (rule core)
      with Some obj show ?thesis by simp
    qed
  qed
qed

text \<open>
  (C26) An accepted answer is a well-typed one. For a request the Bridge let through, the answers it
  accepts are exactly these: a refusal or a cancellation without content, the consent to a URL without
  content, and a filled form whose fields are all declared, each with a value of its declared kind within
  its bounds, its pattern, its format and its choices, and among them every required one.
\<close>

theorem accepted_answers_are_typed:
  assumes "validate_elicitation_request_value F request = Ok ()"
  shows "validate_elicitation_response_value F request response = Ok () \<longleftrightarrow> answers F request response"
proof (cases "get_str request ''mode'' = Some ''url''")
  case True
  then show ?thesis
    by (auto simp: validate_elicitation_response_value_def answers_def elicit_string_def Let_def split: if_splits)
next
  case False
  with assms obtain schema where s: "json_get request ''requestedSchema'' = Some schema" "validate_schema F schema = Ok ()"
    by (auto simp: validate_elicitation_request_value_def split: if_splits option.splits)
  from False show ?thesis
    by (auto simp: validate_elicitation_response_value_def answers_def elicit_string_def Let_def s(1) validate_content_iff [OF s(2)]
        split: if_splits)
qed

text \<open>A form of the tests: a name of two characters at least and a count, and what may be answered.\<close>

definition sample_parsers :: form_parsers where
  "sample_parsers = \<lparr>ff_scheme = (\<lambda>u. Some (takeWhile (\<lambda>c. c \<noteq> CHR '':'') u)), ff_regex = (\<lambda>p. Some (\<lambda>t. True))\<rparr>"

definition sample_schema :: json where
  "sample_schema = JObj
     [(''type'', JStr ''object''), (''required'', JArr [JStr ''name'', JStr ''count'']),
      (''properties'', JObj
        [(''name'', JObj [(''type'', JStr ''string''), (''minLength'', JNum (PosInt 2)), (''default'', JStr ''ann'')]),
         (''count'', JObj [(''type'', JStr ''integer''), (''minimum'', JNum (PosInt 1)), (''maximum'', JNum (PosInt 3)),
            (''default'', JNum (PosInt 2))]),
         (''mode'', JObj [(''type'', JStr ''array''), (''items'', JObj [(''enum'', JArr [JStr ''a'', JStr ''b''])])])])]"

definition sample_request :: json where
  "sample_request = JObj [(''sessionId'', JStr ''s''), (''mode'', JStr ''form''), (''message'', JStr ''Configure''),
     (''requestedSchema'', sample_schema)]"

lemma sample_request_ok: "validate_elicitation_request_value sample_parsers sample_request = Ok ()"
  by code_simp

lemma accepted_answers_are_typed_witness:
  "answers sample_parsers sample_request (JObj [(''action'', JStr ''accept''),
      (''content'', JObj [(''name'', JStr ''bob''), (''count'', JNum (PosInt 3)), (''mode'', JArr [JStr ''b''])])]) \<and>
   \<not> answers sample_parsers sample_request (JObj [(''action'', JStr ''accept''),
      (''content'', JObj [(''name'', JStr ''bob''), (''count'', JNum (PosInt 4))])])"
proof -
  have "validate_elicitation_response_value sample_parsers sample_request (JObj [(''action'', JStr ''accept''),
      (''content'', JObj [(''name'', JStr ''bob''), (''count'', JNum (PosInt 3)), (''mode'', JArr [JStr ''b''])])]) = Ok ()"
    by code_simp
  moreover have "validate_elicitation_response_value sample_parsers sample_request (JObj [(''action'', JStr ''accept''),
      (''content'', JObj [(''name'', JStr ''bob''), (''count'', JNum (PosInt 4))])]) \<noteq> Ok ()"
    by code_simp
  ultimately show ?thesis unfolding accepted_answers_are_typed [OF sample_request_ok] by blast
qed

section \<open>Defaults\<close>

definition default_of :: "json \<Rightarrow> json option" where
  "default_of s =
     (case get_str s ''type'' of
        Some kind \<Rightarrow> if kind \<in> set known_kinds then non_null (json_get s ''default'') else None
      | None \<Rightarrow> None)"

definition defaults :: "json \<Rightarrow> (string \<times> json) list" where
  "defaults schema = List.map_filter (\<lambda>p. map_option (Pair (fst p)) (default_of (snd p))) (declared schema)"

definition default_answer :: "json \<Rightarrow> json" where
  "default_answer schema = JObj [(''action'', JStr ''accept''), (''content'', JObj (defaults schema))]"

lemma set_defaults: "p \<in> set (defaults schema) \<longleftrightarrow> (\<exists>s. (fst p, s) \<in> set (declared schema) \<and> default_of s = Some (snd p))"
  by (cases p) (force simp: defaults_def map_filter_def)

lemma default_conforms:
  assumes "validate_property_schema F name s = Ok ()" "default_of s = Some v"
  shows "conforms F v s"
proof -
  from assms have "validate_field F name v s = Ok ()"
    by (auto simp: validate_property_schema_def default_of_def split: option.splits if_splits)
  with validate_field_iff [OF assms(1)] show ?thesis by simp
qed

text \<open>
  Defaults can be sent as they are. If the Bridge let a form through and each of its required
  fields has a default of a kind the Bridge knows, the answer that consists of all the defaults is
  accepted.
\<close>

theorem default_answer_is_accepted:
  assumes "validate_elicitation_request_value F request = Ok ()" "get_str request ''mode'' = Some ''form''"
    "json_get request ''requestedSchema'' = Some schema" "distinct (map fst (declared schema))"
    "\<forall>name \<in> required_fields schema. name \<in> fst ` set (defaults schema)"
  shows "validate_elicitation_response_value F request (default_answer schema) = Ok ()"
proof -
  from assms(1-3) have s: "validate_schema F schema = Ok ()"
    by (auto simp: validate_elicitation_request_value_def split: if_splits)
  have "\<exists>s. map_of (declared schema) (fst p) = Some s \<and> conforms F (snd p) s" if "p \<in> set (defaults schema)" for p
  proof -
    from that obtain t where t: "(fst p, t) \<in> set (declared schema)" "default_of t = Some (snd p)" by (auto simp: set_defaults)
    from assms(4) t(1) have m: "map_of (declared schema) (fst p) = Some t" by simp
    from default_conforms [OF validate_schema_Ok(4) [OF s m] t(2)] m show ?thesis by blast
  qed
  then have "fills F schema (defaults schema)" using assms(5) by (auto simp: fills_def)
  then have "validate_content F schema (Some (JObj (defaults schema))) = Ok ()"
    unfolding validate_content_iff [OF s] by simp
  with assms(2,3) show ?thesis
    by (simp add: validate_elicitation_response_value_def elicit_string_def default_answer_def get_str_def non_null_def)
qed

lemma default_answer_is_accepted_witness:
  "validate_elicitation_response_value sample_parsers sample_request
     (JObj [(''action'', JStr ''accept''), (''content'', JObj [(''name'', JStr ''ann''), (''count'', JNum (PosInt 2))])]) = Ok ()"
proof -
  have "default_answer sample_schema =
      JObj [(''action'', JStr ''accept''), (''content'', JObj [(''name'', JStr ''ann''), (''count'', JNum (PosInt 2))])]"
    by code_simp
  moreover have "validate_elicitation_response_value sample_parsers sample_request (default_answer sample_schema) = Ok ()"
  proof (rule default_answer_is_accepted [OF sample_request_ok])
    show "get_str sample_request ''mode'' = Some ''form''" "json_get sample_request ''requestedSchema'' = Some sample_schema"
      "distinct (map fst (declared sample_schema))"
      by code_simp+
    have "fst ` set (defaults sample_schema) = {''name'', ''count''}" by code_simp
    moreover have "required_fields sample_schema = {''name'', ''count''}"
      by (auto simp: required_fields_def sample_schema_def)
    ultimately show "\<forall>name \<in> required_fields sample_schema. name \<in> fst ` set (defaults sample_schema)" by simp
  qed
  ultimately show ?thesis by simp
qed

section \<open>Panics\<close>

lemma try_map_no_panic: "(\<And>x. f x \<noteq> Panic) \<Longrightarrow> try_map f xs \<noteq> Panic"
proof (induction xs)
  case (Cons x xs)
  then show ?case by (cases "f x"; cases "try_map f xs") auto
qed simp

lemma res_bind_Panic: "res_bind r k = Panic \<longleftrightarrow> r = Panic \<or> (\<exists>a. r = Ok a \<and> k a = Panic)"
  by (cases r) auto

lemma reads_no_panic [simp]:
  "non_empty_string_choices v \<noteq> Panic" "non_empty_object_choices v k \<noteq> Panic" "optional_safe_length v \<noteq> Panic"
  "optional_finite_number v n l \<noteq> Panic" "string_array v n \<noteq> Panic" "schema_properties w \<noteq> Panic"
  by (auto simp: non_empty_string_choices_def non_empty_object_choices_def optional_safe_length_def optional_finite_number_def
      string_array_def schema_properties_def res_bind_Panic try_map_no_panic split: option.splits)

lemma split_zone_Panic:
  "split_zone time = Panic \<longleftrightarrow> 6 \<le> length time \<and> last time \<noteq> CHR ''Z'' \<and> continuation_byte (time ! (length time - 6))"
proof (cases "6 \<le> length time")
  case True
  then have "hd (drop (length time - 6) time) = time ! (length time - 6)" by (simp add: hd_drop_conv_nth)
  with True show ?thesis by (cases time) (simp_all add: split_zone_def Let_def)
next
  case False
  then show ?thesis by (simp add: split_zone_def)
qed

text \<open>
  (C27) The only way a field can panic. Checking a field panics only for a text of format date-time
  whose date is valid and whose sixth byte from the end lies inside a character; the witness is such an
  answer, to a request that was let through.
\<close>

theorem field_panics_only_inside_a_character:
  assumes "validate_field F name v schema = Panic"
  shows "\<exists>text. v = JStr text \<and> get_str schema ''format'' = Some ''date-time'' \<and>
     valid_date (takeWhile (\<lambda>c. c \<noteq> CHR ''T'') text) \<and> 6 \<le> length text \<and> continuation_byte (text ! (length text - 6))"
proof -
  have "validate_number name v schema \<noteq> Panic" "validate_selection name v schema \<noteq> Panic"
    by (auto simp: validate_number_def validate_selection_def res_bind_Panic ok_or_def split: option.splits)
  with assms have "validate_string F name v schema = Panic"
    by (auto simp: validate_field_def split: option.splits if_splits)
  then obtain u format where f: "v = JStr u" "get_str schema ''format'' = Some format" "matches_format F u format = Panic"
    by (auto simp: validate_string_def res_bind_Panic split: option.splits if_splits)
  let ?time = "tl (dropWhile (\<lambda>c. c \<noteq> CHR ''T'') u)"
  from f(3) have g: "format = ''date-time''" "valid_date (takeWhile (\<lambda>c. c \<noteq> CHR ''T'') u)" "split_zone ?time = Panic"
    by (auto simp: matches_format_def valid_date_time_def res_bind_Panic Let_def split: if_splits option.splits)
  have t: "6 \<le> length ?time" "continuation_byte (?time ! (length ?time - 6))" using g(3) by (simp_all add: split_zone_Panic)
  obtain k where k: "?time = drop k u" by (metis drop_Suc dropWhile_eq_drop tl_drop)
  then have "u ! (length u - 6) = ?time ! (length ?time - 6)" "6 \<le> length u" using t(1) by simp_all
  with f g t show ?thesis by simp
qed

definition split_character :: json where
  "split_character = JStr (''2024-01-01T'' @ [CHR 0xC3, CHR 0xA9] @ ''00000'')"

definition when_schema :: json where
  "when_schema = JObj [(''type'', JStr ''string''), (''format'', JStr ''date-time'')]"

definition when_request :: json where
  "when_request = JObj [(''sessionId'', JStr ''s''), (''mode'', JStr ''form''), (''message'', JStr ''When''),
     (''requestedSchema'', JObj [(''properties'', JObj [(''when'', when_schema)])])]"

lemma field_panics_only_inside_a_character_witness:
  "validate_elicitation_request_value sample_parsers when_request = Ok () \<and>
   validate_elicitation_response_value sample_parsers when_request
     (JObj [(''action'', JStr ''accept''), (''content'', JObj [(''when'', split_character)])]) = Panic \<and>
   (\<exists>u. split_character = JStr u \<and> 6 \<le> length u \<and> continuation_byte (u ! (length u - 6)))"
proof -
  have "validate_field sample_parsers ''when'' split_character when_schema = Panic" by code_simp
  from field_panics_only_inside_a_character [OF this]
  have "\<exists>u. split_character = JStr u \<and> 6 \<le> length u \<and> continuation_byte (u ! (length u - 6))" by blast
  moreover have "validate_elicitation_request_value sample_parsers when_request = Ok ()" by code_simp
  moreover have "validate_elicitation_response_value sample_parsers when_request
      (JObj [(''action'', JStr ''accept''), (''content'', JObj [(''when'', split_character)])]) = Panic" by code_simp
  ultimately show ?thesis by blast
qed

text \<open>The numbers of a date are read by \<open>str::parse\<close>, which takes a sign; one fraction may follow another.\<close>

lemma signed_date_is_valid: "valid_date ''+024-+1-+1''"
  by code_simp

lemma two_fractions_are_valid: "valid_date_time ''2024-01-01T00:00:00.x.5Z'' = Ok True"
  by code_simp
end
