(* ===== verification/Session_Presentation.thy ===== *)
theory Session_Presentation
  imports History_Cache "HOL-Library.Multiset"
begin

text \<open>
  What the browser is shown of a completed history (\<open>src/src/session_presentation.rs\<close>): the history
  is cut into turns, each turn into entries, and a compact view keeps the prompts and the final answer
  of a turn; the entries in between, its process, are sent in pages on demand.
\<close>

definition process_page_size :: nat where
  "process_page_size = 10"

datatype page_error = StaleHistory | TurnNotFound | InvalidOffset

record view_entry =
  ve_kind :: string
  ve_updates :: "json list"

record view_turn =
  vt_id :: string
  vt_entries :: "view_entry list"
  vt_outcomes :: "json list"

definition is_prompt :: "view_entry \<Rightarrow> bool" where
  "is_prompt e \<longleftrightarrow> ve_kind e = ''user_message_chunk''"

definition kind_of :: "json \<Rightarrow> string" where
  "kind_of update = (case get_str update ''sessionUpdate'' of Some k \<Rightarrow> k | None \<Rightarrow> '''')"

definition json_nat :: "nat \<Rightarrow> json" where
  "json_nat n = JNum (PosInt (of_nat n))"

section \<open>What an entry shows\<close>

text \<open>A patch of a tool call: every field that is not null, but for the discriminator.\<close>

definition patch_tool :: "json \<Rightarrow> json \<Rightarrow> json" where
  "patch_tool merged update =
     (case (merged, update) of
        (JObj target, JObj patch) \<Rightarrow>
          JObj (fold (\<lambda>(k, v) m. if k \<noteq> ''sessionUpdate'' \<and> \<not> is_null v then obj_insert k v m else m) patch target)
      | _ \<Rightarrow> merged)"

definition unknown_tool :: "json \<Rightarrow> json" where
  "unknown_tool tool_id = JObj
     [(''sessionUpdate'', JStr ''tool_call''), (''toolCallId'', tool_id), (''title'', JStr ''Tool call not found''),
      (''kind'', JStr ''other''), (''status'', JStr ''failed''),
      (''content'', JArr [JObj [(''type'', JStr ''content''), (''content'', JObj [(''type'', JStr ''text''),
        (''text'', JStr ''The Agent updated a tool call that was not introduced earlier.'')])]])]"

definition materialize_tool :: "json list \<Rightarrow> json list" where
  "materialize_tool updates =
     (let first = hd updates;
          start = (if kind_of first = ''tool_call_update'' then unknown_tool (json_index first ''toolCallId'') else first)
      in [foldl patch_tool start (tl updates)])"

definition materialize_plan :: "json list \<Rightarrow> json list" where
  "materialize_plan updates =
     (if kind_of (last updates) = ''plan_removed''
      then case find (\<lambda>u. kind_of u = ''plan_update'') (rev updates) of
             Some introduction \<Rightarrow> [introduction, last updates]
           | None \<Rightarrow> [last updates]
      else [last updates])"

text \<open>Two text blocks that agree but for their text become one.\<close>

definition append_block :: "json list \<Rightarrow> json \<Rightarrow> json list" where
  "append_block blocks incoming =
     (case (if blocks = [] then None else Some (last blocks), incoming) of
        (Some (JObj p), JObj n) \<Rightarrow>
          if get_str (JObj p) ''type'' = Some ''text'' \<and> get_str (JObj n) ''type'' = Some ''text'' \<and>
             json_eq (JObj (obj_insert ''text'' (JStr []) p)) (JObj (obj_insert ''text'' (JStr []) n))
          then case (get_str (JObj p) ''text'', get_str (JObj n) ''text'') of
                 (Some old, Some new) \<Rightarrow> butlast blocks @ [JObj (obj_insert ''text'' (JStr (old @ new)) p)]
               | _ \<Rightarrow> blocks @ [incoming]
          else blocks @ [incoming]
      | _ \<Rightarrow> blocks @ [incoming])"

text \<open>\<open>result["summary"].as_array_mut().unwrap()\<close> panics where an update has made the summary something else.\<close>

definition compaction_field :: "json \<Rightarrow> string \<Rightarrow> (string \<times> json) list \<Rightarrow> (string \<times> json) list" where
  "compaction_field update field m =
     (case json_get update field of
        Some v \<Rightarrow> obj_insert field (if field = ''summary'' \<and> is_null v then JArr [] else v) m
      | None \<Rightarrow> m)"

definition compaction_step :: "json \<Rightarrow> (string \<times> json) list \<Rightarrow> (unit, (string \<times> json) list) result" where
  "compaction_step update m =
     (if kind_of update = ''compaction_summary_chunk''
      then case map_of m ''summary'' of
             Some (JArr blocks) \<Rightarrow> Ok (obj_insert ''summary'' (JArr (append_block blocks (json_index update ''content''))) m)
           | _ \<Rightarrow> Panic
      else Ok (fold (compaction_field update) [''status'', ''summary'', ''error''] m))"

fun compaction_steps :: "json list \<Rightarrow> (string \<times> json) list \<Rightarrow> (unit, (string \<times> json) list) result" where
  "compaction_steps [] m = Ok m"
| "compaction_steps (u # us) m = res_bind (compaction_step u m) (compaction_steps us)"

definition materialize_compaction :: "json list \<Rightarrow> (unit, json list) result" where
  "materialize_compaction updates =
     res_bind (compaction_steps updates
       [(''sessionUpdate'', JStr ''compaction_update''), (''compactionId'', json_index (hd updates) ''compactionId''),
        (''status'', JStr ''in_progress''), (''summary'', JArr [])])
       (\<lambda>m. Ok [JObj m])"

definition materialize :: "view_entry \<Rightarrow> (unit, json list) result" where
  "materialize e =
     (if ve_kind e \<in> {''tool_call'', ''tool_call_update''} then Ok (materialize_tool (ve_updates e))
      else if ve_kind e \<in> {''plan'', ''plan_update'', ''plan_removed''} then Ok (materialize_plan (ve_updates e))
      else if ve_kind e \<in> {''compaction_update'', ''compaction_summary_chunk''} then materialize_compaction (ve_updates e)
      else Ok (ve_updates e))"

section \<open>Entries\<close>

definition is_control :: "string \<Rightarrow> bool" where
  "is_control k \<longleftrightarrow> k \<in> {''current_mode_update'', ''config_option_update'', ''available_commands_update'',
     ''session_info_update'', ''usage_update''}"

definition is_message_kind :: "string \<Rightarrow> bool" where
  "is_message_kind k \<longleftrightarrow> k \<in> {''user_message_chunk'', ''agent_message_chunk'', ''agent_thought_chunk''}"

definition entry_key :: "json \<Rightarrow> (string \<times> string) option" where
  "entry_key update =
     (let k = kind_of update
      in if k \<in> {''tool_call'', ''tool_call_update''} then map_option (Pair ''tool'') (get_str update ''toolCallId'')
         else if k = ''plan'' then Some (''plan'', '''')
         else if k = ''plan_update''
         then map_option (Pair ''plan'') (Option.bind (json_get update ''plan'') (\<lambda>p. get_str p ''planId''))
         else if k = ''plan_removed'' then map_option (Pair ''plan'') (get_str update ''planId'')
         else if k \<in> {''compaction_update'', ''compaction_summary_chunk''}
         then map_option (Pair ''compaction'') (get_str update ''compactionId'')
         else if is_message_kind k then map_option (Pair k) (get_str update ''messageId'')
         else None)"

text \<open>The id an entry of message chunks has, from the first chunk that names one.\<close>

definition entry_message_id :: "view_entry \<Rightarrow> string option" where
  "entry_message_id e =
     (case find (\<lambda>u. get_str u ''messageId'' \<noteq> None) (ve_updates e) of Some u \<Rightarrow> get_str u ''messageId'' | None \<Rightarrow> None)"

definition joins_last :: "json \<Rightarrow> view_entry list \<Rightarrow> bool" where
  "joins_last update es \<longleftrightarrow>
     is_message_kind (kind_of update) \<and> es \<noteq> [] \<and> ve_kind (last es) = kind_of update \<and>
     (entry_message_id (last es) = None \<or> get_str update ''messageId'' = None \<or>
      entry_message_id (last es) = get_str update ''messageId'')"

definition existing_entry :: "json \<Rightarrow> view_entry list \<Rightarrow> ((string \<times> string), nat) hash_map \<Rightarrow> nat option" where
  "existing_entry update es named =
     (case Option.bind (entry_key update) (hm_get named) of
        Some i \<Rightarrow> Some i
      | None \<Rightarrow> if joins_last update es then Some (length es - 1) else None)"

definition add_update :: "json \<Rightarrow> view_entry list \<times> ((string \<times> string), nat) hash_map
    \<Rightarrow> view_entry list \<times> ((string \<times> string), nat) hash_map" where
  "add_update update st =
     (case st of (es, named) \<Rightarrow>
        if is_control (kind_of update) then (es, named)
        else let existing = existing_entry update es named;
                 index = (case existing of Some i \<Rightarrow> i | None \<Rightarrow> length es);
                 es' = (case existing of
                          Some i \<Rightarrow> es[i := (es ! i)\<lparr>ve_updates := ve_updates (es ! i) @ [update]\<rparr>]
                        | None \<Rightarrow> es @ [\<lparr>ve_kind = kind_of update, ve_updates = [update]\<rparr>])
             in (es', case entry_key update of Some key \<Rightarrow> hm_insert key index named | None \<Rightarrow> named))"

definition empty_plan :: "view_entry \<Rightarrow> bool" where
  "empty_plan e \<longleftrightarrow> ve_kind e = ''plan'' \<and> json_index (last (ve_updates e)) ''entries'' = JArr []"

definition group_updates :: "json list \<Rightarrow> view_entry list" where
  "group_updates updates = fst (fold add_update updates ([], []))"

definition entries_of :: "json list \<Rightarrow> view_entry list" where
  "entries_of updates = filter (\<lambda>e. \<not> empty_plan e) (group_updates updates)"

section \<open>Turns\<close>

definition prompt_operation :: "json \<Rightarrow> string option" where
  "prompt_operation update =
     Option.bind (json_get update ''_meta'') (\<lambda>m. Option.bind (json_get m ''attyd'') (\<lambda>a. get_str a ''turnOperationId''))"

record turn_scan =
  tn_result :: "view_turn list"
  tn_start :: nat
  tn_prompt :: "json option"
  tn_non_prompt :: bool

definition history_id :: "nat \<Rightarrow> nat \<Rightarrow> string" where
  "history_id start n = ''history-'' @ decimal start @ ''-'' @ decimal n"

definition close_turn :: "json list \<Rightarrow> nat \<Rightarrow> json \<Rightarrow> turn_scan \<Rightarrow> turn_scan" where
  "close_turn updates offset outcome st =
     st\<lparr>tn_result := tn_result st @ [\<lparr>vt_id = history_id (tn_start st) (length (tn_result st)),
          vt_entries = entries_of (take (offset - tn_start st) (drop (tn_start st) updates)), vt_outcomes = [outcome]\<rparr>],
        tn_start := offset, tn_prompt := None, tn_non_prompt := False\<rparr>"

definition outcomes_at :: "json list \<Rightarrow> nat \<Rightarrow> json list" where
  "outcomes_at outcomes offset =
     filter (\<lambda>x. case as_u64 (json_index x ''afterUpdate'') of Some n \<Rightarrow> unat n = offset | None \<Rightarrow> False) outcomes"

definition same_prompt :: "json option \<Rightarrow> bool \<Rightarrow> json \<Rightarrow> bool" where
  "same_prompt prompt non_prompt update =
     (case prompt of
        None \<Rightarrow> False
      | Some previous \<Rightarrow>
          (prompt_operation previous \<noteq> None \<and> prompt_operation previous = prompt_operation update) \<or>
          (get_str previous ''messageId'' \<noteq> None \<and> json_eq (json_index previous ''messageId'') (json_index update ''messageId'')) \<or>
          (\<not> non_prompt \<and> prompt_operation previous = prompt_operation update \<and>
           (is_null (json_index previous ''messageId'') \<or> is_null (json_index update ''messageId'') \<or>
            json_eq (json_index previous ''messageId'') (json_index update ''messageId''))))"

definition split_turn :: "json list \<Rightarrow> nat \<Rightarrow> turn_scan \<Rightarrow> turn_scan" where
  "split_turn updates offset st =
     (let es = entries_of (take (offset - tn_start st) (drop (tn_start st) updates));
          st1 = (if es = [] then st
                 else st\<lparr>tn_result := tn_result st @ [\<lparr>vt_id = history_id (tn_start st) (length (tn_result st)),
                        vt_entries = es, vt_outcomes = []\<rparr>]\<rparr>)
      in st1\<lparr>tn_start := offset, tn_non_prompt := False\<rparr>)"

definition scan_update :: "json list \<Rightarrow> nat \<Rightarrow> turn_scan \<Rightarrow> turn_scan" where
  "scan_update updates offset st =
     (let update = updates ! offset
      in if kind_of update = ''user_message_chunk''
         then (if tn_start st < offset \<and> \<not> same_prompt (tn_prompt st) (tn_non_prompt st) update
               then split_turn updates offset st else st)\<lparr>tn_prompt := Some update\<rparr>
         else if is_control (kind_of update) then st
         else st\<lparr>tn_non_prompt := True\<rparr>)"

definition scan_offset :: "json list \<Rightarrow> json list \<Rightarrow> nat \<Rightarrow> turn_scan \<Rightarrow> turn_scan" where
  "scan_offset updates outcomes offset st =
     (let st1 = fold (close_turn updates offset) (outcomes_at outcomes offset) st
      in if offset < length updates then scan_update updates offset st1 else st1)"

definition array_or_empty :: "json \<Rightarrow> json list" where
  "array_or_empty v = (case as_array v of Some xs \<Rightarrow> xs | None \<Rightarrow> [])"

definition turns_of :: "json \<Rightarrow> view_turn list" where
  "turns_of view =
     (let updates = array_or_empty (json_index view ''timeline'');
          outcomes = array_or_empty (json_index view ''turnOutcomes'');
          st = fold (scan_offset updates outcomes) [0..<Suc (length updates)]
                 \<lparr>tn_result = [], tn_start = 0, tn_prompt = None, tn_non_prompt = False\<rparr>
      in tn_result (if tn_start st < length updates then split_turn updates (length updates) st else st))"

definition output_index :: "view_turn \<Rightarrow> nat option" where
  "output_index t = rposition (\<lambda>e. ve_kind e = ''agent_message_chunk'') (vt_entries t)"

definition turn_operations :: "view_turn \<Rightarrow> string list" where
  "turn_operations t =
     List.map_filter (\<lambda>x. get_str x ''operationId'') (vt_outcomes t) @
     List.map_filter prompt_operation (concat (map ve_updates (filter is_prompt (vt_entries t))))"

definition turn_matches_operation :: "view_turn \<Rightarrow> (string \<Rightarrow> bool) \<Rightarrow> bool" where
  "turn_matches_operation t matches = list_ex matches (turn_operations t)"

definition turn_operation :: "view_turn \<Rightarrow> string option" where
  "turn_operation t =
     (case find (\<lambda>x. get_str x ''operationId'' \<noteq> None) (rev (vt_outcomes t)) of
        Some x \<Rightarrow> get_str x ''operationId''
      | None \<Rightarrow>
          (case find (\<lambda>u. prompt_operation u \<noteq> None) (concat (map ve_updates (filter is_prompt (vt_entries t)))) of
             Some u \<Rightarrow> prompt_operation u
           | None \<Rightarrow> None))"


section \<open>The compact view\<close>

text \<open>The ids of all terminals a value mentions, a list for the set the code collects.\<close>

fun view_terminal_references :: "json \<Rightarrow> string list" where
  "view_terminal_references (JArr xs) = concat (map view_terminal_references xs)"
| "view_terminal_references (JObj m) =
     (case map_of m ''terminalId'' of Some (JStr i) \<Rightarrow> [i] | _ \<Rightarrow> []) @ concat (map (\<lambda>p. view_terminal_references (snd p)) m)"
| "view_terminal_references _ = []"

text \<open>Whether the entry at an index is part of the process: neither a prompt nor the final answer.\<close>

definition in_process :: "view_turn \<Rightarrow> nat \<Rightarrow> bool" where
  "in_process t i \<longleftrightarrow> \<not> is_prompt (vt_entries t ! i) \<and> output_index t \<noteq> Some i"

definition process_entries :: "view_turn \<Rightarrow> view_entry list" where
  "process_entries t = map (\<lambda>i. vt_entries t ! i) (filter (in_process t) [0..<length (vt_entries t)])"

record turn_view =
  tw_timeline :: "json list"
  tw_count :: nat
  tw_ranges :: "(nat \<times> nat) list"

definition show_entry :: "bool \<Rightarrow> view_turn \<Rightarrow> nat \<Rightarrow> turn_view \<Rightarrow> (unit, turn_view) result" where
  "show_entry included t i w =
     (let process = in_process t i;
          w1 = w\<lparr>tw_count := tw_count w + (if process then 1 else 0)\<rparr>
      in if \<not> process \<or> included
         then res_bind (materialize (vt_entries t ! i)) (\<lambda>shown.
           let timeline = tw_timeline w @ shown
           in Ok (w1\<lparr>tw_timeline := timeline,
                tw_ranges := (if process then tw_ranges w else tw_ranges w @ [(length (tw_timeline w), length timeline)])\<rparr>))
         else Ok w1)"

fun show_entries :: "bool \<Rightarrow> view_turn \<Rightarrow> nat list \<Rightarrow> turn_view \<Rightarrow> (unit, turn_view) result" where
  "show_entries included t [] w = Ok w"
| "show_entries included t (i # is) w = res_bind (show_entry included t i w) (show_entries included t is)"

definition place_outcome :: "nat \<Rightarrow> json \<Rightarrow> (unit, json) result" where
  "place_outcome n outcome = (case json_set outcome ''afterUpdate'' (json_nat n) of Some v \<Rightarrow> Ok v | None \<Rightarrow> Panic)"

fun try_all :: "('a \<Rightarrow> ('e, 'b) result) \<Rightarrow> 'a list \<Rightarrow> ('e, 'b list) result" where
  "try_all f [] = Ok []"
| "try_all f (x # xs) = res_bind (f x) (\<lambda>y. res_bind (try_all f xs) (\<lambda>ys. Ok (y # ys)))"

definition range_json :: "nat \<times> nat \<Rightarrow> json" where
  "range_json r = JObj [(''start'', json_nat (fst r)), (''end'', json_nat (snd r))]"

definition descriptor :: "json \<Rightarrow> view_turn \<Rightarrow> nat \<Rightarrow> turn_view \<Rightarrow> json list \<Rightarrow> bool \<Rightarrow> json" where
  "descriptor view t before w outcomes included =
     JObj ([(''turnId'', JStr (vt_id t)), (''beforeUpdate'', json_nat before), (''afterUpdate'', json_nat (length (tw_timeline w))),
        (''processCount'', json_nat (tw_count w)), (''historyRevision'', json_index view ''historyRevision''),
        (''outcomes'', JArr outcomes), (''visibleRanges'', JArr (map range_json (tw_ranges w)))] @
      (case turn_operation t of Some operation \<Rightarrow> [(''operationId'', JStr operation)] | None \<Rightarrow> []) @
      (if included then [(''processIncluded'', JBool True)] else []))"

record compact_state =
  cs_timeline :: "json list"
  cs_descriptors :: "json list"
  cs_outcomes :: "json list"
  cs_observed :: bool

definition compact_turn :: "json \<Rightarrow> string option \<Rightarrow> string list \<Rightarrow> view_turn \<Rightarrow> compact_state \<Rightarrow> (unit, compact_state) result" where
  "compact_turn view include_process_from excluded t st =
     (let observed = (cs_observed st \<or> (case include_process_from of Some operation \<Rightarrow> turn_matches_operation t (\<lambda>c. c = operation)
            | None \<Rightarrow> False));
          included = (observed \<and> \<not> turn_matches_operation t (\<lambda>c. c \<in> set excluded))
      in res_bind (show_entries included t [0..<length (vt_entries t)] \<lparr>tw_timeline = cs_timeline st, tw_count = 0, tw_ranges = []\<rparr>) (\<lambda>w.
         res_bind (try_all (place_outcome (length (tw_timeline w))) (vt_outcomes t)) (\<lambda>outcomes.
           Ok \<lparr>cs_timeline = tw_timeline w,
             cs_descriptors = cs_descriptors st @ [descriptor view t (length (cs_timeline st)) w outcomes included],
             cs_outcomes = cs_outcomes st @ outcomes, cs_observed = observed\<rparr>)))"

fun compact_turns :: "json \<Rightarrow> string option \<Rightarrow> string list \<Rightarrow> view_turn list \<Rightarrow> compact_state \<Rightarrow> (unit, compact_state) result" where
  "compact_turns view operation excluded [] st = Ok st"
| "compact_turns view operation excluded (t # ts) st =
     res_bind (compact_turn view operation excluded t st) (compact_turns view operation excluded ts)"

text \<open>Only an object can take the new fields; \<open>view["terminals"]\<close> as a place adds the field if it is missing.\<close>

definition keep_terminals :: "string list \<Rightarrow> (string \<times> json) list \<Rightarrow> (string \<times> json) list" where
  "keep_terminals retained m =
     (case map_of m ''terminals'' of
        Some (JObj ts) \<Rightarrow> obj_insert ''terminals'' (JObj (filter (\<lambda>p. fst p \<in> set retained) ts)) m
      | Some _ \<Rightarrow> m
      | None \<Rightarrow> obj_insert ''terminals'' JNull m)"

definition compact_fields :: "json list \<Rightarrow> json list \<Rightarrow> json list \<Rightarrow> (string \<times> json) list \<Rightarrow> (string \<times> json) list" where
  "compact_fields timeline descriptors outcomes m =
     obj_insert ''turnOutcomes'' (JArr outcomes) (obj_insert ''collapsedTurns'' (JArr descriptors) (obj_insert ''timeline'' (JArr timeline) m))"

definition compact_view_from :: "json \<Rightarrow> json option \<Rightarrow> string option \<Rightarrow> string list \<Rightarrow> (unit, json) result" where
  "compact_view_from view live_terminals include_process_from exclude_process_for =
     res_bind (compact_turns view include_process_from exclude_process_for (turns_of view)
         \<lparr>cs_timeline = [], cs_descriptors = [], cs_outcomes = [], cs_observed = False\<rparr>) (\<lambda>st.
       case (case view of JObj m \<Rightarrow> Some m | JNull \<Rightarrow> Some [] | _ \<Rightarrow> None) of
         None \<Rightarrow> Panic
       | Some m \<Rightarrow>
           (let m1 = compact_fields (cs_timeline st) (cs_descriptors st) (cs_outcomes st) m;
                retained = concat (map (\<lambda>field. view_terminal_references (json_index (JObj m1) field)) [''timeline'', ''activeTurn'', ''interactions''])
                  @ (case live_terminals of Some (JObj ts) \<Rightarrow> map fst ts | _ \<Rightarrow> [])
            in Ok (JObj (keep_terminals retained m1))))"

definition compact_view :: "json \<Rightarrow> json option \<Rightarrow> (unit, json) result" where
  "compact_view view live_terminals = compact_view_from view live_terminals None []"

section \<open>A page of a process\<close>

definition page_json :: "json \<Rightarrow> view_turn \<Rightarrow> string \<Rightarrow> string \<Rightarrow> nat \<Rightarrow> nat \<Rightarrow> json list list \<Rightarrow> json" where
  "page_json view t turn_id revision offset end_at shown =
     (let items = JArr (map JArr shown)
      in JObj [(''bridgeEpoch'', json_index view ''bridgeEpoch''), (''sessionId'', json_index view ''sessionId''),
           (''sessionIncarnation'', json_index view ''sessionIncarnation''),
           (''turnId'', JStr turn_id), (''historyRevision'', JStr revision), (''offset'', json_nat offset),
           (''total'', json_nat (length (process_entries t))),
           (''nextOffset'', (if end_at < length (process_entries t) then json_nat end_at else JNull)),
           (''items'', items),
           (''terminals'', JObj (case json_index view ''terminals'' of
              JObj ts \<Rightarrow> filter (\<lambda>p. fst p \<in> set (view_terminal_references items)) ts | _ \<Rightarrow> [])),
           (''response'', (if vt_outcomes t = [] then JNull else json_index (last (vt_outcomes t)) ''response''))])"

definition process_page :: "json \<Rightarrow> string \<Rightarrow> string \<Rightarrow> nat \<Rightarrow> (page_error, json) result" where
  "process_page view turn_id revision offset =
     (if get_str view ''historyRevision'' \<noteq> Some revision then Err StaleHistory
      else case find (\<lambda>t. vt_id t = turn_id) (turns_of view) of
        None \<Rightarrow> Err TurnNotFound
      | Some t \<Rightarrow>
          if length (process_entries t) < offset \<or> offset mod process_page_size \<noteq> 0 then Err InvalidOffset
          else let end_at = min (sat_add offset process_page_size) (length (process_entries t))
               in (case try_all materialize (take (end_at - offset) (drop offset (process_entries t))) of
                     Ok shown \<Rightarrow> Ok (page_json view t turn_id revision offset end_at shown)
                   | _ \<Rightarrow> Panic))"

section \<open>Turns have distinct ids\<close>

lemma decimal_no_dash: "c \<in> set (decimal n) \<Longrightarrow> c \<noteq> CHR ''-''"
proof (induction n rule: decimal.induct)
  case (1 n)
  have d: "char_of (48 + m) \<noteq> CHR ''-''" if "m < 10" for m :: nat
  proof
    assume "char_of (48 + m) = CHR ''-''"
    then have "(of_char (char_of (48 + m) :: char) :: nat) = of_char CHR ''-''" by simp
    with that show False by simp
  qed
  show ?case
  proof (cases "n < 10")
    case True
    with 1 d show ?thesis by (simp add: decimal.simps [of n])
  next
    case False
    with 1 d [of "n mod 10"] show ?thesis by (auto simp: decimal.simps [of n])
  qed
qed

lemma history_id_inject: "history_id s n = history_id s' n' \<Longrightarrow> n = n'"
proof -
  assume e: "history_id s n = history_id s' n'"
  have t: "takeWhile (\<lambda>c. c \<noteq> CHR ''-'') (rev (decimal k) @ CHR ''-'' # x) = rev (decimal k)" for k x
    using decimal_no_dash [of _ k] by (subst takeWhile_append2) auto
  have "takeWhile (\<lambda>c. c \<noteq> CHR ''-'') (rev (history_id s n)) = takeWhile (\<lambda>c. c \<noteq> CHR ''-'') (rev (history_id s' n'))"
    using e by simp
  then have "rev (decimal n) = rev (decimal n')" by (simp add: history_id_def t)
  then show ?thesis by (simp add: decimal_inject)
qed

definition numbered :: "view_turn list \<Rightarrow> bool" where
  "numbered ts \<longleftrightarrow> (\<forall>i < length ts. \<exists>s. vt_id (ts ! i) = history_id s i)"

lemma numbered_snoc: "numbered ts \<Longrightarrow> vt_id t = history_id s (length ts) \<Longrightarrow> numbered (ts @ [t])"
  by (auto simp: numbered_def nth_append less_Suc_eq)

lemma numbered_distinct: "numbered ts \<Longrightarrow> distinct (map vt_id ts)"
  unfolding distinct_conv_nth numbered_def length_map by (metis history_id_inject nth_map)

lemma close_turn_numbered: "numbered (tn_result st) \<Longrightarrow> numbered (tn_result (close_turn us n out st))"
  by (auto simp: close_turn_def intro!: numbered_snoc)

lemma close_turns_numbered: "numbered (tn_result st) \<Longrightarrow> numbered (tn_result (fold (close_turn us n) outs st))"
  by (induction outs arbitrary: st) (simp_all add: close_turn_numbered)

lemma split_turn_numbered: "numbered (tn_result st) \<Longrightarrow> numbered (tn_result (split_turn us n st))"
  by (auto simp: split_turn_def Let_def intro!: numbered_snoc)

lemma scan_numbered: "numbered (tn_result st) \<Longrightarrow> numbered (tn_result (fold (scan_offset us outs) ns st))"
proof (induction ns arbitrary: st)
  case (Cons n ns)
  have "numbered (tn_result (scan_offset us outs n st))"
    using close_turns_numbered [OF Cons.prems, of us n "outcomes_at outs n"]
    by (auto simp: scan_offset_def scan_update_def Let_def intro!: split_turn_numbered)
  with Cons.IH show ?case by simp
qed simp

lemma turn_ids_distinct: "distinct (map vt_id (turns_of view))"
proof (rule numbered_distinct)
  show "numbered (turns_of view)"
    by (auto simp: turns_of_def Let_def simp del: upt_Suc intro!: split_turn_numbered scan_numbered) (simp_all add: numbered_def)
qed

lemma find_by_id: "distinct (map f xs) \<Longrightarrow> t \<in> set xs \<Longrightarrow> find (\<lambda>x. f x = f t) xs = Some t"
  by (induction xs) auto

section \<open>Pages\<close>

lemma try_all_Ok: "try_all f xs = Ok ys \<longleftrightarrow> map f xs = map Ok ys"
proof (induction xs arbitrary: ys)
  case (Cons x xs)
  show ?case by (cases ys) (auto simp: Cons.IH)
qed auto

lemma try_all_slice: "try_all f xs = Ok ys \<Longrightarrow> try_all f (take n (drop m xs)) = Ok (take n (drop m ys))"
  by (simp add: try_all_Ok flip: take_map drop_map)

lemma try_all_length: "try_all f xs = Ok ys \<Longrightarrow> length ys = length xs"
  by (metis length_map try_all_Ok)

text \<open>A reader that asks for the first page and then follows \<open>nextOffset\<close>; it gives up after a number of pages.\<close>

fun read_pages :: "nat \<Rightarrow> json \<Rightarrow> string \<Rightarrow> string \<Rightarrow> nat \<Rightarrow> json list option" where
  "read_pages 0 view tid revision offset = None"
| "read_pages (Suc n) view tid revision offset =
     (case process_page view tid revision offset of
        Ok p \<Rightarrow>
          (case (as_array (json_index p ''items''), as_u64 (json_index p ''nextOffset'')) of
             (Some items, Some k) \<Rightarrow> map_option ((@) items) (read_pages n view tid revision (unat k))
           | (Some items, None) \<Rightarrow> Some items
           | _ \<Rightarrow> None)
      | _ \<Rightarrow> None)"

lemma page_fields [simp]:
  "json_index (page_json view t tid revision offset end_at shown) ''items'' = JArr (map JArr shown)"
  "json_index (page_json view t tid revision offset end_at shown) ''nextOffset''
     = (if end_at < length (process_entries t) then json_nat end_at else JNull)"
  by (simp_all add: page_json_def Let_def json_index_def)

lemma process_page_Ok:
  assumes "get_str view ''historyRevision'' = Some revision" "t \<in> set (turns_of view)"
    "try_all materialize (process_entries t) = Ok shown" "length (process_entries t) + process_page_size \<le> usize_max"
    "offset \<le> length (process_entries t)" "process_page_size dvd offset"
  shows "process_page view (vt_id t) revision offset
     = Ok (page_json view t (vt_id t) revision offset (min (offset + process_page_size) (length (process_entries t)))
         (take process_page_size (drop offset shown)))"
proof -
  have "sat_add offset process_page_size = offset + process_page_size"
    using assms(4,5) by (intro sat_add_exact) simp
  moreover have "take (min (offset + process_page_size) (length (process_entries t)) - offset) (drop offset shown)
      = take process_page_size (drop offset shown)"
    using try_all_length [OF assms(3)] assms(5) by (simp add: min_def)
  ultimately show ?thesis
    using assms(1,5,6) find_by_id [OF turn_ids_distinct assms(2)] try_all_slice [OF assms(3)]
    by (simp add: process_page_def Let_def mod_eq_0_iff_dvd)
qed

lemma read_pages_from:
  assumes t: "get_str view ''historyRevision'' = Some revision" "t \<in> set (turns_of view)"
    "try_all materialize (process_entries t) = Ok shown" "length (process_entries t) + process_page_size \<le> usize_max"
  shows "offset \<le> length (process_entries t) \<Longrightarrow> process_page_size dvd offset \<Longrightarrow>
     (length (process_entries t) - offset) div process_page_size < n \<Longrightarrow>
     read_pages n view (vt_id t) revision offset = Some (map JArr (drop offset shown))"
proof (induction n arbitrary: offset)
  case (Suc n)
  let ?len = "length (process_entries t)" and ?size = process_page_size
  have len: "length shown = ?len" by (rule try_all_length [OF t(3)])
  note page = process_page_Ok [OF t Suc.prems(1,2)]
  show ?case
  proof (cases "offset + ?size < ?len")
    case True
    then have lt: "offset + ?size < 2 ^ 64" using t(4) by (simp add: usize_max_def)
    have "(?len - (offset + ?size)) div ?size < n"
      using Suc.prems(3) True by (simp add: process_page_size_def)
    then have "read_pages n view (vt_id t) revision (offset + ?size) = Some (map JArr (drop (offset + ?size) shown))"
      using True Suc.prems(2) by (intro Suc.IH) simp_all
    moreover obtain k where "as_u64 (json_nat (offset + ?size)) = Some k" "unat k = offset + ?size"
      using lt by (auto simp: json_nat_def unsigned_of_nat take_bit_nat_eq_self simp del: of_nat_add)
    moreover have "map JArr (drop offset shown) = map JArr (take ?size (drop offset shown)) @ map JArr (drop (offset + ?size) shown)"
      by (metis append_take_drop_id drop_drop add.commute map_append)
    ultimately show ?thesis
      using True page by (simp add: min_def)
  next
    case False
    then have "drop offset shown = take ?size (drop offset shown)" using len by simp
    with False page show ?thesis by simp
  qed
qed simp

text \<open>
  (C28) The pages of a process are complete. Following \<open>nextOffset\<close> from the first page of any turn of a
  view yields every entry of its process exactly once and in order, in as many requests as there are
  pages; a turn is addressed by an id no other turn of the view has.
\<close>

theorem pages_are_complete:
  assumes "get_str view ''historyRevision'' = Some revision" "t \<in> set (turns_of view)"
    "try_all materialize (process_entries t) = Ok shown" "length (process_entries t) + process_page_size \<le> usize_max"
  shows "read_pages (Suc (length (process_entries t) div process_page_size)) view (vt_id t) revision 0 = Some (map JArr shown)"
  using read_pages_from [OF assms, of 0 "Suc (length (process_entries t) div process_page_size)"] by (simp del: read_pages.simps)

section \<open>What the compact view keeps\<close>

definition visible_entries :: "view_turn \<Rightarrow> view_entry list" where
  "visible_entries t = map (\<lambda>i. vt_entries t ! i) (filter (\<lambda>i. \<not> in_process t i) [0..<length (vt_entries t)])"

lemma show_entries_hidden:
  "show_entries False t is w = Ok w' \<Longrightarrow>
     \<exists>shown. try_all materialize (map (\<lambda>i. vt_entries t ! i) (filter (\<lambda>i. \<not> in_process t i) is)) = Ok shown \<and>
       tw_timeline w' = tw_timeline w @ concat shown \<and> tw_count w' = tw_count w + length (filter (in_process t) is)"
proof (induction "is" arbitrary: w)
  case (Cons i "is")
  from Cons.prems obtain v where v: "show_entry False t i w = Ok v" "show_entries False t is v = Ok w'" by auto
  from Cons.IH [OF v(2)] obtain shown where s:
    "try_all materialize (map (\<lambda>i. vt_entries t ! i) (filter (\<lambda>i. \<not> in_process t i) is)) = Ok shown"
    "tw_timeline w' = tw_timeline v @ concat shown" "tw_count w' = tw_count v + length (filter (in_process t) is)" by blast
  show ?case
  proof (cases "in_process t i")
    case True
    with v(1) s show ?thesis by (auto simp: show_entry_def Let_def)
  next
    case False
    with v(1) obtain ms where m: "materialize (vt_entries t ! i) = Ok ms" "tw_timeline v = tw_timeline w @ ms" "tw_count v = tw_count w"
      by (auto simp: show_entry_def Let_def)
    with s False show ?thesis by (intro exI [of _ "ms # shown"]) simp
  qed
qed auto

text \<open>What a descriptor says of its turn: the id, where it begins and ends in the timeline, and the hidden entries.\<close>

definition summary_of :: "json \<Rightarrow> json \<times> json \<times> json \<times> json" where
  "summary_of d = (json_index d ''turnId'', json_index d ''beforeUpdate'', json_index d ''afterUpdate'', json_index d ''processCount'')"

fun summaries :: "nat \<Rightarrow> view_turn list \<Rightarrow> json list list list \<Rightarrow> (json \<times> json \<times> json \<times> json) list" where
  "summaries n (t # ts) (s # ss) =
     (JStr (vt_id t), json_nat n, json_nat (n + length (concat s)), json_nat (length (process_entries t)))
       # summaries (n + length (concat s)) ts ss"
| "summaries n _ _ = []"

lemma summary_descriptor [simp]:
  "summary_of (descriptor view t before w outs included)
     = (JStr (vt_id t), json_nat before, json_nat (length (tw_timeline w)), json_nat (tw_count w))"
  by (simp add: summary_of_def descriptor_def json_index_def)

lemma compact_turns_hidden:
  "compact_turns view None [] ts st = Ok st' \<Longrightarrow> \<not> cs_observed st \<Longrightarrow>
     \<exists>shown ds. list_all2 (\<lambda>t s. try_all materialize (visible_entries t) = Ok s) ts shown \<and>
       cs_timeline st' = cs_timeline st @ concat (concat shown) \<and> cs_descriptors st' = cs_descriptors st @ ds \<and>
       map summary_of ds = summaries (length (cs_timeline st)) ts shown"
proof (induction ts arbitrary: st)
  case Nil
  then show ?case by (intro exI [of _ "[]"]) simp
next
  case (Cons t ts)
  from Cons.prems(1) obtain mid where m: "compact_turn view None [] t st = Ok mid" "compact_turns view None [] ts mid = Ok st'" by auto
  from m(1) Cons.prems(2) obtain w outs where w:
    "show_entries False t [0..<length (vt_entries t)] \<lparr>tw_timeline = cs_timeline st, tw_count = 0, tw_ranges = []\<rparr> = Ok w"
    "cs_timeline mid = tw_timeline w" "\<not> cs_observed mid"
    "cs_descriptors mid = cs_descriptors st @ [descriptor view t (length (cs_timeline st)) w outs False]"
    by (auto simp: compact_turn_def Let_def)
  from show_entries_hidden [OF w(1)] obtain s where s: "try_all materialize (visible_entries t) = Ok s"
    "tw_timeline w = cs_timeline st @ concat s" "tw_count w = length (process_entries t)"
    by (auto simp: visible_entries_def process_entries_def)
  from Cons.IH [OF m(2) w(3)] obtain shown ds where i: "list_all2 (\<lambda>t s. try_all materialize (visible_entries t) = Ok s) ts shown"
    "cs_timeline st' = cs_timeline mid @ concat (concat shown)" "cs_descriptors st' = cs_descriptors mid @ ds"
    "map summary_of ds = summaries (length (cs_timeline mid)) ts shown" by blast
  show ?case
    by (rule exI [of _ "s # shown"], rule exI [of _ "descriptor view t (length (cs_timeline st)) w outs False # ds"])
       (simp add: s i w)
qed

text \<open>
  The compact view hides the processes and nothing else. Its timeline is what the prompts and the
  final answers of the turns show, turn after turn, and it has one descriptor per turn, with the id that
  addresses its pages, the stretch of the timeline that is the turn's, and the number of entries the pages
  hold.
\<close>

theorem compact_view_hides_processes:
  assumes "compact_view view live_terminals = Ok shown_view"
  shows "\<exists>shown ds. list_all2 (\<lambda>t s. try_all materialize (visible_entries t) = Ok s) (turns_of view) shown \<and>
     json_index shown_view ''timeline'' = JArr (concat (concat shown)) \<and>
     json_index shown_view ''collapsedTurns'' = JArr ds \<and> map summary_of ds = summaries 0 (turns_of view) shown"
proof -
  from assms obtain st m retained where s:
    "compact_turns view None [] (turns_of view) \<lparr>cs_timeline = [], cs_descriptors = [], cs_outcomes = [], cs_observed = False\<rparr> = Ok st"
    "shown_view = JObj (keep_terminals retained (compact_fields (cs_timeline st) (cs_descriptors st) (cs_outcomes st) m))"
    by (auto simp: compact_view_def compact_view_from_def Let_def split: option.splits)
  have k: "json_index (JObj (keep_terminals retained n)) field = json_index (JObj n) field" if "field \<noteq> ''terminals''" for n field
    using that by (auto simp: keep_terminals_def json_index_def split: option.splits json.splits)
  have "json_index shown_view ''timeline'' = JArr (cs_timeline st)" "json_index shown_view ''collapsedTurns'' = JArr (cs_descriptors st)"
    by (simp_all add: s(2) k) (simp_all add: compact_fields_def json_index_def)
  moreover from compact_turns_hidden [OF s(1)] obtain shown ds where
    "list_all2 (\<lambda>t s. try_all materialize (visible_entries t) = Ok s) (turns_of view) shown"
    "cs_timeline st = concat (concat shown)" "cs_descriptors st = ds" "map summary_of ds = summaries 0 (turns_of view) shown"
    by auto
  ultimately show ?thesis by (intro exI [of _ shown] exI [of _ ds]) simp
qed

section \<open>No update is lost\<close>

definition entry_updates :: "view_entry list \<Rightarrow> json list" where
  "entry_updates es = concat (map ve_updates es)"

definition grouping_ok :: "view_entry list \<times> ((string \<times> string), nat) hash_map \<Rightarrow> bool" where
  "grouping_ok st \<longleftrightarrow>
     (\<forall>key i. hm_get (snd st) key = Some i \<longrightarrow> i < length (fst st)) \<and> (\<forall>e \<in> set (fst st). ve_updates e \<noteq> [])"

lemma mset_entry_update:
  "i < length es \<Longrightarrow>
     mset (entry_updates (es[i := (es ! i)\<lparr>ve_updates := ve_updates (es ! i) @ [u]\<rparr>])) = add_mset u (mset (entry_updates es))"
proof (induction es arbitrary: i)
  case (Cons e es)
  then show ?case by (cases i) (auto simp: entry_updates_def)
qed simp

lemma existing_entry_less: "grouping_ok (es, named) \<Longrightarrow> existing_entry u es named = Some i \<Longrightarrow> i < length es"
  by (auto simp: existing_entry_def grouping_ok_def joins_last_def bind_eq_Some_conv split: option.splits if_splits)

lemma add_update_ok:
  assumes "grouping_ok st"
  shows "grouping_ok (add_update u st) \<and>
     mset (entry_updates (fst (add_update u st))) = mset (entry_updates (fst st)) + mset (filter (\<lambda>u. \<not> is_control (kind_of u)) [u])"
proof -
  obtain es named where st: "st = (es, named)" by (cases st)
  show ?thesis
  proof (cases "is_control (kind_of u)")
    case True
    with assms show ?thesis by (simp add: st add_update_def)
  next
    case False
    show ?thesis
    proof (cases "existing_entry u es named")
      case None
      with False assms show ?thesis
        by (auto simp: st add_update_def Let_def grouping_ok_def entry_updates_def hm.get_put less_Suc_eq split: option.splits if_splits)
    next
      case (Some i)
      from existing_entry_less [OF assms [unfolded st] Some] have i: "i < length es" .
      have "\<forall>e \<in> set (es[i := (es ! i)\<lparr>ve_updates := ve_updates (es ! i) @ [u]\<rparr>]). ve_updates e \<noteq> []"
        using assms set_update_subset_insert [of es i] by (fastforce simp: st grouping_ok_def)
      with Some False assms i mset_entry_update [OF i, of u] show ?thesis
        by (auto simp: st add_update_def Let_def grouping_ok_def hm.get_put split: option.splits if_splits)
    qed
  qed
qed

lemma group_updates_ok:
  "grouping_ok st \<Longrightarrow> grouping_ok (fold add_update us st) \<and>
     mset (entry_updates (fst (fold add_update us st)))
       = mset (entry_updates (fst st)) + mset (filter (\<lambda>u. \<not> is_control (kind_of u)) us)"
proof (induction us arbitrary: st)
  case (Cons u us)
  from add_update_ok [OF Cons.prems, of u] Cons.IH [of "add_update u st"] show ?case by auto
qed simp

lemma group_updates_mset:
  "mset (entry_updates (group_updates us)) = mset (filter (\<lambda>u. \<not> is_control (kind_of u)) us)"
  using group_updates_ok [of "([], [])" us] by (simp add: grouping_ok_def group_updates_def entry_updates_def hm.get_nil)

text \<open>The turns so far, but for those without entries, are the stretches of the timeline up to the current start.\<close>

definition cut_into :: "json list \<Rightarrow> view_turn list \<Rightarrow> json list list \<Rightarrow> bool" where
  "cut_into updates ts segments \<longleftrightarrow>
     concat segments = updates \<and> filter (\<lambda>es. es \<noteq> []) (map vt_entries ts) = filter (\<lambda>es. es \<noteq> []) (map entries_of segments)"

definition scan_ok :: "json list \<Rightarrow> turn_scan \<Rightarrow> bool" where
  "scan_ok updates st \<longleftrightarrow> (\<exists>segments. cut_into (take (tn_start st) updates) (tn_result st) segments)"

lemma take_segment: "m \<le> n \<Longrightarrow> take m us @ take (n - m) (drop m us) = take n us"
  by (metis le_add_diff_inverse take_add)

lemma close_turn_ok: "scan_ok us st \<Longrightarrow> tn_start st \<le> n \<Longrightarrow> scan_ok us (close_turn us n out st) \<and> tn_start (close_turn us n out st) = n"
proof -
  assume "scan_ok us st" and le: "tn_start st \<le> n"
  then obtain segs where "cut_into (take (tn_start st) us) (tn_result st) segs" by (auto simp: scan_ok_def)
  then have "cut_into (take n us) (tn_result (close_turn us n out st)) (segs @ [take (n - tn_start st) (drop (tn_start st) us)])"
    using take_segment [OF le, of us] by (simp add: cut_into_def close_turn_def)
  then show ?thesis by (auto simp: scan_ok_def close_turn_def)
qed

lemma close_turns_ok: "scan_ok us st \<Longrightarrow> tn_start st \<le> n \<Longrightarrow>
    scan_ok us (fold (close_turn us n) outs st) \<and> tn_start (fold (close_turn us n) outs st) \<le> n"
  by (induction outs arbitrary: st) (use close_turn_ok in \<open>auto simp: order_refl\<close>)

lemma split_turn_ok: "scan_ok us st \<Longrightarrow> tn_start st \<le> n \<Longrightarrow> scan_ok us (split_turn us n st) \<and> tn_start (split_turn us n st) = n"
proof -
  assume "scan_ok us st" and le: "tn_start st \<le> n"
  then obtain segs where "cut_into (take (tn_start st) us) (tn_result st) segs" by (auto simp: scan_ok_def)
  then have "cut_into (take n us) (tn_result (split_turn us n st)) (segs @ [take (n - tn_start st) (drop (tn_start st) us)])"
    using take_segment [OF le, of us] by (simp add: cut_into_def split_turn_def Let_def)
  then show ?thesis by (auto simp: scan_ok_def split_turn_def Let_def)
qed

lemma scan_offset_ok:
  assumes "scan_ok us st" "tn_start st \<le> n"
  shows "scan_ok us (scan_offset us outs n st) \<and> tn_start (scan_offset us outs n st) \<le> n"
proof -
  let ?c = "fold (close_turn us n) (outcomes_at outs n) st"
  have c: "scan_ok us ?c" "tn_start ?c \<le> n" using close_turns_ok [OF assms] by simp_all
  have p: "scan_ok us (tn_prompt_update f st) = scan_ok us st" "scan_ok us (tn_non_prompt_update g st) = scan_ok us st" for f g st
    by (simp_all add: scan_ok_def)
  show ?thesis
    using c split_turn_ok [OF c] by (simp add: scan_offset_def scan_update_def Let_def p)
qed

lemma scan_offsets_ok: "scan_ok us st \<Longrightarrow> tn_start st \<le> m \<Longrightarrow>
    scan_ok us (fold (scan_offset us outs) [m..<m + k] st) \<and> tn_start (fold (scan_offset us outs) [m..<m + k] st) \<le> m + k"
proof (induction k)
  case (Suc k)
  then have "scan_ok us (fold (scan_offset us outs) [m..<m + k] st)" "tn_start (fold (scan_offset us outs) [m..<m + k] st) \<le> m + k" by simp_all
  from scan_offset_ok [OF this, of outs] show ?case by (simp add: le_SucI)
qed simp

lemma mset_filter_partition: "mset (map f (filter P xs) @ map f (filter (\<lambda>x. \<not> P x) xs)) = mset (map f xs)"
  by (induction xs) auto

text \<open>
  The history is partitioned. The turns of a view cut its timeline into consecutive stretches; the
  entries of a stretch hold every update of it exactly once, but for the session controls and for a plan
  whose last state is empty; and each entry of a turn is either visible or part of the process.
\<close>

theorem history_is_partitioned:
  "\<exists>segments. cut_into (array_or_empty (json_index view ''timeline'')) (turns_of view) segments \<and>
     list_all (\<lambda>seg. mset (entry_updates (group_updates seg)) = mset (filter (\<lambda>u. \<not> is_control (kind_of u)) seg)) segments \<and>
     list_all (\<lambda>t. mset (process_entries t @ visible_entries t) = mset (vt_entries t)) (turns_of view)"
proof -
  let ?us = "array_or_empty (json_index view ''timeline'')" and ?outs = "array_or_empty (json_index view ''turnOutcomes'')"
  let ?init = "\<lparr>tn_result = [], tn_start = 0, tn_prompt = None, tn_non_prompt = False\<rparr> :: turn_scan"
  define st where "st = fold (scan_offset ?us ?outs) [0..<Suc (length ?us)] ?init"
  have "scan_ok ?us ?init" by (auto simp: scan_ok_def cut_into_def intro!: exI [of _ "[]"])
  from scan_offsets_ok [OF this, of 0 ?outs "Suc (length ?us)"] have s: "scan_ok ?us st" by (simp add: st_def)
  have turns: "turns_of view = tn_result (if tn_start st < length ?us then split_turn ?us (length ?us) st else st)"
    by (simp only: turns_of_def Let_def st_def)
  have "\<exists>segments. cut_into ?us (turns_of view) segments"
  proof (cases "tn_start st < length ?us")
    case True
    with split_turn_ok [OF s, of "length ?us"] have "scan_ok ?us (split_turn ?us (length ?us) st)"
      "tn_start (split_turn ?us (length ?us) st) = length ?us" by simp_all
    with True show ?thesis by (simp add: scan_ok_def turns)
  next
    case False
    with s show ?thesis by (simp add: scan_ok_def turns)
  qed
  moreover have "mset (process_entries t @ visible_entries t) = mset (vt_entries t)" for t
    unfolding process_entries_def visible_entries_def mset_filter_partition by (simp add: map_nth)
  ultimately show ?thesis by (simp add: list_all_iff group_updates_mset)
qed

section \<open>An example\<close>

text \<open>A prompt, a thought, a tool call and its update, and an answer in two chunks.\<close>

definition chunk :: "string \<Rightarrow> string \<Rightarrow> json" where
  "chunk kind u = JObj [(''sessionUpdate'', JStr kind), (''content'', JObj [(''type'', JStr ''text''), (''text'', JStr u)])]"

definition sample_view :: json where
  "sample_view = JObj
     [(''historyRevision'', JStr ''r''),
      (''timeline'', JArr
        [chunk ''user_message_chunk'' ''do it'', chunk ''agent_thought_chunk'' ''hm'',
         JObj [(''sessionUpdate'', JStr ''tool_call''), (''toolCallId'', JStr ''t''), (''status'', JStr ''pending'')],
         JObj [(''sessionUpdate'', JStr ''tool_call_update''), (''toolCallId'', JStr ''t''), (''status'', JStr ''completed'')],
         chunk ''agent_message_chunk'' ''do'', chunk ''agent_message_chunk'' ''ne'']),
      (''turnOutcomes'', JArr [JObj [(''afterUpdate'', JNum (PosInt 6)), (''operationId'', JStr ''op'')]])]"

definition sample_turn :: view_turn where
  "sample_turn = hd (turns_of sample_view)"

lemma sample_turn_facts:
  "turns_of sample_view = [sample_turn]" "vt_id sample_turn = ''history-0-0''" "length (process_entries sample_turn) = 2"
  "try_all materialize (process_entries sample_turn) =
     Ok [[chunk ''agent_thought_chunk'' ''hm''],
         [JObj [(''sessionUpdate'', JStr ''tool_call''), (''toolCallId'', JStr ''t''), (''status'', JStr ''completed'')]]]"
  by code_simp+

lemma pages_are_complete_witness:
  "read_pages 1 sample_view ''history-0-0'' ''r'' 0 =
     Some [JArr [chunk ''agent_thought_chunk'' ''hm''],
           JArr [JObj [(''sessionUpdate'', JStr ''tool_call''), (''toolCallId'', JStr ''t''), (''status'', JStr ''completed'')]]]"
proof -
  have r: "get_str sample_view ''historyRevision'' = Some ''r''" by code_simp
  have m: "sample_turn \<in> set (turns_of sample_view)" by (simp add: sample_turn_facts(1))
  have l: "length (process_entries sample_turn) + process_page_size \<le> usize_max"
    by (simp add: sample_turn_facts(3) process_page_size_def usize_max_def)
  from pages_are_complete [OF r m sample_turn_facts(4) l] show ?thesis
    by (simp add: sample_turn_facts(2,3) process_page_size_def del: read_pages.simps)
qed

definition sample_compact :: json where
  "sample_compact = (case compact_view sample_view None of Ok v \<Rightarrow> v | _ \<Rightarrow> JNull)"

lemma compact_view_hides_processes_witness:
  "\<exists>ds. json_index sample_compact ''collapsedTurns'' = JArr ds \<and>
     map summary_of ds = [(JStr ''history-0-0'', json_nat 0, json_nat 3, json_nat 2)]"
proof -
  have v: "compact_view sample_view None = Ok sample_compact" by code_simp
  from compact_view_hides_processes [OF v] obtain shown ds where s:
    "list_all2 (\<lambda>t s. try_all materialize (visible_entries t) = Ok s) (turns_of sample_view) shown"
    "json_index sample_compact ''collapsedTurns'' = JArr ds" "map summary_of ds = summaries 0 (turns_of sample_view) shown"
    by blast
  have e: "try_all materialize (visible_entries sample_turn) =
      Ok [[chunk ''user_message_chunk'' ''do it''], [chunk ''agent_message_chunk'' ''do'', chunk ''agent_message_chunk'' ''ne'']]"
    by code_simp
  with s(1) have "shown = [[[chunk ''user_message_chunk'' ''do it''], [chunk ''agent_message_chunk'' ''do'', chunk ''agent_message_chunk'' ''ne'']]]"
    by (auto simp: sample_turn_facts(1) list_all2_Cons1)
  with s(3) have "map summary_of ds = [(JStr ''history-0-0'', json_nat 0, json_nat 3, json_nat 2)]"
    by (simp add: sample_turn_facts numeral_3_eq_3)
  with s(2) show ?thesis by (intro exI [of _ ds] conjI)
qed
end
