(* ===== verification/Ordered_Ingress.thy ===== *)
theory Ordered_Ingress
  imports Json_Value "HOL-Library.Sublist"
begin

text \<open>
  The registration of outgoing requests and the ordered delivery of their completions
  (\<open>src/src/ordered_ingress.rs\<close>): a request is reserved for an owner, registered under the id the SDK gave
  it, and completed once, by its response or by a local failure, with an event in the shared queue.

  The SDK's router, which hands the response to its own waiter, is a parameter: its outcome is an
  argument of \<open>intercept_response\<close>. So is the serializer that measures a result: \<open>bytes_of\<close> is the length
  \<open>response_bytes\<close> counts, or None where \<open>serde_json\<close> fails. The queue is unbounded; it takes events until
  its receiver is closed.
\<close>

section \<open>State\<close>

record request_owner =
  ro_epoch :: string
  ro_session_id :: "string option"
  ro_incarnation :: "u64 option"
  ro_operation_id :: string
  ro_attempt_id :: "string option"

datatype request_class = LongRunning | ControlRequest

datatype completion_source = Response | LocalFailure

text \<open>A JSON-RPC id is a number, a string or null; a result is the error object or the value.\<close>

type_synonym request_id = json
type_synonym rpc_result = "json + json"

record ordered_completion =
  oc_owner :: request_owner
  oc_method :: string
  oc_request_id :: request_id
  oc_result :: rpc_result
  oc_source :: completion_source
  oc_response_bytes :: nat

datatype completion_disposition = CompletionDelivered | NotPending

datatype ingress_error_kind =
    CompletionQueueClosed
  | ForeignReservation
  | DuplicateRequestId
  | IngressSerialization
  | RouteFailed json
  | DeliveryAndRouteFailed ingress_error_kind json

record ingress_error =
  ie_kind :: ingress_error_kind
  ie_owner :: "request_owner option"
  ie_request_id :: "request_id option"

record request_reservation =
  rr_identity :: nat
  rr_owner :: request_owner
  rr_method :: string

record ordered_ingress =
  oi_identity :: nat
  oi_pending :: "(request_id, request_reservation) hash_map"
  oi_events :: "ordered_completion list"
  oi_closed :: bool

section \<open>Operations\<close>

definition ingress_error_new :: "ingress_error_kind \<Rightarrow> ingress_error" where
  "ingress_error_new kind = \<lparr>ie_kind = kind, ie_owner = None, ie_request_id = None\<rparr>"

definition ingress_error_for :: "ingress_error_kind \<Rightarrow> request_owner \<Rightarrow> request_id \<Rightarrow> ingress_error" where
  "ingress_error_for kind owner rid = \<lparr>ie_kind = kind, ie_owner = Some owner, ie_request_id = Some rid\<rparr>"

definition ordered_ingress_new :: "nat \<Rightarrow> ordered_ingress" where
  "ordered_ingress_new identity = \<lparr>oi_identity = identity, oi_pending = [], oi_events = [], oi_closed = False\<rparr>"

definition try_reserve :: "request_class \<Rightarrow> request_owner \<Rightarrow> ordered_ingress \<Rightarrow> (ingress_error, request_reservation) result" where
  "try_reserve class owner s =
     (if oi_closed s then Err (ingress_error_new CompletionQueueClosed)
      else Ok \<lparr>rr_identity = oi_identity s, rr_owner = owner, rr_method = []\<rparr>)"

text \<open>The SDK assigns the id under the lock of the registry; what else \<open>send\<close> returns is passed on.\<close>

definition register_with :: "request_reservation \<Rightarrow> request_id \<times> 'a \<Rightarrow> ordered_ingress \<Rightarrow> (ingress_error, 'a) result \<times> ordered_ingress" where
  "register_with reservation sent s =
     (if rr_identity reservation \<noteq> oi_identity s then (Err (ingress_error_new ForeignReservation), s)
      else if hm_get (oi_pending s) (fst sent) \<noteq> None
      then (Err (ingress_error_for DuplicateRequestId (rr_owner reservation) (fst sent)), s)
      else (Ok (snd sent), s\<lparr>oi_pending := hm_insert (fst sent) reservation (oi_pending s)\<rparr>))"

definition send_registered :: "string \<Rightarrow> request_reservation \<Rightarrow> request_id \<Rightarrow> ordered_ingress \<Rightarrow> (ingress_error, request_id) result \<times> ordered_ingress" where
  "send_registered method reservation assigned s = register_with (reservation\<lparr>rr_method := method\<rparr>) (assigned, assigned) s"

definition complete_request :: "(rpc_result \<Rightarrow> nat option) \<Rightarrow> request_id \<Rightarrow> rpc_result \<Rightarrow> completion_source \<Rightarrow> ordered_ingress
    \<Rightarrow> (ingress_error, completion_disposition) result \<times> ordered_ingress" where
  "complete_request bytes_of rid r source s =
     (case hm_get (oi_pending s) rid of
        None \<Rightarrow> (Ok NotPending, s)
      | Some reservation \<Rightarrow>
          (let s1 = s\<lparr>oi_pending := hm_remove rid (oi_pending s)\<rparr>; owner = rr_owner reservation
           in case bytes_of r of
                None \<Rightarrow> (Err (ingress_error_for IngressSerialization owner rid), s1)
              | Some bytes \<Rightarrow>
                  if oi_closed s1 then (Err (ingress_error_for CompletionQueueClosed owner rid), s1)
                  else (Ok CompletionDelivered, s1\<lparr>oi_events := oi_events s1 @
                    [\<lparr>oc_owner = owner, oc_method = rr_method reservation, oc_request_id = rid, oc_result = r,
                      oc_source = source, oc_response_bytes = bytes\<rparr>]\<rparr>)))"

text \<open>
  A response at the dispatch boundary: \<open>Ok False\<close> declines it, \<open>Ok True\<close> has handled it. \<open>routed\<close> is what the
  SDK's router answers, which is asked whenever the request was pending, whatever became of the event.
\<close>

definition intercept_response :: "(rpc_result \<Rightarrow> nat option) \<Rightarrow> request_id \<Rightarrow> rpc_result \<Rightarrow> (json, unit) result \<Rightarrow> ordered_ingress
    \<Rightarrow> (ingress_error, bool) result \<times> ordered_ingress" where
  "intercept_response bytes_of rid r routed s =
     (case complete_request bytes_of rid r Response s of
        (Ok NotPending, s') \<Rightarrow> (Ok False, s')
      | (Ok CompletionDelivered, s') \<Rightarrow>
          ((case routed of
              Err e \<Rightarrow> Err \<lparr>ie_kind = RouteFailed e, ie_owner = None, ie_request_id = Some rid\<rparr>
            | _ \<Rightarrow> Ok True), s')
      | (Err error, s') \<Rightarrow>
          ((case routed of
              Err e \<Rightarrow> Err (error\<lparr>ie_kind := DeliveryAndRouteFailed (ie_kind error) e\<rparr>)
            | _ \<Rightarrow> Err error), s')
      | (Panic, s') \<Rightarrow> (Panic, s'))"

definition complete_without_response :: "(rpc_result \<Rightarrow> nat option) \<Rightarrow> request_id \<Rightarrow> json \<Rightarrow> ordered_ingress
    \<Rightarrow> (ingress_error, completion_disposition) result \<times> ordered_ingress" where
  "complete_without_response bytes_of rid error s = complete_request bytes_of rid (Inl error) LocalFailure s"


section \<open>Runs\<close>

text \<open>
  Requests are registered, answered by the Agent or failed locally, in any order and with any ids; the
  queue may close. Two logs record the registrations that succeeded and what settled each of them.
\<close>

datatype ingress_op =
    SendRequest request_owner request_class string request_id
  | AnswerRequest request_id rpc_result "(json, unit) result"
  | FailRequest request_id json
  | CloseQueue

record ingress_run =
  ir_ingress :: ordered_ingress
  ir_registered :: "(request_id \<times> request_owner \<times> string) list"
  ir_settled :: "(request_id \<times> request_owner \<times> string) list"

definition pending_of :: "ordered_ingress \<Rightarrow> request_id \<Rightarrow> (request_owner \<times> string) list" where
  "pending_of s rid = (case hm_get (oi_pending s) rid of Some r \<Rightarrow> [(rr_owner r, rr_method r)] | None \<Rightarrow> [])"

text \<open>A call settles the registration that was pending under the id and is not any more.\<close>

definition settles :: "request_id \<Rightarrow> ordered_ingress \<Rightarrow> ordered_ingress \<Rightarrow> (request_id \<times> request_owner \<times> string) list" where
  "settles rid s s' = (if hm_get (oi_pending s') rid = None then map (Pair rid) (pending_of s rid) else [])"

fun ingress_do :: "(rpc_result \<Rightarrow> nat option) \<Rightarrow> ingress_op \<Rightarrow> ingress_run \<Rightarrow> ingress_run" where
  "ingress_do bytes_of (SendRequest owner class method rid) w =
     (case try_reserve class owner (ir_ingress w) of
        Ok reservation \<Rightarrow>
          (case send_registered method reservation rid (ir_ingress w) of
             (Ok _, s) \<Rightarrow> w\<lparr>ir_ingress := s, ir_registered := ir_registered w @ [(rid, owner, method)]\<rparr>
           | (_, s) \<Rightarrow> w\<lparr>ir_ingress := s\<rparr>)
      | _ \<Rightarrow> w)"
| "ingress_do bytes_of (AnswerRequest rid r routed) w =
     (let s = snd (intercept_response bytes_of rid r routed (ir_ingress w))
      in w\<lparr>ir_ingress := s, ir_settled := ir_settled w @ settles rid (ir_ingress w) s\<rparr>)"
| "ingress_do bytes_of (FailRequest rid error) w =
     (let s = snd (complete_without_response bytes_of rid error (ir_ingress w))
      in w\<lparr>ir_ingress := s, ir_settled := ir_settled w @ settles rid (ir_ingress w) s\<rparr>)"
| "ingress_do bytes_of CloseQueue w = w\<lparr>ir_ingress := (ir_ingress w)\<lparr>oi_closed := True\<rparr>\<rparr>"

definition ingress_run_of :: "(rpc_result \<Rightarrow> nat option) \<Rightarrow> nat \<Rightarrow> ingress_op list \<Rightarrow> ingress_run" where
  "ingress_run_of bytes_of identity ops =
     fold (ingress_do bytes_of) ops \<lparr>ir_ingress = ordered_ingress_new identity, ir_registered = [], ir_settled = []\<rparr>"

definition log_of :: "request_id \<Rightarrow> (request_id \<times> 'a) list \<Rightarrow> 'a list" where
  "log_of rid log = map snd (filter (\<lambda>x. fst x = rid) log)"

lemma log_of_simps [simp]:
  "log_of rid [] = []"
  "log_of rid (xs @ ys) = log_of rid xs @ log_of rid ys"
  "log_of rid ((k, x) # xs) = (if k = rid then x # log_of rid xs else log_of rid xs)"
  "log_of rid (map (Pair k) zs) = (if k = rid then zs else [])"
  by (auto simp: log_of_def comp_def)

text \<open>What the completions say of their requests: the id, the owner and the method.\<close>

definition event_log :: "ordered_completion list \<Rightarrow> (request_id \<times> request_owner \<times> string) list" where
  "event_log events = map (\<lambda>e. (oc_request_id e, oc_owner e, oc_method e)) events"

definition run_ok :: "(rpc_result \<Rightarrow> nat option) \<Rightarrow> ingress_run \<Rightarrow> bool" where
  "run_ok bytes_of w \<longleftrightarrow>
     (\<forall>rid. log_of rid (ir_settled w) @ pending_of (ir_ingress w) rid = log_of rid (ir_registered w)) \<and>
     (if oi_closed (ir_ingress w) \<or> (\<exists>r. bytes_of r = None) then subseq (event_log (oi_events (ir_ingress w))) (ir_settled w)
      else event_log (oi_events (ir_ingress w)) = ir_settled w)"

lemma complete_request_cases:
  obtains (unknown) "hm_get (oi_pending s) rid = None" "complete_request bytes_of rid r source s = (Ok NotPending, s)"
    | (failed) reservation e where "hm_get (oi_pending s) rid = Some reservation" "bytes_of r = None \<or> oi_closed s"
        "complete_request bytes_of rid r source s = (Err e, s\<lparr>oi_pending := hm_remove rid (oi_pending s)\<rparr>)"
    | (delivered) reservation bytes where "hm_get (oi_pending s) rid = Some reservation" "\<not> oi_closed s"
        "complete_request bytes_of rid r source s = (Ok CompletionDelivered, s\<lparr>oi_pending := hm_remove rid (oi_pending s),
           oi_events := oi_events s @ [\<lparr>oc_owner = rr_owner reservation, oc_method = rr_method reservation, oc_request_id = rid,
             oc_result = r, oc_source = source, oc_response_bytes = bytes\<rparr>]\<rparr>)"
  by (cases "hm_get (oi_pending s) rid"; cases "bytes_of r"; cases "oi_closed s") (auto simp: complete_request_def Let_def)

lemma completed_run_ok:
  assumes "run_ok bytes_of w" "snd (complete_request bytes_of rid r source (ir_ingress w)) = s"
  shows "run_ok bytes_of (w\<lparr>ir_ingress := s, ir_settled := ir_settled w @ settles rid (ir_ingress w) s\<rparr>)"
proof (cases rule: complete_request_cases [of "ir_ingress w" rid bytes_of r source])
  case unknown
  with assms have "w\<lparr>ir_ingress := s, ir_settled := ir_settled w @ settles rid (ir_ingress w) s\<rparr> = w"
    by (cases w) (simp add: settles_def pending_of_def)
  with assms(1) show ?thesis by simp
next
  case (failed reservation e)
  with assms(2) have s: "s = (ir_ingress w)\<lparr>oi_pending := hm_remove rid (oi_pending (ir_ingress w))\<rparr>" by simp
  have "log_of k (ir_settled w) @ pending_of (ir_ingress w) k = log_of k (ir_registered w)" for k
    using assms(1) by (simp add: run_ok_def)
  from this [symmetric] failed(1,2) assms(1) show ?thesis
    by (auto simp: run_ok_def s settles_def pending_of_def hm.get_del split: if_splits)
next
  case (delivered reservation bytes)
  with assms(2) have s: "s = (ir_ingress w)\<lparr>oi_pending := hm_remove rid (oi_pending (ir_ingress w)),
           oi_events := oi_events (ir_ingress w) @ [\<lparr>oc_owner = rr_owner reservation, oc_method = rr_method reservation, oc_request_id = rid,
             oc_result = r, oc_source = source, oc_response_bytes = bytes\<rparr>]\<rparr>" by simp
  have "log_of k (ir_settled w) @ pending_of (ir_ingress w) k = log_of k (ir_registered w)" for k
    using assms(1) by (simp add: run_ok_def)
  from this [symmetric] delivered(1,2) assms(1) show ?thesis
    by (cases "\<exists>r. bytes_of r = None") (auto simp: run_ok_def s settles_def pending_of_def hm.get_del event_log_def split: if_splits)
qed

lemma intercept_response_snd: "snd (intercept_response bytes_of rid r routed s) = snd (complete_request bytes_of rid r Response s)"
  by (auto simp: intercept_response_def split: prod.splits result.splits completion_disposition.splits)

lemma ingress_do_ok:
  assumes "run_ok bytes_of w"
  shows "run_ok bytes_of (ingress_do bytes_of x w)"
proof (cases x)
  case (SendRequest owner c m rid)
  show ?thesis
  proof (cases "oi_closed (ir_ingress w) \<or> hm_get (oi_pending (ir_ingress w)) rid \<noteq> None")
    case True
    with assms SendRequest show ?thesis
      by (auto simp: try_reserve_def send_registered_def register_with_def)
  next
    case False
    have "log_of k (ir_settled w) @ pending_of (ir_ingress w) k = log_of k (ir_registered w)" for k
      using assms by (simp add: run_ok_def)
    from this [symmetric] False assms SendRequest show ?thesis
      by (auto simp: try_reserve_def send_registered_def register_with_def run_ok_def pending_of_def hm.get_put split: if_splits)
  qed
next
  case (AnswerRequest rid r routed)
  with completed_run_ok [OF assms] show ?thesis by (simp add: Let_def intercept_response_snd)
next
  case (FailRequest rid error)
  with completed_run_ok [OF assms] show ?thesis by (simp add: Let_def complete_without_response_def)
next
  case CloseQueue
  with assms show ?thesis by (auto simp: run_ok_def pending_of_def split: if_splits)
qed

interpretation requests: preserving "ingress_do bytes_of" "run_ok bytes_of" for bytes_of
  by unfold_locales (rule ingress_do_ok)

text \<open>
  (C29) Every request is completed once. However responses, duplicates, local failures and reused ids
  arrive, the registrations of an id are settled one after the other and at most the last is pending; the
  queue holds one completion per settlement, in order, with the owner and the method of its registration.
  Only a closed queue or a result that cannot be serialized loses an event.
\<close>

theorem requests_settle_once:
  fixes bytes_of :: "rpc_result \<Rightarrow> nat option" and identity :: nat and ops :: "ingress_op list"
  defines "w \<equiv> ingress_run_of bytes_of identity ops"
  shows "log_of rid (ir_settled w) @ pending_of (ir_ingress w) rid = log_of rid (ir_registered w) \<and>
     (if oi_closed (ir_ingress w) \<or> (\<exists>r. bytes_of r = None) then subseq (event_log (oi_events (ir_ingress w))) (ir_settled w)
      else event_log (oi_events (ir_ingress w)) = ir_settled w)"
proof -
  have "run_ok bytes_of \<lparr>ir_ingress = ordered_ingress_new identity, ir_registered = [], ir_settled = []\<rparr>"
    by (auto simp: run_ok_def ordered_ingress_new_def pending_of_def event_log_def hm.get_nil)
  then have "run_ok bytes_of w" unfolding w_def ingress_run_of_def by (rule requests.run_keeps)
  then show ?thesis by (simp add: run_ok_def)
qed
end
