(* ===== verification/Inbound_Requests.thy ===== *)
theory Inbound_Requests
  imports Ordered_Ingress Registry
begin

text \<open>
  The requests of the Agent that are not answered yet (\<open>src/src/bridge/inbound_requests.rs\<close>): each is kept
  under its JSON-RPC id with its allocation and the route captured when it arrived, so that a cancellation
  reaches the request it was sent for and no later one. Which method a request matches is the SDK's to say:
  \<open>acp_methods\<close> holds the \<open>matches_method\<close> tests that are used.
\<close>

section \<open>State\<close>

record acp_methods =
  am_request_permission :: "string \<Rightarrow> bool"
  am_create_elicitation :: "string \<Rightarrow> bool"

datatype inbound_request_kind = InboundPermission | InboundElicitation | InboundOther

record captured_route =
  rt_owner :: "resource_owner option"
  rt_dispatch_owner :: request_owner
  rt_url_registration :: "url_registration option"

record captured_inbound_request =
  cq_request_id :: request_id
  cq_allocation :: string
  cq_kind :: inbound_request_kind
  cq_route :: captured_route

type_synonym inbound_requests = "(request_id, captured_inbound_request) hash_map"

text \<open>A lease stands for the request it was given for: its last clone sends the cleanup.\<close>

record request_lease =
  rl_request_id :: request_id
  rl_allocation :: string

datatype inbound_error = AlreadyOutstanding | NoAllocation

section \<open>Operations\<close>

definition inbound_kind :: "acp_methods \<Rightarrow> string \<Rightarrow> inbound_request_kind" where
  "inbound_kind M method =
     (if am_request_permission M method then InboundPermission
      else if am_create_elicitation M method then InboundElicitation else InboundOther)"

definition register_inbound :: "acp_methods \<Rightarrow> request_id \<Rightarrow> string \<Rightarrow> captured_route \<Rightarrow> inbound_requests
    \<Rightarrow> (inbound_error, request_lease) result \<times> inbound_requests" where
  "register_inbound M rid method route s =
     (if hm_get s rid \<noteq> None then (Err AlreadyOutstanding, s)
      else case ro_attempt_id (rt_dispatch_owner route) of
        None \<Rightarrow> (Err NoAllocation, s)
      | Some allocation \<Rightarrow>
          if allocation = [] then (Err NoAllocation, s)
          else (Ok \<lparr>rl_request_id = rid, rl_allocation = allocation\<rparr>,
                hm_insert rid \<lparr>cq_request_id = rid, cq_allocation = allocation, cq_kind = inbound_kind M method,
                  cq_route = route\<rparr> s))"

definition capture_cancel :: "request_id \<Rightarrow> inbound_requests \<Rightarrow> captured_inbound_request option" where
  "capture_cancel rid s = hm_get s rid"

definition rebind_inbound :: "request_id \<Rightarrow> string \<Rightarrow> captured_route \<Rightarrow> inbound_requests \<Rightarrow> bool \<times> inbound_requests" where
  "rebind_inbound rid allocation route s =
     (case hm_get s rid of
        None \<Rightarrow> (False, s)
      | Some c \<Rightarrow>
          (let before = cq_route c; old = rt_dispatch_owner before; new = rt_dispatch_owner route
           in if cq_allocation c \<noteq> allocation \<or> ro_attempt_id new \<noteq> Some allocation \<or> ro_epoch old \<noteq> ro_epoch new \<or>
                 ro_session_id old \<noteq> ro_session_id new \<or> ro_operation_id old \<noteq> ro_operation_id new \<or>
                 rt_url_registration before \<noteq> rt_url_registration route
              then (False, s)
              else if rt_owner before \<noteq> None \<or> ro_incarnation old \<noteq> None
              then (rt_owner before = rt_owner route \<and> old = new, s)
              else case rt_owner route of
                None \<Rightarrow> (False, s)
              | Some owner \<Rightarrow>
                  if ow_epoch owner \<noteq> ro_epoch new \<or> Some (ow_session_id owner) \<noteq> ro_session_id new \<or>
                     Some (ow_incarnation owner) \<noteq> ro_incarnation new
                  then (False, s)
                  else (True, hm_insert rid (c\<lparr>cq_route := route\<rparr>) s)))"

definition finish_inbound :: "request_id \<Rightarrow> string \<Rightarrow> inbound_requests \<Rightarrow> bool \<times> inbound_requests" where
  "finish_inbound rid allocation s =
     (case hm_get s rid of
        Some c \<Rightarrow> if cq_allocation c = allocation then (True, hm_remove rid s) else (False, s)
      | None \<Rightarrow> (False, s))"

section \<open>Runs\<close>

text \<open>
  The coordinator registers requests, captures cancellations, binds a staged request to its session and
  retires requests, in the order of the ingress. The logs record every registration and every capture.
\<close>

datatype inbound_op =
    InRegister request_id string captured_route
  | InCancel request_id
  | InRebind request_id string captured_route
  | InFinish request_id string

record inbound_run =
  in_requests :: inbound_requests
  in_registered :: "captured_inbound_request list"
  in_captured :: "captured_inbound_request list"

fun inbound_do :: "acp_methods \<Rightarrow> inbound_op \<Rightarrow> inbound_run \<Rightarrow> inbound_run" where
  "inbound_do M (InRegister rid method route) w =
     (case register_inbound M rid method route (in_requests w) of
        (Ok _, s) \<Rightarrow> w\<lparr>in_requests := s, in_registered := in_registered w @ (case hm_get s rid of Some c \<Rightarrow> [c] | None \<Rightarrow> [])\<rparr>
      | (_, s) \<Rightarrow> w\<lparr>in_requests := s\<rparr>)"
| "inbound_do M (InCancel rid) w =
     w\<lparr>in_captured := in_captured w @ (case capture_cancel rid (in_requests w) of Some c \<Rightarrow> [c] | None \<Rightarrow> [])\<rparr>"
| "inbound_do M (InRebind rid allocation route) w = w\<lparr>in_requests := snd (rebind_inbound rid allocation route (in_requests w))\<rparr>"
| "inbound_do M (InFinish rid allocation) w = w\<lparr>in_requests := snd (finish_inbound rid allocation (in_requests w))\<rparr>"

text \<open>What a captured route may become: itself, or itself bound to its session.\<close>

definition bound_from :: "captured_inbound_request \<Rightarrow> captured_inbound_request \<Rightarrow> bool" where
  "bound_from c0 c \<longleftrightarrow>
     c = c0 \<or>
     (rt_owner (cq_route c0) = None \<and> ro_incarnation (rt_dispatch_owner (cq_route c0)) = None \<and>
      (\<exists>owner. cq_route c = \<lparr>rt_owner = Some owner,
           rt_dispatch_owner = (rt_dispatch_owner (cq_route c0))\<lparr>ro_incarnation := Some (ow_incarnation owner)\<rparr>,
           rt_url_registration = rt_url_registration (cq_route c0)\<rparr> \<and>
         ow_epoch owner = ro_epoch (rt_dispatch_owner (cq_route c0)) \<and>
         Some (ow_session_id owner) = ro_session_id (rt_dispatch_owner (cq_route c0))) \<and>
      c = c0\<lparr>cq_route := cq_route c\<rparr>)"

definition inbound_ok :: "inbound_run \<Rightarrow> bool" where
  "inbound_ok w \<longleftrightarrow>
     (\<forall>c0 \<in> set (in_registered w). ro_attempt_id (rt_dispatch_owner (cq_route c0)) = Some (cq_allocation c0)) \<and>
     (\<forall>rid c. hm_get (in_requests w) rid = Some c \<longrightarrow>
        cq_request_id c = rid \<and> (\<exists>c0 \<in> set (in_registered w). bound_from c0 c)) \<and>
     (\<forall>c \<in> set (in_captured w). \<exists>c0 \<in> set (in_registered w). bound_from c0 c)"

lemma rebound:
  assumes "bound_from c0 c" "ro_attempt_id (rt_dispatch_owner (cq_route c0)) = Some (cq_allocation c0)"
    "hm_get s rid = Some c" "rebind_inbound rid allocation route s = (r, s')"
  shows "s' = s \<or> (\<exists>c'. s' = hm_insert rid c' s \<and> bound_from c0 c' \<and> cq_request_id c' = cq_request_id c)"
proof (cases "s' = s")
  case False
  with assms(3,4) obtain owner where o: "rt_owner route = Some owner" "s' = hm_insert rid (c\<lparr>cq_route := route\<rparr>) s"
    "rt_owner (cq_route c) = None" "ro_incarnation (rt_dispatch_owner (cq_route c)) = None"
    and same: "cq_allocation c = allocation" "ro_attempt_id (rt_dispatch_owner route) = Some allocation"
      "ro_epoch (rt_dispatch_owner (cq_route c)) = ro_epoch (rt_dispatch_owner route)"
      "ro_session_id (rt_dispatch_owner (cq_route c)) = ro_session_id (rt_dispatch_owner route)"
      "ro_operation_id (rt_dispatch_owner (cq_route c)) = ro_operation_id (rt_dispatch_owner route)"
      "rt_url_registration (cq_route c) = rt_url_registration route"
      "ow_epoch owner = ro_epoch (rt_dispatch_owner route)" "Some (ow_session_id owner) = ro_session_id (rt_dispatch_owner route)"
      "Some (ow_incarnation owner) = ro_incarnation (rt_dispatch_owner route)"
    by (auto simp: rebind_inbound_def Let_def split: if_splits option.splits)
  have c: "c = c0" using assms(1) o(3) by (auto simp: bound_from_def)
  have "rt_dispatch_owner route = (rt_dispatch_owner (cq_route c0))\<lparr>ro_incarnation := Some (ow_incarnation owner)\<rparr>"
    by (rule request_owner.equality) (use same assms(2) c in simp_all)
  then have "route = \<lparr>rt_owner = Some owner,
           rt_dispatch_owner = (rt_dispatch_owner (cq_route c0))\<lparr>ro_incarnation := Some (ow_incarnation owner)\<rparr>,
           rt_url_registration = rt_url_registration (cq_route c0)\<rparr>"
    by (intro captured_route.equality) (use same o c in simp_all)
  then have "bound_from c0 (c\<lparr>cq_route := route\<rparr>)"
    using o same c by (auto simp: bound_from_def)
  with o(2) show ?thesis by force
qed simp

lemma registered_inbound:
  assumes "register_inbound M rid method route s = (Ok lease, s')"
  obtains c where "s' = hm_insert rid c s" "hm_get s rid = None" "cq_request_id c = rid"
    "ro_attempt_id (rt_dispatch_owner (cq_route c)) = Some (cq_allocation c)" "lease = \<lparr>rl_request_id = rid, rl_allocation = cq_allocation c\<rparr>"
proof -
  from assms obtain allocation where a: "hm_get s rid = None" "ro_attempt_id (rt_dispatch_owner route) = Some allocation"
    "lease = \<lparr>rl_request_id = rid, rl_allocation = allocation\<rparr>"
    "s' = hm_insert rid \<lparr>cq_request_id = rid, cq_allocation = allocation, cq_kind = inbound_kind M method, cq_route = route\<rparr> s"
    by (auto simp: register_inbound_def split: if_splits option.splits)
  show ?thesis by (rule that [OF a(4,1)]) (use a in simp_all)
qed

lemma register_inbound_cases:
  obtains lease s' where "register_inbound M rid method route s = (Ok lease, s')"
    | e where "register_inbound M rid method route s = (Err e, s)"
  by (cases "register_inbound M rid method route s") (auto simp: register_inbound_def Let_def split: if_splits option.splits)

lemma inbound_ok_do:
  assumes ok: "inbound_ok w"
  shows "inbound_ok (inbound_do M x w)"
proof (cases x)
  case (InRegister rid name route)
  show ?thesis
  proof (cases rule: register_inbound_cases [of M rid name route "in_requests w"])
    case (1 lease s')
    obtain c where c: "s' = hm_insert rid c (in_requests w)" "cq_request_id c = rid"
      "ro_attempt_id (rt_dispatch_owner (cq_route c)) = Some (cq_allocation c)"
      using registered_inbound [OF 1] by metis
    moreover have "bound_from c c" by (simp add: bound_from_def)
    ultimately show ?thesis using ok InRegister 1
      by (auto simp: inbound_ok_def hm.get_put)
  next
    case (2 e)
    with ok InRegister show ?thesis by simp
  qed
next
  case (InCancel rid)
  with ok show ?thesis by (auto simp: inbound_ok_def capture_cancel_def split: option.splits)
next
  case (InRebind rid allocation route)
  obtain r s' where s': "rebind_inbound rid allocation route (in_requests w) = (r, s')" by force
  show ?thesis
  proof (cases "hm_get (in_requests w) rid")
    case None
    with ok InRebind show ?thesis by (simp add: rebind_inbound_def)
  next
    case (Some c)
    with ok obtain c0 where c0: "c0 \<in> set (in_registered w)" "bound_from c0 c" "cq_request_id c = rid"
      unfolding inbound_ok_def by blast
    with ok have "ro_attempt_id (rt_dispatch_owner (cq_route c0)) = Some (cq_allocation c0)" by (auto simp: inbound_ok_def)
    from rebound [OF c0(2) this Some s'] ok InRebind s' c0 show ?thesis
      by (auto simp: inbound_ok_def hm.get_put split: if_splits)
  qed
next
  case (InFinish rid allocation)
  with ok show ?thesis by (auto simp: inbound_ok_def finish_inbound_def hm.get_del split: option.splits if_splits)
qed

interpretation inbound: preserving "inbound_do M" inbound_ok for M
  by unfold_locales (rule inbound_ok_do)

definition inbound_run_of :: "acp_methods \<Rightarrow> inbound_op list \<Rightarrow> inbound_run" where
  "inbound_run_of M ops = fold (inbound_do M) ops \<lparr>in_requests = [], in_registered = [], in_captured = []\<rparr>"

lemma inbound_ok_run: "inbound_ok (inbound_run_of M ops)"
  unfolding inbound_run_of_def by (rule inbound.run_keeps) (simp add: inbound_ok_def hm.get_nil)

text \<open>
  (C35) What is known of a request of the Agent stays what it was. At any point of any run, a request
  that is registered and one that was captured for a cancellation are a request that was registered
  before, under its allocation, kind and route; only a staged route may have changed, once, to the
  session that was created for it, of the same epoch and name.
\<close>

theorem inbound_routes_bind_once:
  fixes M :: acp_methods and ops :: "inbound_op list"
  defines "w \<equiv> inbound_run_of M ops"
  shows "set (in_captured w) \<union> {c. hm_get (in_requests w) (cq_request_id c) = Some c}
     \<subseteq> {c. \<exists>c0. c0 \<in> set (in_registered w) \<and> bound_from c0 c}"
proof -
  have "inbound_ok w" unfolding w_def by (rule inbound_ok_run)
  then have "\<forall>c \<in> set (in_captured w). \<exists>c0 \<in> set (in_registered w). bound_from c0 c"
    "\<forall>rid c. hm_get (in_requests w) rid = Some c \<longrightarrow> cq_request_id c = rid \<and> (\<exists>c0 \<in> set (in_registered w). bound_from c0 c)"
    unfolding inbound_ok_def by blast+
  then show ?thesis by blast
qed

end
