(* ===== verification/Bridge_Input.thy ===== *)
theory Bridge_Input
  imports Inbound_Requests Session_Dispatch
begin

text \<open>
  What enters the Bridge: the inputs of the browser (\<open>BridgeInput\<close> in \<open>src/src/bridge.rs\<close>), the messages
  of the Agent, and what the Bridge tells itself (\<open>BridgeIngress\<close>, \<open>src/src/bridge/scheduling.rs\<close>); what
  each weighs, and in which class of traffic it travels. A reply channel is a number. The SDK's responder
  and router of a message are its id.
\<close>

section \<open>Inputs of the browser\<close>

datatype attachment_reservation = ReloadAttachment string u64 | FreshAttachment string u64

record prepared_attachment =
  pa_operation_id :: string
  pa_reservation :: attachment_reservation

datatype bridge_input =
    RuntimeSnapshotRequest
  | SessionViewRequest string "string option" "resource_owner option" nat
  | ObserveSession string "string option" "resource_owner option" u64 observation_lease nat
  | UnobserveSession string u64 observation_lease
  | RetireUnobservedSession string u64 u64 close_permit
  | FinishHistorySync history_sync_owner
  | TurnRequest string string string "json list" nat
  | BusinessRequest json nat
  | PreparedAttachmentInput json prepared_attachment "nat option"

definition option_json :: "('a \<Rightarrow> json) \<Rightarrow> 'a option \<Rightarrow> json" where
  "option_json f x = (case x of Some a \<Rightarrow> f a | None \<Rightarrow> JNull)"

definition owner_bytes :: "env \<Rightarrow> resource_owner option \<Rightarrow> nat" where
  "owner_bytes E owner =
     (case owner of
        None \<Rightarrow> 0
      | Some ow \<Rightarrow> serialized_len E (JArr [JStr (ow_epoch ow), JStr (ow_session_id ow), JNum (PosInt (ow_incarnation ow))]))"

definition payload_bytes :: "env \<Rightarrow> bridge_input \<Rightarrow> nat" where
  "payload_bytes E input =
     (let payload = (case input of
          RuntimeSnapshotRequest \<Rightarrow> 0
        | SessionViewRequest sid cwd owner _ \<Rightarrow>
            sat_add (serialized_len E (JArr [JStr sid, option_json JStr cwd])) (owner_bytes E owner)
        | ObserveSession sid cwd owner _ _ _ \<Rightarrow>
            sat_add (serialized_len E (JArr [JStr sid, option_json JStr cwd])) (owner_bytes E owner)
        | UnobserveSession sid _ _ \<Rightarrow> serialized_len E (JStr sid)
        | RetireUnobservedSession sid _ _ _ \<Rightarrow> serialized_len E (JStr sid)
        | FinishHistorySync owner \<Rightarrow>
            serialized_len E (JArr [JStr (ow_epoch (ho_session owner)), JStr (ow_session_id (ho_session owner)),
              JNum (PosInt (ow_incarnation (ho_session owner))), JStr (ho_flow_id owner)])
        | TurnRequest sid revision intent prompt _ \<Rightarrow>
            serialized_len E (JArr [JStr sid, JStr revision, JStr intent, JArr prompt])
        | BusinessRequest command _ \<Rightarrow> serialized_len E command
        | PreparedAttachmentInput command _ _ \<Rightarrow> serialized_len E command)
      in sat_add payload 256)"

definition browser_traffic_class :: "bridge_input \<Rightarrow> traffic_class" where
  "browser_traffic_class input =
     (case input of
        TurnRequest _ _ _ _ _ \<Rightarrow> Ordinary
      | BusinessRequest command _ \<Rightarrow>
          (case get_str command ''type'' of
             Some t \<Rightarrow> if t \<in> {''session/new'', ''session/prompt'', ''session/fork'', ''session/load'', ''session/resume'',
                 ''context/read'', ''context/search''} then Ordinary else Reserved
           | None \<Rightarrow> Reserved)
      | _ \<Rightarrow> Reserved)"

section \<open>Events\<close>

text \<open>A message of the Agent: a request or a notification with its method and parameters, or a response.\<close>

datatype wire_dispatch =
    WireRequest request_id string json
  | WireNotification string json
  | WireResponse request_id rpc_result

datatype bridge_ingress =
    Browser bridge_input
  | Acp wire_dispatch
  | RpcCompleted ordered_completion
  | TerminalEvent u64 json
  | Continuation request_owner nat
  | CreationFinished request_owner string "u64 option"
  | InboundRequestCancelled captured_inbound_request
  | InboundRequestFinished request_id string

record ingress_item =
  it_request_lease :: "request_lease option"
  it_event :: bridge_ingress
  it_route :: "captured_route option"
  it_bytes :: nat
  it_class :: traffic_class
  it_origin :: event_origin

definition completion_item :: "ordered_completion \<Rightarrow> ingress_item" where
  "completion_item completion = \<lparr>it_request_lease = None, it_event = RpcCompleted completion, it_route = None,
     it_bytes = max (oc_response_bytes completion) 1, it_class = Reserved, it_origin = RequiredInbound\<rparr>"

definition json_bytes :: "env \<Rightarrow> json \<Rightarrow> nat" where
  "json_bytes E v = max (serialized_len E v) 1"

definition request_owner_json :: "request_owner \<Rightarrow> json list" where
  "request_owner_json owner =
     [JStr (ro_epoch owner), option_json JStr (ro_session_id owner), option_json (\<lambda>i. JNum (PosInt i)) (ro_incarnation owner),
      JStr (ro_operation_id owner), option_json JStr (ro_attempt_id owner)]"

definition measure_event :: "env \<Rightarrow> bridge_ingress \<Rightarrow> nat" where
  "measure_event E event =
     (case event of
        Browser input \<Rightarrow> payload_bytes E input
      | Acp (WireRequest _ method params) \<Rightarrow> json_bytes E (JArr [JStr method, params])
      | Acp (WireNotification method params) \<Rightarrow> json_bytes E (JArr [JStr method, params])
      | Acp (WireResponse _ (Inr v)) \<Rightarrow> json_bytes E v
      | Acp (WireResponse _ (Inl e)) \<Rightarrow> json_bytes E e
      | RpcCompleted completion \<Rightarrow> max (oc_response_bytes completion) 1
      | TerminalEvent inc v \<Rightarrow> json_bytes E (JArr [JNum (PosInt inc), v])
      | InboundRequestCancelled c \<Rightarrow>
          json_bytes E (JArr [cq_request_id c, JStr (cq_allocation c), JStr (ro_epoch (rt_dispatch_owner (cq_route c))),
            option_json JStr (ro_session_id (rt_dispatch_owner (cq_route c)))])
      | InboundRequestFinished rid allocation \<Rightarrow> json_bytes E (JArr [rid, JStr allocation])
      | Continuation owner _ \<Rightarrow> json_bytes E (JArr (request_owner_json owner))
      | CreationFinished owner target incarnation \<Rightarrow>
          json_bytes E (JArr (request_owner_json owner @ [JStr target, option_json (\<lambda>i. JNum (PosInt i)) incarnation])))"

end
