(* ===== verification/Completion_Handoff.thy ===== *)
theory Completion_Handoff
  imports Ordered_Ingress
begin

text \<open>
  The handoff of a completion, with the guard of its delivery, to the task that waits for it
  (\<open>src/src/completion_handoff.rs\<close>). A registration is identified by its allocation, a number here; its
  oneshot channel is a cell with that number, which is there as long as the receiver is. Guards are a type
  variable: nothing looks into them. A turn that is dropped gives up its completion and its guard and
  wakes the pump; \<open>ho_dropped\<close> records those turns in order. A mutex is poisoned by a panic under its lock,
  and there is none.
\<close>

section \<open>State\<close>

datatype handoff_error =
    HandoffClosed
  | DuplicateOwner
  | Withdrawn
  | AlreadyBound
  | Unbound
  | EarlyCompletionAlreadyParked
  | CompletionUnavailable

datatype handoff_disposition =
    HandoffParked
  | HandoffDelivered
  | HandoffUnregistered
  | HandoffStaleRequestId
  | HandoffReceiverGone

datatype bind_disposition =
    AwaitingCompletion "request_id option"
  | BindDelivered
  | BindReceiverGone
  | BindDiscarded

datatype discard_disposition = Discarded | DiscardParked | DiscardUnregistered | DiscardStaleRequestId

record 'g completion_turn =
  ct_completion :: ordered_completion
  ct_guard :: 'g

record 'g handoff_entry =
  he_allocation :: nat
  he_request_id :: "request_id option"
  he_early :: "'g completion_turn option"
  he_discarded :: "request_id option"

datatype 'g receiver = Waiting | Sent "'g completion_turn" | Disconnected

record 'g handoff =
  ho_alive :: bool
  ho_closed :: bool
  ho_entries :: "(request_owner, 'g handoff_entry) hash_map"
  ho_next :: nat
  ho_receivers :: "(nat, 'g receiver) hash_map"
  ho_dropped :: "'g completion_turn list"

record registration =
  rn_owner :: request_owner
  rn_allocation :: nat
  rn_bound :: bool

definition turn_owner :: "'g completion_turn \<Rightarrow> request_owner" where
  "turn_owner t = oc_owner (ct_completion t)"

definition turn_request :: "'g completion_turn \<Rightarrow> request_id" where
  "turn_request t = oc_request_id (ct_completion t)"

definition handoff_new :: "'g handoff" where
  "handoff_new = \<lparr>ho_alive = True, ho_closed = False, ho_entries = [], ho_next = 0, ho_receivers = [], ho_dropped = []\<rparr>"

section \<open>Channels\<close>

definition drop_turn :: "'g completion_turn option \<Rightarrow> 'g handoff \<Rightarrow> 'g handoff" where
  "drop_turn t s = (case t of Some t \<Rightarrow> s\<lparr>ho_dropped := ho_dropped s @ [t]\<rparr> | None \<Rightarrow> s)"

text \<open>\<open>oneshot::Sender::send\<close>, and the end of a sender that has sent nothing.\<close>

definition send_turn :: "nat \<Rightarrow> 'g completion_turn \<Rightarrow> 'g handoff \<Rightarrow> bool \<times> 'g handoff" where
  "send_turn a t s =
     (case hm_get (ho_receivers s) a of
        Some _ \<Rightarrow> (True, s\<lparr>ho_receivers := hm_insert a (Sent t) (ho_receivers s)\<rparr>)
      | None \<Rightarrow> (False, drop_turn (Some t) s))"

definition drop_sender :: "nat \<Rightarrow> 'g handoff \<Rightarrow> 'g handoff" where
  "drop_sender a s =
     (case hm_get (ho_receivers s) a of
        Some Waiting \<Rightarrow> s\<lparr>ho_receivers := hm_insert a Disconnected (ho_receivers s)\<rparr>
      | _ \<Rightarrow> s)"

definition drop_entry :: "'g handoff_entry option \<Rightarrow> 'g handoff \<Rightarrow> 'g handoff" where
  "drop_entry e s = (case e of Some e \<Rightarrow> drop_turn (he_early e) (drop_sender (he_allocation e) s) | None \<Rightarrow> s)"

definition drop_receiver :: "nat \<Rightarrow> 'g handoff \<Rightarrow> 'g handoff" where
  "drop_receiver a s =
     (let s1 = s\<lparr>ho_receivers := hm_remove a (ho_receivers s)\<rparr>
      in case hm_get (ho_receivers s) a of Some (Sent t) \<Rightarrow> drop_turn (Some t) s1 | _ \<Rightarrow> s1)"

section \<open>The registry\<close>

definition handoff_register :: "request_owner \<Rightarrow> 'g handoff \<Rightarrow> (handoff_error, registration) result \<times> 'g handoff" where
  "handoff_register owner s =
     (if ho_closed s then (Err HandoffClosed, s)
      else if hm_get (ho_entries s) owner \<noteq> None then (Err DuplicateOwner, s)
      else (Ok \<lparr>rn_owner = owner, rn_allocation = ho_next s, rn_bound = False\<rparr>,
            s\<lparr>ho_next := Suc (ho_next s), ho_receivers := hm_insert (ho_next s) Waiting (ho_receivers s),
              ho_entries := hm_insert owner \<lparr>he_allocation = ho_next s, he_request_id = None, he_early = None,
                he_discarded = None\<rparr> (ho_entries s)\<rparr>))"

definition handoff_completion :: "ordered_completion \<Rightarrow> 'g \<Rightarrow> 'g handoff \<Rightarrow> (handoff_error, handoff_disposition) result \<times> 'g handoff" where
  "handoff_completion completion guard s =
     (let t = \<lparr>ct_completion = completion, ct_guard = guard\<rparr>; owner = oc_owner completion
      in if ho_closed s then (Err HandoffClosed, drop_turn (Some t) s)
         else case hm_get (ho_entries s) owner of
           None \<Rightarrow> (Ok HandoffUnregistered, drop_turn (Some t) s)
         | Some e \<Rightarrow>
             (case he_request_id e of
                None \<Rightarrow>
                  if he_early e \<noteq> None \<or> he_discarded e \<noteq> None then (Err EarlyCompletionAlreadyParked, drop_turn (Some t) s)
                  else (Ok HandoffParked, s\<lparr>ho_entries := hm_insert owner (e\<lparr>he_early := Some t\<rparr>) (ho_entries s)\<rparr>)
              | Some rid \<Rightarrow>
                  if rid \<noteq> oc_request_id completion then (Ok HandoffStaleRequestId, drop_turn (Some t) s)
                  else (case send_turn (he_allocation e) t (s\<lparr>ho_entries := hm_remove owner (ho_entries s)\<rparr>) of
                          (True, s') \<Rightarrow> (Ok HandoffDelivered, drop_turn (he_early e) s')
                        | (False, s') \<Rightarrow> (Ok HandoffReceiverGone, drop_turn (he_early e) s'))))"

definition handoff_discard :: "request_owner \<Rightarrow> request_id \<Rightarrow> 'g handoff \<Rightarrow> (handoff_error, discard_disposition) result \<times> 'g handoff" where
  "handoff_discard owner rid s =
     (case hm_get (ho_entries s) owner of
        None \<Rightarrow> (Ok DiscardUnregistered, s)
      | Some e \<Rightarrow>
          (case he_request_id e of
             Some bound \<Rightarrow>
               if bound \<noteq> rid then (Ok DiscardStaleRequestId, s)
               else (Ok Discarded, drop_entry (Some e) (s\<lparr>ho_entries := hm_remove owner (ho_entries s)\<rparr>))
           | None \<Rightarrow>
               if pred_option (\<lambda>i. i = rid) (he_discarded e) \<and> pred_option (\<lambda>t. turn_request t = rid) (he_early e)
               then (Ok DiscardParked, drop_turn (he_early e)
                 (s\<lparr>ho_entries := hm_insert owner (e\<lparr>he_discarded := Some rid, he_early := None\<rparr>) (ho_entries s)\<rparr>))
               else (Err EarlyCompletionAlreadyParked, s)))"

definition owned_by_session :: "string \<Rightarrow> string \<Rightarrow> u64 \<Rightarrow> request_owner \<Rightarrow> bool" where
  "owned_by_session epoch sid inc owner \<longleftrightarrow>
     ro_epoch owner = epoch \<and> ro_session_id owner = Some sid \<and> ro_incarnation owner = Some inc"

text \<open>The entries go one by one: first the early turn, then the sender.\<close>

fun drop_owned :: "request_owner list \<Rightarrow> 'g handoff \<Rightarrow> nat \<times> 'g handoff" where
  "drop_owned [] s = (0, s)"
| "drop_owned (owner # owners) s =
     (case hm_get (ho_entries s) owner of
        None \<Rightarrow> drop_owned owners s
      | Some e \<Rightarrow>
          (case drop_owned owners (drop_sender (he_allocation e) (drop_turn (he_early e)
                  (s\<lparr>ho_entries := hm_remove owner (ho_entries s)\<rparr>))) of
             (n, s') \<Rightarrow> (Suc n, s')))"

definition discard_session :: "string \<Rightarrow> string \<Rightarrow> u64 \<Rightarrow> 'g handoff \<Rightarrow> (handoff_error, nat) result \<times> 'g handoff" where
  "discard_session epoch sid inc s =
     (case drop_owned (filter (owned_by_session epoch sid inc) (map fst (ho_entries s))) s of (n, s') \<Rightarrow> (Ok n, s'))"

definition handoff_close :: "'g handoff \<Rightarrow> 'g handoff" where
  "handoff_close s = fold (\<lambda>p. drop_entry (Some (snd p))) (ho_entries s) (s\<lparr>ho_closed := True, ho_entries := []\<rparr>)"

text \<open>The last handle goes: nothing can be reached through a registration any more.\<close>

definition drop_handoff :: "'g handoff \<Rightarrow> 'g handoff" where
  "drop_handoff s = fold (\<lambda>p. drop_entry (Some (snd p))) (ho_entries s) (s\<lparr>ho_alive := False, ho_entries := []\<rparr>)"

section \<open>A registration\<close>

definition own_entry :: "registration \<Rightarrow> 'g handoff \<Rightarrow> 'g handoff_entry option" where
  "own_entry r s =
     (case hm_get (ho_entries s) (rn_owner r) of
        Some e \<Rightarrow> if he_allocation e = rn_allocation r then Some e else None
      | None \<Rightarrow> None)"

definition bind_registration :: "request_id \<Rightarrow> registration \<Rightarrow> 'g handoff
    \<Rightarrow> (handoff_error, bind_disposition) result \<times> registration \<times> 'g handoff" where
  "bind_registration rid r s =
     (if rn_bound r then (Err AlreadyBound, r, s)
      else if \<not> ho_alive s then (Err HandoffClosed, r, s)
      else if ho_closed s then (Err HandoffClosed, r, s)
      else case own_entry r s of
        None \<Rightarrow> (Err Withdrawn, r, s)
      | Some e \<Rightarrow>
          (let r' = r\<lparr>rn_bound := True\<rparr>;
               matches = (case he_early e of Some t \<Rightarrow> turn_request t = rid | None \<Rightarrow> False);
               kept = s\<lparr>ho_entries := hm_insert (rn_owner r)
                  (e\<lparr>he_request_id := Some rid, he_early := None, he_discarded := None\<rparr>) (ho_entries s)\<rparr>;
               gone = s\<lparr>ho_entries := hm_remove (rn_owner r) (ho_entries s)\<rparr>
           in if he_discarded e = Some rid
              then (Ok BindDiscarded, r', drop_sender (he_allocation e) (drop_turn (he_early e) gone))
              else case he_early e of
                Some t \<Rightarrow>
                  if matches
                  then (case send_turn (he_allocation e) t gone of
                          (True, s') \<Rightarrow> (Ok BindDelivered, r', s')
                        | (False, s') \<Rightarrow> (Ok BindReceiverGone, r', s'))
                  else (Ok (AwaitingCompletion (Some (turn_request t))), r', drop_turn (Some t) kept)
              | None \<Rightarrow> (Ok (AwaitingCompletion (he_discarded e)), r', kept)))"

definition drop_registration :: "registration \<Rightarrow> 'g handoff \<Rightarrow> 'g handoff" where
  "drop_registration r s =
     (let s1 = (if ho_alive s \<and> own_entry r s \<noteq> None
                then drop_entry (own_entry r s) (s\<lparr>ho_entries := hm_remove (rn_owner r) (ho_entries s)\<rparr>) else s)
      in drop_receiver (rn_allocation r) s1)"

text \<open>A poll of \<open>wait\<close>: None while nothing has come; otherwise the registration is gone.\<close>

definition wait_registration :: "registration \<Rightarrow> 'g handoff \<Rightarrow> (handoff_error, 'g completion_turn) result option \<times> 'g handoff" where
  "wait_registration r s =
     (if \<not> rn_bound r then (Some (Err Unbound), drop_registration r s)
      else case hm_get (ho_receivers s) (rn_allocation r) of
        Some (Sent t) \<Rightarrow>
          (Some (Ok t), drop_registration r (s\<lparr>ho_receivers := hm_insert (rn_allocation r) Disconnected (ho_receivers s)\<rparr>))
      | Some Waiting \<Rightarrow> (None, s)
      | _ \<Rightarrow> (Some (Err CompletionUnavailable), drop_registration r s))"


section \<open>Runs\<close>

text \<open>
  The coordinator hands completions over, discards and closes; tasks register, bind, wait and withdraw, in
  any order and with any owners and ids. The logs record every turn that was given to the handoff, every
  turn a task took, and every id a registration was bound to.
\<close>

datatype 'g handoff_op =
    HoRegister request_owner
  | HoCompletion ordered_completion 'g
  | HoDiscard request_owner request_id
  | HoDiscardSession string string u64
  | HoClose
  | HoDropHandle
  | HoBind nat request_id
  | HoWait nat
  | HoWithdraw nat

record 'g handoff_run =
  hn_handoff :: "'g handoff"
  hn_tasks :: "(nat, registration) hash_map"
  hn_given :: "'g completion_turn list"
  hn_taken :: "(nat \<times> 'g completion_turn) list"
  hn_bound :: "(nat \<times> request_owner \<times> request_id) list"

definition handoff_start :: "'g handoff_run" where
  "handoff_start = \<lparr>hn_handoff = handoff_new, hn_tasks = [], hn_given = [], hn_taken = [], hn_bound = []\<rparr>"

definition task_do :: "nat \<Rightarrow> (registration \<Rightarrow> 'g handoff_run) \<Rightarrow> 'g handoff_run \<Rightarrow> 'g handoff_run" where
  "task_do a f w = (case hm_get (hn_tasks w) a of Some r \<Rightarrow> f r | None \<Rightarrow> w)"

definition handle_do :: "'g handoff_run \<Rightarrow> 'g handoff_run \<Rightarrow> 'g handoff_run" where
  "handle_do w' w = (if ho_alive (hn_handoff w) then w' else w)"

fun handoff_do :: "'g handoff_op \<Rightarrow> 'g handoff_run \<Rightarrow> 'g handoff_run" where
  "handoff_do (HoRegister owner) w =
     handle_do (case handoff_register owner (hn_handoff w) of
         (Ok r, s) \<Rightarrow> w\<lparr>hn_handoff := s, hn_tasks := hm_insert (rn_allocation r) r (hn_tasks w)\<rparr>
       | (_, s) \<Rightarrow> w\<lparr>hn_handoff := s\<rparr>) w"
| "handoff_do (HoCompletion completion guard) w =
     handle_do (w\<lparr>hn_handoff := snd (handoff_completion completion guard (hn_handoff w)),
         hn_given := hn_given w @ [\<lparr>ct_completion = completion, ct_guard = guard\<rparr>]\<rparr>) w"
| "handoff_do (HoDiscard owner rid) w = handle_do (w\<lparr>hn_handoff := snd (handoff_discard owner rid (hn_handoff w))\<rparr>) w"
| "handoff_do (HoDiscardSession epoch sid inc) w =
     handle_do (w\<lparr>hn_handoff := snd (discard_session epoch sid inc (hn_handoff w))\<rparr>) w"
| "handoff_do HoClose w = handle_do (w\<lparr>hn_handoff := handoff_close (hn_handoff w)\<rparr>) w"
| "handoff_do HoDropHandle w = handle_do (w\<lparr>hn_handoff := drop_handoff (hn_handoff w)\<rparr>) w"
| "handoff_do (HoBind a rid) w = task_do a (\<lambda>r.
     case bind_registration rid r (hn_handoff w) of
       (Ok _, r', s) \<Rightarrow> w\<lparr>hn_handoff := s, hn_tasks := hm_insert a r' (hn_tasks w), hn_bound := hn_bound w @ [(a, rn_owner r, rid)]\<rparr>
     | (_, r', s) \<Rightarrow> w\<lparr>hn_handoff := s, hn_tasks := hm_insert a r' (hn_tasks w)\<rparr>) w"
| "handoff_do (HoWait a) w = task_do a (\<lambda>r.
     case wait_registration r (hn_handoff w) of
       (None, s) \<Rightarrow> w\<lparr>hn_handoff := s\<rparr>
     | (Some (Ok t), s) \<Rightarrow> w\<lparr>hn_handoff := s, hn_tasks := hm_remove a (hn_tasks w), hn_taken := hn_taken w @ [(a, t)]\<rparr>
     | (Some _, s) \<Rightarrow> w\<lparr>hn_handoff := s, hn_tasks := hm_remove a (hn_tasks w)\<rparr>) w"
| "handoff_do (HoWithdraw a) w = task_do a (\<lambda>r.
     w\<lparr>hn_handoff := drop_registration r (hn_handoff w), hn_tasks := hm_remove a (hn_tasks w)\<rparr>) w"

definition handoff_run_of :: "'g handoff_op list \<Rightarrow> 'g handoff_run" where
  "handoff_run_of ops = fold handoff_do ops handoff_start"

section \<open>Where a turn is\<close>

definition parked :: "'g completion_turn \<Rightarrow> 'g handoff \<Rightarrow> nat" where
  "parked t s = sum_list (map (\<lambda>p. of_bool (he_early (snd p) = Some t)) (ho_entries s))"

definition buffered :: "'g completion_turn \<Rightarrow> 'g handoff \<Rightarrow> nat" where
  "buffered t s = sum_list (map (\<lambda>p. of_bool (snd p = Sent t)) (ho_receivers s))"

definition inside :: "'g completion_turn \<Rightarrow> 'g handoff \<Rightarrow> nat" where
  "inside t s = parked t s + buffered t s + count_list (ho_dropped s) t"

definition maps_wf :: "'g handoff \<Rightarrow> bool" where
  "maps_wf s \<longleftrightarrow> hm_wf (ho_entries s) \<and> hm_wf (ho_receivers s)"

definition is_sent :: "'g receiver option \<Rightarrow> bool" where
  "is_sent r = (case r of Some (Sent t) \<Rightarrow> True | _ \<Rightarrow> False)"

lemma is_sent_simps [simp]:
  "is_sent None = False" "is_sent (Some Waiting) = False" "is_sent (Some Disconnected) = False" "is_sent (Some (Sent t))"
  by (simp_all add: is_sent_def)

lemma parked_cong [simp]:
  "parked t (ho_receivers_update f s) = parked t s" "parked t (ho_dropped_update g s) = parked t s"
  "parked t (ho_closed_update h s) = parked t s" "parked t (ho_alive_update k s) = parked t s"
  "parked t (ho_next_update l s) = parked t s"
  by (simp_all add: parked_def)

lemma buffered_put:
  assumes "hm_wf (ho_receivers s)"
  shows "buffered t (s\<lparr>ho_receivers := hm_insert a x (ho_receivers s)\<rparr>) + of_bool (hm_get (ho_receivers s) a = Some (Sent t))
     = buffered t s + of_bool (x = Sent t)"
proof (cases "hm_get (ho_receivers s) a")
  case None
  with hm.sum_put_new [OF assms None, of "\<lambda>x. of_bool (x = Sent t) :: nat" x] show ?thesis by (simp add: buffered_def)
next
  case (Some y)
  with hm.sum_put_old [OF assms Some, of "\<lambda>x. of_bool (x = Sent t) :: nat" x] show ?thesis by (simp add: buffered_def)
qed

lemma buffered_del:
  assumes "hm_wf (ho_receivers s)"
  shows "buffered t (s\<lparr>ho_receivers := hm_remove a (ho_receivers s)\<rparr>) + of_bool (hm_get (ho_receivers s) a = Some (Sent t)) = buffered t s"
proof (cases "hm_get (ho_receivers s) a")
  case None
  then have "hm_remove a (ho_receivers s) = ho_receivers s"
    by (simp add: hm_remove_def hm_get_def map_of_eq_None_iff)
  with None show ?thesis by simp
next
  case (Some y)
  with hm.sum_del [OF assms Some, of "\<lambda>x. of_bool (x = Sent t) :: nat"] show ?thesis by (simp add: buffered_def)
qed

lemma parked_put:
  assumes "hm_wf (ho_entries s)"
  shows "parked t (s\<lparr>ho_entries := hm_insert owner e (ho_entries s)\<rparr>)
      + (case hm_get (ho_entries s) owner of Some e' \<Rightarrow> of_bool (he_early e' = Some t) | None \<Rightarrow> 0)
     = parked t s + of_bool (he_early e = Some t)"
proof (cases "hm_get (ho_entries s) owner")
  case None
  with hm.sum_put_new [OF assms None, of "\<lambda>e. of_bool (he_early e = Some t) :: nat" e] show ?thesis by (simp add: parked_def)
next
  case (Some y)
  with hm.sum_put_old [OF assms Some, of "\<lambda>e. of_bool (he_early e = Some t) :: nat" e] show ?thesis by (simp add: parked_def)
qed

lemma parked_del:
  assumes "hm_wf (ho_entries s)" "hm_get (ho_entries s) owner = Some e"
  shows "parked t (s\<lparr>ho_entries := hm_remove owner (ho_entries s)\<rparr>) + of_bool (he_early e = Some t) = parked t s"
  using hm.sum_del [OF assms, of "\<lambda>e. of_bool (he_early e = Some t) :: nat"] by (simp add: parked_def)

lemma buffered_cong [simp]:
  "buffered t (ho_entries_update f s) = buffered t s" "buffered t (ho_dropped_update g s) = buffered t s"
  "buffered t (ho_closed_update h s) = buffered t s" "buffered t (ho_alive_update k s) = buffered t s"
  "buffered t (ho_next_update l s) = buffered t s"
  by (simp_all add: buffered_def)

subsection \<open>The channels keep every turn\<close>

lemma drop_turn_fields [simp]:
  "ho_entries (drop_turn t s) = ho_entries s" "ho_receivers (drop_turn t s) = ho_receivers s" "ho_next (drop_turn t s) = ho_next s"
  "ho_closed (drop_turn t s) = ho_closed s" "ho_alive (drop_turn t s) = ho_alive s" "maps_wf (drop_turn t s) = maps_wf s"
  by (simp_all add: drop_turn_def maps_wf_def split: option.splits)

lemma drop_sender_fields [simp]:
  "ho_entries (drop_sender a s) = ho_entries s" "ho_next (drop_sender a s) = ho_next s" "ho_dropped (drop_sender a s) = ho_dropped s"
  "ho_closed (drop_sender a s) = ho_closed s" "ho_alive (drop_sender a s) = ho_alive s"
  by (simp_all add: drop_sender_def split: option.splits receiver.splits)

lemma drop_sender_get:
  "hm_get (ho_receivers (drop_sender a s)) b
     = (if b = a \<and> hm_get (ho_receivers s) a = Some Waiting then Some Disconnected else hm_get (ho_receivers s) b)"
  by (simp add: drop_sender_def hm.get_put split: option.splits receiver.splits)

lemma drop_sender_wf [simp]: "maps_wf s \<Longrightarrow> maps_wf (drop_sender a s)"
  by (simp add: drop_sender_def maps_wf_def hm.wf_put split: option.splits receiver.splits)

lemma drop_receiver_fields [simp]:
  "ho_entries (drop_receiver a s) = ho_entries s" "ho_next (drop_receiver a s) = ho_next s"
  "ho_closed (drop_receiver a s) = ho_closed s" "ho_alive (drop_receiver a s) = ho_alive s"
  by (simp_all add: drop_receiver_def Let_def drop_turn_def split: option.splits receiver.splits)

lemma drop_receiver_get:
  "hm_get (ho_receivers (drop_receiver a s)) b = (if b = a then None else hm_get (ho_receivers s) b)"
  by (simp add: drop_receiver_def Let_def hm.get_del split: option.splits receiver.splits)

lemma drop_receiver_wf [simp]: "maps_wf s \<Longrightarrow> maps_wf (drop_receiver a s)"
  by (simp add: drop_receiver_def Let_def maps_wf_def hm.wf_del split: option.splits receiver.splits)

lemma drop_entry_fields [simp]:
  "ho_entries (drop_entry e s) = ho_entries s" "ho_next (drop_entry e s) = ho_next s"
  "ho_closed (drop_entry e s) = ho_closed s" "ho_alive (drop_entry e s) = ho_alive s"
  by (simp_all add: drop_entry_def split: option.splits)

lemma drop_entry_wf [simp]: "maps_wf s \<Longrightarrow> maps_wf (drop_entry e s)"
  by (simp add: drop_entry_def split: option.splits)

lemma inside_drop_turn: "inside t (drop_turn x s) = inside t s + of_bool (x = Some t)"
  by (cases x) (auto simp: inside_def drop_turn_def)

lemma parked_drop [simp]:
  "parked t (drop_sender a s) = parked t s" "parked t (drop_turn x s) = parked t s" "parked t (drop_receiver a s) = parked t s"
  by (simp_all add: parked_def)

lemma buffered_drop_sender: "maps_wf s \<Longrightarrow> buffered t (drop_sender a s) = buffered t s"
  using buffered_put [of s t a Disconnected]
  by (auto simp: drop_sender_def maps_wf_def split: option.splits receiver.splits)

lemma inside_drop_sender: "maps_wf s \<Longrightarrow> inside t (drop_sender a s) = inside t s"
  by (simp add: inside_def buffered_drop_sender)

lemma inside_drop_entry: "maps_wf s \<Longrightarrow> inside t (drop_entry (Some e) s) = inside t s + of_bool (he_early e = Some t)"
  by (simp add: drop_entry_def inside_drop_turn inside_drop_sender)

lemma inside_drop_receiver: "maps_wf s \<Longrightarrow> inside t (drop_receiver a s) = inside t s"
  using buffered_del [of s t a]
  by (auto simp: drop_receiver_def Let_def inside_drop_turn maps_wf_def split: option.splits receiver.splits)
     (auto simp: inside_def)

lemma inside_send:
  assumes "maps_wf s" "\<not> is_sent (hm_get (ho_receivers s) a)"
  shows "inside t (snd (send_turn a x s)) = inside t s + of_bool (x = t)" "maps_wf (snd (send_turn a x s))"
    "ho_entries (snd (send_turn a x s)) = ho_entries s"
  using buffered_put [of s t a "Sent x"] assms
  by (auto simp: send_turn_def maps_wf_def inside_drop_turn is_sent_def hm.wf_put split: option.splits receiver.splits)
     (auto simp: inside_def)

lemma inside_entries_put:
  assumes "maps_wf s"
  shows "inside t (s\<lparr>ho_entries := hm_insert owner e (ho_entries s)\<rparr>)
      + (case hm_get (ho_entries s) owner of Some e' \<Rightarrow> of_bool (he_early e' = Some t) | None \<Rightarrow> 0)
     = inside t s + of_bool (he_early e = Some t)"
    "maps_wf (s\<lparr>ho_entries := hm_insert owner e (ho_entries s)\<rparr>)"
  using parked_put [of s t owner e] assms by (auto simp: inside_def maps_wf_def hm.wf_put)

lemma inside_entries_del:
  assumes "maps_wf s" "hm_get (ho_entries s) owner = Some e"
  shows "inside t (s\<lparr>ho_entries := hm_remove owner (ho_entries s)\<rparr>) + of_bool (he_early e = Some t) = inside t s"
    "maps_wf (s\<lparr>ho_entries := hm_remove owner (ho_entries s)\<rparr>)"
  using parked_del [of s owner e t] assms by (auto simp: inside_def maps_wf_def hm.wf_del)

lemma drop_entries_inside:
  "maps_wf s \<Longrightarrow> inside t (fold (\<lambda>p. drop_entry (Some (snd p))) ps s)
     = inside t s + sum_list (map (\<lambda>p. of_bool (he_early (snd p) = Some t)) ps) \<and> maps_wf (fold (\<lambda>p. drop_entry (Some (snd p))) ps s)"
  by (induction ps arbitrary: s) (simp_all add: inside_drop_entry)

section \<open>The invariant\<close>

text \<open>
  An entry belongs to a live registration that still waits; a bound one holds no early turn. A receiver
  that waits has its entry, and one that was sent a turn was sent the one it is bound to.
\<close>

type_synonym tasks = "(nat, registration) hash_map"
type_synonym bound_log = "(nat \<times> request_owner \<times> request_id) list"

definition entry_ok :: "'g handoff \<Rightarrow> tasks \<Rightarrow> bound_log \<Rightarrow> request_owner \<Rightarrow> 'g handoff_entry \<Rightarrow> bool" where
  "entry_ok s tasks bound owner e \<longleftrightarrow>
     hm_get (ho_receivers s) (he_allocation e) = Some Waiting \<and>
     (\<exists>r. hm_get tasks (he_allocation e) = Some r \<and> rn_owner r = owner \<and> rn_bound r = (he_request_id e \<noteq> None)) \<and>
     pred_option (\<lambda>t. turn_owner t = owner) (he_early e) \<and>
     pred_option (\<lambda>rid. he_early e = None \<and> he_discarded e = None \<and> (he_allocation e, owner, rid) \<in> set bound) (he_request_id e)"

definition receiver_ok :: "'g handoff \<Rightarrow> tasks \<Rightarrow> bound_log \<Rightarrow> nat \<Rightarrow> 'g receiver \<Rightarrow> bool" where
  "receiver_ok s tasks bound a x \<longleftrightarrow>
     (\<exists>r. hm_get tasks a = Some r \<and>
        (case x of
           Waiting \<Rightarrow> \<exists>e. hm_get (ho_entries s) (rn_owner r) = Some e \<and> he_allocation e = a
         | Sent t \<Rightarrow> (a, turn_owner t, turn_request t) \<in> set bound
         | Disconnected \<Rightarrow> True))"

definition task_ok :: "'g handoff \<Rightarrow> bound_log \<Rightarrow> nat \<Rightarrow> registration \<Rightarrow> bool" where
  "task_ok s bound a r \<longleftrightarrow>
     rn_allocation r = a \<and> a < ho_next s \<and> hm_get (ho_receivers s) a \<noteq> None \<and> rn_bound r = (a \<in> fst ` set bound)"

definition linked :: "'g handoff \<Rightarrow> tasks \<Rightarrow> bound_log \<Rightarrow> bool" where
  "linked s tasks bound \<longleftrightarrow>
     (\<forall>owner e. hm_get (ho_entries s) owner = Some e \<longrightarrow> entry_ok s tasks bound owner e) \<and>
     (\<forall>a x. hm_get (ho_receivers s) a = Some x \<longrightarrow> receiver_ok s tasks bound a x) \<and>
     (\<forall>a r. hm_get tasks a = Some r \<longrightarrow> task_ok s bound a r) \<and>
     distinct (map fst bound) \<and> (\<forall>x \<in> set bound. fst x < ho_next s) \<and>
     (ho_closed s \<or> \<not> ho_alive s \<longrightarrow> ho_entries s = [])"

definition taken_ok :: "tasks \<Rightarrow> bound_log \<Rightarrow> (nat \<times> 'g completion_turn) list \<Rightarrow> bool" where
  "taken_ok tasks bound taken \<longleftrightarrow>
     distinct (map fst taken) \<and>
     (\<forall>x \<in> set taken. (fst x, turn_owner (snd x), turn_request (snd x)) \<in> set bound \<and> hm_get tasks (fst x) = None)"

definition handoff_ok :: "'g handoff_run \<Rightarrow> bool" where
  "handoff_ok w \<longleftrightarrow>
     maps_wf (hn_handoff w) \<and> linked (hn_handoff w) (hn_tasks w) (hn_bound w) \<and>
     taken_ok (hn_tasks w) (hn_bound w) (hn_taken w) \<and>
     (\<forall>t. count_list (hn_given w) t = inside t (hn_handoff w) + count_list (map snd (hn_taken w)) t)"

section \<open>What an operation may do to the links\<close>

lemma linkedI:
  "(\<And>owner e. hm_get (ho_entries s) owner = Some e \<Longrightarrow> entry_ok s tasks bound owner e) \<Longrightarrow>
   (\<And>a x. hm_get (ho_receivers s) a = Some x \<Longrightarrow> receiver_ok s tasks bound a x) \<Longrightarrow>
   (\<And>a r. hm_get tasks a = Some r \<Longrightarrow> task_ok s bound a r) \<Longrightarrow>
   distinct (map fst bound) \<Longrightarrow> (\<And>x. x \<in> set bound \<Longrightarrow> fst x < ho_next s) \<Longrightarrow>
   (ho_closed s \<or> \<not> ho_alive s \<Longrightarrow> ho_entries s = []) \<Longrightarrow> linked s tasks bound"
  unfolding linked_def by blast

lemma linkedD:
  assumes "linked s tasks bound"
  shows "hm_get (ho_entries s) owner = Some e \<Longrightarrow> entry_ok s tasks bound owner e"
    "hm_get (ho_receivers s) a = Some x \<Longrightarrow> receiver_ok s tasks bound a x"
    "hm_get tasks a = Some r \<Longrightarrow> task_ok s bound a r"
    "distinct (map fst bound)" "y \<in> set bound \<Longrightarrow> fst y < ho_next s"
    "ho_closed s \<or> \<not> ho_alive s \<Longrightarrow> ho_entries s = []"
  using assms by (auto simp: linked_def)

lemma same_owner:
  assumes "linked s tasks bound" "hm_get (ho_entries s) owner = Some e" "hm_get (ho_entries s) owner' = Some e'"
    "he_allocation e = he_allocation e'"
  shows "owner = owner'"
  using linkedD(1) [OF assms(1,2)] linkedD(1) [OF assms(1,3)] assms(4) by (auto simp: entry_ok_def)

text \<open>An entry leaves, and its receiver is sent the turn it is bound to, or learns that none comes.\<close>

lemma linked_leave:
  assumes l: "linked s tasks bound" and e: "hm_get (ho_entries s) owner = Some e"
    and s': "hm_get (ho_entries s') = (hm_get (ho_entries s))(owner := None)"
      "hm_get (ho_receivers s') = (hm_get (ho_receivers s))(he_allocation e := Some x)"
      "ho_next s' = ho_next s" "ho_closed s' = ho_closed s" "ho_alive s' = ho_alive s"
    and x: "x = Disconnected \<or> (\<exists>t. x = Sent t \<and> (he_allocation e, turn_owner t, turn_request t) \<in> set bound)"
  shows "linked s' tasks bound"
proof (rule linkedI)
  note o = linkedD(1) [OF l e]
  show "entry_ok s' tasks bound k y" if "hm_get (ho_entries s') k = Some y" for k y
  proof -
    from that s'(1) have k: "hm_get (ho_entries s) k = Some y" "k \<noteq> owner" by (auto split: if_splits)
    with same_owner [OF l e k(1)] have "he_allocation y \<noteq> he_allocation e" by auto
    with linkedD(1) [OF l k(1)] s'(2) show ?thesis by (simp add: entry_ok_def)
  qed
  show "receiver_ok s' tasks bound a y" if y: "hm_get (ho_receivers s') a = Some y" for a y
  proof (cases "a = he_allocation e")
    case True
    with y s'(2) o x show ?thesis by (auto simp: receiver_ok_def entry_ok_def)
  next
    case False
    with y s'(2) have "receiver_ok s tasks bound a y" by (intro linkedD(2) [OF l]) simp
    then obtain r where r: "hm_get tasks a = Some r" "case y of
           Waiting \<Rightarrow> \<exists>e. hm_get (ho_entries s) (rn_owner r) = Some e \<and> he_allocation e = a
         | Sent t \<Rightarrow> (a, turn_owner t, turn_request t) \<in> set bound
         | Disconnected \<Rightarrow> True"
      unfolding receiver_ok_def by blast
    with False e s'(1) show ?thesis
      unfolding receiver_ok_def by (intro exI [of _ r]) (cases y; auto)
  qed
  show "task_ok s' bound a r" if "hm_get tasks a = Some r" for a r
    using linkedD(3) [OF l that] s'(2,3) by (auto simp: task_ok_def)
  show "ho_closed s' \<or> \<not> ho_alive s' \<Longrightarrow> ho_entries s' = []"
    using linkedD(6) [OF l] e s'(4,5) by (auto simp: hm.get_nil)
qed (use linkedD(4,5) [OF l] s'(3) in auto)

text \<open>An entry changes in place: it is parked, discarded or bound.\<close>

lemma linked_change:
  assumes l: "linked s tasks bound" and e: "hm_get (ho_entries s) owner = Some e" "he_allocation e' = he_allocation e"
    and s': "hm_get (ho_entries s') = (hm_get (ho_entries s))(owner := Some e')" "ho_receivers s' = ho_receivers s"
      "ho_next s' = ho_next s" "ho_closed s' = ho_closed s" "ho_alive s' = ho_alive s"
    and e': "entry_ok s tasks' bound' owner e'"
    and t: "hm_get tasks' = hm_get tasks \<and> bound' = bound \<or>
      (\<exists>r rid. hm_get tasks (he_allocation e) = Some r \<and> \<not> rn_bound r \<and> rn_owner r = owner \<and>
         hm_get tasks' = (hm_get tasks)(he_allocation e := Some (r\<lparr>rn_bound := True\<rparr>)) \<and> bound' = bound @ [(he_allocation e, owner, rid)])"
  shows "linked s' tasks' bound'"
proof (rule linkedI)
  have sub: "set bound \<subseteq> set bound'" using t by auto
  have keep: "\<exists>r'. hm_get tasks' a = Some r' \<and> rn_owner r' = rn_owner r \<and> rn_allocation r' = rn_allocation r \<and>
      (a \<noteq> he_allocation e \<longrightarrow> rn_bound r' = rn_bound r)" if "hm_get tasks a = Some r" for a r
    using t that by auto
  show "entry_ok s' tasks' bound' k y" if "hm_get (ho_entries s') k = Some y" for k y
  proof (cases "k = owner")
    case True
    with that s'(1,2) e' show ?thesis by (simp add: entry_ok_def)
  next
    case False
    with that s'(1) have k: "hm_get (ho_entries s) k = Some y" by simp
    with False same_owner [OF l e(1) k] have n: "he_allocation y \<noteq> he_allocation e" by auto
    from linkedD(1) [OF l k] obtain r where r: "hm_get tasks (he_allocation y) = Some r" "rn_owner r = k" "rn_bound r = (he_request_id y \<noteq> None)"
      by (auto simp: entry_ok_def)
    from keep [OF r(1)] r(2,3) n obtain r' where "hm_get tasks' (he_allocation y) = Some r'" "rn_owner r' = k" "rn_bound r' = (he_request_id y \<noteq> None)"
      by auto
    with linkedD(1) [OF l k] s'(2) sub show ?thesis by (auto simp: entry_ok_def elim!: option.pred_mono_strong)
  qed
  show "receiver_ok s' tasks' bound' a y" if y: "hm_get (ho_receivers s') a = Some y" for a y
  proof -
    from y s'(2) have ok: "receiver_ok s tasks bound a y" by (intro linkedD(2) [OF l]) simp
    then obtain r where r: "hm_get tasks a = Some r" by (auto simp: receiver_ok_def)
    from keep [OF r] obtain r' where r': "hm_get tasks' a = Some r'" "rn_owner r' = rn_owner r" by blast
    from ok r r' sub e s'(1) show ?thesis by (auto simp: receiver_ok_def split: receiver.splits)
  qed
  show "task_ok s' bound' a r" if r: "hm_get tasks' a = Some r" for a r
    using t
  proof
    assume "hm_get tasks' = hm_get tasks \<and> bound' = bound"
    with r linkedD(3) [OF l, of a r] s'(2,3) show ?thesis by (simp add: task_ok_def)
  next
    assume "\<exists>r rid. hm_get tasks (he_allocation e) = Some r \<and> \<not> rn_bound r \<and> rn_owner r = owner \<and>
         hm_get tasks' = (hm_get tasks)(he_allocation e := Some (r\<lparr>rn_bound := True\<rparr>)) \<and> bound' = bound @ [(he_allocation e, owner, rid)]"
    with r linkedD(3) [OF l, of a] s'(2,3) show ?thesis by (auto simp: task_ok_def rev_image_eqI split: if_splits)
  qed
  show "distinct (map fst bound')"
    using t linkedD(3,4) [OF l] by (auto simp: task_ok_def)
  show "fst y < ho_next s'" if "y \<in> set bound'" for y
    using that t linkedD(3) [OF l] linkedD(5) [OF l, of y] s'(3) by (auto simp: task_ok_def)
  show "ho_closed s' \<or> \<not> ho_alive s' \<Longrightarrow> ho_entries s' = []"
    using linkedD(6) [OF l] e s'(4,5) by (auto simp: hm.get_nil)
qed

text \<open>A registration that has no entry goes, with its receiver.\<close>

lemma linked_forget:
  assumes l: "linked s tasks bound" and e: "\<And>owner e. hm_get (ho_entries s) owner = Some e \<Longrightarrow> he_allocation e \<noteq> a"
    and s': "ho_entries s' = ho_entries s" "hm_get (ho_receivers s') = (hm_get (ho_receivers s))(a := None)" "ho_next s' = ho_next s"
      "ho_closed s' = ho_closed s" "ho_alive s' = ho_alive s"
    and t: "hm_get tasks' = (hm_get tasks)(a := None)"
  shows "linked s' tasks' bound"
proof (rule linkedI)
  show "entry_ok s' tasks' bound k y" if "hm_get (ho_entries s') k = Some y" for k y
    using linkedD(1) [OF l, of k y] e [of k y] that s'(1,2) t by (auto simp: entry_ok_def)
  show "receiver_ok s' tasks' bound b y" if "hm_get (ho_receivers s') b = Some y" for b y
    using linkedD(2) [OF l, of b y] that s'(1,2) t by (auto simp: receiver_ok_def split: if_splits receiver.splits)
  show "task_ok s' bound b r" if "hm_get tasks' b = Some r" for b r
    using linkedD(3) [OF l, of b r] that s'(2,3) t by (auto simp: task_ok_def split: if_splits)
qed (use linkedD(4-6) [OF l] s' in auto)

text \<open>All entries go at once.\<close>

lemma drop_entries_fields [simp]:
  "ho_entries (fold (\<lambda>p. drop_entry (Some (snd p))) ps s) = ho_entries s"
  "ho_next (fold (\<lambda>p. drop_entry (Some (snd p))) ps s) = ho_next s"
  "ho_closed (fold (\<lambda>p. drop_entry (Some (snd p))) ps s) = ho_closed s"
  "ho_alive (fold (\<lambda>p. drop_entry (Some (snd p))) ps s) = ho_alive s"
  by (induction ps arbitrary: s) simp_all

lemma drop_entries_get:
  "hm_get (ho_receivers (fold (\<lambda>p. drop_entry (Some (snd p))) ps s)) a
     = (if hm_get (ho_receivers s) a = Some Waiting \<and> (\<exists>p \<in> set ps. he_allocation (snd p) = a) then Some Disconnected
        else hm_get (ho_receivers s) a)"
  by (induction ps arbitrary: s) (auto simp: drop_entry_def drop_sender_get)

lemma linked_clear:
  assumes l: "linked s tasks bound" and wf: "maps_wf s"
    and s': "ho_entries s0 = []" "ho_receivers s0 = ho_receivers s" "ho_next s0 = ho_next s"
  shows "linked (fold (\<lambda>p. drop_entry (Some (snd p))) (ho_entries s) s0) tasks bound"
proof (rule linkedI)
  let ?s = "fold (\<lambda>p. drop_entry (Some (snd p))) (ho_entries s) s0"
  show "entry_ok ?s tasks bound k y" if "hm_get (ho_entries ?s) k = Some y" for k y
    using that s'(1) by (simp add: hm.get_nil)
  show "receiver_ok ?s tasks bound a y" if y: "hm_get (ho_receivers ?s) a = Some y" for a y
  proof (cases "hm_get (ho_receivers s) a = Some Waiting")
    case True
    from linkedD(2) [OF l True] obtain r e where r: "hm_get tasks a = Some r" "hm_get (ho_entries s) (rn_owner r) = Some e" "he_allocation e = a"
      by (auto simp: receiver_ok_def)
    from hm.get_mem [OF r(2)] r(3) True y s'(2) have "y = Disconnected" by (auto simp: drop_entries_get split: if_splits)
    with r(1) show ?thesis by (simp add: receiver_ok_def)
  next
    case False
    with y s'(2) have "hm_get (ho_receivers s) a = Some y" "y \<noteq> Waiting" by (simp_all add: drop_entries_get)
    with linkedD(2) [OF l, of a y] show ?thesis by (auto simp: receiver_ok_def split: receiver.splits)
  qed
  show "task_ok ?s bound a r" if "hm_get tasks a = Some r" for a r
    using linkedD(3) [OF l that] s'(2,3) by (auto simp: task_ok_def drop_entries_get)
qed (use linkedD(4,5) [OF l] s' in auto)

section \<open>Every operation keeps the invariant\<close>

lemma registered_ok:
  assumes l: "linked s tasks bound" and wf: "maps_wf s" and r: "handoff_register owner s = (Ok r, s')" and alive: "ho_alive s"
  shows "linked s' (hm_insert (rn_allocation r) r tasks) bound" "maps_wf s'" "inside t s' = inside t s"
    "hm_get tasks (rn_allocation r) = None" "ho_next s = rn_allocation r"
proof -
  let ?a = "ho_next s" and ?e = "\<lparr>he_allocation = ho_next s, he_request_id = None, he_early = None, he_discarded = None\<rparr>"
  from r have c: "\<not> ho_closed s" "hm_get (ho_entries s) owner = None" "r = \<lparr>rn_owner = owner, rn_allocation = ?a, rn_bound = False\<rparr>"
    "s' = s\<lparr>ho_next := Suc ?a, ho_receivers := hm_insert ?a Waiting (ho_receivers s), ho_entries := hm_insert owner ?e (ho_entries s)\<rparr>"
    by (auto simp: handoff_register_def split: if_splits)
  have fresh: "hm_get tasks ?a = None"
    using linkedD(3) [OF l, of ?a] by (cases "hm_get tasks ?a") (auto simp: task_ok_def)
  then have fresh': "hm_get (ho_receivers s) ?a = None"
    using linkedD(2) [OF l, of ?a] by (cases "hm_get (ho_receivers s) ?a") (auto simp: receiver_ok_def)
  have new: "?a \<notin> fst ` set bound" using linkedD(5) [OF l] by fastforce
  have other: "he_allocation e \<noteq> ?a" if "hm_get (ho_entries s) k = Some e" for k e
    using linkedD(1) [OF l that] fresh by (auto simp: entry_ok_def)
  show "linked s' (hm_insert (rn_allocation r) r tasks) bound"
  proof (rule linkedI)
    show "entry_ok s' (hm_insert (rn_allocation r) r tasks) bound k e" if k: "hm_get (ho_entries s') k = Some e" for k e
    proof (cases "k = owner")
      case True
      with k c(4) have "e = ?e" by (simp add: hm.get_put)
      with True c(3,4) show ?thesis by (simp add: entry_ok_def hm.get_put)
    next
      case False
      with k c(4) have "hm_get (ho_entries s) k = Some e" by (simp add: hm.get_put)
      with linkedD(1) [OF l this] other [OF this] c(3,4) show ?thesis by (simp add: entry_ok_def hm.get_put)
    qed
    show "receiver_ok s' (hm_insert (rn_allocation r) r tasks) bound b y" if y: "hm_get (ho_receivers s') b = Some y" for b y
    proof (cases "b = ?a")
      case True
      with y c(3,4) show ?thesis by (simp add: receiver_ok_def hm.get_put)
    next
      case False
      with y c(4) have "receiver_ok s tasks bound b y" by (intro linkedD(2) [OF l]) (simp add: hm.get_put)
      then obtain x where x: "hm_get tasks b = Some x" "case y of
           Waiting \<Rightarrow> \<exists>e. hm_get (ho_entries s) (rn_owner x) = Some e \<and> he_allocation e = b
         | Sent t \<Rightarrow> (b, turn_owner t, turn_request t) \<in> set bound
         | Disconnected \<Rightarrow> True"
        unfolding receiver_ok_def by blast
      with False c(2-4) show ?thesis
        unfolding receiver_ok_def by (intro exI [of _ x]) (cases y; auto simp: hm.get_put)
    qed
    show "task_ok s' bound b x" if "hm_get (hm_insert (rn_allocation r) r tasks) b = Some x" for b x
      using that linkedD(3) [OF l, of b x] c(3,4) new by (auto simp: task_ok_def hm.get_put split: if_splits)
    show "ho_closed s' \<or> \<not> ho_alive s' \<Longrightarrow> ho_entries s' = []" using c(1,4) alive by simp
  qed (use linkedD(4,5) [OF l] c(4) in \<open>auto simp: less_SucI\<close>)
  show "maps_wf s'" using wf c(4) by (simp add: maps_wf_def hm.wf_put)
  show "inside t s' = inside t s"
    using inside_entries_put(1) [of "s\<lparr>ho_next := Suc ?a, ho_receivers := hm_insert ?a Waiting (ho_receivers s)\<rparr>" t owner ?e]
      buffered_put [of s t ?a Waiting] wf c(2,4) fresh'
    by (simp add: maps_wf_def hm.wf_put inside_def) (simp add: buffered_def parked_def)
  show "hm_get tasks (rn_allocation r) = None" "ho_next s = rn_allocation r" using fresh c(3) by simp_all
qed

lemma entry_waits: "linked s tasks bound \<Longrightarrow> hm_get (ho_entries s) owner = Some e \<Longrightarrow> hm_get (ho_receivers s) (he_allocation e) = Some Waiting"
  using linkedD(1) [of s tasks bound owner e] by (simp add: entry_ok_def)

definition after_send :: "request_owner \<Rightarrow> 'g handoff_entry \<Rightarrow> 'g completion_turn \<Rightarrow> 'g handoff \<Rightarrow> 'g handoff" where
  "after_send owner e x s =
     s\<lparr>ho_entries := hm_remove owner (ho_entries s), ho_receivers := hm_insert (he_allocation e) (Sent x) (ho_receivers s)\<rparr>"

lemma sent_turn:
  assumes "linked s tasks bound" "maps_wf s" "hm_get (ho_entries s) owner = Some e"
  shows "send_turn (he_allocation e) x (s\<lparr>ho_entries := hm_remove owner (ho_entries s)\<rparr>) = (True, after_send owner e x s)"
    "maps_wf (after_send owner e x s)"
    "inside t (after_send owner e x s) + of_bool (he_early e = Some t) = inside t s + of_bool (x = t)"
proof -
  note w = entry_waits [OF assms(1,3)]
  show eq: "send_turn (he_allocation e) x (s\<lparr>ho_entries := hm_remove owner (ho_entries s)\<rparr>) = (True, after_send owner e x s)"
    using w by (simp add: send_turn_def after_send_def)
  let ?r = "s\<lparr>ho_entries := hm_remove owner (ho_entries s)\<rparr>"
  note del = inside_entries_del [OF assms(2,3)]
  have ns: "\<not> is_sent (hm_get (ho_receivers ?r) (he_allocation e))" using w by simp
  note send = inside_send(1) [OF del(2) ns, of t x, unfolded eq snd_conv] inside_send(2) [OF del(2) ns, of x, unfolded eq snd_conv]
  show "maps_wf (after_send owner e x s)" by (rule send(2))
  show "inside t (after_send owner e x s) + of_bool (he_early e = Some t) = inside t s + of_bool (x = t)"
    unfolding send(1) using del(1) [of t] by simp
qed

lemma sent_linked:
  assumes "linked s tasks bound" "hm_get (ho_entries s) owner = Some e" "(he_allocation e, turn_owner x, turn_request x) \<in> set bound"
  shows "linked (after_send owner e x s) tasks bound"
  by (rule linked_leave [OF assms(1,2), where x = "Sent x"]) (use assms(3) in \<open>auto simp: after_send_def hm.get_del hm.get_put\<close>)

lemma left_entry:
  assumes "linked s tasks bound" "maps_wf s" "hm_get (ho_entries s) owner = Some e"
    "s' = drop_sender (he_allocation e) (drop_turn (he_early e) (s\<lparr>ho_entries := hm_remove owner (ho_entries s)\<rparr>)) \<or>
     s' = drop_entry (Some e) (s\<lparr>ho_entries := hm_remove owner (ho_entries s)\<rparr>)"
  shows "linked s' tasks bound" "maps_wf s'" "inside t s' = inside t s"
proof -
  note del = inside_entries_del [OF assms(2,3)] and w = entry_waits [OF assms(1,3)]
  show "linked s' tasks bound"
  proof (rule linked_leave [OF assms(1,3), where x = Disconnected])
    show "hm_get (ho_receivers s') = (hm_get (ho_receivers s))(he_allocation e \<mapsto> Disconnected)"
      using assms(4) w by (auto simp: fun_eq_iff drop_entry_def drop_sender_get)
    show "hm_get (ho_entries s') = (hm_get (ho_entries s))(owner := None)" using assms(4) by (auto simp: hm.get_del)
  qed (use assms(4) in auto)
  show "maps_wf s'" using assms(4) del(2) by auto
  show "inside t s' = inside t s"
    using assms(4) del(1) [of t] del(2) by (auto simp: inside_drop_sender inside_drop_turn inside_drop_entry)
qed

lemma changed_entry:
  assumes "linked s tasks bound" "maps_wf s" "hm_get (ho_entries s) owner = Some e" "he_allocation e' = he_allocation e"
    "entry_ok s tasks bound owner e'"
  shows "linked (s\<lparr>ho_entries := hm_insert owner e' (ho_entries s)\<rparr>) tasks bound"
    "maps_wf (s\<lparr>ho_entries := hm_insert owner e' (ho_entries s)\<rparr>)"
    "inside t (s\<lparr>ho_entries := hm_insert owner e' (ho_entries s)\<rparr>) + of_bool (he_early e = Some t) = inside t s + of_bool (he_early e' = Some t)"
  using inside_entries_put(1) [OF assms(2), of t owner e'] inside_entries_put(2) [OF assms(2), of owner e'] assms(3)
  by (auto intro!: linked_change [OF assms(1,3,4)] simp: assms(5) hm.get_put)

lemma linked_drop_turn [simp]: "linked (drop_turn x s) tasks bound = linked s tasks bound"
  unfolding linked_def entry_ok_def receiver_ok_def task_ok_def drop_turn_fields by (rule refl)

lemma completion_ok:
  assumes "linked s tasks bound" "maps_wf s"
  shows "linked (snd (handoff_completion c g s)) tasks bound" "maps_wf (snd (handoff_completion c g s))"
    "inside t (snd (handoff_completion c g s)) = inside t s + of_bool (t = \<lparr>ct_completion = c, ct_guard = g\<rparr>)"
proof -
  let ?x = "\<lparr>ct_completion = c, ct_guard = g\<rparr>" and ?s = "snd (handoff_completion c g s)"
  have "linked ?s tasks bound \<and> maps_wf ?s \<and> (\<forall>t. inside t ?s = inside t s + of_bool (t = ?x))"
  proof (cases "ho_closed s")
    case True
    with assms show ?thesis by (auto simp: handoff_completion_def inside_drop_turn)
  next
    case open_: False
    show ?thesis
    proof (cases "hm_get (ho_entries s) (oc_owner c)")
      case None
      with assms open_ show ?thesis by (auto simp: handoff_completion_def inside_drop_turn)
    next
      case (Some e)
      note ok = linkedD(1) [OF assms(1) Some]
      show ?thesis
      proof (cases "he_request_id e")
        case None
        show ?thesis
        proof (cases "he_early e \<noteq> None \<or> he_discarded e \<noteq> None")
          case True
          with assms open_ Some None show ?thesis by (auto simp: handoff_completion_def inside_drop_turn)
        next
          case False
          have "entry_ok s tasks bound (oc_owner c) (e\<lparr>he_early := Some ?x\<rparr>)"
            using ok None by (simp add: entry_ok_def turn_owner_def)
          note ch = changed_entry [OF assms Some _ this]
          have "inside t (s\<lparr>ho_entries := hm_insert (oc_owner c) (e\<lparr>he_early := Some ?x\<rparr>) (ho_entries s)\<rparr>) = inside t s + of_bool (t = ?x)" for t
            using ch(3) [of t] False by auto
          with ch(1,2) open_ Some None False show ?thesis by (simp add: handoff_completion_def)
        qed
      next
        case rid: (Some rid)
        with ok have early: "he_early e = None" by (simp add: entry_ok_def)
        show ?thesis
        proof (cases "rid = oc_request_id c")
          case True
          with ok rid have "(he_allocation e, turn_owner ?x, turn_request ?x) \<in> set bound"
            by (simp add: entry_ok_def turn_owner_def turn_request_def)
          from sent_linked [OF assms(1) Some this] sent_turn [OF assms Some]
          have "linked (after_send (oc_owner c) e ?x s) tasks bound" and sent: "maps_wf (after_send (oc_owner c) e ?x s)"
            "\<And>t. inside t (after_send (oc_owner c) e ?x s) + of_bool (he_early e = Some t) = inside t s + of_bool (?x = t)" by auto
          moreover have "?s = after_send (oc_owner c) e ?x s"
            using open_ Some rid True early sent_turn(1) [OF assms Some, of ?x] by (simp add: handoff_completion_def drop_turn_def)
          ultimately show ?thesis using early by auto
        next
          case False
          with assms open_ Some rid show ?thesis by (auto simp: handoff_completion_def inside_drop_turn)
        qed
      qed
    qed
  qed
  then show "linked ?s tasks bound" "maps_wf ?s" "inside t ?s = inside t s + of_bool (t = ?x)" by simp_all
qed

definition keeps :: "'g handoff \<Rightarrow> 'g handoff \<Rightarrow> tasks \<Rightarrow> bound_log \<Rightarrow> bool" where
  "keeps s s' tasks bound \<longleftrightarrow> linked s' tasks bound \<and> maps_wf s' \<and> (\<forall>t. inside t s' = inside t s)"

lemma discard_ok:
  assumes "linked s tasks bound" "maps_wf s"
  shows "keeps s (snd (handoff_discard owner rid s)) tasks bound"
proof (cases "hm_get (ho_entries s) owner")
  case None
  with assms show ?thesis by (simp add: keeps_def handoff_discard_def)
next
  case (Some e)
  show ?thesis
  proof (cases "he_request_id e")
    case None
    let ?e = "e\<lparr>he_discarded := Some rid, he_early := None\<rparr>"
    have "entry_ok s tasks bound owner ?e" using linkedD(1) [OF assms(1) Some] None by (simp add: entry_ok_def)
    note ch = changed_entry [OF assms Some _ this, simplified]
    from ch(1,2) ch(3) assms Some None show ?thesis
      by (auto simp: keeps_def handoff_discard_def inside_drop_turn)
  next
    case (Some bound')
    with left_entry [OF assms \<open>hm_get (ho_entries s) owner = Some e\<close> disjI2 [OF refl]] \<open>hm_get (ho_entries s) owner = Some e\<close> assms
    show ?thesis by (simp add: keeps_def handoff_discard_def)
  qed
qed

lemma drop_owned_ok:
  "linked s tasks bound \<Longrightarrow> maps_wf s \<Longrightarrow> keeps s (snd (drop_owned owners s)) tasks bound"
proof (induction owners s rule: drop_owned.induct)
  case (1 s)
  then show ?case by (simp add: keeps_def)
next
  case (2 owner owners s)
  show ?case
  proof (cases "hm_get (ho_entries s) owner")
    case None
    with 2 show ?thesis by simp
  next
    case (Some e)
    note left = left_entry [OF 2(3,4) Some disjI1 [OF refl]]
    from 2(2) [OF Some left(1,2)] left(3) Some show ?thesis
      by (simp add: keeps_def prod.case_eq_if)
  qed
qed

lemma cleared_ok:
  assumes "linked s tasks bound" "maps_wf s" "s0 = s\<lparr>ho_closed := True, ho_entries := []\<rparr> \<or> s0 = s\<lparr>ho_alive := False, ho_entries := []\<rparr>"
  shows "keeps s (fold (\<lambda>p. drop_entry (Some (snd p))) (ho_entries s) s0) tasks bound"
proof -
  from assms have wf: "maps_wf s0" and i: "inside t s0 + parked t s = inside t s" for t
    by (auto simp: maps_wf_def inside_def hm_wf_def) (auto simp: parked_def buffered_def)
  have "linked (fold (\<lambda>p. drop_entry (Some (snd p))) (ho_entries s) s0) tasks bound"
    by (rule linked_clear [OF assms(1,2)]) (use assms(3) in auto)
  moreover have "maps_wf (fold (\<lambda>p. drop_entry (Some (snd p))) (ho_entries s) s0) \<and>
      inside t (fold (\<lambda>p. drop_entry (Some (snd p))) (ho_entries s) s0) = inside t s" for t
    using drop_entries_inside [OF wf, of t "ho_entries s"] i [of t] by (auto simp: parked_def)
  ultimately show ?thesis by (simp add: keeps_def)
qed

lemma linked_tasks: "hm_get tasks' = hm_get tasks \<Longrightarrow> linked s tasks' bound = linked s tasks bound"
  unfolding linked_def entry_ok_def receiver_ok_def task_ok_def by simp

lemma own_entry_iff: "own_entry r s = Some e \<longleftrightarrow> hm_get (ho_entries s) (rn_owner r) = Some e \<and> he_allocation e = rn_allocation r"
  by (auto simp: own_entry_def split: option.splits)

lemma own_entry_none:
  assumes "linked s tasks bound" "hm_get tasks a = Some r" "own_entry r s = None" "hm_get (ho_entries s) owner = Some e"
  shows "he_allocation e \<noteq> a"
  using linkedD(1) [OF assms(1,4)] linkedD(3) [OF assms(1,2)] assms(2-4)
  by (auto simp: entry_ok_def task_ok_def own_entry_def split: if_splits)

lemma drop_registration_ok:
  assumes l: "linked s tasks bound" "maps_wf s" "hm_get tasks a = Some r"
  shows "keeps s (drop_registration r s) (hm_remove a tasks) bound"
proof -
  obtain s1 where s1: "drop_registration r s = drop_receiver (rn_allocation r) s1" "linked s1 tasks bound" "maps_wf s1"
      "\<And>t. inside t s1 = inside t s" and none: "own_entry r s1 = None"
  proof (cases "ho_alive s \<and> own_entry r s \<noteq> None")
    case True
    then obtain e where e: "own_entry r s = Some e" by blast
    then have get: "hm_get (ho_entries s) (rn_owner r) = Some e" by (simp add: own_entry_iff)
    note left = left_entry [OF l(1,2) get disjI2 [OF refl]]
    show ?thesis
      by (rule that [OF _ left]) (use True e in \<open>simp_all add: drop_registration_def own_entry_def hm.get_del\<close>)
  next
    case False
    then have "own_entry r s = None" using linkedD(6) [OF l(1)] by (auto simp: own_entry_def hm.get_nil)
    with False l show ?thesis by (intro that) (simp_all add: drop_registration_def)
  qed
  from linkedD(3) [OF l(1,3)] have a: "rn_allocation r = a" by (simp add: task_ok_def)
  have "linked (drop_receiver a s1) (hm_remove a tasks) bound"
    by (rule linked_forget [OF s1(2) own_entry_none [OF s1(2) l(3) none]])
       (auto simp: drop_receiver_get hm.get_del fun_eq_iff)
  with s1 a show ?thesis by (simp add: keeps_def inside_drop_receiver)
qed

text \<open>The task takes the turn it was sent: its receiver has no more to give.\<close>

lemma received_ok:
  assumes l: "linked s tasks bound" "maps_wf s" "hm_get (ho_receivers s) a = Some (Sent t)"
  shows "linked (s\<lparr>ho_receivers := hm_insert a Disconnected (ho_receivers s)\<rparr>) tasks bound"
    "maps_wf (s\<lparr>ho_receivers := hm_insert a Disconnected (ho_receivers s)\<rparr>)"
    "inside x (s\<lparr>ho_receivers := hm_insert a Disconnected (ho_receivers s)\<rparr>) + of_bool (t = x) = inside x s"
proof -
  let ?s = "s\<lparr>ho_receivers := hm_insert a Disconnected (ho_receivers s)\<rparr>"
  show "linked ?s tasks bound"
  proof (rule linkedI)
    show "entry_ok ?s tasks bound k e" if "hm_get (ho_entries ?s) k = Some e" for k e
      using linkedD(1) [OF l(1), of k e] that l(3) by (auto simp: entry_ok_def hm.get_put)
    show "receiver_ok ?s tasks bound b y" if y: "hm_get (ho_receivers ?s) b = Some y" for b y
    proof (cases "b = a")
      case True
      with linkedD(2) [OF l(1,3)] y show ?thesis by (auto simp: receiver_ok_def hm.get_put)
    next
      case False
      with linkedD(2) [OF l(1), of b y] y show ?thesis by (auto simp: receiver_ok_def hm.get_put split: receiver.splits)
    qed
    show "task_ok ?s bound b r" if "hm_get tasks b = Some r" for b r
      using linkedD(3) [OF l(1) that] by (auto simp: task_ok_def hm.get_put)
  qed (use linkedD(4-6) [OF l(1)] in auto)
  show "maps_wf ?s" using l(2) by (simp add: maps_wf_def hm.wf_put)
  show "inside x ?s + of_bool (t = x) = inside x s"
    using buffered_put [of s x a Disconnected] l(2,3) by (simp add: maps_wf_def inside_def parked_def)
qed

lemma wait_ok:
  assumes "linked s tasks bound" "maps_wf s" "hm_get tasks a = Some r" "wait_registration r s = (res, s')"
  shows "linked s' (if res = None then tasks else hm_remove a tasks) bound" "maps_wf s'"
    "case res of
       Some (Ok t) \<Rightarrow> (a, turn_owner t, turn_request t) \<in> set bound \<and> (\<forall>x. inside x s' + of_bool (t = x) = inside x s)
     | _ \<Rightarrow> (\<forall>x. inside x s' = inside x s)"
proof -
  from linkedD(3) [OF assms(1,3)] have a: "rn_allocation r = a" by (simp add: task_ok_def)
  note drop = drop_registration_ok [OF assms(1-3), unfolded keeps_def]
  have "linked s' (if res = None then tasks else hm_remove a tasks) bound \<and> maps_wf s' \<and>
    (case res of
       Some (Ok t) \<Rightarrow> (a, turn_owner t, turn_request t) \<in> set bound \<and> (\<forall>x. inside x s' + of_bool (t = x) = inside x s)
     | _ \<Rightarrow> (\<forall>x. inside x s' = inside x s))"
  proof (cases "rn_bound r \<and> is_sent (hm_get (ho_receivers s) a)")
    case True
    then obtain t where t: "hm_get (ho_receivers s) a = Some (Sent t)"
      by (auto simp: is_sent_def split: option.splits receiver.splits)
    note got = received_ok [OF assms(1,2) t]
    let ?s = "s\<lparr>ho_receivers := hm_insert a Disconnected (ho_receivers s)\<rparr>"
    from drop_registration_ok [OF got(1,2) assms(3), unfolded keeps_def]
    have dropped: "linked (drop_registration r ?s) (hm_remove a tasks) bound" "maps_wf (drop_registration r ?s)"
      "inside x (drop_registration r ?s) + of_bool (t = x) = inside x s" for x
      using got(3) [of x] by simp_all
    from linkedD(2) [OF assms(1) t] have "(a, turn_owner t, turn_request t) \<in> set bound" by (auto simp: receiver_ok_def)
    moreover have "res = Some (Ok t)" "s' = drop_registration r ?s"
      using assms(4) True t a by (auto simp: wait_registration_def)
    ultimately show ?thesis using dropped by simp
  next
    case False
    with drop assms a show ?thesis by (auto simp: wait_registration_def split: if_splits option.splits receiver.splits)
  qed
  then show "linked s' (if res = None then tasks else hm_remove a tasks) bound" "maps_wf s'"
    "case res of
       Some (Ok t) \<Rightarrow> (a, turn_owner t, turn_request t) \<in> set bound \<and> (\<forall>x. inside x s' + of_bool (t = x) = inside x s)
     | _ \<Rightarrow> (\<forall>x. inside x s' = inside x s)" by blast+
qed

lemma bind_ok:
  assumes l: "linked s tasks bound" "maps_wf s" "hm_get tasks a = Some r" and b: "bind_registration rid r s = (res, r', s')"
  shows "linked s' (hm_insert a r' tasks) (case res of Ok _ \<Rightarrow> bound @ [(a, rn_owner r, rid)] | _ \<Rightarrow> bound) \<and>
    maps_wf s' \<and> (\<forall>t. inside t s' = inside t s)"
proof (cases "rn_bound r \<or> \<not> ho_alive s \<or> ho_closed s \<or> own_entry r s = None")
  case True
  with b obtain e where "res = Err e" "r' = r" "s' = s" by (auto simp: bind_registration_def split: if_splits)
  moreover have "linked s (hm_insert a r tasks) bound = linked s tasks bound"
    using l(3) by (intro linked_tasks) (auto simp: hm.get_put)
  ultimately show ?thesis using l(1,2) by simp
next
  case False
  then obtain e where own: "own_entry r s = Some e" and ub: "\<not> rn_bound r" by auto
  then have e: "hm_get (ho_entries s) (rn_owner r) = Some e" "he_allocation e = rn_allocation r" by (simp_all add: own_entry_iff)
  have a: "rn_allocation r = a" using linkedD(3) [OF l(1,3)] by (simp add: task_ok_def)
  note ok = linkedD(1) [OF l(1) e(1)]
  let ?owner = "rn_owner r" and ?bound = "bound @ [(a, rn_owner r, rid)]" and ?tasks = "hm_insert a (r\<lparr>rn_bound := True\<rparr>) tasks"
  let ?e = "e\<lparr>he_request_id := Some rid, he_early := None, he_discarded := None\<rparr>"
  let ?kept = "s\<lparr>ho_entries := hm_insert ?owner ?e (ho_entries s)\<rparr>"
  have eok: "entry_ok s ?tasks ?bound ?owner ?e" using ok e(2) a by (simp add: entry_ok_def hm.get_put)
  have kept: "linked ?kept ?tasks ?bound"
    by (rule linked_change [OF l(1) e(1) _ _ _ _ _ _ eok]) (use l(3) a e(2) ub in \<open>auto simp: hm.get_put fun_eq_iff\<close>)
  have kept': "maps_wf ?kept" "\<And>t. inside t ?kept + of_bool (he_early e = Some t) = inside t s"
    using inside_entries_put(1) [OF l(2), of _ ?owner ?e] inside_entries_put(2) [OF l(2), of ?owner ?e] e(1) by simp_all
  have leave: "linked s'' ?tasks ?bound"
    if "hm_get (ho_entries s'') = (hm_get (ho_entries s))(?owner := None)"
      "hm_get (ho_receivers s'') = (hm_get (ho_receivers s))(a := Some x)"
      "ho_next s'' = ho_next s" "ho_closed s'' = ho_closed s" "ho_alive s'' = ho_alive s"
      "x = Disconnected \<or> (\<exists>t. x = Sent t \<and> turn_owner t = ?owner \<and> turn_request t = rid)" for s'' x
    by (rule linked_leave [OF kept, where owner = ?owner and e = ?e and x = x]) (use that e(2) a in \<open>auto simp: hm.get_put fun_eq_iff\<close>)
  consider (discarded) "he_discarded e = Some rid"
    | (delivered) t where "he_discarded e \<noteq> Some rid" "he_early e = Some t" "turn_request t = rid"
    | (other) t where "he_discarded e \<noteq> Some rid" "he_early e = Some t" "turn_request t \<noteq> rid"
    | (none) "he_discarded e \<noteq> Some rid" "he_early e = None" by (cases "he_early e") auto
  then show ?thesis
  proof cases
    case discarded
    let ?s = "drop_sender (he_allocation e) (drop_turn (he_early e) (s\<lparr>ho_entries := hm_remove ?owner (ho_entries s)\<rparr>))"
    have "linked ?s ?tasks ?bound"
      by (rule leave [where x = Disconnected])
        (use e(2) a entry_waits [OF l(1) e(1)] in \<open>auto simp: fun_eq_iff drop_sender_get hm.get_del\<close>)
    with left_entry(2,3) [OF l(1,2) e(1) disjI1 [OF refl]] b False own discarded show ?thesis
      by (auto simp: bind_registration_def Let_def)
  next
    case delivered
    have "linked (after_send ?owner e t s) ?tasks ?bound"
      by (rule leave [where x = "Sent t"])
        (use e(2) a ok delivered in \<open>auto simp: after_send_def fun_eq_iff hm.get_del hm.get_put entry_ok_def\<close>)
    moreover have "maps_wf (after_send ?owner e t s)" "inside x (after_send ?owner e t s) = inside x s" for x
      using sent_turn(2) [OF l(1,2) e(1), of t] sent_turn(3) [OF l(1,2) e(1), of x t] delivered(2) by auto
    moreover from b False own delivered sent_turn(1) [OF l(1,2) e(1), of t]
    have "res = Ok BindDelivered" "r' = r\<lparr>rn_bound := True\<rparr>" "s' = after_send ?owner e t s"
      by (auto simp: bind_registration_def Let_def)
    ultimately show ?thesis by simp
  next
    case other
    then have "inside x (drop_turn (Some t) ?kept) = inside x s" for x using kept'(2) [of x] by (simp add: inside_drop_turn)
    with kept kept'(1) b False own other show ?thesis by (auto simp: bind_registration_def Let_def)
  next
    case none
    with kept kept' b False own show ?thesis by (auto simp: bind_registration_def Let_def)
  qed
qed

section \<open>Every run keeps it\<close>

lemma taken_okD: "taken_ok tasks bound taken \<Longrightarrow> (\<And>a. hm_get tasks' a \<noteq> None \<Longrightarrow> hm_get tasks a \<noteq> None \<or> a \<notin> fst ` set bound) \<Longrightarrow>
    set bound \<subseteq> set bound' \<Longrightarrow> taken_ok tasks' bound' taken"
  unfolding taken_ok_def by (fastforce simp: image_iff)

lemma handoff_ok_keeps:
  assumes "handoff_ok w" "keeps (hn_handoff w) s (hn_tasks w) (hn_bound w)"
  shows "handoff_ok (w\<lparr>hn_handoff := s\<rparr>)"
  using assms by (simp add: handoff_ok_def keeps_def)

lemma handoff_ok_withdraw:
  assumes "handoff_ok w" "linked s (hm_remove a (hn_tasks w)) (hn_bound w)" "maps_wf s" "\<And>t. inside t s = inside t (hn_handoff w)"
  shows "handoff_ok (w\<lparr>hn_handoff := s, hn_tasks := hm_remove a (hn_tasks w)\<rparr>)"
proof -
  have "taken_ok (hm_remove a (hn_tasks w)) (hn_bound w) (hn_taken w)"
    by (rule taken_okD [of "hn_tasks w" "hn_bound w"]) (use assms(1) in \<open>auto simp: handoff_ok_def hm.get_del split: if_splits\<close>)
  with assms show ?thesis by (simp add: handoff_ok_def)
qed

lemma handoff_ok_task:
  assumes "handoff_ok w" "\<And>r. hm_get (hn_tasks w) a = Some r \<Longrightarrow> handoff_ok (f r)"
  shows "handoff_ok (task_do a f w)"
  using assms by (simp add: task_do_def split: option.splits)

lemma handoff_ok_wait:
  assumes ok: "handoff_ok w" and r: "hm_get (hn_tasks w) a = Some r"
  shows "handoff_ok (case wait_registration r (hn_handoff w) of
       (None, s) \<Rightarrow> w\<lparr>hn_handoff := s\<rparr>
     | (Some (Ok t), s) \<Rightarrow> w\<lparr>hn_handoff := s, hn_tasks := hm_remove a (hn_tasks w), hn_taken := hn_taken w @ [(a, t)]\<rparr>
     | (Some _, s) \<Rightarrow> w\<lparr>hn_handoff := s, hn_tasks := hm_remove a (hn_tasks w)\<rparr>)"
proof -
  obtain res s where w: "wait_registration r (hn_handoff w) = (res, s)" by force
  from ok have l: "linked (hn_handoff w) (hn_tasks w) (hn_bound w)" "maps_wf (hn_handoff w)" by (simp_all add: handoff_ok_def)
  note wait = wait_ok [OF l r w]
  show ?thesis
  proof (cases "\<exists>t. res = Some (Ok t)")
    case True
    then obtain t where t: "res = Some (Ok t)" ..
    from ok have taken: "taken_ok (hn_tasks w) (hn_bound w) (hn_taken w)" by (simp add: handoff_ok_def)
    with r have new: "a \<notin> fst ` set (hn_taken w)" by (auto simp: taken_ok_def)
    with taken wait(3) t have "taken_ok (hm_remove a (hn_tasks w)) (hn_bound w) (hn_taken w @ [(a, t)])"
      by (auto simp: taken_ok_def hm.get_del)
    moreover have "count_list (hn_given w) x = inside x s + count_list (map snd (hn_taken w @ [(a, t)])) x" for x
    proof -
      have "count_list (hn_given w) x = inside x (hn_handoff w) + count_list (map snd (hn_taken w)) x"
        using ok by (simp add: handoff_ok_def)
      moreover have "inside x (hn_handoff w) = inside x s + of_bool (t = x)" using wait(3) t by simp
      ultimately show ?thesis by (cases "t = x") simp_all
    qed
    ultimately show ?thesis using wait(1,2) t w by (simp add: handoff_ok_def)
  next
    case False
    show ?thesis
    proof (cases res)
      case None
      with ok wait w show ?thesis by (simp add: handoff_ok_def)
    next
      case (Some x)
      with False wait have "handoff_ok (w\<lparr>hn_handoff := s, hn_tasks := hm_remove a (hn_tasks w)\<rparr>)"
        by (intro handoff_ok_withdraw [OF ok]) (auto split: result.splits)
      with Some False w show ?thesis by (auto split: result.splits)
    qed
  qed
qed

lemma handoff_ok_bind:
  assumes ok: "handoff_ok w" and r: "hm_get (hn_tasks w) a = Some r"
  shows "handoff_ok (case bind_registration rid r (hn_handoff w) of
       (Ok _, r', s) \<Rightarrow> w\<lparr>hn_handoff := s, hn_tasks := hm_insert a r' (hn_tasks w), hn_bound := hn_bound w @ [(a, rn_owner r, rid)]\<rparr>
     | (_, r', s) \<Rightarrow> w\<lparr>hn_handoff := s, hn_tasks := hm_insert a r' (hn_tasks w)\<rparr>)"
proof -
  obtain res r' s where w: "bind_registration rid r (hn_handoff w) = (res, r', s)" by (metis prod_cases3)
  from ok have l: "linked (hn_handoff w) (hn_tasks w) (hn_bound w)" "maps_wf (hn_handoff w)" by (simp_all add: handoff_ok_def)
  note bind = bind_ok [OF l r w]
  have taken: "taken_ok (hm_insert a r' (hn_tasks w)) b (hn_taken w)" if "set (hn_bound w) \<subseteq> set b" for b
    by (rule taken_okD [of "hn_tasks w" "hn_bound w"]) (use ok r that in \<open>auto simp: handoff_ok_def hm.get_put split: if_splits\<close>)
  show ?thesis
    using bind ok w taken [of "hn_bound w"] taken [of "hn_bound w @ [(a, rn_owner r, rid)]"]
    by (cases res) (auto simp: handoff_ok_def)
qed

lemma handoff_ok_register:
  assumes ok: "handoff_ok w" and alive: "ho_alive (hn_handoff w)"
  shows "handoff_ok (case handoff_register owner (hn_handoff w) of
         (Ok r, s) \<Rightarrow> w\<lparr>hn_handoff := s, hn_tasks := hm_insert (rn_allocation r) r (hn_tasks w)\<rparr>
       | (_, s) \<Rightarrow> w\<lparr>hn_handoff := s\<rparr>)"
proof (cases "\<exists>r. fst (handoff_register owner (hn_handoff w)) = Ok r")
  case True
  then obtain r s where w: "handoff_register owner (hn_handoff w) = (Ok r, s)" by (metis prod.collapse)
  from ok have l: "linked (hn_handoff w) (hn_tasks w) (hn_bound w)" "maps_wf (hn_handoff w)" by (simp_all add: handoff_ok_def)
  note reg = registered_ok [OF l w alive]
  have new: "rn_allocation r \<notin> fst ` set (hn_bound w)" using linkedD(5) [OF l(1)] reg(5) by fastforce
  have "taken_ok (hm_insert (rn_allocation r) r (hn_tasks w)) (hn_bound w) (hn_taken w)"
  proof (rule taken_okD [of "hn_tasks w" "hn_bound w" "hn_taken w"])
    show "taken_ok (hn_tasks w) (hn_bound w) (hn_taken w)" using ok by (simp add: handoff_ok_def)
    show "hm_get (hn_tasks w) a \<noteq> None \<or> a \<notin> fst ` set (hn_bound w)"
      if "hm_get (hm_insert (rn_allocation r) r (hn_tasks w)) a \<noteq> None" for a
      using that new by (cases "a = rn_allocation r") (simp_all add: hm.get_put)
  qed simp
  with ok reg w show ?thesis by (simp add: handoff_ok_def)
next
  case False
  then have "snd (handoff_register owner (hn_handoff w)) = hn_handoff w"
    by (auto simp: handoff_register_def)
  then have "(case handoff_register owner (hn_handoff w) of
         (Ok r, s) \<Rightarrow> w\<lparr>hn_handoff := s, hn_tasks := hm_insert (rn_allocation r) r (hn_tasks w)\<rparr>
       | (_, s) \<Rightarrow> w\<lparr>hn_handoff := s\<rparr>) = w"
    using False by (cases "handoff_register owner (hn_handoff w)"; cases "fst (handoff_register owner (hn_handoff w))") auto
  with ok show ?thesis by simp
qed

lemma handoff_ok_do:
  assumes ok: "handoff_ok w"
  shows "handoff_ok (handoff_do x w)"
proof -
  from ok have l: "linked (hn_handoff w) (hn_tasks w) (hn_bound w)" "maps_wf (hn_handoff w)" by (simp_all add: handoff_ok_def)
  have h: "handoff_ok (handle_do w' w)" if "ho_alive (hn_handoff w) \<Longrightarrow> handoff_ok w'" for w'
    using that ok by (simp add: handle_do_def)
  show ?thesis
  proof (cases x)
    case (HoCompletion c g)
    have "count_list (hn_given w @ [\<lparr>ct_completion = c, ct_guard = g\<rparr>]) t
        = inside t (snd (handoff_completion c g (hn_handoff w))) + count_list (map snd (hn_taken w)) t" for t
      using ok completion_ok(3) [OF l, of t c g] by (auto simp: handoff_ok_def)
    with completion_ok(1,2) [OF l, of c g] ok
    have "handoff_ok (w\<lparr>hn_handoff := snd (handoff_completion c g (hn_handoff w)), hn_given := hn_given w @ [\<lparr>ct_completion = c, ct_guard = g\<rparr>]\<rparr>)"
      by (simp add: handoff_ok_def)
    with HoCompletion show ?thesis by (simp add: h)
  next
    case (HoDiscard owner rid)
    with handoff_ok_keeps [OF ok discard_ok [OF l]] show ?thesis by (simp add: h)
  next
    case (HoDiscardSession epoch sid inc)
    have "snd (discard_session epoch sid inc (hn_handoff w))
        = snd (drop_owned (filter (owned_by_session epoch sid inc) (map fst (ho_entries (hn_handoff w)))) (hn_handoff w))"
      by (simp add: discard_session_def split: prod.splits)
    with HoDiscardSession handoff_ok_keeps [OF ok drop_owned_ok [OF l]] show ?thesis by (simp add: h)
  next
    case HoClose
    with handoff_ok_keeps [OF ok cleared_ok [OF l disjI1 [OF refl]]] show ?thesis by (simp add: h handoff_close_def)
  next
    case HoDropHandle
    with handoff_ok_keeps [OF ok cleared_ok [OF l disjI2 [OF refl]]] show ?thesis by (simp add: h drop_handoff_def)
  next
    case (HoWithdraw a)
    have "handoff_ok (w\<lparr>hn_handoff := drop_registration r (hn_handoff w), hn_tasks := hm_remove a (hn_tasks w)\<rparr>)"
      if "hm_get (hn_tasks w) a = Some r" for r
      using drop_registration_ok [OF l that] by (intro handoff_ok_withdraw [OF ok]) (simp_all add: keeps_def)
    with HoWithdraw handoff_ok_task [OF ok] show ?thesis by simp
  qed (use handoff_ok_register [OF ok] handoff_ok_task [OF ok] handoff_ok_wait [OF ok] handoff_ok_bind [OF ok] h in \<open>simp_all\<close>)
qed

interpretation turns: preserving handoff_do handoff_ok
  by unfold_locales (rule handoff_ok_do)

lemma handoff_run_ok: "handoff_ok (handoff_run_of ops)"
proof -
  have "handoff_ok (handoff_start :: 'a handoff_run)"
    by (simp add: handoff_ok_def handoff_start_def handoff_new_def maps_wf_def hm_wf_def linked_def taken_ok_def hm.get_nil
        inside_def parked_def buffered_def)
  from turns.run_keeps [OF this] show ?thesis by (simp add: handoff_run_of_def)
qed

section \<open>What the handoff promises\<close>

text \<open>
  (C30) No delivery guard is lost and none is released twice. In every run of registrations, completions,
  discards, binds, polls and withdrawals, each turn that was handed over is in one place, as often as it was
  handed over: parked with an entry, buffered in a channel, taken by a task, or dropped.
\<close>

theorem turns_are_accounted:
  fixes ops :: "'g handoff_op list" and t :: "'g completion_turn"
  defines "w \<equiv> handoff_run_of ops"
  shows "count_list (hn_given w) t = parked t (hn_handoff w) + buffered t (hn_handoff w) + count_list (ho_dropped (hn_handoff w)) t
     + count_list (map snd (hn_taken w)) t"
  using handoff_run_ok [of ops] by (simp add: handoff_ok_def inside_def w_def)

text \<open>
  (C31) A task takes only its own response, once. What a registration takes is the completion of its own
  owner and of the id it was bound to, whatever responses came early, were discarded or belong to a later
  registration of the same owner; and no task waits for a completion that cannot come: a registration
  whose channel is still open has its entry, and after the handoff closed or its last handle went, none is.
\<close>

theorem registrations_take_their_own:
  fixes ops :: "'g handoff_op list"
  defines "w \<equiv> handoff_run_of ops"
  shows "distinct (map fst (hn_taken w)) \<and>
     set (map (\<lambda>(a, t). (a, turn_owner t, turn_request t)) (hn_taken w)) \<subseteq> set (hn_bound w) \<and> distinct (map fst (hn_bound w)) \<and>
     {a. hm_get (ho_receivers (hn_handoff w)) a = Some Waiting} = (he_allocation \<circ> snd) ` set (ho_entries (hn_handoff w)) \<and>
     (ho_entries (hn_handoff w) = [] \<or> (ho_alive (hn_handoff w) \<and> \<not> ho_closed (hn_handoff w)))"
proof -
  have ok: "handoff_ok w" unfolding w_def by (rule handoff_run_ok)
  then have l: "linked (hn_handoff w) (hn_tasks w) (hn_bound w)" and wf: "hm_wf (ho_entries (hn_handoff w))"
    and taken: "taken_ok (hn_tasks w) (hn_bound w) (hn_taken w)" by (simp_all add: handoff_ok_def maps_wf_def)
  have mem: "(k, e) \<in> set (ho_entries (hn_handoff w)) \<longleftrightarrow> hm_get (ho_entries (hn_handoff w)) k = Some e" for k e
    using wf by (simp add: hm_get_def hm_wf_def)
  have "hm_get (ho_receivers (hn_handoff w)) a = Some Waiting \<longleftrightarrow> a \<in> (he_allocation \<circ> snd) ` set (ho_entries (hn_handoff w))" for a
  proof
    assume "hm_get (ho_receivers (hn_handoff w)) a = Some Waiting"
    from linkedD(2) [OF l this] show "a \<in> (he_allocation \<circ> snd) ` set (ho_entries (hn_handoff w))"
      by (force simp: receiver_ok_def mem [symmetric])
  next
    assume "a \<in> (he_allocation \<circ> snd) ` set (ho_entries (hn_handoff w))"
    then show "hm_get (ho_receivers (hn_handoff w)) a = Some Waiting"
      using entry_waits [OF l] by (auto simp: mem)
  qed
  with taken linkedD(4,6) [OF l] show ?thesis by (auto simp: taken_ok_def)
qed
end
