(* ===== verification/Scheduling.thy ===== *)
theory Scheduling
  imports Bridge_Input Completion_Handoff Turn_Stream "HOL-Library.Multiset"
begin

text \<open>
  The shared ingress of the Bridge and its short execution tickets (\<open>src/src/bridge/scheduling.rs\<close>): one
  queue for everything that enters, the queues of the sessions and one for the connection itself, the
  registered requests, the handoff of their completions, and the loads whose updates bypass the queue.

  The parts are those of \<open>Session_Dispatch\<close>, \<open>Ordered_Ingress\<close> and \<open>Completion_Handoff\<close>; a delivery guard is
  the delivery itself. The queue of the ordered ingress is the shared one: a completion moves into it at
  once. The candidates of the loads live in the cache of histories, which the state holds for them. What a
  refused event's waiter is told, and what is published of a fault, are logs. The SDK's parser of
  notifications is a parameter: it returns the update, or the message of its error.
\<close>

section \<open>State\<close>

datatype scheduling_error =
    RequestCancelled
  | IngressClosedDuringDelivery
  | OwnershipError string
  | DispatchFault dispatch_error
  | IngressFault ingress_error
  | HandoffFault handoff_error
  | SemanticFault string
  | AgentFault json

type_synonym delivery_guard = "ingress_item delivery"

record scheduler =
  sg_epoch :: string
  sg_queue :: "ingress_item list"
  sg_replays :: "(string, request_id \<times> nat) hash_map"
  sg_history :: history_cache
  sg_ordered :: ordered_ingress
  sg_handoff :: "delivery_guard handoff"
  sg_sessions :: "ingress_item dispatch"
  sg_global :: "ingress_item dispatch"
  sg_global_handle :: session_handle
  sg_prefer_global :: bool
  sg_closed :: bool
  sg_cancelled :: bool
  sg_reported :: bool
  sg_woken :: bool
  sg_errors :: "(scheduling_error \<times> string option) list"
  sg_refused :: "(bridge_ingress \<times> scheduling_error) list"

datatype execution_scope = SessionScope session_handle | GlobalScope string

datatype execution_lease = LocalLease delivery_guard | CompletionLease "delivery_guard completion_turn"

record execution_turn =
  xt_scope :: execution_scope
  xt_lease :: "execution_lease option"

record scheduled_input =
  si_request_lease :: "request_lease option"
  si_event :: bridge_ingress
  si_turn :: execution_turn
  si_route :: "captured_route option"

definition coordinator_id :: string where
  "coordinator_id = ''attyd:connection-coordinator''"

definition scheduling_new :: "string \<Rightarrow> (scheduling_error, scheduler) result" where
  "scheduling_new epoch =
     (case register_queue coordinator_id 1 (dispatch_new epoch 1) of
        (Ok h, global) \<Rightarrow>
          Ok \<lparr>sg_epoch = epoch, sg_queue = [], sg_replays = [], sg_history = cache_new epoch, sg_ordered = ordered_ingress_new 0,
            sg_handoff = handoff_new, sg_sessions = dispatch_new epoch 0, sg_global = global, sg_global_handle = h,
            sg_prefer_global = True, sg_closed = False, sg_cancelled = False, sg_reported = False, sg_woken = False,
            sg_errors = [], sg_refused = []\<rparr>
      | (Err e, _) \<Rightarrow> Err (DispatchFault e)
      | (Panic, _) \<Rightarrow> Panic)"

definition scope_matches :: "execution_scope \<Rightarrow> request_owner \<Rightarrow> bool" where
  "scope_matches scope owner =
     (case scope of
        SessionScope h \<Rightarrow> ro_epoch owner = sh_epoch h \<and> ro_session_id owner = Some (sh_session_id h) \<and>
          ro_incarnation owner = Some (sh_incarnation h)
      | GlobalScope epoch \<Rightarrow> ro_epoch owner = epoch \<and> ro_session_id owner = None \<and> ro_incarnation owner = None)"

text \<open>The first fault is published and stops the connection.\<close>

definition fault_fail :: "scheduling_error \<Rightarrow> scheduler \<Rightarrow> scheduler" where
  "fault_fail e s = s\<lparr>sg_errors := (if sg_reported s then sg_errors s else sg_errors s @ [(e, None)]), sg_reported := True,
     sg_cancelled := True\<rparr>"

definition reject_event :: "bridge_ingress \<Rightarrow> scheduling_error \<Rightarrow> scheduler \<Rightarrow> scheduler" where
  "reject_event event e s =
     (case event of
        Browser _ \<Rightarrow> s\<lparr>sg_refused := sg_refused s @ [(event, e)]\<rparr>
      | Acp (WireRequest _ _ _) \<Rightarrow> s\<lparr>sg_refused := sg_refused s @ [(event, e)]\<rparr>
      | Acp (WireResponse _ _) \<Rightarrow> s\<lparr>sg_refused := sg_refused s @ [(event, e)]\<rparr>
      | Continuation _ _ \<Rightarrow> s\<lparr>sg_refused := sg_refused s @ [(event, e)]\<rparr>
      | _ \<Rightarrow> s)"

section \<open>Guards\<close>

definition release_guard :: "delivery_guard \<Rightarrow> scheduler \<Rightarrow> scheduler" where
  "release_guard g s =
     (if sh_registry (dl_handle g) = dp_identity (sg_sessions s) then s\<lparr>sg_sessions := drop_guard g (sg_sessions s)\<rparr>
      else s\<lparr>sg_global := drop_guard g (sg_global s)\<rparr>)"

text \<open>The turns an operation of the handoff has dropped give up their guards.\<close>

definition settle_turns :: "scheduler \<Rightarrow> scheduler" where
  "settle_turns s =
     (let dropped = ho_dropped (sg_handoff s)
      in fold (\<lambda>t. release_guard (ct_guard t)) dropped
           (s\<lparr>sg_handoff := (sg_handoff s)\<lparr>ho_dropped := []\<rparr>, sg_woken := sg_woken s \<or> dropped \<noteq> []\<rparr>))"

definition drop_execution :: "execution_turn \<Rightarrow> scheduler \<Rightarrow> scheduler" where
  "drop_execution x s =
     (case xt_lease x of
        Some (LocalLease g) \<Rightarrow> (release_guard g s)\<lparr>sg_woken := True\<rparr>
      | Some (CompletionLease t) \<Rightarrow> (release_guard (ct_guard t) s)\<lparr>sg_woken := True\<rparr>
      | None \<Rightarrow> s)"

text \<open>An operation of the ordered ingress, whose completions go to the shared queue.\<close>

definition run_ordered :: "(ordered_ingress \<Rightarrow> ('e, 'a) result \<times> ordered_ingress) \<Rightarrow> scheduler \<Rightarrow> ('e, 'a) result \<times> scheduler" where
  "run_ordered f s =
     (case f (sg_ordered s) of
        (r, o') \<Rightarrow> (r, s\<lparr>sg_ordered := o'\<lparr>oi_events := []\<rparr>, sg_queue := sg_queue s @ map completion_item (oi_events o')\<rparr>))"

definition run_handoff :: "(delivery_guard handoff \<Rightarrow> 'r \<times> delivery_guard handoff) \<Rightarrow> scheduler \<Rightarrow> 'r \<times> scheduler" where
  "run_handoff f s = (case f (sg_handoff s) of (r, h) \<Rightarrow> (r, settle_turns (s\<lparr>sg_handoff := h\<rparr>)))"

section \<open>What enters\<close>

definition submit :: "env \<Rightarrow> bridge_ingress \<Rightarrow> traffic_class \<Rightarrow> event_origin \<Rightarrow> scheduler \<Rightarrow> (scheduling_error, unit) result \<times> scheduler" where
  "submit E event class origin s =
     (let refuse = (\<lambda>e. (Err e, (let s1 = reject_event event e s in if origin = RequiredInbound then fault_fail e s1 else s1)))
      in if sg_closed s \<or> (origin = Command \<and> sg_cancelled s) then refuse RequestCancelled
         else if oi_closed (sg_ordered s) then refuse IngressClosedDuringDelivery
         else (Ok (), s\<lparr>sg_queue := sg_queue s @ [\<lparr>it_request_lease = None, it_event = event, it_route = None,
                 it_bytes = max (measure_event E event) 1, it_class = class, it_origin = origin\<rparr>]\<rparr>))"

definition browser_origin :: "bridge_input \<Rightarrow> event_origin" where
  "browser_origin input =
     (case input of
        RuntimeSnapshotRequest \<Rightarrow> RequiredInbound
      | UnobserveSession _ _ _ \<Rightarrow> RequiredInbound
      | RetireUnobservedSession _ _ _ _ \<Rightarrow> RequiredInbound
      | _ \<Rightarrow> Command)"

definition try_browser :: "env \<Rightarrow> bridge_input \<Rightarrow> traffic_class \<Rightarrow> scheduler \<Rightarrow> (scheduling_error, unit) result \<times> scheduler" where
  "try_browser E input class = submit E (Browser input) class (browser_origin input)"

definition try_terminal :: "env \<Rightarrow> u64 \<Rightarrow> json \<Rightarrow> scheduler \<Rightarrow> (scheduling_error, unit) result \<times> scheduler" where
  "try_terminal E incarnation snapshot = submit E (TerminalEvent incarnation snapshot) Ordinary RequiredInbound"

definition finish_creation :: "env \<Rightarrow> request_owner \<Rightarrow> string \<Rightarrow> u64 option \<Rightarrow> scheduler \<Rightarrow> (scheduling_error, unit) result \<times> scheduler" where
  "finish_creation E owner target incarnation = submit E (CreationFinished owner target incarnation) Reserved RequiredInbound"

definition inbound_request_finished :: "env \<Rightarrow> request_id \<Rightarrow> string \<Rightarrow> scheduler \<Rightarrow> (scheduling_error, unit) result \<times> scheduler" where
  "inbound_request_finished E rid allocation = submit E (InboundRequestFinished rid allocation) Reserved RequiredInbound"

definition continue_owner :: "env \<Rightarrow> request_owner \<Rightarrow> nat \<Rightarrow> scheduler \<Rightarrow> (scheduling_error, unit) result \<times> scheduler" where
  "continue_owner E owner reply = submit E (Continuation owner reply) Reserved RequiredInbound"

text \<open>The end of a lease queues the cleanup of its request.\<close>

definition drop_lease :: "env \<Rightarrow> request_lease \<Rightarrow> scheduler \<Rightarrow> scheduler" where
  "drop_lease E l s = snd (inbound_request_finished E (rl_request_id l) (rl_allocation l) s)"

definition drop_items :: "env \<Rightarrow> ingress_item list \<Rightarrow> scheduler \<Rightarrow> scheduler" where
  "drop_items E items s = fold (\<lambda>i s. case it_request_lease i of Some l \<Rightarrow> drop_lease E l s | None \<Rightarrow> s) items s"

definition discard_completion :: "ordered_completion \<Rightarrow> scheduler \<Rightarrow> (scheduling_error, unit) result \<times> scheduler" where
  "discard_completion completion s =
     (case run_handoff (handoff_discard (oc_owner completion) (oc_request_id completion)) s of
        (Ok _, s') \<Rightarrow> (Ok (), s')
      | (Err e, s') \<Rightarrow> (Err (HandoffFault e), s')
      | (Panic, s') \<Rightarrow> (Panic, s'))"

text \<open>
  A message of the Agent. The updates of a session whose load is active go to the candidate of the load,
  and the response to the load seals it; everything else goes to the registered requests or to the queue.
  \<open>Ok False\<close> leaves the message to the SDK. \<open>route_reply\<close> is what the SDK's router answers to a response.
\<close>

definition response_bytes :: "env \<Rightarrow> rpc_result \<Rightarrow> nat option" where
  "response_bytes E r = Some (case r of Inr v \<Rightarrow> serialized_len E v | Inl e \<Rightarrow> serialized_len E e)"

definition update_replay :: "nat \<Rightarrow> (replay_data \<Rightarrow> replay_data) \<Rightarrow> scheduler \<Rightarrow> scheduler" where
  "update_replay cell f s = s\<lparr>sg_history := cell_set cell (f (cell_get cell (sg_history s))) (sg_history s)\<rparr>"

definition replay_writer :: "wire_dispatch \<Rightarrow> scheduler \<Rightarrow> nat option" where
  "replay_writer d s =
     (case d of
        WireNotification method params \<Rightarrow>
          if method = ''session/update''
          then Option.bind (get_str params ''sessionId'') (\<lambda>sid. map_option snd (hm_get (sg_replays s) sid)) else None
      | _ \<Rightarrow> None)"

definition seal_replay :: "request_id \<Rightarrow> scheduler \<Rightarrow> scheduler" where
  "seal_replay rid s =
     (case find (\<lambda>p. fst (snd p) = rid) (sg_replays s) of
        Some (sid, _, cell) \<Rightarrow> update_replay cell replay_seal (s\<lparr>sg_replays := hm_remove sid (sg_replays s)\<rparr>)
      | None \<Rightarrow> s)"

definition ingest_replay :: "env \<Rightarrow> (json \<Rightarrow> (string, json) result) \<Rightarrow> json \<Rightarrow> nat \<Rightarrow> scheduler
    \<Rightarrow> (scheduling_error, bool) result \<times> scheduler" where
  "ingest_replay E parse params cell s =
     (case (case parse params of
              Ok update \<Rightarrow>
                (case replay_ingest E update (is_conversation_update update) (cell_get cell (sg_history s)) of
                   (r, d) \<Rightarrow> (r, s\<lparr>sg_history := cell_set cell d (sg_history s)\<rparr>))
            | Err message \<Rightarrow> (Err message, s)
            | Panic \<Rightarrow> (Panic, s)) of
        (Ok _, s1) \<Rightarrow> (Ok True, s1)
      | (Err message, s1) \<Rightarrow>
          (Ok True, (update_replay cell (replay_reject message) s1)
             \<lparr>sg_errors := sg_errors s1 @ [(SemanticFault message, Some ''session/update'')]\<rparr>)
      | (Panic, s1) \<Rightarrow> (Panic, s1))"

definition receive_response :: "env \<Rightarrow> request_id \<Rightarrow> rpc_result \<Rightarrow> (json, unit) result \<Rightarrow> scheduler
    \<Rightarrow> (scheduling_error, bool) result \<times> scheduler" where
  "receive_response E rid r route_reply s =
     (case run_ordered (intercept_response (response_bytes E) rid r route_reply) (seal_replay rid s) of
        (Err e, s1) \<Rightarrow> (Err (IngressFault e), fault_fail (IngressFault e) s1)
      | (Ok handled, s1) \<Rightarrow> (Ok handled, s1)
      | (Panic, s1) \<Rightarrow> (Panic, s1))"

definition receive_dispatch :: "env \<Rightarrow> (json \<Rightarrow> (string, json) result) \<Rightarrow> (json, unit) result \<Rightarrow> wire_dispatch \<Rightarrow> scheduler
    \<Rightarrow> (scheduling_error, bool) result \<times> scheduler" where
  "receive_dispatch E parse route_reply d s =
     (case d of
        WireResponse rid r \<Rightarrow> receive_response E rid r route_reply s
      | WireNotification method params \<Rightarrow>
          (case replay_writer d s of
             Some cell \<Rightarrow> ingest_replay E parse params cell s
           | None \<Rightarrow>
               call_then (submit E (Acp d) (if method = ''session/update'' then Ordinary else Reserved) RequiredInbound s)
                 (\<lambda>_ s1. (Ok True, s1)))
      | _ \<Rightarrow> call_then (submit E (Acp d) Reserved RequiredInbound s) (\<lambda>_ s1. (Ok True, s1)))"

section \<open>The queues\<close>

definition map_ok :: "('a \<Rightarrow> 'b) \<Rightarrow> ('e, 'a) result \<Rightarrow> ('e, 'b) result" where
  "map_ok f r = res_bind r (\<lambda>a. Ok (f a))"

definition lift_dispatch :: "(dispatch_error, 'a) result \<Rightarrow> (scheduling_error, 'a) result" where
  "lift_dispatch r = map_err DispatchFault r"

definition queued_of :: "string \<Rightarrow> scheduler \<Rightarrow> ingress_item list" where
  "queued_of sid s = (case hm_get (dp_sessions (sg_sessions s)) sid of Some q \<Rightarrow> map dl_event (sq_queue q) | None \<Rightarrow> [])"

definition register_session :: "env \<Rightarrow> string \<Rightarrow> u64 \<Rightarrow> scheduler \<Rightarrow> (scheduling_error, session_handle) result \<times> scheduler" where
  "register_session E sid incarnation s =
     (if incarnation = 0 then (Err (OwnershipError ''a cold placeholder cannot own an execution queue''), s)
      else case register_queue sid incarnation (sg_sessions s) of
        (r, d) \<Rightarrow>
          (let s1 = s\<lparr>sg_sessions := d\<rparr>
           in (lift_dispatch r,
               if hm_get (dp_sessions d) sid = hm_get (dp_sessions (sg_sessions s)) sid then s1
               else drop_items E (queued_of sid s) s1)))"

definition remove_session :: "env \<Rightarrow> session_handle \<Rightarrow> scheduler \<Rightarrow> (scheduling_error, unit) result \<times> scheduler" where
  "remove_session E h s =
     (case remove_queue h (sg_sessions s) of
        (Ok _, d) \<Rightarrow>
          (case run_handoff (discard_session (sh_epoch h) (sh_session_id h) (sh_incarnation h))
                  (drop_items E (queued_of (sh_session_id h) s) (s\<lparr>sg_sessions := d\<rparr>)) of
             (Ok _, s2) \<Rightarrow> (Ok (), s2)
           | (Err e, s2) \<Rightarrow> (Err (HandoffFault e), s2)
           | (Panic, s2) \<Rightarrow> (Panic, s2))
      | (Err e, d) \<Rightarrow> (Err (DispatchFault e), s\<lparr>sg_sessions := d\<rparr>)
      | (Panic, d) \<Rightarrow> (Panic, s\<lparr>sg_sessions := d\<rparr>))"

definition session_is_idle :: "session_handle \<Rightarrow> scheduler \<Rightarrow> (scheduling_error, bool) result" where
  "session_is_idle h s =
     res_bind (lift_dispatch (session_usage h Ordinary (sg_sessions s))) (\<lambda>u.
       if qu_items u \<noteq> 0 then Ok False
       else res_bind (lift_dispatch (session_usage h Reserved (sg_sessions s))) (\<lambda>u. Ok (qu_items u = 0)))"

definition has_local_work :: "scheduler \<Rightarrow> bool" where
  "has_local_work s \<longleftrightarrow> sg_queue s \<noteq> [] \<or>
     list_ex (\<lambda>c. qu_items (pool_get c (dp_global (sg_sessions s))) \<noteq> 0 \<or> qu_items (pool_get c (dp_global (sg_global s))) \<noteq> 0)
       [Ordinary, Reserved]"

definition reject_item :: "ingress_item \<Rightarrow> scheduling_error \<Rightarrow> scheduler
    \<Rightarrow> (ingress_item \<times> scheduling_error, unit) result \<times> scheduler" where
  "reject_item i e s = (Err (i, e), if it_origin i = RequiredInbound then fault_fail e s else s)"

definition event_owner :: "bridge_ingress \<Rightarrow> request_owner option" where
  "event_owner event =
     (case event of RpcCompleted completion \<Rightarrow> Some (oc_owner completion) | Continuation owner _ \<Rightarrow> Some owner | _ \<Rightarrow> None)"

definition route_session :: "session_handle \<Rightarrow> ingress_item \<Rightarrow> scheduler
    \<Rightarrow> (ingress_item \<times> scheduling_error, unit) result \<times> scheduler" where
  "route_session h i s =
     (if \<not> pred_option (scope_matches (SessionScope h)) (event_owner (it_event i))
      then reject_item i (OwnershipError ''event owner does not match the canonical session route'') s
      else case try_route h (it_class i) (of_nat (it_bytes i)) i (sg_sessions s) of
        (Ok _, d) \<Rightarrow> (Ok (), s\<lparr>sg_sessions := d\<rparr>)
      | (Err (e, i'), d) \<Rightarrow> reject_item i' (DispatchFault e) (s\<lparr>sg_sessions := d\<rparr>)
      | (Panic, d) \<Rightarrow> (Panic, s\<lparr>sg_sessions := d\<rparr>))"

definition route_global :: "ingress_item \<Rightarrow> scheduler \<Rightarrow> (ingress_item \<times> scheduling_error, unit) result \<times> scheduler" where
  "route_global i s =
     (case try_route (sg_global_handle s) (it_class i) (of_nat (it_bytes i)) i (sg_global s) of
        (Ok _, d) \<Rightarrow> (Ok (), s\<lparr>sg_global := d\<rparr>)
      | (Err (e, i'), d) \<Rightarrow> reject_item i' (DispatchFault e) (s\<lparr>sg_global := d\<rparr>)
      | (Panic, d) \<Rightarrow> (Panic, s\<lparr>sg_global := d\<rparr>))"

definition execution :: "delivery_guard \<Rightarrow> bool \<Rightarrow> scheduler \<Rightarrow> scheduled_input" where
  "execution dl global s =
     \<lparr>si_request_lease = it_request_lease (dl_event dl), si_event = it_event (dl_event dl),
      si_turn = \<lparr>xt_scope = (if global then GlobalScope (sg_epoch s) else SessionScope (dl_handle dl)),
        xt_lease = Some (LocalLease dl)\<rparr>,
      si_route = it_route (dl_event dl)\<rparr>"

definition next_session :: "scheduler \<Rightarrow> (scheduling_error, scheduled_input option) result \<times> scheduler" where
  "next_session s =
     (case try_next (sg_sessions s) of
        (r, d) \<Rightarrow> (lift_dispatch (map_ok (map_option (\<lambda>dl. execution dl False s)) r), s\<lparr>sg_sessions := d\<rparr>))"

definition next_global :: "scheduler \<Rightarrow> (scheduling_error, scheduled_input option) result \<times> scheduler" where
  "next_global s =
     (case try_next (sg_global s) of
        (r, d) \<Rightarrow> (lift_dispatch (map_ok (map_option (\<lambda>dl. execution dl True s)) r), s\<lparr>sg_global := d\<rparr>))"

text \<open>The two lanes take turns at being asked first.\<close>

definition pump :: "scheduler \<Rightarrow> (scheduling_error, scheduled_input option) result \<times> scheduler" where
  "pump s =
     (let lanes = (if sg_prefer_global s then (next_global, next_session) else (next_session, next_global))
      in call_then (fst lanes (s\<lparr>sg_prefer_global := \<not> sg_prefer_global s\<rparr>)) (\<lambda>found s1.
           case found of Some input \<Rightarrow> (Ok (Some input), s1) | None \<Rightarrow> snd lanes s1))"

text \<open>
  A completion that was taken from its queue goes to the task that waits for it, with the guard of its
  delivery. The ticket is used up, whatever becomes of it.
\<close>

definition scheduling_handoff :: "ordered_completion \<Rightarrow> execution_turn \<Rightarrow> scheduler
    \<Rightarrow> (scheduling_error, handoff_disposition) result \<times> scheduler" where
  "scheduling_handoff completion turn s =
     (if \<not> scope_matches (xt_scope turn) (oc_owner completion)
      then (let e = OwnershipError ''completion ticket does not belong to its RPC owner''
            in (Err e, drop_execution turn (fault_fail e s)))
      else case xt_lease turn of
        Some (LocalLease g) \<Rightarrow>
          (case run_handoff (handoff_completion completion g) s of
             (Ok d, s1) \<Rightarrow> (Ok d, s1)
           | (Err e, s1) \<Rightarrow> (Err (HandoffFault e), fault_fail (HandoffFault e) s1)
           | (Panic, s1) \<Rightarrow> (Panic, s1))
      | _ \<Rightarrow> (let e = OwnershipError ''completion was handed off more than once''
              in (Err e, drop_execution turn (fault_fail e s))))"

definition discard_replays :: "scheduler \<Rightarrow> scheduler" where
  "discard_replays s = (fold (\<lambda>p. update_replay (snd (snd p)) replay_discard) (sg_replays s) s)\<lparr>sg_replays := []\<rparr>"

definition reject_queue :: "scheduler \<Rightarrow> scheduler" where
  "reject_queue s = (fold (\<lambda>i. reject_event (it_event i) RequestCancelled) (sg_queue s) s)\<lparr>sg_queue := []\<rparr>"

definition close_lane :: "env \<Rightarrow> (scheduler \<Rightarrow> ingress_item dispatch) \<Rightarrow> (ingress_item dispatch \<Rightarrow> scheduler \<Rightarrow> scheduler)
    \<Rightarrow> scheduler \<Rightarrow> scheduler" where
  "close_lane E lane put s =
     drop_items E (concat (map (\<lambda>p. map dl_event (sq_queue (snd p))) (dp_sessions (lane s)))) (put (close_dispatch (lane s)) s)"

definition scheduling_close :: "env \<Rightarrow> scheduler \<Rightarrow> scheduler" where
  "scheduling_close E s =
     (let s1 = discard_replays (s\<lparr>sg_cancelled := True, sg_closed := True\<rparr>);
          s2 = reject_queue (s1\<lparr>sg_ordered := (sg_ordered s1)\<lparr>oi_closed := True\<rparr>\<rparr>);
          s3 = settle_turns (s2\<lparr>sg_handoff := handoff_close (sg_handoff s2)\<rparr>)
      in close_lane E sg_global (\<lambda>d s. s\<lparr>sg_global := d\<rparr>) (close_lane E sg_sessions (\<lambda>d s. s\<lparr>sg_sessions := d\<rparr>) s3))"

section \<open>Requests to the Agent\<close>

record prepared_rpc =
  pr_reservation :: request_reservation
  pr_registration :: registration
  pr_scope :: execution_scope
  pr_replay :: "nat option"

record pending_rpc =
  pn_registration :: registration
  pn_scope :: execution_scope
  pn_request_id :: request_id
  pn_replay :: "(string \<times> request_id) option"
  pn_result :: "rpc_result option"

definition prepare_rpc :: "request_class \<Rightarrow> request_owner \<Rightarrow> session_handle option \<Rightarrow> scheduler
    \<Rightarrow> (scheduling_error, prepared_rpc) result \<times> scheduler" where
  "prepare_rpc class owner handle s =
     (let scope = (case handle of Some h \<Rightarrow> SessionScope h | None \<Rightarrow> GlobalScope (sg_epoch s))
      in if \<not> scope_matches scope owner then (Err (OwnershipError ''RPC owner and execution route disagree''), s)
         else if sg_cancelled s then (Err RequestCancelled, s)
         else try_in s (map_err IngressFault (try_reserve class owner (sg_ordered s))) (\<lambda>reservation.
           case run_handoff (handoff_register owner) s of
             (Ok r, s1) \<Rightarrow> (Ok \<lparr>pr_reservation = reservation, pr_registration = r, pr_scope = scope, pr_replay = None\<rparr>, s1)
           | (Err e, s1) \<Rightarrow> (Err (HandoffFault e), s1)
           | (Panic, s1) \<Rightarrow> (Panic, s1)))"

definition with_replay :: "nat option \<Rightarrow> prepared_rpc \<Rightarrow> prepared_rpc" where
  "with_replay replay p = p\<lparr>pr_replay := replay\<rparr>"

definition drop_registered :: "registration \<Rightarrow> scheduler \<Rightarrow> scheduler" where
  "drop_registered r s = snd (run_handoff (\<lambda>h. ((), drop_registration r h)) s)"

definition drop_replay :: "(string \<times> request_id) option \<Rightarrow> scheduler \<Rightarrow> scheduler" where
  "drop_replay r s =
     (case r of
        Some (sid, rid) \<Rightarrow>
          (case hm_get (sg_replays s) sid of
             Some (i, cell) \<Rightarrow> if i = rid then update_replay cell replay_seal (s\<lparr>sg_replays := hm_remove sid (sg_replays s)\<rparr>) else s
           | None \<Rightarrow> s)
      | None \<Rightarrow> s)"

text \<open>The session whose updates a request with a candidate takes over.\<close>

definition replay_session :: "prepared_rpc \<Rightarrow> (scheduling_error, string option) result" where
  "replay_session p =
     (case (pr_replay p, pr_scope p) of
        (Some _, SessionScope h) \<Rightarrow> Ok (Some (sh_session_id h))
      | (Some _, _) \<Rightarrow> Err (OwnershipError ''history replay requires a session owner'')
      | _ \<Rightarrow> Ok None)"

definition install_replay :: "string option \<Rightarrow> nat option \<Rightarrow> request_id \<Rightarrow> scheduler \<Rightarrow> (string \<times> request_id) option \<times> scheduler" where
  "install_replay sid replay rid s =
     (case (sid, replay) of
        (Some sid, Some cell) \<Rightarrow> (Some (sid, rid), s\<lparr>sg_replays := hm_insert sid (rid, cell) (sg_replays s)\<rparr>)
      | _ \<Rightarrow> (None, s))"

definition run_bind :: "request_id \<Rightarrow> registration \<Rightarrow> scheduler \<Rightarrow> ((handoff_error, bind_disposition) result \<times> registration) \<times> scheduler" where
  "run_bind rid r = run_handoff (\<lambda>h. case bind_registration rid r h of (x, r', h') \<Rightarrow> ((x, r'), h'))"

definition bind_rpc :: "request_id \<Rightarrow> prepared_rpc \<Rightarrow> (string \<times> request_id) option \<Rightarrow> scheduler
    \<Rightarrow> (scheduling_error, pending_rpc) result \<times> scheduler" where
  "bind_rpc rid p replay s =
     (case run_bind rid (pr_registration p) s of
        ((Ok _, r'), s1) \<Rightarrow>
          (Ok \<lparr>pn_registration = r', pn_scope = pr_scope p, pn_request_id = rid, pn_replay = replay, pn_result = None\<rparr>, s1)
      | ((Err e, r'), s1) \<Rightarrow>
          (Err (HandoffFault e), drop_registered r' (drop_replay replay (fault_fail (HandoffFault e) s1)))
      | ((Panic, r'), s1) \<Rightarrow> (Panic, s1))"

text \<open>\<open>assigned\<close> is the id the SDK gives the request.\<close>

definition send_rpc :: "string \<Rightarrow> request_id \<Rightarrow> prepared_rpc \<Rightarrow> scheduler \<Rightarrow> (scheduling_error, pending_rpc) result \<times> scheduler" where
  "send_rpc method assigned p s =
     (let failed = (\<lambda>e s. (Err e, drop_registered (pr_registration p) s))
      in case replay_session p of
        Err e \<Rightarrow> failed e s
      | Panic \<Rightarrow> (Panic, s)
      | Ok sid \<Rightarrow>
          if Option.bind sid (hm_get (sg_replays s)) \<noteq> None
          then failed (OwnershipError ''session already has an active history replay'') s
          else (case run_ordered (send_registered method (pr_reservation p) assigned) s of
              (Err e, s1) \<Rightarrow> failed (IngressFault e) s1
            | (Panic, s1) \<Rightarrow> (Panic, s1)
            | (Ok rid, s1) \<Rightarrow>
                (case install_replay sid (pr_replay p) rid s1 of (replay, s2) \<Rightarrow> bind_rpc rid p replay s2)))"

text \<open>A request that is not awaited any longer, or whose wait was cut short by the end of the scheduler.\<close>

definition drop_pending :: "pending_rpc \<Rightarrow> scheduler \<Rightarrow> scheduler" where
  "drop_pending p s = drop_replay (pn_replay p) (drop_registered (pn_registration p) s)"

text \<open>
  The two halves of \<open>wait\<close>: the SDK returns the result, which ends the load, and a failure without a
  response completes the request; then the completion comes with its turn.
\<close>

definition await_response :: "env \<Rightarrow> rpc_result \<Rightarrow> pending_rpc \<Rightarrow> scheduler \<Rightarrow> (scheduling_error, pending_rpc) result \<times> scheduler" where
  "await_response E r p s =
     (let s1 = drop_replay (pn_replay p) s; p' = p\<lparr>pn_replay := None, pn_result := Some r\<rparr>
      in case r of
           Inr _ \<Rightarrow> (Ok p', s1)
         | Inl e \<Rightarrow>
             (case run_ordered (complete_without_response (response_bytes E) (pn_request_id p) e) s1 of
                (Ok _, s2) \<Rightarrow> (Ok p', s2)
              | (Err e, s2) \<Rightarrow> (Err (IngressFault e), drop_registered (pn_registration p) (fault_fail (IngressFault e) s2))
              | (Panic, s2) \<Rightarrow> (Panic, s2)))"

definition await_turn :: "pending_rpc \<Rightarrow> scheduler
    \<Rightarrow> (scheduling_error, rpc_result option \<times> execution_turn) result option \<times> scheduler" where
  "await_turn p s =
     (case run_handoff (wait_registration (pn_registration p)) s of
        (None, s1) \<Rightarrow> (None, s1)
      | (Some (Ok t), s1) \<Rightarrow>
          (let result = (case oc_result (ct_completion t) of Inl e \<Rightarrow> Some (Inl e) | Inr _ \<Rightarrow> pn_result p)
           in (Some (Ok (result, \<lparr>xt_scope = pn_scope p, xt_lease = Some (CompletionLease t)\<rparr>)), s1))
      | (Some (Err e), s1) \<Rightarrow> (Some (Err (HandoffFault e)), s1)
      | (Some Panic, s1) \<Rightarrow> (Some Panic, s1))"

end
