(* ===== verification/Scheduling_Guards.thy ===== *)
theory Scheduling_Guards
  imports Scheduling
begin

text \<open>
  The runs of the scheduler with everything that holds a delivery guard: the tickets that are out, the
  requests that wait, and the turns between them. Every guard has one holder, so a session that is busy
  is one that somebody works for, and the test for local work at the end of a connection is exact.
\<close>

section \<open>Runs\<close>

text \<open>
  A ticket is the event that was taken from a queue, or none when its completion came through the
  handoff, with its turn. A request is prepared, then sent and awaited; it is named by the allocation of
  its registration. The message at the front of the shared queue is routed by the coordinator, to a
  session or to the connection, or used up by it.
\<close>

datatype rpc = Prepared prepared_rpc | Pending pending_rpc

definition registration_of :: "rpc \<Rightarrow> registration" where
  "registration_of r = (case r of Prepared p \<Rightarrow> pr_registration p | Pending p \<Rightarrow> pn_registration p)"

record sched_world =
  sw_sched :: scheduler
  sw_tickets :: "(nat, bridge_ingress option \<times> execution_turn) hash_map"
  sw_next :: nat
  sw_rpcs :: "(nat, rpc) hash_map"

datatype sched_op =
    OpWire wire_dispatch "(json, unit) result"
  | OpSubmit bridge_ingress traffic_class event_origin
  | OpRoute "session_handle option" "captured_route option" "request_lease option"
  | OpUse
  | OpRegisterSession string u64
  | OpRemoveSession session_handle
  | OpPump
  | OpHandoff nat
  | OpDropTicket nat
  | OpDiscard ordered_completion
  | OpPrepare request_class request_owner "session_handle option" "nat option"
  | OpSend nat string request_id
  | OpResponse nat rpc_result
  | OpTurn nat
  | OpAbandon nat
  | OpClose

definition add_ticket :: "bridge_ingress option \<times> execution_turn \<Rightarrow> sched_world \<Rightarrow> sched_world" where
  "add_ticket t w = w\<lparr>sw_tickets := hm_insert (sw_next w) t (sw_tickets w), sw_next := Suc (sw_next w)\<rparr>"

definition on_ticket :: "nat \<Rightarrow> (bridge_ingress option \<times> execution_turn \<Rightarrow> scheduler) \<Rightarrow> sched_world \<Rightarrow> sched_world" where
  "on_ticket k f w =
     (case hm_get (sw_tickets w) k of
        Some t \<Rightarrow> w\<lparr>sw_sched := f t, sw_tickets := hm_remove k (sw_tickets w)\<rparr>
      | None \<Rightarrow> w)"

definition on_prepared :: "nat \<Rightarrow> (prepared_rpc \<Rightarrow> sched_world) \<Rightarrow> sched_world \<Rightarrow> sched_world" where
  "on_prepared a f w = (case hm_get (sw_rpcs w) a of Some (Prepared p) \<Rightarrow> f p | _ \<Rightarrow> w)"

definition on_pending :: "nat \<Rightarrow> (pending_rpc \<Rightarrow> sched_world) \<Rightarrow> sched_world \<Rightarrow> sched_world" where
  "on_pending a f w = (case hm_get (sw_rpcs w) a of Some (Pending p) \<Rightarrow> f p | _ \<Rightarrow> w)"

definition take_item :: "(ingress_item \<Rightarrow> scheduler \<Rightarrow> scheduler) \<Rightarrow> scheduler \<Rightarrow> scheduler" where
  "take_item f s = (case sg_queue s of [] \<Rightarrow> s | i # is \<Rightarrow> f i (s\<lparr>sg_queue := is\<rparr>))"

definition route_item :: "session_handle option \<Rightarrow> ingress_item \<Rightarrow> scheduler \<Rightarrow> scheduler" where
  "route_item h i s = (case h of Some h \<Rightarrow> snd (route_session h i s) | None \<Rightarrow> snd (route_global i s))"

text \<open>A request that failed is gone; one that was sent goes on under its name.\<close>

definition rpc_step :: "nat \<Rightarrow> (scheduling_error, pending_rpc) result \<times> scheduler \<Rightarrow> sched_world \<Rightarrow> sched_world" where
  "rpc_step a x w =
     (case x of
        (Ok p, s) \<Rightarrow> w\<lparr>sw_sched := s, sw_rpcs := hm_insert a (Pending p) (sw_rpcs w)\<rparr>
      | (_, s) \<Rightarrow> w\<lparr>sw_sched := s, sw_rpcs := hm_remove a (sw_rpcs w)\<rparr>)"

fun sched_do :: "env \<times> (json \<Rightarrow> (string, json) result) \<Rightarrow> sched_op \<Rightarrow> sched_world \<Rightarrow> sched_world" where
  "sched_do (E, parse) (OpWire d reply) w = w\<lparr>sw_sched := snd (receive_dispatch E parse reply d (sw_sched w))\<rparr>"
| "sched_do (E, parse) (OpSubmit event class origin) w = w\<lparr>sw_sched := snd (submit E event class origin (sw_sched w))\<rparr>"
| "sched_do (E, parse) (OpRoute h route lease) w =
     w\<lparr>sw_sched := take_item (\<lambda>i. route_item h (i\<lparr>it_route := route, it_request_lease := lease\<rparr>)) (sw_sched w)\<rparr>"
| "sched_do (E, parse) OpUse w = w\<lparr>sw_sched := take_item (\<lambda>i s. s) (sw_sched w)\<rparr>"
| "sched_do (E, parse) (OpRegisterSession sid incarnation) w = w\<lparr>sw_sched := snd (register_session E sid incarnation (sw_sched w))\<rparr>"
| "sched_do (E, parse) (OpRemoveSession h) w = w\<lparr>sw_sched := snd (remove_session E h (sw_sched w))\<rparr>"
| "sched_do (E, parse) OpPump w =
     (case pump (sw_sched w) of
        (Ok (Some input), s) \<Rightarrow> add_ticket (Some (si_event input), si_turn input) (w\<lparr>sw_sched := s\<rparr>)
      | (_, s) \<Rightarrow> w\<lparr>sw_sched := s\<rparr>)"
| "sched_do (E, parse) (OpHandoff k) w =
     on_ticket k (\<lambda>t. case fst t of
         Some (RpcCompleted completion) \<Rightarrow> snd (scheduling_handoff completion (snd t) (sw_sched w))
       | _ \<Rightarrow> drop_execution (snd t) (sw_sched w)) w"
| "sched_do (E, parse) (OpDropTicket k) w = on_ticket k (\<lambda>t. drop_execution (snd t) (sw_sched w)) w"
| "sched_do (E, parse) (OpDiscard completion) w = w\<lparr>sw_sched := snd (discard_completion completion (sw_sched w))\<rparr>"
| "sched_do (E, parse) (OpPrepare class owner h replay) w =
     (case prepare_rpc class owner h (sw_sched w) of
        (Ok p, s) \<Rightarrow> w\<lparr>sw_sched := s, sw_rpcs := hm_insert (rn_allocation (pr_registration p)) (Prepared (with_replay replay p)) (sw_rpcs w)\<rparr>
      | (_, s) \<Rightarrow> w\<lparr>sw_sched := s\<rparr>)"
| "sched_do (E, parse) (OpSend a method assigned) w =
     on_prepared a (\<lambda>p. rpc_step a (send_rpc method assigned p (sw_sched w)) w) w"
| "sched_do (E, parse) (OpResponse a r) w =
     on_pending a (\<lambda>p. rpc_step a (await_response E r p (sw_sched w)) w) w"
| "sched_do (E, parse) (OpTurn a) w =
     on_pending a (\<lambda>p. case await_turn p (sw_sched w) of
         (None, s) \<Rightarrow> w\<lparr>sw_sched := s\<rparr>
       | (Some (Ok (_, turn)), s) \<Rightarrow> add_ticket (None, turn) (w\<lparr>sw_sched := s, sw_rpcs := hm_remove a (sw_rpcs w)\<rparr>)
       | (Some _, s) \<Rightarrow> w\<lparr>sw_sched := s, sw_rpcs := hm_remove a (sw_rpcs w)\<rparr>) w"
| "sched_do (E, parse) (OpAbandon a) w =
     (case hm_get (sw_rpcs w) a of
        Some (Prepared p) \<Rightarrow> w\<lparr>sw_sched := drop_registered (pr_registration p) (sw_sched w), sw_rpcs := hm_remove a (sw_rpcs w)\<rparr>
      | Some (Pending p) \<Rightarrow> w\<lparr>sw_sched := drop_pending p (sw_sched w), sw_rpcs := hm_remove a (sw_rpcs w)\<rparr>
      | None \<Rightarrow> w)"
| "sched_do (E, parse) OpClose w = w\<lparr>sw_sched := scheduling_close E (sw_sched w)\<rparr>"

definition sched_start :: "string \<Rightarrow> sched_world option" where
  "sched_start epoch =
     (case scheduling_new epoch of
        Ok s \<Rightarrow> Some \<lparr>sw_sched = s, sw_tickets = [], sw_next = 0, sw_rpcs = []\<rparr>
      | _ \<Rightarrow> None)"

section \<open>What leaves the queues and the handoff alone\<close>

definition same_lanes :: "scheduler \<Rightarrow> scheduler \<Rightarrow> bool" where
  "same_lanes s s' \<longleftrightarrow> sg_sessions s' = sg_sessions s \<and> sg_global s' = sg_global s \<and> sg_handoff s' = sg_handoff s"

lemma same_lanes_refl [simp]: "same_lanes s s"
  by (simp add: same_lanes_def)

lemma same_lanes_trans: "same_lanes s s' \<Longrightarrow> same_lanes s' s'' \<Longrightarrow> same_lanes s s''"
  by (simp add: same_lanes_def)

lemma same_lanes_fold: "(\<And>x s. same_lanes s (f x s)) \<Longrightarrow> same_lanes s (fold f xs s)"
  by (induction xs arbitrary: s) (auto intro: same_lanes_trans)

lemma same_lanes_fail [simp]: "same_lanes s (fault_fail e s)"
  by (simp add: same_lanes_def fault_fail_def)

lemma same_lanes_reject [simp]: "same_lanes s (reject_event event e s)"
  by (auto simp: same_lanes_def reject_event_def split: bridge_ingress.splits wire_dispatch.splits)

lemma same_lanes_submit [simp]: "same_lanes s (snd (submit E event class origin s))"
  using same_lanes_trans [OF same_lanes_reject same_lanes_fail]
  by (auto simp: submit_def Let_def) (simp_all add: same_lanes_def)

lemma same_lanes_drop_items [simp]: "same_lanes s (drop_items E items s)"
  unfolding drop_items_def
  by (rule same_lanes_fold) (simp add: drop_lease_def inbound_request_finished_def split: option.splits)

lemma same_lanes_ordered [simp]: "same_lanes s (snd (run_ordered f s))"
  by (simp add: same_lanes_def run_ordered_def split: prod.splits)

lemma same_lanes_update [simp]: "same_lanes s (update_replay cell f s)"
  by (simp add: same_lanes_def update_replay_def)

lemma same_lanes_seal [simp]: "same_lanes s (seal_replay rid s)"
  by (auto simp: same_lanes_def seal_replay_def update_replay_def split: option.splits)

lemma same_lanes_drop_replay [simp]: "same_lanes s (drop_replay r s)"
  by (auto simp: same_lanes_def drop_replay_def update_replay_def split: option.splits)

lemma same_lanes_ingest [simp]: "same_lanes s (snd (ingest_replay E parse params cell s))"
proof (cases "parse params")
  case (Ok update)
  obtain r d where "replay_ingest E update (is_conversation_update update) (cell_get cell (sg_history s)) = (r, d)" by force
  with Ok show ?thesis by (cases r) (simp_all add: ingest_replay_def same_lanes_def update_replay_def)
qed (simp_all add: ingest_replay_def same_lanes_def update_replay_def)

lemma same_lanes_response [simp]: "same_lanes s (snd (receive_response E rid r reply s))"
proof -
  have "same_lanes s (snd (run_ordered (intercept_response (response_bytes E) rid r reply) (seal_replay rid s)))"
    by (rule same_lanes_trans [OF same_lanes_seal same_lanes_ordered])
  then show ?thesis
    by (auto simp: receive_response_def intro: same_lanes_trans split: prod.splits result.splits)
qed

lemma call_then_const [simp]: "snd (call_then x (\<lambda>_. Pair v)) = snd x"
  by (simp add: call_then_def split: prod.splits result.splits)

lemma same_lanes_dispatch [simp]: "same_lanes s (snd (receive_dispatch E parse reply d s))"
  by (cases d) (simp_all add: receive_dispatch_def split: option.splits)

lemma same_lanes_discard_replays [simp]: "same_lanes s (discard_replays s)"
  using same_lanes_fold [of "\<lambda>p. update_replay (snd (snd p)) replay_discard", OF same_lanes_update]
  by (simp add: discard_replays_def same_lanes_def)

lemma same_lanes_reject_queue [simp]: "same_lanes s (reject_queue s)"
  using same_lanes_fold [of "\<lambda>i. reject_event (it_event i) RequestCancelled", OF same_lanes_reject]
  by (simp add: reject_queue_def same_lanes_def)

section \<open>The guards that are out\<close>

definition of_lane :: "nat \<Rightarrow> delivery_guard multiset \<Rightarrow> delivery_guard multiset" where
  "of_lane n out = filter_mset (\<lambda>g. sh_registry (dl_handle g) = n) out"

lemma of_lane_simps [simp]:
  "of_lane n {#} = {#}" "of_lane n (xs + ys) = of_lane n xs + of_lane n ys"
  "of_lane n (add_mset g xs) = (if sh_registry (dl_handle g) = n then add_mset g (of_lane n xs) else of_lane n xs)"
  by (simp_all add: of_lane_def)

definition lane_ok :: "nat \<Rightarrow> ingress_item dispatch \<Rightarrow> delivery_guard multiset \<Rightarrow> bool" where
  "lane_ok n d out \<longleftrightarrow> dp_identity d = n \<and> (\<exists>xs. mset xs = of_lane n out \<and> held d xs)"

definition lanes :: "scheduler \<Rightarrow> delivery_guard multiset \<Rightarrow> bool" where
  "lanes s out \<longleftrightarrow> lane_ok 0 (sg_sessions s) out \<and> lane_ok 1 (sg_global s) out \<and>
     (\<forall>g \<in># out. sh_registry (dl_handle g) \<in> {0, 1})"

lemma lanes_cong: "same_lanes s s' \<Longrightarrow> lanes s' out = lanes s out"
  by (simp add: lanes_def same_lanes_def)

lemma drop_guard_identity [simp]: "dp_identity (drop_guard g d) = dp_identity d"
  by (simp add: drop_guard_def release_session_def Let_def split: option.splits)

lemma lane_release:
  assumes "lane_ok n d (add_mset g out)" "sh_registry (dl_handle g) = n"
  shows "lane_ok n (drop_guard g d) out"
proof -
  from assms obtain xs where xs: "mset xs = add_mset g (of_lane n out)" "held d xs" by (auto simp: lane_ok_def)
  then have "g \<in> set xs" by (metis union_single_eq_member set_mset_mset)
  then obtain ys zs where "xs = ys @ g # zs" by (auto simp: in_set_conv_decomp)
  with xs finished_held [of d ys g zs] have "mset (ys @ zs) = of_lane n out" "held (drop_guard g d) (ys @ zs)" by simp_all
  with assms(1) show ?thesis by (auto simp: lane_ok_def intro!: exI [of _ "ys @ zs"])
qed

lemma lane_other: "sh_registry (dl_handle g) \<noteq> n \<Longrightarrow> lane_ok n d (add_mset g out) = lane_ok n d out"
  by (simp add: lane_ok_def)

lemma release_lanes:
  assumes "lanes s (add_mset g out)"
  shows "lanes (release_guard g s) out"
proof -
  from assms have l: "lane_ok 0 (sg_sessions s) (add_mset g out)" "lane_ok 1 (sg_global s) (add_mset g out)"
    "\<forall>g \<in># out. sh_registry (dl_handle g) \<in> {0, 1}" "sh_registry (dl_handle g) \<in> {0, 1}" "dp_identity (sg_sessions s) = 0"
    by (simp_all add: lanes_def lane_ok_def)
  show ?thesis
  proof (cases "sh_registry (dl_handle g) = 0")
    case True
    with lane_release [OF l(1) True] lane_other [of g 1 "sg_global s" out] l show ?thesis
      by (simp add: lanes_def release_guard_def)
  next
    case False
    with l(4) have one: "sh_registry (dl_handle g) = 1" by simp
    with lane_release [OF l(2) one] lane_other [of g 0 "sg_sessions s" out] l show ?thesis
      by (simp add: lanes_def release_guard_def)
  qed
qed

lemma settle_turns_lanes:
  assumes "lanes s (out + image_mset ct_guard (mset (ho_dropped (sg_handoff s))))"
  shows "lanes (settle_turns s) out"
proof -
  let ?s = "s\<lparr>sg_handoff := (sg_handoff s)\<lparr>ho_dropped := []\<rparr>, sg_woken := sg_woken s \<or> ho_dropped (sg_handoff s) \<noteq> []\<rparr>"
  have "lanes s (out + image_mset ct_guard (mset ts)) \<Longrightarrow> lanes (fold (\<lambda>t. release_guard (ct_guard t)) ts s) out" for ts s
  proof (induction ts arbitrary: s)
    case (Cons t ts)
    from Cons.prems have "lanes s (add_mset (ct_guard t) (out + image_mset ct_guard (mset ts)))" by simp
    from Cons.IH [OF release_lanes [OF this]] show ?case by simp
  qed simp
  moreover have "lanes ?s (out + image_mset ct_guard (mset (ho_dropped (sg_handoff s))))"
    using assms by (simp add: lanes_def)
  ultimately show ?thesis by (simp add: settle_turns_def Let_def)
qed

lemma release_guard_handoff [simp]: "sg_handoff (release_guard g s) = sg_handoff s"
  by (simp add: release_guard_def)

lemma settle_turns_handoff [simp]: "sg_handoff (settle_turns s) = (sg_handoff s)\<lparr>ho_dropped := []\<rparr>"
proof -
  have "sg_handoff (fold (\<lambda>t. release_guard (ct_guard t)) ts s) = sg_handoff s" for ts :: "delivery_guard completion_turn list" and s
    by (induction ts arbitrary: s) simp_all
  then show ?thesis by (simp add: settle_turns_def Let_def)
qed

text \<open>The turns the handoff holds, with those it has dropped and not yet given up.\<close>

definition turns_in :: "'g handoff \<Rightarrow> 'g completion_turn multiset" where
  "turns_in h = mset (List.map_filter (\<lambda>p. he_early (snd p)) (ho_entries h)) +
     mset (List.map_filter (\<lambda>p. case snd p of Sent t \<Rightarrow> Some t | _ \<Rightarrow> None) (ho_receivers h)) + mset (ho_dropped h)"

lemma count_map_filter: "count (mset (List.map_filter f xs)) t = sum_list (map (\<lambda>x. of_bool (f x = Some t)) xs)"
  by (induction xs) (auto simp: List.map_filter_simps split: option.splits)

lemma count_turns_in: "count (turns_in h) t = inside t h"
proof -
  have "((case x of Sent u \<Rightarrow> Some u | _ \<Rightarrow> None) = Some t) = (x = Sent t)" for x by (cases x) auto
  then show ?thesis
    by (simp add: turns_in_def inside_def parked_def buffered_def count_map_filter) (simp add: count_mset)
qed

lemma turns_inI: "(\<And>t. inside t h' = inside t h) \<Longrightarrow> turns_in h' = turns_in h"
  by (simp add: multiset_eq_iff count_turns_in)

section \<open>The invariant of a run\<close>

definition tasks_of :: "(nat, rpc) hash_map \<Rightarrow> tasks" where
  "tasks_of rpcs = map (\<lambda>p. (fst p, registration_of (snd p))) rpcs"

lemma tasks_of_get: "hm_get (tasks_of rpcs) a = map_option registration_of (hm_get rpcs a)"
  by (induction rpcs) (auto simp: tasks_of_def hm_get_def)

definition hand_ok :: "'g handoff \<Rightarrow> tasks \<Rightarrow> bool" where
  "hand_ok h tasks \<longleftrightarrow> (\<exists>bound. linked h tasks bound) \<and> maps_wf h \<and> ho_dropped h = [] \<and> ho_alive h"

definition turn_guards :: "execution_turn \<Rightarrow> delivery_guard multiset" where
  "turn_guards x =
     (case xt_lease x of Some (LocalLease g) \<Rightarrow> {#g#} | Some (CompletionLease t) \<Rightarrow> {#ct_guard t#} | None \<Rightarrow> {#})"

definition ticket_guards :: "(nat, bridge_ingress option \<times> execution_turn) hash_map \<Rightarrow> delivery_guard multiset" where
  "ticket_guards m = sum_list (map (\<lambda>p. turn_guards (snd (snd p))) m)"

definition handoff_guards :: "delivery_guard handoff \<Rightarrow> delivery_guard multiset" where
  "handoff_guards h = image_mset ct_guard (turns_in h)"

definition guards_out :: "sched_world \<Rightarrow> delivery_guard multiset" where
  "guards_out w = ticket_guards (sw_tickets w) + handoff_guards (sg_handoff (sw_sched w))"

definition world_ok :: "sched_world \<Rightarrow> bool" where
  "world_ok w \<longleftrightarrow> hm_wf (sw_tickets w) \<and> (\<forall>k t. hm_get (sw_tickets w) k = Some t \<longrightarrow> k < sw_next w) \<and>
     hand_ok (sg_handoff (sw_sched w)) (tasks_of (sw_rpcs w)) \<and> lanes (sw_sched w) (guards_out w)"

lemma drop_execution_lanes: "lanes s (out + turn_guards x) \<Longrightarrow> lanes (drop_execution x s) out"
  using release_lanes [of s]
  by (auto simp: drop_execution_def turn_guards_def lanes_def split: option.splits execution_lease.splits)

lemma drop_execution_handoff [simp]: "sg_handoff (drop_execution x s) = sg_handoff s"
  by (simp add: drop_execution_def split: option.splits execution_lease.splits)

lemma ticket_guards_add: "hm_wf m \<Longrightarrow> hm_get m k = None \<Longrightarrow> ticket_guards (hm_insert k t m) = ticket_guards m + turn_guards (snd t)"
  using hm.sum_put_new [of m k "\<lambda>t. turn_guards (snd t)" t] by (simp add: ticket_guards_def)

lemma ticket_guards_del: "hm_wf m \<Longrightarrow> hm_get m k = Some t \<Longrightarrow> ticket_guards m = ticket_guards (hm_remove k m) + turn_guards (snd t)"
  using hm.sum_del [of m k t "\<lambda>t. turn_guards (snd t)"] by (simp add: ticket_guards_def)

lemma hand_ok_tasks:
  assumes "hm_get tasks' = hm_get tasks"
  shows "hand_ok h tasks' = hand_ok h tasks"
proof -
  have "linked h tasks' = linked h tasks" by (rule ext) (rule linked_tasks [OF assms])
  then show ?thesis by (simp add: hand_ok_def)
qed

lemma linked_dropped [simp]: "linked (h\<lparr>ho_dropped := ts\<rparr>) tasks bound = linked h tasks bound"
proof -
  have "ho_entries (h\<lparr>ho_dropped := ts\<rparr>) = ho_entries h" "ho_receivers (h\<lparr>ho_dropped := ts\<rparr>) = ho_receivers h"
    "ho_next (h\<lparr>ho_dropped := ts\<rparr>) = ho_next h" "ho_closed (h\<lparr>ho_dropped := ts\<rparr>) = ho_closed h"
    "ho_alive (h\<lparr>ho_dropped := ts\<rparr>) = ho_alive h" by simp_all
  note fields = this
  show ?thesis unfolding linked_def entry_ok_def receiver_ok_def task_ok_def fields by (rule refl)
qed

text \<open>An operation on the handoff: what it drops is given up.\<close>

lemma run_handoff_ok:
  assumes "f (sg_handoff s) = (r, h)" "linked h tasks bound" "maps_wf h" "lanes s (out + handoff_guards h)" "ho_alive h"
  shows "fst (run_handoff f s) = r" "hand_ok (sg_handoff (snd (run_handoff f s))) tasks"
    "lanes (snd (run_handoff f s)) (out + handoff_guards (sg_handoff (snd (run_handoff f s))))"
proof -
  let ?s = "s\<lparr>sg_handoff := h\<rparr>" and ?h = "h\<lparr>ho_dropped := []\<rparr>"
  have s: "run_handoff f s = (r, settle_turns ?s)" using assms(1) by (simp add: run_handoff_def)
  then show "fst (run_handoff f s) = r" by simp
  have "linked ?h tasks bound" using assms(2) by simp
  with assms(3,5) show "hand_ok (sg_handoff (snd (run_handoff f s))) tasks" by (auto simp: s hand_ok_def maps_wf_def)
  have "handoff_guards h = handoff_guards ?h + image_mset ct_guard (mset (ho_dropped h))"
    by (simp add: handoff_guards_def turns_in_def)
  with assms(4) have "lanes ?s ((out + handoff_guards ?h) + image_mset ct_guard (mset (ho_dropped (sg_handoff ?s))))"
    by (simp add: lanes_def ac_simps)
  from settle_turns_lanes [OF this]
  show "lanes (snd (run_handoff f s)) (out + handoff_guards (sg_handoff (snd (run_handoff f s))))" by (simp add: s)
qed

definition sched_ok :: "scheduler \<Rightarrow> tasks \<Rightarrow> delivery_guard multiset \<Rightarrow> bool" where
  "sched_ok s tasks out \<longleftrightarrow> hand_ok (sg_handoff s) tasks \<and> lanes s (out + handoff_guards (sg_handoff s))"

lemma world_ok_sched:
  "world_ok w \<longleftrightarrow> hm_wf (sw_tickets w) \<and> (\<forall>k t. hm_get (sw_tickets w) k = Some t \<longrightarrow> k < sw_next w) \<and>
     sched_ok (sw_sched w) (tasks_of (sw_rpcs w)) (ticket_guards (sw_tickets w))"
  by (auto simp: world_ok_def sched_ok_def guards_out_def)

lemma sched_ok_cong: "same_lanes s s' \<Longrightarrow> sched_ok s' tasks out = sched_ok s tasks out"
  by (simp add: sched_ok_def lanes_cong) (simp add: same_lanes_def)

lemmas sched_ok_same [simp] = same_lanes_fail [THEN sched_ok_cong] same_lanes_reject [THEN sched_ok_cong]
  same_lanes_submit [THEN sched_ok_cong] same_lanes_drop_items [THEN sched_ok_cong] same_lanes_ordered [THEN sched_ok_cong]
  same_lanes_seal [THEN sched_ok_cong] same_lanes_drop_replay [THEN sched_ok_cong] same_lanes_dispatch [THEN sched_ok_cong]
  same_lanes_discard_replays [THEN sched_ok_cong] same_lanes_reject_queue [THEN sched_ok_cong]

lemma sched_ok_linked:
  assumes "sched_ok s tasks out"
  obtains bound where "linked (sg_handoff s) tasks bound" "maps_wf (sg_handoff s)" "ho_alive (sg_handoff s)"
  using assms by (auto simp: sched_ok_def hand_ok_def)

lemma run_handoff_sched:
  assumes "sched_ok s tasks out" "f (sg_handoff s) = (r, h)" "linked h tasks' bound" "maps_wf h"
    "out + handoff_guards (sg_handoff s) = out' + handoff_guards h" "ho_alive h"
  shows "sched_ok (snd (run_handoff f s)) tasks' out'" "fst (run_handoff f s) = r"
proof -
  from assms(1,5) have "lanes s (out' + handoff_guards h)" by (simp add: sched_ok_def)
  note ok = run_handoff_ok [of f s r h tasks' bound out', OF assms(2-4) this assms(6)]
  from ok(2,3) show "sched_ok (snd (run_handoff f s)) tasks' out'" by (simp add: sched_ok_def)
  from ok(1) show "fst (run_handoff f s) = r" .
qed

lemma run_handoff_keeps:
  assumes "sched_ok s tasks out" "keeps (sg_handoff s) (snd (f (sg_handoff s))) tasks' bound"
    "ho_alive (snd (f (sg_handoff s))) = ho_alive (sg_handoff s)"
  shows "sched_ok (snd (run_handoff f s)) tasks' out" "fst (run_handoff f s) = fst (f (sg_handoff s))"
proof -
  from assms(2) have k: "linked (snd (f (sg_handoff s))) tasks' bound" "maps_wf (snd (f (sg_handoff s)))"
    "\<And>t. inside t (snd (f (sg_handoff s))) = inside t (sg_handoff s)" by (simp_all add: keeps_def)
  have "handoff_guards (snd (f (sg_handoff s))) = handoff_guards (sg_handoff s)"
    unfolding handoff_guards_def by (rule arg_cong [OF turns_inI [OF k(3)]])
  have alive: "ho_alive (snd (f (sg_handoff s)))" using assms(1,3) by (simp add: sched_ok_def hand_ok_def)
  from \<open>handoff_guards (snd (f (sg_handoff s))) = handoff_guards (sg_handoff s)\<close>
  have eq: "out + handoff_guards (sg_handoff s) = out + handoff_guards (snd (f (sg_handoff s)))" by simp
  show "sched_ok (snd (run_handoff f s)) tasks' out" "fst (run_handoff f s) = fst (f (sg_handoff s))"
    by (rule run_handoff_sched [of s tasks out f "fst (f (sg_handoff s))", OF assms(1) surjective_pairing k(1,2) eq alive])+
qed

subsection \<open>The handoff stays alive\<close>

lemma send_turn_alive [simp]: "ho_alive (snd (send_turn a t s)) = ho_alive s"
  by (simp add: send_turn_def split: option.splits)

lemma handoff_alive [simp]:
  "ho_alive (snd (handoff_register owner s)) = ho_alive s"
  "ho_alive (snd (handoff_completion c g s)) = ho_alive s"
  "ho_alive (snd (handoff_discard owner rid s)) = ho_alive s"
  "ho_alive (drop_registration r s) = ho_alive s"
  "ho_alive (handoff_close s) = ho_alive s"
  by (auto simp: handoff_register_def handoff_completion_def handoff_discard_def drop_registration_def handoff_close_def Let_def
      case_prod_beta split: option.splits bool.splits)

lemma drop_owned_alive [simp]: "ho_alive (snd (drop_owned owners s)) = ho_alive s"
  by (induction owners s rule: drop_owned.induct) (auto split: option.splits prod.splits)

lemma discard_session_snd:
  "snd (discard_session epoch sid inc s) = snd (drop_owned (filter (owned_by_session epoch sid inc) (map fst (ho_entries s))) s)"
  by (simp add: discard_session_def split: prod.splits)

lemma bind_alive [simp]: "ho_alive (snd (snd (bind_registration rid r s))) = ho_alive s"
  by (auto simp: bind_registration_def Let_def case_prod_beta split: option.splits bool.splits)

lemma wait_alive [simp]: "ho_alive (snd (wait_registration r s)) = ho_alive s"
  by (auto simp: wait_registration_def split: option.splits receiver.splits)

subsection \<open>The lanes\<close>

lemma lane_held: "lane_ok n d out \<Longrightarrow> (\<And>xs. held d xs \<Longrightarrow> held d' xs) \<Longrightarrow> dp_identity d' = dp_identity d \<Longrightarrow> lane_ok n d' out"
  by (auto simp: lane_ok_def)

lemma lane_dispatch_ok: "lane_ok n d out \<Longrightarrow> dispatch_ok d"
  by (auto simp: lane_ok_def held_def)

lemma lane_register: "lane_ok n d out \<Longrightarrow> lane_ok n (snd (register_queue sid inc d)) out"
  by (rule register_queue_cases [OF lane_dispatch_ok, of n d out sid inc])
     (auto elim!: lane_held intro: replaced_held simp: replaced_def [THEN arg_cong, of dp_identity])

lemma lane_remove: "lane_ok n d out \<Longrightarrow> lane_ok n (snd (remove_queue h d)) out"
  by (rule remove_queue_cases [OF lane_dispatch_ok, of n d out h])
     (auto elim!: lane_held intro: forgotten_held simp: forgotten_def [THEN arg_cong, of dp_identity])

lemma routed_identity: "dp_identity (routed h c b e q d) = dp_identity d"
  by (simp add: routed_def)

lemma lane_route: "lane_ok n d out \<Longrightarrow> lane_ok n (snd (try_route h c b e d)) out"
  by (rule try_route_cases [of h c b e d])
     (auto elim!: lane_held intro: routed_held simp: routed_identity)

lemma lane_close: "lane_ok n d out \<Longrightarrow> lane_ok n (close_dispatch d) out"
  by (frule lane_dispatch_ok)
     (auto simp: close_dispatch_eq closed_down_def [THEN arg_cong, of dp_identity] elim!: lane_held intro: closed_down_held)

lemma taken_registry:
  assumes "dispatch_ok d" "hm_get (dp_sessions d) sid = Some q" "sq_queue q \<noteq> []"
  shows "dl_handle (taken_delivery q) = sq_handle q" "sh_registry (dl_handle (taken_delivery q)) = dp_identity d"
proof -
  have "hd (sq_queue q) \<in> set (sq_queue q)" using assms(3) by simp
  with queue_okD(6) [OF assms(1,2)] show "dl_handle (taken_delivery q) = sq_handle q" by (simp add: taken_delivery_def)
  with queue_okD(3) [OF assms(1,2)] show "sh_registry (dl_handle (taken_delivery q)) = dp_identity d" by simp
qed

lemma lane_next:
  assumes "lane_ok n d out"
  shows "case try_next d of
      (Ok (Some dl), d') \<Rightarrow> lane_ok n d' (add_mset dl out) \<and> sh_registry (dl_handle dl) = n
    | (_, d') \<Rightarrow> d' = d"
proof (cases rule: try_next_cases [OF lane_dispatch_ok [OF assms]])
  case (3 bs h rest q)
  from assms obtain xs where xs: "mset xs = of_lane n out" "held d xs" "dp_identity d = n" by (auto simp: lane_ok_def)
  note reg = taken_registry [OF lane_dispatch_ok [OF assms] 3(5,7)]
  have "held (taken bs q rest d) (xs @ [taken_delivery q])" by (rule taken_held [OF xs(2) 3(2,4-7)])
  moreover have "dp_identity (taken bs q rest d) = n" using xs(3) by (simp add: taken_def)
  ultimately have "lane_ok n (taken bs q rest d) (add_mset (taken_delivery q) out)"
    using xs(1,3) reg(2) by (auto simp: lane_ok_def intro!: exI [of _ "xs @ [taken_delivery q]"])
  with 3(8) reg(2) xs(3) show ?thesis by simp
qed simp_all

section \<open>Every operation keeps the invariant\<close>

lemma drop_execution_sched: "sched_ok s tasks (out + turn_guards x) \<Longrightarrow> sched_ok (drop_execution x s) tasks out"
  using drop_execution_lanes [of s "out + handoff_guards (sg_handoff s)" x] by (simp add: sched_ok_def ac_simps)

lemma sched_ok_sessions:
  "sched_ok s tasks out \<Longrightarrow> (\<And>x. lane_ok 0 (sg_sessions s) x \<Longrightarrow> lane_ok 0 d x) \<Longrightarrow> sched_ok (s\<lparr>sg_sessions := d\<rparr>) tasks out"
  by (simp add: sched_ok_def lanes_def)

lemma sched_ok_global:
  "sched_ok s tasks out \<Longrightarrow> (\<And>x. lane_ok 1 (sg_global s) x \<Longrightarrow> lane_ok 1 d x) \<Longrightarrow> sched_ok (s\<lparr>sg_global := d\<rparr>) tasks out"
  by (simp add: sched_ok_def lanes_def)

lemma register_session_sched:
  assumes "sched_ok s tasks out"
  shows "sched_ok (snd (register_session E sid incarnation s)) tasks out"
proof -
  obtain r d where d: "register_queue sid incarnation (sg_sessions s) = (r, d)" by force
  have "sched_ok (s\<lparr>sg_sessions := d\<rparr>) tasks out"
    by (rule sched_ok_sessions [OF assms]) (use lane_register [of 0 "sg_sessions s" _ sid incarnation] d in simp)
  with assms d show ?thesis by (simp add: register_session_def Let_def)
qed

lemma remove_session_sched:
  assumes "sched_ok s tasks out"
  shows "sched_ok (snd (remove_session E h s)) tasks out"
proof -
  obtain r d where d: "remove_queue h (sg_sessions s) = (r, d)" by force
  have ok: "sched_ok (s\<lparr>sg_sessions := d\<rparr>) tasks out"
    by (rule sched_ok_sessions [OF assms]) (use lane_remove [of 0 "sg_sessions s" _ h] d in simp)
  then have "sched_ok (drop_items E items (s\<lparr>sg_sessions := d\<rparr>)) tasks out" for items by simp
  note ok' = this [of "queued_of (sh_session_id h) s"]
  obtain bound where b: "linked (sg_handoff s) tasks bound" "maps_wf (sg_handoff s)" using sched_ok_linked [OF assms] .
  have same: "sg_handoff (drop_items E items (s\<lparr>sg_sessions := d\<rparr>)) = sg_handoff s" for items
    using same_lanes_drop_items [of "s\<lparr>sg_sessions := d\<rparr>" E items] by (simp add: same_lanes_def)
  have "sched_ok (snd (run_handoff (discard_session (sh_epoch h) (sh_session_id h) (sh_incarnation h))
      (drop_items E (queued_of (sh_session_id h) s) (s\<lparr>sg_sessions := d\<rparr>)))) tasks out"
    by (rule run_handoff_keeps(1) [where bound = bound, OF ok']) (simp_all add: same discard_session_snd drop_owned_ok [OF b])
  with d ok show ?thesis
    by (cases r) (auto simp: remove_session_def split: prod.splits result.splits)
qed

lemma route_session_sched:
  assumes "sched_ok s tasks out"
  shows "sched_ok (snd (route_session h i s)) tasks out"
proof -
  obtain r d where d: "try_route h (it_class i) (of_nat (it_bytes i)) i (sg_sessions s) = (r, d)" by force
  have "sched_ok (s\<lparr>sg_sessions := d\<rparr>) tasks out"
    by (rule sched_ok_sessions [OF assms]) (use lane_route [of 0 "sg_sessions s"] d in \<open>metis snd_conv\<close>)
  with assms d show ?thesis
    by (auto simp: route_session_def reject_item_def split: result.splits prod.splits)
qed

lemma route_global_sched:
  assumes "sched_ok s tasks out"
  shows "sched_ok (snd (route_global i s)) tasks out"
proof -
  obtain r d where d: "try_route (sg_global_handle s) (it_class i) (of_nat (it_bytes i)) i (sg_global s) = (r, d)" by force
  have "sched_ok (s\<lparr>sg_global := d\<rparr>) tasks out"
    by (rule sched_ok_global [OF assms]) (use lane_route [of 1 "sg_global s"] d in \<open>metis snd_conv\<close>)
  with assms d show ?thesis
    by (auto simp: route_global_def reject_item_def split: result.splits prod.splits)
qed

lemma take_item_sched:
  assumes "sched_ok s tasks out" "\<And>i s. sched_ok s tasks out \<Longrightarrow> sched_ok (f i s) tasks out"
  shows "sched_ok (take_item f s) tasks out"
proof (cases "sg_queue s")
  case (Cons i items)
  have "same_lanes s (s\<lparr>sg_queue := items\<rparr>)" by (simp add: same_lanes_def)
  from assms(1) sched_ok_cong [OF this, of tasks out] have "sched_ok (s\<lparr>sg_queue := items\<rparr>) tasks out" by blast
  with assms(2) Cons show ?thesis by (simp add: take_item_def)
qed (use assms in \<open>simp add: take_item_def\<close>)

text \<open>What a call that may take a ticket leaves.\<close>

definition ticket_sched :: "tasks \<Rightarrow> delivery_guard multiset \<Rightarrow> (scheduling_error, scheduled_input option) result \<times> scheduler \<Rightarrow> bool" where
  "ticket_sched tasks out x =
     sched_ok (snd x) tasks (out + (case fst x of Ok (Some input) \<Rightarrow> turn_guards (si_turn input) | _ \<Rightarrow> {#}))"

lemma next_session_sched:
  assumes "sched_ok s tasks out"
  shows "ticket_sched tasks out (next_session s)"
proof -
  from assms have l: "lane_ok 0 (sg_sessions s) (out + handoff_guards (sg_handoff s))" by (simp add: sched_ok_def lanes_def)
  obtain r d where d: "try_next (sg_sessions s) = (r, d)" by force
  show ?thesis
  proof (cases "\<exists>dl. r = Ok (Some dl)")
    case True
    then obtain dl where dl: "r = Ok (Some dl)" ..
    with lane_next [OF l] d have n: "lane_ok 0 d (add_mset dl (out + handoff_guards (sg_handoff s)))" "sh_registry (dl_handle dl) = 0"
      by simp_all
    from assms lane_other [of dl 1 "sg_global s"] n have "sched_ok (s\<lparr>sg_sessions := d\<rparr>) tasks (out + {#dl#})"
      by (simp add: sched_ok_def lanes_def)
    with d dl show ?thesis
      by (simp add: ticket_sched_def next_session_def lift_dispatch_def map_err_def map_ok_def res_bind_def execution_def turn_guards_def)
  next
    case False
    with lane_next [OF l] d have "d = sg_sessions s" by (auto split: result.splits option.splits)
    with False d assms show ?thesis
      by (cases r) (auto simp: ticket_sched_def next_session_def lift_dispatch_def map_err_def map_ok_def res_bind_def sched_ok_def lanes_def
        split: option.splits)
  qed
qed

lemma next_global_sched:
  assumes "sched_ok s tasks out"
  shows "ticket_sched tasks out (next_global s)"
proof -
  from assms have l: "lane_ok 1 (sg_global s) (out + handoff_guards (sg_handoff s))" by (simp add: sched_ok_def lanes_def)
  obtain r d where d: "try_next (sg_global s) = (r, d)" by force
  show ?thesis
  proof (cases "\<exists>dl. r = Ok (Some dl)")
    case True
    then obtain dl where dl: "r = Ok (Some dl)" ..
    with lane_next [OF l] d have n: "lane_ok 1 d (add_mset dl (out + handoff_guards (sg_handoff s)))" "sh_registry (dl_handle dl) = 1"
      by simp_all
    from assms lane_other [of dl 0 "sg_sessions s"] n have "sched_ok (s\<lparr>sg_global := d\<rparr>) tasks (out + {#dl#})"
      by (simp add: sched_ok_def lanes_def)
    with d dl show ?thesis
      by (simp add: ticket_sched_def next_global_def lift_dispatch_def map_err_def map_ok_def res_bind_def execution_def turn_guards_def)
  next
    case False
    with lane_next [OF l] d have "d = sg_global s" by (auto split: result.splits option.splits)
    with False d assms show ?thesis
      by (cases r) (auto simp: ticket_sched_def next_global_def lift_dispatch_def map_err_def map_ok_def res_bind_def sched_ok_def lanes_def
        split: option.splits)
  qed
qed

lemma pump_sched:
  assumes "sched_ok s tasks out"
  shows "ticket_sched tasks out (pump s)"
proof -
  have then_: "ticket_sched tasks out (call_then x (\<lambda>found s1. case found of Some input \<Rightarrow> (Ok (Some input), s1) | None \<Rightarrow> f s1))"
    if "ticket_sched tasks out x" "\<And>s. sched_ok s tasks out \<Longrightarrow> ticket_sched tasks out (f s)" for x f
    using that by (cases x; cases "fst x") (auto simp: ticket_sched_def call_then_def split: option.splits)
  have ok: "sched_ok (s\<lparr>sg_prefer_global := b\<rparr>) tasks out" for b
    using assms by (simp add: sched_ok_def lanes_def)
  show ?thesis
    by (cases "sg_prefer_global s") (auto simp: pump_def intro!: then_ next_session_sched next_global_sched ok)
qed

lemma handoff_guards_count:
  "(\<And>t. inside t h' = inside t h + of_bool (t = x)) \<Longrightarrow> handoff_guards h' = add_mset (ct_guard x) (handoff_guards h)"
proof -
  assume i: "\<And>t. inside t h' = inside t h + of_bool (t = x)"
  have "turns_in h' = add_mset x (turns_in h)" by (simp add: multiset_eq_iff count_turns_in i)
  then show ?thesis by (simp add: handoff_guards_def)
qed

lemma scheduling_handoff_sched:
  assumes "sched_ok s tasks (out + turn_guards x)"
  shows "sched_ok (snd (scheduling_handoff c x s)) tasks out"
proof (cases "scope_matches (xt_scope x) (oc_owner c) \<and> (\<exists>g. xt_lease x = Some (LocalLease g))")
  case True
  then obtain g where g: "xt_lease x = Some (LocalLease g)" by blast
  with assms have ok: "sched_ok s tasks (out + {#g#})" by (simp add: turn_guards_def)
  obtain bound where b: "linked (sg_handoff s) tasks bound" "maps_wf (sg_handoff s)" "ho_alive (sg_handoff s)"
    using sched_ok_linked [OF ok] .
  obtain r h where h: "handoff_completion c g (sg_handoff s) = (r, h)" by force
  note fin = completion_ok(1,2) [OF b(1,2), of c g, unfolded h snd_conv] completion_ok(3) [OF b(1,2), of _ c g, unfolded h snd_conv]
  have alive: "ho_alive h" using handoff_alive(2) [of c g "sg_handoff s"] b(3) h by simp
  have "handoff_guards h = add_mset g (handoff_guards (sg_handoff s))"
    using handoff_guards_count [OF fin(3)] by simp
  then have eq: "out + {#g#} + handoff_guards (sg_handoff s) = out + handoff_guards h" by simp
  note run = run_handoff_sched [where f = "handoff_completion c g", OF ok h fin(1,2) eq alive]
  obtain r' s' where "run_handoff (handoff_completion c g) s = (r', s')" by force
  with run(1) True g show ?thesis by (cases r') (simp_all add: scheduling_handoff_def)
next
  case False
  have "sched_ok (drop_execution x (fault_fail e s)) tasks out" for e
    by (rule drop_execution_sched) (simp add: assms)
  with False show ?thesis
    by (auto simp: scheduling_handoff_def Let_def split: option.splits execution_lease.splits)
qed

lemma discard_completion_sched:
  assumes "sched_ok s tasks out"
  shows "sched_ok (snd (discard_completion c s)) tasks out"
proof -
  obtain bound where b: "linked (sg_handoff s) tasks bound" "maps_wf (sg_handoff s)" using sched_ok_linked [OF assms] .
  have "sched_ok (snd (run_handoff (handoff_discard (oc_owner c) (oc_request_id c)) s)) tasks out"
    by (rule run_handoff_keeps(1) [where bound = bound and f = "handoff_discard (oc_owner c) (oc_request_id c)", OF assms discard_ok [OF b]]) simp
  then show ?thesis by (auto simp: discard_completion_def split: prod.splits result.splits)
qed

text \<open>Requests: what is registered appears among the tasks, and what fails is gone from them.\<close>

lemma register_no_panic: "fst (handoff_register owner h) \<noteq> Panic"
  by (simp add: handoff_register_def)

lemma prepare_rpc_sched:
  assumes "sched_ok s tasks out"
  shows "case prepare_rpc class owner handle s of
      (Ok p, s') \<Rightarrow> sched_ok s' (hm_insert (rn_allocation (pr_registration p)) (pr_registration p) tasks) out
    | (_, s') \<Rightarrow> sched_ok s' tasks out"
proof -
  obtain bound where b: "linked (sg_handoff s) tasks bound" "maps_wf (sg_handoff s)" "ho_alive (sg_handoff s)"
    using sched_ok_linked [OF assms] .
  obtain r h where h: "handoff_register owner (sg_handoff s) = (r, h)" by force
  have alive: "ho_alive h" using handoff_alive(1) [of owner "sg_handoff s"] b(3) h by simp
  have run: "sched_ok (snd (run_handoff (handoff_register owner) s))
      (case r of Ok x \<Rightarrow> hm_insert (rn_allocation x) x tasks | _ \<Rightarrow> tasks) out \<and> fst (run_handoff (handoff_register owner) s) = r"
  proof (cases r)
    case (Ok x)
    note reg = registered_ok [OF b(1,2) h [unfolded Ok] b(3)]
    have eq: "out + handoff_guards (sg_handoff s) = out + handoff_guards h"
      using turns_inI [of h "sg_handoff s", OF reg(3)] by (simp add: handoff_guards_def)
    from run_handoff_sched [where f = "handoff_register owner", OF assms h reg(1,2) eq alive] Ok show ?thesis by simp
  next
    case (Err e)
    then have "h = sg_handoff s" using h by (auto simp: handoff_register_def split: if_splits)
    with run_handoff_sched [where f = "handoff_register owner", OF assms h] b Err show ?thesis by simp
  next
    case Panic
    with register_no_panic [of owner "sg_handoff s"] h show ?thesis by simp
  qed
  obtain r' s' where s': "run_handoff (handoff_register owner) s = (r', s')" by force
  with run assms show ?thesis
    by (cases "try_reserve class owner (sg_ordered s)"; cases r)
       (auto simp: prepare_rpc_def Let_def try_in_def map_err_def split: option.splits)
qed

lemma drop_registered_sched:
  assumes "sched_ok s tasks out" "hm_get tasks a = Some r"
  shows "sched_ok (drop_registered r s) (hm_remove a tasks) out"
proof -
  obtain bound where b: "linked (sg_handoff s) tasks bound" "maps_wf (sg_handoff s)" using sched_ok_linked [OF assms(1)] .
  show ?thesis unfolding drop_registered_def
    by (rule run_handoff_keeps(1) [where bound = bound, OF assms(1)]) (simp_all add: drop_registration_ok [OF b assms(2)])
qed

lemma hm_remove_insert_get: "hm_get (hm_remove a (hm_insert a r tasks)) = hm_get (hm_remove a tasks)"
  by (auto simp: hm.get_del hm.get_put)

lemma sched_ok_tasks: "hm_get tasks' = hm_get tasks \<Longrightarrow> sched_ok s tasks out \<Longrightarrow> sched_ok s tasks' out"
  unfolding sched_ok_def using hand_ok_tasks [of tasks' tasks] by blast

lemma bind_no_panic: "fst (bind_registration rid r h) \<noteq> Panic"
  by (auto simp: bind_registration_def Let_def case_prod_beta split: option.splits bool.splits)

lemma send_registered_no_panic: "fst (run_ordered (send_registered method reservation assigned) s) \<noteq> Panic"
  by (simp add: run_ordered_def send_registered_def register_with_def)

lemma replay_session_no_panic: "replay_session p \<noteq> Panic"
  by (simp add: replay_session_def split: option.splits execution_scope.splits)

lemma run_bind_sched:
  assumes "sched_ok s tasks out" "hm_get tasks a = Some r" "run_bind rid r s = ((x, r'), s')"
  shows "sched_ok s' (hm_insert a r' tasks) out" "x \<noteq> Panic"
proof -
  obtain bound where b: "linked (sg_handoff s) tasks bound" "maps_wf (sg_handoff s)" "ho_alive (sg_handoff s)"
    using sched_ok_linked [OF assms(1)] .
  obtain y q h where h: "bind_registration rid r (sg_handoff s) = (y, q, h)" by (metis prod_cases3)
  let ?f = "\<lambda>h. case bind_registration rid r h of (x, r', h') \<Rightarrow> ((x, r'), h')"
  note bound' = bind_ok [OF b(1,2) assms(2) h]
  have f: "?f (sg_handoff s) = ((y, q), h)" by (simp add: h)
  have alive: "ho_alive h" using bind_alive [of rid r "sg_handoff s"] b(3) h by simp
  have "turns_in h = turns_in (sg_handoff s)" by (rule turns_inI) (use bound' in simp)
  then have eq: "out + handoff_guards (sg_handoff s) = out + handoff_guards h" by (simp add: handoff_guards_def)
  obtain t' where t: "linked h (hm_insert a q tasks) t'" "maps_wf h" using bound' by blast
  from run_handoff_sched [where f = ?f, OF assms(1) f t eq alive] assms(3)
  show "sched_ok s' (hm_insert a r' tasks) out" "x \<noteq> Panic"
    using bind_no_panic [of rid r "sg_handoff s"] h by (simp_all add: run_bind_def)
qed

lemma bind_rpc_sched:
  assumes "sched_ok s tasks out" "hm_get tasks a = Some (pr_registration p)"
  shows "case bind_rpc rid p replay s of
      (Ok pn, s') \<Rightarrow> sched_ok s' (hm_insert a (pn_registration pn) tasks) out
    | (_, s') \<Rightarrow> sched_ok s' (hm_remove a tasks) out"
proof -
  obtain x r' s' where b: "run_bind rid (pr_registration p) s = ((x, r'), s')" by (metis prod.collapse)
  note ok = run_bind_sched [OF assms b]
  have "sched_ok (drop_registered r' (drop_replay q (fault_fail e s'))) (hm_remove a (hm_insert a r' tasks)) out" for q e
    by (rule drop_registered_sched) (use ok(1) in \<open>simp_all add: hm.get_put\<close>)
  from sched_ok_tasks [OF hm_remove_insert_get [symmetric] this] ok b show ?thesis
    by (cases x) (simp_all add: bind_rpc_def)
qed

lemma install_replay_same [simp]: "same_lanes s (snd (install_replay sid replay rid s))"
  by (simp add: install_replay_def same_lanes_def split: option.splits)

lemma send_rpc_sched:
  assumes "sched_ok s tasks out" "hm_get tasks a = Some (pr_registration p)"
  shows "case send_rpc name assigned p s of
      (Ok pn, s') \<Rightarrow> sched_ok s' (hm_insert a (pn_registration pn) tasks) out
    | (_, s') \<Rightarrow> sched_ok s' (hm_remove a tasks) out"
proof -
  note drop = drop_registered_sched [OF _ assms(2)]
  show ?thesis
  proof (cases "replay_session p")
    case (Ok sid)
    show ?thesis
    proof (cases "Option.bind sid (hm_get (sg_replays s)) = None")
      case True
      obtain r1 s1 where s1: "run_ordered (send_registered name (pr_reservation p) assigned) s = (r1, s1)" by force
      have ok1: "sched_ok s1 tasks out"
        using same_lanes_ordered [THEN sched_ok_cong, of "send_registered name (pr_reservation p) assigned" s tasks out] s1 assms(1) by simp
      show ?thesis
      proof (cases r1)
        case r1: (Ok rid)
        obtain replay s2 where s2: "install_replay sid (pr_replay p) rid s1 = (replay, s2)" by force
        with install_replay_same [of s1 sid "pr_replay p" rid] have "same_lanes s1 s2" by simp
        from sched_ok_cong [OF this, of tasks out] ok1 have "sched_ok s2 tasks out" by blast
        from bind_rpc_sched [OF this assms(2), of rid replay] s1 s2 r1 Ok True show ?thesis
          by (simp add: send_rpc_def Let_def)
      next
        case (Err e)
        with s1 Ok True drop [OF ok1] show ?thesis by (simp add: send_rpc_def Let_def)
      next
        case Panic
        with s1 send_registered_no_panic [of name "pr_reservation p" assigned s] show ?thesis by simp
      qed
    next
      case False
      with Ok drop [OF assms(1)] show ?thesis by (simp add: send_rpc_def Let_def)
    qed
  next
    case (Err e)
    with drop [OF assms(1)] show ?thesis by (simp add: send_rpc_def Let_def)
  qed (use replay_session_no_panic in blast)
qed

lemma complete_no_panic: "fst (run_ordered (complete_without_response bytes_of rid e) s) \<noteq> Panic"
  by (auto simp: run_ordered_def complete_without_response_def complete_request_def Let_def split: option.splits prod.splits)

lemma await_response_sched:
  assumes "sched_ok s tasks out" "hm_get tasks a = Some (pn_registration p)"
  shows "case await_response E r p s of
      (Ok pn, s') \<Rightarrow> sched_ok s' (hm_insert a (pn_registration pn) tasks) out
    | (_, s') \<Rightarrow> sched_ok s' (hm_remove a tasks) out"
proof -
  have same: "hm_get (hm_insert a (pn_registration p) tasks) = hm_get tasks" using assms(2) by (auto simp: hm.get_put)
  have ok1: "sched_ok (drop_replay (pn_replay p) s) tasks out" using assms(1) by simp
  show ?thesis
  proof (cases r)
    case (Inr v)
    with sched_ok_tasks [OF same ok1] show ?thesis by (simp add: await_response_def Let_def)
  next
    case (Inl e)
    obtain r2 s2 where s2: "run_ordered (complete_without_response (response_bytes E) (pn_request_id p) e) (drop_replay (pn_replay p) s) = (r2, s2)"
      by force
    from same_lanes_ordered [THEN sched_ok_cong, of "complete_without_response (response_bytes E) (pn_request_id p) e"
        "drop_replay (pn_replay p) s" tasks out] s2 ok1
    have ok2: "sched_ok s2 tasks out" by simp
    from drop_registered_sched [OF _ assms(2)] ok2
    have "sched_ok (drop_registered (pn_registration p) (fault_fail x s2)) (hm_remove a tasks) out" for x by simp
    with sched_ok_tasks [OF same ok2] s2 Inl complete_no_panic [of "response_bytes E" "pn_request_id p" e "drop_replay (pn_replay p) s"]
    show ?thesis by (cases r2) (simp_all add: await_response_def Let_def)
  qed
qed

lemma await_turn_sched:
  assumes "sched_ok s tasks out" "hm_get tasks a = Some (pn_registration p)"
  shows "case await_turn p s of
      (None, s') \<Rightarrow> sched_ok s' tasks out
    | (Some (Ok (_, turn)), s') \<Rightarrow> sched_ok s' (hm_remove a tasks) (out + turn_guards turn)
    | (Some _, s') \<Rightarrow> sched_ok s' (hm_remove a tasks) out"
proof -
  obtain bound where b: "linked (sg_handoff s) tasks bound" "maps_wf (sg_handoff s)" "ho_alive (sg_handoff s)"
    using sched_ok_linked [OF assms(1)] .
  obtain res h where h: "wait_registration (pn_registration p) (sg_handoff s) = (res, h)" by force
  note wait = wait_ok [OF b(1,2) assms(2) h]
  have alive: "ho_alive h" using wait_alive [of "pn_registration p" "sg_handoff s"] b(3) h by simp
  obtain res' s' where s': "run_handoff (wait_registration (pn_registration p)) s = (res', s')" by force
  note run = run_handoff_sched [where f = "wait_registration (pn_registration p)", OF assms(1) h wait(1,2) _ alive, unfolded s' fst_conv snd_conv]
  show ?thesis
  proof (cases "\<exists>t. res = Some (Ok t)")
    case True
    then obtain t where t: "res = Some (Ok t)" ..
    with wait(3) have "inside x (sg_handoff s) = inside x h + of_bool (x = t)" for x by (cases "x = t") (simp_all add: eq_commute)
    from handoff_guards_count [OF this]
    have "out + handoff_guards (sg_handoff s) = (out + {#ct_guard t#}) + handoff_guards h" by simp
    from run [OF this] t s' show ?thesis by (simp add: await_turn_def turn_guards_def Let_def)
  next
    case False
    have "turns_in h = turns_in (sg_handoff s)"
      by (rule turns_inI) (use wait(3) False in \<open>auto split: option.splits result.splits\<close>)
    then have "out + handoff_guards (sg_handoff s) = out + handoff_guards h" by (simp add: handoff_guards_def)
    from run [OF this] False s' show ?thesis
      by (cases res'; cases "the res'") (auto simp: await_turn_def)
  qed
qed

lemma scheduling_close_sched:
  assumes "sched_ok s tasks out"
  shows "sched_ok (scheduling_close E s) tasks out"
proof -
  let ?s0 = "s\<lparr>sg_cancelled := True, sg_closed := True\<rparr>"
  let ?s1 = "discard_replays ?s0"
  let ?s2 = "reject_queue (?s1\<lparr>sg_ordered := (sg_ordered ?s1)\<lparr>oi_closed := True\<rparr>\<rparr>)"
  have "same_lanes s ?s0" "same_lanes ?s1 (?s1\<lparr>sg_ordered := (sg_ordered ?s1)\<lparr>oi_closed := True\<rparr>\<rparr>)" by (simp_all add: same_lanes_def)
  then have "same_lanes s ?s2"
    by (meson same_lanes_trans same_lanes_discard_replays same_lanes_reject_queue)
  from sched_ok_cong [OF this] assms have ok2: "sched_ok ?s2 tasks out" by blast
  obtain bound where b: "linked (sg_handoff ?s2) tasks bound" "maps_wf (sg_handoff ?s2)" using sched_ok_linked [OF ok2] .
  let ?f = "\<lambda>h. ((), handoff_close h)"
  have "sched_ok (snd (run_handoff ?f ?s2)) tasks out"
    by (rule run_handoff_keeps(1) [where bound = bound and f = ?f, OF ok2])
       (use cleared_ok [OF b disjI1 [OF refl]] in \<open>simp_all add: handoff_close_def\<close>)
  then have ok3: "sched_ok (settle_turns (?s2\<lparr>sg_handoff := handoff_close (sg_handoff ?s2)\<rparr>)) tasks out" (is "sched_ok ?s3 _ _")
    by (simp add: run_handoff_def)
  have ok4: "sched_ok (close_lane E sg_sessions (\<lambda>d s. s\<lparr>sg_sessions := d\<rparr>) ?s3) tasks out" (is "sched_ok ?s4 _ _")
    unfolding close_lane_def using sched_ok_sessions [OF ok3 lane_close] by simp
  have "sched_ok (close_lane E sg_global (\<lambda>d s. s\<lparr>sg_global := d\<rparr>) ?s4) tasks out"
    unfolding close_lane_def [of E sg_global] using sched_ok_global [OF ok4 lane_close] by simp
  then show ?thesis by (simp add: scheduling_close_def Let_def)
qed

lemma tasks_of_put: "hm_get (tasks_of (hm_insert a x rpcs)) = hm_get (hm_insert a (registration_of x) (tasks_of rpcs))"
  by (auto simp: tasks_of_get hm.get_put)

lemma tasks_of_del: "hm_get (tasks_of (hm_remove a rpcs)) = hm_get (hm_remove a (tasks_of rpcs))"
  by (auto simp: tasks_of_get hm.get_del)

lemma world_ok_same: "world_ok w \<Longrightarrow> same_lanes (sw_sched w) s \<Longrightarrow> world_ok (w\<lparr>sw_sched := s\<rparr>)"
  unfolding world_ok_sched using sched_ok_cong [of "sw_sched w" s] by simp

lemma world_ok_sched_to:
  "world_ok w \<Longrightarrow> (\<And>tasks out. sched_ok (sw_sched w) tasks out \<Longrightarrow> sched_ok s tasks out) \<Longrightarrow> world_ok (w\<lparr>sw_sched := s\<rparr>)"
  by (simp add: world_ok_sched)

lemma world_ok_add_ticket:
  assumes "world_ok w" "sched_ok s (tasks_of rpcs) (ticket_guards (sw_tickets w) + turn_guards (snd t))"
  shows "world_ok (add_ticket t (w\<lparr>sw_sched := s, sw_rpcs := rpcs\<rparr>))"
proof -
  have "hm_get (sw_tickets w) (sw_next w) = None"
    using assms(1) by (cases "hm_get (sw_tickets w) (sw_next w)") (auto simp: world_ok_def)
  with assms show ?thesis
    by (auto simp: world_ok_sched add_ticket_def ticket_guards_add hm.wf_put hm.get_put less_Suc_eq split: if_splits)
qed

lemma world_ok_on_ticket:
  assumes "world_ok w" "\<And>t. sched_ok (sw_sched w) (tasks_of (sw_rpcs w)) (ticket_guards (hm_remove k (sw_tickets w)) + turn_guards (snd t)) \<Longrightarrow>
    sched_ok (f t) (tasks_of (sw_rpcs w)) (ticket_guards (hm_remove k (sw_tickets w)))"
  shows "world_ok (on_ticket k f w)"
proof (cases "hm_get (sw_tickets w) k")
  case (Some t)
  let ?T = "hm_remove k (sw_tickets w)"
  have wf: "hm_wf (sw_tickets w)" and next_key: "\<And>k t. hm_get (sw_tickets w) k = Some t \<Longrightarrow> k < sw_next w"
    and ok: "sched_ok (sw_sched w) (tasks_of (sw_rpcs w)) (ticket_guards (sw_tickets w))"
    using assms(1) unfolding world_ok_sched by simp_all
  from assms(2) [of t] ok ticket_guards_del [OF wf Some]
  have "sched_ok (f t) (tasks_of (sw_rpcs w)) (ticket_guards ?T)" by simp
  moreover have "k' < sw_next w" if "hm_get ?T k' = Some t'" for k' t'
    using that next_key by (simp add: hm.get_del split: if_splits)
  ultimately show ?thesis using Some hm.wf_del [OF wf]
    by (simp add: world_ok_sched on_ticket_def)
qed (use assms(1) in \<open>simp add: on_ticket_def\<close>)

lemma world_ok_rpc_step:
  assumes "world_ok w"
    "case x of
       (Ok p, s) \<Rightarrow> sched_ok s (hm_insert a (pn_registration p) (tasks_of (sw_rpcs w))) (ticket_guards (sw_tickets w))
     | (_, s) \<Rightarrow> sched_ok s (hm_remove a (tasks_of (sw_rpcs w))) (ticket_guards (sw_tickets w))"
  shows "world_ok (rpc_step a x w)"
proof -
  obtain r s where x: "x = (r, s)" by force
  show ?thesis
  proof (cases r)
    case (Ok p)
    have "hm_get (tasks_of (hm_insert a (Pending p) (sw_rpcs w))) = hm_get (hm_insert a (pn_registration p) (tasks_of (sw_rpcs w)))"
      by (simp add: tasks_of_put registration_of_def)
    from sched_ok_tasks [OF this] assms x Ok show ?thesis by (simp add: world_ok_sched rpc_step_def)
  qed (use assms x sched_ok_tasks [OF tasks_of_del] in \<open>simp_all add: world_ok_sched rpc_step_def\<close>)
qed

lemma world_ok_do:
  assumes ok: "world_ok w"
  shows "world_ok (sched_do P x w)"
proof -
  obtain E parse where P: "P = (E, parse)" by force
  have task: "hm_get (tasks_of (sw_rpcs w)) a = Some (registration_of r)" if "hm_get (sw_rpcs w) a = Some r" for a r
    using that by (simp add: tasks_of_get)
  have s: "sched_ok (sw_sched w) (tasks_of (sw_rpcs w)) (ticket_guards (sw_tickets w))" using ok by (simp add: world_ok_sched)
  note sched_to = world_ok_sched_to [OF ok] and gone = sched_ok_tasks [OF tasks_of_del]
  show ?thesis
  proof (cases x)
    case (OpRoute h route lease)
    have "sched_ok s' tasks out \<Longrightarrow> sched_ok (route_item h i s') tasks out" for i s' tasks out
      by (cases h) (simp_all add: route_item_def route_session_sched route_global_sched)
    with OpRoute P show ?thesis by (simp add: sched_to take_item_sched)
  next
    case OpUse
    with P show ?thesis by (simp add: sched_to take_item_sched)
  next
    case OpPump
    obtain r s' where p: "pump (sw_sched w) = (r, s')" by force
    have same: "w\<lparr>sw_sched := s'\<rparr> = w\<lparr>sw_sched := s', sw_rpcs := sw_rpcs w\<rparr>" by simp
    from pump_sched [OF s] p
    have "sched_ok s' (tasks_of (sw_rpcs w)) (ticket_guards (sw_tickets w) + (case r of Ok (Some i) \<Rightarrow> turn_guards (si_turn i) | _ \<Rightarrow> {#}))"
      by (simp add: ticket_sched_def)
    with ok OpPump P p same show ?thesis
      by (auto simp: world_ok_sched [of "w\<lparr>sw_sched := s'\<rparr>"] world_ok_sched [of w] split: result.splits option.splits
          intro!: world_ok_add_ticket [OF ok, of s' "sw_rpcs w", simplified])
  next
    case (OpHandoff k)
    with P show ?thesis
      by (auto intro!: world_ok_on_ticket [OF ok] scheduling_handoff_sched drop_execution_sched split: option.splits bridge_ingress.splits)
  next
    case (OpDropTicket k)
    with P show ?thesis by (auto intro!: world_ok_on_ticket [OF ok] drop_execution_sched)
  next
    case (OpPrepare cls owner h replay)
    obtain r s' where p: "prepare_rpc cls owner h (sw_sched w) = (r, s')" by force
    note prep = prepare_rpc_sched [OF s, of cls owner h, unfolded p]
    show ?thesis
    proof (cases r)
      case (Ok q)
      have "hm_get (tasks_of (hm_insert a (Prepared (with_replay replay q)) (sw_rpcs w))) = hm_get (hm_insert a (pr_registration q) (tasks_of (sw_rpcs w)))" for a
        by (simp add: tasks_of_put registration_of_def with_replay_def)
      from sched_ok_tasks [OF this] prep ok OpPrepare P p Ok show ?thesis by (simp add: world_ok_sched)
    qed (use prep ok OpPrepare P p in \<open>simp_all add: world_ok_sched\<close>)
  next
    case (OpSend a name assigned)
    show ?thesis
    proof (cases "\<exists>p. hm_get (sw_rpcs w) a = Some (Prepared p)")
      case True
      then obtain p where p: "hm_get (sw_rpcs w) a = Some (Prepared p)" ..
      from task [OF this] have "hm_get (tasks_of (sw_rpcs w)) a = Some (pr_registration p)" by (simp add: registration_of_def)
      from world_ok_rpc_step [OF ok send_rpc_sched [OF s this]] P OpSend p show ?thesis by (simp add: on_prepared_def)
    qed (use ok OpSend P in \<open>auto simp: on_prepared_def split: option.splits rpc.splits\<close>)
  next
    case (OpResponse a r)
    show ?thesis
    proof (cases "\<exists>p. hm_get (sw_rpcs w) a = Some (Pending p)")
      case True
      then obtain p where p: "hm_get (sw_rpcs w) a = Some (Pending p)" ..
      from task [OF this] have "hm_get (tasks_of (sw_rpcs w)) a = Some (pn_registration p)" by (simp add: registration_of_def)
      from world_ok_rpc_step [OF ok await_response_sched [OF s this]] P OpResponse p show ?thesis by (simp add: on_pending_def)
    qed (use ok OpResponse P in \<open>auto simp: on_pending_def split: option.splits rpc.splits\<close>)
  next
    case (OpTurn a)
    show ?thesis
    proof (cases "\<exists>p. hm_get (sw_rpcs w) a = Some (Pending p)")
      case True
      then obtain p where p: "hm_get (sw_rpcs w) a = Some (Pending p)" ..
      from task [OF this] have "hm_get (tasks_of (sw_rpcs w)) a = Some (pn_registration p)" by (simp add: registration_of_def)
      note wait = await_turn_sched [OF s this]
      obtain r s' where r: "await_turn p (sw_sched w) = (r, s')" by force
      have do_it: "sched_do P x w = (case (r, s') of
          (None, s) \<Rightarrow> w\<lparr>sw_sched := s\<rparr>
        | (Some (Ok (_, turn)), s) \<Rightarrow> add_ticket (None, turn) (w\<lparr>sw_sched := s, sw_rpcs := hm_remove a (sw_rpcs w)\<rparr>)
        | (Some _, s) \<Rightarrow> w\<lparr>sw_sched := s, sw_rpcs := hm_remove a (sw_rpcs w)\<rparr>)"
        using P OpTurn p r by (simp add: on_pending_def)
      show ?thesis
      proof (cases "\<exists>c turn. r = Some (Ok (c, turn))")
        case True
        then obtain c turn where t: "r = Some (Ok (c, turn))" by blast
        with wait r have "sched_ok s' (hm_remove a (tasks_of (sw_rpcs w))) (ticket_guards (sw_tickets w) + turn_guards (snd (None :: bridge_ingress option, turn)))"
          by simp
        from world_ok_add_ticket [OF ok gone [OF this]] do_it t show ?thesis by simp
      next
        case False
        show ?thesis
        proof (cases r)
          case None
          with wait r ok do_it show ?thesis by (simp add: world_ok_sched)
        next
          case (Some q)
          with False wait r have "sched_ok s' (hm_remove a (tasks_of (sw_rpcs w))) (ticket_guards (sw_tickets w))"
            by (cases q) auto
          from gone [OF this] ok do_it Some False show ?thesis by (cases q) (auto simp: world_ok_sched)
        qed
      qed
    qed (use ok OpTurn P in \<open>auto simp: on_pending_def split: option.splits rpc.splits\<close>)
  next
    case (OpAbandon a)
    show ?thesis
    proof (cases "hm_get (sw_rpcs w) a")
      case (Some r)
      note drop = drop_registered_sched [OF s task [OF Some]]
      show ?thesis
      proof (cases r)
        case (Prepared p)
        with gone drop ok OpAbandon P Some show ?thesis by (simp add: world_ok_sched registration_of_def)
      next
        case (Pending p)
        with gone drop ok OpAbandon P Some show ?thesis by (simp add: world_ok_sched registration_of_def drop_pending_def)
      qed
    qed (use ok OpAbandon P in simp)
  qed (use P ok sched_to world_ok_same [OF ok] register_session_sched remove_session_sched discard_completion_sched scheduling_close_sched in simp_all)
qed

interpretation guards: preserving "sched_do P" world_ok
  by unfold_locales (rule world_ok_do)

definition sched_run :: "env \<Rightarrow> (json \<Rightarrow> (string, json) result) \<Rightarrow> string \<Rightarrow> sched_op list \<Rightarrow> sched_world option" where
  "sched_run E parse epoch ops = map_option (fold (sched_do (E, parse)) ops) (sched_start epoch)"

lemma register_first:
  fixes epoch :: string and n :: nat
  defines "d \<equiv> dispatch_new epoch n"
  shows "register_queue sid inc d = (Ok (fresh_handle sid inc d), replaced (fresh_handle sid inc d) d)"
proof -
  have "\<not> dp_closed d" "dp_next_allocation d = 0" "hm_get (dp_sessions d) sid = None"
    by (simp_all add: d_def dispatch_new_def hm.get_nil)
  then show ?thesis
    by (simp add: register_queue_def Let_def fresh_handle_def replaced_def fresh_queue_def drop_queue_def old_queue_def release_all_def
        try_in_def)
qed

lemma lane_ok_start: "held d [] \<Longrightarrow> dp_identity d = n \<Longrightarrow> lane_ok n d {#}"
  by (auto simp: lane_ok_def)

lemma sched_start_ok: "\<exists>w. sched_start epoch = Some w \<and> world_ok w"
proof -
  let ?d = "dispatch_new epoch 1 :: ingress_item dispatch"
  let ?h = "fresh_handle coordinator_id 1 ?d"
  have "dp_next_allocation ?d \<noteq> - 1" by (simp add: dispatch_new_def)
  from replaced_held [OF held_new this refl] have "held (replaced ?h ?d) []" .
  then have lanes: "lane_ok 1 (replaced ?h ?d) {#}" "lane_ok 0 (dispatch_new epoch 0 :: ingress_item dispatch) {#}"
    using held_new by (auto intro!: lane_ok_start simp: replaced_def) (simp_all add: dispatch_new_def)
  have "turns_in (handoff_new :: delivery_guard handoff) = {#}" by (simp add: turns_in_def handoff_new_def List.map_filter_simps)
  moreover have "hand_ok (handoff_new :: delivery_guard handoff) []"
    by (auto simp: hand_ok_def handoff_new_def maps_wf_def linked_def hm_wf_def hm.get_nil intro!: exI [of _ "[]"])
  ultimately show ?thesis using lanes
    by (simp add: sched_start_def scheduling_new_def register_first world_ok_def lanes_def guards_out_def handoff_guards_def
        ticket_guards_def tasks_of_def hm.get_nil hm.wf_nil)
qed

lemma sched_run_ok: "sched_run E parse epoch ops = Some w \<Longrightarrow> world_ok w"
  using sched_start_ok [of epoch] guards.run_keeps [of _ "(E, parse)" ops] by (auto simp: sched_run_def)

section \<open>What a run promises\<close>

lemma lane_busy:
  assumes "lane_ok n d out"
  shows "image_mset allocation_of (of_lane n out) = mset_set (set (dp_busy d))"
proof -
  from assms obtain xs where xs: "mset xs = of_lane n out" "distinct (map allocation_of xs)" "set (dp_busy d) = allocation_of ` set xs"
    by (auto simp: lane_ok_def held_def guards_ok_def)
  then have "image_mset allocation_of (of_lane n out) = mset (map allocation_of xs)" by (metis mset_map)
  also have "\<dots> = mset_set (set (map allocation_of xs))" by (rule mset_set_set [OF xs(2), symmetric])
  finally show ?thesis using xs(3) by simp
qed

lemma world_lanes:
  assumes "world_ok w"
  shows "lane_ok 0 (sg_sessions (sw_sched w)) (guards_out w)" "lane_ok 1 (sg_global (sw_sched w)) (guards_out w)"
    "\<forall>g \<in># guards_out w. sh_registry (dl_handle g) \<in> {0, 1}"
  using assms by (simp_all add: world_ok_def lanes_def)

text \<open>
  (C32) A delivery guard has one holder. At any point of any run, whatever the Agent sends, whichever
  handles and names the callers present and whatever they drop or abandon, the guards among the tickets
  that are out and the turns on their way through the handoff are those of the busy queues, one each, in
  the lane of the sessions and in the lane of the connection: no busy queue is without a holder that
  will free it, and no two holders work for one queue.
\<close>

theorem guards_have_one_holder:
  "\<exists>w. sched_run E parse epoch ops = Some w \<and>
     image_mset allocation_of (of_lane 0 (guards_out w)) = mset_set (set (dp_busy (sg_sessions (sw_sched w)))) \<and>
     image_mset allocation_of (of_lane 1 (guards_out w)) = mset_set (set (dp_busy (sg_global (sw_sched w)))) \<and>
     size (guards_out w) = card (set (dp_busy (sg_sessions (sw_sched w)))) + card (set (dp_busy (sg_global (sw_sched w))))"
proof -
  obtain w where w: "sched_run E parse epoch ops = Some w" using sched_start_ok [of epoch] by (auto simp: sched_run_def)
  note l = world_lanes [OF sched_run_ok [OF w]]
  note busy = lane_busy [OF l(1)] lane_busy [OF l(2)]
  have "guards_out w = of_lane 0 (guards_out w) + of_lane 1 (guards_out w)"
  proof -
    have "filter_mset (\<lambda>g. sh_registry (dl_handle g) \<noteq> 0) (guards_out w) = of_lane 1 (guards_out w)"
      unfolding of_lane_def using l(3) by (intro filter_mset_cong0) auto
    then show ?thesis using multiset_partition [of "guards_out w" "\<lambda>g. sh_registry (dl_handle g) = 0"] by (simp add: of_lane_def)
  qed
  then have "size (guards_out w) = size (image_mset allocation_of (of_lane 0 (guards_out w))) + size (image_mset allocation_of (of_lane 1 (guards_out w)))"
    by (metis size_image_mset size_union)
  with w busy show ?thesis by simp
qed

lemma sum_by_class: "length xs = items_in Ordinary xs + items_in Reserved xs"
proof (induction xs)
  case (Cons x xs)
  then show ?case by (cases "dl_class x") simp_all
qed simp

lemma all_queued_items: "queued_items c d = items_in c (all_queued d)"
  by (simp add: queued_items_def all_queued_def comp_def)

lemma counted_nothing: "n < 2 ^ 64 \<Longrightarrow> (of_nat n = (0 :: u64)) = (n = 0)"
  by (simp add: word_of_nat_eq_0_iff nat_dvd_not_less) (auto dest: nat_dvd_not_less)

lemma lane_work:
  assumes "lane_ok n d out" "length (all_queued d) + size (of_lane n out) < 2 ^ 64"
  shows "list_ex (\<lambda>c. qu_items (pool_get c (dp_global d)) \<noteq> 0) [Ordinary, Reserved] \<longleftrightarrow> all_queued d \<noteq> [] \<or> of_lane n out \<noteq> {#}"
proof -
  from assms(1) obtain xs where xs: "mset xs = of_lane n out" "accounts_ok d xs" by (auto simp: lane_ok_def held_def)
  let ?n = "\<lambda>c. items_in c (all_queued d) + items_in c xs"
  have items: "qu_items (pool_get c (dp_global d)) = of_nat (?n c)" for c
    using xs(2) by (simp add: accounts_ok_def all_queued_items)
  have size: "size (of_lane n out) = length xs" using xs(1) by (metis size_mset)
  have total: "?n Ordinary + ?n Reserved = length (all_queued d) + length xs"
    using sum_by_class [of "all_queued d"] sum_by_class [of xs] by simp
  have "?n c \<le> ?n Ordinary + ?n Reserved" for c by (cases c) simp_all
  then have small: "?n c < 2 ^ 64" for c
    using assms(2) unfolding size total [symmetric] by (rule le_less_trans)
  have zero: "(qu_items (pool_get c (dp_global d)) \<noteq> 0) = (?n c \<noteq> 0)" for c
    unfolding items by (simp only: counted_nothing [OF small])
  have "list_ex (\<lambda>c. qu_items (pool_get c (dp_global d)) \<noteq> 0) [Ordinary, Reserved] \<longleftrightarrow> ?n Ordinary \<noteq> 0 \<or> ?n Reserved \<noteq> 0"
    by (simp only: list_ex_iff list.set bex_simps zero simp_thms)
  also have "\<dots> \<longleftrightarrow> ?n Ordinary + ?n Reserved \<noteq> 0" by (simp only: add_is_0 de_Morgan_conj)
  also have "\<dots> \<longleftrightarrow> length (all_queued d) \<noteq> 0 \<or> size (of_lane n out) \<noteq> 0" unfolding total size by simp
  finally show ?thesis by simp
qed

text \<open>
  (C33) The test at the end of a connection is exact. At any point of any run with less than 2^64
  deliveries queued and out, the scheduler reports local work just when an event is in the shared queue
  or in the queue of a session or of the connection, or a guard is out: an event that is worked on, or a
  completion that is on its way to its task, counts; a request that only waits for the Agent does not.
\<close>

theorem local_work_is_exact:
  assumes "sched_run E parse epoch ops = Some w" "s = sw_sched w"
    "length (all_queued (sg_sessions s)) + length (all_queued (sg_global s)) + size (guards_out w) < 2 ^ 64"
  shows "has_local_work s \<longleftrightarrow>
     sg_queue s \<noteq> [] \<or> all_queued (sg_sessions s) \<noteq> [] \<or> all_queued (sg_global s) \<noteq> [] \<or> guards_out w \<noteq> {#}"
proof -
  note l = world_lanes [OF sched_run_ok [OF assms(1)], folded assms(2)]
  have sub: "size (of_lane n (guards_out w)) \<le> size (guards_out w)" for n by (simp add: of_lane_def size_filter_mset_lesseq)
  have "guards_out w \<noteq> {#} \<longleftrightarrow> of_lane 0 (guards_out w) \<noteq> {#} \<or> of_lane 1 (guards_out w) \<noteq> {#}"
  proof
    assume "guards_out w \<noteq> {#}"
    then obtain g where g: "g \<in># guards_out w" using multiset_nonemptyE by blast
    with l(3) have "g \<in># of_lane 0 (guards_out w) \<or> g \<in># of_lane 1 (guards_out w)" by (auto simp: of_lane_def)
    then show "of_lane 0 (guards_out w) \<noteq> {#} \<or> of_lane 1 (guards_out w) \<noteq> {#}" by auto
  qed (auto simp: of_lane_def)
  moreover have "has_local_work s \<longleftrightarrow> sg_queue s \<noteq> [] \<or>
      list_ex (\<lambda>c. qu_items (pool_get c (dp_global (sg_sessions s))) \<noteq> 0) [Ordinary, Reserved] \<or>
      list_ex (\<lambda>c. qu_items (pool_get c (dp_global (sg_global s))) \<noteq> 0) [Ordinary, Reserved]"
    by (auto simp: has_local_work_def)
  ultimately show ?thesis
    using lane_work [OF l(1)] lane_work [OF l(2)] assms(3) sub [of 0] sub [of 1] by auto
qed

text \<open>A lane that gives nothing has only busy queues; an open lane that is not busy gives something.\<close>

lemma lane_blocked:
  assumes "lane_ok n d out" "fst (try_next d) = Ok None" "hm_get (dp_sessions d) sid = Some q" "sq_queue q \<noteq> []"
  shows "sh_allocation (sq_handle q) \<in># image_mset allocation_of (of_lane n out)"
proof -
  from assms(1) have d: "dispatch_ok d" by (auto simp: lane_ok_def held_def)
  from assms(2) have "list_all (is_busy d) (dp_ready d)" by (cases rule: try_next_cases [OF d]) simp_all
  moreover have "sq_handle q \<in> set (dp_ready d)"
    using ready_iff [OF d, of "sq_handle q"] queue_okD(1) [OF d assms(3)] assms(3,4) by simp
  ultimately show ?thesis by (simp add: lane_busy [OF assms(1)] list_all_iff is_busy_def)
qed

lemma lane_gives: "lane_ok n d out \<Longrightarrow> dp_closed d = False \<Longrightarrow> \<exists>x d'. try_next d = (Ok x, d') \<and> (x = None \<longrightarrow> d' = d)"
  by (cases d rule: try_next_cases) (auto simp: lane_ok_def held_def)

lemma pump_idle_lanes:
  assumes "fst (pump s) = Ok None" "lane_ok 0 (sg_sessions s) out" "lane_ok 1 (sg_global s) out"
  shows "fst (try_next (sg_sessions s)) = Ok None \<and> fst (try_next (sg_global s)) = Ok None"
proof -
  have d: "dispatch_ok (sg_sessions s)" "dispatch_ok (sg_global s)" using assms(2,3) by (auto simp: lane_ok_def held_def)
  show ?thesis
    by (cases rule: try_next_cases [OF d(1)]; cases rule: try_next_cases [OF d(2)])
       (use assms(1) in \<open>auto simp: pump_def Let_def call_then_def next_session_def next_global_def lift_dispatch_def map_ok_def
          map_err_def split: if_splits\<close>)
qed

text \<open>
  The pump is idle only when nothing can run. At any point of any run, if it finds nothing to do,
  then every session, and the connection, with an event in its queue has a delivery that is worked on or
  on its way to its task: none is passed over, whichever lane is preferred.
\<close>

theorem pump_idles_only_when_blocked:
  assumes "sched_run E parse epoch ops = Some w" "fst (pump (sw_sched w)) = Ok None"
    "d \<in> {sg_sessions (sw_sched w), sg_global (sw_sched w)}" "hm_get (dp_sessions d) sid = Some q" "sq_queue q \<noteq> []"
  shows "\<exists>g. g \<in># guards_out w \<and> sh_registry (dl_handle g) = dp_identity d \<and> allocation_of g = sh_allocation (sq_handle q)"
proof -
  note l = world_lanes [OF sched_run_ok [OF assms(1)]]
  from pump_idle_lanes [OF assms(2) l(1,2)] assms(3) l(1,2)
  have "fst (try_next d) = Ok None" "lane_ok (dp_identity d) d (guards_out w)" by (auto simp: lane_ok_def)
  from lane_blocked [OF this(2,1) assms(4,5)] show ?thesis by (auto simp: of_lane_def)
qed

lemma hm_get_none: "(\<And>k. hm_get m k = None) \<Longrightarrow> m = []"
  by (cases m) (fastforce simp: hm_get_def split: if_splits)+

lemma nobody_holds:
  assumes "world_ok w" "sw_tickets w = []" "sw_rpcs w = []"
  shows "guards_out w = {#}"
proof -
  let ?h = "sg_handoff (sw_sched w)"
  from assms obtain bound where h: "linked ?h [] bound" "ho_dropped ?h = []" by (auto simp: world_ok_def hand_ok_def tasks_of_def)
  have "hm_get (ho_receivers ?h) a = None" for a
    using h(1) by (cases "hm_get (ho_receivers ?h) a") (auto simp: linked_def receiver_ok_def hm.get_nil)
  moreover have "hm_get (ho_entries ?h) owner = None" for owner
    using h(1) by (cases "hm_get (ho_entries ?h) owner") (auto simp: linked_def entry_ok_def hm.get_nil)
  ultimately have "ho_receivers ?h = []" "ho_entries ?h = []" by (blast intro: hm_get_none)+
  with h(2) assms(2) show ?thesis
    by (simp add: guards_out_def ticket_guards_def handoff_guards_def turns_in_def List.map_filter_simps)
qed


text \<open>A session with two events: both are routed, then one of them is worked on.\<close>

definition sample_handle :: session_handle where
  "sample_handle = \<lparr>sh_epoch = ''e'', sh_session_id = ''a'', sh_incarnation = 1, sh_allocation = 1, sh_registry = 0\<rparr>"

definition sample_sched_ops :: "sched_op list" where
  "sample_sched_ops =
     (let finished = InboundRequestFinished (JNum (PosInt 3)) ''x''
      in [OpRegisterSession ''a'' 1, OpSubmit finished Reserved RequiredInbound, OpSubmit finished Reserved RequiredInbound,
          OpRoute (Some sample_handle) None None, OpRoute (Some sample_handle) None None, OpPump])"

definition sample_run :: "nat \<Rightarrow> sched_world option" where
  "sample_run k = sched_run sample_env (\<lambda>_. Err []) ''e'' (take k sample_sched_ops)"

definition sample_view :: "nat \<Rightarrow> (bool \<times> bool \<times> bool \<times> nat \<times> nat \<times> bool) option" where
  "sample_view k = map_option (\<lambda>w.
     (sw_tickets w = [] \<and> sw_rpcs w = [], \<not> dp_closed (sg_sessions (sw_sched w)), \<not> dp_closed (sg_global (sw_sched w)),
      length (all_queued (sg_sessions (sw_sched w))), length (all_queued (sg_global (sw_sched w))),
      map_option (\<lambda>q. sq_queue q = []) (hm_get (dp_sessions (sg_sessions (sw_sched w))) ''a'') = Some False)) (sample_run k)"

lemma sample_view_routed: "sample_view 5 = Some (True, True, True, 2, 0, True)"
  by code_simp

lemma sample_idle:
  "map_option (\<lambda>w. (fst (try_next (sg_sessions (sw_sched w))), fst (try_next (sg_global (sw_sched w))),
     map_option (\<lambda>q. (sh_allocation (sq_handle q), sq_queue q \<noteq> [])) (hm_get (dp_sessions (sg_sessions (sw_sched w))) ''a''),
     dp_identity (sg_sessions (sw_sched w)))) (sample_run 6) = Some (Ok None, Ok None, Some (1, True), 0)"
  by code_simp

lemma sample_routed:
  obtains w q where "sched_run sample_env (\<lambda>_. Err []) ''e'' (take 5 sample_sched_ops) = Some w" "sw_tickets w = []" "sw_rpcs w = []"
    "\<not> dp_closed (sg_sessions (sw_sched w))" "\<not> dp_closed (sg_global (sw_sched w))"
    "length (all_queued (sg_sessions (sw_sched w))) = 2" "length (all_queued (sg_global (sw_sched w))) = 0"
    "hm_get (dp_sessions (sg_sessions (sw_sched w))) ''a'' = Some q" "sq_queue q \<noteq> []"
proof (cases "sample_run 5")
  case (Some w)
  with sample_view_routed that show thesis
    by (cases "hm_get (dp_sessions (sg_sessions (sw_sched w))) ''a''") (auto simp: sample_view_def sample_run_def)
qed (use sample_view_routed in \<open>simp add: sample_view_def\<close>)

lemma local_work_is_exact_witness:
  "\<exists>w. sample_run 5 = Some w \<and> guards_out w = {#} \<and> has_local_work (sw_sched w)"
proof -
  obtain w q where w: "sched_run sample_env (\<lambda>_. Err []) ''e'' (take 5 sample_sched_ops) = Some w" "sw_tickets w = []" "sw_rpcs w = []"
    "length (all_queued (sg_sessions (sw_sched w))) = 2" "length (all_queued (sg_global (sw_sched w))) = 0"
    by (rule sample_routed)
  from nobody_holds [OF sched_run_ok [OF w(1)] w(2,3)] have "guards_out w = {#}" .
  with local_work_is_exact [OF w(1) refl] w(1,4,5) show ?thesis by (auto simp: sample_run_def)
qed


lemma pump_nothing:
  "fst (try_next (sg_sessions s)) = Ok None \<Longrightarrow> fst (try_next (sg_global s)) = Ok None \<Longrightarrow> fst (pump s) = Ok None"
  by (cases "try_next (sg_sessions s)"; cases "try_next (sg_global s)")
     (simp add: pump_def Let_def call_then_def next_session_def next_global_def lift_dispatch_def map_ok_def map_err_def)

lemma pump_idles_only_when_blocked_witness:
  "\<exists>w g. sample_run 6 = Some w \<and> g \<in># guards_out w \<and> sh_registry (dl_handle g) = 0 \<and> allocation_of g = 1"
proof -
  from sample_idle obtain w q where w: "sched_run sample_env (\<lambda>_. Err []) ''e'' (take 6 sample_sched_ops) = Some w"
    "fst (try_next (sg_sessions (sw_sched w))) = Ok None" "fst (try_next (sg_global (sw_sched w))) = Ok None"
    "hm_get (dp_sessions (sg_sessions (sw_sched w))) ''a'' = Some q" "sq_queue q \<noteq> []"
    "sh_allocation (sq_handle q) = 1" "dp_identity (sg_sessions (sw_sched w)) = 0"
    by (auto simp: sample_run_def)
  from pump_idles_only_when_blocked [OF w(1) pump_nothing [OF w(2,3)] _ w(4,5)] w(1,6,7) show ?thesis
    by (simp add: sample_run_def)
qed

end
