(* ===== verification/Bridge_State.thy ===== *)
theory Bridge_State
  imports Runtime_Delivery Bridge_Input
begin

text \<open>
  What the Bridge keeps beside the registry, and the operations its handlers run under its lock
  (\<open>BridgeState\<close> and the functions on it in \<open>src/src/bridge.rs\<close>): the validation of updates and its
  backup while a history is replayed, the updates that come before a session is created, the
  reservations of sessions for an operation, and the requests to view or observe a session.

  A fresh \<open>Uuid\<close>, \<open>Arc\<close> or token is the next number of a counter; \<open>U n\<close> is the text of the \<open>n\<close>th \<open>Uuid\<close>.
  What is sent to the browsers' sockets is kept in \<open>br_notices\<close>, what is sent to a waiter in
  \<open>br_answers\<close>, what refuses a command in \<open>br_rejected\<close>; a waiter whose receiver is gone has its channel in \<open>br_gone\<close>.
\<close>

section \<open>State\<close>

record agent_capabilities =
  ac_load_session :: bool
  ac_resume :: bool
  ac_image :: bool
  ac_audio :: bool
  ac_embedded_context :: bool

record catalog_deletion =
  cd_request_id :: string
  cd_allocation :: nat

datatype deletion_reservation = CatalogReservation nat | SessionReservation u64

record creation_staging =
  cs_validation :: semantic_state
  cs_early :: "json list"
  cs_bytes :: nat

datatype bridge_error =
    BrInvalidRequest string
  | BrInvalidParams string
  | BrMethodNotFound string
  | BrCancelled string
  | BrInternal string
  | BrMirror mirror_error
  | BrRuntime runtime_error
  | BrSemantic string
  | BrUpdate update_error
  | BrCatalogChanged string

text \<open>What a browser is shown of a session: its history view with the baseline, and its live state.\<close>

record shown_view =
  sv_epoch :: string
  sv_session :: history_view
  sv_baseline :: history_snapshot
  sv_live :: "session_runtime option"
  sv_cancel_requested :: bool

datatype view_error =
    ViewNotFound
  | ViewRetired resource_owner
  | ViewReplaced resource_owner string
  | ViewFailed bridge_error
  | ViewRefused string

datatype view_answer = Shown shown_view | Observing | Refused view_error

datatype bridge_notice =
    AcpError bridge_error string
  | ObserverReady u64 string shown_view
  | ObserverEnd u64 string u64
  | SessionRetired string u64 string
  | CatalogChanged u64
  | TurnDelta string u64 u64 json
  | ViewChanged string shown_view

record bridge_state =
  br_hub :: hub
  br_capabilities :: "agent_capabilities option"
  br_listed :: "(string, string) hash_map"
  br_catalog_deletions :: "(string, catalog_deletion) hash_map"
  br_catalog_revision :: u64
  br_pending_creations :: nat
  br_staging :: "(string, creation_staging) hash_map"
  br_early_count :: nat
  br_early_bytes :: nat
  br_request_elicitations :: "(string, elicitation_responder) hash_map"
  br_in_flight :: "string list"
  br_observing :: bool
  br_observer_timeout :: "int option"
  br_observers_stopped :: bool
  br_now :: nat
  br_next :: nat
  br_notices :: "bridge_notice list"
  br_answers :: "(nat \<times> view_answer) list"
  br_gone :: "nat list"
  br_rejected :: "(nat \<times> bridge_error) list"
  br_timers :: "(string \<times> u64 \<times> absence_timer) list"
  br_watched :: "(string \<times> u64 \<times> observation_lease) list"

abbreviation sessions :: "bridge_state \<Rightarrow> session_registry" where
  "sessions b \<equiv> hb_registry (br_hub b)"

definition put_sessions :: "session_registry \<Rightarrow> bridge_state \<Rightarrow> bridge_state" where
  "put_sessions rg b = b\<lparr>br_hub := (br_hub b)\<lparr>hb_registry := rg\<rparr>\<rparr>"

lemma put_sessions_fields [simp]:
  "sessions (put_sessions rg b) = rg" "put_sessions rg (put_sessions rg' b) = put_sessions rg b"
  "br_answers (put_sessions rg b) = br_answers b" "br_gone (put_sessions rg b) = br_gone b"
  "br_catalog_deletions (put_sessions rg b) = br_catalog_deletions b"
  by (simp_all add: put_sessions_def)

text \<open>A call of the registry from a function of the Bridge.\<close>

definition run_sessions :: "(session_registry \<Rightarrow> ('e, 'a) result \<times> session_registry) \<Rightarrow> bridge_state \<Rightarrow> ('e, 'a) result \<times> bridge_state" where
  "run_sessions f b = (case f (sessions b) of (r, rg) \<Rightarrow> (r, put_sessions rg b))"

lemma run_sessions_fields [simp]: "sessions (snd (run_sessions f b)) = snd (f (sessions b))" "fst (run_sessions f b) = fst (f (sessions b))"
  by (cases "f (sessions b)"; simp add: run_sessions_def)+

definition lift_bridge :: "('e \<Rightarrow> bridge_error) \<Rightarrow> ('e, 'a) result \<times> bridge_state \<Rightarrow> (bridge_error, 'a) result \<times> bridge_state" where
  "lift_bridge f x = (map_err f (fst x), snd x)"

definition notify :: "bridge_notice \<Rightarrow> bridge_state \<Rightarrow> bridge_state" where
  "notify n b = b\<lparr>br_notices := br_notices b @ [n]\<rparr>"

definition answer :: "nat \<Rightarrow> view_answer \<Rightarrow> bridge_state \<Rightarrow> bridge_state" where
  "answer k a b = (if k \<in> set (br_gone b) then b else b\<lparr>br_answers := br_answers b @ [(k, a)]\<rparr>)"

text \<open>The state after the initialization of a connection.\<close>

definition bridge_start :: "string \<Rightarrow> nat option \<Rightarrow> agent_capabilities option \<Rightarrow> bool \<Rightarrow> int option \<Rightarrow> bridge_state" where
  "bridge_start epoch left capabilities observing timeout =
     \<lparr>br_hub = hub_start epoch left, br_capabilities = capabilities, br_listed = [], br_catalog_deletions = [],
      br_catalog_revision = 0, br_pending_creations = 0, br_staging = [], br_early_count = 0, br_early_bytes = 0,
      br_request_elicitations = [], br_in_flight = [], br_observing = observing, br_observer_timeout = timeout,
      br_observers_stopped = False, br_now = 0, br_next = 0, br_notices = [], br_answers = [], br_gone = [],
      br_rejected = [], br_timers = [], br_watched = []\<rparr>"

section \<open>Validation of updates\<close>

definition session_ingest :: "string \<Rightarrow> bridge_state \<Rightarrow> session_resources option" where
  "session_ingest sid b =
     Option.bind (state_of sid (sessions b)) (\<lambda>s.
       case resources_of sid (ss_incarnation s) (sessions b) of Ok r \<Rightarrow> Some r | _ \<Rightarrow> None)"

definition session_validation :: "string \<Rightarrow> bridge_state \<Rightarrow> semantic_state option" where
  "session_validation sid b = Option.bind (session_ingest sid b) re_validation"

definition replay_validation_backup :: "string \<Rightarrow> bridge_state \<Rightarrow> replay_backup option" where
  "replay_validation_backup sid b = Option.bind (session_ingest sid b) re_replay_backup"

text \<open>Writing through \<open>resources_mut\<close>, where the incarnation is the current one.\<close>

definition change_resources :: "string \<Rightarrow> u64 \<Rightarrow> (session_resources \<Rightarrow> session_resources) \<Rightarrow> bridge_state \<Rightarrow> bridge_state" where
  "change_resources sid inc f b =
     (case resources_of sid inc (sessions b) of
        Ok r \<Rightarrow> put_sessions (put_resources sid (f r) (sessions b)) b
      | _ \<Rightarrow> b)"

definition change_ingest :: "string \<Rightarrow> (session_resources \<Rightarrow> session_resources) \<Rightarrow> bridge_state \<Rightarrow> bridge_state" where
  "change_ingest sid f b =
     (case state_of sid (sessions b) of Some s \<Rightarrow> change_resources sid (ss_incarnation s) f b | None \<Rightarrow> b)"

definition live_session_incarnation :: "string \<Rightarrow> bridge_state \<Rightarrow> u64 option" where
  "live_session_incarnation sid b = map_option ss_incarnation (resource_session sid (sessions b))"

definition new_validation :: "bridge_state \<Rightarrow> semantic_state \<times> bridge_state" where
  "new_validation b = (semantic_default\<lparr>sem_allocation := br_next b\<rparr>, b\<lparr>br_next := Suc (br_next b)\<rparr>)"

definition ensure_session_validation :: "string \<Rightarrow> u64 \<Rightarrow> bridge_state \<Rightarrow> (bridge_error, semantic_state) result \<times> bridge_state" where
  "ensure_session_validation sid inc b =
     try_in b (map_err BrMirror (resources_of sid inc (sessions b))) (\<lambda>r.
       case re_validation r of
         Some v \<Rightarrow> (Ok v, b)
       | None \<Rightarrow> (case new_validation b of (v, b1) \<Rightarrow> (Ok v, change_resources sid inc (\<lambda>r. r\<lparr>re_validation := Some v\<rparr>) b1)))"

definition owner_matches :: "update_owner \<Rightarrow> string \<Rightarrow> bridge_state \<Rightarrow> bool" where
  "owner_matches owner sid b \<longleftrightarrow>
     (case uo_incarnation owner of
        Some inc \<Rightarrow>
          (case resources_of sid inc (sessions b) of
             Ok r \<Rightarrow> (case re_validation r of Some v \<Rightarrow> sem_allocation v = uo_allocation owner | None \<Rightarrow> False)
           | _ \<Rightarrow> False)
      | None \<Rightarrow>
          (case session_validation sid b of Some v \<Rightarrow> sem_allocation v = uo_allocation owner | None \<Rightarrow> False) \<or>
          live_session_incarnation sid b = None \<and>
          (case hm_get (br_staging b) sid of
             Some staging \<Rightarrow> sem_allocation (cs_validation staging) = uo_allocation owner | None \<Rightarrow> False))"

definition clear_attachment_delivery :: "string \<Rightarrow> u64 \<Rightarrow> bridge_state \<Rightarrow> bridge_state" where
  "clear_attachment_delivery sid inc = change_resources sid inc (\<lambda>r. r\<lparr>re_control_candidate := \<lparr>cc_updates = [], cc_bytes = 0\<rparr>\<rparr>)"

definition clear_ingest_resources :: "string \<Rightarrow> u64 \<Rightarrow> bridge_state \<Rightarrow> bridge_state" where
  "clear_ingest_resources sid inc = change_resources sid inc (\<lambda>r. r\<lparr>re_validation := None, re_replay_backup := None,
     re_control_candidate := \<lparr>cc_updates = [], cc_bytes = 0\<rparr>\<rparr>)"

definition take_sync_control_candidate :: "string \<Rightarrow> bridge_state \<Rightarrow> control_candidate \<times> bridge_state" where
  "take_sync_control_candidate sid b =
     (case session_ingest sid b of
        Some r \<Rightarrow> (re_control_candidate r, change_ingest sid (\<lambda>r. r\<lparr>re_control_candidate := \<lparr>cc_updates = [], cc_bytes = 0\<rparr>\<rparr>) b)
      | None \<Rightarrow> (\<lparr>cc_updates = [], cc_bytes = 0\<rparr>, b))"

text \<open>A replay validates from scratch; what was validated before is set aside until it commits.\<close>

definition begin_replay_validation :: "string \<Rightarrow> bridge_state \<Rightarrow> (bridge_error, update_owner) result \<times> bridge_state" where
  "begin_replay_validation sid b =
     (case new_validation b of (v, b1) \<Rightarrow>
        expect_in b1 (state_of sid (sessions b1)) (\<lambda>s.
          let inc = ss_incarnation s; owner = \<lparr>uo_incarnation = Some inc, uo_allocation = sem_allocation v\<rparr>
          in (Ok owner, change_resources sid inc (\<lambda>r. r\<lparr>re_validation := Some v,
                re_replay_backup := Some \<lparr>rb_owner = owner, rb_previous = re_validation r\<rparr>\<rparr>) b1)))"

definition take_replay_validation_backup :: "string \<Rightarrow> update_owner \<Rightarrow> bridge_state \<Rightarrow> replay_backup option \<times> bridge_state" where
  "take_replay_validation_backup sid owner b =
     (case uo_incarnation owner of
        None \<Rightarrow> (None, b)
      | Some inc \<Rightarrow>
          (case resources_of sid inc (sessions b) of
             Ok r \<Rightarrow>
               (case re_replay_backup r of
                  Some backup \<Rightarrow>
                    if uo_allocation (rb_owner backup) \<noteq> uo_allocation owner then (None, b)
                    else (Some backup, change_resources sid inc (\<lambda>r. r\<lparr>re_replay_backup := None\<rparr>) b)
                | None \<Rightarrow> (None, b))
           | _ \<Rightarrow> (None, b)))"

definition commit_replay_validation :: "string \<Rightarrow> update_owner \<Rightarrow> bridge_state \<Rightarrow> bridge_state" where
  "commit_replay_validation sid owner b =
     (case take_replay_validation_backup sid owner b of (backup, b1) \<Rightarrow>
        if backup = None \<or> \<not> owner_matches owner sid b1 then b1
        else change_ingest sid (\<lambda>r. r\<lparr>re_validation := map_option retire_turn (re_validation r)\<rparr>) b1)"

definition rollback_replay_validation :: "string \<Rightarrow> update_owner \<Rightarrow> bridge_state \<Rightarrow> bridge_state" where
  "rollback_replay_validation sid owner b =
     (case take_replay_validation_backup sid owner b of
        (Some backup, b1) \<Rightarrow>
          if \<not> owner_matches owner sid b1 then b1
          else change_ingest sid (\<lambda>r. r\<lparr>re_validation := rb_previous backup\<rparr>) b1
      | (None, b1) \<Rightarrow> b1)"

section \<open>Updates before a creation\<close>

definition take_creation_notifications :: "string \<Rightarrow> bridge_state \<Rightarrow> json list \<times> bridge_state" where
  "take_creation_notifications sid b =
     (case hm_get (br_staging b) sid of
        None \<Rightarrow> ([], b)
      | Some staging \<Rightarrow>
          (cs_early staging,
           b\<lparr>br_staging := hm_insert sid (staging\<lparr>cs_early := [], cs_bytes := 0\<rparr>) (br_staging b),
             br_early_count := sat_sub (br_early_count b) (length (cs_early staging)),
             br_early_bytes := sat_sub (br_early_bytes b) (cs_bytes staging)\<rparr>))"

definition drop_staging :: "string \<Rightarrow> creation_staging \<Rightarrow> bridge_state \<Rightarrow> bridge_state" where
  "drop_staging sid staging b =
     b\<lparr>br_staging := hm_remove sid (br_staging b),
       br_early_count := sat_sub (br_early_count b) (length (cs_early staging)),
       br_early_bytes := sat_sub (br_early_bytes b) (cs_bytes staging)\<rparr>"

definition discard_creation_staging :: "string \<Rightarrow> bridge_state \<Rightarrow> bridge_state" where
  "discard_creation_staging sid b = (case hm_get (br_staging b) sid of Some staging \<Rightarrow> drop_staging sid staging b | None \<Rightarrow> b)"

definition clear_pending_creation_replays :: "bridge_state \<Rightarrow> bridge_state" where
  "clear_pending_creation_replays b = fold discard_creation_staging (map fst (br_staging b)) b"

definition promote_creation_validation :: "string \<Rightarrow> u64 \<Rightarrow> bridge_state \<Rightarrow> (bridge_error, unit) result \<times> bridge_state" where
  "promote_creation_validation sid inc b =
     (if inc = 0 \<or> (case active_session sid (sessions b) of Some s \<Rightarrow> ss_incarnation s \<noteq> inc | None \<Rightarrow> True)
      then (Err (BrInvalidRequest ''creation requires its newly installed active incarnation''), b)
      else try_in b (map_err BrMirror (resources_of sid inc (sessions b))) (\<lambda>r.
        if re_validation r \<noteq> None then (Err (BrInvalidRequest ''creation cannot replace an existing validation owner''), b)
        else case hm_get (br_staging b) sid of
          None \<Rightarrow> (Err (BrInvalidRequest ''creation validation owner disappeared''), b)
        | Some staging \<Rightarrow>
            (Ok (), change_resources sid inc (\<lambda>r. r\<lparr>re_validation := Some (cs_validation staging)\<rparr>) (drop_staging sid staging b))))"

section \<open>Reservations\<close>

definition session_operation_uncertain :: "string \<Rightarrow> u64 \<Rightarrow> string \<Rightarrow> bridge_state \<Rightarrow> bool" where
  "session_operation_uncertain sid inc operation_id b \<longleftrightarrow>
     (case state_of sid (sessions b) of
        Some s \<Rightarrow> ss_incarnation s = inc \<and> has_operation (\<lambda>op. so_operation_id op = operation_id \<and> so_stage op = ''uncertain'') s
      | None \<Rightarrow> False)"

definition release_session_operation :: "string \<Rightarrow> u64 \<Rightarrow> session_admission \<Rightarrow> string \<Rightarrow> bridge_state \<Rightarrow> bridge_state" where
  "release_session_operation sid inc adm operation_id b =
     (if session_operation_uncertain sid inc operation_id b then b
      else snd (run_sessions (mirror_settle_exclusive sid inc adm operation_id) b))"

definition settle_attachment :: "string \<Rightarrow> bridge_state \<Rightarrow> bridge_state" where
  "settle_attachment sid b =
     (case state_of sid (sessions b) of
        Some s \<Rightarrow>
          (case ss_operation s of
             Some op \<Rightarrow>
               if admission (so_kind op) = AdmitAttachment
               then release_session_operation sid (ss_incarnation s) AdmitAttachment (so_operation_id op) b else b
           | None \<Rightarrow> b)
      | None \<Rightarrow> b)"

definition session_operation_pending :: "string \<Rightarrow> session_admission \<Rightarrow> bridge_state \<Rightarrow> bool" where
  "session_operation_pending sid kind b \<longleftrightarrow>
     kind = AdmitDelete \<and> hm_get (br_catalog_deletions b) sid \<noteq> None \<or>
     (case state_of sid (sessions b) of Some s \<Rightarrow> has_operation (\<lambda>op. admission (so_kind op) = kind) s | None \<Rightarrow> False)"

definition session_prompt_pending :: "string \<Rightarrow> bridge_state \<Rightarrow> bool" where
  "session_prompt_pending sid b \<longleftrightarrow>
     (case state_of sid (sessions b) of
        Some s \<Rightarrow> ss_phase s \<in> {Running, Reconciling} \<and> ss_active_turn s \<noteq> None | None \<Rightarrow> False)"

definition session_history_loading :: "string \<Rightarrow> bridge_state \<Rightarrow> bool" where
  "session_history_loading sid b \<longleftrightarrow>
     active_session sid (sessions b) \<noteq> None \<and>
     (case state_of sid (sessions b) of Some s \<Rightarrow> ss_phase s \<in> {Cold, Loading, Reconciling} | None \<Rightarrow> False)"

definition reserve_session_operation :: "string \<Rightarrow> operation_kind \<Rightarrow> string \<Rightarrow> bridge_state \<Rightarrow> (bridge_error, u64) result \<times> bridge_state" where
  "reserve_session_operation sid kind operation_id b =
     try_in b (ok_or (BrInvalidParams ''unknown or inactive session'') (map_option ss_incarnation (active_session sid (sessions b)))) (\<lambda>inc.
       call_then (lift_bridge BrMirror (run_sessions (mirror_begin_exclusive sid inc kind operation_id) b)) (\<lambda>_ b1. (Ok inc, b1)))"

text \<open>A session that only the catalog knows is deleted under an allocation of its own.\<close>

definition reserve_deletion :: "string \<Rightarrow> string \<Rightarrow> bridge_state \<Rightarrow> (bridge_error, deletion_reservation) result \<times> bridge_state" where
  "reserve_deletion sid operation_id b =
     (let catalog = (\<lambda>b. (Ok (CatalogReservation (br_next b)),
            b\<lparr>br_next := Suc (br_next b), br_catalog_deletions :=
                hm_insert sid \<lparr>cd_request_id = operation_id, cd_allocation = br_next b\<rparr> (br_catalog_deletions b)\<rparr>))
      in if session_history_loading sid b \<or> hm_get (br_catalog_deletions b) sid \<noteq> None
         then (Err (BrInvalidRequest ''another prompt or session mutation is already running''), b)
         else case state_of sid (sessions b) of
           Some s \<Rightarrow>
             try_in b (map_err BrMirror (can_begin s AdmitDelete)) (\<lambda>_.
               if ss_incarnation s \<noteq> 0
               then call_then (lift_bridge BrMirror (run_sessions (mirror_begin_exclusive sid (ss_incarnation s) Delete operation_id) b))
                      (\<lambda>_ b1. (Ok (SessionReservation (ss_incarnation s)), b1))
               else catalog b)
         | None \<Rightarrow> catalog b)"

definition release_deletion :: "string \<Rightarrow> deletion_reservation \<Rightarrow> string \<Rightarrow> bridge_state \<Rightarrow> bridge_state" where
  "release_deletion sid reservation operation_id b =
     (case reservation of
        CatalogReservation allocation \<Rightarrow>
          (case hm_get (br_catalog_deletions b) sid of
             Some pending \<Rightarrow>
               if cd_allocation pending = allocation \<and> cd_request_id pending = operation_id
               then b\<lparr>br_catalog_deletions := hm_remove sid (br_catalog_deletions b)\<rparr> else b
           | None \<Rightarrow> b)
      | SessionReservation inc \<Rightarrow> release_session_operation sid inc AdmitDelete operation_id b)"

definition begin_runtime_delete :: "env \<Rightarrow> string \<Rightarrow> string \<Rightarrow> bool \<Rightarrow> bridge_state \<Rightarrow> (bridge_error, u64 option) result \<times> bridge_state" where
  "begin_runtime_delete E sid operation_id close_before_delete b =
     (let active = map_option ss_incarnation (active_session sid (sessions b));
          closed = Option.bind (state_of sid (sessions b)) (\<lambda>s.
            if (case ss_live s of Some live \<Rightarrow> lv_lifecycle live = Closed | None \<Rightarrow> False) then Some (ss_incarnation s) else None);
          epoch = rg_epoch (sessions b)
      in case (case active of Some inc \<Rightarrow> Some inc | None \<Rightarrow> closed) of
           None \<Rightarrow> (Ok None, b)
         | Some inc \<Rightarrow>
             call_then (lift_bridge BrRuntime (run_sessions
                 (if close_before_delete \<or> closed \<noteq> None then start_delete E epoch sid inc operation_id
                  else start_direct_delete E epoch sid inc operation_id) b)) (\<lambda>_ b1. (Ok (Some inc), b1)))"

section \<open>A failed attachment\<close>

definition fail_runtime_attachment :: "env \<Rightarrow> string \<Rightarrow> u64 \<Rightarrow> string \<Rightarrow> operation_kind \<Rightarrow> bool \<Rightarrow> bridge_state
    \<Rightarrow> (bridge_error, unit) result \<times> bridge_state" where
  "fail_runtime_attachment E sid inc operation_id kind reload b =
     lift_bridge BrRuntime (run_sessions
       (if reload then fail_reload E (rg_epoch (sessions b)) sid inc operation_id
        else fail_attachment E (rg_epoch (sessions b)) sid inc operation_id kind) b)"

definition fail_mirror_attachment :: "env \<Rightarrow> string \<Rightarrow> u64 \<Rightarrow> string \<Rightarrow> bool \<Rightarrow> bool \<Rightarrow> bool \<Rightarrow> string \<Rightarrow> bridge_state \<Rightarrow> bridge_state" where
  "fail_mirror_attachment E sid inc attempt reload retain_cold retryable message b =
     (if reload \<or> retain_cold then snd (run_sessions (fail_load sid inc attempt message retryable) b)
      else put_sessions (mirror_remove E sid inc (sessions b)) b)"

definition clear_attachment_tracking :: "string \<Rightarrow> update_owner \<Rightarrow> bool \<Rightarrow> bridge_state \<Rightarrow> bridge_state" where
  "clear_attachment_tracking sid owner clear_validation b =
     (if \<not> owner_matches owner sid b then b
      else let b1 = settle_attachment sid b;
               b2 = (case uo_incarnation owner of Some inc \<Rightarrow> clear_attachment_delivery sid inc b1 | None \<Rightarrow> b1)
        in if replay_validation_backup sid b2 \<noteq> None then rollback_replay_validation sid owner b2
           else if clear_validation then change_ingest sid (\<lambda>r. r\<lparr>re_validation := None\<rparr>) b2
           else b2)"

section \<open>The catalog\<close>

definition session_catalog_revision :: "bridge_state \<Rightarrow> string" where
  "session_catalog_revision b = rg_epoch (sessions b) @ '':'' @ decimal (unat (br_catalog_revision b))"

definition require_catalog_revision :: "string \<Rightarrow> bridge_state \<Rightarrow> (bridge_error, unit) result" where
  "require_catalog_revision expected b =
     (if session_catalog_revision b \<noteq> expected
      then Err (BrCatalogChanged (session_catalog_revision b)) else Ok ())"

definition advance_catalog_revision :: "bridge_state \<Rightarrow> (bridge_error, u64) result \<times> bridge_state" where
  "advance_catalog_revision b =
     expect_in b (if br_catalog_revision b = - 1 then None else Some (br_catalog_revision b + 1)) (\<lambda>revision.
       (Ok revision, notify (CatalogChanged revision) (b\<lparr>br_catalog_revision := revision\<rparr>)))"

text \<open>The content a prompt may hold is what the Agent has advertised.\<close>

definition validate_prompt_capabilities :: "json list \<Rightarrow> bridge_state \<Rightarrow> (bridge_error, unit) result" where
  "validate_prompt_capabilities blocks b =
     (let has = (\<lambda>f. case br_capabilities b of Some c \<Rightarrow> f c | None \<Rightarrow> False);
          check = (\<lambda>block. case get_str block ''type'' of
             Some t \<Rightarrow>
               if t = ''image'' \<and> \<not> has ac_image then Some ''Agent did not advertise image prompt support''
               else if t = ''audio'' \<and> \<not> has ac_audio then Some ''Agent did not advertise audio prompt support''
               else if t = ''resource'' \<and> \<not> has ac_embedded_context then Some ''Agent did not advertise embedded context support''
               else None
           | None \<Rightarrow> None)
      in case List.map_filter check blocks of [] \<Rightarrow> Ok () | m # _ \<Rightarrow> Err (BrSemantic m))"

end
