(* ===== verification/Session_Views.thy ===== *)
theory Session_Views
  imports Bridge_State
begin

text \<open>
  Requests to view and to observe a session (\<open>src/src/bridge.rs\<close>). A session that is live or blocked is
  shown at once; a cold one is loaded first, and everybody who asks meanwhile waits for the same load
  (its materialization). Its result answers all of them. Also here: the observers and their countdowns.
\<close>

section \<open>Observers\<close>

definition observers_timeout :: "bridge_state \<Rightarrow> int" where
  "observers_timeout b = (if br_observers_stopped b then - 1 else case br_observer_timeout b of Some t \<Rightarrow> t | None \<Rightarrow> - 1)"

text \<open>An operation of the observers of a session, run in the resources of its incarnation.\<close>

definition run_observers :: "string \<Rightarrow> u64 \<Rightarrow> (observers_state \<Rightarrow> 'r \<times> observers_state) \<Rightarrow> bridge_state \<Rightarrow> 'r option \<times> bridge_state" where
  "run_observers sid inc f b =
     (case resources_of sid inc (sessions b) of
        Ok r \<Rightarrow>
          (case f (re_observers r, rg_handles (sessions b)) of
             (x, obs, h) \<Rightarrow> (Some x, put_sessions (put_resources sid (r\<lparr>re_observers := obs\<rparr>) ((sessions b)\<lparr>rg_handles := h\<rparr>)) b))
      | _ \<Rightarrow> (None, b))"

definition refresh_session_timer :: "string \<Rightarrow> bridge_state \<Rightarrow> bridge_state" where
  "refresh_session_timer sid b =
     (case entry_of sid (sessions b) of
        None \<Rightarrow> b
      | Some e \<Rightarrow>
          (let inc = ss_incarnation (en_state e)
           in if br_observers_stopped b then snd (run_observers sid inc (\<lambda>o'. ((), stop_absence o')) b)
              else case run_observers sid inc (refresh (map_option lv_lifecycle (ss_live (en_state e))) (work_of e)
                       (observers_timeout b) (br_now b)) b of
                     (Some (Some timer), b1) \<Rightarrow> b1\<lparr>br_timers := br_timers b1 @ [(sid, inc, timer)]\<rparr>
                   | (_, b1) \<Rightarrow> b1))"

definition refresh_observer_timers :: "bridge_state \<Rightarrow> bridge_state" where
  "refresh_observer_timers b =
     (if br_observing b then fold refresh_session_timer (map fst (rg_sessions (sessions b))) b else b)"

definition flush_bridge :: "bridge_state \<Rightarrow> bridge_state" where
  "flush_bridge b = refresh_observer_timers (b\<lparr>br_hub := flush_runtime (br_hub b)\<rparr>)"

definition finish_session_observers :: "string \<Rightarrow> u64 \<Rightarrow> bridge_state \<Rightarrow> bridge_state" where
  "finish_session_observers sid inc b =
     (case run_observers sid inc drain_for_finish b of
        (Some observers, b1) \<Rightarrow>
          fold (\<lambda>p b. let b' = notify (ObserverEnd (fst p) sid inc) b
              in put_sessions ((sessions b')\<lparr>rg_handles := lease_finish (snd p) (rg_handles (sessions b'))\<rparr>) b') observers b1
      | (None, b1) \<Rightarrow> b1)"

definition session_blocks_unobserved_retire :: "string \<Rightarrow> bridge_state \<Rightarrow> bool" where
  "session_blocks_unobserved_retire sid b \<longleftrightarrow>
     (case registry_work sid (sessions b) of Some work \<Rightarrow> work \<noteq> WorkIdle | None \<Rightarrow> False)"

definition retire_session_observation :: "string \<Rightarrow> u64 \<Rightarrow> string \<Rightarrow> bridge_state \<Rightarrow> bridge_state" where
  "retire_session_observation sid inc reason b = finish_session_observers sid inc (notify (SessionRetired sid inc reason) b)"

definition complete_session_retirement :: "env \<Rightarrow> string \<Rightarrow> u64 \<Rightarrow> session_admission \<Rightarrow> string \<Rightarrow> string \<Rightarrow> bridge_state \<Rightarrow> bridge_state" where
  "complete_session_retirement E sid inc adm operation_id reason b =
     (case run_sessions (finish_session_cleanup sid inc adm operation_id) b of
        (Ok _, b1) \<Rightarrow>
          (let b2 = retire_session_observation sid inc reason b1;
               b3 = put_sessions (cancel_resources sid inc ''session retired'' (sessions b2)) b2
           in put_sessions (mirror_remove E sid inc (sessions b3)) b3)
      | (_, b1) \<Rightarrow> b1)"

section \<open>What is shown\<close>

text \<open>The live part is shown without its turn, and the turn with whether its cancellation is requested.\<close>

definition session_view_value :: "string \<Rightarrow> u64 \<Rightarrow> bridge_state \<Rightarrow> (bridge_error, shown_view) result \<times> bridge_state" where
  "session_view_value sid inc b =
     (let live = Option.bind (session_runtime_of sid (sessions b)) (\<lambda>r. if sr_incarnation r = inc then Some r else None);
          cancel = (case Option.bind live sr_active_turn of Some t \<Rightarrow> at_cancel_requested t | None \<Rightarrow> False)
      in call_then (lift_bridge BrMirror (run_sessions (mirror_view sid inc) b)) (\<lambda>v b1.
           (Ok \<lparr>sv_epoch = rg_epoch (sessions b), sv_session = fst v, sv_baseline = snd v,
                sv_live = map_option (\<lambda>r. r\<lparr>sr_active_turn := None\<rparr>) live, sv_cancel_requested = cancel\<rparr>, b1)))"

section \<open>Waiters\<close>

definition lease_dead :: "observation_lease \<Rightarrow> bridge_state \<Rightarrow> bool" where
  "lease_dead lease b = lease_is_cancelled lease (rg_handles (sessions b))"

definition cancel_lease :: "observation_lease \<Rightarrow> bridge_state \<Rightarrow> bridge_state" where
  "cancel_lease lease b = put_sessions ((sessions b)\<lparr>rg_handles := lease_cancel lease (rg_handles (sessions b))\<rparr>) b"

fun waiter_is_closed :: "view_waiter \<Rightarrow> bridge_state \<Rightarrow> bool" where
  "waiter_is_closed (ViewWaiter k) b \<longleftrightarrow> k \<in> set (br_gone b)"
| "waiter_is_closed (ObserveWaiter _ lease k) b \<longleftrightarrow> lease_dead lease b \<or> k \<in> set (br_gone b)"

fun finish_session_view_waiter :: "string \<Rightarrow> view_waiter \<Rightarrow> (view_error, shown_view) result \<Rightarrow> bridge_state \<Rightarrow> bridge_state" where
  "finish_session_view_waiter sid (ViewWaiter k) result b =
     (case result of Ok view \<Rightarrow> answer k (Shown view) b | Err e \<Rightarrow> answer k (Refused e) b | Panic \<Rightarrow> b)"
| "finish_session_view_waiter sid (ObserveWaiter key lease k) result b =
     (if lease_dead lease b \<or> k \<in> set (br_gone b) then cancel_lease lease b
      else case result of
        Err e \<Rightarrow> answer k (Refused e) (cancel_lease lease b)
      | Panic \<Rightarrow> b
      | Ok view \<Rightarrow>
          (case run_observers sid (vw_incarnation (sv_session view)) (observe key lease) b of
             (Some True, b1) \<Rightarrow>
               (let b2 = answer k Observing (notify (ObserverReady key sid view) b1)
                in if br_observing b2 then b2\<lparr>br_watched := br_watched b2 @ [(sid, key, lease)]\<rparr> else b2)
           | (_, b1) \<Rightarrow> answer k (Refused (ViewRefused ''session observation owner no longer matches'')) (cancel_lease lease b1)))"

section \<open>Materializations\<close>

definition session_materialization :: "string \<Rightarrow> bridge_state \<Rightarrow> materialization_resources option" where
  "session_materialization sid b = Option.bind (session_ingest sid b) re_materialization"

definition set_materialization :: "string \<Rightarrow> materialization_resources option \<Rightarrow> bridge_state \<Rightarrow> bridge_state" where
  "set_materialization sid m = change_ingest sid (\<lambda>r. r\<lparr>re_materialization := m\<rparr>)"

definition take_session_materialization :: "string \<Rightarrow> string \<Rightarrow> bridge_state \<Rightarrow> materialization_resources option \<times> bridge_state" where
  "take_session_materialization sid attempt b =
     (case session_materialization sid b of
        Some m \<Rightarrow> if mz_attempt_id m \<noteq> attempt then (None, b) else (Some m, set_materialization sid None b)
      | None \<Rightarrow> (None, b))"

text \<open>The command that loads a cold session, and the names it bears.\<close>

definition materialize_command :: "(nat \<Rightarrow> string) \<Rightarrow> nat \<Rightarrow> string \<Rightarrow> string option \<Rightarrow> bridge_state \<Rightarrow> json" where
  "materialize_command U n sid cwd b =
     (let how = (if (case br_capabilities b of Some c \<Rightarrow> ac_load_session c | None \<Rightarrow> False) then ''session/load'' else ''session/resume'')
      in JObj [(''type'', JStr how), (''requestId'', JStr (''bridge-materialize-'' @ U (Suc n))), (''sessionId'', JStr sid),
           (''cwd'', option_json JStr cwd), (''bridgeManagedMaterialization'', JBool True), (''bridgeMaterializationId'', JStr (U n))])"

text \<open>A session that is shown as it is: an open one, or one that is blocked.\<close>

definition shown_incarnation :: "string \<Rightarrow> bridge_state \<Rightarrow> u64 option" where
  "shown_incarnation sid b =
     Option.bind (state_of sid (sessions b)) (\<lambda>s.
       if (case ss_live s of Some live \<Rightarrow> as_object (lv_session live) \<noteq> None \<and> lv_lifecycle live \<noteq> Closed | None \<Rightarrow> False) \<or> ss_phase s = Blocked
       then Some (ss_incarnation s) else None)"

text \<open>Whoever is the first to ask for a cold session starts its load: the command is what is returned.\<close>

definition start_materialization :: "env \<Rightarrow> (nat \<Rightarrow> string) \<Rightarrow> string \<Rightarrow> string option \<Rightarrow> view_waiter \<Rightarrow> bridge_state \<Rightarrow> json option \<times> bridge_state" where
  "start_materialization E U sid cwd waiter b =
     (let b1 = (if state_of sid (sessions b) = None then put_sessions (register_cold E sid 0 (sessions b)) b else b);
          n = br_next b1;
          m = \<lparr>mz_attempt_id = U n, mz_waiters = [waiter], mz_cancellation = Suc (Suc n)\<rparr>
      in (Some (materialize_command U n sid cwd b1), (set_materialization sid (Some m) b1)\<lparr>br_next := n + 3\<rparr>))"

definition join_materialization :: "string \<Rightarrow> view_waiter \<Rightarrow> materialization_resources \<Rightarrow> bridge_state \<Rightarrow> bridge_state" where
  "join_materialization sid waiter m b =
     set_materialization sid (Some (m\<lparr>mz_waiters := filter (\<lambda>w. \<not> waiter_is_closed w b) (mz_waiters m) @ [waiter]\<rparr>)) b"

text \<open>A waiter that comes back for a certain incarnation never starts a load.\<close>

definition resume_view :: "string \<Rightarrow> resource_owner \<Rightarrow> view_waiter \<Rightarrow> bridge_state \<Rightarrow> bridge_state" where
  "resume_view sid owner waiter b =
     (let current = ow_session_id owner = sid \<and> owns_resources owner (sessions b) \<and>
            (case state_of sid (sessions b) of Some s \<Rightarrow> \<not> observation_retired s | None \<Rightarrow> False);
          shown = (if ow_epoch owner \<noteq> rg_epoch (sessions b) then (Err (ViewReplaced owner (rg_epoch (sessions b))), b)
            else if current
              then (case session_view_value sid (ow_incarnation owner) b of (r, b1) \<Rightarrow> (map_err ViewFailed r, b1))
            else (Err (ViewRetired owner), b))
      in refresh_observer_timers (finish_session_view_waiter sid waiter (fst shown) (snd shown)))"

definition prepare_session_view :: "env \<Rightarrow> (nat \<Rightarrow> string) \<Rightarrow> string \<Rightarrow> string option \<Rightarrow> resource_owner option \<Rightarrow> view_waiter
    \<Rightarrow> bridge_state \<Rightarrow> json option \<times> bridge_state" where
  "prepare_session_view E U sid cwd expected waiter b =
     (case expected of
        Some owner \<Rightarrow> (None, resume_view sid owner waiter b)
      | None \<Rightarrow>
          if hm_get (br_catalog_deletions b) sid \<noteq> None \<or>
             (case state_of sid (sessions b) of Some s \<Rightarrow> ss_operation s \<noteq> None \<and> observation_retired s | None \<Rightarrow> False)
          then (None, finish_session_view_waiter sid waiter (Err (ViewRefused ''session is being deleted'')) b)
          else if waiter_is_closed waiter b then (None, b)
          else case shown_incarnation sid b of
            Some inc \<Rightarrow>
              (case session_view_value sid inc b of (r, b1) \<Rightarrow>
                 (None, refresh_observer_timers (finish_session_view_waiter sid waiter (map_err ViewFailed r) b1)))
          | None \<Rightarrow>
              if hm_get (br_listed b) sid = None \<and> cwd = None
              then (None, finish_session_view_waiter sid waiter (Err ViewNotFound) b)
              else case session_materialization sid b of
                Some m \<Rightarrow> (None, join_materialization sid waiter m b)
              | None \<Rightarrow> start_materialization E U sid cwd waiter b)"

text \<open>The load has ended: its result is shown to everybody who waits, and a session that stays cold goes.\<close>

definition load_outcome :: "string \<Rightarrow> (bridge_error, unit) result \<Rightarrow> bridge_state \<Rightarrow> (view_error, shown_view) result \<times> bridge_state" where
  "load_outcome sid load b =
     (case load of
        Ok _ \<Rightarrow>
          (case active_session sid (sessions b) of
             Some s \<Rightarrow> (case session_view_value sid (ss_incarnation s) b of (r, b1) \<Rightarrow> (map_err ViewFailed r, b1))
           | None \<Rightarrow> (Err (ViewRefused ''session/load completed without materializing the session''), b))
      | Err e \<Rightarrow> (Err (ViewFailed e), b)
      | Panic \<Rightarrow> (Panic, b))"

definition remove_cold :: "env \<Rightarrow> string \<Rightarrow> bridge_state \<Rightarrow> bridge_state" where
  "remove_cold E sid b =
     (case state_of sid (sessions b) of
        Some s \<Rightarrow>
          if ss_phase s = Cold \<and> ss_live s = None \<and> ss_operation s = None \<and> ss_history_revision s = None
          then put_sessions (mirror_remove E sid (ss_incarnation s) (sessions b)) b else b
      | None \<Rightarrow> b)"

definition cancel_token :: "nat \<Rightarrow> bridge_state \<Rightarrow> bridge_state" where
  "cancel_token k b = put_sessions ((sessions b)\<lparr>rg_handles := token_cancel k (rg_handles (sessions b))\<rparr>) b"

definition resolve_session_view_waiters :: "env \<Rightarrow> string \<Rightarrow> string \<Rightarrow> (bridge_error, unit) result \<Rightarrow> bridge_state \<Rightarrow> bridge_state" where
  "resolve_session_view_waiters E sid attempt load b =
     (case take_session_materialization sid attempt b of
        (None, b1) \<Rightarrow> b1
      | (Some m, b1) \<Rightarrow>
          (case load_outcome sid load (cancel_token (mz_cancellation m) b1) of (result, b2) \<Rightarrow>
             refresh_observer_timers (remove_cold E sid
               (fold (\<lambda>w. finish_session_view_waiter sid w result) (mz_waiters m) b2))))"

end
