(* ===== verification/Cold_Attachment.thy ===== *)
theory Cold_Attachment
  imports Session_Views
begin

text \<open>
  The attachment of a session (\<open>reserve_attachment_locked\<close> in \<open>src/src/bridge.rs\<close>): a reload keeps the
  incarnation, a cold session gets a fresh one. The coordinator reserves the first attachment of a cold
  session before anything of it is queued (\<open>prepare_cold_input\<close>, \<open>reject_prepared_attachment\<close> in
  \<open>src/src/bridge/coordinator.rs\<close>).
\<close>

section \<open>Paths\<close>

definition bridge_absolute_path :: "string \<Rightarrow> bool" where
  "bridge_absolute_path v \<longleftrightarrow>
     take 1 v = ''/'' \<or> take 2 v = [CHR 0x5C, CHR 0x5C] \<or> take 2 v = ''//'' \<or>
     (3 \<le> length v \<and> ascii_alphabetic (v ! 0) \<and> v ! 1 = CHR '':'' \<and> v ! 2 \<in> {CHR ''/'', CHR 0x5C})"

definition valid_session_path :: "string \<Rightarrow> bool" where
  "valid_session_path v \<longleftrightarrow> v \<noteq> [] \<and> CHR 0x00 \<notin> set v \<and> bridge_absolute_path v"

section \<open>Reservations\<close>

fun reservation_incarnation :: "attachment_reservation \<Rightarrow> u64" where
  "reservation_incarnation (ReloadAttachment _ inc) = inc"
| "reservation_incarnation (FreshAttachment _ inc) = inc"

fun reservation_is_reload :: "attachment_reservation \<Rightarrow> bool" where
  "reservation_is_reload (ReloadAttachment _ _) = True"
| "reservation_is_reload (FreshAttachment _ _) = False"

text \<open>Only the registered materialization may go on with a load that is to be retried.\<close>

definition attachment_allowed :: "string \<Rightarrow> string option \<Rightarrow> bridge_state \<Rightarrow> (bridge_error, unit) result" where
  "attachment_allowed sid materialization b =
     (if (case session_materialization sid b of Some m \<Rightarrow> Some (mz_attempt_id m) \<noteq> materialization | None \<Rightarrow> False)
      then Err (BrInvalidRequest ''session materialization is already owned by another request'')
      else if session_history_loading sid b \<or> session_operation_pending sid AdmitDelete b
      then Err (BrInvalidRequest ''another prompt or session mutation is already running'')
      else case state_of sid (sessions b) of
        None \<Rightarrow> Ok ()
      | Some s \<Rightarrow>
          (let retrying = active_session sid (sessions b) = None \<and> materialization \<noteq> None \<and>
                 (case session_materialization sid b of Some m \<Rightarrow> Some (mz_attempt_id m) = materialization | None \<Rightarrow> False) \<and>
                 can_retry_cold_attachment s
           in if retrying then Ok ()
              else map_err BrMirror (mirror_can_begin sid (ss_incarnation s) AdmitAttachment (sessions b))))"

definition reserve_reload :: "env \<Rightarrow> string \<Rightarrow> string \<Rightarrow> u64 \<Rightarrow> operation_kind \<Rightarrow> string \<Rightarrow> bridge_state
    \<Rightarrow> (bridge_error, attachment_reservation) result \<times> bridge_state" where
  "reserve_reload E sid cwd inc kind operation_id b =
     (if kind \<noteq> Load then (Err (BrInvalidRequest ''an active tracked session can only be reloaded with session/load''), b)
      else call_then (lift_bridge BrMirror (run_sessions (mirror_begin_exclusive sid inc Load operation_id) b)) (\<lambda>_ b1.
        case run_sessions (start_reload E (rg_epoch (sessions b1)) sid inc operation_id kind) b1 of
          (Err e, b2) \<Rightarrow> (Err (BrRuntime e), release_session_operation sid inc AdmitAttachment operation_id b2)
        | (Panic, b2) \<Rightarrow> (Panic, b2)
        | (Ok _, b2) \<Rightarrow> (Ok (ReloadAttachment cwd inc), put_sessions (supersede_history_sync sid inc (sessions b2)) b2)))"

text \<open>
  A fresh incarnation takes over the materialization that waits for it. Where the attachment does not
  start, it goes back to the old incarnation, or its waiters are told.
\<close>

definition cancel_materialization :: "string \<Rightarrow> materialization_resources \<Rightarrow> bridge_state \<Rightarrow> bridge_state" where
  "cancel_materialization reason m b =
     put_sessions ((sessions b)\<lparr>rg_handles :=
        fold (waiter_cancel reason) (mz_waiters m) (token_cancel (mz_cancellation m) (rg_handles (sessions b)))\<rparr>) b"

definition give_materialization :: "string \<Rightarrow> u64 option \<Rightarrow> materialization_resources option \<Rightarrow> bridge_state \<Rightarrow> bridge_state" where
  "give_materialization sid inc m b =
     (case m of
        None \<Rightarrow> b
      | Some m \<Rightarrow>
          (case (case inc of Some i \<Rightarrow> resources_of sid i (sessions b) | None \<Rightarrow> Err MirrorUnknownSession) of
             Ok r \<Rightarrow> put_sessions (put_resources sid (r\<lparr>re_materialization := Some m\<rparr>) (sessions b)) b
           | _ \<Rightarrow> cancel_materialization ''materialization owner was replaced'' m b))"

definition attachment_cwd :: "string \<Rightarrow> string option \<Rightarrow> bridge_state \<Rightarrow> (bridge_error, string) result" where
  "attachment_cwd sid requested b =
     (case hm_get (br_listed b) sid of
        Some cwd \<Rightarrow> Ok cwd
      | None \<Rightarrow>
          (case requested of
             Some cwd \<Rightarrow> if valid_session_path cwd then Ok cwd else Err (BrInvalidParams ''an absolute cwd is required'')
           | None \<Rightarrow> Err (BrInvalidParams ''an absolute cwd is required'')))"

definition reserve_fresh :: "env \<Rightarrow> string \<Rightarrow> operation_kind \<Rightarrow> string option \<Rightarrow> string \<Rightarrow> string option \<Rightarrow> bridge_state
    \<Rightarrow> (bridge_error, attachment_reservation) result \<times> bridge_state" where
  "reserve_fresh E sid kind requested operation_id materialization b =
     try_in b (attachment_cwd sid requested b) (\<lambda>cwd.
       let previous = map_option ss_incarnation (state_of sid (sessions b))
       in case (case materialization of Some i \<Rightarrow> take_session_materialization sid i b | None \<Rightarrow> (None, b)) of (m, b1) \<Rightarrow>
         case run_sessions (start_attachment E (rg_epoch (sessions b1)) sid cwd operation_id kind) b1 of
           (Ok inc, b2) \<Rightarrow>
             (let b3 = give_materialization sid (Some inc) m b2
              in (Ok (FreshAttachment cwd inc), put_sessions (register_cold E sid inc (sessions b3)) b3))
         | (Err e, b2) \<Rightarrow> (Err (BrRuntime e), give_materialization sid previous m b2)
         | (Panic, b2) \<Rightarrow> (Panic, b2))"

definition reserve_attachment :: "env \<Rightarrow> string \<Rightarrow> operation_kind \<Rightarrow> string option \<Rightarrow> string \<Rightarrow> string option \<Rightarrow> bridge_state
    \<Rightarrow> (bridge_error, attachment_reservation) result \<times> bridge_state" where
  "reserve_attachment E sid kind requested operation_id materialization b =
     try_in b (attachment_allowed sid materialization b) (\<lambda>_.
       call_then
         (case active_session sid (sessions b) of
            Some s \<Rightarrow> reserve_reload E sid (case ss_live s of Some live \<Rightarrow> lv_cwd live | None \<Rightarrow> []) (ss_incarnation s) kind operation_id b
          | None \<Rightarrow> reserve_fresh E sid kind requested operation_id materialization b)
         (\<lambda>reservation b1.
            call_then (begin_replay_validation sid b1) (\<lambda>_ b2.
              (Ok reservation, clear_attachment_delivery sid (reservation_incarnation reservation) b2))))"

section \<open>Cold inputs\<close>

text \<open>An answer to an interaction belongs to the session that asked.\<close>

definition pending_elicitation :: "string \<Rightarrow> bridge_state \<Rightarrow> (resource_owner option \<times> elicitation_responder) option" where
  "pending_elicitation iid b =
     (case hm_get (br_request_elicitations b) iid of
        Some pending \<Rightarrow> Some (None, pending)
      | None \<Rightarrow> map_option (\<lambda>p. (Some (fst p), snd p)) (elicitation_route iid (sessions b)))"

definition session_commands :: "string list" where
  "session_commands = [''session/load'', ''session/resume'', ''session/fork'', ''session/close'', ''session/delete'',
     ''session/prompt'', ''session/cancel'', ''session/set_mode'', ''session/set_config_option'', ''context/search'', ''context/read'']"

definition command_session_id :: "json \<Rightarrow> bridge_state \<Rightarrow> string option" where
  "command_session_id command b =
     Option.bind (get_str command ''type'') (\<lambda>t.
       if t = ''permission/respond'' then
         Option.bind (get_str command ''permissionId'') (\<lambda>i. map_option (\<lambda>p. ow_session_id (fst p)) (permission_route i (sessions b)))
       else if t = ''elicitation/respond'' then
         Option.bind (get_str command ''elicitationId'') (\<lambda>i.
           Option.bind (pending_elicitation i b) (\<lambda>p. map_option ow_session_id (fst p)))
       else if t \<in> set session_commands then get_str command ''sessionId'' else None)"

fun input_session_id :: "bridge_input \<Rightarrow> bridge_state \<Rightarrow> string option" where
  "input_session_id RuntimeSnapshotRequest b = None"
| "input_session_id (SessionViewRequest sid _ _ _) b = Some sid"
| "input_session_id (ObserveSession sid _ _ _ _ _) b = Some sid"
| "input_session_id (UnobserveSession sid _ _) b = Some sid"
| "input_session_id (RetireUnobservedSession sid _ _ _) b = Some sid"
| "input_session_id (FinishHistorySync owner) b = Some (ow_session_id (ho_session owner))"
| "input_session_id (TurnRequest sid _ _ _ _) b = Some sid"
| "input_session_id (BusinessRequest command _) b = command_session_id command b"
| "input_session_id (PreparedAttachmentInput command _ _) b = command_session_id command b"

definition nonempty_field :: "json \<Rightarrow> string \<Rightarrow> (bridge_error, string) result" where
  "nonempty_field v name =
     (case get_str v name of
        Some s \<Rightarrow> if s \<noteq> [] then Ok s else Err (BrInvalidParams (name @ '' must contain non-empty''))
      | None \<Rightarrow> Err (BrInvalidParams (name @ '' must contain non-empty'')))"

definition attachment_kind :: "string \<Rightarrow> operation_kind" where
  "attachment_kind operation = (if operation = ''session/load'' then Load else Resume)"

definition attachment_supported :: "operation_kind \<Rightarrow> bridge_state \<Rightarrow> bool" where
  "attachment_supported kind b =
     (case br_capabilities b of Some c \<Rightarrow> if kind = Load then ac_load_session c else ac_resume c | None \<Rightarrow> False)"

definition prepare_attachment :: "env \<Rightarrow> json \<Rightarrow> bridge_state \<Rightarrow> (bridge_error, prepared_attachment) result \<times> bridge_state" where
  "prepare_attachment E command b =
     try_in b (nonempty_field command ''type'') (\<lambda>operation.
     try_in b (nonempty_field command ''requestId'') (\<lambda>operation_id.
     try_in b (nonempty_field command ''sessionId'') (\<lambda>sid.
       let kind = attachment_kind operation
       in if \<not> attachment_supported kind b
          then (Err (BrMethodNotFound (''Agent did not advertise support for '' @ operation)), b)
          else call_then (reserve_attachment E sid kind (get_str command ''cwd'') operation_id
                  (get_str command ''bridgeMaterializationId'') b) (\<lambda>reservation b1.
            (Ok \<lparr>pa_operation_id = operation_id, pa_reservation = reservation\<rparr>, b1)))))"

text \<open>Either the prepared input, or nothing: then the input has been answered or waits.\<close>

definition prepare_command :: "env \<Rightarrow> string \<Rightarrow> json \<Rightarrow> nat option \<Rightarrow> bridge_state \<Rightarrow> (bridge_error, bridge_input option) result \<times> bridge_state" where
  "prepare_command E sid command response b =
     (case prepare_attachment E command b of
        (Ok prepared, b1) \<Rightarrow> (Ok (Some (PreparedAttachmentInput command prepared response)), b1)
      | (Err e, b1) \<Rightarrow>
          (let b2 = (case get_str command ''bridgeMaterializationId'' of
                 Some i \<Rightarrow> resolve_session_view_waiters E sid i (Err e) b1 | None \<Rightarrow> b1)
           in (Ok None, case response of Some k \<Rightarrow> b2\<lparr>br_rejected := br_rejected b2 @ [(k, e)]\<rparr> | None \<Rightarrow> b2))
      | (Panic, b1) \<Rightarrow> (Panic, b1))"

definition prepare_cold_input :: "env \<Rightarrow> (nat \<Rightarrow> string) \<Rightarrow> bridge_input \<Rightarrow> bridge_state \<Rightarrow> (bridge_error, bridge_input option) result \<times> bridge_state" where
  "prepare_cold_input E U input b =
     (let view = (\<lambda>sid cwd expected waiter.
            case prepare_session_view E U sid cwd expected waiter b of
              (Some command, b1) \<Rightarrow> prepare_command E sid command None b1
            | (None, b1) \<Rightarrow> (Ok None, b1))
      in case input_session_id input b of
           None \<Rightarrow> (Ok (Some input), b)
         | Some sid \<Rightarrow>
             if (case state_of sid (sessions b) of Some s \<Rightarrow> ss_incarnation s \<noteq> 0 | None \<Rightarrow> False) then (Ok (Some input), b)
             else case input of
               SessionViewRequest sid cwd expected k \<Rightarrow> view sid cwd expected (ViewWaiter k)
             | ObserveSession sid cwd expected key lease k \<Rightarrow> view sid cwd expected (ObserveWaiter key lease k)
             | BusinessRequest command k \<Rightarrow>
                 if get_str command ''type'' \<in> {Some ''session/load'', Some ''session/resume''}
                 then prepare_command E sid command (Some k) b
                 else (Ok (Some input), b)
             | _ \<Rightarrow> (Ok (Some input), b))"

text \<open>A prepared attachment that cannot be queued or run is undone, if it is still the one that was prepared.\<close>

definition prepared_is_current :: "string \<Rightarrow> operation_kind \<Rightarrow> prepared_attachment \<Rightarrow> bridge_state \<Rightarrow> bool" where
  "prepared_is_current sid kind prepared b \<longleftrightarrow>
     (case state_of sid (sessions b) of
        Some s \<Rightarrow> ss_incarnation s = reservation_incarnation (pa_reservation prepared) \<and>
          has_operation (\<lambda>op. so_operation_id op = pa_operation_id prepared \<and> so_kind op = kind) s
      | None \<Rightarrow> False)"

definition reject_prepared_attachment :: "env \<Rightarrow> json \<Rightarrow> prepared_attachment \<Rightarrow> bridge_error \<Rightarrow> bridge_state \<Rightarrow> bridge_state" where
  "reject_prepared_attachment E command prepared e b =
     (case get_str command ''sessionId'' of
        None \<Rightarrow> b
      | Some sid \<Rightarrow>
          (let kind = (if get_str command ''type'' = Some ''session/load'' then Load else Resume);
               inc = reservation_incarnation (pa_reservation prepared);
               reload = reservation_is_reload (pa_reservation prepared);
               validation = map_option rb_owner (replay_validation_backup sid b)
           in if \<not> prepared_is_current sid kind prepared b then b
              else case fail_runtime_attachment E sid inc (pa_operation_id prepared) kind reload b of
                (Ok _, b1) \<Rightarrow>
                  (let b2 = (if reload then b1 else put_sessions (mirror_remove E sid inc (sessions b1)) b1);
                       b3 = (case validation of Some owner \<Rightarrow> clear_attachment_tracking sid owner False b2 | None \<Rightarrow> b2);
                       b4 = (case get_str command ''bridgeMaterializationId'' of
                               Some i \<Rightarrow> resolve_session_view_waiters E sid i (Err e) b3 | None \<Rightarrow> b3)
                   in flush_bridge b4)
              | (_, b1) \<Rightarrow> b1))"

definition reserve_command_request_id :: "env \<Rightarrow> string \<Rightarrow> json \<Rightarrow> prepared_attachment option \<Rightarrow> bridge_state
    \<Rightarrow> (bridge_error, unit) result \<times> bridge_state" where
  "reserve_command_request_id E request_id command prepared b =
     (if request_id \<notin> set (br_in_flight b) then (Ok (), b\<lparr>br_in_flight := request_id # br_in_flight b\<rparr>)
      else let e = BrInvalidRequest ''requestId is already in flight on this bridge''
        in (Err e, case prepared of Some p \<Rightarrow> reject_prepared_attachment E command p e b | None \<Rightarrow> b))"

end
