(* ===== verification/Waiting_Views.thy ===== *)
theory Waiting_Views
  imports Cold_Attachment
begin

text \<open>
  Everybody who asks for a view gets one answer. The requests that are owed one are counted by their
  channels: those that wait in the materialization of a session, and those that were told that the
  session is gone; what the Bridge has answered comes on top. Every operation of the registry keeps
  what is owed (\<open>kept\<close>), so it is enough to follow the requests through the functions of the Bridge.
\<close>

section \<open>What is owed\<close>

definition entry_waiters :: "session_entry \<Rightarrow> view_waiter list" where
  "entry_waiters e = (case re_materialization (en_resources e) of Some m \<Rightarrow> mz_waiters m | None \<Rightarrow> [])"

definition waiters_at :: "session_registry \<Rightarrow> string \<Rightarrow> view_waiter list" where
  "waiters_at rg sid = (case entry_of sid rg of Some e \<Rightarrow> entry_waiters e | None \<Rightarrow> [])"

abbreviation channels :: "view_waiter list \<Rightarrow> nat multiset" where
  "channels ws \<equiv> mset (map waiter_reply ws)"

definition waiting :: "session_registry \<Rightarrow> nat multiset" where
  "waiting rg = (\<Sum>sid \<in> set (map fst (rg_sessions rg)). channels (waiters_at rg sid))"

definition told :: "handles \<Rightarrow> nat multiset" where
  "told h = mset (map fst (filter (\<lambda>x. case snd x of ViewUnavailable _ \<Rightarrow> True | _ \<Rightarrow> False) (hd_sent h)))"

definition kept :: "session_registry \<Rightarrow> session_registry \<Rightarrow> bool" where
  "kept rg rg' \<longleftrightarrow> waiting rg' + told (rg_handles rg') = waiting rg + told (rg_handles rg) \<and>
     set (hd_cancelled (rg_handles rg)) \<subseteq> set (hd_cancelled (rg_handles rg')) \<and>
     (\<forall>sid. waiters_at rg' sid = [] \<or> waiters_at rg' sid = waiters_at rg sid)"

lemma kept_refl [simp, intro]: "kept rg rg"
  by (simp add: kept_def)

lemma kept_trans [trans]: "kept rg rg1 \<Longrightarrow> kept rg1 rg2 \<Longrightarrow> kept rg rg2"
  unfolding kept_def by (metis subset_trans)

lemma waiting_over:
  assumes "finite A" "{sid. waiters_at rg sid \<noteq> []} \<subseteq> A"
  shows "waiting rg = (\<Sum>sid \<in> A. channels (waiters_at rg sid))"
proof -
  let ?B = "set (map fst (rg_sessions rg))"
  have n: "waiters_at rg sid = []" if "sid \<notin> ?B" for sid
    using that by (simp add: waiters_at_def entry_of_def bt_get_def map_of_eq_None_iff [THEN iffD2])
  have "waiting rg = (\<Sum>sid \<in> {sid. waiters_at rg sid \<noteq> []}. channels (waiters_at rg sid))"
    unfolding waiting_def by (rule sum.mono_neutral_right) (use n in auto)
  also have "\<dots> = (\<Sum>sid \<in> A. channels (waiters_at rg sid))"
    by (rule sum.mono_neutral_left) (use assms in auto)
  finally show ?thesis .
qed

lemma waiters_finite: "finite {sid. waiters_at rg sid \<noteq> []}"
proof (rule finite_subset)
  show "{sid. waiters_at rg sid \<noteq> []} \<subseteq> set (map fst (rg_sessions rg))"
    by (force simp: waiters_at_def entry_of_def bt_get_def split: option.splits dest: map_of_SomeD)
qed simp

lemma waiting_cong: "waiters_at rg' = waiters_at rg \<Longrightarrow> waiting rg' = waiting rg"
  using waiting_over [OF waiters_finite [of rg], of rg] waiting_over [OF waiters_finite [of rg], of rg'] by simp

lemma waiting_changed:
  assumes "waiters_at rg' = (waiters_at rg)(sid := ws)"
  shows "waiting rg' + channels (waiters_at rg sid) = waiting rg + channels ws"
proof -
  let ?A = "insert sid {k. waiters_at rg k \<noteq> []}"
  have f: "finite ?A" using waiters_finite by simp
  let ?rest = "\<Sum>k \<in> ?A - {sid}. channels (waiters_at rg k)"
  have "waiting rg' = (\<Sum>k \<in> ?A. channels (waiters_at rg' k))"
    by (rule waiting_over [OF f]) (use assms in \<open>auto split: if_splits\<close>)
  also have "\<dots> = channels ws + (\<Sum>k \<in> ?A - {sid}. channels (waiters_at rg' k))"
    using sum.remove [OF f, of sid "\<lambda>k. channels (waiters_at rg' k)"] assms by simp
  also have "(\<Sum>k \<in> ?A - {sid}. channels (waiters_at rg' k)) = ?rest"
    by (rule sum.cong) (use assms in auto)
  finally have 1: "waiting rg' = channels ws + ?rest" .
  have "waiting rg = (\<Sum>k \<in> ?A. channels (waiters_at rg k))"
    by (rule waiting_over [OF f]) auto
  also have "\<dots> = channels (waiters_at rg sid) + ?rest"
    using sum.remove [OF f, of sid "\<lambda>k. channels (waiters_at rg k)"] by simp
  finally have 2: "waiting rg = channels (waiters_at rg sid) + ?rest" .
  show ?thesis unfolding 1 2 by (simp only: ac_simps)
qed

section \<open>The registry\<close>

lemma kept_view:
  assumes "waiters_at rg' = waiters_at rg" "told (rg_handles rg') = told (rg_handles rg)"
    and "set (hd_cancelled (rg_handles rg)) \<subseteq> set (hd_cancelled (rg_handles rg'))"
  shows "kept rg rg'"
  using assms waiting_cong [OF assms(1)] by (simp add: kept_def)

lemma kept_fields [simp]:
  "kept rg (rg\<lparr>rg_history := c\<rparr>)" "kept rg (rg\<lparr>rg_overlay_bytes := n\<rparr>)" "kept rg (rg\<lparr>rg_next_operation := m\<rparr>)"
  "kept rg (rg\<lparr>rg_retained_terminals := ts\<rparr>)" "kept rg (rg\<lparr>rg_retained_terminal_bytes := n\<rparr>)"
  "kept rg (rg\<lparr>rg_permission_owners := a\<rparr>)" "kept rg (rg\<lparr>rg_elicitation_owners := a\<rparr>)"
  "kept rg (rg\<lparr>rg_url_owners := b\<rparr>)" "kept rg (rg\<lparr>rg_retired_ids := ids\<rparr>)" "kept rg (rg\<lparr>rg_journal := j\<rparr>)"
  "kept rg (rg\<lparr>rg_effects := es\<rparr>)" "kept rg (rg\<lparr>rg_next_incarnation := m\<rparr>)" "kept rg (rg\<lparr>rg_connection_revision := m\<rparr>)"
  "kept rg (rg\<lparr>rg_retained_terminals := ts, rg_retained_terminal_bytes := n\<rparr>)"
  "kept rg (rg\<lparr>rg_retained_terminal_bytes := n, rg_retained_terminals := ts\<rparr>)"
  "kept rg (rg\<lparr>rg_request_elicitations := e, rg_request_url_flows := f,
      rg_resolved_request_elicitations := r, rg_resolved_request_url_flows := q\<rparr>)"
  by (rule kept_view; simp add: waiters_at_def fun_eq_iff entry_of_def)+

lemma kept_put_entry:
  assumes "entry_waiters e = waiters_at rg sid"
  shows "kept rg (put_entry sid e rg)"
  by (rule kept_view) (use assms in \<open>simp_all add: waiters_at_def fun_eq_iff registry_simps\<close>)

lemma kept_put_state [simp]: "kept rg (put_state sid s rg)"
  by (simp add: put_state_def kept_put_entry waiters_at_def entry_waiters_def split: option.split)

lemma kept_put_resources:
  assumes "\<And>e. entry_of sid rg = Some e \<Longrightarrow> re_materialization r = re_materialization (en_resources e)"
  shows "kept rg (put_resources sid r rg)"
  using assms by (auto simp: put_resources_def waiters_at_def entry_waiters_def intro!: kept_put_entry split: option.split)

lemma kept_handles:
  assumes "hd_sent h = hd_sent (rg_handles rg)" "set (hd_cancelled (rg_handles rg)) \<subseteq> set (hd_cancelled h)"
  shows "kept rg (rg\<lparr>rg_handles := h\<rparr>)"
  by (rule kept_view) (use assms in \<open>simp_all add: waiters_at_def fun_eq_iff entry_of_def told_def\<close>)

text \<open>Composition.\<close>

lemma kept_then: "kept rg rg1 \<Longrightarrow> (\<And>g. kept g (f g)) \<Longrightarrow> kept rg (f rg1)"
  using kept_trans by blast

lemma kept_call_then [intro]:
  assumes "kept rg (snd x)" "\<And>a rg1. x = (Ok a, rg1) \<Longrightarrow> kept rg1 (snd (g a rg1))"
  shows "kept rg (snd (call_then x g))"
proof (cases x)
  case (Pair r rg1)
  with assms show ?thesis by (cases r) (auto intro: kept_trans)
qed

lemma kept_try [intro]: "(\<And>a. r = Ok a \<Longrightarrow> kept rg (snd (f a))) \<Longrightarrow> kept rg (snd (try_in rg r f))"
  by (cases r) auto

lemma kept_expect [intro]: "(\<And>a. x = Some a \<Longrightarrow> kept rg (snd (f a))) \<Longrightarrow> kept rg (snd (expect_in rg x f))"
  by (cases x) auto

lemma kept_if: "(b \<Longrightarrow> kept rg (snd x)) \<Longrightarrow> (\<not> b \<Longrightarrow> kept rg (snd y)) \<Longrightarrow> kept rg (snd (if b then x else y))"
  by simp

lemmas kept_intros = kept_call_then kept_try kept_expect kept_if

lemma kept_more:
  "kept rg rg1 \<Longrightarrow> kept rg (put_state sid s rg1)" "kept rg rg1 \<Longrightarrow> kept rg (rg1\<lparr>rg_history := c\<rparr>)"
  "kept rg rg1 \<Longrightarrow> kept rg (rg1\<lparr>rg_overlay_bytes := n\<rparr>)" "kept rg rg1 \<Longrightarrow> kept rg (rg1\<lparr>rg_journal := j\<rparr>)"
  "kept rg rg1 \<Longrightarrow> kept rg (rg1\<lparr>rg_effects := es\<rparr>)" "kept rg rg1 \<Longrightarrow> kept rg (rg1\<lparr>rg_next_operation := m\<rparr>)"
  by (erule kept_trans; simp)+

text \<open>Retirement tells everybody who waits.\<close>

lemma told_append:
  assumes "hd_sent h' = hd_sent h @ xs"
  shows "told h' = told h + mset (map fst (filter (\<lambda>x. case snd x of ViewUnavailable _ \<Rightarrow> True | _ \<Rightarrow> False) xs))"
  unfolding told_def assms filter_append map_append mset_append ..

lemma told_unavailable:
  assumes "hd_sent h' = hd_sent h @ map (\<lambda>w. (waiter_reply w, ViewUnavailable reason)) ws"
  shows "told h' = told h + channels ws"
  unfolding told_append [OF assms] filter_map map_map by (simp add: multiset.map_comp comp_def)

lemma told_retirement:
  assumes "hd_sent h' = hd_sent h @ retirement_replies reason r"
  shows "told h' = told h + channels (case re_materialization r of Some m \<Rightarrow> mz_waiters m | None \<Rightarrow> [])"
proof -
  have "filter (\<lambda>x. case snd x of ViewUnavailable _ \<Rightarrow> True | _ \<Rightarrow> False) (retirement_replies reason r) =
      (case re_materialization r of Some m \<Rightarrow> map (\<lambda>w. (waiter_reply w, ViewUnavailable reason)) (mz_waiters m) | None \<Rightarrow> [])"
    by (simp add: retirement_replies_def filter_map comp_def split: option.split)
  then show ?thesis unfolding told_append [OF assms] by (simp add: multiset.map_comp comp_def split: option.split)
qed

lemma shutdown_cancelled: "set (hd_cancelled h) \<subseteq> set (hd_cancelled (snd (observers_shutdown (o', h))))"
  using shutdown_effects(2) [of o' h] by (cases "observers_shutdown (o', h)") simp

lemma resources_cancel_cancelled: "set (hd_cancelled h) \<subseteq> set (hd_cancelled (snd (resources_cancel reason (r, h))))"
proof -
  let ?h2 = "fold (\<lambda>e. reply_send (er_sender (snd e)) ElicitationCancelled) (re_elicitations r)
    (fold (\<lambda>e. reply_send (pr_sender (snd e)) PermissionCancelled) (re_permissions r) h)"
  have c: "hd_cancelled ?h2 = hd_cancelled h" by (simp add: replies_fold)
  let ?h3 = "case re_materialization r of
      Some m \<Rightarrow> fold (waiter_cancel reason) (mz_waiters m) (token_cancel (mz_cancellation m) ?h2) | None \<Rightarrow> ?h2"
  have "set (hd_cancelled h) \<subseteq> set (hd_cancelled ?h3)"
    using waiters_fold [of reason] c by (auto split: option.split)
  then have t: "set (hd_cancelled h) \<subseteq> set (hd_cancelled (case re_history_sync r of
      Some s \<Rightarrow> token_cancel (hy_cancellation s) ?h3 | None \<Rightarrow> ?h3))"
    by (auto split: option.splits)
  have e: "snd (resources_cancel reason (r, h)) = snd (observers_shutdown (re_observers r,
      case re_history_sync r of Some s \<Rightarrow> token_cancel (hy_cancellation s) ?h3 | None \<Rightarrow> ?h3))"
    by (simp only: resources_cancel_def prod.case Let_def split: prod.split) simp
  show ?thesis unfolding e by (rule subset_trans [OF t shutdown_cancelled])
qed

text \<open>What a cancellation of the resources does to the two accounts.\<close>

lemma resources_cancel_slots:
  "re_materialization (fst (resources_cancel reason (r, h))) = None"
  by (simp add: resources_cancel_def Let_def split: prod.split)

lemma kept_cancel [simp]: "kept rg (cancel_resources sid inc reason rg)"
proof (cases "\<exists>e. entry_of sid rg = Some e \<and> ss_incarnation (en_state e) = inc")
  case True
  then obtain e where e: "entry_of sid rg = Some e" "ss_incarnation (en_state e) = inc" by blast
  obtain r h where c: "resources_cancel reason (en_resources e, rg_handles rg) = (r, h)" by fastforce
  let ?g = "cancel_resources sid inc reason rg"
  have g: "waiters_at ?g = (waiters_at rg)(sid := [])" "rg_handles ?g = h"
    using e c resources_cancel_slots [of reason "en_resources e" "rg_handles rg"]
    by (simp_all add: cancel_resources_def Let_def waiters_at_def entry_waiters_def registry_simps fun_eq_iff)
  have t: "told h = told (rg_handles rg) + channels (waiters_at rg sid)"
    using told_retirement resources_cancel_effects [OF c] e(1) by (simp add: waiters_at_def entry_waiters_def)
  show ?thesis
    using waiting_changed [OF g(1)] t resources_cancel_cancelled [of "rg_handles rg" reason "en_resources e"] c
    by (simp add: kept_def g)
qed (auto simp: cancel_resources_def split: option.split)

lemma kept_retire [simp]: "kept rg (retire_entry sid inc reason rg)"
proof (cases "\<exists>e. entry_of sid rg = Some e \<and> ss_incarnation (en_state e) = inc")
  case True
  then obtain e where e: "entry_of sid rg = Some e" "ss_incarnation (en_state e) = inc" by blast
  let ?g = "cancel_resources sid inc reason rg"
  have r: "retire_entry sid inc reason rg = ?g\<lparr>rg_sessions := bt_remove sid (rg_sessions ?g),
      rg_retired_ids := List.insert sid (rg_retired_ids ?g)\<rparr>"
    using e by (simp add: retire_entry_def Let_def)
  have "waiters_at ?g sid = []"
    using e resources_cancel_slots [of reason "en_resources e" "rg_handles rg"]
    by (cases "resources_cancel reason (en_resources e, rg_handles rg)")
      (simp add: cancel_resources_def Let_def waiters_at_def entry_waiters_def registry_simps)
  then have "kept ?g (retire_entry sid inc reason rg)" unfolding r
    by (intro kept_view) (auto simp: waiters_at_def fun_eq_iff entry_of_def bt.get_del)
  then show ?thesis by (rule kept_trans [OF kept_cancel])
qed (auto simp: retire_entry_def split: option.split)

text \<open>The history transactions.\<close>

lemma kept_history_call [simp]: "kept rg (snd (history_call f rg))"
  by (simp add: history_call_def split: prod.split)

lemma kept_with_state [simp]: "kept rg (snd (with_state sid inc f rg))"
  unfolding with_state_def by (intro kept_intros) (simp split: prod.split)

lemma kept_with_overlay [simp]: "kept rg (snd (with_overlay sid inc f rg))"
  unfolding with_overlay_def account_overlay_def
  by (intro kept_intros) (auto simp: kept_more split: prod.split result.split)

lemma kept_terminals [simp]:
  "kept rg (remove_retained_terminals E key rg)" "kept rg (prune_retained_terminals E key us rg)"
  by (simp_all add: remove_retained_terminals_def prune_retained_terminals_def Let_def split: option.split)

lemma kept_stop_absence [simp]: "kept rg (stop_absence_in sid rg)"
proof -
  have "kept rg (put_resources sid (en_resources e\<lparr>re_observers := obs\<rparr>) (rg\<lparr>rg_handles := h\<rparr>))"
    if "entry_of sid rg = Some e" "stop_absence (re_observers (en_resources e), rg_handles rg) = (obs, h)" for e obs h
  proof -
    have "hd_sent h = hd_sent (rg_handles rg) \<and> set (hd_cancelled (rg_handles rg)) \<subseteq> set (hd_cancelled h)"
      using that(2) by (auto simp: stop_absence_def cancel_absence_def permit_cancel_def permit_exchange_def
          token_cancel_def split: option.splits if_splits)
    then have "kept rg (rg\<lparr>rg_handles := h\<rparr>)" by (simp add: kept_handles)
    then show ?thesis by (rule kept_trans) (use that(1) in \<open>auto simp: registry_simps intro!: kept_put_resources\<close>)
  qed
  then show ?thesis by (auto simp: stop_absence_in_def split: option.split prod.split)
qed

lemma kept_clear [simp]: "kept rg (clear_history_for_replacement E sid inc rg)"
proof -
  have "kept rg ((remove_retained_terminals E key (put_state sid s (rg\<lparr>rg_overlay_bytes := n\<rparr>)))\<lparr>rg_history := c\<rparr>)"
    for s n key c
    by (rule kept_trans [OF _ kept_fields(1)], rule kept_trans [OF _ kept_terminals(1)],
        rule kept_trans [OF _ kept_put_state], simp)
  then show ?thesis by (auto simp: clear_history_for_replacement_def Let_def split: option.split)
qed

lemma kept_put_new: "state_of sid rg = None \<Longrightarrow> kept rg (put_entry sid (entry_new s) rg)"
  by (rule kept_put_entry)
     (simp add: entry_waiters_def entry_new_def resources_default_def waiters_at_def state_of_def)

lemma kept_register [simp]: "kept rg (register_history E sid inc ready rg)"
proof -
  let ?rg = "rg\<lparr>rg_next_incarnation := max (rg_next_incarnation rg) inc\<rparr>"
  have p: "kept g (replace_previous E sid inc g)" for g
    using kept_trans [OF kept_clear kept_retire] by (simp add: replace_previous_def Let_def split: option.split)
  have "kept rg ((replace_previous E sid inc ?rg)\<lparr>rg_history := c\<rparr>)" for c
    by (rule kept_trans [OF _ kept_fields(1)], rule kept_trans [OF _ p], simp)
  then show ?thesis
    by (auto simp: register_history_def Let_def intro: kept_trans [OF _ kept_put_state] kept_trans [OF _ kept_put_new]
        split: option.split prod.split)
qed

lemma kept_remove [simp]: "kept rg (mirror_remove E sid inc rg)"
  using kept_trans [OF kept_clear kept_retire] by (simp add: mirror_remove_def Let_def split: option.split)

lemma kept_load_records [simp]:
  "kept rg (snd (append_load_update E sid inc a u rg))" "kept rg (snd (invalidate_load sid inc a rg))"
  "kept rg (snd (begin_load sid inc a rg))" "kept rg (snd (fail_load sid inc a m r rg))"
  unfolding append_load_update_def invalidate_load_def begin_load_def fail_load_def
  by (intro kept_intros; simp add: kept_more)+

lemma kept_append_load_updates [simp]: "kept rg (snd (append_load_updates E sid inc a us rg))"
  by (induction us arbitrary: rg) (auto intro: kept_call_then)

lemma kept_commit_load [simp]: "kept rg (snd (commit_load E sid inc a rg))"
  unfolding commit_load_def Let_def
  by (intro kept_intros; simp) (auto simp: kept_more intro!: kept_trans [OF _ kept_terminals(2)])

lemma kept_commit_attachment [simp]: "kept rg (snd (commit_attachment_cache E sid inc a rg))"
  unfolding commit_attachment_cache_def by (intro kept_intros; simp)

lemma kept_use_cached [simp]: "kept rg (snd (use_cached_history E sid inc us notice rg))"
proof -
  have "kept rg (snd (begin_load sid inc a (put_state sid s rg)))" for a s
    by (rule kept_trans [OF kept_put_state kept_load_records(3)])
  then show ?thesis
    unfolding use_cached_history_def Let_def by (intro kept_intros; simp add: kept_more)
qed

lemma kept_turn_ends [simp]:
  "kept rg (snd (mirror_complete_turn E sid inc op t rg))" "kept rg (snd (mirror_block_turn sid inc op m rg))"
  "kept rg (snd (mirror_append_turn_update E sid inc op u rg))" "kept rg (snd (append_session_update E sid inc u rg))"
  by (auto simp: mirror_complete_turn_def mirror_block_turn_def mirror_append_turn_update_def append_session_update_def
      kept_more intro!: kept_intros)

lemma kept_commit_memory [simp]: "kept rg (snd (commit_completed_turn_from_memory E sid inc op rg))"
  unfolding commit_completed_turn_from_memory_def by (intro kept_intros; simp add: kept_more)

lemma kept_start_turn [simp]: "kept rg (snd (start_turn E sid inc hrev intent prompt rg))"
  unfolding start_turn_def Let_def by (intro kept_intros; simp) (simp split: turn_admission.split)

lemma kept_exclusive [simp]:
  "kept rg (snd (mirror_begin_exclusive sid inc kind op rg))" "kept rg (snd (mirror_settle_exclusive sid inc adm op rg))"
  "kept rg (snd (mirror_touch sid inc rg))"
  by (auto simp: mirror_begin_exclusive_def mirror_settle_exclusive_def mirror_touch_def intro!: kept_intros)

lemma kept_mirror_view [simp]: "kept rg (snd (mirror_view sid inc rg))"
  unfolding mirror_view_def by (rule kept_try) (simp split: prod.split option.split)

lemma kept_retain_terminal [simp]: "kept rg (snd (retain_terminal_output E sid inc tid t rg))"
  unfolding retain_terminal_output_def Let_def
  by (intro kept_intros; simp) (auto intro!: kept_trans [OF _ kept_put_state])

lemma kept_mirror [simp]: "kept rg (mirror_do E c rg)"
  by (cases c) simp_all

text \<open>The operations of the runtime, and every step of it.\<close>

lemma kept_commits [simp]:
  "kept rg (snd (commit_session E sid rg))" "kept rg (commit_delta E n change rg)" "kept rg (commit_removal E sid inc rg)"
  "kept rg (commit_control_update E sid inc key u rg)" "kept rg (commit_turn_update E sid inc op u rg)"
  "kept rg (add_effects es rg)" "kept rg (commit_connection E rg)"
proof -
  have d: "kept g (commit_delta E n change g)" for g n change by (simp add: commit_delta_def)
  have p: "kept g (commit_delta E n change (put_state sid s g))" for g n change s
    by (rule kept_trans [OF kept_put_state d])
  show "kept rg (snd (commit_session E sid rg))"
    unfolding commit_session_def Let_def
    by (auto simp: expect_in_def p split: option.split)
  show "kept rg (commit_connection E rg)"
    unfolding commit_connection_def Let_def by (rule kept_trans [OF kept_fields(13) d])
qed (simp_all add: commit_delta_def commit_removal_def commit_control_update_def commit_turn_update_def add_effects_def
      Let_def kept_more split: option.split)

lemma kept_publish [simp]: "kept rg (snd (publish E sid a rg))"
  unfolding publish_def by (intro kept_intros; simp)

lemma kept_with_owner [simp]: "kept rg (snd (with_owner sid inc f rg))"
  unfolding with_owner_def by (intro kept_intros) (simp split: prod.split)

lemma kept_owner_op [simp]: "kept rg (snd (owner_op E ep sid inc f rg))"
  unfolding owner_op_def by (intro kept_intros; simp)

lemma kept_install [simp]: "kept rg (install_live E sid inc live rg)"
proof -
  let ?g = "case state_of sid rg of
      Some s \<Rightarrow> if ss_incarnation s \<noteq> inc
        then retire_entry sid (ss_incarnation s) ''session incarnation was replaced''
               (clear_history_for_replacement E sid (ss_incarnation s) rg) else rg
    | None \<Rightarrow> rg"
  have g: "kept rg ?g" using kept_trans [OF kept_clear kept_retire] by (simp split: option.split)
  show ?thesis
    by (cases "state_of sid ?g")
      (simp_all add: install_live_def Let_def del: fun_upd_apply, auto intro: kept_trans [OF g] kept_put_new)
qed

lemma kept_attachments [simp]:
  "kept rg (snd (start_attachment E ep sid cwd op kind rg))" "kept rg (snd (start_reload E ep sid inc op kind rg))"
  "kept rg (snd (fail_reload E ep sid inc op rg))" "kept rg (snd (fail_attachment E ep sid inc op kind rg))"
  "kept rg (snd (finish_session_cleanup sid inc adm op rg))"
proof -
  have i: "kept rg (install_live E sid k live (rg\<lparr>rg_next_incarnation := k\<rparr>))" for k live
    by (rule kept_trans [OF kept_fields(12) kept_install])
  have "kept rg (snd (expect_in (install_live E sid k live (rg\<lparr>rg_next_incarnation := k\<rparr>)) x (\<lambda>s.
      publish E sid k (put_state sid (f s) (install_live E sid k live (rg\<lparr>rg_next_incarnation := k\<rparr>))))))"
    for k live x and f :: "session_state \<Rightarrow> session_state"
    by (rule kept_trans [OF i kept_expect], rule kept_trans [OF kept_put_state kept_publish])
  then show "kept rg (snd (start_attachment E ep sid cwd op kind rg))"
    unfolding start_attachment_def Let_def by (intro kept_try kept_if) simp_all
  have r: "kept g (commit_removal E sid inc (add_effects es g))" for g es
    by (rule kept_trans [OF kept_commits(6) kept_commits(3)])
  have "kept g (snd (take_live_for_retirement sid inc g))" for g
    by (auto simp: take_live_for_retirement_def Let_def split: option.split)
  then have t: "kept g b" if "take_live_for_retirement sid inc g = (a, b)" for g a b using that by (metis snd_conv)
  have "kept b (snd (try_in b (ok_or UnknownSession a) (\<lambda>l. (Ok (), commit_removal E sid inc
      (add_effects (fst (drain_session_liveness sid inc l)) b)))))" for a b
    by (rule kept_try) (simp add: r)
  from kept_trans [OF t this] have "kept g (snd (retire_live E sid inc g))" for g
    unfolding retire_live_def by (simp split: prod.split)
  then show "kept rg (snd (fail_attachment E ep sid inc op kind rg))"
    unfolding fail_attachment_def by (intro kept_intros; simp)
  show "kept rg (snd (start_reload E ep sid inc op kind rg))"
    unfolding start_reload_def by (intro kept_try kept_if) simp_all
  show "kept rg (snd (fail_reload E ep sid inc op rg))"
    unfolding fail_reload_def by (rule kept_owner_op)
  show "kept rg (snd (finish_session_cleanup sid inc adm op rg))"
    unfolding finish_session_cleanup_def by (intro kept_intros; simp)
qed

lemma kept_runtime_step:
  assumes "runtime_step E rg rg'"
  shows "kept rg rg'"
  using assms
proof cases
  case (rs_upsert sid s s' j effects)
  then show ?thesis
    by (auto simp: upserted_def intro!: kept_trans [OF _ kept_commits(1)] kept_more kept_trans [OF _ kept_commits(6)])
next
  case (rs_admit sid s inc intent revision prompt adm rg1)
  then have "kept rg rg1" using kept_start_turn [of rg E sid inc revision intent prompt] by simp
  with rs_admit(1) show ?thesis by (auto simp: upserted_def intro: kept_trans [OF _ kept_commits(1)])
next
  case (rs_install sid controls inc op lifecycle rg1 cwd session s)
  have i: "kept rg rg1" unfolding rs_install(6) by (rule kept_trans [OF kept_fields(12) kept_install])
  then have "kept rg (if op = None then rg1 else put_state sid (s\<lparr>ss_operation := op\<rparr>) rg1)"
    by (simp add: kept_more)
  with rs_install(1) show ?thesis by (auto simp: upserted_def intro: kept_trans [OF _ kept_commits(1)])
next
  case (rs_remove sid s inc s' l' op t effects)
  show ?thesis unfolding rs_remove(1)
    by (rule kept_trans [OF _ kept_commits(3)], rule kept_trans [OF _ kept_commits(6)], simp)
next
  case (rs_connection flows elicitations res1 res2)
  show ?thesis unfolding rs_connection(1) by (rule kept_trans [OF kept_fields(16) kept_commits(7)])
next
  case (rs_control sid s l inc key update)
  show ?thesis unfolding rs_control(1) by (rule kept_trans [OF kept_put_state kept_commits(4)])
next
  case (rs_terminal sid s l inc tid terminal m l' revision)
  show ?thesis unfolding rs_terminal(1) by (rule kept_trans [OF kept_put_state kept_commits(2)])
qed simp_all

lemma kept_interactions [simp]:
  "kept rg (snd (insert_permission ow iid p rg))" "kept rg (snd (take_permission iid ow rg))"
  "kept rg (snd (insert_elicitation ow iid q rg))" "kept rg (snd (take_elicitation iid ow rg))"
  "kept rg (snd (register_url_route u owner rg))" "kept rg (snd (take_url_route u reg rg))"
  "kept rg (snd (begin_history_sync sync rg))" "kept rg (supersede_history_sync sid inc rg)" "kept rg (finish_history_sync sync rg)"
proof -
  have s: "kept g (set_history_sync sid v g)" for g sid v
    by (auto simp: set_history_sync_def intro!: kept_put_resources split: option.split)
  have p: "kept g (put_resources sid (r\<lparr>re_permissions := m\<rparr>) g)" "kept g (put_resources sid (r\<lparr>re_elicitations := n\<rparr>) g)"
    if "resources_of sid inc g = Ok r" for g sid inc r m n
    by (rule kept_put_resources; use that in \<open>auto simp: resources_of_Ok\<close>)+
  show "kept rg (snd (insert_permission ow iid p rg))" "kept rg (snd (insert_elicitation ow iid q rg))"
    unfolding insert_permission_def insert_elicitation_def Let_def
    by (intro kept_intros; auto intro: kept_trans [OF p(1) kept_fields(6)] kept_trans [OF p(2) kept_fields(7)])+
  show "kept rg (snd (take_permission iid ow rg))" "kept rg (snd (take_elicitation iid ow rg))"
    unfolding take_permission_def take_elicitation_def Let_def
    by (auto split: result.split intro: kept_trans [OF kept_fields(6) p(1)] kept_trans [OF kept_fields(7) p(2)])
  show "kept rg (snd (register_url_route u owner rg))" "kept rg (snd (take_url_route u reg rg))"
    unfolding register_url_route_def take_url_route_def by (auto intro!: kept_intros)
  show "kept rg (snd (begin_history_sync sync rg))"
    unfolding begin_history_sync_def Let_def by (intro kept_intros; simp add: kept_trans [OF kept_stop_absence s])
  show "kept rg (supersede_history_sync sid inc rg)" "kept rg (finish_history_sync sync rg)"
    by (auto simp: supersede_history_sync_def finish_history_sync_def s split: result.split option.split)
qed

lemma kept_route_step: "route_step rg rg' \<Longrightarrow> kept rg rg'"
  by (cases rule: route_step.cases) (auto simp: kept_put_new state_of_def)

section \<open>The Bridge\<close>

definition owed :: "bridge_state \<Rightarrow> nat multiset" where
  "owed b = waiting (sessions b) + told (rg_handles (sessions b)) + mset (map fst (br_answers b))"

definition later :: "bridge_state \<Rightarrow> bridge_state \<Rightarrow> bool" where
  "later b b' \<longleftrightarrow> set (br_gone b) \<subseteq> set (br_gone b') \<and>
     set (hd_cancelled (rg_handles (sessions b))) \<subseteq> set (hd_cancelled (rg_handles (sessions b')))"

text \<open>The requests that wait.\<close>

definition held :: "bridge_state \<Rightarrow> view_waiter set" where
  "held b = (\<Union>sid. set (waiters_at (sessions b) sid))"

text \<open>
  A function of the Bridge is handed the requests \<open>A\<close> and leaves \<open>B\<close> to its caller: the others wait or
  are answered, but for those whose receiver has gone.
\<close>

definition serves :: "view_waiter multiset \<Rightarrow> bridge_state \<Rightarrow> view_waiter multiset \<Rightarrow> bridge_state \<Rightarrow> bool" where
  "serves A b B b' \<longleftrightarrow> later b b' \<and>
     (\<exists>D. owed b + image_mset waiter_reply A = owed b' + image_mset waiter_reply (B + D) \<and>
        (\<forall>w \<in># D. waiter_is_closed w b') \<and> held b' \<union> set_mset (B + D) \<subseteq> held b \<union> set_mset A)"

lemma later_refl [simp]: "later b b"
  by (simp add: later_def)

lemma later_trans: "later b b1 \<Longrightarrow> later b1 b2 \<Longrightarrow> later b b2"
  by (auto simp: later_def)

lemma closed_later: "later b b' \<Longrightarrow> waiter_is_closed w b \<Longrightarrow> waiter_is_closed w b'"
  by (cases w) (auto simp: later_def lease_dead_def lease_is_cancelled_def token_is_cancelled_def)

lemma serves_refl [simp, intro]: "serves {#} b {#} b"
  by (auto simp: serves_def)

lemma serves_all: "serves A b A b"
  by (auto simp: serves_def intro!: exI [of _ "{#}"])

lemma serves_trans:
  assumes "serves A b B b1" "serves B b1 C b2"
  shows "serves A b C b2"
proof -
  obtain D D' where d: "owed b + image_mset waiter_reply A = owed b1 + image_mset waiter_reply (B + D)"
    "\<forall>w \<in># D. waiter_is_closed w b1" "held b1 \<union> set_mset (B + D) \<subseteq> held b \<union> set_mset A"
    "owed b1 + image_mset waiter_reply B = owed b2 + image_mset waiter_reply (C + D')" "\<forall>w \<in># D'. waiter_is_closed w b2"
    "held b2 \<union> set_mset (C + D') \<subseteq> held b1 \<union> set_mset B"
    using assms unfolding serves_def by blast
  have l: "later b1 b2" using assms(2) by (simp add: serves_def)
  have "owed b + image_mset waiter_reply A = (owed b1 + image_mset waiter_reply B) + image_mset waiter_reply D"
    using d(1) by (simp add: ac_simps)
  also have "\<dots> = owed b2 + image_mset waiter_reply (C + (D + D'))" using d(4) by (simp add: ac_simps)
  finally have "owed b + image_mset waiter_reply A = owed b2 + image_mset waiter_reply (C + (D + D'))" .
  moreover have "\<forall>w \<in># D + D'. waiter_is_closed w b2" using d(2,5) closed_later [OF l] by auto
  moreover have "held b2 \<union> set_mset (C + (D + D')) \<subseteq> held b \<union> set_mset A" using d(3,6) by auto
  ultimately show ?thesis using assms later_trans unfolding serves_def by blast
qed

lemma serves_more:
  assumes "serves A b B b'"
  shows "serves (A + C) b (B + C) b'"
proof -
  obtain D where "owed b + image_mset waiter_reply A = owed b' + image_mset waiter_reply (B + D)"
    "\<forall>w \<in># D. waiter_is_closed w b'" "held b' \<union> set_mset (B + D) \<subseteq> held b \<union> set_mset A" "later b b'"
    using assms unfolding serves_def by blast
  then show ?thesis unfolding serves_def by (intro conjI exI [of _ D]) (auto simp: ac_simps)
qed

lemma serves_then:
  assumes "serves {#} b {#} b1" "serves A b1 B b2"
  shows "serves A b B b2"
proof (rule serves_trans)
  show "serves A b A b1" using serves_more [OF assms(1), of A] by simp
qed (fact assms(2))

lemma serves_first:
  assumes "serves A b B b1" "serves {#} b1 {#} b2"
  shows "serves A b B b2"
proof (rule serves_trans)
  show "serves B b1 B b2" using serves_more [OF assms(2), of B] by simp
qed (fact assms(1))

text \<open>A function of the Bridge that only changes the registry, or fields of its own.\<close>

definition calmly :: "bridge_state \<Rightarrow> bridge_state \<Rightarrow> bool" where
  "calmly b b' \<longleftrightarrow> kept (sessions b) (sessions b') \<and> br_answers b' = br_answers b \<and> set (br_gone b) \<subseteq> set (br_gone b')"

lemma calmly_refl [simp, intro]: "calmly b b"
  by (simp add: calmly_def)

lemma calmly_trans [trans]: "calmly b b1 \<Longrightarrow> calmly b1 b2 \<Longrightarrow> calmly b b2"
  unfolding calmly_def by (metis kept_trans subset_trans)

lemma kept_held: "kept (sessions b) (sessions b') \<Longrightarrow> held b' \<subseteq> held b"
  unfolding held_def kept_def by (metis (mono_tags, lifting) SUP_mono' empty_set empty_subsetI order_refl)

lemma calmly_serves: "calmly b b' \<Longrightarrow> serves {#} b {#} b'"
  using kept_held [of b b'] by (simp add: calmly_def kept_def serves_def later_def owed_def exI [of _ "{#}"])

lemma calmly_put: "kept (sessions b) rg \<Longrightarrow> calmly b (put_sessions rg b)"
  by (simp add: calmly_def)

lemma calmly_run: "kept (sessions b) (snd (f (sessions b))) \<Longrightarrow> calmly b (snd (run_sessions f b))"
  by (cases "f (sessions b)") (simp add: run_sessions_def calmly_put)

lemma calmly_lift [simp]: "snd (lift_bridge f x) = snd x"
  by (simp add: lift_bridge_def)

lemma calmly_call_then:
  assumes "calmly b (snd x)" "\<And>a b1. x = (Ok a, b1) \<Longrightarrow> calmly b1 (snd (g a b1))"
  shows "calmly b (snd (call_then x g))"
proof (cases x)
  case (Pair r b1)
  with assms show ?thesis by (cases r) (auto intro: calmly_trans)
qed

lemma calmly_try: "(\<And>a. r = Ok a \<Longrightarrow> calmly b (snd (f a))) \<Longrightarrow> calmly b (snd (try_in b r f))"
  by (cases r) auto

lemma calmly_expect: "(\<And>a. x = Some a \<Longrightarrow> calmly b (snd (f a))) \<Longrightarrow> calmly b (snd (expect_in b x f))"
  by (cases x) auto

lemma calmly_fields [simp]:
  "calmly b (b\<lparr>br_staging := s\<rparr>)" "calmly b (b\<lparr>br_next := n\<rparr>)" "calmly b (b\<lparr>br_timers := ts\<rparr>)"
  "calmly b (b\<lparr>br_watched := ws\<rparr>)" "calmly b (b\<lparr>br_rejected := rs\<rparr>)" "calmly b (b\<lparr>br_in_flight := is\<rparr>)"
  "calmly b (b\<lparr>br_now := t\<rparr>)" "calmly b (b\<lparr>br_catalog_deletions := d\<rparr>)" "calmly b (b\<lparr>br_catalog_revision := r\<rparr>)"
  "calmly b (b\<lparr>br_listed := l\<rparr>)" "calmly b (b\<lparr>br_notices := nt\<rparr>)" "calmly b (notify nn b)"
  by (simp_all add: calmly_def notify_def)

text \<open>Validation, reservations and observers leave the requests where they are.\<close>

lemma calmly_change:
  assumes "\<And>r. re_materialization (f r) = re_materialization r"
  shows "calmly b (change_resources sid inc f b)"
  using assms by (auto simp: change_resources_def resources_of_Ok intro!: calmly_put kept_put_resources split: result.split)

lemma calmly_change_ingest:
  assumes "\<And>r. re_materialization (f r) = re_materialization r"
  shows "calmly b (change_ingest sid f b)"
  using calmly_change [OF assms] by (simp add: change_ingest_def split: option.split)

lemma calmly_exclusive [simp]:
  "calmly b (snd (run_sessions (mirror_begin_exclusive sid inc kind op) b))"
  "calmly b (snd (run_sessions (mirror_settle_exclusive sid inc adm op) b))"
  by (simp_all add: calmly_run)

lemma calmly_release [simp]:
  "calmly b (release_session_operation sid inc adm op b)" "calmly b (settle_attachment sid b)"
proof -
  have r: "calmly b (release_session_operation sid inc adm op b)" for sid inc adm op
    by (simp add: release_session_operation_def)
  show "calmly b (release_session_operation sid inc adm op b)" "calmly b (settle_attachment sid b)"
    by (simp_all add: r settle_attachment_def split: option.split)
qed

lemma calmly_new_validation [simp]: "calmly b (snd (new_validation b))"
  by (simp add: new_validation_def)

lemma calmly_replays [simp]:
  "calmly b (snd (begin_replay_validation sid b))" "calmly b (snd (take_replay_validation_backup sid owner b))"
  "calmly b (rollback_replay_validation sid owner b)" "calmly b (clear_attachment_delivery sid inc b)"
proof -
  show "calmly b (snd (begin_replay_validation sid b))"
    unfolding begin_replay_validation_def new_validation_def prod.case Let_def
    by (rule calmly_trans [OF calmly_fields(2) calmly_expect]) (simp add: calmly_change)
  have t: "calmly b (snd (take_replay_validation_backup sid owner b))" for b
    by (simp add: take_replay_validation_backup_def calmly_change split: option.split result.split)
  then show "calmly b (snd (take_replay_validation_backup sid owner b))" .
  have "calmly b (rollback_replay_validation sid owner b)" if "take_replay_validation_backup sid owner b = (x, b1)" for x b1
    using t [of b] that calmly_trans [OF _ calmly_change_ingest]
    by (auto simp: rollback_replay_validation_def split: option.split)
  then show "calmly b (rollback_replay_validation sid owner b)"
    by (cases "take_replay_validation_backup sid owner b") blast
  show "calmly b (clear_attachment_delivery sid inc b)"
    by (simp add: clear_attachment_delivery_def calmly_change)
qed

lemma calmly_tracking [simp]: "calmly b (clear_attachment_tracking sid owner cv b)"
proof -
  let ?b2 = "case uo_incarnation owner of Some inc \<Rightarrow> clear_attachment_delivery sid inc (settle_attachment sid b)
    | None \<Rightarrow> settle_attachment sid b"
  have 2: "calmly b ?b2"
    by (simp add: calmly_trans [OF calmly_release(2) calmly_replays(4)] split: option.split)
  then show ?thesis
    using calmly_trans [OF 2 calmly_replays(3)] calmly_trans [OF 2 calmly_change_ingest]
    by (simp add: clear_attachment_tracking_def Let_def)
qed

lemma calmly_fail_attachment [simp]: "calmly b (snd (fail_runtime_attachment E sid inc op kind reload b))"
  by (simp add: fail_runtime_attachment_def calmly_run)

text \<open>The operations of the observers.\<close>

definition observers_calm :: "(observers_state \<Rightarrow> 'r \<times> observers_state) \<Rightarrow> bool" where
  "observers_calm f \<longleftrightarrow> (\<forall>o' h. hd_sent (snd (snd (f (o', h)))) = hd_sent h \<and>
     set (hd_cancelled h) \<subseteq> set (hd_cancelled (snd (snd (f (o', h))))))"

lemma cancel_absence_calm:
  "hd_sent (snd (cancel_absence (o', h))) = hd_sent h \<and> set (hd_cancelled h) \<subseteq> set (hd_cancelled (snd (cancel_absence (o', h))))"
  by (auto simp: cancel_absence_def permit_cancel_def permit_exchange_def token_cancel_def split: option.split)

lemma calmly_observers:
  assumes "observers_calm f"
  shows "calmly b (snd (run_observers sid inc f b))"
proof (cases "resources_of sid inc (sessions b)")
  case (Ok r)
  obtain x obs h where f: "f (re_observers r, rg_handles (sessions b)) = (x, obs, h)" by (metis prod_cases3)
  have "kept (sessions b) ((sessions b)\<lparr>rg_handles := h\<rparr>)"
    using assms f by (metis kept_handles observers_calm_def snd_conv)
  moreover have "kept ((sessions b)\<lparr>rg_handles := h\<rparr>)
      (put_resources sid (r\<lparr>re_observers := obs\<rparr>) ((sessions b)\<lparr>rg_handles := h\<rparr>))"
    by (rule kept_put_resources) (use Ok in \<open>auto simp: resources_of_Ok registry_simps\<close>)
  ultimately show ?thesis using Ok f by (auto simp: run_observers_def intro: calmly_put kept_trans)
qed (simp_all add: run_observers_def)

lemma observers_calm_ops:
  "observers_calm (\<lambda>o'. ((), stop_absence o'))" "observers_calm (observe key lease)"
  "observers_calm drain_for_finish" "observers_calm (refresh lc w n now)"
proof -
  note c = cancel_absence_calm
  show "observers_calm (\<lambda>o'. ((), stop_absence o'))"
    using c by (simp add: observers_calm_def stop_absence_def)
  show "observers_calm (observe key lease)"
    unfolding observers_calm_def
  proof (intro allI)
    fix o' h
    show "hd_sent (snd (snd (observe key lease (o', h)))) = hd_sent h \<and>
        set (hd_cancelled h) \<subseteq> set (hd_cancelled (snd (snd (observe key lease (o', h)))))"
      using c [of "o'\<lparr>ob_observers := hm_insert key lease (ob_observers o')\<rparr>" h]
      by (cases "cancel_absence (o'\<lparr>ob_observers := hm_insert key lease (ob_observers o')\<rparr>, h)")
        (auto simp: observe_def split: option.split)
  qed
  show "observers_calm drain_for_finish"
    unfolding observers_calm_def
  proof (intro allI)
    fix o' h
    show "hd_sent (snd (snd (drain_for_finish (o', h)))) = hd_sent h \<and>
        set (hd_cancelled h) \<subseteq> set (hd_cancelled (snd (snd (drain_for_finish (o', h)))))"
      using c [of o' h] by (cases "cancel_absence (o', h)") (simp add: drain_for_finish_def)
  qed
  show "observers_calm (refresh lc w n now)"
    unfolding observers_calm_def
  proof (intro allI)
    fix o' h
    show "hd_sent (snd (snd (refresh lc w n now (o', h)))) = hd_sent h \<and>
        set (hd_cancelled h) \<subseteq> set (hd_cancelled (snd (snd (refresh lc w n now (o', h)))))"
      using c [of "o'\<lparr>ob_observers := hm_retain (\<lambda>_ l. \<not> lease_is_cancelled l h) (ob_observers o')\<rparr>" h]
      by (auto simp: refresh_def Let_def permit_new_def split: option.split)
  qed
qed

lemma calmly_refresh_one: "calmly b (refresh_session_timer sid b)"
proof (cases "entry_of sid (sessions b)")
  case (Some e)
  show ?thesis
  proof (cases "br_observers_stopped b")
    case True
    then show ?thesis using Some observers_calm_ops(1) by (simp add: refresh_session_timer_def calmly_observers)
  next
    case False
    let ?r = "run_observers sid (ss_incarnation (en_state e)) (refresh (map_option lv_lifecycle (ss_live (en_state e))) (work_of e)
                       (observers_timeout b) (br_now b)) b"
    have "calmly b (snd ?r)" by (rule calmly_observers [OF observers_calm_ops(4)])
    then show ?thesis using Some False
      by (cases ?r) (auto simp: refresh_session_timer_def intro: calmly_trans split: option.split)
  qed
qed (simp add: refresh_session_timer_def)

lemma calmly_fold: "(\<And>x b. calmly b (f x b)) \<Longrightarrow> calmly b (fold f xs b)"
  by (induction xs arbitrary: b) (auto intro: calmly_trans)

lemma calmly_refresh [simp]: "calmly b (refresh_observer_timers b)"
  by (simp add: refresh_observer_timers_def calmly_fold calmly_refresh_one)

lemma calmly_flush [simp]: "calmly b (flush_bridge b)"
proof -
  have "kept (sessions b) (hb_registry (flush_runtime (br_hub b)))"
    by (simp add: flush_runtime_def release_published_runtime_def Let_def split: prod.split)
  then have "calmly b (b\<lparr>br_hub := flush_runtime (br_hub b)\<rparr>)" by (simp add: calmly_def)
  then show ?thesis unfolding flush_bridge_def by (rule calmly_trans) simp
qed

lemma calmly_lease [simp]: "calmly b (cancel_lease lease b)" "calmly b (cancel_token k b)"
  unfolding cancel_lease_def cancel_token_def lease_cancel_def
  by (rule calmly_put, rule kept_handles, simp, simp add: token_cancel_def subset_insertI)+

lemma calmly_finish_observers [simp]: "calmly b (finish_session_observers sid inc b)"
proof -
  have "kept rg (rg\<lparr>rg_handles := lease_finish l (rg_handles rg)\<rparr>)" for rg l
    by (rule kept_handles) (simp_all add: lease_finish_def token_cancel_def subset_insertI)
  then have one: "calmly b (let b' = notify n b in put_sessions ((sessions b')\<lparr>rg_handles :=
      lease_finish l (rg_handles (sessions b'))\<rparr>) b')" for n l b
    by (simp add: Let_def calmly_trans [OF calmly_fields(12) calmly_put])
  have "calmly b (snd (run_observers sid inc drain_for_finish b))" by (rule calmly_observers [OF observers_calm_ops(3)])
  then show ?thesis unfolding finish_session_observers_def
    by (auto intro!: calmly_fold one intro: calmly_trans split: prod.split option.split)
qed

lemma calmly_retirement [simp]: "calmly b (complete_session_retirement E sid inc adm op reason b)"
proof -
  have r: "calmly b (retire_session_observation sid inc reason b)" for b
    unfolding retire_session_observation_def by (rule calmly_trans [OF calmly_fields(12) calmly_finish_observers])
  have c: "calmly b (snd (run_sessions (finish_session_cleanup sid inc adm op) b))" by (simp add: calmly_run)
  have "calmly b1 (let b2 = retire_session_observation sid inc reason b1;
      b3 = put_sessions (cancel_resources sid inc ''session retired'' (sessions b2)) b2
      in put_sessions (mirror_remove E sid inc (sessions b3)) b3)" for b1
    unfolding Let_def by (rule calmly_trans [OF r], rule calmly_trans [OF calmly_put calmly_put]) simp_all
  with c show ?thesis unfolding complete_session_retirement_def
    by (auto intro: calmly_trans split: prod.split result.split)
qed

lemma calmly_view_value: "calmly b (snd (session_view_value sid inc b))"
  unfolding session_view_value_def Let_def by (rule calmly_call_then) (simp_all add: calmly_run)

lemma view_value_no_panic: "fst (session_view_value sid inc b) \<noteq> Panic"
proof -
  have "fst (mirror_view sid inc rg) \<noteq> Panic" for rg
    by (cases "state_of sid rg") (auto simp: mirror_view_def require_state_def split: prod.split option.split)
  moreover obtain r rg where m: "mirror_view sid inc (sessions b) = (r, rg)" by fastforce
  ultimately have "r \<noteq> Panic" by (metis fst_conv)
  then show ?thesis
    unfolding session_view_value_def Let_def run_sessions_def lift_bridge_def m by (cases r) simp_all
qed

section \<open>Answering\<close>

lemma serves_answer: "serves {#w#} b {#} (answer (waiter_reply w) a b)" if "waiter_is_closed w b \<or> waiter_reply w \<notin> set (br_gone b)"
proof (cases "waiter_reply w \<in> set (br_gone b)")
  case True
  with that have "waiter_is_closed w b" by blast
  with True show ?thesis by (auto simp: answer_def serves_def intro!: exI [of _ "{#w#}"])
next
  case False
  then show ?thesis by (auto simp: answer_def serves_def later_def owed_def held_def intro!: exI [of _ "{#}"])
qed

lemma serves_closed: "waiter_is_closed w b \<Longrightarrow> serves {#w#} b {#} b"
  by (auto simp: serves_def intro!: exI [of _ "{#w#}"])

lemma serves_finish:
  assumes "result \<noteq> Panic"
  shows "serves {#w#} b {#} (finish_session_view_waiter sid w result b)"
proof (cases w)
  case (ViewWaiter k)
  have "serves {#w#} b {#} (answer k a b)" for a
    using serves_answer [of w b a] ViewWaiter by (cases "k \<in> set (br_gone b)") simp_all
  then show ?thesis using assms ViewWaiter by (cases result) simp_all
next
  case (ObserveWaiter key lease k)
  show ?thesis
  proof (cases "waiter_is_closed w b")
    case True
    have "serves {#w#} b {#} (cancel_lease lease b)"
      by (rule serves_first [OF serves_closed [OF True]], rule calmly_serves) simp
    then show ?thesis using True ObserveWaiter by simp
  next
    case alive: False
    then have g: "k \<notin> set (br_gone b)" using ObserveWaiter by simp
    have a: "serves {#w#} b {#} (answer k a b1)" if "calmly b b1" "br_gone b1 = br_gone b" for a b1
      using serves_then [OF calmly_serves [OF that(1)], of "{#w#}" "{#}" "answer k a b1"] serves_answer [of w b1 a] g that(2) ObserveWaiter
      by simp
    have l: "br_gone (cancel_lease lease b) = br_gone b" for b by (simp add: cancel_lease_def)
    show ?thesis
    proof (cases result)
      case (Ok view)
      let ?r = "run_observers sid (vw_incarnation (sv_session view)) (observe key lease) b"
      obtain x b1 where r: "?r = (x, b1)" by fastforce
      have c: "calmly b b1" "br_gone b1 = br_gone b"
        using calmly_observers [OF observers_calm_ops(2), of b sid "vw_incarnation (sv_session view)" key lease] r
        by (auto simp: run_observers_def split: result.splits prod.splits)
      have no: "serves {#w#} b {#} (answer k aa (cancel_lease lease b1))" for aa
        by (rule a) (use c l calmly_trans [OF c(1)] in simp_all)
      show ?thesis
      proof (cases "x = Some True")
        case True
        let ?b2 = "answer k Observing (notify (ObserverReady key sid view) b1)"
        have s2: "serves {#w#} b {#} ?b2"
          by (rule a) (use c calmly_trans [OF c(1) calmly_fields(12)] in \<open>simp_all add: notify_def\<close>)
        have "serves {#w#} b {#} (if br_observing ?b2 then ?b2\<lparr>br_watched := br_watched ?b2 @ [(sid, key, lease)]\<rparr> else ?b2)"
          using s2 serves_first [OF s2 calmly_serves [OF calmly_fields(4)]] by simp
        then show ?thesis using alive Ok r True ObserveWaiter by (simp add: Let_def)
      next
        case False
        then show ?thesis using alive Ok r no ObserveWaiter by (auto split: option.split bool.split)
      qed
    next
      case (Err e)
      have "serves {#w#} b {#} (answer k (Refused e) (cancel_lease lease b))"
        by (rule a) (simp_all add: l)
      then show ?thesis using alive Err ObserveWaiter by simp
    qed (use assms in simp)
  qed
qed

section \<open>Materializations\<close>

lemma materialization_entry:
  "session_materialization sid b = Option.bind (entry_of sid (sessions b)) (\<lambda>e. re_materialization (en_resources e))"
  by (simp add: session_materialization_def session_ingest_def state_of_def resources_of_def bind_map_option
      split: option.split Option.bind_split)

lemma waiters_materialization:
  "waiters_at (sessions b) sid = (case session_materialization sid b of Some m \<Rightarrow> mz_waiters m | None \<Rightarrow> [])"
  by (simp add: materialization_entry waiters_at_def entry_waiters_def split: option.split)

lemma set_materialization_sessions:
  assumes "entry_of sid (sessions b) = Some e"
  shows "sessions (set_materialization sid m b) = put_resources sid (en_resources e\<lparr>re_materialization := m\<rparr>) (sessions b)"
  using assms by (simp add: set_materialization_def change_ingest_def change_resources_def state_of_def resources_of_def)

lemma set_materialization_fields [simp]:
  "br_answers (set_materialization sid m b) = br_answers b" "br_gone (set_materialization sid m b) = br_gone b"
  "rg_handles (sessions (set_materialization sid m b)) = rg_handles (sessions b)"
  by (simp_all add: set_materialization_def change_ingest_def change_resources_def registry_simps split: option.split result.split)

lemma set_materialization_waiters:
  assumes "entry_of sid (sessions b) = Some e"
  shows "waiters_at (sessions (set_materialization sid m b)) =
    (waiters_at (sessions b))(sid := (case m of Some m \<Rightarrow> mz_waiters m | None \<Rightarrow> []))"
  using assms by (simp add: set_materialization_sessions waiters_at_def entry_waiters_def fun_eq_iff registry_simps split: option.split)

lemma serves_set:
  assumes e: "entry_of sid (sessions b) = Some e"
    and w: "mset (waiters_at (sessions b) sid) + A = mset (case m of Some m \<Rightarrow> mz_waiters m | None \<Rightarrow> []) + B + D"
    and c: "\<forall>w \<in># D. waiter_is_closed w b"
  shows "serves A b B (set_materialization sid m b)"
proof -
  let ?b = "set_materialization sid m b" and ?ws = "case m of Some m \<Rightarrow> mz_waiters m | None \<Rightarrow> []"
  have l: "later b ?b" by (simp add: later_def)
  let ?old = "channels (waiters_at (sessions b) sid)" and ?I = "image_mset waiter_reply"
  have "?I (mset (waiters_at (sessions b) sid) + A) = ?I (mset ?ws + B + D)"
    by (simp only: w)
  then have h: "?old + ?I A = channels ?ws + (?I B + ?I D)" by (simp only: image_mset_union mset_map add.assoc)
  have "(waiting (sessions b) + ?I A) + ?old = waiting (sessions b) + (?old + ?I A)" by (simp only: ac_simps)
  also have "\<dots> = (waiting (sessions b) + channels ?ws) + (?I B + ?I D)" by (simp only: h add.assoc)
  also have "\<dots> = (waiting (sessions ?b) + ?old) + (?I B + ?I D)"
    using waiting_changed [OF set_materialization_waiters [OF e, of m]] by (simp only:)
  also have "\<dots> = (waiting (sessions ?b) + ?I (B + D)) + ?old" by (simp only: image_mset_union ac_simps)
  finally have "waiting (sessions b) + ?I A = waiting (sessions ?b) + ?I (B + D)" by (rule add_right_imp_eq)
  then have "owed b + image_mset waiter_reply A = owed ?b + image_mset waiter_reply (B + D)"
    by (simp add: owed_def ac_simps)
  moreover have "held ?b \<union> set_mset (B + D) \<subseteq> held b \<union> set_mset A"
  proof -
    have "set_mset (mset (waiters_at (sessions b) sid) + A) = set_mset (mset ?ws + B + D)" by (simp only: w)
    moreover have "waiters_at (sessions ?b) k = (if k = sid then ?ws else waiters_at (sessions b) k)" for k
      by (simp add: set_materialization_waiters [OF e])
    ultimately show ?thesis by (fastforce simp: held_def split: if_splits)
  qed
  ultimately show ?thesis using l c closed_later [OF l] unfolding serves_def by blast
qed

lemma take_materialization:
  assumes "take_session_materialization sid attempt b = (x, b1)"
  shows "serves {#} b (case x of Some m \<Rightarrow> mset (mz_waiters m) | None \<Rightarrow> {#}) b1"
    "x \<noteq> None \<Longrightarrow> waiters_at (sessions b1) sid = []" "x = None \<Longrightarrow> b1 = b"
    "br_gone b1 = br_gone b" "state_of k (sessions b1) = state_of k (sessions b)" "rg_handles (sessions b1) = rg_handles (sessions b)"
proof -
  consider "x = None" "b1 = b" | m e where "x = Some m" "session_materialization sid b = Some m"
    "b1 = set_materialization sid None b" "entry_of sid (sessions b) = Some e"
  proof (cases "session_materialization sid b")
    case (Some m)
    then obtain e where e: "entry_of sid (sessions b) = Some e" by (auto simp: materialization_entry bind_eq_Some_conv)
    show ?thesis
    proof (cases "mz_attempt_id m = attempt")
      case True
      then have "x = Some m" "b1 = set_materialization sid None b"
        using assms Some by (simp_all add: take_session_materialization_def)
      with Some e show ?thesis by (intro that(2))
    qed (use assms Some that(1) in \<open>simp add: take_session_materialization_def\<close>)
  qed (use assms that(1) in \<open>simp add: take_session_materialization_def\<close>)
  then have "serves {#} b (case x of Some m \<Rightarrow> mset (mz_waiters m) | None \<Rightarrow> {#}) b1 \<and>
    (x \<noteq> None \<longrightarrow> waiters_at (sessions b1) sid = []) \<and> (x = None \<longrightarrow> b1 = b) \<and> br_gone b1 = br_gone b \<and>
    state_of k (sessions b1) = state_of k (sessions b) \<and> rg_handles (sessions b1) = rg_handles (sessions b)"
  proof cases
    case (2 m e)
    have "serves {#} b (mset (mz_waiters m)) b1" unfolding 2(3)
      by (rule serves_set [OF 2(4), where D = "{#}"]) (simp_all add: waiters_materialization 2(2))
    moreover have "waiters_at (sessions b1) sid = []"
      using 2(3) set_materialization_waiters [OF 2(4), of None] by simp
    moreover have "state_of k (sessions b1) = state_of k (sessions b)"
      using 2(3,4) by (simp add: set_materialization_sessions registry_simps)
    ultimately show ?thesis using 2 by simp
  qed auto
  then show "serves {#} b (case x of Some m \<Rightarrow> mset (mz_waiters m) | None \<Rightarrow> {#}) b1"
    "x \<noteq> None \<Longrightarrow> waiters_at (sessions b1) sid = []" "x = None \<Longrightarrow> b1 = b"
    "br_gone b1 = br_gone b" "state_of k (sessions b1) = state_of k (sessions b)" "rg_handles (sessions b1) = rg_handles (sessions b)"
    by blast+
qed

lemma register_has_entry: "entry_of sid (register_cold E sid inc rg) \<noteq> None"
  by (auto simp: register_cold_def register_history_def Let_def registry_simps state_of_def split: prod.split option.split)

lemma serves_start:
  assumes "session_materialization sid b = None"
  shows "serves {#w#} b {#} (snd (start_materialization E U sid cwd w b))"
proof -
  let ?b1 = "if state_of sid (sessions b) = None then put_sessions (register_cold E sid 0 (sessions b)) b else b"
  have k: "calmly b ?b1" by (simp add: calmly_put register_cold_def)
  obtain e where e: "entry_of sid (sessions ?b1) = Some e"
    using register_has_entry [of sid E 0 "sessions b"] by (cases "state_of sid (sessions b)") (auto simp: state_of_def)
  have "waiters_at (sessions b) sid = []" using assms by (simp add: waiters_materialization)
  with k have n: "waiters_at (sessions ?b1) sid = []" by (metis calmly_def kept_def)
  let ?m = "\<lparr>mz_attempt_id = U (br_next ?b1), mz_waiters = [w], mz_cancellation = Suc (Suc (br_next ?b1))\<rparr>"
  have "serves {#w#} ?b1 {#} (set_materialization sid (Some ?m) ?b1)"
    by (rule serves_set [OF e, where D = "{#}"]) (simp_all only: n, simp_all)
  from serves_first [OF serves_then [OF calmly_serves [OF k] this] calmly_serves [OF calmly_fields(2)]]
  show ?thesis unfolding start_materialization_def Let_def snd_conv .
qed

lemma serves_join:
  assumes "session_materialization sid b = Some m"
  shows "serves {#w#} b {#} (join_materialization sid w m b)"
proof -
  obtain e where e: "entry_of sid (sessions b) = Some e"
    using assms by (auto simp: materialization_entry bind_eq_Some_conv)
  let ?D = "filter_mset (\<lambda>w. waiter_is_closed w b) (mset (mz_waiters m))"
  have "mset (mz_waiters m) = mset (filter (\<lambda>w. \<not> waiter_is_closed w b) (mz_waiters m)) + ?D"
    using multiset_partition [of "mset (mz_waiters m)" "\<lambda>w. waiter_is_closed w b"] by (simp add: ac_simps)
  then show ?thesis unfolding join_materialization_def
    by (intro serves_set [OF e, where D = ?D]) (simp_all add: waiters_materialization assms)
qed

lemma serves_show:
  assumes "calmly b b1" "r \<noteq> Panic"
  shows "serves {#w#} b {#} (refresh_observer_timers (finish_session_view_waiter sid w r b1))"
  by (rule serves_first [OF serves_then [OF calmly_serves [OF assms(1)] serves_finish [OF assms(2)]]
        calmly_serves [OF calmly_refresh]])

lemma map_err_panic [simp]: "map_err f r = Panic \<longleftrightarrow> r = Panic"
  by (cases r) simp_all

lemma serves_prepare: "serves {#w#} b {#} (snd (prepare_session_view E U sid cwd expected w b))"
proof (cases expected)
  case (Some owner)
  have "serves {#w#} b {#} (resume_view sid owner w b)"
    unfolding resume_view_def Let_def
    by (rule serves_show) (use calmly_view_value [of b sid "ow_incarnation owner"] view_value_no_panic [of sid "ow_incarnation owner" b]
      in \<open>auto split: prod.split\<close>)
  then show ?thesis using Some by (simp add: prepare_session_view_def)
next
  case None
  have v: "serves {#w#} b {#} (snd (case session_view_value sid inc b of (r, b1) \<Rightarrow>
      (None :: json option, refresh_observer_timers (finish_session_view_waiter sid w (map_err ViewFailed r) b1))))" for inc
    using calmly_view_value [of b sid inc] view_value_no_panic [of sid inc b]
    by (cases "session_view_value sid inc b") (simp add: serves_show)
  show ?thesis
    using None v serves_start [of sid b w E U cwd] serves_join [of sid b] serves_closed [of w b] serves_finish [of _ w b sid]
    by (auto simp: prepare_session_view_def split: option.split)
qed

text \<open>The end of a load: the result goes to everybody who waits.\<close>

lemma serves_fold:
  assumes "result \<noteq> Panic"
  shows "serves (mset ws) b {#} (fold (\<lambda>w. finish_session_view_waiter sid w result) ws b)"
proof (induction ws arbitrary: b)
  case (Cons w ws)
  have "serves ({#w#} + mset ws) b ({#} + mset ws) (finish_session_view_waiter sid w result b)"
    by (rule serves_more [OF serves_finish [OF assms]])
  then have "serves (mset (w # ws)) b (mset ws) (finish_session_view_waiter sid w result b)" by simp
  from serves_trans [OF this Cons.IH] show ?case by simp
qed simp

lemma load_outcome_serves:
  assumes "load \<noteq> Panic"
  shows "calmly b (snd (load_outcome sid load b))" "fst (load_outcome sid load b) \<noteq> Panic"
proof -
  have "calmly b (snd (load_outcome sid load b)) \<and> fst (load_outcome sid load b) \<noteq> Panic"
    using assms calmly_view_value view_value_no_panic
    by (simp add: load_outcome_def split: result.split option.split prod.split) (metis fst_conv snd_conv)
  then show "calmly b (snd (load_outcome sid load b))" "fst (load_outcome sid load b) \<noteq> Panic" by blast+
qed

lemma calmly_remove_cold [simp]: "calmly b (remove_cold E sid b)"
  by (simp add: remove_cold_def calmly_put split: option.split)

lemma serves_resolve:
  assumes "load \<noteq> Panic"
  shows "serves {#} b {#} (resolve_session_view_waiters E sid attempt load b)"
proof -
  obtain x b1 where t: "take_session_materialization sid attempt b = (x, b1)" by fastforce
  show ?thesis
  proof (cases x)
    case None
    with take_materialization(3) [OF t] show ?thesis by (simp add: resolve_session_view_waiters_def t)
  next
    case (Some m)
    obtain r b2 where o': "load_outcome sid load (cancel_token (mz_cancellation m) b1) = (r, b2)" by fastforce
    have r: "r \<noteq> Panic" "calmly b1 b2"
      using load_outcome_serves [OF assms, where b = "cancel_token (mz_cancellation m) b1" and sid = sid] o' calmly_trans [OF calmly_lease(2)]
      by simp_all
    have s: "serves (mset (mz_waiters m)) b1 {#} (fold (\<lambda>w. finish_session_view_waiter sid w r) (mz_waiters m) b2)"
      by (rule serves_then [OF calmly_serves [OF r(2)] serves_fold [OF r(1)]])
    have "serves {#} b (mset (mz_waiters m)) b1" using take_materialization(1) [OF t] Some by simp
    from serves_first [OF serves_trans [OF this s] calmly_serves [OF calmly_trans [OF calmly_remove_cold calmly_refresh]]]
    show ?thesis using Some by (simp add: resolve_session_view_waiters_def t o')
  qed
qed

section \<open>Attachments\<close>

lemma serves_cancel: "serves (mset (mz_waiters m)) b {#} (cancel_materialization reason m b)"
proof -
  let ?g = "token_cancel (mz_cancellation m) (rg_handles (sessions b))"
  let ?h = "fold (waiter_cancel reason) (mz_waiters m) ?g"
  note w = waiters_fold [of reason "mz_waiters m" ?g]
  have "waiting ((sessions b)\<lparr>rg_handles := h\<rparr>) = waiting (sessions b)" for h
    by (rule waiting_cong) (simp add: waiters_at_def fun_eq_iff entry_of_def)
  moreover have "told ?h = told (rg_handles (sessions b)) + channels (mz_waiters m)"
    using told_unavailable [OF conjunct1 [OF w]] by (simp add: told_def)
  ultimately have "owed (put_sessions ((sessions b)\<lparr>rg_handles := ?h\<rparr>) b) = owed b + channels (mz_waiters m)"
    by (simp add: owed_def)
  moreover have "later b (put_sessions ((sessions b)\<lparr>rg_handles := ?h\<rparr>) b)"
    using w by (auto simp: later_def token_cancel_def)
  moreover have "held (put_sessions ((sessions b)\<lparr>rg_handles := ?h\<rparr>) b) = held b"
    by (simp add: held_def waiters_at_def entry_of_def)
  ultimately show ?thesis
    unfolding serves_def cancel_materialization_def by (auto intro!: exI [of _ "{#}"])
qed

lemma serves_give:
  assumes "m \<noteq> None \<Longrightarrow> waiters_at (sessions b) sid = []"
  shows "serves (case m of Some m \<Rightarrow> mset (mz_waiters m) | None \<Rightarrow> {#}) b {#} (give_materialization sid inc m b)"
proof (cases m)
  case (Some x)
  let ?r = "case inc of Some i \<Rightarrow> resources_of sid i (sessions b) | None \<Rightarrow> Err MirrorUnknownSession"
  show ?thesis
  proof (cases ?r)
    case (Ok r)
    then obtain e where e: "entry_of sid (sessions b) = Some e" "r = en_resources e"
      by (auto simp: resources_of_Ok split: option.splits)
    then have "put_sessions (put_resources sid (r\<lparr>re_materialization := Some x\<rparr>) (sessions b)) b = set_materialization sid (Some x) b"
      by (simp add: set_materialization_def change_ingest_def change_resources_def state_of_def resources_of_def)
    moreover have "serves (mset (mz_waiters x)) b {#} (set_materialization sid (Some x) b)"
      by (rule serves_set [OF e(1), where D = "{#}"]) (use assms Some in simp_all)
    ultimately show ?thesis using Some Ok by (simp add: give_materialization_def)
  next
    case (Err e)
    then show ?thesis using Some serves_cancel by (simp add: give_materialization_def)
  next
    case Panic
    then show ?thesis by (simp split: option.splits)
  qed
qed (simp add: give_materialization_def)

lemma calmly_reload: "calmly b (snd (reserve_reload E sid cwd inc kind op b))"
proof -
  have "calmly b1 (snd (case run_sessions (start_reload E (rg_epoch (sessions b1)) sid inc op kind) b1 of
      (Err e, b2) \<Rightarrow> (Err (BrRuntime e), release_session_operation sid inc AdmitAttachment op b2)
    | (Panic, b2) \<Rightarrow> (Panic, b2)
    | (Ok _, b2) \<Rightarrow> (Ok (ReloadAttachment cwd inc), put_sessions (supersede_history_sync sid inc (sessions b2)) b2)))" for b1
  proof -
    obtain r b2 where r: "run_sessions (start_reload E (rg_epoch (sessions b1)) sid inc op kind) b1 = (r, b2)" by fastforce
    have "calmly b1 b2" using calmly_run [of b1 "start_reload E (rg_epoch (sessions b1)) sid inc op kind"] r by simp
    then show ?thesis using r calmly_trans [OF _ calmly_release(1)] calmly_trans [OF _ calmly_put [OF kept_interactions(8)]]
      by (cases r) simp_all
  qed
  then show ?thesis unfolding reserve_reload_def by (auto intro!: calmly_call_then)
qed

lemma serves_fresh: "serves {#} b {#} (snd (reserve_fresh E sid kind requested op materialization b))"
proof -
  obtain m b1 where t: "(case materialization of Some i \<Rightarrow> take_session_materialization sid i b | None \<Rightarrow> (None, b)) = (m, b1)"
    by fastforce
  have 1: "serves {#} b (case m of Some m \<Rightarrow> mset (mz_waiters m) | None \<Rightarrow> {#}) b1"
    "m \<noteq> None \<Longrightarrow> waiters_at (sessions b1) sid = []"
    using t take_materialization(1,2) [of sid _ b m b1] by (cases materialization; auto)+
  let ?f = "\<lambda>cwd. start_attachment E (rg_epoch (sessions b1)) sid cwd op kind"
  have k: "kept (sessions b1) (snd (?f cwd (sessions b1)))" for cwd by simp
  have np: "fst (?f cwd (sessions b1)) \<noteq> Panic" for cwd
    using outcome_start_attachment [of E "sessions b1" "rg_epoch (sessions b1)" sid cwd op kind]
    by (auto simp: outcome_def split: result.splits)
  have s: "serves {#} b {#} (give_materialization sid inc m b2)" if "run_sessions (?f cwd) b1 = (r, b2)" for cwd r b2 inc
  proof -
    have c: "calmly b1 b2" using calmly_run [where f = "?f cwd", OF k] that by (metis snd_conv)
    then have "m \<noteq> None \<Longrightarrow> waiters_at (sessions b2) sid = []"
      using 1(2) by (metis calmly_def kept_def)
    from serves_trans [OF 1(1) serves_then [OF calmly_serves [OF c] serves_give [OF this]]]
    show ?thesis by simp
  qed
  have "serves {#} b {#} (snd (case run_sessions (?f cwd) b1 of
           (Ok inc, b2) \<Rightarrow>
             (let b3 = give_materialization sid (Some inc) m b2
              in (Ok (FreshAttachment cwd inc), put_sessions (register_cold E sid inc (sessions b3)) b3))
         | (Err e, b2) \<Rightarrow> (Err (BrRuntime e), give_materialization sid previous m b2)
         | (Panic, b2) \<Rightarrow> (Panic, b2)))" for cwd previous
  proof -
    obtain r b2 where r: "run_sessions (?f cwd) b1 = (r, b2)" by fastforce
    have "r \<noteq> Panic" using np [of cwd] r by (auto simp: run_sessions_def split: prod.splits)
    then show ?thesis
      using r s [OF r] by (cases r) (simp_all add: Let_def register_cold_def serves_first [OF s [OF r] calmly_serves [OF calmly_put]])
  qed
  with t show ?thesis by (cases "attachment_cwd sid requested b") (auto simp: reserve_fresh_def Let_def)
qed

lemma calmly_begun:
  assumes "serves {#} b {#} (snd x)"
  shows "serves {#} b {#} (snd (call_then x (\<lambda>reservation b1.
    call_then (begin_replay_validation sid b1) (\<lambda>_ b2.
      (Ok reservation, clear_attachment_delivery sid (reservation_incarnation reservation) b2)))))"
proof (cases x)
  case (Pair r b1)
  have "calmly b1 (snd (call_then (begin_replay_validation sid b1) (\<lambda>_ b2.
      (Ok a, clear_attachment_delivery sid (reservation_incarnation a) b2))))" for a
    by (rule calmly_call_then) simp_all
  with assms Pair show ?thesis by (cases r) (auto intro: serves_first calmly_serves)
qed

lemma serves_reserve: "serves {#} b {#} (snd (reserve_attachment E sid kind requested op materialization b))"
proof -
  have "serves {#} b {#} (snd (case active_session sid (sessions b) of
      Some s \<Rightarrow> reserve_reload E sid (case ss_live s of Some live \<Rightarrow> lv_cwd live | None \<Rightarrow> []) (ss_incarnation s) kind op b
    | None \<Rightarrow> reserve_fresh E sid kind requested op materialization b))"
    using calmly_serves [OF calmly_reload] serves_fresh by (simp split: option.split)
  from calmly_begun [OF this] show ?thesis
    unfolding reserve_attachment_def by (cases "attachment_allowed sid materialization b") simp_all
qed

lemma serves_prepare_attachment: "serves {#} b {#} (snd (prepare_attachment E command b))"
proof -
  have "serves {#} b {#} (snd (call_then (reserve_attachment E sid kind cwd op m b) (\<lambda>reservation b1. (Ok (f reservation), b1))))"
    for sid kind cwd op m and f :: "attachment_reservation \<Rightarrow> prepared_attachment"
  proof (cases "reserve_attachment E sid kind cwd op m b")
    case (Pair r b1)
    with serves_reserve [of b E sid kind cwd op m] show ?thesis by (cases r) simp_all
  qed
  then show ?thesis
    unfolding prepare_attachment_def Let_def try_in_def by (auto split: result.split)
qed

lemma serves_prepare_command: "serves {#} b {#} (snd (prepare_command E sid command response b))"
proof -
  obtain r b1 where p: "prepare_attachment E command b = (r, b1)" by fastforce
  have 1: "serves {#} b {#} b1" using serves_prepare_attachment [of b E command] p by simp
  show ?thesis
  proof (cases r)
    case (Err e)
    let ?b2 = "case get_str command ''bridgeMaterializationId'' of
      Some i \<Rightarrow> resolve_session_view_waiters E sid i (Err e) b1 | None \<Rightarrow> b1"
    have 2: "serves {#} b {#} ?b2"
      using 1 serves_first [OF 1 serves_resolve] by (simp split: option.split)
    then show ?thesis
      using serves_first [OF 2 calmly_serves [OF calmly_fields(5)]]
      by (simp add: prepare_command_def p Err Let_def split: option.split)
  qed (use 1 p in \<open>simp_all add: prepare_command_def\<close>)
qed

lemma serves_reject: "serves {#} b {#} (reject_prepared_attachment E command prepared e b)"
proof (cases "get_str command ''sessionId''")
  case (Some sid)
  let ?kind = "if get_str command ''type'' = Some ''session/load'' then Load else Resume"
  let ?inc = "reservation_incarnation (pa_reservation prepared)" and ?reload = "reservation_is_reload (pa_reservation prepared)"
  obtain r b1 where f: "fail_runtime_attachment E sid ?inc (pa_operation_id prepared) ?kind ?reload b = (r, b1)" by fastforce
  have 1: "calmly b b1"
    using calmly_fail_attachment [of b E sid ?inc "pa_operation_id prepared" ?kind ?reload] f by simp
  define b2 where "b2 = (if ?reload then b1 else put_sessions (mirror_remove E sid ?inc (sessions b1)) b1)"
  have 2: "calmly b b2" using 1 calmly_trans [OF 1 calmly_put [OF kept_remove]] by (simp add: b2_def)
  define b3 where "b3 = (case map_option rb_owner (replay_validation_backup sid b) of
    Some owner \<Rightarrow> clear_attachment_tracking sid owner False b2 | None \<Rightarrow> b2)"
  have 3: "calmly b b3" using 2 calmly_trans [OF 2 calmly_tracking] by (simp add: b3_def split: option.split)
  define b4 where "b4 = (case get_str command ''bridgeMaterializationId'' of
    Some i \<Rightarrow> resolve_session_view_waiters E sid i (Err e) b3 | None \<Rightarrow> b3)"
  have 4: "serves {#} b {#} b4"
    using calmly_serves [OF 3] serves_then [OF calmly_serves [OF 3] serves_resolve] by (simp add: b4_def split: option.split)
  have "serves {#} b {#} (flush_bridge b4)" by (rule serves_first [OF 4 calmly_serves [OF calmly_flush]])
  moreover have "reject_prepared_attachment E command prepared e b =
      (if \<not> prepared_is_current sid ?kind prepared b then b else case r of Ok _ \<Rightarrow> flush_bridge b4 | _ \<Rightarrow> b1)"
    unfolding reject_prepared_attachment_def Some option.case Let_def f b4_def b3_def b2_def
    by (cases r) (simp_all only: prod.case result.case)
  ultimately show ?thesis using calmly_serves [OF 1] by (cases r) simp_all
qed (simp add: reject_prepared_attachment_def)

section \<open>Runs\<close>

text \<open>
  What happens to the requests for views: somebody asks, the load that is returned is prepared or
  rejected, it ends, a session retires, a receiver or an observer goes away; and in between whatever
  changes the registry or the time.
\<close>

datatype view_step =
    PrepareLoad string json "nat option"
  | RejectLoad json prepared_attachment bridge_error
  | LoadEnds string string "bridge_error option"
  | CompleteRetirement string u64 session_admission string string
  | Transaction mirror_call
  | CloseReceiver nat
  | EndLease observation_lease
  | TimePasses nat
  | FlushBridge
  | ListSession string string

fun view_do :: "env \<Rightarrow> view_step \<Rightarrow> bridge_state \<Rightarrow> bridge_state" where
  "view_do E (PrepareLoad sid command response) b = snd (prepare_command E sid command response b)"
| "view_do E (RejectLoad command prepared e) b = reject_prepared_attachment E command prepared e b"
| "view_do E (LoadEnds sid attempt failure) b =
     resolve_session_view_waiters E sid attempt (case failure of None \<Rightarrow> Ok () | Some e \<Rightarrow> Err e) b"
| "view_do E (CompleteRetirement sid inc adm op reason) b = complete_session_retirement E sid inc adm op reason b"
| "view_do E (Transaction c) b = put_sessions (mirror_do E c (sessions b)) b"
| "view_do E (CloseReceiver k) b = b\<lparr>br_gone := k # br_gone b\<rparr>"
| "view_do E (EndLease lease) b = cancel_lease lease b"
| "view_do E (TimePasses t) b = refresh_observer_timers (b\<lparr>br_now := br_now b + t\<rparr>)"
| "view_do E FlushBridge b = flush_bridge b"
| "view_do E (ListSession sid cwd) b = b\<lparr>br_listed := hm_insert sid cwd (br_listed b)\<rparr>"

inductive view_run :: "env \<Rightarrow> (nat \<Rightarrow> string) \<Rightarrow> view_waiter list \<Rightarrow> bridge_state \<Rightarrow> bool" for E U where
  vr_start: "view_run E U [] (bridge_start epoch left capabilities observing timeout)"
| vr_ask: "view_run E U ws b \<Longrightarrow> waiter_reply w \<notin> set (map waiter_reply ws) \<Longrightarrow>
    view_run E U (ws @ [w]) (snd (prepare_session_view E U sid cwd expected w b))"
| vr_step: "view_run E U ws b \<Longrightarrow> view_run E U ws (view_do E s b)"
| vr_runtime: "view_run E U ws b \<Longrightarrow> runtime_step E (sessions b) rg \<Longrightarrow> view_run E U ws (put_sessions rg b)"
| vr_route: "view_run E U ws b \<Longrightarrow> route_step (sessions b) rg \<Longrightarrow> view_run E U ws (put_sessions rg b)"

lemma view_do_serves: "serves {#} b {#} (view_do E s b)"
proof (cases s)
  case (LoadEnds sid attempt failure)
  have "(case failure of None \<Rightarrow> Ok () | Some e \<Rightarrow> Err e) \<noteq> Panic" by (cases failure) simp_all
  with LoadEnds show ?thesis by (simp add: serves_resolve)
next
  case (CloseReceiver k)
  then show ?thesis by (auto simp: calmly_def intro: calmly_serves)
next
  case (TimePasses t)
  then show ?thesis using calmly_serves [OF calmly_trans [OF calmly_fields(7) calmly_refresh]] by simp
qed (simp_all add: serves_prepare_command serves_reject calmly_serves calmly_put)

lemma view_run_serves:
  assumes "view_run E U ws b"
  shows "distinct (map waiter_reply ws) \<and> held b \<subseteq> set ws \<and>
    (\<exists>D. channels ws = owed b + image_mset waiter_reply D \<and> set_mset D \<subseteq> set ws \<and> (\<forall>w \<in># D. waiter_is_closed w b))"
proof -
  have next': "held b' \<subseteq> set ws \<union> set_mset A \<and> (\<exists>D. channels ws + image_mset waiter_reply A = owed b' + image_mset waiter_reply D \<and>
      set_mset D \<subseteq> set ws \<union> set_mset A \<and> (\<forall>w \<in># D. waiter_is_closed w b'))"
    if h: "held b \<subseteq> set ws" and d: "channels ws = owed b + image_mset waiter_reply D" "set_mset D \<subseteq> set ws" "\<forall>w \<in># D. waiter_is_closed w b"
      and s: "serves A b {#} b'" for ws b b' A D
  proof -
    obtain D' where d': "owed b + image_mset waiter_reply A = owed b' + image_mset waiter_reply D'"
      "\<forall>w \<in># D'. waiter_is_closed w b'" "held b' \<union> set_mset D' \<subseteq> held b \<union> set_mset A" "later b b'"
      using s by (auto simp: serves_def)
    have "channels ws + image_mset waiter_reply A = (owed b + image_mset waiter_reply A) + image_mset waiter_reply D"
      by (simp only: d(1) ac_simps)
    also have "\<dots> = owed b' + image_mset waiter_reply (D' + D)" by (simp only: d'(1) image_mset_union ac_simps)
    finally have "channels ws + image_mset waiter_reply A = owed b' + image_mset waiter_reply (D' + D)" .
    moreover have "\<forall>w \<in># D' + D. waiter_is_closed w b'" using d(3) d'(2) closed_later [OF d'(4)] by auto
    moreover have "held b' \<subseteq> set ws \<union> set_mset A" "set_mset (D' + D) \<subseteq> set ws \<union> set_mset A" using h d(2) d'(3) by auto
    ultimately show ?thesis by blast
  qed
  have same: "held b' \<subseteq> set ws \<and> (\<exists>D. channels ws = owed b' + image_mset waiter_reply D \<and> set_mset D \<subseteq> set ws \<and>
      (\<forall>w \<in># D. waiter_is_closed w b'))"
    if "distinct (map waiter_reply ws) \<and> held b \<subseteq> set ws \<and>
    (\<exists>D. channels ws = owed b + image_mset waiter_reply D \<and> set_mset D \<subseteq> set ws \<and> (\<forall>w \<in># D. waiter_is_closed w b))"
      "serves {#} b {#} b'" for ws b b'
    using next' [of b ws _ "{#}" b'] that by auto
  show ?thesis using assms
  proof induction
    case (vr_start epoch left capabilities observing timeout)
    then show ?case
      by (simp add: bridge_start_def hub_start_def registry_new_def owed_def waiting_def told_def handles_new_def held_def
          waiters_at_def entry_of_def bt.get_nil)
  next
    case (vr_ask ws b w sid cwd expected)
    then obtain D where "held b \<subseteq> set ws" "channels ws = owed b + image_mset waiter_reply D" "set_mset D \<subseteq> set ws"
      "\<forall>w \<in># D. waiter_is_closed w b" by blast
    from next' [OF this serves_prepare [of w b E U sid cwd expected]] vr_ask show ?case by auto
  next
    case (vr_step ws b s)
    with same [OF vr_step.IH view_do_serves] show ?case by blast
  next
    case (vr_runtime ws b rg)
    with same [OF vr_runtime.IH calmly_serves [OF calmly_put [OF kept_runtime_step]]] show ?case by blast
  next
    case (vr_route ws b rg)
    with same [OF vr_route.IH calmly_serves [OF calmly_put [OF kept_route_step]]] show ?case by blast
  qed
qed

section \<open>One answer\<close>

text \<open>How often a channel is used: by those that wait, by a retirement and by the answers of the Bridge.\<close>

definition uses :: "nat \<Rightarrow> bridge_state \<Rightarrow> nat" where
  "uses k b = count (waiting (sessions b)) k + count (told (rg_handles (sessions b))) k + count (mset (map fst (br_answers b))) k"

lemma count_channels:
  assumes "distinct (map waiter_reply ws)" "w \<in> set ws"
  shows "count (channels ws) (waiter_reply w) = 1"
  using assms by (simp add: count_mset_0_iff distinct_count_atmost_1 del: mset_map)

text \<open>
  (C36) Everybody who asks to view or to observe a session gets one answer and no more: through any run
  of requests, loads, rejected loads, retirements and transactions of the registry, the request waits
  for one load, or was answered once, or was told once that the session is gone; unless its receiver or
  its observer has gone before the answer.
\<close>

theorem every_view_is_answered_once:
  assumes "view_run E U ws b" "w \<in> set ws"
  shows "uses (waiter_reply w) b = 1 \<or> uses (waiter_reply w) b = 0 \<and> waiter_is_closed w b"
proof -
  obtain D where d: "distinct (map waiter_reply ws)" "channels ws = owed b + image_mset waiter_reply D"
    "set_mset D \<subseteq> set ws" "\<forall>v \<in># D. waiter_is_closed v b"
    using view_run_serves [OF assms(1)] by blast
  let ?k = "waiter_reply w"
  have one: "uses ?k b + count (image_mset waiter_reply D) ?k = 1"
    using count_channels [OF d(1) assms(2)] by (simp only: d(2) uses_def owed_def count_union)
  show ?thesis
  proof (cases "count (image_mset waiter_reply D) ?k = 0")
    case False
    then obtain v where v: "v \<in># D" "waiter_reply v = ?k"
      by (metis count_greater_zero_iff gr0I image_iff set_image_mset)
    then have "v = w" using d(1,3) assms(2) by (auto simp: distinct_map dest: inj_onD)
    with v d(4) one False show ?thesis by auto
  qed (use one in simp)
qed

lemma kept_waiting: "kept rg rg' \<Longrightarrow> waiting rg' \<subseteq># waiting rg"
proof -
  assume k: "kept rg rg'"
  let ?A = "{sid. waiters_at rg sid \<noteq> []}"
  have "{sid. waiters_at rg' sid \<noteq> []} \<subseteq> ?A" using k unfolding kept_def by force
  then have "waiting rg' = (\<Sum>sid \<in> ?A. channels (waiters_at rg' sid))" by (rule waiting_over [OF waiters_finite])
  moreover have "waiting rg = (\<Sum>sid \<in> ?A. channels (waiters_at rg sid))" by (rule waiting_over [OF waiters_finite]) simp
  moreover have "(\<Sum>sid \<in> ?A. channels (waiters_at rg' sid)) \<subseteq># (\<Sum>sid \<in> ?A. channels (waiters_at rg sid))"
  proof (rule mset_subset_eqI)
    fix c
    have "count (channels (waiters_at rg' sid)) c \<le> count (channels (waiters_at rg sid)) c" for sid
    proof -
      have "waiters_at rg' sid = [] \<or> waiters_at rg' sid = waiters_at rg sid" using k by (simp add: kept_def)
      then show ?thesis by auto
    qed
    then show "count (\<Sum>sid \<in> ?A. channels (waiters_at rg' sid)) c \<le> count (\<Sum>sid \<in> ?A. channels (waiters_at rg sid)) c"
      unfolding count_sum by (rule sum_mono)
  qed
  ultimately show ?thesis by simp
qed

lemma answer_sessions [simp]: "sessions (answer k a b) = sessions b" "br_gone (answer k a b) = br_gone b"
  by (simp_all add: answer_def)

lemma finish_kept: "kept (sessions b) (sessions (finish_session_view_waiter sid w result b))"
proof (cases w)
  case (ObserveWaiter key lease k)
  have o': "kept (sessions b) (sessions b1)" if "run_observers sid inc (observe key lease) b = (x, b1)" for inc x b1
    using calmly_observers [OF observers_calm_ops(2), of b sid inc key lease] that by (simp add: calmly_def)
  have l: "kept (sessions c) (sessions (cancel_lease lease c))" for c using calmly_lease(1) [of c lease] by (simp add: calmly_def)
  show ?thesis
  proof (cases result)
    case (Ok view)
    obtain x b1 where r: "run_observers sid (vw_incarnation (sv_session view)) (observe key lease) b = (x, b1)" by fastforce
    have n: "kept (sessions b) (sessions (notify n b1))" for n using o' [OF r] by (simp add: notify_def)
    then show ?thesis using Ok ObserveWaiter l r kept_trans [OF o' [OF r] l]
      by (auto simp: Let_def split: option.split bool.split)
  qed (use ObserveWaiter l in simp_all)
qed (cases result; simp)

lemma finish_fold_kept: "kept (sessions b) (sessions (fold (\<lambda>w. finish_session_view_waiter sid w result) ws b))"
  by (induction ws arbitrary: b) (auto intro: kept_trans finish_kept)

text \<open>
  (C37) When a load ends, everybody who waits for it is answered, whether it failed or not: afterwards
  nobody waits for the session, and each request has its one answer, unless its receiver has gone.
\<close>

theorem ended_load_answers_everyone:
  assumes "view_run E U ws b" "session_materialization sid b = Some m" "w \<in> set (mz_waiters m)"
    and b': "b' = view_do E (LoadEnds sid (mz_attempt_id m) failure) b"
  shows "waiters_at (sessions b') sid = [] \<and>
    (waiter_is_closed w b' \<or>
     count (told (rg_handles (sessions b'))) (waiter_reply w) + count (mset (map fst (br_answers b'))) (waiter_reply w) = 1)"
proof -
  let ?k = "waiter_reply w" and ?load = "case failure of None \<Rightarrow> Ok () | Some e \<Rightarrow> Err e"
  obtain b1 where t: "take_session_materialization sid (mz_attempt_id m) b = (Some m, b1)"
    using assms(2) by (simp add: take_session_materialization_def)
  obtain e where e: "entry_of sid (sessions b) = Some e" using assms(2) by (auto simp: materialization_entry bind_eq_Some_conv)
  have b1: "b1 = set_materialization sid None b" using t assms(2) by (simp add: take_session_materialization_def)
  have wb: "waiters_at (sessions b) sid = mz_waiters m" using assms(2) by (simp add: waiters_materialization)
  have held: "w \<in> held b" using assms(3) wb unfolding held_def by (metis UNIV_I UN_I)
  have asked: "w \<in> set ws" using view_run_serves [OF assms(1)] held by blast
  have "b' = resolve_session_view_waiters E sid (mz_attempt_id m) ?load b" by (simp add: b')
  obtain r b2 where o': "load_outcome sid ?load (cancel_token (mz_cancellation m) b1) = (r, b2)" by fastforce
  have "?load \<noteq> Panic" by (cases failure) simp_all
  note l = load_outcome_serves [OF this, where b = "cancel_token (mz_cancellation m) b1" and sid = sid]
  have k2: "kept (sessions b1) (sessions b2)"
    using calmly_trans [OF calmly_lease(2) l(1)] o' by (simp add: calmly_def)
  let ?c = "fold (\<lambda>w. finish_session_view_waiter sid w r) (mz_waiters m) b2"
  have eq: "b' = refresh_observer_timers (remove_cold E sid ?c)"
    by (simp add: b' resolve_session_view_waiters_def t o')
  have "kept (sessions ?c) (sessions b')"
    using calmly_trans [OF calmly_remove_cold calmly_refresh] unfolding eq by (simp add: calmly_def)
  with k2 finish_fold_kept have k: "kept (sessions b1) (sessions b')" using kept_trans by blast
  have "waiters_at (sessions b1) sid = []" by (rule take_materialization(2) [OF t]) simp
  with k have n: "waiters_at (sessions b') sid = []" unfolding kept_def by metis
  have "waiting (sessions b1) + channels (mz_waiters m) = waiting (sessions b)"
    using waiting_changed [OF set_materialization_waiters [OF e, of None]] by (simp add: b1 wb)
  then have "count (waiting (sessions b1)) ?k + count (channels (mz_waiters m)) ?k = count (waiting (sessions b)) ?k"
    by (metis count_union)
  moreover have "count (waiting (sessions b)) ?k \<le> 1"
    using every_view_is_answered_once [OF assms(1) asked] by (auto simp: uses_def)
  moreover have "count (channels (mz_waiters m)) ?k > 0" using assms(3) by (simp add: count_greater_zero_iff)
  ultimately have "count (waiting (sessions b1)) ?k = 0" by linarith
  with mset_subset_eq_count [OF kept_waiting [OF k], of ?k] have z: "count (waiting (sessions b')) ?k = 0" by simp
  have "view_run E U ws b'" unfolding b' by (rule vr_step [OF assms(1)])
  from every_view_is_answered_once [OF this asked] z n show ?thesis by (auto simp: uses_def)
qed

definition sample_asked_view :: bridge_state where
  "sample_asked_view = snd (prepare_session_view sample_env (\<lambda>_. ''u'') ''s'' (Some ''/w'') None (ViewWaiter 7)
     (bridge_start ''e'' None None False None))"

definition sample_failed_load :: bridge_state where
  "sample_failed_load = view_do sample_env (LoadEnds ''s'' ''u'' (Some (BrInternal ''agent failed''))) sample_asked_view"

lemma sample_views_run:
  "view_run sample_env (\<lambda>_. ''u'') [ViewWaiter 7] sample_asked_view"
  "view_run sample_env (\<lambda>_. ''u'') [ViewWaiter 7] sample_failed_load"
proof -
  have "view_run sample_env (\<lambda>_. ''u'') ([] @ [ViewWaiter 7]) sample_asked_view"
    unfolding sample_asked_view_def by (rule vr_ask [OF vr_start]) simp
  then show a: "view_run sample_env (\<lambda>_. ''u'') [ViewWaiter 7] sample_asked_view" by simp
  show "view_run sample_env (\<lambda>_. ''u'') [ViewWaiter 7] sample_failed_load"
    unfolding sample_failed_load_def by (rule vr_step [OF a])
qed

lemma sample_views:
  "session_materialization ''s'' sample_asked_view = Some \<lparr>mz_attempt_id = ''u'', mz_waiters = [ViewWaiter 7], mz_cancellation = 2\<rparr>"
  "br_gone sample_asked_view = []" "br_observing sample_asked_view = False"
proof -
  let ?b = "bridge_start ''e'' None None False None"
  let ?b1 = "put_sessions (register_cold sample_env ''s'' 0 (registry_new ''e'')) ?b"
  let ?m = "\<lparr>mz_attempt_id = ''u'', mz_waiters = [ViewWaiter 7], mz_cancellation = 2\<rparr>"
  have n: "sessions ?b = registry_new ''e''" "br_next ?b = 0" "br_gone ?b = []" "br_observing ?b = False" "br_catalog_deletions ?b = []"
    by (simp_all add: bridge_start_def hub_start_def)
  have e: "entry_of k (registry_new ''e'') = None" for k by (simp add: entry_of_def registry_new_def bt.get_nil)
  have s: "sample_asked_view = (set_materialization ''s'' (Some ?m) ?b1)\<lparr>br_next := 3\<rparr>"
    by (simp add: sample_asked_view_def prepare_session_view_def n state_of_def e hm.get_nil shown_incarnation_def
        materialization_entry start_materialization_def Let_def) (simp add: put_sessions_def n numeral_2_eq_2)
  obtain x where x: "entry_of ''s'' (sessions ?b1) = Some x" using register_has_entry by fastforce
  have "br_observing (set_materialization k m b) = br_observing b" for k m b
    by (simp add: set_materialization_def change_ingest_def change_resources_def put_sessions_def split: option.split result.split)
  then show "session_materialization ''s'' sample_asked_view = Some ?m" "br_gone sample_asked_view = []" "br_observing sample_asked_view = False"
    using x n by (simp_all add: s materialization_entry set_materialization_sessions [OF x] registry_simps) (simp_all add: put_sessions_def n)
qed

lemma sample_failed_load_gone: "br_gone sample_failed_load = []"
proof -
  have g: "br_gone (remove_cold E k b) = br_gone b" "br_gone (cancel_token t b) = br_gone b" for E k b t
    by (simp_all add: remove_cold_def cancel_token_def split: option.split)
  have "br_observing (remove_cold E k b) = br_observing b" "br_observing (answer i a b) = br_observing b"
    "br_observing (cancel_token t b) = br_observing b" "br_observing (set_materialization k m b) = br_observing b" for E k b t i a m
    by (simp_all add: remove_cold_def cancel_token_def answer_def set_materialization_def change_ingest_def change_resources_def
        put_sessions_def split: option.split result.split)
  then show ?thesis
    by (simp add: sample_failed_load_def resolve_session_view_waiters_def take_session_materialization_def sample_views
        load_outcome_def refresh_observer_timers_def g)
qed

lemma every_view_is_answered_once_witness: "uses 7 sample_failed_load = 1"
  using every_view_is_answered_once [OF sample_views_run(2), of "ViewWaiter 7"] by (simp add: sample_failed_load_gone)

lemma ended_load_answers_everyone_witness:
  "count (told (rg_handles (sessions sample_failed_load))) 7 + count (mset (map fst (br_answers sample_failed_load))) 7 = 1"
proof -
  have m: "ViewWaiter 7 \<in> set (mz_waiters \<lparr>mz_attempt_id = ''u'', mz_waiters = [ViewWaiter 7], mz_cancellation = 2\<rparr>)" by simp
  have b: "sample_failed_load = view_do sample_env (LoadEnds ''s''
      (mz_attempt_id \<lparr>mz_attempt_id = ''u'', mz_waiters = [ViewWaiter 7], mz_cancellation = 2\<rparr>) (Some (BrInternal ''agent failed''))) sample_asked_view"
    by (simp only: sample_failed_load_def materialization_resources.select_convs)
  from ended_load_answers_everyone [OF sample_views_run(1) sample_views(1) m b] sample_failed_load_gone
  show ?thesis by (simp del: mset_map)
qed

end
