(* ===== verification/Session_Updates.thy ===== *)
theory Session_Updates
  imports Session_Views
begin

text \<open>
  An update from the Agent (\<open>handle_session_update\<close> in \<open>src/src/bridge.rs\<close>). First it claims the validation
  that owns it: that of a live session, or the staging of a session that is being created. Then, if the
  owner is still the same, it is validated and goes to the load or to the candidate of an attachment, to
  a replay, to the staging, or to the live session (\<open>Turn_Stream\<close>). The two parts run under the lock of
  the Bridge, one after the other; other operations may come between.

  \<open>T e\<close> is the text of an error (\<open>error_message\<close>: its data as JSON, with the names \<open>Debug\<close> prints). An update
  comes as the value of the notification and of the update in it; writing them as JSON does not fail.
\<close>

section \<open>The owner of an update\<close>

definition mark_invalid :: "string \<Rightarrow> semantic_state \<Rightarrow> semantic_state" where
  "mark_invalid m v = (if sem_invalid_reason v = None then v\<lparr>sem_invalid_reason := Some m\<rparr> else v)"

definition is_staged :: "string \<Rightarrow> update_owner \<Rightarrow> bridge_state \<Rightarrow> bool" where
  "is_staged sid owner b \<longleftrightarrow> uo_incarnation owner = None \<and>
     (case hm_get (br_staging b) sid of Some staging \<Rightarrow> sem_allocation (cs_validation staging) = uo_allocation owner | None \<Rightarrow> False)"

definition owner_validation :: "string \<Rightarrow> update_owner \<Rightarrow> bridge_state \<Rightarrow> semantic_state option" where
  "owner_validation sid owner b =
     (if \<not> owner_matches owner sid b then None
      else if is_staged sid owner b then map_option cs_validation (hm_get (br_staging b) sid)
      else session_validation sid b)"

definition change_owner_validation :: "string \<Rightarrow> update_owner \<Rightarrow> (semantic_state \<Rightarrow> semantic_state) \<Rightarrow> bridge_state \<Rightarrow> bridge_state" where
  "change_owner_validation sid owner f b =
     (if \<not> owner_matches owner sid b then b
      else if is_staged sid owner b
      then (case hm_get (br_staging b) sid of
              Some staging \<Rightarrow> b\<lparr>br_staging := hm_insert sid (staging\<lparr>cs_validation := f (cs_validation staging)\<rparr>) (br_staging b)\<rparr>
            | None \<Rightarrow> b)
      else change_ingest sid (\<lambda>r. r\<lparr>re_validation := map_option f (re_validation r)\<rparr>) b)"

text \<open>Staging is found or made, with a validation of its own.\<close>

definition ensure_staging :: "string \<Rightarrow> bridge_state \<Rightarrow> creation_staging \<times> bridge_state" where
  "ensure_staging sid b =
     (case hm_get (br_staging b) sid of
        Some staging \<Rightarrow> (staging, b)
      | None \<Rightarrow>
          (case new_validation b of (v, b1) \<Rightarrow>
             let staging = \<lparr>cs_validation = v, cs_early = [], cs_bytes = 0\<rparr>
             in (staging, b1\<lparr>br_staging := hm_insert sid staging (br_staging b1)\<rparr>)))"

definition update_error :: "bridge_error \<Rightarrow> bridge_state \<Rightarrow> bridge_state" where
  "update_error e b = notify (AcpError e ''session/update'') b"

definition claim_update :: "string \<Rightarrow> bridge_state \<Rightarrow> update_owner option \<times> bridge_state" where
  "claim_update sid b =
     (case live_session_incarnation sid b of
        Some inc \<Rightarrow>
          (case ensure_session_validation sid inc b of
             (Ok v, b1) \<Rightarrow> (Some \<lparr>uo_incarnation = Some inc, uo_allocation = sem_allocation v\<rparr>, b1)
           | (Err e, b1) \<Rightarrow> (None, update_error e b1)
           | (Panic, b1) \<Rightarrow> (None, b1))
      | None \<Rightarrow>
          if br_pending_creations b = 0 \<or> is_retired sid (sessions b) then (None, b)
          else if sid = [] then (None, update_error (BrSemantic ''Agent session ID must not be empty'') b)
          else if hm_get (br_staging b) sid = None \<and> br_pending_creations b \<le> length (br_staging b)
          then (None, update_error (BrSemantic ''Agent sent updates for more session IDs than pending session creations'') b)
          else (case ensure_staging sid b of (staging, b1) \<Rightarrow>
            (Some \<lparr>uo_incarnation = None, uo_allocation = sem_allocation (cs_validation staging)\<rparr>, b1)))"

section \<open>Where an update goes\<close>

definition validate_terminal_references :: "string \<Rightarrow> u64 \<Rightarrow> json \<Rightarrow> bridge_state \<Rightarrow> (bridge_error, unit) result" where
  "validate_terminal_references sid inc tool_call b =
     (let references = terminal_references tool_call
      in if references = [] then Ok ()
         else case Option.bind (resource_session sid (sessions b)) (\<lambda>s. if ss_incarnation s = inc then ss_live s else None) of
           None \<Rightarrow> Err (BrInvalidParams ''terminal reference owner was retired'')
         | Some live \<Rightarrow>
             (case List.find (\<lambda>tid. bt_get (lv_terminals live) tid = None) references of
                Some tid \<Rightarrow> Err (BrInvalidRequest (''unknown terminal: '' @ tid))
              | None \<Rightarrow> Ok ()))"

text \<open>An update for the live session, with the event for its observers.\<close>

definition turn_delta :: "string \<Rightarrow> u64 \<Rightarrow> json \<Rightarrow> bridge_state \<Rightarrow> bridge_notice option" where
  "turn_delta sid inc update b = Option.bind (state_of sid (sessions b)) (\<lambda>s.
     if ss_incarnation s = inc then Some (TurnDelta sid inc (ss_view_revision s) update) else None)"

definition stream_mirror :: "env \<Rightarrow> string \<Rightarrow> u64 \<Rightarrow> mirror_phase option \<Rightarrow> json \<Rightarrow> bridge_state
    \<Rightarrow> (bridge_error, bridge_notice option) result \<times> bridge_state" where
  "stream_mirror E sid inc phase update b =
     (case if phase = Some Running then active_operation_id sid inc (sessions b) else None of
        Some operation_id \<Rightarrow>
          call_then (lift_bridge BrMirror (run_sessions (mirror_append_turn_update E sid inc operation_id update) b)) (\<lambda>_ b1.
            expect_in b1 (turn_delta sid inc update b1) (\<lambda>delta. (Ok (Some delta), b1)))
      | None \<Rightarrow>
          if phase = Some Ready \<or> phase = Some Reconciling then
            call_then (lift_bridge BrMirror (run_sessions (append_session_update E sid inc update) b)) (\<lambda>_ b1.
              call_then (session_view_value sid inc b1) (\<lambda>view b2. (Ok (Some (ViewChanged sid view)), b2)))
          else (Ok None, b))"

definition stream_update :: "env \<Rightarrow> string \<Rightarrow> json \<Rightarrow> bridge_state \<Rightarrow> (bridge_error, unit) result \<times> bridge_state" where
  "stream_update E sid update b =
     (let inc = (case attached_incarnation sid (sessions b) of Some i \<Rightarrow> i | None \<Rightarrow> 0);
          phase = attached_phase sid (sessions b);
          send = (\<lambda>d b. case d of Some n \<Rightarrow> notify n b | None \<Rightarrow> b)
      in if inc = 0 then (Ok (), b)
         else if is_conversation_update update then
           call_then (stream_mirror E sid inc phase update b) (\<lambda>delta b1.
             call_then (lift_bridge BrUpdate (run_sessions (project_stream E sid inc update) b1)) (\<lambda>_ b2. (Ok (), send delta b2)))
         else lift_bridge BrRuntime (run_sessions (\<lambda>rg. update_control_state E (rg_epoch rg) sid inc
             (case get_str update ''sessionUpdate'' of Some k \<Rightarrow> k | None \<Rightarrow> ''unknown'') update rg) b))"

definition stage_update :: "env \<Rightarrow> string \<Rightarrow> json \<Rightarrow> bridge_state \<Rightarrow> (bridge_error, unit) result \<times> bridge_state" where
  "stage_update E sid notification b =
     expect_in b (hm_get (br_staging b) sid) (\<lambda>staging.
       let bytes = serialized_len E notification
       in (Ok (), b\<lparr>br_staging := hm_insert sid (staging\<lparr>cs_early := cs_early staging @ [notification],
                       cs_bytes := cs_bytes staging + bytes\<rparr>) (br_staging b),
                   br_early_count := br_early_count b + 1, br_early_bytes := br_early_bytes b + bytes\<rparr>))"

definition collect_control :: "env \<Rightarrow> string \<Rightarrow> json \<Rightarrow> bridge_state \<Rightarrow> bridge_state" where
  "collect_control E sid update = change_ingest sid (\<lambda>r. r\<lparr>re_control_candidate :=
     \<lparr>cc_updates = cc_updates (re_control_candidate r) @ [update],
      cc_bytes = sat_add (cc_bytes (re_control_candidate r)) (serialized_len E update)\<rparr>\<rparr>)"

text \<open>What the Bridge sees of the session when the update comes.\<close>

record update_place =
  up_active :: "u64 option"
  up_attachment :: bool
  up_early :: bool
  up_phase :: "mirror_phase option"
  up_attempt :: "string option"

definition place_of :: "string \<Rightarrow> bridge_state \<Rightarrow> update_place" where
  "place_of sid b =
     (let active = attached_incarnation sid (sessions b);
          attachment = session_operation_pending sid AdmitAttachment b
      in \<lparr>up_active = active, up_attachment = attachment,
          up_early = (active = None \<and> \<not> attachment \<and> 0 < br_pending_creations b \<and> \<not> is_retired sid (sessions b)),
          up_phase = attached_phase sid (sessions b),
          up_attempt = Option.bind active (\<lambda>inc. mirror_load_attempt sid inc (sessions b))\<rparr>)"

definition replays :: "update_place \<Rightarrow> bool" where
  "replays p \<longleftrightarrow> up_attachment p \<or> up_attempt p \<noteq> None"

definition deliver_update :: "env \<Rightarrow> string \<Rightarrow> json \<Rightarrow> json \<Rightarrow> update_place \<Rightarrow> bridge_state \<Rightarrow> (bridge_error, unit) result \<times> bridge_state" where
  "deliver_update E sid update notification p b =
     (if up_attachment p then lift_bridge BrUpdate (run_sessions (attachment_update E sid update) b)
      else case (up_active p, up_attempt p) of
        (Some inc, Some attempt) \<Rightarrow>
          if up_phase p = Some Loading \<or> up_phase p = Some Reconciling then
            if is_conversation_update update
            then lift_bridge BrMirror (run_sessions (append_load_update E sid inc attempt update) b)
            else (Ok (), collect_control E sid update b)
          else stream_update E sid update b
      | _ \<Rightarrow> if up_early p then stage_update E sid notification b else stream_update E sid update b)"

section \<open>The update\<close>

definition judge_update :: "env \<Rightarrow> (bridge_error \<Rightarrow> string) \<Rightarrow> string \<Rightarrow> json \<Rightarrow> json \<Rightarrow> update_owner \<Rightarrow> update_place \<Rightarrow> bridge_state
    \<Rightarrow> (bridge_error, unit) result \<times> bridge_state" where
  "judge_update E T sid update notification owner p b =
     (let tool_update = get_str update ''sessionUpdate'' \<in> {Some ''tool_call'', Some ''tool_call_update''};
          untracked = up_active p = None \<or> replays p;
          reference = (if tool_update \<and> \<not> replays p
            then validate_terminal_references sid (case uo_incarnation owner of Some inc \<Rightarrow> inc | None \<Rightarrow> 0) update b else Ok ())
      in case reference of
           Err e \<Rightarrow> (Err e, if untracked then change_owner_validation sid owner (mark_invalid (T e)) b else b)
         | Panic \<Rightarrow> (Panic, b)
         | Ok _ \<Rightarrow>
             expect_in b (owner_validation sid owner b) (\<lambda>v.
               case (if replays p then validate_history_update E v update else validate_and_track_session_update E v update) of
                 (Err m, v') \<Rightarrow>
                   (Err (BrSemantic m), change_owner_validation sid owner (\<lambda>_. if untracked then mark_invalid m v' else v') b)
               | (Panic, v') \<Rightarrow> (Panic, b)
               | (Ok _, v') \<Rightarrow> deliver_update E sid update notification p (change_owner_validation sid owner (\<lambda>_. v') b)))"

text \<open>An update that a replay cannot take makes the whole replay fail.\<close>

definition refuse_replay :: "env \<Rightarrow> (bridge_error \<Rightarrow> string) \<Rightarrow> string \<Rightarrow> update_owner \<Rightarrow> update_place \<Rightarrow> bridge_error \<Rightarrow> bridge_state \<Rightarrow> bridge_state" where
  "refuse_replay E T sid owner p e b =
     (let b1 = (if replays p then change_owner_validation sid owner (mark_invalid (T e)) b else b)
      in case state_of sid (sessions b1) of
           Some s \<Rightarrow>
             (case mirror_load_attempt sid (ss_incarnation s) (sessions b1) of
                Some attempt \<Rightarrow> snd (run_sessions (invalidate_load sid (ss_incarnation s) attempt) b1)
              | None \<Rightarrow> b1)
         | None \<Rightarrow> b1)"

definition ingest_update :: "env \<Rightarrow> (bridge_error \<Rightarrow> string) \<Rightarrow> string \<Rightarrow> json \<Rightarrow> json \<Rightarrow> update_owner \<Rightarrow> bridge_state \<Rightarrow> bridge_state" where
  "ingest_update E T sid update notification owner b =
     (let p = place_of sid b
      in if \<not> owner_matches owner sid b \<or> (up_active p = None \<and> \<not> up_attachment p \<and> \<not> up_early p) then b
         else case judge_update E T sid update notification owner p b of
           (Ok _, b1) \<Rightarrow> flush_bridge b1
         | (Err e, b1) \<Rightarrow>
             (let b2 = flush_bridge (refuse_replay E T sid owner p e b1)
              in if up_attempt p = None then update_error e b2 else b2)
         | (Panic, b1) \<Rightarrow> b1)"

definition handle_session_update :: "env \<Rightarrow> (bridge_error \<Rightarrow> string) \<Rightarrow> string \<Rightarrow> json \<Rightarrow> json \<Rightarrow> bridge_state \<Rightarrow> bridge_state" where
  "handle_session_update E T sid update notification b =
     (case claim_update sid b of
        (Some owner, b1) \<Rightarrow> ingest_update E T sid update notification owner b1
      | (None, b1) \<Rightarrow> b1)"

section \<open>The account of what is staged\<close>

definition staging_exact :: "env \<Rightarrow> bridge_state \<Rightarrow> bool" where
  "staging_exact E b \<longleftrightarrow> hm_wf (br_staging b) \<and>
     list_all (\<lambda>e. cs_bytes (snd e) = sum_list (map (serialized_len E) (cs_early (snd e)))) (br_staging b) \<and>
     br_early_count b = sum_list (map (\<lambda>e. length (cs_early (snd e))) (br_staging b)) \<and>
     br_early_bytes b = sum_list (map (\<lambda>e. cs_bytes (snd e)) (br_staging b))"

definition same_staging :: "bridge_state \<Rightarrow> bridge_state \<Rightarrow> bool" where
  "same_staging b b' \<longleftrightarrow> br_staging b' = br_staging b \<and> br_early_count b' = br_early_count b \<and> br_early_bytes b' = br_early_bytes b"

lemma same_staging_refl [simp, intro]: "same_staging b b"
  by (simp add: same_staging_def)

lemma same_staging_trans [trans]: "same_staging b b1 \<Longrightarrow> same_staging b1 b2 \<Longrightarrow> same_staging b b2"
  by (simp add: same_staging_def)

lemma exact_same: "same_staging b b' \<Longrightarrow> staging_exact E b' = staging_exact E b"
  by (simp add: same_staging_def staging_exact_def)

lemma same_staging_put [simp]: "same_staging b (put_sessions rg b)" "same_staging b (notify n b)" "same_staging b (b\<lparr>br_hub := h\<rparr>)"
  "same_staging b (b\<lparr>br_timers := t\<rparr>)" "same_staging b (b\<lparr>br_next := n2\<rparr>)" "same_staging b (b\<lparr>br_pending_creations := n2\<rparr>)"
  by (simp_all add: same_staging_def put_sessions_def notify_def)

lemma same_staging_run [simp]: "same_staging b (snd (run_sessions f b))"
  by (cases "f (sessions b)") (simp add: run_sessions_def)

lemma same_staging_lift [simp]: "same_staging b (snd (lift_bridge f x)) = same_staging b (snd x)"
  by (simp add: lift_bridge_def)

lemma same_staging_then:
  assumes "same_staging b (snd x)" "\<And>a b1. same_staging b1 (snd (g a b1))"
  shows "same_staging b (snd (call_then x g))"
proof (cases x)
  case (Pair r b1)
  with assms show ?thesis by (cases r) (auto intro: same_staging_trans)
qed

lemma same_staging_expect: "(\<And>a. same_staging b (snd (f a))) \<Longrightarrow> same_staging b (snd (expect_in b x f))"
  by (cases x) auto

lemma same_staging_change [simp]: "same_staging b (change_resources sid inc f b)" "same_staging b (change_ingest sid f b)"
  by (simp_all add: change_resources_def change_ingest_def split: result.split option.split)

lemma same_staging_fold: "(\<And>x b. same_staging b (f x b)) \<Longrightarrow> same_staging b (fold f xs b)"
  by (induction xs arbitrary: b) (auto intro: same_staging_trans)

lemma same_staging_observers: "same_staging b (snd (run_observers sid inc f b))"
  by (simp add: run_observers_def split: result.split prod.split)

lemma same_staging_flush [simp]: "same_staging b (flush_bridge b)" "same_staging b (refresh_observer_timers b)"
proof -
  have one: "same_staging b (refresh_session_timer sid b)" for sid b
  proof -
    have "same_staging b (case run_observers sid inc f b of (Some (Some timer), b1) \<Rightarrow> b1\<lparr>br_timers := br_timers b1 @ [(sid, inc, timer)]\<rparr> | (_, b1) \<Rightarrow> b1)"
      for inc f
    proof (cases "run_observers sid inc f b")
      case (Pair x b1)
      with same_staging_observers [of b sid inc f] have "same_staging b b1" by simp
      with Pair same_staging_trans [OF _ same_staging_put(4)] show ?thesis by (auto split: option.split)
    qed
    then show ?thesis
      by (simp add: refresh_session_timer_def Let_def same_staging_observers split: option.split)
  qed
  have r: "same_staging b (refresh_observer_timers b)" for b
    by (simp add: refresh_observer_timers_def same_staging_fold one)
  then show "same_staging b (refresh_observer_timers b)" .
  show "same_staging b (flush_bridge b)"
    unfolding flush_bridge_def by (rule same_staging_trans [OF same_staging_put(3) r])
qed

text \<open>One entry of the staging changes.\<close>

lemma sum_hm_insert:
  fixes f :: "'v \<Rightarrow> nat"
  shows "hm_wf m \<Longrightarrow> sum_list (map (\<lambda>e. f (snd e)) (hm_insert k v m)) + (case hm_get m k of Some w \<Rightarrow> f w | None \<Rightarrow> 0)
    = sum_list (map (\<lambda>e. f (snd e)) m) + f v"
  by (induction m) (auto simp: hm_insert_def hm_get_def hm_wf_def map_of_eq_None_iff split: option.split)

lemma sum_hm_remove:
  fixes f :: "'v \<Rightarrow> nat"
  shows "hm_wf m \<Longrightarrow> sum_list (map (\<lambda>e. f (snd e)) (hm_remove k m)) + (case hm_get m k of Some w \<Rightarrow> f w | None \<Rightarrow> 0)
    = sum_list (map (\<lambda>e. f (snd e)) m)"
  by (induction m)
     (auto simp: hm_remove_def hm_get_def hm_wf_def map_of_eq_None_iff delete_id split: option.split)

lemma all_hm_insert: "list_all (\<lambda>e. P (snd e)) m \<Longrightarrow> P v \<Longrightarrow> list_all (\<lambda>e. P (snd e)) (hm_insert k v m)"
  by (induction m) (auto simp: hm_insert_def)

lemma all_hm_remove: "list_all P m \<Longrightarrow> list_all P (hm_remove k m)"
  by (auto simp: hm_remove_def list_all_iff AList.delete_eq)

lemma all_hm_get: "list_all (\<lambda>e. P (snd e)) m \<Longrightarrow> hm_get m k = Some v \<Longrightarrow> P v"
  by (force simp: hm_get_def list_all_iff dest: map_of_SomeD)

lemma staging_replace:
  assumes e: "staging_exact E b" and g: "hm_get (br_staging b) sid = Some st"
    and w: "cs_bytes st' = sum_list (map (serialized_len E) (cs_early st'))"
    and n: "br_early_count b' + length (cs_early st) = br_early_count b + length (cs_early st')"
    and m: "br_early_bytes b' + cs_bytes st = br_early_bytes b + cs_bytes st'"
    and s: "br_staging b' = hm_insert sid st' (br_staging b)"
  shows "staging_exact E b'"
proof -
  have wf: "hm_wf (br_staging b)" using e by (simp add: staging_exact_def)
  have "list_all (\<lambda>e. cs_bytes (snd e) = sum_list (map (serialized_len E) (cs_early (snd e)))) (hm_insert sid st' (br_staging b))"
    by (rule all_hm_insert [where P = "\<lambda>c. cs_bytes c = sum_list (map (serialized_len E) (cs_early c))"])
       (use e w in \<open>simp_all add: staging_exact_def\<close>)
  then show ?thesis
    using e n m s g sum_hm_insert [OF wf, of "\<lambda>c. length (cs_early c)" sid st'] sum_hm_insert [OF wf, of cs_bytes sid st']
    by (simp add: staging_exact_def hm.wf_put)
qed

lemma staging_new:
  assumes e: "staging_exact E b" and g: "hm_get (br_staging b) sid = None" and w: "cs_early st = []" "cs_bytes st = 0"
    and s: "br_staging b' = hm_insert sid st (br_staging b)"
      "br_early_count b' = br_early_count b" "br_early_bytes b' = br_early_bytes b"
  shows "staging_exact E b'"
proof -
  have wf: "hm_wf (br_staging b)" using e by (simp add: staging_exact_def)
  have "list_all (\<lambda>e. cs_bytes (snd e) = sum_list (map (serialized_len E) (cs_early (snd e)))) (hm_insert sid st (br_staging b))"
    by (rule all_hm_insert [where P = "\<lambda>c. cs_bytes c = sum_list (map (serialized_len E) (cs_early c))"])
       (use e w in \<open>simp_all add: staging_exact_def\<close>)
  then show ?thesis
    using e s g w sum_hm_insert [OF wf, of "\<lambda>c. length (cs_early c)" sid st] sum_hm_insert [OF wf, of cs_bytes sid st]
    by (simp add: staging_exact_def hm.wf_put)
qed

lemma staging_drop:
  assumes e: "staging_exact E b" and g: "hm_get (br_staging b) sid = Some st"
  shows "staging_exact E (drop_staging sid st b)"
proof -
  have wf: "hm_wf (br_staging b)" using e by (simp add: staging_exact_def)
  have n: "br_early_count b = sum_list (map (\<lambda>e. length (cs_early (snd e))) (hm_remove sid (br_staging b))) + length (cs_early st)"
    "br_early_bytes b = sum_list (map (\<lambda>e. cs_bytes (snd e)) (hm_remove sid (br_staging b))) + cs_bytes st"
    using e g sum_hm_remove [OF wf, of "\<lambda>c. length (cs_early c)" sid] sum_hm_remove [OF wf, of cs_bytes sid]
    by (simp_all add: staging_exact_def)
  have "list_all (\<lambda>e. cs_bytes (snd e) = sum_list (map (serialized_len E) (cs_early (snd e)))) (hm_remove sid (br_staging b))"
    by (rule all_hm_remove) (use e in \<open>simp add: staging_exact_def\<close>)
  then show ?thesis using wf by (simp add: staging_exact_def drop_staging_def hm.wf_del sat_sub_def n)
qed

lemma staging_taken: "staging_exact E b \<Longrightarrow> staging_exact E (snd (take_creation_notifications sid b))"
proof (cases "hm_get (br_staging b) sid")
  case (Some st)
  assume e: "staging_exact E b"
  have wf: "hm_wf (br_staging b)" using e by (simp add: staging_exact_def)
  have "length (cs_early st) \<le> br_early_count b" "cs_bytes st \<le> br_early_bytes b"
    using e Some sum_hm_remove [OF wf, of "\<lambda>c. length (cs_early c)" sid] sum_hm_remove [OF wf, of cs_bytes sid]
    by (simp_all add: staging_exact_def)
  then show ?thesis
    by (intro staging_replace [OF e Some, of "st\<lparr>cs_early := [], cs_bytes := 0\<rparr>"])
       (simp_all add: take_creation_notifications_def Some sat_sub_def)
qed (simp add: take_creation_notifications_def)

lemma staging_discarded: "staging_exact E b \<Longrightarrow> staging_exact E (discard_creation_staging sid b)"
  by (simp add: discard_creation_staging_def staging_drop split: option.split)

lemma staging_fold: "staging_exact E b \<Longrightarrow> staging_exact E (fold discard_creation_staging sids b)"
  by (induction sids arbitrary: b) (simp_all add: staging_discarded)

lemma staging_cleared:
  assumes "staging_exact E b"
  shows "br_staging (clear_pending_creation_replays b) = [] \<and> br_early_count (clear_pending_creation_replays b) = 0 \<and>
    br_early_bytes (clear_pending_creation_replays b) = 0"
proof -
  have g: "hm_get (br_staging (fold discard_creation_staging sids b)) k = (if k \<in> set sids then None else hm_get (br_staging b) k)"
    for sids k b
    by (induction sids arbitrary: b)
       (auto simp: discard_creation_staging_def drop_staging_def hm.get_del split: option.split)
  have "hm_get (br_staging (clear_pending_creation_replays b)) k = None" for k
    using g [of "map fst (br_staging b)" b k]
    by (auto simp: clear_pending_creation_replays_def hm_get_def map_of_eq_None_iff)
  then have "fst ` set (br_staging (clear_pending_creation_replays b)) = {}"
    by (simp add: hm_get_def map_of_eq_None_iff set_eq_iff)
  then have n: "br_staging (clear_pending_creation_replays b) = []" by simp
  have "staging_exact E (clear_pending_creation_replays b)"
    unfolding clear_pending_creation_replays_def by (rule staging_fold [OF assms])
  with n show ?thesis by (simp add: staging_exact_def)
qed

lemma staging_promoted: "staging_exact E b \<Longrightarrow> staging_exact E (snd (promote_creation_validation sid inc b))"
  by (auto simp: promote_creation_validation_def try_in_def exact_same [OF same_staging_change(1)] staging_drop
      split: result.split option.split)

lemma staging_change:
  assumes "staging_exact E b"
  shows "staging_exact E (change_owner_validation sid owner f b)"
proof (cases "owner_matches owner sid b \<and> is_staged sid owner b")
  case True
  then obtain st where g: "hm_get (br_staging b) sid = Some st" by (auto simp: is_staged_def split: option.splits)
  have "cs_bytes st = sum_list (map (serialized_len E) (cs_early st))"
    using assms all_hm_get [OF _ g, of "\<lambda>c. cs_bytes c = sum_list (map (serialized_len E) (cs_early c))"]
    by (simp add: staging_exact_def)
  then show ?thesis using True g
    by (intro staging_replace [OF assms g, of "st\<lparr>cs_validation := f (cs_validation st)\<rparr>"])
       (simp_all add: change_owner_validation_def)
qed (use assms in \<open>auto simp: change_owner_validation_def exact_same [OF same_staging_change(2)]\<close>)

lemma staging_staged:
  assumes "staging_exact E b"
  shows "staging_exact E (snd (stage_update E sid notification b))"
proof (cases "hm_get (br_staging b) sid")
  case (Some st)
  have "cs_bytes st = sum_list (map (serialized_len E) (cs_early st))"
    using assms all_hm_get [OF _ Some, of "\<lambda>c. cs_bytes c = sum_list (map (serialized_len E) (cs_early c))"]
    by (simp add: staging_exact_def)
  then show ?thesis using Some
    by (intro staging_replace [OF assms Some, of "st\<lparr>cs_early := cs_early st @ [notification],
          cs_bytes := cs_bytes st + serialized_len E notification\<rparr>"])
       (simp_all add: stage_update_def Let_def)
qed (use assms in \<open>simp add: stage_update_def\<close>)

lemma same_staging_view: "same_staging b (snd (session_view_value sid inc b))"
  unfolding session_view_value_def Let_def by (rule same_staging_then) simp_all

lemma same_staging_stream: "same_staging b (snd (stream_update E sid update b))"
proof -
  have m: "same_staging b (snd (stream_mirror E sid inc phase update b))" for inc phase
    unfolding stream_mirror_def
    by (auto intro!: same_staging_then same_staging_expect same_staging_view split: option.split)
  have s: "same_staging b (case d of Some n \<Rightarrow> notify n b | None \<Rightarrow> b)" for d b by (simp split: option.split)
  show ?thesis unfolding stream_update_def Let_def
    by (auto intro!: same_staging_then m s)
qed

lemma staging_delivered: "staging_exact E b \<Longrightarrow> staging_exact E (snd (deliver_update E sid update notification p b))"
proof -
  assume e: "staging_exact E b"
  have x: "staging_exact E b'" if "same_staging b b'" for b' using e exact_same [OF that] by simp
  show ?thesis
    using e by (simp add: deliver_update_def collect_control_def x same_staging_stream staging_staged split: option.split)
qed

lemma staging_judged:
  assumes "staging_exact E b"
  shows "staging_exact E (snd (judge_update E T sid update notification owner p b))"
proof -
  note c = staging_change [OF assms]
  have d: "staging_exact E (snd (deliver_update E sid update notification p (change_owner_validation sid owner f b)))" for f
    by (rule staging_delivered [OF c])
  show ?thesis
    using assms c d unfolding judge_update_def Let_def
    by (auto simp: expect_in_def split: result.split option.split prod.split)
qed

lemma staging_refused:
  assumes "staging_exact E b"
  shows "staging_exact E (refuse_replay E T sid owner p e b)"
proof -
  define b1 where "b1 = (if replays p then change_owner_validation sid owner (mark_invalid (T e)) b else b)"
  have 1: "staging_exact E b1" using assms staging_change by (simp add: b1_def)
  then have "staging_exact E (snd (run_sessions f b1))"
    for f :: "session_registry \<Rightarrow> (mirror_error, unit) result \<times> session_registry"
    using exact_same [OF same_staging_run] by blast
  with 1 show ?thesis unfolding refuse_replay_def Let_def b1_def [symmetric] by (simp split: option.split)
qed

lemma staging_ingested:
  assumes "staging_exact E b"
  shows "staging_exact E (ingest_update E T sid update notification owner b)"
proof -
  let ?p = "place_of sid b"
  obtain r b1 where j: "judge_update E T sid update notification owner ?p b = (r, b1)" by fastforce
  have 1: "staging_exact E b1" using staging_judged [OF assms, of T sid update notification owner ?p] j by simp
  have f: "staging_exact E (flush_bridge c)" if "staging_exact E c" for c
    using that exact_same [OF same_staging_flush(1)] by blast
  have u: "staging_exact E (update_error e c)" if "staging_exact E c" for e c
    using that exact_same [OF same_staging_put(2)] by (simp add: update_error_def)
  show ?thesis
    unfolding ingest_update_def Let_def j using assms 1 f u staging_refused [OF 1]
    by (cases r) auto
qed

lemma staging_claimed: "staging_exact E b \<Longrightarrow> staging_exact E (snd (claim_update sid b))"
proof -
  assume e: "staging_exact E b"
  have x: "staging_exact E b'" if "same_staging b b'" for b' using e exact_same [OF that] by simp
  have en: "staging_exact E (snd (ensure_staging sid b))"
  proof (cases "hm_get (br_staging b) sid")
    case None
    show ?thesis
      by (rule staging_new [OF e None, of "\<lparr>cs_validation = fst (new_validation b), cs_early = [], cs_bytes = 0\<rparr>"])
         (simp_all add: ensure_staging_def None Let_def new_validation_def)
  qed (use e in \<open>simp add: ensure_staging_def\<close>)
  have v: "same_staging b (snd (ensure_session_validation sid inc b))" for inc
    using same_staging_trans [OF same_staging_put(5) same_staging_change(1)]
    by (auto simp: ensure_session_validation_def new_validation_def try_in_def split: result.split option.split)
  show ?thesis
  proof (cases "live_session_incarnation sid b")
    case (Some inc)
    obtain r b1 where r: "ensure_session_validation sid inc b = (r, b1)" by fastforce
    with v [of inc] have "same_staging b b1" by simp
    then show ?thesis using Some r x same_staging_trans [OF _ same_staging_put(2)]
      by (cases r) (simp_all add: claim_update_def update_error_def)
  next
    case None
    then show ?thesis using e en x
      by (auto simp: claim_update_def update_error_def split: prod.split)
  qed
qed

section \<open>Runs of updates and creations\<close>

datatype staging_step =
    AgentUpdate string json json
  | ClaimUpdate string
  | IngestUpdate string json json update_owner
  | TakeEarly string
  | DiscardStaging string
  | ClearStaging
  | PromoteStaging string u64
  | PendingCreations nat
  | OtherWork session_registry

fun staging_do :: "env \<Rightarrow> (bridge_error \<Rightarrow> string) \<Rightarrow> staging_step \<Rightarrow> bridge_state \<Rightarrow> bridge_state" where
  "staging_do E T (AgentUpdate sid update notification) b = handle_session_update E T sid update notification b"
| "staging_do E T (ClaimUpdate sid) b = snd (claim_update sid b)"
| "staging_do E T (IngestUpdate sid update notification owner) b = ingest_update E T sid update notification owner b"
| "staging_do E T (TakeEarly sid) b = snd (take_creation_notifications sid b)"
| "staging_do E T (DiscardStaging sid) b = discard_creation_staging sid b"
| "staging_do E T ClearStaging b = clear_pending_creation_replays b"
| "staging_do E T (PromoteStaging sid inc) b = snd (promote_creation_validation sid inc b)"
| "staging_do E T (PendingCreations n) b = b\<lparr>br_pending_creations := n\<rparr>"
| "staging_do E T (OtherWork rg) b = put_sessions rg b"

text \<open>
  (C38) What is staged for sessions under creation is accounted exactly: through any run of updates,
  also with other work between the two parts of one, and of creations that take, discard, clear or
  promote their staging, the two counters are the number and the bytes of the notifications that are
  staged. Clearing leaves nothing behind.
\<close>

theorem staged_updates_are_accounted:
  "staging_exact E (fold (staging_do E T) steps (bridge_start epoch left capabilities observing timeout)) \<and>
   (let b = staging_do E T ClearStaging (fold (staging_do E T) steps (bridge_start epoch left capabilities observing timeout))
    in br_staging b = [] \<and> br_early_count b = 0 \<and> br_early_bytes b = 0)"
proof -
  have step: "staging_exact E (staging_do E T s b)" if e: "staging_exact E b" for s b
  proof (cases s)
    case (AgentUpdate sid update notification)
    have "staging_exact E b1" if "claim_update sid b = (x, b1)" for x b1 using staging_claimed [OF e, of sid] that by simp
    then show ?thesis using AgentUpdate staging_ingested
      by (auto simp: handle_session_update_def split: prod.split option.split)
  next
    case ClearStaging
    then show ?thesis by (simp add: clear_pending_creation_replays_def staging_fold [OF e])
  qed (use e in \<open>simp_all add: staging_claimed staging_ingested staging_taken staging_discarded staging_promoted
      exact_same [OF same_staging_put(6)] exact_same [OF same_staging_put(1)]\<close>)
  have "staging_exact E (fold (staging_do E T) steps b)" if "staging_exact E b" for b
    using that by (induction steps arbitrary: b) (simp_all add: step)
  then have "staging_exact E (fold (staging_do E T) steps (bridge_start epoch left capabilities observing timeout))"
    by (simp add: staging_exact_def bridge_start_def hm.wf_nil)
  then show ?thesis using staging_cleared by (simp add: Let_def)
qed

section \<open>The stream of a live session\<close>

definition res_ok :: "('e, 'a) result \<Rightarrow> bool" where
  "res_ok r \<longleftrightarrow> (case r of Ok _ \<Rightarrow> True | _ \<Rightarrow> False)"

lemma res_ok_simps [simp]: "res_ok (Ok a)" "\<not> res_ok (Err e)" "\<not> res_ok Panic" "res_ok (map_err f r) = res_ok r"
  by (simp_all add: res_ok_def split: result.split)

text \<open>Two runs that agree on the registry and on their success, one with the Bridge around it.\<close>

definition agrees :: "('e, 'a) result \<times> bridge_state \<Rightarrow> ('f, 'c) result \<times> session_registry \<Rightarrow> bool" where
  "agrees x y \<longleftrightarrow> res_ok (fst x) = res_ok (fst y) \<and> sessions (snd x) = snd y"

lemma agrees_run: "agrees (lift_bridge g (run_sessions f b)) (lift_err h (f (sessions b)))"
  by (simp add: agrees_def lift_bridge_def lift_err_def)

lemma agrees_then:
  assumes "agrees x y" "\<And>a b1 c rg1. x = (Ok a, b1) \<Longrightarrow> y = (Ok c, rg1) \<Longrightarrow> sessions b1 = rg1 \<Longrightarrow> agrees (f a b1) (g c rg1)"
  shows "agrees (call_then x f) (call_then y g)"
proof -
  obtain r b1 s rg1 where [simp]: "x = (r, b1)" "y = (s, rg1)" by (cases x; cases y) blast
  show ?thesis using assms by (cases r; cases s) (simp_all add: agrees_def)
qed

lemma append_turn_incarnation:
  assumes "mirror_append_turn_update E sid inc operation_id update rg = (Ok a, rg1)"
  shows "\<exists>s. state_of sid rg1 = Some s \<and> ss_incarnation s = inc"
proof -
  have "ss_incarnation (snd (append_turn_update E operation_id update s)) = ss_incarnation s" for s
    by (cases s rule: fold_overlay_update_cases [of E update])
       (auto simp: append_turn_update_def try_in_def dest: turn_folded_fields(2) split: option.split result.split)
  then have i: "ss_incarnation s' = ss_incarnation s" if "append_turn_update E operation_id update s = (r, s')" for r s s'
    using that by (metis snd_conv)
  show ?thesis
  proof (cases "require_state sid inc rg")
    case (Ok s)
    then have s: "state_of sid rg = Some s" "ss_incarnation s = inc" by (simp_all add: require_state_Ok)
    obtain r s' where a: "append_turn_update E operation_id update s = (r, s')" by fastforce
    obtain e where e: "entry_of sid rg = Some e" using s(1) by (auto simp: state_of_def)
    have f: "entry_of sid (g\<lparr>rg_overlay_bytes := n\<rparr>) = entry_of sid g" for g n by (simp add: entry_of_def)
    show ?thesis using assms Ok i [OF a] s(2) e
      by (cases r) (auto simp: f mirror_append_turn_update_def with_overlay_def account_overlay_def a state_of_def registry_simps)
  qed (use assms in \<open>simp_all add: mirror_append_turn_update_def with_overlay_def\<close>)
qed

lemma stream_mirror_agrees: "agrees (stream_mirror E sid inc phase update b) (mirror_stream E sid inc phase update (sessions b))"
proof (cases "if phase = Some Running then active_operation_id sid inc (sessions b) else None")
  case (Some operation_id)
  have d: "turn_delta sid inc update b1 \<noteq> None"
    if "mirror_append_turn_update E sid inc operation_id update (sessions b) = (Ok a, sessions b1)" for a b1
    using append_turn_incarnation [OF that] by (auto simp: turn_delta_def)
  let ?x = "lift_bridge BrMirror (run_sessions (mirror_append_turn_update E sid inc operation_id update) b)"
  obtain r rg where y: "mirror_append_turn_update E sid inc operation_id update (sessions b) = (r, rg)" by fastforce
  have x: "?x = (map_err BrMirror r, put_sessions rg b)" by (simp add: lift_bridge_def run_sessions_def y)
  show ?thesis
    using Some d [of _ "put_sessions rg b"]
    by (cases r) (auto simp: stream_mirror_def mirror_stream_def x y agrees_def lift_err_def put_sessions_def expect_in_def
        split: option.split)
next
  case None
  have v: "agrees (call_then (session_view_value sid inc b1) (\<lambda>view b2. (Ok (Some (ViewChanged sid view)), b2)))
      (call_then (lift_err UpdateHistory (mirror_view sid inc (sessions b1))) (\<lambda>_ rg2. (Ok (), rg2)))" for b1
  proof -
    obtain r rg where m: "mirror_view sid inc (sessions b1) = (r, rg)" by fastforce
    show ?thesis
      by (cases r) (simp_all add: agrees_def session_view_value_def Let_def lift_bridge_def run_sessions_def m lift_err_def put_sessions_def)
  qed
  show ?thesis
    using None by (auto simp: stream_mirror_def mirror_stream_def agrees_def [of "(Ok None, b)"]
        intro!: agrees_then [OF agrees_run] v)
qed

text \<open>
  The part of the Bridge that streams an update into a live session is the update of the registry
  whose publication the delivery of the runtime rests on: both succeed or both fail, and leave the same
  registry.
\<close>

theorem stream_update_is_live_update:
  "res_ok (fst (stream_update E sid update b)) = res_ok (fst (live_update E sid update (sessions b))) \<and>
   sessions (snd (stream_update E sid update b)) = snd (live_update E sid update (sessions b))"
proof -
  have p: "agrees (call_then (lift_bridge BrUpdate (run_sessions (project_stream E sid inc update) b1))
      (\<lambda>_ b2. (Ok (), case d of Some n \<Rightarrow> notify n b2 | None \<Rightarrow> b2))) (project_stream E sid inc update (sessions b1))" for inc d b1
  proof -
    obtain r rg where y: "project_stream E sid inc update (sessions b1) = (r, rg)" by fastforce
    show ?thesis
      by (cases r) (simp_all add: agrees_def lift_bridge_def run_sessions_def y put_sessions_def notify_def split: option.split)
  qed
  have "agrees (stream_update E sid update b) (live_update E sid update (sessions b))"
  proof (cases "attached_incarnation sid (sessions b) = None \<or> attached_incarnation sid (sessions b) = Some 0")
    case True
    then show ?thesis by (auto simp: stream_update_def live_update_def Let_def agrees_def)
  next
    case False
    then obtain inc where i: "attached_incarnation sid (sessions b) = Some inc" "inc \<noteq> 0" by auto
    show ?thesis
    proof (cases "is_conversation_update update")
      case True
      have "agrees (call_then (stream_mirror E sid inc phase update b) (\<lambda>delta b1.
             call_then (lift_bridge BrUpdate (run_sessions (project_stream E sid inc update) b1)) (\<lambda>_ b2. (Ok (),
               case delta of Some n \<Rightarrow> notify n b2 | None \<Rightarrow> b2))))
           (call_then (mirror_stream E sid inc phase update (sessions b)) (\<lambda>_ rg1. project_stream E sid inc update rg1))" for phase
        by (rule agrees_then [OF stream_mirror_agrees]) (use p in blast)
      then show ?thesis using i True by (simp add: stream_update_def live_update_def Let_def)
    next
      case False
      then show ?thesis using i agrees_run by (simp add: stream_update_def live_update_def Let_def)
    qed
  qed
  then show ?thesis by (simp add: agrees_def)
qed

end
