(* ===== verification/Bridge_Reservations.thy ===== *)
theory Bridge_Reservations
  imports Cold_Attachment
begin

text \<open>
  What the reservations of the Bridge promise: a replay validates from scratch and gives back what was
  validated before, unless it commits; and while a session is being deleted, nobody else deletes it or
  attaches it, until the reservation is given back.
\<close>

section \<open>The resources of a session\<close>

lemma change_ingest_entry:
  "entry_of sid (sessions b) = Some e \<Longrightarrow>
    change_ingest sid f b = put_sessions (put_resources sid (f (en_resources e)) (sessions b)) b"
  by (simp add: change_ingest_def change_resources_def state_of_def resources_of_def)

lemma change_resources_entry:
  "entry_of sid (sessions b) = Some e \<Longrightarrow> ss_incarnation (en_state e) = inc \<Longrightarrow>
    change_resources sid inc f b = put_sessions (put_resources sid (f (en_resources e)) (sessions b)) b"
  by (simp add: change_resources_def resources_of_def)

lemma validation_entry:
  "session_validation sid b = Option.bind (entry_of sid (sessions b)) (\<lambda>e. re_validation (en_resources e))"
  "replay_validation_backup sid b = Option.bind (entry_of sid (sessions b)) (\<lambda>e. re_replay_backup (en_resources e))"
  by (simp_all add: session_validation_def replay_validation_backup_def session_ingest_def state_of_def resources_of_def
      bind_map_option split: Option.bind_split)

lemma put_resources_twice [simp]:
  "entry_of sid rg = Some e \<Longrightarrow> put_resources sid r (put_resources sid r' rg) = put_resources sid r rg"
  by (simp add: put_resources_def registry_simps) (simp add: put_entry_def bt_insert_twice)

section \<open>Replays\<close>

text \<open>The owner of a replay validates updates: its validation changes, its allocation does not.\<close>

definition validated :: "string \<Rightarrow> semantic_state \<Rightarrow> bridge_state \<Rightarrow> bridge_state" where
  "validated sid v = change_ingest sid (\<lambda>r. r\<lparr>re_validation := Some v\<rparr>)"



section \<open>Deletions\<close>



end
