(* ===== verification/Spec2Isabelle.thy ===== *)
theory Spec2Isabelle
  imports Runtime_Delivery Session_Dispatch Elicitation_Validation Session_Presentation Scheduling_Guards
    Waiting_Views Session_Updates Bridge_Reservations
begin

text \<open>
  The Bridge of attyd: what it keeps of an Agent's sessions, and what reaches the browser.

  attyd runs between an Agent, which speaks the Agent Client Protocol over one connection, and browsers,
  which speak to its HTTP server. The Bridge (\<open>src/src/bridge.rs\<close>) owns one registry of sessions
  (\<open>session_registry.rs\<close>, with its operations spread over \<open>session_mirror.rs\<close> and \<open>runtime_state.rs\<close>).
  Everything a browser may see is published by the registry as a numbered delta; the server
  (\<open>server.rs\<close>) applies the deltas to its copy. All paths below are relative to \<open>src/src\<close>.

  Data and folds.
  \<^item> \<open>Prelude\<close>: the result type (a panic is a value of its own), saturation, the two maps of the standard
    library and the contract they share (locale \<open>keyed_map\<close>), runs of a component (locale \<open>preserving\<close>).
  \<^item> \<open>Json_Value\<close>: \<open>serde_json::Value\<close> with its accessors; \<open>Environment\<close>: the functions of other crates.
  \<^item> \<open>Turn_Fold\<close>: how a session update is folded into the retained updates of a turn
    (\<open>runtime_state.rs\<close>); \<open>Terminal_Output\<close>: how terminal output is folded and cut.
  \<^item> \<open>History_Fold\<close>, \<open>History_Replay\<close>: the reference fold of a history and the incremental builder of a
    load (\<open>history_cache.rs\<close>, \<open>history_replay.rs\<close>), which are proved equal.
  \<^item> \<open>Semantic\<close>: what the Agent may send (\<open>semantic.rs\<close>); what is accepted folds without an error.
  \<^item> \<open>Elicitation_Validation\<close>: which forms may be asked and which answers are sent back
    (\<open>elicitation_validation.rs\<close>).
  \<^item> \<open>Session_Presentation\<close>: the compact view and its pages (\<open>session_presentation.rs\<close>).

  The session and its owner.
  \<^item> \<open>Session_Types\<close>, \<open>Session_State\<close>: one session, the admission of turns and exclusive operations, the
    commit of a history (\<open>session_state.rs\<close>).
  \<^item> \<open>History_Cache\<close>: snapshots and load candidates (\<open>history_cache.rs\<close>).
  \<^item> \<open>Handles\<close>, \<open>Observers\<close>: permits, leases, channels and tokens; the observers of a session and its
    countdown (\<open>auto_close.rs\<close>, \<open>session_observation.rs\<close>, \<open>session_observers.rs\<close>).
  \<^item> \<open>Registry\<close>: entries, resources and the routes of interactions (\<open>session_registry.rs\<close>,
    \<open>session_resources.rs\<close>); the two kinds of interaction share the locale \<open>responder_routes\<close>.
  \<^item> \<open>Session_Mirror\<close>: the transactions of turns and histories over the whole registry
    (\<open>session_mirror.rs\<close>), with the account of retained overlay bytes.

  The runtime and its projection.
  \<^item> \<open>Runtime_Journal\<close>: the deltas kept for a slow consumer, and what retires them.
  \<^item> \<open>Session_Live\<close>, \<open>Runtime_State\<close>, \<open>Runtime_Interactions\<close>, \<open>Runtime_Operations\<close>: the published state
    and the operations on it (\<open>runtime_state.rs\<close>).
  \<^item> \<open>Runtime_Steps\<close>, \<open>Runtime_Outcomes\<close>, \<open>Runtime_Calls\<close>: every operation is one of a few kinds of step, or
    fails and changes nothing. \<open>Runtime_Invariants\<close>, \<open>Session_Frames\<close>: what every step keeps.
  \<^item> \<open>Canonical_Projection\<close>, \<open>Runtime_Projection\<close>: the server's copy, and that a committed delta takes a
    copy of the registry before a step to a copy of it afterwards.
  \<^item> \<open>Turn_Stream\<close>: an update the Agent streams (\<open>handle_session_update\<close>); \<open>Runtime_Delivery\<close>: the
    Bridge's cursor, the channel and the server, composed.

  Requests and their answers.
  \<^item> \<open>Ordered_Ingress\<close>: requests to the Agent and their completions (\<open>ordered_ingress.rs\<close>).
  \<^item> \<open>Session_Dispatch\<close>: the queues between the ingress and the sessions (\<open>session_dispatch.rs\<close>).
  \<^item> \<open>Completion_Handoff\<close>: how a completion and its guard reach the waiting task
    (\<open>completion_handoff.rs\<close>).
  \<^item> \<open>Inbound_Requests\<close>: requests of the Agent and their cancellation (\<open>bridge/inbound_requests.rs\<close>).
  \<^item> \<open>Bridge_Input\<close>, \<open>Scheduling\<close>: the scheduler (\<open>bridge/scheduling.rs\<close>): one shared queue, a lane of
    session queues and one of the connection, requests with their replays, built from the four above.
    \<open>Scheduling_Guards\<close>: its runs with everything that holds a delivery guard.

  The Bridge itself (\<open>bridge.rs\<close>, \<open>bridge/coordinator.rs\<close>).
  \<^item> \<open>Bridge_State\<close>: what it keeps beside the registry, and the functions that run under its lock.
  \<^item> \<open>Session_Views\<close>: requests to view or observe a session and the load they share; \<open>Waiting_Views\<close>: every
    one of them is answered once.
  \<^item> \<open>Cold_Attachment\<close>: the reservation of an attachment before the session has a queue;
    \<open>Bridge_Reservations\<close>: what a reservation excludes and what giving it back restores.
  \<^item> \<open>Session_Updates\<close>: the whole of \<open>handle_session_update\<close>, which rests on \<open>Turn_Stream\<close> for an open session.

  Correspondence. A definition has the name of the function it models, unless HOL uses that name; a long
  function is cut at its match arms and loop bodies. A function of \<open>&mut self\<close> returns its result and
  the new state; \<open>Err\<close> and \<open>Panic\<close> return the state as the code leaves it. Counters are \<^typ>\<open>64 word\<close>; a
  \<open>usize\<close> is a natural number whose saturation is written out. Strings are the bytes of their UTF-8
  form. A shared cell (\<open>Arc\<close>, \<open>Mutex\<close>, a oneshot channel, a token) is a number into a store; locks are
  held for one operation, so an operation is one step, and an interleaving is a list of steps.

  What the lemmas show. Each component has an invariant which every operation keeps, and its properties
  follow for every run. The runtime is refined in two stages: each operation settles to a step, and each
  step commits the delta that carries a projection along. The properties quantify over all runs; where an
  operation is guarded, the guard is what its callers check first:
  \<^item> \<open>room\<close>: the sequence and the incarnation counters have not reached \<open>u64::MAX\<close>, where the code stops;
  \<^item> \<open>call_ok\<close>, \<open>mirror_ok\<close>, \<open>action_ok\<close>, \<open>turn_runs\<close>: a call is made in the state its caller looked up
    under the same lock. A turn and its updates enter through the runtime, not through the mirror alone.

  Bounds and fuel. No model uses fuel for a loop of the code: all recursion is structural or has a
  measure. A follower of pages stops when no offset is returned, and its bound is the length of the turn;
  a channel that closes does so after a number of events given in advance.

  Parameters. \<open>Environment\<close> holds \<open>serde_json::to_vec\<close>, SHA-256, base64, the media-type pattern and the URL
  parser; the regex engine, the SDK's router and the serializer of a result are arguments where they are
  used. Assumptions on them stand in the theorem that needs them.

  Not modelled.
  \<^item> Tasks, timers and sockets: the connection loop of \<open>bridge.rs\<close> and its command handlers, the loop of
    \<open>bridge/coordinator.rs\<close>, \<open>bridge/agent_dispatch.rs\<close>, the routes of \<open>server.rs\<close>, \<open>agent_process.rs\<close>,
    \<open>websocket_agent.rs\<close>, \<open>dev_proxy.rs\<close>, \<open>auth_terminal.rs\<close>, \<open>main.rs\<close>. They are futures over the SDK,
    tokio and axum; their decisions on session state are calls of the operations modelled here.
  \<^item> The file system and processes: \<open>filesystem.rs\<close>, \<open>terminal.rs\<close>, \<open>mcp.rs\<close>, \<open>attachments.rs\<close>: what they do
    is system calls.
  \<^item> Logging, \<open>Display\<close> texts, size probes for tests and the tests themselves.
\<close>

end
